(* ===== verification/Lxb_Prelude.thy ===== *)
theory Lxb_Prelude
  imports Main "HOL-Library.Word" "HOL-Library.Monad_Syntax"
begin

text \<open>
  Vocabulary shared by all components of the model of the lexbor library:

  \<^item> machine types: \<open>lxb_char\<close> is the C type \<open>lxb_char_t\<close> (an unsigned byte) and
    \<open>size_t\<close> the 64 bit size type of the supported targets;
  \<^item> the status codes of \<open>core/base.h\<close>;
  \<^item> memory: an address is a natural number and address 0 is the null pointer; a
    byte memory maps an address to the byte stored there and is undefined at an
    address that does not belong to a live buffer.  Every definition that can
    dereference a null or dangling pointer or index out of bounds is option valued,
    and \<^const>\<open>None\<close> stands for exactly this undefined behaviour;
  \<^item> \<open>wp\<close>, the predicate ``the computation is defined and its result satisfies P'',
    with the rules by which the component proofs evaluate do-blocks;
  \<^item> the loop \<open>while (data != end) { switch (*data) ... data++; }\<close> that most of the
    tokenizer's functions consist of, with its invariant rule.
\<close>

section \<open>Machine types and status codes\<close>

type_synonym lxb_char = "8 word"
type_synonym size_t = "64 word"
type_synonym addr = nat
type_synonym lxb_tag_id = nat
type_synonym lxb_ns_id = nat
type_synonym bytemem = "addr \<rightharpoonup> lxb_char"

abbreviation (input) NULL :: addr where "NULL \<equiv> 0"
abbreviation (input) SIZE_MAX :: size_t where "SIZE_MAX \<equiv> - 1"

text \<open>Tags and namespaces that the code names.\<close>

abbreviation (input) LXB_TAG__UNDEF :: lxb_tag_id where "LXB_TAG__UNDEF \<equiv> 0"
abbreviation (input) LXB_TAG__END_OF_FILE :: lxb_tag_id where "LXB_TAG__END_OF_FILE \<equiv> 1"
abbreviation (input) LXB_TAG__TEXT :: lxb_tag_id where "LXB_TAG__TEXT \<equiv> 2"
abbreviation (input) LXB_TAG__EM_COMMENT :: lxb_tag_id where "LXB_TAG__EM_COMMENT \<equiv> 4"
abbreviation (input) LXB_TAG__EM_DOCTYPE :: lxb_tag_id where "LXB_TAG__EM_DOCTYPE \<equiv> 5"

abbreviation (input) LXB_NS__UNDEF :: lxb_ns_id where "LXB_NS__UNDEF \<equiv> 0"
abbreviation (input) LXB_NS_HTML :: lxb_ns_id where "LXB_NS_HTML \<equiv> 2"

datatype lxb_status =
    LXB_STATUS_OK
  | LXB_STATUS_ERROR
  | LXB_STATUS_ERROR_MEMORY_ALLOCATION
  | LXB_STATUS_ERROR_OBJECT_IS_NULL
  | LXB_STATUS_ERROR_SMALL_BUFFER
  | LXB_STATUS_ERROR_INCOMPLETE_OBJECT
  | LXB_STATUS_ERROR_NO_FREE_SLOT
  | LXB_STATUS_ERROR_TOO_SMALL_SIZE
  | LXB_STATUS_ERROR_NOT_EXISTS
  | LXB_STATUS_ERROR_WRONG_ARGS
  | LXB_STATUS_ERROR_WRONG_STAGE
  | LXB_STATUS_ERROR_UNEXPECTED_RESULT
  | LXB_STATUS_ERROR_UNEXPECTED_DATA
  | LXB_STATUS_CONTINUE
  | LXB_STATUS_SMALL_BUFFER
  | LXB_STATUS_ABORTED
  | LXB_STATUS_STOPPED
  | LXB_STATUS_NEXT
  | LXB_STATUS_STOP

section \<open>Defined computations\<close>

text \<open>\<open>wp m P\<close>: the computation \<open>m\<close> meets no undefined behaviour and its result
  satisfies \<open>P\<close>.\<close>

definition wp :: "'a option \<Rightarrow> ('a \<Rightarrow> bool) \<Rightarrow> bool" where
  "wp m P = (case m of None \<Rightarrow> False | Some x \<Rightarrow> P x)"

lemma wp_Some [simp]: "wp (Some x) P = P x"
  by (simp add: wp_def)

lemma wp_None [simp]: "wp None P = False"
  by (simp add: wp_def)

lemma wp_bind [simp]: "wp (Option.bind m f) P = wp m (\<lambda>x. wp (f x) P)"
  by (cases m) (simp_all add: wp_def)

lemma wp_iff: "wp m P \<longleftrightarrow> (\<exists>x. m = Some x \<and> P x)"
  by (cases m) (simp_all add: wp_def)

lemma wp_mono: "wp m P \<Longrightarrow> (\<And>x. P x \<Longrightarrow> Q x) \<Longrightarrow> wp m Q"
  by (cases m) (simp_all add: wp_def)

lemma wp_if [simp]: "wp (if b then m1 else m2) P = (if b then wp m1 P else wp m2 P)"
  by simp

lemma wp_Let [simp]: "wp (Let x f) P = wp (f x) P"
  by (simp add: Let_def)

section \<open>Byte ranges\<close>

text \<open>The bytes \<open>mem[a .. a + n)\<close>, undefined when one of them is not mapped.\<close>

fun mem_range :: "bytemem \<Rightarrow> addr \<Rightarrow> nat \<Rightarrow> lxb_char list option" where
  "mem_range m a 0 = Some []"
| "mem_range m a (Suc n) = do {
     c \<leftarrow> m a;
     cs \<leftarrow> mem_range m (Suc a) n;
     Some (c # cs)
   }"

definition mapped :: "bytemem \<Rightarrow> addr \<Rightarrow> addr \<Rightarrow> bool" where
  "mapped m a b = (\<forall>x. a \<le> x \<and> x < b \<longrightarrow> m x \<noteq> None)"

lemma mappedD: "mapped m a b \<Longrightarrow> a \<le> x \<Longrightarrow> x < b \<Longrightarrow> \<exists>c. m x = Some c"
  by (auto simp: mapped_def)

lemma mapped_sub: "mapped m a b \<Longrightarrow> a \<le> a' \<Longrightarrow> b' \<le> b \<Longrightarrow> mapped m a' b'"
  by (auto simp: mapped_def)

lemma mem_range_mapped:
  "mapped m a (a + n) \<Longrightarrow> \<exists>cs. mem_range m a n = Some cs \<and> length cs = n"
proof (induction n arbitrary: a)
  case (Suc n)
  obtain c where c: "m a = Some c"
    using mappedD [OF Suc.prems, of a] by auto
  obtain cs where "mem_range m (Suc a) n = Some cs" "length cs = n"
    using Suc.IH [of "Suc a"] mapped_sub [OF Suc.prems] by fastforce
  with c show ?case by simp
qed simp

lemma mem_range_length: "mem_range m a n = Some cs \<Longrightarrow> length cs = n"
  by (induction n arbitrary: a cs) (auto split: bind_splits)

lemma mem_range_nth: "mem_range m a n = Some cs \<Longrightarrow> i < n \<Longrightarrow> m (a + i) = Some (cs ! i)"
proof (induction n arbitrary: a cs i)
  case (Suc n)
  then show ?case by (cases i) (fastforce split: bind_splits)+
qed simp

lemma mem_range_add:
  "mem_range m a (n + k) = do { xs \<leftarrow> mem_range m a n; ys \<leftarrow> mem_range m (a + n) k; Some (xs @ ys) }"
proof (induction n arbitrary: a)
  case 0
  then show ?case by (cases "mem_range m a k") simp_all
next
  case (Suc n)
  show ?case
    by (cases "m a"; cases "mem_range m (Suc a) n"; cases "mem_range m (a + Suc n) k")
       (simp_all add: Suc.IH)
qed

section \<open>The scanning loop\<close>

text \<open>
  One turn of \<open>while (data != end) { ... data++; }\<close> either returns from the
  enclosing function with the tokenizer object and a position, or goes on to the
  next byte.  \<open>scan n\<close> runs at most the \<open>n = end - data\<close> turns there are.  A loop
  that starts beyond its end would never meet the condition \<open>data == end\<close> inside
  the buffer: it is undefined.
\<close>

datatype 't turn = Return 't addr | Next 't

fun scan :: "bytemem \<Rightarrow> nat \<Rightarrow> (lxb_char \<Rightarrow> 't \<Rightarrow> addr \<Rightarrow> 't turn option) \<Rightarrow> 't \<Rightarrow> addr
    \<Rightarrow> ('t \<times> addr) option" where
  "scan m 0 body t d = Some (t, d)"
| "scan m (Suc n) body t d = do {
     c \<leftarrow> m d;
     r \<leftarrow> body c t d;
     (case r of Return t' d' \<Rightarrow> Some (t', d') | Next t' \<Rightarrow> scan m n body t' (Suc d))
   }"

definition while_scan :: "bytemem \<Rightarrow> (lxb_char \<Rightarrow> 't \<Rightarrow> addr \<Rightarrow> 't turn option) \<Rightarrow> 't \<Rightarrow> addr \<Rightarrow> addr
    \<Rightarrow> ('t \<times> addr) option" where
  "while_scan m body t d e = (if d \<le> e then scan m (e - d) body t d else None)"

text \<open>The two ways of leaving a function: from the top level and from inside a loop.\<close>

abbreviation ret :: "'t \<Rightarrow> addr \<Rightarrow> ('t \<times> addr) option" where
  "ret t d \<equiv> Some (t, d)"

abbreviation lret :: "'t \<Rightarrow> addr \<Rightarrow> 't turn option" where
  "lret t d \<equiv> Some (Return t d)"

abbreviation cont :: "'t \<Rightarrow> 't turn option" where
  "cont t \<equiv> Some (Next t)"

definition turn_post :: "('t \<times> addr \<Rightarrow> bool) \<Rightarrow> ('t \<Rightarrow> bool) \<Rightarrow> 't turn \<Rightarrow> bool" where
  "turn_post P J r = (case r of Return t d \<Rightarrow> P (t, d) | Next t \<Rightarrow> J t)"

lemma turn_post_simps [simp]:
  "turn_post P J (Return t d) = P (t, d)"
  "turn_post P J (Next t) = J t"
  by (simp_all add: turn_post_def)

lemma scan_wp:
  assumes "\<And>t x c. J t x \<Longrightarrow> d \<le> x \<Longrightarrow> x < d + n \<Longrightarrow> m x = Some c
      \<Longrightarrow> wp (body c t x) (turn_post P (\<lambda>t'. J t' (Suc x)))"
    and "\<And>t. J t (d + n) \<Longrightarrow> P (t, d + n)"
    and "mapped m d (d + n)" and "J t d"
  shows "wp (scan m n body t d) P"
  using assms
proof (induction n arbitrary: t d)
  case (Suc n)
  obtain c where c: "m d = Some c"
    using mappedD [OF Suc.prems(3), of d] by auto
  have body: "wp (body c t d) (turn_post P (\<lambda>t'. J t' (Suc d)))"
    using Suc.prems(1) [OF Suc.prems(4) _ _ c] by simp
  have rest: "wp (scan m n body t' (Suc d)) P" if "J t' (Suc d)" for t'
  proof (rule Suc.IH [OF _ _ _ that])
    show "wp (body c t x) (turn_post P (\<lambda>t'. J t' (Suc x)))"
      if "J t x" "Suc d \<le> x" "x < Suc d + n" "m x = Some c" for t x c
      using that Suc.prems(1) by simp
    show "P (t, Suc d + n)" if "J t (Suc d + n)" for t
      using that Suc.prems(2) by simp
    show "mapped m (Suc d) (Suc d + n)"
      by (rule mapped_sub [OF Suc.prems(3)]) simp_all
  qed
  have "wp (body c t d) (\<lambda>r. wp (case r of Return t' d' \<Rightarrow> Some (t', d')
      | Next t' \<Rightarrow> scan m n body t' (Suc d)) P)"
    by (rule wp_mono [OF body]) (auto simp: rest split: turn.splits)
  then show ?case by (simp add: c)
qed simp

lemma while_scan_wp:
  assumes "mapped m d e" and "d \<le> e" and "J t d"
    and "\<And>t x c. J t x \<Longrightarrow> d \<le> x \<Longrightarrow> x < e \<Longrightarrow> m x = Some c
      \<Longrightarrow> wp (body c t x) (turn_post P (\<lambda>t'. J t' (Suc x)))"
    and "\<And>t. J t e \<Longrightarrow> P (t, e)"
  shows "wp (while_scan m body t d e) P"
  unfolding while_scan_def using assms by (auto intro!: scan_wp [where J = J])

section \<open>Words as numbers\<close>

lemma unat_plus_if_fits:
  fixes a b :: "'a::len word"
  assumes "unat a + unat b < 2 ^ LENGTH('a)"
  shows "unat (a + b) = unat a + unat b"
  using assms unat_add_lem by blast

lemma unat_times_if_fits:
  fixes a b :: "'a::len word"
  assumes "unat a * unat b < 2 ^ LENGTH('a)"
  shows "unat (a * b) = unat a * unat b"
  using assms unat_mult_lem by blast

end
