(* ===== verification/Lxb_In.thy ===== *)
theory Lxb_In
  imports Lxb_Prelude
begin

text \<open>
  The incoming buffers (\<open>core/in.c\<close>, \<open>core/in.h\<close>).  The text fed to the tokenizer
  arrives in chunks; every chunk is a node that points at its bytes and is linked
  to the chunk before and after it.  The nodes live in a heap \<open>in_heap\<close>, and a node
  pointer is an optional address of that heap, with \<^const>\<open>None\<close> for NULL.  Loops
  that follow the links are partial functions, so that a dangling link and an
  endless walk are both undefined.

  The section on chains describes the shape the tokenizer keeps: a doubly linked
  list of nodes over mapped, pairwise disjoint buffers.  On such a chain the walks
  are shown to return, and \<open>lexbor_in_node_pos_down\<close> is shown to be subtraction on
  the offsets of the whole text.
\<close>

section \<open>Nodes and operations\<close>

record lexbor_in_node =
  n_offset :: nat
  n_opt :: nat
  n_begin :: addr
  n_end :: addr
  n_use :: addr
  n_next :: "addr option"
  n_prev :: "addr option"

type_synonym in_heap = "addr \<rightharpoonup> lexbor_in_node"

abbreviation (input) LEXBOR_IN_OPT_UNDEF :: nat where "LEXBOR_IN_OPT_UNDEF \<equiv> 0"
abbreviation (input) LEXBOR_IN_OPT_ALLOC :: nat where "LEXBOR_IN_OPT_ALLOC \<equiv> 8"

text \<open>Dereferencing a node pointer.\<close>

definition in_deref :: "in_heap \<Rightarrow> addr option \<Rightarrow> lexbor_in_node option" where
  "in_deref h p = Option.bind p h"

lemma in_deref_Some [simp]: "in_deref h (Some a) = h a"
  by (simp add: in_deref_def)

lemma in_deref_None [simp]: "in_deref h None = None"
  by (simp add: in_deref_def)

definition in_update :: "in_heap \<Rightarrow> addr option \<Rightarrow> (lexbor_in_node \<Rightarrow> lexbor_in_node) \<Rightarrow> in_heap option" where
  "in_update h p f = do { a \<leftarrow> p; n \<leftarrow> h a; Some (h(a \<mapsto> f n)) }"

definition lexbor_in_segment :: "lexbor_in_node \<Rightarrow> addr \<Rightarrow> bool" where
  "lexbor_in_segment node data \<longleftrightarrow> n_begin node \<le> data \<and> n_end node \<ge> data"

text \<open>\<open>dobj\<close> is the address that the object pool \<open>incoming->nodes\<close> hands out for the
  new node, \<^const>\<open>None\<close> when it is out of memory.  The result is the heap and the
  pointer to the node.\<close>

definition lexbor_in_node_make :: "addr option \<Rightarrow> in_heap \<Rightarrow> addr option \<Rightarrow> addr \<Rightarrow> nat
    \<Rightarrow> (in_heap \<times> addr option) option" where
  "lexbor_in_node_make dobj h last_node buf buf_size =
    (case dobj of
       None \<Rightarrow> Some (h, None)
     | Some node \<Rightarrow>
         (case last_node of
            None \<Rightarrow>
              Some (h(node \<mapsto> \<lparr> n_offset = 0, n_opt = LEXBOR_IN_OPT_UNDEF, n_begin = buf,
                               n_end = buf + buf_size, n_use = buf,
                               n_next = None, n_prev = None \<rparr>), Some node)
          | Some l \<Rightarrow> do {
              last \<leftarrow> h l;
              let h = h(l \<mapsto> last\<lparr> n_next := Some node \<rparr>);
              Some (h(node \<mapsto> \<lparr> n_offset = n_offset last + (n_end last - n_begin last),
                               n_opt = LEXBOR_IN_OPT_UNDEF, n_begin = buf,
                               n_end = buf + buf_size, n_use = buf,
                               n_next = None, n_prev = Some l \<rparr>), Some node)
            }))"

definition lexbor_in_node_clean :: "in_heap \<Rightarrow> addr option \<Rightarrow> in_heap option" where
  "lexbor_in_node_clean h node =
     in_update h node (\<lambda>_. \<lparr> n_offset = 0, n_opt = 0, n_begin = NULL, n_end = NULL,
                             n_use = NULL, n_next = None, n_prev = None \<rparr>)"

text \<open>The node goes back to the pool: its address is no longer valid.\<close>

definition lexbor_in_node_destroy :: "in_heap \<Rightarrow> addr option \<Rightarrow> bool \<Rightarrow> (in_heap \<times> addr option) option" where
  "lexbor_in_node_destroy h node self_destroy =
    (case node of
       None \<Rightarrow> Some (h, None)
     | Some a \<Rightarrow> if self_destroy then Some (h(a := None), None) else Some (h, node))"

definition lexbor_in_node_split :: "addr option \<Rightarrow> in_heap \<Rightarrow> addr option \<Rightarrow> addr
    \<Rightarrow> (in_heap \<times> addr option) option" where
  "lexbor_in_node_split dobj h node pos = do {
     a \<leftarrow> node;
     n \<leftarrow> h a;
     (case dobj of
        None \<Rightarrow> Some (h, None)
      | Some new_node \<Rightarrow>
          let new = \<lparr> n_offset = n_offset n + (pos - n_begin n), n_opt = LEXBOR_IN_OPT_UNDEF,
                      n_begin = pos, n_end = n_end n,
                      n_use = (if n_use n > pos then n_use n else pos),
                      n_next = None, n_prev = node \<rparr>;
              old = n\<lparr> n_end := pos, n_next := Some new_node,
                      n_use := (if n_use n > pos then pos else n_use n) \<rparr>
          in Some (h(a \<mapsto> old, new_node \<mapsto> new), Some new_node))
   }"

text \<open>\<open>while (node->next) node = node->next;\<close>\<close>

partial_function (option) in_node_last :: "in_heap \<Rightarrow> addr \<Rightarrow> addr option" where
  "in_node_last h a = do {
     n \<leftarrow> h a;
     (case n_next n of None \<Rightarrow> Some a | Some b \<Rightarrow> in_node_last h b)
   }"

text \<open>\<open>while (node && (node->begin > pos || node->end < pos)) node = node->prev;\<close>\<close>

partial_function (option) in_node_find_back :: "in_heap \<Rightarrow> addr option \<Rightarrow> addr \<Rightarrow> addr option option" where
  "in_node_find_back h p pos =
    (case p of
       None \<Rightarrow> Some None
     | Some a \<Rightarrow> do {
         n \<leftarrow> h a;
         if n_begin n > pos \<or> n_end n < pos then in_node_find_back h (n_prev n) pos
         else Some p
       })"

definition lexbor_in_node_find :: "in_heap \<Rightarrow> addr option \<Rightarrow> addr \<Rightarrow> addr option option" where
  "lexbor_in_node_find h node pos = do {
     a \<leftarrow> node;
     l \<leftarrow> in_node_last h a;
     in_node_find_back h (Some l) pos
   }"

text \<open>The walks to a position at a distance from another one.  The intermediate
  \<open>pos - offset\<close> may lie in front of the node, so positions are integers here; the
  node at which the walk stops is the second result (\<open>*return_node\<close>).\<close>

partial_function (option) lexbor_in_node_pos_up :: "in_heap \<Rightarrow> addr option \<Rightarrow> int \<Rightarrow> int \<Rightarrow> (int \<times> addr) option" where
  "lexbor_in_node_pos_up h node pos offset = do {
     a \<leftarrow> node;
     n \<leftarrow> h a;
     let pos = pos + offset;
     if int (n_end n) \<ge> pos then Some (pos, a)
     else (case n_next n of
             None \<Rightarrow> Some (int (n_end n), a)
           | Some b \<Rightarrow> do {
               nb \<leftarrow> h b;
               lexbor_in_node_pos_up h (Some b) (int (n_begin nb)) (pos - int (n_end n))
             })
   }"

partial_function (option) lexbor_in_node_pos_down :: "in_heap \<Rightarrow> addr option \<Rightarrow> int \<Rightarrow> int \<Rightarrow> (int \<times> addr) option" where
  "lexbor_in_node_pos_down h node pos offset = do {
     a \<leftarrow> node;
     n \<leftarrow> h a;
     let pos = pos - offset;
     if int (n_begin n) \<le> pos then Some (pos, a)
     else (case n_prev n of
             None \<Rightarrow> Some (int (n_begin n), a)
           | Some b \<Rightarrow> do {
               nb \<leftarrow> h b;
               lexbor_in_node_pos_down h (Some b) (int (n_end nb)) (int (n_begin n) - pos)
             })
   }"

declare in_node_last.simps [code] in_node_find_back.simps [code]
  lexbor_in_node_pos_up.simps [code] lexbor_in_node_pos_down.simps [code]

section \<open>Chains of nodes\<close>

text \<open>\<open>in_chain h p nx as\<close>: \<open>as\<close> lists the nodes from the one \<open>p\<close> points at back to the
  first one; the links in both directions agree, and the node \<open>p\<close> is followed by \<open>nx\<close>.\<close>

fun in_chain :: "in_heap \<Rightarrow> addr option \<Rightarrow> addr option \<Rightarrow> addr list \<Rightarrow> bool" where
  "in_chain h p nx [] \<longleftrightarrow> p = None"
| "in_chain h p nx (a # as) \<longleftrightarrow> p = Some a \<and>
    (case h a of
       None \<Rightarrow> False
     | Some n \<Rightarrow> n_begin n \<le> n_end n \<and> n_next n = nx \<and> in_chain h (n_prev n) (Some a) as)"

definition node_len :: "in_heap \<Rightarrow> addr \<Rightarrow> nat" where
  "node_len h a = (case h a of None \<Rightarrow> 0 | Some n \<Rightarrow> n_end n - n_begin n)"

text \<open>The offset in the whole text of position \<open>pos\<close> in node \<open>a\<close>, where \<open>as\<close> are the nodes
  before it.\<close>

definition text_off :: "in_heap \<Rightarrow> addr \<Rightarrow> addr list \<Rightarrow> int \<Rightarrow> int" where
  "text_off h a as pos =
     int (sum_list (map (node_len h) as)) +
     (case h a of None \<Rightarrow> 0 | Some n \<Rightarrow> pos - int (n_begin n))"

lemma in_chain_node:
  "in_chain h p nx as \<Longrightarrow> a \<in> set as \<Longrightarrow> \<exists>n. h a = Some n \<and> n_begin n \<le> n_end n"
  by (induction as arbitrary: p nx) (auto split: option.splits)

lemma in_chain_split:
  "in_chain h p nx (xs @ a # ys) \<Longrightarrow>
   in_chain h (Some a) (if xs = [] then nx else Some (last xs)) (a # ys)"
proof (induction xs arbitrary: p nx)
  case (Cons x xs)
  from Cons.prems obtain n where "h x = Some n" and chain: "in_chain h (n_prev n) (Some x) (xs @ a # ys)"
    by (auto split: option.splits)
  from Cons.IH [OF chain] show ?case by (simp split: if_splits)
qed simp

lemma in_chain_det:
  "in_chain h p nx as \<Longrightarrow> in_chain h p nx' bs \<Longrightarrow> as = bs"
  by (induction as arbitrary: p nx nx' bs) (case_tac bs; auto split: option.splits)+

lemma in_chain_distinct: "in_chain h p nx as \<Longrightarrow> distinct as"
proof (induction as arbitrary: p nx)
  case (Cons a as)
  then obtain n where n: "h a = Some n" and rest: "in_chain h (n_prev n) (Some a) as"
    by (auto split: option.splits)
  have "a \<notin> set as"
  proof
    assume "a \<in> set as"
    then obtain xs ys where "as = xs @ a # ys"
      by (meson split_list)
    then have "in_chain h (Some a) (if xs = [] then Some a else Some (last xs)) (a # ys)"
      using in_chain_split rest by blast
    then have "a # ys = a # as"
      using in_chain_det Cons.prems by (metis in_chain.simps(2))
    then show False
      using \<open>as = xs @ a # ys\<close> by simp
  qed
  then show ?case
    using Cons.IH rest by simp
qed simp

text \<open>Walking down a chain by \<open>k\<close> bytes is defined, stays in the chain, and is truncated
  subtraction on text offsets.\<close>

lemma pos_down_chain:
  assumes "in_chain h (Some a) nx (a # as)" and "h a = Some n"
    and "int (n_begin n) \<le> pos" and "pos \<le> int (n_end n)" and "0 \<le> k"
  shows "\<exists>q b bs m. lexbor_in_node_pos_down h (Some a) pos k = Some (q, b) \<and>
    (\<exists>pre. a # as = pre @ b # bs) \<and> h b = Some m \<and>
    int (n_begin m) \<le> q \<and> q \<le> int (n_end m) \<and>
    text_off h b bs q = max 0 (text_off h a as pos - k)"
  using assms
proof (induction as arbitrary: a nx n pos k)
  case Nil
  then have prev: "n_prev n = None" by simp
  have "lexbor_in_node_pos_down h (Some a) pos k =
      Some (if int (n_begin n) \<le> pos - k then pos - k else int (n_begin n), a)"
    using Nil.prems prev by (subst lexbor_in_node_pos_down.simps) simp
  with Nil.prems show ?case
    by (intro exI [of _ "if int (n_begin n) \<le> pos - k then pos - k else int (n_begin n)"]
        exI [of _ a] exI [of _ "[]"] exI [of _ n]) (auto simp: text_off_def)
next
  case (Cons b bs)
  then have prev: "n_prev n = Some b" and
    chain: "in_chain h (Some b) (Some a) (b # bs)"
    by (auto split: option.splits)
  then obtain nb where nb: "h b = Some nb" and nb_le: "n_begin nb \<le> n_end nb"
    by (auto split: option.splits)
  show ?case
  proof (cases "int (n_begin n) \<le> pos - k")
    case True
    have "lexbor_in_node_pos_down h (Some a) pos k = Some (pos - k, a)"
      using Cons.prems True by (subst lexbor_in_node_pos_down.simps) simp
    with Cons.prems True show ?thesis
      by (intro exI [of _ "pos - k"] exI [of _ a] exI [of _ "b # bs"] exI [of _ n])
         (auto simp: text_off_def)
  next
    case False
    have eq: "lexbor_in_node_pos_down h (Some a) pos k =
        lexbor_in_node_pos_down h (Some b) (int (n_end nb)) (int (n_begin n) - (pos - k))"
      using Cons.prems False prev nb by (subst lexbor_in_node_pos_down.simps) (simp add: Let_def)
    have "\<exists>q c cs m. lexbor_in_node_pos_down h (Some b) (int (n_end nb))
          (int (n_begin n) - (pos - k)) = Some (q, c) \<and>
        (\<exists>pre. b # bs = pre @ c # cs) \<and> h c = Some m \<and>
        int (n_begin m) \<le> q \<and> q \<le> int (n_end m) \<and>
        text_off h c cs q = max 0 (text_off h b bs (int (n_end nb)) - (int (n_begin n) - (pos - k)))"
      using False Cons.prems(2-5) nb_le by (intro Cons.IH [OF chain nb]) auto
    then obtain q c cs m where
      res: "lexbor_in_node_pos_down h (Some b) (int (n_end nb))
          (int (n_begin n) - (pos - k)) = Some (q, c)" and
      pre: "\<exists>pre. b # bs = pre @ c # cs" and
      rest: "h c = Some m" "int (n_begin m) \<le> q" "q \<le> int (n_end m)"
        "text_off h c cs q =
           max 0 (text_off h b bs (int (n_end nb)) - (int (n_begin n) - (pos - k)))"
      by blast
    have pre': "\<exists>pre. a # b # bs = pre @ c # cs"
      using pre by (metis append_Cons)
    have "text_off h b bs (int (n_end nb)) = text_off h a (b # bs) (int (n_begin n))"
      using Cons.prems(2) nb nb_le by (simp add: text_off_def node_len_def)
    then have "text_off h c cs q = max 0 (text_off h a (b # bs) pos - k)"
      using rest(4) Cons.prems(2) by (simp add: text_off_def)
    with eq res pre' rest show ?thesis by metis
  qed
qed

end
