(* ===== verification/Lxb_Str.thy ===== *)
theory Lxb_Str
  imports Lxb_Prelude
begin

text \<open>
  Character tables and byte string comparisons (\<open>core/str_res.h\<close>, \<open>core/str.c\<close>).
  The tables are the literal arrays of the source, indexed by the byte; each is
  shown to compute the character class or case mapping it stands for.  The data
  functions work on the bytes the C code reads, given as lists.
\<close>

section \<open>Tables\<close>

abbreviation (input) LEXBOR_STR_RES_SLIP :: nat where "LEXBOR_STR_RES_SLIP \<equiv> 0xff"

definition lexbor_str_res_map_num :: "lxb_char list" where
  "lexbor_str_res_map_num = [
    0xff, 0xff, 0xff, 0xff, 0xff, 0xff, 0xff, 0xff, 0xff, 0xff, 0xff, 0xff, 0xff, 0xff, 0xff, 0xff,
    0xff, 0xff, 0xff, 0xff, 0xff, 0xff, 0xff, 0xff, 0xff, 0xff, 0xff, 0xff, 0xff, 0xff, 0xff, 0xff,
    0xff, 0xff, 0xff, 0xff, 0xff, 0xff, 0xff, 0xff, 0xff, 0xff, 0xff, 0xff, 0xff, 0xff, 0xff, 0xff,
    0x00, 0x01, 0x02, 0x03, 0x04, 0x05, 0x06, 0x07, 0x08, 0x09, 0xff, 0xff, 0xff, 0xff, 0xff, 0xff,
    0xff, 0xff, 0xff, 0xff, 0xff, 0xff, 0xff, 0xff, 0xff, 0xff, 0xff, 0xff, 0xff, 0xff, 0xff, 0xff,
    0xff, 0xff, 0xff, 0xff, 0xff, 0xff, 0xff, 0xff, 0xff, 0xff, 0xff, 0xff, 0xff, 0xff, 0xff, 0xff,
    0xff, 0xff, 0xff, 0xff, 0xff, 0xff, 0xff, 0xff, 0xff, 0xff, 0xff, 0xff, 0xff, 0xff, 0xff, 0xff,
    0xff, 0xff, 0xff, 0xff, 0xff, 0xff, 0xff, 0xff, 0xff, 0xff, 0xff, 0xff, 0xff, 0xff, 0xff, 0xff,
    0xff, 0xff, 0xff, 0xff, 0xff, 0xff, 0xff, 0xff, 0xff, 0xff, 0xff, 0xff, 0xff, 0xff, 0xff, 0xff,
    0xff, 0xff, 0xff, 0xff, 0xff, 0xff, 0xff, 0xff, 0xff, 0xff, 0xff, 0xff, 0xff, 0xff, 0xff, 0xff,
    0xff, 0xff, 0xff, 0xff, 0xff, 0xff, 0xff, 0xff, 0xff, 0xff, 0xff, 0xff, 0xff, 0xff, 0xff, 0xff,
    0xff, 0xff, 0xff, 0xff, 0xff, 0xff, 0xff, 0xff, 0xff, 0xff, 0xff, 0xff, 0xff, 0xff, 0xff, 0xff,
    0xff, 0xff, 0xff, 0xff, 0xff, 0xff, 0xff, 0xff, 0xff, 0xff, 0xff, 0xff, 0xff, 0xff, 0xff, 0xff,
    0xff, 0xff, 0xff, 0xff, 0xff, 0xff, 0xff, 0xff, 0xff, 0xff, 0xff, 0xff, 0xff, 0xff, 0xff, 0xff,
    0xff, 0xff, 0xff, 0xff, 0xff, 0xff, 0xff, 0xff, 0xff, 0xff, 0xff, 0xff, 0xff, 0xff, 0xff, 0xff,
    0xff, 0xff, 0xff, 0xff, 0xff, 0xff, 0xff, 0xff, 0xff, 0xff, 0xff, 0xff, 0xff, 0xff, 0xff, 0xff]"

definition lexbor_str_res_map_hex :: "lxb_char list" where
  "lexbor_str_res_map_hex = [
    0xff, 0xff, 0xff, 0xff, 0xff, 0xff, 0xff, 0xff, 0xff, 0xff, 0xff, 0xff, 0xff, 0xff, 0xff, 0xff,
    0xff, 0xff, 0xff, 0xff, 0xff, 0xff, 0xff, 0xff, 0xff, 0xff, 0xff, 0xff, 0xff, 0xff, 0xff, 0xff,
    0xff, 0xff, 0xff, 0xff, 0xff, 0xff, 0xff, 0xff, 0xff, 0xff, 0xff, 0xff, 0xff, 0xff, 0xff, 0xff,
    0x00, 0x01, 0x02, 0x03, 0x04, 0x05, 0x06, 0x07, 0x08, 0x09, 0xff, 0xff, 0xff, 0xff, 0xff, 0xff,
    0xff, 0x0a, 0x0b, 0x0c, 0x0d, 0x0e, 0x0f, 0xff, 0xff, 0xff, 0xff, 0xff, 0xff, 0xff, 0xff, 0xff,
    0xff, 0xff, 0xff, 0xff, 0xff, 0xff, 0xff, 0xff, 0xff, 0xff, 0xff, 0xff, 0xff, 0xff, 0xff, 0xff,
    0xff, 0x0a, 0x0b, 0x0c, 0x0d, 0x0e, 0x0f, 0xff, 0xff, 0xff, 0xff, 0xff, 0xff, 0xff, 0xff, 0xff,
    0xff, 0xff, 0xff, 0xff, 0xff, 0xff, 0xff, 0xff, 0xff, 0xff, 0xff, 0xff, 0xff, 0xff, 0xff, 0xff,
    0xff, 0xff, 0xff, 0xff, 0xff, 0xff, 0xff, 0xff, 0xff, 0xff, 0xff, 0xff, 0xff, 0xff, 0xff, 0xff,
    0xff, 0xff, 0xff, 0xff, 0xff, 0xff, 0xff, 0xff, 0xff, 0xff, 0xff, 0xff, 0xff, 0xff, 0xff, 0xff,
    0xff, 0xff, 0xff, 0xff, 0xff, 0xff, 0xff, 0xff, 0xff, 0xff, 0xff, 0xff, 0xff, 0xff, 0xff, 0xff,
    0xff, 0xff, 0xff, 0xff, 0xff, 0xff, 0xff, 0xff, 0xff, 0xff, 0xff, 0xff, 0xff, 0xff, 0xff, 0xff,
    0xff, 0xff, 0xff, 0xff, 0xff, 0xff, 0xff, 0xff, 0xff, 0xff, 0xff, 0xff, 0xff, 0xff, 0xff, 0xff,
    0xff, 0xff, 0xff, 0xff, 0xff, 0xff, 0xff, 0xff, 0xff, 0xff, 0xff, 0xff, 0xff, 0xff, 0xff, 0xff,
    0xff, 0xff, 0xff, 0xff, 0xff, 0xff, 0xff, 0xff, 0xff, 0xff, 0xff, 0xff, 0xff, 0xff, 0xff, 0xff,
    0xff, 0xff, 0xff, 0xff, 0xff, 0xff, 0xff, 0xff, 0xff, 0xff, 0xff, 0xff, 0xff, 0xff, 0xff, 0xff]"

definition lexbor_str_res_map_lowercase :: "lxb_char list" where
  "lexbor_str_res_map_lowercase = [
    0x00, 0x01, 0x02, 0x03, 0x04, 0x05, 0x06, 0x07, 0x08, 0x09, 0x0a, 0x0b, 0x0c, 0x0d, 0x0e, 0x0f,
    0x10, 0x11, 0x12, 0x13, 0x14, 0x15, 0x16, 0x17, 0x18, 0x19, 0x1a, 0x1b, 0x1c, 0x1d, 0x1e, 0x1f,
    0x20, 0x21, 0x22, 0x23, 0x24, 0x25, 0x26, 0x27, 0x28, 0x29, 0x2a, 0x2b, 0x2c, 0x2d, 0x2e, 0x2f,
    0x30, 0x31, 0x32, 0x33, 0x34, 0x35, 0x36, 0x37, 0x38, 0x39, 0x3a, 0x3b, 0x3c, 0x3d, 0x3e, 0x3f,
    0x40, 0x61, 0x62, 0x63, 0x64, 0x65, 0x66, 0x67, 0x68, 0x69, 0x6a, 0x6b, 0x6c, 0x6d, 0x6e, 0x6f,
    0x70, 0x71, 0x72, 0x73, 0x74, 0x75, 0x76, 0x77, 0x78, 0x79, 0x7a, 0x5b, 0x5c, 0x5d, 0x5e, 0x5f,
    0x60, 0x61, 0x62, 0x63, 0x64, 0x65, 0x66, 0x67, 0x68, 0x69, 0x6a, 0x6b, 0x6c, 0x6d, 0x6e, 0x6f,
    0x70, 0x71, 0x72, 0x73, 0x74, 0x75, 0x76, 0x77, 0x78, 0x79, 0x7a, 0x7b, 0x7c, 0x7d, 0x7e, 0x7f,
    0x80, 0x81, 0x82, 0x83, 0x84, 0x85, 0x86, 0x87, 0x88, 0x89, 0x8a, 0x8b, 0x8c, 0x8d, 0x8e, 0x8f,
    0x90, 0x91, 0x92, 0x93, 0x94, 0x95, 0x96, 0x97, 0x98, 0x99, 0x9a, 0x9b, 0x9c, 0x9d, 0x9e, 0x9f,
    0xa0, 0xa1, 0xa2, 0xa3, 0xa4, 0xa5, 0xa6, 0xa7, 0xa8, 0xa9, 0xaa, 0xab, 0xac, 0xad, 0xae, 0xaf,
    0xb0, 0xb1, 0xb2, 0xb3, 0xb4, 0xb5, 0xb6, 0xb7, 0xb8, 0xb9, 0xba, 0xbb, 0xbc, 0xbd, 0xbe, 0xbf,
    0xc0, 0xc1, 0xc2, 0xc3, 0xc4, 0xc5, 0xc6, 0xc7, 0xc8, 0xc9, 0xca, 0xcb, 0xcc, 0xcd, 0xce, 0xcf,
    0xd0, 0xd1, 0xd2, 0xd3, 0xd4, 0xd5, 0xd6, 0xd7, 0xd8, 0xd9, 0xda, 0xdb, 0xdc, 0xdd, 0xde, 0xdf,
    0xe0, 0xe1, 0xe2, 0xe3, 0xe4, 0xe5, 0xe6, 0xe7, 0xe8, 0xe9, 0xea, 0xeb, 0xec, 0xed, 0xee, 0xef,
    0xf0, 0xf1, 0xf2, 0xf3, 0xf4, 0xf5, 0xf6, 0xf7, 0xf8, 0xf9, 0xfa, 0xfb, 0xfc, 0xfd, 0xfe, 0xff]"

definition lexbor_str_res_map_uppercase :: "lxb_char list" where
  "lexbor_str_res_map_uppercase = [
    0x00, 0x01, 0x02, 0x03, 0x04, 0x05, 0x06, 0x07, 0x08, 0x09, 0x0a, 0x0b, 0x0c, 0x0d, 0x0e, 0x0f,
    0x10, 0x11, 0x12, 0x13, 0x14, 0x15, 0x16, 0x17, 0x18, 0x19, 0x1a, 0x1b, 0x1c, 0x1d, 0x1e, 0x1f,
    0x20, 0x21, 0x22, 0x23, 0x24, 0x25, 0x26, 0x27, 0x28, 0x29, 0x2a, 0x2b, 0x2c, 0x2d, 0x2e, 0x2f,
    0x30, 0x31, 0x32, 0x33, 0x34, 0x35, 0x36, 0x37, 0x38, 0x39, 0x3a, 0x3b, 0x3c, 0x3d, 0x3e, 0x3f,
    0x40, 0x41, 0x42, 0x43, 0x44, 0x45, 0x46, 0x47, 0x48, 0x49, 0x4a, 0x4b, 0x4c, 0x4d, 0x4e, 0x4f,
    0x50, 0x51, 0x52, 0x53, 0x54, 0x55, 0x56, 0x57, 0x58, 0x59, 0x5a, 0x5b, 0x5c, 0x5d, 0x5e, 0x5f,
    0x60, 0x41, 0x42, 0x43, 0x44, 0x45, 0x46, 0x47, 0x48, 0x49, 0x4a, 0x4b, 0x4c, 0x4d, 0x4e, 0x4f,
    0x50, 0x51, 0x52, 0x53, 0x54, 0x55, 0x56, 0x57, 0x58, 0x59, 0x5a, 0x7b, 0x7c, 0x7d, 0x7e, 0x7f,
    0x80, 0x81, 0x82, 0x83, 0x84, 0x85, 0x86, 0x87, 0x88, 0x89, 0x8a, 0x8b, 0x8c, 0x8d, 0x8e, 0x8f,
    0x90, 0x91, 0x92, 0x93, 0x94, 0x95, 0x96, 0x97, 0x98, 0x99, 0x9a, 0x9b, 0x9c, 0x9d, 0x9e, 0x9f,
    0xa0, 0xa1, 0xa2, 0xa3, 0xa4, 0xa5, 0xa6, 0xa7, 0xa8, 0xa9, 0xaa, 0xab, 0xac, 0xad, 0xae, 0xaf,
    0xb0, 0xb1, 0xb2, 0xb3, 0xb4, 0xb5, 0xb6, 0xb7, 0xb8, 0xb9, 0xba, 0xbb, 0xbc, 0xbd, 0xbe, 0xbf,
    0xc0, 0xc1, 0xc2, 0xc3, 0xc4, 0xc5, 0xc6, 0xc7, 0xc8, 0xc9, 0xca, 0xcb, 0xcc, 0xcd, 0xce, 0xcf,
    0xd0, 0xd1, 0xd2, 0xd3, 0xd4, 0xd5, 0xd6, 0xd7, 0xd8, 0xd9, 0xda, 0xdb, 0xdc, 0xdd, 0xde, 0xdf,
    0xe0, 0xe1, 0xe2, 0xe3, 0xe4, 0xe5, 0xe6, 0xe7, 0xe8, 0xe9, 0xea, 0xeb, 0xec, 0xed, 0xee, 0xef,
    0xf0, 0xf1, 0xf2, 0xf3, 0xf4, 0xf5, 0xf6, 0xf7, 0xf8, 0xf9, 0xfa, 0xfb, 0xfc, 0xfd, 0xfe, 0xff]"

definition lexbor_str_res_alphanumeric_character :: "nat list" where
  "lexbor_str_res_alphanumeric_character = [
    0xff, 0xff, 0xff, 0xff, 0xff, 0xff, 0xff, 0xff, 0xff, 0xff, 0xff, 0xff, 0xff, 0xff, 0xff, 0xff,
    0xff, 0xff, 0xff, 0xff, 0xff, 0xff, 0xff, 0xff, 0xff, 0xff, 0xff, 0xff, 0xff, 0xff, 0xff, 0xff,
    0xff, 0xff, 0xff, 0xff, 0xff, 0xff, 0xff, 0xff, 0xff, 0xff, 0xff, 0xff, 0xff, 0xff, 0xff, 0xff,
    0x00, 0x01, 0x02, 0x03, 0x04, 0x05, 0x06, 0x07, 0x08, 0x09, 0xff, 0xff, 0xff, 0xff, 0xff, 0xff,
    0xff, 0x0a, 0x0b, 0x0c, 0x0d, 0x0e, 0x0f, 0x0a, 0x0b, 0x0c, 0x0d, 0x0e, 0x0f, 0x0a, 0x0b, 0x0c,
    0x0d, 0x0e, 0x0f, 0x0a, 0x0b, 0x0c, 0x0d, 0x0e, 0x0f, 0x0a, 0x0b, 0xff, 0xff, 0xff, 0xff, 0xff,
    0xff, 0x0c, 0x0d, 0x0e, 0x0f, 0x0a, 0x0b, 0x0c, 0x0d, 0x0e, 0x0f, 0x0a, 0x0b, 0x0c, 0x0d, 0x0e,
    0x0f, 0x0a, 0x0b, 0x0c, 0x0d, 0x0e, 0x0f, 0x0a, 0x0b, 0x0c, 0x0d, 0xff, 0xff, 0xff, 0xff, 0xff,
    0xff, 0xff, 0xff, 0xff, 0xff, 0xff, 0xff, 0xff, 0xff, 0xff, 0xff, 0xff, 0xff, 0xff, 0xff, 0xff,
    0xff, 0xff, 0xff, 0xff, 0xff, 0xff, 0xff, 0xff, 0xff, 0xff, 0xff, 0xff, 0xff, 0xff, 0xff, 0xff,
    0xff, 0xff, 0xff, 0xff, 0xff, 0xff, 0xff, 0xff, 0xff, 0xff, 0xff, 0xff, 0xff, 0xff, 0xff, 0xff,
    0xff, 0xff, 0xff, 0xff, 0xff, 0xff, 0xff, 0xff, 0xff, 0xff, 0xff, 0xff, 0xff, 0xff, 0xff, 0xff,
    0xff, 0xff, 0xff, 0xff, 0xff, 0xff, 0xff, 0xff, 0xff, 0xff, 0xff, 0xff, 0xff, 0xff, 0xff, 0xff,
    0xff, 0xff, 0xff, 0xff, 0xff, 0xff, 0xff, 0xff, 0xff, 0xff, 0xff, 0xff, 0xff, 0xff, 0xff, 0xff,
    0xff, 0xff, 0xff, 0xff, 0xff, 0xff, 0xff, 0xff, 0xff, 0xff, 0xff, 0xff, 0xff, 0xff, 0xff, 0xff,
    0xff, 0xff, 0xff, 0xff, 0xff, 0xff, 0xff, 0xff, 0xff, 0xff, 0xff, 0xff, 0xff, 0xff, 0xff, 0xff]"

definition lexbor_str_res_alpha_character :: "nat list" where
  "lexbor_str_res_alpha_character = [
    0xff, 0xff, 0xff, 0xff, 0xff, 0xff, 0xff, 0xff, 0xff, 0xff, 0xff, 0xff, 0xff, 0xff, 0xff, 0xff,
    0xff, 0xff, 0xff, 0xff, 0xff, 0xff, 0xff, 0xff, 0xff, 0xff, 0xff, 0xff, 0xff, 0xff, 0xff, 0xff,
    0xff, 0xff, 0xff, 0xff, 0xff, 0xff, 0xff, 0xff, 0xff, 0xff, 0xff, 0xff, 0xff, 0xff, 0xff, 0xff,
    0xff, 0xff, 0xff, 0xff, 0xff, 0xff, 0xff, 0xff, 0xff, 0xff, 0xff, 0xff, 0xff, 0xff, 0xff, 0xff,
    0xff, 0x0a, 0x0b, 0x0c, 0x0d, 0x0e, 0x0f, 0x0a, 0x0b, 0x0c, 0x0d, 0x0e, 0x0f, 0x0a, 0x0b, 0x0c,
    0x0d, 0x0e, 0x0f, 0x0a, 0x0b, 0x0c, 0x0d, 0x0e, 0x0f, 0x0a, 0x0b, 0xff, 0xff, 0xff, 0xff, 0xff,
    0xff, 0x0c, 0x0d, 0x0e, 0x0f, 0x0a, 0x0b, 0x0c, 0x0d, 0x0e, 0x0f, 0x0a, 0x0b, 0x0c, 0x0d, 0x0e,
    0x0f, 0x0a, 0x0b, 0x0c, 0x0d, 0x0e, 0x0f, 0x0a, 0x0b, 0x0c, 0x0d, 0xff, 0xff, 0xff, 0xff, 0xff,
    0xff, 0xff, 0xff, 0xff, 0xff, 0xff, 0xff, 0xff, 0xff, 0xff, 0xff, 0xff, 0xff, 0xff, 0xff, 0xff,
    0xff, 0xff, 0xff, 0xff, 0xff, 0xff, 0xff, 0xff, 0xff, 0xff, 0xff, 0xff, 0xff, 0xff, 0xff, 0xff,
    0xff, 0xff, 0xff, 0xff, 0xff, 0xff, 0xff, 0xff, 0xff, 0xff, 0xff, 0xff, 0xff, 0xff, 0xff, 0xff,
    0xff, 0xff, 0xff, 0xff, 0xff, 0xff, 0xff, 0xff, 0xff, 0xff, 0xff, 0xff, 0xff, 0xff, 0xff, 0xff,
    0xff, 0xff, 0xff, 0xff, 0xff, 0xff, 0xff, 0xff, 0xff, 0xff, 0xff, 0xff, 0xff, 0xff, 0xff, 0xff,
    0xff, 0xff, 0xff, 0xff, 0xff, 0xff, 0xff, 0xff, 0xff, 0xff, 0xff, 0xff, 0xff, 0xff, 0xff, 0xff,
    0xff, 0xff, 0xff, 0xff, 0xff, 0xff, 0xff, 0xff, 0xff, 0xff, 0xff, 0xff, 0xff, 0xff, 0xff, 0xff,
    0xff, 0xff, 0xff, 0xff, 0xff, 0xff, 0xff, 0xff, 0xff, 0xff, 0xff, 0xff, 0xff, 0xff, 0xff, 0xff]"

text \<open>Indexing a table by a byte, as \<open>table[c]\<close> in C.\<close>

definition tbl :: "'a list \<Rightarrow> lxb_char \<Rightarrow> 'a" where
  "tbl t c = t ! unat c"

definition is_alpha :: "lxb_char \<Rightarrow> bool" where
  "is_alpha c \<longleftrightarrow> tbl lexbor_str_res_alpha_character c \<noteq> LEXBOR_STR_RES_SLIP"

definition lowercase :: "lxb_char \<Rightarrow> lxb_char" where
  "lowercase c = tbl lexbor_str_res_map_lowercase c"

definition uppercase :: "lxb_char \<Rightarrow> lxb_char" where
  "uppercase c = tbl lexbor_str_res_map_uppercase c"

lemma tbl_by_spec:
  assumes "t = map (\<lambda>n. f (word_of_nat n)) [0..<256]"
  shows "tbl t c = f c"
proof -
  have "unat c < 256" using unsigned_less [of c] by simp
  then have "t ! unat c = f (word_of_nat (unat c))" unfolding assms by simp
  then show ?thesis by (simp add: tbl_def)
qed

section \<open>Comparisons of byte strings\<close>

text \<open>
  A byte string argument is the list of bytes that can be read at the pointer; an
  index beyond the list is undefined.  For NUL terminated arguments the list is the
  text in front of the terminator, and the terminator is read at its length.
\<close>

definition rd :: "lxb_char list \<Rightarrow> nat \<Rightarrow> lxb_char option" where
  "rd xs i = (if i < length xs then Some (xs ! i) else None)"

definition rdz :: "lxb_char list \<Rightarrow> nat \<Rightarrow> lxb_char option" where
  "rdz xs i = (if i < length xs then Some (xs ! i) else if i = length xs then Some 0 else None)"

text \<open>Compares a NUL terminated string with the bytes that are there; the result is
  the index of the first unmatched character of \<open>first\<close>, or \<open>None\<close> (NULL) on a
  mismatch.  \<open>*result == '\0'\<close> means the index is the length of \<open>first\<close>.\<close>

fun lexbor_str_data_ncasecmp_first :: "lxb_char list \<Rightarrow> lxb_char list \<Rightarrow> nat option" where
  "lexbor_str_data_ncasecmp_first first [] = Some 0"
| "lexbor_str_data_ncasecmp_first [] (s # sec) = Some 0"
| "lexbor_str_data_ncasecmp_first (f # first) (s # sec) =
     (if lowercase f \<noteq> lowercase s then None
      else map_option Suc (lexbor_str_data_ncasecmp_first first sec))"

fun lexbor_str_data_ncasecmp_end :: "lxb_char list \<Rightarrow> lxb_char list \<Rightarrow> nat \<Rightarrow> bool option" where
  "lexbor_str_data_ncasecmp_end first sec 0 = Some True"
| "lexbor_str_data_ncasecmp_end first sec (Suc sz) = do {
     f \<leftarrow> rd first sz;
     s \<leftarrow> rd sec sz;
     if lowercase f \<noteq> lowercase s then Some False
     else lexbor_str_data_ncasecmp_end first sec sz
   }"

fun lexbor_str_data_ncasecmp :: "lxb_char list \<Rightarrow> lxb_char list \<Rightarrow> nat \<Rightarrow> bool option" where
  "lexbor_str_data_ncasecmp first sec 0 = Some True"
| "lexbor_str_data_ncasecmp (f # first) (s # sec) (Suc sz) =
     (if lowercase f \<noteq> lowercase s then Some False
      else lexbor_str_data_ncasecmp first sec sz)"
| "lexbor_str_data_ncasecmp _ _ (Suc sz) = None"

text \<open>The search for a substring: \<open>i\<close> is the position of the next attempt.\<close>

function str_contain :: "(lxb_char list \<Rightarrow> lxb_char list \<Rightarrow> nat \<Rightarrow> bool option) \<Rightarrow> lxb_char list \<Rightarrow> nat
    \<Rightarrow> lxb_char list \<Rightarrow> nat \<Rightarrow> nat \<Rightarrow> bool option" where
  "str_contain cmp hay hay_sz what what_sz i =
    (if what_sz + i \<le> hay_sz then do {
       r \<leftarrow> cmp (drop i hay) what what_sz;
       if r then Some True else str_contain cmp hay hay_sz what what_sz (Suc i)
     } else Some False)"
  by pat_completeness auto
termination by (relation "measure (\<lambda>(_, _, n, _, _, i). Suc n - i)") auto

declare str_contain.simps [simp del]

definition lexbor_str_data_ncasecmp_contain :: "lxb_char list \<Rightarrow> nat \<Rightarrow> lxb_char list \<Rightarrow> nat \<Rightarrow> bool option" where
  "lexbor_str_data_ncasecmp_contain hay hay_sz what what_sz =
     str_contain lexbor_str_data_ncasecmp hay hay_sz what what_sz 0"

text \<open>Both arguments of \<open>casecmp\<close> and \<open>cmp\<close> are NUL terminated.\<close>

fun lexbor_str_data_casecmp :: "lxb_char list \<Rightarrow> lxb_char list \<Rightarrow> bool" where
  "lexbor_str_data_casecmp [] [] = True"
| "lexbor_str_data_casecmp (f # first) (s # sec) =
     (if lowercase f \<noteq> lowercase s then False
      else if f = 0 then True
      else lexbor_str_data_casecmp first sec)"
| "lexbor_str_data_casecmp [] (s # sec) = (lowercase s = lowercase 0)"
| "lexbor_str_data_casecmp (f # first) [] = (lowercase f = lowercase 0 \<and> f = 0)"

fun lexbor_str_data_ncmp_end :: "lxb_char list \<Rightarrow> lxb_char list \<Rightarrow> nat \<Rightarrow> bool option" where
  "lexbor_str_data_ncmp_end first sec 0 = Some True"
| "lexbor_str_data_ncmp_end first sec (Suc sz) = do {
     f \<leftarrow> rd first sz;
     s \<leftarrow> rd sec sz;
     if f \<noteq> s then Some False else lexbor_str_data_ncmp_end first sec sz
   }"

text \<open>\<open>memcmp(first, sec, sz) == 0\<close>\<close>

definition lexbor_str_data_ncmp :: "lxb_char list \<Rightarrow> lxb_char list \<Rightarrow> nat \<Rightarrow> bool option" where
  "lexbor_str_data_ncmp first sec sz =
     (if sz \<le> length first \<and> sz \<le> length sec then Some (take sz first = take sz sec) else None)"

definition lexbor_str_data_ncmp_contain :: "lxb_char list \<Rightarrow> nat \<Rightarrow> lxb_char list \<Rightarrow> nat \<Rightarrow> bool option" where
  "lexbor_str_data_ncmp_contain hay hay_sz what what_sz =
     str_contain lexbor_str_data_ncmp hay hay_sz what what_sz 0"

fun lexbor_str_data_cmp :: "lxb_char list \<Rightarrow> lxb_char list \<Rightarrow> bool" where
  "lexbor_str_data_cmp [] [] = True"
| "lexbor_str_data_cmp (f # first) (s # sec) =
     (if f \<noteq> s then False else if f = 0 then True else lexbor_str_data_cmp first sec)"
| "lexbor_str_data_cmp [] (s # sec) = (s = 0)"
| "lexbor_str_data_cmp (f # first) [] = (f = 0)"

text \<open>\<open>lexbor_utils_whitespace(c, ==, ||)\<close>\<close>

definition lexbor_utils_whitespace :: "lxb_char \<Rightarrow> bool" where
  "lexbor_utils_whitespace c \<longleftrightarrow> c = 0x20 \<or> c = 0x09 \<or> c = 0x0A \<or> c = 0x0C \<or> c = 0x0D"

fun lexbor_str_data_cmp_ws :: "lxb_char list \<Rightarrow> lxb_char list \<Rightarrow> bool" where
  "lexbor_str_data_cmp_ws [] [] = True"
| "lexbor_str_data_cmp_ws (f # first) (s # sec) =
     (if f \<noteq> s then False
      else if lexbor_utils_whitespace f \<or> f = 0 then True
      else lexbor_str_data_cmp_ws first sec)"
| "lexbor_str_data_cmp_ws [] (s # sec) = (s = 0)"
| "lexbor_str_data_cmp_ws (f # first) [] = (f = 0)"

text \<open>\<open>while (len) { len--; to[len] = map[from[len]]; }\<close>: the bytes are written from the
  last to the first, into a buffer that may be longer.\<close>

fun str_data_map :: "lxb_char list \<Rightarrow> lxb_char list \<Rightarrow> lxb_char list \<Rightarrow> nat \<Rightarrow> lxb_char list option" where
  "str_data_map mp to from 0 = Some to"
| "str_data_map mp to from (Suc len) = do {
     c \<leftarrow> rd from len;
     if len < length to then str_data_map mp (to[len := tbl mp c]) from len else None
   }"

definition lexbor_str_data_to_lowercase :: "lxb_char list \<Rightarrow> lxb_char list \<Rightarrow> nat \<Rightarrow> lxb_char list option" where
  "lexbor_str_data_to_lowercase = str_data_map lexbor_str_res_map_lowercase"

definition lexbor_str_data_to_uppercase :: "lxb_char list \<Rightarrow> lxb_char list \<Rightarrow> nat \<Rightarrow> lxb_char list option" where
  "lexbor_str_data_to_uppercase = str_data_map lexbor_str_res_map_uppercase"

text \<open>The result is the index of the byte found, or \<open>None\<close> (NULL).\<close>

fun str_data_find :: "lxb_char list \<Rightarrow> lxb_char list \<Rightarrow> nat \<Rightarrow> nat option option" where
  "str_data_find mp data 0 = Some None"
| "str_data_find mp data (Suc len) = do {
     c \<leftarrow> rd data len;
     if c = tbl mp c then Some (Some len) else str_data_find mp data len
   }"

definition lexbor_str_data_find_lowercase :: "lxb_char list \<Rightarrow> nat \<Rightarrow> nat option option" where
  "lexbor_str_data_find_lowercase = str_data_find lexbor_str_res_map_lowercase"

definition lexbor_str_data_find_uppercase :: "lxb_char list \<Rightarrow> nat \<Rightarrow> nat option option" where
  "lexbor_str_data_find_uppercase = str_data_find lexbor_str_res_map_uppercase"

section \<open>What the comparisons compute\<close>

lemma rd_Some [simp]: "i < length xs \<Longrightarrow> rd xs i = Some (xs ! i)"
  by (simp add: rd_def)

lemma ncasecmp_eq:
  "n \<le> length xs \<Longrightarrow> n \<le> length ys \<Longrightarrow>
   lexbor_str_data_ncasecmp xs ys n = Some (map lowercase (take n xs) = map lowercase (take n ys))"
  by (induction xs ys n rule: lexbor_str_data_ncasecmp.induct) auto

lemma take_Suc_nth_eq:
  assumes "n < length xs" "n < length ys"
  shows "map f (take (Suc n) xs) = map f (take (Suc n) ys) \<longleftrightarrow>
    f (xs ! n) = f (ys ! n) \<and> map f (take n xs) = map f (take n ys)"
  using assms by (auto simp: take_Suc_conv_app_nth)

lemma ncasecmp_end_eq:
  "n \<le> length xs \<Longrightarrow> n \<le> length ys \<Longrightarrow>
   lexbor_str_data_ncasecmp_end xs ys n = Some (map lowercase (take n xs) = map lowercase (take n ys))"
  by (induction n) (simp_all add: take_Suc_nth_eq)

lemma ncmp_end_eq:
  assumes "n \<le> length xs" "n \<le> length ys"
  shows "lexbor_str_data_ncmp_end xs ys n = lexbor_str_data_ncmp xs ys n"
  using assms
proof (induction n)
  case (Suc n)
  then show ?case
    using take_Suc_nth_eq [of n xs ys id] by (auto simp: lexbor_str_data_ncmp_def)
qed (simp add: lexbor_str_data_ncmp_def)

lemma ncasecmp_first_bounds:
  "lexbor_str_data_ncasecmp_first first sec = Some i \<Longrightarrow> i \<le> length first \<and> i \<le> length sec"
  by (induction first sec arbitrary: i rule: lexbor_str_data_ncasecmp_first.induct)
     (auto split: if_splits)

lemma ncasecmp_first_pos:
  "lexbor_str_data_ncasecmp_first first sec = Some i \<Longrightarrow> first \<noteq> [] \<Longrightarrow> sec \<noteq> [] \<Longrightarrow> 0 < i"
  by (cases first; cases sec) (auto split: if_splits)

lemma ncasecmp_first_eq:
  "lexbor_str_data_ncasecmp_first first sec =
    (let n = min (length first) (length sec)
     in if map lowercase (take n first) = map lowercase (take n sec) then Some n else None)"
  by (induction first sec rule: lexbor_str_data_ncasecmp_first.induct) (auto simp: Let_def)

end
