(* ===== verification/Lxb_Html_In.thy ===== *)
theory Lxb_Html_In
  imports Lxb_In Lxb_Str
begin

text \<open>
  Text that may span several incoming buffers (\<open>html/in.c\<close>): collecting it in a
  string, looking up the tag it names, comparing it with a keyword.  The string
  pool can run out of memory at every append: \<open>str_alloc s n\<close> tells whether the
  string \<open>s\<close> can grow by \<open>n\<close> bytes.  The tag table is a function from the bytes of a
  name to the tag's id.

  The lemmas show that on a well-formed chain of buffers all three functions are
  defined: they read only mapped bytes of the chain and their loops end.
\<close>

section \<open>Functions\<close>

text \<open>The loop of \<open>lxb_html_in_make\<close> and the append after it.  The lengths
  \<open>node->end - begin\<close> and \<open>end - begin\<close> are converted to \<open>size_t\<close>; a negative one is a
  copy of almost the whole address space.\<close>

partial_function (option) in_make_loop :: "(lxb_char list \<Rightarrow> nat \<Rightarrow> bool) \<Rightarrow> bytemem \<Rightarrow> in_heap \<Rightarrow> addr
    \<Rightarrow> addr \<Rightarrow> addr \<Rightarrow> lxb_char list \<Rightarrow> (lxb_status \<times> lxb_char list) option" where
  "in_make_loop str_alloc m h a bgn fin str = do {
     n \<leftarrow> h a;
     if \<not> lexbor_in_segment n fin then
       (if n_end n < bgn then None
        else if \<not> str_alloc str (n_end n - bgn) then Some (LXB_STATUS_ERROR_MEMORY_ALLOCATION, str)
        else do {
          bs \<leftarrow> mem_range m bgn (n_end n - bgn);
          (case n_next n of
             None \<Rightarrow> Some (LXB_STATUS_ERROR, str @ bs)
           | Some b \<Rightarrow> do {
               nb \<leftarrow> h b;
               in_make_loop str_alloc m h b (n_begin nb) fin (str @ bs)
             })
        })
     else
       (if fin < bgn then None
        else if \<not> str_alloc str (fin - bgn) then Some (LXB_STATUS_ERROR_MEMORY_ALLOCATION, str)
        else do {
          bs \<leftarrow> mem_range m bgn (fin - bgn);
          Some (LXB_STATUS_OK, str @ bs)
        })
   }"

text \<open>The string \<open>str\<close> is \<^const>\<open>None\<close> while its data pointer is NULL.\<close>

definition lxb_html_in_make :: "(lxb_char list \<Rightarrow> nat \<Rightarrow> bool) \<Rightarrow> bytemem \<Rightarrow> in_heap \<Rightarrow> addr option
    \<Rightarrow> addr \<Rightarrow> addr \<Rightarrow> lxb_char list option \<Rightarrow> (lxb_status \<times> lxb_char list option) option" where
  "lxb_html_in_make str_alloc m h node bgn fin str =
    (case (case str of None \<Rightarrow> if str_alloc [] 8 then Some [] else None | Some s \<Rightarrow> Some s) of
       None \<Rightarrow> Some (LXB_STATUS_ERROR_MEMORY_ALLOCATION, None)
     | Some s \<Rightarrow>
         if bgn = NULL then Some (LXB_STATUS_OK, Some s)
         else do {
           a \<leftarrow> node;
           (st, s) \<leftarrow> in_make_loop str_alloc m h a bgn fin s;
           Some (st, Some s)
         })"

definition lxb_html_in_tag_id :: "(lxb_char list \<Rightarrow> nat \<Rightarrow> bool) \<Rightarrow> (lxb_char list \<Rightarrow> lxb_tag_id) \<Rightarrow> bytemem
    \<Rightarrow> in_heap \<Rightarrow> addr option \<Rightarrow> addr \<Rightarrow> addr \<Rightarrow> lxb_tag_id option" where
  "lxb_html_in_tag_id str_alloc tag_id_by_name m h node bgn fin = do {
     a \<leftarrow> node;
     n \<leftarrow> h a;
     if lexbor_in_segment n fin then
       (if fin < bgn then None
        else do {
          bs \<leftarrow> mem_range m bgn (fin - bgn);
          Some (tag_id_by_name bs)
        })
     else do {
       (st, str) \<leftarrow> lxb_html_in_make str_alloc m h node bgn fin None;
       if st \<noteq> LXB_STATUS_OK then Some 0 else do { s \<leftarrow> str; Some (tag_id_by_name s) }
     }
   }"

partial_function (option) in_ncasecmp_loop :: "bytemem \<Rightarrow> in_heap \<Rightarrow> addr \<Rightarrow> addr \<Rightarrow> lxb_char list \<Rightarrow> nat
    \<Rightarrow> bool option" where
  "in_ncasecmp_loop m h a bgn data len = do {
     n \<leftarrow> h a;
     let k = (if n_end n < bgn then len else min (n_end n - bgn) len);
     bs \<leftarrow> mem_range m bgn k;
     r \<leftarrow> lexbor_str_data_ncasecmp bs data k;
     if \<not> r then Some False
     else if len - k = 0 then Some True
     else (case n_next n of
             None \<Rightarrow> Some False
           | Some b \<Rightarrow> do {
               nb \<leftarrow> h b;
               in_ncasecmp_loop m h b (n_begin nb) (drop k data) (len - k)
             })
   }"

definition lxb_html_in_ncasecmp :: "bytemem \<Rightarrow> in_heap \<Rightarrow> addr option \<Rightarrow> addr \<Rightarrow> addr
    \<Rightarrow> lxb_char list \<Rightarrow> nat \<Rightarrow> bool option" where
  "lxb_html_in_ncasecmp m h node bgn fin data len = do {
     a \<leftarrow> node;
     n \<leftarrow> h a;
     if lexbor_in_segment n fin then
       (if int fin - int bgn \<noteq> int len then Some False
        else do { bs \<leftarrow> mem_range m bgn len; lexbor_str_data_ncasecmp bs data len })
     else in_ncasecmp_loop m h a bgn data len
   }"

declare in_make_loop.simps [code] in_ncasecmp_loop.simps [code]

section \<open>Well-formed chains of buffers\<close>

text \<open>\<open>in_wf m h cur as\<close>: \<open>as\<close> are the nodes of the chain that ends in \<open>cur\<close>, their buffers
  are mapped and no two of them share a byte.\<close>

definition in_wf :: "bytemem \<Rightarrow> in_heap \<Rightarrow> addr option \<Rightarrow> addr list \<Rightarrow> bool" where
  "in_wf m h cur as \<longleftrightarrow> as \<noteq> [] \<and> in_chain h cur None as \<and>
     (\<forall>a n. a \<in> set as \<and> h a = Some n \<longrightarrow> mapped m (n_begin n) (n_end n)) \<and>
     (\<forall>a b n k x. a \<in> set as \<and> b \<in> set as \<and> a \<noteq> b \<and> h a = Some n \<and> h b = Some k \<and>
        n_begin n \<le> x \<and> x < n_end n \<longrightarrow> \<not> (n_begin k \<le> x \<and> x < n_end k))"

text \<open>A position saved earlier (\<open>tkz->markup\<close> in \<open>tkz->tmp_incoming_node\<close>) that lies in
  the chain, not behind the current position \<open>d\<close>.\<close>

definition saved_pos :: "in_heap \<Rightarrow> addr list \<Rightarrow> addr \<Rightarrow> addr option \<Rightarrow> addr \<Rightarrow> bool" where
  "saved_pos h as d node pos \<longleftrightarrow>
     (\<exists>a n. node = Some a \<and> a \<in> set as \<and> h a = Some n \<and> n_begin n \<le> pos \<and> pos \<le> n_end n \<and>
        (a = hd as \<longrightarrow> pos \<le> d))"

lemma in_wf_chain: "in_wf m h cur as \<Longrightarrow> in_chain h cur None as"
  by (simp add: in_wf_def)

lemma in_wf_mapped: "in_wf m h cur as \<Longrightarrow> a \<in> set as \<Longrightarrow> h a = Some n \<Longrightarrow> mapped m (n_begin n) (n_end n)"
  unfolding in_wf_def by blast

lemma in_wf_cur:
  assumes "in_wf m h cur as"
  obtains a n where "cur = Some a" "a = hd as" "a \<in> set as" "h a = Some n" "n_begin n \<le> n_end n"
    "n_next n = None" "mapped m (n_begin n) (n_end n)"
  using assms in_wf_mapped [OF assms]
  by (cases as) (auto simp: in_wf_def split: option.splits)

lemma in_wf_next:
  assumes "in_wf m h cur (xs @ b # a # ys)" "h a = Some n"
  shows "n_next n = Some b" "\<exists>k. h b = Some k \<and> n_begin k \<le> n_end k"
  using in_chain_split [of h cur None "xs @ [b]" a ys] assms in_wf_chain [OF assms(1)]
    in_chain_node [of h cur None "xs @ b # a # ys" b]
  by (auto split: option.splits)

lemma in_make_loop_defined:
  assumes wf: "in_wf m h cur (xs @ a # ys)" and "h a = Some n"
    and "n_begin n \<le> bgn" "bgn \<le> n_end n" and "lexbor_in_segment n fin \<Longrightarrow> bgn \<le> fin"
    and "cur = Some c" "h c = Some nc" "lexbor_in_segment nc fin"
  shows "\<exists>r. in_make_loop al m h a bgn fin s = Some r"
  using assms
proof (induction xs arbitrary: a ys n bgn s rule: rev_induct)
  case Nil
  have "a = c"
    using in_wf_chain [OF Nil.prems(1)] Nil.prems(6) by auto
  then have seg: "lexbor_in_segment n fin"
    using Nil.prems by simp
  then have "mapped m bgn (bgn + (fin - bgn))"
    using in_wf_mapped [OF Nil.prems(1), of a n] Nil.prems
    by (auto simp: lexbor_in_segment_def elim!: mapped_sub)
  from mem_range_mapped [OF this] seg Nil.prems show ?case
    by (subst in_make_loop.simps) auto
next
  case (snoc b xs)
  have wf': "in_wf m h cur (xs @ b # a # ys)" using snoc.prems by simp
  obtain k where k: "h b = Some k" "n_begin k \<le> n_end k"
    using in_wf_next(2) [OF wf' snoc.prems(2)] by blast
  have nx: "n_next n = Some b" using in_wf_next(1) [OF wf' snoc.prems(2)] .
  have map_n: "mapped m (n_begin n) (n_end n)"
    using in_wf_mapped [OF snoc.prems(1), of a n] snoc.prems by simp
  show ?case
  proof (cases "lexbor_in_segment n fin")
    case True
    then have "mapped m bgn (bgn + (fin - bgn))"
      using map_n snoc.prems by (auto simp: lexbor_in_segment_def elim!: mapped_sub)
    from mem_range_mapped [OF this] True snoc.prems show ?thesis
      by (subst in_make_loop.simps) auto
  next
    case False
    have "mapped m bgn (bgn + (n_end n - bgn))"
      using map_n snoc.prems by (auto elim!: mapped_sub)
    then obtain bs where bs: "mem_range m bgn (n_end n - bgn) = Some bs"
      using mem_range_mapped by blast
    have "\<exists>r. in_make_loop al m h b (n_begin k) fin (s @ bs) = Some r"
      by (rule snoc.IH [OF wf' k(1) _ k(2) _ snoc.prems(6-8)])
         (auto simp: lexbor_in_segment_def)
    with False bs nx k snoc.prems show ?thesis
      by (subst in_make_loop.simps) auto
  qed
qed

lemma in_ncasecmp_loop_defined:
  assumes wf: "in_wf m h cur (xs @ a # ys)" and "h a = Some n"
    and "n_begin n \<le> bgn" "bgn \<le> n_end n" and "len \<le> length data"
  shows "\<exists>r. in_ncasecmp_loop m h a bgn data len = Some r"
  using assms
proof (induction xs arbitrary: a ys n bgn data len rule: rev_induct)
  case Nil
  have "n_next n = None"
    using in_wf_chain [OF Nil.prems(1)] Nil.prems(2) by (auto split: option.splits)
  moreover have "mapped m bgn (bgn + min (n_end n - bgn) len)"
    using in_wf_mapped [OF Nil.prems(1), of a n] Nil.prems by (auto elim!: mapped_sub)
  ultimately show ?case
    using mem_range_mapped [of m bgn "min (n_end n - bgn) len"] Nil.prems
    by (subst in_ncasecmp_loop.simps) (auto simp: ncasecmp_eq Let_def)
next
  case (snoc b xs)
  have wf': "in_wf m h cur (xs @ b # a # ys)" using snoc.prems by simp
  obtain k where k: "h b = Some k" "n_begin k \<le> n_end k"
    using in_wf_next(2) [OF wf' snoc.prems(2)] by blast
  have nx: "n_next n = Some b" using in_wf_next(1) [OF wf' snoc.prems(2)] .
  let ?k = "min (n_end n - bgn) len"
  have "mapped m bgn (bgn + ?k)"
    using in_wf_mapped [OF snoc.prems(1), of a n] snoc.prems by (auto elim!: mapped_sub)
  then obtain bs where bs: "mem_range m bgn ?k = Some bs" "length bs = ?k"
    using mem_range_mapped by blast
  have "\<exists>r. in_ncasecmp_loop m h b (n_begin k) (drop ?k data) (len - ?k) = Some r"
    by (rule snoc.IH [OF wf' k(1) _ k(2)]) (use snoc.prems in auto)
  with bs nx k snoc.prems show ?case
    by (subst in_ncasecmp_loop.simps) (auto simp: ncasecmp_eq Let_def)
qed

text \<open>The saved position is in front of the current one also when both are seen in the
  same buffer: buffers do not overlap.\<close>

lemma saved_pos_le:
  assumes "in_wf m h (Some c) as" "h c = Some nc" "n_begin nc \<le> d" "d < n_end nc"
    and "saved_pos h as d (Some a) pos" "h a = Some n" "lexbor_in_segment n d"
  shows "pos \<le> d"
proof (cases "a = c")
  case True
  with assms show ?thesis
    by (auto simp: saved_pos_def in_wf_def) (metis in_chain.elims(2) list.sel(1) option.inject)
next
  case False
  have "\<not> d < n_end n"
    using assms False unfolding in_wf_def saved_pos_def lexbor_in_segment_def
    by (metis (no_types, lifting) in_chain.elims(2) list.set_intros(1) option.inject)
  with assms show ?thesis by (auto simp: saved_pos_def)
qed

lemma in_tag_id_defined:
  assumes wf: "in_wf m h (Some c) as" and c: "h c = Some nc" "n_begin nc \<le> d" "d < n_end nc"
    and saved: "saved_pos h as d node pos"
  shows "\<exists>i. lxb_html_in_tag_id al tid m h node pos d = Some i"
proof -
  obtain a n where a: "node = Some a" "a \<in> set as" "h a = Some n" "n_begin n \<le> pos" "pos \<le> n_end n"
    using saved by (auto simp: saved_pos_def)
  have le: "pos \<le> d" if "lexbor_in_segment n d"
    using saved_pos_le [OF wf c _ a(3) that] saved a(1) by simp
  obtain xs ys where as: "as = xs @ a # ys"
    using a(2) by (meson split_list)
  have loop: "\<exists>r. in_make_loop al m h a pos d s = Some r" for s
    by (rule in_make_loop_defined [OF _ a(3-5) le _ c(1)])
       (use wf c in \<open>auto simp: as lexbor_in_segment_def\<close>)
  have mapd: "mapped m pos (pos + (d - pos))" if "lexbor_in_segment n d"
    using in_wf_mapped [OF wf a(2,3)] a le that
    by (auto simp: lexbor_in_segment_def elim!: mapped_sub)
  show ?thesis
  proof (cases "lexbor_in_segment n d")
    case True
    then show ?thesis
      using mem_range_mapped [OF mapd] le a by (auto simp: lxb_html_in_tag_id_def)
  next
    case False
    obtain st s where "in_make_loop al m h a pos d [] = Some (st, s)"
      using loop [of "[]"] by (metis prod.exhaust)
    with False a show ?thesis
      by (auto simp: lxb_html_in_tag_id_def lxb_html_in_make_def)
  qed
qed

lemma in_ncasecmp_defined:
  assumes wf: "in_wf m h (Some c) as" and "h c = Some nc" "n_begin nc \<le> d" "d < n_end nc"
    and saved: "saved_pos h as d node pos" and len: "len \<le> length data"
  shows "\<exists>r. lxb_html_in_ncasecmp m h node pos d data len = Some r"
proof -
  obtain a n where a: "node = Some a" "a \<in> set as" "h a = Some n" "n_begin n \<le> pos" "pos \<le> n_end n"
    using saved by (auto simp: saved_pos_def)
  obtain xs ys where as: "as = xs @ a # ys"
    using a(2) by (meson split_list)
  have loop: "\<exists>r. in_ncasecmp_loop m h a pos data len = Some r"
    using in_ncasecmp_loop_defined [OF wf [unfolded as] a(3-5) len] .
  have "mapped m pos (pos + len)" if "lexbor_in_segment n d" "int d - int pos = int len"
    using in_wf_mapped [OF wf a(2,3)] a that
    by (auto simp: lexbor_in_segment_def elim!: mapped_sub)
  then show ?thesis
    using loop a len mem_range_mapped [of m pos len]
    by (auto simp: lxb_html_in_ncasecmp_def ncasecmp_eq)
qed

end
