(* ===== verification/Tkz_Base.thy ===== *)
theory Tkz_Base
  imports Lxb_Html_In
begin

unbundle bit_operations_syntax

text \<open>
  The tokenizer object and the macros its state functions are written with
  (\<open>html/tokenizer.h\<close>, \<open>html/token.h\<close>, \<open>html/token_attr.h\<close>, \<open>html/token.c\<close>,
  \<open>html/tokenizer/error.h\<close>, \<open>html/tokenizer/error.c\<close>, \<open>html/tokenizer/state.h\<close>).

  A state function has the type \<open>env \<Rightarrow> tkz \<Rightarrow> data \<Rightarrow> end \<Rightarrow> (tkz \<times> data) option\<close>: it
  updates the object and returns the position up to which it has consumed the
  bytes between \<open>data\<close> and \<open>end\<close>.  The function pointer \<open>tkz->state\<close> is a constructor
  of the datatype \<open>tkz_state\<close>.  What the tokenizer calls but does not own is in the
  environment: the memory with the text, the token callback, the namespace of the
  tree's current node, the tag table, and whether its pools can allocate.
  What the state functions have to keep is stated in \<open>Tkz_Inv\<close>.
\<close>

section \<open>Constants\<close>

type_synonym token_type = "32 word"

abbreviation (input) LXB_HTML_TOKEN_TYPE_OPEN :: token_type where "LXB_HTML_TOKEN_TYPE_OPEN \<equiv> 0x0000"
abbreviation (input) LXB_HTML_TOKEN_TYPE_CLOSE :: token_type where "LXB_HTML_TOKEN_TYPE_CLOSE \<equiv> 0x0001"
abbreviation (input) LXB_HTML_TOKEN_TYPE_CLOSE_SELF :: token_type where "LXB_HTML_TOKEN_TYPE_CLOSE_SELF \<equiv> 0x0002"
abbreviation (input) LXB_HTML_TOKEN_TYPE_TEXT :: token_type where "LXB_HTML_TOKEN_TYPE_TEXT \<equiv> 0x0004"
abbreviation (input) LXB_HTML_TOKEN_TYPE_DATA :: token_type where "LXB_HTML_TOKEN_TYPE_DATA \<equiv> 0x0008"
abbreviation (input) LXB_HTML_TOKEN_TYPE_RCDATA :: token_type where "LXB_HTML_TOKEN_TYPE_RCDATA \<equiv> 0x0010"
abbreviation (input) LXB_HTML_TOKEN_TYPE_CDATA :: token_type where "LXB_HTML_TOKEN_TYPE_CDATA \<equiv> 0x0020"
abbreviation (input) LXB_HTML_TOKEN_TYPE_NULL :: token_type where "LXB_HTML_TOKEN_TYPE_NULL \<equiv> 0x0040"
abbreviation (input) LXB_HTML_TOKEN_TYPE_FORCE_QUIRKS :: token_type where "LXB_HTML_TOKEN_TYPE_FORCE_QUIRKS \<equiv> 0x0080"
abbreviation (input) LXB_HTML_TOKEN_ATTR_TYPE_NAME_NULL :: token_type where "LXB_HTML_TOKEN_ATTR_TYPE_NAME_NULL \<equiv> 0x0001"
abbreviation (input) LXB_HTML_TOKEN_ATTR_TYPE_VALUE_NULL :: token_type where "LXB_HTML_TOKEN_ATTR_TYPE_VALUE_NULL \<equiv> 0x0002"

section \<open>Tokens\<close>

text \<open>The attributes of a token are a doubly linked list from \<open>attr_first\<close> to \<open>attr_last\<close>,
  here the list \<open>attrs\<close>; \<open>attr_last\<close> is its last element, NULL when it is empty.\<close>

record token_attr =
  name_begin :: addr
  name_end :: addr
  value_begin :: addr
  value_end :: addr
  in_name :: "addr option"
  in_value :: "addr option"
  a_type :: token_type

record html_token =
  t_begin :: addr
  t_end :: addr
  in_begin :: "addr option"
  attrs :: "token_attr list"
  base_element :: addr
  tag_id :: lxb_tag_id
  t_type :: token_type

definition empty_attr :: token_attr where
  "empty_attr = \<lparr> name_begin = NULL, name_end = NULL, value_begin = NULL, value_end = NULL,
     in_name = None, in_value = None, a_type = 0 \<rparr>"

text \<open>\<open>memset(token, 0, sizeof(lxb_html_token_t))\<close>, the result of \<open>lxb_html_token_clean\<close>.\<close>

definition lxb_html_token_clean :: "html_token \<Rightarrow> html_token" where
  "lxb_html_token_clean token = \<lparr> t_begin = NULL, t_end = NULL, in_begin = None, attrs = [],
     base_element = NULL, tag_id = 0, t_type = 0 \<rparr>"

definition lxb_html_token_attr_append :: "bool \<Rightarrow> html_token \<Rightarrow> html_token option" where
  "lxb_html_token_attr_append alloc_ok token =
     (if alloc_ok then Some (token\<lparr> attrs := attrs token @ [empty_attr] \<rparr>) else None)"

text \<open>The attribute is given by its index in the list.\<close>

definition lxb_html_token_attr_remove :: "html_token \<Rightarrow> nat \<Rightarrow> html_token option" where
  "lxb_html_token_attr_remove token i =
     (if i < length (attrs token)
      then Some (token\<lparr> attrs := take i (attrs token) @ drop (Suc i) (attrs token) \<rparr>)
      else None)"

definition lxb_html_token_attr_delete :: "html_token \<Rightarrow> nat \<Rightarrow> html_token option" where
  "lxb_html_token_attr_delete token i = lxb_html_token_attr_remove token i"

section \<open>Parse errors\<close>

text \<open>The error codes of \<open>error.h\<close> that the state functions report.\<close>

type_synonym tkz_error = nat

abbreviation (input) LXB_HTML_TOKENIZER_ERROR_ABCLOFEMCO :: tkz_error where "LXB_HTML_TOKENIZER_ERROR_ABCLOFEMCO \<equiv> 0x0000"
abbreviation (input) LXB_HTML_TOKENIZER_ERROR_ABDOPUID :: tkz_error where "LXB_HTML_TOKENIZER_ERROR_ABDOPUID \<equiv> 0x0001"
abbreviation (input) LXB_HTML_TOKENIZER_ERROR_ABDOSYID :: tkz_error where "LXB_HTML_TOKENIZER_ERROR_ABDOSYID \<equiv> 0x0002"
abbreviation (input) LXB_HTML_TOKENIZER_ERROR_EOBETANA :: tkz_error where "LXB_HTML_TOKENIZER_ERROR_EOBETANA \<equiv> 0x000B"
abbreviation (input) LXB_HTML_TOKENIZER_ERROR_EOINCD :: tkz_error where "LXB_HTML_TOKENIZER_ERROR_EOINCD \<equiv> 0x000C"
abbreviation (input) LXB_HTML_TOKENIZER_ERROR_EOINCO :: tkz_error where "LXB_HTML_TOKENIZER_ERROR_EOINCO \<equiv> 0x000D"
abbreviation (input) LXB_HTML_TOKENIZER_ERROR_EOINDO :: tkz_error where "LXB_HTML_TOKENIZER_ERROR_EOINDO \<equiv> 0x000E"
abbreviation (input) LXB_HTML_TOKENIZER_ERROR_EOINSCHTCOLITE :: tkz_error where "LXB_HTML_TOKENIZER_ERROR_EOINSCHTCOLITE \<equiv> 0x000F"
abbreviation (input) LXB_HTML_TOKENIZER_ERROR_EOINTA :: tkz_error where "LXB_HTML_TOKENIZER_ERROR_EOINTA \<equiv> 0x0010"
abbreviation (input) LXB_HTML_TOKENIZER_ERROR_INCLCO :: tkz_error where "LXB_HTML_TOKENIZER_ERROR_INCLCO \<equiv> 0x0011"
abbreviation (input) LXB_HTML_TOKENIZER_ERROR_INOPCO :: tkz_error where "LXB_HTML_TOKENIZER_ERROR_INOPCO \<equiv> 0x0012"
abbreviation (input) LXB_HTML_TOKENIZER_ERROR_INCHSEAFDONA :: tkz_error where "LXB_HTML_TOKENIZER_ERROR_INCHSEAFDONA \<equiv> 0x0013"
abbreviation (input) LXB_HTML_TOKENIZER_ERROR_INFICHOFTANA :: tkz_error where "LXB_HTML_TOKENIZER_ERROR_INFICHOFTANA \<equiv> 0x0014"
abbreviation (input) LXB_HTML_TOKENIZER_ERROR_MIATVA :: tkz_error where "LXB_HTML_TOKENIZER_ERROR_MIATVA \<equiv> 0x0015"
abbreviation (input) LXB_HTML_TOKENIZER_ERROR_MIDONA :: tkz_error where "LXB_HTML_TOKENIZER_ERROR_MIDONA \<equiv> 0x0016"
abbreviation (input) LXB_HTML_TOKENIZER_ERROR_MIDOPUID :: tkz_error where "LXB_HTML_TOKENIZER_ERROR_MIDOPUID \<equiv> 0x0017"
abbreviation (input) LXB_HTML_TOKENIZER_ERROR_MIDOSYID :: tkz_error where "LXB_HTML_TOKENIZER_ERROR_MIDOSYID \<equiv> 0x0018"
abbreviation (input) LXB_HTML_TOKENIZER_ERROR_MIENTANA :: tkz_error where "LXB_HTML_TOKENIZER_ERROR_MIENTANA \<equiv> 0x0019"
abbreviation (input) LXB_HTML_TOKENIZER_ERROR_MIQUBEDOPUID :: tkz_error where "LXB_HTML_TOKENIZER_ERROR_MIQUBEDOPUID \<equiv> 0x001A"
abbreviation (input) LXB_HTML_TOKENIZER_ERROR_MIQUBEDOSYID :: tkz_error where "LXB_HTML_TOKENIZER_ERROR_MIQUBEDOSYID \<equiv> 0x001B"
abbreviation (input) LXB_HTML_TOKENIZER_ERROR_MIWHAFDOPUKE :: tkz_error where "LXB_HTML_TOKENIZER_ERROR_MIWHAFDOPUKE \<equiv> 0x001D"
abbreviation (input) LXB_HTML_TOKENIZER_ERROR_MIWHAFDOSYKE :: tkz_error where "LXB_HTML_TOKENIZER_ERROR_MIWHAFDOSYKE \<equiv> 0x001E"
abbreviation (input) LXB_HTML_TOKENIZER_ERROR_MIWHBEDONA :: tkz_error where "LXB_HTML_TOKENIZER_ERROR_MIWHBEDONA \<equiv> 0x001F"
abbreviation (input) LXB_HTML_TOKENIZER_ERROR_MIWHBEAT :: tkz_error where "LXB_HTML_TOKENIZER_ERROR_MIWHBEAT \<equiv> 0x0020"
abbreviation (input) LXB_HTML_TOKENIZER_ERROR_MIWHBEDOPUANSYID :: tkz_error where "LXB_HTML_TOKENIZER_ERROR_MIWHBEDOPUANSYID \<equiv> 0x0021"
abbreviation (input) LXB_HTML_TOKENIZER_ERROR_NECO :: tkz_error where "LXB_HTML_TOKENIZER_ERROR_NECO \<equiv> 0x0022"
abbreviation (input) LXB_HTML_TOKENIZER_ERROR_UNCHAFDOSYID :: tkz_error where "LXB_HTML_TOKENIZER_ERROR_UNCHAFDOSYID \<equiv> 0x0029"
abbreviation (input) LXB_HTML_TOKENIZER_ERROR_UNCHINATNA :: tkz_error where "LXB_HTML_TOKENIZER_ERROR_UNCHINATNA \<equiv> 0x002A"
abbreviation (input) LXB_HTML_TOKENIZER_ERROR_UNCHINUNATVA :: tkz_error where "LXB_HTML_TOKENIZER_ERROR_UNCHINUNATVA \<equiv> 0x002B"
abbreviation (input) LXB_HTML_TOKENIZER_ERROR_UNEQSIBEATNA :: tkz_error where "LXB_HTML_TOKENIZER_ERROR_UNEQSIBEATNA \<equiv> 0x002C"
abbreviation (input) LXB_HTML_TOKENIZER_ERROR_UNNUCH :: tkz_error where "LXB_HTML_TOKENIZER_ERROR_UNNUCH \<equiv> 0x002D"
abbreviation (input) LXB_HTML_TOKENIZER_ERROR_UNQUMAINOFTANA :: tkz_error where "LXB_HTML_TOKENIZER_ERROR_UNQUMAINOFTANA \<equiv> 0x002E"
abbreviation (input) LXB_HTML_TOKENIZER_ERROR_UNSOINTA :: tkz_error where "LXB_HTML_TOKENIZER_ERROR_UNSOINTA \<equiv> 0x002F"

section \<open>The tokenizer object\<close>

text \<open>The values of the function pointer \<open>tkz->state\<close>: one constructor for every state
  function that is ever stored there, grouped by the file that defines it; \<open>S_x\<close> is the
  pointer to \<open>lxb_html_tokenizer_state_x\<close>.\<close>

datatype data_state =
    F_data_before | F_data | F_plaintext_before | F_plaintext | F_tag_open | F_end_tag_open
  | F_tag_name | F_before_attribute_name | F_attribute_name | F_after_attribute_name
  | F_before_attribute_value | F_attribute_value_double_quoted
  | F_attribute_value_single_quoted | F_attribute_value_unquoted
  | F_after_attribute_value_quoted | F_self_closing_start_tag | F_bogus_comment_before
  | F_bogus_comment | F_markup_declaration_open | F_markup_declaration_comment
  | F_markup_declaration_doctype | F_markup_declaration_cdata | F_cdata_section_before
  | F_cdata_section | F_cdata_section_bracket | F_cdata_section_end

datatype comment_state =
    F_comment_before_start | F_comment_start_dash | F_comment | F_comment_less_than_sign
  | F_comment_less_than_sign_bang | F_comment_less_than_sign_bang_dash
  | F_comment_less_than_sign_bang_dash_dash | F_comment_end_dash | F_comment_end
  | F_comment_end_bang

datatype doctype_state =
    F_doctype_before | F_doctype_before_name | F_doctype_name | F_doctype_after_name
  | F_doctype_after_name_public | F_doctype_after_name_system
  | F_doctype_after_public_keyword | F_doctype_before_public_identifier
  | F_doctype_public_identifier_double_quoted | F_doctype_public_identifier_single_quoted
  | F_doctype_after_public_identifier | F_doctype_between_public_and_system_identifiers
  | F_doctype_after_system_keyword | F_doctype_before_system_identifier
  | F_doctype_system_identifier_double_quoted | F_doctype_system_identifier_single_quoted
  | F_doctype_after_system_identifier | F_doctype_bogus

datatype rawtext_state =
    F_rawtext_before | F_rawtext | F_rawtext_less_than_sign | F_rawtext_end_tag_open
  | F_rawtext_end_tag_name

datatype rcdata_state =
    F_rcdata_before | F_rcdata | F_rcdata_less_than_sign | F_rcdata_end_tag_open
  | F_rcdata_end_tag_name

datatype script_state =
    F_script_data_before | F_script_data | F_script_data_less_than_sign
  | F_script_data_end_tag_open | F_script_data_end_tag_name | F_script_data_escape_start
  | F_script_data_escape_start_dash | F_script_data_escaped | F_script_data_escaped_dash
  | F_script_data_escaped_dash_dash | F_script_data_escaped_less_than_sign
  | F_script_data_escaped_end_tag_open | F_script_data_escaped_end_tag_name
  | F_script_data_double_escape_start | F_script_data_double_escaped
  | F_script_data_double_escaped_dash | F_script_data_double_escaped_dash_dash
  | F_script_data_double_escaped_less_than_sign | F_script_data_double_escaped_end_tag_open
  | F_script_data_double_escape_end

datatype tkz_state =
    In_data data_state
  | In_comment comment_state
  | In_doctype doctype_state
  | In_rawtext rawtext_state
  | In_rcdata rcdata_state
  | In_script script_state

abbreviation S_data_before :: tkz_state where "S_data_before \<equiv> In_data F_data_before"
abbreviation S_data :: tkz_state where "S_data \<equiv> In_data F_data"
abbreviation S_plaintext_before :: tkz_state where "S_plaintext_before \<equiv> In_data F_plaintext_before"
abbreviation S_plaintext :: tkz_state where "S_plaintext \<equiv> In_data F_plaintext"
abbreviation S_tag_open :: tkz_state where "S_tag_open \<equiv> In_data F_tag_open"
abbreviation S_end_tag_open :: tkz_state where "S_end_tag_open \<equiv> In_data F_end_tag_open"
abbreviation S_tag_name :: tkz_state where "S_tag_name \<equiv> In_data F_tag_name"
abbreviation S_before_attribute_name :: tkz_state where "S_before_attribute_name \<equiv> In_data F_before_attribute_name"
abbreviation S_attribute_name :: tkz_state where "S_attribute_name \<equiv> In_data F_attribute_name"
abbreviation S_after_attribute_name :: tkz_state where "S_after_attribute_name \<equiv> In_data F_after_attribute_name"
abbreviation S_before_attribute_value :: tkz_state where "S_before_attribute_value \<equiv> In_data F_before_attribute_value"
abbreviation S_attribute_value_double_quoted :: tkz_state where "S_attribute_value_double_quoted \<equiv> In_data F_attribute_value_double_quoted"
abbreviation S_attribute_value_single_quoted :: tkz_state where "S_attribute_value_single_quoted \<equiv> In_data F_attribute_value_single_quoted"
abbreviation S_attribute_value_unquoted :: tkz_state where "S_attribute_value_unquoted \<equiv> In_data F_attribute_value_unquoted"
abbreviation S_after_attribute_value_quoted :: tkz_state where "S_after_attribute_value_quoted \<equiv> In_data F_after_attribute_value_quoted"
abbreviation S_self_closing_start_tag :: tkz_state where "S_self_closing_start_tag \<equiv> In_data F_self_closing_start_tag"
abbreviation S_bogus_comment_before :: tkz_state where "S_bogus_comment_before \<equiv> In_data F_bogus_comment_before"
abbreviation S_bogus_comment :: tkz_state where "S_bogus_comment \<equiv> In_data F_bogus_comment"
abbreviation S_markup_declaration_open :: tkz_state where "S_markup_declaration_open \<equiv> In_data F_markup_declaration_open"
abbreviation S_markup_declaration_comment :: tkz_state where "S_markup_declaration_comment \<equiv> In_data F_markup_declaration_comment"
abbreviation S_markup_declaration_doctype :: tkz_state where "S_markup_declaration_doctype \<equiv> In_data F_markup_declaration_doctype"
abbreviation S_markup_declaration_cdata :: tkz_state where "S_markup_declaration_cdata \<equiv> In_data F_markup_declaration_cdata"
abbreviation S_cdata_section_before :: tkz_state where "S_cdata_section_before \<equiv> In_data F_cdata_section_before"
abbreviation S_cdata_section :: tkz_state where "S_cdata_section \<equiv> In_data F_cdata_section"
abbreviation S_cdata_section_bracket :: tkz_state where "S_cdata_section_bracket \<equiv> In_data F_cdata_section_bracket"
abbreviation S_cdata_section_end :: tkz_state where "S_cdata_section_end \<equiv> In_data F_cdata_section_end"

abbreviation S_comment_before_start :: tkz_state where "S_comment_before_start \<equiv> In_comment F_comment_before_start"
abbreviation S_comment_start_dash :: tkz_state where "S_comment_start_dash \<equiv> In_comment F_comment_start_dash"
abbreviation S_comment :: tkz_state where "S_comment \<equiv> In_comment F_comment"
abbreviation S_comment_less_than_sign :: tkz_state where "S_comment_less_than_sign \<equiv> In_comment F_comment_less_than_sign"
abbreviation S_comment_less_than_sign_bang :: tkz_state where "S_comment_less_than_sign_bang \<equiv> In_comment F_comment_less_than_sign_bang"
abbreviation S_comment_less_than_sign_bang_dash :: tkz_state where "S_comment_less_than_sign_bang_dash \<equiv> In_comment F_comment_less_than_sign_bang_dash"
abbreviation S_comment_less_than_sign_bang_dash_dash :: tkz_state where "S_comment_less_than_sign_bang_dash_dash \<equiv> In_comment F_comment_less_than_sign_bang_dash_dash"
abbreviation S_comment_end_dash :: tkz_state where "S_comment_end_dash \<equiv> In_comment F_comment_end_dash"
abbreviation S_comment_end :: tkz_state where "S_comment_end \<equiv> In_comment F_comment_end"
abbreviation S_comment_end_bang :: tkz_state where "S_comment_end_bang \<equiv> In_comment F_comment_end_bang"

abbreviation S_doctype_before :: tkz_state where "S_doctype_before \<equiv> In_doctype F_doctype_before"
abbreviation S_doctype_before_name :: tkz_state where "S_doctype_before_name \<equiv> In_doctype F_doctype_before_name"
abbreviation S_doctype_name :: tkz_state where "S_doctype_name \<equiv> In_doctype F_doctype_name"
abbreviation S_doctype_after_name :: tkz_state where "S_doctype_after_name \<equiv> In_doctype F_doctype_after_name"
abbreviation S_doctype_after_name_public :: tkz_state where "S_doctype_after_name_public \<equiv> In_doctype F_doctype_after_name_public"
abbreviation S_doctype_after_name_system :: tkz_state where "S_doctype_after_name_system \<equiv> In_doctype F_doctype_after_name_system"
abbreviation S_doctype_after_public_keyword :: tkz_state where "S_doctype_after_public_keyword \<equiv> In_doctype F_doctype_after_public_keyword"
abbreviation S_doctype_before_public_identifier :: tkz_state where "S_doctype_before_public_identifier \<equiv> In_doctype F_doctype_before_public_identifier"
abbreviation S_doctype_public_identifier_double_quoted :: tkz_state where "S_doctype_public_identifier_double_quoted \<equiv> In_doctype F_doctype_public_identifier_double_quoted"
abbreviation S_doctype_public_identifier_single_quoted :: tkz_state where "S_doctype_public_identifier_single_quoted \<equiv> In_doctype F_doctype_public_identifier_single_quoted"
abbreviation S_doctype_after_public_identifier :: tkz_state where "S_doctype_after_public_identifier \<equiv> In_doctype F_doctype_after_public_identifier"
abbreviation S_doctype_between_public_and_system_identifiers :: tkz_state where "S_doctype_between_public_and_system_identifiers \<equiv> In_doctype F_doctype_between_public_and_system_identifiers"
abbreviation S_doctype_after_system_keyword :: tkz_state where "S_doctype_after_system_keyword \<equiv> In_doctype F_doctype_after_system_keyword"
abbreviation S_doctype_before_system_identifier :: tkz_state where "S_doctype_before_system_identifier \<equiv> In_doctype F_doctype_before_system_identifier"
abbreviation S_doctype_system_identifier_double_quoted :: tkz_state where "S_doctype_system_identifier_double_quoted \<equiv> In_doctype F_doctype_system_identifier_double_quoted"
abbreviation S_doctype_system_identifier_single_quoted :: tkz_state where "S_doctype_system_identifier_single_quoted \<equiv> In_doctype F_doctype_system_identifier_single_quoted"
abbreviation S_doctype_after_system_identifier :: tkz_state where "S_doctype_after_system_identifier \<equiv> In_doctype F_doctype_after_system_identifier"
abbreviation S_doctype_bogus :: tkz_state where "S_doctype_bogus \<equiv> In_doctype F_doctype_bogus"

abbreviation S_rawtext_before :: tkz_state where "S_rawtext_before \<equiv> In_rawtext F_rawtext_before"
abbreviation S_rawtext :: tkz_state where "S_rawtext \<equiv> In_rawtext F_rawtext"
abbreviation S_rawtext_less_than_sign :: tkz_state where "S_rawtext_less_than_sign \<equiv> In_rawtext F_rawtext_less_than_sign"
abbreviation S_rawtext_end_tag_open :: tkz_state where "S_rawtext_end_tag_open \<equiv> In_rawtext F_rawtext_end_tag_open"
abbreviation S_rawtext_end_tag_name :: tkz_state where "S_rawtext_end_tag_name \<equiv> In_rawtext F_rawtext_end_tag_name"

abbreviation S_rcdata_before :: tkz_state where "S_rcdata_before \<equiv> In_rcdata F_rcdata_before"
abbreviation S_rcdata :: tkz_state where "S_rcdata \<equiv> In_rcdata F_rcdata"
abbreviation S_rcdata_less_than_sign :: tkz_state where "S_rcdata_less_than_sign \<equiv> In_rcdata F_rcdata_less_than_sign"
abbreviation S_rcdata_end_tag_open :: tkz_state where "S_rcdata_end_tag_open \<equiv> In_rcdata F_rcdata_end_tag_open"
abbreviation S_rcdata_end_tag_name :: tkz_state where "S_rcdata_end_tag_name \<equiv> In_rcdata F_rcdata_end_tag_name"

abbreviation S_script_data_before :: tkz_state where "S_script_data_before \<equiv> In_script F_script_data_before"
abbreviation S_script_data :: tkz_state where "S_script_data \<equiv> In_script F_script_data"
abbreviation S_script_data_less_than_sign :: tkz_state where "S_script_data_less_than_sign \<equiv> In_script F_script_data_less_than_sign"
abbreviation S_script_data_end_tag_open :: tkz_state where "S_script_data_end_tag_open \<equiv> In_script F_script_data_end_tag_open"
abbreviation S_script_data_end_tag_name :: tkz_state where "S_script_data_end_tag_name \<equiv> In_script F_script_data_end_tag_name"
abbreviation S_script_data_escape_start :: tkz_state where "S_script_data_escape_start \<equiv> In_script F_script_data_escape_start"
abbreviation S_script_data_escape_start_dash :: tkz_state where "S_script_data_escape_start_dash \<equiv> In_script F_script_data_escape_start_dash"
abbreviation S_script_data_escaped :: tkz_state where "S_script_data_escaped \<equiv> In_script F_script_data_escaped"
abbreviation S_script_data_escaped_dash :: tkz_state where "S_script_data_escaped_dash \<equiv> In_script F_script_data_escaped_dash"
abbreviation S_script_data_escaped_dash_dash :: tkz_state where "S_script_data_escaped_dash_dash \<equiv> In_script F_script_data_escaped_dash_dash"
abbreviation S_script_data_escaped_less_than_sign :: tkz_state where "S_script_data_escaped_less_than_sign \<equiv> In_script F_script_data_escaped_less_than_sign"
abbreviation S_script_data_escaped_end_tag_open :: tkz_state where "S_script_data_escaped_end_tag_open \<equiv> In_script F_script_data_escaped_end_tag_open"
abbreviation S_script_data_escaped_end_tag_name :: tkz_state where "S_script_data_escaped_end_tag_name \<equiv> In_script F_script_data_escaped_end_tag_name"
abbreviation S_script_data_double_escape_start :: tkz_state where "S_script_data_double_escape_start \<equiv> In_script F_script_data_double_escape_start"
abbreviation S_script_data_double_escaped :: tkz_state where "S_script_data_double_escaped \<equiv> In_script F_script_data_double_escaped"
abbreviation S_script_data_double_escaped_dash :: tkz_state where "S_script_data_double_escaped_dash \<equiv> In_script F_script_data_double_escaped_dash"
abbreviation S_script_data_double_escaped_dash_dash :: tkz_state where "S_script_data_double_escaped_dash_dash \<equiv> In_script F_script_data_double_escaped_dash_dash"
abbreviation S_script_data_double_escaped_less_than_sign :: tkz_state where "S_script_data_double_escaped_less_than_sign \<equiv> In_script F_script_data_double_escaped_less_than_sign"
abbreviation S_script_data_double_escaped_end_tag_open :: tkz_state where "S_script_data_double_escaped_end_tag_open \<equiv> In_script F_script_data_double_escaped_end_tag_open"
abbreviation S_script_data_double_escape_end :: tkz_state where "S_script_data_double_escape_end \<equiv> In_script F_script_data_double_escape_end"

text \<open>\<open>tkz->markup\<close> points into a keyword literal (what is left of it to match) or into
  the text (where a tag name begins).\<close>

datatype tkz_markup = Mk_Null | Mk_Lit "lxb_char list" | Mk_Ptr addr

text \<open>The object; \<open>'c\<close> is the type of what \<open>callback_token_ctx\<close> points to.  The pools of
  tokens, attributes and nodes are represented by what they hold.\<close>

record 'c tkz =
  state :: tkz_state
  callback_token_ctx :: 'c
  token :: "html_token option"
  in_nodes :: in_heap
  incoming_first :: "addr option"
  incoming_node :: "addr option"
  parse_errors :: "(addr \<times> tkz_error) list option"
  markup :: tkz_markup
  tmp_incoming_node :: "addr option"
  tmp_tag_id :: lxb_tag_id
  opt :: nat
  status :: lxb_status
  is_eof :: bool
  reuse :: bool

text \<open>What the tokenizer uses and does not own.  \<open>adjusted_current_node\<close> is \<^const>\<open>None\<close> when
  \<open>tkz->tree\<close> is NULL, and otherwise the namespace of the tree's adjusted current node,
  if there is one.  The three \<open>alloc\<close> fields tell whether a pool can grow.\<close>

record 'c env =
  mem :: bytemem
  blocks :: "addr \<rightharpoonup> nat"
  tokenizer_eof :: addr
  callback_token_done :: "'c tkz \<Rightarrow> html_token \<Rightarrow> 'c tkz \<times> html_token option"
  adjusted_current_node :: "'c tkz \<Rightarrow> lxb_ns_id option option"
  tag_id_by_name :: "lxb_char list \<Rightarrow> lxb_tag_id"
  str_alloc :: "lxb_char list \<Rightarrow> nat \<Rightarrow> bool"
  attr_alloc :: "'c tkz \<Rightarrow> bool"
  error_alloc :: "'c tkz \<Rightarrow> bool"

definition lxb_html_tokenizer_error_add :: "'c env \<Rightarrow> 'c tkz \<Rightarrow> addr \<Rightarrow> tkz_error \<Rightarrow> 'c tkz" where
  "lxb_html_tokenizer_error_add E t pos i =
    (case parse_errors t of
       None \<Rightarrow> t
     | Some es \<Rightarrow> if error_alloc E t then t\<lparr> parse_errors := Some (es @ [(pos, i)]) \<rparr> else t)"

definition lxb_html_tokenizer_current_namespace :: "'c env \<Rightarrow> 'c tkz \<Rightarrow> lxb_ns_id" where
  "lxb_html_tokenizer_current_namespace E t =
    (case adjusted_current_node E t of
       None \<Rightarrow> LXB_NS__UNDEF
     | Some None \<Rightarrow> LXB_NS__UNDEF
     | Some (Some ns) \<Rightarrow> ns)"

section \<open>Macros of the state functions\<close>

text \<open>An assignment to a field of \<open>*tkz->token\<close> and of \<open>*tkz->token->attr_last\<close>.\<close>

definition with_token :: "'c tkz \<Rightarrow> (html_token \<Rightarrow> html_token) \<Rightarrow> 'c tkz option" where
  "with_token t f = do { tok \<leftarrow> token t; Some (t\<lparr> token := Some (f tok) \<rparr>) }"

definition with_attr_last :: "'c tkz \<Rightarrow> (token_attr \<Rightarrow> token_attr) \<Rightarrow> 'c tkz option" where
  "with_attr_last t f = do {
     tok \<leftarrow> token t;
     if attrs tok = [] then None
     else Some (t\<lparr> token := Some (tok\<lparr> attrs := butlast (attrs tok) @ [f (last (attrs tok))] \<rparr>) \<rparr>)
   }"

definition attr_last :: "'c tkz \<Rightarrow> token_attr option" where
  "attr_last t = do { tok \<leftarrow> token t; if attrs tok = [] then None else Some (last (attrs tok)) }"

text \<open>\<open>tkz->incoming_node->end\<close>\<close>

definition incoming_end :: "'c tkz \<Rightarrow> addr option" where
  "incoming_end t = do { n \<leftarrow> in_deref (in_nodes t) (incoming_node t); Some (n_end n) }"

definition token_set_begin :: "'c tkz \<Rightarrow> addr \<Rightarrow> 'c tkz option" where
  "token_set_begin t v_begin = with_token t (\<lambda>tok. tok\<lparr> in_begin := incoming_node t, t_begin := v_begin \<rparr>)"

definition token_set_end :: "'c tkz \<Rightarrow> addr \<Rightarrow> 'c tkz option" where
  "token_set_end t v_end = with_token t (\<lambda>tok. tok\<lparr> t_end := v_end \<rparr>)"

definition token_set_end_down :: "'c tkz \<Rightarrow> addr \<Rightarrow> nat \<Rightarrow> 'c tkz option" where
  "token_set_end_down t v_end offset = do {
     (q, _) \<leftarrow> lexbor_in_node_pos_down (in_nodes t) (incoming_node t) (int v_end) (int offset);
     with_token t (\<lambda>tok. tok\<lparr> t_end := nat q \<rparr>)
   }"

definition token_set_end_oef :: "'c tkz \<Rightarrow> 'c tkz option" where
  "token_set_end_oef t = do { e \<leftarrow> incoming_end t; with_token t (\<lambda>tok. tok\<lparr> t_end := e \<rparr>) }"

definition token_or_type :: "'c tkz \<Rightarrow> token_type \<Rightarrow> 'c tkz option" where
  "token_or_type t ty = with_token t (\<lambda>tok. tok\<lparr> t_type := t_type tok OR ty \<rparr>)"

definition attr_set_name_begin :: "'c tkz \<Rightarrow> addr \<Rightarrow> 'c tkz option" where
  "attr_set_name_begin t v_begin =
     with_attr_last t (\<lambda>a. a\<lparr> in_name := incoming_node t, name_begin := v_begin \<rparr>)"

definition attr_set_name_end :: "'c tkz \<Rightarrow> addr \<Rightarrow> 'c tkz option" where
  "attr_set_name_end t v_end = with_attr_last t (\<lambda>a. a\<lparr> name_end := v_end \<rparr>)"

definition attr_set_name_end_oef :: "'c tkz \<Rightarrow> 'c tkz option" where
  "attr_set_name_end_oef t = do { e \<leftarrow> incoming_end t; with_attr_last t (\<lambda>a. a\<lparr> name_end := e \<rparr>) }"

definition attr_set_value_begin :: "'c tkz \<Rightarrow> addr \<Rightarrow> 'c tkz option" where
  "attr_set_value_begin t v_begin =
     with_attr_last t (\<lambda>a. a\<lparr> in_value := incoming_node t, value_begin := v_begin \<rparr>)"

definition attr_set_value_end :: "'c tkz \<Rightarrow> addr \<Rightarrow> 'c tkz option" where
  "attr_set_value_end t v_end = with_attr_last t (\<lambda>a. a\<lparr> value_end := v_end \<rparr>)"

definition attr_set_value_end_oef :: "'c tkz \<Rightarrow> 'c tkz option" where
  "attr_set_value_end_oef t = do { e \<leftarrow> incoming_end t; with_attr_last t (\<lambda>a. a\<lparr> value_end := e \<rparr>) }"

definition attr_or_type :: "'c tkz \<Rightarrow> token_type \<Rightarrow> 'c tkz option" where
  "attr_or_type t ty = with_attr_last t (\<lambda>a. a\<lparr> a_type := a_type a OR ty \<rparr>)"

text \<open>Macros that may return from the function they are used in take the return of that
  function (\<open>ret\<close> at top level, \<open>lret\<close> inside a loop) and the rest of the code as the
  continuation \<open>k\<close>.\<close>

definition token_attr_add_m :: "('c tkz \<Rightarrow> addr \<Rightarrow> 'r option) \<Rightarrow> 'c env \<Rightarrow> 'c tkz \<Rightarrow> addr
    \<Rightarrow> ('c tkz \<Rightarrow> 'r option) \<Rightarrow> 'r option" where
  "token_attr_add_m rt E t v_return k = do {
     tok \<leftarrow> token t;
     (case lxb_html_token_attr_append (attr_alloc E t) tok of
        None \<Rightarrow> rt (t\<lparr> status := LXB_STATUS_ERROR_MEMORY_ALLOCATION \<rparr>) v_return
      | Some tok' \<Rightarrow> k (t\<lparr> token := Some tok' \<rparr>))
   }"

definition token_done_call :: "('c tkz \<Rightarrow> addr \<Rightarrow> 'r option) \<Rightarrow> 'c env \<Rightarrow> 'c tkz \<Rightarrow> addr
    \<Rightarrow> ('c tkz \<Rightarrow> 'r option) \<Rightarrow> 'r option" where
  "token_done_call rt E t v_end k = do {
     tok \<leftarrow> token t;
     let (t', r) = callback_token_done E t tok;
     (case r of
        None \<Rightarrow>
          let t' = t'\<lparr> token := None \<rparr>
          in rt (if status t' = LXB_STATUS_OK then t'\<lparr> status := LXB_STATUS_ERROR \<rparr> else t') v_end
      | Some tok' \<Rightarrow> k (t'\<lparr> token := Some tok' \<rparr>))
   }"

definition token_done_wo_check_m :: "('c tkz \<Rightarrow> addr \<Rightarrow> 'r option) \<Rightarrow> 'c env \<Rightarrow> 'c tkz \<Rightarrow> addr
    \<Rightarrow> ('c tkz \<Rightarrow> 'r option) \<Rightarrow> 'r option" where
  "token_done_wo_check_m rt E t v_end k =
     token_done_call rt E t v_end (\<lambda>t. do { t \<leftarrow> with_token t lxb_html_token_clean; k t })"

definition token_done_m :: "('c tkz \<Rightarrow> addr \<Rightarrow> 'r option) \<Rightarrow> 'c env \<Rightarrow> 'c tkz \<Rightarrow> addr
    \<Rightarrow> ('c tkz \<Rightarrow> 'r option) \<Rightarrow> 'r option" where
  "token_done_m rt E t v_end k = do {
     tok \<leftarrow> token t;
     if t_begin tok \<noteq> t_end tok then
       token_done_call rt E t v_end (\<lambda>t. do { t \<leftarrow> with_token t lxb_html_token_clean; k t })
     else do { t \<leftarrow> with_token t lxb_html_token_clean; k t }
   }"

text \<open>Emit TEXT node if not empty\<close>

definition token_emit_text_not_empty_m :: "('c tkz \<Rightarrow> addr \<Rightarrow> 'r option) \<Rightarrow> 'c env \<Rightarrow> 'c tkz \<Rightarrow> addr
    \<Rightarrow> ('c tkz \<Rightarrow> 'r option) \<Rightarrow> 'r option" where
  "token_emit_text_not_empty_m rt E t v_end k = do {
     tok \<leftarrow> token t;
     if t_begin tok \<noteq> t_end tok then do {
       t \<leftarrow> with_token t (\<lambda>tok. tok\<lparr> tag_id := LXB_TAG__TEXT, t_type := LXB_HTML_TOKEN_TYPE_TEXT \<rparr>);
       token_done_call rt E t v_end (\<lambda>t. do { t \<leftarrow> with_token t lxb_html_token_clean; k t })
     }
     else k t
   }"

text \<open>The case label of the five white space characters.\<close>

definition is_ws :: "lxb_char \<Rightarrow> bool" where
  "is_ws c \<longleftrightarrow> c = 0x09 \<or> c = 0x0A \<or> c = 0x0C \<or> c = 0x0D \<or> c = 0x20"

end
