(* ===== verification/Tkz_Inv.thy ===== *)
theory Tkz_Inv
  imports Tkz_Base
begin

text \<open>
  What every state function of the tokenizer keeps.  \<open>tkz_wf E as fin t d\<close> says that the
  object \<open>t\<close> is ready to run its state function at position \<open>d\<close> of a buffer that ends
  at \<open>fin\<close>: it has a token, its chain of incoming buffers is well formed, and what the
  state function will dereference is there (the attribute under construction, the
  keyword or the saved position in \<open>tkz->markup\<close>).  \<open>step_post\<close> is the contract of one
  call: defined, inside the buffer, well formed afterwards, and with progress: either
  bytes are consumed or the rank of the state goes down.

  The locale \<open>token_callback\<close> is the interface to the consumer of the tokens: what a
  callback may change of the tokenizer it is called from.  The rules by which the
  state functions are verified are proved inside it.
\<close>

section \<open>What the states need\<close>

text \<open>States in which \<open>tkz->token->attr_last\<close> is dereferenced.\<close>

fun needs_attr :: "tkz_state \<Rightarrow> bool" where
  "needs_attr S_attribute_name = True"
| "needs_attr S_before_attribute_value = True"
| "needs_attr S_attribute_value_double_quoted = True"
| "needs_attr S_attribute_value_single_quoted = True"
| "needs_attr S_attribute_value_unquoted = True"
| "needs_attr S_doctype_name = True"
| "needs_attr S_doctype_after_name_public = True"
| "needs_attr S_doctype_after_name_system = True"
| "needs_attr S_doctype_after_public_keyword = True"
| "needs_attr S_doctype_before_public_identifier = True"
| "needs_attr S_doctype_public_identifier_double_quoted = True"
| "needs_attr S_doctype_public_identifier_single_quoted = True"
| "needs_attr S_doctype_after_system_keyword = True"
| "needs_attr S_doctype_before_system_identifier = True"
| "needs_attr S_doctype_system_identifier_double_quoted = True"
| "needs_attr S_doctype_system_identifier_single_quoted = True"
| "needs_attr _ = False"

text \<open>States in which \<open>tkz->markup\<close> is what is left of a keyword.\<close>

fun needs_lit :: "tkz_state \<Rightarrow> bool" where
  "needs_lit S_markup_declaration_doctype = True"
| "needs_lit S_markup_declaration_cdata = True"
| "needs_lit S_doctype_after_name_public = True"
| "needs_lit S_doctype_after_name_system = True"
| "needs_lit _ = False"

text \<open>States in which \<open>tkz->markup\<close> and \<open>tkz->tmp_incoming_node\<close> are a position in the text.\<close>

fun needs_ptr :: "tkz_state \<Rightarrow> bool" where
  "needs_ptr S_rawtext_end_tag_name = True"
| "needs_ptr S_rcdata_end_tag_name = True"
| "needs_ptr S_script_data_end_tag_name = True"
| "needs_ptr S_script_data_escaped_end_tag_name = True"
| "needs_ptr S_script_data_double_escape_start = True"
| "needs_ptr S_script_data_double_escape_end = True"
| "needs_ptr _ = False"

text \<open>States in which \<open>tkz->token->begin\<close> is the beginning of raw text.\<close>

fun needs_begin :: "tkz_state \<Rightarrow> bool" where
  "needs_begin S_rawtext = True"
| "needs_begin S_rawtext_less_than_sign = True"
| "needs_begin S_rawtext_end_tag_open = True"
| "needs_begin S_rawtext_end_tag_name = True"
| "needs_begin S_rcdata = True"
| "needs_begin S_rcdata_less_than_sign = True"
| "needs_begin S_rcdata_end_tag_open = True"
| "needs_begin S_rcdata_end_tag_name = True"
| "needs_begin S_script_data = True"
| "needs_begin S_script_data_less_than_sign = True"
| "needs_begin S_script_data_end_tag_open = True"
| "needs_begin S_script_data_end_tag_name = True"
| "needs_begin S_script_data_escape_start = True"
| "needs_begin S_script_data_escape_start_dash = True"
| "needs_begin S_script_data_escaped = True"
| "needs_begin S_script_data_escaped_dash = True"
| "needs_begin S_script_data_escaped_dash_dash = True"
| "needs_begin S_script_data_escaped_less_than_sign = True"
| "needs_begin S_script_data_escaped_end_tag_open = True"
| "needs_begin S_script_data_escaped_end_tag_name = True"
| "needs_begin S_script_data_double_escape_start = True"
| "needs_begin S_script_data_double_escaped = True"
| "needs_begin S_script_data_double_escaped_dash = True"
| "needs_begin S_script_data_double_escaped_dash_dash = True"
| "needs_begin S_script_data_double_escaped_less_than_sign = True"
| "needs_begin S_script_data_double_escaped_end_tag_open = True"
| "needs_begin S_script_data_double_escape_end = True"
| "needs_begin _ = False"

text \<open>The states a token callback may switch to: the entry states of the content models.\<close>

fun before_state :: "tkz_state \<Rightarrow> bool" where
  "before_state S_data_before = True"
| "before_state S_plaintext_before = True"
| "before_state S_rcdata_before = True"
| "before_state S_rawtext_before = True"
| "before_state S_script_data_before = True"
| "before_state _ = False"

text \<open>A call that does not consume a byte goes to a state of lower rank.  An attribute name
  is left without consuming the byte exactly when the byte ends the name, so the rank
  of its state depends on that.\<close>

definition name_ends :: "lxb_char option \<Rightarrow> bool \<Rightarrow> bool" where
  "name_ends c eof \<longleftrightarrow> (case c of None \<Rightarrow> False
     | Some c \<Rightarrow> is_ws c \<or> c = 0x2F \<or> c = 0x3E \<or> c = 0x00 \<and> eof)"

fun srank :: "bool \<Rightarrow> tkz_state \<Rightarrow> nat" where
  "srank ne S_attribute_name = (if ne then 2 else 0)"
| "srank ne S_data_before = 1"
| "srank ne S_plaintext_before = 1"
| "srank ne S_after_attribute_name = 1"
| "srank ne S_before_attribute_value = 1"
| "srank ne S_bogus_comment_before = 1"
| "srank ne S_cdata_section_before = 1"
| "srank ne S_cdata_section_bracket = 1"
| "srank ne S_cdata_section_end = 1"
| "srank ne S_comment_before_start = 1"
| "srank ne S_comment_start_dash = 1"
| "srank ne S_comment_less_than_sign = 1"
| "srank ne S_comment_less_than_sign_bang = 1"
| "srank ne S_comment_end_dash = 1"
| "srank ne S_comment_end = 1"
| "srank ne S_comment_end_bang = 1"
| "srank ne S_doctype_before = 1"
| "srank ne S_doctype_after_name_public = 1"
| "srank ne S_doctype_after_name_system = 1"
| "srank ne S_doctype_after_public_keyword = 1"
| "srank ne S_doctype_before_public_identifier = 1"
| "srank ne S_doctype_after_public_identifier = 1"
| "srank ne S_doctype_between_public_and_system_identifiers = 1"
| "srank ne S_doctype_after_system_keyword = 1"
| "srank ne S_doctype_before_system_identifier = 1"
| "srank ne S_doctype_after_system_identifier = 1"
| "srank ne S_rawtext_before = 1"
| "srank ne S_rawtext_less_than_sign = 1"
| "srank ne S_rawtext_end_tag_open = 1"
| "srank ne S_rawtext_end_tag_name = 1"
| "srank ne S_rcdata_before = 1"
| "srank ne S_rcdata_less_than_sign = 1"
| "srank ne S_rcdata_end_tag_open = 1"
| "srank ne S_rcdata_end_tag_name = 1"
| "srank ne S_script_data_before = 1"
| "srank ne S_script_data_less_than_sign = 1"
| "srank ne S_script_data_end_tag_open = 1"
| "srank ne S_script_data_end_tag_name = 1"
| "srank ne S_script_data_escape_start = 1"
| "srank ne S_script_data_escape_start_dash = 1"
| "srank ne S_script_data_escaped_end_tag_name = 1"
| "srank ne S_script_data_double_escape_start = 1"
| "srank ne S_script_data_double_escaped_less_than_sign = 1"
| "srank ne S_script_data_double_escape_end = 1"
| "srank ne S_markup_declaration_comment = 2"
| "srank ne S_markup_declaration_doctype = 2"
| "srank ne S_markup_declaration_cdata = 2"
| "srank ne S_comment_less_than_sign_bang_dash = 2"
| "srank ne S_comment_less_than_sign_bang_dash_dash = 2"
| "srank ne S_doctype_after_name = 2"
| "srank ne S_script_data_escaped_less_than_sign = 2"
| "srank ne S_script_data_escaped_end_tag_open = 2"
| "srank ne S_script_data_double_escaped_end_tag_open = 2"
| "srank ne S_tag_open = 3"
| "srank ne S_end_tag_open = 3"
| "srank ne S_before_attribute_name = 3"
| "srank ne S_markup_declaration_open = 3"
| "srank ne S_after_attribute_value_quoted = 4"
| "srank ne S_self_closing_start_tag = 4"
| "srank ne _ = 0"

section \<open>Well-formedness\<close>

text \<open>The part that a call does not change: the buffers, and where the position is.\<close>

definition ctx_wf :: "bytemem \<Rightarrow> in_heap \<Rightarrow> addr option \<Rightarrow> bool \<Rightarrow> addr list \<Rightarrow> addr \<Rightarrow> addr \<Rightarrow> bool" where
  "ctx_wf m h cur eof as fin d \<longleftrightarrow>
     in_wf m h cur as \<and> mapped m d fin \<and>
     (if eof then (\<forall>x. d \<le> x \<and> x < fin \<longrightarrow> m x = Some 0)
      else (\<exists>a n. cur = Some a \<and> h a = Some n \<and> n_begin n \<le> d \<and> fin \<le> n_end n))"

text \<open>The position \<open>b\<close> lies in one of the buffers \<open>as\<close>.\<close>

definition bg_in :: "in_heap \<Rightarrow> addr list \<Rightarrow> addr \<Rightarrow> bool" where
  "bg_in h as b \<longleftrightarrow> (\<exists>a n. a \<in> set as \<and> h a = Some n \<and> lexbor_in_segment n b)"

text \<open>The position \<open>b\<close> lies in the buffer \<open>tmp\<close> or in one before it.\<close>

definition bg_upto :: "in_heap \<Rightarrow> addr list \<Rightarrow> addr option \<Rightarrow> addr \<Rightarrow> bool" where
  "bg_upto h as tmp b \<longleftrightarrow> (\<exists>a xs ys. tmp = Some a \<and> as = xs @ a # ys \<and> bg_in h (a # ys) b)"

text \<open>What the state function will find.  Once the end of the text has been consumed, the
  state function is not called again.\<close>

definition st_wf :: "bytemem \<Rightarrow> in_heap \<Rightarrow> addr list \<Rightarrow> bool \<Rightarrow> addr \<Rightarrow> tkz_state \<Rightarrow> html_token \<Rightarrow> tkz_markup
    \<Rightarrow> addr option \<Rightarrow> addr \<Rightarrow> bool" where
  "st_wf m h as eof fin s tok mk tmp d \<longleftrightarrow>
     (t_begin tok = NULL \<or> bg_in h as (t_begin tok)) \<and>
     (\<not> eof \<and> needs_begin s \<longrightarrow> bg_in h as (t_begin tok)) \<and>
     ((eof \<longrightarrow> d < fin) \<longrightarrow>
        (needs_attr s \<longrightarrow> attrs tok \<noteq> []) \<and>
        (s = S_after_attribute_name \<longrightarrow>
           attrs tok \<noteq> [] \<or> eof \<or> d < fin \<and> (m d = Some 0x2F \<or> m d = Some 0x3E)) \<and>
        (needs_lit s \<longrightarrow> (\<exists>l. mk = Mk_Lit l \<and> l \<noteq> [])) \<and>
        (needs_ptr s \<longrightarrow> eof \<or>
           (\<exists>p. mk = Mk_Ptr p \<and> saved_pos h as d tmp p) \<and> bg_upto h as tmp (t_begin tok)))"

definition tkz_wf :: "'c env \<Rightarrow> addr list \<Rightarrow> addr \<Rightarrow> 'c tkz \<Rightarrow> addr \<Rightarrow> bool" where
  "tkz_wf E as fin t d \<longleftrightarrow> status t = LXB_STATUS_OK \<and>
     ctx_wf (mem E) (in_nodes t) (incoming_node t) (is_eof t) as fin d \<and>
     (\<exists>tok. token t = Some tok \<and>
        st_wf (mem E) (in_nodes t) as (is_eof t) fin (state t) tok (markup t) (tmp_incoming_node t) d)"

text \<open>What neither a state function nor a callback changes.\<close>

definition keeps :: "'c tkz \<Rightarrow> 'c tkz \<Rightarrow> bool" where
  "keeps t t' \<longleftrightarrow> in_nodes t' = in_nodes t \<and> incoming_node t' = incoming_node t \<and>
     incoming_first t' = incoming_first t \<and> is_eof t' = is_eof t \<and> opt t' = opt t \<and> reuse t' = reuse t"

text \<open>The contract of a call at position \<open>d\<close>; \<open>b\<close> bounds the position returned.\<close>

definition step_post :: "'c env \<Rightarrow> addr list \<Rightarrow> addr \<Rightarrow> addr \<Rightarrow> 'c tkz \<Rightarrow> addr \<Rightarrow> 'c tkz \<times> addr \<Rightarrow> bool" where
  "step_post E as fin b t d r \<longleftrightarrow> (case r of (t', d') \<Rightarrow>
     d \<le> d' \<and> d' \<le> b \<and> keeps t t' \<and>
     (if status t' = LXB_STATUS_OK
      then tkz_wf E as fin t' d' \<and>
        (d' = d \<longrightarrow> srank (name_ends (mem E d) (is_eof t)) (state t') < srank (name_ends (mem E d) (is_eof t)) (state t))
      else d' = fin))"

lemma before_state_free [simp]:
  "before_state s \<Longrightarrow> \<not> needs_attr s"
  "before_state s \<Longrightarrow> \<not> needs_lit s"
  "before_state s \<Longrightarrow> \<not> needs_ptr s"
  "before_state s \<Longrightarrow> \<not> needs_begin s"
  "before_state s \<Longrightarrow> s \<noteq> S_after_attribute_name"
  "before_state s \<Longrightarrow> srank ne s = 1"
  by (cases s rule: before_state.cases; simp)+

text \<open>A callback leaves the state alone or switches to an entry state: in no case is the
  new state more demanding.\<close>

definition demands_le :: "tkz_state \<Rightarrow> tkz_state \<Rightarrow> bool" where
  "demands_le s' s \<longleftrightarrow> (needs_attr s' \<longrightarrow> needs_attr s) \<and> (needs_lit s' \<longrightarrow> needs_lit s) \<and>
     (needs_ptr s' \<longrightarrow> needs_ptr s) \<and> (needs_begin s' \<longrightarrow> needs_begin s) \<and> (s' = S_after_attribute_name \<longrightarrow> s = S_after_attribute_name) \<and>
     (\<forall>ne. srank ne s < 3 \<longrightarrow> srank ne s' < 3)"

lemma demands_le_switch: "s' = s \<or> before_state s' \<Longrightarrow> demands_le s' s"
  by (auto simp: demands_le_def)

lemma ctx_wf_mono:
  assumes "ctx_wf m h cur eof as fin d" "d \<le> d'"
  shows "ctx_wf m h cur eof as fin d'"
  using assms by (auto simp: ctx_wf_def elim: mapped_sub split: if_splits)

lemma ctx_wf_mapped: "ctx_wf m h cur eof as fin d \<Longrightarrow> mapped m d fin"
  by (simp add: ctx_wf_def)

lemma ctx_wf_eof: "ctx_wf m h cur True as fin d \<Longrightarrow> d \<le> x \<Longrightarrow> x < fin \<Longrightarrow> m x = Some 0"
  by (simp add: ctx_wf_def)

lemma ctx_wf_rd: "ctx_wf m h cur eof as fin d \<Longrightarrow> d < fin \<Longrightarrow> \<exists>c. m d = Some c"
  using mappedD [OF ctx_wf_mapped] by blast

lemma ctx_wf_range:
  assumes "ctx_wf m h cur eof as fin d" "d + n \<le> fin"
  shows "\<exists>cs. mem_range m d n = Some cs \<and> length cs = n"
  using mem_range_mapped [OF mapped_sub [OF ctx_wf_mapped [OF assms(1)] order.refl assms(2)]] .

lemma ctx_wf_cur:
  assumes "ctx_wf m h cur eof as fin d"
  obtains a n where "cur = Some a" "a = hd as" "a \<in> set as" "h a = Some n" "n_begin n \<le> n_end n"
  using assms by (auto simp: ctx_wf_def elim: in_wf_cur)

lemma ctx_wf_pos_down_end:
  assumes "ctx_wf m h cur eof as fin d"
  shows "\<exists>n q b. in_deref h cur = Some n \<and>
    lexbor_in_node_pos_down h cur (int (n_end n)) (int k) = Some (q, b)"
proof -
  have wf: "in_wf m h cur as" using assms by (simp add: ctx_wf_def)
  then obtain a n where a: "cur = Some a" "h a = Some n" "n_begin n \<le> n_end n" and
    chain: "in_chain h (Some a) None (a # tl as)"
    by (cases as) (auto simp: in_wf_def split: option.splits)
  show ?thesis
    using pos_down_chain [OF chain a(2), of "int (n_end n)" "int k"] a by auto
qed

lemma ctx_wf_pos_down:
  assumes "ctx_wf m h cur eof as fin d" "\<not> eof" "d \<le> x" "x \<le> fin"
  shows "\<exists>q b. lexbor_in_node_pos_down h cur (int x) (int k) = Some (q, b)"
proof -
  have wf: "in_wf m h cur as" using assms by (simp add: ctx_wf_def)
  then obtain a n where a: "cur = Some a" "h a = Some n" and
    chain: "in_chain h (Some a) None (a # tl as)"
    by (cases as) (auto simp: in_wf_def split: option.splits)
  have "int (n_begin n) \<le> int x" "int x \<le> int (n_end n)"
    using assms a by (auto simp: ctx_wf_def)
  from pos_down_chain [OF chain a(2) this, of "int k"] a show ?thesis by auto
qed

lemma ctx_wf_pos_down_at:
  assumes "ctx_wf m h cur eof as fin d" "in_deref h cur = Some n"
  shows "\<exists>q b. lexbor_in_node_pos_down h cur (int (n_end n)) (int k) = Some (q, b)"
  using ctx_wf_pos_down_end [OF assms(1), of k] assms(2) by auto

text \<open>The current position is a position that can be saved, and a saved position stays one.\<close>

lemma ctx_wf_save:
  assumes "ctx_wf m h cur eof as fin d" "\<not> eof" "d \<le> fin" "d \<le> y"
  shows "saved_pos h as y cur d"
  using assms by (auto simp: ctx_wf_def saved_pos_def in_wf_def elim!: in_wf_cur)
    (metis in_chain.elims(2) list.sel(1) list.set_intros(1) option.inject)

lemma saved_pos_mono: "saved_pos h as d tmp p \<Longrightarrow> d \<le> d' \<Longrightarrow> saved_pos h as d' tmp p"
  by (auto simp: saved_pos_def)

lemma saved_pos_bg_in: "saved_pos h as d tmp p \<Longrightarrow> bg_in h as p"
  by (auto simp: saved_pos_def bg_in_def lexbor_in_segment_def)

lemma ctx_wf_bg_in:
  assumes "ctx_wf m h cur eof as fin d" "\<not> eof" "d \<le> y" "y \<le> fin"
  shows "bg_in h as y"
  using assms ctx_wf_save [of m h cur eof as fin y y] ctx_wf_mono [of m h cur eof as fin d y]
  by (auto intro: saved_pos_bg_in)

lemma ctx_wf_bg_end:
  assumes "ctx_wf m h cur eof as fin d" "in_deref h cur = Some n"
  shows "bg_in h as (n_end n)"
  using assms by (auto simp: bg_in_def lexbor_in_segment_def elim!: ctx_wf_cur)

lemma ctx_wf_bg_upto:
  assumes "ctx_wf m h cur eof as fin d"
  shows "bg_upto h as cur b = bg_in h as b"
proof -
  obtain a xs where as: "as = a # xs" "cur = Some a" "a \<notin> set xs"
    using assms in_chain_distinct [of h cur None as]
    by (cases as) (auto simp: ctx_wf_def in_wf_def)
  then have "a # xs = ys @ a # zs \<longleftrightarrow> ys = [] \<and> zs = xs" for ys zs
    by (cases ys) auto
  with as show ?thesis by (auto simp: bg_upto_def)
qed

lemma ctx_wf_tag_id:
  assumes "ctx_wf m h cur False as fin d" "d < fin" "saved_pos h as d tmp p"
  shows "\<exists>i. lxb_html_in_tag_id al tid m h tmp p d = Some i"
  using assms by (auto simp: ctx_wf_def intro!: in_tag_id_defined)

lemma ctx_wf_ncasecmp:
  assumes "ctx_wf m h cur False as fin d" "d < fin" "saved_pos h as d tmp p" "len \<le> length data"
  shows "\<exists>r. lxb_html_in_ncasecmp m h tmp p d data len = Some r"
  using assms by (auto simp: ctx_wf_def intro!: in_ncasecmp_defined)

section \<open>Rules for the macros\<close>

named_theorems tkz_wp \<open>evaluation of the macros on a tokenizer with a token\<close>

lemma error_add_fields [simp]:
  "state (lxb_html_tokenizer_error_add E t p i) = state t"
  "token (lxb_html_tokenizer_error_add E t p i) = token t"
  "in_nodes (lxb_html_tokenizer_error_add E t p i) = in_nodes t"
  "incoming_first (lxb_html_tokenizer_error_add E t p i) = incoming_first t"
  "incoming_node (lxb_html_tokenizer_error_add E t p i) = incoming_node t"
  "markup (lxb_html_tokenizer_error_add E t p i) = markup t"
  "tmp_incoming_node (lxb_html_tokenizer_error_add E t p i) = tmp_incoming_node t"
  "tmp_tag_id (lxb_html_tokenizer_error_add E t p i) = tmp_tag_id t"
  "opt (lxb_html_tokenizer_error_add E t p i) = opt t"
  "status (lxb_html_tokenizer_error_add E t p i) = status t"
  "is_eof (lxb_html_tokenizer_error_add E t p i) = is_eof t"
  "reuse (lxb_html_tokenizer_error_add E t p i) = reuse t"
  "callback_token_ctx (lxb_html_tokenizer_error_add E t p i) = callback_token_ctx t"
  by (auto simp: lxb_html_tokenizer_error_add_def split: option.splits)

lemma with_token_eq [tkz_wp]:
  "token t = Some tok \<Longrightarrow> with_token t f = Some (t\<lparr> token := Some (f tok) \<rparr>)"
  by (simp add: with_token_def)

lemma with_attr_last_eq [tkz_wp]:
  "token t = Some tok \<Longrightarrow> attrs tok \<noteq> [] \<Longrightarrow> with_attr_last t f =
     Some (t\<lparr> token := Some (tok\<lparr> attrs := butlast (attrs tok) @ [f (last (attrs tok))] \<rparr>) \<rparr>)"
  by (simp add: with_attr_last_def)

lemma attr_last_eq [tkz_wp]:
  "token t = Some tok \<Longrightarrow> attrs tok \<noteq> [] \<Longrightarrow> attr_last t = Some (last (attrs tok))"
  by (simp add: attr_last_def)

lemma incoming_end_eq [tkz_wp]:
  "in_deref (in_nodes t) (incoming_node t) = Some n \<Longrightarrow> incoming_end t = Some (n_end n)"
  by (simp add: incoming_end_def)

lemmas token_macros [tkz_wp] =
  token_set_begin_def token_set_end_def token_set_end_oef_def token_or_type_def
  attr_set_name_begin_def attr_set_name_end_def attr_set_name_end_oef_def
  attr_set_value_begin_def attr_set_value_end_def attr_set_value_end_oef_def attr_or_type_def

lemma token_clean_attrs [simp]: "attrs (lxb_html_token_clean tok) = []"
  by (simp add: lxb_html_token_clean_def)

lemma token_clean_begin [simp]: "t_begin (lxb_html_token_clean tok) = NULL"
  by (simp add: lxb_html_token_clean_def)

section \<open>Rules for the functions\<close>

text \<open>The collections that evaluate a state function down to the contract of its returns.\<close>

named_theorems tkz_intro \<open>rules for the macros that may return\<close>
named_theorems tkz_simp \<open>the contract and the macros unfolded\<close>

lemma is_ws_simps [simp]: "\<not> is_ws 0" "\<not> is_ws 0x2F" "\<not> is_ws 0x3D" "\<not> is_ws 0x3E"
  by (simp_all add: is_ws_def)

lemma is_alpha_0 [simp]: "\<not> is_alpha 0"
  by code_simp

lemma name_ends_Some [simp]:
  "name_ends (Some c) eof \<longleftrightarrow> is_ws c \<or> c = 0x2F \<or> c = 0x3E \<or> c = 0x00 \<and> eof"
  by (simp add: name_ends_def)

text \<open>Everything that is known at the beginning of a turn of a loop or of a function
  without loop, unpacked: the byte \<open>c\<close>, the token and the current node.\<close>

definition ready :: "'c env \<Rightarrow> addr list \<Rightarrow> addr \<Rightarrow> 'c tkz \<Rightarrow> addr \<Rightarrow> lxb_char \<Rightarrow> html_token \<Rightarrow> lexbor_in_node \<Rightarrow> bool" where
  "ready E as fin t d c tok n \<longleftrightarrow>
     mem E d = Some c \<and> d < fin \<and> (is_eof t \<longrightarrow> c = 0) \<and> status t = LXB_STATUS_OK \<and> token t = Some tok \<and>
     in_deref (in_nodes t) (incoming_node t) = Some n \<and>
     (\<forall>y. d \<le> y \<longrightarrow> ctx_wf (mem E) (in_nodes t) (incoming_node t) (is_eof t) as fin y) \<and>
     (\<forall>y. \<not> is_eof t \<and> d \<le> y \<and> y \<le> fin \<longrightarrow> bg_in (in_nodes t) as y) \<and>
     bg_in (in_nodes t) as (n_end n) \<and>
     (\<forall>b. bg_upto (in_nodes t) as (incoming_node t) b = bg_in (in_nodes t) as b) \<and>
     st_wf (mem E) (in_nodes t) as (is_eof t) fin (state t) tok (markup t) (tmp_incoming_node t) d"

lemma tkz_wf_ready:
  assumes "tkz_wf E as fin t d" "d < fin"
  shows "\<exists>c tok n. ready E as fin t d c tok n"
proof -
  obtain tok where ctx: "ctx_wf (mem E) (in_nodes t) (incoming_node t) (is_eof t) as fin d"
    and tok: "token t = Some tok" "status t = LXB_STATUS_OK"
      "st_wf (mem E) (in_nodes t) as (is_eof t) fin (state t) tok (markup t) (tmp_incoming_node t) d"
    using assms by (auto simp: tkz_wf_def)
  obtain n where n: "in_deref (in_nodes t) (incoming_node t) = Some n"
    using ctx by (auto elim: ctx_wf_cur)
  obtain c where c: "mem E d = Some c"
    using ctx_wf_rd [OF ctx assms(2)] by blast
  have "is_eof t \<longrightarrow> c = 0"
    using ctx_wf_eof [of "mem E" _ _ as fin d d] ctx c assms(2) by auto
  with c n tok assms(2) show ?thesis
    unfolding ready_def
    using ctx_wf_mono [OF ctx] ctx_wf_bg_in [OF ctx] ctx_wf_bg_end [OF ctx n] ctx_wf_bg_upto [OF ctx]
    by blast
qed

lemma step_ready:
  assumes "tkz_wf E as fin t d" "d < fin"
    and "\<And>c tok n. ready E as fin t d c tok n \<Longrightarrow> wp m P"
  shows "wp m P"
  using tkz_wf_ready [OF assms(1,2)] assms(3) by blast

lemma step_plain:
  assumes "tkz_wf E as fin t d" "d < fin"
    and "\<And>c tok n. is_eof t \<Longrightarrow> ready E as fin t d c tok n \<Longrightarrow> wp m P"
    and "\<And>c tok n. \<not> is_eof t \<Longrightarrow> ready E as fin t d c tok n \<Longrightarrow> wp m P"
  shows "wp m P"
  using step_ready [OF assms(1,2)] assms(3,4) by blast

text \<open>A turn of a loop that began at \<open>d\<close> in \<open>t0\<close>.\<close>

abbreviation turn_ok :: "'c env \<Rightarrow> addr list \<Rightarrow> addr \<Rightarrow> addr \<Rightarrow> 'c tkz \<Rightarrow> addr \<Rightarrow> addr \<Rightarrow> 'c tkz turn \<Rightarrow> bool" where
  "turn_ok E as fin b t0 d x \<equiv> turn_post (step_post E as fin b t0 d)
     (\<lambda>t'. tkz_wf E as fin t' (Suc x) \<and> keeps t0 t' \<and> state t' = state t0)"

lemma step_scan:
  assumes "tkz_wf E as fin t0 d" "d < fin" "fin \<le> b"
    and "tkz_wf E as fin t d" "keeps t0 t" "state t = state t0"
    and body: "\<And>t x c tok n. ready E as fin t x c tok n \<Longrightarrow> d \<le> x \<Longrightarrow> keeps t0 t \<Longrightarrow> state t = state t0 \<Longrightarrow>
      wp (bd c t x) (turn_ok E as fin b t0 d x)"
  shows "wp (while_scan (mem E) bd t d fin) (step_post E as fin b t0 d)"
proof (rule while_scan_wp [where J = "\<lambda>t x. tkz_wf E as fin t x \<and> keeps t0 t \<and> state t = state t0"])
  show "mapped (mem E) d fin"
    using assms(1) by (auto simp: tkz_wf_def ctx_wf_mapped)
  show "wp (bd c t x) (turn_ok E as fin b t0 d x)"
    if "tkz_wf E as fin t x \<and> keeps t0 t \<and> state t = state t0" "d \<le> x" "x < fin" "mem E x = Some c" for t x c
  proof -
    note h = that
    obtain c' tok n where r: "ready E as fin t x c' tok n"
      using h tkz_wf_ready [of E as fin t x] by blast
    from r h(4) have "c' = c" by (simp add: ready_def)
    with r h(1,2) show ?thesis by (auto intro: body)
  qed
  show "step_post E as fin b t0 d (t, fin)"
    if "tkz_wf E as fin t fin \<and> keeps t0 t \<and> state t = state t0" for t
    using that assms(2,3) by (auto simp: step_post_def tkz_wf_def)
qed (use assms in auto)

lemma step_loop_ready:
  assumes "tkz_wf E as fin t d" "d < fin"
    and "\<And>t' x c tok n. ready E as fin t' x c tok n \<Longrightarrow> d \<le> x \<Longrightarrow> keeps t t' \<Longrightarrow> state t' = state t \<Longrightarrow>
      wp (bd c t' x) (turn_ok E as fin fin t d x)"
  shows "wp (while_scan (mem E) bd t d fin) (step_post E as fin fin t d)"
  by (rule step_scan [OF assms(1,2) order.refl assms(1) _ refl assms(3)]) (simp_all add: keeps_def)

lemma step_loop:
  assumes "tkz_wf E as fin t d" "d < fin"
    and "\<And>t' x c tok n. is_eof t' \<Longrightarrow> ready E as fin t' x c tok n \<Longrightarrow> d \<le> x \<Longrightarrow> keeps t t' \<Longrightarrow>
      state t' = state t \<Longrightarrow> wp (bd c t' x) (turn_ok E as fin fin t d x)"
    and "\<And>t' x c tok n. \<not> is_eof t' \<Longrightarrow> ready E as fin t' x c tok n \<Longrightarrow> d \<le> x \<Longrightarrow> keeps t t' \<Longrightarrow>
      state t' = state t \<Longrightarrow> wp (bd c t' x) (turn_ok E as fin fin t d x)"
  shows "wp (while_scan (mem E) bd t d fin) (step_post E as fin fin t d)"
  using step_loop_ready [OF assms(1,2), of bd] assms(3,4) by blast

text \<open>The loops that compare the text since a saved position.\<close>

lemma step_ptr_loop:
  assumes "tkz_wf E as fin t d" "needs_ptr (state t)" "d < fin"
    and "\<And>t' x tok n. is_eof t' \<Longrightarrow> ready E as fin t' x 0 tok n \<Longrightarrow> d \<le> x \<Longrightarrow> keeps t t' \<Longrightarrow>
      state t' = state t \<Longrightarrow> wp (bd 0 t' x) (turn_ok E as fin fin t d x)"
    and "\<And>t' x c tok n p. \<not> is_eof t' \<Longrightarrow> ready E as fin t' x c tok n \<Longrightarrow> d \<le> x \<Longrightarrow> keeps t t' \<Longrightarrow>
      state t' = state t \<Longrightarrow> markup t' = Mk_Ptr p \<Longrightarrow>
      saved_pos (in_nodes t') as x (tmp_incoming_node t') p \<Longrightarrow>
      saved_pos (in_nodes t') as (Suc x) (tmp_incoming_node t') p \<Longrightarrow>
      ctx_wf (mem E) (in_nodes t') (incoming_node t') False as fin x \<Longrightarrow> x < fin \<Longrightarrow>
      bg_in (in_nodes t') as p \<Longrightarrow> wp (bd c t' x) (turn_ok E as fin fin t d x)"
  shows "wp (while_scan (mem E) bd t d fin) (step_post E as fin fin t d)"
proof (rule step_loop [OF assms(1,3)])
  fix t' x c tok n
  assume *: "\<not> is_eof t'" "ready E as fin t' x c tok n" "d \<le> x" "keeps t t'" "state t' = state t"
  then obtain p where p: "markup t' = Mk_Ptr p" "saved_pos (in_nodes t') as x (tmp_incoming_node t') p"
    using assms(2) by (auto simp: ready_def st_wf_def)
  moreover have "ctx_wf (mem E) (in_nodes t') (incoming_node t') False as fin x" "x < fin"
    using * by (auto simp: ready_def)
  ultimately show "wp (bd c t' x) (turn_ok E as fin fin t d x)"
    using assms(5) [OF *] saved_pos_bg_in [OF p(2)] saved_pos_mono [OF p(2), of "Suc x"] by simp
next
  fix t' x c tok n
  assume *: "is_eof t'" "ready E as fin t' x c tok n" "d \<le> x" "keeps t t'" "state t' = state t"
  then have "c = 0" by (simp add: ready_def)
  with assms(4) * show "wp (bd c t' x) (turn_ok E as fin fin t d x)" by blast
qed

lemmas tkz_unfold [tkz_simp] =
  ready_def step_post_def tkz_wf_def keeps_def st_wf_def Let_def tkz_wp demands_le_def

section \<open>The interface to the consumer of the tokens\<close>

locale token_callback =
  fixes E :: "'c env"
  assumes callback_keeps: "callback_token_done E t tok = (t', r) \<Longrightarrow> keeps t t'"
    and callback_markup: "callback_token_done E t tok = (t', r) \<Longrightarrow>
      markup t' = markup t \<and> tmp_incoming_node t' = tmp_incoming_node t"
    and callback_status: "callback_token_done E t tok = (t', Some tok') \<Longrightarrow> status t' = status t"
    and callback_state: "callback_token_done E t tok = (t', r) \<Longrightarrow>
      state t' = state t \<or> before_state (state t')"
begin

text \<open>After the callback the code goes on with a clean token, or returns with an error.\<close>

lemma token_done_call_wp:
  assumes tok: "token t = Some tok"
    and ok: "\<And>t' tok'. keeps t t' \<Longrightarrow> markup t' = markup t \<Longrightarrow> tmp_incoming_node t' = tmp_incoming_node t \<Longrightarrow>
      status t' = status t \<Longrightarrow> state t' = state t \<or> before_state (state t') \<Longrightarrow>
      token t' = Some tok' \<Longrightarrow> wp (k t') P"
    and err: "\<And>t'. keeps t t' \<Longrightarrow> status t' \<noteq> LXB_STATUS_OK \<Longrightarrow> wp (rt t' v) P"
  shows "wp (token_done_call rt E t v k) P"
proof -
  obtain t1 r where cb: "callback_token_done E t tok = (t1, r)"
    by fastforce
  note facts = callback_keeps [OF cb] callback_markup [OF cb] callback_state [OF cb]
  show ?thesis
  proof (cases r)
    case None
    then show ?thesis
      using facts cb tok
      by (auto simp: token_done_call_def keeps_def Let_def intro!: err)
  next
    case (Some tok')
    then show ?thesis
      using facts cb tok callback_status [of t tok t1 tok']
      by (auto simp: token_done_call_def keeps_def intro!: ok [of _ tok'])
  qed
qed

lemma token_done_wo_check_wp:
  assumes tok: "token t = Some tok"
    and ok: "\<And>t' tok'. keeps t t' \<Longrightarrow> markup t' = markup t \<Longrightarrow> tmp_incoming_node t' = tmp_incoming_node t \<Longrightarrow>
      status t' = status t \<Longrightarrow> state t' = state t \<or> before_state (state t') \<Longrightarrow>
      token t' = Some (lxb_html_token_clean tok') \<Longrightarrow> wp (k t') P"
    and err: "\<And>t'. keeps t t' \<Longrightarrow> status t' \<noteq> LXB_STATUS_OK \<Longrightarrow> wp (rt t' v) P"
  shows "wp (token_done_wo_check_m rt E t v k) P"
  unfolding token_done_wo_check_m_def
  by (rule token_done_call_wp [OF tok])
     (auto simp: with_token_eq keeps_def intro!: ok err)

lemma token_done_wp:
  assumes tok: "token t = Some tok"
    and ok: "\<And>t' tok'. keeps t t' \<Longrightarrow> markup t' = markup t \<Longrightarrow> tmp_incoming_node t' = tmp_incoming_node t \<Longrightarrow>
      status t' = status t \<Longrightarrow> state t' = state t \<or> before_state (state t') \<Longrightarrow>
      token t' = Some (lxb_html_token_clean tok') \<Longrightarrow> wp (k t') P"
    and err: "\<And>t'. keeps t t' \<Longrightarrow> status t' \<noteq> LXB_STATUS_OK \<Longrightarrow> wp (rt t' v) P"
  shows "wp (token_done_m rt E t v k) P"
proof (cases "t_begin tok = t_end tok")
  case True
  have "wp (k (t\<lparr> token := Some (lxb_html_token_clean tok) \<rparr>)) P"
    by (rule ok) (simp_all add: keeps_def)
  with True tok show ?thesis
    by (simp add: token_done_m_def with_token_eq)
next
  case False
  have "wp (token_done_wo_check_m rt E t v k) P"
    by (rule token_done_wo_check_wp [OF tok]) (blast intro: ok err)+
  with False tok show ?thesis
    by (simp add: token_done_m_def token_done_wo_check_m_def)
qed

lemma token_emit_text_wp:
  assumes tok: "token t = Some tok"
    and ok: "\<And>t' tok'. keeps t t' \<Longrightarrow> markup t' = markup t \<Longrightarrow> tmp_incoming_node t' = tmp_incoming_node t \<Longrightarrow>
      status t' = status t \<Longrightarrow> state t' = state t \<or> before_state (state t') \<Longrightarrow>
      token t' = Some tok' \<Longrightarrow> t_begin tok' = NULL \<or> token t' = token t \<Longrightarrow> wp (k t') P"
    and err: "\<And>t'. keeps t t' \<Longrightarrow> status t' \<noteq> LXB_STATUS_OK \<Longrightarrow> wp (rt t' v) P"
  shows "wp (token_emit_text_not_empty_m rt E t v k) P"
proof (cases "t_begin tok = t_end tok")
  case True
  have "wp (k t) P"
    by (rule ok [OF _ _ _ _ _ tok]) (simp_all add: keeps_def tok)
  with True tok show ?thesis
    by (simp add: token_emit_text_not_empty_m_def)
next
  case False
  let ?t = "t\<lparr> token := Some (tok\<lparr> tag_id := 2, t_type := 4 \<rparr>) \<rparr>"
  have "wp (token_done_wo_check_m rt E ?t v k) P"
    by (rule token_done_wo_check_wp [where tok = "tok\<lparr> tag_id := 2, t_type := 4 \<rparr>"])
       (auto simp: keeps_def intro!: ok err)
  with False tok show ?thesis
    by (simp add: token_emit_text_not_empty_m_def token_done_wo_check_m_def with_token_eq)
qed

text \<open>The same rules for a token that is only known to be there.\<close>

lemma done_wp [tkz_intro]:
  assumes tok: "token t \<noteq> None"
    and ok: "\<And>t' tok'. keeps t t' \<Longrightarrow> markup t' = markup t \<Longrightarrow> tmp_incoming_node t' = tmp_incoming_node t \<Longrightarrow>
      status t' = status t \<Longrightarrow> demands_le (state t') (state t) \<Longrightarrow>
      token t' = Some (lxb_html_token_clean tok') \<Longrightarrow> wp (k t') P"
    and err: "\<And>t'. keeps t t' \<Longrightarrow> status t' \<noteq> LXB_STATUS_OK \<Longrightarrow> wp (rt t' v) P"
  shows "wp (token_done_m rt E t v k) P" "wp (token_done_wo_check_m rt E t v k) P"
  using tok by (auto intro!: token_done_wp token_done_wo_check_wp ok err demands_le_switch)

lemma emit_wp [tkz_intro]:
  assumes tok: "token t \<noteq> None"
    and ok: "\<And>t' tok'. keeps t t' \<Longrightarrow> markup t' = markup t \<Longrightarrow> tmp_incoming_node t' = tmp_incoming_node t \<Longrightarrow>
      status t' = status t \<Longrightarrow> demands_le (state t') (state t) \<Longrightarrow>
      token t' = Some tok' \<Longrightarrow>
      (\<And>h as. t_begin (the (token t)) = NULL \<or> bg_in h as (t_begin (the (token t))) \<Longrightarrow>
        t_begin tok' = NULL \<or> bg_in h as (t_begin tok')) \<Longrightarrow> wp (k t') P"
    and err: "\<And>t'. keeps t t' \<Longrightarrow> status t' \<noteq> LXB_STATUS_OK \<Longrightarrow> wp (rt t' v) P"
  shows "wp (token_emit_text_not_empty_m rt E t v k) P"
  using tok by (auto intro!: token_emit_text_wp ok err demands_le_switch)

end

lemma token_attr_add_wp:
  assumes "token t = Some tok"
    and "wp (k (t\<lparr> token := Some (tok\<lparr> attrs := attrs tok @ [empty_attr] \<rparr>) \<rparr>)) P"
    and "wp (rt (t\<lparr> status := LXB_STATUS_ERROR_MEMORY_ALLOCATION \<rparr>) v) P"
  shows "wp (token_attr_add_m rt E t v k) P"
  using assms by (simp add: token_attr_add_m_def lxb_html_token_attr_append_def)

lemma set_end_down_wp [tkz_intro]:
  assumes "token t \<noteq> None"
    and "\<exists>q b. lexbor_in_node_pos_down (in_nodes t) (incoming_node t) (int v) (int n) = Some (q, b)"
    and "\<And>tok q. token t = Some tok \<Longrightarrow> P (t\<lparr> token := Some (tok\<lparr> t_end := nat q \<rparr>) \<rparr>)"
  shows "wp (token_set_end_down t v n) P"
  using assms by (auto simp: token_set_end_down_def with_token_def)

lemma add_wp [tkz_intro]:
  assumes "token t \<noteq> None"
    and "\<And>tok. token t = Some tok \<Longrightarrow> wp (k (t\<lparr> token := Some (tok\<lparr> attrs := attrs tok @ [empty_attr] \<rparr>) \<rparr>)) P"
    and "wp (rt (t\<lparr> status := LXB_STATUS_ERROR_MEMORY_ALLOCATION \<rparr>) v) P"
  shows "wp (token_attr_add_m rt E t v k) P"
  using assms by (auto intro!: token_attr_add_wp)

end
