(* ===== verification/Tkz_State.thy ===== *)
theory Tkz_State
  imports Tkz_Inv
begin

text \<open>
  The state functions of \<open>html/tokenizer/state.c\<close>: text, tags, attributes, bogus
  comments, markup declarations and CDATA sections.  Every definition carries the
  name of its C function; the branches are the cases of its switch in their order.
  For every function the lemma \<open>..._ok\<close> states that it keeps the contract of a step.
\<close>

section \<open>Text\<close>

definition lxb_html_tokenizer_state_data_before :: "'c env \<Rightarrow> 'c tkz \<Rightarrow> addr \<Rightarrow> addr \<Rightarrow> ('c tkz \<times> addr) option" where
  "lxb_html_tokenizer_state_data_before E t data fin = do {
     t \<leftarrow> (if \<not> is_eof t then token_set_begin t data else Some t);
     let t = t\<lparr> state := S_data \<rparr>;
     ret t data
   }"

definition lxb_html_tokenizer_state_data :: "'c env \<Rightarrow> 'c tkz \<Rightarrow> addr \<Rightarrow> addr \<Rightarrow> ('c tkz \<times> addr) option" where
  "lxb_html_tokenizer_state_data E t data fin =
     while_scan (mem E) (\<lambda>c t data.
       if c = 0x3C then do {
         t \<leftarrow> token_set_end t data;
         let t = t\<lparr> state := S_tag_open \<rparr>;
         lret t (data + 1)
       }
       else if c = 0x00 then
         (if is_eof t then do {
            tok \<leftarrow> token t;
            t \<leftarrow> (if t_begin tok \<noteq> NULL then token_set_end_oef t else Some t);
            tok \<leftarrow> token t;
            if t_begin tok \<noteq> t_end tok then do {
              t \<leftarrow> with_token t (\<lambda>tok. tok\<lparr> tag_id := LXB_TAG__TEXT, t_type := LXB_HTML_TOKEN_TYPE_TEXT \<rparr>);
              token_done_wo_check_m lret E t fin (\<lambda>t. lret t fin)
            }
            else lret t fin
          }
          else do {
            t \<leftarrow> token_or_type t LXB_HTML_TOKEN_TYPE_NULL;
            let t = lxb_html_tokenizer_error_add E t data LXB_HTML_TOKENIZER_ERROR_UNNUCH;
            cont t
          })
       else cont t) t data fin"

definition lxb_html_tokenizer_state_plaintext_before :: "'c env \<Rightarrow> 'c tkz \<Rightarrow> addr \<Rightarrow> addr \<Rightarrow> ('c tkz \<times> addr) option" where
  "lxb_html_tokenizer_state_plaintext_before E t data fin = do {
     t \<leftarrow> (if \<not> is_eof t then token_set_begin t data else Some t);
     t \<leftarrow> with_token t (\<lambda>tok. tok\<lparr> tag_id := LXB_TAG__TEXT, t_type := LXB_HTML_TOKEN_TYPE_DATA \<rparr>);
     let t = t\<lparr> state := S_plaintext \<rparr>;
     ret t data
   }"

definition lxb_html_tokenizer_state_plaintext :: "'c env \<Rightarrow> 'c tkz \<Rightarrow> addr \<Rightarrow> addr \<Rightarrow> ('c tkz \<times> addr) option" where
  "lxb_html_tokenizer_state_plaintext E t data fin =
     while_scan (mem E) (\<lambda>c t data.
       if c = 0x00 then
         (if is_eof t then do {
            tok \<leftarrow> token t;
            t \<leftarrow> (if t_begin tok \<noteq> NULL then token_set_end_oef t else Some t);
            token_done_m lret E t fin (\<lambda>t. lret t fin)
          }
          else do {
            t \<leftarrow> token_or_type t LXB_HTML_TOKEN_TYPE_NULL;
            let t = lxb_html_tokenizer_error_add E t data LXB_HTML_TOKENIZER_ERROR_UNNUCH;
            cont t
          })
       else cont t) t data fin"

section \<open>Tags\<close>

definition lxb_html_tokenizer_state_tag_open :: "'c env \<Rightarrow> 'c tkz \<Rightarrow> addr \<Rightarrow> addr \<Rightarrow> ('c tkz \<times> addr) option" where
  "lxb_html_tokenizer_state_tag_open E t data fin = do {
     c \<leftarrow> mem E data;
     if is_alpha c then do {
       let t = t\<lparr> state := S_tag_name \<rparr>;
       token_emit_text_not_empty_m ret E t fin (\<lambda>t. do {
         t \<leftarrow> token_set_begin t data;
         ret t data
       })
     }
     else if c = 0x21 then do {
       let t = t\<lparr> state := S_markup_declaration_open \<rparr>;
       token_emit_text_not_empty_m ret E t fin (\<lambda>t. ret t (data + 1))
     }
     else if c = 0x2F then do {
       let t = t\<lparr> state := S_end_tag_open \<rparr>;
       ret t (data + 1)
     }
     else if c = 0x3F then do {
       let t = t\<lparr> state := S_bogus_comment_before \<rparr>;
       token_emit_text_not_empty_m ret E t fin (\<lambda>t. do {
         t \<leftarrow> token_set_begin t data;
         let t = lxb_html_tokenizer_error_add E t data LXB_HTML_TOKENIZER_ERROR_UNQUMAINOFTANA;
         ret t (data + 1)
       })
     }
     else if c = 0x00 \<and> is_eof t then do {
       t \<leftarrow> with_token t (\<lambda>tok. tok\<lparr> tag_id := LXB_TAG__TEXT, t_type := LXB_HTML_TOKEN_TYPE_TEXT \<rparr>);
       t \<leftarrow> token_set_end_oef t;
       tok \<leftarrow> token t;
       let t = lxb_html_tokenizer_error_add E t (t_end tok) LXB_HTML_TOKENIZER_ERROR_EOBETANA;
       token_emit_text_not_empty_m ret E t fin (\<lambda>t. ret t fin)
     }
     else do {
       let t = lxb_html_tokenizer_error_add E t data LXB_HTML_TOKENIZER_ERROR_INFICHOFTANA;
       let t = t\<lparr> state := S_data \<rparr>;
       ret t data
     }
   }"

definition lxb_html_tokenizer_state_end_tag_open :: "'c env \<Rightarrow> 'c tkz \<Rightarrow> addr \<Rightarrow> addr \<Rightarrow> ('c tkz \<times> addr) option" where
  "lxb_html_tokenizer_state_end_tag_open E t data fin = do {
     c \<leftarrow> mem E data;
     if is_alpha c then do {
       let t = t\<lparr> state := S_tag_name \<rparr>;
       token_emit_text_not_empty_m ret E t fin (\<lambda>t. do {
         t \<leftarrow> token_set_begin t data;
         t \<leftarrow> token_or_type t LXB_HTML_TOKEN_TYPE_CLOSE;
         ret t data
       })
     }
     else if c = 0x3E then do {
       let t = t\<lparr> state := S_data \<rparr>;
       let t = lxb_html_tokenizer_error_add E t data LXB_HTML_TOKENIZER_ERROR_MIENTANA;
       ret t (data + 1)
     }
     else if c = 0x00 \<and> is_eof t then do {
       t \<leftarrow> with_token t (\<lambda>tok. tok\<lparr> tag_id := LXB_TAG__TEXT, t_type := LXB_HTML_TOKEN_TYPE_TEXT \<rparr>);
       t \<leftarrow> token_set_end_oef t;
       tok \<leftarrow> token t;
       let t = lxb_html_tokenizer_error_add E t (t_end tok) LXB_HTML_TOKENIZER_ERROR_EOBETANA;
       token_emit_text_not_empty_m ret E t fin (\<lambda>t. ret t fin)
     }
     else do {
       let t = t\<lparr> state := S_bogus_comment_before \<rparr>;
       let t = lxb_html_tokenizer_error_add E t data LXB_HTML_TOKENIZER_ERROR_INFICHOFTANA;
       token_emit_text_not_empty_m ret E t fin (\<lambda>t. do {
         t \<leftarrow> token_set_begin t data;
         ret t data
       })
     }
   }"

definition lxb_html_tokenizer_state_tag_name :: "'c env \<Rightarrow> 'c tkz \<Rightarrow> addr \<Rightarrow> addr \<Rightarrow> ('c tkz \<times> addr) option" where
  "lxb_html_tokenizer_state_tag_name E t data fin =
     while_scan (mem E) (\<lambda>c t data.
       if is_ws c then do {
         t \<leftarrow> token_set_end t data;
         let t = t\<lparr> state := S_before_attribute_name \<rparr>;
         lret t (data + 1)
       }
       else if c = 0x2F then do {
         t \<leftarrow> token_set_end t data;
         let t = t\<lparr> state := S_self_closing_start_tag \<rparr>;
         lret t (data + 1)
       }
       else if c = 0x3E then do {
         let t = t\<lparr> state := S_data_before \<rparr>;
         t \<leftarrow> token_set_end t data;
         token_done_m lret E t fin (\<lambda>t. lret t (data + 1))
       }
       else if c = 0x00 then
         (if is_eof t then do {
            t \<leftarrow> token_set_end_oef t;
            tok \<leftarrow> token t;
            let t = lxb_html_tokenizer_error_add E t (t_end tok) LXB_HTML_TOKENIZER_ERROR_EOINTA;
            lret t fin
          }
          else do {
            t \<leftarrow> token_or_type t LXB_HTML_TOKEN_TYPE_NULL;
            let t = lxb_html_tokenizer_error_add E t data LXB_HTML_TOKENIZER_ERROR_UNNUCH;
            cont t
          })
       else cont t) t data fin"

section \<open>Attributes\<close>

definition lxb_html_tokenizer_state_before_attribute_name :: "'c env \<Rightarrow> 'c tkz \<Rightarrow> addr \<Rightarrow> addr \<Rightarrow> ('c tkz \<times> addr) option" where
  "lxb_html_tokenizer_state_before_attribute_name E t data fin =
     while_scan (mem E) (\<lambda>c t data.
       if is_ws c then cont t
       else if c = 0x3D then
         token_attr_add_m lret E t fin (\<lambda>t. do {
           t \<leftarrow> attr_set_name_begin t data;
           let t = lxb_html_tokenizer_error_add E t data LXB_HTML_TOKENIZER_ERROR_UNEQSIBEATNA;
           let t = t\<lparr> state := S_attribute_name \<rparr>;
           lret t (data + 1)
         })
       else if c = 0x2F \<or> c = 0x3E then do {
         let t = t\<lparr> state := S_after_attribute_name \<rparr>;
         lret t data
       }
       else if c = 0x00 \<and> is_eof t then do {
         let t = t\<lparr> state := S_after_attribute_name \<rparr>;
         lret t data
       }
       else
         token_attr_add_m lret E t fin (\<lambda>t. do {
           t \<leftarrow> attr_set_name_begin t data;
           let t = t\<lparr> state := S_attribute_name \<rparr>;
           lret t data
         })) t data fin"

definition lxb_html_tokenizer_state_attribute_name :: "'c env \<Rightarrow> 'c tkz \<Rightarrow> addr \<Rightarrow> addr \<Rightarrow> ('c tkz \<times> addr) option" where
  "lxb_html_tokenizer_state_attribute_name E t data fin =
     while_scan (mem E) (\<lambda>c t data.
       if is_ws c \<or> c = 0x2F \<or> c = 0x3E then do {
         t \<leftarrow> attr_set_name_end t data;
         let t = t\<lparr> state := S_after_attribute_name \<rparr>;
         lret t data
       }
       else if c = 0x00 then
         (if is_eof t then do {
            t \<leftarrow> attr_set_name_end_oef t;
            let t = t\<lparr> state := S_after_attribute_name \<rparr>;
            lret t data
          }
          else do {
            let t = lxb_html_tokenizer_error_add E t data LXB_HTML_TOKENIZER_ERROR_UNNUCH;
            t \<leftarrow> attr_or_type t LXB_HTML_TOKEN_ATTR_TYPE_NAME_NULL;
            cont t
          })
       else if c = 0x3D then do {
         t \<leftarrow> attr_set_name_end t data;
         let t = t\<lparr> state := S_before_attribute_value \<rparr>;
         lret t (data + 1)
       }
       else if c = 0x22 \<or> c = 0x27 \<or> c = 0x3C then do {
         let t = lxb_html_tokenizer_error_add E t data LXB_HTML_TOKENIZER_ERROR_UNCHINATNA;
         cont t
       }
       else cont t) t data fin"

definition lxb_html_tokenizer_state_after_attribute_name :: "'c env \<Rightarrow> 'c tkz \<Rightarrow> addr \<Rightarrow> addr \<Rightarrow> ('c tkz \<times> addr) option" where
  "lxb_html_tokenizer_state_after_attribute_name E t data fin =
     while_scan (mem E) (\<lambda>c t data.
       if is_ws c then cont t
       else if c = 0x2F then do {
         let t = t\<lparr> state := S_self_closing_start_tag \<rparr>;
         lret t (data + 1)
       }
       else if c = 0x3D then do {
         let t = t\<lparr> state := S_before_attribute_value \<rparr>;
         lret t (data + 1)
       }
       else if c = 0x3E then do {
         let t = t\<lparr> state := S_data_before \<rparr>;
         token_done_m lret E t fin (\<lambda>t. lret t (data + 1))
       }
       else if c = 0x00 \<and> is_eof t then do {
         e \<leftarrow> incoming_end t;
         let t = lxb_html_tokenizer_error_add E t e LXB_HTML_TOKENIZER_ERROR_EOINTA;
         lret t fin
       }
       else
         token_attr_add_m lret E t fin (\<lambda>t. do {
           t \<leftarrow> attr_set_name_begin t data;
           let t = t\<lparr> state := S_attribute_name \<rparr>;
           lret t data
         })) t data fin"

definition lxb_html_tokenizer_state_before_attribute_value :: "'c env \<Rightarrow> 'c tkz \<Rightarrow> addr \<Rightarrow> addr \<Rightarrow> ('c tkz \<times> addr) option" where
  "lxb_html_tokenizer_state_before_attribute_value E t data fin =
     while_scan (mem E) (\<lambda>c t data.
       if is_ws c then cont t
       else if c = 0x22 then do {
         let t = t\<lparr> state := S_attribute_value_double_quoted \<rparr>;
         lret t (data + 1)
       }
       else if c = 0x27 then do {
         let t = t\<lparr> state := S_attribute_value_single_quoted \<rparr>;
         lret t (data + 1)
       }
       else if c = 0x3E then do {
         let t = t\<lparr> state := S_data_before \<rparr>;
         let t = lxb_html_tokenizer_error_add E t data LXB_HTML_TOKENIZER_ERROR_MIATVA;
         token_done_m lret E t fin (\<lambda>t. lret t (data + 1))
       }
       else do {
         let t = t\<lparr> state := S_attribute_value_unquoted \<rparr>;
         lret t data
       }) t data fin"

text \<open>The start of the three value functions: the value begins at the first byte seen.\<close>

definition attr_value_start :: "'c tkz \<Rightarrow> addr \<Rightarrow> 'c tkz option" where
  "attr_value_start t data = do {
     a \<leftarrow> attr_last t;
     if value_begin a = NULL \<and> \<not> is_eof t then attr_set_value_begin t data else Some t
   }"

text \<open>The end of the text inside an attribute value.\<close>

definition attr_value_eof :: "'c env \<Rightarrow> 'c tkz \<Rightarrow> addr \<Rightarrow> 'c tkz turn option" where
  "attr_value_eof E t fin = do {
     a \<leftarrow> attr_last t;
     t \<leftarrow> (if value_begin a \<noteq> NULL then attr_set_value_end_oef t else Some t);
     e \<leftarrow> incoming_end t;
     let t = lxb_html_tokenizer_error_add E t e LXB_HTML_TOKENIZER_ERROR_EOINTA;
     lret t fin
   }"

definition lxb_html_tokenizer_state_attribute_value_double_quoted :: "'c env \<Rightarrow> 'c tkz \<Rightarrow> addr \<Rightarrow> addr \<Rightarrow> ('c tkz \<times> addr) option" where
  "lxb_html_tokenizer_state_attribute_value_double_quoted E t data fin = do {
     t \<leftarrow> attr_value_start t data;
     while_scan (mem E) (\<lambda>c t data.
       if c = 0x22 then do {
         t \<leftarrow> attr_set_value_end t data;
         let t = t\<lparr> state := S_after_attribute_value_quoted \<rparr>;
         lret t (data + 1)
       }
       else if c = 0x00 then
         (if is_eof t then attr_value_eof E t fin
          else do {
            t \<leftarrow> attr_or_type t LXB_HTML_TOKEN_ATTR_TYPE_VALUE_NULL;
            let t = lxb_html_tokenizer_error_add E t data LXB_HTML_TOKENIZER_ERROR_UNNUCH;
            cont t
          })
       else cont t) t data fin
   }"

definition lxb_html_tokenizer_state_attribute_value_single_quoted :: "'c env \<Rightarrow> 'c tkz \<Rightarrow> addr \<Rightarrow> addr \<Rightarrow> ('c tkz \<times> addr) option" where
  "lxb_html_tokenizer_state_attribute_value_single_quoted E t data fin = do {
     t \<leftarrow> attr_value_start t data;
     while_scan (mem E) (\<lambda>c t data.
       if c = 0x27 then do {
         t \<leftarrow> attr_set_value_end t data;
         let t = t\<lparr> state := S_after_attribute_value_quoted \<rparr>;
         lret t (data + 1)
       }
       else if c = 0x00 then
         (if is_eof t then attr_value_eof E t fin
          else do {
            t \<leftarrow> attr_or_type t LXB_HTML_TOKEN_ATTR_TYPE_VALUE_NULL;
            let t = lxb_html_tokenizer_error_add E t data LXB_HTML_TOKENIZER_ERROR_UNNUCH;
            cont t
          })
       else cont t) t data fin
   }"

definition lxb_html_tokenizer_state_attribute_value_unquoted :: "'c env \<Rightarrow> 'c tkz \<Rightarrow> addr \<Rightarrow> addr \<Rightarrow> ('c tkz \<times> addr) option" where
  "lxb_html_tokenizer_state_attribute_value_unquoted E t data fin = do {
     t \<leftarrow> attr_value_start t data;
     while_scan (mem E) (\<lambda>c t data.
       if is_ws c then do {
         t \<leftarrow> attr_set_value_end t data;
         let t = t\<lparr> state := S_before_attribute_name \<rparr>;
         lret t (data + 1)
       }
       else if c = 0x3E then do {
         let t = t\<lparr> state := S_data_before \<rparr>;
         t \<leftarrow> attr_set_value_end t data;
         token_done_m lret E t fin (\<lambda>t. lret t (data + 1))
       }
       else if c = 0x00 then
         (if is_eof t then attr_value_eof E t fin
          else do {
            t \<leftarrow> attr_or_type t LXB_HTML_TOKEN_ATTR_TYPE_VALUE_NULL;
            let t = lxb_html_tokenizer_error_add E t data LXB_HTML_TOKENIZER_ERROR_UNNUCH;
            cont t
          })
       else if c = 0x22 \<or> c = 0x27 \<or> c = 0x3C \<or> c = 0x3D \<or> c = 0x60 then do {
         tok \<leftarrow> token t;
         let t = lxb_html_tokenizer_error_add E t (t_end tok) LXB_HTML_TOKENIZER_ERROR_UNCHINUNATVA;
         cont t
       }
       else cont t) t data fin
   }"

definition lxb_html_tokenizer_state_after_attribute_value_quoted :: "'c env \<Rightarrow> 'c tkz \<Rightarrow> addr \<Rightarrow> addr \<Rightarrow> ('c tkz \<times> addr) option" where
  "lxb_html_tokenizer_state_after_attribute_value_quoted E t data fin = do {
     c \<leftarrow> mem E data;
     if is_ws c then do {
       let t = t\<lparr> state := S_before_attribute_name \<rparr>;
       ret t (data + 1)
     }
     else if c = 0x2F then do {
       let t = t\<lparr> state := S_self_closing_start_tag \<rparr>;
       ret t (data + 1)
     }
     else if c = 0x3E then do {
       let t = t\<lparr> state := S_data_before \<rparr>;
       token_done_m ret E t fin (\<lambda>t. ret t (data + 1))
     }
     else if c = 0x00 \<and> is_eof t then do {
       e \<leftarrow> incoming_end t;
       let t = lxb_html_tokenizer_error_add E t e LXB_HTML_TOKENIZER_ERROR_EOINTA;
       ret t fin
     }
     else do {
       let t = lxb_html_tokenizer_error_add E t data LXB_HTML_TOKENIZER_ERROR_MIWHBEAT;
       let t = t\<lparr> state := S_before_attribute_name \<rparr>;
       ret t data
     }
   }"

definition lxb_html_tokenizer_state_self_closing_start_tag :: "'c env \<Rightarrow> 'c tkz \<Rightarrow> addr \<Rightarrow> addr \<Rightarrow> ('c tkz \<times> addr) option" where
  "lxb_html_tokenizer_state_self_closing_start_tag E t data fin = do {
     c \<leftarrow> mem E data;
     if c = 0x3E then do {
       let t = t\<lparr> state := S_data_before \<rparr>;
       t \<leftarrow> token_or_type t LXB_HTML_TOKEN_TYPE_CLOSE_SELF;
       token_done_m ret E t fin (\<lambda>t. ret t (data + 1))
     }
     else if c = 0x00 \<and> is_eof t then do {
       tok \<leftarrow> token t;
       let t = lxb_html_tokenizer_error_add E t (t_end tok) LXB_HTML_TOKENIZER_ERROR_EOINTA;
       ret t fin
     }
     else do {
       let t = lxb_html_tokenizer_error_add E t data LXB_HTML_TOKENIZER_ERROR_UNSOINTA;
       let t = t\<lparr> state := S_before_attribute_name \<rparr>;
       ret t data
     }
   }"

section \<open>Bogus comments and markup declarations\<close>

definition lxb_html_tokenizer_state_bogus_comment_before :: "'c env \<Rightarrow> 'c tkz \<Rightarrow> addr \<Rightarrow> addr \<Rightarrow> ('c tkz \<times> addr) option" where
  "lxb_html_tokenizer_state_bogus_comment_before E t data fin = do {
     t \<leftarrow> with_token t (\<lambda>tok. tok\<lparr> t_type := LXB_HTML_TOKEN_TYPE_DATA, tag_id := LXB_TAG__EM_COMMENT \<rparr>);
     let t = t\<lparr> state := S_bogus_comment \<rparr>;
     ret t data
   }"

definition lxb_html_tokenizer_state_bogus_comment :: "'c env \<Rightarrow> 'c tkz \<Rightarrow> addr \<Rightarrow> addr \<Rightarrow> ('c tkz \<times> addr) option" where
  "lxb_html_tokenizer_state_bogus_comment E t data fin =
     while_scan (mem E) (\<lambda>c t data.
       if c = 0x3E then do {
         let t = t\<lparr> state := S_data_before \<rparr>;
         t \<leftarrow> token_set_end t data;
         token_done_wo_check_m lret E t fin (\<lambda>t. lret t (data + 1))
       }
       else if c = 0x00 then
         (if is_eof t then do {
            tok \<leftarrow> token t;
            t \<leftarrow> (if t_begin tok \<noteq> NULL then token_set_end_oef t else Some t);
            token_done_wo_check_m lret E t fin (\<lambda>t. lret t fin)
          }
          else do {
            let t = lxb_html_tokenizer_error_add E t data LXB_HTML_TOKENIZER_ERROR_UNNUCH;
            t \<leftarrow> token_or_type t LXB_HTML_TOKEN_TYPE_NULL;
            cont t
          })
       else cont t) t data fin"

text \<open>The bytes of the keywords \<open>"doctype"\<close> and \<open>"[CDATA["\<close>.\<close>

definition lit_doctype :: "lxb_char list" where
  "lit_doctype = [0x64, 0x6F, 0x63, 0x74, 0x79, 0x70, 0x65]"

definition lit_cdata :: "lxb_char list" where
  "lit_cdata = [0x5B, 0x43, 0x44, 0x41, 0x54, 0x41, 0x5B]"

lemma lit_simps [simp]: "length lit_doctype = 7" "length lit_cdata = 7" "lit_doctype \<noteq> []" "lit_cdata \<noteq> []"
  by (simp_all add: lit_doctype_def lit_cdata_def)

text \<open>The code behind the comparisons of \<open>markup_declaration_open\<close>: not a known declaration.\<close>

definition markup_declaration_bogus :: "'c env \<Rightarrow> 'c tkz \<Rightarrow> addr \<Rightarrow> ('c tkz \<times> addr) option" where
  "markup_declaration_bogus E t data = do {
     t \<leftarrow> (if is_eof t then do {
              t \<leftarrow> token_set_end_oef t;
              with_token t (\<lambda>tok. tok\<lparr> t_begin := t_end tok, in_begin := incoming_node t \<rparr>)
            }
            else Some t);
     let t = lxb_html_tokenizer_error_add E t data LXB_HTML_TOKENIZER_ERROR_INOPCO;
     let t = t\<lparr> state := S_bogus_comment_before \<rparr>;
     ret t data
   }"

definition lxb_html_tokenizer_state_markup_declaration_open :: "'c env \<Rightarrow> 'c tkz \<Rightarrow> addr \<Rightarrow> addr \<Rightarrow> ('c tkz \<times> addr) option" where
  "lxb_html_tokenizer_state_markup_declaration_open E t data fin = do {
     t \<leftarrow> (if \<not> is_eof t then token_set_begin t data else Some t);
     c \<leftarrow> mem E data;
     if c = 0x2D then
       (if fin - data < 2 then ret (t\<lparr> state := S_markup_declaration_comment \<rparr>) (data + 1)
        else do {
          c1 \<leftarrow> mem E (data + 1);
          if c1 = 0x2D then ret (t\<lparr> state := S_comment_before_start \<rparr>) (data + 2)
          else markup_declaration_bogus E t data
        })
     else if c = 0x44 \<or> c = 0x64 then
       (if fin - data < 7 then
          ret (t\<lparr> markup := Mk_Lit lit_doctype, state := S_markup_declaration_doctype \<rparr>) data
        else do {
          bs \<leftarrow> mem_range (mem E) data 7;
          r \<leftarrow> lexbor_str_data_ncasecmp lit_doctype bs 7;
          if r then ret (t\<lparr> state := S_doctype_before \<rparr>) (data + 7)
          else markup_declaration_bogus E t data
        })
     else if c = 0x5B then
       (if fin - data < 7 then
          ret (t\<lparr> markup := Mk_Lit lit_cdata, state := S_markup_declaration_cdata \<rparr>) data
        else do {
          bs \<leftarrow> mem_range (mem E) data 7;
          r \<leftarrow> lexbor_str_data_ncmp lit_cdata bs 7;
          if r then
            (let ns = lxb_html_tokenizer_current_namespace E t in
             if ns \<noteq> LXB_NS_HTML \<and> ns \<noteq> LXB_NS__UNDEF then do {
               let data = data + 7;
               t \<leftarrow> token_set_begin t data;
               ret (t\<lparr> state := S_cdata_section_before \<rparr>) data
             }
             else ret (t\<lparr> state := S_bogus_comment_before \<rparr>) data)
          else markup_declaration_bogus E t data
        })
     else markup_declaration_bogus E t data
   }"

definition lxb_html_tokenizer_state_markup_declaration_comment :: "'c env \<Rightarrow> 'c tkz \<Rightarrow> addr \<Rightarrow> addr \<Rightarrow> ('c tkz \<times> addr) option" where
  "lxb_html_tokenizer_state_markup_declaration_comment E t data fin = do {
     c \<leftarrow> mem E data;
     if c = 0x2D then ret (t\<lparr> state := S_comment_before_start \<rparr>) (data + 1)
     else do {
       let t = lxb_html_tokenizer_error_add E t data LXB_HTML_TOKENIZER_ERROR_INOPCO;
       ret (t\<lparr> state := S_bogus_comment_before \<rparr>) data
     }
   }"

text \<open>The literal \<open>tkz->markup\<close> points into; reading anything else as one is undefined.\<close>

definition markup_lit :: "'c tkz \<Rightarrow> lxb_char list option" where
  "markup_lit t = (case markup t of Mk_Lit l \<Rightarrow> Some l | _ \<Rightarrow> None)"

definition lxb_html_tokenizer_state_markup_declaration_doctype :: "'c env \<Rightarrow> 'c tkz \<Rightarrow> addr \<Rightarrow> addr \<Rightarrow> ('c tkz \<times> addr) option" where
  "lxb_html_tokenizer_state_markup_declaration_doctype E t data fin = do {
     lit \<leftarrow> markup_lit t;
     bs \<leftarrow> mem_range (mem E) data (fin - data);
     (case lexbor_str_data_ncasecmp_first lit bs of
        None \<Rightarrow> do {
          let t = lxb_html_tokenizer_error_add E t data LXB_HTML_TOKENIZER_ERROR_INOPCO;
          ret (t\<lparr> state := S_bogus_comment_before \<rparr>) data
        }
      | Some pos \<Rightarrow>
          if pos = length lit then ret (t\<lparr> state := S_doctype_before \<rparr>) (data + pos)
          else ret (t\<lparr> markup := Mk_Lit (drop pos lit) \<rparr>) fin)
   }"

definition lxb_html_tokenizer_state_markup_declaration_cdata :: "'c env \<Rightarrow> 'c tkz \<Rightarrow> addr \<Rightarrow> addr \<Rightarrow> ('c tkz \<times> addr) option" where
  "lxb_html_tokenizer_state_markup_declaration_cdata E t data fin = do {
     lit \<leftarrow> markup_lit t;
     bs \<leftarrow> mem_range (mem E) data (fin - data);
     (case lexbor_str_data_ncasecmp_first lit bs of
        None \<Rightarrow> do {
          let t = lxb_html_tokenizer_error_add E t data LXB_HTML_TOKENIZER_ERROR_INOPCO;
          ret (t\<lparr> state := S_bogus_comment_before \<rparr>) data
        }
      | Some pos \<Rightarrow>
          if pos = length lit then
            (let ns = lxb_html_tokenizer_current_namespace E t in
             if ns \<noteq> LXB_NS_HTML \<and> ns \<noteq> LXB_NS__UNDEF then
               ret (t\<lparr> state := S_cdata_section_before \<rparr>) (data + pos)
             else ret (t\<lparr> state := S_bogus_comment_before \<rparr>) data)
          else ret (t\<lparr> markup := Mk_Lit (drop pos lit) \<rparr>) fin)
   }"

section \<open>CDATA sections\<close>

definition lxb_html_tokenizer_state_cdata_section_before :: "'c env \<Rightarrow> 'c tkz \<Rightarrow> addr \<Rightarrow> addr \<Rightarrow> ('c tkz \<times> addr) option" where
  "lxb_html_tokenizer_state_cdata_section_before E t data fin = do {
     t \<leftarrow> (if \<not> is_eof t then token_set_begin t data
            else do { e \<leftarrow> incoming_end t; token_set_begin t e });
     t \<leftarrow> with_token t (\<lambda>tok. tok\<lparr> tag_id := LXB_TAG__TEXT, t_type := LXB_HTML_TOKEN_TYPE_CDATA \<rparr>);
     let t = t\<lparr> state := S_cdata_section \<rparr>;
     ret t data
   }"

definition lxb_html_tokenizer_state_cdata_section :: "'c env \<Rightarrow> 'c tkz \<Rightarrow> addr \<Rightarrow> addr \<Rightarrow> ('c tkz \<times> addr) option" where
  "lxb_html_tokenizer_state_cdata_section E t data fin =
     while_scan (mem E) (\<lambda>c t data.
       if c = 0x5D then lret (t\<lparr> state := S_cdata_section_bracket \<rparr>) (data + 1)
       else if c = 0x00 then
         (if is_eof t then do {
            e \<leftarrow> incoming_end t;
            let t = lxb_html_tokenizer_error_add E t e LXB_HTML_TOKENIZER_ERROR_EOINCD;
            tok \<leftarrow> token t;
            t \<leftarrow> (if t_begin tok \<noteq> NULL then token_set_end_oef t else Some t);
            token_done_m lret E t fin (\<lambda>t. lret t fin)
          }
          else do {
            t \<leftarrow> token_or_type t LXB_HTML_TOKEN_TYPE_NULL;
            cont t
          })
       else cont t) t data fin"

definition lxb_html_tokenizer_state_cdata_section_bracket :: "'c env \<Rightarrow> 'c tkz \<Rightarrow> addr \<Rightarrow> addr \<Rightarrow> ('c tkz \<times> addr) option" where
  "lxb_html_tokenizer_state_cdata_section_bracket E t data fin = do {
     c \<leftarrow> mem E data;
     if c = 0x5D then ret (t\<lparr> state := S_cdata_section_end \<rparr>) (data + 1)
     else ret (t\<lparr> state := S_cdata_section \<rparr>) data
   }"

definition lxb_html_tokenizer_state_cdata_section_end :: "'c env \<Rightarrow> 'c tkz \<Rightarrow> addr \<Rightarrow> addr \<Rightarrow> ('c tkz \<times> addr) option" where
  "lxb_html_tokenizer_state_cdata_section_end E t data fin = do {
     c \<leftarrow> mem E data;
     if c = 0x5D then ret t (data + 1)
     else if c = 0x3E then do {
       let t = t\<lparr> state := S_data_before \<rparr>;
       t \<leftarrow> token_set_end_down t data 2;
       token_done_m ret E t fin (\<lambda>t. ret t (data + 1))
     }
     else ret (t\<lparr> state := S_cdata_section \<rparr>) data
   }"

section \<open>The functions keep the contract\<close>

text \<open>The functions for attribute values first mark the beginning of the value.\<close>

lemma attr_value_start_wp:
  assumes "tkz_wf E as fin t d" "needs_attr (state t)" "d < fin"
  shows "wp (attr_value_start t d) (\<lambda>t'. tkz_wf E as fin t' d \<and> keeps t t' \<and> state t' = state t)"
  by (rule step_plain [OF assms(1,3)]) (use assms(2,3) in \<open>auto simp: attr_value_start_def tkz_simp\<close>)

lemma step_value_loop:
  assumes "tkz_wf E as fin t d" "needs_attr (state t)" "d < fin"
    and "\<And>t' x c tok n. is_eof t' \<Longrightarrow> ready E as fin t' x c tok n \<Longrightarrow> d \<le> x \<Longrightarrow> keeps t t' \<Longrightarrow>
      state t' = state t \<Longrightarrow> wp (bd c t' x) (turn_ok E as fin fin t d x)"
    and "\<And>t' x c tok n. \<not> is_eof t' \<Longrightarrow> ready E as fin t' x c tok n \<Longrightarrow> d \<le> x \<Longrightarrow> keeps t t' \<Longrightarrow>
      state t' = state t \<Longrightarrow> wp (bd c t' x) (turn_ok E as fin fin t d x)"
  shows "wp (do { t \<leftarrow> attr_value_start t d; while_scan (mem E) bd t d fin }) (step_post E as fin fin t d)"
  unfolding wp_bind
proof (rule wp_mono [OF attr_value_start_wp [OF assms(1-3)]], elim conjE)
  fix t'
  assume "tkz_wf E as fin t' d" "keeps t t'" "state t' = state t"
  then show "wp (while_scan (mem E) bd t' d fin) (step_post E as fin fin t d)"
  proof (rule step_scan [OF assms(1,3) order.refl])
    fix t' x c tok n
    assume "ready E as fin t' x c tok n" "d \<le> x" "keeps t t'" "state t' = state t"
    then show "wp (bd c t' x) (turn_ok E as fin fin t d x)"
      using assms(4,5) by (cases "is_eof t'") blast+
  qed
qed

text \<open>The functions that match a keyword that is spread over several chunks.\<close>

lemma step_keyword:
  assumes "tkz_wf E as fin t d" "needs_lit (state t)" "d < fin"
    and "\<And>lit bs c tok n. ready E as fin t d c tok n \<Longrightarrow> markup t = Mk_Lit lit \<Longrightarrow> lit \<noteq> [] \<Longrightarrow>
      mem_range (mem E) d (fin - d) = Some bs \<Longrightarrow> length bs = fin - d \<Longrightarrow>
      (\<And>i. lexbor_str_data_ncasecmp_first lit bs = Some i \<Longrightarrow> 0 < i \<and> i \<le> length lit \<and> d + i \<le> fin) \<Longrightarrow>
      wp m P"
  shows "wp m P"
proof (rule step_ready [OF assms(1,3)])
  fix c tok n
  assume r: "ready E as fin t d c tok n"
  then obtain lit where lit: "markup t = Mk_Lit lit" "lit \<noteq> []"
    using assms(2,3) by (auto simp: ready_def st_wf_def)
  from r have "ctx_wf (mem E) (in_nodes t) (incoming_node t) (is_eof t) as fin d"
    by (simp add: ready_def)
  then obtain bs where bs: "mem_range (mem E) d (fin - d) = Some bs" "length bs = fin - d"
    using ctx_wf_range [of "mem E" "in_nodes t" "incoming_node t" "is_eof t" as fin d "fin - d"] assms(3) by auto
  have "0 < i \<and> i \<le> length lit \<and> d + i \<le> fin" if "lexbor_str_data_ncasecmp_first lit bs = Some i" for i
    using ncasecmp_first_bounds [OF that] ncasecmp_first_pos [OF that lit(2)] bs assms(3) by fastforce
  from assms(4) [OF r lit bs this] show "wp m P" by blast
qed

context token_callback
begin

lemma data_before_ok:
  assumes "tkz_wf E as fin t d" "state t = S_data_before" "d < fin"
  shows "wp (lxb_html_tokenizer_state_data_before E t d fin) (step_post E as fin fin t d)"
  unfolding lxb_html_tokenizer_state_data_before_def
  by (rule step_plain [OF assms(1,3)]) (intro conjI impI tkz_intro | clarsimp simp: tkz_simp assms(2))+

lemma data_ok:
  assumes "tkz_wf E as fin t d" "state t = S_data" "d < fin"
  shows "wp (lxb_html_tokenizer_state_data E t d fin) (step_post E as fin fin t d)"
  unfolding lxb_html_tokenizer_state_data_def
  by (rule step_loop [OF assms(1,3)]) (intro conjI impI tkz_intro | clarsimp simp: tkz_simp assms(2))+

lemma plaintext_before_ok:
  assumes "tkz_wf E as fin t d" "state t = S_plaintext_before" "d < fin"
  shows "wp (lxb_html_tokenizer_state_plaintext_before E t d fin) (step_post E as fin fin t d)"
  unfolding lxb_html_tokenizer_state_plaintext_before_def
  by (rule step_plain [OF assms(1,3)]) (intro conjI impI tkz_intro | clarsimp simp: tkz_simp assms(2))+

lemma plaintext_ok:
  assumes "tkz_wf E as fin t d" "state t = S_plaintext" "d < fin"
  shows "wp (lxb_html_tokenizer_state_plaintext E t d fin) (step_post E as fin fin t d)"
  unfolding lxb_html_tokenizer_state_plaintext_def
  by (rule step_loop [OF assms(1,3)]) (intro conjI impI tkz_intro | clarsimp simp: tkz_simp assms(2))+

lemma tag_open_ok:
  assumes "tkz_wf E as fin t d" "state t = S_tag_open" "d < fin"
  shows "wp (lxb_html_tokenizer_state_tag_open E t d fin) (step_post E as fin fin t d)"
  unfolding lxb_html_tokenizer_state_tag_open_def
  by (rule step_plain [OF assms(1,3)]) (intro conjI impI tkz_intro | clarsimp simp: tkz_simp assms(2))+

lemma end_tag_open_ok:
  assumes "tkz_wf E as fin t d" "state t = S_end_tag_open" "d < fin"
  shows "wp (lxb_html_tokenizer_state_end_tag_open E t d fin) (step_post E as fin fin t d)"
  unfolding lxb_html_tokenizer_state_end_tag_open_def
  by (rule step_plain [OF assms(1,3)]) (intro conjI impI tkz_intro | clarsimp simp: tkz_simp assms(2))+

lemma tag_name_ok:
  assumes "tkz_wf E as fin t d" "state t = S_tag_name" "d < fin"
  shows "wp (lxb_html_tokenizer_state_tag_name E t d fin) (step_post E as fin fin t d)"
  unfolding lxb_html_tokenizer_state_tag_name_def
  by (rule step_loop [OF assms(1,3)]) (intro conjI impI tkz_intro | clarsimp simp: tkz_simp assms(2))+

lemma before_attribute_name_ok:
  assumes "tkz_wf E as fin t d" "state t = S_before_attribute_name" "d < fin"
  shows "wp (lxb_html_tokenizer_state_before_attribute_name E t d fin) (step_post E as fin fin t d)"
  unfolding lxb_html_tokenizer_state_before_attribute_name_def
  by (rule step_loop [OF assms(1,3)]) (intro conjI impI tkz_intro | clarsimp simp: tkz_simp assms(2))+

lemma attribute_name_ok:
  assumes "tkz_wf E as fin t d" "state t = S_attribute_name" "d < fin"
  shows "wp (lxb_html_tokenizer_state_attribute_name E t d fin) (step_post E as fin fin t d)"
  unfolding lxb_html_tokenizer_state_attribute_name_def
  by (rule step_loop [OF assms(1,3)]) (intro conjI impI tkz_intro | clarsimp simp: tkz_simp assms(2))+

lemma after_attribute_name_ok:
  assumes "tkz_wf E as fin t d" "state t = S_after_attribute_name" "d < fin"
  shows "wp (lxb_html_tokenizer_state_after_attribute_name E t d fin) (step_post E as fin fin t d)"
  unfolding lxb_html_tokenizer_state_after_attribute_name_def
  by (rule step_loop [OF assms(1,3)]) (intro conjI impI tkz_intro | clarsimp simp: tkz_simp assms(2))+

lemma before_attribute_value_ok:
  assumes "tkz_wf E as fin t d" "state t = S_before_attribute_value" "d < fin"
  shows "wp (lxb_html_tokenizer_state_before_attribute_value E t d fin) (step_post E as fin fin t d)"
  unfolding lxb_html_tokenizer_state_before_attribute_value_def
  by (rule step_loop [OF assms(1,3)]) (intro conjI impI tkz_intro | clarsimp simp: tkz_simp assms(2))+

lemma after_attribute_value_quoted_ok:
  assumes "tkz_wf E as fin t d" "state t = S_after_attribute_value_quoted" "d < fin"
  shows "wp (lxb_html_tokenizer_state_after_attribute_value_quoted E t d fin) (step_post E as fin fin t d)"
  unfolding lxb_html_tokenizer_state_after_attribute_value_quoted_def
  by (rule step_plain [OF assms(1,3)]) (intro conjI impI tkz_intro | clarsimp simp: tkz_simp assms(2))+

lemma self_closing_start_tag_ok:
  assumes "tkz_wf E as fin t d" "state t = S_self_closing_start_tag" "d < fin"
  shows "wp (lxb_html_tokenizer_state_self_closing_start_tag E t d fin) (step_post E as fin fin t d)"
  unfolding lxb_html_tokenizer_state_self_closing_start_tag_def
  by (rule step_plain [OF assms(1,3)]) (intro conjI impI tkz_intro | clarsimp simp: tkz_simp assms(2))+

lemma bogus_comment_before_ok:
  assumes "tkz_wf E as fin t d" "state t = S_bogus_comment_before" "d < fin"
  shows "wp (lxb_html_tokenizer_state_bogus_comment_before E t d fin) (step_post E as fin fin t d)"
  unfolding lxb_html_tokenizer_state_bogus_comment_before_def
  by (rule step_plain [OF assms(1,3)]) (intro conjI impI tkz_intro | clarsimp simp: tkz_simp assms(2))+

lemma bogus_comment_ok:
  assumes "tkz_wf E as fin t d" "state t = S_bogus_comment" "d < fin"
  shows "wp (lxb_html_tokenizer_state_bogus_comment E t d fin) (step_post E as fin fin t d)"
  unfolding lxb_html_tokenizer_state_bogus_comment_def
  by (rule step_loop [OF assms(1,3)]) (intro conjI impI tkz_intro | clarsimp simp: tkz_simp assms(2))+

lemma markup_declaration_comment_ok:
  assumes "tkz_wf E as fin t d" "state t = S_markup_declaration_comment" "d < fin"
  shows "wp (lxb_html_tokenizer_state_markup_declaration_comment E t d fin) (step_post E as fin fin t d)"
  unfolding lxb_html_tokenizer_state_markup_declaration_comment_def
  by (rule step_plain [OF assms(1,3)]) (intro conjI impI tkz_intro | clarsimp simp: tkz_simp assms(2))+

lemma cdata_section_before_ok:
  assumes "tkz_wf E as fin t d" "state t = S_cdata_section_before" "d < fin"
  shows "wp (lxb_html_tokenizer_state_cdata_section_before E t d fin) (step_post E as fin fin t d)"
  unfolding lxb_html_tokenizer_state_cdata_section_before_def
  by (rule step_plain [OF assms(1,3)]) (intro conjI impI tkz_intro | clarsimp simp: tkz_simp assms(2))+

lemma cdata_section_ok:
  assumes "tkz_wf E as fin t d" "state t = S_cdata_section" "d < fin"
  shows "wp (lxb_html_tokenizer_state_cdata_section E t d fin) (step_post E as fin fin t d)"
  unfolding lxb_html_tokenizer_state_cdata_section_def
  by (rule step_loop [OF assms(1,3)]) (intro conjI impI tkz_intro | clarsimp simp: tkz_simp assms(2))+

lemma cdata_section_bracket_ok:
  assumes "tkz_wf E as fin t d" "state t = S_cdata_section_bracket" "d < fin"
  shows "wp (lxb_html_tokenizer_state_cdata_section_bracket E t d fin) (step_post E as fin fin t d)"
  unfolding lxb_html_tokenizer_state_cdata_section_bracket_def
  by (rule step_plain [OF assms(1,3)]) (intro conjI impI tkz_intro | clarsimp simp: tkz_simp assms(2))+

lemma attribute_value_double_quoted_ok:
  assumes "tkz_wf E as fin t d" "state t = S_attribute_value_double_quoted" "d < fin"
  shows "wp (lxb_html_tokenizer_state_attribute_value_double_quoted E t d fin) (step_post E as fin fin t d)"
  unfolding lxb_html_tokenizer_state_attribute_value_double_quoted_def
  by (rule step_value_loop [OF assms(1) _ assms(3)])
     (intro conjI impI tkz_intro | clarsimp simp: tkz_simp attr_value_eof_def assms(2))+

lemma attribute_value_single_quoted_ok:
  assumes "tkz_wf E as fin t d" "state t = S_attribute_value_single_quoted" "d < fin"
  shows "wp (lxb_html_tokenizer_state_attribute_value_single_quoted E t d fin) (step_post E as fin fin t d)"
  unfolding lxb_html_tokenizer_state_attribute_value_single_quoted_def
  by (rule step_value_loop [OF assms(1) _ assms(3)])
     (intro conjI impI tkz_intro | clarsimp simp: tkz_simp attr_value_eof_def assms(2))+

lemma attribute_value_unquoted_ok:
  assumes "tkz_wf E as fin t d" "state t = S_attribute_value_unquoted" "d < fin"
  shows "wp (lxb_html_tokenizer_state_attribute_value_unquoted E t d fin) (step_post E as fin fin t d)"
  unfolding lxb_html_tokenizer_state_attribute_value_unquoted_def
  by (rule step_value_loop [OF assms(1) _ assms(3)])
     (intro conjI impI tkz_intro | clarsimp simp: tkz_simp attr_value_eof_def assms(2))+

lemma markup_declaration_doctype_ok:
  assumes "tkz_wf E as fin t d" "state t = S_markup_declaration_doctype" "d < fin"
  shows "wp (lxb_html_tokenizer_state_markup_declaration_doctype E t d fin) (step_post E as fin fin t d)"
  unfolding lxb_html_tokenizer_state_markup_declaration_doctype_def
  by (rule step_keyword [OF assms(1) _ assms(3)])
     (auto simp: tkz_simp markup_lit_def assms(2) split: option.splits)

lemma markup_declaration_cdata_ok:
  assumes "tkz_wf E as fin t d" "state t = S_markup_declaration_cdata" "d < fin"
  shows "wp (lxb_html_tokenizer_state_markup_declaration_cdata E t d fin) (step_post E as fin fin t d)"
  unfolding lxb_html_tokenizer_state_markup_declaration_cdata_def
  by (rule step_keyword [OF assms(1) _ assms(3)])
     (auto simp: tkz_simp markup_lit_def assms(2) split: option.splits)

lemma markup_declaration_bogus_ok:
  assumes "tkz_wf E as fin t d" "state t = S_markup_declaration_open" "d < fin" "keeps t0 t"
    "state t0 = S_markup_declaration_open"
  shows "wp (markup_declaration_bogus E t d) (step_post E as fin fin t0 d)"
  unfolding markup_declaration_bogus_def
  by (rule step_plain [OF assms(1,3)]) (use assms(4,5) in \<open>auto simp: tkz_simp\<close>)

lemma markup_declaration_open_ok:
  assumes "tkz_wf E as fin t d" "state t = S_markup_declaration_open" "d < fin"
  shows "wp (lxb_html_tokenizer_state_markup_declaration_open E t d fin) (step_post E as fin fin t d)"
proof -
  have start: "wp (if \<not> is_eof t then token_set_begin t d else Some t)
      (\<lambda>t'. tkz_wf E as fin t' d \<and> keeps t t' \<and> state t' = state t)"
    by (rule step_plain [OF assms(1,3)]) (auto simp: tkz_simp assms(2))
  show ?thesis
    unfolding lxb_html_tokenizer_state_markup_declaration_open_def wp_bind
  proof (rule wp_mono [OF start], elim conjE, goal_cases)
    case t': (1 t')
    let ?goal = "?case"
    from t' have ctx: "ctx_wf (mem E) (in_nodes t') (incoming_node t') (is_eof t') as fin d"
      by (simp add: tkz_wf_def)
    have c1: "\<exists>c. mem E (Suc d) = Some c" if "2 \<le> fin - d"
      using ctx_wf_rd [OF ctx_wf_mono [OF ctx, of "Suc d"]] that by simp
    have bs: "\<exists>bs. mem_range (mem E) d 7 = Some bs \<and> length bs = 7" if "7 \<le> fin - d"
      using ctx_wf_range [OF ctx, of 7] that by simp
    have bogus: "wp (markup_declaration_bogus E t' d) (step_post E as fin fin t d)"
      by (rule markup_declaration_bogus_ok [OF t'(1) _ assms(3) t'(2) assms(2)]) (simp add: t' assms)
    from t'(1) assms(3) show ?case
    proof (rule step_ready)
      fix c tok n
      assume r: "ready E as fin t' d c tok n"
      note facts = r t'(2) c1 bs assms(2)
      consider (dash) "c = 0x2D" | (d) "c \<noteq> 0x2D" "c = 0x44 \<or> c = 0x64" | (br) "c = 0x5B"
        | (other) "c \<noteq> 0x2D" "\<not> (c = 0x44 \<or> c = 0x64)" "c \<noteq> 0x5B"
        by blast
      then show ?goal
      proof cases
        case dash
        with facts show ?thesis
          by (intro conjI impI | clarsimp simp: bogus tkz_simp not_less le_diff_conv2)+
      next
        case d
        with facts show ?thesis
          by (intro conjI impI | clarsimp simp: bogus tkz_simp ncasecmp_eq not_less le_diff_conv2)+
      next
        case br
        with facts show ?thesis
          by (intro conjI impI | clarsimp simp: bogus tkz_simp lexbor_str_data_ncmp_def not_less le_diff_conv2)+
      next
        case other
        with facts show ?thesis
          by (simp add: bogus ready_def)
      qed
    qed
  qed
qed

lemma cdata_section_end_ok:
  assumes "tkz_wf E as fin t d" "state t = S_cdata_section_end" "d < fin"
  shows "wp (lxb_html_tokenizer_state_cdata_section_end E t d fin) (step_post E as fin fin t d)"
  unfolding lxb_html_tokenizer_state_cdata_section_end_def
  by (rule step_plain [OF assms(1,3)])
     (intro conjI impI tkz_intro ctx_wf_pos_down [of "mem E" _ _ "is_eof t" as fin d] | clarsimp simp: tkz_simp assms(2))+

end

end
