(* ===== verification/Tkz_Comment.thy ===== *)
theory Tkz_Comment
  imports Tkz_State
begin

text \<open>
  The state functions of \<open>html/tokenizer/state_comment.c\<close>.  The text of a comment is
  not copied: the token points at its first byte and, when the comment is over, at
  the byte behind its last one, which is found by going back over the \<open>--\<close> or \<open>--!\<close>
  that ended it, possibly into an earlier buffer.
\<close>

section \<open>Functions\<close>

definition lxb_html_tokenizer_state_comment_start :: "'c env \<Rightarrow> 'c tkz \<Rightarrow> addr \<Rightarrow> addr \<Rightarrow> ('c tkz \<times> addr) option" where
  "lxb_html_tokenizer_state_comment_start E t data fin = do {
     c \<leftarrow> mem E data;
     if c = 0x2D then ret (t\<lparr> state := S_comment_start_dash \<rparr>) (data + 1)
     else if c = 0x3E then do {
       let t = t\<lparr> state := S_data_before \<rparr>;
       let t = lxb_html_tokenizer_error_add E t data LXB_HTML_TOKENIZER_ERROR_ABCLOFEMCO;
       token_done_wo_check_m ret E t fin (\<lambda>t. ret t (data + 1))
     }
     else ret (t\<lparr> state := S_comment \<rparr>) data
   }"

definition lxb_html_tokenizer_state_comment_before_start :: "'c env \<Rightarrow> 'c tkz \<Rightarrow> addr \<Rightarrow> addr \<Rightarrow> ('c tkz \<times> addr) option" where
  "lxb_html_tokenizer_state_comment_before_start E t data fin = do {
     t \<leftarrow> (if \<not> is_eof t then do { t \<leftarrow> token_set_begin t data; token_set_end t data } else Some t);
     t \<leftarrow> with_token t (\<lambda>tok. tok\<lparr> tag_id := LXB_TAG__EM_COMMENT, t_type := LXB_HTML_TOKEN_TYPE_DATA \<rparr>);
     lxb_html_tokenizer_state_comment_start E t data fin
   }"

definition lxb_html_tokenizer_state_comment_start_dash :: "'c env \<Rightarrow> 'c tkz \<Rightarrow> addr \<Rightarrow> addr \<Rightarrow> ('c tkz \<times> addr) option" where
  "lxb_html_tokenizer_state_comment_start_dash E t data fin = do {
     c \<leftarrow> mem E data;
     if c = 0x2D then ret (t\<lparr> state := S_comment_end \<rparr>) (data + 1)
     else if c = 0x3E then do {
       let t = t\<lparr> state := S_data_before \<rparr>;
       let t = lxb_html_tokenizer_error_add E t data LXB_HTML_TOKENIZER_ERROR_ABCLOFEMCO;
       token_done_wo_check_m ret E t fin (\<lambda>t. ret t (data + 1))
     }
     else if c = 0x00 \<and> is_eof t then do {
       e \<leftarrow> incoming_end t;
       let t = lxb_html_tokenizer_error_add E t e LXB_HTML_TOKENIZER_ERROR_EOINCO;
       token_done_wo_check_m ret E t fin (\<lambda>t. ret t fin)
     }
     else ret (t\<lparr> state := S_comment \<rparr>) data
   }"

definition lxb_html_tokenizer_state_comment :: "'c env \<Rightarrow> 'c tkz \<Rightarrow> addr \<Rightarrow> addr \<Rightarrow> ('c tkz \<times> addr) option" where
  "lxb_html_tokenizer_state_comment E t data fin = 
     while_scan (mem E) (\<lambda>c t data.
       if c = 0x3C then lret (t\<lparr> state := S_comment_less_than_sign \<rparr>) (data + 1)
       else if c = 0x2D then lret (t\<lparr> state := S_comment_end_dash \<rparr>) (data + 1)
       else if c = 0x00 then
         (if is_eof t then do {
            tok \<leftarrow> token t;
            t \<leftarrow> (if t_begin tok \<noteq> NULL then token_set_end_oef t else Some t);
            tok \<leftarrow> token t;
            let t = lxb_html_tokenizer_error_add E t (t_end tok) LXB_HTML_TOKENIZER_ERROR_EOINCO;
            token_done_m lret E t fin (\<lambda>t. lret t fin)
          }
          else do {
            t \<leftarrow> token_or_type t LXB_HTML_TOKEN_TYPE_NULL;
            let t = lxb_html_tokenizer_error_add E t data LXB_HTML_TOKENIZER_ERROR_UNNUCH;
            cont t
          })
       else cont t) t data fin"

definition lxb_html_tokenizer_state_comment_less_than_sign :: "'c env \<Rightarrow> 'c tkz \<Rightarrow> addr \<Rightarrow> addr \<Rightarrow> ('c tkz \<times> addr) option" where
  "lxb_html_tokenizer_state_comment_less_than_sign E t data fin = do {
     c \<leftarrow> mem E data;
     if c = 0x21 then ret (t\<lparr> state := S_comment_less_than_sign_bang \<rparr>) (data + 1)
     else if c = 0x3C then ret t (data + 1)
     else ret (t\<lparr> state := S_comment \<rparr>) data
   }"

definition lxb_html_tokenizer_state_comment_less_than_sign_bang :: "'c env \<Rightarrow> 'c tkz \<Rightarrow> addr \<Rightarrow> addr \<Rightarrow> ('c tkz \<times> addr) option" where
  "lxb_html_tokenizer_state_comment_less_than_sign_bang E t data fin = do {
     c \<leftarrow> mem E data;
     if c = 0x2D then ret (t\<lparr> state := S_comment_less_than_sign_bang_dash \<rparr>) (data + 1)
     else ret (t\<lparr> state := S_comment \<rparr>) data
   }"

definition lxb_html_tokenizer_state_comment_less_than_sign_bang_dash :: "'c env \<Rightarrow> 'c tkz \<Rightarrow> addr \<Rightarrow> addr \<Rightarrow> ('c tkz \<times> addr) option" where
  "lxb_html_tokenizer_state_comment_less_than_sign_bang_dash E t data fin = do {
     c \<leftarrow> mem E data;
     if c = 0x2D then ret (t\<lparr> state := S_comment_less_than_sign_bang_dash_dash \<rparr>) (data + 1)
     else ret (t\<lparr> state := S_comment_end_dash \<rparr>) data
   }"

definition lxb_html_tokenizer_state_comment_less_than_sign_bang_dash_dash :: "'c env \<Rightarrow> 'c tkz \<Rightarrow> addr \<Rightarrow> addr \<Rightarrow> ('c tkz \<times> addr) option" where
  "lxb_html_tokenizer_state_comment_less_than_sign_bang_dash_dash E t data fin = do {
     c \<leftarrow> mem E data;
     if c = 0x3E then ret (t\<lparr> state := S_comment_end \<rparr>) data
     else if c = 0x00 \<and> is_eof t then ret (t\<lparr> state := S_comment_end \<rparr>) data
     else do {
       let t = lxb_html_tokenizer_error_add E t data LXB_HTML_TOKENIZER_ERROR_NECO;
       ret (t\<lparr> state := S_comment_end \<rparr>) data
     }
   }"

definition lxb_html_tokenizer_state_comment_end_dash :: "'c env \<Rightarrow> 'c tkz \<Rightarrow> addr \<Rightarrow> addr \<Rightarrow> ('c tkz \<times> addr) option" where
  "lxb_html_tokenizer_state_comment_end_dash E t data fin = do {
     c \<leftarrow> mem E data;
     if c = 0x2D then ret (t\<lparr> state := S_comment_end \<rparr>) (data + 1)
     else if c = 0x00 \<and> is_eof t then do {
       e \<leftarrow> incoming_end t;
       let t = lxb_html_tokenizer_error_add E t e LXB_HTML_TOKENIZER_ERROR_EOINCO;
       t \<leftarrow> token_set_end_down t e 1;
       token_done_wo_check_m ret E t fin (\<lambda>t. ret t fin)
     }
     else ret (t\<lparr> state := S_comment \<rparr>) data
   }"

definition lxb_html_tokenizer_state_comment_end :: "'c env \<Rightarrow> 'c tkz \<Rightarrow> addr \<Rightarrow> addr \<Rightarrow> ('c tkz \<times> addr) option" where
  "lxb_html_tokenizer_state_comment_end E t data fin = do {
     c \<leftarrow> mem E data;
     if c = 0x3E then do {
       let t = t\<lparr> state := S_data_before \<rparr>;
       t \<leftarrow> token_set_end_down t data 2;
       token_done_wo_check_m ret E t fin (\<lambda>t. ret t (data + 1))
     }
     else if c = 0x21 then ret (t\<lparr> state := S_comment_end_bang \<rparr>) (data + 1)
     else if c = 0x2D then ret t (data + 1)
     else if c = 0x00 \<and> is_eof t then do {
       e \<leftarrow> incoming_end t;
       let t = lxb_html_tokenizer_error_add E t e LXB_HTML_TOKENIZER_ERROR_EOINCO;
       t \<leftarrow> token_set_end_down t e 2;
       token_done_wo_check_m ret E t fin (\<lambda>t. ret t fin)
     }
     else ret (t\<lparr> state := S_comment \<rparr>) data
   }"

definition lxb_html_tokenizer_state_comment_end_bang :: "'c env \<Rightarrow> 'c tkz \<Rightarrow> addr \<Rightarrow> addr \<Rightarrow> ('c tkz \<times> addr) option" where
  "lxb_html_tokenizer_state_comment_end_bang E t data fin = do {
     c \<leftarrow> mem E data;
     if c = 0x2D then ret (t\<lparr> state := S_comment_end_dash \<rparr>) (data + 1)
     else if c = 0x3E then do {
       let t = t\<lparr> state := S_data_before \<rparr>;
       let t = lxb_html_tokenizer_error_add E t data LXB_HTML_TOKENIZER_ERROR_INCLCO;
       t \<leftarrow> token_set_end_down t data 3;
       token_done_wo_check_m ret E t fin (\<lambda>t. ret t (data + 1))
     }
     else if c = 0x00 \<and> is_eof t then do {
       e \<leftarrow> incoming_end t;
       let t = lxb_html_tokenizer_error_add E t e LXB_HTML_TOKENIZER_ERROR_EOINCO;
       t \<leftarrow> token_set_end_down t e 3;
       token_done_wo_check_m ret E t fin (\<lambda>t. ret t fin)
     }
     else ret (t\<lparr> state := S_comment \<rparr>) data
   }"

section \<open>The functions keep the contract\<close>

context token_callback
begin

lemma comment_start_dash_ok:
  assumes "tkz_wf E as fin t d" "state t = S_comment_start_dash" "d < fin"
  shows "wp (lxb_html_tokenizer_state_comment_start_dash E t d fin) (step_post E as fin fin t d)"
  unfolding lxb_html_tokenizer_state_comment_start_dash_def
  by (rule step_plain [OF assms(1,3)]) (intro conjI impI tkz_intro | clarsimp simp: tkz_simp assms(2))+

lemma comment_ok:
  assumes "tkz_wf E as fin t d" "state t = S_comment" "d < fin"
  shows "wp (lxb_html_tokenizer_state_comment E t d fin) (step_post E as fin fin t d)"
  unfolding lxb_html_tokenizer_state_comment_def
  by (rule step_loop [OF assms(1,3)]) (intro conjI impI tkz_intro | clarsimp simp: tkz_simp assms(2))+

lemma comment_less_than_sign_ok:
  assumes "tkz_wf E as fin t d" "state t = S_comment_less_than_sign" "d < fin"
  shows "wp (lxb_html_tokenizer_state_comment_less_than_sign E t d fin) (step_post E as fin fin t d)"
  unfolding lxb_html_tokenizer_state_comment_less_than_sign_def
  by (rule step_plain [OF assms(1,3)]) (intro conjI impI tkz_intro | clarsimp simp: tkz_simp assms(2))+

lemma comment_less_than_sign_bang_ok:
  assumes "tkz_wf E as fin t d" "state t = S_comment_less_than_sign_bang" "d < fin"
  shows "wp (lxb_html_tokenizer_state_comment_less_than_sign_bang E t d fin) (step_post E as fin fin t d)"
  unfolding lxb_html_tokenizer_state_comment_less_than_sign_bang_def
  by (rule step_plain [OF assms(1,3)]) (intro conjI impI tkz_intro | clarsimp simp: tkz_simp assms(2))+

lemma comment_less_than_sign_bang_dash_ok:
  assumes "tkz_wf E as fin t d" "state t = S_comment_less_than_sign_bang_dash" "d < fin"
  shows "wp (lxb_html_tokenizer_state_comment_less_than_sign_bang_dash E t d fin) (step_post E as fin fin t d)"
  unfolding lxb_html_tokenizer_state_comment_less_than_sign_bang_dash_def
  by (rule step_plain [OF assms(1,3)]) (intro conjI impI tkz_intro | clarsimp simp: tkz_simp assms(2))+

lemma comment_less_than_sign_bang_dash_dash_ok:
  assumes "tkz_wf E as fin t d" "state t = S_comment_less_than_sign_bang_dash_dash" "d < fin"
  shows "wp (lxb_html_tokenizer_state_comment_less_than_sign_bang_dash_dash E t d fin) (step_post E as fin fin t d)"
  unfolding lxb_html_tokenizer_state_comment_less_than_sign_bang_dash_dash_def
  by (rule step_plain [OF assms(1,3)]) (intro conjI impI tkz_intro | clarsimp simp: tkz_simp assms(2))+

lemma comment_before_start_ok:
  assumes "tkz_wf E as fin t d" "state t = S_comment_before_start" "d < fin"
  shows "wp (lxb_html_tokenizer_state_comment_before_start E t d fin) (step_post E as fin fin t d)"
  unfolding lxb_html_tokenizer_state_comment_before_start_def lxb_html_tokenizer_state_comment_start_def
  by (rule step_plain [OF assms(1,3)]) (intro conjI impI tkz_intro | clarsimp simp: tkz_simp assms(2))+

lemma comment_end_dash_ok:
  assumes "tkz_wf E as fin t d" "state t = S_comment_end_dash" "d < fin"
  shows "wp (lxb_html_tokenizer_state_comment_end_dash E t d fin) (step_post E as fin fin t d)"
  unfolding lxb_html_tokenizer_state_comment_end_dash_def
  by (rule step_plain [OF assms(1,3)])
     (intro conjI impI tkz_intro ctx_wf_pos_down [of "mem E" _ _ "is_eof t" as fin d]
        ctx_wf_pos_down_at [of "mem E" _ _ "is_eof t" as fin d] | clarsimp simp: tkz_simp assms(2))+

lemma comment_end_ok:
  assumes "tkz_wf E as fin t d" "state t = S_comment_end" "d < fin"
  shows "wp (lxb_html_tokenizer_state_comment_end E t d fin) (step_post E as fin fin t d)"
  unfolding lxb_html_tokenizer_state_comment_end_def
  by (rule step_plain [OF assms(1,3)])
     (intro conjI impI tkz_intro ctx_wf_pos_down [of "mem E" _ _ "is_eof t" as fin d]
        ctx_wf_pos_down_at [of "mem E" _ _ "is_eof t" as fin d] | clarsimp simp: tkz_simp assms(2))+

lemma comment_end_bang_ok:
  assumes "tkz_wf E as fin t d" "state t = S_comment_end_bang" "d < fin"
  shows "wp (lxb_html_tokenizer_state_comment_end_bang E t d fin) (step_post E as fin fin t d)"
  unfolding lxb_html_tokenizer_state_comment_end_bang_def
  by (rule step_plain [OF assms(1,3)])
     (intro conjI impI tkz_intro ctx_wf_pos_down [of "mem E" _ _ "is_eof t" as fin d]
        ctx_wf_pos_down_at [of "mem E" _ _ "is_eof t" as fin d] | clarsimp simp: tkz_simp assms(2))+

end

end
