(* ===== verification/Tkz_Doctype.thy ===== *)
theory Tkz_Doctype
  imports Tkz_State
begin

text \<open>
  The state functions of \<open>html/tokenizer/state_doctype.c\<close>.  The name and the public
  and system identifiers of a document type are kept as the attributes of the token.
\<close>

section \<open>Functions\<close>

text \<open>The keywords \<open>"PUBLIC"\<close> and \<open>"SYSTEM"\<close>.\<close>

definition lit_public :: "lxb_char list" where
  "lit_public = [0x50, 0x55, 0x42, 0x4C, 0x49, 0x43]"

definition lit_system :: "lxb_char list" where
  "lit_system = [0x53, 0x59, 0x53, 0x54, 0x45, 0x4D]"

lemma doctype_lit_simps [simp]: "length lit_public = 6" "length lit_system = 6" "lit_public \<noteq> []" "lit_system \<noteq> []"
  by (simp_all add: lit_public_def lit_system_def)

text \<open>\<open>lxb_html_token_attr_delete(tkz->token, tkz->token->attr_last, ...)\<close>\<close>

definition attr_delete_last :: "'c tkz \<Rightarrow> 'c tkz option" where
  "attr_delete_last t = do {
     tok \<leftarrow> token t;
     if attrs tok = [] then None
     else do {
       tok' \<leftarrow> lxb_html_token_attr_delete tok (length (attrs tok) - 1);
       Some (t\<lparr> token := Some tok' \<rparr>)
     }
   }"

definition lxb_html_tokenizer_state_doctype :: "'c env \<Rightarrow> 'c tkz \<Rightarrow> addr \<Rightarrow> addr \<Rightarrow> ('c tkz \<times> addr) option" where
  "lxb_html_tokenizer_state_doctype E t data fin = do {
     c \<leftarrow> mem E data;
     if is_ws c then ret (t\<lparr> state := S_doctype_before_name \<rparr>) (data + 1)
     else if c = 0x3E then ret (t\<lparr> state := S_doctype_before_name \<rparr>) data
     else if c = 0x00 \<and> is_eof t then do {
       e \<leftarrow> incoming_end t;
       let t = lxb_html_tokenizer_error_add E t e LXB_HTML_TOKENIZER_ERROR_EOINDO;
       t \<leftarrow> token_or_type t LXB_HTML_TOKEN_TYPE_FORCE_QUIRKS;
       token_done_m ret E t fin (\<lambda>t. ret t fin)
     }
     else do {
       let t = lxb_html_tokenizer_error_add E t data LXB_HTML_TOKENIZER_ERROR_MIWHBEDONA;
       ret (t\<lparr> state := S_doctype_before_name \<rparr>) data
     }
   }"

definition lxb_html_tokenizer_state_doctype_before :: "'c env \<Rightarrow> 'c tkz \<Rightarrow> addr \<Rightarrow> addr \<Rightarrow> ('c tkz \<times> addr) option" where
  "lxb_html_tokenizer_state_doctype_before E t data fin = do {
     t \<leftarrow> (if \<not> is_eof t then token_set_end t data else token_set_end_oef t);
     t \<leftarrow> with_token t (\<lambda>tok. tok\<lparr> tag_id := LXB_TAG__EM_DOCTYPE \<rparr>);
     lxb_html_tokenizer_state_doctype E t data fin
   }"

definition lxb_html_tokenizer_state_doctype_before_name :: "'c env \<Rightarrow> 'c tkz \<Rightarrow> addr \<Rightarrow> addr \<Rightarrow> ('c tkz \<times> addr) option" where
  "lxb_html_tokenizer_state_doctype_before_name E t data fin = 
     while_scan (mem E) (\<lambda>c t data.
       if is_ws c then cont t
       else if c = 0x00 then 
         (if is_eof t then do {
            e \<leftarrow> incoming_end t;
            let t = lxb_html_tokenizer_error_add E t e LXB_HTML_TOKENIZER_ERROR_EOINDO;
            t \<leftarrow> token_or_type t LXB_HTML_TOKEN_TYPE_FORCE_QUIRKS;
            token_done_m lret E t fin (\<lambda>t. lret t fin)
          }
          else token_attr_add_m lret E t fin (\<lambda>t. do {
            t \<leftarrow> attr_set_name_begin t data;
            let t = lxb_html_tokenizer_error_add E t data LXB_HTML_TOKENIZER_ERROR_UNNUCH;
            t \<leftarrow> attr_or_type t LXB_HTML_TOKEN_ATTR_TYPE_NAME_NULL;
            lret (t\<lparr> state := S_doctype_name \<rparr>) (data + 1)
          }))
       else if c = 0x3E then do {
         t \<leftarrow> token_or_type t LXB_HTML_TOKEN_TYPE_FORCE_QUIRKS;
         let t = t\<lparr> state := S_data_before \<rparr>;
         let t = lxb_html_tokenizer_error_add E t data LXB_HTML_TOKENIZER_ERROR_MIDONA;
         token_done_m lret E t fin (\<lambda>t. lret t (data + 1))
       }
       else token_attr_add_m lret E t fin (\<lambda>t. do {
         t \<leftarrow> attr_set_name_begin t data;
         lret (t\<lparr> state := S_doctype_name \<rparr>) (data + 1)
       })) t data fin"

definition lxb_html_tokenizer_state_doctype_name :: "'c env \<Rightarrow> 'c tkz \<Rightarrow> addr \<Rightarrow> addr \<Rightarrow> ('c tkz \<times> addr) option" where
  "lxb_html_tokenizer_state_doctype_name E t data fin = 
     while_scan (mem E) (\<lambda>c t data.
       if is_ws c then do {
         t \<leftarrow> attr_set_name_end t data;
         lret (t\<lparr> state := S_doctype_after_name \<rparr>) (data + 1)
       }
       else if c = 0x3E then do {
         let t = t\<lparr> state := S_data_before \<rparr>;
         t \<leftarrow> attr_set_name_end t data;
         token_done_m lret E t fin (\<lambda>t. lret t (data + 1))
       }
       else if c = 0x00 then 
         (if is_eof t then do {
            t \<leftarrow> attr_set_name_end_oef t;
            a \<leftarrow> attr_last t;
            let t = lxb_html_tokenizer_error_add E t (name_end a) LXB_HTML_TOKENIZER_ERROR_EOINDO;
            t \<leftarrow> token_or_type t LXB_HTML_TOKEN_TYPE_FORCE_QUIRKS;
            token_done_m lret E t fin (\<lambda>t. lret t fin)
          }
          else do {
            let t = lxb_html_tokenizer_error_add E t data LXB_HTML_TOKENIZER_ERROR_UNNUCH;
            t \<leftarrow> attr_or_type t LXB_HTML_TOKEN_ATTR_TYPE_NAME_NULL;
            cont t
          })
       else cont t) t data fin"

text \<open>The end of \<open>doctype_after_name\<close>: neither keyword.\<close>

definition doctype_after_name_bogus :: "'c env \<Rightarrow> 'c tkz \<Rightarrow> addr \<Rightarrow> 'c tkz turn option" where
  "doctype_after_name_bogus E t data = do {
     t \<leftarrow> attr_delete_last t;
     let t = lxb_html_tokenizer_error_add E t data LXB_HTML_TOKENIZER_ERROR_INCHSEAFDONA;
     t \<leftarrow> token_or_type t LXB_HTML_TOKEN_TYPE_FORCE_QUIRKS;
     lret (t\<lparr> state := S_doctype_bogus \<rparr>) data
   }"

definition lxb_html_tokenizer_state_doctype_after_name :: "'c env \<Rightarrow> 'c tkz \<Rightarrow> addr \<Rightarrow> addr \<Rightarrow> ('c tkz \<times> addr) option" where
  "lxb_html_tokenizer_state_doctype_after_name E t data fin = 
     while_scan (mem E) (\<lambda>c t data.
       if is_ws c then cont t
       else if c = 0x3E then do {
         let t = t\<lparr> state := S_data_before \<rparr>;
         token_done_m lret E t fin (\<lambda>t. lret t (data + 1))
       }
       else if c = 0x00 \<and> is_eof t then do {
         e \<leftarrow> incoming_end t;
         let t = lxb_html_tokenizer_error_add E t e LXB_HTML_TOKENIZER_ERROR_EOINDO;
         t \<leftarrow> token_or_type t LXB_HTML_TOKEN_TYPE_FORCE_QUIRKS;
         token_done_m lret E t fin (\<lambda>t. lret t fin)
       }
       else token_attr_add_m lret E t fin (\<lambda>t. do {
         t \<leftarrow> attr_set_name_begin t data;
         if data + 6 > fin then
           (if c = 0x50 \<or> c = 0x70 then
              lret (t\<lparr> markup := Mk_Lit lit_public, state := S_doctype_after_name_public \<rparr>) data
            else if c = 0x53 \<or> c = 0x73 then
              lret (t\<lparr> markup := Mk_Lit lit_system, state := S_doctype_after_name_system \<rparr>) data
            else doctype_after_name_bogus E t data)
         else do {
           bs \<leftarrow> mem_range (mem E) data 6;
           p \<leftarrow> lexbor_str_data_ncasecmp lit_public bs 6;
           if p then do {
             t \<leftarrow> attr_set_name_end t (data + 6);
             lret (t\<lparr> state := S_doctype_after_public_keyword \<rparr>) (data + 6)
           }
           else do {
             s \<leftarrow> lexbor_str_data_ncasecmp lit_system bs 6;
             if s then do {
               t \<leftarrow> attr_set_name_end t (data + 6);
               lret (t\<lparr> state := S_doctype_after_system_keyword \<rparr>) (data + 6)
             }
             else doctype_after_name_bogus E t data
           }
         }
       })) t data fin"

definition lxb_html_tokenizer_state_doctype_after_name_public :: "'c env \<Rightarrow> 'c tkz \<Rightarrow> addr \<Rightarrow> addr \<Rightarrow> ('c tkz \<times> addr) option" where
  "lxb_html_tokenizer_state_doctype_after_name_public E t data fin = do {
     lit \<leftarrow> markup_lit t;
     bs \<leftarrow> mem_range (mem E) data (fin - data);
     (case lexbor_str_data_ncasecmp_first lit bs of
        None \<Rightarrow> do {
          t \<leftarrow> attr_delete_last t;
          let t = lxb_html_tokenizer_error_add E t data LXB_HTML_TOKENIZER_ERROR_INCHSEAFDONA;
          ret (t\<lparr> state := S_doctype_bogus \<rparr>) data
        }
      | Some pos \<Rightarrow>
          if pos = length lit then do {
            let pos = data + pos;
            t \<leftarrow> attr_set_name_end t pos;
            ret (t\<lparr> state := S_doctype_after_public_keyword \<rparr>) (pos + 1)
          }
          else ret (t\<lparr> markup := Mk_Lit (drop pos lit) \<rparr>) fin)
   }"

definition lxb_html_tokenizer_state_doctype_after_name_system :: "'c env \<Rightarrow> 'c tkz \<Rightarrow> addr \<Rightarrow> addr \<Rightarrow> ('c tkz \<times> addr) option" where
  "lxb_html_tokenizer_state_doctype_after_name_system E t data fin = do {
     lit \<leftarrow> markup_lit t;
     bs \<leftarrow> mem_range (mem E) data (fin - data);
     (case lexbor_str_data_ncasecmp_first lit bs of
        None \<Rightarrow> do {
          t \<leftarrow> attr_delete_last t;
          let t = lxb_html_tokenizer_error_add E t data LXB_HTML_TOKENIZER_ERROR_INCHSEAFDONA;
          ret (t\<lparr> state := S_doctype_bogus \<rparr>) data
        }
      | Some pos \<Rightarrow>
          if pos = length lit then do {
            let pos = data + pos;
            t \<leftarrow> attr_set_name_end t pos;
            ret (t\<lparr> state := S_doctype_after_system_keyword \<rparr>) (pos + 1)
          }
          else ret (t\<lparr> markup := Mk_Lit (drop pos lit) \<rparr>) fin)
   }"

definition lxb_html_tokenizer_state_doctype_after_public_keyword :: "'c env \<Rightarrow> 'c tkz \<Rightarrow> addr \<Rightarrow> addr \<Rightarrow> ('c tkz \<times> addr) option" where
  "lxb_html_tokenizer_state_doctype_after_public_keyword E t data fin = do {
     c \<leftarrow> mem E data;
     if is_ws c then ret (t\<lparr> state := S_doctype_before_public_identifier \<rparr>) (data + 1)
     else if c = 0x22 then do {
       let t = lxb_html_tokenizer_error_add E t data LXB_HTML_TOKENIZER_ERROR_MIWHAFDOPUKE;
       ret (t\<lparr> state := S_doctype_public_identifier_double_quoted \<rparr>) (data + 1)
     }
     else if c = 0x27 then do {
       let t = lxb_html_tokenizer_error_add E t data LXB_HTML_TOKENIZER_ERROR_MIWHAFDOPUKE;
       ret (t\<lparr> state := S_doctype_public_identifier_single_quoted \<rparr>) (data + 1)
     }
     else if c = 0x3E then do {
       t \<leftarrow> token_or_type t LXB_HTML_TOKEN_TYPE_FORCE_QUIRKS;
       let t = t\<lparr> state := S_data_before \<rparr>;
       let t = lxb_html_tokenizer_error_add E t data LXB_HTML_TOKENIZER_ERROR_MIDOPUID;
       token_done_m ret E t fin (\<lambda>t. ret t (data + 1))
     }
     else if c = 0x00 \<and> is_eof t then do {
       t \<leftarrow> token_or_type t LXB_HTML_TOKEN_TYPE_FORCE_QUIRKS;
       e \<leftarrow> incoming_end t;
       let t = lxb_html_tokenizer_error_add E t e LXB_HTML_TOKENIZER_ERROR_EOINDO;
       token_done_m ret E t fin (\<lambda>t. ret t fin)
     }
     else do {
       t \<leftarrow> token_or_type t LXB_HTML_TOKEN_TYPE_FORCE_QUIRKS;
       let t = t\<lparr> state := S_doctype_bogus \<rparr>;
       let t = lxb_html_tokenizer_error_add E t data LXB_HTML_TOKENIZER_ERROR_MIQUBEDOPUID;
       ret t data
     }
   }"

definition lxb_html_tokenizer_state_doctype_before_public_identifier :: "'c env \<Rightarrow> 'c tkz \<Rightarrow> addr \<Rightarrow> addr \<Rightarrow> ('c tkz \<times> addr) option" where
  "lxb_html_tokenizer_state_doctype_before_public_identifier E t data fin = do {
     c \<leftarrow> mem E data;
     if is_ws c then ret t (data + 1)
     else if c = 0x22 then ret (t\<lparr> state := S_doctype_public_identifier_double_quoted \<rparr>) (data + 1)
     else if c = 0x27 then ret (t\<lparr> state := S_doctype_public_identifier_single_quoted \<rparr>) (data + 1)
     else if c = 0x3E then do {
       t \<leftarrow> token_or_type t LXB_HTML_TOKEN_TYPE_FORCE_QUIRKS;
       let t = t\<lparr> state := S_data_before \<rparr>;
       let t = lxb_html_tokenizer_error_add E t data LXB_HTML_TOKENIZER_ERROR_MIDOPUID;
       token_done_m ret E t fin (\<lambda>t. ret t (data + 1))
     }
     else if c = 0x00 \<and> is_eof t then do {
       e \<leftarrow> incoming_end t;
       let t = lxb_html_tokenizer_error_add E t e LXB_HTML_TOKENIZER_ERROR_EOINDO;
       t \<leftarrow> token_or_type t LXB_HTML_TOKEN_TYPE_FORCE_QUIRKS;
       token_done_m ret E t fin (\<lambda>t. ret t fin)
     }
     else do {
       let t = lxb_html_tokenizer_error_add E t data LXB_HTML_TOKENIZER_ERROR_MIQUBEDOPUID;
       t \<leftarrow> token_or_type t LXB_HTML_TOKEN_TYPE_FORCE_QUIRKS;
       ret (t\<lparr> state := S_doctype_bogus \<rparr>) data
     }
   }"

text \<open>The end of the text inside a public or system identifier.\<close>

definition identifier_eof :: "'c env \<Rightarrow> 'c tkz \<Rightarrow> addr \<Rightarrow> 'c tkz turn option" where
  "identifier_eof E t fin = do {
     t \<leftarrow> attr_set_value_end_oef t;
     a \<leftarrow> attr_last t;
     t \<leftarrow> (if value_begin a = NULL then attr_set_value_begin t (value_end a) else Some t);
     a \<leftarrow> attr_last t;
     let t = lxb_html_tokenizer_error_add E t (value_end a) LXB_HTML_TOKENIZER_ERROR_EOINDO;
     t \<leftarrow> token_or_type t LXB_HTML_TOKEN_TYPE_FORCE_QUIRKS;
     token_done_m lret E t fin (\<lambda>t. lret t fin)
   }"

definition lxb_html_tokenizer_state_doctype_public_identifier_double_quoted :: "'c env \<Rightarrow> 'c tkz \<Rightarrow> addr \<Rightarrow> addr \<Rightarrow> ('c tkz \<times> addr) option" where
  "lxb_html_tokenizer_state_doctype_public_identifier_double_quoted E t data fin = do {
     t \<leftarrow> attr_value_start t data;
     while_scan (mem E) (\<lambda>c t data.
       if c = 0x22 then do {
         t \<leftarrow> attr_set_value_end t data;
         lret (t\<lparr> state := S_doctype_after_public_identifier \<rparr>) (data + 1)
       }
       else if c = 0x3E then do {
         let t = t\<lparr> state := S_data_before \<rparr>;
         let t = lxb_html_tokenizer_error_add E t data LXB_HTML_TOKENIZER_ERROR_ABDOPUID;
         t \<leftarrow> attr_set_value_end t data;
         token_done_m lret E t fin (\<lambda>t. lret t (data + 1))
       }
       else if c = 0x00 then
         (if is_eof t then identifier_eof E t fin
          else do {
            let t = lxb_html_tokenizer_error_add E t data LXB_HTML_TOKENIZER_ERROR_UNNUCH;
            t \<leftarrow> attr_or_type t LXB_HTML_TOKEN_ATTR_TYPE_VALUE_NULL;
            cont t
          })
       else cont t) t data fin
   }"

definition lxb_html_tokenizer_state_doctype_public_identifier_single_quoted :: "'c env \<Rightarrow> 'c tkz \<Rightarrow> addr \<Rightarrow> addr \<Rightarrow> ('c tkz \<times> addr) option" where
  "lxb_html_tokenizer_state_doctype_public_identifier_single_quoted E t data fin = do {
     t \<leftarrow> attr_value_start t data;
     while_scan (mem E) (\<lambda>c t data.
       if c = 0x27 then do {
         t \<leftarrow> attr_set_value_end t data;
         lret (t\<lparr> state := S_doctype_after_public_identifier \<rparr>) (data + 1)
       }
       else if c = 0x3E then do {
         let t = t\<lparr> state := S_data_before \<rparr>;
         let t = lxb_html_tokenizer_error_add E t data LXB_HTML_TOKENIZER_ERROR_ABDOPUID;
         t \<leftarrow> attr_set_value_end t data;
         token_done_m lret E t fin (\<lambda>t. lret t (data + 1))
       }
       else if c = 0x00 then
         (if is_eof t then identifier_eof E t fin
          else do {
            let t = lxb_html_tokenizer_error_add E t data LXB_HTML_TOKENIZER_ERROR_UNNUCH;
            t \<leftarrow> attr_or_type t LXB_HTML_TOKEN_ATTR_TYPE_VALUE_NULL;
            cont t
          })
       else cont t) t data fin
   }"

definition lxb_html_tokenizer_state_doctype_after_public_identifier :: "'c env \<Rightarrow> 'c tkz \<Rightarrow> addr \<Rightarrow> addr \<Rightarrow> ('c tkz \<times> addr) option" where
  "lxb_html_tokenizer_state_doctype_after_public_identifier E t data fin = do {
     c \<leftarrow> mem E data;
     if is_ws c then ret (t\<lparr> state := S_doctype_between_public_and_system_identifiers \<rparr>) (data + 1)
     else if c = 0x3E then do {
       let t = t\<lparr> state := S_data_before \<rparr>;
       token_done_m ret E t fin (\<lambda>t. ret t (data + 1))
     }
     else if c = 0x22 then do {
       let t = lxb_html_tokenizer_error_add E t data LXB_HTML_TOKENIZER_ERROR_MIWHBEDOPUANSYID;
       token_attr_add_m ret E t fin (\<lambda>t.
         ret (t\<lparr> state := S_doctype_system_identifier_double_quoted \<rparr>) (data + 1))
     }
     else if c = 0x27 then do {
       let t = lxb_html_tokenizer_error_add E t data LXB_HTML_TOKENIZER_ERROR_MIWHBEDOPUANSYID;
       token_attr_add_m ret E t fin (\<lambda>t.
         ret (t\<lparr> state := S_doctype_system_identifier_single_quoted \<rparr>) (data + 1))
     }
     else if c = 0x00 \<and> is_eof t then do {
       e \<leftarrow> incoming_end t;
       let t = lxb_html_tokenizer_error_add E t e LXB_HTML_TOKENIZER_ERROR_EOINDO;
       t \<leftarrow> token_or_type t LXB_HTML_TOKEN_TYPE_FORCE_QUIRKS;
       token_done_m ret E t fin (\<lambda>t. ret t fin)
     }
     else do {
       let t = lxb_html_tokenizer_error_add E t data LXB_HTML_TOKENIZER_ERROR_MIQUBEDOSYID;
       t \<leftarrow> token_or_type t LXB_HTML_TOKEN_TYPE_FORCE_QUIRKS;
       ret (t\<lparr> state := S_doctype_bogus \<rparr>) data
     }
   }"

definition lxb_html_tokenizer_state_doctype_between_public_and_system_identifiers :: "'c env \<Rightarrow> 'c tkz \<Rightarrow> addr \<Rightarrow> addr \<Rightarrow> ('c tkz \<times> addr) option" where
  "lxb_html_tokenizer_state_doctype_between_public_and_system_identifiers E t data fin = do {
     c \<leftarrow> mem E data;
     if is_ws c then ret t (data + 1)
     else if c = 0x3E then do {
       let t = t\<lparr> state := S_data_before \<rparr>;
       token_done_m ret E t fin (\<lambda>t. ret t (data + 1))
     }
     else if c = 0x22 then token_attr_add_m ret E t fin (\<lambda>t.
       ret (t\<lparr> state := S_doctype_system_identifier_double_quoted \<rparr>) (data + 1))
     else if c = 0x27 then token_attr_add_m ret E t fin (\<lambda>t.
       ret (t\<lparr> state := S_doctype_system_identifier_single_quoted \<rparr>) (data + 1))
     else if c = 0x00 \<and> is_eof t then do {
       e \<leftarrow> incoming_end t;
       let t = lxb_html_tokenizer_error_add E t e LXB_HTML_TOKENIZER_ERROR_EOINDO;
       t \<leftarrow> token_or_type t LXB_HTML_TOKEN_TYPE_FORCE_QUIRKS;
       token_done_m ret E t fin (\<lambda>t. ret t fin)
     }
     else do {
       let t = lxb_html_tokenizer_error_add E t data LXB_HTML_TOKENIZER_ERROR_MIQUBEDOSYID;
       t \<leftarrow> token_or_type t LXB_HTML_TOKEN_TYPE_FORCE_QUIRKS;
       ret (t\<lparr> state := S_doctype_bogus \<rparr>) data
     }
   }"

definition lxb_html_tokenizer_state_doctype_after_system_keyword :: "'c env \<Rightarrow> 'c tkz \<Rightarrow> addr \<Rightarrow> addr \<Rightarrow> ('c tkz \<times> addr) option" where
  "lxb_html_tokenizer_state_doctype_after_system_keyword E t data fin = do {
     c \<leftarrow> mem E data;
     if is_ws c then ret (t\<lparr> state := S_doctype_before_system_identifier \<rparr>) (data + 1)
     else if c = 0x22 then do {
       let t = lxb_html_tokenizer_error_add E t data LXB_HTML_TOKENIZER_ERROR_MIWHAFDOSYKE;
       ret (t\<lparr> state := S_doctype_system_identifier_double_quoted \<rparr>) (data + 1)
     }
     else if c = 0x27 then do {
       let t = lxb_html_tokenizer_error_add E t data LXB_HTML_TOKENIZER_ERROR_MIWHAFDOSYKE;
       ret (t\<lparr> state := S_doctype_system_identifier_single_quoted \<rparr>) (data + 1)
     }
     else if c = 0x3E then do {
       t \<leftarrow> token_or_type t LXB_HTML_TOKEN_TYPE_FORCE_QUIRKS;
       let t = t\<lparr> state := S_data_before \<rparr>;
       let t = lxb_html_tokenizer_error_add E t data LXB_HTML_TOKENIZER_ERROR_MIDOSYID;
       token_done_m ret E t fin (\<lambda>t. ret t (data + 1))
     }
     else if c = 0x00 \<and> is_eof t then do {
       e \<leftarrow> incoming_end t;
       let t = lxb_html_tokenizer_error_add E t e LXB_HTML_TOKENIZER_ERROR_EOINDO;
       t \<leftarrow> token_or_type t LXB_HTML_TOKEN_TYPE_FORCE_QUIRKS;
       token_done_m ret E t fin (\<lambda>t. ret t fin)
     }
     else do {
       t \<leftarrow> token_or_type t LXB_HTML_TOKEN_TYPE_FORCE_QUIRKS;
       let t = t\<lparr> state := S_doctype_bogus \<rparr>;
       let t = lxb_html_tokenizer_error_add E t data LXB_HTML_TOKENIZER_ERROR_MIQUBEDOSYID;
       ret t data
     }
   }"

definition lxb_html_tokenizer_state_doctype_before_system_identifier :: "'c env \<Rightarrow> 'c tkz \<Rightarrow> addr \<Rightarrow> addr \<Rightarrow> ('c tkz \<times> addr) option" where
  "lxb_html_tokenizer_state_doctype_before_system_identifier E t data fin = do {
     c \<leftarrow> mem E data;
     if is_ws c then ret t (data + 1)
     else if c = 0x22 then ret (t\<lparr> state := S_doctype_system_identifier_double_quoted \<rparr>) (data + 1)
     else if c = 0x27 then ret (t\<lparr> state := S_doctype_system_identifier_single_quoted \<rparr>) (data + 1)
     else if c = 0x3E then do {
       t \<leftarrow> token_or_type t LXB_HTML_TOKEN_TYPE_FORCE_QUIRKS;
       let t = t\<lparr> state := S_data_before \<rparr>;
       let t = lxb_html_tokenizer_error_add E t data LXB_HTML_TOKENIZER_ERROR_MIDOSYID;
       token_done_m ret E t fin (\<lambda>t. ret t (data + 1))
     }
     else if c = 0x00 \<and> is_eof t then do {
       e \<leftarrow> incoming_end t;
       let t = lxb_html_tokenizer_error_add E t e LXB_HTML_TOKENIZER_ERROR_EOINDO;
       t \<leftarrow> token_or_type t LXB_HTML_TOKEN_TYPE_FORCE_QUIRKS;
       token_done_m ret E t fin (\<lambda>t. ret t fin)
     }
     else do {
       t \<leftarrow> token_or_type t LXB_HTML_TOKEN_TYPE_FORCE_QUIRKS;
       let t = t\<lparr> state := S_doctype_bogus \<rparr>;
       let t = lxb_html_tokenizer_error_add E t data LXB_HTML_TOKENIZER_ERROR_MIQUBEDOSYID;
       ret t data
     }
   }"

definition lxb_html_tokenizer_state_doctype_system_identifier_double_quoted :: "'c env \<Rightarrow> 'c tkz \<Rightarrow> addr \<Rightarrow> addr \<Rightarrow> ('c tkz \<times> addr) option" where
  "lxb_html_tokenizer_state_doctype_system_identifier_double_quoted E t data fin = do {
     t \<leftarrow> attr_value_start t data;
     while_scan (mem E) (\<lambda>c t data.
       if c = 0x22 then do {
         t \<leftarrow> attr_set_value_end t data;
         lret (t\<lparr> state := S_doctype_after_system_identifier \<rparr>) (data + 1)
       }
       else if c = 0x3E then do {
         let t = t\<lparr> state := S_data_before \<rparr>;
         let t = lxb_html_tokenizer_error_add E t data LXB_HTML_TOKENIZER_ERROR_ABDOSYID;
         t \<leftarrow> attr_set_value_end t data;
         token_done_m lret E t fin (\<lambda>t. lret t (data + 1))
       }
       else if c = 0x00 then
         (if is_eof t then identifier_eof E t fin
          else do {
            let t = lxb_html_tokenizer_error_add E t data LXB_HTML_TOKENIZER_ERROR_UNNUCH;
            t \<leftarrow> attr_or_type t LXB_HTML_TOKEN_ATTR_TYPE_VALUE_NULL;
            cont t
          })
       else cont t) t data fin
   }"

definition lxb_html_tokenizer_state_doctype_system_identifier_single_quoted :: "'c env \<Rightarrow> 'c tkz \<Rightarrow> addr \<Rightarrow> addr \<Rightarrow> ('c tkz \<times> addr) option" where
  "lxb_html_tokenizer_state_doctype_system_identifier_single_quoted E t data fin = do {
     t \<leftarrow> attr_value_start t data;
     while_scan (mem E) (\<lambda>c t data.
       if c = 0x27 then do {
         t \<leftarrow> attr_set_value_end t data;
         lret (t\<lparr> state := S_doctype_after_system_identifier \<rparr>) (data + 1)
       }
       else if c = 0x3E then do {
         let t = t\<lparr> state := S_data_before \<rparr>;
         let t = lxb_html_tokenizer_error_add E t data LXB_HTML_TOKENIZER_ERROR_ABDOSYID;
         t \<leftarrow> attr_set_value_end t data;
         token_done_m lret E t fin (\<lambda>t. lret t (data + 1))
       }
       else if c = 0x00 then
         (if is_eof t then identifier_eof E t fin
          else do {
            let t = lxb_html_tokenizer_error_add E t data LXB_HTML_TOKENIZER_ERROR_UNNUCH;
            t \<leftarrow> attr_or_type t LXB_HTML_TOKEN_ATTR_TYPE_VALUE_NULL;
            cont t
          })
       else cont t) t data fin
   }"

definition lxb_html_tokenizer_state_doctype_after_system_identifier :: "'c env \<Rightarrow> 'c tkz \<Rightarrow> addr \<Rightarrow> addr \<Rightarrow> ('c tkz \<times> addr) option" where
  "lxb_html_tokenizer_state_doctype_after_system_identifier E t data fin = do {
     c \<leftarrow> mem E data;
     if is_ws c then ret t (data + 1)
     else if c = 0x3E then do {
       let t = t\<lparr> state := S_data_before \<rparr>;
       token_done_m ret E t fin (\<lambda>t. ret t (data + 1))
     }
     else if c = 0x00 \<and> is_eof t then do {
       e \<leftarrow> incoming_end t;
       let t = lxb_html_tokenizer_error_add E t e LXB_HTML_TOKENIZER_ERROR_EOINDO;
       t \<leftarrow> token_or_type t LXB_HTML_TOKEN_TYPE_FORCE_QUIRKS;
       token_done_m ret E t fin (\<lambda>t. ret t fin)
     }
     else do {
       let t = lxb_html_tokenizer_error_add E t data LXB_HTML_TOKENIZER_ERROR_UNCHAFDOSYID;
       ret (t\<lparr> state := S_doctype_bogus \<rparr>) data
     }
   }"

definition lxb_html_tokenizer_state_doctype_bogus :: "'c env \<Rightarrow> 'c tkz \<Rightarrow> addr \<Rightarrow> addr \<Rightarrow> ('c tkz \<times> addr) option" where
  "lxb_html_tokenizer_state_doctype_bogus E t data fin = 
     while_scan (mem E) (\<lambda>c t data.
       if c = 0x3E then do {
         let t = t\<lparr> state := S_data_before \<rparr>;
         token_done_m lret E t fin (\<lambda>t. lret t (data + 1))
       }
       else if c = 0x00 then 
         (if is_eof t then token_done_m lret E t fin (\<lambda>t. lret t fin)
          else do {
            let t = lxb_html_tokenizer_error_add E t data LXB_HTML_TOKENIZER_ERROR_UNNUCH;
            cont t
          })
       else cont t) t data fin"

section \<open>The functions keep the contract\<close>

lemma attr_delete_last_eq [tkz_wp, tkz_simp]:
  "token t = Some tok \<Longrightarrow> attrs tok \<noteq> [] \<Longrightarrow>
   attr_delete_last t = Some (t\<lparr> token := Some (tok\<lparr> attrs := butlast (attrs tok) \<rparr>) \<rparr>)"
  by (simp add: attr_delete_last_def lxb_html_token_attr_delete_def lxb_html_token_attr_remove_def
      butlast_conv_take)

context token_callback
begin

lemma doctype_before_ok:
  assumes "tkz_wf E as fin t d" "state t = S_doctype_before" "d < fin"
  shows "wp (lxb_html_tokenizer_state_doctype_before E t d fin) (step_post E as fin fin t d)"
  unfolding lxb_html_tokenizer_state_doctype_before_def lxb_html_tokenizer_state_doctype_def
  by (rule step_plain [OF assms(1,3)]) (intro conjI impI tkz_intro | clarsimp simp: tkz_simp assms(2))+

lemma doctype_before_name_ok:
  assumes "tkz_wf E as fin t d" "state t = S_doctype_before_name" "d < fin"
  shows "wp (lxb_html_tokenizer_state_doctype_before_name E t d fin) (step_post E as fin fin t d)"
  unfolding lxb_html_tokenizer_state_doctype_before_name_def
  by (rule step_loop [OF assms(1,3)]) (intro conjI impI tkz_intro | clarsimp simp: tkz_simp assms(2))+

lemma doctype_name_ok:
  assumes "tkz_wf E as fin t d" "state t = S_doctype_name" "d < fin"
  shows "wp (lxb_html_tokenizer_state_doctype_name E t d fin) (step_post E as fin fin t d)"
  unfolding lxb_html_tokenizer_state_doctype_name_def
  by (rule step_loop [OF assms(1,3)]) (intro conjI impI tkz_intro | clarsimp simp: tkz_simp assms(2))+

lemma doctype_after_public_keyword_ok:
  assumes "tkz_wf E as fin t d" "state t = S_doctype_after_public_keyword" "d < fin"
  shows "wp (lxb_html_tokenizer_state_doctype_after_public_keyword E t d fin) (step_post E as fin fin t d)"
  unfolding lxb_html_tokenizer_state_doctype_after_public_keyword_def
  by (rule step_plain [OF assms(1,3)]) (intro conjI impI tkz_intro | clarsimp simp: tkz_simp assms(2))+

lemma doctype_before_public_identifier_ok:
  assumes "tkz_wf E as fin t d" "state t = S_doctype_before_public_identifier" "d < fin"
  shows "wp (lxb_html_tokenizer_state_doctype_before_public_identifier E t d fin) (step_post E as fin fin t d)"
  unfolding lxb_html_tokenizer_state_doctype_before_public_identifier_def
  by (rule step_plain [OF assms(1,3)]) (intro conjI impI tkz_intro | clarsimp simp: tkz_simp assms(2))+

lemma doctype_after_public_identifier_ok:
  assumes "tkz_wf E as fin t d" "state t = S_doctype_after_public_identifier" "d < fin"
  shows "wp (lxb_html_tokenizer_state_doctype_after_public_identifier E t d fin) (step_post E as fin fin t d)"
  unfolding lxb_html_tokenizer_state_doctype_after_public_identifier_def
  by (rule step_plain [OF assms(1,3)]) (intro conjI impI tkz_intro | clarsimp simp: tkz_simp assms(2))+

lemma doctype_between_public_and_system_identifiers_ok:
  assumes "tkz_wf E as fin t d" "state t = S_doctype_between_public_and_system_identifiers" "d < fin"
  shows "wp (lxb_html_tokenizer_state_doctype_between_public_and_system_identifiers E t d fin) (step_post E as fin fin t d)"
  unfolding lxb_html_tokenizer_state_doctype_between_public_and_system_identifiers_def
  by (rule step_plain [OF assms(1,3)]) (intro conjI impI tkz_intro | clarsimp simp: tkz_simp assms(2))+

lemma doctype_after_system_keyword_ok:
  assumes "tkz_wf E as fin t d" "state t = S_doctype_after_system_keyword" "d < fin"
  shows "wp (lxb_html_tokenizer_state_doctype_after_system_keyword E t d fin) (step_post E as fin fin t d)"
  unfolding lxb_html_tokenizer_state_doctype_after_system_keyword_def
  by (rule step_plain [OF assms(1,3)]) (intro conjI impI tkz_intro | clarsimp simp: tkz_simp assms(2))+

lemma doctype_before_system_identifier_ok:
  assumes "tkz_wf E as fin t d" "state t = S_doctype_before_system_identifier" "d < fin"
  shows "wp (lxb_html_tokenizer_state_doctype_before_system_identifier E t d fin) (step_post E as fin fin t d)"
  unfolding lxb_html_tokenizer_state_doctype_before_system_identifier_def
  by (rule step_plain [OF assms(1,3)]) (intro conjI impI tkz_intro | clarsimp simp: tkz_simp assms(2))+

lemma doctype_after_system_identifier_ok:
  assumes "tkz_wf E as fin t d" "state t = S_doctype_after_system_identifier" "d < fin"
  shows "wp (lxb_html_tokenizer_state_doctype_after_system_identifier E t d fin) (step_post E as fin fin t d)"
  unfolding lxb_html_tokenizer_state_doctype_after_system_identifier_def
  by (rule step_plain [OF assms(1,3)]) (intro conjI impI tkz_intro | clarsimp simp: tkz_simp assms(2))+

lemma doctype_bogus_ok:
  assumes "tkz_wf E as fin t d" "state t = S_doctype_bogus" "d < fin"
  shows "wp (lxb_html_tokenizer_state_doctype_bogus E t d fin) (step_post E as fin fin t d)"
  unfolding lxb_html_tokenizer_state_doctype_bogus_def
  by (rule step_loop [OF assms(1,3)]) (intro conjI impI tkz_intro | clarsimp simp: tkz_simp assms(2))+

lemma doctype_public_identifier_double_quoted_ok:
  assumes "tkz_wf E as fin t d" "state t = S_doctype_public_identifier_double_quoted" "d < fin"
  shows "wp (lxb_html_tokenizer_state_doctype_public_identifier_double_quoted E t d fin) (step_post E as fin fin t d)"
  unfolding lxb_html_tokenizer_state_doctype_public_identifier_double_quoted_def
  by (rule step_value_loop [OF assms(1) _ assms(3)])
     (intro conjI impI tkz_intro | clarsimp simp: tkz_simp identifier_eof_def assms(2))+

lemma doctype_public_identifier_single_quoted_ok:
  assumes "tkz_wf E as fin t d" "state t = S_doctype_public_identifier_single_quoted" "d < fin"
  shows "wp (lxb_html_tokenizer_state_doctype_public_identifier_single_quoted E t d fin) (step_post E as fin fin t d)"
  unfolding lxb_html_tokenizer_state_doctype_public_identifier_single_quoted_def
  by (rule step_value_loop [OF assms(1) _ assms(3)])
     (intro conjI impI tkz_intro | clarsimp simp: tkz_simp identifier_eof_def assms(2))+

lemma doctype_system_identifier_double_quoted_ok:
  assumes "tkz_wf E as fin t d" "state t = S_doctype_system_identifier_double_quoted" "d < fin"
  shows "wp (lxb_html_tokenizer_state_doctype_system_identifier_double_quoted E t d fin) (step_post E as fin fin t d)"
  unfolding lxb_html_tokenizer_state_doctype_system_identifier_double_quoted_def
  by (rule step_value_loop [OF assms(1) _ assms(3)])
     (intro conjI impI tkz_intro | clarsimp simp: tkz_simp identifier_eof_def assms(2))+

lemma doctype_system_identifier_single_quoted_ok:
  assumes "tkz_wf E as fin t d" "state t = S_doctype_system_identifier_single_quoted" "d < fin"
  shows "wp (lxb_html_tokenizer_state_doctype_system_identifier_single_quoted E t d fin) (step_post E as fin fin t d)"
  unfolding lxb_html_tokenizer_state_doctype_system_identifier_single_quoted_def
  by (rule step_value_loop [OF assms(1) _ assms(3)])
     (intro conjI impI tkz_intro | clarsimp simp: tkz_simp identifier_eof_def assms(2))+

text \<open>When the keyword ends with the chunk, the next two functions return the position
  behind the end of the buffer: they skip one byte too much.\<close>

lemma doctype_after_name_public_ok:
  assumes "tkz_wf E as fin t d" "state t = S_doctype_after_name_public" "d < fin"
  shows "wp (lxb_html_tokenizer_state_doctype_after_name_public E t d fin) (step_post E as fin (Suc fin) t d)"
  unfolding lxb_html_tokenizer_state_doctype_after_name_public_def
  by (rule step_keyword [OF assms(1) _ assms(3)])
     (auto simp: tkz_simp markup_lit_def assms(2) split: option.splits)

lemma doctype_after_name_system_ok:
  assumes "tkz_wf E as fin t d" "state t = S_doctype_after_name_system" "d < fin"
  shows "wp (lxb_html_tokenizer_state_doctype_after_name_system E t d fin) (step_post E as fin (Suc fin) t d)"
  unfolding lxb_html_tokenizer_state_doctype_after_name_system_def
  by (rule step_keyword [OF assms(1) _ assms(3)])
     (auto simp: tkz_simp markup_lit_def assms(2) split: option.splits)

lemma doctype_after_name_ok:
  assumes "tkz_wf E as fin t d" "state t = S_doctype_after_name" "d < fin"
  shows "wp (lxb_html_tokenizer_state_doctype_after_name E t d fin) (step_post E as fin fin t d)"
  unfolding lxb_html_tokenizer_state_doctype_after_name_def
proof (rule step_loop_ready [OF assms(1,3)], goal_cases)
  case (1 t' x c tok n)
  show ?case
  proof (cases "fin < x + 6")
    case True
    with 1 assms(2) show ?thesis
      by (cases "c = 0x50 \<or> c = 0x70"; cases "c = 0x53 \<or> c = 0x73"; cases "c = 0x3E"; cases "is_ws c")
         (intro conjI impI tkz_intro | clarsimp simp: tkz_simp doctype_after_name_bogus_def)+
  next
    case False
    then obtain bs where bs: "mem_range (mem E) x 6 = Some bs" "length bs = 6"
      using ctx_wf_range [of "mem E" "in_nodes t'" "incoming_node t'" "is_eof t'" as fin x 6] 1(1)
      by (auto simp: ready_def)
    then obtain p s where "lexbor_str_data_ncasecmp lit_public bs 6 = Some p"
      "lexbor_str_data_ncasecmp lit_system bs 6 = Some s"
      by (simp add: ncasecmp_eq)
    with 1 assms(2) bs False show ?thesis
      by (cases p; cases s; cases "c = 0x3E"; cases "is_ws c")
         (intro conjI impI tkz_intro | clarsimp simp: tkz_simp doctype_after_name_bogus_def)+
  qed
qed

end

end
