(* ===== verification/Tkz_Rawtext.thy ===== *)
theory Tkz_Rawtext
  imports Tkz_State
begin

text \<open>
  The state functions of \<open>html/tokenizer/state_rawtext.c\<close> and \<open>state_rcdata.c\<close>: the text
  of elements like \<open>style\<close>, \<open>title\<close> and \<open>textarea\<close>, which only their own end tag ends.
  When \<open>\<open></\<close>\<close> and a letter are seen, the position of the letter is saved in \<open>tkz->markup\<close>
  and \<open>tkz->tmp_incoming_node\<close>; the name that follows may be spread over several
  buffers.
\<close>

section \<open>End tag names\<close>

text \<open>The text position in \<open>tkz->markup\<close>.\<close>

definition markup_ptr :: "'c tkz \<Rightarrow> addr option" where
  "markup_ptr t = (case markup t of Mk_Ptr p \<Rightarrow> Some p | _ \<Rightarrow> None)"

text \<open>\<open>tkz->tmp_tag_id == lxb_html_in_tag_id(tkz->tmp_incoming_node, ..., tkz->markup, data, ...)\<close>\<close>

definition end_tag_matches :: "'c env \<Rightarrow> 'c tkz \<Rightarrow> addr \<Rightarrow> bool option" where
  "end_tag_matches E t data = do {
     p \<leftarrow> markup_ptr t;
     i \<leftarrow> lxb_html_in_tag_id (str_alloc E) (tag_id_by_name E) (mem E) (in_nodes t) (tmp_incoming_node t) p data;
     Some (tmp_tag_id t = i)
   }"

text \<open>Emits the text token and begins the token of the end tag.\<close>

definition end_tag_begin :: "'c env \<Rightarrow> 'c tkz \<Rightarrow> addr \<Rightarrow> addr \<Rightarrow> ('c tkz \<Rightarrow> 'c tkz turn option) \<Rightarrow> 'c tkz turn option" where
  "end_tag_begin E t data fin k = do {
     bgn \<leftarrow> markup_ptr t;
     token_done_m lret E t fin (\<lambda>t. do {
       t \<leftarrow> with_token t (\<lambda>tok. tok\<lparr> t_begin := bgn, t_end := data, in_begin := tmp_incoming_node t,
              t_type := t_type tok OR LXB_HTML_TOKEN_TYPE_CLOSE \<rparr>);
       k t
     })
   }"

text \<open>The end tag name functions of rawtext, rcdata, script data and escaped script data
  are the same code; \<open>home\<close> is the state they go back to at \<open>anything_else\<close>.\<close>

definition end_tag_name :: "tkz_state \<Rightarrow> 'c env \<Rightarrow> 'c tkz \<Rightarrow> addr \<Rightarrow> addr \<Rightarrow> ('c tkz \<times> addr) option" where
  "end_tag_name home E t data fin =
     while_scan (mem E) (\<lambda>c t data.
       if is_ws c then do {
         same \<leftarrow> end_tag_matches E t data;
         if \<not> same then lret (t\<lparr> state := home \<rparr>) data
         else do {
           let t = t\<lparr> state := S_before_attribute_name \<rparr>;
           end_tag_begin E t data fin (\<lambda>t. lret t (data + 1))
         }
       }
       else if c = 0x2F then do {
         same \<leftarrow> end_tag_matches E t data;
         if \<not> same then lret (t\<lparr> state := home \<rparr>) data
         else do {
           let t = t\<lparr> state := S_self_closing_start_tag \<rparr>;
           end_tag_begin E t data fin (\<lambda>t. lret t (data + 1))
         }
       }
       else if c = 0x3E then do {
         same \<leftarrow> end_tag_matches E t data;
         if \<not> same then lret (t\<lparr> state := home \<rparr>) data
         else do {
           let t = t\<lparr> state := S_data_before \<rparr>;
           end_tag_begin E t data fin (\<lambda>t.
             token_done_m lret E t fin (\<lambda>t. lret t (data + 1)))
         }
       }
       else if \<not> is_alpha c then lret (t\<lparr> state := home \<rparr>) data
       else cont t) t data fin"

section \<open>RAWTEXT\<close>

definition lxb_html_tokenizer_state_rawtext_before :: "'c env \<Rightarrow> 'c tkz \<Rightarrow> addr \<Rightarrow> addr \<Rightarrow> ('c tkz \<times> addr) option" where
  "lxb_html_tokenizer_state_rawtext_before E t data fin = do {
     t \<leftarrow> (if \<not> is_eof t then token_set_begin t data else Some t);
     t \<leftarrow> with_token t (\<lambda>tok. tok\<lparr> tag_id := LXB_TAG__TEXT, t_type := LXB_HTML_TOKEN_TYPE_DATA \<rparr>);
     ret (t\<lparr> state := S_rawtext \<rparr>) data
   }"

definition lxb_html_tokenizer_state_rawtext :: "'c env \<Rightarrow> 'c tkz \<Rightarrow> addr \<Rightarrow> addr \<Rightarrow> ('c tkz \<times> addr) option" where
  "lxb_html_tokenizer_state_rawtext E t data fin = 
     while_scan (mem E) (\<lambda>c t data.
       if c = 0x3C then do {
         t \<leftarrow> token_set_end t data;
         lret (t\<lparr> state := S_rawtext_less_than_sign \<rparr>) (data + 1)
       }
       else if c = 0x00 then
         (if is_eof t then do {
            tok \<leftarrow> token t;
            t \<leftarrow> (if t_begin tok \<noteq> NULL then token_set_end_oef t else Some t);
            token_done_m lret E t fin (\<lambda>t. lret t fin)
          }
          else do {
            t \<leftarrow> token_or_type t LXB_HTML_TOKEN_TYPE_NULL;
            let t = lxb_html_tokenizer_error_add E t data LXB_HTML_TOKENIZER_ERROR_UNNUCH;
            cont t
          })
       else cont t) t data fin"

definition lxb_html_tokenizer_state_rawtext_less_than_sign :: "'c env \<Rightarrow> 'c tkz \<Rightarrow> addr \<Rightarrow> addr \<Rightarrow> ('c tkz \<times> addr) option" where
  "lxb_html_tokenizer_state_rawtext_less_than_sign E t data fin = do {
     c \<leftarrow> mem E data;
     if c = 0x2F then ret (t\<lparr> state := S_rawtext_end_tag_open \<rparr>) (data + 1)
     else ret (t\<lparr> state := S_rawtext \<rparr>) data
   }"

definition lxb_html_tokenizer_state_rawtext_end_tag_open :: "'c env \<Rightarrow> 'c tkz \<Rightarrow> addr \<Rightarrow> addr \<Rightarrow> ('c tkz \<times> addr) option" where
  "lxb_html_tokenizer_state_rawtext_end_tag_open E t data fin = do {
     c \<leftarrow> mem E data;
     if is_alpha c then
       ret (t\<lparr> markup := Mk_Ptr data, tmp_incoming_node := incoming_node t,
              state := S_rawtext_end_tag_name \<rparr>) (data + 1)
     else ret (t\<lparr> state := S_rawtext \<rparr>) data
   }"

definition lxb_html_tokenizer_state_rawtext_end_tag_name :: "'c env \<Rightarrow> 'c tkz \<Rightarrow> addr \<Rightarrow> addr \<Rightarrow> ('c tkz \<times> addr) option" where
  "lxb_html_tokenizer_state_rawtext_end_tag_name E t data fin = end_tag_name S_rawtext E t data fin"

section \<open>RCDATA\<close>

definition lxb_html_tokenizer_state_rcdata_before :: "'c env \<Rightarrow> 'c tkz \<Rightarrow> addr \<Rightarrow> addr \<Rightarrow> ('c tkz \<times> addr) option" where
  "lxb_html_tokenizer_state_rcdata_before E t data fin = do {
     t \<leftarrow> (if \<not> is_eof t then token_set_begin t data else Some t);
     t \<leftarrow> with_token t (\<lambda>tok. tok\<lparr> tag_id := LXB_TAG__TEXT, t_type := LXB_HTML_TOKEN_TYPE_RCDATA \<rparr>);
     ret (t\<lparr> state := S_rcdata \<rparr>) data
   }"

definition lxb_html_tokenizer_state_rcdata :: "'c env \<Rightarrow> 'c tkz \<Rightarrow> addr \<Rightarrow> addr \<Rightarrow> ('c tkz \<times> addr) option" where
  "lxb_html_tokenizer_state_rcdata E t data fin = 
     while_scan (mem E) (\<lambda>c t data.
       if c = 0x3C then do {
         t \<leftarrow> token_set_end t data;
         lret (t\<lparr> state := S_rcdata_less_than_sign \<rparr>) (data + 1)
       }
       else if c = 0x00 then
         (if is_eof t then do {
            tok \<leftarrow> token t;
            t \<leftarrow> (if t_begin tok \<noteq> NULL then token_set_end_oef t else Some t);
            token_done_m lret E t fin (\<lambda>t. lret t fin)
          }
          else do {
            t \<leftarrow> token_or_type t LXB_HTML_TOKEN_TYPE_NULL;
            let t = lxb_html_tokenizer_error_add E t data LXB_HTML_TOKENIZER_ERROR_UNNUCH;
            cont t
          })
       else cont t) t data fin"

definition lxb_html_tokenizer_state_rcdata_less_than_sign :: "'c env \<Rightarrow> 'c tkz \<Rightarrow> addr \<Rightarrow> addr \<Rightarrow> ('c tkz \<times> addr) option" where
  "lxb_html_tokenizer_state_rcdata_less_than_sign E t data fin = do {
     c \<leftarrow> mem E data;
     if c = 0x2F then ret (t\<lparr> state := S_rcdata_end_tag_open \<rparr>) (data + 1)
     else ret (t\<lparr> state := S_rcdata \<rparr>) data
   }"

definition lxb_html_tokenizer_state_rcdata_end_tag_open :: "'c env \<Rightarrow> 'c tkz \<Rightarrow> addr \<Rightarrow> addr \<Rightarrow> ('c tkz \<times> addr) option" where
  "lxb_html_tokenizer_state_rcdata_end_tag_open E t data fin = do {
     c \<leftarrow> mem E data;
     if is_alpha c then
       ret (t\<lparr> markup := Mk_Ptr data, tmp_incoming_node := incoming_node t,
              state := S_rcdata_end_tag_name \<rparr>) (data + 1)
     else ret (t\<lparr> state := S_rcdata \<rparr>) data
   }"

definition lxb_html_tokenizer_state_rcdata_end_tag_name :: "'c env \<Rightarrow> 'c tkz \<Rightarrow> addr \<Rightarrow> addr \<Rightarrow> ('c tkz \<times> addr) option" where
  "lxb_html_tokenizer_state_rcdata_end_tag_name E t data fin = end_tag_name S_rcdata E t data fin"

section \<open>The functions keep the contract\<close>

lemma end_tag_matches_wp:
  assumes "markup t = Mk_Ptr p" "saved_pos (in_nodes t) as d (tmp_incoming_node t) p"
    and "ctx_wf (mem E) (in_nodes t) (incoming_node t) False as fin d" "d < fin"
    and "\<And>b. P b"
  shows "wp (end_tag_matches E t d) P"
proof -
  obtain i where "lxb_html_in_tag_id (str_alloc E) (tag_id_by_name E) (mem E) (in_nodes t)
      (tmp_incoming_node t) p d = Some i"
    using ctx_wf_tag_id [OF assms(3,4,2)] by blast
  with assms show ?thesis by (simp add: end_tag_matches_def markup_ptr_def)
qed

context token_callback
begin

lemma end_tag_begin_wp [tkz_intro]:
  assumes "token t \<noteq> None" "\<exists>p. markup t = Mk_Ptr p"
    and "\<And>t' tok. keeps t t' \<Longrightarrow> markup t' = markup t \<Longrightarrow> tmp_incoming_node t' = tmp_incoming_node t \<Longrightarrow>
      status t' = status t \<Longrightarrow> demands_le (state t') (state t) \<Longrightarrow>
      token t' = Some tok \<Longrightarrow> markup t = Mk_Ptr (t_begin tok) \<Longrightarrow> wp (k t') P"
    and "\<And>t'. keeps t t' \<Longrightarrow> status t' \<noteq> LXB_STATUS_OK \<Longrightarrow> wp (lret t' fin) P"
  shows "wp (end_tag_begin E t d fin k) P"
proof -
  obtain p where p: "markup t = Mk_Ptr p" using assms(2) by blast
  have "wp (token_done_m lret E t fin (\<lambda>t. with_token t (\<lambda>tok. tok\<lparr> t_begin := p, t_end := d,
      in_begin := tmp_incoming_node t, t_type := t_type tok OR LXB_HTML_TOKEN_TYPE_CLOSE \<rparr>) \<bind> k)) P"
  proof (rule done_wp(1) [OF assms(1)], goal_cases)
    case (1 t' tok')
    then show ?case
      by (simp add: with_token_eq) (rule assms(3), auto simp: keeps_def p)
  next
    case (2 t')
    then show ?case by (rule assms(4))
  qed
  then show ?thesis
    by (simp add: end_tag_begin_def markup_ptr_def p)
qed

text \<open>The turns of the loop, for a state that goes back to the text state \<open>home\<close>.\<close>

lemma end_tag_name_ok:
  assumes "tkz_wf E as fin t d" "needs_ptr (state t)" "d < fin"
    and home: "\<not> needs_attr home" "\<not> needs_lit home" "\<not> needs_ptr home" "home \<noteq> S_after_attribute_name"
      "\<And>ne. srank ne home < srank ne (state t)" "needs_begin home"
    and st: "\<not> needs_attr (state t)" "\<not> needs_lit (state t)" "state t \<noteq> S_after_attribute_name" "needs_begin (state t)"
  shows "wp (end_tag_name home E t d fin) (step_post E as fin fin t d)"
  unfolding end_tag_name_def
proof (rule step_ptr_loop [OF assms(1-3)], goal_cases)
  case (1 t' x tok n)
  with home show ?case by (clarsimp simp: tkz_simp)
next
  case (2 t' x c tok n p)
  note matches = end_tag_matches_wp [OF 2(6,7,9,10)]
  from 2 home st assms(2) show ?case
    by (cases "is_ws c"; cases "c = 0x2F"; cases "c = 0x3E")
       (intro conjI impI matches tkz_intro | clarsimp simp: tkz_simp)+
qed

lemma rawtext_before_ok:
  assumes "tkz_wf E as fin t d" "state t = S_rawtext_before" "d < fin"
  shows "wp (lxb_html_tokenizer_state_rawtext_before E t d fin) (step_post E as fin fin t d)"
  unfolding lxb_html_tokenizer_state_rawtext_before_def
  by (rule step_plain [OF assms(1,3)]) (intro conjI impI tkz_intro | clarsimp simp: tkz_simp assms(2))+

lemma rawtext_ok:
  assumes "tkz_wf E as fin t d" "state t = S_rawtext" "d < fin"
  shows "wp (lxb_html_tokenizer_state_rawtext E t d fin) (step_post E as fin fin t d)"
  unfolding lxb_html_tokenizer_state_rawtext_def
  by (rule step_loop [OF assms(1,3)]) (intro conjI impI tkz_intro | clarsimp simp: tkz_simp assms(2))+

lemma rawtext_less_than_sign_ok:
  assumes "tkz_wf E as fin t d" "state t = S_rawtext_less_than_sign" "d < fin"
  shows "wp (lxb_html_tokenizer_state_rawtext_less_than_sign E t d fin) (step_post E as fin fin t d)"
  unfolding lxb_html_tokenizer_state_rawtext_less_than_sign_def
  by (rule step_plain [OF assms(1,3)]) (intro conjI impI tkz_intro | clarsimp simp: tkz_simp assms(2))+

lemma rawtext_end_tag_open_ok:
  assumes "tkz_wf E as fin t d" "state t = S_rawtext_end_tag_open" "d < fin"
  shows "wp (lxb_html_tokenizer_state_rawtext_end_tag_open E t d fin) (step_post E as fin fin t d)"
  unfolding lxb_html_tokenizer_state_rawtext_end_tag_open_def
  by (rule step_plain [OF assms(1,3)]) (intro conjI impI tkz_intro ctx_wf_save [of "mem E" _ _ "is_eof t" as fin d] | clarsimp simp: tkz_simp assms(2))+

lemma rawtext_end_tag_name_ok:
  assumes "tkz_wf E as fin t d" "state t = S_rawtext_end_tag_name" "d < fin"
  shows "wp (lxb_html_tokenizer_state_rawtext_end_tag_name E t d fin) (step_post E as fin fin t d)"
  unfolding lxb_html_tokenizer_state_rawtext_end_tag_name_def
  by (rule end_tag_name_ok [OF assms(1) _ assms(3)]) (simp_all add: assms(2))

lemma rcdata_before_ok:
  assumes "tkz_wf E as fin t d" "state t = S_rcdata_before" "d < fin"
  shows "wp (lxb_html_tokenizer_state_rcdata_before E t d fin) (step_post E as fin fin t d)"
  unfolding lxb_html_tokenizer_state_rcdata_before_def
  by (rule step_plain [OF assms(1,3)]) (intro conjI impI tkz_intro | clarsimp simp: tkz_simp assms(2))+

lemma rcdata_ok:
  assumes "tkz_wf E as fin t d" "state t = S_rcdata" "d < fin"
  shows "wp (lxb_html_tokenizer_state_rcdata E t d fin) (step_post E as fin fin t d)"
  unfolding lxb_html_tokenizer_state_rcdata_def
  by (rule step_loop [OF assms(1,3)]) (intro conjI impI tkz_intro | clarsimp simp: tkz_simp assms(2))+

lemma rcdata_less_than_sign_ok:
  assumes "tkz_wf E as fin t d" "state t = S_rcdata_less_than_sign" "d < fin"
  shows "wp (lxb_html_tokenizer_state_rcdata_less_than_sign E t d fin) (step_post E as fin fin t d)"
  unfolding lxb_html_tokenizer_state_rcdata_less_than_sign_def
  by (rule step_plain [OF assms(1,3)]) (intro conjI impI tkz_intro | clarsimp simp: tkz_simp assms(2))+

lemma rcdata_end_tag_open_ok:
  assumes "tkz_wf E as fin t d" "state t = S_rcdata_end_tag_open" "d < fin"
  shows "wp (lxb_html_tokenizer_state_rcdata_end_tag_open E t d fin) (step_post E as fin fin t d)"
  unfolding lxb_html_tokenizer_state_rcdata_end_tag_open_def
  by (rule step_plain [OF assms(1,3)]) (intro conjI impI tkz_intro ctx_wf_save [of "mem E" _ _ "is_eof t" as fin d] | clarsimp simp: tkz_simp assms(2))+

lemma rcdata_end_tag_name_ok:
  assumes "tkz_wf E as fin t d" "state t = S_rcdata_end_tag_name" "d < fin"
  shows "wp (lxb_html_tokenizer_state_rcdata_end_tag_name E t d fin) (step_post E as fin fin t d)"
  unfolding lxb_html_tokenizer_state_rcdata_end_tag_name_def
  by (rule end_tag_name_ok [OF assms(1) _ assms(3)]) (simp_all add: assms(2))

end

end
