(* ===== verification/Tkz_Script.thy ===== *)
theory Tkz_Script
  imports Tkz_Rawtext
begin

text \<open>
  The state functions of \<open>html/tokenizer/state_script.c\<close>: script data, script data in
  an HTML comment (``escaped''), and script elements inside such a comment (``double
  escaped'').
\<close>

section \<open>Functions\<close>

text \<open>The keyword \<open>"script"\<close>.\<close>

definition lit_script :: "lxb_char list" where
  "lit_script = [0x73, 0x63, 0x72, 0x69, 0x70, 0x74]"

lemma lit_script_length [simp]: "length lit_script = 6"
  by (simp add: lit_script_def)

text \<open>The end of the text in escaped script data, at top level and inside a loop.\<close>

definition script_escaped_eof :: "('c tkz \<Rightarrow> addr \<Rightarrow> 'r option) \<Rightarrow> 'c env \<Rightarrow> 'c tkz \<Rightarrow> addr \<Rightarrow> 'r option" where
  "script_escaped_eof rt E t fin = do {
     e \<leftarrow> incoming_end t;
     let t = lxb_html_tokenizer_error_add E t e LXB_HTML_TOKENIZER_ERROR_EOINSCHTCOLITE;
     t \<leftarrow> token_set_end_oef t;
     token_done_m rt E t fin (\<lambda>t. rt t fin)
   }"

text \<open>\<open>lxb_html_in_ncasecmp(tkz->tmp_incoming_node, tkz->markup, data, "script", 6)\<close>\<close>

definition markup_is_script :: "'c env \<Rightarrow> 'c tkz \<Rightarrow> addr \<Rightarrow> bool option" where
  "markup_is_script E t data = do {
     p \<leftarrow> markup_ptr t;
     lxb_html_in_ncasecmp (mem E) (in_nodes t) (tmp_incoming_node t) p data lit_script 6
   }"

definition lxb_html_tokenizer_state_script_data_before :: "'c env \<Rightarrow> 'c tkz \<Rightarrow> addr \<Rightarrow> addr \<Rightarrow> ('c tkz \<times> addr) option" where
  "lxb_html_tokenizer_state_script_data_before E t data fin = do {
     t \<leftarrow> (if \<not> is_eof t then token_set_begin t data else Some t);
     t \<leftarrow> with_token t (\<lambda>tok. tok\<lparr> tag_id := LXB_TAG__TEXT, t_type := LXB_HTML_TOKEN_TYPE_DATA \<rparr>);
     ret (t\<lparr> state := S_script_data \<rparr>) data
   }"

definition lxb_html_tokenizer_state_script_data :: "'c env \<Rightarrow> 'c tkz \<Rightarrow> addr \<Rightarrow> addr \<Rightarrow> ('c tkz \<times> addr) option" where
  "lxb_html_tokenizer_state_script_data E t data fin = 
     while_scan (mem E) (\<lambda>c t data.
       if c = 0x3C then do {
         t \<leftarrow> token_set_end t data;
         lret (t\<lparr> state := S_script_data_less_than_sign \<rparr>) (data + 1)
       }
       else if c = 0x00 then
         (if is_eof t then do {
            tok \<leftarrow> token t;
            t \<leftarrow> (if t_begin tok \<noteq> NULL then token_set_end_oef t else Some t);
            token_done_m lret E t fin (\<lambda>t. lret t fin)
          }
          else do {
            t \<leftarrow> token_or_type t LXB_HTML_TOKEN_TYPE_NULL;
            let t = lxb_html_tokenizer_error_add E t data LXB_HTML_TOKENIZER_ERROR_UNNUCH;
            cont t
          })
       else cont t) t data fin"

definition lxb_html_tokenizer_state_script_data_less_than_sign :: "'c env \<Rightarrow> 'c tkz \<Rightarrow> addr \<Rightarrow> addr \<Rightarrow> ('c tkz \<times> addr) option" where
  "lxb_html_tokenizer_state_script_data_less_than_sign E t data fin = do {
     c \<leftarrow> mem E data;
     if c = 0x2F then ret (t\<lparr> state := S_script_data_end_tag_open \<rparr>) (data + 1)
     else if c = 0x21 then ret (t\<lparr> state := S_script_data_escape_start \<rparr>) (data + 1)
     else ret (t\<lparr> state := S_script_data \<rparr>) data
   }"

definition lxb_html_tokenizer_state_script_data_end_tag_open :: "'c env \<Rightarrow> 'c tkz \<Rightarrow> addr \<Rightarrow> addr \<Rightarrow> ('c tkz \<times> addr) option" where
  "lxb_html_tokenizer_state_script_data_end_tag_open E t data fin = do {
     c \<leftarrow> mem E data;
     if is_alpha c then
       ret (t\<lparr> markup := Mk_Ptr data, tmp_incoming_node := incoming_node t,
              state := S_script_data_end_tag_name \<rparr>) (data + 1)
     else ret (t\<lparr> state := S_script_data \<rparr>) data
   }"

definition lxb_html_tokenizer_state_script_data_end_tag_name :: "'c env \<Rightarrow> 'c tkz \<Rightarrow> addr \<Rightarrow> addr \<Rightarrow> ('c tkz \<times> addr) option" where
  "lxb_html_tokenizer_state_script_data_end_tag_name E t data fin = end_tag_name S_script_data E t data fin"

definition lxb_html_tokenizer_state_script_data_escape_start :: "'c env \<Rightarrow> 'c tkz \<Rightarrow> addr \<Rightarrow> addr \<Rightarrow> ('c tkz \<times> addr) option" where
  "lxb_html_tokenizer_state_script_data_escape_start E t data fin = do {
     c \<leftarrow> mem E data;
     if c = 0x2D then ret (t\<lparr> state := S_script_data_escape_start_dash \<rparr>) (data + 1)
     else ret (t\<lparr> state := S_script_data \<rparr>) data
   }"

definition lxb_html_tokenizer_state_script_data_escape_start_dash :: "'c env \<Rightarrow> 'c tkz \<Rightarrow> addr \<Rightarrow> addr \<Rightarrow> ('c tkz \<times> addr) option" where
  "lxb_html_tokenizer_state_script_data_escape_start_dash E t data fin = do {
     c \<leftarrow> mem E data;
     if c = 0x2D then ret (t\<lparr> state := S_script_data_escaped_dash_dash \<rparr>) (data + 1)
     else ret (t\<lparr> state := S_script_data \<rparr>) data
   }"

definition lxb_html_tokenizer_state_script_data_escaped :: "'c env \<Rightarrow> 'c tkz \<Rightarrow> addr \<Rightarrow> addr \<Rightarrow> ('c tkz \<times> addr) option" where
  "lxb_html_tokenizer_state_script_data_escaped E t data fin = 
     while_scan (mem E) (\<lambda>c t data.
       if c = 0x2D then lret (t\<lparr> state := S_script_data_escaped_dash \<rparr>) (data + 1)
       else if c = 0x3C then do {
         t \<leftarrow> token_set_end t data;
         lret (t\<lparr> state := S_script_data_escaped_less_than_sign \<rparr>) (data + 1)
       }
       else if c = 0x00 then
         (if is_eof t then script_escaped_eof lret E t fin
          else do {
            t \<leftarrow> token_or_type t LXB_HTML_TOKEN_TYPE_NULL;
            let t = lxb_html_tokenizer_error_add E t data LXB_HTML_TOKENIZER_ERROR_UNNUCH;
            cont t
          })
       else cont t) t data fin"

definition lxb_html_tokenizer_state_script_data_escaped_dash :: "'c env \<Rightarrow> 'c tkz \<Rightarrow> addr \<Rightarrow> addr \<Rightarrow> ('c tkz \<times> addr) option" where
  "lxb_html_tokenizer_state_script_data_escaped_dash E t data fin = do {
     c \<leftarrow> mem E data;
     if c = 0x2D then ret (t\<lparr> state := S_script_data_escaped_dash_dash \<rparr>) (data + 1)
     else if c = 0x3C then do {
       t \<leftarrow> token_set_end t data;
       ret (t\<lparr> state := S_script_data_escaped_less_than_sign \<rparr>) (data + 1)
     }
     else if c = 0x00 then
       (if is_eof t then script_escaped_eof ret E t fin
        else do {
          let t = lxb_html_tokenizer_error_add E t data LXB_HTML_TOKENIZER_ERROR_UNNUCH;
          t \<leftarrow> token_or_type t LXB_HTML_TOKEN_TYPE_NULL;
          ret (t\<lparr> state := S_script_data_escaped \<rparr>) (data + 1)
        })
     else ret (t\<lparr> state := S_script_data_escaped \<rparr>) (data + 1)
   }"

definition lxb_html_tokenizer_state_script_data_escaped_dash_dash :: "'c env \<Rightarrow> 'c tkz \<Rightarrow> addr \<Rightarrow> addr \<Rightarrow> ('c tkz \<times> addr) option" where
  "lxb_html_tokenizer_state_script_data_escaped_dash_dash E t data fin = do {
     c \<leftarrow> mem E data;
     if c = 0x2D then ret t (data + 1)
     else if c = 0x3C then do {
       t \<leftarrow> token_set_end t data;
       ret (t\<lparr> state := S_script_data_escaped_less_than_sign \<rparr>) (data + 1)
     }
     else if c = 0x3E then ret (t\<lparr> state := S_script_data \<rparr>) (data + 1)
     else if c = 0x00 then
       (if is_eof t then script_escaped_eof ret E t fin
        else do {
          let t = lxb_html_tokenizer_error_add E t data LXB_HTML_TOKENIZER_ERROR_UNNUCH;
          t \<leftarrow> token_or_type t LXB_HTML_TOKEN_TYPE_NULL;
          ret (t\<lparr> state := S_script_data_escaped \<rparr>) (data + 1)
        })
     else ret (t\<lparr> state := S_script_data_escaped \<rparr>) (data + 1)
   }"

definition lxb_html_tokenizer_state_script_data_escaped_less_than_sign :: "'c env \<Rightarrow> 'c tkz \<Rightarrow> addr \<Rightarrow> addr \<Rightarrow> ('c tkz \<times> addr) option" where
  "lxb_html_tokenizer_state_script_data_escaped_less_than_sign E t data fin = do {
     c \<leftarrow> mem E data;
     if c = 0x2F then ret (t\<lparr> state := S_script_data_escaped_end_tag_open \<rparr>) (data + 1)
     else if is_alpha c then
       ret (t\<lparr> markup := Mk_Ptr data, tmp_incoming_node := incoming_node t,
              state := S_script_data_double_escape_start \<rparr>) data
     else ret (t\<lparr> state := S_script_data_escaped \<rparr>) data
   }"

definition lxb_html_tokenizer_state_script_data_escaped_end_tag_open :: "'c env \<Rightarrow> 'c tkz \<Rightarrow> addr \<Rightarrow> addr \<Rightarrow> ('c tkz \<times> addr) option" where
  "lxb_html_tokenizer_state_script_data_escaped_end_tag_open E t data fin = do {
     c \<leftarrow> mem E data;
     if is_alpha c then
       ret (t\<lparr> markup := Mk_Ptr data, tmp_incoming_node := incoming_node t,
              state := S_script_data_escaped_end_tag_name \<rparr>) data
     else ret (t\<lparr> state := S_script_data_escaped \<rparr>) data
   }"

definition lxb_html_tokenizer_state_script_data_escaped_end_tag_name :: "'c env \<Rightarrow> 'c tkz \<Rightarrow> addr \<Rightarrow> addr \<Rightarrow> ('c tkz \<times> addr) option" where
  "lxb_html_tokenizer_state_script_data_escaped_end_tag_name E t data fin = end_tag_name S_script_data_escaped E t data fin"

definition lxb_html_tokenizer_state_script_data_double_escape_start :: "'c env \<Rightarrow> 'c tkz \<Rightarrow> addr \<Rightarrow> addr \<Rightarrow> ('c tkz \<times> addr) option" where
  "lxb_html_tokenizer_state_script_data_double_escape_start E t data fin = 
     while_scan (mem E) (\<lambda>c t data.
       if is_ws c \<or> c = 0x2F \<or> c = 0x3E then do {
         is_cmp \<leftarrow> markup_is_script E t data;
         if is_cmp then lret (t\<lparr> state := S_script_data_double_escaped \<rparr>) (data + 1)
         else lret (t\<lparr> state := S_script_data_escaped \<rparr>) (data + 1)
       }
       else if \<not> is_alpha c then lret (t\<lparr> state := S_script_data_escaped \<rparr>) data
       else cont t) t data fin"

definition lxb_html_tokenizer_state_script_data_double_escaped :: "'c env \<Rightarrow> 'c tkz \<Rightarrow> addr \<Rightarrow> addr \<Rightarrow> ('c tkz \<times> addr) option" where
  "lxb_html_tokenizer_state_script_data_double_escaped E t data fin = 
     while_scan (mem E) (\<lambda>c t data.
       if c = 0x2D then lret (t\<lparr> state := S_script_data_double_escaped_dash \<rparr>) (data + 1)
       else if c = 0x3C then lret (t\<lparr> state := S_script_data_double_escaped_less_than_sign \<rparr>) (data + 1)
       else if c = 0x00 then
         (if is_eof t then script_escaped_eof lret E t fin
          else do {
            t \<leftarrow> token_or_type t LXB_HTML_TOKEN_TYPE_NULL;
            let t = lxb_html_tokenizer_error_add E t data LXB_HTML_TOKENIZER_ERROR_UNNUCH;
            cont t
          })
       else cont t) t data fin"

definition lxb_html_tokenizer_state_script_data_double_escaped_dash :: "'c env \<Rightarrow> 'c tkz \<Rightarrow> addr \<Rightarrow> addr \<Rightarrow> ('c tkz \<times> addr) option" where
  "lxb_html_tokenizer_state_script_data_double_escaped_dash E t data fin = do {
     c \<leftarrow> mem E data;
     if c = 0x2D then ret (t\<lparr> state := S_script_data_double_escaped_dash_dash \<rparr>) (data + 1)
     else if c = 0x3C then ret (t\<lparr> state := S_script_data_double_escaped_less_than_sign \<rparr>) (data + 1)
     else if c = 0x00 then
       (if is_eof t then script_escaped_eof ret E t fin
        else do {
          let t = lxb_html_tokenizer_error_add E t data LXB_HTML_TOKENIZER_ERROR_UNNUCH;
          t \<leftarrow> token_or_type t LXB_HTML_TOKEN_TYPE_NULL;
          ret (t\<lparr> state := S_script_data_double_escaped \<rparr>) (data + 1)
        })
     else ret (t\<lparr> state := S_script_data_double_escaped \<rparr>) (data + 1)
   }"

definition lxb_html_tokenizer_state_script_data_double_escaped_dash_dash :: "'c env \<Rightarrow> 'c tkz \<Rightarrow> addr \<Rightarrow> addr \<Rightarrow> ('c tkz \<times> addr) option" where
  "lxb_html_tokenizer_state_script_data_double_escaped_dash_dash E t data fin = do {
     c \<leftarrow> mem E data;
     if c = 0x2D then ret t (data + 1)
     else if c = 0x3C then ret (t\<lparr> state := S_script_data_double_escaped_less_than_sign \<rparr>) (data + 1)
     else if c = 0x3E then ret (t\<lparr> state := S_script_data \<rparr>) (data + 1)
     else if c = 0x00 then
       (if is_eof t then script_escaped_eof ret E t fin
        else do {
          let t = lxb_html_tokenizer_error_add E t data LXB_HTML_TOKENIZER_ERROR_UNNUCH;
          t \<leftarrow> token_or_type t LXB_HTML_TOKEN_TYPE_NULL;
          ret (t\<lparr> state := S_script_data_double_escaped \<rparr>) (data + 1)
        })
     else ret (t\<lparr> state := S_script_data_double_escaped \<rparr>) (data + 1)
   }"

definition lxb_html_tokenizer_state_script_data_double_escaped_less_than_sign :: "'c env \<Rightarrow> 'c tkz \<Rightarrow> addr \<Rightarrow> addr \<Rightarrow> ('c tkz \<times> addr) option" where
  "lxb_html_tokenizer_state_script_data_double_escaped_less_than_sign E t data fin = do {
     c \<leftarrow> mem E data;
     if c = 0x2F then ret (t\<lparr> state := S_script_data_double_escaped_end_tag_open \<rparr>) (data + 1)
     else ret (t\<lparr> state := S_script_data_double_escaped \<rparr>) data
   }"

definition lxb_html_tokenizer_state_script_data_double_escaped_end_tag_open :: "'c env \<Rightarrow> 'c tkz \<Rightarrow> addr \<Rightarrow> addr \<Rightarrow> ('c tkz \<times> addr) option" where
  "lxb_html_tokenizer_state_script_data_double_escaped_end_tag_open E t data fin = do {
     c \<leftarrow> mem E data;
     if is_alpha c then
       ret (t\<lparr> markup := Mk_Ptr data, tmp_incoming_node := incoming_node t,
              state := S_script_data_double_escape_end \<rparr>) data
     else ret (t\<lparr> state := S_script_data_double_escaped \<rparr>) data
   }"

definition lxb_html_tokenizer_state_script_data_double_escape_end :: "'c env \<Rightarrow> 'c tkz \<Rightarrow> addr \<Rightarrow> addr \<Rightarrow> ('c tkz \<times> addr) option" where
  "lxb_html_tokenizer_state_script_data_double_escape_end E t data fin = 
     while_scan (mem E) (\<lambda>c t data.
       if is_ws c \<or> c = 0x2F \<or> c = 0x3E then do {
         is_cmp \<leftarrow> markup_is_script E t data;
         if is_cmp then lret (t\<lparr> state := S_script_data_escaped \<rparr>) (data + 1)
         else lret (t\<lparr> state := S_script_data_double_escaped \<rparr>) (data + 1)
       }
       else if \<not> is_alpha c then lret (t\<lparr> state := S_script_data_double_escaped \<rparr>) data
       else cont t) t data fin"

section \<open>The functions keep the contract\<close>

lemma markup_is_script_wp:
  assumes "markup t = Mk_Ptr p" "saved_pos (in_nodes t) as d (tmp_incoming_node t) p"
    and "ctx_wf (mem E) (in_nodes t) (incoming_node t) False as fin d" "d < fin"
    and "\<And>b. P b"
  shows "wp (markup_is_script E t d) P"
proof -
  obtain b where "lxb_html_in_ncasecmp (mem E) (in_nodes t) (tmp_incoming_node t) p d lit_script 6 = Some b"
    using ctx_wf_ncasecmp [OF assms(3,4,2), of 6 lit_script] by auto
  with assms show ?thesis by (simp add: markup_is_script_def markup_ptr_def)
qed

context token_callback
begin

lemma script_data_before_ok:
  assumes "tkz_wf E as fin t d" "state t = S_script_data_before" "d < fin"
  shows "wp (lxb_html_tokenizer_state_script_data_before E t d fin) (step_post E as fin fin t d)"
  unfolding lxb_html_tokenizer_state_script_data_before_def
  by (rule step_plain [OF assms(1,3)]) (intro conjI impI tkz_intro | clarsimp simp: tkz_simp assms(2))+

lemma script_data_less_than_sign_ok:
  assumes "tkz_wf E as fin t d" "state t = S_script_data_less_than_sign" "d < fin"
  shows "wp (lxb_html_tokenizer_state_script_data_less_than_sign E t d fin) (step_post E as fin fin t d)"
  unfolding lxb_html_tokenizer_state_script_data_less_than_sign_def
  by (rule step_plain [OF assms(1,3)]) (intro conjI impI tkz_intro | clarsimp simp: tkz_simp assms(2))+

lemma script_data_escape_start_ok:
  assumes "tkz_wf E as fin t d" "state t = S_script_data_escape_start" "d < fin"
  shows "wp (lxb_html_tokenizer_state_script_data_escape_start E t d fin) (step_post E as fin fin t d)"
  unfolding lxb_html_tokenizer_state_script_data_escape_start_def
  by (rule step_plain [OF assms(1,3)]) (intro conjI impI tkz_intro | clarsimp simp: tkz_simp assms(2))+

lemma script_data_escape_start_dash_ok:
  assumes "tkz_wf E as fin t d" "state t = S_script_data_escape_start_dash" "d < fin"
  shows "wp (lxb_html_tokenizer_state_script_data_escape_start_dash E t d fin) (step_post E as fin fin t d)"
  unfolding lxb_html_tokenizer_state_script_data_escape_start_dash_def
  by (rule step_plain [OF assms(1,3)]) (intro conjI impI tkz_intro | clarsimp simp: tkz_simp assms(2))+

lemma script_data_double_escaped_less_than_sign_ok:
  assumes "tkz_wf E as fin t d" "state t = S_script_data_double_escaped_less_than_sign" "d < fin"
  shows "wp (lxb_html_tokenizer_state_script_data_double_escaped_less_than_sign E t d fin) (step_post E as fin fin t d)"
  unfolding lxb_html_tokenizer_state_script_data_double_escaped_less_than_sign_def
  by (rule step_plain [OF assms(1,3)]) (intro conjI impI tkz_intro | clarsimp simp: tkz_simp assms(2))+

lemma script_data_ok:
  assumes "tkz_wf E as fin t d" "state t = S_script_data" "d < fin"
  shows "wp (lxb_html_tokenizer_state_script_data E t d fin) (step_post E as fin fin t d)"
  unfolding lxb_html_tokenizer_state_script_data_def
  by (rule step_loop [OF assms(1,3)]) (intro conjI impI tkz_intro | clarsimp simp: tkz_simp assms(2))+

lemma script_data_escaped_ok:
  assumes "tkz_wf E as fin t d" "state t = S_script_data_escaped" "d < fin"
  shows "wp (lxb_html_tokenizer_state_script_data_escaped E t d fin) (step_post E as fin fin t d)"
  unfolding lxb_html_tokenizer_state_script_data_escaped_def
  by (rule step_loop [OF assms(1,3)]) (intro conjI impI tkz_intro | clarsimp simp: tkz_simp script_escaped_eof_def assms(2))+

lemma script_data_double_escaped_ok:
  assumes "tkz_wf E as fin t d" "state t = S_script_data_double_escaped" "d < fin"
  shows "wp (lxb_html_tokenizer_state_script_data_double_escaped E t d fin) (step_post E as fin fin t d)"
  unfolding lxb_html_tokenizer_state_script_data_double_escaped_def
  by (rule step_loop [OF assms(1,3)]) (intro conjI impI tkz_intro | clarsimp simp: tkz_simp script_escaped_eof_def assms(2))+

lemma script_data_escaped_dash_ok:
  assumes "tkz_wf E as fin t d" "state t = S_script_data_escaped_dash" "d < fin"
  shows "wp (lxb_html_tokenizer_state_script_data_escaped_dash E t d fin) (step_post E as fin fin t d)"
  unfolding lxb_html_tokenizer_state_script_data_escaped_dash_def
  by (rule step_plain [OF assms(1,3)]) (intro conjI impI tkz_intro | clarsimp simp: tkz_simp script_escaped_eof_def assms(2))+

lemma script_data_escaped_dash_dash_ok:
  assumes "tkz_wf E as fin t d" "state t = S_script_data_escaped_dash_dash" "d < fin"
  shows "wp (lxb_html_tokenizer_state_script_data_escaped_dash_dash E t d fin) (step_post E as fin fin t d)"
  unfolding lxb_html_tokenizer_state_script_data_escaped_dash_dash_def
  by (rule step_plain [OF assms(1,3)]) (intro conjI impI tkz_intro | clarsimp simp: tkz_simp script_escaped_eof_def assms(2))+

lemma script_data_double_escaped_dash_ok:
  assumes "tkz_wf E as fin t d" "state t = S_script_data_double_escaped_dash" "d < fin"
  shows "wp (lxb_html_tokenizer_state_script_data_double_escaped_dash E t d fin) (step_post E as fin fin t d)"
  unfolding lxb_html_tokenizer_state_script_data_double_escaped_dash_def
  by (rule step_plain [OF assms(1,3)]) (intro conjI impI tkz_intro | clarsimp simp: tkz_simp script_escaped_eof_def assms(2))+

lemma script_data_double_escaped_dash_dash_ok:
  assumes "tkz_wf E as fin t d" "state t = S_script_data_double_escaped_dash_dash" "d < fin"
  shows "wp (lxb_html_tokenizer_state_script_data_double_escaped_dash_dash E t d fin) (step_post E as fin fin t d)"
  unfolding lxb_html_tokenizer_state_script_data_double_escaped_dash_dash_def
  by (rule step_plain [OF assms(1,3)]) (intro conjI impI tkz_intro | clarsimp simp: tkz_simp script_escaped_eof_def assms(2))+

lemma script_data_end_tag_open_ok:
  assumes "tkz_wf E as fin t d" "state t = S_script_data_end_tag_open" "d < fin"
  shows "wp (lxb_html_tokenizer_state_script_data_end_tag_open E t d fin) (step_post E as fin fin t d)"
  unfolding lxb_html_tokenizer_state_script_data_end_tag_open_def
  by (rule step_plain [OF assms(1,3)]) (intro conjI impI tkz_intro ctx_wf_save [of "mem E" _ _ "is_eof t" as fin d] | clarsimp simp: tkz_simp assms(2))+

lemma script_data_escaped_less_than_sign_ok:
  assumes "tkz_wf E as fin t d" "state t = S_script_data_escaped_less_than_sign" "d < fin"
  shows "wp (lxb_html_tokenizer_state_script_data_escaped_less_than_sign E t d fin) (step_post E as fin fin t d)"
  unfolding lxb_html_tokenizer_state_script_data_escaped_less_than_sign_def
  by (rule step_plain [OF assms(1,3)]) (intro conjI impI tkz_intro ctx_wf_save [of "mem E" _ _ "is_eof t" as fin d] | clarsimp simp: tkz_simp assms(2))+

lemma script_data_escaped_end_tag_open_ok:
  assumes "tkz_wf E as fin t d" "state t = S_script_data_escaped_end_tag_open" "d < fin"
  shows "wp (lxb_html_tokenizer_state_script_data_escaped_end_tag_open E t d fin) (step_post E as fin fin t d)"
  unfolding lxb_html_tokenizer_state_script_data_escaped_end_tag_open_def
  by (rule step_plain [OF assms(1,3)]) (intro conjI impI tkz_intro ctx_wf_save [of "mem E" _ _ "is_eof t" as fin d] | clarsimp simp: tkz_simp assms(2))+

lemma script_data_double_escaped_end_tag_open_ok:
  assumes "tkz_wf E as fin t d" "state t = S_script_data_double_escaped_end_tag_open" "d < fin"
  shows "wp (lxb_html_tokenizer_state_script_data_double_escaped_end_tag_open E t d fin) (step_post E as fin fin t d)"
  unfolding lxb_html_tokenizer_state_script_data_double_escaped_end_tag_open_def
  by (rule step_plain [OF assms(1,3)]) (intro conjI impI tkz_intro ctx_wf_save [of "mem E" _ _ "is_eof t" as fin d] | clarsimp simp: tkz_simp assms(2))+

lemma script_data_end_tag_name_ok:
  assumes "tkz_wf E as fin t d" "state t = S_script_data_end_tag_name" "d < fin"
  shows "wp (lxb_html_tokenizer_state_script_data_end_tag_name E t d fin) (step_post E as fin fin t d)"
  unfolding lxb_html_tokenizer_state_script_data_end_tag_name_def
  by (rule end_tag_name_ok [OF assms(1) _ assms(3)]) (simp_all add: assms(2))

lemma script_data_escaped_end_tag_name_ok:
  assumes "tkz_wf E as fin t d" "state t = S_script_data_escaped_end_tag_name" "d < fin"
  shows "wp (lxb_html_tokenizer_state_script_data_escaped_end_tag_name E t d fin) (step_post E as fin fin t d)"
  unfolding lxb_html_tokenizer_state_script_data_escaped_end_tag_name_def
  by (rule end_tag_name_ok [OF assms(1) _ assms(3)]) (simp_all add: assms(2))

lemma script_data_double_escape_start_ok:
  assumes "tkz_wf E as fin t d" "state t = S_script_data_double_escape_start" "d < fin"
  shows "wp (lxb_html_tokenizer_state_script_data_double_escape_start E t d fin) (step_post E as fin fin t d)"
  unfolding lxb_html_tokenizer_state_script_data_double_escape_start_def
proof (rule step_ptr_loop [OF assms(1) _ assms(3)], goal_cases)
  case 1
  show ?case by (simp add: assms(2))
next
  case (2 t' x tok n)
  with assms(2) show ?case by (clarsimp simp: tkz_simp)
next
  case (3 t' x c tok n p)
  note is_script = markup_is_script_wp [OF 3(6,7,9,10)]
  from 3 assms(2) show ?case
    by (cases "is_ws c \<or> c = 0x2F \<or> c = 0x3E")
       (intro conjI impI is_script | clarsimp simp: tkz_simp)+
qed

lemma script_data_double_escape_end_ok:
  assumes "tkz_wf E as fin t d" "state t = S_script_data_double_escape_end" "d < fin"
  shows "wp (lxb_html_tokenizer_state_script_data_double_escape_end E t d fin) (step_post E as fin fin t d)"
  unfolding lxb_html_tokenizer_state_script_data_double_escape_end_def
proof (rule step_ptr_loop [OF assms(1) _ assms(3)], goal_cases)
  case 1
  show ?case by (simp add: assms(2))
next
  case (2 t' x tok n)
  with assms(2) show ?case by (clarsimp simp: tkz_simp)
next
  case (3 t' x c tok n p)
  note is_script = markup_is_script_wp [OF 3(6,7,9,10)]
  from 3 assms(2) show ?case
    by (cases "is_ws c \<or> c = 0x2F \<or> c = 0x3E")
       (intro conjI impI is_script | clarsimp simp: tkz_simp)+
qed

end

end
