(* ===== verification/Tkz_Run.thy ===== *)
theory Tkz_Run
  imports Tkz_Comment Tkz_Doctype Tkz_Script
begin

text \<open>
  The driver of the tokenizer (\<open>html/tokenizer.c\<close>): it calls the current state function
  until the chunk is consumed, and at the end of the document sends a fake NUL byte
  with \<open>is_eof\<close> set.  The loops are partial functions, so that a call that never
  consumes its buffer is undefined; the theorems show that this does not happen.
\<close>

section \<open>Calling the state function\<close>

text \<open>\<open>tkz->state(tkz, data, end)\<close>\<close>

fun state_call :: "tkz_state \<Rightarrow> 'c env \<Rightarrow> 'c tkz \<Rightarrow> addr \<Rightarrow> addr \<Rightarrow> ('c tkz \<times> addr) option" where
  "state_call S_data_before = lxb_html_tokenizer_state_data_before"
| "state_call S_data = lxb_html_tokenizer_state_data"
| "state_call S_plaintext_before = lxb_html_tokenizer_state_plaintext_before"
| "state_call S_plaintext = lxb_html_tokenizer_state_plaintext"
| "state_call S_tag_open = lxb_html_tokenizer_state_tag_open"
| "state_call S_end_tag_open = lxb_html_tokenizer_state_end_tag_open"
| "state_call S_tag_name = lxb_html_tokenizer_state_tag_name"
| "state_call S_before_attribute_name = lxb_html_tokenizer_state_before_attribute_name"
| "state_call S_attribute_name = lxb_html_tokenizer_state_attribute_name"
| "state_call S_after_attribute_name = lxb_html_tokenizer_state_after_attribute_name"
| "state_call S_before_attribute_value = lxb_html_tokenizer_state_before_attribute_value"
| "state_call S_attribute_value_double_quoted = lxb_html_tokenizer_state_attribute_value_double_quoted"
| "state_call S_attribute_value_single_quoted = lxb_html_tokenizer_state_attribute_value_single_quoted"
| "state_call S_attribute_value_unquoted = lxb_html_tokenizer_state_attribute_value_unquoted"
| "state_call S_after_attribute_value_quoted = lxb_html_tokenizer_state_after_attribute_value_quoted"
| "state_call S_self_closing_start_tag = lxb_html_tokenizer_state_self_closing_start_tag"
| "state_call S_bogus_comment_before = lxb_html_tokenizer_state_bogus_comment_before"
| "state_call S_bogus_comment = lxb_html_tokenizer_state_bogus_comment"
| "state_call S_markup_declaration_open = lxb_html_tokenizer_state_markup_declaration_open"
| "state_call S_markup_declaration_comment = lxb_html_tokenizer_state_markup_declaration_comment"
| "state_call S_markup_declaration_doctype = lxb_html_tokenizer_state_markup_declaration_doctype"
| "state_call S_markup_declaration_cdata = lxb_html_tokenizer_state_markup_declaration_cdata"
| "state_call S_cdata_section_before = lxb_html_tokenizer_state_cdata_section_before"
| "state_call S_cdata_section = lxb_html_tokenizer_state_cdata_section"
| "state_call S_cdata_section_bracket = lxb_html_tokenizer_state_cdata_section_bracket"
| "state_call S_cdata_section_end = lxb_html_tokenizer_state_cdata_section_end"
| "state_call S_comment_before_start = lxb_html_tokenizer_state_comment_before_start"
| "state_call S_comment_start_dash = lxb_html_tokenizer_state_comment_start_dash"
| "state_call S_comment = lxb_html_tokenizer_state_comment"
| "state_call S_comment_less_than_sign = lxb_html_tokenizer_state_comment_less_than_sign"
| "state_call S_comment_less_than_sign_bang = lxb_html_tokenizer_state_comment_less_than_sign_bang"
| "state_call S_comment_less_than_sign_bang_dash = lxb_html_tokenizer_state_comment_less_than_sign_bang_dash"
| "state_call S_comment_less_than_sign_bang_dash_dash = lxb_html_tokenizer_state_comment_less_than_sign_bang_dash_dash"
| "state_call S_comment_end_dash = lxb_html_tokenizer_state_comment_end_dash"
| "state_call S_comment_end = lxb_html_tokenizer_state_comment_end"
| "state_call S_comment_end_bang = lxb_html_tokenizer_state_comment_end_bang"
| "state_call S_doctype_before = lxb_html_tokenizer_state_doctype_before"
| "state_call S_doctype_before_name = lxb_html_tokenizer_state_doctype_before_name"
| "state_call S_doctype_name = lxb_html_tokenizer_state_doctype_name"
| "state_call S_doctype_after_name = lxb_html_tokenizer_state_doctype_after_name"
| "state_call S_doctype_after_name_public = lxb_html_tokenizer_state_doctype_after_name_public"
| "state_call S_doctype_after_name_system = lxb_html_tokenizer_state_doctype_after_name_system"
| "state_call S_doctype_after_public_keyword = lxb_html_tokenizer_state_doctype_after_public_keyword"
| "state_call S_doctype_before_public_identifier = lxb_html_tokenizer_state_doctype_before_public_identifier"
| "state_call S_doctype_public_identifier_double_quoted = lxb_html_tokenizer_state_doctype_public_identifier_double_quoted"
| "state_call S_doctype_public_identifier_single_quoted = lxb_html_tokenizer_state_doctype_public_identifier_single_quoted"
| "state_call S_doctype_after_public_identifier = lxb_html_tokenizer_state_doctype_after_public_identifier"
| "state_call S_doctype_between_public_and_system_identifiers = lxb_html_tokenizer_state_doctype_between_public_and_system_identifiers"
| "state_call S_doctype_after_system_keyword = lxb_html_tokenizer_state_doctype_after_system_keyword"
| "state_call S_doctype_before_system_identifier = lxb_html_tokenizer_state_doctype_before_system_identifier"
| "state_call S_doctype_system_identifier_double_quoted = lxb_html_tokenizer_state_doctype_system_identifier_double_quoted"
| "state_call S_doctype_system_identifier_single_quoted = lxb_html_tokenizer_state_doctype_system_identifier_single_quoted"
| "state_call S_doctype_after_system_identifier = lxb_html_tokenizer_state_doctype_after_system_identifier"
| "state_call S_doctype_bogus = lxb_html_tokenizer_state_doctype_bogus"
| "state_call S_rawtext_before = lxb_html_tokenizer_state_rawtext_before"
| "state_call S_rawtext = lxb_html_tokenizer_state_rawtext"
| "state_call S_rawtext_less_than_sign = lxb_html_tokenizer_state_rawtext_less_than_sign"
| "state_call S_rawtext_end_tag_open = lxb_html_tokenizer_state_rawtext_end_tag_open"
| "state_call S_rawtext_end_tag_name = lxb_html_tokenizer_state_rawtext_end_tag_name"
| "state_call S_rcdata_before = lxb_html_tokenizer_state_rcdata_before"
| "state_call S_rcdata = lxb_html_tokenizer_state_rcdata"
| "state_call S_rcdata_less_than_sign = lxb_html_tokenizer_state_rcdata_less_than_sign"
| "state_call S_rcdata_end_tag_open = lxb_html_tokenizer_state_rcdata_end_tag_open"
| "state_call S_rcdata_end_tag_name = lxb_html_tokenizer_state_rcdata_end_tag_name"
| "state_call S_script_data_before = lxb_html_tokenizer_state_script_data_before"
| "state_call S_script_data = lxb_html_tokenizer_state_script_data"
| "state_call S_script_data_less_than_sign = lxb_html_tokenizer_state_script_data_less_than_sign"
| "state_call S_script_data_end_tag_open = lxb_html_tokenizer_state_script_data_end_tag_open"
| "state_call S_script_data_end_tag_name = lxb_html_tokenizer_state_script_data_end_tag_name"
| "state_call S_script_data_escape_start = lxb_html_tokenizer_state_script_data_escape_start"
| "state_call S_script_data_escape_start_dash = lxb_html_tokenizer_state_script_data_escape_start_dash"
| "state_call S_script_data_escaped = lxb_html_tokenizer_state_script_data_escaped"
| "state_call S_script_data_escaped_dash = lxb_html_tokenizer_state_script_data_escaped_dash"
| "state_call S_script_data_escaped_dash_dash = lxb_html_tokenizer_state_script_data_escaped_dash_dash"
| "state_call S_script_data_escaped_less_than_sign = lxb_html_tokenizer_state_script_data_escaped_less_than_sign"
| "state_call S_script_data_escaped_end_tag_open = lxb_html_tokenizer_state_script_data_escaped_end_tag_open"
| "state_call S_script_data_escaped_end_tag_name = lxb_html_tokenizer_state_script_data_escaped_end_tag_name"
| "state_call S_script_data_double_escape_start = lxb_html_tokenizer_state_script_data_double_escape_start"
| "state_call S_script_data_double_escaped = lxb_html_tokenizer_state_script_data_double_escaped"
| "state_call S_script_data_double_escaped_dash = lxb_html_tokenizer_state_script_data_double_escaped_dash"
| "state_call S_script_data_double_escaped_dash_dash = lxb_html_tokenizer_state_script_data_double_escaped_dash_dash"
| "state_call S_script_data_double_escaped_less_than_sign = lxb_html_tokenizer_state_script_data_double_escaped_less_than_sign"
| "state_call S_script_data_double_escaped_end_tag_open = lxb_html_tokenizer_state_script_data_double_escaped_end_tag_open"
| "state_call S_script_data_double_escape_end = lxb_html_tokenizer_state_script_data_double_escape_end"

text \<open>\<open>while (data < end) { data = tkz->state(tkz, data, end); }\<close>\<close>

partial_function (option) run_loop :: "'c env \<Rightarrow> 'c tkz \<Rightarrow> addr \<Rightarrow> addr \<Rightarrow> 'c tkz option" where
  "run_loop E t data fin =
    (if data < fin then do {
       (t, data) \<leftarrow> state_call (state t) E t data fin;
       run_loop E t data fin
     }
     else Some t)"

section \<open>Processing a chunk\<close>

text \<open>The code at the label \<open>reuse\<close>, for a state function that has moved
  \<open>tkz->incoming_node\<close> back (as a callback into the CSS parser does): all buffers from
  there on are run again.\<close>

partial_function (option) reuse_loop :: "'c env \<Rightarrow> 'c tkz \<Rightarrow> addr option \<Rightarrow> addr \<Rightarrow> 'c tkz option" where
  "reuse_loop E t in_node data = do {
     n \<leftarrow> in_deref (in_nodes t) in_node;
     t \<leftarrow> run_loop E t data (n_end n);
     if in_node \<noteq> incoming_node t then do {
       m \<leftarrow> in_deref (in_nodes t) (incoming_node t);
       reuse_loop E t (incoming_node t) (n_use m)
     }
     else do {
       h \<leftarrow> in_update (in_nodes t) in_node (\<lambda>n. n\<lparr> n_use := n_end n \<rparr>);
       let t = t\<lparr> in_nodes := h \<rparr>;
       n \<leftarrow> in_deref h in_node;
       (case n_next n of
          None \<Rightarrow> Some t
        | Some b \<Rightarrow> do {
            let t = t\<lparr> incoming_node := Some b \<rparr>;
            nb \<leftarrow> h b;
            reuse_loop E t (Some b) (n_begin nb)
          })
     }
   }"

definition lxb_html_tokenizer_chunk_process :: "'c env \<Rightarrow> 'c tkz \<Rightarrow> addr \<Rightarrow> nat \<Rightarrow> ('c tkz \<times> lxb_status) option" where
  "lxb_html_tokenizer_chunk_process E t data sz = do {
     let fin = data + sz;
     let t = t\<lparr> is_eof := False, status := LXB_STATUS_OK \<rparr>;
     t \<leftarrow> run_loop E t data fin;
     n \<leftarrow> in_deref (in_nodes t) (incoming_node t);
     t \<leftarrow> (if n_next n \<noteq> None then reuse_loop E t (incoming_node t) (n_use n) else Some t);
     h \<leftarrow> in_update (in_nodes t) (incoming_node t) (\<lambda>n. n\<lparr> n_use := fin \<rparr>);
     let t = t\<lparr> in_nodes := h \<rparr>;
     Some (t, status t)
   }"

section \<open>The end of the document\<close>

text \<open>\<open>while (tkz->state(tkz, data, end) < end) {}\<close> on the fake end of the text.\<close>

partial_function (option) eof_loop :: "'c env \<Rightarrow> 'c tkz \<Rightarrow> 'c tkz option" where
  "eof_loop E t = do {
     (t, d) \<leftarrow> state_call (state t) E t (tokenizer_eof E) (tokenizer_eof E + 1);
     if d < tokenizer_eof E + 1 then eof_loop E t else Some t
   }"

partial_function (option) end_loop :: "'c env \<Rightarrow> 'c tkz \<Rightarrow> 'c tkz option" where
  "end_loop E t = do {
     let t = t\<lparr> is_eof := True \<rparr>;
     t \<leftarrow> eof_loop E t;
     if reuse t then do {
       let t = t\<lparr> is_eof := False \<rparr>;
       n \<leftarrow> in_deref (in_nodes t) (incoming_node t);
       t \<leftarrow> reuse_loop E t (incoming_node t) (n_use n);
       let t = t\<lparr> reuse := False \<rparr>;
       end_loop E t
     }
     else Some t
   }"

definition lxb_html_tokenizer_end :: "'c env \<Rightarrow> 'c tkz \<Rightarrow> ('c tkz \<times> lxb_status) option" where
  "lxb_html_tokenizer_end E t = do {
     let t = t\<lparr> reuse := False, status := LXB_STATUS_OK \<rparr>;
     t \<leftarrow> end_loop E t;
     let t = t\<lparr> is_eof := False \<rparr>;
     if status t \<noteq> LXB_STATUS_OK then Some (t, status t)
     else do {
       t \<leftarrow> with_token t lxb_html_token_clean;
       t \<leftarrow> with_token t (\<lambda>tok. tok\<lparr> tag_id := LXB_TAG__END_OF_FILE \<rparr>);
       tok \<leftarrow> token t;
       let (t, r) = callback_token_done E t tok;
       let t = t\<lparr> token := r \<rparr>;
       let t = (if r = None \<and> status t = LXB_STATUS_OK then t\<lparr> status := LXB_STATUS_ERROR \<rparr> else t);
       Some (t, status t)
     }
   }"

declare run_loop.simps [code] reuse_loop.simps [code] eof_loop.simps [code] end_loop.simps [code]

section \<open>One step\<close>

text \<open>The two state functions that may return the position behind the end.\<close>

definition step_bound :: "tkz_state \<Rightarrow> addr \<Rightarrow> addr" where
  "step_bound s fin =
     (if s = S_doctype_after_name_public \<or> s = S_doctype_after_name_system then Suc fin else fin)"

lemma srank_le: "srank ne s \<le> 4"
  by (cases "(ne, s)" rule: srank.cases) auto

context token_callback
begin

lemmas state_ok =
  data_before_ok data_ok plaintext_before_ok plaintext_ok tag_open_ok end_tag_open_ok tag_name_ok
  before_attribute_name_ok attribute_name_ok after_attribute_name_ok before_attribute_value_ok
  attribute_value_double_quoted_ok attribute_value_single_quoted_ok attribute_value_unquoted_ok
  after_attribute_value_quoted_ok self_closing_start_tag_ok bogus_comment_before_ok bogus_comment_ok
  markup_declaration_open_ok markup_declaration_comment_ok markup_declaration_doctype_ok
  markup_declaration_cdata_ok cdata_section_before_ok cdata_section_ok cdata_section_bracket_ok
  cdata_section_end_ok comment_before_start_ok comment_start_dash_ok comment_ok
  comment_less_than_sign_ok comment_less_than_sign_bang_ok comment_less_than_sign_bang_dash_ok
  comment_less_than_sign_bang_dash_dash_ok comment_end_dash_ok comment_end_ok comment_end_bang_ok
  doctype_before_ok doctype_before_name_ok doctype_name_ok doctype_after_name_ok
  doctype_after_name_public_ok doctype_after_name_system_ok doctype_after_public_keyword_ok
  doctype_before_public_identifier_ok doctype_public_identifier_double_quoted_ok
  doctype_public_identifier_single_quoted_ok doctype_after_public_identifier_ok
  doctype_between_public_and_system_identifiers_ok doctype_after_system_keyword_ok
  doctype_before_system_identifier_ok doctype_system_identifier_double_quoted_ok
  doctype_system_identifier_single_quoted_ok doctype_after_system_identifier_ok doctype_bogus_ok
  rawtext_before_ok rawtext_ok rawtext_less_than_sign_ok rawtext_end_tag_open_ok
  rawtext_end_tag_name_ok rcdata_before_ok rcdata_ok rcdata_less_than_sign_ok rcdata_end_tag_open_ok
  rcdata_end_tag_name_ok script_data_before_ok script_data_ok script_data_less_than_sign_ok
  script_data_end_tag_open_ok script_data_end_tag_name_ok script_data_escape_start_ok
  script_data_escape_start_dash_ok script_data_escaped_ok script_data_escaped_dash_ok
  script_data_escaped_dash_dash_ok script_data_escaped_less_than_sign_ok
  script_data_escaped_end_tag_open_ok script_data_escaped_end_tag_name_ok
  script_data_double_escape_start_ok script_data_double_escaped_ok
  script_data_double_escaped_dash_ok script_data_double_escaped_dash_dash_ok
  script_data_double_escaped_less_than_sign_ok script_data_double_escaped_end_tag_open_ok
  script_data_double_escape_end_ok

lemma state_call_ok:
  assumes "tkz_wf E as fin t d" "d < fin"
  shows "wp (state_call (state t) E t d fin) (step_post E as fin (step_bound (state t) fin) t d)"
  using assms
  by (cases "state t" rule: state_call.cases)
     (simp add: step_bound_def state_ok)+

text \<open>The driver loop ends: every call consumes a byte or lowers the rank.\<close>

lemma run_loop_ok:
  assumes "tkz_wf E as fin t d"
  shows "\<exists>t'. run_loop E t d fin = Some t' \<and> keeps t t' \<and>
    (status t' = LXB_STATUS_OK \<longrightarrow> (\<exists>d'. fin \<le> d' \<and> tkz_wf E as fin t' d'))"
  using assms
proof (induction "5 * (fin - d) + srank (name_ends (mem E d) (is_eof t)) (state t)"
    arbitrary: t d rule: less_induct)
  case less
  show ?case
  proof (cases "d < fin")
    case False
    then show ?thesis
      using less.prems by (subst run_loop.simps) (auto simp: keeps_def not_less)
  next
    case True
    obtain t1 d1 where call: "state_call (state t) E t d fin = Some (t1, d1)"
      and post: "step_post E as fin (step_bound (state t) fin) t d (t1, d1)"
      using state_call_ok [OF less.prems True] by (auto simp: wp_iff)
    then have eq: "run_loop E t d fin = run_loop E t1 d1 fin"
      using True by (subst run_loop.simps) simp
    have keeps: "keeps t t1" using post by (simp add: step_post_def)
    show ?thesis
    proof (cases "status t1 = LXB_STATUS_OK")
      case True
      then have wf1: "tkz_wf E as fin t1 d1" and le: "d \<le> d1" and
        rank: "d1 = d \<longrightarrow> srank (name_ends (mem E d) (is_eof t)) (state t1)
          < srank (name_ends (mem E d) (is_eof t)) (state t)"
        using post by (auto simp: step_post_def)
      have "5 * (fin - d1) + srank (name_ends (mem E d1) (is_eof t1)) (state t1)
          < 5 * (fin - d) + srank (name_ends (mem E d) (is_eof t)) (state t)"
        using rank le keeps \<open>d < fin\<close> srank_le [of "name_ends (mem E d1) (is_eof t1)" "state t1"]
        by (cases "d1 = d") (auto simp: keeps_def)
      from less.hyps [OF this wf1] keeps show ?thesis
        by (auto simp: eq keeps_def)
    next
      case False
      then have "d1 = fin" using post by (simp add: step_post_def)
      then have "run_loop E t1 d1 fin = Some t1" by (subst run_loop.simps) simp
      with False keeps show ?thesis by (simp add: eq)
    qed
  qed
qed

text \<open>The loop on the fake end of the text ends as well.\<close>

lemma eof_loop_ok:
  assumes "tkz_wf E as (tokenizer_eof E + 1) t (tokenizer_eof E)" and "is_eof t"
  shows "\<exists>t'. eof_loop E t = Some t' \<and> keeps t t' \<and>
    (status t' = LXB_STATUS_OK \<longrightarrow> token t' \<noteq> None)"
  using assms
proof (induction "srank (name_ends (mem E (tokenizer_eof E)) True) (state t)" arbitrary: t rule: less_induct)
  case less
  let ?d = "tokenizer_eof E" and ?fin = "tokenizer_eof E + 1"
  obtain t1 d1 where call: "state_call (state t) E t ?d ?fin = Some (t1, d1)"
    and post: "step_post E as ?fin (step_bound (state t) ?fin) t ?d (t1, d1)"
    using state_call_ok [OF less.prems(1)] by (auto simp: wp_iff)
  have keeps: "keeps t t1" using post by (simp add: step_post_def)
  show ?case
  proof (cases "d1 < ?fin")
    case False
    then have "eof_loop E t = Some t1" using call by (subst eof_loop.simps) simp
    moreover have "token t1 \<noteq> None" if "status t1 = LXB_STATUS_OK"
      using post that by (auto simp: step_post_def tkz_wf_def)
    ultimately show ?thesis using keeps by blast
  next
    case True
    then have ok: "status t1 = LXB_STATUS_OK" and d1: "d1 = ?d"
      using post by (auto simp: step_post_def split: if_splits)
    then have wf1: "tkz_wf E as ?fin t1 ?d" and
      rank: "srank (name_ends (mem E ?d) (is_eof t)) (state t1) < srank (name_ends (mem E ?d) (is_eof t)) (state t)"
      using post by (auto simp: step_post_def)
    have eof1: "is_eof t1" using keeps less.prems(2) by (simp add: keeps_def)
    have "eof_loop E t = eof_loop E t1"
      using call True by (subst eof_loop.simps) simp
    with less.hyps [of t1] rank wf1 eof1 keeps less.prems(2) show ?thesis
      by (auto simp: keeps_def)
  qed
qed

end

end
