(* ===== verification/Tkz_Life.thy ===== *)
theory Tkz_Life
  imports Tkz_Chunk
begin

text \<open>
  The memory of the chunks.  \<open>tkz_idle\<close> is the invariant of a tokenizer between two calls:
  its buffers form a doubly linked chain over readable, disjoint memory, the blocks it
  has allocated are exactly those of its buffers, and what the current state needs is
  there.  The lemmas follow \<open>lxb_html_tokenizer_chunk\<close>: appending a buffer, processing it,
  and dropping the buffers in front of the current token.
\<close>

section \<open>Chains that end in a dropped node\<close>

text \<open>As \<^const>\<open>in_chain\<close>, but the first node of the text has \<open>bt\<close> as its predecessor.\<close>

fun in_seg :: "in_heap \<Rightarrow> addr option \<Rightarrow> addr option \<Rightarrow> addr list \<Rightarrow> addr option \<Rightarrow> bool" where
  "in_seg h p nx [] bt \<longleftrightarrow> p = bt"
| "in_seg h p nx (a # as) bt \<longleftrightarrow> p = Some a \<and>
    (\<exists>n. h a = Some n \<and> n_begin n \<le> n_end n \<and> n_next n = nx \<and> in_seg h (n_prev n) (Some a) as bt)"

lemma in_chain_seg: "in_chain h p nx as = in_seg h p nx as None"
  by (induction as arbitrary: p nx) (auto split: option.splits)

lemma in_seg_snoc:
  "in_seg h p nx (as @ [a]) bt \<longleftrightarrow> in_seg h p nx as (Some a) \<and>
     (\<exists>n. h a = Some n \<and> n_begin n \<le> n_end n \<and> n_next n = (if as = [] then nx else Some (last as)) \<and> n_prev n = bt)"
  by (induction as arbitrary: p nx) auto

lemma in_seg_cong: "(\<And>a. a \<in> set as \<Longrightarrow> h' a = h a) \<Longrightarrow> in_seg h' p nx as bt = in_seg h p nx as bt"
  by (induction as arbitrary: p nx) auto

lemma in_seg_upd [simp]: "b \<notin> set as \<Longrightarrow> in_seg (h(b := k)) p nx as bt = in_seg h p nx as bt"
  by (rule in_seg_cong) auto

lemma in_seg_node: "in_seg h p nx as bt \<Longrightarrow> a \<in> set as \<Longrightarrow> \<exists>n. h a = Some n \<and> n_begin n \<le> n_end n"
  by (induction as arbitrary: p nx) auto

section \<open>What a heap says of a node\<close>

definition node_view :: "in_heap \<Rightarrow> addr \<Rightarrow> (addr \<times> addr \<times> nat) option" where
  "node_view h a = map_option (\<lambda>n. (n_begin n, n_end n, n_opt n)) (h a)"

text \<open>The byte at \<open>x\<close> belongs to the buffer of \<open>a\<close>.\<close>

definition node_byte :: "in_heap \<Rightarrow> addr \<Rightarrow> addr \<Rightarrow> bool" where
  "node_byte h a x \<longleftrightarrow> (case node_view h a of None \<Rightarrow> False | Some (b, e, _) \<Rightarrow> b \<le> x \<and> x < e)"

text \<open>The block that belongs to the buffer of \<open>a\<close>, with its size.\<close>

definition node_block :: "in_heap \<Rightarrow> addr \<Rightarrow> (addr \<times> nat) option" where
  "node_block h a = (case node_view h a of None \<Rightarrow> None
     | Some (b, e, i) \<Rightarrow> if i AND LEXBOR_IN_OPT_ALLOC \<noteq> 0 then Some (b, e - b) else None)"

text \<open>The buffers can be read and no two of them share a byte.\<close>

definition bufs_wf :: "bytemem \<Rightarrow> in_heap \<Rightarrow> addr list \<Rightarrow> bool" where
  "bufs_wf m h as \<longleftrightarrow>
     (\<forall>a x. a \<in> set as \<and> node_byte h a x \<longrightarrow> m x \<noteq> None) \<and>
     (\<forall>a b x. a \<in> set as \<and> b \<in> set as \<and> a \<noteq> b \<and> node_byte h a x \<longrightarrow> \<not> node_byte h b x)"

text \<open>The blocks are those of the buffers, each of which has its own.\<close>

definition owns :: "in_heap \<Rightarrow> addr list \<Rightarrow> (addr \<rightharpoonup> nat) \<Rightarrow> bool" where
  "owns h as bl \<longleftrightarrow>
     (\<forall>p k. bl p = Some k \<longleftrightarrow> (\<exists>a \<in> set as. node_block h a = Some (p, k))) \<and>
     (\<forall>a b p k k'. a \<in> set as \<and> b \<in> set as \<and> node_block h a = Some (p, k) \<and> node_block h b = Some (p, k') \<longrightarrow> a = b) \<and>
     (\<forall>a k. a \<in> set as \<longrightarrow> node_block h a \<noteq> Some (NULL, k))"

lemma node_view_Some: "h a = Some n \<Longrightarrow> node_view h a = Some (n_begin n, n_end n, n_opt n)"
  by (simp add: node_view_def)

lemma node_byte_iff: "node_byte h a x \<longleftrightarrow> (\<exists>n. h a = Some n \<and> n_begin n \<le> x \<and> x < n_end n)"
  by (auto simp: node_byte_def node_view_def split: option.splits)

lemma in_wf_bufs: "in_wf m h cur as \<longleftrightarrow> as \<noteq> [] \<and> in_chain h cur None as \<and> bufs_wf m h as"
  unfolding in_wf_def bufs_wf_def node_byte_iff mapped_def by blast

lemma bg_in_view: "bg_in h as b \<longleftrightarrow> (\<exists>a x e i. a \<in> set as \<and> node_view h a = Some (x, e, i) \<and> x \<le> b \<and> b \<le> e)"
  by (auto simp: bg_in_def node_view_def lexbor_in_segment_def)

section \<open>Dropping buffers\<close>

lemma owns_drop:
  assumes "owns h (as @ [a]) bl" "a \<notin> set as" "h a = Some n"
  shows "n_opt n AND LEXBOR_IN_OPT_ALLOC \<noteq> 0 \<Longrightarrow>
      n_begin n \<noteq> NULL \<and> bl (n_begin n) = Some (n_end n - n_begin n) \<and> owns (h(a := None)) as (bl(n_begin n := None))"
    and "n_opt n AND LEXBOR_IN_OPT_ALLOC = 0 \<Longrightarrow> owns (h(a := None)) as bl"
proof -
  have same: "node_block (h(a := None)) b = node_block h b" if "b \<in> set as" for b
    using that assms(2) by (auto simp: node_block_def node_view_def)
  show "n_begin n \<noteq> NULL \<and> bl (n_begin n) = Some (n_end n - n_begin n) \<and> owns (h(a := None)) as (bl(n_begin n := None))"
    if "n_opt n AND LEXBOR_IN_OPT_ALLOC \<noteq> 0"
  proof -
    have a: "node_block h a = Some (n_begin n, n_end n - n_begin n)"
      using that assms(3) by (simp add: node_block_def node_view_Some)
    have bl: "bl p = Some k \<longleftrightarrow> node_block h a = Some (p, k) \<or> (\<exists>b \<in> set as. node_block h b = Some (p, k))" for p k
      using assms(1) by (auto simp: owns_def)
    have neq: "node_block h b \<noteq> Some (n_begin n, k)" if "b \<in> set as" for b k
      using that a assms(1,2) unfolding owns_def by (metis UnCI list.set_intros(1) set_append)
    have "(bl(n_begin n := None)) p = Some k \<longleftrightarrow> (\<exists>b \<in> set as. node_block (h(a := None)) b = Some (p, k))" for p k
      using bl [of p k] a same neq by auto
    moreover have "n_begin n \<noteq> NULL"
      using assms(1) a unfolding owns_def by (metis in_set_conv_decomp)
    moreover have "bl (n_begin n) = Some (n_end n - n_begin n)"
      using bl a by blast
    moreover have "b = c" if "b \<in> set as" "c \<in> set as" "node_block (h(a := None)) b = Some (p, k)"
        "node_block (h(a := None)) c = Some (p, k')" for b c p k k'
      using that same assms(1) unfolding owns_def by (metis UnCI set_append)
    moreover have "node_block (h(a := None)) b \<noteq> Some (NULL, k)" if "b \<in> set as" for b k
      using that same assms(1) unfolding owns_def by (metis UnCI set_append)
    ultimately show ?thesis
      unfolding owns_def by blast
  qed
  show "owns (h(a := None)) as bl" if "n_opt n AND LEXBOR_IN_OPT_ALLOC = 0"
  proof -
    have "node_block h a = None"
      using that assms(3) by (simp add: node_block_def node_view_Some)
    with assms(1) same show ?thesis unfolding owns_def by auto
  qed
qed

text \<open>The environments before and after differ in the memory and the blocks only.\<close>

definition env_keeps :: "'c env \<Rightarrow> 'c env \<Rightarrow> bool" where
  "env_keeps E E' \<longleftrightarrow> E' = E\<lparr> mem := mem E', blocks := blocks E' \<rparr>"

lemma env_keeps_refl [simp]: "env_keeps E E"
  by (simp add: env_keeps_def)

lemma env_keeps_trans: "env_keeps E E' \<Longrightarrow> env_keeps E' E'' \<Longrightarrow> env_keeps E E''"
  unfolding env_keeps_def by (cases E; cases E'; cases E'') simp

lemma env_keeps_fields:
  "env_keeps E E' \<Longrightarrow> tokenizer_eof E' = tokenizer_eof E"
  "env_keeps E E' \<Longrightarrow> callback_token_done E' = callback_token_done E"
  unfolding env_keeps_def by (cases E; cases E'; simp)+

lemma drop_first:
  assumes "in_seg (in_nodes t) p nx (as @ [a]) bt" "incoming_first t = Some a" "distinct (as @ [a])"
    and "owns (in_nodes t) (as @ [a]) (blocks E)"
  obtains E' where
    "incoming_drop_first E t = Some (E', t\<lparr> in_nodes := (in_nodes t)(a := None),
       incoming_first := (if as = [] then nx else Some (last as)) \<rparr>)"
    "owns ((in_nodes t)(a := None)) as (blocks E')" "env_keeps E E'"
    "\<And>x. \<not> node_byte (in_nodes t) a x \<or> node_block (in_nodes t) a = None \<Longrightarrow> mem E' x = mem E x"
proof -
  obtain n where n: "in_nodes t a = Some n" "n_begin n \<le> n_end n" "n_next n = (if as = [] then nx else Some (last as))"
    using assms(1) by (auto simp: in_seg_snoc)
  note own = owns_drop [OF assms(4) _ n(1)]
  show ?thesis
  proof (cases "n_opt n AND LEXBOR_IN_OPT_ALLOC = 0")
    case True
    then show ?thesis
      using that [of E] own(2) n assms(2,3)
      by (simp add: incoming_drop_first_def lexbor_in_node_destroy_def)
  next
    case False
    then show ?thesis
      using own(1) n assms(2,3)
      by (intro that [of "E\<lparr> mem := \<lambda>x. if n_begin n \<le> x \<and> x < n_end n then None else mem E x,
            blocks := (blocks E)(n_begin n := None) \<rparr>"])
         (auto simp: incoming_drop_first_def lexbor_in_node_destroy_def lexbor_free_def node_byte_iff
            env_keeps_def node_block_def node_view_def)
  qed
qed

lemma seg_drop:
  assumes "in_seg h p nx (as @ [a]) bt" "distinct (as @ [a])"
  shows "in_seg (h(a := None)) p nx as (Some a)"
  using assms by (subst in_seg_cong [of _ _ h]) (auto simp: in_seg_snoc)

text \<open>Erasing all buffers: every block is freed, once.\<close>

lemma erase_incoming_ok:
  assumes "in_seg (in_nodes t) p None as bt" "distinct as" "owns (in_nodes t) as (blocks E)"
    and "incoming_first t = (if as = [] then None else Some (last as))"
  shows "\<exists>E' t'. lxb_html_tokenizer_erase_incoming E t = Some (E', t') \<and> env_keeps E E' \<and>
    blocks E' = Map.empty \<and>
    t' = t\<lparr> in_nodes := in_nodes t |` (- set as), incoming_first := None \<rparr>"
  using assms
proof (induction as arbitrary: E t bt rule: rev_induct)
  case Nil
  then have "blocks E = Map.empty" by (auto simp: owns_def)
  moreover have "t = t\<lparr> in_nodes := in_nodes t |` (- set []), incoming_first := None \<rparr>"
    using Nil.prems(4) by (simp add: restrict_map_def)
  moreover have "lxb_html_tokenizer_erase_incoming E t = Some (E, t)"
    using Nil.prems(4) by (subst lxb_html_tokenizer_erase_incoming.simps) simp
  ultimately show ?case by (metis env_keeps_refl)
next
  case (snoc a as)
  let ?t = "t\<lparr> in_nodes := (in_nodes t)(a := None), incoming_first := (if as = [] then None else Some (last as)) \<rparr>"
  from snoc.prems obtain E1 where E1: "incoming_drop_first E t = Some (E1, ?t)"
    "owns ((in_nodes t)(a := None)) as (blocks E1)" "env_keeps E E1"
    by (auto elim: drop_first)
  have "\<exists>E' t'. lxb_html_tokenizer_erase_incoming E1 ?t = Some (E', t') \<and> env_keeps E1 E' \<and>
      blocks E' = Map.empty \<and> t' = ?t\<lparr> in_nodes := in_nodes ?t |` (- set as), incoming_first := None \<rparr>"
    by (rule snoc.IH [of _ "Some a"])
       (use snoc.prems E1 seg_drop [OF snoc.prems(1,2)] in \<open>simp_all add: fun_upd_def\<close>)
  moreover have "(in_nodes t)(a := None) |` (- set as) = in_nodes t |` (- set (as @ [a]))"
    by (auto simp: restrict_map_def)
  moreover have "lxb_html_tokenizer_erase_incoming E t = lxb_html_tokenizer_erase_incoming E1 ?t"
    using snoc.prems(4) E1 by (subst lxb_html_tokenizer_erase_incoming.simps) simp
  ultimately show ?case
    using E1(3) env_keeps_trans by fastforce
qed

text \<open>Dropping the buffers in front of a position: the rest is untouched.\<close>

lemma drop_before_ok:
  assumes "in_seg (in_nodes t) p None as bt" "distinct as" "owns (in_nodes t) as (blocks E)"
    and "incoming_first t = (if as = [] then None else Some (last as))"
    and "bg_in (in_nodes t) as b"
  shows "\<exists>E' h ks ds. as = ks @ ds \<and> ks \<noteq> [] \<and>
    drop_before E t b = Some (E', t\<lparr> in_nodes := h, incoming_first := Some (last ks) \<rparr>) \<and>
    h = in_nodes t |` (- set ds) \<and> (\<exists>bt'. in_seg h p None ks bt') \<and>
    bg_in h [last ks] b \<and> \<not> bg_in (in_nodes t) ds b \<and>
    owns h ks (blocks E') \<and> env_keeps E E' \<and>
    (\<forall>x. (\<forall>a \<in> set ds. node_byte (in_nodes t) a x \<longrightarrow> node_block (in_nodes t) a = None) \<longrightarrow> mem E' x = mem E x)"
  using assms
proof (induction as arbitrary: E t bt rule: rev_induct)
  case Nil
  then show ?case by (simp add: bg_in_def)
next
  case (snoc a as)
  obtain n where n: "in_nodes t a = Some n" and first: "incoming_first t = Some a"
    using snoc.prems(1,4) by (auto simp: in_seg_snoc)
  show ?case
  proof (cases "lexbor_in_segment n b")
    case True
    then have "drop_before E t b = Some (E, t)"
      using n first by (subst drop_before.simps) simp
    moreover have "t = t\<lparr> in_nodes := in_nodes t |` (- set []), incoming_first := Some (last (as @ [a])) \<rparr>"
      using first by (simp add: restrict_map_def)
    moreover have "bg_in (in_nodes t) [last (as @ [a])] b"
      using True n by (simp add: bg_in_def)
    moreover have "in_nodes t = in_nodes t |` (- set [])"
      by (simp add: restrict_map_def)
    ultimately show ?thesis
      using snoc.prems(1,3)
      by (intro exI [of _ E] exI [of _ "in_nodes t"] exI [of _ "as @ [a]"] exI [of _ "[]"])
         (auto simp: bg_in_def)
  next
    case False
    let ?t = "t\<lparr> in_nodes := (in_nodes t)(a := None), incoming_first := (if as = [] then None else Some (last as)) \<rparr>"
    from snoc.prems obtain E1 where E1: "incoming_drop_first E t = Some (E1, ?t)"
      "owns ((in_nodes t)(a := None)) as (blocks E1)" "env_keeps E E1"
      "\<And>x. \<not> node_byte (in_nodes t) a x \<or> node_block (in_nodes t) a = None \<Longrightarrow> mem E1 x = mem E x"
      by (auto elim: drop_first)
    have bg: "bg_in ((in_nodes t)(a := None)) as b"
      using snoc.prems(2,5) False n by (auto simp: bg_in_def)
    have step: "drop_before E t b = drop_before E1 ?t b"
      using first n E1(1) False by (subst drop_before.simps) simp
    have "\<exists>E' h ks ds. as = ks @ ds \<and> ks \<noteq> [] \<and>
        drop_before E1 ?t b = Some (E', ?t\<lparr> in_nodes := h, incoming_first := Some (last ks) \<rparr>) \<and>
        h = in_nodes ?t |` (- set ds) \<and> (\<exists>bt'. in_seg h p None ks bt') \<and>
        bg_in h [last ks] b \<and> \<not> bg_in (in_nodes ?t) ds b \<and> owns h ks (blocks E') \<and> env_keeps E1 E' \<and>
        (\<forall>x. (\<forall>a \<in> set ds. node_byte (in_nodes ?t) a x \<longrightarrow> node_block (in_nodes ?t) a = None) \<longrightarrow> mem E' x = mem E1 x)"
      by (rule snoc.IH [of _ "Some a"])
         (use snoc.prems E1 bg seg_drop [OF snoc.prems(1,2)] in \<open>simp_all add: fun_upd_def\<close>)
    then obtain E' h ks ds where *: "as = ks @ ds" "ks \<noteq> []"
      "drop_before E1 ?t b = Some (E', ?t\<lparr> in_nodes := h, incoming_first := Some (last ks) \<rparr>)"
      "h = in_nodes ?t |` (- set ds)" "\<exists>bt'. in_seg h p None ks bt'"
      "bg_in h [last ks] b" "\<not> bg_in (in_nodes ?t) ds b" "owns h ks (blocks E')" "env_keeps E1 E'"
      "\<And>x. (\<forall>a \<in> set ds. node_byte (in_nodes ?t) a x \<longrightarrow> node_block (in_nodes ?t) a = None) \<Longrightarrow> mem E' x = mem E1 x"
      by blast
    have a: "a \<notin> set ds" using *(1) snoc.prems(2) by auto
    have same: "node_byte (in_nodes ?t) c = node_byte (in_nodes t) c"
      "node_block (in_nodes ?t) c = node_block (in_nodes t) c" if "c \<in> set ds" for c
      using that a by (auto simp: fun_eq_iff node_byte_def node_block_def node_view_def)
    have "mem E' x = mem E x"
      if "\<forall>c \<in> set (ds @ [a]). node_byte (in_nodes t) c x \<longrightarrow> node_block (in_nodes t) c = None" for x
      using that same E1(4) [of x] *(10) [of x] by auto
    moreover have "h = in_nodes t |` (- set (ds @ [a]))"
      using *(4) by (auto simp: restrict_map_def)
    moreover have "\<not> bg_in (in_nodes t) (ds @ [a]) b"
      using *(7) a n False by (auto simp: bg_in_def split: if_splits)
    moreover have "env_keeps E E'" using E1(3) *(9) by (rule env_keeps_trans)
    ultimately show ?thesis
      using * step by (intro exI [of _ E'] exI [of _ h] exI [of _ ks] exI [of _ "ds @ [a]"]) simp
  qed
qed

section \<open>The invariant between two calls\<close>

text \<open>What the current state needs when the next chunk, or the end, arrives.\<close>

definition st_idle :: "in_heap \<Rightarrow> addr list \<Rightarrow> tkz_state \<Rightarrow> html_token \<Rightarrow> tkz_markup \<Rightarrow> addr option \<Rightarrow> bool" where
  "st_idle h as s tok mk tmp \<longleftrightarrow>
     (t_begin tok = NULL \<or> bg_in h as (t_begin tok)) \<and>
     (needs_begin s \<longrightarrow> bg_in h as (t_begin tok)) \<and>
     (needs_attr s \<or> s = S_after_attribute_name \<longrightarrow> attrs tok \<noteq> []) \<and>
     (needs_lit s \<longrightarrow> (\<exists>l. mk = Mk_Lit l \<and> l \<noteq> [])) \<and>
     (needs_ptr s \<longrightarrow> (\<exists>p a. mk = Mk_Ptr p \<and> tmp = Some a \<and> a \<in> set as \<and> bg_in h [a] p) \<and>
        bg_upto h as tmp (t_begin tok))"

text \<open>The byte of the fake end of the text is none of the bytes that may be freed.\<close>

definition eof_kept :: "'c env \<Rightarrow> in_heap \<Rightarrow> addr list \<Rightarrow> bool" where
  "eof_kept E h as \<longleftrightarrow> mem E (tokenizer_eof E) = Some 0 \<and>
     (\<forall>a \<in> set as. node_byte h a (tokenizer_eof E) \<longrightarrow> node_block h a = None)"

definition tkz_idle :: "'c env \<Rightarrow> addr list \<Rightarrow> 'c tkz \<Rightarrow> bool" where
  "tkz_idle E as t \<longleftrightarrow>
     in_chain (in_nodes t) (incoming_node t) None as \<and>
     incoming_first t = (if as = [] then None else Some (last as)) \<and>
     bufs_wf (mem E) (in_nodes t) as \<and> owns (in_nodes t) as (blocks E) \<and> eof_kept E (in_nodes t) as \<and>
     (\<exists>tok. token t = Some tok \<and> st_idle (in_nodes t) as (state t) tok (markup t) (tmp_incoming_node t))"

text \<open>These predicates depend on the view of the nodes only.\<close>

lemma view_cong:
  assumes "\<And>a. a \<in> set as \<Longrightarrow> node_view h' a = node_view h a"
  shows "bg_in h' as b = bg_in h as b" "bufs_wf m h' as = bufs_wf m h as" "owns h' as bl = owns h as bl"
    "eof_kept E h' as = eof_kept E h as" "bg_upto h' as tmp b = bg_upto h as tmp b"
    "st_idle h' as s tok mk tmp = st_idle h as s tok mk tmp"
proof -
  have byte: "node_byte h' a x = node_byte h a x" and block: "node_block h' a = node_block h a"
    if "a \<in> set as" for a x
    using assms [OF that] by (simp_all add: node_byte_def node_block_def)
  have bg: "bg_in h' xs b = bg_in h xs b" if "set xs \<subseteq> set as" for xs b
    unfolding bg_in_view using that assms by (metis subsetD)
  show "bg_in h' as b = bg_in h as b" using bg by simp
  show "bufs_wf m h' as = bufs_wf m h as"
    unfolding bufs_wf_def using byte by blast
  show "owns h' as bl = owns h as bl"
    unfolding owns_def
    by (intro arg_cong2 [where f = "(\<and>)"]) (use block in \<open>(metis | blast)+\<close>)
  show "eof_kept E h' as = eof_kept E h as"
    unfolding eof_kept_def using byte block by simp
  have "bg_in h' (a # ys) b = bg_in h (a # ys) b" if "as = xs @ a # ys" for a xs ys b
    using that by (intro bg) auto
  then have upto: "bg_upto h' as tmp b = bg_upto h as tmp b" for b
    unfolding bg_upto_def by blast
  then show "bg_upto h' as tmp b = bg_upto h as tmp b" .
  show "st_idle h' as s tok mk tmp = st_idle h as s tok mk tmp"
    unfolding st_idle_def upto using bg [of as] bg [of "[a]" for a] by auto
qed

text \<open>A tokenizer that is idle over a chain is well formed for processing its last buffer.\<close>

lemma st_idle_wf:
  assumes "st_idle h as s tok mk tmp" "eof \<or> (\<forall>a p. tmp = Some a \<and> mk = Mk_Ptr p \<and> a \<in> set as \<and> needs_ptr s \<longrightarrow> a \<noteq> hd as)"
  shows "st_wf m h as eof fin s tok mk tmp d"
  using assms unfolding st_idle_def st_wf_def saved_pos_def bg_in_def lexbor_in_segment_def
  by auto

lemma wf_st_idle:
  assumes "st_wf m h as False fin s tok mk tmp d" "fin \<le> d"
  shows "st_idle h as s tok mk tmp"
  using assms unfolding st_idle_def st_wf_def saved_pos_def bg_in_def lexbor_in_segment_def
  by auto

section \<open>Appending a buffer\<close>

lemma node_make_chain:
  assumes "in_chain h cur None as" "h a = None"
  obtains h' n where "lexbor_in_node_make (Some a) h cur buf sz = Some (h', Some a)"
    "in_chain h' (Some a) None (a # as)" "h' a = Some n"
    "n_begin n = buf" "n_end n = buf + sz" "n_opt n = LEXBOR_IN_OPT_UNDEF"
    "\<And>b. b \<in> set as \<Longrightarrow> node_view h' b = node_view h b"
proof (cases as)
  case Nil
  then show ?thesis
    using assms
    by (intro that [of "h(a \<mapsto> \<lparr> n_offset = 0, n_opt = 0, n_begin = buf, n_end = buf + sz, n_use = buf,
          n_next = None, n_prev = None \<rparr>)"])
       (auto simp: lexbor_in_node_make_def)
next
  case (Cons l ls)
  then obtain n where l: "h l = Some n" "cur = Some l" "n_begin n \<le> n_end n" and ls: "in_chain h (n_prev n) (Some l) ls"
    using assms by (auto split: option.splits)
  have "a \<noteq> l" "a \<notin> set ls" "l \<notin> set ls"
    using l(1) assms in_chain_node [OF ls, of a] in_chain_distinct [OF assms(1)] Cons by auto
  then have "in_chain (h(l \<mapsto> n\<lparr>n_next := Some a\<rparr>, a \<mapsto> k)) (n_prev n) (Some l) ls" for k
    using ls unfolding in_chain_seg by (subst in_seg_cong [of _ _ h]) auto
  with l Cons \<open>a \<noteq> l\<close> \<open>a \<notin> set ls\<close> show ?thesis
    by (intro that [of "h(l \<mapsto> n\<lparr>n_next := Some a\<rparr>, a \<mapsto> \<lparr> n_offset = n_offset n + (n_end n - n_begin n),
          n_opt = 0, n_begin = buf, n_end = buf + sz, n_use = buf, n_next = None, n_prev = Some l \<rparr>)"])
       (auto simp: lexbor_in_node_make_def node_view_def)
qed

section \<open>Processing a buffer\<close>

lemma token_callback_env:
  assumes "token_callback E" "env_keeps E E'"
  shows "token_callback E'"
  using assms by (simp add: token_callback_def env_keeps_fields)

lemma st_idle_cons: "st_idle h as s tok mk tmp \<Longrightarrow> st_idle h (a # as) s tok mk tmp"
proof -
  assume st: "st_idle h as s tok mk tmp"
  have "bg_upto h as tmp b \<Longrightarrow> bg_upto h (a # as) tmp b" for b
    unfolding bg_upto_def by (metis append_Cons)
  with st show ?thesis
    unfolding st_idle_def by (auto simp: bg_in_def)
qed

lemma chunk_process_ok:
  assumes cb: "token_callback E"
    and chain: "in_chain (in_nodes t) (incoming_node t) None (a # as)" and bufs: "bufs_wf (mem E) (in_nodes t) (a # as)"
    and n: "in_nodes t a = Some n" "n_begin n = data" "n_end n = data + sz"
    and tok: "token t = Some tok" "st_idle (in_nodes t) as (state t) tok (markup t) (tmp_incoming_node t)"
  shows "\<exists>t'. lxb_html_tokenizer_chunk_process E t data sz = Some (t', status t') \<and>
    in_nodes t' = (in_nodes t)(a \<mapsto> n\<lparr> n_use := data + sz \<rparr>) \<and> incoming_node t' = incoming_node t \<and>
    incoming_first t' = incoming_first t \<and> opt t' = opt t \<and>
    (status t' = LXB_STATUS_OK \<longrightarrow> (\<exists>tok. token t' = Some tok \<and>
       st_idle (in_nodes t) (a # as) (state t') tok (markup t') (tmp_incoming_node t')))"
proof -
  let ?t = "t\<lparr> is_eof := False, status := LXB_STATUS_OK \<rparr>" and ?fin = "data + sz"
  have cur: "incoming_node t = Some a" "n_next n = None"
    using chain n by auto
  have "tmp_incoming_node t = Some b \<Longrightarrow> needs_ptr (state t) \<Longrightarrow> b \<noteq> a" for b
    using tok(2) in_chain_distinct [OF chain] by (auto simp: st_idle_def)
  then have "st_wf (mem E) (in_nodes t) (a # as) False ?fin (state t) tok (markup t) (tmp_incoming_node t) data"
    by (intro st_idle_wf [OF st_idle_cons [OF tok(2)]]) auto
  moreover have "mapped (mem E) data ?fin"
    using bufs n unfolding bufs_wf_def mapped_def node_byte_iff by fastforce
  ultimately have "tkz_wf E (a # as) ?fin ?t data"
    using chain bufs cur n tok(1) by (auto simp: tkz_wf_def ctx_wf_def in_wf_bufs)
  from token_callback.run_loop_ok [OF cb this] obtain t1
    where t1: "run_loop E ?t data ?fin = Some t1" "keeps ?t t1"
      "status t1 = LXB_STATUS_OK \<longrightarrow> (\<exists>d'. ?fin \<le> d' \<and> tkz_wf E (a # as) ?fin t1 d')"
    by blast
  have "lxb_html_tokenizer_chunk_process E t data sz =
      Some (t1\<lparr> in_nodes := (in_nodes t)(a \<mapsto> n\<lparr> n_use := ?fin \<rparr>) \<rparr>, status t1)"
    using t1(1,2) cur n by (simp add: lxb_html_tokenizer_chunk_process_def Let_def keeps_def in_update_def)
  moreover have "\<exists>tok. token t1 = Some tok \<and>
      st_idle (in_nodes t) (a # as) (state t1) tok (markup t1) (tmp_incoming_node t1)"
    if "status t1 = LXB_STATUS_OK"
    using t1(2,3) that by (auto simp: tkz_wf_def keeps_def intro: wf_st_idle)
  ultimately show ?thesis
    using t1(2) by (auto simp: keeps_def)
qed

section \<open>Releasing buffers\<close>

lemma bg_upto_keep:
  assumes "distinct (ks @ ds)" "ks \<noteq> []" "bg_upto h (ks @ ds) tmp b" "\<not> bg_in h ds b" "bg_in h [last ks] b"
  obtains a where "tmp = Some a" "a \<in> set ks" "bg_upto h ks tmp b"
proof -
  obtain a xs ys where a: "tmp = Some a" "ks @ ds = xs @ a # ys" "bg_in h (a # ys) b"
    using assms(3) by (auto simp: bg_upto_def)
  consider zs where "ks = xs @ a # zs" "ys = zs @ ds" | zs where "ds = zs @ a # ys"
    using a(2) by (auto simp: append_eq_append_conv2 append_eq_Cons_conv Cons_eq_append_conv)
  then show ?thesis
  proof cases
    case (1 zs)
    have "last ks \<in> set (a # zs)" using 1 by simp
    then have "bg_in h (a # zs) b" using assms(5) unfolding bg_in_def by auto
    with that [of a] a 1 show ?thesis by (auto simp: bg_upto_def)
  next
    case (2 zs)
    with a(3) assms(4) show ?thesis by (auto simp: bg_in_def)
  qed
qed

lemma st_idle_drop:
  assumes "st_idle h (ks @ ds) s tok mk tmp" "distinct (ks @ ds)" "ks \<noteq> []"
    and "\<not> bg_in h ds (t_begin tok)" "bg_in h [last ks] (t_begin tok)"
  shows "st_idle h ks s tok mk tmp"
proof -
  have "bg_in h ks (t_begin tok)"
    using assms(5) last_in_set [OF assms(3)] unfolding bg_in_def by auto
  moreover have "\<exists>a. tmp = Some a \<and> a \<in> set ks \<and> bg_upto h ks tmp (t_begin tok)" if "needs_ptr s"
    using that assms(1) bg_upto_keep [OF assms(2,3) _ assms(4,5), of tmp] unfolding st_idle_def by metis
  ultimately show ?thesis
    using assms(1) unfolding st_idle_def by fastforce
qed

text \<open>The chain that is left, once its first node is made the first.\<close>

lemma chain_cut:
  assumes "in_seg h p None ks bt" "distinct ks" "ks \<noteq> []"
  obtains h' where "in_update h (Some (last ks)) (\<lambda>n. n\<lparr> n_prev := None \<rparr>) = Some h'"
    "in_chain h' p None ks" "\<And>a. node_view h' a = node_view h a"
proof -
  obtain k ls where ks: "ks = ls @ [k]" using assms(3) by (metis rev_exhaust)
  then obtain n where n: "h k = Some n" "in_seg h p None ls (Some k)" "n_begin n \<le> n_end n"
      "n_next n = (if ls = [] then None else Some (last ls))"
    using assms(1) by (auto simp: in_seg_snoc)
  have "in_seg (h(k \<mapsto> n\<lparr>n_prev := None\<rparr>)) p None ls (Some k)"
    using n assms(2) ks by (subst in_seg_cong [of _ _ h]) auto
  with n ks show ?thesis
    by (intro that [of "h(k \<mapsto> n\<lparr> n_prev := None \<rparr>)"])
       (auto simp: in_update_def in_chain_seg in_seg_snoc node_view_def)
qed

lemma bufs_wf_drop:
  assumes "bufs_wf m h (ks @ ds)" "distinct (ks @ ds)"
    and "\<And>x. (\<forall>a \<in> set ds. node_byte h a x \<longrightarrow> node_block h a = None) \<Longrightarrow> m' x = m x"
  shows "bufs_wf m' h ks"
  unfolding bufs_wf_def
proof (intro conjI allI impI; elim conjE)
  fix a x
  assume a: "a \<in> set ks" "node_byte h a x"
  then have "\<not> node_byte h b x" if "b \<in> set ds" for b
    using assms(1,2) that unfolding bufs_wf_def by (metis UnCI disjoint_iff distinct_append set_append)
  then have "m' x = m x" using assms(3) by blast
  with a assms(1) show "m' x \<noteq> None" by (auto simp: bufs_wf_def)
next
  fix a b x
  assume "a \<in> set ks" "b \<in> set ks" "a \<noteq> b" "node_byte h a x"
  then show "\<not> node_byte h b x" using assms(1) unfolding bufs_wf_def by (metis UnCI set_append)
qed

text \<open>The invariant without the part on the state, which holds after an error too.\<close>

definition chain_idle :: "'c env \<Rightarrow> addr list \<Rightarrow> 'c tkz \<Rightarrow> bool" where
  "chain_idle E as t \<longleftrightarrow>
     in_chain (in_nodes t) (incoming_node t) None as \<and>
     incoming_first t = (if as = [] then None else Some (last as)) \<and>
     bufs_wf (mem E) (in_nodes t) as \<and> owns (in_nodes t) as (blocks E) \<and> eof_kept E (in_nodes t) as"

lemma tkz_idle_chain: "tkz_idle E as t \<longleftrightarrow> chain_idle E as t \<and>
    (\<exists>tok. token t = Some tok \<and> st_idle (in_nodes t) as (state t) tok (markup t) (tmp_incoming_node t))"
  by (auto simp: tkz_idle_def chain_idle_def)

lemma erase_ok:
  assumes "in_chain (in_nodes t) cur None as" "owns (in_nodes t) as (blocks E)"
    and "incoming_first t = (if as = [] then None else Some (last as))"
  obtains E' t' where "lxb_html_tokenizer_erase_incoming E t = Some (E', t')" "env_keeps E E'"
    "blocks E' = Map.empty" "t' = t\<lparr> in_nodes := in_nodes t |` (- set as), incoming_first := None \<rparr>"
  using erase_incoming_ok [of t cur as None E] assms in_chain_distinct [OF assms(1)] by (auto simp: in_chain_seg)

lemma view_restrict: "a \<notin> S \<Longrightarrow> node_view (h |` (- S)) a = node_view h a"
  by (simp add: node_view_def)

lemma release_drop:
  assumes ch: "chain_idle E as t" and tok: "token t = Some tok" "t_begin tok \<noteq> NULL"
    and st: "st_idle (in_nodes t) as (state t) tok (markup t) (tmp_incoming_node t)"
  obtains E' t' h' ks where "drop_before E t (t_begin tok) = Some (E', t')" "env_keeps E E'"
    "incoming_first t' = Some (last ks)" "ks \<noteq> []" "status t' = status t"
    "in_update (in_nodes t') (incoming_first t') (\<lambda>n. n\<lparr> n_prev := None \<rparr>) = Some h'"
    "tkz_idle E' ks (t'\<lparr> in_nodes := h' \<rparr>)"
proof -
  have dist: "distinct as" using ch in_chain_distinct by (auto simp: chain_idle_def)
  have bg: "bg_in (in_nodes t) as (t_begin tok)"
    using st tok(2) by (auto simp: st_idle_def)
  from drop_before_ok [of t "incoming_node t" as None E "t_begin tok"] obtain E' h ks ds bt where
    as: "as = ks @ ds" "ks \<noteq> []" and
    drop: "drop_before E t (t_begin tok) = Some (E', t\<lparr> in_nodes := h, incoming_first := Some (last ks) \<rparr>)" and
    h: "h = in_nodes t |` (- set ds)" and seg: "in_seg h (incoming_node t) None ks bt" and
    bgn: "bg_in h [last ks] (t_begin tok)" "\<not> bg_in (in_nodes t) ds (t_begin tok)" and
    own: "owns h ks (blocks E')" "env_keeps E E'" and
    mem: "\<And>x. (\<forall>a \<in> set ds. node_byte (in_nodes t) a x \<longrightarrow> node_block (in_nodes t) a = None) \<Longrightarrow> mem E' x = mem E x"
    using ch dist bg by (auto simp: chain_idle_def in_chain_seg)
  obtain h' where h': "in_update h (Some (last ks)) (\<lambda>n. n\<lparr> n_prev := None \<rparr>) = Some h'"
    "in_chain h' (incoming_node t) None ks" "\<And>a. node_view h' a = node_view h a"
    using chain_cut [OF seg _ as(2)] dist as by auto
  have view: "node_view h' a = node_view (in_nodes t) a" if "a \<in> set ks" for a
  proof -
    have "a \<notin> set ds" using that dist as by auto
    then show ?thesis by (simp add: h h'(3) view_restrict)
  qed
  have "bg_in (in_nodes t) [last ks] (t_begin tok)"
    using bgn(1) view [of "last ks"] h'(3) [of "last ks"] as(2) by (simp add: bg_in_view)
  then have "st_idle h' ks (state t) tok (markup t) (tmp_incoming_node t)"
    using st_idle_drop [of "in_nodes t" ks ds] st bgn(2) dist as view_cong(6) [OF view] by auto
  moreover have "bufs_wf (mem E') h' ks"
    using bufs_wf_drop [of "mem E" "in_nodes t" ks ds "mem E'"] ch dist as mem view_cong(2) [OF view]
    by (auto simp: chain_idle_def)
  moreover have "owns h' ks (blocks E')"
    using own(1) view_cong(3) [of ks h' h] h'(3) by simp
  moreover have "eof_kept E' h' ks"
    using ch as mem [of "tokenizer_eof E"] env_keeps_fields(1) [OF own(2)] view_cong(4) [OF view]
    by (auto simp: eof_kept_def chain_idle_def)
  ultimately have "tkz_idle E' ks (t\<lparr> in_nodes := h, incoming_first := Some (last ks) \<rparr>\<lparr> in_nodes := h' \<rparr>)"
    using h'(2) as(2) tok(1) by (simp add: tkz_idle_def)
  with that drop own(2) as(2) h'(1) show ?thesis by simp
qed

text \<open>What a call returns: after success the tokenizer is idle again; after an error, unless
  the option forbids it, every block has been freed.\<close>

definition chunk_post :: "'c env \<Rightarrow> 'c tkz \<Rightarrow> 'c env \<times> 'c tkz \<times> lxb_status \<Rightarrow> bool" where
  "chunk_post E t r \<longleftrightarrow> (case r of (E', t', st) \<Rightarrow> env_keeps E E' \<and>
     (if st = LXB_STATUS_OK then \<exists>as. as \<noteq> [] \<and> tkz_idle E' as t'
      else opt t AND LXB_HTML_TOKENIZER_OPT_WO_IN_DESTROY = 0 \<longrightarrow> blocks E' = Map.empty))"

lemma chunk_post_env:
  assumes "wp m (chunk_post E t)" "env_keeps E0 E" "opt t = opt t0"
  shows "wp m (chunk_post E0 t0)"
  using assms(2,3) by (intro wp_mono [OF assms(1)]) (auto simp: chunk_post_def intro: env_keeps_trans split: if_splits)

lemma chunk_failed_ok:
  assumes "in_chain (in_nodes t) cur None as" "owns (in_nodes t) as (blocks E)"
    and "incoming_first t = (if as = [] then None else Some (last as))"
  shows "wp (chunk_failed E t) (chunk_post E t)"
  using erase_ok [OF assms] by (fastforce simp: chunk_failed_def chunk_post_def)

lemma chunk_release_ok:
  assumes "chain_idle E as t" "as \<noteq> []"
    and "status t = LXB_STATUS_OK \<Longrightarrow> \<exists>tok. token t = Some tok \<and>
      st_idle (in_nodes t) as (state t) tok (markup t) (tmp_incoming_node t)"
  shows "wp (chunk_release E t) (chunk_post E t)"
proof (cases "status t = LXB_STATUS_OK")
  case False
  obtain E' where "lxb_html_tokenizer_erase_incoming E t =
      Some (E', t\<lparr> in_nodes := in_nodes t |` (- set as), incoming_first := None \<rparr>)"
    "env_keeps E E'" "blocks E' = Map.empty"
    using assms(1) by (auto simp: chain_idle_def elim!: erase_ok)
  with False show ?thesis
    by (auto simp: chunk_release_def chunk_post_def)
next
  case True
  then obtain tok where tok: "token t = Some tok"
    and st: "st_idle (in_nodes t) as (state t) tok (markup t) (tmp_incoming_node t)"
    using assms(3) by blast
  then have idle: "tkz_idle E as t" using assms(1) by (simp add: tkz_idle_chain)
  show ?thesis
  proof (cases "opt t AND LXB_HTML_TOKENIZER_OPT_WO_IN_DESTROY \<noteq> 0 \<or> t_begin tok = NULL")
    case True
    then show ?thesis
      using idle assms(2) tok \<open>status t = LXB_STATUS_OK\<close>
      by (auto simp: chunk_release_def chunk_post_def)
  next
    case False
    show ?thesis
    proof (rule release_drop [OF assms(1) tok _ st])
      show "t_begin tok \<noteq> NULL" using False by simp
    next
      fix E' t' h' ks
      assume "drop_before E t (t_begin tok) = Some (E', t')" "env_keeps E E'"
        "incoming_first t' = Some (last ks)" "ks \<noteq> []" "status t' = status t"
        "in_update (in_nodes t') (incoming_first t') (\<lambda>n. n\<lparr> n_prev := None \<rparr>) = Some h'"
        "tkz_idle E' ks (t'\<lparr> in_nodes := h' \<rparr>)"
      with False tok True show ?thesis
        by (auto simp: chunk_release_def chunk_post_def)
    qed
  qed
qed

section \<open>A chunk\<close>

lemma owns_cons:
  assumes "owns h as bl" "\<And>b. b \<in> set as \<Longrightarrow> node_block h' b = node_block h b"
    and "node_block h' a = None \<and> bl' = bl \<or>
      node_block h' a = Some (p, k) \<and> p \<noteq> NULL \<and> bl p = None \<and> bl' = bl(p \<mapsto> k)"
  shows "owns h' (a # as) bl'"
proof -
  have own: "bl q = Some j \<longleftrightarrow> (\<exists>b \<in> set as. node_block h' b = Some (q, j))" for q j
    using assms(1,2) by (auto simp: owns_def)
  have inj: "b = c" if "b \<in> set as" "c \<in> set as" "node_block h' b = Some (q, j)" "node_block h' c = Some (q, j')"
    for b c q j j' using that assms(1,2) unfolding owns_def by metis
  have null: "node_block h' b \<noteq> Some (NULL, j)" if "b \<in> set as" for b j
    using that assms(1,2) unfolding owns_def by metis
  from assms(3) show ?thesis
  proof (elim disjE conjE)
    assume a: "node_block h' a = None" "bl' = bl"
    have "bl' q = Some j \<longleftrightarrow> (\<exists>b \<in> set (a # as). node_block h' b = Some (q, j))" for q j
      using own [of q j] a by simp
    moreover have "b = c" if "b \<in> set (a # as)" "c \<in> set (a # as)" "node_block h' b = Some (q, j)"
        "node_block h' c = Some (q, j')" for b c q j j'
      using that a(1) inj by auto
    moreover have "node_block h' b \<noteq> Some (NULL, j)" if "b \<in> set (a # as)" for b j
      using that a null by auto
    ultimately show ?thesis unfolding owns_def by blast
  next
    assume a: "node_block h' a = Some (p, k)" "p \<noteq> NULL" "bl p = None" "bl' = bl(p \<mapsto> k)"
    have new: "node_block h' b \<noteq> Some (p, j)" if "b \<in> set as" for b j
      using that own [of p j] a(3) by auto
    have "bl' q = Some j \<longleftrightarrow> (\<exists>b \<in> set (a # as). node_block h' b = Some (q, j))" for q j
      using own [of q j] a new by (cases "q = p") auto
    moreover have "b = c" if "b \<in> set (a # as)" "c \<in> set (a # as)" "node_block h' b = Some (q, j)"
        "node_block h' c = Some (q, j')" for b c q j j'
      using that a(1) new inj by auto
    moreover have "node_block h' b \<noteq> Some (NULL, j)" if "b \<in> set (a # as)" for b j
      using that a null by auto
    ultimately show ?thesis unfolding owns_def by blast
  qed
qed

lemma bufs_wf_cons:
  assumes "bufs_wf m h as" "\<And>b. b \<in> set as \<Longrightarrow> node_view h' b = node_view h b"
    and "\<And>x. m x \<noteq> None \<Longrightarrow> m' x = m x"
    and "\<And>x. node_byte h' a x \<Longrightarrow> m' x \<noteq> None"
    and "\<And>b x. b \<in> set as \<Longrightarrow> node_byte h b x \<Longrightarrow> \<not> node_byte h' a x"
  shows "bufs_wf m' h' (a # as)"
proof -
  have byte: "node_byte h' b x = node_byte h b x" if "b \<in> set as" for b x
    using assms(2) [OF that] by (simp add: node_byte_def)
  have old: "m' x \<noteq> None" "\<And>c. c \<in> set as \<Longrightarrow> b \<noteq> c \<Longrightarrow> \<not> node_byte h' c x"
    if "b \<in> set as" "node_byte h' b x" for b x
    using that assms(1,3) byte unfolding bufs_wf_def by metis+
  show ?thesis
    unfolding bufs_wf_def
  proof (intro conjI allI impI; elim conjE)
    fix b x assume "b \<in> set (a # as)" "node_byte h' b x"
    then show "m' x \<noteq> None" using old(1) assms(4) by auto
  next
    fix b c x assume bc: "b \<in> set (a # as)" "c \<in> set (a # as)" "b \<noteq> c" "node_byte h' b x"
    show "\<not> node_byte h' c x"
    proof (cases "b = a \<or> c = a")
      case True
      with bc assms(5) byte show ?thesis by auto
    next
      case False
      with bc show ?thesis by (intro old(2) [of b x c]) simp_all
    qed
  qed
qed

lemma append_idle:
  assumes ch: "chain_idle E as t"
    and h': "in_chain h' (Some a) None (a # as)" "node_view h' a = Some (buf, buf + sz, i)"
      "\<And>b. b \<in> set as \<Longrightarrow> node_view h' b = node_view (in_nodes t) b"
    and E1: "env_keeps E E1" "\<And>x. mem E x \<noteq> None \<Longrightarrow> mem E1 x = mem E x" "mapped (mem E1) buf (buf + sz)"
    and dis: "\<And>b x. b \<in> set as \<Longrightarrow> node_byte (in_nodes t) b x \<Longrightarrow> \<not> (buf \<le> x \<and> x < buf + sz)"
    and bl: "i AND LEXBOR_IN_OPT_ALLOC = 0 \<and> blocks E1 = blocks E \<or>
      i AND LEXBOR_IN_OPT_ALLOC \<noteq> 0 \<and> buf \<noteq> NULL \<and> blocks E buf = None \<and> blocks E1 = (blocks E)(buf \<mapsto> sz) \<and>
      \<not> (buf \<le> tokenizer_eof E \<and> tokenizer_eof E < buf + sz)"
    and t1: "in_nodes t1 = h'" "incoming_node t1 = Some a"
      "incoming_first t1 = (if as = [] then Some a else incoming_first t)"
  shows "chain_idle E1 (a # as) t1"
proof -
  have byte: "node_byte h' a x \<longleftrightarrow> buf \<le> x \<and> x < buf + sz" for x
    using h'(2) by (simp add: node_byte_def)
  have block: "node_block h' b = node_block (in_nodes t) b" "node_byte h' b x = node_byte (in_nodes t) b x"
    if "b \<in> set as" for b x
    using h'(3) [OF that] by (simp_all add: node_block_def node_byte_def)
  have blk: "node_block h' a = (if i AND LEXBOR_IN_OPT_ALLOC \<noteq> 0 then Some (buf, sz) else None)"
    using h'(2) by (simp add: node_block_def)
  have "owns h' (a # as) (blocks E1)"
    using ch bl blk by (intro owns_cons [of "in_nodes t" as "blocks E" h' a _ buf sz]) (auto simp: chain_idle_def block)
  moreover have "bufs_wf (mem E1) h' (a # as)"
    using ch E1 h'(3) dis byte
    by (intro bufs_wf_cons [of "mem E" "in_nodes t"]) (auto simp: chain_idle_def mapped_def)
  moreover have "eof_kept E1 h' (a # as)"
    using ch bl blk byte block E1(2) env_keeps_fields(1) [OF E1(1)]
    by (auto simp: eof_kept_def chain_idle_def split: if_splits)
  ultimately show ?thesis
    using ch h'(1) t1 by (simp add: chain_idle_def)
qed

text \<open>What the caller and the allocator guarantee: the text can be read, new objects are
  really new, and with \<open>OPT_WO_COPY\<close> the text is none that is still in use.\<close>

definition chunk_pre :: "addr option \<Rightarrow> addr option \<Rightarrow> 'c env \<Rightarrow> 'c tkz \<Rightarrow> addr \<Rightarrow> nat \<Rightarrow> bool" where
  "chunk_pre blk nd E t data sz \<longleftrightarrow> mapped (mem E) data (data + sz) \<and>
     (\<forall>a. nd = Some a \<longrightarrow> in_nodes t a = None) \<and>
     (\<forall>p. blk = Some p \<longrightarrow> p \<noteq> NULL \<and> blocks E p = None \<and> (\<forall>x. p \<le> x \<and> x < p + sz \<longrightarrow> mem E x = None)) \<and>
     (opt t AND LXB_HTML_TOKENIZER_OPT_WO_COPY \<noteq> 0 \<longrightarrow>
        (\<forall>a x. data \<le> x \<and> x < data + sz \<longrightarrow> \<not> node_byte (in_nodes t) a x))"

text \<open>Processing and releasing the new buffer, common to the two modes.\<close>

lemma process_release_ok:
  assumes cb: "token_callback E" and ch: "chain_idle E (a # as) t"
    and n: "in_nodes t a = Some n" "n_begin n = data" "n_end n = data + sz"
    and tok: "token t = Some tok" "st_idle (in_nodes t) as (state t) tok (markup t) (tmp_incoming_node t)"
    and opt: "opt t = opt t0" and E0: "env_keeps E0 E"
  shows "wp (do { (t, _) \<leftarrow> lxb_html_tokenizer_chunk_process E t data sz; chunk_release E t }) (chunk_post E0 t0)"
proof -
  have chain: "in_chain (in_nodes t) (incoming_node t) None (a # as)" "bufs_wf (mem E) (in_nodes t) (a # as)"
    using ch by (auto simp: chain_idle_def)
  obtain t' where t': "lxb_html_tokenizer_chunk_process E t data sz = Some (t', status t')"
    "in_nodes t' = (in_nodes t)(a \<mapsto> n\<lparr> n_use := data + sz \<rparr>)" "incoming_node t' = incoming_node t"
    "incoming_first t' = incoming_first t" "opt t' = opt t"
    "status t' = LXB_STATUS_OK \<longrightarrow> (\<exists>tok. token t' = Some tok \<and>
       st_idle (in_nodes t) (a # as) (state t') tok (markup t') (tmp_incoming_node t'))"
    using chunk_process_ok [OF cb chain n tok] by blast
  have view: "node_view (in_nodes t') b = node_view (in_nodes t) b" for b
    using t'(2) n by (simp add: node_view_def)
  have "in_seg (in_nodes t') p q as None = in_seg (in_nodes t) p q as None" for p q
    using in_chain_distinct [OF chain(1)] t'(2) by (intro in_seg_cong) auto
  then have "in_chain (in_nodes t') (incoming_node t') None (a # as)"
    using chain(1) n t'(2,3) unfolding in_chain_seg by simp
  then have "chain_idle E (a # as) t'"
    using ch t'(4) view view_cong(2,3) [of "a # as" "in_nodes t'" "in_nodes t"]
      view_cong(4) [of "a # as" "in_nodes t'" "in_nodes t" E] by (simp add: chain_idle_def)
  then have "wp (chunk_release E t') (chunk_post E t')"
    using t'(6) view_cong(6) [of "a # as" "in_nodes t'" "in_nodes t"] view
    by (intro chunk_release_ok) auto
  with t'(1,5) opt E0 show ?thesis by (auto intro: chunk_post_env)
qed

lemma mem_copy_ok:
  assumes "mapped (mem E) data (data + sz)"
  obtains m where "mem_copy (malloc_block E p sz) p data sz = Some (E\<lparr> blocks := (blocks E)(p \<mapsto> sz), mem := m \<rparr>)"
    "mapped m p (p + sz)" "\<And>x. \<not> (p \<le> x \<and> x < p + sz) \<Longrightarrow> m x = mem E x"
proof -
  obtain bs where bs: "mem_range (mem E) data sz = Some bs" "length bs = sz"
    using mem_range_mapped [OF assms] by blast
  then show ?thesis
    by (intro that [of "mem_write (mem E) p bs"])
       (auto simp: mem_copy_def malloc_block_def mem_write_def mapped_def)
qed

lemma tkz_first_same:
  "incoming_first t = Some b \<Longrightarrow>
   t\<lparr> in_nodes := h, incoming_node := c, incoming_first := Some b \<rparr> = t\<lparr> in_nodes := h, incoming_node := c \<rparr>"
  "incoming_first t = Some b \<Longrightarrow>
   t\<lparr> incoming_node := c, incoming_first := Some b, in_nodes := h \<rparr> = t\<lparr> incoming_node := c, in_nodes := h \<rparr>"
  by (cases t; simp)+

lemma chunk_wo_copy_ok:
  assumes cb: "token_callback E" and idle: "tkz_idle E as t" and pre: "chunk_pre blk nd E t data sz"
    and mode: "opt t AND LXB_HTML_TOKENIZER_OPT_WO_COPY \<noteq> 0"
  shows "wp (lxb_html_tokenizer_chunk blk nd E t data sz) (chunk_post E t)"
proof (cases nd)
  case None
  then show ?thesis
    using idle mode chunk_failed_ok [of "t\<lparr> incoming_node := None \<rparr>" "incoming_node t" as E]
    by (auto simp: lxb_html_tokenizer_chunk_def lexbor_in_node_make_def tkz_idle_def intro: chunk_post_env)
next
  case (Some a)
  have ch: "chain_idle E as t" using idle by (simp add: tkz_idle_chain)
  have new: "in_nodes t a = None" using pre Some by (simp add: chunk_pre_def)
  have chain: "in_chain (in_nodes t) (incoming_node t) None as" using ch by (simp add: chain_idle_def)
  obtain h n where h: "lexbor_in_node_make (Some a) (in_nodes t) (incoming_node t) data sz = Some (h, Some a)"
    "in_chain h (Some a) None (a # as)" "h a = Some n" "n_begin n = data" "n_end n = data + sz" "n_opt n = 0"
    "\<And>b. b \<in> set as \<Longrightarrow> node_view h b = node_view (in_nodes t) b"
    using node_make_chain [OF chain new, of data sz] by metis
  let ?t = "t\<lparr> in_nodes := h, incoming_node := Some a,
     incoming_first := (if incoming_first t = None then Some a else incoming_first t) \<rparr>"
  have "chain_idle E (a # as) ?t"
    by (rule append_idle [OF ch h(2), of data sz 0])
       (use h pre ch mode in \<open>auto simp: node_view_Some chunk_pre_def chain_idle_def\<close>)
  moreover obtain tok where "token t = Some tok"
      "st_idle h as (state t) tok (markup t) (tmp_incoming_node t)"
    using idle view_cong(6) [OF h(7)] by (auto simp: tkz_idle_def)
  ultimately have "wp (do { (t, _) \<leftarrow> lxb_html_tokenizer_chunk_process E ?t data sz; chunk_release E t }) (chunk_post E t)"
    using cb h(3-5) by (intro process_release_ok) simp_all
  with Some mode h(1) show ?thesis
    by (cases "incoming_first t") (simp_all add: lxb_html_tokenizer_chunk_def tkz_first_same)
qed

lemma chunk_copy_ok:
  assumes cb: "token_callback E" and idle: "tkz_idle E as t" and pre: "chunk_pre blk nd E t data sz"
    and mode: "opt t AND LXB_HTML_TOKENIZER_OPT_WO_COPY = 0"
  shows "wp (lxb_html_tokenizer_chunk blk nd E t data sz) (chunk_post E t)"
proof (cases blk)
  case None
  have "wp (chunk_failed E t) (chunk_post E t)"
    using idle by (intro chunk_failed_ok [of _ "incoming_node t" as]) (auto simp: tkz_idle_def)
  with None mode show ?thesis by (simp add: lxb_html_tokenizer_chunk_def)
next
  case (Some p)
  have p: "p \<noteq> NULL" "blocks E p = None" "\<And>x. p \<le> x \<Longrightarrow> x < p + sz \<Longrightarrow> mem E x = None"
    "mapped (mem E) data (data + sz)"
    using pre Some by (auto simp: chunk_pre_def)
  obtain m where m: "mem_copy (malloc_block E p sz) p data sz = Some (E\<lparr> blocks := (blocks E)(p \<mapsto> sz), mem := m \<rparr>)"
    "mapped m p (p + sz)" "\<And>x. \<not> (p \<le> x \<and> x < p + sz) \<Longrightarrow> m x = mem E x"
    using mem_copy_ok [OF p(4), of p] by metis
  let ?E = "E\<lparr> blocks := (blocks E)(p \<mapsto> sz), mem := m \<rparr>"
  have ch: "chain_idle E as t" using idle by (simp add: tkz_idle_chain)
  have chain: "in_chain (in_nodes t) (incoming_node t) None as" using ch by (simp add: chain_idle_def)
  have E1: "env_keeps E ?E" "\<And>x. mem E x \<noteq> None \<Longrightarrow> m x = mem E x"
    using p(3) m(3) by (auto simp: env_keeps_def) (metis option.distinct(1))
  show ?thesis
  proof (cases nd)
    case None
    let ?F = "?E\<lparr> mem := (\<lambda>x. if p \<le> x \<and> x < p + sz then None else mem ?E x), blocks := (blocks ?E)(p := None) \<rparr>"
    have "wp (chunk_failed ?F (t\<lparr> incoming_node := None \<rparr>)) (chunk_post ?F (t\<lparr> incoming_node := None \<rparr>))"
      using ch p(2) by (intro chunk_failed_ok [of _ "incoming_node t" as]) (auto simp: chain_idle_def fun_upd_idem)
    then have "wp (chunk_failed ?F (t\<lparr> incoming_node := None \<rparr>)) (chunk_post E t)"
      by (rule chunk_post_env) (simp_all add: env_keeps_def)
    with None Some mode m(1) p(1) show ?thesis
      by (simp add: lxb_html_tokenizer_chunk_def lexbor_in_node_make_def lexbor_free_def Let_def)
  next
    case nd: (Some a)
    have new: "in_nodes t a = None" using pre nd by (simp add: chunk_pre_def)
    obtain h n where h: "lexbor_in_node_make (Some a) (in_nodes t) (incoming_node t) p sz = Some (h, Some a)"
      "in_chain h (Some a) None (a # as)" "h a = Some n" "n_begin n = p" "n_end n = p + sz" "n_opt n = 0"
      "\<And>b. b \<in> set as \<Longrightarrow> node_view h b = node_view (in_nodes t) b"
      using node_make_chain [OF chain new, of p sz] by metis
    let ?h = "h(a \<mapsto> n\<lparr> n_opt := LEXBOR_IN_OPT_ALLOC \<rparr>)"
    let ?t = "t\<lparr> incoming_node := Some a,
       incoming_first := (if incoming_first t = None then Some a else incoming_first t), in_nodes := ?h \<rparr>"
    have "a \<notin> set as" using in_chain_distinct [OF h(2)] by simp
    then have view: "node_view ?h b = node_view (in_nodes t) b" if "b \<in> set as" for b
      using that h(7) by (auto simp: node_view_def)
    have "in_chain ?h (Some a) None (a # as)"
      using h(2,3) \<open>a \<notin> set as\<close> unfolding in_chain_seg by auto
    then have "chain_idle ?E (a # as) ?t"
    proof (rule append_idle [OF ch _ _ view E1(1), of _ p sz LEXBOR_IN_OPT_ALLOC])
      show "\<not> (p \<le> x \<and> x < p + sz)" if "b \<in> set as" "node_byte (in_nodes t) b x" for b x
        using that ch p(3) by (fastforce simp: chain_idle_def bufs_wf_def)
    qed (use h(3-5) m(2) p E1 ch in \<open>auto simp: node_view_def chain_idle_def eof_kept_def\<close>)
    moreover obtain tok where "token t = Some tok" "st_idle ?h as (state t) tok (markup t) (tmp_incoming_node t)"
      using idle view_cong(6) [OF view] by (auto simp: tkz_idle_def)
    ultimately have "wp (do { (t, _) \<leftarrow> lxb_html_tokenizer_chunk_process ?E ?t p sz; chunk_release ?E t }) (chunk_post E t)"
      using token_callback_env [OF cb E1(1)] h(4,5) E1(1)
      by (intro process_release_ok [where a = a and as = as and n = "n\<lparr> n_opt := LEXBOR_IN_OPT_ALLOC \<rparr>"]) simp_all
    with Some nd mode m(1) h(1,3) show ?thesis
      by (cases "incoming_first t") (simp_all add: lxb_html_tokenizer_chunk_def Let_def in_update_def tkz_first_same)
  qed
qed

end
