(* ===== verification/Tkz_Session.thy ===== *)
theory Tkz_Session
  imports Tkz_Life
begin

text \<open>
  A tokenizer in use: initialised, given a callback, started, and fed chunk by chunk.
  The states it can be in are the inductive predicate \<open>session\<close>; the invariant
  \<open>tkz_idle\<close> holds in all of them, so the next chunk and the end of the document are
  processed without undefined behaviour.  The locale of the callback is interpreted on
  the two callbacks of the library: the default one, and one that records the tokens and
  switches the state as the tree construction does.
\<close>

section \<open>One more chunk, and the end\<close>

lemma chunk_ok:
  assumes "token_callback E" "tkz_idle E as t" "chunk_pre blk nd E t data sz"
  shows "wp (lxb_html_tokenizer_chunk blk nd E t data sz) (chunk_post E t)"
  using chunk_copy_ok [OF assms] chunk_wo_copy_ok [OF assms] by blast

lemma end_ok:
  assumes cb: "token_callback E" and idle: "tkz_idle E as t" and "as \<noteq> []"
  shows "\<exists>t' st. lxb_html_tokenizer_end E t = Some (t', st) \<and> st = status t' \<and>
    (st = LXB_STATUS_OK \<longrightarrow> token t' \<noteq> None)"
proof -
  let ?d = "tokenizer_eof E" and ?t = "t\<lparr> reuse := False, status := LXB_STATUS_OK, is_eof := True \<rparr>"
  have "tkz_wf E as (?d + 1) ?t ?d"
    using idle assms(3)
    by (auto simp: tkz_idle_def tkz_wf_def ctx_wf_def in_wf_bufs eof_kept_def mapped_def less_Suc_eq_le
        intro!: st_idle_wf)
  from token_callback.eof_loop_ok [OF cb this] obtain t1 where t1: "eof_loop E ?t = Some t1" "keeps ?t t1"
    "status t1 = LXB_STATUS_OK \<longrightarrow> token t1 \<noteq> None"
    by auto
  then have loop: "end_loop E (t\<lparr> reuse := False, status := LXB_STATUS_OK \<rparr>) = Some t1"
    by (subst end_loop.simps) (simp add: keeps_def)
  show ?thesis
  proof (cases "status t1 = LXB_STATUS_OK")
    case False
    then show ?thesis using loop by (simp add: lxb_html_tokenizer_end_def Let_def)
  next
    case True
    then obtain tok where "token t1 = Some tok" using t1(3) by blast
    with True loop show ?thesis
      by (simp add: lxb_html_tokenizer_end_def Let_def with_token_eq split: prod.splits)
  qed
qed

section \<open>Sessions\<close>

inductive session :: "'c env \<Rightarrow> 'c tkz \<Rightarrow> bool" where
  session_begin: "lxb_html_tokenizer_init LXB_STATUS_OK LXB_STATUS_OK LXB_STATUS_OK LXB_STATUS_OK
      LXB_STATUS_OK ctx0 E0 t0 = (E1, t1, LXB_STATUS_OK) \<Longrightarrow>
    incoming_first t0 = None \<Longrightarrow> blocks E0 = Map.empty \<Longrightarrow> mem E0 (tokenizer_eof E0) = Some 0 \<Longrightarrow>
    lxb_html_tokenizer_callback_token_done_set E1 t1 call_func ctx = (E, t2) \<Longrightarrow> token_callback E \<Longrightarrow>
    lxb_html_tokenizer_begin True (t2\<lparr> opt := options \<rparr>) = (t, LXB_STATUS_OK) \<Longrightarrow> session E t"
| session_chunk: "session E t \<Longrightarrow> chunk_pre blk nd E t data sz \<Longrightarrow>
    lxb_html_tokenizer_chunk blk nd E t data sz = Some (E', t', LXB_STATUS_OK) \<Longrightarrow> session E' t'"

lemma session_idle:
  assumes "session E t"
  shows "token_callback E \<and> (\<exists>as. tkz_idle E as t)"
  using assms
proof induction
  case (session_begin ctx0 E0 t0 E1 t1 call_func ctx E t2 options t)
  then have "tkz_idle E [] t"
    by (auto simp: lxb_html_tokenizer_init_def lxb_html_tokenizer_callback_token_done_set_def Let_def
        lxb_html_tokenizer_begin_def lxb_html_token_create_def tkz_idle_def bufs_wf_def owns_def eof_kept_def
        st_idle_def)
  with session_begin show ?case by blast
next
  case (session_chunk E t blk nd data sz E' t')
  then obtain as where "token_callback E" "tkz_idle E as t" by blast
  with session_chunk chunk_ok [of E as t blk nd data sz] have "env_keeps E E'" "\<exists>as. tkz_idle E' as t'"
    by (auto simp: chunk_post_def)
  with \<open>token_callback E\<close> token_callback_env show ?case by blast
qed

section \<open>The callbacks\<close>

text \<open>The environment with another callback.\<close>

abbreviation with_callback :: "'c env \<Rightarrow> ('c tkz \<Rightarrow> html_token \<Rightarrow> 'c tkz \<times> html_token option) \<Rightarrow> 'c env" where
  "with_callback E f \<equiv> E\<lparr> callback_token_done := f \<rparr>"

interpretation dflt: token_callback "with_callback E lxb_html_tokenizer_token_done" for E :: "'c env"
  by unfold_locales (auto simp: lxb_html_tokenizer_token_done_def keeps_def)

text \<open>A consumer that records the tokens and, after a start tag, asks for the state of the
  content model of the element; \<open>tag_of\<close> is the look-up of the name of the tag.\<close>

definition record_tokens :: "(html_token \<Rightarrow> lxb_tag_id) \<Rightarrow> bool \<Rightarrow> html_token list tkz \<Rightarrow> html_token
    \<Rightarrow> html_token list tkz \<times> html_token option" where
  "record_tokens tag_of scripting t tok =
    (let t = t\<lparr> callback_token_ctx := callback_token_ctx t @ [tok] \<rparr> in
     (if t_type tok AND LXB_HTML_TOKEN_TYPE_CLOSE = 0
      then lxb_html_tokenizer_set_state_by_tag t scripting (tag_of tok) LXB_NS_HTML else t, Some tok))"

lemma set_state_by_tag_keeps:
  "keeps t (lxb_html_tokenizer_set_state_by_tag t scripting tag ns)"
  "markup (lxb_html_tokenizer_set_state_by_tag t scripting tag ns) = markup t"
  "tmp_incoming_node (lxb_html_tokenizer_set_state_by_tag t scripting tag ns) = tmp_incoming_node t"
  "status (lxb_html_tokenizer_set_state_by_tag t scripting tag ns) = status t"
  "state (lxb_html_tokenizer_set_state_by_tag t scripting tag ns) = state t \<or>
   before_state (state (lxb_html_tokenizer_set_state_by_tag t scripting tag ns))"
  unfolding lxb_html_tokenizer_set_state_by_tag_def keeps_def by (simp_all split: if_split)

interpretation rcrd: token_callback "with_callback E (record_tokens tag_of scripting)" for E tag_of scripting
proof (unfold_locales, goal_cases)
  case (1 t tok t' r)
  then show ?case
    using set_state_by_tag_keeps(1) [of "t\<lparr> callback_token_ctx := callback_token_ctx t @ [tok] \<rparr>" scripting "tag_of tok" LXB_NS_HTML]
    by (auto simp: record_tokens_def Let_def keeps_def split: if_splits)
next
  case (4 t tok t' r)
  then show ?case
    using set_state_by_tag_keeps(5) [of "t\<lparr> callback_token_ctx := callback_token_ctx t @ [tok] \<rparr>" scripting "tag_of tok" LXB_NS_HTML]
    by (auto simp: record_tokens_def Let_def split: if_splits)
qed (auto simp: record_tokens_def Let_def set_state_by_tag_keeps split: if_splits)

end
