(* ===== verification/Tkz_Examples.thy ===== *)
theory Tkz_Examples
  imports Tkz_Session
begin

text \<open>
  A concrete tokenizer over a concrete memory, on which the theorems are applied and the
  model is run.  The text lies at address 16; the byte of the fake end of the text at
  address 5; the consumer records the tokens.
\<close>

section \<open>Objects\<close>

text \<open>A memory that holds \<open>bs\<close> from address 16 on.\<close>

definition ex_mem :: "lxb_char list \<Rightarrow> bytemem" where
  "ex_mem bs = (\<lambda>x. if x = 5 then Some 0 else if 16 \<le> x \<and> x < 16 + length bs then Some (bs ! (x - 16)) else None)"

definition ex_env :: "lxb_char list \<Rightarrow> html_token list env" where
  "ex_env bs = \<lparr> mem = ex_mem bs, blocks = Map.empty, tokenizer_eof = 5,
     callback_token_done = record_tokens tag_id True, adjusted_current_node = (\<lambda>_. None),
     tag_id_by_name = (\<lambda>_. 0), str_alloc = (\<lambda>_ _. True), attr_alloc = (\<lambda>_. True), error_alloc = (\<lambda>_. True) \<rparr>"

text \<open>The tokenizer after \<open>init\<close>, \<open>callback_token_done_set\<close> and \<open>begin\<close>.\<close>

definition ex_tkz :: "nat \<Rightarrow> html_token list tkz" where
  "ex_tkz options = \<lparr> state = S_data_before, callback_token_ctx = [], token = lxb_html_token_create True,
     in_nodes = Map.empty, incoming_first = None, incoming_node = None, parse_errors = Some [],
     markup = Mk_Null, tmp_incoming_node = None, tmp_tag_id = 0, opt = options,
     status = LXB_STATUS_OK, is_eof = False, reuse = False \<rparr>"

lemma ex_callback: "token_callback (ex_env bs)"
  using rcrd.token_callback_axioms [of tag_id True "ex_env bs"] by (simp add: ex_env_def)

lemma ex_session: "session (ex_env bs) (ex_tkz options)"
proof (rule session_begin)
  show "lxb_html_tokenizer_init LXB_STATUS_OK LXB_STATUS_OK LXB_STATUS_OK LXB_STATUS_OK LXB_STATUS_OK [] (ex_env bs) (ex_tkz 0) =
      (with_callback (ex_env bs) lxb_html_tokenizer_token_done, (ex_tkz 0)\<lparr> token := None \<rparr>, LXB_STATUS_OK)"
    by (simp add: lxb_html_tokenizer_init_def ex_tkz_def ex_env_def)
  show "lxb_html_tokenizer_callback_token_done_set (with_callback (ex_env bs) lxb_html_tokenizer_token_done)
      ((ex_tkz 0)\<lparr> token := None \<rparr>) (record_tokens tag_id True) [] = (ex_env bs, (ex_tkz 0)\<lparr> token := None \<rparr>)"
    by (simp add: lxb_html_tokenizer_callback_token_done_set_def ex_tkz_def ex_env_def)
  show "lxb_html_tokenizer_begin True ((ex_tkz 0)\<lparr> token := None, opt := options \<rparr>) = (ex_tkz options, LXB_STATUS_OK)"
    by (simp add: lxb_html_tokenizer_begin_def lxb_html_token_create_def ex_tkz_def)
qed (simp_all add: ex_callback, simp_all add: ex_tkz_def ex_env_def ex_mem_def)

lemma ex_pre: "length bs = sz \<Longrightarrow> sz \<le> 80 \<Longrightarrow>
    chunk_pre (Some 100) (Some 1) (ex_env bs) (ex_tkz 0) 16 sz"
  by (auto simp: chunk_pre_def ex_env_def ex_mem_def ex_tkz_def mapped_def)

text \<open>The first chunk, copied to address 100 with the node 1, and the tokens seen.\<close>

definition ex_chunk :: "lxb_char list \<Rightarrow> (html_token list env \<times> html_token list tkz \<times> lxb_status) option" where
  "ex_chunk bs = lxb_html_tokenizer_chunk (Some 100) (Some 1) (ex_env bs) (ex_tkz 0) 16 (length bs)"

definition ex_run :: "lxb_char list \<Rightarrow> (addr \<times> addr \<times> lxb_tag_id) list option" where
  "ex_run bs = do {
     (E, t, st) \<leftarrow> ex_chunk bs;
     (t, st) \<leftarrow> lxb_html_tokenizer_end E t;
     Some (map (\<lambda>k. (t_begin k, t_end k, tag_id k)) (callback_token_ctx t))
   }"

lemma ex_run_tags: "ex_run [0x3C, 0x61, 0x3E, 0x78, 0x3C, 0x2F, 0x61, 0x3E] =
    Some [(101, 102, 0), (103, 104, 2), (106, 107, 0), (0, 0, 1)]"
  by code_simp

lemma ex_run_comment: "ex_run [0x3C, 0x21, 0x2D, 0x2D, 0x79, 0x2D, 0x2D, 0x3E] =
    Some [(104, 105, 4), (0, 0, 1)]"
  by code_simp

text \<open>The tokenizer with the text as its buffer, not copied, before it is processed.\<close>

definition ex_fed_tkz :: "lxb_char list \<Rightarrow> html_token list tkz" where
  "ex_fed_tkz bs = (ex_tkz 0)\<lparr> in_nodes := [1 \<mapsto> \<lparr> n_offset = 0, n_opt = 0, n_begin = 16, n_end = 16 + length bs,
     n_use = 16, n_next = None, n_prev = None \<rparr>], incoming_first := Some 1, incoming_node := Some 1 \<rparr>"

lemma ex_fed_wf: "tkz_wf (ex_env bs) [1] (16 + length bs) (ex_fed_tkz bs) 16"
  by (auto simp: tkz_wf_def ctx_wf_def in_wf_def mapped_def st_wf_def ex_fed_tkz_def ex_tkz_def ex_env_def ex_mem_def
      lxb_html_token_create_def)

text \<open>A tokenizer that has seen text.\<close>

lemma ex_fed: "\<exists>(E :: html_token list env) t. session E t \<and> incoming_node t = Some 1"
proof -
  have "map_option (\<lambda>(E, t, st). (incoming_node t, st)) (ex_chunk [0x3C, 0x61, 0x3E]) = Some (Some 1, LXB_STATUS_OK)"
    by code_simp
  then obtain E t where "ex_chunk [0x3C, 0x61, 0x3E] = Some (E, t, LXB_STATUS_OK)" "incoming_node t = Some 1"
    by auto
  with session_chunk [OF ex_session ex_pre [of "[0x3C, 0x61, 0x3E]" 3], of E t] show ?thesis
    by (auto simp: ex_chunk_def numeral_3_eq_3)
qed

end
