(* ===== verification/Lxb_Str_Spec.thy ===== *)
theory Lxb_Str_Spec
  imports Lxb_Str
begin

text \<open>
  What the string functions compute: the tables are ASCII case mapping and the ASCII
  classes, the comparisons that run backwards agree with those that run forwards, the
  searches find exactly the occurrences, and the case conversions map every byte.
\<close>

section \<open>The tables\<close>

definition ascii_lower :: "lxb_char \<Rightarrow> lxb_char" where
  "ascii_lower c = (if 0x41 \<le> c \<and> c \<le> 0x5A then c + 0x20 else c)"

definition ascii_upper :: "lxb_char \<Rightarrow> lxb_char" where
  "ascii_upper c = (if 0x61 \<le> c \<and> c \<le> 0x7A then c - 0x20 else c)"

definition ascii_digit :: "lxb_char \<Rightarrow> lxb_char" where
  "ascii_digit c = (if 0x30 \<le> c \<and> c \<le> 0x39 then c - 0x30 else 0xFF)"

definition ascii_hex :: "lxb_char \<Rightarrow> lxb_char" where
  "ascii_hex c = (if 0x30 \<le> c \<and> c \<le> 0x39 then c - 0x30
     else if 0x41 \<le> c \<and> c \<le> 0x46 then c - 0x37
     else if 0x61 \<le> c \<and> c \<le> 0x66 then c - 0x57 else 0xFF)"

definition ascii_alpha :: "lxb_char \<Rightarrow> bool" where
  "ascii_alpha c \<longleftrightarrow> 0x41 \<le> c \<and> c \<le> 0x5A \<or> 0x61 \<le> c \<and> c \<le> 0x7A"

lemma lower_table: "lexbor_str_res_map_lowercase = map (\<lambda>n. ascii_lower (word_of_nat n)) [0..<256]"
  by code_simp

lemma upper_table: "lexbor_str_res_map_uppercase = map (\<lambda>n. ascii_upper (word_of_nat n)) [0..<256]"
  by code_simp

lemma num_table: "lexbor_str_res_map_num = map (\<lambda>n. ascii_digit (word_of_nat n)) [0..<256]"
  by code_simp

lemma hex_table: "lexbor_str_res_map_hex = map (\<lambda>n. ascii_hex (word_of_nat n)) [0..<256]"
  by code_simp

lemma alpha_table: "map (\<lambda>v. v \<noteq> LEXBOR_STR_RES_SLIP) lexbor_str_res_alpha_character =
    map (\<lambda>n. ascii_alpha (word_of_nat n)) [0..<256]"
  by code_simp

lemma alpha_length: "length lexbor_str_res_alpha_character = 256"
  by (simp add: lexbor_str_res_alpha_character_def)

text \<open>The two case tables are the ASCII case mappings: they change the letters of the other
  case by 0x20 and no other byte.\<close>

theorem case_tables: "lowercase c = ascii_lower c \<and> uppercase c = ascii_upper c"
  by (simp add: lowercase_def uppercase_def tbl_by_spec [OF lower_table] tbl_by_spec [OF upper_table])

lemma lowercase_idem: "lowercase (lowercase c) = lowercase c"
  by (simp add: lowercase_def tbl_by_spec [OF lower_table] ascii_lower_def word_le_nat_alt)
     (auto simp: word_le_nat_alt unat_arith_simps split: if_splits)

text \<open>The digit tables give the value of the decimal and the hexadecimal digits and 0xFF for
  every other byte, and the letter table singles out the ASCII letters.\<close>

theorem class_tables:
  "tbl lexbor_str_res_map_num c = ascii_digit c \<and> tbl lexbor_str_res_map_hex c = ascii_hex c \<and>
   (is_alpha c \<longleftrightarrow> ascii_alpha c)"
proof -
  have "unat c < 256" using unsigned_less [of c] by simp
  then have "tbl (map (\<lambda>v. v \<noteq> LEXBOR_STR_RES_SLIP) lexbor_str_res_alpha_character) c = is_alpha c"
    by (simp add: tbl_def is_alpha_def nth_map alpha_length)
  then show ?thesis
    using tbl_by_spec [OF alpha_table, of c] by (simp add: tbl_by_spec [OF num_table] tbl_by_spec [OF hex_table])
qed

section \<open>Comparisons\<close>

text \<open>Comparing \<open>n\<close> bytes ignoring case, forwards or backwards, tells whether the two byte
  strings are equal up to ASCII case, whenever \<open>n\<close> bytes can be read on both sides.\<close>

theorem ncasecmp_ascii:
  assumes "n \<le> length xs" "n \<le> length ys"
  shows "lexbor_str_data_ncasecmp xs ys n = Some (map ascii_lower (take n xs) = map ascii_lower (take n ys)) \<and>
    lexbor_str_data_ncasecmp_end xs ys n = lexbor_str_data_ncasecmp xs ys n"
proof -
  have "lowercase = ascii_lower"
    by (simp add: fun_eq_iff lowercase_def tbl_by_spec [OF lower_table])
  then show ?thesis using assms by (simp add: ncasecmp_eq ncasecmp_end_eq)
qed

theorem ncasecmp_ascii_witness:
  "lexbor_str_data_ncasecmp [0x44, 0x6F, 0x43] [0x64, 0x4F, 0x63, 0x74] 3 = Some True"
  using ncasecmp_ascii [of 3 "[0x44, 0x6F, 0x43]" "[0x64, 0x4F, 0x63, 0x74]"]
  by (simp add: ascii_lower_def)

lemma str_contain_iff:
  assumes cmp: "\<And>ys. k \<le> length ys \<Longrightarrow> cmp ys what k = Some (P ys)" and "n \<le> length hay"
  shows "str_contain cmp hay n what k i = Some (\<exists>j \<ge> i. k + j \<le> n \<and> P (drop j hay))"
proof (induction "Suc n - i" arbitrary: i rule: less_induct)
  case less
  show ?case
  proof (cases "k + i \<le> n")
    case False
    then show ?thesis by (subst str_contain.simps) auto
  next
    case True
    then have c: "cmp (drop i hay) what k = Some (P (drop i hay))"
      using assms by (intro cmp) simp
    have rest: "str_contain cmp hay n what k (Suc i) = Some (\<exists>j \<ge> Suc i. k + j \<le> n \<and> P (drop j hay))"
      using True by (intro less.hyps) simp
    have "(\<exists>j \<ge> i. k + j \<le> n \<and> P (drop j hay)) \<longleftrightarrow> P (drop i hay) \<or> (\<exists>j \<ge> Suc i. k + j \<le> n \<and> P (drop j hay))"
      using True by (metis Suc_leD le_antisym not_less_eq_eq order_refl)
    then show ?thesis
      using True c rest by (subst str_contain.simps) simp
  qed
qed

text \<open>The two searches for a substring return, and are true exactly when the pattern occurs
  somewhere in the text, literally or up to ASCII case.\<close>

theorem contain_iff_occurs:
  assumes "n \<le> length hay" "k \<le> length what"
  shows "lexbor_str_data_ncmp_contain hay n what k =
      Some (\<exists>j. k + j \<le> n \<and> take k (drop j hay) = take k what) \<and>
    lexbor_str_data_ncasecmp_contain hay n what k =
      Some (\<exists>j. k + j \<le> n \<and> map lowercase (take k (drop j hay)) = map lowercase (take k what))"
  using str_contain_iff [of k lexbor_str_data_ncmp what "\<lambda>ys. take k ys = take k what" n hay 0]
    str_contain_iff [of k lexbor_str_data_ncasecmp what "\<lambda>ys. map lowercase (take k ys) = map lowercase (take k what)" n hay 0]
    assms
  by (simp add: lexbor_str_data_ncmp_contain_def lexbor_str_data_ncasecmp_contain_def lexbor_str_data_ncmp_def ncasecmp_eq)

theorem contain_iff_occurs_witness:
  "lexbor_str_data_ncmp_contain [0x61, 0x62, 0x63] 3 [0x62, 0x63] 2 = Some True"
proof -
  have "2 + 1 \<le> (3 :: nat) \<and> take 2 (drop 1 [0x61, 0x62, 0x63 :: lxb_char]) = take 2 [0x62, 0x63]" by simp
  then show ?thesis
    using contain_iff_occurs [of 3 "[0x61, 0x62, 0x63]" 2 "[0x62, 0x63]"] by (auto intro!: exI [of _ 1])
qed

lemma lowercase_zero: "lowercase c = lowercase 0 \<longleftrightarrow> c = 0"
  by (simp add: lowercase_def tbl_by_spec [OF lower_table] ascii_lower_def word_le_nat_alt)
     (auto simp: unat_arith_simps split: if_splits)

lemma casecmp_iff:
  "0 \<notin> set xs \<Longrightarrow> 0 \<notin> set ys \<Longrightarrow> lexbor_str_data_casecmp xs ys \<longleftrightarrow> map lowercase xs = map lowercase ys"
  by (induction xs ys rule: lexbor_str_data_casecmp.induct) (auto simp: lowercase_zero)

lemma cmp_iff: "0 \<notin> set xs \<Longrightarrow> 0 \<notin> set ys \<Longrightarrow> lexbor_str_data_cmp xs ys \<longleftrightarrow> xs = ys"
  by (induction xs ys rule: lexbor_str_data_cmp.induct) auto

text \<open>The first word of a string, with the white space that ends it.\<close>

fun first_word :: "lxb_char list \<Rightarrow> lxb_char list" where
  "first_word [] = []"
| "first_word (c # cs) = (if lexbor_utils_whitespace c then [c] else c # first_word cs)"

lemma cmp_ws_iff: "0 \<notin> set xs \<Longrightarrow> 0 \<notin> set ys \<Longrightarrow> lexbor_str_data_cmp_ws xs ys \<longleftrightarrow> first_word xs = first_word ys"
  by (induction xs ys rule: lexbor_str_data_cmp_ws.induct) auto

text \<open>Comparing two NUL terminated strings returns true exactly when they are equal, or equal
  up to case; the comparison that stops at white space compares the first words together
  with the white space that ends them.\<close>

theorem cmp_terminated:
  assumes "0 \<notin> set xs" "0 \<notin> set ys"
  shows "(lexbor_str_data_cmp xs ys \<longleftrightarrow> xs = ys) \<and>
    (lexbor_str_data_casecmp xs ys \<longleftrightarrow> map lowercase xs = map lowercase ys) \<and>
    (lexbor_str_data_cmp_ws xs ys \<longleftrightarrow> first_word xs = first_word ys)"
  using assms by (simp add: cmp_iff casecmp_iff cmp_ws_iff)

theorem cmp_terminated_witness:
  "lexbor_str_data_cmp_ws [0x61, 0x20, 0x62] [0x61, 0x20, 0x63] \<and> \<not> lexbor_str_data_cmp [0x61] [0x62]"
  using cmp_terminated [of "[0x61, 0x20, 0x62]" "[0x61, 0x20, 0x63]"] cmp_terminated [of "[0x61]" "[0x62]"]
  by (simp add: lexbor_utils_whitespace_def)

section \<open>Case conversion\<close>

lemma str_data_map_eq:
  assumes "n \<le> length from" "n \<le> length to"
  shows "str_data_map mp to from n = Some (map (tbl mp) (take n from) @ drop n to)"
  using assms
proof (induction n arbitrary: to)
  case (Suc n)
  have "map (tbl mp) (take (Suc n) from) = map (tbl mp) (take n from) @ [tbl mp (from ! n)]"
    using Suc.prems by (simp add: take_Suc_conv_app_nth)
  moreover have "drop n (to[n := v]) = v # drop (Suc n) to" for v
    using Suc.prems by (metis Cons_nth_drop_Suc Suc_le_lessD drop_update_cancel length_list_update lessI nth_list_update_eq)
  ultimately show ?case
    using Suc by simp
qed simp

text \<open>The case conversions write the converted bytes to the beginning of the target, leave the
  rest of it alone, and are defined whenever source and target are long enough; converting
  in place is included.\<close>

theorem case_conversion:
  assumes "n \<le> length from" "n \<le> length to"
  shows "lexbor_str_data_to_lowercase to from n = Some (map ascii_lower (take n from) @ drop n to) \<and>
    lexbor_str_data_to_uppercase to from n = Some (map ascii_upper (take n from) @ drop n to)"
  using assms
  by (simp add: lexbor_str_data_to_lowercase_def lexbor_str_data_to_uppercase_def str_data_map_eq
      tbl_by_spec [OF lower_table] tbl_by_spec [OF upper_table])

theorem case_conversion_witness:
  "lexbor_str_data_to_lowercase [1, 2, 3] [0x41, 0x62] 2 = Some [0x61, 0x62, 3]"
  using case_conversion [of 2 "[0x41, 0x62]" "[1, 2, 3]"] by (simp add: ascii_lower_def)

lemma str_data_find_eq:
  "n \<le> length xs \<Longrightarrow> str_data_find mp xs n =
     Some (if \<exists>i < n. xs ! i = tbl mp (xs ! i) then Some (GREATEST i. i < n \<and> xs ! i = tbl mp (xs ! i)) else None)"
proof (induction n)
  case (Suc n)
  let ?P = "\<lambda>n i. i < n \<and> xs ! i = tbl mp (xs ! i)"
  show ?case
  proof (cases "xs ! n = tbl mp (xs ! n)")
    case True
    then have "(GREATEST i. ?P (Suc n) i) = n" by (intro Greatest_equality) auto
    with True Suc show ?thesis by auto
  next
    case False
    then have "?P (Suc n) = ?P n" by (auto simp: fun_eq_iff less_Suc_eq)
    with False Suc show ?thesis by (simp add: less_Suc_eq)
  qed
qed simp

text \<open>\<open>find_lowercase\<close> and \<open>find_uppercase\<close> return the last byte that the conversion leaves
  unchanged.  That is any byte that is not a letter of the other case: a digit or a space
  is found as well.\<close>

theorem find_case:
  assumes "n \<le> length xs"
  shows "lexbor_str_data_find_lowercase xs n =
      Some (if \<exists>i < n. ascii_lower (xs ! i) = xs ! i then Some (GREATEST i. i < n \<and> ascii_lower (xs ! i) = xs ! i) else None) \<and>
    lexbor_str_data_find_uppercase xs n =
      Some (if \<exists>i < n. ascii_upper (xs ! i) = xs ! i then Some (GREATEST i. i < n \<and> ascii_upper (xs ! i) = xs ! i) else None)"
  using assms
  by (simp add: lexbor_str_data_find_lowercase_def lexbor_str_data_find_uppercase_def str_data_find_eq
      tbl_by_spec [OF lower_table] tbl_by_spec [OF upper_table] eq_commute [of "xs ! _"])

theorem find_case_witness: "lexbor_str_data_find_uppercase [0x31] 1 = Some (Some 0)"
proof -
  have "(GREATEST i. i < (1 :: nat) \<and> ascii_upper ([0x31] ! i) = [0x31] ! i) = 0"
    by (rule Greatest_equality) (auto simp: ascii_upper_def)
  then show ?thesis
    using find_case [of 1 "[0x31]"] by (simp add: ascii_upper_def)
qed

end
