(* ===== verification/Lxb_In_Spec.thy ===== *)
theory Lxb_In_Spec
  imports Lxb_In
begin

text \<open>
  What the walks over the incoming buffers compute, in terms of the whole text: moving
  down and up by a number of bytes is subtraction and addition on text offsets, finding
  a position finds the newest buffer that holds it, and splitting the last buffer keeps
  the chain and the text.
\<close>

section \<open>Moving\<close>

text \<open>Moving down by \<open>k\<close> bytes from a position in a chain of buffers returns a position of
  the chain, whose offset in the whole text is smaller by \<open>k\<close>, or 0 when there is less
  text.\<close>

theorem pos_down_offset:
  assumes "in_chain h (Some a) nx (a # as)" "h a = Some n"
    and "int (n_begin n) \<le> pos" "pos \<le> int (n_end n)" "0 \<le> k"
  shows "\<exists>q b bs m. lexbor_in_node_pos_down h (Some a) pos k = Some (q, b) \<and>
    (\<exists>pre. a # as = pre @ b # bs) \<and> h b = Some m \<and> int (n_begin m) \<le> q \<and> q \<le> int (n_end m) \<and>
    text_off h b bs q = max 0 (text_off h a as pos - k)"
  by (rule pos_down_chain [OF assms])

text \<open>Two buffers \<open>[10, 13)\<close> and \<open>[20, 25)\<close>.\<close>

definition ex_heap :: in_heap where
  "ex_heap = [1 \<mapsto> \<lparr> n_offset = 0, n_opt = 0, n_begin = 10, n_end = 13, n_use = 10, n_next = Some 2, n_prev = None \<rparr>,
     2 \<mapsto> \<lparr> n_offset = 3, n_opt = 0, n_begin = 20, n_end = 25, n_use = 20, n_next = None, n_prev = Some 1 \<rparr>]"

lemma ex_heap_chain: "in_chain ex_heap (Some 2) None [2, 1]"
  by (simp add: ex_heap_def)

theorem pos_down_offset_witness: "\<exists>q b. lexbor_in_node_pos_down ex_heap (Some 2) 21 3 = Some (q, b)"
  using pos_down_offset [of ex_heap 2 None "[1]" _ 21 3] ex_heap_chain by (auto simp: ex_heap_def)

text \<open>The text of the whole chain.\<close>

definition chain_len :: "in_heap \<Rightarrow> addr list \<Rightarrow> int" where
  "chain_len h as = int (sum_list (map (node_len h) as))"

lemma chain_next:
  assumes "in_chain h cur nx (xs @ b # a # ys)" "h a = Some n"
  shows "n_next n = Some b" "\<exists>m. h b = Some m \<and> n_begin m \<le> n_end m"
  using in_chain_split [of h cur nx "xs @ [b]" a ys] in_chain_node [OF assms(1), of b] assms
  by (auto split: option.splits)

lemma pos_up_chain:
  assumes "in_chain h cur None (xs @ a # ys)" "h a = Some n"
    and "int (n_begin n) \<le> pos" "pos \<le> int (n_end n)" "0 \<le> k"
  shows "\<exists>q b bs m. lexbor_in_node_pos_up h (Some a) pos k = Some (q, b) \<and>
    (\<exists>pre. xs @ a # ys = pre @ b # bs) \<and> h b = Some m \<and> int (n_begin m) \<le> q \<and> q \<le> int (n_end m) \<and>
    text_off h b bs q = min (chain_len h (xs @ a # ys)) (text_off h a ys pos + k)"
  using assms
proof (induction xs arbitrary: a ys n pos k rule: rev_induct)
  case Nil
  then have nx: "n_next n = None" by simp
  have "lexbor_in_node_pos_up h (Some a) pos k =
      Some (if pos + k \<le> int (n_end n) then pos + k else int (n_end n), a)"
    using Nil.prems nx by (subst lexbor_in_node_pos_up.simps) simp
  with Nil.prems show ?case
    by (intro exI [of _ "if pos + k \<le> int (n_end n) then pos + k else int (n_end n)"]
        exI [of _ a] exI [of _ ys] exI [of _ n]) (auto simp: text_off_def chain_len_def node_len_def)
next
  case (snoc b xs)
  have chain: "in_chain h cur None (xs @ b # a # ys)" using snoc.prems(1) by simp
  obtain m where nx: "n_next n = Some b" and m: "h b = Some m" "n_begin m \<le> n_end m"
    using chain_next [OF chain snoc.prems(2)] by blast
  show ?case
  proof (cases "pos + k \<le> int (n_end n)")
    case True
    have "lexbor_in_node_pos_up h (Some a) pos k = Some (pos + k, a)"
      using snoc.prems True by (subst lexbor_in_node_pos_up.simps) simp
    with snoc.prems True show ?thesis
      by (intro exI [of _ "pos + k"] exI [of _ a] exI [of _ ys] exI [of _ n])
         (auto simp: text_off_def chain_len_def node_len_def)
  next
    case False
    have eq: "lexbor_in_node_pos_up h (Some a) pos k =
        lexbor_in_node_pos_up h (Some b) (int (n_begin m)) (pos + k - int (n_end n))"
      using snoc.prems False nx m by (subst lexbor_in_node_pos_up.simps) simp
    have off: "text_off h b (a # ys) (int (n_begin m)) + (pos + k - int (n_end n)) = text_off h a ys pos + k"
      using snoc.prems(2-4) m by (simp add: text_off_def node_len_def)
    show ?thesis
      using snoc.IH [OF chain m(1), of "int (n_begin m)" "pos + k - int (n_end n)"] False m
      unfolding eq off by simp
  qed
qed

text \<open>Moving up by \<open>k\<close> bytes from a position in a chain of buffers returns a position of the
  chain, whose offset in the whole text is larger by \<open>k\<close>, or the length of the text when
  there is less text.\<close>

theorem pos_up_offset:
  assumes "in_chain h cur None (xs @ a # ys)" "h a = Some n"
    and "int (n_begin n) \<le> pos" "pos \<le> int (n_end n)" "0 \<le> k"
  shows "\<exists>q b bs m. lexbor_in_node_pos_up h (Some a) pos k = Some (q, b) \<and>
    (\<exists>pre. xs @ a # ys = pre @ b # bs) \<and> h b = Some m \<and> int (n_begin m) \<le> q \<and> q \<le> int (n_end m) \<and>
    text_off h b bs q = min (chain_len h (xs @ a # ys)) (text_off h a ys pos + k)"
  by (rule pos_up_chain [OF assms])

theorem pos_up_offset_witness: "\<exists>q b. lexbor_in_node_pos_up ex_heap (Some 1) 12 3 = Some (q, b)"
  using pos_up_offset [of ex_heap "Some 2" "[2]" 1 "[]" _ 12 3] ex_heap_chain by (auto simp: ex_heap_def)

section \<open>Finding\<close>

definition in_node_holds :: "in_heap \<Rightarrow> addr \<Rightarrow> addr \<Rightarrow> bool" where
  "in_node_holds h pos a = (case h a of None \<Rightarrow> False | Some n \<Rightarrow> lexbor_in_segment n pos)"

lemma in_node_last_chain:
  assumes "in_chain h cur None (xs @ a # ys)"
  shows "in_node_last h a = Some (hd (xs @ [a]))"
  using assms
proof (induction xs arbitrary: a ys rule: rev_induct)
  case Nil
  then obtain n where "h a = Some n" "n_next n = None" by (auto split: option.splits)
  then show ?case by (subst in_node_last.simps) simp
next
  case (snoc b xs)
  have chain: "in_chain h cur None (xs @ b # a # ys)" using snoc.prems by simp
  obtain n where n: "h a = Some n" using in_chain_node [OF snoc.prems, of a] by auto
  have "in_node_last h a = in_node_last h b"
    using n chain_next [OF chain n] by (subst in_node_last.simps) simp
  then show ?case
    using snoc.IH [OF chain] by (cases xs) simp_all
qed

lemma in_node_find_back_chain:
  assumes "in_chain h p nx as"
  shows "in_node_find_back h p pos = Some (List.find (in_node_holds h pos) as)"
  using assms
proof (induction as arbitrary: p nx)
  case Nil
  then show ?case by (subst in_node_find_back.simps) simp
next
  case (Cons a as)
  then obtain n where n: "p = Some a" "h a = Some n" "in_chain h (n_prev n) (Some a) as"
    by (auto split: option.splits)
  then have "in_node_holds h pos a \<longleftrightarrow> \<not> (n_begin n > pos \<or> n_end n < pos)"
    by (auto simp: in_node_holds_def lexbor_in_segment_def)
  with n Cons.IH show ?case
    by (subst in_node_find_back.simps) simp
qed

text \<open>Looking up a position, from any node of the chain, returns the newest buffer that holds
  it, and NULL exactly when none does.\<close>

theorem find_newest:
  assumes "in_chain h cur None as" "a \<in> set as"
  shows "lexbor_in_node_find h (Some a) pos = Some (List.find (in_node_holds h pos) as)"
proof -
  obtain xs ys where as: "as = xs @ a # ys" using assms(2) by (meson split_list)
  then have "as \<noteq> []" "hd (xs @ [a]) = hd as" by (cases xs; simp)+
  moreover have "cur = Some (hd as)" using assms(1) \<open>as \<noteq> []\<close> by (cases as) auto
  ultimately show ?thesis
    using in_node_last_chain [of h cur xs a ys] in_node_find_back_chain [OF assms(1)] assms(1) as
    by (simp add: lexbor_in_node_find_def)
qed

theorem find_newest_witness: "lexbor_in_node_find ex_heap (Some 1) 22 = Some (Some 2)"
  using find_newest [OF ex_heap_chain, of 1 22]
  by (simp add: ex_heap_def in_node_holds_def lexbor_in_segment_def)

section \<open>Splitting\<close>

text \<open>Splitting the last buffer of a chain at a position inside it appends a node; the chain
  stays well linked, the two nodes together have the bytes of the old one, and the
  position's offset in the whole text is that of the beginning of the new node.\<close>

theorem split_last:
  assumes "in_chain h (Some a) None (a # as)" "h a = Some n" "h b = None"
    and "n_begin n \<le> pos" "pos \<le> n_end n" "mem_range m (n_begin n) (n_end n - n_begin n) = Some cs"
  shows "\<exists>h' n1 n2. lexbor_in_node_split (Some b) h (Some a) pos = Some (h', Some b) \<and>
    in_chain h' (Some b) None (b # a # as) \<and> h' a = Some n1 \<and> h' b = Some n2 \<and>
    mem_range m (n_begin n1) (n_end n1 - n_begin n1) = Some (take (pos - n_begin n) cs) \<and>
    mem_range m (n_begin n2) (n_end n2 - n_begin n2) = Some (drop (pos - n_begin n) cs) \<and>
    text_off h' b (a # as) (int (n_begin n2)) = text_off h a as (int pos)"
proof -
  define h' where "h' = h(a \<mapsto> n\<lparr> n_end := pos, n_next := Some b, n_use := (if n_use n > pos then pos else n_use n) \<rparr>,
    b \<mapsto> \<lparr> n_offset = n_offset n + (pos - n_begin n), n_opt = LEXBOR_IN_OPT_UNDEF, n_begin = pos, n_end = n_end n,
      n_use = (if n_use n > pos then n_use n else pos), n_next = None, n_prev = Some a \<rparr>)"
  have ab: "a \<noteq> b" "a \<notin> set as" "b \<notin> set as"
    using assms(2,3) in_chain_distinct [OF assms(1)] in_chain_node [OF assms(1), of b] by auto
  have same: "in_chain h' p nx as = in_chain h p nx as" for p nx
  proof -
    have "\<forall>c \<in> set as. h' c = h c" using ab by (auto simp: h'_def)
    then show ?thesis by (induction as arbitrary: p nx) (auto split: option.splits)
  qed
  have len: "node_len h' c = node_len h c" if "c \<in> set as" for c
    using that ab by (auto simp: node_len_def h'_def)
  have "mem_range m (n_begin n) ((pos - n_begin n) + (n_end n - pos)) = Some cs"
    using assms(4-6) by simp
  then obtain xs ys where "mem_range m (n_begin n) (pos - n_begin n) = Some xs"
    "mem_range m pos (n_end n - pos) = Some ys" "cs = xs @ ys"
    using assms(4) unfolding mem_range_add by (auto split: bind_splits)
  moreover from this have "length xs = pos - n_begin n" using mem_range_length by blast
  moreover have "sum_list (map (node_len h') as) = sum_list (map (node_len h) as)"
    using len by (metis map_eq_conv)
  ultimately show ?thesis
    using assms(1-5) ab same
    by (intro exI [of _ h'] exI [of _ "the (h' a)"] exI [of _ "the (h' b)"])
       (auto simp: lexbor_in_node_split_def h'_def Let_def text_off_def node_len_def)
qed

theorem split_last_witness:
  "\<exists>h'. lexbor_in_node_split (Some 3) ex_heap (Some 2) 22 = Some (h', Some 3) \<and> in_chain h' (Some 3) None [3, 2, 1]"
  using split_last [of ex_heap 2 "[1]" _ 3 22 "\<lambda>_. Some 0" "[0, 0, 0, 0, 0]"] ex_heap_chain
  by (auto simp: ex_heap_def eval_nat_numeral)

end
