(* ===== verification/Lxb_Html_In_Spec.thy ===== *)
theory Lxb_Html_In_Spec
  imports Lxb_Html_In Lxb_In_Spec
begin

text \<open>
  The functions on text that is spread over several buffers, against the text itself:
  collecting it and looking up a tag name do not depend on where the text was cut.  The
  comparison does: when the text is cut, it ignores where the text ends.
\<close>

lemma mem_range_take:
  assumes "mem_range m a n = Some cs" "k \<le> n"
  shows "mem_range m a k = Some (take k cs)"
proof -
  have "mem_range m a (k + (n - k)) = Some cs" using assms by simp
  then obtain xs ys where "mem_range m a k = Some xs" "cs = xs @ ys"
    unfolding mem_range_add by (auto split: bind_splits)
  with mem_range_length show ?thesis by fastforce
qed

text \<open>The text from \<open>bgn\<close> in the buffer \<open>a\<close> to \<open>fin\<close> in the last of the buffers \<open>bs\<close> that follow it.\<close>

fun span_text :: "bytemem \<Rightarrow> in_heap \<Rightarrow> addr \<Rightarrow> addr list \<Rightarrow> addr \<Rightarrow> addr \<Rightarrow> lxb_char list option" where
  "span_text m h a [] bgn fin = mem_range m bgn (fin - bgn)"
| "span_text m h a (b # bs) bgn fin = do {
     n \<leftarrow> h a;
     xs \<leftarrow> mem_range m bgn (n_end n - bgn);
     k \<leftarrow> h b;
     ys \<leftarrow> span_text m h b bs (n_begin k) fin;
     Some (xs @ ys)
   }"

text \<open>\<open>fin\<close> lies in the last buffer, and in none of those from \<open>a\<close> on before it.\<close>

fun span_ends :: "in_heap \<Rightarrow> addr \<Rightarrow> addr list \<Rightarrow> addr \<Rightarrow> bool" where
  "span_ends h a [] fin \<longleftrightarrow> in_node_holds h fin a"
| "span_ends h a (b # bs) fin \<longleftrightarrow> \<not> in_node_holds h fin a \<and> span_ends h b bs fin"

lemma in_make_loop_text:
  assumes "in_wf m h cur (xs @ a # ys)" "h a = Some n" "n_begin n \<le> bgn" "bgn \<le> n_end n"
    and "span_ends h a (rev xs) fin" "xs = [] \<Longrightarrow> bgn \<le> fin"
  shows "\<exists>t. span_text m h a (rev xs) bgn fin = Some t \<and> in_make_loop (\<lambda>_ _. True) m h a bgn fin s = Some (LXB_STATUS_OK, s @ t)"
  using assms
proof (induction xs arbitrary: a ys n bgn s rule: rev_induct)
  case Nil
  then have seg: "lexbor_in_segment n fin" by (simp add: in_node_holds_def)
  then have "mapped m bgn (bgn + (fin - bgn))"
    using in_wf_mapped [OF Nil.prems(1), of a n] Nil.prems
    by (auto simp: lexbor_in_segment_def elim!: mapped_sub)
  from mem_range_mapped [OF this] seg Nil.prems show ?case
    by (subst in_make_loop.simps) auto
next
  case (snoc b xs)
  have wf: "in_wf m h cur (xs @ b # a # ys)" using snoc.prems(1) by simp
  obtain k where k: "h b = Some k" "n_begin k \<le> n_end k" and nx: "n_next n = Some b"
    using in_wf_next [OF wf snoc.prems(2)] by blast
  have "mapped m bgn (bgn + (n_end n - bgn))"
    using in_wf_mapped [OF snoc.prems(1), of a n] snoc.prems by (auto elim!: mapped_sub)
  then obtain zs where zs: "mem_range m bgn (n_end n - bgn) = Some zs"
    using mem_range_mapped by blast
  have "bgn' \<le> fin" if "xs = []" "bgn' = n_begin k" for bgn'
    using that snoc.prems(5) k by (simp add: in_node_holds_def lexbor_in_segment_def)
  then obtain t where t: "span_text m h b (rev xs) (n_begin k) fin = Some t"
    "in_make_loop (\<lambda>_ _. True) m h b (n_begin k) fin (s @ zs) = Some (LXB_STATUS_OK, s @ zs @ t)"
    using snoc.IH [OF wf k(1) order.refl k(2), of "s @ zs"] snoc.prems(5) by auto
  have "\<not> lexbor_in_segment n fin"
    using snoc.prems(2,5) by (simp add: in_node_holds_def)
  with t zs k nx snoc.prems(2,4) show ?case
    by (subst in_make_loop.simps) simp
qed

text \<open>C39: Collecting the text between two positions yields exactly the bytes between them, over
  any number of buffers, appended to what the string held.\<close>

theorem in_make_text:
  assumes "in_wf m h cur (xs @ a # ys)" "h a = Some n" "n_begin n \<le> bgn" "bgn \<le> n_end n" "bgn \<noteq> NULL"
    and "span_ends h a (rev xs) fin" "xs = [] \<Longrightarrow> bgn \<le> fin"
  shows "\<exists>t. span_text m h a (rev xs) bgn fin = Some t \<and>
    lxb_html_in_make (\<lambda>_ _. True) m h (Some a) bgn fin (Some s) = Some (LXB_STATUS_OK, Some (s @ t))"
  using in_make_loop_text [OF assms(1-4,6,7), of s] assms(5)
  by (auto simp: lxb_html_in_make_def)

lemma ex_heap_node:
  "ex_heap 1 = Some \<lparr> n_offset = 0, n_opt = 0, n_begin = 10, n_end = 13, n_use = 10, n_next = Some 2, n_prev = None \<rparr>"
  "ex_heap (Suc 0) = Some \<lparr> n_offset = 0, n_opt = 0, n_begin = 10, n_end = 13, n_use = 10, n_next = Some 2, n_prev = None \<rparr>"
  "ex_heap 2 = Some \<lparr> n_offset = 3, n_opt = 0, n_begin = 20, n_end = 25, n_use = 20, n_next = None, n_prev = Some 1 \<rparr>"
  by (simp_all add: ex_heap_def)

definition ex_bytes :: bytemem where
  "ex_bytes = [10 \<mapsto> 0x73, 11 \<mapsto> 0x63, 12 \<mapsto> 0x72, 20 \<mapsto> 0x69, 21 \<mapsto> 0x70, 22 \<mapsto> 0x74, 23 \<mapsto> 0x78, 24 \<mapsto> 0x3E]"

lemma ex_heap_wf: "in_wf ex_bytes ex_heap (Some 2) [2, 1]"
  unfolding in_wf_def
proof (intro conjI)
  show "\<forall>a n. a \<in> set [2, 1] \<and> ex_heap a = Some n \<longrightarrow> mapped ex_bytes (n_begin n) (n_end n)"
    by (auto simp: ex_heap_def ex_bytes_def mapped_def)
qed (auto simp: ex_heap_def split: if_splits)

theorem in_make_text_witness:
  "\<exists>t. lxb_html_in_make (\<lambda>_ _. True) ex_bytes ex_heap (Some 1) 11 22 (Some [1]) = Some (LXB_STATUS_OK, Some ([1] @ t))"
  using in_make_text [of ex_bytes ex_heap "Some 2" "[2]" 1 "[]" _ 11 22 "[1]"] ex_heap_wf
  by (auto simp: ex_heap_node in_node_holds_def lexbor_in_segment_def)

text \<open>The tag looked up for a name is the tag of its bytes, however the name was cut into
  buffers.\<close>

theorem in_tag_id_text:
  assumes "in_wf m h cur (xs @ a # ys)" "h a = Some n" "n_begin n \<le> bgn" "bgn \<le> n_end n" "bgn \<noteq> NULL"
    and "span_ends h a (rev xs) fin" "xs = [] \<Longrightarrow> bgn \<le> fin"
  shows "\<exists>t. span_text m h a (rev xs) bgn fin = Some t \<and> lxb_html_in_tag_id (\<lambda>_ _. True) tid m h (Some a) bgn fin = Some (tid t)"
proof -
  obtain t where t: "span_text m h a (rev xs) bgn fin = Some t"
    "in_make_loop (\<lambda>_ _. True) m h a bgn fin [] = Some (LXB_STATUS_OK, t)"
    using in_make_loop_text [OF assms(1-4,6,7), of "[]"] by auto
  show ?thesis
  proof (cases xs rule: rev_cases)
    case Nil
    then show ?thesis
      using t(1) assms(2,6,7) by (auto simp: lxb_html_in_tag_id_def in_node_holds_def)
  next
    case (snoc zs b)
    then have "\<not> lexbor_in_segment n fin" using assms(2,6) by (simp add: in_node_holds_def)
    then show ?thesis
      using t assms(2,5) by (auto simp: lxb_html_in_tag_id_def lxb_html_in_make_def)
  qed
qed

theorem in_tag_id_text_witness:
  "lxb_html_in_tag_id (\<lambda>_ _. True) length ex_bytes ex_heap (Some 1) 10 23 = Some 6"
proof -
  have "span_text ex_bytes ex_heap 1 [2] 10 23 = Some [0x73, 0x63, 0x72, 0x69, 0x70, 0x74]"
    by code_simp
  then show ?thesis
    using in_tag_id_text [of ex_bytes ex_heap "Some 2" "[2]" 1 "[]" _ 10 23 length] ex_heap_wf
    by (auto simp: ex_heap_node in_node_holds_def lexbor_in_segment_def)
qed

section \<open>Comparing\<close>

text \<open>The text from \<open>bgn\<close> to the end of the last buffer.\<close>

fun rest_text :: "bytemem \<Rightarrow> in_heap \<Rightarrow> addr \<Rightarrow> addr list \<Rightarrow> addr \<Rightarrow> lxb_char list option" where
  "rest_text m h a [] bgn = do { n \<leftarrow> h a; mem_range m bgn (n_end n - bgn) }"
| "rest_text m h a (b # bs) bgn = do {
     n \<leftarrow> h a;
     xs \<leftarrow> mem_range m bgn (n_end n - bgn);
     k \<leftarrow> h b;
     ys \<leftarrow> rest_text m h b bs (n_begin k);
     Some (xs @ ys)
   }"

lemma in_ncasecmp_loop_rest:
  assumes "in_wf m h cur (xs @ a # ys)" "h a = Some n" "n_begin n \<le> bgn" "bgn \<le> n_end n" "len \<le> length data"
  shows "\<exists>t. rest_text m h a (rev xs) bgn = Some t \<and> in_ncasecmp_loop m h a bgn data len =
    Some (len \<le> length t \<and> map lowercase (take len t) = map lowercase (take len data))"
  using assms
proof (induction xs arbitrary: a ys n bgn data len rule: rev_induct)
  case Nil
  then have nx: "n_next n = None" by (simp add: in_wf_def)
  let ?k = "min (n_end n - bgn) len"
  have map: "mapped m bgn (bgn + (n_end n - bgn))"
    using in_wf_mapped [OF Nil.prems(1), of a n] Nil.prems by (auto elim!: mapped_sub)
  then obtain t where t: "mem_range m bgn (n_end n - bgn) = Some t" "length t = n_end n - bgn"
    using mem_range_mapped by blast
  have k: "mem_range m bgn ?k = Some (take ?k t)"
    using mem_range_take [OF t(1), of ?k] by simp
  show ?case
    using Nil.prems(2,4,5) nx t k
    by (subst in_ncasecmp_loop.simps) (auto simp: ncasecmp_eq Let_def min_def)
next
  case (snoc b xs)
  have wf: "in_wf m h cur (xs @ b # a # ys)" using snoc.prems(1) by simp
  obtain c where c: "h b = Some c" "n_begin c \<le> n_end c" and nx: "n_next n = Some b"
    using in_wf_next [OF wf snoc.prems(2)] by blast
  let ?k = "min (n_end n - bgn) len"
  have "mapped m bgn (bgn + (n_end n - bgn))"
    using in_wf_mapped [OF snoc.prems(1), of a n] snoc.prems by (auto elim!: mapped_sub)
  then obtain t where t: "mem_range m bgn (n_end n - bgn) = Some t" "length t = n_end n - bgn"
    using mem_range_mapped by blast
  have k: "mem_range m bgn ?k = Some (take ?k t)"
    using mem_range_take [OF t(1), of ?k] by simp
  have len: "len - ?k \<le> length (drop ?k data)" using snoc.prems(5) by (simp add: diff_le_mono)
  obtain r where r: "rest_text m h b (rev xs) (n_begin c) = Some r"
    "in_ncasecmp_loop m h b (n_begin c) (drop ?k data) (len - ?k) =
      Some (len - ?k \<le> length r \<and> map lowercase (take (len - ?k) r) = map lowercase (take (len - ?k) (drop ?k data)))"
    using snoc.IH [OF wf c(1) order.refl c(2) len] by blast
  have split: "map lowercase (take len (t @ r)) = map lowercase (take len data) \<longleftrightarrow>
      map lowercase (take ?k t) = map lowercase (take ?k data) \<and>
      map lowercase (take (len - ?k) r) = map lowercase (take (len - ?k) (drop ?k data))"
    if "len - ?k \<le> length r" "\<not> len \<le> n_end n - bgn"
    using that t(2) snoc.prems(5) take_add [of ?k "len - ?k" data] by (auto simp: min_def)
  show ?case
    using snoc.prems(2,4,5) nx t k r c split
    by (subst in_ncasecmp_loop.simps) (auto simp: ncasecmp_eq Let_def min_def)
qed

text \<open>When the end lies in the buffer of the beginning, comparing tells whether the text between
  the two positions is the given word up to case.  When it lies in a later buffer, comparing
  tells whether the whole text from the beginning on starts with the word: the end is not
  looked at.\<close>

theorem in_ncasecmp_text:
  assumes "in_wf m h cur (xs @ a # ys)" "h a = Some n" "n_begin n \<le> bgn" "bgn \<le> n_end n" "len \<le> length data"
    and "span_ends h a (rev xs) fin" "xs = [] \<Longrightarrow> bgn \<le> fin"
  shows "\<exists>t r. span_text m h a (rev xs) bgn fin = Some t \<and> rest_text m h a (rev xs) bgn = Some r \<and>
    lxb_html_in_ncasecmp m h (Some a) bgn fin data len =
      Some (if xs = [] then length t = len \<and> map lowercase t = map lowercase (take len data)
            else len \<le> length r \<and> map lowercase (take len r) = map lowercase (take len data))"
proof -
  obtain t where t: "span_text m h a (rev xs) bgn fin = Some t"
    using in_make_loop_text [OF assms(1-4,6,7)] by blast
  obtain r where r: "rest_text m h a (rev xs) bgn = Some r" "in_ncasecmp_loop m h a bgn data len =
      Some (len \<le> length r \<and> map lowercase (take len r) = map lowercase (take len data))"
    using in_ncasecmp_loop_rest [OF assms(1-5)] by blast
  show ?thesis
  proof (cases xs rule: rev_cases)
    case Nil
    then have seg: "lexbor_in_segment n fin" and mr: "mem_range m bgn (fin - bgn) = Some t" and le: "bgn \<le> fin"
      using assms(2,6,7) t by (auto simp: in_node_holds_def)
    have len: "length t = fin - bgn" using mem_range_length [OF mr] .
    have "int fin - int bgn = int len \<longleftrightarrow> length t = len" using le len by auto
    moreover have "mem_range m bgn len = Some t \<and> lexbor_str_data_ncasecmp t data len = Some (map lowercase t = map lowercase (take len data))"
      if "length t = len"
      using that mr len ncasecmp_eq [of len t data] assms(5) by simp
    ultimately have "lxb_html_in_ncasecmp m h (Some a) bgn fin data len =
        Some (length t = len \<and> map lowercase t = map lowercase (take len data))"
      using seg assms(2) by (cases "length t = len") (simp_all add: lxb_html_in_ncasecmp_def)
    then show ?thesis using Nil t r(1) by auto
  next
    case (snoc zs b)
    then have "\<not> lexbor_in_segment n fin" using assms(2,6) by (simp add: in_node_holds_def)
    then show ?thesis
      using snoc t r assms(2) by (simp add: lxb_html_in_ncasecmp_def)
  qed
qed

theorem in_ncasecmp_text_witness:
  "\<exists>t. rest_text ex_bytes ex_heap 1 [2] 10 = Some t \<and>
    lxb_html_in_ncasecmp ex_bytes ex_heap (Some 1) 10 22 [0x53, 0x43] 2 =
      Some (2 \<le> length t \<and> map lowercase (take 2 t) = map lowercase [0x53, 0x43])"
  using in_ncasecmp_text [of ex_bytes ex_heap "Some 2" "[2]" 1 "[]" _ 10 2 "[0x53, 0x43]" 22] ex_heap_wf
  by (auto simp: ex_heap_node in_node_holds_def lexbor_in_segment_def)

text \<open>The name \<open>scriptx\<close> is not \<open>script\<close> when it lies in one buffer, and is \<open>script\<close> when it is
  cut into \<open>scr\<close> and \<open>iptx\<close>.\<close>

theorem in_ncasecmp_depends_on_cut:
  "lxb_html_in_ncasecmp (\<lambda>x. if x < 7 then Some ([0x73, 0x63, 0x72, 0x69, 0x70, 0x74, 0x78] ! x) else None)
      [1 \<mapsto> \<lparr> n_offset = 0, n_opt = 0, n_begin = 0, n_end = 7, n_use = 0, n_next = None, n_prev = None \<rparr>]
      (Some 1) 0 7 [0x73, 0x63, 0x72, 0x69, 0x70, 0x74] 6 = Some False \<and>
   lxb_html_in_ncasecmp ex_bytes ex_heap (Some 1) 10 24 [0x73, 0x63, 0x72, 0x69, 0x70, 0x74] 6 = Some True"
  by code_simp

end
