(* ===== verification/Lxb_Array.thy ===== *)
theory Lxb_Array
  imports Lxb_Prelude
begin

text \<open>
  The growing array of pointers (\<open>core/array.c\<close>, \<open>core/array.h\<close>).  The block behind
  \<open>array->list\<close> is the list of its cells of eight bytes; a cell that has not been written
  since it was allocated is \<^const>\<open>None\<close>, and reading it, or a cell beyond the block, is
  undefined.  Sizes are 64 bit words, so that \<open>sizeof(void *) * size\<close> and
  \<open>begin + length\<close> wrap as they do in C.

  The second half shows that the operations are those of a list as long as the sizes are
  realistic, and what happens beyond.
\<close>

section \<open>The object and its block\<close>

record lexbor_array =
  ar_list :: "addr option list option"
  ar_size :: size_t
  ar_length :: size_t

text \<open>The number of cells in a block of \<open>bytes\<close> bytes.\<close>

definition cells :: "size_t \<Rightarrow> nat" where
  "cells bytes = unat bytes div 8"

definition cell_get :: "lexbor_array \<Rightarrow> size_t \<Rightarrow> addr option" where
  "cell_get a i = do { l \<leftarrow> ar_list a; if unat i < length l then l ! unat i else None }"

definition cell_set :: "lexbor_array \<Rightarrow> size_t \<Rightarrow> addr \<Rightarrow> lexbor_array option" where
  "cell_set a i v = do {
     l \<leftarrow> ar_list a;
     if unat i < length l then Some (a\<lparr> ar_list := Some (l[unat i := Some v]) \<rparr>) else None
   }"

text \<open>\<open>memset(&list[i], 0, bytes)\<close>\<close>

definition cells_zero :: "lexbor_array \<Rightarrow> size_t \<Rightarrow> size_t \<Rightarrow> lexbor_array option" where
  "cells_zero a i bytes = do {
     l \<leftarrow> ar_list a;
     let n = cells bytes;
     if unat i + n \<le> length l
     then Some (a\<lparr> ar_list := Some (take (unat i) l @ replicate n (Some NULL) @ drop (unat i + n) l) \<rparr>)
     else None
   }"

text \<open>\<open>memmove(&list[i], &list[j], bytes)\<close>\<close>

definition cells_move :: "lexbor_array \<Rightarrow> size_t \<Rightarrow> size_t \<Rightarrow> size_t \<Rightarrow> lexbor_array option" where
  "cells_move a i j bytes = do {
     l \<leftarrow> ar_list a;
     let n = cells bytes;
     if unat i + n \<le> length l \<and> unat j + n \<le> length l
     then Some (a\<lparr> ar_list := Some (take (unat i) l @ take n (drop (unat j) l) @ drop (unat i + n) l) \<rparr>)
     else None
   }"

section \<open>Operations\<close>

text \<open>\<open>alloc\<close> tells for a number of bytes whether the allocator can provide them.\<close>

definition lexbor_array_init :: "(size_t \<Rightarrow> bool) \<Rightarrow> lexbor_array option \<Rightarrow> size_t \<Rightarrow> lexbor_array option \<times> lxb_status" where
  "lexbor_array_init alloc array sz =
    (case array of
       None \<Rightarrow> (None, LXB_STATUS_ERROR_OBJECT_IS_NULL)
     | Some a \<Rightarrow>
         if sz = 0 then (Some a, LXB_STATUS_ERROR_TOO_SMALL_SIZE)
         else let a = a\<lparr> ar_length := 0, ar_size := sz \<rparr> in
           if alloc (8 * sz)
           then (Some (a\<lparr> ar_list := Some (replicate (cells (8 * sz)) None) \<rparr>), LXB_STATUS_OK)
           else (Some (a\<lparr> ar_list := None \<rparr>), LXB_STATUS_ERROR_MEMORY_ALLOCATION))"

definition lexbor_array_clean :: "lexbor_array \<Rightarrow> lexbor_array" where
  "lexbor_array_clean a = a\<lparr> ar_length := 0 \<rparr>"

text \<open>The result is \<^const>\<open>None\<close> when the object itself is freed.\<close>

definition lexbor_array_destroy :: "lexbor_array option \<Rightarrow> bool \<Rightarrow> lexbor_array option" where
  "lexbor_array_destroy array self_destroy =
    (case array of
       None \<Rightarrow> None
     | Some a \<Rightarrow>
         let a = (if ar_list a \<noteq> None then a\<lparr> ar_length := 0, ar_size := 0, ar_list := None \<rparr> else a)
         in if self_destroy then None else Some a)"

text \<open>The second result tells whether the returned list is not NULL.  Reallocating to zero
  bytes is undefined.\<close>

definition lexbor_array_expand :: "(size_t \<Rightarrow> bool) \<Rightarrow> lexbor_array \<Rightarrow> size_t \<Rightarrow> (lexbor_array \<times> bool) option" where
  "lexbor_array_expand alloc a up_to =
    (if ar_length a > SIZE_MAX - up_to then Some (a, False)
     else let new_size = ar_length a + up_to; bytes = 8 * new_size in
       if bytes = 0 then None
       else if \<not> alloc bytes then Some (a, False)
       else let l = (case ar_list a of None \<Rightarrow> [] | Some l \<Rightarrow> l); n = cells bytes in
         Some (a\<lparr> ar_list := Some (take n l @ replicate (n - length l) None), ar_size := new_size \<rparr>, True))"

definition lexbor_array_push :: "(size_t \<Rightarrow> bool) \<Rightarrow> lexbor_array \<Rightarrow> addr \<Rightarrow> (lexbor_array \<times> lxb_status) option" where
  "lexbor_array_push alloc a v = do {
     (a, ok) \<leftarrow> (if ar_length a \<ge> ar_size a then lexbor_array_expand alloc a 128 else Some (a, True));
     if \<not> ok then Some (a, LXB_STATUS_ERROR_MEMORY_ALLOCATION)
     else do {
       a \<leftarrow> cell_set a (ar_length a) v;
       Some (a\<lparr> ar_length := ar_length a + 1 \<rparr>, LXB_STATUS_OK)
     }
   }"

definition lexbor_array_pop :: "lexbor_array \<Rightarrow> (lexbor_array \<times> addr) option" where
  "lexbor_array_pop a =
    (if ar_length a = 0 then Some (a, NULL)
     else do {
       let a = a\<lparr> ar_length := ar_length a - 1 \<rparr>;
       v \<leftarrow> cell_get a (ar_length a);
       Some (a, v)
     })"

definition lexbor_array_insert :: "(size_t \<Rightarrow> bool) \<Rightarrow> lexbor_array \<Rightarrow> size_t \<Rightarrow> addr \<Rightarrow> (lexbor_array \<times> lxb_status) option" where
  "lexbor_array_insert alloc a idx v =
    (if idx \<ge> ar_length a then do {
       let up_to = (idx - ar_length a) + 1;
       (a, ok) \<leftarrow> (if idx \<ge> ar_size a then lexbor_array_expand alloc a up_to else Some (a, True));
       if \<not> ok then Some (a, LXB_STATUS_ERROR_MEMORY_ALLOCATION)
       else do {
         a \<leftarrow> cells_zero a (ar_length a) (8 * up_to);
         a \<leftarrow> cell_set a idx v;
         Some (a\<lparr> ar_length := ar_length a + up_to \<rparr>, LXB_STATUS_OK)
       }
     }
     else do {
       (a, ok) \<leftarrow> (if ar_length a \<ge> ar_size a then lexbor_array_expand alloc a 32 else Some (a, True));
       if \<not> ok then Some (a, LXB_STATUS_ERROR_MEMORY_ALLOCATION)
       else do {
         a \<leftarrow> cells_move a (idx + 1) idx (8 * (ar_length a - idx));
         a \<leftarrow> cell_set a idx v;
         Some (a\<lparr> ar_length := ar_length a + 1 \<rparr>, LXB_STATUS_OK)
       }
     })"

definition lexbor_array_set :: "(size_t \<Rightarrow> bool) \<Rightarrow> lexbor_array \<Rightarrow> size_t \<Rightarrow> addr \<Rightarrow> (lexbor_array \<times> lxb_status) option" where
  "lexbor_array_set alloc a idx v =
    (if idx \<ge> ar_length a then do {
       let up_to = (idx - ar_length a) + 1;
       (a, ok) \<leftarrow> (if idx \<ge> ar_size a then lexbor_array_expand alloc a up_to else Some (a, True));
       if \<not> ok then Some (a, LXB_STATUS_ERROR_MEMORY_ALLOCATION)
       else do {
         a \<leftarrow> cells_zero a (ar_length a) (8 * up_to);
         let a = a\<lparr> ar_length := ar_length a + up_to \<rparr>;
         a \<leftarrow> cell_set a idx v;
         Some (a, LXB_STATUS_OK)
       }
     }
     else do {
       a \<leftarrow> cell_set a idx v;
       Some (a, LXB_STATUS_OK)
     })"

definition lexbor_array_delete :: "lexbor_array \<Rightarrow> size_t \<Rightarrow> size_t \<Rightarrow> lexbor_array option" where
  "lexbor_array_delete a bgn len =
    (if bgn \<ge> ar_length a \<or> len = 0 then Some a
     else let end_len = bgn + len in
       if end_len \<ge> ar_length a then Some (a\<lparr> ar_length := bgn \<rparr>)
       else do {
         a \<leftarrow> cells_move a bgn end_len (8 * (ar_length a - end_len));
         Some (a\<lparr> ar_length := ar_length a - len \<rparr>)
       })"

definition lexbor_array_get :: "lexbor_array \<Rightarrow> size_t \<Rightarrow> addr option" where
  "lexbor_array_get a idx = (if idx \<ge> ar_length a then Some NULL else cell_get a idx)"

section \<open>The array as a list\<close>

definition arr_abs :: "lexbor_array \<Rightarrow> addr list" where
  "arr_abs a = (case ar_list a of None \<Rightarrow> [] | Some l \<Rightarrow> map the (take (unat (ar_length a)) l))"

text \<open>The block has the announced size, in a realistic range, and its used part is written.\<close>

definition arr_inv :: "lexbor_array \<Rightarrow> bool" where
  "arr_inv a \<longleftrightarrow> (\<exists>l. ar_list a = Some l \<and> length l = unat (ar_size a) \<and> unat (ar_size a) \<le> 2 ^ 60 \<and>
     unat (ar_length a) \<le> unat (ar_size a) \<and> None \<notin> set (take (unat (ar_length a)) l))"

text \<open>The used part of the block.\<close>

lemma arr_invE:
  assumes "arr_inv a"
  obtains l where "ar_list a = Some l" "length l = unat (ar_size a)" "unat (ar_size a) \<le> 2 ^ 60"
    "unat (ar_length a) = length (arr_abs a)" "length (arr_abs a) \<le> length l"
    "take (length (arr_abs a)) l = map Some (arr_abs a)"
proof -
  from assms obtain l where l: "ar_list a = Some l" "length l = unat (ar_size a)" "unat (ar_size a) \<le> 2 ^ 60"
    "unat (ar_length a) \<le> unat (ar_size a)" "None \<notin> set (take (unat (ar_length a)) l)"
    by (auto simp: arr_inv_def)
  have "map Some (map the (take n l)) = take n l" if "None \<notin> set (take n l)" for n
    unfolding map_map comp_def using that by (intro map_idI) (metis option.collapse)
  with l that show ?thesis by (simp add: arr_abs_def)
qed

lemma arr_invI:
  assumes "ar_list a = Some l" "length l = unat (ar_size a)" "unat (ar_size a) \<le> 2 ^ 60"
    and "unat (ar_length a) = length xs" "take (length xs) l = map Some xs"
  shows "arr_inv a \<and> arr_abs a = xs"
proof -
  have "length (take (length xs) l) = length xs" using assms(5) by simp
  then have "length xs \<le> length l" by simp
  with assms show ?thesis by (auto simp: arr_inv_def arr_abs_def comp_def)
qed

lemma arr_invI_update:
  assumes "length l = unat (ar_size a)" "unat (ar_size a) \<le> 2 ^ 60" "unat n = length xs" "take (length xs) l = map Some xs"
  shows "arr_inv (a\<lparr> ar_list := Some l, ar_length := n \<rparr>) \<and> arr_abs (a\<lparr> ar_list := Some l, ar_length := n \<rparr>) = xs"
  by (rule arr_invI [of _ l]) (use assms in simp_all)

lemma cells_fit: "unat n < 2 ^ 61 \<Longrightarrow> cells (8 * n) = unat n"
  unfolding cells_def by (subst unat_times_if_fits) simp_all

lemma bytes_fit: "unat n < 2 ^ 61 \<Longrightarrow> 8 * n = (0 :: size_t) \<longleftrightarrow> n = 0"
  using unat_times_if_fits [of 8 n] by (auto simp: unat_eq_0)

lemma unat_add_fit: "unat (m :: size_t) + unat n \<le> 2 ^ 60 \<Longrightarrow> unat (m + n) = unat m + unat n"
  by (rule unat_plus_if_fits) simp

lemma unat_SIZE_MAX_minus: "unat (SIZE_MAX - n) = 2 ^ 64 - 1 - unat n"
proof -
  have "unat (SIZE_MAX - n) = unat SIZE_MAX - unat n" by (rule unat_sub) (rule word_order.extremum)
  also have "unat SIZE_MAX = 2 ^ 64 - 1" by (simp add: unsigned_minus_1_eq_mask mask_eq_exp_minus_1)
  finally show ?thesis .
qed

text \<open>What an operation may do to an array that holds \<open>xs\<close>: it succeeds with \<open>ys\<close>, or it runs out
  of memory and the array still holds \<open>xs\<close>.\<close>

definition arr_result :: "addr list \<Rightarrow> addr list \<Rightarrow> lexbor_array \<times> lxb_status \<Rightarrow> bool" where
  "arr_result xs ys r \<longleftrightarrow> (case r of (a, st) \<Rightarrow> arr_inv a \<and>
     (st = LXB_STATUS_OK \<and> arr_abs a = ys \<or> st = LXB_STATUS_ERROR_MEMORY_ALLOCATION \<and> arr_abs a = xs))"

text \<open>An array that has been expanded, or was large enough.\<close>

definition arr_room :: "lexbor_array \<Rightarrow> nat \<Rightarrow> lexbor_array \<times> bool \<Rightarrow> bool" where
  "arr_room a n r \<longleftrightarrow> (case r of (a', ok) \<Rightarrow> if ok then arr_inv a' \<and> arr_abs a' = arr_abs a \<and>
     ar_length a' = ar_length a \<and> length (arr_abs a) + n \<le> unat (ar_size a') else a' = a)"

lemma expand_ok:
  assumes "arr_inv a" "length (arr_abs a) + unat up_to \<le> 2 ^ 60" "up_to \<noteq> 0"
  shows "wp (lexbor_array_expand alloc a up_to) (arr_room a (unat up_to))"
proof -
  obtain l where l: "ar_list a = Some l" "length l = unat (ar_size a)"
    "unat (ar_length a) = length (arr_abs a)" "length (arr_abs a) \<le> length l"
    "take (length (arr_abs a)) l = map Some (arr_abs a)"
    using assms(1) by (rule arr_invE)
  let ?new = "ar_length a + up_to"
  have new: "unat ?new = length (arr_abs a) + unat up_to"
    using unat_add_fit [of "ar_length a" up_to] l(3) assms(2) by simp
  have "\<not> ar_length a > SIZE_MAX - up_to"
    unfolding word_less_nat_alt unat_SIZE_MAX_minus using l(3) assms(2) by simp
  moreover have "8 * ?new \<noteq> 0"
    using bytes_fit [of ?new] new assms(2,3) by (auto simp: unat_eq_zero)
  moreover have "cells (8 * ?new) = unat ?new"
    using new assms(2) by (intro cells_fit) simp
  moreover have "take (length (arr_abs a)) (take (unat ?new) l @ replicate (unat ?new - length l) None) = map Some (arr_abs a)"
    using l(4,5) new by simp
  ultimately show ?thesis
    using l new assms(2) arr_invI [of "a\<lparr> ar_list := Some (take (unat ?new) l @ replicate (unat ?new - length l) None), ar_size := ?new \<rparr>" _ "arr_abs a"]
    by (auto simp: lexbor_array_expand_def Let_def arr_room_def)
qed

text \<open>How the operations go on after making room.\<close>

lemma room_bind:
  assumes "wp g (arr_room a n)" "arr_inv a"
    and "\<And>a'. arr_room a n (a', True) \<Longrightarrow> wp (k a') (arr_result (arr_abs a) ys)"
  shows "wp (g \<bind> (\<lambda>(a', ok). if \<not> ok then Some (a', LXB_STATUS_ERROR_MEMORY_ALLOCATION) else k a'))
    (arr_result (arr_abs a) ys)"
  unfolding wp_bind
proof (rule wp_mono [OF assms(1)])
  fix r
  assume r: "arr_room a n r"
  obtain a' ok where "r = (a', ok)" by fastforce
  with r assms(2,3) show "wp (case r of (a', ok) \<Rightarrow> if \<not> ok then Some (a', LXB_STATUS_ERROR_MEMORY_ALLOCATION) else k a')
      (arr_result (arr_abs a) ys)"
    by (cases ok) (auto simp: arr_room_def arr_result_def)
qed

lemma cell_set_new:
  assumes "arr_inv a" "length (arr_abs a) < unat (ar_size a)"
  shows "wp (cell_set a (ar_length a) v) (\<lambda>a'. ar_length a' = ar_length a \<and>
    arr_inv (a'\<lparr> ar_length := ar_length a + 1 \<rparr>) \<and> arr_abs (a'\<lparr> ar_length := ar_length a + 1 \<rparr>) = arr_abs a @ [v])"
proof -
  obtain l where l: "ar_list a = Some l" "length l = unat (ar_size a)" "unat (ar_size a) \<le> 2 ^ 60"
    "unat (ar_length a) = length (arr_abs a)" "take (length (arr_abs a)) l = map Some (arr_abs a)"
    using assms(1) by (rule arr_invE)
  have "unat (ar_length a + 1) = Suc (length (arr_abs a))"
    using unat_add_fit [of "ar_length a" 1] l(3,4) assms(2) by simp
  moreover have "take (Suc (length (arr_abs a))) (l[length (arr_abs a) := Some v]) = map Some (arr_abs a @ [v])"
    using l(2,5) assms(2) by (simp add: take_Suc_conv_app_nth)
  ultimately show ?thesis
    using l assms(2)
      arr_invI [of "a\<lparr> ar_list := Some (l[length (arr_abs a) := Some v]), ar_length := ar_length a + 1 \<rparr>" _ "arr_abs a @ [v]"]
    by (simp add: cell_set_def)
qed

lemma room_one:
  assumes "arr_inv a" "length (arr_abs a) + unat up_to \<le> 2 ^ 60" "up_to \<noteq> 0"
  shows "wp (if ar_length a \<ge> ar_size a then lexbor_array_expand alloc a up_to else Some (a, True)) (arr_room a 1)"
proof (cases "ar_length a \<ge> ar_size a")
  case True
  have "1 \<le> unat up_to" using assms(3) by (simp add: Suc_le_eq unat_gt_0)
  with True expand_ok [OF assms, of alloc] show ?thesis
    by (auto simp: arr_room_def elim!: wp_mono split: if_splits)
next
  case False
  have len: "unat (ar_length a) = length (arr_abs a)" using assms(1) by (rule arr_invE)
  with False show ?thesis using assms(1) by (simp add: arr_room_def word_le_nat_alt)
qed

lemma push_ok:
  assumes "arr_inv a" "length (arr_abs a) + 128 \<le> 2 ^ 60"
  shows "wp (lexbor_array_push alloc a v) (arr_result (arr_abs a) (arr_abs a @ [v]))"
proof -
  have "wp (if ar_length a \<ge> ar_size a then lexbor_array_expand alloc a 128 else Some (a, True)) (arr_room a 1)"
    by (rule room_one) (use assms in auto)
  then show ?thesis
    unfolding lexbor_array_push_def
  proof (rule room_bind [OF _ assms(1)])
    fix a'
    assume "arr_room a 1 (a', True)"
    then show "wp (cell_set a' (ar_length a') v \<bind> (\<lambda>a. Some (a\<lparr> ar_length := ar_length a + 1 \<rparr>, LXB_STATUS_OK)))
        (arr_result (arr_abs a) (arr_abs a @ [v]))"
      using cell_set_new [of a' v] by (auto simp: arr_room_def arr_result_def elim!: wp_mono)
  qed
qed

lemma pop_ok:
  assumes "arr_inv a"
  shows "\<exists>a'. lexbor_array_pop a = Some (a', if arr_abs a = [] then NULL else last (arr_abs a)) \<and>
    arr_inv a' \<and> arr_abs a' = butlast (arr_abs a)"
proof -
  obtain l where l: "ar_list a = Some l" "length l = unat (ar_size a)" "unat (ar_size a) \<le> 2 ^ 60"
    "unat (ar_length a) = length (arr_abs a)" "length (arr_abs a) \<le> length l"
    "take (length (arr_abs a)) l = map Some (arr_abs a)"
    using assms(1) by (rule arr_invE)
  show ?thesis
  proof (cases "arr_abs a = []")
    case True
    then have "ar_length a = 0" using l(4) by (simp add: unat_eq_zero)
    with True assms show ?thesis by (simp add: lexbor_array_pop_def)
  next
    case False
    then have nz: "ar_length a \<noteq> 0" using l(4) by (auto simp: unat_eq_zero)
    then have n: "unat (ar_length a - 1) = length (arr_abs a) - 1"
      using l(4) by (simp add: unat_minus_one)
    have "l ! (length (arr_abs a) - 1) = Some (last (arr_abs a))"
      using l(6) False by (metis (no_types, lifting) One_nat_def diff_less last_conv_nth length_greater_0_conv
          less_numeral_extra(1) nth_map nth_take)
    moreover have "take (length (butlast (arr_abs a))) l = map Some (butlast (arr_abs a))"
      using l(5,6) by (metis butlast_take length_butlast map_butlast)
    moreover have "length (arr_abs a) - 1 < length l"
      using False l(5) by (cases "arr_abs a") simp_all
    ultimately show ?thesis
      using False nz n l arr_invI [of "a\<lparr> ar_length := ar_length a - 1 \<rparr>" l "butlast (arr_abs a)"]
      by (simp add: lexbor_array_pop_def cell_get_def Let_def)
  qed
qed

lemma get_ok:
  assumes "arr_inv a"
  shows "lexbor_array_get a i = Some (if unat i < length (arr_abs a) then arr_abs a ! unat i else NULL)"
proof -
  obtain l where l: "ar_list a = Some l" "unat (ar_length a) = length (arr_abs a)" "length (arr_abs a) \<le> length l"
    "take (length (arr_abs a)) l = map Some (arr_abs a)"
    using assms(1) by (rule arr_invE)
  have "l ! unat i = Some (arr_abs a ! unat i)" if "unat i < length (arr_abs a)"
    using that l(4) by (metis nth_map nth_take)
  with l show ?thesis
    by (auto simp: lexbor_array_get_def cell_get_def word_le_nat_alt)
qed

text \<open>Storing at an index below the length.\<close>

lemma cell_set_old:
  assumes "arr_inv a" "unat i < length (arr_abs a)"
  shows "wp (cell_set a i v) (\<lambda>a'. arr_inv a' \<and> arr_abs a' = (arr_abs a)[unat i := v])"
proof -
  obtain l where l: "ar_list a = Some l" "length l = unat (ar_size a)" "unat (ar_size a) \<le> 2 ^ 60"
    "unat (ar_length a) = length (arr_abs a)" "length (arr_abs a) \<le> length l"
    "take (length (arr_abs a)) l = map Some (arr_abs a)"
    using assms(1) by (rule arr_invE)
  have "take (length (arr_abs a)) (l[unat i := Some v]) = map Some ((arr_abs a)[unat i := v])"
    using l(6) by (simp add: take_update_swap map_update)
  with l assms(2) show ?thesis
    using arr_invI [of "a\<lparr> ar_list := Some (l[unat i := Some v]) \<rparr>" _ "(arr_abs a)[unat i := v]"]
    by (simp add: cell_set_def)
qed

text \<open>Filling up with NULL.\<close>

lemma cells_zero_ok:
  assumes "arr_inv a" "length (arr_abs a) + unat n \<le> unat (ar_size a)"
  shows "wp (cells_zero a (ar_length a) (8 * n)) (\<lambda>a'. ar_length a' = ar_length a \<and>
    arr_inv (a'\<lparr> ar_length := ar_length a + n \<rparr>) \<and>
    arr_abs (a'\<lparr> ar_length := ar_length a + n \<rparr>) = arr_abs a @ replicate (unat n) NULL)"
proof -
  obtain l where l: "ar_list a = Some l" "length l = unat (ar_size a)" "unat (ar_size a) \<le> 2 ^ 60"
    "unat (ar_length a) = length (arr_abs a)" "length (arr_abs a) \<le> length l"
    "take (length (arr_abs a)) l = map Some (arr_abs a)"
    using assms(1) by (rule arr_invE)
  have n: "unat (ar_length a + n) = length (arr_abs a) + unat n" "cells (8 * n) = unat n"
    using unat_add_fit [of "ar_length a" n] cells_fit [of n] l(3,4) assms(2) by simp_all
  with l assms(2) show ?thesis
    using arr_invI [of "a\<lparr> ar_list := Some (take (length (arr_abs a)) l @ replicate (unat n) (Some NULL) @
        drop (length (arr_abs a) + unat n) l), ar_length := ar_length a + n \<rparr>" _ "arr_abs a @ replicate (unat n) NULL"]
    by (simp add: cells_zero_def Let_def)
qed

text \<open>The list that \<open>set\<close> and \<open>insert\<close> make of \<open>xs\<close>: an index beyond the end fills up with NULL.\<close>

definition list_put :: "addr list \<Rightarrow> nat \<Rightarrow> addr \<Rightarrow> addr list" where
  "list_put xs i v = (if i < length xs then xs[i := v] else xs @ replicate (i - length xs) NULL @ [v])"

definition list_insert :: "addr list \<Rightarrow> nat \<Rightarrow> addr \<Rightarrow> addr list" where
  "list_insert xs i v = (if i < length xs then take i xs @ v # drop i xs else xs @ replicate (i - length xs) NULL @ [v])"

text \<open>The first half of \<open>set\<close> and \<open>insert\<close> beyond the end.\<close>

lemma grow_ok:
  assumes "arr_inv a" "idx \<ge> ar_length a" "unat idx < 2 ^ 60"
  shows "wp (if idx \<ge> ar_size a then lexbor_array_expand alloc a ((idx - ar_length a) + 1) else Some (a, True))
      (arr_room a (unat ((idx - ar_length a) + 1)))"
    and "unat ((idx - ar_length a) + 1) = Suc (unat idx - length (arr_abs a))"
proof -
  have len: "unat (ar_length a) = length (arr_abs a)" using assms(1) by (rule arr_invE)
  have sub: "unat (idx - ar_length a) = unat idx - length (arr_abs a)"
    using assms(2) len by (simp add: unat_sub)
  show up: "unat ((idx - ar_length a) + 1) = Suc (unat idx - length (arr_abs a))"
    using unat_add_fit [of "idx - ar_length a" 1] sub assms(3) by simp
  have le: "length (arr_abs a) \<le> unat idx" using assms(2) len by (simp add: word_le_nat_alt)
  show "wp (if idx \<ge> ar_size a then lexbor_array_expand alloc a ((idx - ar_length a) + 1) else Some (a, True))
      (arr_room a (unat ((idx - ar_length a) + 1)))"
  proof (cases "idx \<ge> ar_size a")
    case True
    have "wp (lexbor_array_expand alloc a ((idx - ar_length a) + 1)) (arr_room a (unat ((idx - ar_length a) + 1)))"
      using assms(1) up le assms(3) by (intro expand_ok) auto
    with True show ?thesis by simp
  next
    case False
    with up le assms(1) show ?thesis by (simp add: arr_room_def word_le_nat_alt)
  qed
qed

lemma set_ok:
  assumes "arr_inv a" "unat idx < 2 ^ 60"
  shows "wp (lexbor_array_set alloc a idx v) (arr_result (arr_abs a) (list_put (arr_abs a) (unat idx) v))"
proof -
  have len: "unat (ar_length a) = length (arr_abs a)" using assms(1) by (rule arr_invE)
  show ?thesis
  proof (cases "idx \<ge> ar_length a")
    case False
    then have "unat idx < length (arr_abs a)" using len by (simp add: word_le_nat_alt)
    with cell_set_old [OF assms(1) this, of v] False show ?thesis
      by (auto simp: lexbor_array_set_def arr_result_def list_put_def elim!: wp_mono)
  next
    case True
    let ?n = "(idx - ar_length a) + 1"
    note grow = grow_ok [OF assms(1) True assms(2)]
    have le: "length (arr_abs a) \<le> unat idx" using True len by (simp add: word_le_nat_alt)
    have zeros: "replicate (unat ?n) NULL = replicate (unat idx - length (arr_abs a)) NULL @ [NULL]"
      unfolding grow(2) by (simp add: replicate_append_same)
    have step: "wp (cells_zero a' (ar_length a') (8 * ?n) \<bind> (\<lambda>b. Let (b\<lparr> ar_length := ar_length b + ?n \<rparr>)
          (\<lambda>b. cell_set b idx v \<bind> (\<lambda>b. Some (b, LXB_STATUS_OK)))))
        (arr_result (arr_abs a) (list_put (arr_abs a) (unat idx) v))"
      if room: "arr_room a (unat ?n) (a', True)" for a'
    proof -
      have a': "arr_inv a'" "arr_abs a' = arr_abs a" "ar_length a' = ar_length a"
        "length (arr_abs a') + unat ?n \<le> unat (ar_size a')"
        using room by (auto simp: arr_room_def)
      show ?thesis
        unfolding wp_bind
      proof (rule wp_mono [OF cells_zero_ok [OF a'(1,4)]], goal_cases)
        case (1 b)
        let ?b = "b\<lparr> ar_length := ar_length b + ?n \<rparr>"
        from 1 a' zeros have b: "arr_inv ?b" "arr_abs ?b = arr_abs a @ replicate (unat idx - length (arr_abs a)) NULL @ [NULL]"
          by simp_all
        have "wp (cell_set ?b idx v) (\<lambda>c. arr_inv c \<and> arr_abs c = (arr_abs ?b)[unat idx := v])"
          using b le by (intro cell_set_old) simp_all
        then show ?case
          using b le by (auto simp: arr_result_def list_put_def list_update_append elim!: wp_mono)
      qed
    qed
    have "wp ((if idx \<ge> ar_size a then lexbor_array_expand alloc a ?n else Some (a, True)) \<bind>
        (\<lambda>(b, ok). if \<not> ok then Some (b, LXB_STATUS_ERROR_MEMORY_ALLOCATION)
          else cells_zero b (ar_length b) (8 * ?n) \<bind> (\<lambda>b. Let (b\<lparr> ar_length := ar_length b + ?n \<rparr>)
            (\<lambda>b. cell_set b idx v \<bind> (\<lambda>b. Some (b, LXB_STATUS_OK))))))
        (arr_result (arr_abs a) (list_put (arr_abs a) (unat idx) v))"
      by (rule room_bind [OF grow(1) assms(1) step])
    then show ?thesis
      using True by (simp add: lexbor_array_set_def Let_def)
  qed
qed

lemma cell_set_length:
  "cell_set (b\<lparr> ar_length := n \<rparr>) i v = map_option (\<lambda>c. c\<lparr> ar_length := n \<rparr>) (cell_set b i v)"
  "cell_set b i v = Some c \<Longrightarrow> ar_length c = ar_length b"
  by (auto simp: cell_set_def split: bind_splits if_splits)

text \<open>Moving a block of cells inside a list whose first cells hold \<open>xs\<close>: one place up from \<open>i\<close>, or
  down from \<open>e\<close> to \<open>b\<close>.\<close>

lemma gap_list:
  assumes "take (length xs) l = map Some xs" "i < length xs" "length xs < length l"
  shows "take (Suc (length xs)) (take (Suc i) l @ take (length xs - i) (drop i l) @ drop (Suc i + (length xs - i)) l)
    = map Some (take i xs @ xs ! i # drop i xs)"
proof -
  have "take (Suc i) l = take (Suc i) (map Some xs)"
    using assms(1,2) by (metis Suc_leI min_absorb1 take_take)
  then have a: "take (Suc i) l = map Some (take i xs @ [xs ! i])"
    using assms(2) by (simp add: take_map take_Suc_conv_app_nth)
  have b: "take (length xs - i) (drop i l) = map Some (drop i xs)"
    using assms(1) by (metis drop_map drop_take)
  have "length (map Some (take i xs @ [xs ! i]) @ map Some (drop i xs)) = Suc (length xs)"
    using assms(2) by simp
  then show ?thesis unfolding a b append_assoc [symmetric]
    by (metis append_Cons append_Nil append_assoc append_eq_conv_conj map_append)
qed

lemma cut_list:
  assumes "take (length xs) l = map Some xs" "b \<le> e" "e \<le> length xs"
  shows "take (b + (length xs - e)) (take b l @ take (length xs - e) (drop e l) @ drop (b + (length xs - e)) l)
    = map Some (take b xs @ drop e xs)"
proof -
  have "take b l = take b (map Some xs)"
    using assms by (metis le_trans min_absorb1 take_take)
  then have a: "take b l = map Some (take b xs)" by (simp add: take_map)
  have b: "take (length xs - e) (drop e l) = map Some (drop e xs)"
    using assms(1) by (metis drop_map drop_take)
  have "length (map Some (take b xs) @ map Some (drop e xs)) = b + (length xs - e)"
    using assms(2,3) by simp
  then show ?thesis unfolding a b append_assoc [symmetric]
    by (metis append_eq_conv_conj map_append)
qed

text \<open>Making a gap at an index below the length.\<close>

lemma cells_gap_ok:
  assumes "arr_inv a" "unat idx < length (arr_abs a)" "length (arr_abs a) + 1 \<le> unat (ar_size a)"
  shows "wp (cells_move a (idx + 1) idx (8 * (ar_length a - idx))) (\<lambda>a'. ar_length a' = ar_length a \<and>
    arr_inv (a'\<lparr> ar_length := ar_length a + 1 \<rparr>) \<and>
    (\<exists>w. arr_abs (a'\<lparr> ar_length := ar_length a + 1 \<rparr>) = take (unat idx) (arr_abs a) @ w # drop (unat idx) (arr_abs a)))"
proof -
  obtain l where l: "ar_list a = Some l" "length l = unat (ar_size a)" "unat (ar_size a) \<le> 2 ^ 60"
    "unat (ar_length a) = length (arr_abs a)" "length (arr_abs a) \<le> length l"
    "take (length (arr_abs a)) l = map Some (arr_abs a)"
    using assms(1) by (rule arr_invE)
  let ?i = "unat idx" and ?n = "length (arr_abs a)"
  have sub: "unat (ar_length a - idx) = ?n - ?i"
    using assms(2) l(4) by (subst unat_sub) (simp_all add: word_le_nat_alt)
  have i1: "unat (idx + 1) = Suc ?i"
    using unat_add_fit [of idx 1] assms(2,3) l(3) by simp
  have n1: "unat (ar_length a + 1) = Suc ?n"
    using unat_add_fit [of "ar_length a" 1] assms(3) l(3,4) by simp
  have c: "cells (8 * (ar_length a - idx)) = ?n - ?i"
    using cells_fit [of "ar_length a - idx"] sub assms(3) l(3) by simp
  let ?l = "take (Suc ?i) l @ take (?n - ?i) (drop ?i l) @ drop (Suc ?i + (?n - ?i)) l"
  let ?xs = "take ?i (arr_abs a) @ arr_abs a ! ?i # drop ?i (arr_abs a)"
  have ln: "length ?xs = Suc ?n" using assms(2) by simp
  have "take (length ?xs) ?l = map Some ?xs"
    unfolding ln using l(6) assms(2,3) l(2) by (intro gap_list) simp_all
  moreover have "length ?l = unat (ar_size a)" using l(2) assms(2,3) by simp
  ultimately have "arr_inv (a\<lparr> ar_list := Some ?l, ar_length := ar_length a + 1 \<rparr>) \<and>
      arr_abs (a\<lparr> ar_list := Some ?l, ar_length := ar_length a + 1 \<rparr>) = ?xs"
    using l(3) n1 ln by (intro arr_invI_update) (simp_all only:)
  then show ?thesis
    using l(1,2) c i1 assms(2,3) by (auto simp: cells_move_def Let_def)
qed

lemma insert_ok:
  assumes "arr_inv a" "unat idx < 2 ^ 60" "length (arr_abs a) + 32 \<le> 2 ^ 60"
  shows "wp (lexbor_array_insert alloc a idx v) (arr_result (arr_abs a) (list_insert (arr_abs a) (unat idx) v))"
proof -
  have len: "unat (ar_length a) = length (arr_abs a)" using assms(1) by (rule arr_invE)
  show ?thesis
  proof (cases "idx \<ge> ar_length a")
    case True
    let ?n = "(idx - ar_length a) + 1"
    note grow = grow_ok [OF assms(1) True assms(2)]
    have le: "length (arr_abs a) \<le> unat idx" using True len by (simp add: word_le_nat_alt)
    have zeros: "replicate (unat ?n) NULL = replicate (unat idx - length (arr_abs a)) NULL @ [NULL]"
      unfolding grow(2) by (simp add: replicate_append_same)
    have step: "wp (cells_zero a' (ar_length a') (8 * ?n) \<bind> (\<lambda>b. cell_set b idx v \<bind>
          (\<lambda>b. Some (b\<lparr> ar_length := ar_length b + ?n \<rparr>, LXB_STATUS_OK))))
        (arr_result (arr_abs a) (list_insert (arr_abs a) (unat idx) v))"
      if room: "arr_room a (unat ?n) (a', True)" for a'
    proof -
      have a': "arr_inv a'" "arr_abs a' = arr_abs a" "ar_length a' = ar_length a"
        "length (arr_abs a') + unat ?n \<le> unat (ar_size a')"
        using room by (auto simp: arr_room_def)
      show ?thesis
        unfolding wp_bind
      proof (rule wp_mono [OF cells_zero_ok [OF a'(1,4)]], goal_cases)
        case (1 b)
        let ?b = "b\<lparr> ar_length := ar_length b + ?n \<rparr>"
        from 1 a' zeros have b: "arr_inv ?b" "arr_abs ?b = arr_abs a @ replicate (unat idx - length (arr_abs a)) NULL @ [NULL]"
          by simp_all
        have "wp (cell_set ?b idx v) (\<lambda>c. arr_inv c \<and> arr_abs c = (arr_abs ?b)[unat idx := v])"
          using b le by (intro cell_set_old) simp_all
        then obtain c where c: "cell_set b idx v = Some c" "arr_inv (c\<lparr> ar_length := ar_length b + ?n \<rparr>)"
          "arr_abs (c\<lparr> ar_length := ar_length b + ?n \<rparr>) = (arr_abs ?b)[unat idx := v]"
          unfolding cell_set_length(1) by (auto simp: wp_iff)
        then show ?case
          using b le cell_set_length(2) [OF c(1)] by (simp add: arr_result_def list_insert_def list_update_append)
      qed
    qed
    have "wp ((if idx \<ge> ar_size a then lexbor_array_expand alloc a ?n else Some (a, True)) \<bind>
        (\<lambda>(b, ok). if \<not> ok then Some (b, LXB_STATUS_ERROR_MEMORY_ALLOCATION)
          else cells_zero b (ar_length b) (8 * ?n) \<bind> (\<lambda>b. cell_set b idx v \<bind>
            (\<lambda>b. Some (b\<lparr> ar_length := ar_length b + ?n \<rparr>, LXB_STATUS_OK)))))
        (arr_result (arr_abs a) (list_insert (arr_abs a) (unat idx) v))"
      by (rule room_bind [OF grow(1) assms(1) step])
    then show ?thesis
      using True by (simp add: lexbor_array_insert_def Let_def)
  next
    case False
    then have lt: "unat idx < length (arr_abs a)" using len by (simp add: word_le_nat_alt)
    have room: "wp (if ar_length a \<ge> ar_size a then lexbor_array_expand alloc a 32 else Some (a, True)) (arr_room a 1)"
      by (rule room_one) (use assms in auto)
    have step: "wp (cells_move a' (idx + 1) idx (8 * (ar_length a' - idx)) \<bind> (\<lambda>b. cell_set b idx v \<bind>
          (\<lambda>b. Some (b\<lparr> ar_length := ar_length b + 1 \<rparr>, LXB_STATUS_OK))))
        (arr_result (arr_abs a) (list_insert (arr_abs a) (unat idx) v))"
      if "arr_room a 1 (a', True)" for a'
    proof -
      have a': "arr_inv a'" "arr_abs a' = arr_abs a" "ar_length a' = ar_length a"
        "length (arr_abs a') + 1 \<le> unat (ar_size a')" "unat idx < length (arr_abs a')"
        using that lt by (auto simp: arr_room_def)
      show ?thesis
        unfolding wp_bind
      proof (rule wp_mono [OF cells_gap_ok [OF a'(1,5,4)]], goal_cases)
        case (1 b)
        let ?b = "b\<lparr> ar_length := ar_length b + 1 \<rparr>"
        from 1 a' obtain w where b: "arr_inv ?b" "arr_abs ?b = take (unat idx) (arr_abs a) @ w # drop (unat idx) (arr_abs a)"
          by auto
        have "wp (cell_set ?b idx v) (\<lambda>c. arr_inv c \<and> arr_abs c = (arr_abs ?b)[unat idx := v])"
          using b lt by (intro cell_set_old) simp_all
        then obtain c where c: "cell_set b idx v = Some c" "arr_inv (c\<lparr> ar_length := ar_length b + 1 \<rparr>)"
          "arr_abs (c\<lparr> ar_length := ar_length b + 1 \<rparr>) = (arr_abs ?b)[unat idx := v]"
          unfolding cell_set_length(1) by (auto simp: wp_iff)
        then show ?case
          using b lt cell_set_length(2) [OF c(1)] by (simp add: arr_result_def list_insert_def list_update_append)
      qed
    qed
    have "wp ((if ar_length a \<ge> ar_size a then lexbor_array_expand alloc a 32 else Some (a, True)) \<bind>
        (\<lambda>(b, ok). if \<not> ok then Some (b, LXB_STATUS_ERROR_MEMORY_ALLOCATION)
          else cells_move b (idx + 1) idx (8 * (ar_length b - idx)) \<bind> (\<lambda>b. cell_set b idx v \<bind>
            (\<lambda>b. Some (b\<lparr> ar_length := ar_length b + 1 \<rparr>, LXB_STATUS_OK)))))
        (arr_result (arr_abs a) (list_insert (arr_abs a) (unat idx) v))"
      by (rule room_bind [OF room assms(1) step])
    then show ?thesis
      using False by (simp add: lexbor_array_insert_def)
  qed
qed

lemma delete_ok:
  assumes "arr_inv a" "unat bgn + unat len < 2 ^ 64"
  shows "wp (lexbor_array_delete a bgn len) (\<lambda>a'. arr_inv a' \<and>
    arr_abs a' = take (unat bgn) (arr_abs a) @ drop (unat bgn + unat len) (arr_abs a))"
proof -
  obtain l where l: "ar_list a = Some l" "length l = unat (ar_size a)" "unat (ar_size a) \<le> 2 ^ 60"
    "unat (ar_length a) = length (arr_abs a)" "length (arr_abs a) \<le> length l"
    "take (length (arr_abs a)) l = map Some (arr_abs a)"
    using assms(1) by (rule arr_invE)
  let ?b = "unat bgn" and ?e = "unat bgn + unat len" and ?n = "length (arr_abs a)"
  have e: "unat (bgn + len) = ?e" using assms(2) by (intro unat_plus_if_fits) simp
  show ?thesis
  proof (cases "bgn \<ge> ar_length a \<or> len = 0")
    case True
    then show ?thesis
      using assms(1) l(4) by (auto simp: lexbor_array_delete_def word_le_nat_alt)
  next
    case False
    then have b: "?b < ?n" using l(4) by (simp add: word_le_nat_alt)
    have pre: "take ?b l = map Some (take ?b (arr_abs a))"
      using l(6) b by (metis less_imp_le min_def take_map take_take)
    show ?thesis
    proof (cases "bgn + len \<ge> ar_length a")
      case True
      then have "?n \<le> ?e" using e l(4) by (simp add: word_le_nat_alt)
      moreover have "arr_inv (a\<lparr> ar_length := bgn \<rparr>) \<and> arr_abs (a\<lparr> ar_length := bgn \<rparr>) = take ?b (arr_abs a)"
        using l(1-3) b pre by (intro arr_invI [of _ l]) simp_all
      ultimately show ?thesis
        using False True by (simp add: lexbor_array_delete_def)
    next
      case fits: False
      then have lt: "?e < ?n" using e l(4) by (simp add: word_le_nat_alt)
      have sub: "unat (ar_length a - (bgn + len)) = ?n - ?e"
        using lt e l(4) by (subst unat_sub) (simp_all add: word_le_nat_alt)
      have c: "cells (8 * (ar_length a - (bgn + len))) = ?n - ?e"
        using cells_fit [of "ar_length a - (bgn + len)"] sub l(2,3,5) by simp
      have n: "unat (ar_length a - len) = ?n - unat len"
        using lt l(4) by (subst unat_sub) (simp_all add: word_le_nat_alt)
      let ?l = "take ?b l @ take (?n - ?e) (drop ?e l) @ drop (?b + (?n - ?e)) l"
      let ?xs = "take ?b (arr_abs a) @ drop ?e (arr_abs a)"
      have ln: "length ?xs = ?b + (?n - ?e)" using b lt by simp
      have "take (length ?xs) ?l = map Some ?xs"
        unfolding ln using l(6) lt by (intro cut_list) simp_all
      moreover have "length ?l = unat (ar_size a)" using l(2,5) lt by simp
      moreover have "unat (ar_length a - len) = length ?xs" using n ln lt by linarith
      ultimately have "arr_inv (a\<lparr> ar_list := Some ?l, ar_length := ar_length a - len \<rparr>) \<and>
          arr_abs (a\<lparr> ar_list := Some ?l, ar_length := ar_length a - len \<rparr>) = ?xs"
        using l(3) by (intro arr_invI_update)
      then show ?thesis
        using False fits l(1,2,5) c e lt
        by (simp add: lexbor_array_delete_def cells_move_def Let_def)
    qed
  qed
qed

lemma init_ok:
  assumes "sz \<noteq> 0" "unat sz \<le> 2 ^ 60" "alloc (8 * sz)"
  shows "\<exists>a'. lexbor_array_init alloc (Some a) sz = (Some a', LXB_STATUS_OK) \<and> arr_inv a' \<and> arr_abs a' = []"
proof -
  have "cells (8 * sz) = unat sz" using assms(2) by (intro cells_fit) simp
  then show ?thesis
    using assms arr_invI [of "a\<lparr> ar_length := 0, ar_size := sz, ar_list := Some (replicate (unat sz) None) \<rparr>" _ "[]"]
    by (simp add: lexbor_array_init_def Let_def)
qed

section \<open>The interface of a stack\<close>

text \<open>Pushing a sequence of values until one fails, and popping a number of values.\<close>

fun push_all :: "('a \<Rightarrow> addr \<Rightarrow> ('a \<times> lxb_status) option) \<Rightarrow> 'a \<Rightarrow> addr list \<Rightarrow> ('a \<times> lxb_status) option" where
  "push_all push a [] = Some (a, LXB_STATUS_OK)"
| "push_all push a (v # vs) = do {
     (a, st) \<leftarrow> push a v;
     if st \<noteq> LXB_STATUS_OK then Some (a, st) else push_all push a vs
   }"

fun pop_n :: "('a \<Rightarrow> ('a \<times> addr) option) \<Rightarrow> 'a \<Rightarrow> nat \<Rightarrow> ('a \<times> addr list) option" where
  "pop_n pop a 0 = Some (a, [])"
| "pop_n pop a (Suc n) = do {
     (a, v) \<leftarrow> pop a;
     (a, vs) \<leftarrow> pop_n pop a n;
     Some (a, v # vs)
   }"

text \<open>What a client that uses the array as a stack relies on.  \<open>room\<close> is the number of elements
  up to which the sizes are realistic.\<close>

locale pointer_stack =
  fixes inv :: "'a \<Rightarrow> bool" and abs :: "'a \<Rightarrow> addr list"
    and push :: "'a \<Rightarrow> addr \<Rightarrow> ('a \<times> lxb_status) option" and pop :: "'a \<Rightarrow> ('a \<times> addr) option"
    and room :: nat
  assumes push: "inv a \<Longrightarrow> length (abs a) < room \<Longrightarrow>
      \<exists>a' st. push a v = Some (a', st) \<and> inv a' \<and> (st = LXB_STATUS_OK \<and> abs a' = abs a @ [v] \<or> st \<noteq> LXB_STATUS_OK \<and> abs a' = abs a)"
    and pop: "inv a \<Longrightarrow> \<exists>a'. pop a = Some (a', if abs a = [] then NULL else last (abs a)) \<and> inv a' \<and> abs a' = butlast (abs a)"
begin

lemma push_all_abs:
  assumes "inv a" "length (abs a) + length vs \<le> room"
  shows "\<exists>a' st. push_all push a vs = Some (a', st) \<and> inv a' \<and>
    (\<exists>ws. abs a' = abs a @ ws \<and> (\<exists>us. vs = ws @ us) \<and> (st = LXB_STATUS_OK \<longleftrightarrow> ws = vs))"
  using assms
proof (induction vs arbitrary: a)
  case (Cons v vs)
  obtain a' st where p: "push a v = Some (a', st)" "inv a'"
    "st = LXB_STATUS_OK \<and> abs a' = abs a @ [v] \<or> st \<noteq> LXB_STATUS_OK \<and> abs a' = abs a"
    using push [of a v] Cons.prems by auto
  show ?case
  proof (cases "st = LXB_STATUS_OK")
    case True
    then have a': "abs a' = abs a @ [v]" using p(3) by blast
    then have "length (abs a') + length vs \<le> room" using Cons.prems(2) by simp
    from Cons.IH [OF p(2) this] obtain b s ws us where b: "push_all push a' vs = Some (b, s)" "inv b"
      "abs b = abs a' @ ws" "vs = ws @ us" "s = LXB_STATUS_OK \<longleftrightarrow> ws = vs"
      by blast
    have "push_all push a (v # vs) = Some (b, s)" using True p(1) b(1) by simp
    moreover have "abs b = abs a @ (v # ws)" "v # vs = (v # ws) @ us" using a' b(3,4) by simp_all
    moreover have "s = LXB_STATUS_OK \<longleftrightarrow> v # ws = v # vs" using b(5) by simp
    ultimately show ?thesis using b(2) by blast
  next
    case False
    with p show ?thesis by auto
  qed
qed auto

lemma pop_n_abs:
  assumes "inv a" "abs a = xs @ ys"
  shows "\<exists>a'. pop_n pop a (length ys) = Some (a', rev ys) \<and> inv a' \<and> abs a' = xs"
  using assms
proof (induction ys arbitrary: a rule: rev_induct)
  case (snoc y ys)
  obtain a' where "pop a = Some (a', y)" "inv a'" "abs a' = xs @ ys"
    using pop [OF snoc.prems(1)] snoc.prems(2) by (auto simp: butlast_append)
  with snoc.IH [of a'] show ?case by auto
qed auto

text \<open>What was pushed comes back in reverse order, and the rest is as before.\<close>

lemma push_pop:
  assumes "inv a" "length (abs a) + length vs \<le> room" "push_all push a vs = Some (b, LXB_STATUS_OK)"
  shows "\<exists>c. pop_n pop b (length vs) = Some (c, rev vs) \<and> inv c \<and> abs c = abs a"
  using push_all_abs [OF assms(1,2)] assms(3) pop_n_abs [of b "abs a" vs] by auto

end

interpretation arr: pointer_stack arr_inv arr_abs "lexbor_array_push alloc" lexbor_array_pop "2 ^ 60 - 127" for alloc
proof
  fix a v
  assume "arr_inv a" "length (arr_abs a) < 2 ^ 60 - 127"
  then have "wp (lexbor_array_push alloc a v) (arr_result (arr_abs a) (arr_abs a @ [v]))"
    by (intro push_ok) simp_all
  then show "\<exists>a' st. lexbor_array_push alloc a v = Some (a', st) \<and> arr_inv a' \<and>
      (st = LXB_STATUS_OK \<and> arr_abs a' = arr_abs a @ [v] \<or> st \<noteq> LXB_STATUS_OK \<and> arr_abs a' = arr_abs a)"
    by (auto simp: wp_iff arr_result_def)
qed (rule pop_ok)

text \<open>When every allocation succeeds, pushing succeeds.\<close>

lemma expand_succeeds:
  assumes "arr_inv a" "length (arr_abs a) + unat up_to \<le> 2 ^ 60" "up_to \<noteq> 0" "\<And>n. alloc n"
  shows "\<exists>b. lexbor_array_expand alloc a up_to = Some (b, True)"
proof -
  have "ar_length a \<le> SIZE_MAX - up_to"
    using assms(1,2) by (auto elim!: arr_invE simp: word_le_nat_alt unat_SIZE_MAX_minus)
  moreover obtain r where "lexbor_array_expand alloc a up_to = Some r" using expand_ok [OF assms(1-3), of alloc] by (auto simp: wp_iff)
  ultimately show ?thesis using assms(4) by (auto simp: lexbor_array_expand_def Let_def split: if_splits)
qed

lemma push_succeeds:
  assumes "arr_inv a" "length (arr_abs a) + 128 \<le> 2 ^ 60" "\<And>n. alloc n"
  shows "\<exists>b. lexbor_array_push alloc a v = Some (b, LXB_STATUS_OK)"
proof -
  obtain r where "lexbor_array_push alloc a v = Some r" using push_ok [OF assms(1,2), of alloc v] by (auto simp: wp_iff)
  moreover obtain b where "lexbor_array_expand alloc a 128 = Some (b, True)"
    using expand_succeeds [of a 128 alloc] assms by auto
  ultimately show ?thesis by (auto simp: lexbor_array_push_def split: if_splits bind_splits)
qed

lemma push_all_succeeds:
  assumes "arr_inv a" "length (arr_abs a) + length vs \<le> 2 ^ 60 - 127" "\<And>n. alloc n"
  shows "\<exists>b. push_all (lexbor_array_push alloc) a vs = Some (b, LXB_STATUS_OK)"
  using assms(1,2)
proof (induction vs arbitrary: a)
  case (Cons v vs)
  obtain b where b: "lexbor_array_push alloc a v = Some (b, LXB_STATUS_OK)"
    using push_succeeds [of a alloc v] Cons.prems assms(3) by auto
  moreover have "arr_inv b" "arr_abs b = arr_abs a @ [v]"
    using push_ok [of a alloc v] Cons.prems b by (auto simp: arr_result_def)
  ultimately show ?case using Cons.IH [of b] Cons.prems(2) by simp
qed simp

end
