(* ===== verification/Lxb_String.thy ===== *)
theory Lxb_String
  imports Lxb_Str_Spec Lxb_Array
begin

text \<open>
  The growing string \<open>lexbor_str_t\<close> (\<open>core/str.c\<close>, \<open>core/str.h\<close>).  The block behind \<open>str->data\<close> is the list of its
  bytes, \<^const>\<open>None\<close> where nothing has been written; reading such a byte, or one beyond the
  block, is undefined.  The pool of memory is the argument \<open>alloc\<close>: the size of the block that it
  hands out for a request (a block from the cache may be larger), \<^const>\<open>None\<close> when it fails.
  The functions that return a pointer into the string, or NULL, return here whether it is
  not NULL.

  The second half relates the operations to those of a list of bytes.
\<close>

section \<open>The object and its block\<close>

record lexbor_string =
  s_data :: "lxb_char option list option"
  s_length :: size_t

type_synonym mraw = "size_t \<Rightarrow> nat option"

definition lexbor_mem_align :: "size_t \<Rightarrow> size_t" where
  "lexbor_mem_align sz = (if sz mod 8 \<noteq> 0 then sz + (8 - sz mod 8) else sz)"

definition lexbor_str_size :: "lexbor_string \<Rightarrow> size_t option" where
  "lexbor_str_size s = do { l \<leftarrow> s_data s; Some (of_nat (length l)) }"

definition byte_read :: "lexbor_string \<Rightarrow> nat \<Rightarrow> lxb_char option" where
  "byte_read s i = do { l \<leftarrow> s_data s; if i < length l then l ! i else None }"

text \<open>\<open>memcpy(&data[i], bs, n)\<close>\<close>

definition bytes_write :: "lexbor_string \<Rightarrow> nat \<Rightarrow> lxb_char list \<Rightarrow> lexbor_string option" where
  "bytes_write s i bs = do {
     l \<leftarrow> s_data s;
     if i + length bs \<le> length l then Some (s\<lparr> s_data := Some (take i l @ map Some bs @ drop (i + length bs) l) \<rparr>) else None
   }"

text \<open>\<open>memmove(&data[i], &data[j], n)\<close>\<close>

definition bytes_move :: "lexbor_string \<Rightarrow> nat \<Rightarrow> nat \<Rightarrow> nat \<Rightarrow> lexbor_string option" where
  "bytes_move s i j n = do {
     l \<leftarrow> s_data s;
     if i + n \<le> length l \<and> j + n \<le> length l
     then Some (s\<lparr> s_data := Some (take i l @ take n (drop j l) @ drop (i + n) l) \<rparr>) else None
   }"

text \<open>\<open>lexbor_mraw_realloc\<close> for a larger size: the block is copied into a new one.\<close>

definition block_grow :: "mraw \<Rightarrow> lxb_char option list \<Rightarrow> size_t \<Rightarrow> lxb_char option list option" where
  "block_grow alloc l n = map_option (\<lambda>m. take m l @ replicate (m - length l) None) (alloc (lexbor_mem_align n))"

section \<open>Operations\<close>

definition lexbor_str_init :: "mraw \<Rightarrow> size_t \<Rightarrow> (lexbor_string \<times> bool) option" where
  "lexbor_str_init alloc sz =
    (case alloc (lexbor_mem_align (sz + 1)) of
       None \<Rightarrow> Some (\<lparr> s_data = None, s_length = 0 \<rparr>, False)
     | Some m \<Rightarrow> do {
         s \<leftarrow> bytes_write \<lparr> s_data = Some (replicate m None), s_length = 0 \<rparr> 0 [0];
         Some (s, True)
       })"

definition lexbor_str_clean :: "lexbor_string \<Rightarrow> lexbor_string" where
  "lexbor_str_clean s = s\<lparr> s_length := 0 \<rparr>"

definition lexbor_str_clean_all :: "lexbor_string \<Rightarrow> lexbor_string" where
  "lexbor_str_clean_all s = \<lparr> s_data = None, s_length = 0 \<rparr>"

text \<open>\<open>lexbor_str_check_size_arg_m\<close> with \<open>lexbor_str_size\<close> for its size, and \<open>lexbor_str_check_size\<close>: a NULL data
  pointer is dereferenced; failure leaves the string alone.\<close>

definition lexbor_str_check_size :: "mraw \<Rightarrow> lexbor_string \<Rightarrow> size_t \<Rightarrow> (lexbor_string \<times> bool) option" where
  "lexbor_str_check_size alloc s plus_len = do {
     sz \<leftarrow> lexbor_str_size s;
     if s_length s > SIZE_MAX - plus_len then Some (s, False)
     else if s_length s + plus_len \<le> sz then Some (s, True)
     else do {
       l \<leftarrow> s_data s;
       (case block_grow alloc l (s_length s + plus_len) of
          None \<Rightarrow> Some (s, False)
        | Some l \<Rightarrow> Some (s\<lparr> s_data := Some l \<rparr>, True))
     }
   }"

definition lexbor_str_append :: "mraw \<Rightarrow> lexbor_string \<Rightarrow> lxb_char list \<Rightarrow> (lexbor_string \<times> bool) option" where
  "lexbor_str_append alloc s buff = do {
     (s, ok) \<leftarrow> lexbor_str_check_size alloc s (of_nat (length buff) + 1);
     if \<not> ok then Some (s, False)
     else do {
       s \<leftarrow> bytes_write s (unat (s_length s)) buff;
       let s = s\<lparr> s_length := s_length s + of_nat (length buff) \<rparr>;
       s \<leftarrow> bytes_write s (unat (s_length s)) [0];
       Some (s, True)
     }
   }"

definition lexbor_str_append_before :: "mraw \<Rightarrow> lexbor_string \<Rightarrow> lxb_char list \<Rightarrow> (lexbor_string \<times> bool) option" where
  "lexbor_str_append_before alloc s buff = do {
     (s, ok) \<leftarrow> lexbor_str_check_size alloc s (of_nat (length buff) + 1);
     if \<not> ok then Some (s, False)
     else do {
       s \<leftarrow> bytes_move s (length buff) 0 (unat (s_length s));
       s \<leftarrow> bytes_write s 0 buff;
       let s = s\<lparr> s_length := s_length s + of_nat (length buff) \<rparr>;
       s \<leftarrow> bytes_write s (unat (s_length s)) [0];
       Some (s, True)
     }
   }"

definition lexbor_str_append_one :: "mraw \<Rightarrow> lexbor_string \<Rightarrow> lxb_char \<Rightarrow> (lexbor_string \<times> bool) option" where
  "lexbor_str_append_one alloc s data = do {
     (s, ok) \<leftarrow> lexbor_str_check_size alloc s 2;
     if \<not> ok then Some (s, False)
     else do {
       s \<leftarrow> bytes_write s (unat (s_length s)) [data];
       let s = s\<lparr> s_length := s_length s + 1 \<rparr>;
       s \<leftarrow> bytes_write s (unat (s_length s)) [0];
       Some (s, True)
     }
   }"

text \<open>The terminator is written before the length is raised.\<close>

definition lexbor_str_append_lowercase :: "mraw \<Rightarrow> lexbor_string \<Rightarrow> lxb_char list \<Rightarrow> (lexbor_string \<times> bool) option" where
  "lexbor_str_append_lowercase alloc s data = do {
     (s, ok) \<leftarrow> lexbor_str_check_size alloc s (of_nat (length data) + 1);
     if \<not> ok then Some (s, False)
     else do {
       s \<leftarrow> bytes_write s (unat (s_length s)) (map lowercase data);
       s \<leftarrow> bytes_write s (unat (s_length s) + length data) [0];
       Some (s\<lparr> s_length := s_length s + of_nat (length data) \<rparr>, True)
     }
   }"

definition lexbor_str_res_ansi_replacement_character :: "lxb_char list" where
  "lexbor_str_res_ansi_replacement_character = [0xEF, 0xBF, 0xBD]"

text \<open>The loop of \<open>lexbor_str_append_with_rep_null_chars\<close>, with what is left of the buffer.\<close>

function rep_null_loop :: "mraw \<Rightarrow> lexbor_string \<Rightarrow> lxb_char list \<Rightarrow> (lexbor_string \<times> bool) option" where
  "rep_null_loop alloc s buff =
    (if 0 \<notin> set buff then (if buff = [] then Some (s, True) else lexbor_str_append alloc s buff)
     else do {
       (s, ok) \<leftarrow> lexbor_str_append alloc s (takeWhile (\<lambda>c. c \<noteq> 0) buff);
       if \<not> ok then Some (s, False)
       else do {
         (s, ok) \<leftarrow> lexbor_str_append alloc s lexbor_str_res_ansi_replacement_character;
         if \<not> ok then Some (s, False)
         else rep_null_loop alloc s (tl (dropWhile (\<lambda>c. c \<noteq> 0) buff))
       }
     })"
  by pat_completeness auto
termination
proof (relation "measure (\<lambda>(_, _, buff). length buff)")
  fix buff :: "lxb_char list"
  assume "\<not> 0 \<notin> set buff"
  then have "dropWhile (\<lambda>c. c \<noteq> 0) buff \<noteq> []" by (auto simp: dropWhile_eq_Nil_conv)
  moreover have "length (dropWhile (\<lambda>c. c \<noteq> 0) buff) \<le> length buff" by (rule length_dropWhile_le)
  ultimately have "length (tl (dropWhile (\<lambda>c. c \<noteq> 0) buff)) < length buff"
    by (cases "dropWhile (\<lambda>c. c \<noteq> 0) buff") auto
  then show "\<And>alloc s x xa y xb xc ya. ((alloc, xc, tl (dropWhile (\<lambda>c. c \<noteq> 0) buff)), (alloc, s, buff)) \<in> measure (\<lambda>(_, _, buff). length buff)"
    by simp
qed simp

declare rep_null_loop.simps [simp del]

definition lexbor_str_append_with_rep_null_chars :: "mraw \<Rightarrow> lexbor_string \<Rightarrow> lxb_char list \<Rightarrow> (lexbor_string \<times> bool) option" where
  "lexbor_str_append_with_rep_null_chars alloc s buff = do {
     (s, ok) \<leftarrow> lexbor_str_check_size alloc s (of_nat (length buff) + 1);
     if \<not> ok then Some (s, False) else rep_null_loop alloc s buff
   }"

text \<open>The text of a string, undefined where it has not been written.\<close>

definition str_text :: "lexbor_string \<Rightarrow> lxb_char list option" where
  "str_text s = do {
     l \<leftarrow> s_data s;
     if unat (s_length s) \<le> length l \<and> None \<notin> set (take (unat (s_length s)) l)
     then Some (map the (take (unat (s_length s)) l)) else None
   }"

definition lexbor_str_copy :: "mraw \<Rightarrow> lexbor_string \<Rightarrow> lexbor_string \<Rightarrow> (lexbor_string \<times> bool) option" where
  "lexbor_str_copy alloc dest target =
    (if s_data target = None then Some (dest, False)
     else do {
       (dest, ok) \<leftarrow> (if s_data dest = None then lexbor_str_init alloc (s_length target) else Some (dest, True));
       if \<not> ok then Some (dest, False)
       else do {
         buff \<leftarrow> str_text target;
         lexbor_str_append alloc dest buff
       }
     })"

text \<open>\<open>for (i = 0; i < length; i++) if (whitespace(data[i])) { data[pos] = data[i]; pos++; }\<close>\<close>

function stay_ws_loop :: "lexbor_string \<Rightarrow> nat \<Rightarrow> nat \<Rightarrow> (lexbor_string \<times> nat) option" where
  "stay_ws_loop s i pos =
    (if i < unat (s_length s) then do {
       c \<leftarrow> byte_read s i;
       if lexbor_utils_whitespace c then do {
         s' \<leftarrow> bytes_write s pos [c];
         if s_length s' = s_length s then stay_ws_loop s' (Suc i) (Suc pos) else None
       }
       else stay_ws_loop s (Suc i) pos
     }
     else Some (s, pos))"
  by pat_completeness auto
termination by (relation "measure (\<lambda>(s, i, _). unat (s_length s) - i)") auto

declare stay_ws_loop.simps [simp del]

definition lexbor_str_stay_only_whitespace :: "lexbor_string \<Rightarrow> lexbor_string option" where
  "lexbor_str_stay_only_whitespace s = do {
     (s, pos) \<leftarrow> stay_ws_loop s 0 0;
     Some (s\<lparr> s_length := of_nat pos \<rparr>)
   }"

text \<open>The first index from \<open>i\<close> on that holds no white space, or the length.\<close>

function ws_begin_loop :: "lexbor_string \<Rightarrow> nat \<Rightarrow> nat option" where
  "ws_begin_loop s i =
    (if i < unat (s_length s) then do {
       c \<leftarrow> byte_read s i;
       if lexbor_utils_whitespace c then ws_begin_loop s (Suc i) else Some i
     }
     else Some i)"
  by pat_completeness auto
termination by (relation "measure (\<lambda>(s, i). unat (s_length s) - i)") auto

declare ws_begin_loop.simps [simp del]

definition lexbor_str_whitespace_from_begin :: "lexbor_string \<Rightarrow> nat option" where
  "lexbor_str_whitespace_from_begin s = ws_begin_loop s 0"

definition lexbor_str_crop_whitespace_from_begin :: "lexbor_string \<Rightarrow> (lexbor_string \<times> nat) option" where
  "lexbor_str_crop_whitespace_from_begin s = do {
     i \<leftarrow> ws_begin_loop s 0;
     s \<leftarrow> (if i \<noteq> 0 \<and> i \<noteq> unat (s_length s) then bytes_move s 0 i (unat (s_length s) - i) else Some s);
     Some (s\<lparr> s_length := s_length s - of_nat i \<rparr>, i)
   }"

text \<open>\<open>while (i) { i--; if (!whitespace(data[i])) return length - (i + 1); } return 0;\<close>\<close>

fun ws_end_loop :: "lexbor_string \<Rightarrow> nat \<Rightarrow> nat option" where
  "ws_end_loop s 0 = Some 0"
| "ws_end_loop s (Suc i) = do {
     c \<leftarrow> byte_read s i;
     if \<not> lexbor_utils_whitespace c then Some (unat (s_length s) - (i + 1)) else ws_end_loop s i
   }"

definition lexbor_str_whitespace_from_end :: "lexbor_string \<Rightarrow> nat option" where
  "lexbor_str_whitespace_from_end s = ws_end_loop s (unat (s_length s))"

definition lexbor_str_length_set :: "mraw \<Rightarrow> lexbor_string \<Rightarrow> size_t \<Rightarrow> (lexbor_string \<times> bool) option" where
  "lexbor_str_length_set alloc s n = do {
     sz \<leftarrow> lexbor_str_size s;
     l \<leftarrow> s_data s;
     (if n \<ge> sz then
        (case block_grow alloc l (n + 1) of
           None \<Rightarrow> Some (s, False)
         | Some l \<Rightarrow> do {
             s \<leftarrow> bytes_write (s\<lparr> s_data := Some l, s_length := n \<rparr>) (unat n) [0];
             Some (s, True)
           })
      else do {
        s \<leftarrow> bytes_write (s\<lparr> s_length := n \<rparr>) (unat n) [0];
        Some (s, True)
      })
   }"

section \<open>Strings as lists of bytes\<close>

text \<open>Room for the terminator, all bytes of the text written, a realistic size.\<close>

definition str_ok :: "lexbor_string \<Rightarrow> bool" where
  "str_ok s = (\<exists>l. s_data s = Some l \<and> unat (s_length s) < length l \<and> length l < 2 ^ 62 \<and>
     None \<notin> set (take (unat (s_length s)) l))"

definition content :: "lexbor_string \<Rightarrow> lxb_char list" where
  "content s = map the (take (unat (s_length s)) (the (s_data s)))"

text \<open>The pool hands out at least what is asked for, of realistic size; \<open>enough\<close>: requests up to \<open>N\<close> succeed.\<close>

definition mraw_ok :: "mraw \<Rightarrow> bool" where
  "mraw_ok alloc = (\<forall>n m. alloc n = Some m \<longrightarrow> unat n \<le> m \<and> m < 2 ^ 62)"

definition enough :: "mraw \<Rightarrow> nat \<Rightarrow> bool" where
  "enough alloc N = (\<forall>n. unat n \<le> N \<longrightarrow> alloc n \<noteq> None)"

lemma content_length: "str_ok s \<Longrightarrow> length (content s) = unat (s_length s)"
  by (auto simp: str_ok_def content_def)

lemma str_text_content: "str_ok s \<Longrightarrow> str_text s = Some (content s)"
  by (auto simp: str_ok_def content_def str_text_def)

lemma mem_align_le:
  assumes "unat n < 2 ^ 63"
  shows "unat n \<le> unat (lexbor_mem_align n)" "unat (lexbor_mem_align n) < unat n + 8"
proof -
  have r: "unat (n mod 8) = unat n mod 8" by (simp add: unat_mod)
  have d: "unat (8 - n mod 8) = 8 - unat n mod 8"
  proof -
    have "unat (n mod 8) < 8" by (simp add: r)
    then show ?thesis by (simp add: unat_sub_if' r)
  qed
  have "unat (n + (8 - n mod 8)) = unat n + (8 - unat n mod 8)"
    using assms d by (subst unat_plus_if_fits) (auto simp: d)
  moreover have "n mod 8 \<noteq> 0 \<longleftrightarrow> unat n mod 8 \<noteq> 0"
    using r by (metis unat_eq_zero)
  ultimately show "unat n \<le> unat (lexbor_mem_align n)" "unat (lexbor_mem_align n) < unat n + 8"
    by (auto simp: lexbor_mem_align_def)
qed

text \<open>After a successful check there is room for \<open>p\<close> more bytes, and the text is the same.\<close>

lemma check_size_ok:
  assumes s: "str_ok s" and a: "mraw_ok alloc" and p: "unat p < 2 ^ 62"
  shows "wp (lexbor_str_check_size alloc s p) (\<lambda>(s', ok). (\<not> ok \<longrightarrow> s' = s) \<and>
    (ok \<longrightarrow> str_ok s' \<and> content s' = content s \<and> s_length s' = s_length s \<and>
       unat (s_length s) + unat p \<le> length (the (s_data s'))) \<and>
    (enough alloc (length (content s) + unat p + 8) \<longrightarrow> ok))"
proof -
  obtain l where l: "s_data s = Some l" "unat (s_length s) < length l" "length l < 2 ^ 62" "None \<notin> set (take (unat (s_length s)) l)"
    using s by (auto simp: str_ok_def)
  have sum: "unat (s_length s + p) = unat (s_length s) + unat p"
    using l p by (intro unat_plus_if_fits) simp
  have nw: "\<not> s_length s > SIZE_MAX - p"
  proof -
    have "unat (SIZE_MAX - p) = 2 ^ 64 - 1 - unat p" by (rule unat_SIZE_MAX_minus)
    then show ?thesis using l p by (simp add: word_less_nat_alt)
  qed
  have len: "unat (of_nat (length l) :: size_t) = length l" using l by (simp add: unat_of_nat)
  show ?thesis
  proof (cases "s_length s + p \<le> of_nat (length l)")
    case True
    then have "unat (s_length s) + unat p \<le> length l" using sum len by (simp add: word_le_nat_alt)
    then show ?thesis using True nw l s by (simp add: lexbor_str_check_size_def lexbor_str_size_def)
  next
    case False
    then have big: "length l < unat (s_length s) + unat p" using sum len by (simp add: word_le_nat_alt)
    let ?n = "lexbor_mem_align (s_length s + p)"
    have n: "unat (s_length s) + unat p \<le> unat ?n" "unat ?n < unat (s_length s) + unat p + 8"
      using mem_align_le [of "s_length s + p"] sum l p by simp_all
    show ?thesis
    proof (cases "alloc ?n")
      case None
      moreover have "\<not> enough alloc (length (content s) + unat p + 8)"
        using None n content_length [OF s] unfolding enough_def by (auto intro!: exI [of _ ?n])
      ultimately show ?thesis using False nw l by (simp add: lexbor_str_check_size_def lexbor_str_size_def block_grow_def)
    next
      case (Some m)
      then have m: "unat ?n \<le> m" "m < 2 ^ 62" using a by (auto simp: mraw_ok_def)
      let ?l = "take m l @ replicate (m - length l) None"
      have tk: "take m l = l" using m n big by simp
      have "lexbor_str_check_size alloc s p = Some (s\<lparr> s_data := Some ?l \<rparr>, True)"
        using False nw l Some by (simp add: lexbor_str_check_size_def lexbor_str_size_def block_grow_def)
      moreover have "str_ok (s\<lparr> s_data := Some ?l \<rparr>)" "content (s\<lparr> s_data := Some ?l \<rparr>) = content s"
        using l m n big tk by (auto simp: str_ok_def content_def)
      moreover have "unat (s_length s) + unat p \<le> length ?l" using m n big tk by simp
      ultimately show ?thesis by (simp del: append.simps)
    qed
  qed
qed

lemma write_tail:
  assumes "str_ok s" "unat (s_length s) + length bs < length (the (s_data s))"
  shows "\<exists>s'. (do {
      s \<leftarrow> bytes_write s (unat (s_length s)) bs;
      let s = s\<lparr> s_length := s_length s + of_nat (length bs) \<rparr>;
      bytes_write s (unat (s_length s)) [0] }) = Some s' \<and> str_ok s' \<and> content s' = content s @ bs"
proof -
  obtain l where l: "s_data s = Some l" "unat (s_length s) < length l" "length l < 2 ^ 62" "None \<notin> set (take (unat (s_length s)) l)"
    using assms(1) by (auto simp: str_ok_def)
  have ub: "unat (of_nat (length bs) :: size_t) = length bs" using assms(2) l by (simp add: unat_of_nat)
  have len: "unat (s_length s + of_nat (length bs)) = unat (s_length s) + length bs"
    using assms(2) l ub by (subst unat_plus_if_fits) simp_all
  let ?l = "take (unat (s_length s)) l @ map Some bs @ drop (unat (s_length s) + length bs) l"
  let ?l' = "take (unat (s_length s) + length bs) ?l @ Some 0 # drop (Suc (unat (s_length s) + length bs)) ?l"
  have "length ?l = length l" using assms(2) l by simp
  then have "(do {
      s \<leftarrow> bytes_write s (unat (s_length s)) bs;
      let s = s\<lparr> s_length := s_length s + of_nat (length bs) \<rparr>;
      bytes_write s (unat (s_length s)) [0] }) = Some (s\<lparr> s_data := Some ?l', s_length := s_length s + of_nat (length bs) \<rparr>)"
    using assms(2) l by (simp add: bytes_write_def len)
  moreover have "take (unat (s_length s) + length bs) ?l = take (unat (s_length s)) l @ map Some bs" using l assms(2) by simp
  ultimately show ?thesis
    using l assms(2) by (auto simp: str_ok_def content_def len image_iff)
qed

text \<open>What an operation that adds \<open>bs\<close> to the text promises.\<close>

definition appended :: "mraw \<Rightarrow> lexbor_string \<Rightarrow> lxb_char list \<Rightarrow> (lexbor_string \<times> bool) option \<Rightarrow> bool" where
  "appended alloc s bs r = wp r (\<lambda>(s', ok). str_ok s' \<and>
     content s' = (if ok then content s @ bs else content s) \<and>
     (enough alloc (length (content s) + length bs + 9) \<longrightarrow> ok))"

lemma append_ok:
  assumes "str_ok s" "mraw_ok alloc" "length bs < 2 ^ 61"
  shows "appended alloc s bs (lexbor_str_append alloc s bs)"
proof -
  have ub: "unat (of_nat (length bs) + 1 :: size_t) = length bs + 1" 
    using assms(3) by (subst unat_plus_if_fits) (simp_all add: unat_of_nat)
  obtain s' ok where c: "lexbor_str_check_size alloc s (of_nat (length bs) + 1) = Some (s', ok)" "\<not> ok \<longrightarrow> s' = s"
    "ok \<longrightarrow> str_ok s' \<and> content s' = content s \<and> s_length s' = s_length s \<and> unat (s_length s) + (length bs + 1) \<le> length (the (s_data s'))"
    "enough alloc (length (content s) + (length bs + 1) + 8) \<longrightarrow> ok"
    using check_size_ok [OF assms(1,2), of "of_nat (length bs) + 1"] assms(3) ub unfolding wp_iff by auto
  show ?thesis
  proof (cases ok)
    case True
    then obtain s'' where "(do {
      s \<leftarrow> bytes_write s' (unat (s_length s')) bs;
      let s = s\<lparr> s_length := s_length s + of_nat (length bs) \<rparr>;
      bytes_write s (unat (s_length s)) [0] }) = Some s''" "str_ok s''" "content s'' = content s' @ bs"
      using write_tail [of s' bs] c(3) by auto
    then show ?thesis
      using True c by (auto simp: appended_def lexbor_str_append_def Let_def bind_eq_Some_conv)
  next
    case False
    moreover have "\<not> enough alloc (length (content s) + length bs + 9)"
      using False c(4) by (simp add: algebra_simps)
    ultimately show ?thesis using c(1,2) assms(1) by (simp add: appended_def lexbor_str_append_def)
  qed
qed

text \<open>The operations that add to the text by one write and a terminator.\<close>

lemma append_one_ok:
  assumes "str_ok s" "mraw_ok alloc"
  shows "appended alloc s [c] (lexbor_str_append_one alloc s c)"
proof -
  have one: "of_nat (length [c]) = (1 :: size_t)" by simp
  have "lexbor_str_append_one alloc s c = lexbor_str_append alloc s [c]"
    unfolding lexbor_str_append_one_def lexbor_str_append_def one by simp
  then show ?thesis using append_ok [OF assms, of "[c]"] by simp
qed

lemma append_lowercase_ok:
  assumes "str_ok s" "mraw_ok alloc" "length bs < 2 ^ 61"
  shows "appended alloc s (map lowercase bs) (lexbor_str_append_lowercase alloc s bs)"
proof -
  have ub: "unat (of_nat (length bs) :: size_t) = length bs" "unat (of_nat (length bs) + 1 :: size_t) = length bs + 1"
    using assms(3) by (subst unat_plus_if_fits | simp add: unat_of_nat)+
  have "lexbor_str_append_lowercase alloc s bs = lexbor_str_append alloc s (map lowercase bs)"
  proof -
    have "unat (s_length s' + of_nat (length bs)) = unat (s_length s') + length bs"
      if "lexbor_str_check_size alloc s (of_nat (length bs) + 1) = Some (s', True)" for s'
    proof -
      have "s_length s' = s_length s" "unat (s_length s) < 2 ^ 62"
        using check_size_ok [OF assms(1,2), of "of_nat (length bs) + 1"] that ub(2) assms(1,3) by (auto simp: str_ok_def)
      then show ?thesis using assms(3) ub by (subst unat_plus_if_fits) simp_all
    qed
    then show ?thesis
      unfolding lexbor_str_append_lowercase_def lexbor_str_append_def
      by (cases "lexbor_str_check_size alloc s (of_nat (length bs) + 1)") (auto simp: bytes_write_def Let_def split: bind_split)
  qed
  then show ?thesis using append_ok [OF assms(1,2), of "map lowercase bs"] assms(3) by simp
qed

lemma str_init_ok:
  assumes "mraw_ok alloc" "unat n < 2 ^ 62"
  shows "wp (lexbor_str_init alloc n) (\<lambda>(s, ok). (if ok then str_ok s \<and> content s = [] else s_data s = None) \<and>
    (enough alloc (unat n + 9) \<longrightarrow> ok))"
proof -
  have n: "unat (n + 1) = unat n + 1" using assms(2) by (subst unat_plus_if_fits) simp_all
  then have al: "unat n + 1 \<le> unat (lexbor_mem_align (n + 1))" "unat (lexbor_mem_align (n + 1)) < unat n + 9"
    using mem_align_le [of "n + 1"] assms(2) by simp_all
  show ?thesis
  proof (cases "alloc (lexbor_mem_align (n + 1))")
    case None
    then have "\<not> enough alloc (unat n + 9)" using al unfolding enough_def by (auto intro!: exI [of _ "lexbor_mem_align (n + 1)"])
    then show ?thesis using None by (simp add: lexbor_str_init_def)
  next
    case (Some m)
    then have "0 < m" "m < 2 ^ 62" using assms(1) al by (fastforce simp: mraw_ok_def)+
    then show ?thesis using Some by (auto simp: lexbor_str_init_def bytes_write_def str_ok_def content_def)
  qed
qed

lemma byte_read_ok: "str_ok s \<Longrightarrow> i < length (content s) \<Longrightarrow> byte_read s i = Some (content s ! i)"
  by (force simp: str_ok_def content_def byte_read_def in_set_conv_nth)

end
