(* ===== verification/Chr_Base.thy ===== *)
theory Chr_Base
  imports Lxb_String Lxb_Html_In_Spec
begin

text \<open>
  The text of tokens and attribute values: \<open>html/parser_char.c\<close> and \<open>html/parser_char_ref.c\<close>.  The bytes of a
  token, which may lie in several buffers, are appended to a string while line ends are
  normalised, NUL bytes are replaced or dropped, and character references are resolved.
  The object \<open>lxb_html_parser_char_t\<close> is the record \<open>parser_char\<close>; its state, a function pointer, is the
  datatype \<open>pc_state\<close>.  A state function takes the position in a buffer and its end, and returns the
  object, the string and the new position.

  The environment holds the bytes in memory, the pool of memory, the address of the byte that stands
  for the end, the table of the named references (\<open>html/tokenizer/res.h\<close>, generated) and
  whether the list of errors can grow.
\<close>

section \<open>The object\<close>

datatype pc_state =
    PC_data | PC_data_check_lf | PC_data_lcase | PC_data_check_lf_lcase
  | PC_ref_data | PC_ref_check_lf | PC_ref | PC_ref_named | PC_ref_ambiguous_ampersand
  | PC_ref_numeric | PC_ref_hexademical_start | PC_ref_decimal_start | PC_ref_hexademical | PC_ref_decimal

datatype pc_error =
    ERROR_MISEAFCHRE | ERROR_UNNACHRE | ERROR_ABOFDIINNUCHRE | ERROR_NUCHRE | ERROR_CHREOUUNRA
  | ERROR_SUCHRE | ERROR_NOCHRE | ERROR_COCHRE

record sbst_entry =
  sb_key :: lxb_char
  sb_value :: "lxb_char list option"
  sb_left :: nat
  sb_right :: nat
  sb_next :: nat

record pc_env =
  pe_mem :: bytemem
  pe_alloc :: mraw
  pe_eof :: addr
  pe_sbst :: "nat \<Rightarrow> sbst_entry"
  pe_error_alloc :: "nat \<Rightarrow> bool"

text \<open>\<open>pc_tmp\<close> is the union of \<open>tmp.len\<close> and \<open>tmp.num\<close>.\<close>

record parser_char =
  pc_state :: pc_state
  pc_replace_null :: bool
  pc_drop_null :: bool
  pc_is_attribute :: bool
  pc_tmp :: size_t
  pc_status :: lxb_status
  pc_is_eof :: bool
  pc_errors :: "(addr \<times> pc_error) list option"
  pc_entity :: nat
  pc_entity_match :: "nat option"
  pc_entity_begin :: addr
  pc_entity_str_len :: size_t

type_synonym pc_result = "parser_char \<times> lexbor_string \<times> addr"

definition pc_error_add :: "pc_env \<Rightarrow> parser_char \<Rightarrow> addr \<Rightarrow> pc_error \<Rightarrow> parser_char" where
  "pc_error_add E pc pos i =
    (case pc_errors pc of
       None \<Rightarrow> pc
     | Some es \<Rightarrow> if pe_error_alloc E (length es) then pc\<lparr> pc_errors := Some (es @ [(pos, i)]) \<rparr> else pc)"

text \<open>\<open>if (res == NULL) { pc->status = ...; return end; }\<close> after an operation on the string.\<close>

definition pc_check :: "(lexbor_string \<times> bool) option \<Rightarrow> parser_char \<Rightarrow> addr \<Rightarrow> (lexbor_string \<Rightarrow> pc_result option) \<Rightarrow> pc_result option" where
  "pc_check r pc fin k = do {
     (s, ok) \<leftarrow> r;
     if \<not> ok then Some (pc\<lparr> pc_status := LXB_STATUS_ERROR_MEMORY_ALLOCATION \<rparr>, s, fin) else k s
   }"

section \<open>Text without references\<close>

text \<open>The loop of \<open>lxb_html_parser_char_data\<close> and of its variant for lower case, which differ in the function that
  appends (\<open>put\<close>) and in the state after a carriage return at the end of a buffer.  \<open>bgn\<close> is where the
  bytes begin that are not yet appended.\<close>

function char_data_loop :: "pc_env \<Rightarrow> (mraw \<Rightarrow> lexbor_string \<Rightarrow> lxb_char list \<Rightarrow> (lexbor_string \<times> bool) option) \<Rightarrow> pc_state
    \<Rightarrow> parser_char \<Rightarrow> lexbor_string \<Rightarrow> addr \<Rightarrow> addr \<Rightarrow> addr \<Rightarrow> pc_result option" where
  "char_data_loop E put check_lf pc s bgn data fin =
    (if data = fin then
       (if bgn \<noteq> data then do {
          bs \<leftarrow> mem_range (pe_mem E) bgn (data - bgn);
          pc_check (put (pe_alloc E) s bs) pc fin (\<lambda>s. Some (pc, s, data))
        }
        else Some (pc, s, data))
     else if fin < data then None
     else do {
       c \<leftarrow> pe_mem E data;
       if c = 0x0D then do {
         let data = data + 1;
         bs \<leftarrow> mem_range (pe_mem E) bgn (data - bgn);
         pc_check (put (pe_alloc E) s bs) pc fin (\<lambda>s. do {
           s \<leftarrow> bytes_write s (unat (s_length s - 1)) [0x0A];
           if fin \<le> data then Some (pc\<lparr> pc_state := check_lf \<rparr>, s, data)
           else do {
             c \<leftarrow> pe_mem E data;
             let data = (if c = 0x0A then data + 1 else data);
             char_data_loop E put check_lf pc s data data fin
           }
         })
       }
       else if c = 0x00 then
         (if pc_is_eof pc then Some (pc, s, fin)
          else if \<not> pc_replace_null pc then
            (if pc_drop_null pc then do {
               bs \<leftarrow> mem_range (pe_mem E) bgn (data - bgn);
               pc_check (put (pe_alloc E) s bs) pc fin (\<lambda>s.
                 char_data_loop E put check_lf pc s (data + 1) (data + 1) fin)
             }
             else char_data_loop E put check_lf pc s bgn (data + 1) fin)
          else do {
            bs \<leftarrow> mem_range (pe_mem E) bgn (data - bgn);
            pc_check (if bgn \<noteq> data then put (pe_alloc E) s bs else Some (s, True)) pc fin (\<lambda>s.
              pc_check (lexbor_str_append (pe_alloc E) s lexbor_str_res_ansi_replacement_character) pc fin (\<lambda>s.
                char_data_loop E put check_lf pc s (data + 1) (data + 1) fin))
          })
       else char_data_loop E put check_lf pc s bgn (data + 1) fin
     })"
  by pat_completeness auto
termination by (relation "measure (\<lambda>(_, _, _, _, _, _, data, fin). fin - data)") auto

declare char_data_loop.simps [simp del]

definition lxb_html_parser_char_data :: "pc_env \<Rightarrow> parser_char \<Rightarrow> lexbor_string \<Rightarrow> addr \<Rightarrow> addr \<Rightarrow> pc_result option" where
  "lxb_html_parser_char_data E pc s data fin = char_data_loop E lexbor_str_append PC_data_check_lf pc s data data fin"

definition lxb_html_parser_char_data_check_lf :: "pc_env \<Rightarrow> parser_char \<Rightarrow> lexbor_string \<Rightarrow> addr \<Rightarrow> addr \<Rightarrow> pc_result option" where
  "lxb_html_parser_char_data_check_lf E pc s data fin = do {
     c \<leftarrow> pe_mem E data;
     let data = (if c = 0x0A then data + 1 else data);
     Some (pc\<lparr> pc_state := PC_data \<rparr>, s, data)
   }"

definition lxb_html_parser_char_data_lcase :: "pc_env \<Rightarrow> parser_char \<Rightarrow> lexbor_string \<Rightarrow> addr \<Rightarrow> addr \<Rightarrow> pc_result option" where
  "lxb_html_parser_char_data_lcase E pc s data fin =
     char_data_loop E lexbor_str_append_lowercase PC_data_check_lf_lcase pc s data data fin"

definition lxb_html_parser_char_data_check_lf_lcase :: "pc_env \<Rightarrow> parser_char \<Rightarrow> lexbor_string \<Rightarrow> addr \<Rightarrow> addr \<Rightarrow> pc_result option" where
  "lxb_html_parser_char_data_check_lf_lcase E pc s data fin = do {
     c \<leftarrow> pe_mem E data;
     let data = (if c = 0x0A then data + 1 else data);
     Some (pc\<lparr> pc_state := PC_data_lcase \<rparr>, s, data)
   }"

section \<open>Text with references\<close>

function char_ref_loop :: "pc_env \<Rightarrow> parser_char \<Rightarrow> lexbor_string \<Rightarrow> addr \<Rightarrow> addr \<Rightarrow> addr \<Rightarrow> pc_result option" where
  "char_ref_loop E pc s bgn data fin =
    (if data = fin then
       (if bgn \<noteq> data then do {
          bs \<leftarrow> mem_range (pe_mem E) bgn (data - bgn);
          pc_check (lexbor_str_append (pe_alloc E) s bs) pc fin (\<lambda>s. Some (pc, s, data))
        }
        else Some (pc, s, data))
     else if fin < data then None
     else do {
       c \<leftarrow> pe_mem E data;
       if c = 0x26 then do {
         let data = data + 1;
         bs \<leftarrow> mem_range (pe_mem E) bgn (data - bgn);
         pc_check (lexbor_str_append (pe_alloc E) s bs) pc fin (\<lambda>s. Some (pc\<lparr> pc_state := PC_ref \<rparr>, s, data))
       }
       else if c = 0x0D then do {
         let data = data + 1;
         bs \<leftarrow> mem_range (pe_mem E) bgn (data - bgn);
         pc_check (lexbor_str_append (pe_alloc E) s bs) pc fin (\<lambda>s. do {
           s \<leftarrow> bytes_write s (unat (s_length s - 1)) [0x0A];
           if fin \<le> data then Some (pc\<lparr> pc_state := PC_ref_check_lf \<rparr>, s, data)
           else do {
             c \<leftarrow> pe_mem E data;
             let data = (if c = 0x0A then data + 1 else data);
             char_ref_loop E pc s data data fin
           }
         })
       }
       else if c = 0x00 then
         (if pc_is_eof pc then Some (pc, s, fin)
          else if \<not> pc_replace_null pc then
            (if pc_drop_null pc then do {
               bs \<leftarrow> mem_range (pe_mem E) bgn (data - bgn);
               pc_check (lexbor_str_append (pe_alloc E) s bs) pc fin (\<lambda>s.
                 char_ref_loop E pc s (data + 1) (data + 1) fin)
             }
             else char_ref_loop E pc s bgn (data + 1) fin)
          else do {
            bs \<leftarrow> mem_range (pe_mem E) bgn (data - bgn);
            pc_check (if bgn \<noteq> data then lexbor_str_append (pe_alloc E) s bs else Some (s, True)) pc fin (\<lambda>s.
              pc_check (lexbor_str_append (pe_alloc E) s lexbor_str_res_ansi_replacement_character) pc fin (\<lambda>s.
                char_ref_loop E pc s (data + 1) (data + 1) fin))
          })
       else char_ref_loop E pc s bgn (data + 1) fin
     })"
  by pat_completeness auto
termination by (relation "measure (\<lambda>(_, _, _, _, data, fin). fin - data)") auto

declare char_ref_loop.simps [simp del]

definition lxb_html_parser_char_ref_data :: "pc_env \<Rightarrow> parser_char \<Rightarrow> lexbor_string \<Rightarrow> addr \<Rightarrow> addr \<Rightarrow> pc_result option" where
  "lxb_html_parser_char_ref_data E pc s data fin = char_ref_loop E pc s data data fin"

definition lxb_html_parser_char_ref_check_lf :: "pc_env \<Rightarrow> parser_char \<Rightarrow> lexbor_string \<Rightarrow> addr \<Rightarrow> addr \<Rightarrow> pc_result option" where
  "lxb_html_parser_char_ref_check_lf E pc s data fin = do {
     c \<leftarrow> pe_mem E data;
     let data = (if c = 0x0A then data + 1 else data);
     Some (pc\<lparr> pc_state := PC_ref_data \<rparr>, s, data)
   }"

definition is_alphanumeric :: "lxb_char \<Rightarrow> bool" where
  "is_alphanumeric c = (tbl lexbor_str_res_alphanumeric_character c \<noteq> 0xFF)"

definition lxb_html_parser_char_ref_state :: "pc_env \<Rightarrow> parser_char \<Rightarrow> lexbor_string \<Rightarrow> addr \<Rightarrow> addr \<Rightarrow> pc_result option" where
  "lxb_html_parser_char_ref_state E pc s data fin = do {
     c \<leftarrow> pe_mem E data;
     if is_alphanumeric c then
       Some (pc\<lparr> pc_tmp := s_length s - 1, pc_entity := 1, pc_entity_match := None, pc_state := PC_ref_named \<rparr>, s, data)
     else if c = 0x23 then
       pc_check (lexbor_str_append_one (pe_alloc E) s c) pc fin (\<lambda>s.
         Some (pc\<lparr> pc_entity_begin := data, pc_entity_str_len := s_length s - 2, pc_state := PC_ref_numeric \<rparr>, s, data + 1))
     else Some (pc\<lparr> pc_state := PC_ref_data \<rparr>, s, data)
   }"

text \<open>\<open>lexbor_sbst_entry_static_find\<close>: the entry 0 stands for the end of the table.\<close>

partial_function (option) lexbor_sbst_entry_static_find :: "(nat \<Rightarrow> sbst_entry) \<Rightarrow> nat \<Rightarrow> lxb_char \<Rightarrow> nat option option" where
  "lexbor_sbst_entry_static_find strt root key =
    (if root = 0 then Some None
     else if sb_key (strt root) = key then Some (Some root)
     else if key > sb_key (strt root) then lexbor_sbst_entry_static_find strt (sb_right (strt root)) key
     else lexbor_sbst_entry_static_find strt (sb_left (strt root)) key)"

text \<open>The code behind the label \<open>done\<close>: the reference has ended at \<open>data\<close>, whose byte has been appended.\<close>

definition char_ref_named_done :: "pc_env \<Rightarrow> parser_char \<Rightarrow> lexbor_string \<Rightarrow> addr \<Rightarrow> addr \<Rightarrow> pc_result option" where
  "char_ref_named_done E pc s data fin =
    (case pc_entity_match pc of
       None \<Rightarrow> do {
         let s = s\<lparr> s_length := s_length s - 1 \<rparr>;
         s \<leftarrow> bytes_write s (unat (s_length s)) [0];
         Some (pc\<lparr> pc_state := PC_ref_ambiguous_ampersand \<rparr>, s, data)
       }
     | Some m \<Rightarrow> do {
         let pc = pc\<lparr> pc_state := PC_ref_data \<rparr>;
         flush \<leftarrow> (if pc_is_attribute pc \<and> sb_key (pe_sbst E m) \<noteq> 0x3B then do {
             ch \<leftarrow> byte_read s (unat (pc_entity_str_len pc));
             Some (ch = 0x3D \<or> is_alphanumeric ch)
           }
           else Some False);
         if flush then Some (pc, s, data + 1)
         else do {
           let pc = (if sb_key (pe_sbst E m) = 0x3B then pc_error_add E pc (pc_entity_begin pc) ERROR_MISEAFCHRE else pc);
           v \<leftarrow> sb_value (pe_sbst E m);
           if s_length s - pc_tmp pc > of_nat (length v) then do {
             let dest_len = pc_tmp pc + of_nat (length v);
             s \<leftarrow> bytes_write s (unat (pc_tmp pc)) v;
             s \<leftarrow> bytes_move s (unat dest_len) (unat (pc_entity_str_len pc)) (unat (s_length s - pc_entity_str_len pc));
             let s = s\<lparr> s_length := s_length s - (pc_entity_str_len pc - dest_len) \<rparr>;
             let s = s\<lparr> s_length := s_length s - 1 \<rparr>;
             s \<leftarrow> bytes_write s (unat (s_length s)) [0];
             Some (pc, s, data)
           }
           else do {
             let s = s\<lparr> s_length := pc_tmp pc \<rparr>;
             pc_check (lexbor_str_append (pe_alloc E) s v) pc fin (\<lambda>s. Some (pc, s, data))
           }
         }
       })"

function char_ref_named_loop :: "pc_env \<Rightarrow> parser_char \<Rightarrow> lexbor_string \<Rightarrow> nat \<Rightarrow> addr \<Rightarrow> addr \<Rightarrow> pc_result option" where
  "char_ref_named_loop E pc s entry data fin =
    (if data = fin then do {
       let pc = pc\<lparr> pc_entity := entry \<rparr>;
       bs \<leftarrow> mem_range (pe_mem E) (pc_entity_begin pc) (fin - pc_entity_begin pc);
       pc_check (lexbor_str_append (pe_alloc E) s bs) pc fin (\<lambda>s. Some (pc, s, data))
     }
     else if fin < data then None
     else do {
       c \<leftarrow> pe_mem E data;
       r \<leftarrow> lexbor_sbst_entry_static_find (pe_sbst E) entry c;
       (case r of
          None \<Rightarrow> do {
            bs \<leftarrow> mem_range (pe_mem E) (pc_entity_begin pc) (data - pc_entity_begin pc + 1);
            pc_check (lexbor_str_append (pe_alloc E) s bs) pc fin (\<lambda>s. char_ref_named_done E pc s data fin)
          }
        | Some entry \<Rightarrow>
            (if sb_value (pe_sbst E entry) \<noteq> None then do {
               bs \<leftarrow> mem_range (pe_mem E) (pc_entity_begin pc) (data - pc_entity_begin pc);
               pc_check (if data \<noteq> pc_entity_begin pc then lexbor_str_append (pe_alloc E) s bs else Some (s, True)) pc fin (\<lambda>s.
                 char_ref_named_loop E (pc\<lparr> pc_entity_begin := data, pc_entity_match := Some entry, pc_entity_str_len := s_length s + 1 \<rparr>)
                   s (sb_next (pe_sbst E entry)) (data + 1) fin)
             }
             else char_ref_named_loop E pc s (sb_next (pe_sbst E entry)) (data + 1) fin))
     })"
  by pat_completeness auto
termination by (relation "measure (\<lambda>(_, _, _, _, data, fin). fin - data)") auto

declare char_ref_named_loop.simps [simp del]

definition lxb_html_parser_char_ref_state_named :: "pc_env \<Rightarrow> parser_char \<Rightarrow> lexbor_string \<Rightarrow> addr \<Rightarrow> addr \<Rightarrow> pc_result option" where
  "lxb_html_parser_char_ref_state_named E pc s data fin =
     char_ref_named_loop E (pc\<lparr> pc_entity_begin := data \<rparr>) s (pc_entity pc) data fin"

definition lxb_html_parser_char_ref_state_ambiguous_ampersand :: "pc_env \<Rightarrow> parser_char \<Rightarrow> lexbor_string \<Rightarrow> addr \<Rightarrow> addr \<Rightarrow> pc_result option" where
  "lxb_html_parser_char_ref_state_ambiguous_ampersand E pc s data fin = do {
     c \<leftarrow> pe_mem E data;
     let pc = (if c = 0x3B then pc_error_add E pc data ERROR_UNNACHRE else pc);
     Some (pc\<lparr> pc_state := PC_ref_data \<rparr>, s, data)
   }"

section \<open>Numeric references\<close>

definition lxb_html_parser_char_ref_state_numeric :: "pc_env \<Rightarrow> parser_char \<Rightarrow> lexbor_string \<Rightarrow> addr \<Rightarrow> addr \<Rightarrow> pc_result option" where
  "lxb_html_parser_char_ref_state_numeric E pc s data fin = do {
     let pc = pc\<lparr> pc_tmp := 0 \<rparr>;
     c \<leftarrow> pe_mem E data;
     if c = 0x78 \<or> c = 0x58 then
       pc_check (lexbor_str_append (pe_alloc E) s [c]) pc fin (\<lambda>s. Some (pc\<lparr> pc_state := PC_ref_hexademical_start \<rparr>, s, data + 1))
     else Some (pc\<lparr> pc_state := PC_ref_decimal_start \<rparr>, s, data)
   }"

definition lxb_html_parser_char_ref_state_hexademical_start :: "pc_env \<Rightarrow> parser_char \<Rightarrow> lexbor_string \<Rightarrow> addr \<Rightarrow> addr \<Rightarrow> pc_result option" where
  "lxb_html_parser_char_ref_state_hexademical_start E pc s data fin = do {
     c \<leftarrow> pe_mem E data;
     if tbl lexbor_str_res_map_hex c \<noteq> 0xFF then Some (pc\<lparr> pc_state := PC_ref_hexademical \<rparr>, s, data)
     else Some ((pc_error_add E pc data ERROR_ABOFDIINNUCHRE)\<lparr> pc_state := PC_ref_data \<rparr>, s, data)
   }"

definition lxb_html_parser_char_ref_state_decimal_start :: "pc_env \<Rightarrow> parser_char \<Rightarrow> lexbor_string \<Rightarrow> addr \<Rightarrow> addr \<Rightarrow> pc_result option" where
  "lxb_html_parser_char_ref_state_decimal_start E pc s data fin = do {
     c \<leftarrow> pe_mem E data;
     if tbl lexbor_str_res_map_num c \<noteq> 0xFF then Some (pc\<lparr> pc_state := PC_ref_decimal \<rparr>, s, data)
     else Some ((pc_error_add E pc data ERROR_ABOFDIINNUCHRE)\<lparr> pc_state := PC_ref_data \<rparr>, s, data)
   }"

unbundle bit_operations_syntax

definition lxb_html_parser_char_ref_numeric_to_ascii_utf_8 :: "size_t \<Rightarrow> lxb_char list" where
  "lxb_html_parser_char_ref_numeric_to_ascii_utf_8 codepoint =
    (if codepoint \<le> 0x7F then [ucast codepoint]
     else if codepoint \<le> 0x7FF then [ucast (0xC0 OR drop_bit 6 codepoint), ucast (0x80 OR (codepoint AND 0x3F))]
     else if codepoint \<le> 0xFFFF then
       [ucast (0xE0 OR drop_bit 12 codepoint), ucast (0x80 OR (drop_bit 6 codepoint AND 0x3F)), ucast (0x80 OR (codepoint AND 0x3F))]
     else if codepoint \<le> 0x1FFFFF then
       [ucast (0xF0 OR drop_bit 18 codepoint), ucast (0x80 OR (drop_bit 12 codepoint AND 0x3F)),
        ucast (0x80 OR (drop_bit 6 codepoint AND 0x3F)), ucast (0x80 OR (codepoint AND 0x3F))]
     else [])"

text \<open>The code points 0 to 0x9F, with those that the standard replaces.\<close>

definition lexbor_str_res_replacement_character :: "nat list" where
  "lexbor_str_res_replacement_character = 65533 # [1..<128] @
     [8364, 129, 8218, 402, 8222, 8230, 8224, 8225, 710, 8240, 352, 8249, 338, 141, 381, 143,
      144, 8216, 8217, 8220, 8221, 8226, 8211, 8212, 732, 8482, 353, 8250, 339, 157, 382, 376]"

text \<open>The two last code points of a plane, 0xFFFE, 0xFFFF, \dots, 0x10FFFE, 0x10FFFF.\<close>

definition plane_end :: "size_t \<Rightarrow> bool" where
  "plane_end num = (num \<in> set [0xFFFE, 0xFFFF, 0x1FFFE, 0x1FFFF, 0x2FFFE, 0x2FFFF, 0x3FFFE, 0x3FFFF, 0x4FFFE, 0x4FFFF,
     0x5FFFE, 0x5FFFF, 0x6FFFE, 0x6FFFF, 0x7FFFE, 0x7FFFF, 0x8FFFE, 0x8FFFF, 0x9FFFE, 0x9FFFF, 0xAFFFE, 0xAFFFF,
     0xBFFFE, 0xBFFFF, 0xCFFFE, 0xCFFFF, 0xDFFFE, 0xDFFFF, 0xEFFFE, 0xEFFFF, 0xFFFFE, 0xFFFFF, 0x10FFFE, 0x10FFFF])"

definition lxb_html_parser_char_ref_numeric_end :: "pc_env \<Rightarrow> parser_char \<Rightarrow> lexbor_string \<Rightarrow> addr \<Rightarrow> addr \<Rightarrow> pc_result option" where
  "lxb_html_parser_char_ref_numeric_end E pc s data fin = do {
     let s = s\<lparr> s_length := pc_entity_str_len pc \<rparr>;
     let num = pc_tmp pc;
     let bad = (if num = 0 then Some ERROR_NUCHRE
       else if num > 0x10FFFF then Some ERROR_CHREOUUNRA
       else if num \<ge> 0xD800 \<and> num \<le> 0xDFFF then Some ERROR_SUCHRE
       else None);
     (case bad of
        Some e \<Rightarrow>
          (let pc = pc_error_add E pc (pc_entity_begin pc) e in
           pc_check (lexbor_str_append (pe_alloc E) s lexbor_str_res_ansi_replacement_character) pc fin (\<lambda>s. Some (pc, s, data)))
      | None \<Rightarrow> do {
          let pc = (if num \<ge> 0xFDD0 \<and> num \<le> 0xFDEF then pc_error_add E pc (pc_entity_begin pc) ERROR_NOCHRE else pc);
          let pc = (if plane_end num then pc_error_add E pc (pc_entity_begin pc) ERROR_NOCHRE else pc);
          let pc = (if num \<le> 0x1F \<or> num \<ge> 0x7F \<and> num \<le> 0x9F then pc_error_add E pc (pc_entity_begin pc) ERROR_COCHRE else pc);
          let pc = (if num \<le> 0x9F then pc\<lparr> pc_tmp := of_nat (lexbor_str_res_replacement_character ! unat num) \<rparr> else pc);
          pc_check (lexbor_str_check_size (pe_alloc E) s 5) pc fin (\<lambda>s. do {
            let bs = lxb_html_parser_char_ref_numeric_to_ascii_utf_8 (pc_tmp pc);
            s \<leftarrow> bytes_write s (unat (s_length s)) bs;
            let s = s\<lparr> s_length := s_length s + of_nat (length bs) \<rparr>;
            s \<leftarrow> bytes_write s (unat (s_length s)) [0];
            Some (pc, s, data)
          })
        })
   }"

text \<open>The loops of the hexadecimal and of the decimal state: \<open>digits\<close> is the table, \<open>add\<close> how a digit is taken in.\<close>

function char_ref_digits_loop :: "pc_env \<Rightarrow> lxb_char list \<Rightarrow> (size_t \<Rightarrow> size_t \<Rightarrow> size_t) \<Rightarrow> parser_char \<Rightarrow> lexbor_string \<Rightarrow> addr \<Rightarrow> addr \<Rightarrow> addr \<Rightarrow> pc_result option" where
  "char_ref_digits_loop E digits add pc s bgn data fin =
    (if data = fin then do {
       bs \<leftarrow> mem_range (pe_mem E) bgn (data - bgn);
       pc_check (lexbor_str_append (pe_alloc E) s bs) pc fin (\<lambda>s. Some (pc, s, data))
     }
     else if fin < data then None
     else do {
       c \<leftarrow> pe_mem E data;
       if tbl digits c = 0xFF then
         lxb_html_parser_char_ref_numeric_end E (pc\<lparr> pc_state := PC_ref_data \<rparr>) s (if c = 0x3B then data + 1 else data) fin
       else do {
         let pc = (if pc_tmp pc \<le> 0x10FFFF then pc\<lparr> pc_tmp := add (pc_tmp pc) (ucast (tbl digits c)) \<rparr> else pc);
         char_ref_digits_loop E digits add pc s bgn (data + 1) fin
       }
     })"
  by pat_completeness auto
termination by (relation "measure (\<lambda>(_, _, _, _, _, _, data, fin). fin - data)") auto

declare char_ref_digits_loop.simps [simp del]

definition lxb_html_parser_char_ref_state_hexademical :: "pc_env \<Rightarrow> parser_char \<Rightarrow> lexbor_string \<Rightarrow> addr \<Rightarrow> addr \<Rightarrow> pc_result option" where
  "lxb_html_parser_char_ref_state_hexademical E pc s data fin =
     char_ref_digits_loop E lexbor_str_res_map_hex (\<lambda>num d. push_bit 4 num OR d) pc s data data fin"

definition lxb_html_parser_char_ref_state_decimal :: "pc_env \<Rightarrow> parser_char \<Rightarrow> lexbor_string \<Rightarrow> addr \<Rightarrow> addr \<Rightarrow> pc_result option" where
  "lxb_html_parser_char_ref_state_decimal E pc s data fin =
     char_ref_digits_loop E lexbor_str_res_map_num (\<lambda>num d. d + num * 10) pc s data data fin"

section \<open>Processing\<close>

definition pc_call :: "pc_env \<Rightarrow> parser_char \<Rightarrow> lexbor_string \<Rightarrow> addr \<Rightarrow> addr \<Rightarrow> pc_result option" where
  "pc_call E pc =
    (case pc_state pc of
       PC_data \<Rightarrow> lxb_html_parser_char_data E pc
     | PC_data_check_lf \<Rightarrow> lxb_html_parser_char_data_check_lf E pc
     | PC_data_lcase \<Rightarrow> lxb_html_parser_char_data_lcase E pc
     | PC_data_check_lf_lcase \<Rightarrow> lxb_html_parser_char_data_check_lf_lcase E pc
     | PC_ref_data \<Rightarrow> lxb_html_parser_char_ref_data E pc
     | PC_ref_check_lf \<Rightarrow> lxb_html_parser_char_ref_check_lf E pc
     | PC_ref \<Rightarrow> lxb_html_parser_char_ref_state E pc
     | PC_ref_named \<Rightarrow> lxb_html_parser_char_ref_state_named E pc
     | PC_ref_ambiguous_ampersand \<Rightarrow> lxb_html_parser_char_ref_state_ambiguous_ampersand E pc
     | PC_ref_numeric \<Rightarrow> lxb_html_parser_char_ref_state_numeric E pc
     | PC_ref_hexademical_start \<Rightarrow> lxb_html_parser_char_ref_state_hexademical_start E pc
     | PC_ref_decimal_start \<Rightarrow> lxb_html_parser_char_ref_state_decimal_start E pc
     | PC_ref_hexademical \<Rightarrow> lxb_html_parser_char_ref_state_hexademical E pc
     | PC_ref_decimal \<Rightarrow> lxb_html_parser_char_ref_state_decimal E pc)"

text \<open>\<open>while (data < end) { data = pc->state(pc, str, data, end); }\<close>\<close>

partial_function (option) pc_run :: "pc_env \<Rightarrow> parser_char \<Rightarrow> lexbor_string \<Rightarrow> addr \<Rightarrow> addr \<Rightarrow> (parser_char \<times> lexbor_string) option" where
  "pc_run E pc s data fin =
    (if data < fin then do {
       (pc, s, data) \<leftarrow> pc_call E pc s data fin;
       pc_run E pc s data fin
     }
     else Some (pc, s))"

partial_function (option) pc_nodes_loop :: "pc_env \<Rightarrow> in_heap \<Rightarrow> parser_char \<Rightarrow> lexbor_string \<Rightarrow> addr \<Rightarrow> addr \<Rightarrow> addr
    \<Rightarrow> (parser_char \<times> lexbor_string \<times> lxb_status) option" where
  "pc_nodes_loop E h pc s in_node data fin = do {
     n \<leftarrow> h in_node;
     if \<not> lexbor_in_segment n fin then do {
       (pc, s) \<leftarrow> pc_run E pc s data (n_end n);
       if pc_status pc \<noteq> LXB_STATUS_OK then Some (pc, s, pc_status pc)
       else
         (case n_next n of
            None \<Rightarrow> Some (pc, s, LXB_STATUS_ERROR)
          | Some b \<Rightarrow> do {
              nb \<leftarrow> h b;
              pc_nodes_loop E h pc s b (n_begin nb) fin
            })
     }
     else do {
       (pc, s) \<leftarrow> pc_run E pc s data fin;
       if pc_status pc \<noteq> LXB_STATUS_OK then Some (pc, s, pc_status pc)
       else do {
         (pc, s) \<leftarrow> pc_run E (pc\<lparr> pc_is_eof := True \<rparr>) s (pe_eof E) (pe_eof E + 1);
         Some (pc, s, pc_status pc)
       }
     }
   }"

definition lxb_html_parser_char_process :: "pc_env \<Rightarrow> in_heap \<Rightarrow> parser_char \<Rightarrow> lexbor_string \<Rightarrow> addr \<Rightarrow> addr \<Rightarrow> addr
    \<Rightarrow> (parser_char \<times> lexbor_string \<times> lxb_status) option" where
  "lxb_html_parser_char_process E h pc s in_node data fin = do {
     let pc = pc\<lparr> pc_status := LXB_STATUS_OK, pc_is_eof := False \<rparr>;
     n \<leftarrow> h in_node;
     (s, ok) \<leftarrow> (if s_data s = None
       then lexbor_str_init (pe_alloc E) (of_nat ((if lexbor_in_segment n fin then fin else n_end n) - data))
       else Some (s, True));
     if \<not> ok then Some (pc, s, LXB_STATUS_ERROR_MEMORY_ALLOCATION)
     else pc_nodes_loop E h pc s in_node data fin
   }"

declare pc_run.simps [code] pc_nodes_loop.simps [code] lexbor_sbst_entry_static_find.simps [code]

end
