(* ===== verification/Chr_Data.thy ===== *)
theory Chr_Data
  imports Chr_Base
begin

text \<open>
  Text without references against a definition byte by byte.  What the loops of \<open>parser_char.c\<close> append does
  not depend on how the text is cut into buffers: a carriage return at the end of a buffer is
  remembered in the state.
\<close>

section \<open>Bytes between two addresses\<close>

definition mbytes :: "bytemem \<Rightarrow> addr \<Rightarrow> addr \<Rightarrow> lxb_char list" where
  "mbytes m a b = the (mem_range m a (b - a))"

lemma mem_range_mbytes: "mapped m a b \<Longrightarrow> a \<le> b \<Longrightarrow> mem_range m a (b - a) = Some (mbytes m a b)"
  using mem_range_mapped [of m a "b - a"] by (auto simp: mbytes_def)

lemma mbytes_same [simp]: "mbytes m a a = []"
  by (simp add: mbytes_def)

lemma mbytes_length: "mapped m a b \<Longrightarrow> a \<le> b \<Longrightarrow> length (mbytes m a b) = b - a"
  using mem_range_length [OF mem_range_mbytes] .

lemma mbytes_split:
  assumes "mapped m a c" "a \<le> b" "b \<le> c"
  shows "mbytes m a c = mbytes m a b @ mbytes m b c"
proof -
  have "mapped m a b" "mapped m b c" using assms by (auto elim!: mapped_sub)
  then have "mem_range m a ((b - a) + (c - b)) = Some (mbytes m a b @ mbytes m b c)"
    using assms(2,3) unfolding mem_range_add by (simp add: mem_range_mbytes)
  then show ?thesis using assms(2,3) by (simp add: mbytes_def)
qed

lemma mbytes_one: "m a = Some c \<Longrightarrow> mbytes m a (Suc a) = [c]"
  by (simp add: mbytes_def)

lemma mbytes_Cons:
  assumes "mapped m a b" "a < b" "m a = Some c"
  shows "mbytes m a b = c # mbytes m (Suc a) b"
  using mbytes_split [of m a b "Suc a"] assms mbytes_one [of m a c] by simp

lemma mbytes_snoc:
  assumes "mapped m a (Suc b)" "a \<le> b" "m b = Some c"
  shows "mbytes m a (Suc b) = mbytes m a b @ [c]"
  using mbytes_split [of m a "Suc b" b] assms mbytes_one [of m b c] by simp

section \<open>The reference\<close>

text \<open>One byte: whether the last one was a carriage return, and the text so far.\<close>

fun data_step :: "(lxb_char \<Rightarrow> lxb_char) \<Rightarrow> bool \<Rightarrow> bool \<Rightarrow> lxb_char \<Rightarrow> bool \<times> lxb_char list \<Rightarrow> bool \<times> lxb_char list" where
  "data_step f rn dn c (cr, acc) =
    (if cr \<and> c = 0x0A then (False, acc)
     else if c = 0x0D then (True, acc @ [0x0A])
     else if c = 0 then (False, acc @ (if rn then lexbor_str_res_ansi_replacement_character else if dn then [] else [f c]))
     else (False, acc @ [f c]))"

definition data_run :: "(lxb_char \<Rightarrow> lxb_char) \<Rightarrow> bool \<Rightarrow> bool \<Rightarrow> lxb_char list \<Rightarrow> bool \<times> lxb_char list \<Rightarrow> bool \<times> lxb_char list" where
  "data_run f rn dn = fold (data_step f rn dn)"

lemma data_run_simps [simp]:
  "data_run f rn dn [] x = x"
  "data_run f rn dn (c # cs) x = data_run f rn dn cs (data_step f rn dn c x)"
  "data_run f rn dn (cs @ ds) x = data_run f rn dn ds (data_run f rn dn cs x)"
  by (simp_all add: data_run_def)

text \<open>As an equation on the whole text.\<close>

fun normalized :: "(lxb_char \<Rightarrow> lxb_char) \<Rightarrow> bool \<Rightarrow> bool \<Rightarrow> lxb_char list \<Rightarrow> lxb_char list" where
  "normalized f rn dn [] = []"
| "normalized f rn dn (c # cs) =
    (if c = 0x0D then 0x0A # (case cs of d # ds \<Rightarrow> if d = 0x0A then normalized f rn dn ds else normalized f rn dn cs | [] \<Rightarrow> [])
     else if c = 0 then (if rn then lexbor_str_res_ansi_replacement_character else if dn then [] else [f c]) @ normalized f rn dn cs
     else f c # normalized f rn dn cs)"

lemma data_run_normalized:
  "snd (data_run f rn dn cs (False, acc)) = acc @ normalized f rn dn cs"
  "snd (data_run f rn dn cs (True, acc)) = acc @ (case cs of d # ds \<Rightarrow> if d = 0x0A then normalized f rn dn ds else normalized f rn dn cs | [] \<Rightarrow> [])"
proof (induction cs arbitrary: acc)
  case (Cons c cs)
  { case 1 then show ?case using Cons by simp }
  { case 2 then show ?case using Cons by (cases "c = 0x0A") simp_all }
qed simp_all

section \<open>Appending\<close>

lemma enough_mono: "enough alloc N \<Longrightarrow> M \<le> N \<Longrightarrow> enough alloc M"
  by (simp add: enough_def)

lemma write_last:
  assumes "str_ok s" "content s \<noteq> []"
  shows "\<exists>s'. bytes_write s (unat (s_length s - 1)) [c] = Some s' \<and> str_ok s' \<and> content s' = butlast (content s) @ [c]"
proof -
  obtain l where l: "s_data s = Some l" "unat (s_length s) < length l" "length l < 2 ^ 62" "None \<notin> set (take (unat (s_length s)) l)"
    using assms(1) by (auto simp: str_ok_def)
  have "0 < unat (s_length s)" using assms(2) l by (auto simp: content_def)
  then obtain n where n: "unat (s_length s) = Suc n" "unat (s_length s - 1) = n"
    by (metis diff_Suc_1 not0_implies_Suc not_gr_zero unat_eq_zero unat_minus_one)
  let ?l = "take n l @ Some c # drop (Suc n) l"
  have "bytes_write s (unat (s_length s - 1)) [c] = Some (s\<lparr> s_data := Some ?l \<rparr>)"
    using l n by (simp add: bytes_write_def)
  moreover have "take (Suc n) ?l = take n l @ [Some c]" using l n by simp
  moreover have "None \<notin> set (take n l)" using l(4) n set_take_subset_set_take [of n "Suc n" l] by auto
  moreover have "butlast (content s) = map the (take n l)"
    using l n by (simp add: content_def map_butlast [symmetric] butlast_take)
  ultimately show ?thesis using l n by (auto simp: str_ok_def content_def)
qed

text \<open>The result of a state function that consumes the buffer: it fails for want of memory only.\<close>

definition chr_post :: "pc_env \<Rightarrow> nat \<Rightarrow> addr \<Rightarrow> parser_char \<Rightarrow> lxb_char list \<Rightarrow> pc_result \<Rightarrow> bool" where
  "chr_post E N fin pc' acc r = (case r of (pc1, s1, d1) \<Rightarrow> d1 = fin \<and> str_ok s1 \<and>
     (if pc_status pc1 = LXB_STATUS_OK then pc1 = pc' \<and> content s1 = acc else pc_status pc1 = LXB_STATUS_ERROR_MEMORY_ALLOCATION) \<and>
     (enough (pe_alloc E) N \<longrightarrow> pc_status pc1 = LXB_STATUS_OK))"

lemma pc_check_post:
  assumes "appended (pe_alloc E) s bs r" "length (content s) + length bs + 9 \<le> N"
    and "\<And>s1. str_ok s1 \<Longrightarrow> content s1 = content s @ bs \<Longrightarrow> wp (k s1) (chr_post E N fin pc' acc)"
  shows "wp (pc_check r pc fin k) (chr_post E N fin pc' acc)"
proof -
  obtain s1 ok where r: "r = Some (s1, ok)" "str_ok s1" "content s1 = (if ok then content s @ bs else content s)"
    "enough (pe_alloc E) (length (content s) + length bs + 9) \<longrightarrow> ok"
    using assms(1) by (auto simp: appended_def wp_iff)
  then show ?thesis
    using assms(3) [of s1] enough_mono [OF _ assms(2)] by (cases ok) (auto simp: pc_check_def chr_post_def)
qed

text \<open>The same for a function that runs over several buffers and returns the status.\<close>

definition nodes_post :: "pc_env \<Rightarrow> nat \<Rightarrow> lxb_char list \<Rightarrow> parser_char \<times> lexbor_string \<times> lxb_status \<Rightarrow> bool" where
  "nodes_post E N acc r = (case r of (pc1, s1, st) \<Rightarrow> st = pc_status pc1 \<and> str_ok s1 \<and>
     (enough (pe_alloc E) N \<longrightarrow> st = LXB_STATUS_OK) \<and>
     (if st = LXB_STATUS_OK then content s1 = acc else st = LXB_STATUS_ERROR_MEMORY_ALLOCATION))"

text \<open>The two functions that append.\<close>

locale putting =
  fixes put :: "mraw \<Rightarrow> lexbor_string \<Rightarrow> lxb_char list \<Rightarrow> (lexbor_string \<times> bool) option" and f :: "lxb_char \<Rightarrow> lxb_char"
  assumes put_ok: "str_ok s \<Longrightarrow> mraw_ok alloc \<Longrightarrow> length bs < 2 ^ 61 \<Longrightarrow> appended alloc s (map f bs) (put alloc s bs)"
begin

text \<open>The loop from a position where the bytes from \<open>bgn\<close> on are plain and not yet appended.\<close>

lemma char_data_loop_ok:
  assumes "mraw_ok (pe_alloc E)" "mapped (pe_mem E) bgn fin" "bgn \<le> data" "data \<le> fin" "fin - bgn < 2 ^ 61" "str_ok s"
    and "\<not> pc_is_eof pc" "pc_status pc = LXB_STATUS_OK"
    and "length (content s) + (data - bgn) + 3 * (fin - data) + 9 \<le> N"
    and "data_run f (pc_replace_null pc) (pc_drop_null pc) (mbytes (pe_mem E) data fin) (False, content s @ map f (mbytes (pe_mem E) bgn data)) = (cr, acc)"
  shows "wp (char_data_loop E put lf pc s bgn data fin) (chr_post E N fin (if cr then pc\<lparr> pc_state := lf \<rparr> else pc) acc)"
  using assms(2-6,9,10)
proof (induction "fin - data" arbitrary: s bgn data rule: less_induct)
  case less
  note prems = less.prems
  let ?m = "pe_mem E" and ?rn = "pc_replace_null pc" and ?dn = "pc_drop_null pc"
  let ?post = "chr_post E N fin (if cr then pc\<lparr> pc_state := lf \<rparr> else pc) acc"
  have map1: "mapped ?m bgn data" "mapped ?m data fin" using prems by (auto elim!: mapped_sub)
  have rng: "mem_range ?m bgn (data - bgn) = Some (mbytes ?m bgn data)" "length (mbytes ?m bgn data) = data - bgn"
    using map1(1) prems by (simp_all add: mem_range_mbytes mbytes_length)
  have put1: "appended (pe_alloc E) s (map f (mbytes ?m bgn data)) (put (pe_alloc E) s (mbytes ?m bgn data))"
    using put_ok [OF prems(5) assms(1), of "mbytes ?m bgn data"] rng(2) prems by simp
  have IH: "wp (char_data_loop E put lf pc s1 b1 d1 fin) ?post"
    if "data < d1" "b1 \<le> d1" "d1 \<le> fin" "bgn \<le> b1" "str_ok s1" "length (content s1) + (d1 - b1) + 3 * (fin - d1) + 9 \<le> N"
      "data_run f ?rn ?dn (mbytes ?m d1 fin) (False, content s1 @ map f (mbytes ?m b1 d1)) = (cr, acc)" for s1 b1 d1
    using that prems by (intro less.hyps) (auto elim!: mapped_sub)
  show ?case
  proof (cases "data = fin")
    case True
    then show ?thesis
      using prems rng pc_check_post [OF put1, of N "\<lambda>s. Some (pc, s, data)" fin] assms(8)
      by (subst char_data_loop.simps) (auto simp: chr_post_def)
  next
    case False
    then have lt: "data < fin" using prems by simp
    obtain c where c: "?m data = Some c" using mappedD [OF map1(2), of data] lt by auto
    have cons: "mbytes ?m data fin = c # mbytes ?m (Suc data) fin" using mbytes_Cons [OF map1(2) lt c] .
    have snoc: "mbytes ?m bgn (Suc data) = mbytes ?m bgn data @ [c]"
      using prems lt c by (intro mbytes_snoc) (auto elim!: mapped_sub)
    consider (cr) "c = 0x0D" | (null) "c = 0" | (other) "c \<noteq> 0x0D" "c \<noteq> 0" by blast
    then show ?thesis
    proof cases
      case cr
      have rng1: "mem_range ?m bgn (Suc data - bgn) = Some (mbytes ?m bgn (Suc data))"
        using prems lt by (intro mem_range_mbytes) (auto elim!: mapped_sub)
      have put2: "appended (pe_alloc E) s (map f (mbytes ?m bgn (Suc data))) (put (pe_alloc E) s (mbytes ?m bgn (Suc data)))"
        using put_ok [OF prems(5) assms(1), of "mbytes ?m bgn (Suc data)"] rng(2) snoc prems lt by simp
      have "wp (do {
           s \<leftarrow> bytes_write s1 (unat (s_length s1 - 1)) [0x0A];
           if fin \<le> Suc data then Some (pc\<lparr> pc_state := lf \<rparr>, s, Suc data)
           else do {
             c \<leftarrow> ?m (Suc data);
             let data = (if c = 0x0A then Suc data + 1 else Suc data);
             char_data_loop E put lf pc s data data fin
           } }) ?post" if s1: "str_ok s1" "content s1 = content s @ map f (mbytes ?m bgn (Suc data))" for s1
      proof -
        obtain s2 where s2: "bytes_write s1 (unat (s_length s1 - 1)) [0x0A] = Some s2" "str_ok s2"
          "content s2 = (content s @ map f (mbytes ?m bgn data)) @ [0x0A]"
          using write_last [OF s1(1), where c = "0x0A"] s1(2) by (auto simp: snoc butlast_append)
        have run: "data_run f ?rn ?dn (mbytes ?m (Suc data) fin) (True, content s2) = (cr, acc)"
          using prems(7) cr s2(3) by (simp add: cons)
        have len: "length (content s2) = length (content s) + (data - bgn) + 1" using s2(3) rng(2) by simp
        show ?thesis
        proof (cases "fin \<le> Suc data")
          case True
          then have "fin = Suc data" using lt by simp
          then show ?thesis using s2 run assms(8) by (simp add: chr_post_def)
        next
          case False
          then have lt2: "Suc data < fin" by simp
          have map2: "mapped ?m (Suc data) fin" using map1(2) by (auto elim!: mapped_sub)
          obtain d where d: "?m (Suc data) = Some d" using mappedD [OF map2, of "Suc data"] lt2 by auto
          have cons2: "mbytes ?m (Suc data) fin = d # mbytes ?m (Suc (Suc data)) fin" using mbytes_Cons [OF map2 lt2 d] .
          have step: "data_step f ?rn ?dn d (True, content s2) = (if d = 0x0A then (False, content s2) else data_step f ?rn ?dn d (False, content s2))"
            by simp
          have "wp (char_data_loop E put lf pc s2 d1 d1 fin) ?post" if "d1 = (if d = 0x0A then Suc (Suc data) else Suc data)" for d1
            using that run lt2 s2(2) len prems(2,6) cons2 step by (intro IH) (auto split: if_splits)
          then show ?thesis using False s2(1) d by (simp add: Let_def split: if_splits)
        qed
      qed
      then have "wp (pc_check (put (pe_alloc E) s (mbytes ?m bgn (Suc data))) pc fin (\<lambda>s. do {
           s \<leftarrow> bytes_write s (unat (s_length s - 1)) [0x0A];
           if fin \<le> Suc data then Some (pc\<lparr> pc_state := lf \<rparr>, s, Suc data)
           else do {
             c \<leftarrow> ?m (Suc data);
             let data = (if c = 0x0A then Suc data + 1 else Suc data);
             char_data_loop E put lf pc s data data fin
           } })) ?post"
        using prems(6) lt rng(2) snoc by (intro pc_check_post [OF put2]) simp_all
      then show ?thesis
        using lt c cr rng1 by (subst char_data_loop.simps) (simp add: Let_def)
    next
      case null
      have keep: "wp (char_data_loop E put lf pc s bgn (Suc data) fin) ?post" if "\<not> ?rn" "\<not> ?dn"
        using prems lt cons snoc null that by (intro IH) auto
      have next_: "wp (char_data_loop E put lf pc s1 (Suc data) (Suc data) fin) ?post"
        if "str_ok s1" "content s1 = (content s @ map f (mbytes ?m bgn data)) @ bs" "length bs \<le> 3"
          "bs = (if ?rn then lexbor_str_res_ansi_replacement_character else [])" "?rn \<or> ?dn" for s1 bs
        using that prems lt cons null rng(2) by (intro IH) auto
      have drop: "wp (pc_check (put (pe_alloc E) s (mbytes ?m bgn data)) pc fin (\<lambda>s. char_data_loop E put lf pc s (Suc data) (Suc data) fin)) ?post"
        if "\<not> ?rn" "?dn"
        using that prems(6) rng(2) by (intro pc_check_post [OF put1] next_ [of _ "[]"]) simp_all
      have repl: "wp (pc_check (if bgn \<noteq> data then put (pe_alloc E) s (mbytes ?m bgn data) else Some (s, True)) pc fin (\<lambda>s.
            pc_check (lexbor_str_append (pe_alloc E) s lexbor_str_res_ansi_replacement_character) pc fin (\<lambda>s.
              char_data_loop E put lf pc s (Suc data) (Suc data) fin))) ?post" if "?rn"
      proof (rule pc_check_post)
        show "appended (pe_alloc E) s (map f (mbytes ?m bgn data)) (if bgn \<noteq> data then put (pe_alloc E) s (mbytes ?m bgn data) else Some (s, True))"
          using put1 prems(5) by (auto simp: appended_def)
        show "length (content s) + length (map f (mbytes ?m bgn data)) + 9 \<le> N" using prems(6) rng(2) by simp
        fix s1 assume s1: "str_ok s1" "content s1 = content s @ map f (mbytes ?m bgn data)"
        show "wp (pc_check (lexbor_str_append (pe_alloc E) s1 lexbor_str_res_ansi_replacement_character) pc fin (\<lambda>s.
              char_data_loop E put lf pc s (Suc data) (Suc data) fin)) ?post"
          using that s1 prems(6) lt rng(2)
          by (intro pc_check_post [OF append_ok [OF s1(1) assms(1)]] next_ [of _ lexbor_str_res_ansi_replacement_character])
             (simp_all add: lexbor_str_res_ansi_replacement_character_def)
      qed
      show ?thesis
        using lt c null assms(7) rng(1) keep drop repl by (subst char_data_loop.simps) simp
    next
      case other
      then have "wp (char_data_loop E put lf pc s bgn (Suc data) fin) ?post"
        using prems lt cons snoc by (intro IH) auto
      then show ?thesis using other lt c by (subst char_data_loop.simps) simp
    qed
  qed
qed

end

section \<open>A buffer\<close>

lemma data_run_length: "length (snd (data_run f rn dn cs (cr, acc))) \<le> length acc + 3 * length cs"
proof (induction cs arbitrary: cr acc)
  case (Cons c cs)
  obtain cr1 acc1 where st: "data_step f rn dn c (cr, acc) = (cr1, acc1)" by (metis surj_pair)
  then have "length acc1 \<le> length acc + 3" by (auto simp: lexbor_str_res_ansi_replacement_character_def split: if_splits)
  then show ?case using Cons.IH [of cr1 acc1] st by simp
qed simp

text \<open>The state for plain text and the one after a carriage return.\<close>

locale data_states = putting +
  fixes plain lf :: pc_state
  assumes call_plain: "pc_state pc = plain \<Longrightarrow> pc_call E pc s data fin = char_data_loop E put lf pc s data data fin"
    and call_lf: "pc_state pc = lf \<Longrightarrow> pc_call E pc s data fin = do {
      c \<leftarrow> pe_mem E data;
      let data = (if c = 0x0A then data + 1 else data);
      Some (pc\<lparr> pc_state := plain \<rparr>, s, data) }"
    and lf_plain: "lf \<noteq> plain"
begin

definition at_state :: "bool \<Rightarrow> parser_char \<Rightarrow> parser_char" where
  "at_state cr pc = pc\<lparr> pc_state := (if cr then lf else plain) \<rparr>"

text \<open>The object is ready for more text.\<close>

definition ready :: "pc_env \<Rightarrow> bool \<Rightarrow> parser_char \<Rightarrow> lexbor_string \<Rightarrow> bool" where
  "ready E cr pc s \<longleftrightarrow> mraw_ok (pe_alloc E) \<and> str_ok s \<and> pc_status pc = LXB_STATUS_OK \<and> \<not> pc_is_eof pc \<and>
     pc_state pc = (if cr then lf else plain)"

text \<open>What processing \<open>bs\<close> promises, with memory for \<open>N\<close> bytes.\<close>

definition run_post :: "pc_env \<Rightarrow> nat \<Rightarrow> bool \<Rightarrow> parser_char \<Rightarrow> lexbor_string \<Rightarrow> lxb_char list \<Rightarrow> parser_char \<times> lexbor_string \<Rightarrow> bool" where
  "run_post E N cr pc s bs r = (case r of (pc1, s1) \<Rightarrow> str_ok s1 \<and> (enough (pe_alloc E) N \<longrightarrow> pc_status pc1 = LXB_STATUS_OK) \<and>
     (if pc_status pc1 = LXB_STATUS_OK
      then (let (cr1, acc1) = data_run f (pc_replace_null pc) (pc_drop_null pc) bs (cr, content s)
            in pc1 = at_state cr1 pc \<and> content s1 = acc1)
      else pc_status pc1 = LXB_STATUS_ERROR_MEMORY_ALLOCATION))"

lemma pc_run_plain:
  assumes "ready E False pc s" "mapped (pe_mem E) data fin" "data \<le> fin" "fin - data < 2 ^ 61"
    and "length (content s) + 3 * (fin - data) + 9 \<le> N"
  shows "wp (pc_run E pc s data fin) (run_post E N False pc s (mbytes (pe_mem E) data fin))"
proof (cases "data < fin")
  case True
  obtain cr acc where run: "data_run f (pc_replace_null pc) (pc_drop_null pc) (mbytes (pe_mem E) data fin) (False, content s) = (cr, acc)"
    by (metis surj_pair)
  have "wp (char_data_loop E put lf pc s data data fin) (chr_post E N fin (if cr then pc\<lparr> pc_state := lf \<rparr> else pc) acc)"
    using assms run by (intro char_data_loop_ok) (auto simp: ready_def)
  then obtain pc1 s1 where r: "pc_call E pc s data fin = Some (pc1, s1, fin)"
    "chr_post E N fin (if cr then pc\<lparr> pc_state := lf \<rparr> else pc) acc (pc1, s1, fin)"
    using call_plain [of pc E s data fin] assms(1) by (auto simp: wp_iff ready_def chr_post_def)
  moreover have "pc_run E pc s data fin = Some (pc1, s1)"
    using r(1) True by (subst pc_run.simps) (simp add: pc_run.simps [of E pc1])
  moreover have "(if cr then pc\<lparr> pc_state := lf \<rparr> else pc) = at_state cr pc" using assms(1) by (simp add: ready_def at_state_def)
  ultimately show ?thesis using run by (auto simp: run_post_def chr_post_def)
next
  case False
  then have "pc_run E pc s data fin = Some (pc, s)" by (subst pc_run.simps) simp
  moreover have "pc = at_state False pc" using assms(1) by (simp add: ready_def at_state_def)
  ultimately show ?thesis using False assms(1,3) by (simp add: run_post_def ready_def)
qed

lemma pc_run_ok:
  assumes "ready E cr pc s" "mapped (pe_mem E) data fin" "data \<le> fin" "fin - data < 2 ^ 61"
    and "length (content s) + 3 * (fin - data) + 9 \<le> N"
  shows "wp (pc_run E pc s data fin) (run_post E N cr pc s (mbytes (pe_mem E) data fin))"
proof (cases "cr \<and> data < fin")
  case False
  then show ?thesis
  proof (cases cr)
    case True
    then have "pc_run E pc s data fin = Some (pc, s)" using False by (subst pc_run.simps) simp
    moreover have "pc = at_state True pc" using assms(1) True by (simp add: ready_def at_state_def)
    ultimately show ?thesis using False True assms(1,3) by (simp add: run_post_def ready_def)
  qed (use assms pc_run_plain in simp)
next
  case True
  then have lt: "data < fin" and cr: "cr" by auto
  obtain c where c: "pe_mem E data = Some c" using mappedD [OF assms(2), of data] lt by auto
  define d1 where "d1 = (if c = 0x0A then Suc data else data)"
  let ?pc = "pc\<lparr> pc_state := plain \<rparr>"
  have r: "ready E False ?pc s" using assms(1) by (simp add: ready_def)
  have "wp (pc_run E ?pc s d1 fin) (run_post E N False ?pc s (mbytes (pe_mem E) d1 fin))"
    using assms lt r by (intro pc_run_plain) (auto simp: d1_def elim!: mapped_sub)
  moreover have "pc_run E pc s data fin = pc_run E ?pc s d1 fin"
    using assms(1) cr c lt by (subst pc_run.simps) (simp add: call_lf ready_def d1_def)
  moreover have "data_run f (pc_replace_null pc) (pc_drop_null pc) (mbytes (pe_mem E) data fin) (True, content s) =
      data_run f (pc_replace_null pc) (pc_drop_null pc) (mbytes (pe_mem E) d1 fin) (False, content s)"
    using mbytes_Cons [OF assms(2) lt c] by (auto simp: d1_def)
  moreover have "at_state x ?pc = at_state x pc" for x by (simp add: at_state_def)
  ultimately have "run_post E N False ?pc s (mbytes (pe_mem E) d1 fin) = run_post E N cr pc s (mbytes (pe_mem E) data fin)"
    using cr by (intro ext) (simp add: run_post_def)
  with \<open>wp (pc_run E ?pc s d1 fin) _\<close> \<open>pc_run E pc s data fin = _\<close> show ?thesis by simp
qed

text \<open>The end of the text.\<close>

lemma pc_run_eof:
  assumes "pc_state pc = plain \<or> pc_state pc = lf" "pe_mem E (pe_eof E) = Some 0" "pc_is_eof pc"
  shows "pc_run E pc s (pe_eof E) (pe_eof E + 1) = Some (pc\<lparr> pc_state := plain \<rparr>, s)"
proof -
  have plain: "pc_run E pc s (pe_eof E) (pe_eof E + 1) = Some (pc, s)" if "pc_state pc = plain" "pc_is_eof pc" for pc
  proof -
    have "pc_call E pc s (pe_eof E) (Suc (pe_eof E)) = Some (pc, s, Suc (pe_eof E))"
      using that assms(2) by (simp add: call_plain, subst char_data_loop.simps) simp
    then show ?thesis by (subst pc_run.simps) (simp add: pc_run.simps [of E pc s "Suc (pe_eof E)"])
  qed
  show ?thesis
  proof (cases "pc_state pc = plain")
    case True
    then show ?thesis using plain [of pc] assms(3) by simp
  next
    case False
    then have "pc_run E pc s (pe_eof E) (pe_eof E + 1) = pc_run E (pc\<lparr> pc_state := plain \<rparr>) s (pe_eof E) (pe_eof E + 1)"
      using assms by (subst pc_run.simps) (simp add: call_lf)
    then show ?thesis using plain [of "pc\<lparr> pc_state := plain \<rparr>"] assms(3) by simp
  qed
qed

section \<open>A chain of buffers\<close>

lemma pc_nodes_loop_ok:
  assumes "in_wf (pe_mem E) h cur (xs @ a # ys)" "h a = Some n" "n_begin n \<le> bgn" "bgn \<le> n_end n"
    and "span_ends h a (rev xs) fin" "xs = [] \<Longrightarrow> bgn \<le> fin"
    and "\<forall>b k. h b = Some k \<longrightarrow> n_end k < 2 ^ 61" "pe_mem E (pe_eof E) = Some 0"
    and "ready E cr pc s"
  shows "\<exists>t. span_text (pe_mem E) h a (rev xs) bgn fin = Some t \<and>
    (\<forall>N. length (content s) + 3 * length t + 9 \<le> N \<longrightarrow>
      wp (pc_nodes_loop E h pc s a bgn fin) (nodes_post E N (snd (data_run f (pc_replace_null pc) (pc_drop_null pc) t (cr, content s)))))"
  using assms(1-6,9)
proof (induction xs arbitrary: a ys n bgn s pc cr rule: rev_induct)
  case Nil
  have seg: "lexbor_in_segment n fin" using Nil.prems by (simp add: in_node_holds_def)
  then have m: "mapped (pe_mem E) bgn fin" "fin - bgn < 2 ^ 61" "bgn \<le> fin"
    using in_wf_mapped [OF Nil.prems(1), of a n] Nil.prems assms(7)
    by (auto simp: lexbor_in_segment_def elim!: mapped_sub intro: le_less_trans [of _ "n_end n"])
  let ?t = "mbytes (pe_mem E) bgn fin"
  have t: "span_text (pe_mem E) h a (rev []) bgn fin = Some ?t" using m by (simp add: mem_range_mbytes)
  have "wp (pc_nodes_loop E h pc s a bgn fin) (nodes_post E N (snd (data_run f (pc_replace_null pc) (pc_drop_null pc) ?t (cr, content s))))" if "length (content s) + 3 * length ?t + 9 \<le> N" for N
  proof -
    have "wp (pc_run E pc s bgn fin) (run_post E N cr pc s ?t)"
      using Nil.prems m that by (intro pc_run_ok) (simp_all add: mbytes_length)
    then obtain pc1 s1 where r: "pc_run E pc s bgn fin = Some (pc1, s1)" "run_post E N cr pc s ?t (pc1, s1)" by (auto simp: wp_iff)
    show ?thesis
    proof (cases "pc_status pc1 = LXB_STATUS_OK")
      case True
      then have "pc_state pc1 = plain \<or> pc_state pc1 = lf"
        using r(2) by (auto simp: run_post_def at_state_def split: prod.splits)
      then have "pc_run E (pc1\<lparr> pc_is_eof := True \<rparr>) s1 (pe_eof E) (pe_eof E + 1) = Some (pc1\<lparr> pc_is_eof := True, pc_state := plain \<rparr>, s1)"
        using pc_run_eof [of "pc1\<lparr> pc_is_eof := True \<rparr>" E s1] assms(8) by simp
      then show ?thesis
        using r True seg Nil.prems(2) by (subst pc_nodes_loop.simps) (auto simp: run_post_def nodes_post_def split: prod.splits)
    next
      case False
      then show ?thesis
        using r seg Nil.prems(2) by (subst pc_nodes_loop.simps) (auto simp: run_post_def nodes_post_def)
    qed
  qed
  with t show ?case by blast
next
  case (snoc b xs)
  have wf: "in_wf (pe_mem E) h cur (xs @ b # a # ys)" using snoc.prems(1) by simp
  obtain k where k: "h b = Some k" "n_begin k \<le> n_end k" and nx: "n_next n = Some b"
    using in_wf_next [OF wf snoc.prems(2)] by blast
  have m: "mapped (pe_mem E) bgn (n_end n)" "n_end n - bgn < 2 ^ 61"
    using in_wf_mapped [OF snoc.prems(1), of a n] snoc.prems assms(7)
    by (auto elim!: mapped_sub intro: le_less_trans [of _ "n_end n"])
  let ?z = "mbytes (pe_mem E) bgn (n_end n)"
  have nseg: "\<not> lexbor_in_segment n fin" using snoc.prems(2,5) by (simp add: in_node_holds_def)
  have ends: "span_ends h b (rev xs) fin" "xs = [] \<Longrightarrow> n_begin k \<le> fin"
    using snoc.prems(5) k by (auto simp: in_node_holds_def lexbor_in_segment_def)
  have IH: "\<exists>t. span_text (pe_mem E) h b (rev xs) (n_begin k) fin = Some t \<and>
    (\<forall>N. length (content s1) + 3 * length t + 9 \<le> N \<longrightarrow>
      wp (pc_nodes_loop E h pc1 s1 b (n_begin k) fin) (nodes_post E N (snd (data_run f (pc_replace_null pc1) (pc_drop_null pc1) t (cr1, content s1)))))" if "ready E cr1 pc1 s1" for pc1 s1 cr1
    using snoc.IH [OF wf k(1) order.refl k(2) ends(1) ends(2) that] by blast
  obtain t where t: "span_text (pe_mem E) h b (rev xs) (n_begin k) fin = Some t" using IH [OF snoc.prems(7)] by blast
  have st: "span_text (pe_mem E) h a (rev (xs @ [b])) bgn fin = Some (?z @ t)"
    using snoc.prems(2,4) m t k by (simp add: mem_range_mbytes)
  have "wp (pc_nodes_loop E h pc s a bgn fin) (nodes_post E N (snd (data_run f (pc_replace_null pc) (pc_drop_null pc) (?z @ t) (cr, content s))))" if N: "length (content s) + 3 * length (?z @ t) + 9 \<le> N" for N
  proof -
    have "wp (pc_run E pc s bgn (n_end n)) (run_post E N cr pc s ?z)"
      using snoc.prems m N by (intro pc_run_ok) (simp_all add: mbytes_length)
    then obtain pc1 s1 where r: "pc_run E pc s bgn (n_end n) = Some (pc1, s1)" "run_post E N cr pc s ?z (pc1, s1)" by (auto simp: wp_iff)
    show ?thesis
    proof (cases "pc_status pc1 = LXB_STATUS_OK")
      case True
      obtain cr1 acc1 where dr: "data_run f (pc_replace_null pc) (pc_drop_null pc) ?z (cr, content s) = (cr1, acc1)" by (metis surj_pair)
      then have p1: "pc1 = at_state cr1 pc" "content s1 = acc1" "str_ok s1" using True r(2) by (auto simp: run_post_def)
      then have rdy: "ready E cr1 pc1 s1" using snoc.prems(7) by (auto simp: ready_def at_state_def)
      have "length (content s1) + 3 * length t + 9 \<le> N"
        using N data_run_length [of f "pc_replace_null pc" "pc_drop_null pc" ?z cr "content s"] dr p1(2) by simp
      then have "wp (pc_nodes_loop E h pc1 s1 b (n_begin k) fin) (nodes_post E N (snd (data_run f (pc_replace_null pc1) (pc_drop_null pc1) t (cr1, content s1))))"
        using IH [OF rdy] t by auto
      moreover have "pc_nodes_loop E h pc s a bgn fin = pc_nodes_loop E h pc1 s1 b (n_begin k) fin"
        using r(1) True nseg nx k snoc.prems(2) by (subst pc_nodes_loop.simps) simp
      moreover have "pc_replace_null pc1 = pc_replace_null pc" "pc_drop_null pc1 = pc_drop_null pc" using p1(1) by (simp_all add: at_state_def)
      ultimately show ?thesis using dr p1(2) by simp
    next
      case False
      then show ?thesis
        using r nseg snoc.prems(2) by (subst pc_nodes_loop.simps) (auto simp: run_post_def nodes_post_def)
    qed
  qed
  with st show ?case by blast
qed

end

interpretation data_text: data_states lexbor_str_append id PC_data PC_data_check_lf
  by unfold_locales
    (simp_all add: append_ok pc_call_def lxb_html_parser_char_data_def [abs_def] lxb_html_parser_char_data_check_lf_def [abs_def])

interpretation lower_text: data_states lexbor_str_append_lowercase lowercase PC_data_lcase PC_data_check_lf_lcase
  by unfold_locales
    (simp_all add: append_lowercase_ok pc_call_def lxb_html_parser_char_data_lcase_def [abs_def] lxb_html_parser_char_data_check_lf_lcase_def [abs_def])

end
