(* ===== verification/Chr_Spec.thy ===== *)
theory Chr_Spec
  imports Chr_Data
begin

text \<open>
  The text of tokens: \<open>lxb_html_parser_char_process\<close> against the reference definition, over any chain of
  buffers and with an allocator that may fail.
\<close>

text \<open>The bytes of the first buffer are part of the text.\<close>

lemma span_text_first:
  assumes "in_wf m h cur (xs @ a # ys)" "h a = Some n" "n_begin n \<le> bgn" "bgn \<le> n_end n"
    and "span_ends h a (rev xs) fin" "span_text m h a (rev xs) bgn fin = Some t"
  shows "(if lexbor_in_segment n fin then fin else n_end n) - bgn \<le> length t"
proof (cases xs rule: rev_cases)
  case Nil
  then have "lexbor_in_segment n fin" using assms(2,5) by (simp add: in_node_holds_def)
  then show ?thesis using assms(6) Nil mem_range_length by fastforce
next
  case (snoc zs b)
  then have "\<not> lexbor_in_segment n fin" using assms(2,5) by (simp add: in_node_holds_def)
  moreover from assms(2,6) snoc obtain us vs where "mem_range m bgn (n_end n - bgn) = Some us" "t = us @ vs"
    by (auto split: bind_splits)
  ultimately show ?thesis using mem_range_length by fastforce
qed

text \<open>The text a string holds, none before it is created.\<close>

definition text_of :: "lexbor_string \<Rightarrow> lxb_char list" where
  "text_of s = (if s_data s = None then [] else content s)"

context data_states
begin

lemma process_ok:
  assumes "in_wf (pe_mem E) h cur (xs @ a # ys)" "h a = Some n" "n_begin n \<le> bgn" "bgn \<le> n_end n"
    and "span_ends h a (rev xs) fin" "xs = [] \<Longrightarrow> bgn \<le> fin"
    and "\<forall>b k. h b = Some k \<longrightarrow> n_end k < 2 ^ 61" "pe_mem E (pe_eof E) = Some 0"
    and "mraw_ok (pe_alloc E)" "s_data s = None \<or> str_ok s" "pc_state pc = plain"
  shows "\<exists>t pc1 s1 st. span_text (pe_mem E) h a (rev xs) bgn fin = Some t \<and>
    lxb_html_parser_char_process E h pc s a bgn fin = Some (pc1, s1, st) \<and>
    (if st = LXB_STATUS_OK
     then str_ok s1 \<and> content s1 = text_of s @ normalized f (pc_replace_null pc) (pc_drop_null pc) t
     else st = LXB_STATUS_ERROR_MEMORY_ALLOCATION) \<and>
    (enough (pe_alloc E) (length (text_of s) + 3 * length t + 9) \<longrightarrow> st = LXB_STATUS_OK)"
proof -
  let ?pc = "pc\<lparr> pc_status := LXB_STATUS_OK, pc_is_eof := False \<rparr>"
  let ?n = "(if lexbor_in_segment n fin then fin else n_end n) - bgn"
  have rdy: "ready E False ?pc s1" if "str_ok s1" for s1 using that assms by (simp add: ready_def)
  have "\<exists>t. span_text (pe_mem E) h a (rev xs) bgn fin = Some t"
    using in_make_loop_text [OF assms(1-6)] by blast
  then obtain t where t: "span_text (pe_mem E) h a (rev xs) bgn fin = Some t" by blast
  let ?N = "length (text_of s) + 3 * length t + 9"
  have run: "\<exists>pc1 s2 st. pc_nodes_loop E h ?pc s1 a bgn fin = Some (pc1, s2, st) \<and>
      nodes_post E ?N (text_of s @ normalized f (pc_replace_null pc) (pc_drop_null pc) t) (pc1, s2, st)"
    if "str_ok s1" "content s1 = text_of s" for s1
    using pc_nodes_loop_ok [OF assms(1-8) rdy [OF that(1)]] t that(2) by (auto simp: wp_iff data_run_normalized)
  show ?thesis
  proof (cases "s_data s = None")
    case False
    with assms(10) run [of s] t assms(2) show ?thesis
      by (auto simp: lxb_html_parser_char_process_def text_of_def nodes_post_def split: if_splits)
  next
    case True
    have le: "?n \<le> length t" using span_text_first [OF assms(1-5) t] .
    have "?n < 2 ^ 61" using assms(2,7) by (auto simp: lexbor_in_segment_def intro: le_less_trans [of _ "n_end n"])
    then have un: "unat (of_nat ?n :: size_t) = ?n" by (simp only: unat_of_nat) simp
    then obtain s1 ok where i: "lexbor_str_init (pe_alloc E) (of_nat ?n) = Some (s1, ok)"
      "ok \<Longrightarrow> str_ok s1 \<and> content s1 = []" "enough (pe_alloc E) (?n + 9) \<Longrightarrow> ok"
      using str_init_ok [OF assms(9), of "of_nat ?n"] \<open>?n < 2 ^ 61\<close> by (auto simp: wp_iff split: if_splits)
    have "?n + 9 \<le> ?N" using le by linarith
    then have "enough (pe_alloc E) ?N \<Longrightarrow> ok" using i(3) enough_mono by blast
    moreover have "lxb_html_parser_char_process E h pc s a bgn fin =
      (if ok then pc_nodes_loop E h ?pc s1 a bgn fin else Some (?pc, s1, LXB_STATUS_ERROR_MEMORY_ALLOCATION))"
      using True i(1) assms(2) by (simp add: lxb_html_parser_char_process_def del: of_nat_diff)
    ultimately show ?thesis
      using t run [of s1] i(2) True by (cases ok) (auto simp: text_of_def nodes_post_def split: if_splits)
  qed
qed

end

text \<open>C8: The text of a token without references.  For any way of cutting the text into buffers, and a
  pool of memory that may refuse, processing returns; with status OK the string holds what it held
  before and then the text with CR and CR LF turned into LF, NUL bytes replaced by U+FFFD, dropped or
  kept, and, in the variant for names, letters in lower case.  The only other status is the one for
  missing memory, and it is not returned when requests up to three bytes per byte of text are served.\<close>

theorem char_data_text:
  assumes "in_wf (pe_mem E) h cur (xs @ a # ys)" "h a = Some n" "n_begin n \<le> bgn" "bgn \<le> n_end n"
    and "span_ends h a (rev xs) fin" "xs = [] \<Longrightarrow> bgn \<le> fin"
    and "\<forall>b k. h b = Some k \<longrightarrow> n_end k < 2 ^ 61" "pe_mem E (pe_eof E) = Some 0"
    and "mraw_ok (pe_alloc E)" "s_data s = None \<or> str_ok s"
    and "pc_state pc = PC_data \<and> f = id \<or> pc_state pc = PC_data_lcase \<and> f = lowercase"
  shows "\<exists>t pc1 s1 st. span_text (pe_mem E) h a (rev xs) bgn fin = Some t \<and>
    lxb_html_parser_char_process E h pc s a bgn fin = Some (pc1, s1, st) \<and>
    (if st = LXB_STATUS_OK
     then str_ok s1 \<and> content s1 = text_of s @ normalized f (pc_replace_null pc) (pc_drop_null pc) t
     else st = LXB_STATUS_ERROR_MEMORY_ALLOCATION) \<and>
    (enough (pe_alloc E) (length (text_of s) + 3 * length t + 9) \<longrightarrow> st = LXB_STATUS_OK)"
  using assms(11) data_text.process_ok [OF assms(1-10)] lower_text.process_ok [OF assms(1-10)] by blast

text \<open>A text cut between its carriage return and its line feed.\<close>

definition ex_crlf :: bytemem where
  "ex_crlf = [0 \<mapsto> 0, 10 \<mapsto> 0x41, 11 \<mapsto> 0, 12 \<mapsto> 0x0D, 20 \<mapsto> 0x0A, 21 \<mapsto> 0x62, 22 \<mapsto> 0x0D, 23 \<mapsto> 0x43, 24 \<mapsto> 0x3E]"

lemma ex_crlf_wf: "in_wf ex_crlf ex_heap (Some 2) [2, 1]"
  unfolding in_wf_def
proof (intro conjI)
  show "\<forall>a n. a \<in> set [2, 1] \<and> ex_heap a = Some n \<longrightarrow> mapped ex_crlf (n_begin n) (n_end n)"
    by (auto simp: ex_heap_def ex_crlf_def mapped_def)
qed (auto simp: ex_heap_def split: if_splits)

definition ex_pc :: parser_char where
  "ex_pc = \<lparr> pc_state = PC_data_lcase, pc_replace_null = True, pc_drop_null = False, pc_is_attribute = False, pc_tmp = 0,
     pc_status = LXB_STATUS_OK, pc_is_eof = False, pc_errors = None, pc_entity = 0, pc_entity_match = None,
     pc_entity_begin = 0, pc_entity_str_len = 0 \<rparr>"

definition ex_pe :: pc_env where
  "ex_pe = \<lparr> pe_mem = ex_crlf, pe_alloc = (\<lambda>n. if n < 4096 then Some (unat n) else None), pe_eof = 0,
     pe_sbst = (\<lambda>_. \<lparr> sb_key = 0, sb_value = None, sb_left = 0, sb_right = 0, sb_next = 0 \<rparr>), pe_error_alloc = (\<lambda>_. True) \<rparr>"

lemma ex_pe_alloc: "mraw_ok (pe_alloc ex_pe)" "N < 4096 \<Longrightarrow> enough (pe_alloc ex_pe) N"
  by (auto simp: mraw_ok_def enough_def ex_pe_def word_less_nat_alt split: if_splits)

theorem char_data_text_witness:
  "\<exists>pc1 s1. lxb_html_parser_char_process ex_pe ex_heap ex_pc \<lparr> s_data = None, s_length = 0 \<rparr> 1 10 24 = Some (pc1, s1, LXB_STATUS_OK) \<and>
     content s1 = [0x61, 0xEF, 0xBF, 0xBD, 0x0A, 0x62, 0x0A, 0x63]"
proof -
  have t: "span_text ex_crlf ex_heap 1 [2] 10 24 = Some [0x41, 0, 0x0D, 0x0A, 0x62, 0x0D, 0x43]" by code_simp
  have nf: "normalized lowercase True False [0x41, 0, 0x0D, 0x0A, 0x62, 0x0D, 0x43] = [0x61, 0xEF, 0xBF, 0xBD, 0x0A, 0x62, 0x0A, 0x63]"
    by code_simp
  have "\<forall>b k. ex_heap b = Some k \<longrightarrow> n_end k < 2 ^ 61" by (auto simp: ex_heap_def split: if_splits)
  then show ?thesis
    using char_data_text [of ex_pe ex_heap "Some 2" "[2]" 1 "[]" _ 10 24 "\<lparr> s_data = None, s_length = 0 \<rparr>" ex_pc lowercase]
      ex_crlf_wf ex_pe_alloc t nf
    by (auto simp: ex_heap_node in_node_holds_def lexbor_in_segment_def ex_pc_def ex_pe_def ex_crlf_def text_of_def)
qed

end
