(* ===== verification/Tgn_Pool.thy ===== *)
theory Tgn_Pool
  imports Lxb_Prelude
begin

text \<open>
  The parallel loops of tgnews.  \<open>LoadDocs\<close> (\<open>io.hpp\<close>), \<open>RecognizeLanguage\<close> (\<open>langrec.hpp\<close>),
  \<open>GenerateFeatures\<close> (\<open>features.hpp\<close>) and \<open>DetectNews\<close> (\<open>news_det.hpp\<close>) divide the indices of a
  vector among threads and join them; each thread runs \<open>for (i = start; i < end; ++i)\<close> over
  its range.  A configuration is the shared vector with the ranges that are left to the
  workers; one step is one turn of the loop of one worker, and the scheduler may pick any.
  A turn that throws (\<^const>\<open>None\<close>) terminates the program, so it is no step.

  The locale \<open>worker_pool\<close> is the contract of a loop body: turn \<open>i\<close>, on a cell \<open>i\<close> that is \<open>ok\<close>,
  returns and changes this cell only, as a function of it.  What every interleaving then computes is proved once.

  Sizes and indices are natural numbers: a vector has fewer than \<open>2^61\<close> elements, so that
  \<open>start + step\<close> does not wrap around.
\<close>

section \<open>Dividing the work\<close>

definition kNumThreads :: nat where
  "kNumThreads = 8"

text \<open>\<open>for (; start < n; start += step) { end = min(n, start + step); ... }\<close>, where \<open>step\<close> is at least 1.\<close>

function spawn_ranges :: "nat \<Rightarrow> nat \<Rightarrow> nat \<Rightarrow> (nat \<times> nat) list" where
  "spawn_ranges n step start =
    (if start < n \<and> 0 < step then (start, min n (start + step)) # spawn_ranges n step (start + step) else [])"
  by pat_completeness auto
termination by (relation "measure (\<lambda>(n, step, start). n - start)") auto

declare spawn_ranges.simps [simp del]

definition worker_ranges :: "nat \<Rightarrow> (nat \<times> nat) list" where
  "worker_ranges n = spawn_ranges n (max 1 (n div kNumThreads)) 0"

section \<open>The threads\<close>

type_synonym 's pool = "'s \<times> (nat \<times> nat) list"

inductive pool_step :: "(nat \<Rightarrow> 's \<Rightarrow> 's option) \<Rightarrow> 's pool \<Rightarrow> 's pool \<Rightarrow> bool" for body where
  turn: "k < length ws \<Longrightarrow> ws ! k = (b, e) \<Longrightarrow> b < e \<Longrightarrow> body b s = Some s'
    \<Longrightarrow> pool_step body (s, ws) (s', ws[k := (Suc b, e)])"

inductive_cases pool_stepE [elim]: "pool_step body (s, ws) c"

definition joined :: "'s pool \<Rightarrow> bool" where
  "joined c = (\<forall>w \<in> set (snd c). \<not> fst w < snd w)"

text \<open>\<open>parallel_for body n s s'\<close>: the threads over the indices below \<open>n\<close>, started on \<open>s\<close>, are joined and leave \<open>s'\<close>.\<close>

definition parallel_for :: "(nat \<Rightarrow> 's \<Rightarrow> 's option) \<Rightarrow> nat \<Rightarrow> 's \<Rightarrow> 's \<Rightarrow> bool" where
  "parallel_for body n s s' = (\<exists>ws. (pool_step body)\<^sup>*\<^sup>* (s, worker_ranges n) (s', ws) \<and> joined (s', ws))"

lemma map_cells: "map (\<lambda>i. f (xs ! i)) [0..<length xs] = map f xs"
  by (rule nth_equalityI) simp_all

section \<open>The ranges partition the indices\<close>

definition todo :: "(nat \<times> nat) list \<Rightarrow> nat list" where
  "todo ws = concat (map (\<lambda>(b, e). [b..<e]) ws)"

lemma todo_simps [simp]: "todo [] = []" "todo ((b, e) # ws) = [b..<e] @ todo ws"
  by (simp_all add: todo_def)

lemma todo_append [simp]: "todo (xs @ ys) = todo xs @ todo ys"
  by (simp add: todo_def)

lemma spawn_ranges_todo: "0 < step \<Longrightarrow> todo (spawn_ranges n step start) = [start..<n]"
proof (induction n step start rule: spawn_ranges.induct)
  case (1 n step start)
  show ?case
  proof (cases "start < n")
    case True
    have "[start..<min n (start + step)] @ [start + step..<n] = [start..<n]"
      using True upt_add_eq_append [of start "start + step" "n - (start + step)"]
      by (cases "start + step \<le> n") simp_all
    then show ?thesis using 1 True by (subst spawn_ranges.simps) simp
  next
    case False
    then show ?thesis by (subst spawn_ranges.simps) simp
  qed
qed

lemma worker_ranges_todo: "todo (worker_ranges n) = [0..<n]"
  by (simp add: worker_ranges_def spawn_ranges_todo)

lemma spawn_ranges_length:
  "0 < step \<Longrightarrow> start \<le> n \<Longrightarrow> length (spawn_ranges n step start) * step < n - start + step"
proof (induction n step start rule: spawn_ranges.induct)
  case (1 n step start)
  show ?case
  proof (cases "start < n")
    case True
    have "length (spawn_ranges n step (start + step)) * step < n - start"
    proof (cases "start + step \<le> n")
      case True
      then show ?thesis using 1 \<open>start < n\<close> by simp
    next
      case False
      then show ?thesis using \<open>start < n\<close> by (subst spawn_ranges.simps) simp
    qed
    then show ?thesis using 1 True by (subst spawn_ranges.simps) simp
  next
    case False
    then show ?thesis using 1 by (subst spawn_ranges.simps) simp
  qed
qed

lemma worker_count: "length (worker_ranges n) \<le> 15"
proof (cases "n < 8")
  case True
  then show ?thesis
    using spawn_ranges_length [of 1 0 n] by (simp add: worker_ranges_def kNumThreads_def)
next
  case False
  define q where "q = n div 8"
  have q: "0 < q" "n < 8 * q + 8" using False unfolding q_def by linarith+
  have "length (spawn_ranges n q 0) * q < n + q" using spawn_ranges_length [of q 0 n] q by simp
  also have "\<dots> \<le> 16 * q" using q by linarith
  finally have "length (spawn_ranges n q 0) < 16" by simp
  then show ?thesis using q by (simp add: worker_ranges_def kNumThreads_def q_def max_def)
qed

section \<open>Every interleaving computes the same\<close>

lemma todo_turn:
  assumes "k < length ws" "ws ! k = (b, e)" "b < e"
  shows "\<exists>xs ys. todo ws = xs @ b # ys \<and> todo (ws[k := (Suc b, e)]) = xs @ ys"
proof -
  have "ws = take k ws @ (b, e) # drop (Suc k) ws" using assms id_take_nth_drop by metis
  then have "todo ws = todo (take k ws) @ b # ([Suc b..<e] @ todo (drop (Suc k) ws))"
    using assms(3) by (metis append_Cons todo_append todo_simps(2) upt_conv_Cons)
  moreover have "todo (ws[k := (Suc b, e)]) = todo (take k ws) @ ([Suc b..<e] @ todo (drop (Suc k) ws))"
    using assms by (simp add: upd_conv_take_nth_drop)
  ultimately show ?thesis by blast
qed

lemma joined_todo: "joined (s, ws) \<longleftrightarrow> todo ws = []"
  by (fastforce simp: joined_def todo_def)

lemma unfinished_worker:
  assumes "todo ws \<noteq> []"
  shows "\<exists>k b e. k < length ws \<and> ws ! k = (b, e) \<and> b < e"
proof -
  obtain w where "w \<in> set ws" "fst w < snd w" using assms by (fastforce simp: todo_def)
  then show ?thesis by (metis in_set_conv_nth prod.collapse)
qed

locale worker_pool =
  fixes body :: "nat \<Rightarrow> 'd list \<Rightarrow> 'd list option" and ok :: "'d \<Rightarrow> bool" and f :: "nat \<Rightarrow> 'd \<Rightarrow> 'd" and n :: nat
  assumes body_cell: "length xs = n \<Longrightarrow> i < n \<Longrightarrow> ok (xs ! i) \<Longrightarrow> body i xs = Some (xs[i := f i (xs ! i)])"
begin

text \<open>The cells that are done hold the result, the others still the start value.\<close>

definition pool_inv :: "'d list \<Rightarrow> 'd list pool \<Rightarrow> bool" where
  "pool_inv xs0 c = (length xs0 = n \<and> (\<forall>x \<in> set xs0. ok x) \<and> length (fst c) = n \<and> distinct (todo (snd c)) \<and> set (todo (snd c)) \<subseteq> {..<n} \<and>
    (\<forall>i < n. fst c ! i = (if i \<in> set (todo (snd c)) then xs0 ! i else f i (xs0 ! i))))"

lemma pool_inv_init: "length xs0 = n \<Longrightarrow> \<forall>x \<in> set xs0. ok x \<Longrightarrow> pool_inv xs0 (xs0, worker_ranges n)"
  by (auto simp: pool_inv_def worker_ranges_todo)

lemma pool_inv_step:
  assumes "pool_step body c c'" "pool_inv xs0 c"
  shows "pool_inv xs0 c' \<and> length (todo (snd c)) = Suc (length (todo (snd c')))"
  using assms
proof (cases rule: pool_step.cases)
  case (turn k ws b e s s')
  obtain xs ys where t: "todo ws = xs @ b # ys" "todo (ws[k := (Suc b, e)]) = xs @ ys"
    using todo_turn turn by blast
  have xs0: "length xs0 = n" "\<forall>x \<in> set xs0. ok x" using assms(2) by (auto simp: pool_inv_def)
  have inv: "length s = n" "distinct (todo ws)" "set (todo ws) \<subseteq> {..<n}"
      "\<And>i. i < n \<Longrightarrow> s ! i = (if i \<in> set (todo ws) then xs0 ! i else f i (xs0 ! i))"
    using assms(2) turn by (auto simp: pool_inv_def)
  then have b: "b < n" "s ! b = xs0 ! b" using t by auto
  then have s': "s' = s[b := f b (xs0 ! b)]" using turn body_cell [OF inv(1) b(1)] xs0 by simp
  have "s' ! i = (if i \<in> set (xs @ ys) then xs0 ! i else f i (xs0 ! i))" if "i < n" for i
    using that inv b t s' by (cases "i = b") (auto simp: nth_list_update)
  then show ?thesis
    using turn inv t s' xs0 by (auto simp: pool_inv_def)
qed

lemma pool_inv_steps:
  assumes "(pool_step body)\<^sup>*\<^sup>* (xs0, worker_ranges n) c" "length xs0 = n" "\<forall>x \<in> set xs0. ok x"
  shows "pool_inv xs0 c"
  using assms(1) by induction (use assms(2,3) pool_inv_init pool_inv_step in blast)+

lemma parallel_for_result:
  assumes "parallel_for body n xs0 xs" "length xs0 = n" "\<forall>x \<in> set xs0. ok x"
  shows "xs = map (\<lambda>i. f i (xs0 ! i)) [0..<n]"
proof -
  obtain ws where "pool_inv xs0 (xs, ws)" "joined (xs, ws)"
    using assms pool_inv_steps unfolding parallel_for_def by blast
  then show ?thesis by (auto simp: pool_inv_def joined_todo intro!: nth_equalityI)
qed

lemma pool_progress:
  assumes "pool_inv xs0 (xs, ws)" "k < length ws" "ws ! k = (b, e)" "b < e"
  shows "\<exists>xs'. pool_step body (xs, ws) (xs', ws[k := (Suc b, e)])"
proof -
  have "b \<in> set (todo ws)" using todo_turn [OF assms(2-4)] by auto
  then have "b < n" "length xs = n" "ok (xs ! b)" using assms(1) by (auto simp: pool_inv_def)
  then show ?thesis using assms(2-4) body_cell by (blast intro: pool_step.turn)
qed

lemma pool_completes:
  assumes "pool_inv xs0 c"
  shows "\<exists>c'. (pool_step body)\<^sup>*\<^sup>* c c' \<and> joined c'"
  using assms
proof (induction "length (todo (snd c))" arbitrary: c)
  case 0
  then show ?case by (cases c) (auto simp: joined_todo)
next
  case (Suc m)
  obtain xs ws where c: "c = (xs, ws)" by (cases c)
  obtain k b e where "k < length ws" "ws ! k = (b, e)" "b < e"
    using unfinished_worker [of ws] Suc.hyps(2) c by force
  then obtain c1 where step: "pool_step body c c1"
    using pool_progress Suc.prems c by blast
  then have "pool_inv xs0 c1" "m = length (todo (snd c1))"
    using pool_inv_step [OF step Suc.prems] Suc.hyps(2) by auto
  then obtain c' where "(pool_step body)\<^sup>*\<^sup>* c1 c'" "joined c'" using Suc.hyps(1) by blast
  then show ?case using step by (blast intro: converse_rtranclp_into_rtranclp)
qed

lemma parallel_for_iff:
  assumes "length xs0 = n" "\<forall>x \<in> set xs0. ok x"
  shows "parallel_for body n xs0 xs \<longleftrightarrow> xs = map (\<lambda>i. f i (xs0 ! i)) [0..<n]"
proof
  show "xs = map (\<lambda>i. f i (xs0 ! i)) [0..<n]" if "parallel_for body n xs0 xs"
    using parallel_for_result [OF that assms] .
next
  assume xs: "xs = map (\<lambda>i. f i (xs0 ! i)) [0..<n]"
  obtain c' where "(pool_step body)\<^sup>*\<^sup>* (xs0, worker_ranges n) c'" "joined c'"
    using pool_completes [OF pool_inv_init [OF assms]] by blast
  then have "parallel_for body n xs0 (fst c')" unfolding parallel_for_def by (metis prod.collapse)
  then show "parallel_for body n xs0 xs" using parallel_for_result [of xs0 "fst c'"] assms xs by simp
qed

text \<open>No schedule gets stuck: whatever the workers have done, each unfinished one can take its next turn,
  and the number of turns is the number of elements.\<close>

lemma pool_turns:
  assumes "((pool_step body) ^^ m) (xs0, worker_ranges n) c" "length xs0 = n" "\<forall>x \<in> set xs0. ok x"
  shows "m + length (todo (snd c)) = n \<and> pool_inv xs0 c"
  using assms(1)
proof (induction m arbitrary: c)
  case 0
  then show ?case using pool_inv_init [OF assms(2,3)] by (auto simp: worker_ranges_todo)
next
  case (Suc m)
  then obtain c1 where "((pool_step body) ^^ m) (xs0, worker_ranges n) c1" "pool_step body c1 c" by auto
  then show ?case using Suc.IH [of c1] pool_inv_step [of c1 c xs0] by simp
qed

end

end
