(* ===== verification/Dom_Node.thy ===== *)
theory Dom_Node
  imports Lxb_Prelude
begin

text \<open>
  The nodes of the document tree (\<open>dom/interfaces/node.c\<close>).  A heap maps the address of a node
  to its record; a field that is a pointer is \<^const>\<open>None\<close> when it is NULL, and following a
  pointer that is NULL or dangling is undefined.  The objects that extend a node (elements, texts)
  live at the same address in heaps of their own, see \<open>Dom_Element\<close>.

  The second half relates a heap to the function \<open>ch\<close> that gives for every node the list of its
  children, and shows what each operation does to this function.
\<close>

section \<open>Nodes\<close>

datatype lxb_dom_node_type =
    LXB_DOM_NODE_TYPE_UNDEF
  | LXB_DOM_NODE_TYPE_ELEMENT
  | LXB_DOM_NODE_TYPE_ATTRIBUTE
  | LXB_DOM_NODE_TYPE_TEXT
  | LXB_DOM_NODE_TYPE_CDATA_SECTION
  | LXB_DOM_NODE_TYPE_ENTITY_REFERENCE
  | LXB_DOM_NODE_TYPE_ENTITY
  | LXB_DOM_NODE_TYPE_PROCESSING_INSTRUCTION
  | LXB_DOM_NODE_TYPE_COMMENT
  | LXB_DOM_NODE_TYPE_DOCUMENT
  | LXB_DOM_NODE_TYPE_DOCUMENT_TYPE
  | LXB_DOM_NODE_TYPE_DOCUMENT_FRAGMENT
  | LXB_DOM_NODE_TYPE_NOTATION

record lxb_dom_node =
  nd_next :: "addr option"
  nd_prev :: "addr option"
  nd_parent :: "addr option"
  nd_first_child :: "addr option"
  nd_last_child :: "addr option"
  nd_ns :: lxb_ns_id
  nd_tag_id :: lxb_tag_id
  nd_type :: lxb_dom_node_type

type_synonym dom_heap = "addr \<rightharpoonup> lxb_dom_node"

definition nd_set :: "dom_heap \<Rightarrow> addr \<Rightarrow> (lxb_dom_node \<Rightarrow> lxb_dom_node) \<Rightarrow> dom_heap option" where
  "nd_set h a f = do { n \<leftarrow> h a; Some (h(a \<mapsto> f n)) }"

section \<open>Operations\<close>

definition lxb_dom_node_insert_child :: "dom_heap \<Rightarrow> addr \<Rightarrow> addr \<Rightarrow> dom_heap option" where
  "lxb_dom_node_insert_child h to node = do {
     t \<leftarrow> h to;
     h \<leftarrow> (case nd_last_child t of
       Some l \<Rightarrow> nd_set h l (nd_next_update (\<lambda>_. Some node))
     | None \<Rightarrow> nd_set h to (nd_first_child_update (\<lambda>_. Some node)));
     h \<leftarrow> nd_set h node (nd_parent_update (\<lambda>_. Some to));
     h \<leftarrow> nd_set h node (nd_next_update (\<lambda>_. None));
     t \<leftarrow> h to;
     h \<leftarrow> nd_set h node (nd_prev_update (\<lambda>_. nd_last_child t));
     nd_set h to (nd_last_child_update (\<lambda>_. Some node))
   }"

definition lxb_dom_node_insert_before :: "dom_heap \<Rightarrow> addr \<Rightarrow> addr \<Rightarrow> dom_heap option" where
  "lxb_dom_node_insert_before h to node = do {
     t \<leftarrow> h to;
     h \<leftarrow> (case nd_prev t of
       Some p \<Rightarrow> nd_set h p (nd_next_update (\<lambda>_. Some node))
     | None \<Rightarrow> (case nd_parent t of
         Some p \<Rightarrow> nd_set h p (nd_first_child_update (\<lambda>_. Some node))
       | None \<Rightarrow> Some h));
     t \<leftarrow> h to;
     h \<leftarrow> nd_set h node (nd_parent_update (\<lambda>_. nd_parent t));
     h \<leftarrow> nd_set h node (nd_next_update (\<lambda>_. Some to));
     t \<leftarrow> h to;
     h \<leftarrow> nd_set h node (nd_prev_update (\<lambda>_. nd_prev t));
     nd_set h to (nd_prev_update (\<lambda>_. Some node))
   }"

definition lxb_dom_node_insert_after :: "dom_heap \<Rightarrow> addr \<Rightarrow> addr \<Rightarrow> dom_heap option" where
  "lxb_dom_node_insert_after h to node = do {
     t \<leftarrow> h to;
     h \<leftarrow> (case nd_next t of
       Some p \<Rightarrow> nd_set h p (nd_prev_update (\<lambda>_. Some node))
     | None \<Rightarrow> (case nd_parent t of
         Some p \<Rightarrow> nd_set h p (nd_last_child_update (\<lambda>_. Some node))
       | None \<Rightarrow> Some h));
     t \<leftarrow> h to;
     h \<leftarrow> nd_set h node (nd_parent_update (\<lambda>_. nd_parent t));
     t \<leftarrow> h to;
     h \<leftarrow> nd_set h node (nd_next_update (\<lambda>_. nd_next t));
     h \<leftarrow> nd_set h node (nd_prev_update (\<lambda>_. Some to));
     nd_set h to (nd_next_update (\<lambda>_. Some node))
   }"

definition lxb_dom_node_remove :: "dom_heap \<Rightarrow> addr \<Rightarrow> dom_heap option" where
  "lxb_dom_node_remove h node = do {
     n \<leftarrow> h node;
     h \<leftarrow> (case nd_parent n of
       Some p \<Rightarrow> do {
         q \<leftarrow> h p;
         h \<leftarrow> (if nd_first_child q = Some node then nd_set h p (nd_first_child_update (\<lambda>_. nd_next n)) else Some h);
         q \<leftarrow> h p;
         (if nd_last_child q = Some node then nd_set h p (nd_last_child_update (\<lambda>_. nd_prev n)) else Some h)
       }
     | None \<Rightarrow> Some h);
     n \<leftarrow> h node;
     h \<leftarrow> (case nd_next n of Some x \<Rightarrow> nd_set h x (nd_prev_update (\<lambda>_. nd_prev n)) | None \<Rightarrow> Some h);
     n \<leftarrow> h node;
     h \<leftarrow> (case nd_prev n of Some x \<Rightarrow> nd_set h x (nd_next_update (\<lambda>_. nd_next n)) | None \<Rightarrow> Some h);
     h \<leftarrow> nd_set h node (nd_parent_update (\<lambda>_. None));
     h \<leftarrow> nd_set h node (nd_next_update (\<lambda>_. None));
     nd_set h node (nd_prev_update (\<lambda>_. None))
   }"

text \<open>The object itself is freed by the document's \<open>destroy_interface\<close>: its address is no longer
  in the heap.\<close>

definition lxb_dom_node_destroy :: "dom_heap \<Rightarrow> addr \<Rightarrow> dom_heap option" where
  "lxb_dom_node_destroy h node = do { h \<leftarrow> lxb_dom_node_remove h node; Some (h(node := None)) }"

section \<open>Doubly linked lists\<close>

text \<open>The first element of a list, or what follows the list, and the last, or what precedes it.\<close>

definition hdo :: "'a list \<Rightarrow> 'a option \<Rightarrow> 'a option" where
  "hdo xs n = (case xs of [] \<Rightarrow> n | x # _ \<Rightarrow> Some x)"

definition lasto :: "'a option \<Rightarrow> 'a list \<Rightarrow> 'a option" where
  "lasto p xs = (if xs = [] then p else Some (last xs))"

lemma hdo_simps [simp]: "hdo [] n = n" "hdo (x # xs) n = Some x" "hdo (xs @ ys) n = hdo xs (hdo ys n)"
  by (simp_all add: hdo_def split: list.split)

lemma lasto_simps [simp]: "lasto p [] = p" "lasto p (x # xs) = lasto (Some x) xs" "lasto p (xs @ ys) = lasto (lasto p xs) ys"
  by (simp_all add: lasto_def)

text \<open>\<open>dll U o p xs n\<close>: the cells \<open>xs\<close>, which belong to \<open>o\<close>, are linked in both directions; \<open>p\<close> precedes and
  \<open>n\<close> follows them.  \<open>U\<close> gives the owner, the predecessor and the successor of a cell.\<close>

fun dll :: "('a \<Rightarrow> ('o \<times> 'a option \<times> 'a option) option) \<Rightarrow> 'o \<Rightarrow> 'a option \<Rightarrow> 'a list \<Rightarrow> 'a option \<Rightarrow> bool" where
  "dll U w p [] n \<longleftrightarrow> True"
| "dll U w p (x # xs) n \<longleftrightarrow> U x = Some (w, p, hdo xs n) \<and> dll U w (Some x) xs n"

lemma dll_append [simp]: "dll U w p (xs @ ys) n \<longleftrightarrow> dll U w p xs (hdo ys n) \<and> dll U w (lasto p xs) ys n"
  by (induction xs arbitrary: p) auto

lemma dll_cong:
  assumes "\<And>x. x \<in> set xs \<Longrightarrow> U' x = U x"
  shows "dll U' w p xs n \<longleftrightarrow> dll U w p xs n"
  using assms by (induction xs arbitrary: p) auto

lemma dll_owner: "dll U w p xs n \<Longrightarrow> x \<in> set xs \<Longrightarrow> \<exists>pr nx. U x = Some (w, pr, nx)"
  by (induction xs arbitrary: p) auto

section \<open>The tree of a heap\<close>

definition kids_of :: "dom_heap \<Rightarrow> addr \<Rightarrow> (addr option \<times> addr option) option" where
  "kids_of h a = map_option (\<lambda>n. (nd_first_child n, nd_last_child n)) (h a)"

definition up_of :: "dom_heap \<Rightarrow> addr \<Rightarrow> (addr option \<times> addr option \<times> addr option) option" where
  "up_of h a = map_option (\<lambda>n. (nd_parent n, nd_prev n, nd_next n)) (h a)"

text \<open>The heap \<open>h\<close> represents the children \<open>ch\<close>.\<close>

definition dom_rep :: "dom_heap \<Rightarrow> (addr \<Rightarrow> addr list) \<Rightarrow> bool" where
  "dom_rep h ch \<longleftrightarrow>
     (\<forall>a. kids_of h a = (if a \<in> dom h then Some (hdo (ch a) None, lasto None (ch a)) else None)) \<and>
     (\<forall>a. a \<notin> dom h \<longrightarrow> ch a = []) \<and>
     (\<forall>a. distinct (ch a) \<and> dll (up_of h) (Some a) None (ch a) None) \<and>
     (\<forall>b p pr nx. up_of h b = Some (p, pr, nx) \<longrightarrow> (case p of None \<Rightarrow> pr = None \<and> nx = None | Some a \<Rightarrow> b \<in> set (ch a)))"

definition child_rel :: "(addr \<Rightarrow> addr list) \<Rightarrow> (addr \<times> addr) set" where
  "child_rel ch = {(b, a). b \<in> set (ch a)}"

text \<open>The heap is a finite forest.\<close>

definition dom_inv :: "dom_heap \<Rightarrow> (addr \<Rightarrow> addr list) \<Rightarrow> bool" where
  "dom_inv h ch \<longleftrightarrow> dom_rep h ch \<and> finite (dom h) \<and> wf (child_rel ch)"

text \<open>The node is in no list of children.\<close>

definition detached :: "dom_heap \<Rightarrow> addr \<Rightarrow> bool" where
  "detached h a \<longleftrightarrow> (\<exists>n. h a = Some n \<and> nd_parent n = None)"

lemma child_up:
  assumes "dom_rep h ch" "b \<in> set (ch a)"
  shows "\<exists>pr nx. up_of h b = Some (Some a, pr, nx)"
  using assms dll_owner unfolding dom_rep_def by fast

lemma child_live:
  assumes "dom_rep h ch" "b \<in> set (ch a)"
  shows "b \<in> dom h" "a \<in> dom h"
  using child_up [OF assms] assms unfolding dom_rep_def by (auto simp: up_of_def)

lemma child_unique:
  assumes "dom_rep h ch" "b \<in> set (ch a)" "b \<in> set (ch a')"
  shows "a = a'"
  using child_up [OF assms(1,2)] child_up [OF assms(1,3)] by auto

lemma detached_not_child:
  assumes "dom_rep h ch" "detached h b"
  shows "b \<notin> set (ch a)"
  using child_up [OF assms(1), of b a] assms(2) by (auto simp: detached_def up_of_def)

text \<open>One list of children is replaced by another: what the heap must satisfy.\<close>

lemma dom_rep_change:
  assumes rep: "dom_rep h ch" and p: "p \<in> dom h" "p \<notin> set (ch p)" "p \<notin> set cs"
    and dm: "dom h' = dom h"
    and kids: "\<And>a. a \<noteq> p \<Longrightarrow> kids_of h' a = kids_of h a"
    and up: "\<And>a. a \<notin> set (ch p) \<Longrightarrow> a \<notin> set cs \<Longrightarrow> up_of h' a = up_of h a"
    and p_kids: "kids_of h' p = Some (hdo cs None, lasto None cs)"
    and chain: "distinct cs" "dll (up_of h') (Some p) None cs None"
    and out: "\<And>b. b \<in> set (ch p) \<Longrightarrow> b \<notin> set cs \<Longrightarrow> up_of h' b = Some (None, None, None)"
    and inn: "\<And>b. b \<in> set cs \<Longrightarrow> b \<notin> set (ch p) \<Longrightarrow> detached h b"
  shows "dom_rep h' (ch(p := cs))"
proof -
  have other: "up_of h' b = up_of h b" if "b \<in> set (ch a)" "a \<noteq> p" for a b
    using that up [of b] inn [of b] child_unique [OF rep that(1), of p] detached_not_child [OF rep, of b a] by blast
  have "dll (up_of h') (Some a) None (ch a) None" if "a \<noteq> p" for a
    using rep dll_cong [of "ch a" "up_of h'" "up_of h"] other [OF _ that] unfolding dom_rep_def by blast
  moreover have "case q of None \<Rightarrow> pr = None \<and> nx = None | Some a \<Rightarrow> b \<in> set ((ch(p := cs)) a)"
    if u: "up_of h' b = Some (q, pr, nx)" for b q pr nx
  proof -
    consider "b \<in> set cs" | "b \<notin> set cs" "b \<in> set (ch p)" | "b \<notin> set cs" "b \<notin> set (ch p)" by blast
    then show ?thesis
    proof cases
      case 1
      with u dll_owner [OF chain(2)] show ?thesis by fastforce
    next
      case 2
      with u out show ?thesis by simp
    next
      case 3
      with u up have "up_of h b = Some (q, pr, nx)" by simp
      with rep have "case q of None \<Rightarrow> pr = None \<and> nx = None | Some a \<Rightarrow> b \<in> set (ch a)"
        unfolding dom_rep_def by blast
      with 3 show ?thesis by (auto split: option.splits)
    qed
  qed
  ultimately show ?thesis
    using rep p(1) kids p_kids chain unfolding dom_rep_def dm by simp
qed

section \<open>What the operations do to the tree\<close>

definition data_of :: "dom_heap \<Rightarrow> addr \<Rightarrow> (lxb_ns_id \<times> lxb_tag_id \<times> lxb_dom_node_type) option" where
  "data_of h a = map_option (\<lambda>n. (nd_ns n, nd_tag_id n, nd_type n)) (h a)"

lemma upd_views [simp]:
  "kids_of (h(a \<mapsto> n)) = (kids_of h)(a \<mapsto> (nd_first_child n, nd_last_child n))"
  "up_of (h(a \<mapsto> n)) = (up_of h)(a \<mapsto> (nd_parent n, nd_prev n, nd_next n))"
  "data_of (h(a \<mapsto> n)) = (data_of h)(a \<mapsto> (nd_ns n, nd_tag_id n, nd_type n))"
  by (auto simp: kids_of_def up_of_def data_of_def)

lemma live_views:
  assumes "h a = Some n"
  shows "kids_of h a = Some (nd_first_child n, nd_last_child n)" "up_of h a = Some (nd_parent n, nd_prev n, nd_next n)"
    "data_of h a = Some (nd_ns n, nd_tag_id n, nd_type n)"
  using assms by (simp_all add: kids_of_def up_of_def data_of_def)

lemma dll_upd [simp]: "x \<notin> set xs \<Longrightarrow> dll (U(x := v)) w p xs n \<longleftrightarrow> dll U w p xs n"
  by (rule dll_cong) auto

lemma dom_data_of: "dom (data_of h) = dom h"
  by (auto simp: data_of_def)

lemma data_of_dom: "data_of h' = data_of h \<Longrightarrow> dom h' = dom h"
  by (metis dom_data_of)

text \<open>The new heap has the given children and the same data.\<close>

definition dom_to :: "dom_heap \<Rightarrow> (addr \<Rightarrow> addr list) \<Rightarrow> dom_heap \<Rightarrow> bool" where
  "dom_to h ch h' \<longleftrightarrow> dom_rep h' ch \<and> data_of h' = data_of h"

lemma rep_kids:
  assumes "dom_rep h ch" "h a = Some n"
  shows "nd_first_child n = hdo (ch a) None" "nd_last_child n = lasto None (ch a)"
proof -
  have "kids_of h a = Some (hdo (ch a) None, lasto None (ch a))"
    using assms unfolding dom_rep_def by (metis domI)
  then show "nd_first_child n = hdo (ch a) None" "nd_last_child n = lasto None (ch a)"
    by (simp_all add: live_views [of h a n, OF assms(2)])
qed

lemma rep_chain:
  assumes "dom_rep h ch"
  shows "distinct (ch a)" "dll (up_of h) (Some a) None (ch a) None"
  using assms unfolding dom_rep_def by blast+

lemma insert_child_rep:
  assumes rep: "dom_rep h ch" and "to \<in> dom h" "detached h node" "node \<noteq> to" "to \<notin> set (ch to)"
  shows "wp (lxb_dom_node_insert_child h to node) (dom_to h (ch(to := ch to @ [node])))"
proof -
  obtain t n where t: "h to = Some t" and n: "h node = Some n" "nd_parent n = None"
    using assms(2,3) by (auto simp: detached_def)
  note kids = rep_kids [OF rep t] and chain = rep_chain [OF rep, of to]
  have new: "node \<notin> set (ch to)" using detached_not_child [OF rep assms(3)] .
  show ?thesis
  proof (cases "ch to" rule: rev_cases)
    case Nil
    let ?h = "h(to \<mapsto> t\<lparr> nd_first_child := Some node, nd_last_child := Some node \<rparr>,
      node \<mapsto> n\<lparr> nd_parent := Some to, nd_next := None, nd_prev := None \<rparr>)"
    have "dom_rep ?h (ch(to := [node]))"
      by (rule dom_rep_change [OF rep]) (use t n Nil assms in \<open>auto simp: live_views\<close>)
    then show ?thesis
      using t n kids Nil assms(4)
      by (auto simp: lxb_dom_node_insert_child_def nd_set_def dom_to_def live_views fun_upd_twist)
  next
    case (snoc xs l)
    then obtain m where m: "h l = Some m" using child_live(1) [OF rep, of l to] by auto
    from snoc assms(5) new have ne: "l \<noteq> to" "l \<noteq> node" by auto
    let ?h = "h(l \<mapsto> m\<lparr> nd_next := Some node \<rparr>, node \<mapsto> n\<lparr> nd_parent := Some to, nd_next := None, nd_prev := Some l \<rparr>,
      to \<mapsto> t\<lparr> nd_last_child := Some node \<rparr>)"
    have "dom_rep ?h (ch(to := ch to @ [node]))"
      by (rule dom_rep_change [OF rep]) (use t n m ne snoc assms chain kids new in \<open>auto simp: live_views\<close>)
    then show ?thesis
      using t n m kids snoc assms(4) ne
      by (auto simp: lxb_dom_node_insert_child_def nd_set_def dom_to_def live_views fun_upd_twist)
  qed
qed

text \<open>A child and its neighbours.\<close>

lemma rep_split:
  assumes rep: "dom_rep h ch" and ch: "ch p = xs @ a # ys"
  obtains n q where "h a = Some n" "h p = Some q" "nd_parent n = Some p" "nd_prev n = lasto None xs" "nd_next n = hdo ys None"
    "nd_first_child q = hdo (xs @ [a]) None" "nd_last_child q = lasto (Some a) ys"
    "distinct (xs @ a # ys)" "dll (up_of h) (Some p) None xs (Some a)" "dll (up_of h) (Some p) (Some a) ys None"
proof -
  obtain n q where live: "h a = Some n" "h p = Some q"
    using child_live [OF rep, of a p] ch by auto
  have "up_of h a = Some (Some p, lasto None xs, hdo ys None)"
    using rep_chain(2) [OF rep, of p] ch by simp
  with live that show ?thesis
    using rep_chain [OF rep, of p] rep_kids [OF rep live(2)] ch
    by (simp add: live_views [of h a n, OF live(1)])
qed

lemma insert_before_rep:
  assumes rep: "dom_rep h ch" and ch: "ch p = xs @ to # ys" and "detached h node" "p \<noteq> node" "p \<notin> set (ch p)"
  shows "wp (lxb_dom_node_insert_before h to node) (dom_to h (ch(p := xs @ node # to # ys)))"
proof -
  obtain t q where t: "h to = Some t" "h p = Some q" "nd_parent t = Some p" "nd_prev t = lasto None xs" "nd_next t = hdo ys None"
    "nd_first_child q = hdo (xs @ [to]) None" "nd_last_child q = lasto (Some to) ys"
    "distinct (xs @ to # ys)" "dll (up_of h) (Some p) None xs (Some to)" "dll (up_of h) (Some p) (Some to) ys None"
    using rep ch by (rule rep_split)
  obtain n where n: "h node = Some n" "nd_parent n = None"
    using assms(3) by (auto simp: detached_def)
  have new: "node \<notin> set (ch p)" using detached_not_child [OF rep assms(3)] .
  show ?thesis
  proof (cases xs rule: rev_cases)
    case Nil
    let ?h = "h(p \<mapsto> q\<lparr> nd_first_child := Some node \<rparr>,
      node \<mapsto> n\<lparr> nd_parent := Some p, nd_next := Some to, nd_prev := None \<rparr>, to \<mapsto> t\<lparr> nd_prev := Some node \<rparr>)"
    have "dom_rep ?h (ch(p := xs @ node # to # ys))"
      by (rule dom_rep_change [OF rep]) (use t n Nil assms new in \<open>auto simp: live_views\<close>)
    then show ?thesis
      using t n Nil assms(4,5) new ch
      by (auto simp: lxb_dom_node_insert_before_def nd_set_def dom_to_def live_views)
  next
    case (snoc zs l)
    then obtain m where m: "h l = Some m" using child_live(1) [OF rep, of l p] ch by auto
    let ?h = "h(l \<mapsto> m\<lparr> nd_next := Some node \<rparr>,
      node \<mapsto> n\<lparr> nd_parent := Some p, nd_next := Some to, nd_prev := Some l \<rparr>, to \<mapsto> t\<lparr> nd_prev := Some node \<rparr>)"
    have "dom_rep ?h (ch(p := xs @ node # to # ys))"
      by (rule dom_rep_change [OF rep]) (use t n m snoc assms new in \<open>auto simp: live_views\<close>)
    then show ?thesis
      using t n m snoc assms(4,5) new ch
      by (auto simp: lxb_dom_node_insert_before_def nd_set_def dom_to_def live_views)
  qed
qed

lemma insert_after_rep:
  assumes rep: "dom_rep h ch" and ch: "ch p = xs @ to # ys" and "detached h node" "p \<noteq> node" "p \<notin> set (ch p)"
  shows "wp (lxb_dom_node_insert_after h to node) (dom_to h (ch(p := xs @ to # node # ys)))"
proof -
  obtain t q where t: "h to = Some t" "h p = Some q" "nd_parent t = Some p" "nd_prev t = lasto None xs" "nd_next t = hdo ys None"
    "nd_first_child q = hdo (xs @ [to]) None" "nd_last_child q = lasto (Some to) ys"
    "distinct (xs @ to # ys)" "dll (up_of h) (Some p) None xs (Some to)" "dll (up_of h) (Some p) (Some to) ys None"
    using rep ch by (rule rep_split)
  obtain n where n: "h node = Some n" "nd_parent n = None"
    using assms(3) by (auto simp: detached_def)
  have new: "node \<notin> set (ch p)" using detached_not_child [OF rep assms(3)] .
  show ?thesis
  proof (cases ys)
    case Nil
    let ?h = "h(p \<mapsto> q\<lparr> nd_last_child := Some node \<rparr>,
      node \<mapsto> n\<lparr> nd_parent := Some p, nd_next := None, nd_prev := Some to \<rparr>, to \<mapsto> t\<lparr> nd_next := Some node \<rparr>)"
    have "dom_rep ?h (ch(p := xs @ to # node # ys))"
      by (rule dom_rep_change [OF rep]) (use t n Nil assms new in \<open>auto simp: live_views\<close>)
    then show ?thesis
      using t n Nil assms(4,5) new ch
      by (auto simp: lxb_dom_node_insert_after_def nd_set_def dom_to_def live_views)
  next
    case (Cons l zs)
    then obtain m where m: "h l = Some m" using child_live(1) [OF rep, of l p] ch by auto
    let ?h = "h(l \<mapsto> m\<lparr> nd_prev := Some node \<rparr>,
      node \<mapsto> n\<lparr> nd_parent := Some p, nd_next := Some l, nd_prev := Some to \<rparr>, to \<mapsto> t\<lparr> nd_next := Some node \<rparr>)"
    have "dom_rep ?h (ch(p := xs @ to # node # ys))"
      by (rule dom_rep_change [OF rep]) (use t n m Cons assms new in \<open>auto simp: live_views\<close>)
    then show ?thesis
      using t n m Cons assms(4,5) new ch
      by (auto simp: lxb_dom_node_insert_after_def nd_set_def dom_to_def live_views)
  qed
qed

lemma remove_child_rep:
  assumes rep: "dom_rep h ch" and ch: "ch p = xs @ node # ys" and "p \<notin> set (ch p)"
  shows "wp (lxb_dom_node_remove h node) (dom_to h (ch(p := xs @ ys)))"
proof -
  obtain n q where n: "h node = Some n" "h p = Some q" "nd_parent n = Some p" "nd_prev n = lasto None xs" "nd_next n = hdo ys None"
    "nd_first_child q = hdo (xs @ [node]) None" "nd_last_child q = lasto (Some node) ys"
    "distinct (xs @ node # ys)" "dll (up_of h) (Some p) None xs (Some node)" "dll (up_of h) (Some p) (Some node) ys None"
    using rep ch by (rule rep_split)
  let ?n = "n\<lparr> nd_parent := None, nd_next := None, nd_prev := None \<rparr>"
  have other: "\<exists>m. h x = Some m" if "x \<in> set xs \<union> set ys" for x
    using child_live(1) [OF rep, of x p] ch that by auto
  show ?thesis
  proof (cases xs rule: rev_cases; cases ys)
    assume e: "xs = []" "ys = []"
    then have "dom_rep (h(p \<mapsto> q\<lparr> nd_first_child := None, nd_last_child := None \<rparr>, node \<mapsto> ?n)) (ch(p := xs @ ys))"
      by (intro dom_rep_change [OF rep]) (use n assms in \<open>auto simp: live_views\<close>)
    with e n assms(3) ch show ?thesis
      by (auto simp: lxb_dom_node_remove_def nd_set_def live_views dom_to_def)
  next
    fix zs l assume e: "xs = zs @ [l]" "ys = []"
    then obtain m where m: "h l = Some m" using other [of l] by auto
    with e have "dom_rep (h(p \<mapsto> q\<lparr> nd_last_child := Some l \<rparr>, l \<mapsto> m\<lparr> nd_next := None \<rparr>, node \<mapsto> ?n)) (ch(p := xs @ ys))"
      by (intro dom_rep_change [OF rep]) (use n assms in \<open>auto simp: live_views\<close>)
    with e n m assms(3) ch show ?thesis
      by (cases zs) (auto simp: lxb_dom_node_remove_def nd_set_def live_views dom_to_def)
  next
    fix r zs assume e: "xs = []" "ys = r # zs"
    then obtain m where m: "h r = Some m" using other [of r] by auto
    with e have "dom_rep (h(p \<mapsto> q\<lparr> nd_first_child := Some r \<rparr>, r \<mapsto> m\<lparr> nd_prev := None \<rparr>, node \<mapsto> ?n)) (ch(p := xs @ ys))"
      by (intro dom_rep_change [OF rep]) (use n assms in \<open>auto simp: live_views\<close>)
    with e n m assms(3) ch show ?thesis
      by (cases zs rule: rev_cases) (auto simp: lxb_dom_node_remove_def nd_set_def live_views dom_to_def)
  next
    fix zs l r us assume e: "xs = zs @ [l]" "ys = r # us"
    then obtain m k where m: "h l = Some m" "h r = Some k" using other [of l] other [of r] by auto
    with e have "dom_rep (h(r \<mapsto> k\<lparr> nd_prev := Some l \<rparr>, l \<mapsto> m\<lparr> nd_next := Some r \<rparr>, node \<mapsto> ?n)) (ch(p := xs @ ys))"
      by (intro dom_rep_change [OF rep]) (use n assms in \<open>auto simp: live_views\<close>)
    with e n m assms(3) ch show ?thesis
      by (cases zs; cases us rule: rev_cases) (auto simp: lxb_dom_node_remove_def nd_set_def live_views dom_to_def)
  qed
qed

end
