(* ===== verification/Dom_Walk.thy ===== *)
theory Dom_Walk
  imports Dom_Node
begin

text \<open>
  Walking over the descendants of a node, and destroying a subtree (\<open>dom/interfaces/node.c\<close>).
  Both are loops that follow the pointers of the heap; they are defined as partial functions, so
  that a loop that does not end has the value \<^const>\<open>None\<close>, as one that follows a NULL pointer.

  A callback is given the address of a node and a context, and returns a context and an action.
\<close>

section \<open>The walk\<close>

datatype lexbor_action = LEXBOR_ACTION_OK | LEXBOR_ACTION_STOP | LEXBOR_ACTION_NEXT

type_synonym 'c walker = "addr \<Rightarrow> 'c \<Rightarrow> ('c \<times> lexbor_action) option"

text \<open>\<open>while (node != root && node->next == NULL) node = node->parent;\<close>\<close>

partial_function (option) walk_up :: "dom_heap \<Rightarrow> addr \<Rightarrow> addr \<Rightarrow> addr option" where
  "walk_up h root node =
    (if node = root then Some node
     else do {
       n \<leftarrow> h node;
       if nd_next n = None then (case nd_parent n of None \<Rightarrow> None | Some p \<Rightarrow> walk_up h root p)
       else Some node
     })"

partial_function (option) walk_loop :: "'c walker \<Rightarrow> dom_heap \<Rightarrow> addr \<Rightarrow> addr option \<Rightarrow> 'c \<Rightarrow> 'c option" where
  "walk_loop walker_cb h root node ctx =
    (case node of
       None \<Rightarrow> Some ctx
     | Some a \<Rightarrow> do {
         r \<leftarrow> walker_cb a ctx;
         if snd r = LEXBOR_ACTION_STOP then Some (fst r)
         else do {
           n \<leftarrow> h a;
           (case nd_first_child n of
              Some f \<Rightarrow> walk_loop walker_cb h root (Some f) (fst r)
            | None \<Rightarrow> do {
                b \<leftarrow> walk_up h root a;
                if b = root then Some (fst r)
                else do {
                  m \<leftarrow> h b;
                  walk_loop walker_cb h root (nd_next m) (fst r)
                }
              })
         }
       })"

definition lxb_dom_node_simple_walk :: "dom_heap \<Rightarrow> addr \<Rightarrow> 'c walker \<Rightarrow> 'c \<Rightarrow> 'c option" where
  "lxb_dom_node_simple_walk h root walker_cb ctx = do {
     n \<leftarrow> h root;
     walk_loop walker_cb h root (nd_first_child n) ctx
   }"

section \<open>Document order\<close>

text \<open>\<open>preorder ch as xs\<close>: the nodes of the trees with the roots \<open>as\<close> in document order are \<open>xs\<close>.\<close>

inductive preorder :: "(addr \<Rightarrow> addr list) \<Rightarrow> addr list \<Rightarrow> addr list \<Rightarrow> bool" for ch where
  Nil: "preorder ch [] []"
| Cons: "preorder ch (ch a) xs \<Longrightarrow> preorder ch as ys \<Longrightarrow> preorder ch (a # as) (a # xs @ ys)"

inductive_cases preorder_NilE [elim!]: "preorder ch [] xs"
inductive_cases preorder_ConsE: "preorder ch (a # as) xs"

lemma preorder_fun:
  assumes "preorder ch as xs" "preorder ch as ys"
  shows "ys = xs"
  using assms
proof (induction arbitrary: ys)
  case (Cons a xs as zs)
  from Cons.prems show ?case by (rule preorder_ConsE) (use Cons.IH in blast)
qed auto

lemma preorder_ex:
  assumes "wf (child_rel ch)"
  shows "\<exists>xs. preorder ch as xs"
proof -
  have node: "\<exists>xs. preorder ch [a] xs" for a
    using assms
  proof (induction a rule: wf_induct_rule)
    case (less a)
    have "\<exists>xs. preorder ch bs xs" if "set bs \<subseteq> set (ch a)" for bs
      using that
    proof (induction bs)
      case (Cons b bs)
      then obtain xs ys where xs: "preorder ch [b] xs" and ys: "preorder ch bs ys"
        using less [of b] by (auto simp: child_rel_def)
      from xs obtain zs where "preorder ch (ch b) zs" by (rule preorder_ConsE)
      with ys show ?case by (blast intro: preorder.Cons)
    qed (blast intro: preorder.Nil)
    then show ?case by (blast intro: preorder.intros)
  qed
  show ?thesis
  proof (induction as)
    case (Cons a as)
    obtain xs where "preorder ch [a] xs" using node by blast
    then obtain zs where "preorder ch (ch a) zs" by (rule preorder_ConsE)
    with Cons show ?case by (blast intro: preorder.Cons)
  qed (blast intro: preorder.Nil)
qed

lemma preorder_set: "preorder ch as xs \<Longrightarrow> set xs = {b. \<exists>a \<in> set as. (b, a) \<in> (child_rel ch)\<^sup>*}"
proof (induction rule: preorder.induct)
  case (Cons a xs as ys)
  have "(b, a) \<in> (child_rel ch)\<^sup>* \<longleftrightarrow> b = a \<or> (\<exists>c \<in> set (ch a). (b, c) \<in> (child_rel ch)\<^sup>*)" for b
    by (auto simp: child_rel_def elim: rtranclE intro: rtrancl_into_rtrancl)
  with Cons.IH show ?case by auto
qed simp

text \<open>The nodes below \<open>root\<close>.\<close>

lemma below_set: "preorder ch (ch root) xs \<Longrightarrow> set xs = {b. (b, root) \<in> (child_rel ch)\<^sup>+}"
  by (auto simp: preorder_set child_rel_def elim: tranclE intro: rtrancl_into_trancl1 dest: trancl_into_rtrancl)

section \<open>The walk visits the descendants in document order\<close>

fun walk_list :: "'c walker \<Rightarrow> addr list \<Rightarrow> 'c \<Rightarrow> ('c \<times> bool) option" where
  "walk_list cb [] c = Some (c, False)"
| "walk_list cb (x # xs) c = do {
     r \<leftarrow> cb x c;
     if snd r = LEXBOR_ACTION_STOP then Some (fst r, True) else walk_list cb xs (fst r)
   }"

lemma walk_list_append:
  "walk_list cb (xs @ ys) c = do { r \<leftarrow> walk_list cb xs c; if snd r then Some r else walk_list cb ys (fst r) }"
  by (induction xs arbitrary: c) (auto split: bind_splits if_splits)

text \<open>How the loop goes on when the subtree of \<open>a\<close> has been visited.\<close>

definition walk_after :: "'c walker \<Rightarrow> dom_heap \<Rightarrow> addr \<Rightarrow> addr \<Rightarrow> 'c \<Rightarrow> 'c option" where
  "walk_after cb h root a c = do {
     b \<leftarrow> walk_up h root a;
     if b = root then Some c else do { m \<leftarrow> h b; walk_loop cb h root (nd_next m) c }
   }"

lemma walk_after_root [simp]: "walk_after cb h root root c = Some c"
  by (simp add: walk_after_def walk_up.simps)

lemma walk_loop_Some:
  assumes "h a = Some n"
  shows "walk_loop cb h root (Some a) c = do {
    r \<leftarrow> cb a c;
    if snd r = LEXBOR_ACTION_STOP then Some (fst r)
    else (case nd_first_child n of Some f \<Rightarrow> walk_loop cb h root (Some f) (fst r) | None \<Rightarrow> walk_after cb h root a (fst r)) }"
  by (subst walk_loop.simps) (simp add: assms walk_after_def cong: if_cong option.case_cong)

lemma walk_after_child:
  assumes "dom_rep h ch" "ch p = ys @ a # as" "a \<noteq> root"
  shows "walk_after cb h root a c = (if as = [] then walk_after cb h root p c else walk_loop cb h root (hdo as None) c)"
proof -
  obtain n where "h a = Some n" "nd_parent n = Some p" "nd_next n = hdo as None"
    using assms(1,2) by (rule rep_split) blast
  with assms(3) show ?thesis
    by (cases as) (simp_all add: walk_after_def walk_up.simps [of h root a])
qed

lemma walk_forest:
  assumes "preorder ch as xs" "dom_rep h ch" "ch p = ys @ as" "as \<noteq> []" "root \<notin> set xs"
  shows "walk_loop cb h root (hdo as None) c =
    do { r \<leftarrow> walk_list cb xs c; if snd r then Some (fst r) else walk_after cb h root p (fst r) }"
  using assms
proof (induction arbitrary: p ys c rule: preorder.induct)
  case (Cons a xs as zs)
  obtain n where n: "h a = Some n" using child_live(1) [OF Cons.prems(1), of a p] Cons.prems(2) by auto
  have kids: "nd_first_child n = hdo (ch a) None" using rep_kids [OF Cons.prems(1) n] by blast
  have after: "walk_after cb h root a d = do { r \<leftarrow> walk_list cb zs d; if snd r then Some (fst r) else walk_after cb h root p (fst r) }" for d
  proof (cases "as = []")
    case True
    with Cons.hyps(2) Cons.prems show ?thesis by (auto simp: walk_after_child [of h ch p ys a "[]"])
  next
    case False
    with Cons.prems Cons.IH(2) [of p "ys @ [a]" d] show ?thesis
      by (simp add: walk_after_child [of h ch p ys a as])
  qed
  have below: "(case nd_first_child n of Some f \<Rightarrow> walk_loop cb h root (Some f) d | None \<Rightarrow> walk_after cb h root a d) =
      do { r \<leftarrow> walk_list cb xs d; if snd r then Some (fst r) else walk_after cb h root a (fst r) }" for d
  proof (cases "ch a")
    case Nil
    with Cons.hyps(1) kids show ?thesis by auto
  next
    case (Cons b bs)
    with Cons.IH(1) [of a "[]" d] Cons.prems kids show ?thesis by simp
  qed
  show ?case
    by (cases "cb a c") (auto simp: walk_loop_Some [of h a n, OF n] below after walk_list_append split: bind_split)
qed simp

lemma not_below_itself:
  assumes "wf (child_rel ch)" "preorder ch (ch root) xs"
  shows "root \<notin> set xs" "root \<notin> set (ch root)"
proof -
  have "(root, root) \<notin> (child_rel ch)\<^sup>+" using wf_not_refl [OF wf_trancl [OF assms(1)]] .
  then show "root \<notin> set xs" "root \<notin> set (ch root)"
    using below_set [OF assms(2)] by (auto simp: child_rel_def)
qed

lemma simple_walk_preorder:
  assumes "dom_inv h ch" "root \<in> dom h" "preorder ch (ch root) xs"
  shows "lxb_dom_node_simple_walk h root cb c = map_option fst (walk_list cb xs c)"
proof -
  from assms(1) have rep: "dom_rep h ch" and wf: "wf (child_rel ch)" by (simp_all add: dom_inv_def)
  obtain n where n: "h root = Some n" using assms(2) by auto
  have kids: "nd_first_child n = hdo (ch root) None" using rep_kids [OF rep n] by blast
  show ?thesis
  proof (cases "ch root")
    case Nil
    with assms(3) n kids show ?thesis by (auto simp: lxb_dom_node_simple_walk_def walk_loop.simps)
  next
    case (Cons b bs)
    then have "walk_loop cb h root (hdo (ch root) None) c =
        do { r \<leftarrow> walk_list cb xs c; if snd r then Some (fst r) else walk_after cb h root root (fst r) }"
      using walk_forest [OF assms(3) rep, of root "[]" root] not_below_itself [OF wf assms(3)] by simp
    with n kids show ?thesis by (cases "walk_list cb xs c") (simp_all add: lxb_dom_node_simple_walk_def)
  qed
qed

section \<open>Destroying a subtree\<close>

text \<open>\<open>while (node != root && node->next == NULL) { tmp = node->parent; destroy(node); node = tmp; }\<close>\<close>

partial_function (option) destroy_up :: "dom_heap \<Rightarrow> addr \<Rightarrow> addr \<Rightarrow> (dom_heap \<times> addr) option" where
  "destroy_up h root node =
    (if node = root then Some (h, node)
     else do {
       n \<leftarrow> h node;
       if nd_next n = None then do {
         h' \<leftarrow> lxb_dom_node_destroy h node;
         (case nd_parent n of None \<Rightarrow> None | Some p \<Rightarrow> destroy_up h' root p)
       }
       else Some (h, node)
     })"

partial_function (option) destroy_loop :: "dom_heap \<Rightarrow> addr \<Rightarrow> addr option \<Rightarrow> dom_heap option" where
  "destroy_loop h root node =
    (case node of
       None \<Rightarrow> Some h
     | Some a \<Rightarrow> do {
         n \<leftarrow> h a;
         (case nd_first_child n of
            Some f \<Rightarrow> destroy_loop h root (Some f)
          | None \<Rightarrow> do {
              r \<leftarrow> destroy_up h root a;
              if snd r = root then lxb_dom_node_destroy (fst r) (snd r)
              else do {
                m \<leftarrow> fst r (snd r);
                h' \<leftarrow> lxb_dom_node_destroy (fst r) (snd r);
                destroy_loop h' root (nd_next m)
              }
            })
       })"

definition lxb_dom_node_destroy_deep :: "dom_heap \<Rightarrow> addr option \<Rightarrow> dom_heap option" where
  "lxb_dom_node_destroy_deep h root = (case root of None \<Rightarrow> Some h | Some r \<Rightarrow> destroy_loop h r (Some r))"

text \<open>The children when the nodes of \<open>D\<close> are gone.\<close>

definition cut :: "addr set \<Rightarrow> (addr \<Rightarrow> addr list) \<Rightarrow> addr \<Rightarrow> addr list" where
  "cut D ch p = (if p \<in> D then [] else filter (\<lambda>b. b \<notin> D) (ch p))"

lemma delete_detached:
  assumes "dom_rep h ch" "detached h a" "ch a = []"
  shows "dom_rep (h(a := None)) ch"
proof -
  have views: "kids_of (h(a := None)) = (kids_of h)(a := None)" "up_of (h(a := None)) = (up_of h)(a := None)"
    by (auto simp: kids_of_def up_of_def)
  have "a \<notin> set (ch p)" for p using detached_not_child [OF assms(1,2)] .
  with assms(1,3) show ?thesis unfolding dom_rep_def views by auto
qed

lemma parent_is_owner:
  assumes "dom_rep h ch" "h a = Some n" "nd_parent n = Some p"
  shows "a \<in> set (ch p)"
  using assms(1,3) live_views(2) [of h a n, OF assms(2)] unfolding dom_rep_def by fastforce

lemma remove_detached:
  assumes "dom_rep h ch" "detached h a"
  shows "lxb_dom_node_remove h a = Some h"
proof -
  obtain n where n: "h a = Some n" "nd_parent n = None" using assms(2) by (auto simp: detached_def)
  then have "nd_prev n = None" "nd_next n = None"
    using assms(1) live_views(2) [of h a n] unfolding dom_rep_def by fastforce+
  moreover from this n have "n\<lparr> nd_parent := None, nd_next := None, nd_prev := None \<rparr> = n" by simp
  ultimately show ?thesis using n by (simp add: lxb_dom_node_remove_def nd_set_def fun_upd_idem)
qed

text \<open>Destroying a node without children.\<close>

lemma destroy_leaf:
  assumes "dom_rep h ch" "a \<in> dom h" "ch a = []" "wf (child_rel ch)"
  shows "wp (lxb_dom_node_destroy h a) (\<lambda>h'. dom_rep h' (cut {a} ch) \<and> data_of h' = (data_of h)(a := None))"
proof -
  have del: "data_of (g(a := None)) = (data_of g)(a := None)" for g by (auto simp: data_of_def)
  show ?thesis
  proof (cases "detached h a")
    case True
    then have "cut {a} ch = ch"
      using detached_not_child [OF assms(1)] assms(3) by (auto simp: cut_def fun_eq_iff filter_id_conv)
    with True show ?thesis
      using delete_detached [OF assms(1) True assms(3)] remove_detached [OF assms(1) True] del
      by (simp add: lxb_dom_node_destroy_def)
  next
    case False
    then obtain n p where n: "h a = Some n" "nd_parent n = Some p" using assms(2) by (auto simp: detached_def)
    then have "a \<in> set (ch p)" by (rule parent_is_owner [OF assms(1)])
    then obtain xs ys where ch: "ch p = xs @ a # ys" by (meson split_list)
    have "p \<notin> set (ch p)" using not_below_itself(2) [OF assms(4)] preorder_ex [OF assms(4)] by blast
    from remove_child_rep [OF assms(1) ch this] obtain h' where h': "lxb_dom_node_remove h a = Some h'"
      "dom_rep h' (ch(p := xs @ ys))" "data_of h' = data_of h"
      by (auto simp: wp_iff dom_to_def)
    have a: "a \<noteq> p" "a \<notin> set xs" "a \<notin> set ys" using rep_chain(1) [OF assms(1), of p] ch assms(3) by auto
    have "a \<notin> set (ch q)" if "q \<noteq> p" for q
      using child_unique [OF assms(1), of a p q] ch that by auto
    moreover have "filter (\<lambda>b. b \<noteq> a) zs = zs" if "a \<notin> set zs" for zs using that by (auto simp: filter_id_conv)
    ultimately have cut: "cut {a} ch = ch(p := xs @ ys)"
      using a ch assms(3) by (auto simp: cut_def fun_eq_iff)
    then have "a \<notin> set ((ch(p := xs @ ys)) q)" for q
      using cut [symmetric] by (simp only:) (simp add: cut_def)
    moreover obtain n' where "h' a = Some n'" using data_of_dom [OF h'(3)] assms(2) by blast
    ultimately have "detached h' a" using parent_is_owner [OF h'(2)] by (cases "nd_parent n'") (auto simp: detached_def)
    then have "dom_rep (h'(a := None)) (cut {a} ch)"
      unfolding cut using h'(2) assms(3) a by (intro delete_detached) auto
    with h' del show ?thesis by (simp add: lxb_dom_node_destroy_def)
  qed
qed

lemma cut_cut: "cut D (cut E ch) = cut (D \<union> E) ch"
  by (auto simp: cut_def fun_eq_iff filter_empty_conv intro!: filter_cong)

lemma child_rel_cut: "child_rel (cut D ch) \<subseteq> child_rel ch"
  by (auto simp: child_rel_def cut_def split: if_splits)

text \<open>Subtrees of different children are disjoint.\<close>

lemma ancestors_linear:
  assumes "dom_rep h ch" "(b, a) \<in> (child_rel ch)\<^sup>*" "(b, a') \<in> (child_rel ch)\<^sup>*"
  shows "(a, a') \<in> (child_rel ch)\<^sup>* \<or> (a', a) \<in> (child_rel ch)\<^sup>*"
  using assms(2,3)
proof (induction rule: rtrancl_induct)
  case (step y z)
  then consider "(y, a') \<in> (child_rel ch)\<^sup>*" | "(a', y) \<in> (child_rel ch)\<^sup>*" by blast
  then show ?case
  proof cases
    case 1
    then show ?thesis
    proof (cases rule: converse_rtranclE)
      case (step x)
      with \<open>(y, z) \<in> child_rel ch\<close> have "x = z" using child_unique [OF assms(1)] by (auto simp: child_rel_def)
      with step show ?thesis by blast
    qed (use step in blast)
  next
    case 2
    with step show ?thesis by (meson rtrancl.rtrancl_into_rtrancl)
  qed
qed blast

lemma siblings_disjoint:
  assumes "dom_rep h ch" "wf (child_rel ch)" "a \<in> set (ch p)" "a' \<in> set (ch p)" "a \<noteq> a'" "(b, a) \<in> (child_rel ch)\<^sup>*"
  shows "(b, a') \<notin> (child_rel ch)\<^sup>*"
proof
  assume "(b, a') \<in> (child_rel ch)\<^sup>*"
  have no: False if "(x, y) \<in> (child_rel ch)\<^sup>*" "x \<in> set (ch p)" "y \<in> set (ch p)" "x \<noteq> y" for x y
  proof -
    from that(1,4) obtain z where "(x, z) \<in> child_rel ch" "(z, y) \<in> (child_rel ch)\<^sup>*"
      by (meson converse_rtranclE)
    moreover from this have "z = p" using that(2) child_unique [OF assms(1)] by (auto simp: child_rel_def)
    moreover have "(y, p) \<in> child_rel ch" using that(3) by (simp add: child_rel_def)
    ultimately have "(p, p) \<in> (child_rel ch)\<^sup>+" by (meson rtrancl_into_trancl1)
    then show False using wf_not_refl [OF wf_trancl [OF assms(2)]] by blast
  qed
  from ancestors_linear [OF assms(1,6) \<open>(b, a') \<in> (child_rel ch)\<^sup>*\<close>] show False
    using no assms(3-5) by blast
qed

lemma preorder_distinct:
  assumes "preorder ch as xs" "dom_rep h ch" "wf (child_rel ch)" "ch p = ys @ as"
  shows "distinct xs"
  using assms
proof (induction arbitrary: p ys rule: preorder.induct)
  case (Cons a xs as zs)
  have "distinct xs" using Cons.IH(1) [of a "[]"] Cons.prems by simp
  moreover have "distinct zs" using Cons.IH(2) [of p "ys @ [a]"] Cons.prems by simp
  moreover have "a \<notin> set xs" using not_below_itself(1) Cons.prems(2) Cons.hyps(1) by blast
  moreover have dj: "b \<notin> set zs" if "(b, a) \<in> (child_rel ch)\<^sup>*" for b
  proof
    assume "b \<in> set zs"
    then obtain a' where "a' \<in> set as" "(b, a') \<in> (child_rel ch)\<^sup>*" using preorder_set [OF Cons.hyps(2)] by blast
    moreover from this have "a \<noteq> a'" using rep_chain(1) [OF Cons.prems(1), of p] Cons.prems(3) by auto
    ultimately show False using siblings_disjoint [OF Cons.prems(1,2), of a p a' b] Cons.prems(3) that by auto
  qed
  moreover have "(b, a) \<in> (child_rel ch)\<^sup>*" if "b \<in> set xs" for b
    using that below_set [OF Cons.hyps(1)] by (auto dest: trancl_into_rtrancl)
  ultimately show ?case by auto
qed simp

text \<open>How the loop goes on at a node without children, and the state when the nodes of \<open>D\<close> are gone.\<close>

definition destroy_after :: "dom_heap \<Rightarrow> addr \<Rightarrow> addr \<Rightarrow> dom_heap option" where
  "destroy_after h root a = do {
     r \<leftarrow> destroy_up h root a;
     if snd r = root then lxb_dom_node_destroy (fst r) (snd r)
     else do {
       m \<leftarrow> fst r (snd r);
       h' \<leftarrow> lxb_dom_node_destroy (fst r) (snd r);
       destroy_loop h' root (nd_next m)
     }
   }"

lemma destroy_loop_Some:
  assumes "h a = Some n"
  shows "destroy_loop h root (Some a) =
    (case nd_first_child n of Some f \<Rightarrow> destroy_loop h root (Some f) | None \<Rightarrow> destroy_after h root a)"
  by (subst destroy_loop.simps) (simp add: assms destroy_after_def cong: option.case_cong)

definition gone :: "dom_heap \<Rightarrow> (addr \<Rightarrow> addr list) \<Rightarrow> addr set \<Rightarrow> dom_heap \<Rightarrow> bool" where
  "gone h0 ch D h \<longleftrightarrow> dom_rep h (cut D ch) \<and> data_of h = (data_of h0) |` (- D)"

lemma gone_live: "gone h0 ch D h \<Longrightarrow> a \<in> dom h \<longleftrightarrow> a \<in> dom h0 \<and> a \<notin> D"
proof -
  assume "gone h0 ch D h"
  then have "data_of h a = ((data_of h0) |` (- D)) a" by (simp add: gone_def)
  then show ?thesis by (cases "h a"; cases "h0 a") (auto simp: data_of_def restrict_map_def split: if_splits)
qed

lemma gone_destroy:
  assumes "gone h0 ch D h" "a \<in> dom h0" "a \<notin> D" "cut D ch a = []" "wf (child_rel ch)"
  shows "\<exists>h'. lxb_dom_node_destroy h a = Some h' \<and> gone h0 ch (insert a D) h'"
proof -
  have "wf (child_rel (cut D ch))" using assms(5) child_rel_cut by (rule wf_subset)
  moreover have "dom_rep h (cut D ch)" "a \<in> dom h" using assms(1-3) gone_live [OF assms(1)] by (simp_all add: gone_def)
  ultimately have "wp (lxb_dom_node_destroy h a) (\<lambda>h'. dom_rep h' (cut {a} (cut D ch)) \<and> data_of h' = (data_of h)(a := None))"
    using assms(4) by (intro destroy_leaf)
  moreover have "((data_of h0) |` (- D))(a := None) = (data_of h0) |` (- insert a D)"
    by (auto simp: restrict_map_def fun_eq_iff)
  ultimately show ?thesis
    using assms(1) by (auto simp: wp_iff cut_cut gone_def)
qed

lemma destroy_child:
  assumes g: "gone h0 ch D h" and wf: "wf (child_rel ch)" and a: "a \<in> dom h0" "cut D ch a = []" "a \<noteq> root"
    and p: "p \<notin> D" "ch p = ys @ a # as" "set ys \<subseteq> D" "set (a # as) \<inter> D = {}"
  shows "\<exists>h'. gone h0 ch (insert a D) h' \<and>
    destroy_after h root a = (if as = [] then destroy_after h' root p else destroy_loop h' root (hdo as None))"
proof -
  obtain h' where h': "lxb_dom_node_destroy h a = Some h'" "gone h0 ch (insert a D) h'"
    using gone_destroy [OF g a(1) _ a(2) wf] p(4) by auto
  have "filter (\<lambda>b. b \<notin> D) as = as" "filter (\<lambda>b. b \<notin> D) ys = []"
    using p(3,4) by (auto simp: filter_id_conv filter_empty_conv)
  then have "cut D ch p = [] @ a # as" using p by (simp add: cut_def)
  moreover have "dom_rep h (cut D ch)" using g by (simp add: gone_def)
  ultimately have "\<exists>n. h a = Some n \<and> nd_parent n = Some p \<and> nd_next n = hdo as None"
    by (metis rep_split)
  then obtain n where "h a = Some n" "nd_parent n = Some p" "nd_next n = hdo as None" by blast
  with h' a(3) show ?thesis
    by (cases as) (auto simp: destroy_after_def destroy_up.simps [of h root a])
qed

lemma destroy_forest:
  assumes "preorder ch as xs" "dom_rep h0 ch" "wf (child_rel ch)" "gone h0 ch D h"
    and "ch p = ys @ as" "as \<noteq> []" "set ys \<subseteq> D" "set xs \<inter> D = {}" "p \<notin> D" "root \<notin> set xs"
  shows "\<exists>h'. gone h0 ch (D \<union> set xs) h' \<and> destroy_loop h root (hdo as None) = destroy_after h' root p"
  using assms
proof (induction arbitrary: p ys D h rule: preorder.induct)
  case (Cons a xs as zs)
  have dist: "distinct (a # xs @ zs)"
    using preorder_distinct [OF preorder.Cons [OF Cons.hyps] Cons.prems(1,2,4)] .
  have as: "set as \<subseteq> set zs" using preorder_set [OF Cons.hyps(2)] by auto
  have live: "a \<in> dom h0" using child_live(1) [OF Cons.prems(1), of a p] Cons.prems(4) by auto
  then obtain n where n: "h a = Some n" using gone_live [OF Cons.prems(3), of a] Cons.prems(7) by auto
  have "set (ch a) \<subseteq> set xs" using preorder_set [OF Cons.hyps(1)] by auto
  then have "filter (\<lambda>b. b \<notin> D) (ch a) = ch a" using Cons.prems(7) by (auto simp: filter_id_conv)
  then have cut_a: "cut D ch a = ch a" using Cons.prems(7) by (simp add: cut_def)
  have kids: "nd_first_child n = hdo (ch a) None"
    using rep_kids(1) [of h "cut D ch" a n] Cons.prems(3) n cut_a by (simp add: gone_def)
  obtain h1 where h1: "gone h0 ch (D \<union> set xs) h1" "destroy_loop h root (Some a) = destroy_after h1 root a"
  proof (cases "ch a")
    case Nil
    with Cons.hyps(1) have "xs = []" by auto
    with Nil Cons.prems(3) that kids n show ?thesis by (auto simp: destroy_loop_Some)
  next
    case (Cons b bs)
    with Cons.IH(1) [of D h a "[]"] Cons.prems kids n that show ?thesis
      by (auto simp: destroy_loop_Some [of h a n])
  qed
  have "(b, p) \<in> (child_rel ch)\<^sup>+" if "(b, a) \<in> (child_rel ch)\<^sup>+" for b
    using that Cons.prems(4) by (auto simp: child_rel_def intro: trancl_into_trancl)
  then have "p \<notin> set xs"
    using below_set [OF Cons.hyps(1)] wf_not_refl [OF wf_trancl [OF Cons.prems(2)], of p] by blast
  moreover have "p \<noteq> a" using wf_not_refl [OF Cons.prems(2), of p] Cons.prems(4) by (auto simp: child_rel_def)
  ultimately have pq: "p \<notin> set xs" "p \<noteq> a" by auto
  have "cut (D \<union> set xs) ch a = []"
    using \<open>set (ch a) \<subseteq> set xs\<close> by (auto simp: cut_def filter_empty_conv)
  moreover have "set ys \<subseteq> D \<union> set xs" "set (a # as) \<inter> (D \<union> set xs) = {}" "p \<notin> D \<union> set xs" "a \<noteq> root"
    using Cons.prems(6-9) as dist pq by auto
  ultimately obtain h2 where h2: "gone h0 ch (insert a (D \<union> set xs)) h2"
    "destroy_after h1 root a = (if as = [] then destroy_after h2 root p else destroy_loop h2 root (hdo as None))"
    using destroy_child [OF h1(1) Cons.prems(2) live, of root p ys as] Cons.prems(4) by blast
  show ?case
  proof (cases "as = []")
    case True
    with Cons.hyps(2) have "zs = []" by auto
    with True h1 h2 show ?thesis by auto
  next
    case False
    with Cons.IH(2) [of "insert a (D \<union> set xs)" h2 p "ys @ [a]"] Cons.prems dist h1 h2
    show ?thesis using pq by (auto simp: Un_assoc)
  qed
qed simp

text \<open>The subtree of a node.\<close>

definition subtree :: "(addr \<Rightarrow> addr list) \<Rightarrow> addr \<Rightarrow> addr set" where
  "subtree ch a = {b. (b, a) \<in> (child_rel ch)\<^sup>*}"

lemma subtree_preorder: "preorder ch (ch a) xs \<Longrightarrow> subtree ch a = insert a (set xs)"
  by (auto simp: subtree_def below_set rtrancl_eq_or_trancl)

lemma destroy_deep_gone:
  assumes "dom_inv h ch" "root \<in> dom h"
  shows "\<exists>h'. lxb_dom_node_destroy_deep h (Some root) = Some h' \<and> gone h ch (subtree ch root) h'"
proof -
  from assms(1) have rep: "dom_rep h ch" and wf: "wf (child_rel ch)" by (simp_all add: dom_inv_def)
  obtain xs where xs: "preorder ch (ch root) xs" using preorder_ex [OF wf] by blast
  obtain n where n: "h root = Some n" using assms(2) by auto
  have kids: "nd_first_child n = hdo (ch root) None" using rep_kids [OF rep n] by blast
  have "cut {} ch = ch" "data_of h |` (- {}) = data_of h" by (auto simp: cut_def restrict_map_def)
  with rep have nil: "gone h ch {} h" by (simp add: gone_def)
  have "\<exists>h'. gone h ch (set xs) h' \<and> destroy_loop h root (Some root) = destroy_after h' root root"
  proof (cases "ch root")
    case Nil
    with xs have "xs = []" by auto
    with Nil nil kids n show ?thesis by (auto simp: destroy_loop_Some [of h root n])
  next
    case (Cons b bs)
    with destroy_forest [OF xs rep wf nil, of root "[]" root] not_below_itself [OF wf xs] kids n
    show ?thesis by (auto simp: destroy_loop_Some [of h root n])
  qed
  then obtain h' where h': "gone h ch (set xs) h'" "destroy_loop h root (Some root) = lxb_dom_node_destroy h' root"
    by (auto simp: destroy_after_def destroy_up.simps)
  moreover have "cut (set xs) ch root = []"
    using preorder_set [OF xs] by (auto simp: cut_def filter_empty_conv)
  ultimately show ?thesis
    using gone_destroy [OF h'(1) assms(2) _ _ wf] not_below_itself(1) [OF wf xs]
    by (simp add: lxb_dom_node_destroy_deep_def subtree_preorder [OF xs])
qed

lemma gone_inv:
  assumes "dom_inv h ch" "gone h ch D h'"
  shows "dom_inv h' (cut D ch)"
proof -
  have "dom h' \<subseteq> dom h" using gone_live [OF assms(2)] by blast
  with assms show ?thesis
    unfolding dom_inv_def gone_def by (meson finite_subset wf_subset child_rel_cut)
qed

section \<open>Replacing all children\<close>

partial_function (option) replace_loop :: "dom_heap \<Rightarrow> addr \<Rightarrow> dom_heap option" where
  "replace_loop h parent = do {
     n \<leftarrow> h parent;
     (case nd_first_child n of
        None \<Rightarrow> Some h
      | Some f \<Rightarrow> do { h' \<leftarrow> lxb_dom_node_destroy_deep h (Some f); replace_loop h' parent })
   }"

definition lxb_dom_node_replace_all :: "dom_heap \<Rightarrow> addr \<Rightarrow> addr \<Rightarrow> (dom_heap \<times> lxb_status) option" where
  "lxb_dom_node_replace_all h parent node = do {
     h \<leftarrow> replace_loop h parent;
     h \<leftarrow> lxb_dom_node_insert_child h parent node;
     Some (h, LXB_STATUS_OK)
   }"

section \<open>The tree stays a tree\<close>

lemma child_rel_finite:
  assumes "dom_inv h ch"
  shows "finite (child_rel ch)"
proof (rule finite_subset)
  show "child_rel ch \<subseteq> dom h \<times> dom h"
    using assms child_live unfolding dom_inv_def child_rel_def by fast
qed (use assms in \<open>simp add: dom_inv_def\<close>)

lemma insert_inv:
  assumes "dom_inv h ch" "wp m (dom_to h (ch(p := cs)))" "set cs = insert node (set (ch p))" "p \<notin> subtree ch node"
  shows "wp m (\<lambda>h'. dom_inv h' (ch(p := cs)) \<and> data_of h' = data_of h)"
proof (rule wp_mono [OF assms(2)])
  fix h'
  assume h': "dom_to h (ch(p := cs)) h'"
  have "child_rel (ch(p := cs)) = insert (node, p) (child_rel ch)"
    using assms(3) by (auto simp: child_rel_def)
  moreover have "acyclic (child_rel ch)" using assms(1) by (simp add: dom_inv_def wf_acyclic)
  ultimately have "acyclic (child_rel (ch(p := cs)))" "finite (child_rel (ch(p := cs)))"
    using assms(4) child_rel_finite [OF assms(1)] by (simp_all add: subtree_def)
  then show "dom_inv h' (ch(p := cs)) \<and> data_of h' = data_of h"
    using h' assms(1) data_of_dom [of h' h] by (auto simp: dom_to_def dom_inv_def finite_acyclic_wf)
qed

lemma inv_irrefl:
  assumes "dom_inv h ch"
  shows "a \<notin> set (ch a)"
  using assms wf_not_refl [of "child_rel ch" a] by (auto simp: dom_inv_def child_rel_def)

end
