(* ===== verification/Dom_Element.thy ===== *)
theory Dom_Element
  imports Dom_Walk Lxb_Str Lxb_Array
begin

text \<open>
  Elements and their attributes, the searches for elements, and the text of a subtree
  (\<open>dom/interfaces/element.c\<close>, \<open>dom/interfaces/attr.c\<close>, \<open>dom/qualified_name.c\<close>,
  \<open>dom/collection.h\<close> and the second half of \<open>dom/interfaces/node.c\<close>).

  The objects of a document are in heaps by their addresses: the nodes, the part of an element that
  follows its node, the attributes, and the character data of texts, comments and processing
  instructions.  A string object is \<^const>\<open>None\<close> when its data pointer is NULL (its length is then
  0), and otherwise the bytes of its length; the bytes in memory are followed by a NUL.
\<close>

section \<open>Objects\<close>

type_synonym lexbor_str = "lxb_char list option"

definition str_length :: "lexbor_str \<Rightarrow> nat" where
  "str_length s = (case s of None \<Rightarrow> 0 | Some b \<Rightarrow> length b)"

definition str_data :: "lexbor_str \<Rightarrow> lxb_char list" where
  "str_data s = (case s of None \<Rightarrow> [] | Some b \<Rightarrow> b @ [0])"

lemma str_simps [simp]:
  "str_length None = 0" "str_length (Some b) = length b" "str_data None = []" "str_data (Some b) = b @ [0]"
  by (simp_all add: str_length_def str_data_def)

record lxb_dom_qualified_name =
  qn_str :: lexbor_str
  qn_prefix_len :: nat
  qn_local_name_len :: nat

record lxb_dom_attr =
  at_name :: lexbor_str
  at_local_name :: lexbor_str
  at_value :: "lexbor_str option"
  at_next :: "addr option"
  at_prev :: "addr option"
  at_prefix_len :: nat
  at_ns :: lxb_ns_id

record lxb_dom_element =
  el_qualified_name :: "lxb_dom_qualified_name option"
  el_first_attr :: "addr option"
  el_last_attr :: "addr option"
  el_attr_id :: "addr option"
  el_attr_class :: "addr option"

text \<open>All nodes have the same owner document; \<open>html\<close> and \<open>quirks\<close> are its type and its mode.\<close>

record lxb_dom_document =
  nodes :: dom_heap
  elements :: "addr \<rightharpoonup> lxb_dom_element"
  attrs :: "addr \<rightharpoonup> lxb_dom_attr"
  texts :: "addr \<rightharpoonup> lexbor_str"
  html :: bool
  quirks :: bool

section \<open>Attributes of an element\<close>

definition lxb_dom_attr_value :: "lxb_dom_attr \<Rightarrow> lexbor_str" where
  "lxb_dom_attr_value a = (case at_value a of None \<Rightarrow> None | Some v \<Rightarrow> v)"

text \<open>The loop over the attributes, which returns the first that \<open>eq\<close> accepts.\<close>

partial_function (option) attr_find :: "(lxb_dom_attr \<Rightarrow> bool option) \<Rightarrow> (addr \<rightharpoonup> lxb_dom_attr) \<Rightarrow> addr option \<Rightarrow> addr option option" where
  "attr_find eq at a =
    (case a of
       None \<Rightarrow> Some None
     | Some x \<Rightarrow> do {
         r \<leftarrow> at x;
         b \<leftarrow> eq r;
         if b then Some (Some x) else attr_find eq at (at_next r)
       })"

definition lxb_dom_element_attr_by_name :: "lxb_dom_document \<Rightarrow> addr \<Rightarrow> lxb_char list \<Rightarrow> addr option option" where
  "lxb_dom_element_attr_by_name d el qualified_name = do {
     n \<leftarrow> nodes d el;
     e \<leftarrow> elements d el;
     let qn_len = length qualified_name;
     attr_find (\<lambda>a. if qn_len = str_length (at_name a)
         then (if nd_ns n = LXB_NS_HTML \<and> html d then lexbor_str_data_ncasecmp qualified_name (str_data (at_name a)) qn_len
               else lexbor_str_data_ncmp qualified_name (str_data (at_name a)) qn_len)
         else Some False)
       (attrs d) (el_first_attr e)
   }"

definition lxb_dom_element_attr_is_exist :: "lxb_dom_document \<Rightarrow> addr \<Rightarrow> lxb_char list \<Rightarrow> addr option option" where
  "lxb_dom_element_attr_is_exist d el qualified_name = do {
     e \<leftarrow> elements d el;
     let len = length qualified_name;
     attr_find (\<lambda>a. if str_length (at_local_name a) = len
         then lexbor_str_data_ncasecmp (str_data (at_local_name a)) qualified_name len else Some False)
       (attrs d) (el_first_attr e)
   }"

definition lxb_dom_element_has_attributes :: "lxb_dom_document \<Rightarrow> addr \<Rightarrow> bool option" where
  "lxb_dom_element_has_attributes d el = do { e \<leftarrow> elements d el; Some (el_first_attr e \<noteq> None) }"

definition lxb_dom_element_has_attribute :: "lxb_dom_document \<Rightarrow> addr \<Rightarrow> lxb_char list \<Rightarrow> bool option" where
  "lxb_dom_element_has_attribute d el qualified_name = do {
     a \<leftarrow> lxb_dom_element_attr_by_name d el qualified_name;
     Some (a \<noteq> None)
   }"

definition lxb_dom_element_get_attribute :: "lxb_dom_document \<Rightarrow> addr \<Rightarrow> lxb_char list \<Rightarrow> lexbor_str option" where
  "lxb_dom_element_get_attribute d el qualified_name = do {
     a \<leftarrow> lxb_dom_element_attr_by_name d el qualified_name;
     (case a of None \<Rightarrow> Some None | Some x \<Rightarrow> do { r \<leftarrow> attrs d x; Some (lxb_dom_attr_value r) })
   }"

definition lxb_dom_element_attr_append :: "lxb_dom_document \<Rightarrow> addr \<Rightarrow> addr \<Rightarrow> (lxb_dom_document \<times> lxb_status) option" where
  "lxb_dom_element_attr_append d el attr = do {
     a \<leftarrow> attrs d attr;
     if at_name a = None then Some (d, LXB_STATUS_ERROR_INCOMPLETE_OBJECT)
     else do {
       e \<leftarrow> elements d el;
       e \<leftarrow> (if el_attr_id e = None \<and> str_length (at_name a) = 2 then do {
           b \<leftarrow> lexbor_str_data_ncmp [0x69, 0x64, 0] (str_data (at_name a)) 2;
           Some (if b then e\<lparr> el_attr_id := Some attr \<rparr> else e)
         }
         else if el_attr_class e = None \<and> str_length (at_name a) = 5 then do {
           b \<leftarrow> lexbor_str_data_ncmp [0x63, 0x6C, 0x61, 0x73, 0x73, 0] (str_data (at_name a)) 5;
           Some (if b then e\<lparr> el_attr_class := Some attr \<rparr> else e)
         }
         else Some e);
       (case el_first_attr e of
          None \<Rightarrow> Some (d\<lparr> elements := (elements d)(el \<mapsto> e\<lparr> el_first_attr := Some attr, el_last_attr := Some attr \<rparr>) \<rparr>,
            LXB_STATUS_OK)
        | Some _ \<Rightarrow> do {
            let at = (attrs d)(attr \<mapsto> a\<lparr> at_prev := el_last_attr e \<rparr>);
            l \<leftarrow> el_last_attr e;
            r \<leftarrow> at l;
            Some (d\<lparr> attrs := at(l \<mapsto> r\<lparr> at_next := Some attr \<rparr>),
              elements := (elements d)(el \<mapsto> e\<lparr> el_last_attr := Some attr \<rparr>) \<rparr>, LXB_STATUS_OK)
          })
     }
   }"

definition lxb_dom_element_attr_remove :: "lxb_dom_document \<Rightarrow> addr \<Rightarrow> addr \<Rightarrow> (lxb_dom_document \<times> lxb_status) option" where
  "lxb_dom_element_attr_remove d el attr = do {
     e \<leftarrow> elements d el;
     let e = (if el_attr_id e = Some attr then e\<lparr> el_attr_id := None \<rparr>
              else if el_attr_class e = Some attr then e\<lparr> el_attr_class := None \<rparr> else e);
     a \<leftarrow> attrs d attr;
     (at, e) \<leftarrow> (case at_prev a of
         Some p \<Rightarrow> do { r \<leftarrow> attrs d p; Some ((attrs d)(p \<mapsto> r\<lparr> at_next := at_next a \<rparr>), e) }
       | None \<Rightarrow> Some (attrs d, e\<lparr> el_first_attr := at_next a \<rparr>));
     a \<leftarrow> at attr;
     (at, e) \<leftarrow> (case at_next a of
         Some x \<Rightarrow> do { r \<leftarrow> at x; Some (at(x \<mapsto> r\<lparr> at_prev := at_prev a \<rparr>), e) }
       | None \<Rightarrow> Some (at, e\<lparr> el_last_attr := at_prev a \<rparr>));
     a \<leftarrow> at attr;
     Some (d\<lparr> attrs := at(attr \<mapsto> a\<lparr> at_next := None, at_prev := None \<rparr>), elements := (elements d)(el \<mapsto> e) \<rparr>, LXB_STATUS_OK)
   }"

text \<open>Destroying an attribute frees it and its strings.\<close>

definition lxb_dom_attr_interface_destroy :: "lxb_dom_document \<Rightarrow> addr \<Rightarrow> lxb_dom_document option" where
  "lxb_dom_attr_interface_destroy d attr = do { _ \<leftarrow> attrs d attr; Some (d\<lparr> attrs := (attrs d)(attr := None) \<rparr>) }"

definition lxb_dom_element_remove_attribute :: "lxb_dom_document \<Rightarrow> addr \<Rightarrow> lxb_char list \<Rightarrow> (lxb_dom_document \<times> lxb_status) option" where
  "lxb_dom_element_remove_attribute d el qualified_name = do {
     a \<leftarrow> lxb_dom_element_attr_by_name d el qualified_name;
     (case a of
        None \<Rightarrow> Some (d, LXB_STATUS_OK)
      | Some x \<Rightarrow> do {
          (d, st) \<leftarrow> lxb_dom_element_attr_remove d el x;
          if st \<noteq> LXB_STATUS_OK then Some (d, st)
          else do {
            d \<leftarrow> lxb_dom_attr_interface_destroy d x;
            Some (d, LXB_STATUS_OK)
          }
        })
   }"

text \<open>Naming an attribute and setting its value: \<open>ok\<close> tells for each allocation whether it succeeds or is
  not needed.\<close>

definition lxb_dom_attr_set_name_wo_copy :: "bool \<Rightarrow> lxb_dom_attr \<Rightarrow> lxb_char list \<Rightarrow> lxb_char list \<Rightarrow> lxb_dom_attr \<times> lxb_status" where
  "lxb_dom_attr_set_name_wo_copy ok a local_name prefix =
    (let a = a\<lparr> at_local_name := Some local_name \<rparr> in
     if \<not> ok then (if at_name a = None then a else a\<lparr> at_name := Some [] \<rparr>, LXB_STATUS_ERROR_MEMORY_ALLOCATION)
     else (a\<lparr> at_name := Some (if prefix \<noteq> [] then prefix @ 0x3A # local_name else local_name),
       at_prefix_len := length prefix \<rparr>, LXB_STATUS_OK))"

definition lxb_dom_attr_set_name :: "bool \<Rightarrow> bool \<Rightarrow> lxb_dom_attr \<Rightarrow> lxb_char list \<Rightarrow> lxb_char list \<Rightarrow> bool \<Rightarrow> lxb_dom_attr \<times> lxb_status" where
  "lxb_dom_attr_set_name ok_local ok_name a local_name prefix to_lower =
    (if \<not> ok_local
     then (if at_local_name a = None then a else a\<lparr> at_local_name := Some [] \<rparr>, LXB_STATUS_ERROR_MEMORY_ALLOCATION)
     else lxb_dom_attr_set_name_wo_copy ok_name a (if to_lower then map lowercase local_name else local_name) prefix)"

definition lxb_dom_attr_set_value :: "bool \<Rightarrow> bool \<Rightarrow> lxb_dom_attr \<Rightarrow> lxb_char list \<Rightarrow> lxb_dom_attr \<times> lxb_status" where
  "lxb_dom_attr_set_value ok_object ok_data a v =
    (if at_value a = None \<and> \<not> ok_object then (a, LXB_STATUS_ERROR_MEMORY_ALLOCATION)
     else let old = (case at_value a of None \<Rightarrow> None | Some o' \<Rightarrow> o') in
       if \<not> ok_data
       then (a\<lparr> at_value := Some (case old of None \<Rightarrow> None | Some _ \<Rightarrow> Some []) \<rparr>, LXB_STATUS_ERROR_MEMORY_ALLOCATION)
       else (a\<lparr> at_value := Some (Some v) \<rparr>, LXB_STATUS_OK))"

definition new_attr :: lxb_dom_attr where
  "new_attr = \<lparr> at_name = None, at_local_name = None, at_value = None, at_next = None, at_prev = None, at_prefix_len = 0, at_ns = 0 \<rparr>"

text \<open>\<open>nd\<close> is the address of the new attribute object, when it can be allocated; \<open>oks\<close> are the outcomes of the
  four other allocations.  The second result is the returned pointer.\<close>

definition lxb_dom_element_set_attribute :: "addr option \<Rightarrow> bool \<times> bool \<times> bool \<times> bool \<Rightarrow> lxb_dom_document \<Rightarrow> addr
    \<Rightarrow> lxb_char list \<Rightarrow> lxb_char list \<Rightarrow> (lxb_dom_document \<times> addr option) option" where
  "lxb_dom_element_set_attribute nd oks d el qualified_name v = (case oks of (ok_local, ok_name, ok_object, ok_data) \<Rightarrow> do {
     x \<leftarrow> lxb_dom_element_attr_is_exist d el qualified_name;
     (case x of
        None \<Rightarrow> (case nd of
          None \<Rightarrow> Some (d, None)
        | Some attr \<Rightarrow> do {
            n \<leftarrow> nodes d el;
            let (a, st) = lxb_dom_attr_set_name ok_local ok_name new_attr qualified_name [] (nd_ns n = LXB_NS_HTML \<and> html d);
            if st \<noteq> LXB_STATUS_OK then Some (d\<lparr> attrs := (attrs d)(attr := None) \<rparr>, None)
            else do {
              let (a, st) = lxb_dom_attr_set_value ok_object ok_data a v;
              if st \<noteq> LXB_STATUS_OK then Some (d\<lparr> attrs := (attrs d)(attr := None) \<rparr>, None)
              else do {
                (d, _) \<leftarrow> lxb_dom_element_attr_append (d\<lparr> attrs := (attrs d)(attr \<mapsto> a) \<rparr>) el attr;
                Some (d, Some attr)
              }
            }
          })
      | Some attr \<Rightarrow> do {
          a \<leftarrow> attrs d attr;
          let (a, st) = lxb_dom_attr_set_value ok_object ok_data a v;
          let d = d\<lparr> attrs := (attrs d)(attr \<mapsto> a) \<rparr>;
          Some (d, if st \<noteq> LXB_STATUS_OK then None else Some attr)
        })
   })"

definition lxb_dom_attr_compare :: "lxb_dom_attr \<Rightarrow> lxb_dom_attr \<Rightarrow> bool option" where
  "lxb_dom_attr_compare first sec =
    (if str_length (at_name first) = str_length (at_name sec) \<and> at_ns first = at_ns sec then do {
       b \<leftarrow> lexbor_str_data_ncasecmp (str_data (at_name first)) (str_data (at_name sec)) (str_length (at_name sec));
       if \<not> b then Some False
       else (case (at_value first, at_value sec) of
           (None, None) \<Rightarrow> Some True
         | (Some v, Some w) \<Rightarrow>
             if str_length v = str_length w then lexbor_str_data_ncasecmp (str_data v) (str_data w) (str_length w) else Some False
         | _ \<Rightarrow> Some False)
     } else Some False)"

section \<open>Qualified names\<close>

definition lxb_dom_qualified_name_set :: "lxb_dom_qualified_name \<Rightarrow> lxb_char list \<Rightarrow> lxb_char list \<Rightarrow> lxb_dom_qualified_name" where
  "lxb_dom_qualified_name_set q prefix lname =
    (if prefix \<noteq> [] then
       (if lname = [] then q\<lparr> qn_str := Some prefix \<rparr>
        else q\<lparr> qn_str := Some (prefix @ 0x3A # lname), qn_prefix_len := length prefix, qn_local_name_len := length lname \<rparr>)
     else if lname \<noteq> [] then q\<lparr> qn_str := Some lname, qn_prefix_len := 0, qn_local_name_len := length lname \<rparr>
     else q\<lparr> qn_prefix_len := 0, qn_local_name_len := 0 \<rparr>)"

text \<open>The bytes at \<open>lxb_dom_qualified_name_local_name\<close>; none when it returns NULL.\<close>

definition lxb_dom_qualified_name_local_name :: "lxb_dom_qualified_name \<Rightarrow> lxb_char list" where
  "lxb_dom_qualified_name_local_name q =
    (if qn_local_name_len q = 0 then []
     else if qn_prefix_len q \<noteq> 0 then drop (qn_prefix_len q + 1) (str_data (qn_str q))
     else str_data (qn_str q))"

definition lxb_dom_element_qualified_name_cmp :: "lxb_dom_node \<Rightarrow> lxb_dom_element \<Rightarrow> lxb_tag_id \<Rightarrow> lxb_char list \<Rightarrow> nat
    \<Rightarrow> lxb_char list \<Rightarrow> bool option" where
  "lxb_dom_element_qualified_name_cmp n e tag_id prefix prefix_len lname =
    (let lname_len = length lname in
     if nd_tag_id n \<noteq> tag_id then Some False
     else if prefix_len \<noteq> 0 then
       (case el_qualified_name e of
          None \<Rightarrow> Some False
        | Some q \<Rightarrow>
            if qn_prefix_len q = 0 then Some False
            else do {
              b \<leftarrow> (if qn_prefix_len q \<noteq> prefix_len then lexbor_str_data_ncasecmp (str_data (qn_str q)) prefix prefix_len
                   else Some True);
              if \<not> b then Some False
              else if nd_ns n = LXB_NS_HTML then Some True
              else if qn_local_name_len q = lname_len
              then lexbor_str_data_ncmp (lxb_dom_qualified_name_local_name q) lname lname_len
              else Some False
            })
     else (case el_qualified_name e of
         None \<Rightarrow>
           if nd_ns n = LXB_NS_HTML then Some True
           else do { u \<leftarrow> lexbor_str_data_find_uppercase lname lname_len; Some (u = None) }
       | Some q \<Rightarrow>
           if qn_prefix_len q \<noteq> 0 then Some False
           else if nd_ns n = LXB_NS_HTML then Some True
           else if qn_local_name_len q = lname_len then lexbor_str_data_ncmp (str_data (qn_str q)) lname lname_len
           else Some False))"

section \<open>Searching for elements\<close>

text \<open>A collection is an array of addresses; the context of the callbacks is the collection and the
  status.\<close>

type_synonym col_ctx = "lexbor_array \<times> lxb_status"

definition lxb_dom_collection_append :: "(size_t \<Rightarrow> bool) \<Rightarrow> addr \<Rightarrow> col_ctx \<Rightarrow> (col_ctx \<times> lexbor_action) option" where
  "lxb_dom_collection_append alloc node ctx = do {
     (col, st) \<leftarrow> lexbor_array_push alloc (fst ctx) node;
     Some ((col, st), if st \<noteq> LXB_STATUS_OK then LEXBOR_ACTION_STOP else LEXBOR_ACTION_NEXT)
   }"

definition lxb_dom_elements_by_tag_name_cb_all :: "(size_t \<Rightarrow> bool) \<Rightarrow> lxb_dom_document \<Rightarrow> col_ctx walker" where
  "lxb_dom_elements_by_tag_name_cb_all alloc d node ctx = do {
     n \<leftarrow> nodes d node;
     if nd_type n \<noteq> LXB_DOM_NODE_TYPE_ELEMENT then Some (ctx, LEXBOR_ACTION_NEXT)
     else lxb_dom_collection_append alloc node ctx
   }"

definition lxb_dom_elements_by_tag_name_cb :: "(size_t \<Rightarrow> bool) \<Rightarrow> lxb_dom_document \<Rightarrow> lxb_tag_id \<Rightarrow> lxb_char list \<Rightarrow> nat
    \<Rightarrow> lxb_char list \<Rightarrow> col_ctx walker" where
  "lxb_dom_elements_by_tag_name_cb alloc d tag_id qualified_name prefix_len local_name node ctx = do {
     n \<leftarrow> nodes d node;
     if nd_type n \<noteq> LXB_DOM_NODE_TYPE_ELEMENT then Some (ctx, LEXBOR_ACTION_NEXT)
     else do {
       e \<leftarrow> elements d node;
       is_it \<leftarrow> lxb_dom_element_qualified_name_cmp n e tag_id qualified_name prefix_len local_name;
       if is_it then lxb_dom_collection_append alloc node ctx else Some (ctx, LEXBOR_ACTION_NEXT)
     }
   }"

text \<open>\<open>memchr(s, c, n)\<close>: the index of the first occurrence.\<close>

fun memchr :: "lxb_char list \<Rightarrow> lxb_char \<Rightarrow> nat option" where
  "memchr [] c = None"
| "memchr (x # xs) c = (if x = c then Some 0 else map_option Suc (memchr xs c))"

text \<open>\<open>tid\<close> is the lookup of a tag by its name, \<open>lxb_tag_id_by_name\<close>.\<close>

definition lxb_dom_elements_by_tag_name :: "(size_t \<Rightarrow> bool) \<Rightarrow> (lxb_char list \<Rightarrow> lxb_tag_id) \<Rightarrow> lxb_dom_document \<Rightarrow> addr \<Rightarrow> lexbor_array
    \<Rightarrow> lxb_char list \<Rightarrow> col_ctx option" where
  "lxb_dom_elements_by_tag_name alloc tid d root collection qualified_name =
    (let len = length qualified_name; ctx = (collection, LXB_STATUS_OK) in
     if len = 1 \<and> qualified_name ! 0 = 0x2A
     then lxb_dom_node_simple_walk (nodes d) root (lxb_dom_elements_by_tag_name_cb_all alloc d) ctx
     else (case memchr qualified_name 0x3A of
         Some prefix_len \<Rightarrow>
           if prefix_len = len then Some (collection, LXB_STATUS_ERROR)
           else let local_name = drop (prefix_len + 1) qualified_name; tag_id = tid local_name in
             if tag_id = LXB_TAG__UNDEF then Some ctx
             else lxb_dom_node_simple_walk (nodes d) root
               (lxb_dom_elements_by_tag_name_cb alloc d tag_id qualified_name prefix_len local_name) ctx
       | None \<Rightarrow>
           let tag_id = tid qualified_name in
             if tag_id = LXB_TAG__UNDEF then Some ctx
             else lxb_dom_node_simple_walk (nodes d) root
               (lxb_dom_elements_by_tag_name_cb alloc d tag_id qualified_name 0 qualified_name) ctx))"

text \<open>The comparison of class names.\<close>

definition class_cmp :: "bool \<Rightarrow> lxb_char list \<Rightarrow> lxb_char list \<Rightarrow> bool option" where
  "class_cmp quirks_mode pos v =
    (if quirks_mode then lexbor_str_data_ncasecmp pos v (length v) else lexbor_str_data_ncmp pos v (length v))"

text \<open>The loop over the bytes of the class attribute: \<open>i\<close> is \<open>data\<close>, \<open>p\<close> is \<open>pos\<close>, \<open>n\<close> the length, as offsets.  The
  result is \<^const>\<open>None\<close> when a class was found, and otherwise the last \<open>pos\<close>.\<close>

function class_scan :: "(lxb_char list \<Rightarrow> bool option) \<Rightarrow> nat \<Rightarrow> lxb_char list \<Rightarrow> nat \<Rightarrow> nat \<Rightarrow> nat \<Rightarrow> nat option option" where
  "class_scan cmp vlen data n p i =
    (if vlen \<le> n - i \<and> i < n then
       (if lexbor_utils_whitespace (data ! i) then do {
          is_it \<leftarrow> (if p \<noteq> i \<and> i - p = vlen then cmp (drop p data) else Some False);
          if is_it then Some None else class_scan cmp vlen data n (Suc i) (Suc i)
        }
        else class_scan cmp vlen data n p (Suc i))
     else Some (Some p))"
  by pat_completeness auto
termination by (relation "measure (\<lambda>(_, _, _, n, _, i). n - i)") auto

declare class_scan.simps [simp del]

definition class_match :: "bool \<Rightarrow> lexbor_str \<Rightarrow> lxb_char list \<Rightarrow> bool option" where
  "class_match quirks_mode cls v = do {
     let data = str_data cls;
     let n = str_length cls;
     r \<leftarrow> class_scan (\<lambda>pos. class_cmp quirks_mode pos v) (length v) data n 0 0;
     (case r of
        None \<Rightarrow> Some True
      | Some p \<Rightarrow> if n - p = length v then class_cmp quirks_mode (drop p data) v else Some False)
   }"

definition lxb_dom_elements_by_class_name_cb :: "(size_t \<Rightarrow> bool) \<Rightarrow> lxb_dom_document \<Rightarrow> lxb_char list \<Rightarrow> col_ctx walker" where
  "lxb_dom_elements_by_class_name_cb alloc d v node ctx = do {
     n \<leftarrow> nodes d node;
     if nd_type n \<noteq> LXB_DOM_NODE_TYPE_ELEMENT then Some (ctx, LEXBOR_ACTION_NEXT)
     else do {
       e \<leftarrow> elements d node;
       (case el_attr_class e of
          None \<Rightarrow> Some (ctx, LEXBOR_ACTION_NEXT)
        | Some x \<Rightarrow> do {
            a \<leftarrow> attrs d x;
            cls \<leftarrow> at_value a;
            if str_length cls < length v then Some (ctx, LEXBOR_ACTION_NEXT)
            else do {
              is_it \<leftarrow> class_match (quirks d) cls v;
              if is_it then lxb_dom_collection_append alloc node ctx else Some (ctx, LEXBOR_ACTION_NEXT)
            }
          })
     }
   }"

definition lxb_dom_elements_by_class_name :: "(size_t \<Rightarrow> bool) \<Rightarrow> lxb_dom_document \<Rightarrow> addr \<Rightarrow> lexbor_array \<Rightarrow> lxb_char list \<Rightarrow> col_ctx option" where
  "lxb_dom_elements_by_class_name alloc d root collection class_name =
    (if class_name = [] then Some (collection, LXB_STATUS_OK)
     else lxb_dom_node_simple_walk (nodes d) root (lxb_dom_elements_by_class_name_cb alloc d class_name) (collection, LXB_STATUS_OK))"

text \<open>The eight comparisons of attribute values.\<close>

type_synonym attr_cmp = "lxb_char list \<Rightarrow> lexbor_str \<Rightarrow> bool option"

definition lxb_dom_elements_by_attr_cmp_full :: attr_cmp where
  "lxb_dom_elements_by_attr_cmp_full v w =
    (if length v = str_length w then lexbor_str_data_ncmp (str_data w) v (length v) else Some False)"

definition lxb_dom_elements_by_attr_cmp_full_case :: attr_cmp where
  "lxb_dom_elements_by_attr_cmp_full_case v w =
    (if length v = str_length w then lexbor_str_data_ncasecmp (str_data w) v (length v) else Some False)"

definition lxb_dom_elements_by_attr_cmp_begin :: attr_cmp where
  "lxb_dom_elements_by_attr_cmp_begin v w =
    (if length v \<le> str_length w then lexbor_str_data_ncmp (str_data w) v (length v) else Some False)"

definition lxb_dom_elements_by_attr_cmp_begin_case :: attr_cmp where
  "lxb_dom_elements_by_attr_cmp_begin_case v w =
    (if length v \<le> str_length w then lexbor_str_data_ncasecmp (str_data w) v (length v) else Some False)"

definition lxb_dom_elements_by_attr_cmp_end :: attr_cmp where
  "lxb_dom_elements_by_attr_cmp_end v w =
    (if length v \<le> str_length w
     then lexbor_str_data_ncmp_end (drop (str_length w - length v) (str_data w)) v (length v) else Some False)"

definition lxb_dom_elements_by_attr_cmp_end_case :: attr_cmp where
  "lxb_dom_elements_by_attr_cmp_end_case v w =
    (if length v \<le> str_length w
     then lexbor_str_data_ncasecmp_end (drop (str_length w - length v) (str_data w)) v (length v) else Some False)"

definition lxb_dom_elements_by_attr_cmp_contain :: attr_cmp where
  "lxb_dom_elements_by_attr_cmp_contain v w =
    (if length v \<le> str_length w then lexbor_str_data_ncmp_contain (str_data w) (str_length w) v (length v) else Some False)"

definition lxb_dom_elements_by_attr_cmp_contain_case :: attr_cmp where
  "lxb_dom_elements_by_attr_cmp_contain_case v w =
    (if length v \<le> str_length w then lexbor_str_data_ncasecmp_contain (str_data w) (str_length w) v (length v) else Some False)"

definition lxb_dom_elements_by_attr_cb :: "(size_t \<Rightarrow> bool) \<Rightarrow> lxb_dom_document \<Rightarrow> attr_cmp \<Rightarrow> lxb_char list \<Rightarrow> lxb_char list \<Rightarrow> col_ctx walker" where
  "lxb_dom_elements_by_attr_cb alloc d cmp_func qualified_name v node ctx = do {
     n \<leftarrow> nodes d node;
     if nd_type n \<noteq> LXB_DOM_NODE_TYPE_ELEMENT then Some (ctx, LEXBOR_ACTION_NEXT)
     else do {
       x \<leftarrow> lxb_dom_element_attr_by_name d node qualified_name;
       (case x of
          None \<Rightarrow> Some (ctx, LEXBOR_ACTION_NEXT)
        | Some attr \<Rightarrow> do {
            a \<leftarrow> attrs d attr;
            w \<leftarrow> at_value a;
            is_it \<leftarrow> (if v = [] \<and> str_length w = 0 then Some True else cmp_func v w);
            if is_it then lxb_dom_collection_append alloc node ctx else Some (ctx, LEXBOR_ACTION_NEXT)
          })
     }
   }"

definition elements_by :: "(size_t \<Rightarrow> bool) \<Rightarrow> lxb_dom_document \<Rightarrow> addr \<Rightarrow> lexbor_array \<Rightarrow> attr_cmp \<Rightarrow> lxb_char list \<Rightarrow> lxb_char list \<Rightarrow> col_ctx option" where
  "elements_by alloc d root collection cmp_func qualified_name v =
     lxb_dom_node_simple_walk (nodes d) root (lxb_dom_elements_by_attr_cb alloc d cmp_func qualified_name v) (collection, LXB_STATUS_OK)"

definition lxb_dom_elements_by_attr where
  "lxb_dom_elements_by_attr alloc d root collection qualified_name v case_insensitive =
     elements_by alloc d root collection
       (if case_insensitive then lxb_dom_elements_by_attr_cmp_full_case else lxb_dom_elements_by_attr_cmp_full) qualified_name v"

definition lxb_dom_elements_by_attr_begin where
  "lxb_dom_elements_by_attr_begin alloc d root collection qualified_name v case_insensitive =
     elements_by alloc d root collection
       (if case_insensitive then lxb_dom_elements_by_attr_cmp_begin_case else lxb_dom_elements_by_attr_cmp_begin) qualified_name v"

definition lxb_dom_elements_by_attr_end where
  "lxb_dom_elements_by_attr_end alloc d root collection qualified_name v case_insensitive =
     elements_by alloc d root collection
       (if case_insensitive then lxb_dom_elements_by_attr_cmp_end_case else lxb_dom_elements_by_attr_cmp_end) qualified_name v"

definition lxb_dom_elements_by_attr_contain where
  "lxb_dom_elements_by_attr_contain alloc d root collection qualified_name v case_insensitive =
     elements_by alloc d root collection
       (if case_insensitive then lxb_dom_elements_by_attr_cmp_contain_case else lxb_dom_elements_by_attr_cmp_contain) qualified_name v"

section \<open>The text of a subtree\<close>

definition lxb_dom_node_text_content_size :: "lxb_dom_document \<Rightarrow> size_t walker" where
  "lxb_dom_node_text_content_size d node len = do {
     n \<leftarrow> nodes d node;
     if nd_type n = LXB_DOM_NODE_TYPE_TEXT then do {
       s \<leftarrow> texts d node;
       Some (len + of_nat (str_length s), LEXBOR_ACTION_NEXT)
     }
     else Some (len, LEXBOR_ACTION_NEXT)
   }"

text \<open>\<open>memcpy\<close> of \<open>k\<close> bytes into a block at an offset; the cells of the block that have not been written are
  \<^const>\<open>None\<close>.\<close>

definition block_copy :: "lxb_char option list \<Rightarrow> nat \<Rightarrow> lxb_char list \<Rightarrow> nat \<Rightarrow> lxb_char option list option" where
  "block_copy b p src k =
    (if k \<le> length src \<and> p + k \<le> length b then Some (take p b @ map Some (take k src) @ drop (p + k) b) else None)"

text \<open>The context is the block and the offset of the pointer into it.\<close>

definition lxb_dom_node_text_content_concatenate :: "lxb_dom_document \<Rightarrow> (lxb_char option list \<times> nat) walker" where
  "lxb_dom_node_text_content_concatenate d node ctx = do {
     n \<leftarrow> nodes d node;
     if nd_type n \<noteq> LXB_DOM_NODE_TYPE_TEXT then Some (ctx, LEXBOR_ACTION_NEXT)
     else do {
       s \<leftarrow> texts d node;
       b \<leftarrow> block_copy (fst ctx) (snd ctx) (str_data s) (str_length s);
       Some ((b, snd ctx + str_length s), LEXBOR_ACTION_NEXT)
     }
   }"

text \<open>The result is the block and its length, or NULL; \<open>alloc\<close> tells whether the document's pool can provide
  the bytes.\<close>

definition text_copy :: "(size_t \<Rightarrow> bool) \<Rightarrow> lexbor_str \<Rightarrow> (lxb_char option list \<times> size_t) option option" where
  "text_copy alloc s =
    (let len = of_nat (str_length s) :: size_t in
     if alloc (len + 1) then do {
       b \<leftarrow> block_copy (replicate (unat (len + 1)) None) 0 (str_data s) (unat (len + 1));
       b \<leftarrow> block_copy b (unat len) [0] 1;
       Some (Some (b, len))
     }
     else Some None)"

definition lxb_dom_node_text_content :: "(size_t \<Rightarrow> bool) \<Rightarrow> lxb_dom_document \<Rightarrow> addr \<Rightarrow> (lxb_char option list \<times> size_t) option option" where
  "lxb_dom_node_text_content alloc d node = do {
     n \<leftarrow> nodes d node;
     (if nd_type n = LXB_DOM_NODE_TYPE_DOCUMENT_FRAGMENT \<or> nd_type n = LXB_DOM_NODE_TYPE_ELEMENT then do {
        len \<leftarrow> lxb_dom_node_simple_walk (nodes d) node (lxb_dom_node_text_content_size d) 0;
        if alloc (len + 1) then do {
          (b, p) \<leftarrow> lxb_dom_node_simple_walk (nodes d) node (lxb_dom_node_text_content_concatenate d) (replicate (unat (len + 1)) None, 0);
          if p < unat len then None
          else do {
            b \<leftarrow> block_copy b p [0] 1;
            Some (Some (drop (p - unat len) b, len))
          }
        }
        else Some None
      }
      else if nd_type n = LXB_DOM_NODE_TYPE_ATTRIBUTE then do {
        a \<leftarrow> attrs d node;
        (case lxb_dom_attr_value a of None \<Rightarrow> Some None | Some v \<Rightarrow> text_copy alloc (Some v))
      }
      else if nd_type n = LXB_DOM_NODE_TYPE_TEXT \<or> nd_type n = LXB_DOM_NODE_TYPE_PROCESSING_INSTRUCTION \<or> nd_type n = LXB_DOM_NODE_TYPE_COMMENT
      then do { s \<leftarrow> texts d node; text_copy alloc s }
      else Some None)
   }"

end
