(* ===== verification/Dom_Spec.thy ===== *)
theory Dom_Spec
  imports Dom_Walk
begin

text \<open>
  What the operations on the document tree promise.  A sequence of edits is run on the heap and on
  the function that gives the children of every node; the two agree.
\<close>

section \<open>Sequences of edits\<close>

datatype dom_edit =
    Insert_child addr addr
  | Insert_before addr addr
  | Insert_after addr addr
  | Remove addr
  | Destroy_deep addr

fun edit_heap :: "dom_heap \<Rightarrow> dom_edit \<Rightarrow> dom_heap option" where
  "edit_heap h (Insert_child to node) = lxb_dom_node_insert_child h to node"
| "edit_heap h (Insert_before to node) = lxb_dom_node_insert_before h to node"
| "edit_heap h (Insert_after to node) = lxb_dom_node_insert_after h to node"
| "edit_heap h (Remove node) = lxb_dom_node_remove h node"
| "edit_heap h (Destroy_deep root) = lxb_dom_node_destroy_deep h (Some root)"

fun edits_heap :: "dom_heap \<Rightarrow> dom_edit list \<Rightarrow> dom_heap option" where
  "edits_heap h [] = Some h"
| "edits_heap h (e # es) = edit_heap h e \<bind> (\<lambda>h. edits_heap h es)"

text \<open>The same edits on the children: the node is put before or after its sibling to be in the one
  list that has the sibling.\<close>

definition put :: "addr list \<Rightarrow> addr \<Rightarrow> addr list \<Rightarrow> addr list" where
  "put xs to ys = concat (map (\<lambda>y. if y = to then xs else [y]) ys)"

fun edit_tree :: "(addr \<Rightarrow> addr list) \<Rightarrow> dom_edit \<Rightarrow> addr \<Rightarrow> addr list" where
  "edit_tree ch (Insert_child to node) = ch(to := ch to @ [node])"
| "edit_tree ch (Insert_before to node) = (\<lambda>p. put [node, to] to (ch p))"
| "edit_tree ch (Insert_after to node) = (\<lambda>p. put [to, node] to (ch p))"
| "edit_tree ch (Remove node) = (\<lambda>p. removeAll node (ch p))"
| "edit_tree ch (Destroy_deep root) = cut (subtree ch root) ch"

fun edit_live :: "(addr \<Rightarrow> addr list) \<Rightarrow> addr set \<Rightarrow> dom_edit \<Rightarrow> addr set" where
  "edit_live ch L (Destroy_deep root) = L - subtree ch root"
| "edit_live ch L _ = L"

text \<open>The nodes are live; a node to be inserted has no parent and is not above the place it goes to.\<close>

definition fresh_child :: "(addr \<Rightarrow> addr list) \<Rightarrow> addr set \<Rightarrow> addr \<Rightarrow> addr \<Rightarrow> bool" where
  "fresh_child ch L to node \<longleftrightarrow> to \<in> L \<and> node \<in> L \<and> (\<forall>p. node \<notin> set (ch p)) \<and> to \<notin> subtree ch node"

fun edit_ok :: "(addr \<Rightarrow> addr list) \<Rightarrow> addr set \<Rightarrow> dom_edit \<Rightarrow> bool" where
  "edit_ok ch L (Insert_child to node) \<longleftrightarrow> fresh_child ch L to node"
| "edit_ok ch L (Insert_before to node) \<longleftrightarrow> fresh_child ch L to node \<and> (\<exists>p. to \<in> set (ch p))"
| "edit_ok ch L (Insert_after to node) \<longleftrightarrow> fresh_child ch L to node \<and> (\<exists>p. to \<in> set (ch p))"
| "edit_ok ch L (Remove node) \<longleftrightarrow> node \<in> L"
| "edit_ok ch L (Destroy_deep root) \<longleftrightarrow> root \<in> L"

fun edits_ok :: "(addr \<Rightarrow> addr list) \<Rightarrow> addr set \<Rightarrow> dom_edit list \<Rightarrow> bool" where
  "edits_ok ch L [] \<longleftrightarrow> True"
| "edits_ok ch L (e # es) \<longleftrightarrow> edit_ok ch L e \<and> edits_ok (edit_tree ch e) (edit_live ch L e) es"

fun edits_tree :: "(addr \<Rightarrow> addr list) \<Rightarrow> addr set \<Rightarrow> dom_edit list \<Rightarrow> (addr \<Rightarrow> addr list) \<times> addr set" where
  "edits_tree ch L [] = (ch, L)"
| "edits_tree ch L (e # es) = edits_tree (edit_tree ch e) (edit_live ch L e) es"

section \<open>One edit\<close>

lemma detachedI:
  assumes "dom_rep h ch" "a \<in> dom h" "\<forall>p. a \<notin> set (ch p)"
  shows "detached h a"
  using assms parent_is_owner [OF assms(1)] by (fastforce simp: detached_def)

lemma put_split: "to \<notin> set xs \<Longrightarrow> to \<notin> set ys \<Longrightarrow> put zs to (xs @ to # ys) = xs @ zs @ ys"
  "to \<notin> set xs \<Longrightarrow> put zs to xs = xs"
proof -
  show p: "to \<notin> set xs \<Longrightarrow> put zs to xs = xs" for xs by (induction xs) (auto simp: put_def)
  show "to \<notin> set xs \<Longrightarrow> to \<notin> set ys \<Longrightarrow> put zs to (xs @ to # ys) = xs @ zs @ ys"
    using p [of xs] p [of ys] by (simp add: put_def)
qed

text \<open>Replacing a child in the list that has it, and in no other.\<close>

lemma split_child:
  assumes "dom_rep h ch" "a \<in> set (ch p)"
  obtains xs ys where "ch p = xs @ a # ys" "\<And>zs. (\<lambda>q. put zs a (ch q)) = ch(p := xs @ zs @ ys)"
    "(\<lambda>q. removeAll a (ch q)) = ch(p := xs @ ys)"
proof -
  obtain xs ys where ch: "ch p = xs @ a # ys" using assms(2) by (meson split_list)
  then have a: "a \<notin> set xs" "a \<notin> set ys" using rep_chain(1) [OF assms(1), of p] by auto
  have "a \<notin> set (ch q)" if "q \<noteq> p" for q using child_unique [OF assms(1,2)] that by blast
  with a ch have "(\<lambda>q. put zs a (ch q)) = ch(p := xs @ zs @ ys)" "(\<lambda>q. removeAll a (ch q)) = ch(p := xs @ ys)" for zs
    by (auto simp: put_split)
  with ch show ?thesis by (rule that)
qed

lemma edit_ok_refines:
  assumes inv: "dom_inv h ch" and ok: "edit_ok ch (dom h) e"
  shows "wp (edit_heap h e) (\<lambda>h'. dom_inv h' (edit_tree ch e) \<and> data_of h' = (data_of h) |` (edit_live ch (dom h) e))"
proof -
  have rep: "dom_rep h ch" using inv by (simp add: dom_inv_def)
  have all: "data_of h |` (dom h) = data_of h" by (auto simp: data_of_def restrict_map_def fun_eq_iff)
  have above: "p \<notin> subtree ch node" "p \<noteq> node" if "to \<in> set (ch p)" "to \<notin> subtree ch node" for p to node
    using that by (auto simp: subtree_def child_rel_def intro: converse_rtrancl_into_rtrancl)
  show ?thesis
  proof (cases e)
    case (Insert_child to node)
    with ok have f: "to \<in> dom h" "detached h node" "to \<notin> subtree ch node" "node \<noteq> to"
      using detachedI [OF rep, of node] by (auto simp: fresh_child_def subtree_def)
    have "wp (edit_heap h e) (dom_to h (ch(to := ch to @ [node])))"
      using insert_child_rep [OF rep f(1,2,4) inv_irrefl [OF inv]] Insert_child by simp
    from insert_inv [OF inv this, of node] f(3) show ?thesis by (simp add: Insert_child all)
  next
    case (Insert_before to node)
    with ok obtain p where f: "detached h node" "to \<notin> subtree ch node" "to \<in> set (ch p)"
      using detachedI [OF rep, of node] by (auto simp: fresh_child_def)
    obtain xs ys where ch: "ch p = xs @ to # ys" "\<And>zs. (\<lambda>q. put zs to (ch q)) = ch(p := xs @ zs @ ys)"
      using split_child [OF rep f(3)] by metis
    have "wp (edit_heap h e) (dom_to h (ch(p := xs @ [node, to] @ ys)))"
      using insert_before_rep [OF rep ch(1) f(1) above(2) [OF f(3,2)] inv_irrefl [OF inv]] Insert_before by simp
    from insert_inv [OF inv this, of node] above(1) [OF f(3,2)] show ?thesis by (simp add: Insert_before all ch insert_commute)
  next
    case (Insert_after to node)
    with ok obtain p where f: "detached h node" "to \<notin> subtree ch node" "to \<in> set (ch p)"
      using detachedI [OF rep, of node] by (auto simp: fresh_child_def)
    obtain xs ys where ch: "ch p = xs @ to # ys" "\<And>zs. (\<lambda>q. put zs to (ch q)) = ch(p := xs @ zs @ ys)"
      using split_child [OF rep f(3)] by metis
    have "wp (edit_heap h e) (dom_to h (ch(p := xs @ [to, node] @ ys)))"
      using insert_after_rep [OF rep ch(1) f(1) above(2) [OF f(3,2)] inv_irrefl [OF inv]] Insert_after by simp
    from insert_inv [OF inv this, of node] above(1) [OF f(3,2)] show ?thesis by (simp add: Insert_after all ch insert_commute)
  next
    case (Remove node)
    have "child_rel (\<lambda>p. removeAll node (ch p)) \<subseteq> child_rel ch" by (auto simp: child_rel_def)
    then have wf: "wf (child_rel (\<lambda>p. removeAll node (ch p)))" using inv unfolding dom_inv_def by (blast intro: wf_subset)
    show ?thesis
    proof (cases "\<exists>p. node \<in> set (ch p)")
      case True
      then obtain p where "node \<in> set (ch p)" ..
      from split_child [OF rep this] obtain xs ys where ch: "ch p = xs @ node # ys" "(\<lambda>q. removeAll node (ch q)) = ch(p := xs @ ys)"
        by metis
      have "wp (edit_heap h e) (dom_to h (ch(p := xs @ ys)))"
        using remove_child_rep [OF rep ch(1) inv_irrefl [OF inv]] Remove by simp
      then show ?thesis
      proof (rule wp_mono)
        fix h'
        assume "dom_to h (ch(p := xs @ ys)) h'"
        then have h': "dom_rep h' (\<lambda>q. removeAll node (ch q))" "data_of h' = data_of h"
          unfolding ch(2) by (simp_all add: dom_to_def)
        moreover have "finite (dom h')" using data_of_dom [OF h'(2)] inv by (simp add: dom_inv_def)
        ultimately show "dom_inv h' (edit_tree ch e) \<and> data_of h' = data_of h |` edit_live ch (dom h) e"
          using wf by (simp add: Remove all dom_inv_def)
      qed
    next
      case False
      with ok Remove have "detached h node" using detachedI [OF rep] by auto
      moreover have "(\<lambda>p. removeAll node (ch p)) = ch" using False by auto
      ultimately show ?thesis using remove_detached [OF rep] Remove inv by (simp add: all)
    qed
  next
    case (Destroy_deep root)
    with ok obtain h' where h': "edit_heap h e = Some h'" "gone h ch (subtree ch root) h'"
      using destroy_deep_gone [OF inv] by auto
    moreover have "data_of h |` (- subtree ch root) = data_of h |` (dom h - subtree ch root)"
      by (auto simp: data_of_def restrict_map_def fun_eq_iff)
    ultimately show ?thesis using gone_inv [OF inv h'(2)] by (simp add: Destroy_deep gone_def)
  qed
qed

lemma edits_refine:
  assumes "dom_inv h ch" "edits_ok ch (dom h) es" "edits_tree ch (dom h) es = (ch', L')"
  shows "\<exists>h'. edits_heap h es = Some h' \<and> dom_inv h' ch' \<and> dom h' = L' \<and> data_of h' = (data_of h) |` L'"
  using assms
proof (induction es arbitrary: h ch)
  case (Cons e es)
  obtain h1 where h1: "edit_heap h e = Some h1" "dom_inv h1 (edit_tree ch e)" "data_of h1 = (data_of h) |` (edit_live ch (dom h) e)"
    using edit_ok_refines [OF Cons.prems(1)] Cons.prems(2) by (auto simp: wp_iff)
  have "dom h1 = dom (data_of h |` edit_live ch (dom h) e)" using h1(3) dom_data_of [of h1] by simp
  also have "\<dots> = edit_live ch (dom h) e" by (cases e) (auto simp: dom_data_of)
  finally have L: "dom h1 = edit_live ch (dom h) e" .
  with Cons.IH [OF h1(2)] Cons.prems(2,3) obtain h' where h': "edits_heap h1 es = Some h'" "dom_inv h' ch'" "dom h' = L'"
    "data_of h' = (data_of h1) |` L'" by auto
  moreover have "L' \<subseteq> dom h1" using h'(3,4) dom_data_of [of h'] dom_data_of [of h1] by auto
  then have "data_of h1 |` L' = data_of h |` L'" using h1(3) L by (auto simp: restrict_map_def fun_eq_iff)
  ultimately show ?case using h1(1) by auto
next
  case Nil
  moreover have "data_of h |` dom h = data_of h" by (auto simp: data_of_def restrict_map_def fun_eq_iff)
  ultimately show ?case by auto
qed

section \<open>Replacing all children\<close>

lemma preorder_cut:
  assumes "preorder ch as xs" "set xs \<inter> D = {}"
  shows "preorder (cut D ch) as xs"
  using assms
proof (induction rule: preorder.induct)
  case (Cons a xs as ys)
  have "set (ch a) \<subseteq> set xs" using preorder_set [OF Cons.hyps(1)] by auto
  then have "filter (\<lambda>b. b \<notin> D) (ch a) = ch a" using Cons.prems by (auto simp: filter_id_conv)
  then have "cut D ch a = ch a" using Cons.prems by (simp add: cut_def)
  then show ?case using Cons.IH Cons.prems by (intro preorder.Cons) auto
qed (rule preorder.Nil)

lemma gone_gone: "gone h ch D h1 \<Longrightarrow> gone h1 (cut D ch) E h2 \<Longrightarrow> gone h ch (E \<union> D) h2"
  by (auto simp: gone_def cut_cut Int_commute)

lemma replace_loop_gone:
  assumes "dom_inv h ch" "p \<in> dom h" "preorder ch (ch p) xs"
  shows "\<exists>h'. replace_loop h p = Some h' \<and> gone h ch (set xs) h'"
  using assms
proof (induction "ch p" arbitrary: h ch xs)
  case Nil
  then have "xs = []" by auto
  moreover obtain n where n: "h p = Some n" using Nil.prems(2) by auto
  moreover have rep: "dom_rep h ch" using Nil.prems(1) by (simp add: dom_inv_def)
  moreover have "nd_first_child n = None" using rep_kids(1) [OF rep n] Nil.hyps by simp
  moreover have "cut {} ch = ch" "data_of h |` (- {}) = data_of h" by (auto simp: cut_def restrict_map_def)
  ultimately show ?case by (simp add: replace_loop.simps gone_def)
next
  case (Cons f fs)
  from Cons.prems(1) have rep: "dom_rep h ch" and wf: "wf (child_rel ch)" by (simp_all add: dom_inv_def)
  from Cons.prems(3) obtain us vs where xs: "xs = f # us @ vs" and us: "preorder ch (ch f) us" and vs: "preorder ch fs vs"
    unfolding Cons.hyps(2) [symmetric] by (rule preorder_ConsE)
  obtain n where n: "h p = Some n" using Cons.prems(2) by auto
  have first: "nd_first_child n = Some f" using rep_kids(1) [OF rep n] Cons.hyps(2) [symmetric] by simp
  have "f \<in> dom h" using child_live(1) [OF rep, of f p] Cons.hyps(2) [symmetric] by simp
  then obtain h1 where h1: "lxb_dom_node_destroy_deep h (Some f) = Some h1" "gone h ch (insert f (set us)) h1"
    using destroy_deep_gone [OF Cons.prems(1), of f] subtree_preorder [OF us] by auto
  have dist: "distinct (f # us @ vs)" using preorder_distinct [OF Cons.prems(3) rep wf, of p "[]"] xs by simp
  have p: "p \<notin> set (f # us @ vs)" using not_below_itself(1) [OF wf Cons.prems(3)] xs by simp
  have "set fs \<subseteq> set vs" using preorder_set [OF vs] by auto
  then have "filter (\<lambda>b. b \<notin> insert f (set us)) fs = fs" using dist by (auto simp: filter_id_conv)
  then have fs: "fs = cut (insert f (set us)) ch p"
    using p unfolding cut_def Cons.hyps(2) [symmetric] by simp
  have "preorder (cut (insert f (set us)) ch) fs vs" using dist by (intro preorder_cut [OF vs]) auto
  then obtain h2 where h2: "replace_loop h1 p = Some h2" "gone h1 (cut (insert f (set us)) ch) (set vs) h2"
    using Cons.hyps(1) [OF fs gone_inv [OF Cons.prems(1) h1(2)]] gone_live [OF h1(2), of p] Cons.prems(2) p fs by auto
  have "set vs \<union> insert f (set us) = set xs" using xs by auto
  with gone_gone [OF h1(2) h2(2)] h1(1) h2(1) n first show ?case by (simp add: replace_loop.simps [of h])
qed

section \<open>Properties\<close>

text \<open>C12: Every sequence of insertions, removals and deep destructions of nodes that inserts only
  nodes without parent, and none below itself, runs without following a NULL or dangling
  pointer, ends, keeps the heap a forest whose links agree in both directions, does to the
  lists of children what the names of the operations say, frees exactly the nodes of the
  destroyed subtrees, and leaves the data of the others alone.\<close>

theorem dom_edits_refine:
  assumes "dom_inv h ch" "edits_ok ch (dom h) es" "edits_tree ch (dom h) es = (ch', L')"
  shows "\<exists>h'. edits_heap h es = Some h' \<and> dom_inv h' ch' \<and> dom h' = L' \<and> data_of h' = (data_of h) |` L'"
  using assms by (rule edits_refine)

definition leaf_node :: "lxb_dom_node_type \<Rightarrow> lxb_tag_id \<Rightarrow> lxb_dom_node" where
  "leaf_node ty tag = \<lparr> nd_next = None, nd_prev = None, nd_parent = None, nd_first_child = None, nd_last_child = None,
     nd_ns = LXB_NS_HTML, nd_tag_id = tag, nd_type = ty \<rparr>"

text \<open>A document, a paragraph and three texts.\<close>

definition ex_nodes :: dom_heap where
  "ex_nodes = [1 \<mapsto> leaf_node LXB_DOM_NODE_TYPE_DOCUMENT 3, 2 \<mapsto> leaf_node LXB_DOM_NODE_TYPE_ELEMENT 0x91,
     3 \<mapsto> leaf_node LXB_DOM_NODE_TYPE_TEXT LXB_TAG__TEXT, 4 \<mapsto> leaf_node LXB_DOM_NODE_TYPE_TEXT LXB_TAG__TEXT,
     5 \<mapsto> leaf_node LXB_DOM_NODE_TYPE_TEXT LXB_TAG__TEXT]"

lemma ex_nodes_inv: "dom_inv ex_nodes (\<lambda>_. [])" "dom ex_nodes = {1, 2, 3, 4, 5}"
  by (auto simp: dom_inv_def dom_rep_def child_rel_def kids_of_def up_of_def ex_nodes_def leaf_node_def split: if_splits)

lemma subtree_leaf: "ch a = [] \<Longrightarrow> subtree ch a = {a}"
  by (auto simp: subtree_def child_rel_def elim: converse_rtranclE rtranclE)

theorem dom_edits_refine_witness:
  "\<exists>h'. edits_heap ex_nodes [Insert_child 1 3, Insert_before 3 2, Insert_after 2 4, Remove 3, Insert_child 2 3, Destroy_deep 4] = Some h' \<and>
    dom_inv h' ((\<lambda>_. [])(1 := [2], 2 := [3])) \<and> dom h' = {1, 2, 3, 5}"
proof -
  let ?es = "[Insert_child 1 3, Insert_before 3 2, Insert_after 2 4, Remove 3, Insert_child 2 3, Destroy_deep 4]"
  have "edits_ok (\<lambda>_. []) (dom ex_nodes) ?es"
    by (auto simp: fresh_child_def subtree_leaf ex_nodes_inv(2) put_def)
  moreover have "edits_tree (\<lambda>_. []) (dom ex_nodes) ?es = ((\<lambda>_. [])(1 := [2], 2 := [3]), {1, 2, 3, 5})"
    by (auto simp: fun_eq_iff subtree_leaf ex_nodes_inv(2) put_def cut_def)
  ultimately show ?thesis using dom_edits_refine [OF ex_nodes_inv(1)] by blast
qed

text \<open>C13: The walk over a node ends, visits the nodes below it in document order, each exactly once
  and no other, and stops early only when the callback asks for it.\<close>

theorem simple_walk_in_order:
  assumes "dom_inv h ch" "root \<in> dom h"
  shows "\<exists>xs. preorder ch (ch root) xs \<and> distinct xs \<and> set xs = {b. (b, root) \<in> (child_rel ch)\<^sup>+} \<and>
    (\<forall>cb c. lxb_dom_node_simple_walk h root cb c = map_option fst (walk_list cb xs c))"
proof -
  from assms(1) have rep: "dom_rep h ch" and wf: "wf (child_rel ch)" by (simp_all add: dom_inv_def)
  obtain xs where xs: "preorder ch (ch root) xs" using preorder_ex [OF wf] by blast
  then show ?thesis
    using preorder_distinct [OF xs rep wf, of root "[]"] below_set [OF xs] simple_walk_preorder [OF assms xs] by auto
qed

definition ex_tree :: dom_heap where
  "ex_tree = the (edits_heap ex_nodes [Insert_child 1 2, Insert_child 2 3, Insert_child 1 4])"

definition ex_children :: "addr \<Rightarrow> addr list" where
  "ex_children = (\<lambda>_. [])(1 := [2, 4], 2 := [3])"

lemma ex_tree_inv: "dom_inv ex_tree ex_children" "dom ex_tree = {1, 2, 3, 4, 5}" "data_of ex_tree = data_of ex_nodes"
proof -
  let ?es = "[Insert_child 1 2, Insert_child 2 3, Insert_child 1 4]"
  have "edits_ok (\<lambda>_. []) (dom ex_nodes) ?es"
    by (auto simp: fresh_child_def subtree_leaf ex_nodes_inv(2))
  moreover have "edits_tree (\<lambda>_. []) (dom ex_nodes) ?es = (ex_children, {1, 2, 3, 4, 5})"
    by (auto simp: fun_eq_iff ex_nodes_inv(2) ex_children_def)
  ultimately obtain h where "edits_heap ex_nodes ?es = Some h" "dom_inv h ex_children" "dom h = {1, 2, 3, 4, 5}"
    "data_of h = data_of ex_nodes |` {1, 2, 3, 4, 5}"
    using edits_refine [OF ex_nodes_inv(1)] by blast
  moreover have "data_of ex_nodes |` {1, 2, 3, 4, 5} = data_of ex_nodes"
    by (auto simp: data_of_def ex_nodes_def restrict_map_def fun_eq_iff)
  ultimately show "dom_inv ex_tree ex_children" "dom ex_tree = {1, 2, 3, 4, 5}" "data_of ex_tree = data_of ex_nodes"
    by (simp_all add: ex_tree_def)
qed

lemma ex_tree_preorder: "preorder ex_children (ex_children 1) [2, 3, 4]"
proof -
  have leaf: "preorder ex_children [a] [a]" if "ex_children a = []" for a
    using preorder.Cons [of ex_children a "[]" "[]" "[]"] that preorder.Nil by simp
  then have "preorder ex_children [3] [3]" "preorder ex_children [4] [4]" by (simp_all add: ex_children_def)
  then have "preorder ex_children (2 # [4]) (2 # [3] @ [4])"
    by (intro preorder.Cons) (simp_all add: ex_children_def)
  then show ?thesis by (simp add: ex_children_def)
qed

theorem simple_walk_in_order_witness:
  "lxb_dom_node_simple_walk ex_tree 1 (\<lambda>a c. Some (c @ [a], LEXBOR_ACTION_NEXT)) [] = Some [2, 3, 4]"
proof -
  obtain xs where "preorder ex_children (ex_children 1) xs"
    "\<forall>(cb :: addr list walker) c. lxb_dom_node_simple_walk ex_tree 1 cb c = map_option fst (walk_list cb xs c)"
    using simple_walk_in_order [OF ex_tree_inv(1), of 1] unfolding ex_tree_inv(2) by blast
  moreover from this have "xs = [2, 3, 4]" using preorder_fun [OF ex_tree_preorder] by blast
  ultimately show ?thesis by simp
qed

text \<open>Replacing all children of a node by a new node ends, destroys everything below it, leaves
  exactly the new node as its child, and keeps the rest of the forest.\<close>

theorem replace_all_children:
  assumes "dom_inv h ch" "fresh_child ch (dom h) parent node"
  shows "\<exists>h'. lxb_dom_node_replace_all h parent node = Some (h', LXB_STATUS_OK) \<and>
    dom_inv h' ((cut {b. (b, parent) \<in> (child_rel ch)\<^sup>+} ch)(parent := [node])) \<and>
    dom h' = dom h - {b. (b, parent) \<in> (child_rel ch)\<^sup>+}"
proof -
  let ?B = "{b. (b, parent) \<in> (child_rel ch)\<^sup>+}"
  from assms(1) have rep: "dom_rep h ch" and wf: "wf (child_rel ch)" by (simp_all add: dom_inv_def)
  obtain xs where xs: "preorder ch (ch parent) xs" using preorder_ex [OF wf] by blast
  have f: "parent \<in> dom h" "node \<in> dom h" "\<And>p. node \<notin> set (ch p)" "parent \<notin> subtree ch node"
    using assms(2) by (auto simp: fresh_child_def)
  obtain h1 where h1: "replace_loop h parent = Some h1" "gone h ch ?B h1"
    using replace_loop_gone [OF assms(1) f(1) xs] below_set [OF xs] by auto
  have inv: "dom_inv h1 (cut ?B ch)" using gone_inv [OF assms(1) h1(2)] .
  have dom: "dom h1 = dom h - ?B" using gone_live [OF h1(2)] by auto
  have "node \<notin> ?B" using f(3) by (auto simp: child_rel_def elim: converse_tranclE tranclE)
  moreover have "parent \<notin> ?B" using wf_not_refl [OF wf_trancl [OF wf], of parent] by simp
  moreover have "subtree (cut ?B ch) node \<subseteq> subtree ch node"
    using rtrancl_mono [OF child_rel_cut] by (auto simp: subtree_def)
  ultimately have "fresh_child (cut ?B ch) (dom h1) parent node"
    using f dom by (auto simp: fresh_child_def cut_def)
  then have "wp (edit_heap h1 (Insert_child parent node)) (\<lambda>h'. dom_inv h' (edit_tree (cut ?B ch) (Insert_child parent node)) \<and>
      data_of h' = (data_of h1) |` (dom h1))"
    using edit_ok_refines [OF inv, of "Insert_child parent node"] by simp
  moreover have "cut ?B ch parent = []" using below_set [OF xs] preorder_set [OF xs] by (auto simp: cut_def filter_empty_conv)
  ultimately show ?thesis
    using h1(1) dom by (auto simp: wp_iff lxb_dom_node_replace_all_def dom_data_of [symmetric])
qed

theorem replace_all_children_witness:
  "\<exists>h'. lxb_dom_node_replace_all ex_tree 1 5 = Some (h', LXB_STATUS_OK) \<and> dom h' = {1, 5}"
proof -
  have "fresh_child ex_children (dom ex_tree) 1 5"
    by (auto simp: fresh_child_def ex_tree_inv(2) subtree_leaf ex_children_def split: if_splits)
  from replace_all_children [OF ex_tree_inv(1) this]
  show ?thesis unfolding below_set [OF ex_tree_preorder, symmetric] ex_tree_inv(2) by auto
qed

lemma ex_tree_data:
  "\<exists>n. ex_tree 2 = Some n \<and> nd_ns n = LXB_NS_HTML \<and> nd_tag_id n = 0x91 \<and> nd_type n = LXB_DOM_NODE_TYPE_ELEMENT"
  "a \<in> {3, 4} \<Longrightarrow> \<exists>n. ex_tree a = Some n \<and> nd_ns n = LXB_NS_HTML \<and> nd_type n = LXB_DOM_NODE_TYPE_TEXT"
proof -
  have "data_of ex_tree a = data_of ex_nodes a" for a by (simp add: ex_tree_inv(3))
  from this [of 2] show "\<exists>n. ex_tree 2 = Some n \<and> nd_ns n = LXB_NS_HTML \<and> nd_tag_id n = 0x91 \<and> nd_type n = LXB_DOM_NODE_TYPE_ELEMENT"
    by (cases "ex_tree 2") (auto simp: data_of_def ex_nodes_def leaf_node_def)
  from \<open>data_of ex_tree a = data_of ex_nodes a\<close>
  show "a \<in> {3, 4} \<Longrightarrow> \<exists>n. ex_tree a = Some n \<and> nd_ns n = LXB_NS_HTML \<and> nd_type n = LXB_DOM_NODE_TYPE_TEXT"
    by (cases "ex_tree a") (auto simp: data_of_def ex_nodes_def leaf_node_def)
qed

end
