(* ===== verification/Dom_Attr.thy ===== *)
theory Dom_Attr
  imports Dom_Element Dom_Spec Lxb_Str_Spec
begin

text \<open>
  The attributes of an element as a list: the links of the attributes agree with it, finding is
  finding in the list, appending and removing change it at the end or at the place of the attribute.
\<close>

section \<open>The attribute list\<close>

definition at_up :: "(addr \<rightharpoonup> lxb_dom_attr) \<Rightarrow> addr \<Rightarrow> (unit \<times> addr option \<times> addr option) option" where
  "at_up at x = map_option (\<lambda>r. ((), at_prev r, at_next r)) (at x)"

lemma at_up_upd [simp]: "at_up (at(x \<mapsto> r)) = (at_up at)(x \<mapsto> ((), at_prev r, at_next r))"
  by (auto simp: at_up_def)

lemma at_up_live: "at x = Some r \<Longrightarrow> at_up at x = Some ((), at_prev r, at_next r)"
  by (simp add: at_up_def)

text \<open>The attributes of the element \<open>el\<close> are \<open>xs\<close>; all of them have been named.\<close>

definition attr_rep :: "lxb_dom_document \<Rightarrow> addr \<Rightarrow> addr list \<Rightarrow> bool" where
  "attr_rep d el xs \<longleftrightarrow> (\<exists>e. elements d el = Some e \<and> el_first_attr e = hdo xs None \<and> el_last_attr e = lasto None xs) \<and>
     distinct xs \<and> dll (at_up (attrs d)) () None xs None \<and>
     (\<forall>x \<in> set xs. \<exists>r nm. attrs d x = Some r \<and> at_name r = Some nm \<and> at_local_name r \<noteq> None)"

lemma attr_repE:
  assumes "attr_rep d el xs"
  obtains e where "elements d el = Some e" "el_first_attr e = hdo xs None" "el_last_attr e = lasto None xs"
    "distinct xs" "dll (at_up (attrs d)) () None xs None"
    "\<forall>x \<in> set xs. \<exists>r nm. attrs d x = Some r \<and> at_name r = Some nm \<and> at_local_name r \<noteq> None"
  using assms by (auto simp: attr_rep_def)

text \<open>The loop finds the first attribute of the list that the comparison accepts.\<close>

lemma attr_find_list:
  assumes "dll (at_up at) () p xs None" "\<And>x. x \<in> set xs \<Longrightarrow> \<exists>r. at x = Some r \<and> eq r = Some (P x)"
  shows "attr_find eq at (hdo xs None) = Some (find P xs)"
  using assms
proof (induction xs arbitrary: p)
  case Nil
  then show ?case by (simp add: attr_find.simps)
next
  case (Cons x xs)
  obtain r where r: "at x = Some r" "eq r = Some (P x)" using Cons.prems(2) [of x] by auto
  then have "at_next r = hdo xs None" using Cons.prems(1) by (simp add: at_up_live)
  with r Cons.IH [of "Some x"] Cons.prems show ?case
    by (subst attr_find.simps) simp
qed

text \<open>The bytes of a name, and equality of names as an HTML document has it.\<close>

definition name_of :: "lxb_dom_document \<Rightarrow> addr \<Rightarrow> lxb_char list" where
  "name_of d x = (case attrs d x of None \<Rightarrow> [] | Some r \<Rightarrow> (case at_name r of None \<Rightarrow> [] | Some nm \<Rightarrow> nm))"

definition same_name :: "bool \<Rightarrow> lxb_char list \<Rightarrow> lxb_char list \<Rightarrow> bool" where
  "same_name ci s t \<longleftrightarrow> (if ci then map lowercase s = map lowercase t else s = t)"

lemma map_lowercase_length: "map lowercase s = map lowercase t \<Longrightarrow> length s = length t"
  using map_eq_imp_length_eq by blast

lemma attr_by_name_find:
  assumes "attr_rep d el xs" "nodes d el = Some n"
  shows "lxb_dom_element_attr_by_name d el nm =
    Some (find (\<lambda>x. same_name (nd_ns n = LXB_NS_HTML \<and> html d) nm (name_of d x)) xs)"
proof -
  obtain e where e: "elements d el = Some e" "el_first_attr e = hdo xs None" "dll (at_up (attrs d)) () None xs None"
    "\<forall>x \<in> set xs. \<exists>r nm. attrs d x = Some r \<and> at_name r = Some nm \<and> at_local_name r \<noteq> None"
    using assms(1) by (rule attr_repE)
  show ?thesis
    unfolding lxb_dom_element_attr_by_name_def Let_def
    using e(1,2) assms(2) by (auto intro!: attr_find_list [OF e(3)] dest!: bspec [OF e(4)]
        simp: name_of_def same_name_def ncasecmp_eq lexbor_str_data_ncmp_def dest: map_lowercase_length)
qed

lemma attr_exist_find:
  assumes "attr_rep d el xs"
  shows "lxb_dom_element_attr_is_exist d el nm =
    Some (find (\<lambda>x. same_name True (the (at_local_name (the (attrs d x)))) nm) xs)"
proof -
  obtain e where e: "elements d el = Some e" "el_first_attr e = hdo xs None" "dll (at_up (attrs d)) () None xs None"
    "\<forall>x \<in> set xs. \<exists>r nm. attrs d x = Some r \<and> at_name r = Some nm \<and> at_local_name r \<noteq> None"
    using assms(1) by (rule attr_repE)
  show ?thesis
    unfolding lxb_dom_element_attr_is_exist_def Let_def
    using e(1,2) by (auto intro!: attr_find_list [OF e(3)] dest!: bspec [OF e(4)]
        simp: same_name_def ncasecmp_eq dest: map_lowercase_length)
qed

section \<open>Appending and removing\<close>

text \<open>What an attribute says, and a document in which every attribute says the same.\<close>

definition at_data :: "lxb_dom_document \<Rightarrow> addr \<Rightarrow> (lexbor_str \<times> lexbor_str \<times> lexbor_str option) option" where
  "at_data d y = map_option (\<lambda>r. (at_name r, at_local_name r, at_value r)) (attrs d y)"

definition same_data :: "lxb_dom_document \<Rightarrow> lxb_dom_document \<Rightarrow> bool" where
  "same_data d d' \<longleftrightarrow> nodes d' = nodes d \<and> html d' = html d \<and> at_data d' = at_data d"

lemma attr_append_rep:
  assumes "attr_rep d el xs" "x \<notin> set xs" "attrs d x = Some r" "at_name r = Some nm" "at_local_name r \<noteq> None"
    "at_next r = None" "at_prev r = None"
  shows "wp (lxb_dom_element_attr_append d el x) (\<lambda>(d', st). st = LXB_STATUS_OK \<and> attr_rep d' el (xs @ [x]) \<and> same_data d d')"
proof -
  obtain e where e: "elements d el = Some e" "el_first_attr e = hdo xs None" "el_last_attr e = lasto None xs"
    "distinct xs" "dll (at_up (attrs d)) () None xs None"
    "\<forall>y \<in> set xs. \<exists>r nm. attrs d y = Some r \<and> at_name r = Some nm \<and> at_local_name r \<noteq> None"
    using assms(1) by (rule attr_repE)
  show ?thesis
  proof (cases xs rule: rev_cases)
    case Nil
    with e assms show ?thesis
      by (auto simp: lxb_dom_element_attr_append_def attr_rep_def lexbor_str_data_ncmp_def at_up_live same_data_def at_data_def)
  next
    case (snoc ys l)
    then obtain q where "attrs d l = Some q" using e(6) by auto
    with snoc e assms show ?thesis
      by (cases ys) (auto simp: lxb_dom_element_attr_append_def attr_rep_def lexbor_str_data_ncmp_def at_up_live same_data_def at_data_def)
  qed
qed

lemma attr_remove_rep:
  assumes "attr_rep d el (xs @ x # ys)"
  shows "wp (lxb_dom_element_attr_remove d el x) (\<lambda>(d', st). st = LXB_STATUS_OK \<and> attr_rep d' el (xs @ ys) \<and> same_data d d')"
proof -
  obtain e where e: "elements d el = Some e" "el_first_attr e = hdo (xs @ x # ys) None" "el_last_attr e = lasto None (xs @ x # ys)"
    "distinct (xs @ x # ys)" "dll (at_up (attrs d)) () None (xs @ x # ys) None"
    "\<forall>y \<in> set (xs @ x # ys). \<exists>r nm. attrs d y = Some r \<and> at_name r = Some nm \<and> at_local_name r \<noteq> None"
    using assms(1) by (rule attr_repE)
  obtain r where r: "attrs d x = Some r" using e(6) by auto
  with e(5) have links: "at_prev r = lasto None xs" "at_next r = hdo ys None" by (simp_all add: at_up_live)
  show ?thesis
  proof (cases xs rule: rev_cases; cases ys)
    assume "xs = []" "ys = []"
    with e r links show ?thesis
      by (auto simp: lxb_dom_element_attr_remove_def attr_rep_def same_data_def at_data_def fun_eq_iff)
  next
    fix zs l assume xs: "xs = zs @ [l]" and "ys = []"
    then obtain q where "attrs d l = Some q" using e(6) by auto
    with xs \<open>ys = []\<close> e r links show ?thesis
      by (auto simp: lxb_dom_element_attr_remove_def attr_rep_def same_data_def at_data_def fun_eq_iff at_up_live)
  next
    fix l zs assume ys: "ys = l # zs" and "xs = []"
    then obtain q where "attrs d l = Some q" using e(6) by auto
    with ys \<open>xs = []\<close> e r links show ?thesis
      by (auto simp: lxb_dom_element_attr_remove_def attr_rep_def same_data_def at_data_def fun_eq_iff at_up_live)
  next
    fix zs l k us assume xs: "xs = zs @ [l]" and ys: "ys = k # us"
    then obtain q p where "attrs d l = Some q" "attrs d k = Some p" using e(6) by auto
    with xs ys e r links show ?thesis
      by (auto simp: lxb_dom_element_attr_remove_def attr_rep_def same_data_def at_data_def fun_eq_iff at_up_live)
  qed
qed

lemma same_data_name: "same_data d d' \<Longrightarrow> name_of d' x = name_of d x"
proof -
  assume "same_data d d'"
  then have "at_data d' x = at_data d x" by (simp add: same_data_def)
  then show ?thesis by (cases "attrs d x"; cases "attrs d' x") (simp_all add: at_data_def name_of_def)
qed

section \<open>Reading after writing\<close>

definition value_of :: "lxb_dom_document \<Rightarrow> addr \<Rightarrow> lexbor_str" where
  "value_of d x = (case attrs d x of None \<Rightarrow> None | Some r \<Rightarrow> lxb_dom_attr_value r)"

definition lookup :: "lxb_dom_document \<Rightarrow> bool \<Rightarrow> addr list \<Rightarrow> lxb_char list \<Rightarrow> lexbor_str" where
  "lookup d ci xs nm = (case find (\<lambda>x. same_name ci nm (name_of d x)) xs of None \<Rightarrow> None | Some x \<Rightarrow> value_of d x)"

lemma get_attribute_lookup:
  assumes "attr_rep d el xs" "nodes d el = Some n"
  shows "lxb_dom_element_get_attribute d el nm = Some (lookup d (nd_ns n = LXB_NS_HTML \<and> html d) xs nm)"
proof -
  have live: "\<exists>r. attrs d x = Some r" if "find P xs = Some x" for P x
    using that assms(1) by (auto simp: attr_rep_def find_Some_iff)
  show ?thesis
    by (auto simp: lxb_dom_element_get_attribute_def attr_by_name_find [OF assms] lookup_def value_of_def
        split: option.splits dest!: live)
qed

text \<open>Attributes without a prefix: the name is the local name.\<close>

definition plain_attrs :: "lxb_dom_document \<Rightarrow> addr list \<Rightarrow> bool" where
  "plain_attrs d xs \<longleftrightarrow> (\<forall>x \<in> set xs. \<forall>r. attrs d x = Some r \<longrightarrow> at_local_name r = at_name r)"

lemma same_data_value: "same_data d d' \<Longrightarrow> value_of d' x = value_of d x"
proof -
  assume "same_data d d'"
  then have "at_data d' x = at_data d x" by (simp add: same_data_def)
  then show ?thesis
    by (cases "attrs d x"; cases "attrs d' x") (simp_all add: at_data_def value_of_def lxb_dom_attr_value_def)
qed

lemma lookup_same: "same_data d d' \<Longrightarrow> lookup d' ci xs nm = lookup d ci xs nm"
  by (simp add: lookup_def same_data_name same_data_value cong: option.case_cong)

lemma plain_same: "same_data d d' \<Longrightarrow> plain_attrs d' xs = plain_attrs d xs"
proof -
  assume "same_data d d'"
  then have eq: "at_data d' x = at_data d x" for x by (simp add: same_data_def)
  have "(\<forall>r. attrs d' x = Some r \<longrightarrow> at_local_name r = at_name r) \<longleftrightarrow> (\<forall>r. attrs d x = Some r \<longrightarrow> at_local_name r = at_name r)" for x
    using eq [of x] by (cases "attrs d x"; cases "attrs d' x") (auto simp: at_data_def)
  then show ?thesis by (simp add: plain_attrs_def)
qed

text \<open>With plain attributes, the search by local name and the search by name agree.\<close>

lemma attr_exist_plain:
  assumes "attr_rep d el xs" "plain_attrs d xs"
  shows "lxb_dom_element_attr_is_exist d el nm = Some (find (\<lambda>x. same_name True nm (name_of d x)) xs)"
proof -
  have "find (\<lambda>x. same_name True (the (at_local_name (the (attrs d x)))) nm) xs = find (\<lambda>x. same_name True nm (name_of d x)) xs"
    using assms by (intro find_cong) (auto simp: attr_rep_def plain_attrs_def name_of_def same_name_def)
  then show ?thesis by (simp add: attr_exist_find [OF assms(1)])
qed

lemma lowercase_map_idem: "map lowercase (map lowercase s) = map lowercase s"
  by (simp add: lowercase_idem)

lemma find_SomeD: "find P xs = Some x \<Longrightarrow> P x" "find P xs = Some x \<Longrightarrow> x \<in> set xs"
  by (auto simp: find_Some_iff)

lemma find_append: "find P (xs @ ys) = (case find P xs of None \<Rightarrow> find P ys | Some x \<Rightarrow> Some x)"
  by (induction xs) auto

text \<open>A changed value of an attribute that is not the one looked for.\<close>

lemma set_value_rep:
  assumes "attr_rep d el xs" "x \<in> set xs" "attrs d x = Some r"
  shows "attr_rep (d\<lparr> attrs := (attrs d)(x \<mapsto> r\<lparr> at_value := w \<rparr>) \<rparr>) el xs"
    "name_of (d\<lparr> attrs := (attrs d)(x \<mapsto> r\<lparr> at_value := w \<rparr>) \<rparr>) = name_of d"
    "plain_attrs (d\<lparr> attrs := (attrs d)(x \<mapsto> r\<lparr> at_value := w \<rparr>) \<rparr>) xs = plain_attrs d xs"
proof -
  have "(at_up (attrs d))(x \<mapsto> ((), at_prev r, at_next r)) = at_up (attrs d)"
    using assms(3) by (simp add: fun_upd_idem at_up_live)
  then show "attr_rep (d\<lparr> attrs := (attrs d)(x \<mapsto> r\<lparr> at_value := w \<rparr>) \<rparr>) el xs"
    using assms by (auto simp: attr_rep_def)
  show "name_of (d\<lparr> attrs := (attrs d)(x \<mapsto> r\<lparr> at_value := w \<rparr>) \<rparr>) = name_of d"
    using assms(3) by (auto simp: name_of_def)
  show "plain_attrs (d\<lparr> attrs := (attrs d)(x \<mapsto> r\<lparr> at_value := w \<rparr>) \<rparr>) xs = plain_attrs d xs"
    using assms(3) by (auto simp: plain_attrs_def)
qed

text \<open>What setting an attribute of an HTML element may do: the element's attributes are well linked as
  before, no attribute of another name has changed, and on success the attribute can be read.\<close>

definition set_post :: "lxb_dom_document \<Rightarrow> addr \<Rightarrow> addr list \<Rightarrow> lxb_char list \<Rightarrow> lxb_char list \<Rightarrow> lxb_dom_document \<times> addr option \<Rightarrow> bool" where
  "set_post d el xs nm v r \<longleftrightarrow> (case r of (d', res) \<Rightarrow> \<exists>ys. attr_rep d' el ys \<and> plain_attrs d' ys \<and> nodes d' = nodes d \<and> html d' = html d \<and>
     (\<forall>m. map lowercase m \<noteq> map lowercase nm \<longrightarrow> lookup d' True ys m = lookup d True xs m) \<and>
     (res \<noteq> None \<longrightarrow> lookup d' True ys nm = Some v))"

lemma attr_set_value_form:
  "\<exists>w st. lxb_dom_attr_set_value o1 o2 a v = (a\<lparr> at_value := w \<rparr>, st) \<and> (st = LXB_STATUS_OK \<longrightarrow> w = Some (Some v))"
proof (cases "at_value a = None \<and> \<not> o1")
  case True
  then have "lxb_dom_attr_set_value o1 o2 a v = (a\<lparr> at_value := at_value a \<rparr>, LXB_STATUS_ERROR_MEMORY_ALLOCATION)"
    by (simp add: lxb_dom_attr_set_value_def)
  then show ?thesis by blast
next
  case False
  then show ?thesis by (auto simp: lxb_dom_attr_set_value_def Let_def)
qed

lemma set_existing:
  assumes "attr_rep d el xs" "plain_attrs d xs" "find (\<lambda>x. same_name True nm (name_of d x)) xs = Some x"
  shows "wp (lxb_dom_element_set_attribute nd oks d el nm v) (set_post d el xs nm v)"
proof -
  from assms(3) have x: "x \<in> set xs" "same_name True nm (name_of d x)" by (auto simp: find_Some_iff)
  then obtain r where r: "attrs d x = Some r" using assms(1) by (auto simp: attr_rep_def)
  obtain ol on oo od where oks: "oks = (ol, on, oo, od)" by (metis prod_cases4)
  obtain w st where w: "lxb_dom_attr_set_value oo od r v = (r\<lparr> at_value := w \<rparr>, st)" "st = LXB_STATUS_OK \<longrightarrow> w = Some (Some v)"
    using attr_set_value_form by blast
  let ?d = "d\<lparr> attrs := (attrs d)(x \<mapsto> r\<lparr> at_value := w \<rparr>) \<rparr>"
  note rep = set_value_rep [OF assms(1) x(1) r, of w]
  have val: "value_of ?d y = (if y = x then (case w of None \<Rightarrow> None | Some u \<Rightarrow> u) else value_of d y)" for y
    by (auto simp: value_of_def lxb_dom_attr_value_def)
  have "lookup ?d True xs m = lookup d True xs m" if "map lowercase m \<noteq> map lowercase nm" for m
  proof (cases "find (\<lambda>y. same_name True m (name_of d y)) xs")
    case (Some y)
    then have "y \<noteq> x" using find_SomeD(1) [OF Some] that x(2) by (auto simp: same_name_def)
    with Some show ?thesis by (simp add: lookup_def rep(2) val)
  qed (simp add: lookup_def rep(2))
  moreover have "lookup ?d True xs nm = (case w of None \<Rightarrow> None | Some u \<Rightarrow> u)"
    using assms(3) by (simp add: lookup_def rep(2) val)
  ultimately have "set_post d el xs nm v (?d, if st \<noteq> LXB_STATUS_OK then None else Some x)"
    using rep(1,3) assms(2) w(2) by (auto simp: set_post_def)
  then show ?thesis
    using r w(1) by (simp add: lxb_dom_element_set_attribute_def oks attr_exist_plain [OF assms(1,2)] assms(3))
qed

lemma set_new:
  assumes "attr_rep d el xs" "plain_attrs d xs" "find (\<lambda>x. same_name True nm (name_of d x)) xs = None"
    and "nodes d el = Some n" "nd_ns n = LXB_NS_HTML" "html d" "\<And>x. nd = Some x \<Longrightarrow> attrs d x = None"
  shows "wp (lxb_dom_element_set_attribute nd oks d el nm v) (set_post d el xs nm v)"
proof -
  obtain ol on oo od where oks: "oks = (ol, on, oo, od)" by (metis prod_cases4)
  have same: "set_post d el xs nm v (d, None)" using assms(1,2) by (auto simp: set_post_def)
  show ?thesis
  proof (cases nd)
    case None
    with same show ?thesis
      by (simp add: lxb_dom_element_set_attribute_def oks attr_exist_plain [OF assms(1,2)] assms(3))
  next
    case (Some x)
    then have fresh: "attrs d x = None" "x \<notin> set xs" using assms(7) assms(1) by (auto simp: attr_rep_def)
    then have undo: "d\<lparr> attrs := (attrs d)(x := None) \<rparr> = d" by (simp add: fun_upd_idem)
    let ?a = "new_attr\<lparr> at_local_name := Some (map lowercase nm), at_name := Some (map lowercase nm), at_prefix_len := 0 \<rparr>"
    obtain w st where w: "lxb_dom_attr_set_value oo od ?a v = (?a\<lparr> at_value := w \<rparr>, st)" "st = LXB_STATUS_OK \<longrightarrow> w = Some (Some v)"
      using attr_set_value_form by blast
    let ?d = "d\<lparr> attrs := (attrs d)(x \<mapsto> ?a\<lparr> at_value := w \<rparr>) \<rparr>"
    have views: "name_of ?d = (name_of d)(x := map lowercase nm)"
      "value_of ?d y = (if y = x then (case w of None \<Rightarrow> None | Some u \<Rightarrow> u) else value_of d y)" for y
      by (auto simp: name_of_def value_of_def lxb_dom_attr_value_def)
    have "attr_rep ?d el xs" using assms(1) fresh(2) by (auto simp: attr_rep_def)
    then have app: "wp (lxb_dom_element_attr_append ?d el x) (\<lambda>(d', st). st = LXB_STATUS_OK \<and> attr_rep d' el (xs @ [x]) \<and> same_data ?d d')"
      using fresh(2) by (intro attr_append_rep) (auto simp: new_attr_def)
    have find: "find (\<lambda>y. same_name True m (name_of ?d y)) xs = find (\<lambda>y. same_name True m (name_of d y)) xs" for m
      using fresh(2) by (intro find_cong) (auto simp: views(1))
    have xs: "value_of ?d y = value_of d y" if "find P xs = Some y" for P y
      using that fresh(2) by (auto simp: views(2) find_Some_iff)
    have new: "same_name True m (name_of ?d x) \<longleftrightarrow> map lowercase m = map lowercase nm" for m
      by (simp add: views(1) same_name_def lowercase_map_idem del: map_map)
    have "lookup ?d True (xs @ [x]) m = lookup d True xs m" if "map lowercase m \<noteq> map lowercase nm" for m
      using that new [of m] unfolding lookup_def find_append find by (cases "find (\<lambda>y. same_name True m (name_of d y)) xs") (simp_all add: xs)
    moreover have "lookup ?d True (xs @ [x]) nm = Some v" if "st = LXB_STATUS_OK"
      using that w(2) new [of nm] unfolding lookup_def find_append find assms(3)
      by (simp add: value_of_def lxb_dom_attr_value_def)
    moreover have "plain_attrs ?d (xs @ [x])" using assms(2) fresh(2) by (auto simp: plain_attrs_def)
    ultimately have post: "set_post d el xs nm v (d', Some x)"
      if "st = LXB_STATUS_OK" "attr_rep d' el (xs @ [x])" "same_data ?d d'" for d'
      using that lookup_same [OF that(3)] plain_same [OF that(3)] by (auto simp: set_post_def same_data_def)
    show ?thesis
    proof (cases "ol \<and> on \<and> st = LXB_STATUS_OK")
      case True
      then have st: "st = LXB_STATUS_OK" by simp
      have "wp (lxb_dom_element_attr_append ?d el x \<bind> (\<lambda>(d', _). Some (d', Some x))) (set_post d el xs nm v)"
        unfolding wp_bind by (rule wp_mono [OF app]) (auto intro!: post [OF st])
      with True w(1) Some assms(4-6) show ?thesis
        by (simp add: lxb_dom_element_set_attribute_def oks attr_exist_plain [OF assms(1,2)] assms(3)
            lxb_dom_attr_set_name_def lxb_dom_attr_set_name_wo_copy_def Let_def)
    next
      case False
      with w(1) Some assms(4-6) same undo show ?thesis
        by (auto simp: lxb_dom_element_set_attribute_def oks attr_exist_plain [OF assms(1,2)] assms(3)
            lxb_dom_attr_set_name_def lxb_dom_attr_set_name_wo_copy_def Let_def)
    qed
  qed
qed

section \<open>An example\<close>

text \<open>The paragraph of the example tree has the attributes \<open>property\<close> and \<open>content\<close>, and the texts have bytes.\<close>

definition ex_attr :: "lxb_char list \<Rightarrow> lxb_char list \<Rightarrow> lxb_dom_attr" where
  "ex_attr nm v = new_attr\<lparr> at_name := Some nm, at_local_name := Some nm, at_value := Some (Some v) \<rparr>"

definition ex_doc :: lxb_dom_document where
  "ex_doc = \<lparr> nodes = ex_tree,
     elements = [2 \<mapsto> \<lparr> el_qualified_name = None, el_first_attr = Some 10, el_last_attr = Some 11, el_attr_id = None, el_attr_class = None \<rparr>],
     attrs = [10 \<mapsto> (ex_attr [0x70, 0x72, 0x6F, 0x70, 0x65, 0x72, 0x74, 0x79] [0x74])\<lparr> at_next := Some 11 \<rparr>,
       11 \<mapsto> (ex_attr [0x63, 0x6F, 0x6E, 0x74, 0x65, 0x6E, 0x74] [0x76])\<lparr> at_prev := Some 10 \<rparr>],
     texts = [3 \<mapsto> Some [0x68, 0x69], 4 \<mapsto> Some [0x21], 5 \<mapsto> None], html = True, quirks = False \<rparr>"

lemma ex_doc_simps [simp]: "nodes ex_doc = ex_tree" "html ex_doc" "\<not> quirks ex_doc"
  by (simp_all add: ex_doc_def)

lemma ex_doc_attrs: "attr_rep ex_doc 2 [10, 11]" "plain_attrs ex_doc [10, 11]" "attrs ex_doc 12 = None"
  by (simp_all add: attr_rep_def plain_attrs_def ex_doc_def at_up_def ex_attr_def new_attr_def)

section \<open>Properties\<close>

text \<open>C33: Setting an attribute of an HTML element whose attributes have no prefix runs without undefined
  behaviour, whichever allocations fail; it keeps the attributes well linked, changes no
  attribute of another name (up to case), and when it succeeds, reading the attribute under
  this name, in any case, returns the value.\<close>

theorem attribute_set_get:
  assumes "attr_rep d el xs" "plain_attrs d xs" "nodes d el = Some n" "nd_ns n = LXB_NS_HTML" "html d"
    and "\<And>x. nd = Some x \<Longrightarrow> attrs d x = None"
  shows "\<exists>d' res ys. lxb_dom_element_set_attribute nd oks d el nm v = Some (d', res) \<and> attr_rep d' el ys \<and> plain_attrs d' ys \<and>
    (\<forall>m. map lowercase m \<noteq> map lowercase nm \<longrightarrow>
       lxb_dom_element_get_attribute d' el m = lxb_dom_element_get_attribute d el m) \<and>
    (res \<noteq> None \<longrightarrow> (\<forall>m. map lowercase m = map lowercase nm \<longrightarrow> lxb_dom_element_get_attribute d' el m = Some (Some v)))"
proof -
  have "wp (lxb_dom_element_set_attribute nd oks d el nm v) (set_post d el xs nm v)"
    using set_existing [OF assms(1,2)] set_new [OF assms(1,2) _ assms(3-6)]
    by (cases "find (\<lambda>x. same_name True nm (name_of d x)) xs") blast+
  then obtain d' res ys where r: "lxb_dom_element_set_attribute nd oks d el nm v = Some (d', res)" "attr_rep d' el ys" "plain_attrs d' ys"
    "nodes d' = nodes d" "html d' = html d"
    "\<forall>m. map lowercase m \<noteq> map lowercase nm \<longrightarrow> lookup d' True ys m = lookup d True xs m"
    "res \<noteq> None \<longrightarrow> lookup d' True ys nm = Some v"
    unfolding wp_iff set_post_def by auto
  have get: "lxb_dom_element_get_attribute d el m = Some (lookup d True xs m)"
      "lxb_dom_element_get_attribute d' el m = Some (lookup d' True ys m)" for m
    using get_attribute_lookup [OF assms(1,3), of m] get_attribute_lookup [OF r(2), of n m] r(4,5) assms(3-5) by simp_all
  have "lookup d' True ys m = Some v" if "map lowercase m = map lowercase nm" "res \<noteq> None" for m
    using r(7) that by (simp add: lookup_def same_name_def)
  then have "res \<noteq> None \<longrightarrow> (\<forall>m. map lowercase m = map lowercase nm \<longrightarrow> lxb_dom_element_get_attribute d' el m = Some (Some v))"
    by (simp add: get(2))
  moreover have "\<forall>m. map lowercase m \<noteq> map lowercase nm \<longrightarrow>
      lxb_dom_element_get_attribute d' el m = lxb_dom_element_get_attribute d el m"
    using r(6) by (simp add: get)
  ultimately show ?thesis using r(1-3) by blast
qed

theorem attribute_set_get_witness:
  "\<exists>d' res. lxb_dom_element_set_attribute (Some 12) (True, True, True, True) ex_doc 2 [0x48, 0x52] [0x61] = Some (d', res) \<and>
    (res \<noteq> None \<longrightarrow> lxb_dom_element_get_attribute d' 2 [0x48, 0x52] = Some (Some [0x61]))"
proof -
  obtain n where "nodes ex_doc 2 = Some n" "nd_ns n = LXB_NS_HTML" using ex_tree_data(1) by auto
  from attribute_set_get [OF ex_doc_attrs(1,2) this, of "Some 12" "(True, True, True, True)" "[0x48, 0x52]" "[0x61]"]
  show ?thesis using ex_doc_attrs(3) by auto
qed

text \<open>Removing an attribute by its name takes the first attribute of that name out of the list and
  frees it; a name that no attribute has changes nothing.\<close>

theorem attribute_remove:
  assumes "attr_rep d el xs" "nodes d el = Some n"
  shows "\<exists>d'. lxb_dom_element_remove_attribute d el nm = Some (d', LXB_STATUS_OK) \<and>
    (case find (\<lambda>x. same_name (nd_ns n = LXB_NS_HTML \<and> html d) nm (name_of d x)) xs of
       None \<Rightarrow> d' = d
     | Some x \<Rightarrow> attr_rep d' el (remove1 x xs) \<and> attrs d' x = None \<and> (\<forall>y. y \<noteq> x \<longrightarrow> at_data d' y = at_data d y))"
proof (cases "find (\<lambda>x. same_name (nd_ns n = LXB_NS_HTML \<and> html d) nm (name_of d x)) xs")
  case None
  then show ?thesis by (simp add: lxb_dom_element_remove_attribute_def attr_by_name_find [OF assms])
next
  case (Some x)
  then obtain us vs where xs: "xs = us @ x # vs" using find_SomeD(2) [OF Some] by (meson split_list)
  then have x: "x \<notin> set us" "x \<notin> set vs" using assms(1) by (auto simp: attr_rep_def)
  obtain d1 where d1: "lxb_dom_element_attr_remove d el x = Some (d1, LXB_STATUS_OK)" "attr_rep d1 el (us @ vs)" "same_data d d1"
    using attr_remove_rep [of d el us x vs] assms(1) xs by (auto simp: wp_iff)
  have data: "at_data d1 y = at_data d y" for y using d1(3) by (simp add: same_data_def)
  have "at_data d x \<noteq> None" using assms(1) xs by (auto simp: attr_rep_def at_data_def)
  then obtain q where live: "attrs d1 x = Some q" using data [of x] by (cases "attrs d1 x") (auto simp: at_data_def)
  let ?d = "d1\<lparr> attrs := (attrs d1)(x := None) \<rparr>"
  have up: "at_up ((attrs d1)(x := None)) = (at_up (attrs d1))(x := None)" by (auto simp: at_up_def)
  have "attr_rep ?d el (us @ vs)" using d1(2) x by (auto simp: attr_rep_def up)
  moreover have "at_data ?d y = at_data d y" if "y \<noteq> x" for y using that data [of y] by (simp add: at_data_def)
  moreover have "remove1 x xs = us @ vs" using xs x by (simp add: remove1_append)
  ultimately show ?thesis
    using d1(1) live Some
    by (simp add: lxb_dom_element_remove_attribute_def attr_by_name_find [OF assms] lxb_dom_attr_interface_destroy_def)
qed

theorem attribute_remove_witness:
  "\<exists>d'. lxb_dom_element_remove_attribute ex_doc 2 [0x70, 0x72, 0x6F, 0x70, 0x65, 0x72, 0x74, 0x79] = Some (d', LXB_STATUS_OK) \<and> attr_rep d' 2 [11]"
proof -
  obtain n where "nodes ex_doc 2 = Some n" "nd_ns n = LXB_NS_HTML" using ex_tree_data(1) by auto
  with attribute_remove [OF ex_doc_attrs(1) this(1), of "[0x70, 0x72, 0x6F, 0x70, 0x65, 0x72, 0x74, 0x79]"]
  show ?thesis by (auto simp: same_name_def name_of_def ex_doc_def ex_attr_def new_attr_def)
qed

end
