(* ===== verification/Lxb_Array_Spec.thy ===== *)
theory Lxb_Array_Spec
  imports Lxb_Array
begin

text \<open>
  What the growing array promises: every sequence of operations behaves as on a list, what is
  pushed is popped in reverse order, and where the sizes are not checked.
\<close>

section \<open>Sequences of operations\<close>

datatype array_op =
    Op_Push addr
  | Op_Pop
  | Op_Insert size_t addr
  | Op_Set size_t addr
  | Op_Delete size_t size_t
  | Op_Get size_t
  | Op_Clean

datatype array_reply = Status lxb_status | Val addr | Unit

fun array_step :: "(size_t \<Rightarrow> bool) \<Rightarrow> lexbor_array \<Rightarrow> array_op \<Rightarrow> (lexbor_array \<times> array_reply) option" where
  "array_step alloc a (Op_Push v) = map_option (map_prod id Status) (lexbor_array_push alloc a v)"
| "array_step alloc a Op_Pop = map_option (map_prod id Val) (lexbor_array_pop a)"
| "array_step alloc a (Op_Insert i v) = map_option (map_prod id Status) (lexbor_array_insert alloc a i v)"
| "array_step alloc a (Op_Set i v) = map_option (map_prod id Status) (lexbor_array_set alloc a i v)"
| "array_step alloc a (Op_Delete i n) = map_option (\<lambda>a. (a, Unit)) (lexbor_array_delete a i n)"
| "array_step alloc a (Op_Get i) = map_option (\<lambda>v. (a, Val v)) (lexbor_array_get a i)"
| "array_step alloc a Op_Clean = Some (lexbor_array_clean a, Unit)"

fun array_run :: "(size_t \<Rightarrow> bool) \<Rightarrow> lexbor_array \<Rightarrow> array_op list \<Rightarrow> (lexbor_array \<times> array_reply list) option" where
  "array_run alloc a [] = Some (a, [])"
| "array_run alloc a (p # ps) = do {
     (a, r) \<leftarrow> array_step alloc a p;
     (a, rs) \<leftarrow> array_run alloc a ps;
     Some (a, r # rs)
   }"

text \<open>The same operations on a list.\<close>

fun list_step :: "addr list \<Rightarrow> array_op \<Rightarrow> addr list \<times> array_reply" where
  "list_step xs (Op_Push v) = (xs @ [v], Status LXB_STATUS_OK)"
| "list_step xs Op_Pop = (butlast xs, Val (if xs = [] then NULL else last xs))"
| "list_step xs (Op_Insert i v) = (list_insert xs (unat i) v, Status LXB_STATUS_OK)"
| "list_step xs (Op_Set i v) = (list_put xs (unat i) v, Status LXB_STATUS_OK)"
| "list_step xs (Op_Delete i n) = (take (unat i) xs @ drop (unat i + unat n) xs, Unit)"
| "list_step xs (Op_Get i) = (xs, Val (if unat i < length xs then xs ! unat i else NULL))"
| "list_step xs Op_Clean = ([], Unit)"

definition out_of_memory :: array_reply where
  "out_of_memory = Status LXB_STATUS_ERROR_MEMORY_ALLOCATION"

text \<open>The replies decide what has happened: after an allocation failure the list is as before.\<close>

fun list_replay :: "addr list \<Rightarrow> array_op list \<Rightarrow> array_reply list \<Rightarrow> addr list option" where
  "list_replay xs [] [] = Some xs"
| "list_replay xs (p # ps) (r # rs) =
    (if r = snd (list_step xs p) then list_replay (fst (list_step xs p)) ps rs
     else if r = out_of_memory then list_replay xs ps rs
     else None)"
| "list_replay xs _ _ = None"

text \<open>The operations that are considered: insertion and set at an index below \<open>2 ^ 59\<close>, so that the size of the block is a \<open>size_t\<close>, and
  deletion of a range whose end is one: \<open>lexbor_array_delete\<close> adds without a check, and is undefined on a full array otherwise.\<close>

fun op_ok :: "array_op \<Rightarrow> bool" where
  "op_ok (Op_Insert i v) \<longleftrightarrow> unat i < 2 ^ 59"
| "op_ok (Op_Set i v) \<longleftrightarrow> unat i < 2 ^ 59"
| "op_ok (Op_Delete i n) \<longleftrightarrow> unat i + unat n < 2 ^ 64"
| "op_ok _ \<longleftrightarrow> True"

lemma list_step_length:
  assumes "op_ok p"
  shows "length (fst (list_step xs p)) \<le> max (2 ^ 59) (length xs + 1)"
proof (cases p)
  case (Op_Insert i v)
  with assms show ?thesis by (auto simp: list_insert_def max_def)
next
  case (Op_Set i v)
  with assms show ?thesis by (auto simp: list_put_def max_def)
qed (auto simp: max_def)

definition step_result :: "addr list \<Rightarrow> array_op \<Rightarrow> lexbor_array \<times> array_reply \<Rightarrow> bool" where
  "step_result xs p = (\<lambda>(a', r). arr_inv a' \<and>
     ((arr_abs a', r) = list_step xs p \<or> r = out_of_memory \<and> r \<noteq> snd (list_step xs p) \<and> arr_abs a' = xs))"

lemma status_step:
  assumes "wp m (arr_result xs ys)" "list_step xs p = (ys, Status LXB_STATUS_OK)"
  shows "wp (map_option (map_prod id Status) m) (step_result xs p)"
  using assms by (auto simp: wp_iff arr_result_def step_result_def out_of_memory_def)

text \<open>One operation simulates the operation on the list.\<close>

lemma array_step_ok:
  assumes "arr_inv a" "length (arr_abs a) + 128 \<le> 2 ^ 60" "op_ok p"
  shows "wp (array_step alloc a p) (step_result (arr_abs a) p)"
proof (cases p)
  case (Op_Push v)
  show ?thesis unfolding Op_Push array_step.simps
    by (rule status_step [OF push_ok [OF assms(1,2)]]) simp
next
  case (Op_Insert i v)
  with assms have "wp (lexbor_array_insert alloc a i v) (arr_result (arr_abs a) (list_insert (arr_abs a) (unat i) v))"
    by (intro insert_ok) simp_all
  then show ?thesis unfolding Op_Insert array_step.simps by (rule status_step) simp
next
  case (Op_Set i v)
  with assms have "wp (lexbor_array_set alloc a i v) (arr_result (arr_abs a) (list_put (arr_abs a) (unat i) v))"
    by (intro set_ok) simp_all
  then show ?thesis unfolding Op_Set array_step.simps by (rule status_step) simp
next
  case (Op_Delete i n)
  with delete_ok [of a i n] assms show ?thesis by (auto simp: wp_iff step_result_def)
next
  case Op_Pop
  with pop_ok [OF assms(1)] show ?thesis by (auto simp: step_result_def)
next
  case (Op_Get i)
  with get_ok [OF assms(1)] assms(1) show ?thesis by (auto simp: step_result_def)
next
  case Op_Clean
  with assms(1) show ?thesis
    by (auto simp: step_result_def lexbor_array_clean_def arr_inv_def arr_abs_def split: option.split)
qed

lemma array_run_ok:
  assumes "arr_inv a" "list_all op_ok ps" "length (arr_abs a) \<le> 2 ^ 59 + k" "k + length ps \<le> 2 ^ 58"
  shows "wp (array_run alloc a ps) (\<lambda>(a', rs). arr_inv a' \<and> list_replay (arr_abs a) ps rs = Some (arr_abs a'))"
  using assms
proof (induction ps arbitrary: a k)
  case (Cons p ps)
  have "wp (array_step alloc a p) (step_result (arr_abs a) p)"
    using Cons.prems by (intro array_step_ok) simp_all
  then obtain a' r where s: "array_step alloc a p = Some (a', r)" "step_result (arr_abs a) p (a', r)"
    by (auto simp: wp_iff)
  have "length (fst (list_step (arr_abs a) p)) \<le> max (2 ^ 59) (length (arr_abs a) + 1)"
    using Cons.prems(2) by (intro list_step_length) simp
  with s(2) Cons.prems(3) have "length (arr_abs a') \<le> 2 ^ 59 + Suc k"
    by (cases "list_step (arr_abs a) p") (auto simp: step_result_def)
  moreover have "arr_inv a'" using s(2) by (simp add: step_result_def)
  ultimately have "wp (array_run alloc a' ps) (\<lambda>(b, rs). arr_inv b \<and> list_replay (arr_abs a') ps rs = Some (arr_abs b))"
    using Cons.prems(2,4) by (intro Cons.IH [of a' "Suc k"]) simp_all
  with s show ?case
    by (cases "list_step (arr_abs a) p") (auto simp: wp_iff step_result_def)
qed simp

section \<open>Properties\<close>

text \<open>C40: A sequence of at most \<open>2 ^ 58\<close> operations on a growing array of at most \<open>2 ^ 59\<close> entries runs without an
  access outside its block or to a cell that was not written, keeps the invariant of the array,
  and answers as the same sequence on a list does; where memory cannot be allocated the
  operation says so and the list is unchanged.  The operations are those that \<^const>\<open>op_ok\<close>
  allows: insertion and set at indices below \<open>2 ^ 59\<close>, and no deletion of a range whose end
  \<open>begin + length\<close> exceeds \<open>SIZE_MAX\<close>, which is undefined on a full array (see
  \<open>array_delete_wraps\<close> below).\<close>

theorem array_refines_list:
  assumes "arr_inv a" "list_all op_ok ps" "length (arr_abs a) \<le> 2 ^ 59" "length ps \<le> 2 ^ 58"
  shows "\<exists>a' rs. array_run alloc a ps = Some (a', rs) \<and> arr_inv a' \<and> list_replay (arr_abs a) ps rs = Some (arr_abs a')"
  using array_run_ok [of a ps 0 alloc] assms by (auto simp: wp_iff)

definition ex_array :: lexbor_array where
  "ex_array = \<lparr> ar_list = Some [Some 5, Some 6, None], ar_size = 3, ar_length = 2 \<rparr>"

lemma ex_array_ok: "arr_inv ex_array" "arr_abs ex_array = [5, 6]"
  by (simp_all add: arr_inv_def arr_abs_def ex_array_def)

theorem array_refines_list_witness:
  "\<exists>a' rs. array_run (\<lambda>n. n < 100) ex_array [Op_Insert 1 9, Op_Push 7, Op_Set 8 3, Op_Pop, Op_Delete 0 2, Op_Get 0] = Some (a', rs) \<and> arr_inv a' \<and>
    list_replay [5, 6] [Op_Insert 1 9, Op_Push 7, Op_Set 8 3, Op_Pop, Op_Delete 0 2, Op_Get 0] rs = Some (arr_abs a')"
  using array_refines_list [OF ex_array_ok(1),
      of "[Op_Insert 1 9, Op_Push 7, Op_Set 8 3, Op_Pop, Op_Delete 0 2, Op_Get 0]" "\<lambda>n. n < 100"]
  unfolding ex_array_ok(2) by simp

text \<open>A sequence of pointers that has been pushed successfully on an array comes back in reverse
  order when as many are popped, and the array then holds what it held before.\<close>

theorem array_push_pop:
  assumes "arr_inv a" "length (arr_abs a) + length vs \<le> 2 ^ 60 - 127"
    and "push_all (lexbor_array_push alloc) a vs = Some (b, LXB_STATUS_OK)"
  shows "\<exists>c. pop_n lexbor_array_pop b (length vs) = Some (c, rev vs) \<and> arr_inv c \<and> arr_abs c = arr_abs a"
  using assms by (rule arr.push_pop)

theorem array_push_pop_witness:
  "\<exists>b c. push_all (lexbor_array_push (\<lambda>n. True)) ex_array [1, 2, 3] = Some (b, LXB_STATUS_OK) \<and>
    pop_n lexbor_array_pop b 3 = Some (c, [3, 2, 1]) \<and> arr_abs c = [5, 6]"
proof -
  obtain b where b: "push_all (lexbor_array_push (\<lambda>n. True)) ex_array [1, 2, 3] = Some (b, LXB_STATUS_OK)"
    by (simp add: lexbor_array_push_def lexbor_array_expand_def cell_set_def ex_array_def cells_def)
  then have "\<exists>c. pop_n lexbor_array_pop b (length [1, 2, 3 :: addr]) = Some (c, rev [1, 2, 3]) \<and> arr_inv c \<and> arr_abs c = arr_abs ex_array"
    by (intro array_push_pop [OF ex_array_ok(1)]) (simp_all only: ex_array_ok(2), simp)
  with b show ?thesis by (simp only: ex_array_ok(2) list.size rev.simps append.simps) (auto simp: numeral_3_eq_3)
qed

text \<open>\<open>lexbor_array_init\<close> does not check that the number of bytes is a \<open>size_t\<close>: it reports
  success and announces \<open>size\<close> cells, but the block has \<open>size\<close> modulo \<open>2 ^ 61\<close> of them.\<close>

theorem array_init_block:
  assumes "sz \<noteq> 0" "alloc (8 * sz)"
  shows "\<exists>a' l. lexbor_array_init alloc (Some a) sz = (Some a', LXB_STATUS_OK) \<and> ar_size a' = sz \<and>
    arr_abs a' = [] \<and> ar_list a' = Some l \<and> length l = unat sz mod 2 ^ 61 \<and> (unat sz \<le> 2 ^ 60 \<longrightarrow> arr_inv a')"
proof -
  have "unat (8 * sz) = (8 * unat sz) mod 2 ^ 64"
    by (simp add: unat_word_ariths)
  also have "\<dots> = 8 * (unat sz mod 2 ^ 61)"
    using mult_mod_right [of 8 "unat sz" "2 ^ 61"] by simp
  finally have "cells (8 * sz) = unat sz mod 2 ^ 61" by (simp add: cells_def)
  with assms show ?thesis
    by (auto simp: lexbor_array_init_def arr_abs_def arr_inv_def)
qed

theorem array_init_block_witness:
  "\<exists>a' l. lexbor_array_init (\<lambda>n. n < 100) (Some ex_array) (2 ^ 61 + 1) = (Some a', LXB_STATUS_OK) \<and>
    ar_size a' = 2 ^ 61 + 1 \<and> ar_list a' = Some l \<and> length l = 1"
  using array_init_block [of "2 ^ 61 + 1" "\<lambda>n. n < 100" ex_array] by auto

text \<open>\<open>lexbor_array_delete\<close> adds \<open>begin\<close> and \<open>length\<close> without a check: when the sum exceeds
  \<open>SIZE_MAX\<close>, where one would expect everything from \<open>begin\<close> on to be deleted, it moves cells
  upwards, and beyond the block of a full array.\<close>

theorem array_delete_wraps:
  assumes "arr_inv a" "ar_length a = ar_size a" "bgn < ar_length a" "unat bgn + unat len \<ge> 2 ^ 64"
  shows "lexbor_array_delete a bgn len = None"
proof -
  obtain l where l: "ar_list a = Some l" "length l = unat (ar_size a)" "unat (ar_size a) \<le> 2 ^ 60"
    "unat (ar_length a) = length (arr_abs a)"
    using assms(1) by (rule arr_invE)
  have fit: "unat bgn < 2 ^ 64" "unat len < 2 ^ 64"
    using unsigned_less [of bgn, where 'a = nat] unsigned_less [of len, where 'a = nat] by simp_all
  have "unat (bgn + len) = (unat bgn + unat len) mod 2 ^ 64" by (simp add: unat_word_ariths)
  also have "\<dots> = (unat bgn + unat len - 2 ^ 64) mod 2 ^ 64"
    using assms(4) by (rule le_mod_geq)
  also have "\<dots> = unat bgn + unat len - 2 ^ 64"
    using assms(4) fit by (intro mod_less) linarith
  finally have lt: "unat (bgn + len) < unat bgn"
    using fit(2) assms(4) by linarith
  have b: "unat bgn < length l" using assms(2,3) l(2) by (simp add: word_less_nat_alt)
  have "unat (ar_length a - (bgn + len)) = length l - unat (bgn + len)"
    using lt b l(2) assms(2) by (subst unat_sub) (simp_all add: word_le_nat_alt)
  then have "cells (8 * (ar_length a - (bgn + len))) = length l - unat (bgn + len)"
    using l(2,3) by (subst cells_fit) simp_all
  moreover have "len \<noteq> 0" using assms(4) fit(1) by auto
  moreover have "\<not> bgn + len \<ge> ar_length a" "\<not> bgn \<ge> ar_length a"
    using lt b l(2) assms(2) by (simp_all add: word_le_nat_alt)
  ultimately show ?thesis
    using lt b l(1) by (simp add: lexbor_array_delete_def cells_move_def Let_def)
qed

definition ex_full :: lexbor_array where
  "ex_full = \<lparr> ar_list = Some [Some 5, Some 6], ar_size = 2, ar_length = 2 \<rparr>"

theorem array_delete_wraps_witness: "lexbor_array_delete ex_full 1 SIZE_MAX = None"
proof -
  have "arr_inv ex_full" "ar_length ex_full = ar_size ex_full" "1 < ar_length ex_full"
    by (simp_all add: arr_inv_def ex_full_def)
  moreover have "unat (1 :: size_t) + unat SIZE_MAX \<ge> 2 ^ 64"
    by (simp add: unsigned_minus_1_eq_mask mask_eq_exp_minus_1)
  ultimately show ?thesis by (rule array_delete_wraps)
qed

end
