(* ===== verification/Dom_Search.thy ===== *)
theory Dom_Search
  imports Dom_Attr Lxb_Array_Spec
begin

text \<open>
  What the searches for elements and the text of a subtree return.  All searches are walks with a
  callback that appends to a collection the nodes it accepts; the interface of such a callback is the
  locale \<open>collector\<close>, and every search is an interpretation of it.
\<close>

section \<open>Collecting\<close>

locale collector =
  fixes cb :: "col_ctx walker" and alloc :: "size_t \<Rightarrow> bool" and accepts :: "addr \<Rightarrow> bool" and ok :: "addr \<Rightarrow> bool"
  assumes cb: "ok a \<Longrightarrow> cb a ctx = (if accepts a then lxb_dom_collection_append alloc a ctx else Some (ctx, LEXBOR_ACTION_NEXT))"
begin

text \<open>Walking over a list of nodes pushes the accepted ones.\<close>

lemma walk_pushes:
  assumes "\<forall>a \<in> set xs. ok a"
  shows "walk_list cb xs (col, LXB_STATUS_OK) =
    map_option (\<lambda>(c, st). ((c, st), st \<noteq> LXB_STATUS_OK)) (push_all (lexbor_array_push alloc) col (filter accepts xs))"
  using assms
proof (induction xs arbitrary: col)
  case (Cons x xs)
  show ?case
  proof (cases "accepts x")
    case True
    with Cons show ?thesis
      by (cases "lexbor_array_push alloc col x") (auto simp: cb lxb_dom_collection_append_def)
  next
    case False
    with Cons show ?thesis by (simp add: cb)
  qed
qed simp

lemma search:
  assumes "dom_inv h ch" "root \<in> dom h" "preorder ch (ch root) xs" "\<forall>a \<in> set xs. ok a"
    and "arr_inv col" "length (arr_abs col) + card (dom h) \<le> 2 ^ 59"
  shows "\<exists>col' st ys zs. lxb_dom_node_simple_walk h root cb (col, LXB_STATUS_OK) = Some (col', st) \<and> arr_inv col' \<and>
    filter accepts xs = ys @ zs \<and> arr_abs col' = arr_abs col @ ys \<and> (st = LXB_STATUS_OK \<longleftrightarrow> zs = []) \<and>
    ((\<forall>n. alloc n) \<longrightarrow> st = LXB_STATUS_OK)"
proof -
  from assms(1) have rep: "dom_rep h ch" and wf: "wf (child_rel ch)" and fin: "finite (dom h)" by (simp_all add: dom_inv_def)
  have "set xs \<subseteq> dom h"
  proof
    fix b assume "b \<in> set xs"
    then obtain c where "(b, c) \<in> child_rel ch" using below_set [OF assms(3)] by (auto elim: converse_tranclE)
    then show "b \<in> dom h" using child_live(1) [OF rep] by (auto simp: child_rel_def)
  qed
  then have "length xs \<le> card (dom h)"
    using preorder_distinct [OF assms(3) rep wf, of root "[]"] fin by (simp add: distinct_card [symmetric] card_mono)
  then have "length (filter accepts xs) \<le> card (dom h)" using length_filter_le le_trans by blast
  then have le: "length (arr_abs col) + length (filter accepts xs) \<le> 2 ^ 60 - 127" using assms(6) by simp
  from arr.push_all_abs [OF assms(5) le, of alloc] obtain col' st ws us where
    p: "push_all (lexbor_array_push alloc) col (filter accepts xs) = Some (col', st)" "arr_inv col'"
      "arr_abs col' = arr_abs col @ ws" "filter accepts xs = ws @ us" "st = LXB_STATUS_OK \<longleftrightarrow> ws = filter accepts xs"
    by blast
  then have "lxb_dom_node_simple_walk h root cb (col, LXB_STATUS_OK) = Some (col', st)"
    using simple_walk_preorder [OF assms(1-3), of cb "(col, LXB_STATUS_OK)"] walk_pushes [OF assms(4), of col] by simp
  moreover have "st = LXB_STATUS_OK" if "\<forall>n. alloc n"
    using push_all_succeeds [OF assms(5) le, of alloc] that p(1) by auto
  ultimately show ?thesis using p by (intro exI [of _ col'] exI [of _ st] exI [of _ ws] exI [of _ us]) auto
qed

end

definition is_element :: "lxb_dom_document \<Rightarrow> addr \<Rightarrow> bool" where
  "is_element d a \<longleftrightarrow> (\<exists>n. nodes d a = Some n \<and> nd_type n = LXB_DOM_NODE_TYPE_ELEMENT)"

definition has_tag :: "lxb_dom_document \<Rightarrow> lxb_tag_id \<Rightarrow> addr \<Rightarrow> bool" where
  "has_tag d tag a \<longleftrightarrow> (\<exists>n. nodes d a = Some n \<and> nd_tag_id n = tag)"

text \<open>An element of an HTML document: in the HTML namespace and without a prefix.\<close>

definition html_named :: "lxb_dom_document \<Rightarrow> addr \<Rightarrow> bool" where
  "html_named d a \<longleftrightarrow> (\<exists>n. nodes d a = Some n \<and> (nd_type n = LXB_DOM_NODE_TYPE_ELEMENT \<longrightarrow> nd_ns n = LXB_NS_HTML \<and>
     (\<exists>e. elements d a = Some e \<and> (\<forall>q. el_qualified_name e = Some q \<longrightarrow> qn_prefix_len q = 0))))"

interpretation all_elements: collector "lxb_dom_elements_by_tag_name_cb_all alloc d" alloc "is_element d" "\<lambda>a. nodes d a \<noteq> None"
  for alloc d
  by unfold_locales (auto simp: lxb_dom_elements_by_tag_name_cb_all_def is_element_def)

interpretation by_tag: collector "lxb_dom_elements_by_tag_name_cb alloc d tag q 0 q" alloc "\<lambda>a. is_element d a \<and> has_tag d tag a" "html_named d"
  for alloc d tag q
  by unfold_locales
    (auto simp: lxb_dom_elements_by_tag_name_cb_def is_element_def has_tag_def html_named_def
      lxb_dom_element_qualified_name_cmp_def Let_def split: option.split)

text \<open>The value of the attribute that the search looks at.\<close>

definition attr_accepts :: "lxb_dom_document \<Rightarrow> attr_cmp \<Rightarrow> lxb_char list \<Rightarrow> lxb_char list \<Rightarrow> addr \<Rightarrow> bool" where
  "attr_accepts d cmp nm v a \<longleftrightarrow> is_element d a \<and> (\<exists>x r w. lxb_dom_element_attr_by_name d a nm = Some (Some x) \<and>
     attrs d x = Some r \<and> at_value r = Some w \<and> (v = [] \<and> str_length w = 0 \<or> cmp v w = Some True))"

text \<open>The attributes are well linked, and the one of the name has a value.\<close>

definition attr_searchable :: "lxb_dom_document \<Rightarrow> attr_cmp \<Rightarrow> lxb_char list \<Rightarrow> lxb_char list \<Rightarrow> addr \<Rightarrow> bool" where
  "attr_searchable d cmp nm v a \<longleftrightarrow> nodes d a \<noteq> None \<and> (is_element d a \<longrightarrow> (\<exists>xs. attr_rep d a xs) \<and>
     (\<forall>x. lxb_dom_element_attr_by_name d a nm = Some (Some x) \<longrightarrow> (\<exists>r w. attrs d x = Some r \<and> at_value r = Some w \<and> cmp v w \<noteq> None)))"

interpretation by_attr: collector "lxb_dom_elements_by_attr_cb alloc d cmp nm v" alloc "attr_accepts d cmp nm v" "attr_searchable d cmp nm v"
  for alloc d cmp nm v
proof
  fix a ctx
  assume ok: "attr_searchable d cmp nm v a"
  then obtain n where n: "nodes d a = Some n" by (auto simp: attr_searchable_def)
  show "lxb_dom_elements_by_attr_cb alloc d cmp nm v a ctx =
    (if attr_accepts d cmp nm v a then lxb_dom_collection_append alloc a ctx else Some (ctx, LEXBOR_ACTION_NEXT))"
  proof (cases "is_element d a")
    case True
    then obtain xs where "attr_rep d a xs" using ok by (auto simp: attr_searchable_def)
    from attr_by_name_find [OF this n] obtain x where "lxb_dom_element_attr_by_name d a nm = Some x" by blast
    with True ok n show ?thesis
      by (cases x) (auto simp: lxb_dom_elements_by_attr_cb_def attr_accepts_def attr_searchable_def is_element_def)
  next
    case False
    with n show ?thesis by (simp add: lxb_dom_elements_by_attr_cb_def attr_accepts_def is_element_def)
  qed
qed

section \<open>Class names\<close>

lemma whitespace_lowercase: "lexbor_utils_whitespace (lowercase c) \<longleftrightarrow> lexbor_utils_whitespace c"
  by (simp add: lowercase_def tbl_by_spec [OF lower_table] ascii_lower_def lexbor_utils_whitespace_def word_le_nat_alt)
     (auto simp: word_le_nat_alt unat_arith_simps split: if_splits)

text \<open>Positions in the bytes of a class attribute: the beginning of a word, a range without white space, and the
  end of a word that the loop accepts.\<close>

definition word_start :: "lxb_char list \<Rightarrow> nat \<Rightarrow> bool" where
  "word_start s p \<longleftrightarrow> p = 0 \<or> lexbor_utils_whitespace (s ! (p - 1))"

definition no_space :: "lxb_char list \<Rightarrow> nat \<Rightarrow> nat \<Rightarrow> bool" where
  "no_space s p k \<longleftrightarrow> (\<forall>j. p \<le> j \<and> j < k \<longrightarrow> \<not> lexbor_utils_whitespace (s ! j))"

definition word_hit :: "(lxb_char list \<Rightarrow> bool) \<Rightarrow> nat \<Rightarrow> lxb_char list \<Rightarrow> nat \<Rightarrow> nat \<Rightarrow> bool" where
  "word_hit C vlen s n k \<longleftrightarrow> k < n \<and> lexbor_utils_whitespace (s ! k) \<and> vlen \<le> n - k \<and> vlen \<le> k \<and>
     word_start s (k - vlen) \<and> no_space s (k - vlen) k \<and> C (take vlen (drop (k - vlen) s))"

text \<open>At the white space that ends the word beginning at \<open>p\<close>.\<close>

lemma word_hit_at:
  assumes "word_start s p" "no_space s p i" "p \<le> i" "i < n" "lexbor_utils_whitespace (s ! i)" "vlen \<le> n - i" "0 < vlen"
  shows "word_hit C vlen s n i \<longleftrightarrow> i - p = vlen \<and> C (take vlen (drop p s))"
proof
  assume hit: "word_hit C vlen s n i"
  then have h: "vlen \<le> i" "word_start s (i - vlen)" "no_space s (i - vlen) i" "C (take vlen (drop (i - vlen) s))"
    by (simp_all add: word_hit_def)
  have "\<not> i - vlen < p"
  proof
    assume "i - vlen < p"
    moreover from this have "lexbor_utils_whitespace (s ! (p - 1))" using assms(1) by (auto simp: word_start_def)
    ultimately show False using h(3) assms(3) by (auto simp: no_space_def dest: spec [of _ "p - 1"])
  qed
  moreover have "\<not> p < i - vlen"
  proof
    assume "p < i - vlen"
    moreover from this have "lexbor_utils_whitespace (s ! (i - vlen - 1))" using h(2) by (auto simp: word_start_def)
    ultimately show False using assms(2,7) h(1) by (auto simp: no_space_def dest: spec [of _ "i - vlen - 1"])
  qed
  ultimately have "p = i - vlen" by simp
  with h(1,4) show "i - p = vlen \<and> C (take vlen (drop p s))" by simp
next
  assume "i - p = vlen \<and> C (take vlen (drop p s))"
  moreover from this have "i - vlen = p" using assms(3,7) by auto
  ultimately show "word_hit C vlen s n i" using assms by (auto simp: word_hit_def)
qed

definition scan_post :: "(lxb_char list \<Rightarrow> bool) \<Rightarrow> nat \<Rightarrow> lxb_char list \<Rightarrow> nat \<Rightarrow> nat \<Rightarrow> nat option \<Rightarrow> bool" where
  "scan_post C vlen s n i r \<longleftrightarrow> (case r of
      None \<Rightarrow> \<exists>k. word_hit C vlen s n k
    | Some q \<Rightarrow> (\<forall>k \<ge> i. \<not> word_hit C vlen s n k) \<and> word_start s q \<and> q \<le> n \<and> no_space s q (Suc n - vlen))"

lemma scan_post_None: "word_hit C vlen s n k \<Longrightarrow> scan_post C vlen s n i None"
  by (auto simp: scan_post_def)

lemma scan_post_Suc: "scan_post C vlen s n (Suc i) r \<Longrightarrow> \<not> word_hit C vlen s n i \<Longrightarrow> scan_post C vlen s n i r"
  by (cases r) (auto simp: scan_post_def, metis le_antisym not_less_eq_eq)

lemma class_scan_hits:
  assumes "i \<le> n" "p \<le> i" "n \<le> length s" "0 < vlen" "word_start s p" "no_space s p i"
    and cmp: "\<And>xs. vlen \<le> length xs \<Longrightarrow> cmp xs = Some (C (take vlen xs))"
  shows "\<exists>r. class_scan cmp vlen s n p i = Some r \<and> scan_post C vlen s n i r"
  using assms(1,2,5,6)
proof (induction "n - i" arbitrary: p i rule: less_induct)
  case less
  show ?case
  proof (cases "vlen \<le> n - i \<and> i < n")
    case go: True
    show ?thesis
    proof (cases "lexbor_utils_whitespace (s ! i)")
      case True
      note hit = word_hit_at [OF less.prems(3,4,2) _ True _ assms(4), of n C]
      have "i - p = vlen \<Longrightarrow> vlen \<le> length (drop p s)" using go assms(3) by auto
      then have "(if p \<noteq> i \<and> i - p = vlen then cmp (drop p s) else Some False) = Some (word_hit C vlen s n i)"
        using hit go cmp [of "drop p s"] assms(4) by auto
      moreover have "\<exists>r. class_scan cmp vlen s n (Suc i) (Suc i) = Some r \<and> scan_post C vlen s n (Suc i) r"
        using go True by (intro less.hyps) (auto simp: word_start_def no_space_def)
      ultimately show ?thesis
        using go True unfolding class_scan.simps [of cmp vlen s n p i]
        by (cases "word_hit C vlen s n i") (auto intro: scan_post_Suc scan_post_None)
    next
      case False
      then have "\<not> word_hit C vlen s n i" by (simp add: word_hit_def)
      moreover have "no_space s p (Suc i)" using less.prems(4) False by (auto simp: no_space_def less_Suc_eq)
      then have "\<exists>r. class_scan cmp vlen s n p (Suc i) = Some r \<and> scan_post C vlen s n (Suc i) r"
        using go less.prems by (intro less.hyps) auto
      ultimately show ?thesis
        using go False unfolding class_scan.simps [of cmp vlen s n p i]
        by (auto intro: scan_post_Suc)
    qed
  next
    case False
    then have "\<not> word_hit C vlen s n k" if "k \<ge> i" for k using that less.prems(1) by (auto simp: word_hit_def)
    moreover have "no_space s p (Suc n - vlen)" using False less.prems(1,4) assms(4) by (auto simp: no_space_def)
    ultimately show ?thesis using False less.prems by (auto simp: class_scan.simps [of cmp vlen s n p i] scan_post_def)
  qed
qed

text \<open>Equality of class names, in quirks mode up to case.\<close>

definition same_class :: "bool \<Rightarrow> lxb_char list \<Rightarrow> lxb_char list \<Rightarrow> bool" where
  "same_class quirks_mode u v \<longleftrightarrow> same_name quirks_mode u v"

lemma same_class_no_space:
  assumes "same_class q u v" "\<forall>c \<in> set v. \<not> lexbor_utils_whitespace c"
  shows "length u = length v \<and> (\<forall>c \<in> set u. \<not> lexbor_utils_whitespace c)"
proof (cases q)
  case True
  then have eq: "map lowercase u = map lowercase v" using assms(1) by (simp add: same_class_def same_name_def)
  have "\<not> lexbor_utils_whitespace c" if "c \<in> set u" for c
  proof -
    have "lowercase c \<in> lowercase ` set v" using that eq by (metis image_eqI list.set_map)
    then obtain c' where "c' \<in> set v" "lowercase c = lowercase c'" by blast
    then show ?thesis using assms(2) whitespace_lowercase [of c] whitespace_lowercase [of c'] by simp
  qed
  with map_lowercase_length [OF eq] show ?thesis by blast
qed (use assms in \<open>simp add: same_class_def same_name_def\<close>)

lemma class_cmp_eq:
  "length v \<le> length xs \<Longrightarrow> class_cmp q xs v = Some (same_class q (take (length v) xs) v)"
  by (simp add: class_cmp_def ncasecmp_eq lexbor_str_data_ncmp_def same_class_def same_name_def)

text \<open>Words by position and by decomposition.\<close>

lemma word_start_split: "p \<le> length s \<Longrightarrow> word_start (s @ t) p \<longleftrightarrow> take p s = [] \<or> lexbor_utils_whitespace (last (take p s))"
  by (cases p) (auto simp: word_start_def nth_append take_Suc_conv_app_nth)

lemma no_space_split:
  assumes "k \<le> length s"
  shows "no_space (s @ t) p k \<longleftrightarrow> (\<forall>c \<in> set (take (k - p) (drop p s)). \<not> lexbor_utils_whitespace c)"
proof -
  have "set (take (k - p) (drop p s)) = {s ! j | j. p \<le> j \<and> j < k}"
  proof (intro set_eqI iffI)
    fix c assume "c \<in> set (take (k - p) (drop p s))"
    then obtain i where "i < k - p" "i < length s - p" "c = s ! (p + i)" by (auto simp: in_set_conv_nth)
    then show "c \<in> {s ! j | j. p \<le> j \<and> j < k}" by (auto intro: exI [of _ "p + i"])
  next
    fix c assume "c \<in> {s ! j | j. p \<le> j \<and> j < k}"
    then obtain j where "p \<le> j" "j < k" "c = s ! j" by blast
    then show "c \<in> set (take (k - p) (drop p s))"
      using assms by (auto simp: in_set_conv_nth intro: exI [of _ "j - p"])
  qed
  then show ?thesis using assms by (auto simp: no_space_def nth_append)
qed

lemma word_hit_iff:
  assumes C: "\<And>u. C u \<Longrightarrow> length u = l \<and> (\<forall>c \<in> set u. \<not> lexbor_utils_whitespace c)" and "0 < l"
  shows "(\<exists>k. word_hit C l (s @ t) (length s) k) \<longleftrightarrow> (\<exists>a u b. s = a @ u @ b \<and> C u \<and> (a = [] \<or> lexbor_utils_whitespace (last a)) \<and>
    b \<noteq> [] \<and> lexbor_utils_whitespace (hd b) \<and> l \<le> length b)"
proof
  assume "\<exists>k. word_hit C l (s @ t) (length s) k"
  then obtain k where k: "k < length s" "lexbor_utils_whitespace (s ! k)" "l \<le> length s - k" "l \<le> k"
    "take (k - l) s = [] \<or> lexbor_utils_whitespace (last (take (k - l) s))" "C (take l (drop (k - l) s))"
    by (auto simp: word_hit_def word_start_split nth_append)
  have "drop (k - l) s = take l (drop (k - l) s) @ drop k s"
    using k(4) append_take_drop_id [of l "drop (k - l) s"] by simp
  then have "s = take (k - l) s @ take l (drop (k - l) s) @ drop k s" by (metis append_take_drop_id)
  with k show "\<exists>a u b. s = a @ u @ b \<and> C u \<and> (a = [] \<or> lexbor_utils_whitespace (last a)) \<and>
      b \<noteq> [] \<and> lexbor_utils_whitespace (hd b) \<and> l \<le> length b"
    by (intro exI [of _ "take (k - l) s"] exI [of _ "take l (drop (k - l) s)"] exI [of _ "drop k s"]) (auto simp: hd_drop_conv_nth)
next
  assume "\<exists>a u b. s = a @ u @ b \<and> C u \<and> (a = [] \<or> lexbor_utils_whitespace (last a)) \<and>
    b \<noteq> [] \<and> lexbor_utils_whitespace (hd b) \<and> l \<le> length b"
  then obtain a u b where s: "s = a @ u @ b" "C u" "a = [] \<or> lexbor_utils_whitespace (last a)"
    "b \<noteq> []" "lexbor_utils_whitespace (hd b)" "l \<le> length b" by blast
  have u: "length u = l" "\<forall>c \<in> set u. \<not> lexbor_utils_whitespace c" using C [OF s(2)] by auto
  have "word_start (s @ t) (length a)" "no_space (s @ t) (length a) (length a + l)"
    using s u word_start_split [of "length a" s t] no_space_split [of "length a + l" s t "length a"] by simp_all
  moreover have "(s @ t) ! (length a + l) = hd b" using s u by (cases b) (simp_all add: nth_append)
  ultimately have "word_hit C l (s @ t) (length s) (length a + l)"
    using s u by (simp add: word_hit_def)
  then show "\<exists>k. word_hit C l (s @ t) (length s) k" ..
qed

lemma last_word_iff:
  assumes C: "\<And>u. C u \<Longrightarrow> length u = l \<and> (\<forall>c \<in> set u. \<not> lexbor_utils_whitespace c)" and "0 < l"
    and q: "word_start (s @ t) q" "q \<le> length s" "no_space (s @ t) q (Suc (length s) - l)"
  shows "length s - q = l \<and> C (take l (drop q (s @ t))) \<longleftrightarrow>
    (\<exists>a u. s = a @ u \<and> C u \<and> (a = [] \<or> lexbor_utils_whitespace (last a)))"
proof
  assume "length s - q = l \<and> C (take l (drop q (s @ t)))"
  then have "C (drop q s)" by auto
  with q(1,2) show "\<exists>a u. s = a @ u \<and> C u \<and> (a = [] \<or> lexbor_utils_whitespace (last a))"
    by (intro exI [of _ "take q s"] exI [of _ "drop q s"]) (simp add: word_start_split)
next
  assume "\<exists>a u. s = a @ u \<and> C u \<and> (a = [] \<or> lexbor_utils_whitespace (last a))"
  then obtain a u where s: "s = a @ u" "C u" "a = [] \<or> lexbor_utils_whitespace (last a)" by blast
  have u: "length u = l" "\<forall>c \<in> set u. \<not> lexbor_utils_whitespace c" using C [OF s(2)] by auto
  have "\<not> q < length a"
  proof
    assume "q < length a"
    then have "a \<noteq> []" by auto
    then have "lexbor_utils_whitespace (s ! (length a - 1))" using s by (auto simp: last_conv_nth nth_append)
    moreover have "q \<le> length a - 1" "length a - 1 < Suc (length s) - l" "length a - 1 < length s"
      using \<open>q < length a\<close> s(1) u(1) \<open>0 < l\<close> by auto
    ultimately show False using q(3) unfolding no_space_def by (metis nth_append)
  qed
  moreover have "\<not> length a < q"
  proof
    assume "length a < q"
    then have "lexbor_utils_whitespace (u ! (q - 1 - length a))" "q - 1 - length a < length u"
      using q(1,2) s(1) by (auto simp: word_start_def nth_append split: if_splits)
    then show False using u(2) by simp
  qed
  ultimately have "q = length a" by simp
  with s u show "length s - q = l \<and> C (take l (drop q (s @ t)))" by simp
qed

text \<open>C34: The search for a class accepts the class attribute \<open>s\<close> exactly when the class \<open>v\<close> is a word of \<open>s\<close> (up to
  case in quirks mode) that either ends \<open>s\<close> or is followed by white space and at least
  \<open>length v - 1\<close> more bytes.  A word that is followed by a shorter rest, as \<open>menu\<close> in the
  attribute \<open>menu a\<close>, is missed.\<close>

theorem class_match_exact:
  assumes "v \<noteq> []" "\<forall>c \<in> set v. \<not> lexbor_utils_whitespace c"
  shows "class_match q (Some s) v = Some (\<exists>a u b. s = a @ u @ b \<and> same_class q u v \<and>
    (a = [] \<or> lexbor_utils_whitespace (last a)) \<and>
    (b = [] \<or> lexbor_utils_whitespace (hd b) \<and> length v \<le> length b))"
proof -
  let ?n = "length s" and ?l = "length v" and ?C = "\<lambda>u. same_class q u v"
  let ?spec = "\<exists>a u b. s = a @ u @ b \<and> ?C u \<and> (a = [] \<or> lexbor_utils_whitespace (last a)) \<and>
    (b = [] \<or> lexbor_utils_whitespace (hd b) \<and> ?l \<le> length b)"
  have "0 < ?l" using assms(1) by simp
  obtain r where r: "class_scan (\<lambda>pos. class_cmp q pos v) ?l (s @ [0]) ?n 0 0 = Some r" "scan_post ?C ?l (s @ [0]) ?n 0 r"
    using class_scan_hits [of 0 ?n 0 "s @ [0]" ?l "\<lambda>pos. class_cmp q pos v" ?C] \<open>0 < ?l\<close> class_cmp_eq
    by (auto simp: word_start_def no_space_def)
  have C: "length u = ?l \<and> (\<forall>c \<in> set u. \<not> lexbor_utils_whitespace c)" if "?C u" for u
    using same_class_no_space [OF that assms(2)] .
  show ?thesis
  proof (cases r)
    case None
    then have "\<exists>k. word_hit ?C ?l (s @ [0]) ?n k" using r(2) by (simp add: scan_post_def)
    then have ?spec using word_hit_iff [where C = ?C and l = ?l, OF C \<open>0 < ?l\<close>] by blast
    with None r(1) show ?thesis by (simp add: class_match_def)
  next
    case (Some p)
    then have none: "\<not> (\<exists>k. word_hit ?C ?l (s @ [0]) ?n k)"
      and p: "word_start (s @ [0]) p" "p \<le> ?n" "no_space (s @ [0]) p (Suc ?n - ?l)"
      using r(2) by (simp_all add: scan_post_def)
    have "?spec \<longleftrightarrow> (\<exists>a u. s = a @ u \<and> ?C u \<and> (a = [] \<or> lexbor_utils_whitespace (last a)))"
      using none word_hit_iff [where C = ?C and l = ?l, OF C \<open>0 < ?l\<close>, of s "[0]"] by (metis append_Nil2)
    also have "\<dots> \<longleftrightarrow> ?n - p = ?l \<and> ?C (take ?l (drop p (s @ [0])))"
      using last_word_iff [where C = ?C and l = ?l, OF C \<open>0 < ?l\<close> p] by blast
    finally show ?thesis
      using Some r(1) class_cmp_eq [of v "drop p (s @ [0])" q] by (auto simp: class_match_def)
  qed
qed

theorem class_match_exact_witness:
  "class_match False (Some [0x61, 0x20, 0x6D, 0x65, 0x6E, 0x75]) [0x6D, 0x65, 0x6E, 0x75] = Some True \<and>
   class_match False (Some [0x6D, 0x65, 0x6E, 0x75, 0x20, 0x61]) [0x6D, 0x65, 0x6E, 0x75] = Some False"
proof
  have "\<exists>a u b. [0x61, 0x20, 0x6D, 0x65, 0x6E, 0x75] = a @ u @ b \<and> same_class False u [0x6D, 0x65, 0x6E, 0x75] \<and>
      (a = [] \<or> lexbor_utils_whitespace (last a)) \<and> (b = [] \<or> lexbor_utils_whitespace (hd b) \<and> length [0x6D, 0x65, 0x6E, 0x75 :: lxb_char] \<le> length b)"
    by (intro exI [of _ "[0x61, 0x20]"] exI [of _ "[0x6D, 0x65, 0x6E, 0x75]"] exI [of _ "[]"])
      (simp add: same_class_def same_name_def lexbor_utils_whitespace_def)
  then show "class_match False (Some [0x61, 0x20, 0x6D, 0x65, 0x6E, 0x75]) [0x6D, 0x65, 0x6E, 0x75] = Some True"
    using class_match_exact [of "[0x6D, 0x65, 0x6E, 0x75]" False "[0x61, 0x20, 0x6D, 0x65, 0x6E, 0x75]"]
    by (simp add: lexbor_utils_whitespace_def)
  show "class_match False (Some [0x6D, 0x65, 0x6E, 0x75, 0x20, 0x61]) [0x6D, 0x65, 0x6E, 0x75] = Some False"
    by code_simp
qed

section \<open>The document\<close>

text \<open>The document trees that are considered: a finite forest, every element in the HTML namespace, without a prefix, and with well
  linked attributes \<open>al\<close>, and every text with its bytes.  The parser of an HTML document leaves such a tree when the document has no
  SVG and MathML elements, which it puts into other namespaces; documents with such elements are not covered.\<close>

definition html_doc :: "lxb_dom_document \<Rightarrow> (addr \<Rightarrow> addr list) \<Rightarrow> (addr \<Rightarrow> addr list) \<Rightarrow> bool" where
  "html_doc d ch al \<longleftrightarrow> dom_inv (nodes d) ch \<and> (\<forall>a. nodes d a \<noteq> None \<longrightarrow> html_named d a) \<and>
     (\<forall>a. is_element d a \<longrightarrow> attr_rep d a (al a)) \<and>
     (\<forall>a n. nodes d a = Some n \<and> nd_type n = LXB_DOM_NODE_TYPE_TEXT \<longrightarrow> texts d a \<noteq> None)"

lemma below_live:
  assumes "dom_inv h ch" "preorder ch (ch root) xs" "a \<in> set xs"
  shows "h a \<noteq> None"
proof -
  from assms(3) obtain c where "(a, c) \<in> child_rel ch" using below_set [OF assms(2)] by (auto elim: converse_tranclE)
  then show ?thesis using child_live(1) [of h ch a c] assms(1) by (auto simp: child_rel_def dom_inv_def)
qed

lemma memchr_None: "c \<notin> set s \<Longrightarrow> memchr s c = None"
  by (induction s) auto

text \<open>What a search returns: the accepted nodes in document order, all of them unless memory runs out.\<close>

definition collected :: "(size_t \<Rightarrow> bool) \<Rightarrow> lexbor_array \<Rightarrow> addr list \<Rightarrow> col_ctx option \<Rightarrow> bool" where
  "collected alloc col xs r \<longleftrightarrow> (\<exists>col' st ys zs. r = Some (col', st) \<and> arr_inv col' \<and> xs = ys @ zs \<and>
     arr_abs col' = arr_abs col @ ys \<and> (st = LXB_STATUS_OK \<longleftrightarrow> zs = []) \<and> ((\<forall>n. alloc n) \<longrightarrow> st = LXB_STATUS_OK))"

lemma by_tag_collected:
  assumes "html_doc d ch al" "root \<in> dom (nodes d)" "preorder ch (ch root) xs"
    and "arr_inv col" "length (arr_abs col) + card (dom (nodes d)) \<le> 2 ^ 59"
    and "0x3A \<notin> set nm" "nm \<noteq> [0x2A]"
  shows "collected alloc col (filter (\<lambda>a. tid nm \<noteq> LXB_TAG__UNDEF \<and> is_element d a \<and> has_tag d (tid nm) a) xs)
    (lxb_dom_elements_by_tag_name alloc tid d root col nm)"
proof -
  have star: "\<not> (length nm = 1 \<and> nm ! 0 = 0x2A)" using assms(7) by (cases nm) auto
  show ?thesis
  proof (cases "tid nm = LXB_TAG__UNDEF")
    case True
    with star show ?thesis
      using assms(4) by (auto simp: collected_def lxb_dom_elements_by_tag_name_def memchr_None [OF assms(6)] Let_def)
  next
    case False
    have inv: "dom_inv (nodes d) ch" and "\<forall>a \<in> set xs. html_named d a"
      using assms(1,3) below_live by (auto simp: html_doc_def)
    from by_tag.search [OF inv assms(2,3) this(2) assms(4,5), of alloc "tid nm" nm] False star show ?thesis
      unfolding collected_def by (auto simp: lxb_dom_elements_by_tag_name_def memchr_None [OF assms(6)] Let_def)
  qed
qed

section \<open>The text of a subtree\<close>

definition text_of :: "lxb_dom_document \<Rightarrow> addr \<Rightarrow> lxb_char list" where
  "text_of d a = (case nodes d a of None \<Rightarrow> [] | Some n \<Rightarrow>
     if nd_type n = LXB_DOM_NODE_TYPE_TEXT then (case texts d a of Some (Some b) \<Rightarrow> b | _ \<Rightarrow> []) else [])"

lemma walk_size:
  assumes "\<forall>a \<in> set xs. \<exists>n. nodes d a = Some n \<and> (nd_type n = LXB_DOM_NODE_TYPE_TEXT \<longrightarrow> texts d a \<noteq> None)"
  shows "walk_list (lxb_dom_node_text_content_size d) xs c = Some (c + of_nat (length (concat (map (text_of d) xs))), False)"
  using assms
proof (induction xs arbitrary: c)
  case (Cons a xs)
  then show ?case
    by (auto simp: lxb_dom_node_text_content_size_def text_of_def str_length_def add.assoc split: option.split)
qed simp

lemma walk_concat:
  assumes "\<forall>a \<in> set xs. \<exists>n. nodes d a = Some n \<and> (nd_type n = LXB_DOM_NODE_TYPE_TEXT \<longrightarrow> texts d a \<noteq> None)"
    and "p + length (concat (map (text_of d) xs)) \<le> length b"
  shows "walk_list (lxb_dom_node_text_content_concatenate d) xs (b, p) =
    Some ((take p b @ map Some (concat (map (text_of d) xs)) @ drop (p + length (concat (map (text_of d) xs))) b,
      p + length (concat (map (text_of d) xs))), False)"
  using assms
proof (induction xs arbitrary: b p)
  case (Cons a xs)
  let ?rest = "concat (map (text_of d) xs)" and ?t = "text_of d a"
  obtain n where n: "nodes d a = Some n" "nd_type n = LXB_DOM_NODE_TYPE_TEXT \<longrightarrow> texts d a \<noteq> None"
    using Cons.prems(1) by auto
  show ?case
  proof (cases "nd_type n = LXB_DOM_NODE_TYPE_TEXT")
    case True
    then obtain w where w: "texts d a = Some w" using n(2) by auto
    have t: "str_length w = length ?t" "take (length ?t) (str_data w) = ?t" "length ?t \<le> length (str_data w)"
      using True n(1) w by (cases w; simp add: text_of_def)+
    let ?b = "take p b @ map Some ?t @ drop (p + length ?t) b"
    have "block_copy b p (str_data w) (length ?t) = Some ?b"
      using t Cons.prems(2) by (simp add: block_copy_def)
    then have "lxb_dom_node_text_content_concatenate d a (b, p) = Some ((?b, p + length ?t), LEXBOR_ACTION_NEXT)"
      using True n(1) w t(1) by (simp add: lxb_dom_node_text_content_concatenate_def)
    moreover have "walk_list (lxb_dom_node_text_content_concatenate d) xs (?b, p + length ?t) =
        Some ((take (p + length ?t) ?b @ map Some ?rest @ drop (p + length ?t + length ?rest) ?b, p + length ?t + length ?rest), False)"
      using Cons.prems by (intro Cons.IH) auto
    ultimately show ?thesis using Cons.prems(2) by (simp add: ac_simps)
  next
    case False
    then have "?t = []" using n(1) by (simp add: text_of_def)
    moreover have "lxb_dom_node_text_content_concatenate d a (b, p) = Some ((b, p), LEXBOR_ACTION_NEXT)"
      using False n(1) by (simp add: lxb_dom_node_text_content_concatenate_def)
    ultimately show ?thesis using Cons by simp
  qed
qed simp

lemma text_content_element:
  assumes "html_doc d ch al" "is_element d a" "preorder ch (ch a) xs" "t = concat (map (text_of d) xs)" "Suc (length t) < 2 ^ 64"
  shows "lxb_dom_node_text_content alloc d a =
    Some (if alloc (of_nat (Suc (length t))) then Some (map Some (t @ [0]), of_nat (length t)) else None)"
proof -
  obtain n where n: "nodes d a = Some n" "nd_type n = LXB_DOM_NODE_TYPE_ELEMENT" using assms(2) by (auto simp: is_element_def)
  have inv: "dom_inv (nodes d) ch" using assms(1) by (simp add: html_doc_def)
  have live: "\<forall>a \<in> set xs. \<exists>n. nodes d a = Some n \<and> (nd_type n = LXB_DOM_NODE_TYPE_TEXT \<longrightarrow> texts d a \<noteq> None)"
    using below_live [OF inv assms(3)] assms(1) unfolding html_doc_def by (metis not_None_eq)
  have "a \<in> dom (nodes d)" using n by auto
  note walk = simple_walk_preorder [OF inv this assms(3)]
  have size: "lxb_dom_node_simple_walk (nodes d) a (lxb_dom_node_text_content_size d) 0 = Some (of_nat (length t))"
    using walk_size [OF live, of 0] assms(4) by (simp add: walk)
  have one: "of_nat (length t) + 1 = (of_nat (Suc (length t)) :: size_t)" by simp
  have u: "unat (of_nat (length t) :: size_t) = length t" "unat (of_nat (Suc (length t)) :: size_t) = Suc (length t)"
    using assms(5) by (simp_all add: unat_of_nat del: of_nat_Suc)
  have "walk_list (lxb_dom_node_text_content_concatenate d) xs (replicate (Suc (length t)) None, 0) =
      Some ((map Some t @ [None], length t), False)"
    using walk_concat [OF live, of 0 "replicate (Suc (length t)) None"] unfolding assms(4) [symmetric]
    by (simp add: drop_replicate replicate_Suc [of 0] del: replicate_Suc)
  then have "lxb_dom_node_simple_walk (nodes d) a (lxb_dom_node_text_content_concatenate d) (replicate (Suc (length t)) None, 0) =
      Some (map Some t @ [None], length t)"
    by (simp add: walk)
  moreover have "block_copy (map Some t @ [None]) (length t) [0] 1 = Some (map Some (t @ [0]))"
    by (simp add: block_copy_def)
  ultimately show ?thesis
    using n size u by (simp add: lxb_dom_node_text_content_def one del: of_nat_Suc)
qed

section \<open>Properties of the searches\<close>

text \<open>C31: Searching an HTML document, all elements of which are in the HTML namespace, for a tag name without a prefix returns, appended to the collection in
  document order, exactly the elements below the root that have the tag of this name; when
  memory runs out, a beginning of this list, and an error.\<close>

theorem elements_by_tag_name_complete:
  assumes "html_doc d ch al" "root \<in> dom (nodes d)" "preorder ch (ch root) xs"
    and "arr_inv col" "length (arr_abs col) + card (dom (nodes d)) \<le> 2 ^ 59"
    and "0x3A \<notin> set nm" "nm \<noteq> [0x2A]"
  shows "\<exists>col' st ys zs. lxb_dom_elements_by_tag_name alloc tid d root col nm = Some (col', st) \<and> arr_inv col' \<and>
    filter (\<lambda>a. tid nm \<noteq> LXB_TAG__UNDEF \<and> is_element d a \<and> has_tag d (tid nm) a) xs = ys @ zs \<and>
    arr_abs col' = arr_abs col @ ys \<and> (st = LXB_STATUS_OK \<longleftrightarrow> zs = []) \<and> ((\<forall>n. alloc n) \<longrightarrow> st = LXB_STATUS_OK)"
  using by_tag_collected [OF assms, of alloc tid] unfolding collected_def .

lemma ex_tree_node:
  assumes "ex_tree a = Some n"
  shows "\<exists>m. ex_nodes a = Some m \<and> nd_ns m = nd_ns n \<and> nd_tag_id m = nd_tag_id n \<and> nd_type m = nd_type n"
proof -
  have "data_of ex_tree a = data_of ex_nodes a" by (simp add: ex_tree_inv(3))
  with assms show ?thesis by (cases "ex_nodes a") (auto simp: data_of_def)
qed

lemma ex_doc_html: "html_doc ex_doc ex_children (\<lambda>a. [10, 11])" "is_element ex_doc a \<longleftrightarrow> a = 2"
proof -
  have el: "a = 2" if "is_element ex_doc a" for a
    using that ex_tree_node [of a] by (auto simp: is_element_def ex_nodes_def leaf_node_def split: if_splits)
  moreover have "is_element ex_doc 2" using ex_tree_data(1) by (auto simp: is_element_def)
  ultimately show iff: "is_element ex_doc a \<longleftrightarrow> a = 2" for a by blast
  have "texts ex_doc a \<noteq> None" if "ex_tree a = Some n" "nd_type n = LXB_DOM_NODE_TYPE_TEXT" for a n
    using ex_tree_node [OF that(1)] that(2) by (auto simp: ex_nodes_def leaf_node_def ex_doc_def split: if_splits)
  moreover have "html_named ex_doc a" if "ex_tree a \<noteq> None" for a
  proof -
    from that obtain n where n: "ex_tree a = Some n" by auto
    then have "nd_ns n = LXB_NS_HTML" using ex_tree_node [OF n] by (auto simp: ex_nodes_def leaf_node_def split: if_splits)
    with n el [of a] show ?thesis by (auto simp: html_named_def is_element_def ex_doc_def)
  qed
  moreover have "attr_rep ex_doc a [10, 11]" if "is_element ex_doc a" for a using el [OF that] ex_doc_attrs(1) by simp
  ultimately show "html_doc ex_doc ex_children (\<lambda>a. [10, 11])" using ex_tree_inv(1) by (auto simp: html_doc_def)
qed

theorem elements_by_tag_name_complete_witness:
  "\<exists>col' st. lxb_dom_elements_by_tag_name (\<lambda>n. True) (\<lambda>s. if s = [0x70] then 0x91 else 0) ex_doc 1 ex_array [0x70] = Some (col', st) \<and>
    st = LXB_STATUS_OK \<and> arr_abs col' = [5, 6, 2]"
proof -
  let ?tid = "\<lambda>s :: lxb_char list. if s = [0x70] then 0x91 else 0 :: lxb_tag_id"
  have "has_tag ex_doc 0x91 2" using ex_tree_data(1) by (auto simp: has_tag_def)
  then have f: "filter (\<lambda>a. ?tid [0x70] \<noteq> LXB_TAG__UNDEF \<and> is_element ex_doc a \<and> has_tag ex_doc (?tid [0x70]) a) [2, 3, 4] = [2]"
    by (simp add: ex_doc_html(2))
  have "length (arr_abs ex_array) + card (dom (nodes ex_doc)) \<le> 2 ^ 59"
    by (simp add: ex_array_ok ex_tree_inv(2))
  then show ?thesis
    using elements_by_tag_name_complete [OF ex_doc_html(1) _ ex_tree_preorder ex_array_ok(1), of "[0x70]" "\<lambda>n. True" ?tid]
    unfolding f ex_array_ok(2) by (auto simp: ex_tree_inv(2))
qed

text \<open>C35: The four searches by attribute compare the value of the attribute, exactly or up to case: with the whole
  value, with a beginning, with an end, and with any part of it.\<close>

theorem attribute_tests:
  "lxb_dom_elements_by_attr_cmp_full v (Some b) = Some (same_name False b v) \<and>
   lxb_dom_elements_by_attr_cmp_full_case v (Some b) = Some (same_name True b v) \<and>
   lxb_dom_elements_by_attr_cmp_begin v (Some b) = Some (\<exists>u c. b = u @ c \<and> same_name False u v) \<and>
   lxb_dom_elements_by_attr_cmp_begin_case v (Some b) = Some (\<exists>u c. b = u @ c \<and> same_name True u v) \<and>
   lxb_dom_elements_by_attr_cmp_end v (Some b) = Some (\<exists>a u. b = a @ u \<and> same_name False u v) \<and>
   lxb_dom_elements_by_attr_cmp_end_case v (Some b) = Some (\<exists>a u. b = a @ u \<and> same_name True u v) \<and>
   lxb_dom_elements_by_attr_cmp_contain v (Some b) = Some (\<exists>a u c. b = a @ u @ c \<and> same_name False u v) \<and>
   lxb_dom_elements_by_attr_cmp_contain_case v (Some b) = Some (\<exists>a u c. b = a @ u @ c \<and> same_name True u v)"
proof -
  have len: "same_name ci u v \<Longrightarrow> length u = length v" for ci u by (auto simp: same_name_def dest: map_lowercase_length split: if_splits)
  have first: "(\<exists>u c. b = u @ c \<and> same_name ci u v) \<longleftrightarrow> length v \<le> length b \<and> same_name ci (take (length v) b) v" for ci
    using len by (auto, metis append_take_drop_id)
  have last: "(\<exists>a u. b = a @ u \<and> same_name ci u v) \<longleftrightarrow> length v \<le> length b \<and> same_name ci (drop (length b - length v) b) v" for ci
    using len by (auto, metis append_take_drop_id)
  have part: "(\<exists>a u c. b = a @ u @ c \<and> same_name ci u v) \<longleftrightarrow>
      (\<exists>j. length v + j \<le> length b \<and> same_name ci (take (length v) (drop j b)) v)" for ci
  proof
    assume "\<exists>a u c. b = a @ u @ c \<and> same_name ci u v"
    then obtain a u c where "b = a @ u @ c" "same_name ci u v" by blast
    with len show "\<exists>j. length v + j \<le> length b \<and> same_name ci (take (length v) (drop j b)) v"
      by (intro exI [of _ "length a"]) auto
  next
    assume "\<exists>j. length v + j \<le> length b \<and> same_name ci (take (length v) (drop j b)) v"
    then obtain j where "same_name ci (take (length v) (drop j b)) v" by blast
    moreover have "b = take j b @ take (length v) (drop j b) @ drop (length v) (drop j b)" by (metis append_take_drop_id)
    ultimately show "\<exists>a u c. b = a @ u @ c \<and> same_name ci u v" by blast
  qed
  have in_b: "take (length v) (drop j (b @ [0])) = take (length v) (drop j b)" if "length v + j \<le> length b" for j
    using that by simp
  have contain: "lexbor_str_data_ncmp_contain (b @ [0]) (length b) v (length v) =
      Some (\<exists>j. length v + j \<le> length b \<and> take (length v) (drop j b) = v)"
    "lexbor_str_data_ncasecmp_contain (b @ [0]) (length b) v (length v) =
      Some (\<exists>j. length v + j \<le> length b \<and> map lowercase (take (length v) (drop j b)) = map lowercase v)"
    unfolding lexbor_str_data_ncmp_contain_def lexbor_str_data_ncasecmp_contain_def
    using str_contain_iff [of "length v" lexbor_str_data_ncmp v "\<lambda>ys. take (length v) ys = v" "length b" "b @ [0]" 0]
      str_contain_iff [of "length v" lexbor_str_data_ncasecmp v "\<lambda>ys. map lowercase (take (length v) ys) = map lowercase v" "length b" "b @ [0]" 0]
    by (auto simp: lexbor_str_data_ncmp_def ncasecmp_eq in_b cong: conj_cong)
  show ?thesis
    unfolding first last part
    by (intro conjI) (auto simp: lxb_dom_elements_by_attr_cmp_full_def lxb_dom_elements_by_attr_cmp_full_case_def
      lxb_dom_elements_by_attr_cmp_begin_def lxb_dom_elements_by_attr_cmp_begin_case_def
      lxb_dom_elements_by_attr_cmp_end_def lxb_dom_elements_by_attr_cmp_end_case_def
      lxb_dom_elements_by_attr_cmp_contain_def lxb_dom_elements_by_attr_cmp_contain_case_def
      ncasecmp_eq lexbor_str_data_ncmp_def same_name_def ncasecmp_end_eq ncmp_end_eq contain
      dest: map_lowercase_length)
qed

text \<open>C32: In a document with all elements in the HTML namespace, the text content of an element is the concatenation of the texts below it in document order, in a block
  of exactly its length and a terminating NUL, or NULL when this block cannot be allocated;
  the copies stay inside the block.\<close>

theorem text_content_is_concat:
  assumes "html_doc d ch al" "is_element d a" "preorder ch (ch a) xs" "t = concat (map (text_of d) xs)" "Suc (length t) < 2 ^ 64"
  shows "lxb_dom_node_text_content alloc d a =
    Some (if alloc (of_nat (Suc (length t))) then Some (map Some (t @ [0]), of_nat (length t)) else None)"
  using assms by (rule text_content_element)

lemma ex_doc_text: "preorder ex_children (ex_children 2) [3]" "concat (map (text_of ex_doc) [3]) = [0x68, 0x69]"
proof -
  have "preorder ex_children [3] (3 # [] @ [])"
    by (intro preorder.Cons) (simp_all add: ex_children_def preorder.Nil)
  then show "preorder ex_children (ex_children 2) [3]" by (simp add: ex_children_def)
  show "concat (map (text_of ex_doc) [3]) = [0x68, 0x69]"
    using ex_tree_data(2) [of 3] by (auto simp: text_of_def) (simp_all add: ex_doc_def)
qed

theorem text_content_is_concat_witness:
  "lxb_dom_node_text_content (\<lambda>n. n < 100) ex_doc 2 = Some (Some ([Some 0x68, Some 0x69, Some 0], 2))"
  using text_content_is_concat [OF ex_doc_html(1) _ ex_doc_text(1) ex_doc_text(2) [symmetric], of "\<lambda>n. n < 100"]
  by (simp add: ex_doc_html(2))

end
