(* ===== verification/Doc_Extract.thy ===== *)
theory Doc_Extract
  imports Dom_Search
begin

text \<open>
  The extraction of a news document (\<open>html_parse.hpp\<close>): the class \<open>LXBCollection\<close>, and the methods
  \<open>GetRawAttribute\<close>, \<open>ParseMeta\<close>, \<open>ParseText\<close> and \<open>ParseLinks\<close> of \<open>HTMLDocument\<close>, which run on the
  document tree that the parser has built.  A \<open>std::string\<close> is a list of bytes; the string that is
  constructed from a NULL pointer and the length 0 is empty.

  \<open>alloc\<close> is the allocator and \<open>tid\<close> the lookup of tags by name, as in \<open>Dom_Element\<close>.
\<close>

section \<open>The methods\<close>

definition bytes :: "string \<Rightarrow> lxb_char list" where
  "bytes s = map of_char s"

text \<open>\<open>lxb_dom_collection_make\<close>: NULL when the array cannot be allocated.\<close>

definition lxb_dom_collection_make :: "(size_t \<Rightarrow> bool) \<Rightarrow> size_t \<Rightarrow> lexbor_array option" where
  "lxb_dom_collection_make alloc start_list_size =
    (case lexbor_array_init alloc (Some \<lparr> ar_list = None, ar_size = 0, ar_length = 0 \<rparr>) start_list_size of
       (col, st) \<Rightarrow> if st \<noteq> LXB_STATUS_OK then None else col)"

text \<open>The constructor of \<open>LXBCollection\<close> does not look at the status of the search; a NULL collection is
  dereferenced.\<close>

definition LXBCollection :: "(size_t \<Rightarrow> bool) \<Rightarrow> (lxb_char list \<Rightarrow> lxb_tag_id) \<Rightarrow> lxb_dom_document \<Rightarrow> addr \<Rightarrow> size_t \<Rightarrow> string \<Rightarrow> lexbor_array option" where
  "LXBCollection alloc tid d document n tag_name = do {
     col \<leftarrow> lxb_dom_collection_make alloc n;
     r \<leftarrow> lxb_dom_elements_by_tag_name alloc tid d document col (bytes tag_name);
     Some (fst r)
   }"

text \<open>\<open>for (size_t i = 0; i < collection.Size(); ++i)\<close> with the element at \<open>i\<close>.\<close>

function for_elements :: "lexbor_array \<Rightarrow> (addr \<Rightarrow> 's \<Rightarrow> 's option) \<Rightarrow> nat \<Rightarrow> 's \<Rightarrow> 's option" where
  "for_elements col body i s =
    (if i < unat (ar_length col) then do {
       element \<leftarrow> lexbor_array_get col (of_nat i);
       s \<leftarrow> body element s;
       for_elements col body (Suc i) s
     } else Some s)"
  by pat_completeness auto
termination by (relation "measure (\<lambda>(col, _, i, _). unat (ar_length col) - i)") auto

declare for_elements.simps [simp del]

definition GetRawAttribute :: "lxb_dom_document \<Rightarrow> addr \<Rightarrow> string \<Rightarrow> lxb_char list option" where
  "GetRawAttribute d node attribute_name = do {
     v \<leftarrow> lxb_dom_element_get_attribute d node (bytes attribute_name);
     Some (case v of None \<Rightarrow> [] | Some b \<Rightarrow> b)
   }"

definition ParseMeta :: "(size_t \<Rightarrow> bool) \<Rightarrow> (lxb_char list \<Rightarrow> lxb_tag_id) \<Rightarrow> lxb_dom_document \<Rightarrow> addr
    \<Rightarrow> (lxb_char list \<rightharpoonup> lxb_char list) \<Rightarrow> (lxb_char list \<rightharpoonup> lxb_char list) option" where
  "ParseMeta alloc tid d document meta = do {
     collection \<leftarrow> LXBCollection alloc tid d document 50 ''meta'';
     for_elements collection (\<lambda>element meta. do {
       property \<leftarrow> GetRawAttribute d element ''property'';
       if length property > 0 then do {
         v \<leftarrow> GetRawAttribute d element ''content'';
         Some (meta(property \<mapsto> v))
       } else Some meta
     }) 0 meta
   }"

definition ParseText :: "(size_t \<Rightarrow> bool) \<Rightarrow> (lxb_char list \<Rightarrow> lxb_tag_id) \<Rightarrow> lxb_dom_document \<Rightarrow> addr \<Rightarrow> lxb_char list option" where
  "ParseText alloc tid d document = do {
     collection \<leftarrow> LXBCollection alloc tid d document 50 ''p'';
     for_elements collection (\<lambda>element txt. do {
       r \<leftarrow> lxb_dom_node_text_content alloc d element;
       (case r of
          None \<Rightarrow> Some txt
        | Some (b, text_size) \<Rightarrow>
            if unat text_size \<le> length b \<and> None \<notin> set (take (unat text_size) b)
            then Some (txt @ map the (take (unat text_size) b)) else None)
     }) 0 []
   }"

definition ParseLinks :: "(size_t \<Rightarrow> bool) \<Rightarrow> (lxb_char list \<Rightarrow> lxb_tag_id) \<Rightarrow> lxb_dom_document \<Rightarrow> addr
    \<Rightarrow> lxb_char list list \<Rightarrow> lxb_char list list option" where
  "ParseLinks alloc tid d document links = do {
     collection \<leftarrow> LXBCollection alloc tid d document 50 ''related'';
     if unat (ar_length collection) > 0 then do {
       collection_a \<leftarrow> LXBCollection alloc tid d document 20 ''a'';
       for_elements collection_a (\<lambda>element links. do {
         href \<leftarrow> GetRawAttribute d element ''href'';
         Some (if length href > 0 then links @ [href] else links)
       }) 0 links
     }
     else Some links
   }"

section \<open>The loop over a collection\<close>

lemma for_elements_list:
  assumes "arr_inv col" "i \<le> length (arr_abs col)" "\<And>a s. a \<in> set (arr_abs col) \<Longrightarrow> body a s = Some (f a s)"
  shows "for_elements col body i s = Some (fold f (drop i (arr_abs col)) s)"
  using assms(2)
proof (induction "length (arr_abs col) - i" arbitrary: i s)
  case 0
  moreover have "unat (ar_length col) = length (arr_abs col)" using assms(1) by (rule arr_invE)
  ultimately show ?case by (simp add: for_elements.simps)
next
  case (Suc n)
  have len: "unat (ar_length col) = length (arr_abs col)" "unat (ar_size col) \<le> 2 ^ 60" "length (arr_abs col) \<le> unat (ar_size col)"
    using assms(1) by (auto elim!: arr_invE)
  have i: "i < length (arr_abs col)" using Suc.hyps(2) by simp
  then have "unat (of_nat i :: size_t) = i" using len by (simp add: unat_of_nat)
  then have "lexbor_array_get col (of_nat i) = Some (arr_abs col ! i)" using get_ok [OF assms(1), of "of_nat i"] i by simp
  moreover have "drop i (arr_abs col) = arr_abs col ! i # drop (Suc i) (arr_abs col)" using i by (simp add: Cons_nth_drop_Suc)
  moreover have "for_elements col body (Suc i) s' = Some (fold f (drop (Suc i) (arr_abs col)) s')" for s'
    using Suc.hyps(2) i by (intro Suc.hyps(1)) simp_all
  ultimately show ?case
    using i len(1) assms(3) [of "arr_abs col ! i"] by (subst for_elements.simps) simp
qed

lemma for_elements_all:
  assumes "arr_inv col" "arr_abs col = xs" "\<And>a s. a \<in> set xs \<Longrightarrow> body a s = Some (f a s)"
  shows "for_elements col body 0 s = Some (fold f xs s)"
  using for_elements_list [OF assms(1), of 0 body f s] assms(2,3) by simp

section \<open>Collections when memory suffices\<close>

lemma collection_make_empty:
  assumes "n \<noteq> 0" "unat n \<le> 2 ^ 60" "\<And>n. alloc n"
  shows "\<exists>col. lxb_dom_collection_make alloc n = Some col \<and> arr_inv col \<and> arr_abs col = []"
proof -
  obtain a' where "lexbor_array_init alloc (Some \<lparr> ar_list = None, ar_size = 0, ar_length = 0 \<rparr>) n = (Some a', LXB_STATUS_OK)"
    "arr_inv a'" "arr_abs a' = []"
    using init_ok [OF assms(1,2), of alloc] assms(3) by blast
  then show ?thesis by (simp add: lxb_dom_collection_make_def)
qed

text \<open>The elements with the tag of a name, in document order; \<open>ord\<close> gives the nodes below a node in this order.\<close>

definition tagged :: "(lxb_char list \<Rightarrow> lxb_tag_id) \<Rightarrow> lxb_dom_document \<Rightarrow> (addr \<Rightarrow> addr list) \<Rightarrow> addr \<Rightarrow> string \<Rightarrow> addr list" where
  "tagged tid d ord root nm =
     filter (\<lambda>a. tid (bytes nm) \<noteq> LXB_TAG__UNDEF \<and> is_element d a \<and> has_tag d (tid (bytes nm)) a) (ord root)"

text \<open>The situation in which the documents are read: all elements are in the HTML name space (\<^const>\<open>html_doc\<close>; the document has no SVG
  and MathML elements, which the parser puts into other name spaces), memory suffices, and there are at most \<open>2 ^ 58\<close> nodes.\<close>

definition readable :: "(size_t \<Rightarrow> bool) \<Rightarrow> lxb_dom_document \<Rightarrow> (addr \<Rightarrow> addr list) \<Rightarrow> (addr \<Rightarrow> addr list) \<Rightarrow> (addr \<Rightarrow> addr list) \<Rightarrow> addr \<Rightarrow> bool" where
  "readable alloc d ch al ord root \<longleftrightarrow> html_doc d ch al \<and> html d \<and> (\<forall>n. alloc n) \<and> root \<in> dom (nodes d) \<and>
     card (dom (nodes d)) \<le> 2 ^ 58 \<and> (\<forall>a. preorder ch (ch a) (ord a))"

lemma LXBCollection_tagged:
  assumes "readable alloc d ch al ord root" "n \<noteq> 0" "unat n \<le> 2 ^ 60" "0x3A \<notin> set (bytes nm)" "bytes nm \<noteq> [0x2A]"
  shows "\<exists>col. LXBCollection alloc tid d root n nm = Some col \<and> arr_inv col \<and> arr_abs col = tagged tid d ord root nm"
proof -
  from assms(1) have r: "html_doc d ch al" "root \<in> dom (nodes d)" "card (dom (nodes d)) \<le> 2 ^ 58" "\<And>n. alloc n" "preorder ch (ch root) (ord root)"
    by (auto simp: readable_def)
  obtain col where col: "lxb_dom_collection_make alloc n = Some col" "arr_inv col" "arr_abs col = []"
    using collection_make_empty [OF assms(2,3), of alloc] r(4) by blast
  have "collected alloc col (tagged tid d ord root nm) (lxb_dom_elements_by_tag_name alloc tid d root col (bytes nm))"
    unfolding tagged_def using r(3) col(3) by (intro by_tag_collected [OF r(1,2,5) col(2) _ assms(4,5)]) simp
  then obtain col' st ys zs where c: "lxb_dom_elements_by_tag_name alloc tid d root col (bytes nm) = Some (col', st)" "arr_inv col'"
    "tagged tid d ord root nm = ys @ zs" "arr_abs col' = arr_abs col @ ys" "st = LXB_STATUS_OK \<longleftrightarrow> zs = []"
    "(\<forall>n. alloc n) \<longrightarrow> st = LXB_STATUS_OK"
    unfolding collected_def by blast
  with r(4) col show ?thesis by (simp add: LXBCollection_def)
qed

section \<open>What is extracted\<close>

text \<open>The value of the attribute \<open>nm\<close> of an element, empty when there is none.\<close>

definition attr_text :: "lxb_dom_document \<Rightarrow> (addr \<Rightarrow> addr list) \<Rightarrow> addr \<Rightarrow> string \<Rightarrow> lxb_char list" where
  "attr_text d al a nm = (case lookup d True (al a) (bytes nm) of None \<Rightarrow> [] | Some b \<Rightarrow> b)"

lemma tagged_element: "a \<in> set (tagged tid d ord root nm) \<Longrightarrow> is_element d a"
  by (simp add: tagged_def)

lemma raw_attribute:
  assumes "readable alloc d ch al ord root" "is_element d a"
  shows "GetRawAttribute d a nm = Some (attr_text d al a nm)"
proof -
  have doc: "html_doc d ch al" "html d" using assms(1) by (auto simp: readable_def)
  obtain n where n: "nodes d a = Some n" "nd_type n = LXB_DOM_NODE_TYPE_ELEMENT" using assms(2) by (auto simp: is_element_def)
  then have "html_named d a" "attr_rep d a (al a)" using doc(1) assms(2) by (auto simp: html_doc_def)
  moreover from this n have "nd_ns n = LXB_NS_HTML" by (auto simp: html_named_def)
  ultimately show ?thesis
    using get_attribute_lookup [of d a "al a" n "bytes nm"] n(1) doc(2) by (simp add: GetRawAttribute_def attr_text_def)
qed

text \<open>The example document can be read.\<close>

definition ex_ord :: "addr \<Rightarrow> addr list" where
  "ex_ord a = (if a = 1 then [2, 3, 4] else if a = 2 then [3] else [])"

definition ex_tid :: "lxb_char list \<Rightarrow> lxb_tag_id" where
  "ex_tid s = (if s = bytes ''p'' then 0x91 else if s = bytes ''a'' then 6 else LXB_TAG__UNDEF)"

lemma ex_readable: "readable (\<lambda>n. True) ex_doc ex_children (\<lambda>a. [10, 11]) ex_ord 1"
proof -
  have "preorder ex_children (ex_children a) (ex_ord a)" for a
  proof -
    consider "a = 1" | "a = 2" | "a \<noteq> 1" "a \<noteq> 2" by blast
    then show ?thesis
    proof cases
      case 1
      then show ?thesis using ex_tree_preorder by (simp add: ex_ord_def)
    next
      case 2
      then show ?thesis using ex_doc_text(1) by (simp add: ex_ord_def)
    next
      case 3
      then show ?thesis by (simp add: ex_ord_def ex_children_def preorder.Nil)
    qed
  qed
  then show ?thesis using ex_doc_html(1) by (simp add: readable_def ex_tree_inv(2))
qed

lemma ex_tagged: "tagged (\<lambda>s. 0x91) ex_doc ex_ord 1 nm = [2]" "tagged ex_tid ex_doc ex_ord 1 ''p'' = [2]"
proof -
  have "has_tag ex_doc 0x91 2" using ex_tree_data(1) by (auto simp: has_tag_def)
  then show "tagged (\<lambda>s. 0x91) ex_doc ex_ord 1 nm = [2]" "tagged ex_tid ex_doc ex_ord 1 ''p'' = [2]"
    by (simp_all add: tagged_def ex_tid_def ex_ord_def ex_doc_html(2))
qed

lemma ex_attr_text: "attr_text ex_doc (\<lambda>a. [10, 11]) 2 ''property'' = bytes ''t''" "attr_text ex_doc (\<lambda>a. [10, 11]) 2 ''content'' = bytes ''v''"
    "attr_text ex_doc (\<lambda>a. [10, 11]) 2 ''href'' = []"
  by (simp_all add: attr_text_def lookup_def same_name_def name_of_def value_of_def lxb_dom_attr_value_def ex_doc_def ex_attr_def
      new_attr_def bytes_def lowercase_def tbl_by_spec [OF lower_table] ascii_lower_def)

lemma ParseMeta_eq:
  assumes "readable alloc d ch al ord root"
  shows "ParseMeta alloc tid d root meta = Some (fold (\<lambda>a m. if attr_text d al a ''property'' = [] then m
    else m(attr_text d al a ''property'' \<mapsto> attr_text d al a ''content'')) (tagged tid d ord root ''meta'') meta)"
proof -
  obtain col where col: "LXBCollection alloc tid d root 50 ''meta'' = Some col" "arr_inv col" "arr_abs col = tagged tid d ord root ''meta''"
    using LXBCollection_tagged [OF assms, of 50 "''meta''" tid] by (auto simp: bytes_def)
  then show ?thesis
    unfolding ParseMeta_def col(1)
    by (simp, intro for_elements_all [OF col(2,3)]) (simp add: raw_attribute [OF assms tagged_element])
qed

text \<open>C10: Reading the meta data of a readable document (all elements in the HTML name space, and memory suffices) goes over its \<open>meta\<close> elements in document order and records for
  each with a non-empty \<open>property\<close> attribute the value of its \<open>content\<close> attribute; of elements
  with the same property the last one counts.\<close>

theorem parse_meta_extracts:
  assumes "readable alloc d ch al ord root"
  shows "ParseMeta alloc tid d root meta = Some (fold (\<lambda>a m. if attr_text d al a ''property'' = [] then m
    else m(attr_text d al a ''property'' \<mapsto> attr_text d al a ''content'')) (tagged tid d ord root ''meta'') meta)"
  using assms by (rule ParseMeta_eq)

theorem parse_meta_extracts_witness:
  "ParseMeta (\<lambda>n. True) (\<lambda>s. 0x91) ex_doc 1 Map.empty = Some [bytes ''t'' \<mapsto> bytes ''v'']"
  using parse_meta_extracts [OF ex_readable, of "\<lambda>s. 0x91" Map.empty] unfolding ex_tagged
  by (simp add: ex_attr_text bytes_def)

lemma ParseText_eq:
  assumes "readable alloc d ch al ord root"
    and "\<forall>a \<in> set (tagged tid d ord root ''p''). Suc (length (concat (map (text_of d) (ord a)))) < 2 ^ 64"
  shows "ParseText alloc tid d root = Some (concat (map (\<lambda>a. concat (map (text_of d) (ord a))) (tagged tid d ord root ''p'')))"
proof -
  have doc: "html_doc d ch al" "\<And>n. alloc n" "\<And>a. preorder ch (ch a) (ord a)" using assms(1) by (auto simp: readable_def)
  obtain col where col: "LXBCollection alloc tid d root 50 ''p'' = Some col" "arr_inv col" "arr_abs col = tagged tid d ord root ''p''"
    using LXBCollection_tagged [OF assms(1), of 50 "''p''" tid] by (auto simp: bytes_def)
  let ?t = "\<lambda>a. concat (map (text_of d) (ord a))"
  have content: "lxb_dom_node_text_content alloc d a = Some (Some (map Some (?t a @ [0]), of_nat (length (?t a))))"
    "unat (of_nat (length (?t a)) :: size_t) = length (?t a)"
    if "a \<in> set (arr_abs col)" for a
  proof -
    have le: "Suc (length (?t a)) < 2 ^ 64" using assms(2) that col(3) by auto
    show "lxb_dom_node_text_content alloc d a = Some (Some (map Some (?t a @ [0]), of_nat (length (?t a))))"
      using text_content_element [OF doc(1) _ doc(3) refl le, of alloc] doc(2) tagged_element that col(3) by auto
    show "unat (of_nat (length (?t a)) :: size_t) = length (?t a)" using le by (simp add: unat_of_nat)
  qed
  have "fold (\<lambda>a s. s @ ?t a) xs s = s @ concat (map ?t xs)" for xs s by (induction xs arbitrary: s) auto
  moreover have "ParseText alloc tid d root = Some (fold (\<lambda>a s. s @ ?t a) (tagged tid d ord root ''p'') [])"
    unfolding ParseText_def col(1)
    by (simp, intro for_elements_all [OF col(2,3)]) (auto simp: content [unfolded col(3)])
  ultimately show ?thesis by simp
qed

text \<open>C9: The text of a readable document (all elements in the HTML name space, and memory suffices) is the concatenation, over its \<open>p\<close> elements in document order, of the texts below
  each of them in document order.\<close>

theorem parse_text_extracts:
  assumes "readable alloc d ch al ord root"
    and "\<forall>a \<in> set (tagged tid d ord root ''p''). Suc (length (concat (map (text_of d) (ord a)))) < 2 ^ 64"
  shows "ParseText alloc tid d root = Some (concat (map (\<lambda>a. concat (map (text_of d) (ord a))) (tagged tid d ord root ''p'')))"
  using assms by (rule ParseText_eq)

theorem parse_text_extracts_witness:
  "ParseText (\<lambda>n. True) ex_tid ex_doc 1 = Some [0x68, 0x69]"
proof -
  have "concat (map (text_of ex_doc) (ex_ord 2)) = [0x68, 0x69]" using ex_doc_text(2) by (simp add: ex_ord_def)
  with parse_text_extracts [OF ex_readable, of ex_tid] show ?thesis unfolding ex_tagged by simp
qed

lemma ParseLinks_eq:
  assumes "readable alloc d ch al ord root"
  shows "ParseLinks alloc tid d root links = Some (links @ (if tagged tid d ord root ''related'' = [] then []
    else filter (\<lambda>l. l \<noteq> []) (map (\<lambda>a. attr_text d al a ''href'') (tagged tid d ord root ''a''))))"
proof -
  obtain col where col: "LXBCollection alloc tid d root 50 ''related'' = Some col" "arr_inv col" "arr_abs col = tagged tid d ord root ''related''"
    using LXBCollection_tagged [OF assms, of 50 "''related''" tid] by (auto simp: bytes_def)
  obtain cola where cola: "LXBCollection alloc tid d root 20 ''a'' = Some cola" "arr_inv cola" "arr_abs cola = tagged tid d ord root ''a''"
    using LXBCollection_tagged [OF assms, of 20 "''a''" tid] by (auto simp: bytes_def)
  have len: "unat (ar_length col) = length (arr_abs col)" using col(2) by (rule arr_invE)
  have "fold (\<lambda>a l. if f a = [] then l else l @ [f a]) xs l = l @ filter (\<lambda>l. l \<noteq> []) (map f xs)" for f :: "addr \<Rightarrow> lxb_char list" and xs l
    by (induction xs arbitrary: l) auto
  moreover have "for_elements cola (\<lambda>element links. do {
        href \<leftarrow> GetRawAttribute d element ''href'';
        Some (if length href > 0 then links @ [href] else links) }) 0 links =
      Some (fold (\<lambda>a l. if attr_text d al a ''href'' = [] then l else l @ [attr_text d al a ''href'']) (tagged tid d ord root ''a'') links)"
    by (intro for_elements_all [OF cola(2,3)]) (simp add: raw_attribute [OF assms tagged_element])
  ultimately show ?thesis
    unfolding ParseLinks_def col(1) cola(1) by (simp add: len col(3))
qed

text \<open>C11: When a readable document (all elements in the HTML name space, and memory suffices) has a \<open>related\<close> element, its links are the non-empty \<open>href\<close> attributes of all \<open>a\<close>
  elements of the document, in document order; otherwise there are none.\<close>

theorem parse_links_extracts:
  assumes "readable alloc d ch al ord root"
  shows "ParseLinks alloc tid d root links = Some (links @ (if tagged tid d ord root ''related'' = [] then []
    else filter (\<lambda>l. l \<noteq> []) (map (\<lambda>a. attr_text d al a ''href'') (tagged tid d ord root ''a''))))"
  using assms by (rule ParseLinks_eq)

theorem parse_links_extracts_witness: "ParseLinks (\<lambda>n. True) (\<lambda>s. 0x91) ex_doc 1 [] = Some []"
  using parse_links_extracts [OF ex_readable, of "\<lambda>s. 0x91" "[]"] unfolding ex_tagged by (simp add: ex_attr_text)

end
