(* ===== verification/Tgn_Docs.thy ===== *)
theory Tgn_Docs
  imports Tgn_Pool Doc_Extract
begin

text \<open>
  Documents and languages: \<open>GlobHTML\<close> (\<open>utils.hpp\<close>), the class \<open>HTMLDocument\<close> (\<open>html_parse.hpp\<close>),
  \<open>LoadDocs\<close> and \<open>DumpLanguage\<close> (\<open>io.hpp\<close>), \<open>RecognizeLanguage\<close> (\<open>langrec.hpp\<close>).

  In this and the following theories \<^const>\<open>None\<close> means that the program does not go on: an
  exception that nothing catches (\<open>at\<close>, \<open>substr\<close>, \<open>compare\<close> out of range), or undefined behaviour.
  A \<open>std::string\<close> is a list of bytes, an \<open>unordered_map\<close> a partial map.

  Parameters: \<open>read\<close> gives the contents of a file, \<open>parse\<close> the document tree that
  \<open>lxb_html_document_parse\<close> builds from bytes, with its root; \<open>find_language\<close> is
  \<open>NNetLanguageIdentifier::FindLanguage\<close> of the cld3 library, and \<open>to_string\<close> prints a probability.
\<close>

section \<open>Documents\<close>

record HTMLDocument =
  doc_text :: "lxb_char list"
  doc_meta :: "lxb_char list \<rightharpoonup> lxb_char list"
  doc_links :: "lxb_char list list"

text \<open>The default constructor, also what is left of a document that has been moved from.\<close>

definition HTMLDocument_default :: HTMLDocument where
  "HTMLDocument_default = \<lparr> doc_text = [], doc_meta = Map.empty, doc_links = [] \<rparr>"

definition HTMLDocument_from_file :: "(size_t \<Rightarrow> bool) \<Rightarrow> (lxb_char list \<Rightarrow> lxb_tag_id) \<Rightarrow> (lxb_char list \<Rightarrow> lxb_char list)
    \<Rightarrow> (lxb_char list \<Rightarrow> lxb_dom_document \<times> addr) \<Rightarrow> lxb_char list \<Rightarrow> HTMLDocument option" where
  "HTMLDocument_from_file alloc tid read parse file_path = do {
     let (d, document) = parse (read file_path);
     meta \<leftarrow> ParseMeta alloc tid d document Map.empty;
     txt \<leftarrow> ParseText alloc tid d document;
     links \<leftarrow> ParseLinks alloc tid d document [];
     Some \<lparr> doc_text = txt, doc_meta = meta(bytes ''path'' \<mapsto> file_path), doc_links = links \<rparr>
   }"

definition GetMeta :: "HTMLDocument \<Rightarrow> string \<Rightarrow> lxb_char list" where
  "GetMeta doc key = (case doc_meta doc (bytes key) of None \<Rightarrow> [] | Some v \<Rightarrow> v)"

definition SetMeta :: "HTMLDocument \<Rightarrow> string \<Rightarrow> lxb_char list \<Rightarrow> HTMLDocument" where
  "SetMeta doc key v = doc\<lparr> doc_meta := (doc_meta doc)(bytes key \<mapsto> v) \<rparr>"

lemma GetMeta_SetMeta [simp]:
  "GetMeta (SetMeta doc k v) k' = (if bytes k' = bytes k then v else GetMeta doc k')"
  by (simp add: GetMeta_def SetMeta_def)

lemma SetMeta_text [simp]: "doc_text (SetMeta doc k v) = doc_text doc"
  by (simp add: SetMeta_def)

lemma GetMeta_default [simp]: "GetMeta HTMLDocument_default k = []"
  by (simp add: GetMeta_def HTMLDocument_default_def)

lemma bytes_eq [simp]: "bytes s = bytes t \<longleftrightarrow> s = t"
proof
  have inj: "inj (of_char :: char \<Rightarrow> 8 word)"
  proof (rule injI)
    fix c d :: char
    assume "(of_char c :: 8 word) = of_char d"
    then have "unat (of_char c :: 8 word) = unat (of_char d :: 8 word)" by simp
    moreover have "unat (of_char x :: 8 word) = of_char x" for x :: char
      using of_nat_of_char [of x, where ?'a = "8 word"] unat_of_nat [of "of_char x :: nat", where ?'a = 8] by simp
    ultimately show "c = d" by (simp add: of_char_eq_iff)
  qed
  show "s = t" if "bytes s = bytes t" using that inj_map_eq_map [OF inj] by (simp add: bytes_def)
qed simp

lemma bytes_Nil [simp]: "bytes s = [] \<longleftrightarrow> s = []" "[] = bytes s \<longleftrightarrow> s = []"
  by (auto simp: bytes_def)

section \<open>Files\<close>

text \<open>\<open>file_name.compare(file_name.size() - 5, 5, ".html") == 0\<close>: the subtraction wraps around for a short
  name, and \<open>compare\<close> throws for a position behind the end.\<close>

definition IsHTML :: "lxb_char list \<Rightarrow> bool option" where
  "IsHTML file_name =
    (let pos = (of_nat (length file_name) :: size_t) - 5 in
     if unat pos > length file_name then None
     else Some (take 5 (drop (unat pos) file_name) = bytes ''.html''))"

text \<open>The entries below the folder in the order of the iteration, with whether they are regular files.\<close>

fun GlobHTML :: "(lxb_char list \<times> bool) list \<Rightarrow> lxb_char list list option" where
  "GlobHTML [] = Some []"
| "GlobHTML ((path_name, is_regular_file) # entries) =
    (if is_regular_file then do {
       b \<leftarrow> IsHTML path_name;
       html_files \<leftarrow> GlobHTML entries;
       Some (if b then path_name # html_files else html_files)
     }
     else GlobHTML entries)"

text \<open>\<open>documents->at(start) = HTMLDocument(files.at(start))\<close>\<close>

definition LoadDocsTask :: "(lxb_char list \<Rightarrow> HTMLDocument option) \<Rightarrow> lxb_char list list \<Rightarrow> nat \<Rightarrow> HTMLDocument list \<Rightarrow> HTMLDocument list option" where
  "LoadDocsTask open_file files start documents =
    (if start < length files \<and> start < length documents then do {
       doc \<leftarrow> open_file (files ! start);
       Some (documents[start := doc])
     }
     else None)"

definition LoadDocs :: "(lxb_char list \<Rightarrow> HTMLDocument option) \<Rightarrow> lxb_char list list \<Rightarrow> HTMLDocument list \<Rightarrow> bool" where
  "LoadDocs open_file files documents =
     parallel_for (LoadDocsTask open_file files) (length files) (replicate (length files) HTMLDocument_default) documents"

section \<open>Languages\<close>

text \<open>\<open>lines\<close> are the lines of \<open>meta/site_<language>_lang.txt\<close>; \<open>emplace\<close> keeps an entry that is there.\<close>

definition GetUrl2Lang :: "(string \<Rightarrow> lxb_char list list) \<Rightarrow> lxb_char list \<rightharpoonup> string" where
  "GetUrl2Lang lines =
     fold (\<lambda>lang m. fold (\<lambda>url m. if m url = None then m(url \<mapsto> lang) else m) (lines lang) m)
       [''ru'', ''en'', ''other''] Map.empty"

record 'p langrec_result =
  language :: "lxb_char list"
  probability :: 'p

definition RecogTask :: "(lxb_char list \<rightharpoonup> string) \<Rightarrow> (lxb_char list \<Rightarrow> 'p langrec_result) \<Rightarrow> ('p \<Rightarrow> lxb_char list) \<Rightarrow> bool
    \<Rightarrow> nat \<Rightarrow> HTMLDocument list \<Rightarrow> HTMLDocument list option" where
  "RecogTask site2lang find_language to_string use_lists i documents =
    (if i < length documents then do {
       let html_doc = documents ! i;
       let html_doc = (case (site2lang (GetMeta html_doc ''og:site_name''), use_lists) of
           (Some lang, True) \<Rightarrow> SetMeta (SetMeta html_doc ''lang'' (bytes lang)) ''lang_score'' (bytes ''1'')
         | _ \<Rightarrow> (let r = find_language (doc_text html_doc) in
             SetMeta (SetMeta html_doc ''lang'' (language r)) ''lang_score'' (to_string (probability r))));
       Some (documents[i := html_doc])
     }
     else None)"

definition is_ruen :: "HTMLDocument \<Rightarrow> bool" where
  "is_ruen doc = (GetMeta doc ''lang'' = bytes ''ru'' \<or> GetMeta doc ''lang'' = bytes ''en'')"

text \<open>\<open>for (auto& doc : *documents) if (...) recognized.emplace_back(std::move(doc))\<close>: the documents that are
  collected, and what is left in the vector.\<close>

fun move_ruen :: "HTMLDocument list \<Rightarrow> HTMLDocument list \<times> HTMLDocument list" where
  "move_ruen [] = ([], [])"
| "move_ruen (doc # docs) = (let (recognized, rest) = move_ruen docs in
     if is_ruen doc then (doc # recognized, HTMLDocument_default # rest) else (recognized, doc # rest))"

text \<open>\<open>RecognizeLanguage ... documents (recognized, documents')\<close>: the result and the vector afterwards.\<close>

definition RecognizeLanguage :: "(string \<Rightarrow> lxb_char list list) \<Rightarrow> (lxb_char list \<Rightarrow> 'p langrec_result) \<Rightarrow> ('p \<Rightarrow> lxb_char list) \<Rightarrow> bool
    \<Rightarrow> HTMLDocument list \<Rightarrow> HTMLDocument list \<times> HTMLDocument list \<Rightarrow> bool" where
  "RecognizeLanguage lines find_language to_string use_lists documents result =
    (\<exists>docs. parallel_for (RecogTask (GetUrl2Lang lines) find_language to_string use_lists) (length documents) documents docs \<and>
       result = move_ruen docs)"

section \<open>Output\<close>

datatype json = JNull | JString "lxb_char list" | JArray "json list" | JObject "(string \<times> json) list"

text \<open>\<open>path_prefix.size() + (path_prefix.back() != '/')\<close>\<close>

definition prefix_len :: "lxb_char list \<Rightarrow> nat option" where
  "prefix_len path_prefix =
    (if path_prefix = [] then None else Some (length path_prefix + (if last path_prefix \<noteq> 0x2F then 1 else 0)))"

definition substr :: "lxb_char list \<Rightarrow> nat \<Rightarrow> lxb_char list option" where
  "substr s pos = (if pos > length s then None else Some (drop pos s))"

text \<open>The articles of one language after the loop over the documents, in their order.\<close>

fun lang_articles :: "nat \<Rightarrow> string \<Rightarrow> HTMLDocument list \<Rightarrow> lxb_char list list option" where
  "lang_articles n lang [] = Some []"
| "lang_articles n lang (doc # docs) =
    (if GetMeta doc ''lang'' = bytes lang then do {
       p \<leftarrow> substr (GetMeta doc ''path'') n;
       ps \<leftarrow> lang_articles n lang docs;
       Some (p # ps)
     }
     else lang_articles n lang docs)"

text \<open>\<open>lang2json[lang]\<close>: the field \<open>articles\<close> appears with the first article; fields are printed in the order of their names.\<close>

definition lang_json :: "string \<Rightarrow> lxb_char list list \<Rightarrow> json" where
  "lang_json lang articles =
     JObject ((if articles = [] then [] else [(''articles'', JArray (map JString articles))]) @ [(''lang_code'', JString (bytes lang))])"

definition DumpLanguage :: "HTMLDocument list \<Rightarrow> lxb_char list \<Rightarrow> json option" where
  "DumpLanguage docs path_prefix = do {
     n \<leftarrow> prefix_len path_prefix;
     ru \<leftarrow> lang_articles n ''ru'' docs;
     en \<leftarrow> lang_articles n ''en'' docs;
     Some (JArray [lang_json ''ru'' ru, lang_json ''en'' en])
   }"

section \<open>The loops over the documents\<close>

lemma load_pool:
  assumes "\<And>file. file \<in> set files \<Longrightarrow> open_file file = Some (doc file)"
  shows "worker_pool (LoadDocsTask open_file files) (\<lambda>_. True) (\<lambda>i _. doc (files ! i)) (length files)"
  by unfold_locales (simp add: LoadDocsTask_def assms)

definition recog :: "(lxb_char list \<rightharpoonup> string) \<Rightarrow> (lxb_char list \<Rightarrow> 'p langrec_result) \<Rightarrow> ('p \<Rightarrow> lxb_char list) \<Rightarrow> bool \<Rightarrow> HTMLDocument \<Rightarrow> HTMLDocument" where
  "recog site2lang find_language to_string use_lists doc =
    (if use_lists \<and> site2lang (GetMeta doc ''og:site_name'') \<noteq> None
     then SetMeta (SetMeta doc ''lang'' (bytes (the (site2lang (GetMeta doc ''og:site_name''))))) ''lang_score'' (bytes ''1'')
     else SetMeta (SetMeta doc ''lang'' (language (find_language (doc_text doc)))) ''lang_score''
       (to_string (probability (find_language (doc_text doc)))))"

interpretation recog_pool: worker_pool "RecogTask site2lang find_language to_string use_lists" "\<lambda>_. True" "\<lambda>_. recog site2lang find_language to_string use_lists" n
  for site2lang find_language to_string use_lists n
  by unfold_locales (auto simp: RecogTask_def recog_def Let_def split: option.splits bool.splits)

lemma LoadDocs_iff:
  assumes "\<And>file. file \<in> set files \<Longrightarrow> open_file file = Some (doc file)"
  shows "LoadDocs open_file files documents \<longleftrightarrow> documents = map doc files"
  unfolding LoadDocs_def using worker_pool.parallel_for_iff [OF load_pool [OF assms]] by (simp add: map_cells [of doc])

lemma move_ruen_eq: "move_ruen docs = (filter is_ruen docs, map (\<lambda>d. if is_ruen d then HTMLDocument_default else d) docs)"
  by (induction docs) simp_all

lemma RecognizeLanguage_iff:
  "RecognizeLanguage lines find_language to_string use_lists documents result \<longleftrightarrow>
    result = move_ruen (map (recog (GetUrl2Lang lines) find_language to_string use_lists) documents)"
  unfolding RecognizeLanguage_def
  by (simp add: recog_pool.parallel_for_iff map_cells [of "recog (GetUrl2Lang lines) find_language to_string use_lists"])

lemma lang_articles_eq:
  assumes "\<forall>doc \<in> set docs. n \<le> length (GetMeta doc ''path'')"
  shows "lang_articles n lang docs = Some (map (\<lambda>doc. drop n (GetMeta doc ''path'')) (filter (\<lambda>doc. GetMeta doc ''lang'' = bytes lang) docs))"
  using assms by (induction docs) (auto simp: substr_def)

end
