(* ===== verification/Tgn_Features.thy ===== *)
theory Tgn_Features
  imports Tgn_Docs
begin

text \<open>
  The features of a document: \<open>BOW\<close> and \<open>DocFeatures\<close> (\<open>common.h\<close>), \<open>ReadFeaturesNames\<close> (\<open>io.hpp\<close>) and
  \<open>FeaturesGenerator\<close> with \<open>GenerateFeatures\<close> (\<open>features.hpp\<close>).

  Floating point numbers are a type parameter with the operations that the code uses
  (\<open>fops\<close>), so that nothing is assumed about rounding.  A \<open>BOWDict\<close> is an association list with
  distinct keys, since the code uses its size.  Parameters: \<open>clean\<close> is \<open>CleanText\<close>, two replacements of
  Boost regular expressions, and \<open>analyse\<close> the pipeline of UDPipe for a language, which gives the
  sentences of a text as lists of words; the first word of a sentence is its technical root.
\<close>

section \<open>Numbers\<close>

record 'r fops =
  fzero :: 'r
  fone :: 'r
  fadd :: "'r \<Rightarrow> 'r \<Rightarrow> 'r"
  fsub :: "'r \<Rightarrow> 'r \<Rightarrow> 'r"
  fmul :: "'r \<Rightarrow> 'r \<Rightarrow> 'r"
  fdiv :: "'r \<Rightarrow> 'r \<Rightarrow> 'r"
  fneg :: "'r \<Rightarrow> 'r"
  fexp :: "'r \<Rightarrow> 'r"
  fgreater :: "'r \<Rightarrow> 'r \<Rightarrow> bool"
  fthreshold :: 'r

text \<open>\<open>++x\<close>\<close>

definition finc :: "'r fops \<Rightarrow> 'r \<Rightarrow> 'r" where
  "finc F x = fadd F x (fone F)"

section \<open>Bags of words\<close>

type_synonym BOWDict = "(lxb_char list \<times> nat) list"

definition dict_emplace :: "BOWDict \<Rightarrow> lxb_char list \<Rightarrow> nat \<Rightarrow> BOWDict" where
  "dict_emplace dict key pos = (if map_of dict key = None then dict @ [(key, pos)] else dict)"

text \<open>The words of the file in order; the position advances for repeated words, too.\<close>

fun read_names_loop :: "lxb_char list list \<Rightarrow> nat \<Rightarrow> BOWDict \<Rightarrow> BOWDict" where
  "read_names_loop [] feature_pos dict = dict"
| "read_names_loop (feature # input) feature_pos dict =
     read_names_loop input (Suc feature_pos) (dict_emplace dict feature feature_pos)"

definition ReadFeaturesNames :: "lxb_char list list \<Rightarrow> BOWDict" where
  "ReadFeaturesNames input = read_names_loop input 0 []"

record 'r BOW =
  bag :: "'r list"
  dict :: BOWDict

definition BOW_make :: "'r fops \<Rightarrow> BOWDict \<Rightarrow> 'r BOW" where
  "BOW_make F d = \<lparr> bag = replicate (length d) (fzero F), dict = d \<rparr>"

definition BOW_Update :: "'r fops \<Rightarrow> 'r BOW \<Rightarrow> lxb_char list \<Rightarrow> 'r BOW option" where
  "BOW_Update F b word =
    (case map_of (dict b) word of
       None \<Rightarrow> Some b
     | Some i \<Rightarrow> if i < length (bag b) then Some (b\<lparr> bag := (bag b)[i := finc F (bag b ! i)] \<rparr>) else None)"

definition BOW_Normalize :: "'r fops \<Rightarrow> 'r BOW \<Rightarrow> 'r BOW" where
  "BOW_Normalize F b =
    (let denumerator = fold (\<lambda>v s. fadd F s v) (bag b) (fzero F) in
     if fgreater F denumerator (fzero F) then b\<lparr> bag := map (\<lambda>v. fdiv F v denumerator) (bag b) \<rparr> else b)"

record ('r, 'q) DocFeatures =
  bows :: "string \<rightharpoonup> 'r BOW"
  lemmas_of :: "string \<rightharpoonup> (nat \<rightharpoonup> 'q)"
  title :: "lxb_char list"
  doc_name :: "lxb_char list"
  doc_lang :: "lxb_char list"
  url :: "lxb_char list"
  is_news :: bool
  is_news_score :: 'r

definition DocFeatures_default :: "'r fops \<Rightarrow> ('r, 'q) DocFeatures" where
  "DocFeatures_default F = \<lparr> bows = Map.empty, lemmas_of = [''text'' \<mapsto> Map.empty, ''title'' \<mapsto> Map.empty],
     title = [], doc_name = [], doc_lang = [], url = [], is_news = False, is_news_score = fzero F \<rparr>"

definition DocFeatures_Get :: "'r fops \<Rightarrow> ('r, 'q) DocFeatures \<Rightarrow> string \<Rightarrow> 'r list option" where
  "DocFeatures_Get F features feature_name = do {
     bow \<leftarrow> bows features feature_name;
     Some (bag (BOW_Normalize F bow))
   }"

text \<open>\<open>features->bows_.at(name).Update(word)\<close>\<close>

definition bow_at :: "'r fops \<Rightarrow> ('r, 'q) DocFeatures \<Rightarrow> string \<Rightarrow> lxb_char list \<Rightarrow> ('r, 'q) DocFeatures option" where
  "bow_at F features nm word = do {
     b \<leftarrow> bows features nm;
     b \<leftarrow> BOW_Update F b word;
     Some (features\<lparr> bows := (bows features)(nm \<mapsto> b) \<rparr>)
   }"

section \<open>The generator\<close>

record udpipe_word =
  upostag :: "lxb_char list"
  word_lemma :: "lxb_char list"
  feats :: "lxb_char list"

record FeaturesGenerator =
  clean :: "lxb_char list \<Rightarrow> lxb_char list"
  analyse :: "lxb_char list \<rightharpoonup> (lxb_char list \<Rightarrow> udpipe_word list list)"
  upostags_dict :: BOWDict
  feats_dict :: BOWDict
  lang2lemmas_dict :: "lxb_char list \<rightharpoonup> (string \<rightharpoonup> BOWDict)"

text \<open>The loop of \<open>UpdateFeats\<close>: \<open>b\<close> and \<open>e\<close> are the two iterators.\<close>

function update_feats_loop :: "'r fops \<Rightarrow> lxb_char list \<Rightarrow> nat \<Rightarrow> nat \<Rightarrow> 'r BOW \<Rightarrow> 'r BOW option" where
  "update_feats_loop F fs b e feats_bow =
    (if e < length fs then do {
       (b, feats_bow) \<leftarrow> (if fs ! e = 0x7C then do {
           feats_bow \<leftarrow> BOW_Update F feats_bow (take (e - b) (drop b fs));
           Some (e + 1, feats_bow)
         }
         else Some (b, feats_bow));
       update_feats_loop F fs b (e + 1) feats_bow
     }
     else if b \<noteq> e then BOW_Update F feats_bow (take (e - b) (drop b fs))
     else Some feats_bow)"
  by pat_completeness auto
termination by (relation "measure (\<lambda>(_, fs, _, e, _). length fs - e)") auto

declare update_feats_loop.simps [simp del]

definition UpdateFeats :: "'r fops \<Rightarrow> ('r, 'q) DocFeatures \<Rightarrow> lxb_char list \<Rightarrow> string \<Rightarrow> ('r, 'q) DocFeatures option" where
  "UpdateFeats F features fs feats_name = do {
     feats_bow \<leftarrow> bows features feats_name;
     feats_bow \<leftarrow> update_feats_loop F fs 0 0 feats_bow;
     Some (features\<lparr> bows := (bows features)(feats_name \<mapsto> feats_bow) \<rparr>)
   }"

text \<open>\<open>++features->lemmas_[class_id][it->second]\<close>; the entries are created on access.\<close>

definition UpdateLemma :: "'q fops \<Rightarrow> ('r, 'q) DocFeatures \<Rightarrow> lxb_char list \<Rightarrow> BOWDict \<Rightarrow> string \<Rightarrow> ('r, 'q) DocFeatures" where
  "UpdateLemma Q features l lemmas_dict class_id =
    (case map_of lemmas_dict (filter (\<lambda>c. c \<noteq> 0x3A) l) of
       None \<Rightarrow> features
     | Some i \<Rightarrow>
         (let m = (case lemmas_of features class_id of None \<Rightarrow> Map.empty | Some m \<Rightarrow> m);
              v = (case m i of None \<Rightarrow> fzero Q | Some v \<Rightarrow> v)
          in features\<lparr> lemmas_of := (lemmas_of features)(class_id \<mapsto> m(i \<mapsto> finc Q v)) \<rparr>))"

definition lemma_upostags :: "lxb_char list set" where
  "lemma_upostags = {bytes ''ADJ'', bytes ''INTJ'', bytes ''NOUN'', bytes ''PROPN'', bytes ''VERB''}"

definition update_word :: "'r fops \<Rightarrow> 'q fops \<Rightarrow> string \<Rightarrow> string \<Rightarrow> string \<Rightarrow> BOWDict \<Rightarrow> udpipe_word
    \<Rightarrow> ('r, 'q) DocFeatures \<Rightarrow> ('r, 'q) DocFeatures option" where
  "update_word F Q upostags_name feats_name lemmas_name lemmas_dict w features = do {
     features \<leftarrow> bow_at F features upostags_name (upostag w);
     let features = (if upostag w \<in> lemma_upostags then UpdateLemma Q features (word_lemma w) lemmas_dict lemmas_name else features);
     UpdateFeats F features (feats w) feats_name
   }"

fun update_words :: "(udpipe_word \<Rightarrow> 's \<Rightarrow> 's option) \<Rightarrow> udpipe_word list \<Rightarrow> 's \<Rightarrow> 's option" where
  "update_words upd [] features = Some features"
| "update_words upd (w # ws) features = do { features \<leftarrow> upd w features; update_words upd ws features }"

fun update_sentences :: "(udpipe_word \<Rightarrow> 's \<Rightarrow> 's option) \<Rightarrow> nat \<Rightarrow> udpipe_word list list \<Rightarrow> 's \<Rightarrow> 's option" where
  "update_sentences upd n [] features = Some features"
| "update_sentences upd 0 sentences features = Some features"
| "update_sentences upd (Suc n) (words # sentences) features =
     (case words of [] \<Rightarrow> None | _ # words \<Rightarrow> do {
       features \<leftarrow> update_words upd words features;
       update_sentences upd n sentences features
     })"

definition UpdateUDPipe :: "'r fops \<Rightarrow> 'q fops \<Rightarrow> FeaturesGenerator \<Rightarrow> (lxb_char list \<Rightarrow> udpipe_word list list)
    \<Rightarrow> lxb_char list \<Rightarrow> string \<Rightarrow> string \<Rightarrow> string \<Rightarrow> (string \<rightharpoonup> BOWDict) \<Rightarrow> nat
    \<Rightarrow> ('r, 'q) DocFeatures \<Rightarrow> ('r, 'q) DocFeatures option" where
  "UpdateUDPipe F Q gen analyse_lang input_text upostags_name feats_name lemmas_name lemmas_dict sentences_count features = do {
     _ \<leftarrow> bows features upostags_name;
     features_lemmas_dict \<leftarrow> lemmas_dict lemmas_name;
     update_sentences (update_word F Q upostags_name feats_name lemmas_name features_lemmas_dict)
       sentences_count (analyse_lang (clean gen input_text)) features
   }"

text \<open>The number of sentences arrives as a \<open>size_t\<close> and is converted to \<open>int\<close>.\<close>

definition sentences_limit :: "size_t \<Rightarrow> nat" where
  "sentences_limit total_sentences =
    (let n = sint (ucast total_sentences :: 32 word) in if n < 0 then 1000000 else nat n)"

definition FeaturesGenerator_GenerateFeatures :: "'r fops \<Rightarrow> 'q fops \<Rightarrow> FeaturesGenerator \<Rightarrow> HTMLDocument \<Rightarrow> size_t
    \<Rightarrow> ('r, 'q) DocFeatures option" where
  "FeaturesGenerator_GenerateFeatures F Q gen doc total_sentences = do {
     let features = DocFeatures_default F;
     let features = features\<lparr> bows := [''title:upostags'' \<mapsto> BOW_make F (upostags_dict gen), ''title:feats'' \<mapsto> BOW_make F (feats_dict gen),
       ''text:upostags'' \<mapsto> BOW_make F (upostags_dict gen), ''text:feats'' \<mapsto> BOW_make F (feats_dict gen)] \<rparr>;
     let lang = GetMeta doc ''lang'';
     reader \<leftarrow> analyse gen lang;
     lemmas_dict \<leftarrow> lang2lemmas_dict gen lang;
     features \<leftarrow> UpdateUDPipe F Q gen reader (doc_text doc) ''text:upostags'' ''text:feats'' ''text'' lemmas_dict
       (sentences_limit total_sentences) features;
     UpdateUDPipe F Q gen reader (GetMeta doc ''og:title'') ''title:upostags'' ''title:feats'' ''title'' lemmas_dict
       (sentences_limit total_sentences) features
   }"

definition GenerateFeaturesTask :: "'r fops \<Rightarrow> 'q fops \<Rightarrow> FeaturesGenerator \<Rightarrow> HTMLDocument list \<Rightarrow> size_t
    \<Rightarrow> nat \<Rightarrow> ('r, 'q) DocFeatures list \<Rightarrow> ('r, 'q) DocFeatures list option" where
  "GenerateFeaturesTask F Q gen docs total_sentences i features =
    (if i < length docs \<and> i < length features then do {
       let doc = docs ! i;
       let lang = GetMeta doc ''lang'';
       feature \<leftarrow> (if lang = bytes ''ru'' \<or> lang = bytes ''en''
         then FeaturesGenerator_GenerateFeatures F Q gen doc total_sentences else Some (features ! i));
       Some (features[i := feature\<lparr> doc_name := GetMeta doc ''path'', doc_lang := lang,
         url := GetMeta doc ''og:url'', title := GetMeta doc ''og:title'' \<rparr>])
     }
     else None)"

definition GenerateFeatures :: "'r fops \<Rightarrow> 'q fops \<Rightarrow> FeaturesGenerator \<Rightarrow> HTMLDocument list \<Rightarrow> size_t
    \<Rightarrow> ('r, 'q) DocFeatures list \<Rightarrow> bool" where
  "GenerateFeatures F Q gen documents total_sentences features =
     parallel_for (GenerateFeaturesTask F Q gen documents total_sentences) (length documents)
       (replicate (length documents) (DocFeatures_default F)) features"

section \<open>Splitting the features of a word\<close>

text \<open>The pieces between the bars; an empty last piece does not count.\<close>

fun pieces :: "lxb_char list \<Rightarrow> lxb_char list \<Rightarrow> lxb_char list list" where
  "pieces acc [] = (if acc = [] then [] else [acc])"
| "pieces acc (c # cs) = (if c = 0x7C then acc # pieces [] cs else pieces (acc @ [c]) cs)"

fun updates :: "'r fops \<Rightarrow> lxb_char list list \<Rightarrow> 'r BOW \<Rightarrow> 'r BOW option" where
  "updates F [] b = Some b"
| "updates F (w # ws) b = do { b \<leftarrow> BOW_Update F b w; updates F ws b }"

lemma update_feats_loop_pieces:
  assumes "b \<le> e" "e \<le> length fs"
  shows "update_feats_loop F fs b e bow = updates F (pieces (take (e - b) (drop b fs)) (drop e fs)) bow"
  using assms
proof (induction "length fs - e" arbitrary: b e bow)
  case 0
  then show ?case by (auto simp: update_feats_loop.simps split: bind_split)
next
  case (Suc n)
  then have e: "e < length fs" by simp
  have d: "drop e fs = fs ! e # drop (Suc e) fs" using e by (simp add: Cons_nth_drop_Suc)
  have t: "take (Suc e - b) (drop b fs) = take (e - b) (drop b fs) @ [fs ! e]"
    using e Suc.prems by (simp add: Suc_diff_le take_Suc_conv_app_nth)
  have IH: "update_feats_loop F fs b' (Suc e) bow' = updates F (pieces (take (Suc e - b') (drop b' fs)) (drop (Suc e) fs)) bow'"
    if "b' \<le> Suc e" for b' bow'
    using Suc.hyps(2) that e by (intro Suc.hyps(1)) auto
  show ?case
    using e Suc.prems by (subst update_feats_loop.simps) (simp add: d t IH split: bind_split)
qed

lemma update_feats_pieces: "update_feats_loop F fs 0 0 bow = updates F (pieces [] fs) bow"
  using update_feats_loop_pieces [of 0 0 fs F bow] by simp

section \<open>Counting\<close>

text \<open>All positions of the dictionary are inside the bag.\<close>

definition bow_ok :: "'r BOW \<Rightarrow> bool" where
  "bow_ok b = (\<forall>w i. map_of (dict b) w = Some i \<longrightarrow> i < length (bag b))"

text \<open>The bag after the words \<open>ws\<close>: the cell of a position is incremented once for each word with this position.\<close>

definition counted :: "'r fops \<Rightarrow> 'r BOW \<Rightarrow> lxb_char list list \<Rightarrow> 'r BOW" where
  "counted F b ws = b\<lparr> bag := map (\<lambda>i. (finc F ^^ length (filter (\<lambda>w. map_of (dict b) w = Some i) ws)) (bag b ! i)) [0..<length (bag b)] \<rparr>"

lemma counted_simps [simp]:
  "dict (counted F b ws) = dict b" "length (bag (counted F b ws)) = length (bag b)"
  "bow_ok (counted F b ws) = bow_ok b"
  by (simp_all add: counted_def bow_ok_def)

lemma counted_Nil [simp]: "counted F b [] = b"
  by (cases b) (simp add: counted_def map_nth)

lemma counted_append: "counted F (counted F b xs) ys = counted F b (xs @ ys)"
proof -
  have "(f ^^ m) ((f ^^ k) x) = (f ^^ (k + m)) x" for f :: "'a \<Rightarrow> 'a" and m k x
    by (metis add.commute comp_apply funpow_add)
  then show ?thesis by (simp add: counted_def)
qed

lemma BOW_Update_counted: "bow_ok b \<Longrightarrow> BOW_Update F b w = Some (counted F b [w])"
proof -
  assume ok: "bow_ok b"
  show ?thesis
  proof (cases "map_of (dict b) w")
    case None
    then show ?thesis by (cases b) (simp add: BOW_Update_def counted_def map_nth)
  next
    case (Some i)
    then have "i < length (bag b)" using ok by (simp add: bow_ok_def)
    moreover have "(bag b)[i := finc F (bag b ! i)] = bag (counted F b [w])"
      using Some by (auto simp: counted_def nth_list_update intro!: nth_equalityI)
    ultimately show ?thesis using Some by (simp add: BOW_Update_def counted_def)
  qed
qed

lemma updates_counted: "bow_ok b \<Longrightarrow> updates F ws b = Some (counted F b ws)"
  by (induction ws arbitrary: b) (simp_all add: BOW_Update_counted counted_append)

lemma updates_append: "updates F (xs @ ys) b = do { b \<leftarrow> updates F xs b; updates F ys b }"
  by (induction xs arbitrary: b) (simp_all split: bind_split)

lemma read_names_loop_eq:
  assumes "distinct (map fst d @ input)" "length d = pos"
  shows "read_names_loop input pos d = d @ zip input [pos..<pos + length input]"
  using assms
proof (induction input arbitrary: pos d)
  case (Cons w input)
  have "map_of d w = None" using Cons.prems(1) by (auto simp: map_of_eq_None_iff)
  then have "read_names_loop (w # input) pos d = read_names_loop input (Suc pos) (d @ [(w, pos)])"
    by (simp add: dict_emplace_def)
  also have "\<dots> = (d @ [(w, pos)]) @ zip input [Suc pos..<Suc pos + length input]"
    using Cons.prems by (intro Cons.IH) auto
  finally show ?case by (simp add: upt_rec)
qed simp

text \<open>A file without repeated names gives a dictionary that fits its bag.\<close>

lemma ReadFeaturesNames_ok:
  assumes "distinct input"
  shows "bow_ok (BOW_make F (ReadFeaturesNames input))"
proof -
  have "ReadFeaturesNames input = zip input [0..<length input]"
    using assms read_names_loop_eq [of "[]" input 0] by (simp add: ReadFeaturesNames_def)
  moreover have "i < length input" if "map_of (zip input [0..<length input]) w = Some i" for w i
    using map_of_SomeD [OF that] by (auto dest!: set_zip_rightD)
  ultimately show ?thesis by (simp add: bow_ok_def BOW_make_def)
qed

section \<open>What the generator computes\<close>

text \<open>All bags are in order.\<close>

definition bows_ok :: "('r, 'q) DocFeatures \<Rightarrow> bool" where
  "bows_ok features = (\<forall>b \<in> ran (bows features). bow_ok b)"

lemma bows_ok_upd: "bows_ok f \<Longrightarrow> bow_ok b \<Longrightarrow> bows_ok (f\<lparr> bows := (bows f)(nm \<mapsto> b) \<rparr>)"
  by (auto simp: bows_ok_def ran_def)

lemma bows_okD: "bows_ok f \<Longrightarrow> bows f nm = Some b \<Longrightarrow> bow_ok b"
  by (auto simp: bows_ok_def ran_def)

lemma UpdateLemma_bows [simp]: "bows (UpdateLemma Q f l d c) = bows f"
  by (auto simp: UpdateLemma_def Let_def split: option.splits)

lemma update_word_ok:
  assumes "bows f un = Some bu" "bows f fn = Some bf" "bow_ok bu" "bow_ok bf" "un \<noteq> fn"
  shows "\<exists>f'. update_word F Q un fn ln d w f = Some f' \<and>
    bows f' = (bows f)(un \<mapsto> counted F bu [upostag w], fn \<mapsto> counted F bf (pieces [] (feats w)))"
  using assms
  by (simp add: update_word_def bow_at_def UpdateFeats_def update_feats_pieces BOW_Update_counted updates_counted)

lemma update_words_ok:
  assumes "bows f un = Some bu" "bows f fn = Some bf" "bow_ok bu" "bow_ok bf" "un \<noteq> fn"
  shows "\<exists>f'. update_words (update_word F Q un fn ln d) ws f = Some f' \<and>
    bows f' = (bows f)(un \<mapsto> counted F bu (map upostag ws), fn \<mapsto> counted F bf (concat (map (\<lambda>w. pieces [] (feats w)) ws)))"
  using assms(1-4)
proof (induction ws arbitrary: f bu bf)
  case Nil
  then show ?case by (simp add: fun_upd_idem)
next
  case (Cons w ws)
  obtain f1 where f1: "update_word F Q un fn ln d w f = Some f1"
    "bows f1 = (bows f)(un \<mapsto> counted F bu [upostag w], fn \<mapsto> counted F bf (pieces [] (feats w)))"
    using update_word_ok [OF Cons.prems assms(5), of F Q ln d w] by auto
  have "bows f1 un = Some (counted F bu [upostag w])" "bows f1 fn = Some (counted F bf (pieces [] (feats w)))"
    "bow_ok (counted F bu [upostag w])" "bow_ok (counted F bf (pieces [] (feats w)))"
    using f1(2) Cons.prems assms(5) by simp_all
  then obtain f' where "update_words (update_word F Q un fn ln d) ws f1 = Some f'"
    "bows f' = (bows f1)(un \<mapsto> counted F (counted F bu [upostag w]) (map upostag ws),
      fn \<mapsto> counted F (counted F bf (pieces [] (feats w))) (concat (map (\<lambda>w. pieces [] (feats w)) ws)))"
    using Cons.IH by blast
  then show ?case using f1 assms(5) by (auto simp: counted_append fun_upd_twist)
qed

text \<open>The words of the first \<open>n\<close> sentences.\<close>

definition words_of :: "nat \<Rightarrow> udpipe_word list list \<Rightarrow> udpipe_word list" where
  "words_of n sentences = concat (map tl (take n sentences))"

lemma update_words_append: "update_words upd (xs @ ys) f = do { f \<leftarrow> update_words upd xs f; update_words upd ys f }"
  by (induction xs arbitrary: f) (simp_all split: bind_split)

lemma update_sentences_words:
  assumes "\<forall>s \<in> set sentences. s \<noteq> []"
  shows "update_sentences upd n sentences f = update_words upd (words_of n sentences) f"
  using assms
proof (induction upd n sentences f rule: update_sentences.induct)
  case (3 upd n ws sentences f)
  then show ?case by (cases ws) (simp_all add: words_of_def update_words_append split: bind_split)
qed (simp_all add: words_of_def)

text \<open>A generator whose dictionaries fit and that knows the language; sentences have their root.\<close>

definition gen_ok :: "FeaturesGenerator \<Rightarrow> lxb_char list \<Rightarrow> bool" where
  "gen_ok gen lang \<longleftrightarrow> (\<forall>w i. map_of (upostags_dict gen) w = Some i \<longrightarrow> i < length (upostags_dict gen)) \<and>
     (\<forall>w i. map_of (feats_dict gen) w = Some i \<longrightarrow> i < length (feats_dict gen)) \<and>
     (\<exists>a m. analyse gen lang = Some a \<and> (\<forall>t. \<forall>s \<in> set (a t). s \<noteq> []) \<and>
       lang2lemmas_dict gen lang = Some m \<and> m ''text'' \<noteq> None \<and> m ''title'' \<noteq> None)"

lemma UpdateUDPipe_ok:
  assumes "bows f un = Some bu" "bows f fn = Some bf" "bow_ok bu" "bow_ok bf" "un \<noteq> fn"
    "\<forall>s \<in> set (a (clean gen t)). s \<noteq> []" "m ln \<noteq> None"
  shows "\<exists>f'. UpdateUDPipe F Q gen a t un fn ln m n f = Some f' \<and>
    bows f' = (bows f)(un \<mapsto> counted F bu (map upostag (words_of n (a (clean gen t)))),
      fn \<mapsto> counted F bf (concat (map (\<lambda>w. pieces [] (feats w)) (words_of n (a (clean gen t))))))"
  using assms(1,7) update_words_ok [OF assms(1-5)]
  by (auto simp: UpdateUDPipe_def update_sentences_words [OF assms(6)])

lemma GenerateFeatures_ok:
  assumes "gen_ok gen (GetMeta doc ''lang'')"
  shows "\<exists>f. FeaturesGenerator_GenerateFeatures F Q gen doc ts = Some f \<and>
    bows f ''text:feats'' = Some (counted F (BOW_make F (feats_dict gen))
      (concat (map (\<lambda>w. pieces [] (feats w)) (words_of (sentences_limit ts) (the (analyse gen (GetMeta doc ''lang'')) (clean gen (doc_text doc)))))))"
proof -
  obtain a m where am: "analyse gen (GetMeta doc ''lang'') = Some a" "\<forall>t. \<forall>s \<in> set (a t). s \<noteq> []"
      "lang2lemmas_dict gen (GetMeta doc ''lang'') = Some m" "m ''text'' \<noteq> None" "m ''title'' \<noteq> None"
    and ok: "bow_ok (BOW_make F (upostags_dict gen))" "bow_ok (BOW_make F (feats_dict gen))"
    using assms by (auto simp: gen_ok_def bow_ok_def BOW_make_def)
  let ?bu = "BOW_make F (upostags_dict gen)" and ?bf = "BOW_make F (feats_dict gen)"
  let ?f0 = "(DocFeatures_default F :: ('a, 'b) DocFeatures)\<lparr> bows := [''title:upostags'' \<mapsto> ?bu, ''title:feats'' \<mapsto> ?bf,
       ''text:upostags'' \<mapsto> ?bu, ''text:feats'' \<mapsto> ?bf] \<rparr>"
  obtain f1 where f1: "UpdateUDPipe F Q gen a (doc_text doc) ''text:upostags'' ''text:feats'' ''text'' m (sentences_limit ts) ?f0 = Some f1"
    "bows f1 = (bows ?f0)(''text:upostags'' \<mapsto> counted F ?bu (map upostag (words_of (sentences_limit ts) (a (clean gen (doc_text doc))))),
      ''text:feats'' \<mapsto> counted F ?bf (concat (map (\<lambda>w. pieces [] (feats w)) (words_of (sentences_limit ts) (a (clean gen (doc_text doc)))))))"
    using UpdateUDPipe_ok [of ?f0 "''text:upostags''" ?bu "''text:feats''" ?bf a gen "doc_text doc" m "''text''" F Q "sentences_limit ts"] am ok
    by auto
  obtain f2 where f2: "UpdateUDPipe F Q gen a (GetMeta doc ''og:title'') ''title:upostags'' ''title:feats'' ''title'' m (sentences_limit ts) f1 = Some f2"
    "bows f2 ''text:feats'' = bows f1 ''text:feats''"
    using UpdateUDPipe_ok [of f1 "''title:upostags''" ?bu "''title:feats''" ?bf a gen "GetMeta doc ''og:title''" m "''title''" F Q "sentences_limit ts"]
      am ok f1(2) by auto
  have "FeaturesGenerator_GenerateFeatures F Q gen doc ts = Some f2"
    using f1(1) f2(1) am by (simp add: FeaturesGenerator_GenerateFeatures_def Let_def)
  then show ?thesis using f1(2) f2(2) am(1) by simp
qed

section \<open>All documents\<close>

text \<open>What \<open>GenerateFeaturesTask\<close> makes of a document; documents in other languages keep empty features.\<close>

definition doc_features :: "'r fops \<Rightarrow> 'q fops \<Rightarrow> FeaturesGenerator \<Rightarrow> size_t \<Rightarrow> HTMLDocument \<Rightarrow> ('r, 'q) DocFeatures" where
  "doc_features F Q gen ts doc =
    (if is_ruen doc then the (FeaturesGenerator_GenerateFeatures F Q gen doc ts) else DocFeatures_default F)
      \<lparr> doc_name := GetMeta doc ''path'', doc_lang := GetMeta doc ''lang'', url := GetMeta doc ''og:url'', title := GetMeta doc ''og:title'' \<rparr>"

lemma doc_features_simps [simp]:
  "doc_name (doc_features F Q gen ts doc) = GetMeta doc ''path''"
  "doc_lang (doc_features F Q gen ts doc) = GetMeta doc ''lang''"
  "url (doc_features F Q gen ts doc) = GetMeta doc ''og:url''"
  by (simp_all add: doc_features_def)

lemma features_pool:
  assumes "\<forall>doc \<in> set docs. is_ruen doc \<longrightarrow> gen_ok gen (GetMeta doc ''lang'')"
  shows "worker_pool (GenerateFeaturesTask F Q gen docs ts) (\<lambda>x. x = DocFeatures_default F)
    (\<lambda>i _. doc_features F Q gen ts (docs ! i)) (length docs)"
proof
  fix xs :: "('a, 'b) DocFeatures list" and i
  assume i: "length xs = length docs" "i < length docs" "xs ! i = DocFeatures_default F"
  have "\<exists>f. FeaturesGenerator_GenerateFeatures F Q gen (docs ! i) ts = Some f" if "is_ruen (docs ! i)"
    using GenerateFeatures_ok [of gen "docs ! i" F Q ts] assms that i(2) by auto
  then show "GenerateFeaturesTask F Q gen docs ts i xs = Some (xs[i := doc_features F Q gen ts (docs ! i)])"
    using i by (auto simp: GenerateFeaturesTask_def doc_features_def is_ruen_def Let_def)
qed

lemma GenerateFeatures_iff:
  assumes "\<forall>doc \<in> set docs. is_ruen doc \<longrightarrow> gen_ok gen (GetMeta doc ''lang'')"
  shows "GenerateFeatures F Q gen docs ts features \<longleftrightarrow> features = map (doc_features F Q gen ts) docs"
  unfolding GenerateFeatures_def
  by (subst worker_pool.parallel_for_iff [OF features_pool [OF assms]]) (simp_all add: map_cells [of "doc_features F Q gen ts"])

end
