(* ===== verification/Tgn_News.thy ===== *)
theory Tgn_News
  imports Tgn_Features
begin

text \<open>
  News, categories and threads: \<open>LogisticRegression::Infer\<close> (\<open>logreg.hpp\<close>), \<open>DetectNews\<close> (\<open>news_det.hpp\<close>),
  \<open>GetCategories\<close> (\<open>news_categories.hpp\<close>), \<open>GetThreads\<close> (\<open>news_threads.hpp\<close>) and the functions of \<open>io.hpp\<close> that
  print their results.  The two regular expressions of \<open>news_det.hpp\<close> are written out as
  functions on bytes.  \<open>transform\<close> is \<open>MasterModel::Transform\<close> of the BigARTM library for a language:
  from the names and lemma counts of documents to the weights of the topics for each.
\<close>

section \<open>Regression\<close>

record 'r LogisticRegression =
  weights :: "'r list"
  bias :: 'r
  features_count :: nat
  lr_mean :: "'r list"

text \<open>\<open>operator[]\<close> of the three vectors does not check the index.\<close>

function infer_loop :: "'r fops \<Rightarrow> 'r LogisticRegression \<Rightarrow> 'r list \<Rightarrow> nat \<Rightarrow> 'r \<Rightarrow> 'r option" where
  "infer_loop F lr features i result =
    (if i < features_count lr then
       (if i < length features \<and> i < length (lr_mean lr) \<and> i < length (weights lr)
        then infer_loop F lr features (i + 1)
          (fadd F result (fmul F (fsub F (features ! i) (lr_mean lr ! i)) (weights lr ! i)))
        else None)
     else Some result)"
  by pat_completeness auto
termination by (relation "measure (\<lambda>(_, lr, _, i, _). features_count lr - i)") auto

declare infer_loop.simps [simp del]

definition Infer :: "'r fops \<Rightarrow> 'r LogisticRegression \<Rightarrow> 'r list \<Rightarrow> 'r option" where
  "Infer F lr features = do {
     result \<leftarrow> infer_loop F lr features 0 (fzero F);
     Some (fdiv F (fone F) (fadd F (fone F) (fexp F (fneg F (fadd F result (bias lr))))))
   }"

section \<open>News\<close>

text \<open>The expression \<open>https*://[^/]*\<close> at the beginning of a string: what is left behind the match.\<close>

definition match_https :: "lxb_char list \<Rightarrow> lxb_char list option" where
  "match_https s =
    (if take 4 s = bytes ''http'' then
       (let r = dropWhile (\<lambda>c. c = 0x73) (drop 4 s) in
        if take 3 r = bytes ''://'' then Some (dropWhile (\<lambda>c. c \<noteq> 0x2F) (drop 3 r)) else None)
     else None)"

lemma match_https_shorter: "match_https s = Some r \<Longrightarrow> length r < length s"
proof -
  assume m: "match_https s = Some r"
  have t: "take 3 (dropWhile (\<lambda>c. c = 0x73) (drop 4 s)) = bytes ''://''"
    and r: "r = dropWhile (\<lambda>c. c \<noteq> 0x2F) (drop 3 (dropWhile (\<lambda>c. c = 0x73) (drop 4 s)))"
    using m by (auto simp: match_https_def Let_def split: if_splits)
  have "length (dropWhile (\<lambda>c. c = 0x73) (drop 4 s)) \<ge> 3"
    using arg_cong [OF t, of length] by (simp add: bytes_def)
  moreover have "length (dropWhile (\<lambda>c. c = 0x73) (drop 4 s)) \<le> length s - 4"
    using length_dropWhile_le [of "\<lambda>c. c = 0x73" "drop 4 s"] by simp
  moreover have "length r \<le> length (drop 3 (dropWhile (\<lambda>c. c = 0x73) (drop 4 s)))"
    unfolding r by (rule length_dropWhile_le)
  ultimately show ?thesis by simp
qed

text \<open>\<open>std::regex_replace(url, https, "")\<close>: all matches are removed, from left to right.\<close>

function remove_https :: "lxb_char list \<Rightarrow> lxb_char list" where
  "remove_https [] = []"
| "remove_https (c # cs) = (case match_https (c # cs) of Some r \<Rightarrow> remove_https r | None \<Rightarrow> c # remove_https cs)"
  by pat_completeness auto
termination by (relation "measure length") (auto dest: match_https_shorter)

definition contains :: "lxb_char list \<Rightarrow> lxb_char list \<Rightarrow> bool" where
  "contains pat s = list_ex (\<lambda>i. take (length pat) (drop i s) = pat) [0..<length s]"

text \<open>\<open>std::regex_search(url, news)\<close> with \<open>(news|novosti)\<close>\<close>

definition news_url :: "lxb_char list \<Rightarrow> bool" where
  "news_url u = (let u = remove_https u in contains (bytes ''news'') u \<or> contains (bytes ''novosti'') u)"

definition GenerateNewsDetFeatures :: "'r fops \<Rightarrow> ('r, 'q) DocFeatures \<Rightarrow> 'r list option" where
  "GenerateNewsDetFeatures F features = DocFeatures_Get F features ''text:feats''"

text \<open>The body of the loop of \<open>DetectNewsTask\<close>.\<close>

definition detect_news_doc :: "'r fops \<Rightarrow> 'r LogisticRegression \<Rightarrow> 'r LogisticRegression \<Rightarrow> ('r, 'q) DocFeatures
    \<Rightarrow> ('r, 'q) DocFeatures option" where
  "detect_news_doc F ru_model en_model doc =
    (if news_url (url doc) then Some (doc\<lparr> is_news_score := fone F, is_news := True \<rparr>)
     else if doc_lang doc = bytes ''ru'' then do {
       features \<leftarrow> GenerateNewsDetFeatures F doc;
       score \<leftarrow> Infer F ru_model features;
       Some (doc\<lparr> is_news_score := score, is_news := fgreater F score (fthreshold F) \<rparr>)
     }
     else if doc_lang doc = bytes ''en'' then do {
       features \<leftarrow> GenerateNewsDetFeatures F doc;
       score \<leftarrow> Infer F en_model features;
       Some (doc\<lparr> is_news_score := score, is_news := fgreater F score (fthreshold F) \<rparr>)
     }
     else Some doc)"

definition DetectNewsTask :: "'r fops \<Rightarrow> 'r LogisticRegression \<Rightarrow> 'r LogisticRegression \<Rightarrow> nat
    \<Rightarrow> ('r, 'q) DocFeatures list \<Rightarrow> ('r, 'q) DocFeatures list option" where
  "DetectNewsTask F ru_model en_model start documents =
    (if start < length documents then do {
       doc \<leftarrow> detect_news_doc F ru_model en_model (documents ! start);
       Some (documents[start := doc])
     }
     else None)"

definition DetectNews :: "'r fops \<Rightarrow> 'r LogisticRegression \<Rightarrow> 'r LogisticRegression
    \<Rightarrow> ('r, 'q) DocFeatures list \<Rightarrow> ('r, 'q) DocFeatures list \<Rightarrow> bool" where
  "DetectNews F ru_model en_model documents news =
    (\<exists>docs. parallel_for (DetectNewsTask F ru_model en_model) (length documents) documents docs \<and> news = filter is_news docs)"

interpretation detect_pool: worker_pool "DetectNewsTask F ru_model en_model" "\<lambda>x. detect_news_doc F ru_model en_model x \<noteq> None"
    "\<lambda>_ x. the (detect_news_doc F ru_model en_model x)" n
  for F ru_model en_model n
  by unfold_locales (auto simp: DetectNewsTask_def)

lemma DetectNews_iff:
  assumes "\<forall>x \<in> set documents. detect_news_doc F ru_model en_model x \<noteq> None"
  shows "DetectNews F ru_model en_model documents news \<longleftrightarrow>
    news = filter is_news (map (\<lambda>x. the (detect_news_doc F ru_model en_model x)) documents)"
  unfolding DetectNews_def
  by (simp add: detect_pool.parallel_for_iff [OF refl assms] map_cells [of "\<lambda>x. the (detect_news_doc F ru_model en_model x)"])

section \<open>Categories\<close>

text \<open>\<open>for (i = a; i < b; ++i)\<close>\<close>

function for_range :: "nat \<Rightarrow> nat \<Rightarrow> (nat \<Rightarrow> 's \<Rightarrow> 's option) \<Rightarrow> 's \<Rightarrow> 's option" where
  "for_range a b body s = (if a < b then do { s \<leftarrow> body a s; for_range (Suc a) b body s } else Some s)"
  by pat_completeness auto
termination by (relation "measure (\<lambda>(a, b, _, _). b - a)") auto

declare for_range.simps [simp del]

definition vector_at :: "'a list \<Rightarrow> nat \<Rightarrow> 'a option" where
  "vector_at xs i = (if i < length xs then Some (xs ! i) else None)"

record 'r theta_matrix =
  topic_name :: "lxb_char list list"
  item_weights :: "'r list list"

type_synonym ('r, 'q) categories = "lxb_char list \<rightharpoonup> ('r, 'q) DocFeatures list"

text \<open>The last topic is the background of the model and is left out.\<close>

definition AddCategories :: "'r fops \<Rightarrow> ((lxb_char list \<times> (string \<rightharpoonup> (nat \<rightharpoonup> 'q))) list \<Rightarrow> 'r theta_matrix)
    \<Rightarrow> ('r, 'q) DocFeatures list \<Rightarrow> ('r, 'q) categories \<Rightarrow> ('r, 'q) categories option" where
  "AddCategories F transform documents cat2doc =
    (if \<exists>doc \<in> set documents. lemmas_of doc ''text'' = None \<or> lemmas_of doc ''title'' = None then None
     else do {
       let theta = transform (map (\<lambda>doc. (doc_name doc, lemmas_of doc)) documents);
       for_range 0 (length (item_weights theta)) (\<lambda>doc_idx. for_range 0 (length (topic_name theta) - 1) (\<lambda>cat_idx cat2doc. do {
         w \<leftarrow> vector_at (item_weights theta ! doc_idx) cat_idx;
         if fgreater F w (fthreshold F) then do {
           docs \<leftarrow> cat2doc (topic_name theta ! cat_idx);
           doc \<leftarrow> vector_at documents doc_idx;
           Some (cat2doc(topic_name theta ! cat_idx \<mapsto> docs @ [doc]))
         }
         else Some cat2doc
       })) cat2doc
     })"

definition category_names :: "string list" where
  "category_names = [''Society'', ''Economy'', ''Technology'', ''Entertainment'', ''Science'', ''Sports'', ''Other'']"

text \<open>\<open>lang2docs[doc.lang_].emplace_back(doc)\<close>\<close>

fun group_by_lang :: "('r, 'q) DocFeatures list \<Rightarrow> ('r, 'q) categories \<Rightarrow> ('r, 'q) categories" where
  "group_by_lang [] lang2docs = lang2docs"
| "group_by_lang (doc # documents) lang2docs =
     group_by_lang documents (lang2docs(doc_lang doc \<mapsto> (case lang2docs (doc_lang doc) of None \<Rightarrow> [] | Some docs \<Rightarrow> docs) @ [doc]))"

definition GetCategories :: "'r fops \<Rightarrow> (string \<Rightarrow> (lxb_char list \<times> (string \<rightharpoonup> (nat \<rightharpoonup> 'q))) list \<Rightarrow> 'r theta_matrix)
    \<Rightarrow> ('r, 'q) DocFeatures list \<Rightarrow> ('r, 'q) categories option" where
  "GetCategories F transform documents = do {
     let lang2docs = group_by_lang documents Map.empty;
     let cat2doc = (\<lambda>c. if c \<in> bytes ` set category_names then Some [] else None);
     docs \<leftarrow> lang2docs (bytes ''ru'');
     cat2doc \<leftarrow> AddCategories F (transform ''ru'') docs cat2doc;
     docs \<leftarrow> lang2docs (bytes ''en'');
     AddCategories F (transform ''en'') docs cat2doc
   }"

section \<open>Threads\<close>

fun GetThreads :: "('r, 'q) DocFeatures list \<Rightarrow> ('r, 'q) categories \<Rightarrow> ('r, 'q) categories" where
  "GetThreads [] threads = threads"
| "GetThreads (document # documents) threads = GetThreads documents (threads(title document \<mapsto> [document]))"

section \<open>Output\<close>

fun doc_paths :: "nat \<Rightarrow> ('r, 'q) DocFeatures list \<Rightarrow> lxb_char list list option" where
  "doc_paths n [] = Some []"
| "doc_paths n (doc # docs) = do { p \<leftarrow> substr (doc_name doc) n; ps \<leftarrow> doc_paths n docs; Some (p # ps) }"

definition DumpNewsDet :: "('r, 'q) DocFeatures list \<Rightarrow> lxb_char list \<Rightarrow> json option" where
  "DumpNewsDet docs path_prefix = do {
     n \<leftarrow> prefix_len path_prefix;
     paths \<leftarrow> doc_paths n (filter is_news docs);
     Some (JObject [(''articles'', JArray (map JString paths))])
   }"

text \<open>The entries of the map in the order in which the map is iterated.\<close>

fun dump_entries :: "string \<Rightarrow> (lxb_char list \<Rightarrow> lxb_char list) \<Rightarrow> nat \<Rightarrow> (lxb_char list \<times> ('r, 'q) DocFeatures list) list \<Rightarrow> json list option" where
  "dump_entries key f n [] = Some []"
| "dump_entries key f n ((k, docs) # es) = do {
     paths \<leftarrow> doc_paths n docs;
     js \<leftarrow> dump_entries key f n es;
     Some (JObject [(''articles'', JArray (map JString paths)), (key, JString (f k))] # js)
   }"

definition DumpNewsThreads :: "(lxb_char list \<times> ('r, 'q) DocFeatures list) list \<Rightarrow> lxb_char list \<Rightarrow> json option" where
  "DumpNewsThreads threads2docs path_prefix = do {
     n \<leftarrow> prefix_len path_prefix;
     js \<leftarrow> dump_entries ''title'' id n threads2docs;
     Some (JArray js)
   }"

definition DumpNewsCat :: "(lxb_char list \<times> ('r, 'q) DocFeatures list) list \<Rightarrow> lxb_char list \<Rightarrow> json option" where
  "DumpNewsCat cats2docs path_prefix = do {
     n \<leftarrow> prefix_len path_prefix;
     js \<leftarrow> dump_entries ''category'' (map (\<lambda>c. if 0x41 \<le> c \<and> c \<le> 0x5A then c + 0x20 else c)) n cats2docs;
     Some (JArray js)
   }"

text \<open>The object that is printed, as the map from its fields to their values.\<close>

definition DumpNewsDetTest :: "('r, 'q) DocFeatures list \<Rightarrow> lxb_char list \<Rightarrow> (lxb_char list \<rightharpoonup> 'r) option" where
  "DumpNewsDetTest docs path_prefix = do {
     _ \<leftarrow> prefix_len path_prefix;
     Some (fold (\<lambda>doc m. if doc_lang doc = bytes ''ru'' then m(doc_name doc \<mapsto> is_news_score doc) else m) docs Map.empty)
   }"

section \<open>The tasks of the program\<close>

text \<open>The branches of \<open>main\<close>, as relations between the entries of the folder and what is printed, for any
  scheduling of the threads.\<close>

definition task_languages :: "(lxb_char list \<Rightarrow> HTMLDocument option) \<Rightarrow> (string \<Rightarrow> lxb_char list list) \<Rightarrow> (lxb_char list \<Rightarrow> 'p langrec_result)
    \<Rightarrow> ('p \<Rightarrow> lxb_char list) \<Rightarrow> (lxb_char list \<times> bool) list \<Rightarrow> lxb_char list \<Rightarrow> json \<Rightarrow> bool" where
  "task_languages open_file lines find_language to_string entries input_folder out =
    (\<exists>html_files docs langs_ruen docs'. GlobHTML entries = Some html_files \<and> LoadDocs open_file html_files docs \<and>
      RecognizeLanguage lines find_language to_string True docs (langs_ruen, docs') \<and>
      DumpLanguage langs_ruen input_folder = Some out)"

definition task_news :: "'r fops \<Rightarrow> 'q fops \<Rightarrow> FeaturesGenerator \<Rightarrow> 'r LogisticRegression \<Rightarrow> 'r LogisticRegression
    \<Rightarrow> (lxb_char list \<Rightarrow> HTMLDocument option) \<Rightarrow> (string \<Rightarrow> lxb_char list list) \<Rightarrow> (lxb_char list \<Rightarrow> 'p langrec_result)
    \<Rightarrow> ('p \<Rightarrow> lxb_char list) \<Rightarrow> (lxb_char list \<times> bool) list \<Rightarrow> lxb_char list \<Rightarrow> json \<Rightarrow> bool" where
  "task_news F Q gen ru_model en_model open_file lines find_language to_string entries input_folder out =
    (\<exists>html_files docs langs_ruen docs' features news. GlobHTML entries = Some html_files \<and> LoadDocs open_file html_files docs \<and>
      RecognizeLanguage lines find_language to_string True docs (langs_ruen, docs') \<and>
      GenerateFeatures F Q gen langs_ruen (- 1) features \<and> DetectNews F ru_model en_model features news \<and>
      DumpNewsDet news input_folder = Some out)"

text \<open>The branch \<open>news_test\<close> goes on with the documents that \<open>RecognizeLanguage\<close> has moved from.\<close>

definition task_news_test :: "'r fops \<Rightarrow> 'q fops \<Rightarrow> FeaturesGenerator \<Rightarrow> 'r LogisticRegression \<Rightarrow> 'r LogisticRegression
    \<Rightarrow> (string \<Rightarrow> lxb_char list list) \<Rightarrow> (lxb_char list \<Rightarrow> 'p langrec_result)
    \<Rightarrow> ('p \<Rightarrow> lxb_char list) \<Rightarrow> HTMLDocument list \<Rightarrow> lxb_char list \<Rightarrow> (lxb_char list \<rightharpoonup> 'r) \<Rightarrow> bool" where
  "task_news_test F Q gen ru_model en_model lines find_language to_string docs input_folder out =
    (\<exists>langs_ruen docs' features news. RecognizeLanguage lines find_language to_string True docs (langs_ruen, docs') \<and>
      GenerateFeatures F Q gen docs' (- 1) features \<and> DetectNews F ru_model en_model features news \<and>
      DumpNewsDetTest news input_folder = Some out)"

end
