(* ===== verification/Tgn_Spec.thy ===== *)
theory Tgn_Spec
  imports Tgn_News
begin

text \<open>
  What the tasks of the program print, for every scheduling of the threads, in terms of the files; which
  documents get into which category and when the program is terminated instead; what the
  test of the news detection sees.
\<close>

section \<open>Detecting news\<close>

definition logistic :: "'r fops \<Rightarrow> 'r LogisticRegression \<Rightarrow> 'r list \<Rightarrow> 'r" where
  "logistic F lr xs = fdiv F (fone F) (fadd F (fone F) (fexp F (fneg F (fadd F
     (fold (\<lambda>i s. fadd F s (fmul F (fsub F (xs ! i) (lr_mean lr ! i)) (weights lr ! i))) [0..<features_count lr] (fzero F)) (bias lr)))))"

definition model_ok :: "'r LogisticRegression \<Rightarrow> nat \<Rightarrow> bool" where
  "model_ok lr n = (features_count lr \<le> n \<and> features_count lr \<le> length (lr_mean lr) \<and> features_count lr \<le> length (weights lr))"

lemma infer_loop_fold:
  assumes "model_ok lr (length xs)" "i \<le> features_count lr"
  shows "infer_loop F lr xs i s =
    Some (fold (\<lambda>i s. fadd F s (fmul F (fsub F (xs ! i) (lr_mean lr ! i)) (weights lr ! i))) [i..<features_count lr] s)"
  using assms
proof (induction "features_count lr - i" arbitrary: i s)
  case 0
  then show ?case by (simp add: infer_loop.simps)
next
  case (Suc n)
  then have "i < features_count lr" by simp
  then show ?case using Suc by (subst infer_loop.simps) (simp add: model_ok_def upt_conv_Cons)
qed

lemma Infer_logistic: "model_ok lr (length xs) \<Longrightarrow> Infer F lr xs = Some (logistic F lr xs)"
  by (simp add: Infer_def infer_loop_fold logistic_def)

text \<open>The normalised counts of the grammatical features in the text of a document.\<close>

definition text_feats :: "'r fops \<Rightarrow> FeaturesGenerator \<Rightarrow> HTMLDocument \<Rightarrow> 'r list" where
  "text_feats F gen doc = bag (BOW_Normalize F (counted F (BOW_make F (feats_dict gen)) (concat (map (\<lambda>w. pieces [] (feats w))
     (words_of 1000000 (the (analyse gen (GetMeta doc ''lang'')) (clean gen (doc_text doc))))))))"

definition news_document :: "'r fops \<Rightarrow> FeaturesGenerator \<Rightarrow> 'r LogisticRegression \<Rightarrow> 'r LogisticRegression \<Rightarrow> HTMLDocument \<Rightarrow> bool" where
  "news_document F gen ru_model en_model doc \<longleftrightarrow> news_url (GetMeta doc ''og:url'') \<or>
     fgreater F (logistic F (if GetMeta doc ''lang'' = bytes ''ru'' then ru_model else en_model) (text_feats F gen doc)) (fthreshold F)"

lemma Normalize_length [simp]: "length (bag (BOW_Normalize F b)) = length (bag b)"
  by (simp add: BOW_Normalize_def Let_def)

lemma sentences_limit_minus_one: "sentences_limit (- 1) = 1000000"
proof -
  have "(ucast (- 1 :: size_t) :: 32 word) = - 1" by (rule bit_word_eqI) (simp add: bit_simps)
  then have "sint (ucast (- 1 :: size_t) :: 32 word) = - 1" by simp
  then show ?thesis by (simp add: sentences_limit_def)
qed

lemma doc_features_feats:
  assumes "is_ruen doc" "gen_ok gen (GetMeta doc ''lang'')"
  shows "GenerateNewsDetFeatures F (doc_features F Q gen (- 1) doc) = Some (text_feats F gen doc)"
    "length (text_feats F gen doc) = length (feats_dict gen)"
  using assms GenerateFeatures_ok [OF assms(2), of F Q "- 1"]
  by (auto simp: GenerateNewsDetFeatures_def DocFeatures_Get_def doc_features_def text_feats_def sentences_limit_minus_one BOW_make_def)

lemma detect_news_doc_features:
  assumes "is_ruen doc" "gen_ok gen (GetMeta doc ''lang'')"
    and "model_ok ru_model (length (feats_dict gen))" "model_ok en_model (length (feats_dict gen))"
  shows "\<exists>x. detect_news_doc F ru_model en_model (doc_features F Q gen (- 1) doc) = Some x \<and>
    doc_name x = GetMeta doc ''path'' \<and> is_news x = news_document F gen ru_model en_model doc"
  using assms by (auto simp: detect_news_doc_def news_document_def doc_features_feats [OF assms(1,2)] Infer_logistic is_ruen_def)

section \<open>From the folder to the documents\<close>

definition html_name :: "lxb_char list \<Rightarrow> bool" where
  "html_name p = (drop (length p - 5) p = bytes ''.html'')"

definition html_paths :: "(lxb_char list \<times> bool) list \<Rightarrow> lxb_char list list" where
  "html_paths entries = filter html_name (map fst (filter snd entries))"

lemma IsHTML_eq:
  assumes "length p < 2 ^ 64"
  shows "IsHTML p = (if length p < 5 then None else Some (html_name p))"
proof (cases "length p < 5")
  case True
  then have "unat ((of_nat (length p) :: size_t) - 5) = length p + 2 ^ 64 - 5"
    by (simp add: unat_sub_if' unat_of_nat)
  then show ?thesis using True by (simp add: IsHTML_def)
next
  case False
  then have "unat ((of_nat (length p) :: size_t) - 5) = length p - 5"
    using assms by (simp add: unat_sub_if' unat_of_nat)
  then show ?thesis using False by (simp add: IsHTML_def html_name_def)
qed

lemma GlobHTML_eq:
  assumes "\<forall>e \<in> set entries. length (fst e) < 2 ^ 64"
  shows "GlobHTML entries = (if \<exists>e \<in> set entries. snd e \<and> length (fst e) < 5 then None else Some (html_paths entries))"
  using assms by (induction entries rule: GlobHTML.induct) (auto simp: IsHTML_eq html_paths_def)

text \<open>The document tree of a file can be read, and its texts fit into memory.\<close>

definition parsed :: "(size_t \<Rightarrow> bool) \<Rightarrow> (lxb_char list \<Rightarrow> lxb_tag_id) \<Rightarrow> lxb_dom_document \<times> addr \<Rightarrow> bool" where
  "parsed alloc tid r = (\<exists>ch al ord. readable alloc (fst r) ch al ord (snd r) \<and>
     (\<forall>a \<in> set (tagged tid (fst r) ord (snd r) ''p''). Suc (length (concat (map (text_of (fst r)) (ord a)))) < 2 ^ 64))"

lemma from_file_parsed:
  assumes "parsed alloc tid (parse (read p))"
  shows "\<exists>doc. HTMLDocument_from_file alloc tid read parse p = Some doc \<and> GetMeta doc ''path'' = p"
proof -
  obtain d root where r: "parse (read p) = (d, root)" by (cases "parse (read p)")
  obtain ch al ord where ro: "readable alloc d ch al ord root"
    "\<forall>a \<in> set (tagged tid d ord root ''p''). Suc (length (concat (map (text_of d) (ord a)))) < 2 ^ 64"
    using assms by (auto simp: parsed_def r)
  show ?thesis
    by (simp add: HTMLDocument_from_file_def r ParseMeta_eq [OF ro(1)] ParseText_eq [OF ro] ParseLinks_eq [OF ro(1)] GetMeta_def)
qed

text \<open>A file after the recognition of its language.\<close>

definition file_doc :: "(lxb_char list \<Rightarrow> HTMLDocument option) \<Rightarrow> (string \<Rightarrow> lxb_char list list) \<Rightarrow> (lxb_char list \<Rightarrow> 'p langrec_result)
    \<Rightarrow> ('p \<Rightarrow> lxb_char list) \<Rightarrow> lxb_char list \<Rightarrow> HTMLDocument" where
  "file_doc open_file lines find_language to_string p = recog (GetUrl2Lang lines) find_language to_string True (the (open_file p))"

text \<open>The folder: all files can be loaded (the paths have at least the five bytes of the suffix, memory suffices, and all elements are in
  the HTML name space), and their paths continue that of the folder.\<close>

definition folder_ok :: "(size_t \<Rightarrow> bool) \<Rightarrow> (lxb_char list \<Rightarrow> lxb_tag_id) \<Rightarrow> (lxb_char list \<Rightarrow> lxb_char list) \<Rightarrow> (lxb_char list \<Rightarrow> lxb_dom_document \<times> addr)
    \<Rightarrow> (lxb_char list \<times> bool) list \<Rightarrow> lxb_char list \<Rightarrow> nat \<Rightarrow> bool" where
  "folder_ok alloc tid read parse entries folder n \<longleftrightarrow> prefix_len folder = Some n \<and>
     (\<forall>e \<in> set entries. length (fst e) < 2 ^ 64 \<and> (snd e \<longrightarrow> 5 \<le> length (fst e) \<and> n \<le> length (fst e) \<and> parsed alloc tid (parse (read (fst e)))))"

lemma recog_meta [simp]: "k \<noteq> ''lang'' \<Longrightarrow> k \<noteq> ''lang_score'' \<Longrightarrow> GetMeta (recog s f t u doc) k = GetMeta doc k"
  by (simp add: recog_def)

lemma front_end:
  assumes "folder_ok alloc tid read parse entries folder n"
  defines "open_file \<equiv> HTMLDocument_from_file alloc tid read parse"
  shows "(\<exists>html_files docs docs'. GlobHTML entries = Some html_files \<and> LoadDocs open_file html_files docs \<and>
      RecognizeLanguage lines find_language to_string True docs (langs_ruen, docs')) \<longleftrightarrow>
    langs_ruen = filter is_ruen (map (file_doc open_file lines find_language to_string) (html_paths entries))"
    and "p \<in> set (html_paths entries) \<Longrightarrow> GetMeta (file_doc open_file lines find_language to_string p) ''path'' = p \<and> n \<le> length p"
proof -
  have glob: "GlobHTML entries = Some (html_paths entries)"
    using assms by (subst GlobHTML_eq) (fastforce simp: folder_ok_def)+
  have files: "\<exists>doc. open_file p = Some doc \<and> GetMeta doc ''path'' = p" "n \<le> length p" if "p \<in> set (html_paths entries)" for p
    using assms that by (auto simp: folder_ok_def html_paths_def open_file_def intro!: from_file_parsed)
  have "LoadDocs open_file (html_paths entries) docs \<longleftrightarrow> docs = map (\<lambda>p. the (open_file p)) (html_paths entries)" for docs
    using files(1) by (intro LoadDocs_iff) fastforce
  then show "(\<exists>html_files docs docs'. GlobHTML entries = Some html_files \<and> LoadDocs open_file html_files docs \<and>
      RecognizeLanguage lines find_language to_string True docs (langs_ruen, docs')) \<longleftrightarrow>
    langs_ruen = filter is_ruen (map (file_doc open_file lines find_language to_string) (html_paths entries))"
    by (simp add: glob RecognizeLanguage_iff move_ruen_eq file_doc_def [abs_def] comp_def)
  show "GetMeta (file_doc open_file lines find_language to_string p) ''path'' = p \<and> n \<le> length p" if "p \<in> set (html_paths entries)"
    using files [OF that] by (auto simp: file_doc_def)
qed

section \<open>The tasks\<close>

text \<open>C6: On a folder of files that can be loaded (\<^const>\<open>folder_ok\<close>), the task \<open>languages\<close> prints, for every scheduling of the threads, the paths below the folder of the HTML
  files in each of the two languages, in the order of the folder; the language of a
  file is that of its site when this is listed, and otherwise the one recognised in its text.\<close>

theorem languages_task_output:
  fixes lines :: "string \<Rightarrow> lxb_char list list" and find_language :: "lxb_char list \<Rightarrow> 'p langrec_result" and to_string
  assumes "folder_ok alloc tid read parse entries folder n"
  defines "doc \<equiv> file_doc (HTMLDocument_from_file alloc tid read parse) lines find_language to_string"
  shows "task_languages (HTMLDocument_from_file alloc tid read parse) lines find_language to_string entries folder out \<longleftrightarrow>
    out = JArray (map (\<lambda>lang. lang_json lang (map (drop n) (filter (\<lambda>p. GetMeta (doc p) ''lang'' = bytes lang) (html_paths entries))))
      [''ru'', ''en''])"
proof -
  note front = front_end [OF assms(1), where lines = lines and find_language = find_language and to_string = to_string, folded doc_def]
  have n: "prefix_len folder = Some n" using assms(1) by (simp add: folder_ok_def)
  let ?ruen = "filter is_ruen (map doc (html_paths entries))"
  have art: "lang_articles n lang ?ruen = Some (map (drop n) (filter (\<lambda>p. GetMeta (doc p) ''lang'' = bytes lang) (html_paths entries)))"
    if "lang = ''ru'' \<or> lang = ''en''" for lang
  proof -
    have "\<forall>x \<in> set ?ruen. n \<le> length (GetMeta x ''path'')" using front(2) by auto
    moreover have "map (\<lambda>x. drop n (GetMeta x ''path'')) (filter (\<lambda>x. GetMeta x ''lang'' = bytes lang) (filter is_ruen (map doc ps)))
        = map (drop n) (filter (\<lambda>p. GetMeta (doc p) ''lang'' = bytes lang) ps)" if "set ps \<subseteq> set (html_paths entries)" for ps
      using that \<open>lang = ''ru'' \<or> lang = ''en''\<close> front(2) by (induction ps) (auto simp: is_ruen_def)
    ultimately show ?thesis by (simp add: lang_articles_eq)
  qed
  have "task_languages (HTMLDocument_from_file alloc tid read parse) lines find_language to_string entries folder out \<longleftrightarrow>
      (\<exists>l. (\<exists>html_files docs docs'. GlobHTML entries = Some html_files \<and> LoadDocs (HTMLDocument_from_file alloc tid read parse) html_files docs \<and>
        RecognizeLanguage lines find_language to_string True docs (l, docs')) \<and> DumpLanguage l folder = Some out)"
    unfolding task_languages_def by metis
  also have "\<dots> \<longleftrightarrow> DumpLanguage ?ruen folder = Some out"
    unfolding front(1) by simp
  finally show ?thesis by (auto simp: DumpLanguage_def n art)
qed

text \<open>A folder with one file, whose tree is the example document.\<close>

abbreviation (input) ex_open :: "lxb_char list \<Rightarrow> HTMLDocument option" where
  "ex_open \<equiv> HTMLDocument_from_file (\<lambda>n. True) ex_tid (\<lambda>p. []) (\<lambda>b. (ex_doc, 1))"

definition ex_english :: "lxb_char list \<Rightarrow> unit langrec_result" where
  "ex_english t = \<lparr> language = bytes ''en'', probability = () \<rparr>"

definition ex_entries :: "(lxb_char list \<times> bool) list" where
  "ex_entries = [(bytes ''d/a.html'', True)]"

lemma ex_folder: "folder_ok (\<lambda>n. True) ex_tid (\<lambda>p. []) (\<lambda>b. (ex_doc, 1)) ex_entries (bytes ''d'') 2"
proof -
  have "concat (map (text_of ex_doc) (ex_ord 2)) = [0x68, 0x69]" using ex_doc_text(2) by (simp add: ex_ord_def)
  then have "parsed (\<lambda>n. True) ex_tid (ex_doc, 1)"
    unfolding parsed_def using ex_readable by (intro exI conjI) (auto simp: ex_tagged simp del: One_nat_def)
  then show ?thesis by (simp add: folder_ok_def ex_entries_def prefix_len_def bytes_def del: One_nat_def)
qed

lemma ex_html_paths: "html_paths ex_entries = [bytes ''d/a.html'']"
  by (simp add: html_paths_def ex_entries_def html_name_def bytes_def)

lemma ex_file_doc:
  "GetMeta (file_doc f (\<lambda>l. []) ex_english (\<lambda>p. []) p) ''lang'' = bytes ''en''"
  by (simp add: file_doc_def recog_def GetUrl2Lang_def ex_english_def)

theorem languages_task_output_witness:
  "task_languages ex_open (\<lambda>l. []) ex_english (\<lambda>p. []) ex_entries (bytes ''d'')
    (JArray [lang_json ''ru'' [], lang_json ''en'' [bytes ''a.html'']])"
proof -
  have "drop 2 (bytes ''d/a.html'') = bytes ''a.html''" by (simp add: bytes_def)
  then show ?thesis
    using languages_task_output [OF ex_folder, of "\<lambda>l. []" ex_english "\<lambda>p. []"] by (simp add: ex_html_paths ex_file_doc)
qed

text \<open>C7: On a folder of files that can be loaded (\<^const>\<open>folder_ok\<close>), the task \<open>news\<close> prints, for every scheduling of the threads, the paths of the HTML files in one of the two
  languages whose address, without scheme and host, names news, or for which the regression of
  the language exceeds the threshold on the normalised counts of the features in the text.\<close>

theorem news_task_output:
  fixes lines :: "string \<Rightarrow> lxb_char list list" and find_language :: "lxb_char list \<Rightarrow> 'p langrec_result" and to_string
  assumes "folder_ok alloc tid read parse entries folder n"
    and "gen_ok gen (bytes ''ru'')" "gen_ok gen (bytes ''en'')"
    and "model_ok ru_model (length (feats_dict gen))" "model_ok en_model (length (feats_dict gen))"
  defines "doc \<equiv> file_doc (HTMLDocument_from_file alloc tid read parse) lines find_language to_string"
  shows "task_news F (Q :: 'q fops) gen ru_model en_model (HTMLDocument_from_file alloc tid read parse) lines find_language to_string entries folder out \<longleftrightarrow>
    out = JObject [(''articles'', JArray (map (\<lambda>p. JString (drop n p))
      (filter (\<lambda>p. is_ruen (doc p) \<and> news_document F gen ru_model en_model (doc p)) (html_paths entries))))]"
proof -
  note front = front_end [OF assms(1), where lines = lines and find_language = find_language and to_string = to_string, folded doc_def]
  have n: "prefix_len folder = Some n" using assms(1) by (simp add: folder_ok_def)
  let ?ruen = "filter is_ruen (map doc (html_paths entries))"
  let ?det = "\<lambda>x :: ('a, 'q) DocFeatures. the (detect_news_doc F ru_model en_model x)"
  let ?feat = "\<lambda>x. doc_features F Q gen (- 1) x"
  have gen: "\<forall>x \<in> set ?ruen. is_ruen x \<longrightarrow> gen_ok gen (GetMeta x ''lang'')" using assms(2,3) by (auto simp: is_ruen_def)
  have det: "\<exists>y. detect_news_doc F ru_model en_model (?feat x) = Some y \<and> doc_name y = GetMeta x ''path'' \<and>
      is_news y = news_document F gen ru_model en_model x" if "x \<in> set ?ruen" for x
    using that gen by (intro detect_news_doc_features assms(4,5)) auto
  have news: "DetectNews F ru_model en_model (map ?feat ?ruen) news \<longleftrightarrow> news = filter is_news (map ?det (map ?feat ?ruen))" for news
    using det by (intro DetectNews_iff) fastforce
  have paths: "doc_paths n (filter is_news (map ?det (map ?feat (filter is_ruen (map doc ps))))) =
      Some (map (drop n) (filter (\<lambda>p. is_ruen (doc p) \<and> news_document F gen ru_model en_model (doc p)) ps))"
    if "set ps \<subseteq> set (html_paths entries)" for ps
    using that
  proof (induction ps)
    case (Cons p ps)
    then have "GetMeta (doc p) ''path'' = p" "n \<le> length p" using front(2) by auto
    then show ?case using Cons det [of "doc p"] by (auto simp: substr_def)
  qed simp
  have "task_news F Q gen ru_model en_model (HTMLDocument_from_file alloc tid read parse) lines find_language to_string entries folder out \<longleftrightarrow>
      (\<exists>l. (\<exists>html_files docs docs'. GlobHTML entries = Some html_files \<and> LoadDocs (HTMLDocument_from_file alloc tid read parse) html_files docs \<and>
        RecognizeLanguage lines find_language to_string True docs (l, docs')) \<and>
        (\<exists>features news. GenerateFeatures F Q gen l (- 1) features \<and> DetectNews F ru_model en_model features news \<and> DumpNewsDet news folder = Some out))"
    unfolding task_news_def by metis
  also have "\<dots> \<longleftrightarrow> DumpNewsDet (filter is_news (map ?det (map ?feat ?ruen))) folder = Some out"
    unfolding front(1) by (simp only: simp_thms ex_simps GenerateFeatures_iff [OF gen] news)
  finally show ?thesis using paths [of "html_paths entries"] by (auto simp: DumpNewsDet_def n comp_def)
qed

text \<open>Whole numbers in place of floating point, and a generator without features.\<close>

definition ex_fops :: "int fops" where
  "ex_fops = \<lparr> fzero = 0, fone = 1, fadd = (+), fsub = (-), fmul = (*), fdiv = (div), fneg = uminus, fexp = id,
     fgreater = (>), fthreshold = 0 \<rparr>"

definition ex_gen :: FeaturesGenerator where
  "ex_gen = \<lparr> clean = id, analyse = (\<lambda>l. Some (\<lambda>t. [])), upostags_dict = [], feats_dict = [],
     lang2lemmas_dict = (\<lambda>l. Some (\<lambda>c. Some [])) \<rparr>"

definition ex_model :: "int LogisticRegression" where
  "ex_model = \<lparr> weights = [], bias = 0, features_count = 0, lr_mean = [] \<rparr>"

lemma ex_gen_ok: "gen_ok ex_gen lang" "model_ok ex_model (length (feats_dict ex_gen))"
  by (simp_all add: gen_ok_def ex_gen_def model_ok_def ex_model_def)

theorem news_task_output_witness:
  "task_news ex_fops ex_fops ex_gen ex_model ex_model ex_open (\<lambda>l. []) ex_english (\<lambda>p. []) ex_entries (bytes ''d'')
    (JObject [(''articles'', JArray [JString (bytes ''a.html'')])])"
proof -
  have "drop 2 (bytes ''d/a.html'') = bytes ''a.html''" by (simp add: bytes_def)
  moreover have "news_document ex_fops ex_gen ex_model ex_model x" for x
    by (simp add: news_document_def logistic_def ex_fops_def ex_model_def)
  ultimately show ?thesis
    using news_task_output [OF ex_folder ex_gen_ok(1) ex_gen_ok(1) ex_gen_ok(2) ex_gen_ok(2), of ex_fops ex_fops "\<lambda>l. []" ex_english "\<lambda>p. []"]
    by (simp add: ex_html_paths ex_file_doc is_ruen_def)
qed

text \<open>C36: The task \<open>news_test\<close> never prints a score (the result is empty, for every folder name): the documents in the two languages have been moved
  out of the vector it goes on with, so that no document there is in Russian.\<close>

theorem news_test_prints_nothing:
  "task_news_test F Q gen ru_model en_model lines find_language to_string docs input_folder out \<longleftrightarrow>
    input_folder \<noteq> [] \<and> out = Map.empty"
proof -
  define rest where "rest = snd (move_ruen (map (recog (GetUrl2Lang lines) find_language to_string True) docs))"
  have "\<not> is_ruen x" if "x \<in> set rest" for x
    using that by (auto simp: rest_def move_ruen_eq is_ruen_def)
  then have lang: "GetMeta x ''lang'' \<noteq> bytes ''ru''" "GetMeta x ''lang'' \<noteq> bytes ''en''" if "x \<in> set rest" for x
    using that by (auto simp: is_ruen_def)
  let ?feat = "\<lambda>x. doc_features F Q gen (- 1) x"
  have gen: "GenerateFeatures F Q gen rest (- 1) features \<longleftrightarrow> features = map ?feat rest" for features
    using lang by (intro GenerateFeatures_iff) (auto simp: is_ruen_def)
  have det: "\<exists>y. detect_news_doc F ru_model en_model (?feat x) = Some y \<and> doc_lang y = GetMeta x ''lang''" if "x \<in> set rest" for x
    using lang [OF that] by (simp add: detect_news_doc_def)
  have news: "DetectNews F ru_model en_model (map ?feat rest) news \<longleftrightarrow>
      news = filter is_news (map (\<lambda>x. the (detect_news_doc F ru_model en_model x)) (map ?feat rest))" for news
    using det by (intro DetectNews_iff) fastforce
  have none: "fold (\<lambda>x m. if doc_lang x = bytes ''ru'' then m(doc_name x \<mapsto> is_news_score x) else m) xs m = m"
    if "\<forall>x \<in> set xs. doc_lang x \<noteq> bytes ''ru''" for xs :: "('a, 'b) DocFeatures list" and m
    using that by (induction xs) simp_all
  have "doc_lang y \<noteq> bytes ''ru''" if "y \<in> set (filter is_news (map (\<lambda>x. the (detect_news_doc F ru_model en_model x)) (map ?feat rest)))" for y
    using that det lang(1) by fastforce
  then have empty: "DumpNewsDetTest (filter is_news (map (\<lambda>x. the (detect_news_doc F ru_model en_model x)) (map ?feat rest))) input_folder =
      (if input_folder = [] then None else Some Map.empty)"
    unfolding DumpNewsDetTest_def by (subst none) (auto simp: prefix_len_def)
  have "RecognizeLanguage lines find_language to_string True docs (l, d) \<Longrightarrow> d = rest" for l d
    by (simp add: RecognizeLanguage_iff rest_def prod_eq_iff)
  moreover have "RecognizeLanguage lines find_language to_string True docs (fst (move_ruen (map (recog (GetUrl2Lang lines) find_language to_string True) docs)), rest)"
    by (simp add: RecognizeLanguage_iff rest_def)
  ultimately have "task_news_test F Q gen ru_model en_model lines find_language to_string docs input_folder out \<longleftrightarrow>
      (\<exists>features news. GenerateFeatures F Q gen rest (- 1) features \<and> DetectNews F ru_model en_model features news \<and> DumpNewsDetTest news input_folder = Some out)"
    unfolding task_news_test_def by metis
  also have "\<dots> \<longleftrightarrow> input_folder \<noteq> [] \<and> out = Map.empty" by (simp only: gen news simp_thms ex_simps empty) auto
  finally show ?thesis .
qed

section \<open>Files that end the program\<close>

text \<open>C38: Listing a folder ends with an exception exactly when a regular file in it has a path of fewer than five bytes;
  otherwise it returns the paths of the regular files that end in \<open>.html\<close>, in the order of the folder.\<close>

theorem glob_html_short_paths:
  assumes "\<forall>e \<in> set entries. length (fst e) < 2 ^ 64"
  shows "GlobHTML entries = (if \<exists>e \<in> set entries. snd e \<and> length (fst e) < 5 then None else Some (html_paths entries))"
  using assms by (rule GlobHTML_eq)

theorem glob_html_short_paths_witness: "GlobHTML [(bytes ''d/a'', True)] = None"
  using glob_html_short_paths [of "[(bytes ''d/a'', True)]"] by (simp add: bytes_def)

section \<open>Categories\<close>

lemma group_by_lang_eq:
  "group_by_lang docs m l = (if (\<exists>x \<in> set docs. doc_lang x = l) \<or> m l \<noteq> None
     then Some ((case m l of None \<Rightarrow> [] | Some xs \<Rightarrow> xs) @ filter (\<lambda>x. doc_lang x = l) docs) else None)"
  by (induction docs arbitrary: m) (auto split: option.splits)

text \<open>C37: Sorting news into categories ends with an exception whenever there is no document in one of the two languages.\<close>

theorem categories_need_both_languages:
  assumes "(\<forall>x \<in> set documents. doc_lang x \<noteq> bytes ''ru'') \<or> (\<forall>x \<in> set documents. doc_lang x \<noteq> bytes ''en'')"
  shows "GetCategories F transform documents = None"
  using assms by (auto simp: GetCategories_def Let_def group_by_lang_eq bind_eq_None_conv)

theorem categories_need_both_languages_witness:
  "GetCategories ex_fops (\<lambda>l ds. \<lparr> topic_name = [], item_weights = [] \<rparr>)
    [(DocFeatures_default ex_fops :: (int, int) DocFeatures)\<lparr> doc_lang := bytes ''ru'' \<rparr>] = None"
  by (rule categories_need_both_languages) simp

text \<open>The documents that a matrix of weights puts into the category \<open>c\<close>.\<close>

definition assigned :: "'r fops \<Rightarrow> 'r theta_matrix \<Rightarrow> ('r, 'q) DocFeatures list \<Rightarrow> lxb_char list \<Rightarrow> ('r, 'q) DocFeatures list" where
  "assigned F th docs c = concat (map (\<lambda>d. map (\<lambda>_. docs ! d)
     (filter (\<lambda>t. topic_name th ! t = c \<and> fgreater F (item_weights th ! d ! t) (fthreshold F)) [0..<length (topic_name th) - 1]))
     [0..<length docs])"

text \<open>The answer of the topic model fits: one row for each document, one weight for each topic, known topics.\<close>

definition theta_ok :: "'r theta_matrix \<Rightarrow> nat \<Rightarrow> bool" where
  "theta_ok th n \<longleftrightarrow> length (item_weights th) = n \<and> (\<forall>ws \<in> set (item_weights th). length ws = length (topic_name th)) \<and>
     (\<forall>t < length (topic_name th) - 1. topic_name th ! t \<in> bytes ` set category_names)"

lemma for_range_fold:
  assumes "\<And>i s. a \<le> i \<Longrightarrow> i < b \<Longrightarrow> P s \<Longrightarrow> body i s = Some (g i s) \<and> P (g i s)" "P s"
  shows "for_range a b body s = Some (fold g [a..<b] s) \<and> P (fold g [a..<b] s)"
  using assms
proof (induction "b - a" arbitrary: a s)
  case 0
  then show ?case by (simp add: for_range.simps)
next
  case (Suc n)
  have lt: "a < b" using Suc.hyps(2) by simp
  have s1: "body a s = Some (g a s)" "P (g a s)" using Suc.prems lt by auto
  have "for_range (Suc a) b body (g a s) = Some (fold g [Suc a..<b] (g a s)) \<and> P (fold g [Suc a..<b] (g a s))"
    using Suc.hyps(2) Suc.prems(1) s1(2) by (intro Suc.hyps(1)) auto
  then show ?case using s1 lt by (subst for_range.simps) (simp add: upt_conv_Cons)
qed

text \<open>Appending to a category, and a sequence of such steps.\<close>

definition add_to :: "lxb_char list \<Rightarrow> 'x \<Rightarrow> (lxb_char list \<rightharpoonup> 'x list) \<Rightarrow> (lxb_char list \<rightharpoonup> 'x list)" where
  "add_to c x m = m(c \<mapsto> the (m c) @ [x])"

lemma add_to_apply: "add_to c x m c' = (if c' = c then Some (the (m c) @ [x]) else m c')"
  by (simp add: add_to_def)

lemma fold_add_to:
  assumes "\<forall>t \<in> set ts. P t \<longrightarrow> m (f t) \<noteq> None"
  shows "fold (\<lambda>t m. if P t then add_to (f t) x m else m) ts m c =
     map_option (\<lambda>xs. xs @ map (\<lambda>_. x) (filter (\<lambda>t. f t = c \<and> P t) ts)) (m c)"
  using assms
proof (induction ts arbitrary: m)
  case (Cons t ts)
  show ?case
  proof (cases "P t")
    case True
    then obtain y where "m (f t) = Some y" using Cons.prems by auto
    moreover have "fold (\<lambda>t m. if P t then add_to (f t) x m else m) ts (add_to (f t) x m) c =
        map_option (\<lambda>xs. xs @ map (\<lambda>_. x) (filter (\<lambda>t. f t = c \<and> P t) ts)) (add_to (f t) x m c)"
      using Cons.prems by (intro Cons.IH) (simp add: add_to_apply)
    ultimately show ?thesis using True by (cases "f t = c") (simp_all add: add_to_apply)
  qed (use Cons in simp)
qed (simp add: option.map_ident)

lemma dom_fold_add_to: "dom (fold (\<lambda>t m. if P t then add_to (f t) x m else m) ts m) \<supseteq> dom m"
proof (induction ts arbitrary: m)
  case (Cons t ts)
  have "dom m \<subseteq> dom (if P t then add_to (f t) x m else m)" by (auto simp: add_to_def)
  then show ?case using Cons.IH [of "if P t then add_to (f t) x m else m"] by simp
qed simp

lemma AddCategories_assigned:
  fixes cat2doc :: "('r, 'q) categories" and docs :: "('r, 'q) DocFeatures list"
    and transform :: "(lxb_char list \<times> (string \<rightharpoonup> (nat \<rightharpoonup> 'q))) list \<Rightarrow> 'r theta_matrix"
  defines "th \<equiv> transform (map (\<lambda>x. (doc_name x, lemmas_of x)) docs)"
  assumes "\<forall>x \<in> set docs. lemmas_of x ''text'' \<noteq> None \<and> lemmas_of x ''title'' \<noteq> None"
    and "theta_ok th (length docs)" "bytes ` set category_names \<subseteq> dom cat2doc"
  shows "\<exists>m. AddCategories F transform docs cat2doc = Some m \<and> bytes ` set category_names \<subseteq> dom m \<and>
    (\<forall>c. m c = map_option (\<lambda>xs. xs @ assigned F th docs c) (cat2doc c))"
proof -
  let ?ts = "[0..<length (topic_name th) - 1]"
  let ?P = "\<lambda>d t. fgreater F (item_weights th ! d ! t) (fthreshold F)"
  let ?g = "\<lambda>d m. fold (\<lambda>t m. if ?P d t then add_to (topic_name th ! t) (docs ! d) m else m) ?ts m"
  let ?ok = "\<lambda>m :: ('r, 'q) categories. bytes ` set category_names \<subseteq> dom m"
  have topics: "m (topic_name th ! t) \<noteq> None" if "?ok m" "t < length (topic_name th) - 1" for m t
    using that assms(3) unfolding theta_ok_def by blast
  have inner: "for_range 0 (length (topic_name th) - 1) (\<lambda>t m. do {
        w \<leftarrow> vector_at (item_weights th ! d) t;
        if fgreater F w (fthreshold F) then do {
          ds \<leftarrow> m (topic_name th ! t);
          x \<leftarrow> vector_at docs d;
          Some (m(topic_name th ! t \<mapsto> ds @ [x]))
        } else Some m }) m = Some (?g d m) \<and> ?ok (?g d m)"
    if "d < length docs" "?ok m" for d m
  proof (rule for_range_fold [where P = ?ok, OF _ that(2)])
    fix t m assume t: "t < length (topic_name th) - 1" and ok: "?ok m"
    have "length (item_weights th ! d) = length (topic_name th)" using assms(3) that(1) by (simp add: theta_ok_def)
    then show "(do {
        w \<leftarrow> vector_at (item_weights th ! d) t;
        if fgreater F w (fthreshold F) then do {
          ds \<leftarrow> m (topic_name th ! t);
          x \<leftarrow> vector_at docs d;
          Some (m(topic_name th ! t \<mapsto> ds @ [x]))
        } else Some m }) = Some (if ?P d t then add_to (topic_name th ! t) (docs ! d) m else m) \<and>
        ?ok (if ?P d t then add_to (topic_name th ! t) (docs ! d) m else m)"
      using topics [OF ok t] t ok that(1) by (auto simp: vector_at_def add_to_def)
  qed
  have no: "\<not> (\<exists>x \<in> set docs. lemmas_of x ''text'' = None \<or> lemmas_of x ''title'' = None)" using assms(2) by auto
  have lens: "length (item_weights th) = length docs" using assms(3) by (simp add: theta_ok_def)
  have "AddCategories F transform docs cat2doc = Some (fold ?g [0..<length docs] cat2doc) \<and> ?ok (fold ?g [0..<length docs] cat2doc)"
    unfolding AddCategories_def Let_def th_def [symmetric] lens if_not_P [OF no]
    by (rule for_range_fold [where P = ?ok]) (rule inner, assumption+, rule assms(4))
  moreover have "fold ?g ds m c = map_option (\<lambda>xs. xs @ concat (map (\<lambda>d. map (\<lambda>_. docs ! d)
      (filter (\<lambda>t. topic_name th ! t = c \<and> ?P d t) ?ts)) ds)) (m c)" if "?ok m" for ds m c
    using that
  proof (induction ds arbitrary: m)
    case (Cons d ds)
    have "?ok (?g d m)" using Cons.prems dom_fold_add_to [of m "?P d" "\<lambda>t. topic_name th ! t" "docs ! d" ?ts] by blast
    moreover have "?g d m c = map_option (\<lambda>xs. xs @ map (\<lambda>_. docs ! d) (filter (\<lambda>t. topic_name th ! t = c \<and> ?P d t) ?ts)) (m c)"
      using topics [OF Cons.prems] by (intro fold_add_to) auto
    ultimately show ?case using Cons.IH [of "?g d m"] by (simp add: option.map_comp comp_def)
  qed (simp add: option.map_ident)
  ultimately show ?thesis using assms(4) unfolding assigned_def by blast
qed

text \<open>Sorting news into categories puts each document into every category whose weight exceeds the threshold, the
  Russian documents before the English ones, when there are documents in both languages
  and the topic model answers with known topics.\<close>

theorem categories_assigned:
  fixes documents :: "('r, 'q) DocFeatures list"
    and transform :: "string \<Rightarrow> (lxb_char list \<times> (string \<rightharpoonup> (nat \<rightharpoonup> 'q))) list \<Rightarrow> 'r theta_matrix"
  assumes "\<forall>x \<in> set documents. lemmas_of x ''text'' \<noteq> None \<and> lemmas_of x ''title'' \<noteq> None"
    and "\<exists>x \<in> set documents. doc_lang x = bytes ''ru''" "\<exists>x \<in> set documents. doc_lang x = bytes ''en''"
    and "\<forall>l ds. theta_ok (transform l ds) (length ds)"
  defines "of_lang l \<equiv> filter (\<lambda>x. doc_lang x = bytes l) documents"
    and "theta l ds \<equiv> transform l (map (\<lambda>x. (doc_name x, lemmas_of x)) ds)"
  shows "\<exists>cats. GetCategories F transform documents = Some cats \<and> (\<forall>c \<in> set category_names.
    cats (bytes c) = Some (assigned F (theta ''ru'' (of_lang ''ru'')) (of_lang ''ru'') (bytes c) @
      assigned F (theta ''en'' (of_lang ''en'')) (of_lang ''en'') (bytes c)))"
proof -
  let ?c0 = "\<lambda>c. if c \<in> bytes ` set category_names then Some [] else None :: ('r, 'q) DocFeatures list option"
  have ok: "\<forall>x \<in> set (of_lang l). lemmas_of x ''text'' \<noteq> None \<and> lemmas_of x ''title'' \<noteq> None"
      "theta_ok (transform l (map (\<lambda>x. (doc_name x, lemmas_of x)) (of_lang l))) (length (of_lang l))" for l
    using assms(1) spec [OF spec [OF assms(4)], of l "map (\<lambda>x. (doc_name x, lemmas_of x)) (of_lang l)"] by (auto simp: of_lang_def)
  have "bytes ` set category_names \<subseteq> dom ?c0" by (auto split: if_splits)
  from AddCategories_assigned [where transform = "transform ''ru''" and F = F, OF ok(1) [of "''ru''"] ok(2) [of "''ru''"] this]
  obtain m1 where m1: "AddCategories F (transform ''ru'') (of_lang ''ru'') ?c0 = Some m1" "bytes ` set category_names \<subseteq> dom m1"
    "\<And>c. m1 c = map_option (\<lambda>xs. xs @ assigned F (theta ''ru'' (of_lang ''ru'')) (of_lang ''ru'') c) (?c0 c)"
    unfolding theta_def by blast
  from AddCategories_assigned [where transform = "transform ''en''" and F = F, OF ok(1) [of "''en''"] ok(2) [of "''en''"] m1(2)]
  obtain m2 where m2: "AddCategories F (transform ''en'') (of_lang ''en'') m1 = Some m2"
    "\<And>c. m2 c = map_option (\<lambda>xs. xs @ assigned F (theta ''en'' (of_lang ''en'')) (of_lang ''en'') c) (m1 c)"
    unfolding theta_def by blast
  have "group_by_lang documents Map.empty (bytes l) = Some (of_lang l)" if "\<exists>x \<in> set documents. doc_lang x = bytes l" for l
    using that by (simp add: group_by_lang_eq of_lang_def)
  then have "GetCategories F transform documents = Some m2"
    using assms(2,3) m1(1) m2(1) by (simp add: GetCategories_def Let_def)
  then show ?thesis using m1(3) m2(2) by simp
qed

definition ex_theta :: "string \<Rightarrow> 'x list \<Rightarrow> int theta_matrix" where
  "ex_theta l ds = \<lparr> topic_name = [bytes ''Sports'', bytes ''background''], item_weights = map (\<lambda>_. [1, 0]) ds \<rparr>"

definition ex_news :: "string \<Rightarrow> (int, int) DocFeatures" where
  "ex_news l = (DocFeatures_default ex_fops)\<lparr> doc_lang := bytes l \<rparr>"

theorem categories_assigned_witness:
  "\<exists>cats. GetCategories ex_fops ex_theta [ex_news ''en'', ex_news ''ru''] = Some cats \<and>
    cats (bytes ''Sports'') = Some [ex_news ''ru'', ex_news ''en'']"
proof -
  have ok: "\<forall>l ds. theta_ok (ex_theta l ds) (length ds)"
    by (auto simp: theta_ok_def ex_theta_def category_names_def)
  have sel: "assigned ex_fops (ex_theta l [y]) [x] (bytes ''Sports'') = [x]" for l x and y :: "lxb_char list \<times> (string \<rightharpoonup> (nat \<rightharpoonup> int))"
    by (simp add: assigned_def ex_theta_def ex_fops_def)
  have doc: "lemmas_of (ex_news l) ''text'' \<noteq> None" "lemmas_of (ex_news l) ''title'' \<noteq> None" "doc_lang (ex_news l) = bytes l" for l
    by (simp_all add: ex_news_def DocFeatures_default_def)
  then have docs: "\<forall>x \<in> set [ex_news ''en'', ex_news ''ru'']. lemmas_of x ''text'' \<noteq> None \<and> lemmas_of x ''title'' \<noteq> None"
    "\<exists>x \<in> set [ex_news ''en'', ex_news ''ru'']. doc_lang x = bytes ''ru''" "\<exists>x \<in> set [ex_news ''en'', ex_news ''ru'']. doc_lang x = bytes ''en''"
    by auto
  show ?thesis
    using categories_assigned [OF docs ok, of ex_fops] by (auto simp: doc sel category_names_def)
qed

section \<open>Threads\<close>

text \<open>Of several documents with the same title the threads keep only the last one.\<close>

theorem threads_keep_last:
  "GetThreads documents Map.empty t = (case filter (\<lambda>x. title x = t) documents of [] \<Rightarrow> None | xs \<Rightarrow> Some [last xs])"
proof -
  have "GetThreads documents m t = (case filter (\<lambda>x. title x = t) documents of [] \<Rightarrow> m t | xs \<Rightarrow> Some [last xs])" for m
    by (induction documents arbitrary: m) (auto split: list.splits)
  then show ?thesis by simp
qed

end
