(* ===== verification/Enc_Base.thy ===== *)
theory Enc_Base
  imports Lxb_Prelude
begin

unbundle bit_operations_syntax

text \<open>
  Decoding and encoding of text: the contexts and the UTF-8 functions of \<open>encoding/decode.c\<close> and \<open>encoding/encode.c\<close>, in
  the variant that fills a buffer and in the variant for a single code point, and the functions
  of \<open>encoding/encoding.h\<close> around them.

  The bytes between \<open>*data\<close> and \<open>end\<close> are a list; a function returns what is left of it, the new
  value of \<open>*data\<close>.  The output buffer is the list of what has been written to it and its
  capacity; a write without a check beyond the capacity is undefined (\<^const>\<open>None\<close>).
  The capacity and the replacement come from memory, so their lengths do not wrap around when
  they are added.  The fields of the union \<open>u\<close> of the context are separate fields: a context is
  used for one encoding only.
\<close>

section \<open>The context for decoding\<close>

type_synonym lxb_codepoint = "32 word"

record decode_ctx =
  buffer_out :: "lxb_codepoint list"
  buffer_length :: nat
  replace_to :: "lxb_codepoint list option"
  codepoint :: lxb_codepoint
  second_codepoint :: lxb_codepoint
  have_error :: bool
  dec_status :: lxb_status
  u8_need :: nat
  u8_lower :: lxb_char
  u8_upper :: lxb_char
  u_lead :: nat

type_synonym dec_result = "decode_ctx \<times> lxb_char list \<times> lxb_status"

definition lxb_encoding_decode_init :: "nat \<Rightarrow> decode_ctx" where
  "lxb_encoding_decode_init n = \<lparr> buffer_out = [], buffer_length = n, replace_to = None, codepoint = 0, second_codepoint = 0,
     have_error = False, dec_status = LXB_STATUS_OK, u8_need = 0, u8_lower = 0, u8_upper = 0, u_lead = 0 \<rparr>"

definition lxb_encoding_decode_replace_set :: "decode_ctx \<Rightarrow> lxb_codepoint list \<Rightarrow> decode_ctx \<times> lxb_status" where
  "lxb_encoding_decode_replace_set ctx r =
    (if buffer_length ctx < length r then (ctx, LXB_STATUS_SMALL_BUFFER)
     else (ctx\<lparr> replace_to := Some r \<rparr>, LXB_STATUS_OK))"

definition lxb_encoding_decode_buf_set :: "decode_ctx \<Rightarrow> nat \<Rightarrow> decode_ctx" where
  "lxb_encoding_decode_buf_set ctx n = ctx\<lparr> buffer_out := [], buffer_length := n \<rparr>"

definition lxb_encoding_decode_buf_add_to :: "decode_ctx \<Rightarrow> lxb_codepoint list \<Rightarrow> decode_ctx \<times> lxb_status" where
  "lxb_encoding_decode_buf_add_to ctx cps =
    (if length (buffer_out ctx) + length cps > buffer_length ctx then (ctx, LXB_STATUS_SMALL_BUFFER)
     else (ctx\<lparr> buffer_out := buffer_out ctx @ cps \<rparr>, LXB_STATUS_OK))"

text \<open>For the encodings of this theory, which are not ISO-2022-JP.\<close>

definition lxb_encoding_decode_finish :: "decode_ctx \<Rightarrow> decode_ctx \<times> lxb_status" where
  "lxb_encoding_decode_finish ctx =
    (if dec_status ctx \<noteq> LXB_STATUS_OK then
       (case replace_to ctx of
          None \<Rightarrow> (ctx, LXB_STATUS_ERROR)
        | Some r \<Rightarrow> lxb_encoding_decode_buf_add_to ctx r)
     else (ctx, LXB_STATUS_OK))"

definition lxb_encoding_decode_finish_single :: "decode_ctx \<Rightarrow> lxb_status" where
  "lxb_encoding_decode_finish_single ctx = (if dec_status ctx \<noteq> LXB_STATUS_OK then LXB_STATUS_ERROR else LXB_STATUS_OK)"

text \<open>\<open>LXB_ENCODING_DECODE_APPEND_WO_CHECK\<close>\<close>

definition append_wo_check :: "decode_ctx \<Rightarrow> lxb_codepoint \<Rightarrow> decode_ctx option" where
  "append_wo_check ctx cp =
    (if length (buffer_out ctx) < buffer_length ctx then Some (ctx\<lparr> buffer_out := buffer_out ctx @ [cp] \<rparr>) else None)"

text \<open>\<open>LXB_ENCODING_DECODE_CHECK_OUT\<close>\<close>

definition out_full :: "decode_ctx \<Rightarrow> bool" where
  "out_full ctx \<longleftrightarrow> length (buffer_out ctx) \<ge> buffer_length ctx"

text \<open>\<open>LXB_ENCODING_DECODE_ERROR_BEGIN\<close> and \<open>_END\<close>: the status with which the function returns, or the context
  with the replacement appended.\<close>

definition decode_error :: "decode_ctx \<Rightarrow> lxb_status + decode_ctx" where
  "decode_error ctx =
    (case replace_to ctx of
       None \<Rightarrow> Inl LXB_STATUS_ERROR
     | Some r \<Rightarrow>
         if length (buffer_out ctx) + length r > buffer_length ctx then Inl LXB_STATUS_SMALL_BUFFER
         else Inr (ctx\<lparr> buffer_out := buffer_out ctx @ r \<rparr>))"

text \<open>The code at the beginning of the functions that makes up for an error of the previous call.\<close>

definition decode_resume_error :: "decode_ctx \<Rightarrow> lxb_status \<times> decode_ctx + decode_ctx" where
  "decode_resume_error ctx =
    (let ctx = ctx\<lparr> dec_status := LXB_STATUS_OK \<rparr> in
     if have_error ctx then
       (let ctx = ctx\<lparr> have_error := False \<rparr> in
        case decode_error ctx of
          Inl st \<Rightarrow> Inl (st, if st = LXB_STATUS_SMALL_BUFFER then ctx\<lparr> have_error := True \<rparr> else ctx)
        | Inr ctx \<Rightarrow> Inr ctx)
     else Inr ctx)"

section \<open>UTF-8\<close>

definition next_bits :: "lxb_codepoint \<Rightarrow> lxb_char \<Rightarrow> lxb_codepoint" where
  "next_bits cp ch = push_bit 6 cp OR (ucast ch AND 0x3F)"

text \<open>\<open>LXB_ENCODING_DECODE_UTF_8_BOUNDARY_SET\<close>\<close>

definition boundary_set :: "lxb_char \<Rightarrow> lxb_char \<Rightarrow> lxb_char \<Rightarrow> lxb_char \<Rightarrow> lxb_char \<Rightarrow> decode_ctx \<Rightarrow> decode_ctx" where
  "boundary_set ch fst_b snd_b f_lower s_upper ctx =
    (if ch = fst_b then ctx\<lparr> u8_lower := f_lower, u8_upper := 0xBF \<rparr>
     else if ch = snd_b then ctx\<lparr> u8_lower := 0x80, u8_upper := s_upper \<rparr>
     else ctx)"

text \<open>The loop behind the label \<open>begin\<close>, the macro \<open>LXB_ENCODING_DECODE_UTF_8_BOUNDARY\<close> with what follows it, and the
  loop behind the label \<open>decode\<close>.  \<open>data\<close> is \<open>*data\<close>, which only some of the returns set; \<open>resumed\<close> tells the use of the
  macro at the beginning of the function.\<close>

function (sequential) utf_8_begin :: "decode_ctx \<Rightarrow> lxb_char list \<Rightarrow> lxb_char list \<Rightarrow> dec_result option"
  and utf_8_boundary :: "bool \<Rightarrow> lxb_char \<Rightarrow> lxb_char \<Rightarrow> nat \<Rightarrow> decode_ctx \<Rightarrow> lxb_char list \<Rightarrow> lxb_char list \<Rightarrow> dec_result option"
  and utf_8_decode :: "nat \<Rightarrow> decode_ctx \<Rightarrow> lxb_char list \<Rightarrow> lxb_char list \<Rightarrow> dec_result option" where
  "utf_8_begin ctx data [] = Some (ctx, [], LXB_STATUS_OK)"
| "utf_8_begin ctx data (ch # p) =
    (if out_full ctx then Some (ctx, ch # p, LXB_STATUS_SMALL_BUFFER)
     else if ch < 0x80 then do {
       ctx \<leftarrow> append_wo_check ctx (ucast ch);
       utf_8_begin ctx data p
     }
     else if ch \<le> 0xDF then
       (if ch < 0xC2 then
          (case decode_error ctx of
             Inl st \<Rightarrow> Some (ctx, if st = LXB_STATUS_SMALL_BUFFER then ch # p else data, st)
           | Inr ctx \<Rightarrow> utf_8_begin ctx data p)
        else utf_8_decode 1 (ctx\<lparr> codepoint := ucast ch AND 0x1F \<rparr>) data p)
     else if ch < 0xF0 then
       (let ctx = ctx\<lparr> codepoint := ucast ch AND 0x0F \<rparr> in
        if p = [] then
          Some ((boundary_set ch 0xE0 0xED 0xA0 0x9F ctx)\<lparr> u8_need := 2, dec_status := LXB_STATUS_CONTINUE \<rparr>, [], LXB_STATUS_CONTINUE)
        else if ch = 0xE0 then utf_8_boundary False 0xA0 0xBF 2 ctx data p
        else if ch = 0xED then utf_8_boundary False 0x80 0x9F 2 ctx data p
        else utf_8_decode 2 ctx data p)
     else if ch < 0xF5 then
       (let ctx = ctx\<lparr> codepoint := ucast ch AND 0x07 \<rparr> in
        if p = [] then
          Some ((boundary_set ch 0xF0 0xF4 0x90 0x8F ctx)\<lparr> u8_need := 3, dec_status := LXB_STATUS_CONTINUE \<rparr>, [], LXB_STATUS_CONTINUE)
        else if ch = 0xF0 then utf_8_boundary False 0x90 0xBF 3 ctx data p
        else if ch = 0xF4 then utf_8_boundary False 0x80 0x8F 3 ctx data p
        else utf_8_decode 3 ctx data p)
     else
       (case decode_error ctx of
          Inl st \<Rightarrow> Some (ctx, if st = LXB_STATUS_SMALL_BUFFER then ch # p else data, st)
        | Inr ctx \<Rightarrow> utf_8_begin ctx data p))"
| "utf_8_boundary resumed lower upper need ctx data [] = None"
| "utf_8_boundary resumed lower upper need ctx data (ch # p) =
    (if ch < lower \<or> ch > upper then
       (let ctx = ctx\<lparr> u8_lower := 0, u8_need := 0 \<rparr> in
        case decode_error ctx of
          Inl st \<Rightarrow> if st = LXB_STATUS_SMALL_BUFFER then Some (ctx\<lparr> have_error := True \<rparr>, ch # p, st) else Some (ctx, data, st)
        | Inr ctx \<Rightarrow> utf_8_begin ctx data (ch # p))
     else
       (let ctx = ctx\<lparr> codepoint := next_bits (codepoint ctx) ch \<rparr>;
            ctx = (if resumed then ctx\<lparr> u8_lower := 0 \<rparr> else ctx)
        in utf_8_decode (need - 1) ctx data p))"
| "utf_8_decode need ctx data [] = Some (ctx\<lparr> u8_need := need, dec_status := LXB_STATUS_CONTINUE \<rparr>, [], LXB_STATUS_CONTINUE)"
| "utf_8_decode need ctx data (ch # p) =
    (if ch < 0x80 \<or> ch > 0xBF then
       (let ctx = ctx\<lparr> u8_need := 0 \<rparr> in
        case decode_error ctx of
          Inl st \<Rightarrow> if st = LXB_STATUS_SMALL_BUFFER then Some (ctx\<lparr> have_error := True \<rparr>, ch # p, st) else Some (ctx, data, st)
        | Inr ctx \<Rightarrow> utf_8_begin ctx data (ch # p))
     else
       (let ctx = ctx\<lparr> codepoint := next_bits (codepoint ctx) ch \<rparr> in
        if need = 1 then do {
          ctx \<leftarrow> append_wo_check ctx (codepoint ctx);
          utf_8_begin ctx data p
        }
        else utf_8_decode (need - 1) ctx data p))"
  by pat_completeness auto
termination
  by (relation "measure (\<lambda>x. case x of
      Inl (_, _, p) \<Rightarrow> 2 * length p
    | Inr (Inl (_, _, _, _, _, _, p)) \<Rightarrow> 2 * length p + 1
    | Inr (Inr (_, _, _, p)) \<Rightarrow> 2 * length p + 1)") auto

definition lxb_encoding_decode_utf_8 :: "decode_ctx \<Rightarrow> lxb_char list \<Rightarrow> dec_result option" where
  "lxb_encoding_decode_utf_8 ctx data =
    (case decode_resume_error ctx of
       Inl (st, ctx) \<Rightarrow> Some (ctx, data, st)
     | Inr ctx \<Rightarrow>
         if u8_need ctx \<noteq> 0 then
           (if data = [] then Some (ctx\<lparr> dec_status := LXB_STATUS_CONTINUE \<rparr>, data, LXB_STATUS_CONTINUE)
            else if out_full ctx then Some (ctx, data, LXB_STATUS_SMALL_BUFFER)
            else
              (let need = u8_need ctx; ctx = ctx\<lparr> u8_need := 0 \<rparr> in
               if u8_lower ctx \<noteq> 0 then utf_8_boundary True (u8_lower ctx) (u8_upper ctx) need ctx data data
               else utf_8_decode need ctx data data))
         else utf_8_begin ctx data data)"

section \<open>UTF-8, one code point\<close>

text \<open>The result is a code point or one of two values beyond the code points.\<close>

abbreviation (input) LXB_ENCODING_DECODE_ERROR :: lxb_codepoint where "LXB_ENCODING_DECODE_ERROR \<equiv> 0x1FFFFF"
abbreviation (input) LXB_ENCODING_DECODE_CONTINUE :: lxb_codepoint where "LXB_ENCODING_DECODE_CONTINUE \<equiv> 0x2FFFFF"

type_synonym dec_single = "decode_ctx \<times> lxb_char list \<times> lxb_codepoint"

definition utf_8_failed :: "decode_ctx \<Rightarrow> lxb_char list \<Rightarrow> dec_single" where
  "utf_8_failed ctx data = (ctx\<lparr> u8_lower := 0, u8_need := 0 \<rparr>, data, LXB_ENCODING_DECODE_ERROR)"

fun utf_8_decode_single :: "nat \<Rightarrow> decode_ctx \<Rightarrow> lxb_char list \<Rightarrow> dec_single" where
  "utf_8_decode_single needed ctx [] = (ctx\<lparr> u8_need := needed \<rparr>, [], LXB_ENCODING_DECODE_CONTINUE)"
| "utf_8_decode_single needed ctx (ch # p) =
    (if ch < 0x80 \<or> ch > 0xBF then utf_8_failed ctx (ch # p)
     else
       (let ctx = ctx\<lparr> codepoint := next_bits (codepoint ctx) ch \<rparr> in
        if needed = 1 then (ctx, p, codepoint ctx) else utf_8_decode_single (needed - 1) ctx p))"

text \<open>\<open>LXB_ENCODING_DECODE_UTF_8_BOUNDARY_SINGLE\<close> with what follows it.\<close>

definition utf_8_boundary_single :: "bool \<Rightarrow> lxb_char \<Rightarrow> lxb_char \<Rightarrow> nat \<Rightarrow> decode_ctx \<Rightarrow> lxb_char list \<Rightarrow> dec_single option" where
  "utf_8_boundary_single resumed lower upper needed ctx data =
    (case data of
       [] \<Rightarrow> None
     | ch # p \<Rightarrow>
         if ch < lower \<or> ch > upper then Some (utf_8_failed ctx data)
         else
           (let ctx = ctx\<lparr> codepoint := next_bits (codepoint ctx) ch \<rparr>;
                ctx = (if resumed then ctx\<lparr> u8_lower := 0 \<rparr> else ctx)
            in Some (utf_8_decode_single (needed - 1) ctx p)))"

definition lxb_encoding_decode_utf_8_single :: "decode_ctx \<Rightarrow> lxb_char list \<Rightarrow> dec_single option" where
  "lxb_encoding_decode_utf_8_single ctx data =
    (if u8_need ctx \<noteq> 0 then
       (let needed = u8_need ctx; ctx = ctx\<lparr> u8_need := 0 \<rparr> in
        if u8_lower ctx \<noteq> 0 then utf_8_boundary_single True (u8_lower ctx) (u8_upper ctx) needed ctx data
        else Some (utf_8_decode_single needed ctx data))
     else
       (case data of
          [] \<Rightarrow> None
        | ch # p \<Rightarrow>
            if ch < 0x80 then Some (ctx, p, ucast ch)
            else if ch \<le> 0xDF then
              (if ch < 0xC2 then Some (ctx, p, LXB_ENCODING_DECODE_ERROR)
               else Some (utf_8_decode_single 1 (ctx\<lparr> codepoint := ucast ch AND 0x1F \<rparr>) p))
            else if ch < 0xF0 then
              (let ctx = ctx\<lparr> codepoint := ucast ch AND 0x0F \<rparr> in
               if p = [] then Some ((boundary_set ch 0xE0 0xED 0xA0 0x9F ctx)\<lparr> u8_need := 2 \<rparr>, [], LXB_ENCODING_DECODE_CONTINUE)
               else if ch = 0xE0 then utf_8_boundary_single False 0xA0 0xBF 2 ctx p
               else if ch = 0xED then utf_8_boundary_single False 0x80 0x9F 2 ctx p
               else Some (utf_8_decode_single 2 ctx p))
            else if ch < 0xF5 then
              (let ctx = ctx\<lparr> codepoint := ucast ch AND 0x07 \<rparr> in
               if p = [] then Some ((boundary_set ch 0xF0 0xF4 0x90 0x8F ctx)\<lparr> u8_need := 3 \<rparr>, [], LXB_ENCODING_DECODE_CONTINUE)
               else if ch = 0xF0 then utf_8_boundary_single False 0x90 0xBF 3 ctx p
               else if ch = 0xF4 then utf_8_boundary_single False 0x80 0x8F 3 ctx p
               else Some (utf_8_decode_single 3 ctx p))
            else Some (ctx, p, LXB_ENCODING_DECODE_ERROR)))"

section \<open>Encoding UTF-8\<close>

record encode_ctx =
  e_out :: "lxb_char list"
  e_length :: nat
  e_replace_to :: "lxb_char list option"

definition lxb_encoding_encode_init :: "nat \<Rightarrow> encode_ctx" where
  "lxb_encoding_encode_init n = \<lparr> e_out = [], e_length = n, e_replace_to = None \<rparr>"

text \<open>The bytes that the branches write.\<close>

definition utf_8_bytes :: "lxb_codepoint \<Rightarrow> lxb_char list" where
  "utf_8_bytes cp =
    (if cp < 0x80 then [ucast cp]
     else if cp < 0x800 then [ucast (0xC0 OR drop_bit 6 cp), ucast (0x80 OR (cp AND 0x3F))]
     else if cp < 0x10000 then
       [ucast (0xE0 OR drop_bit 12 cp), ucast (0x80 OR (drop_bit 6 cp AND 0x3F)), ucast (0x80 OR (cp AND 0x3F))]
     else
       [ucast (0xF0 OR drop_bit 18 cp), ucast (0x80 OR (drop_bit 12 cp AND 0x3F)),
        ucast (0x80 OR (drop_bit 6 cp AND 0x3F)), ucast (0x80 OR (cp AND 0x3F))])"

text \<open>\<open>LXB_ENCODING_ENCODE_ERROR\<close>\<close>

definition encode_error :: "encode_ctx \<Rightarrow> lxb_status + encode_ctx" where
  "encode_error ctx =
    (case e_replace_to ctx of
       None \<Rightarrow> Inl LXB_STATUS_ERROR
     | Some r \<Rightarrow>
         if length (e_out ctx) + length r > e_length ctx then Inl LXB_STATUS_SMALL_BUFFER
         else Inr (ctx\<lparr> e_out := e_out ctx @ r \<rparr>))"

fun lxb_encoding_encode_utf_8 :: "encode_ctx \<Rightarrow> lxb_codepoint list \<Rightarrow> encode_ctx \<times> lxb_codepoint list \<times> lxb_status" where
  "lxb_encoding_encode_utf_8 ctx [] = (ctx, [], LXB_STATUS_OK)"
| "lxb_encoding_encode_utf_8 ctx (cp # p) =
    (if cp < 0x110000 then
       (if length (e_out ctx) + length (utf_8_bytes cp) > e_length ctx then (ctx, cp # p, LXB_STATUS_SMALL_BUFFER)
        else lxb_encoding_encode_utf_8 (ctx\<lparr> e_out := e_out ctx @ utf_8_bytes cp \<rparr>) p)
     else
       (case encode_error ctx of
          Inl st \<Rightarrow> (ctx, cp # p, st)
        | Inr ctx \<Rightarrow> lxb_encoding_encode_utf_8 ctx p))"

text \<open>\<open>room\<close> is \<open>end - *data\<close>.  The result is the bytes written and the value returned: their number,
  \<open>LXB_ENCODING_ENCODE_ERROR\<close> (-1) or \<open>LXB_ENCODING_ENCODE_SMALL_BUFFER\<close> (-2).  The branch for one byte does not look at \<open>end\<close>.\<close>

definition lxb_encoding_encode_utf_8_single :: "nat \<Rightarrow> lxb_codepoint \<Rightarrow> (lxb_char list \<times> int) option" where
  "lxb_encoding_encode_utf_8_single room cp =
    (if cp < 0x80 then (if room = 0 then None else Some (utf_8_bytes cp, 1))
     else if cp < 0x110000 then
       (if length (utf_8_bytes cp) > room then Some ([], -2) else Some (utf_8_bytes cp, int (length (utf_8_bytes cp))))
     else Some ([], -1))"

end
