(* ===== verification/Enc_Utf8.thy ===== *)
theory Enc_Utf8
  imports Enc_Base
begin

text \<open>
  The UTF-8 functions against a reference decoder that takes one byte at a time: the state machine of
  the Encoding Standard on natural numbers.  It emits code points (\<^const>\<open>Some\<close>) and errors
  (\<^const>\<open>None\<close>).
\<close>

section \<open>The reference\<close>

text \<open>\<open>Tail n lo hi cp\<close>: \<open>n\<close> more bytes are needed, the next one between \<open>lo\<close> and \<open>hi\<close>.\<close>

datatype u8 = Ground | Tail nat nat nat nat

definition u8_lead :: "nat \<Rightarrow> u8 \<times> nat option list" where
  "u8_lead b =
    (if b < 0x80 then (Ground, [Some b])
     else if 0xC2 \<le> b \<and> b \<le> 0xDF then (Tail 1 0x80 0xBF (b - 0xC0), [])
     else if 0xE0 \<le> b \<and> b \<le> 0xEF then (Tail 2 (if b = 0xE0 then 0xA0 else 0x80) (if b = 0xED then 0x9F else 0xBF) (b - 0xE0), [])
     else if 0xF0 \<le> b \<and> b \<le> 0xF4 then (Tail 3 (if b = 0xF0 then 0x90 else 0x80) (if b = 0xF4 then 0x8F else 0xBF) (b - 0xF0), [])
     else (Ground, [None]))"

fun u8_step :: "u8 \<Rightarrow> nat \<Rightarrow> u8 \<times> nat option list" where
  "u8_step Ground b = u8_lead b"
| "u8_step (Tail n lo hi cp) b =
    (if lo \<le> b \<and> b \<le> hi then
       (if n = 1 then (Ground, [Some (cp * 64 + (b - 0x80))]) else (Tail (n - 1) 0x80 0xBF (cp * 64 + (b - 0x80)), []))
     else (let (s, es) = u8_lead b in (s, None # es)))"

fun u8_out :: "u8 \<Rightarrow> lxb_char list \<Rightarrow> nat option list" where
  "u8_out s [] = []"
| "u8_out s (b # bs) = snd (u8_step s (unat b)) @ u8_out (fst (u8_step s (unat b))) bs"

section \<open>Bits\<close>

lemma and_low:
  "unat (w AND 0x1F :: 32 word) = unat w mod 32" "unat (w AND 0x0F :: 32 word) = unat w mod 16"
  "unat (w AND 0x07 :: 32 word) = unat w mod 8" "unat (w AND 0x3F :: 32 word) = unat w mod 64"
proof -
  have *: "unat (w AND mask n) = unat w mod 2 ^ n" for n
    by (simp add: take_bit_eq_mask [symmetric] unsigned_take_bit_eq) (simp add: take_bit_eq_mod)
  show "unat (w AND 0x1F) = unat w mod 32" using * [of 5] by (simp add: mask_eq_exp_minus_1)
  show "unat (w AND 0x0F) = unat w mod 16" using * [of 4] by (simp add: mask_eq_exp_minus_1)
  show "unat (w AND 0x07) = unat w mod 8" using * [of 3] by (simp add: mask_eq_exp_minus_1)
  show "unat (w AND 0x3F) = unat w mod 64" using * [of 6] by (simp add: mask_eq_exp_minus_1)
qed

lemma unat_byte: "unat (ucast (b :: 8 word) :: 32 word) = unat b"
  using unsigned_less [of b, where ?'a = nat] by (simp add: unsigned_ucast_eq take_bit_nat_eq_self_iff)

lemma unat_next_bits:
  assumes "unat cp < 2 ^ 26"
  shows "unat (next_bits cp ch) = unat cp * 64 + unat ch mod 64"
proof -
  let ?x = "ucast ch AND 0x3F :: 32 word"
  have x: "?x = take_bit 6 (ucast ch)" by (simp add: take_bit_eq_mask mask_eq_exp_minus_1)
  have "push_bit 6 cp AND ?x = 0" unfolding x by (rule bit_eqI) (auto simp: bit_simps)
  then have "push_bit 6 cp OR ?x = push_bit 6 cp + ?x" by (rule disjunctive_add_eq_or [symmetric])
  moreover have "unat (push_bit 6 cp) = unat cp * 64"
    using assms by (simp add: push_bit_eq_mult unat_word_ariths)
  moreover have "unat ?x = unat ch mod 64" by (simp only: and_low unat_byte)
  moreover have "unat cp * 64 + unat ch mod 64 < 2 ^ 32"
    using assms mod_less_divisor [of 64 "unat ch"] by simp
  ultimately show ?thesis by (simp add: next_bits_def unat_word_ariths)
qed

section \<open>The decoder for buffers\<close>

definition repl :: "decode_ctx \<Rightarrow> lxb_codepoint list" where
  "repl ctx = (case replace_to ctx of None \<Rightarrow> [] | Some r \<Rightarrow> r)"

definition render :: "lxb_codepoint list \<Rightarrow> nat option list \<Rightarrow> lxb_codepoint list" where
  "render r es = concat (map (case_option r (\<lambda>c. [of_nat c])) es)"

lemma render_simps [simp]:
  "render r [] = []" "render r (None # es) = r @ render r es" "render r (Some c # es) = of_nat c # render r es"
  "render r (es @ fs) = render r es @ render r fs"
  by (simp_all add: render_def)

text \<open>The state of the reference that a context stands for, and what it owes.\<close>

definition u8_abs :: "decode_ctx \<Rightarrow> u8" where
  "u8_abs ctx =
    (if u8_need ctx = 0 then Ground
     else if u8_lower ctx = 0 then Tail (u8_need ctx) 0x80 0xBF (unat (codepoint ctx))
     else Tail (u8_need ctx) (unat (u8_lower ctx)) (unat (u8_upper ctx)) (unat (codepoint ctx)))"

definition pending :: "decode_ctx \<Rightarrow> lxb_char list \<Rightarrow> nat option list" where
  "pending ctx bs = (if have_error ctx then [None] else []) @ u8_out (u8_abs ctx) bs"

definition u8_ok :: "decode_ctx \<Rightarrow> bool" where
  "u8_ok ctx \<longleftrightarrow> length (buffer_out ctx) \<le> buffer_length ctx \<and> u8_need ctx \<le> 3 \<and>
     (u8_lower ctx \<noteq> 0 \<longrightarrow> 2 \<le> u8_need ctx \<and> 0x80 \<le> u8_lower ctx \<and> u8_upper ctx \<le> 0xBF) \<and>
     (u8_need ctx \<noteq> 0 \<longrightarrow> unat (codepoint ctx) < 2 ^ (21 - 6 * u8_need ctx)) \<and> (have_error ctx \<longrightarrow> u8_need ctx = 0)"

text \<open>What a call promises that starts in state \<open>s\<close> of the reference.  An error ends it only when there is no
  replacement.  Otherwise the output and what is pending for the bytes that are left, whatever follows
  them, are together what the reference emits; a call stops early only when the next code point or replacement
  does not fit.\<close>

definition u8_done :: "u8 \<Rightarrow> decode_ctx \<Rightarrow> lxb_char list \<Rightarrow> dec_result \<Rightarrow> bool" where
  "u8_done s ctx p r = (case r of (ctx', rest, st) \<Rightarrow>
     u8_ok ctx' \<and> buffer_length ctx' = buffer_length ctx \<and> replace_to ctx' = replace_to ctx \<and>
     (if st = LXB_STATUS_ERROR
      then replace_to ctx = None \<and> (\<exists>es fs. None \<notin> set es \<and> u8_out s p = es @ None # fs \<and> buffer_out ctx' = buffer_out ctx @ render [] es)
      else dec_status ctx' = (if st = LXB_STATUS_CONTINUE then LXB_STATUS_CONTINUE else LXB_STATUS_OK) \<and>
        (\<exists>es. buffer_out ctx' = buffer_out ctx @ render (repl ctx) es \<and> (replace_to ctx = None \<longrightarrow> None \<notin> set es) \<and>
          (\<forall>xs. u8_out s (p @ xs) = es @ pending ctx' (rest @ xs))) \<and>
        (if st = LXB_STATUS_SMALL_BUFFER then length (buffer_out ctx') + max 1 (length (repl ctx)) > buffer_length ctx
         else rest = [] \<and> \<not> have_error ctx' \<and> st = (if u8_need ctx' = 0 then LXB_STATUS_OK else LXB_STATUS_CONTINUE))))"

lemma u8_done_trans:
  assumes "u8_done s1 ctx1 p1 r" "\<And>xs. u8_out s (p @ xs) = es @ u8_out s1 (p1 @ xs)"
    and "buffer_out ctx1 = buffer_out ctx @ render (repl ctx) es" "replace_to ctx = None \<Longrightarrow> None \<notin> set es"
    and "buffer_length ctx1 = buffer_length ctx" "replace_to ctx1 = replace_to ctx"
  shows "u8_done s ctx p r"
proof -
  obtain ctx' rest st where r: "r = (ctx', rest, st)" by (cases r)
  have repl: "repl ctx1 = repl ctx" using assms(6) by (simp add: repl_def)
  show ?thesis
  proof (cases "st = LXB_STATUS_ERROR")
    case True
    then obtain fs gs where "replace_to ctx = None" "None \<notin> set fs" "u8_out s1 p1 = fs @ None # gs" "buffer_out ctx' = buffer_out ctx1 @ render [] fs"
      using assms(1,6) r by (auto simp: u8_done_def)
    then have "None \<notin> set (es @ fs)" "u8_out s p = (es @ fs) @ None # gs" "buffer_out ctx' = buffer_out ctx @ render [] (es @ fs)"
      using assms(2) [of "[]"] assms(3,4) by (auto simp: repl_def)
    then have "\<exists>es fs. None \<notin> set es \<and> u8_out s p = es @ None # fs \<and> buffer_out ctx' = buffer_out ctx @ render [] es" by blast
    then show ?thesis using True assms(1,5,6) r by (simp add: u8_done_def)
  next
    case False
    then obtain fs where "buffer_out ctx' = buffer_out ctx1 @ render (repl ctx) fs" "replace_to ctx = None \<longrightarrow> None \<notin> set fs"
      "\<forall>xs. u8_out s1 (p1 @ xs) = fs @ pending ctx' (rest @ xs)"
      using assms(1,6) r repl by (auto simp: u8_done_def)
    then have "buffer_out ctx' = buffer_out ctx @ render (repl ctx) (es @ fs)" "replace_to ctx = None \<longrightarrow> None \<notin> set (es @ fs)"
      "\<forall>xs. u8_out s (p @ xs) = (es @ fs) @ pending ctx' (rest @ xs)"
      using assms(2-4) by auto
    then have "\<exists>es. buffer_out ctx' = buffer_out ctx @ render (repl ctx) es \<and> (replace_to ctx = None \<longrightarrow> None \<notin> set es) \<and>
      (\<forall>xs. u8_out s (p @ xs) = es @ pending ctx' (rest @ xs))" by (intro exI [of _ "es @ fs"] conjI)
    then show ?thesis using False assms(1,5,6) r repl by (simp add: u8_done_def split: if_splits)
  qed
qed

definition u8_post :: "u8 \<Rightarrow> decode_ctx \<Rightarrow> lxb_char list \<Rightarrow> dec_result option \<Rightarrow> bool" where
  "u8_post s ctx p r = wp r (u8_done s ctx p)"

lemma u8_post_trans:
  assumes "u8_post s1 ctx1 p1 r" "\<And>xs. u8_out s (p @ xs) = es @ u8_out s1 (p1 @ xs)"
    and "buffer_out ctx1 = buffer_out ctx @ render (repl ctx) es" "replace_to ctx = None \<Longrightarrow> None \<notin> set es"
    and "buffer_length ctx1 = buffer_length ctx" "replace_to ctx1 = replace_to ctx"
  shows "u8_post s ctx p r"
  using assms(1) u8_done_trans [OF _ assms(2-6)] by (auto simp: u8_post_def wp_iff)

text \<open>A context between two code points, with or without room.\<close>

definition u8_rest :: "decode_ctx \<Rightarrow> bool" where
  "u8_rest ctx \<longleftrightarrow> length (buffer_out ctx) \<le> buffer_length ctx \<and> u8_need ctx = 0 \<and> u8_lower ctx = 0 \<and> \<not> have_error ctx \<and>
     dec_status ctx = LXB_STATUS_OK"

lemma u8_rest_ok: "u8_rest ctx \<Longrightarrow> u8_ok ctx" "u8_rest ctx \<Longrightarrow> pending ctx bs = u8_out Ground bs"
  by (auto simp: u8_rest_def u8_ok_def pending_def u8_abs_def)

text \<open>An error in the reference: the two ways in which the code treats it.\<close>

lemma decode_error_post:
  assumes "u8_rest ctx0" "buffer_out ctx0 = buffer_out ctx" "buffer_length ctx0 = buffer_length ctx" "replace_to ctx0 = replace_to ctx"
    and out: "\<And>xs. u8_out s (p @ xs) = None # u8_out Ground (p1 @ xs)"
    and small: "\<And>xs. pending small (rest @ xs) = u8_out s (p @ xs)" "u8_ok small" "buffer_out small = buffer_out ctx"
      "buffer_length small = buffer_length ctx" "replace_to small = replace_to ctx" "dec_status small = LXB_STATUS_OK"
    and k: "\<And>ctx1. u8_rest ctx1 \<Longrightarrow> decode_error ctx0 = Inr ctx1 \<Longrightarrow> u8_post Ground ctx1 p1 (k ctx1)"
  shows "u8_post s ctx p (case decode_error ctx0 of
      Inl st \<Rightarrow> if st = LXB_STATUS_SMALL_BUFFER then Some (small, rest, st) else Some (ctx0, data, st) | Inr ctx1 \<Rightarrow> k ctx1)"
proof (cases "decode_error ctx0")
  case (Inl st)
  then consider (none) "replace_to ctx = None" "st = LXB_STATUS_ERROR"
    | (small) r where "replace_to ctx = Some r" "st = LXB_STATUS_SMALL_BUFFER" "length (buffer_out ctx) + length r > buffer_length ctx"
    using assms(2-4) by (auto simp: decode_error_def split: option.splits if_splits)
  then show ?thesis
  proof cases
    case none
    have "u8_out s p = [] @ None # u8_out Ground p1" using out [of "[]"] by simp
    then show ?thesis
      using none Inl u8_rest_ok(1) [OF assms(1)] assms(2-4) by (force simp: u8_post_def u8_done_def)
  next
    case small
    then show ?thesis
      using Inl assms(6-11) by (auto simp: u8_post_def u8_done_def repl_def intro!: exI [of _ "[]"])
  qed
next
  case (Inr ctx1)
  then have c: "buffer_out ctx1 = buffer_out ctx @ repl ctx" "u8_rest ctx1" "buffer_length ctx1 = buffer_length ctx" "replace_to ctx1 = replace_to ctx"
    "replace_to ctx \<noteq> None"
    using assms(1-4) by (auto simp: decode_error_def repl_def u8_rest_def split: option.splits if_splits)
  have "u8_post s ctx p (k ctx1)"
    by (rule u8_post_trans [OF k [OF c(2) Inr], where es = "[None]"]) (use c out in simp_all)
  with Inr show ?thesis by simp
qed

text \<open>A context within a code point.\<close>

definition u8_mid :: "nat \<Rightarrow> decode_ctx \<Rightarrow> bool" where
  "u8_mid need ctx \<longleftrightarrow> length (buffer_out ctx) < buffer_length ctx \<and> u8_need ctx = 0 \<and> \<not> have_error ctx \<and>
     dec_status ctx = LXB_STATUS_OK \<and> 1 \<le> need \<and> need \<le> 3 \<and> unat (codepoint ctx) < 2 ^ (21 - 6 * need)"

lemma next_bits_tail:
  assumes "u8_mid need ctx" "0x80 \<le> ch" "ch \<le> 0xBF"
  shows "unat (next_bits (codepoint ctx) ch) = unat (codepoint ctx) * 64 + (unat ch - 0x80)"
    and "unat (next_bits (codepoint ctx) ch) < 2 ^ (21 - 6 * (need - 1))"
proof -
  have b: "unat ch mod 64 = unat ch - 128" "unat ch - 128 < 64"
  proof -
    have lt: "x - 128 < 64" if "x \<le> 191" for x :: nat using that by simp
    moreover have "x mod 64 = x - 128" if "128 \<le> x" "x \<le> 191" for x :: nat
      using mod_mult_self1 [of "x - 128" 2 64] lt [OF that(2)] that(1) by simp
    ultimately show "unat ch mod 64 = unat ch - 128" "unat ch - 128 < 64" using assms(2,3) by (auto simp: word_le_nat_alt)
  qed
  have n: "need = 1 \<or> need = 2 \<or> need = 3" and cp: "unat (codepoint ctx) < 2 ^ (21 - 6 * need)"
    using assms(1) by (auto simp: u8_mid_def)
  then have "unat (codepoint ctx) < 2 ^ 26" by auto
  from unat_next_bits [OF this] show *: "unat (next_bits (codepoint ctx) ch) = unat (codepoint ctx) * 64 + (unat ch - 0x80)"
    using b by simp
  show "unat (next_bits (codepoint ctx) ch) < 2 ^ (21 - 6 * (need - 1))"
    unfolding * using n cp b(2) by auto
qed

lemma lead_bits:
  "unat (ucast ch AND 0x1F :: 32 word) = unat ch mod 32" "unat (ucast ch AND 0x0F :: 32 word) = unat ch mod 16"
  "unat (ucast ch AND 0x07 :: 32 word) = unat ch mod 8" for ch :: lxb_char
  by (simp_all add: and_low unat_byte)

text \<open>A byte that the reference takes without emitting anything.\<close>

lemma u8_post_take:
  assumes "u8_post s1 ctx1 p (k)" "u8_step s (unat ch) = (s1, [])"
    and "buffer_out ctx1 = buffer_out ctx" "buffer_length ctx1 = buffer_length ctx" "replace_to ctx1 = replace_to ctx"
  shows "u8_post s ctx (ch # p) k"
  using assms by (intro u8_post_trans [OF assms(1), where es = "[]"]) simp_all

lemma u8_post_emit:
  assumes "u8_post Ground ctx1 p k" "u8_step s (unat ch) = (Ground, [Some c])"
    and "buffer_out ctx1 = buffer_out ctx @ [of_nat c]" "buffer_length ctx1 = buffer_length ctx" "replace_to ctx1 = replace_to ctx"
  shows "u8_post s ctx (ch # p) k"
  using assms by (intro u8_post_trans [OF assms(1), where es = "[Some c]"]) simp_all

text \<open>The input ends within a code point.\<close>

lemma u8_post_continue:
  assumes "u8_abs ctx1 = s" "u8_ok ctx1" "buffer_out ctx1 = buffer_out ctx" "buffer_length ctx1 = buffer_length ctx"
    "replace_to ctx1 = replace_to ctx" "\<not> have_error ctx1" "u8_need ctx1 \<noteq> 0" "dec_status ctx1 = LXB_STATUS_CONTINUE"
  shows "u8_post s ctx [] (Some (ctx1, [], LXB_STATUS_CONTINUE))"
  using assms by (auto simp: u8_post_def u8_done_def pending_def intro!: exI [of _ "[]"])

text \<open>A byte that can not go on: the reference emits an error and takes the byte as a new beginning.\<close>

lemma tail_error_post:
  assumes "u8_rest ctx0" "buffer_out ctx0 = buffer_out ctx" "buffer_length ctx0 = buffer_length ctx" "replace_to ctx0 = replace_to ctx"
    and "\<not> (lo \<le> unat ch \<and> unat ch \<le> hi)"
    and "\<And>ctx1. u8_rest ctx1 \<Longrightarrow> decode_error ctx0 = Inr ctx1 \<Longrightarrow> u8_post Ground ctx1 (ch # p) (k ctx1)"
  shows "u8_post (Tail n lo hi cp) ctx (ch # p) (case decode_error ctx0 of
      Inl st \<Rightarrow> if st = LXB_STATUS_SMALL_BUFFER then Some (ctx0\<lparr> have_error := True \<rparr>, ch # p, st) else Some (ctx0, data, st)
    | Inr ctx1 \<Rightarrow> k ctx1)"
proof (rule decode_error_post [OF assms(1-4)])
  show out: "u8_out (Tail n lo hi cp) ((ch # p) @ xs) = None # u8_out Ground ((ch # p) @ xs)" for xs
    using assms(5) by (cases "lo \<le> unat ch") (auto simp: case_prod_beta)
  show "pending (ctx0\<lparr> have_error := True \<rparr>) ((ch # p) @ xs) = u8_out (Tail n lo hi cp) ((ch # p) @ xs)" for xs
    unfolding out using assms(1) by (simp add: pending_def u8_rest_def u8_abs_def)
qed (use assms in \<open>auto simp: u8_rest_def u8_ok_def\<close>)

lemma lead_error_post:
  assumes "u8_rest ctx" "u8_lead (unat ch) = (Ground, [None])"
    and "\<And>ctx1. u8_rest ctx1 \<Longrightarrow> decode_error ctx = Inr ctx1 \<Longrightarrow> u8_post Ground ctx1 p (k ctx1)"
  shows "u8_post Ground ctx (ch # p) (case decode_error ctx of
      Inl st \<Rightarrow> Some (ctx, if st = LXB_STATUS_SMALL_BUFFER then ch # p else data, st) | Inr ctx1 \<Rightarrow> k ctx1)"
proof -
  have "u8_post Ground ctx (ch # p) (case decode_error ctx of
      Inl st \<Rightarrow> if st = LXB_STATUS_SMALL_BUFFER then Some (ctx, ch # p, st) else Some (ctx, data, st) | Inr ctx1 \<Rightarrow> k ctx1)"
    using assms u8_rest_ok [OF assms(1)] by (intro decode_error_post [where ?p1.0 = p]) (auto simp: u8_rest_def)
  also have "(\<lambda>st. if st = LXB_STATUS_SMALL_BUFFER then Some (ctx, ch # p, st) else Some (ctx, data, st)) =
      (\<lambda>st. Some (ctx, if st = LXB_STATUS_SMALL_BUFFER then ch # p else data, st))" by auto
  finally show ?thesis .
qed

text \<open>The first byte of a code point.\<close>

lemma mod_sub: "c * m \<le> x \<Longrightarrow> x < c * m + m \<Longrightarrow> x mod m = x - c * m" for x m c :: nat
  using mod_mult_self1 [of "x - c * m" c m] by simp

lemma lead_two:
  fixes ch :: lxb_char
  assumes "\<not> ch < 0xC2" "ch \<le> 0xDF"
  shows "u8_lead (unat ch) = (Tail 1 0x80 0xBF (unat (ucast ch AND 0x1F :: lxb_codepoint)), [])" "unat (ucast ch AND 0x1F :: lxb_codepoint) < 2 ^ 15"
  using assms mod_sub [of 6 32 "unat ch"] by (auto simp: u8_lead_def lead_bits word_less_nat_alt word_le_nat_alt)

lemma lead_three:
  fixes ch :: lxb_char
  assumes "\<not> ch \<le> 0xDF" "ch < 0xF0"
  shows "u8_lead (unat ch) = (Tail 2 (if ch = 0xE0 then 0xA0 else 0x80) (if ch = 0xED then 0x9F else 0xBF) (unat (ucast ch AND 0x0F :: lxb_codepoint)), [])"
    "unat (ucast ch AND 0x0F :: lxb_codepoint) < 2 ^ 9"
  using assms mod_sub [of 14 16 "unat ch"] by (auto simp: u8_lead_def lead_bits word_less_nat_alt word_le_nat_alt word_unat_eq_iff)

lemma lead_four:
  fixes ch :: lxb_char
  assumes "\<not> ch < 0xF0" "ch < 0xF5"
  shows "u8_lead (unat ch) = (Tail 3 (if ch = 0xF0 then 0x90 else 0x80) (if ch = 0xF4 then 0x8F else 0xBF) (unat (ucast ch AND 0x07 :: lxb_codepoint)), [])"
    "unat (ucast ch AND 0x07 :: lxb_codepoint) < 2 ^ 3"
  using assms mod_sub [of 30 8 "unat ch"] by (auto simp: u8_lead_def lead_bits word_less_nat_alt word_le_nat_alt word_unat_eq_iff)

lemma lead_bad:
  fixes ch :: lxb_char
  assumes "0x80 \<le> ch \<and> ch < 0xC2 \<or> 0xF5 \<le> ch"
  shows "u8_lead (unat ch) = (Ground, [None])"
  using assms by (auto simp: u8_lead_def word_less_nat_alt word_le_nat_alt)

lemma append_wo_check_rest:
  assumes "length (buffer_out ctx) < buffer_length ctx"
  shows "append_wo_check ctx c = Some (ctx\<lparr> buffer_out := buffer_out ctx @ [c] \<rparr>)"
  using assms by (simp add: append_wo_check_def)

lemma u8_rest_mid:
  assumes "u8_rest ctx" "\<not> out_full ctx" "1 \<le> need" "need \<le> 3" "unat cp < 2 ^ (21 - 6 * need)"
  shows "u8_mid need (ctx\<lparr> codepoint := cp \<rparr>)"
  using assms by (auto simp: u8_rest_def u8_mid_def out_full_def)

lemma boundary_set_fields [simp]:
  "buffer_out (boundary_set ch a b l u ctx) = buffer_out ctx" "buffer_length (boundary_set ch a b l u ctx) = buffer_length ctx"
  "replace_to (boundary_set ch a b l u ctx) = replace_to ctx" "have_error (boundary_set ch a b l u ctx) = have_error ctx"
  "codepoint (boundary_set ch a b l u ctx) = codepoint ctx" "u8_need (boundary_set ch a b l u ctx) = u8_need ctx"
  by (simp_all add: boundary_set_def)

text \<open>The branches for three and for four bytes, which look at the second byte.\<close>

lemma lead_post:
  fixes ch a b l u :: lxb_char
  assumes "u8_rest ctx" "\<not> out_full ctx" "u8_mid need (ctx\<lparr> codepoint := cp \<rparr>)" "2 \<le> need"
    and "u8_lead (unat ch) = (Tail need (if ch = a then unat l else 0x80) (if ch = b then unat u else 0xBF) (unat cp), [])"
    and "a \<noteq> b" "0x80 \<le> l" "u \<le> 0xBF"
    and "p \<noteq> [] \<Longrightarrow> ch = a \<Longrightarrow> u8_post (Tail need (unat l) 0xBF (unat cp)) (ctx\<lparr> codepoint := cp \<rparr>) p (utf_8_boundary False l 0xBF need (ctx\<lparr> codepoint := cp \<rparr>) data p)"
    and "p \<noteq> [] \<Longrightarrow> ch = b \<Longrightarrow> u8_post (Tail need 0x80 (unat u) (unat cp)) (ctx\<lparr> codepoint := cp \<rparr>) p (utf_8_boundary False 0x80 u need (ctx\<lparr> codepoint := cp \<rparr>) data p)"
    and "p \<noteq> [] \<Longrightarrow> ch \<noteq> a \<Longrightarrow> ch \<noteq> b \<Longrightarrow> u8_post (Tail need 0x80 0xBF (unat cp)) (ctx\<lparr> codepoint := cp \<rparr>) p (utf_8_decode need (ctx\<lparr> codepoint := cp \<rparr>) data p)"
  shows "u8_post Ground ctx (ch # p) (let ctx = ctx\<lparr> codepoint := cp \<rparr> in
    if p = [] then Some ((boundary_set ch a b l u ctx)\<lparr> u8_need := need, dec_status := LXB_STATUS_CONTINUE \<rparr>, [], LXB_STATUS_CONTINUE)
    else if ch = a then utf_8_boundary False l 0xBF need ctx data p
    else if ch = b then utf_8_boundary False 0x80 u need ctx data p
    else utf_8_decode need ctx data p)"
proof (rule u8_post_take)
  let ?ctx = "ctx\<lparr> codepoint := cp \<rparr>"
  have lu: "l \<noteq> 0" "unat (0x80 :: lxb_char) = 128" using assms(7) by auto
  show "u8_post (fst (u8_lead (unat ch))) ?ctx p (let ctx = ?ctx in
    if p = [] then Some ((boundary_set ch a b l u ctx)\<lparr> u8_need := need, dec_status := LXB_STATUS_CONTINUE \<rparr>, [], LXB_STATUS_CONTINUE)
    else if ch = a then utf_8_boundary False l 0xBF need ctx data p
    else if ch = b then utf_8_boundary False 0x80 u need ctx data p
    else utf_8_decode need ctx data p)"
  proof (cases "p = []")
    case True
    have "u8_post (fst (u8_lead (unat ch))) ?ctx []
        (Some ((boundary_set ch a b l u ?ctx)\<lparr> u8_need := need, dec_status := LXB_STATUS_CONTINUE \<rparr>, [], LXB_STATUS_CONTINUE))"
      using assms(1,3-8) lu
      by (intro u8_post_continue) (auto simp: u8_abs_def u8_ok_def u8_rest_def u8_mid_def boundary_set_def)
    with True show ?thesis by simp
  next
    case False
    consider "ch = a" "ch \<noteq> b" | "ch \<noteq> a" "ch = b" | "ch \<noteq> a" "ch \<noteq> b" using assms(6) by blast
    then show ?thesis using False assms(5,9-11) by cases (simp_all add: Let_def)
  qed
qed (simp_all add: assms(5))

lemma utf_8_loops:
  "u8_rest ctx \<Longrightarrow> u8_post Ground ctx p (utf_8_begin ctx data p)"
  "u8_mid need ctx \<Longrightarrow> 2 \<le> need \<Longrightarrow> p \<noteq> [] \<Longrightarrow> 0x80 \<le> lo \<Longrightarrow> hi \<le> 0xBF \<Longrightarrow> (\<not> resumed \<longrightarrow> u8_lower ctx = 0) \<Longrightarrow>
     u8_post (Tail need (unat lo) (unat hi) (unat (codepoint ctx))) ctx p (utf_8_boundary resumed lo hi need ctx data p)"
  "u8_mid need ctx \<Longrightarrow> u8_lower ctx = 0 \<Longrightarrow>
     u8_post (Tail need 0x80 0xBF (unat (codepoint ctx))) ctx p (utf_8_decode need ctx data p)"
proof (induction ctx data p and resumed lo hi need ctx data p and need ctx data p
    rule: utf_8_begin_utf_8_boundary_utf_8_decode.induct)
  case (1 ctx data)
  then show ?case
    using u8_rest_ok [OF 1] by (auto simp: u8_post_def u8_done_def u8_rest_def intro!: exI [of _ "[]"])
next
  case (2 ctx data ch p)
  show ?case
  proof (cases "out_full ctx")
    case True
    then show ?thesis
      using u8_rest_ok [OF "2.prems"] "2.prems" by (auto simp: u8_post_def u8_done_def u8_rest_def out_full_def intro!: exI [of _ "[]"])
  next
    case False
    note room = False
    have out: "length (buffer_out ctx) < buffer_length ctx" using room by (simp add: out_full_def)
    note mid = u8_rest_mid [OF "2.prems" room]
    consider (ascii) "ch < 0x80" | (bad) "0x80 \<le> ch \<and> ch < 0xC2" | (two) "\<not> ch < 0xC2" "ch \<le> 0xDF" | (three) "\<not> ch \<le> 0xDF" "ch < 0xF0"
      | (four) "\<not> ch < 0xF0" "ch < 0xF5" | (high) "\<not> ch < 0xF5" by (meson not_less)
    then show ?thesis
    proof cases
      case ascii
      let ?ctx = "ctx\<lparr> buffer_out := buffer_out ctx @ [ucast ch] \<rparr>"
      have "u8_rest ?ctx" using "2.prems" out by (auto simp: u8_rest_def)
      then have "u8_post Ground ?ctx p (utf_8_begin ?ctx data p)"
        using "2.IH"(1) [OF room ascii append_wo_check_rest [OF out]] by simp
      moreover have "u8_step Ground (unat ch) = (Ground, [Some (unat ch)])" using ascii by (simp add: u8_lead_def word_less_nat_alt)
      ultimately have "u8_post Ground ctx (ch # p) (utf_8_begin ?ctx data p)" by (rule u8_post_emit) simp_all
      then show ?thesis using ascii room out by (simp add: append_wo_check_rest)
    next
      case bad
      have c: "\<not> ch < 0x80" "ch \<le> 0xDF" "ch < 0xC2" using bad by (auto simp: word_less_nat_alt word_le_nat_alt)
      show ?thesis
        using lead_error_post [OF "2.prems" lead_bad, of ch p "\<lambda>ctx. utf_8_begin ctx data p" data] "2.IH"(2) [OF room c] bad c room by simp
    next
      case two
      let ?ctx = "ctx\<lparr> codepoint := ucast ch AND 0x1F \<rparr>"
      have c: "\<not> ch < 0x80" "ch \<le> 0xDF" using two by (auto simp: word_less_nat_alt word_le_nat_alt)
      have "u8_mid 1 ?ctx" using mid [of 1] lead_two(2) [OF two] by simp
      then have "u8_post (Tail 1 0x80 0xBF (unat (codepoint ?ctx))) ?ctx p (utf_8_decode 1 ?ctx data p)"
        using "2.IH"(3) [OF room c two(1)] "2.prems" by (simp add: u8_rest_def)
      then have "u8_post Ground ctx (ch # p) (utf_8_decode 1 ?ctx data p)"
        by (rule u8_post_take) (simp_all add: lead_two [OF two])
      then show ?thesis using c two room by simp
    next
      case three
      define cp where "cp = (ucast ch AND 0x0F :: lxb_codepoint)"
      have c: "\<not> ch < 0x80" using three by (auto simp: word_less_nat_alt word_le_nat_alt)
      have m: "u8_mid 2 (ctx\<lparr> codepoint := cp \<rparr>)" using mid [of 2] lead_three(2) [OF three] by (simp add: cp_def)
      have e: "ctx\<lparr> codepoint := cp \<rparr> = ctx\<lparr> codepoint := ucast ch AND 0x0F \<rparr>" by (simp add: cp_def)
      note lead = lead_post [OF "2.prems" room m, of ch "0xE0" "0xA0" "0xED" "0x9F" p data]
      have eq: "utf_8_begin ctx data (ch # p) = (let ctx = ctx\<lparr> codepoint := cp \<rparr> in
        if p = [] then Some ((boundary_set ch 0xE0 0xED 0xA0 0x9F ctx)\<lparr> u8_need := 2, dec_status := LXB_STATUS_CONTINUE \<rparr>, [], LXB_STATUS_CONTINUE)
        else if ch = 0xE0 then utf_8_boundary False 0xA0 0xBF 2 ctx data p
        else if ch = 0xED then utf_8_boundary False 0x80 0x9F 2 ctx data p
        else utf_8_decode 2 ctx data p)"
        using three c room by (simp add: cp_def)
      show ?thesis
        unfolding eq using lead lead_three(1) [OF three, folded cp_def] "2.IH"(4-6) [OF room c three e] m "2.prems" by (simp add: u8_rest_def)
    next
      case four
      define cp where "cp = (ucast ch AND 0x07 :: lxb_codepoint)"
      have c: "\<not> ch < 0x80" "\<not> ch \<le> 0xDF" using four by (auto simp: word_less_nat_alt word_le_nat_alt)
      have m: "u8_mid 3 (ctx\<lparr> codepoint := cp \<rparr>)" using mid [of 3] lead_four(2) [OF four] by (simp add: cp_def)
      have e: "ctx\<lparr> codepoint := cp \<rparr> = ctx\<lparr> codepoint := ucast ch AND 0x07 \<rparr>" by (simp add: cp_def)
      note lead = lead_post [OF "2.prems" room m, of ch "0xF0" "0x90" "0xF4" "0x8F" p data]
      have eq: "utf_8_begin ctx data (ch # p) = (let ctx = ctx\<lparr> codepoint := cp \<rparr> in
        if p = [] then Some ((boundary_set ch 0xF0 0xF4 0x90 0x8F ctx)\<lparr> u8_need := 3, dec_status := LXB_STATUS_CONTINUE \<rparr>, [], LXB_STATUS_CONTINUE)
        else if ch = 0xF0 then utf_8_boundary False 0x90 0xBF 3 ctx data p
        else if ch = 0xF4 then utf_8_boundary False 0x80 0x8F 3 ctx data p
        else utf_8_decode 3 ctx data p)"
        using four c room by (simp add: cp_def)
      show ?thesis
        unfolding eq using lead lead_four(1) [OF four, folded cp_def] "2.IH"(7-9) [OF room c four e] m "2.prems" by (simp add: u8_rest_def)
    next
      case high
      have c: "\<not> ch < 0x80" "\<not> ch \<le> 0xDF" "\<not> ch < 0xF0" using high by (auto simp: word_less_nat_alt word_le_nat_alt)
      have "u8_lead (unat ch) = (Ground, [None])" using high by (intro lead_bad) (simp add: not_less)
      then show ?thesis
        using lead_error_post [OF "2.prems", of ch p "\<lambda>ctx. utf_8_begin ctx data p" data] "2.IH"(10) [OF room c high] high c room by simp
    qed
  qed
next
  case (3 resumed lower upper need ctx data)
  then show ?case by simp
next
  case (4 resumed lower upper need ctx data ch p)
  show ?case
  proof (cases "ch < lower \<or> ch > upper")
    case True
    let ?ctx = "ctx\<lparr> u8_lower := 0, u8_need := 0 \<rparr>"
    have "u8_rest ?ctx" using "4.prems" by (auto simp: u8_mid_def u8_rest_def)
    then have "u8_post (Tail need (unat lower) (unat upper) (unat (codepoint ctx))) ctx (ch # p) (case decode_error ?ctx of
        Inl st \<Rightarrow> if st = LXB_STATUS_SMALL_BUFFER then Some (?ctx\<lparr> have_error := True \<rparr>, ch # p, st) else Some (?ctx, data, st)
      | Inr ctx1 \<Rightarrow> utf_8_begin ctx1 data (ch # p))"
      by (rule tail_error_post) (use True "4.IH"(1) [OF True refl] in \<open>auto simp: word_less_nat_alt\<close>)
    then show ?thesis using True by (simp add: Let_def)
  next
    case False
    then have ch: "0x80 \<le> ch" "ch \<le> 0xBF" using "4.prems"(4,5) by auto
    let ?ctx = "if resumed then ctx\<lparr> codepoint := next_bits (codepoint ctx) ch, u8_lower := 0 \<rparr> else ctx\<lparr> codepoint := next_bits (codepoint ctx) ch \<rparr>"
    note nb = next_bits_tail [OF "4.prems"(1) ch]
    have "u8_mid (need - 1) ?ctx" using "4.prems"(1,2) nb(2) by (auto simp: u8_mid_def)
    moreover have "u8_lower ?ctx = 0" using "4.prems"(6) by auto
    ultimately have "u8_post (Tail (need - 1) 0x80 0xBF (unat (codepoint ?ctx))) ?ctx p (utf_8_decode (need - 1) ?ctx data p)"
      using "4.IH"(2) [OF False refl refl] by simp
    then have "u8_post (Tail need (unat lower) (unat upper) (unat (codepoint ctx))) ctx (ch # p) (utf_8_decode (need - 1) ?ctx data p)"
      by (rule u8_post_take) (use False "4.prems"(2) nb(1) in \<open>auto simp: word_less_nat_alt\<close>)
    then show ?thesis using False by (cases resumed) (simp_all add: Let_def)
  qed
next
  case (5 need ctx data)
  then show ?case
    by (auto intro!: u8_post_continue simp: u8_mid_def u8_abs_def u8_ok_def)
next
  case (6 need ctx data ch p)
  show ?case
  proof (cases "ch < 0x80 \<or> ch > 0xBF")
    case True
    let ?ctx = "ctx\<lparr> u8_need := 0 \<rparr>"
    have "u8_rest ?ctx" using "6.prems" by (auto simp: u8_mid_def u8_rest_def)
    then have "u8_post (Tail need 0x80 0xBF (unat (codepoint ctx))) ctx (ch # p) (case decode_error ?ctx of
        Inl st \<Rightarrow> if st = LXB_STATUS_SMALL_BUFFER then Some (?ctx\<lparr> have_error := True \<rparr>, ch # p, st) else Some (?ctx, data, st)
      | Inr ctx1 \<Rightarrow> utf_8_begin ctx1 data (ch # p))"
      by (rule tail_error_post) (use True "6.IH"(1) [OF True refl] in \<open>auto simp: word_less_nat_alt\<close>)
    then show ?thesis using True by (simp add: Let_def)
  next
    case False
    then have ch: "0x80 \<le> ch" "ch \<le> 0xBF" by auto
    let ?ctx = "ctx\<lparr> codepoint := next_bits (codepoint ctx) ch \<rparr>"
    note nb = next_bits_tail [OF "6.prems"(1) ch]
    show ?thesis
    proof (cases "need = 1")
      case True
      let ?ctx1 = "?ctx\<lparr> buffer_out := buffer_out ctx @ [codepoint ?ctx] \<rparr>"
      have "u8_rest ?ctx1" using "6.prems" by (auto simp: u8_mid_def u8_rest_def)
      then have "u8_post Ground ?ctx1 p (utf_8_begin ?ctx1 data p)"
        using "6.IH"(2) [OF False refl True, of ?ctx1] "6.prems"(1) by (simp add: append_wo_check_rest u8_mid_def)
      moreover have "u8_step (Tail need 0x80 0xBF (unat (codepoint ctx))) (unat ch) = (Ground, [Some (unat (codepoint ?ctx))])"
        using True ch nb(1) by (auto simp: word_le_nat_alt)
      ultimately have "u8_post (Tail need 0x80 0xBF (unat (codepoint ctx))) ctx (ch # p) (utf_8_begin ?ctx1 data p)"
        by (rule u8_post_emit) simp_all
      then show ?thesis using False True "6.prems"(1) by (simp add: Let_def append_wo_check_rest u8_mid_def)
    next
      case need: False
      have "u8_mid (need - 1) ?ctx" using "6.prems"(1) need nb(2) by (auto simp: u8_mid_def)
      then have "u8_post (Tail (need - 1) 0x80 0xBF (unat (codepoint ?ctx))) ?ctx p (utf_8_decode (need - 1) ?ctx data p)"
        using "6.IH"(3) [OF False refl need] "6.prems"(2) by simp
      then have "u8_post (Tail need 0x80 0xBF (unat (codepoint ctx))) ctx (ch # p) (utf_8_decode (need - 1) ?ctx data p)"
        by (rule u8_post_take) (use ch need nb(1) in \<open>auto simp: word_le_nat_alt\<close>)
      then show ?thesis using False need by (simp add: Let_def)
    qed
  qed
qed

end
