(* ===== verification/Enc_Utf8_Spec.thy ===== *)
theory Enc_Utf8_Spec
  imports Enc_Utf8
begin

text \<open>
  The UTF-8 functions as they are used: text in chunks, code points that are read back, and code
  points one at a time.
\<close>

section \<open>The reference emits scalar values\<close>

definition scalar :: "nat \<Rightarrow> bool" where
  "scalar c \<longleftrightarrow> c < 0xD800 \<or> 0xE000 \<le> c \<and> c < 0x110000"

text \<open>What can come out of a state within a code point lies on one side of the surrogates.\<close>

fun u8_valid :: "u8 \<Rightarrow> bool" where
  "u8_valid Ground = True"
| "u8_valid (Tail n lo hi cp) \<longleftrightarrow> 1 \<le> n \<and> n \<le> 3 \<and> 0x80 \<le> lo \<and> lo \<le> hi \<and> hi \<le> 0xBF \<and>
     (cp * 64 ^ n + (hi - 0x7F) * 64 ^ (n - 1) \<le> 0xD800 \<or>
      0xE000 \<le> cp * 64 ^ n + (lo - 0x80) * 64 ^ (n - 1) \<and> cp * 64 ^ n + (hi - 0x7F) * 64 ^ (n - 1) \<le> 0x110000)"

lemma u8_lead_valid: "u8_valid (fst (u8_lead b))" "Some c \<in> set (snd (u8_lead b)) \<Longrightarrow> scalar c"
  by (auto simp: u8_lead_def scalar_def power2_eq_square power3_eq_cube split: if_splits)

lemma u8_step_valid:
  assumes "u8_valid s"
  shows "u8_valid (fst (u8_step s b))" "Some c \<in> set (snd (u8_step s b)) \<Longrightarrow> scalar c"
proof -
  have "u8_valid (fst (u8_step s b)) \<and> (Some c \<in> set (snd (u8_step s b)) \<longrightarrow> scalar c)"
  proof (cases s)
    case Ground
    then show ?thesis using u8_lead_valid by simp
  next
    case (Tail n lo hi cp)
    show ?thesis
    proof (cases "lo \<le> b \<and> b \<le> hi")
      case True
      have v: "1 \<le> n" "n \<le> 3" "0x80 \<le> lo" "hi \<le> 0xBF" "cp * 64 ^ n + (hi - 0x7F) * 64 ^ (n - 1) \<le> 0xD800 \<or>
        0xE000 \<le> cp * 64 ^ n + (lo - 0x80) * 64 ^ (n - 1) \<and> cp * 64 ^ n + (hi - 0x7F) * 64 ^ (n - 1) \<le> 0x110000"
        using assms Tail by auto
      then consider "n = 1" | "n = 2" | "n = 3" by linarith
      then show ?thesis
      proof cases
        case 1
        then show ?thesis using Tail True v by (auto simp: scalar_def)
      next
        case 2
        then show ?thesis using Tail True v by (auto simp: power2_eq_square)
      next
        case 3
        then show ?thesis using Tail True v by (auto simp: power2_eq_square power3_eq_cube)
      qed
    next
      case False
      then show ?thesis using Tail u8_lead_valid(1) [of b] u8_lead_valid(2) [of c b] by (auto simp: case_prod_beta)
    qed
  qed
  then show "u8_valid (fst (u8_step s b))" "Some c \<in> set (snd (u8_step s b)) \<Longrightarrow> scalar c" by auto
qed

lemma u8_out_scalar: "u8_valid s \<Longrightarrow> Some c \<in> set (u8_out s bs) \<Longrightarrow> scalar c"
  by (induction s bs rule: u8_out.induct) (auto dest: u8_step_valid)

fun u8_after :: "u8 \<Rightarrow> lxb_char list \<Rightarrow> u8" where
  "u8_after s [] = s"
| "u8_after s (b # bs) = u8_after (fst (u8_step s (unat b))) bs"

lemma u8_out_append: "u8_out s (as @ bs) = u8_out s as @ u8_out (u8_after s as) bs"
  by (induction s as rule: u8_after.induct) simp_all

lemma u8_after_append [simp]: "u8_after s (as @ bs) = u8_after (u8_after s as) bs"
  by (induction s as rule: u8_after.induct) simp_all

lemma u8_after_valid: "u8_valid s \<Longrightarrow> u8_valid (u8_after s bs)"
  by (induction s bs rule: u8_after.induct) (auto dest: u8_step_valid)

section \<open>One call\<close>

lemma u8_resume:
  assumes "u8_ok ctx" "\<not> have_error ctx" "dec_status ctx = LXB_STATUS_OK" "decode_resume_error ctx = Inr ctx"
  shows "u8_post (u8_abs ctx) ctx data (lxb_encoding_decode_utf_8 ctx data)"
proof (cases "u8_need ctx = 0")
  case True
  then have "u8_rest ctx" "u8_abs ctx = Ground" using assms by (auto simp: u8_ok_def u8_rest_def u8_abs_def)
  then show ?thesis using utf_8_loops(1) [of ctx data data] True assms(4) by (simp add: lxb_encoding_decode_utf_8_def)
next
  case need: False
  let ?ctx = "ctx\<lparr> u8_need := 0 \<rparr>"
  consider "data = []" | "data \<noteq> []" "out_full ctx" | "data \<noteq> []" "\<not> out_full ctx" by blast
  then show ?thesis
  proof cases
    case 1
    have "u8_post (u8_abs ctx) ctx [] (Some (ctx\<lparr> dec_status := LXB_STATUS_CONTINUE \<rparr>, [], LXB_STATUS_CONTINUE))"
      by (rule u8_post_continue) (use assms need in \<open>auto simp: u8_abs_def u8_ok_def\<close>)
    then show ?thesis using 1 need assms(4) by (simp add: lxb_encoding_decode_utf_8_def)
  next
    case 2
    then show ?thesis
      using assms need by (auto simp: lxb_encoding_decode_utf_8_def u8_post_def u8_done_def pending_def out_full_def intro!: exI [of _ "[]"])
  next
    case 3
    then have m: "u8_mid (u8_need ctx) ?ctx" using assms need by (auto simp: u8_mid_def u8_ok_def out_full_def)
    have "u8_post (u8_abs ctx) ?ctx data (lxb_encoding_decode_utf_8 ctx data)"
    proof (cases "u8_lower ctx = 0")
      case True
      then show ?thesis
        using utf_8_loops(3) [OF m, of data data] 3 need assms(4) by (simp add: lxb_encoding_decode_utf_8_def u8_abs_def Let_def)
    next
      case False
      then have "2 \<le> u8_need ctx" "0x80 \<le> u8_lower ctx" "u8_upper ctx \<le> 0xBF" using assms(1) by (auto simp: u8_ok_def)
      then show ?thesis
        using utf_8_loops(2) [OF m, of data "u8_lower ctx" "u8_upper ctx" True data] 3 need False assms(4)
        by (simp add: lxb_encoding_decode_utf_8_def u8_abs_def Let_def)
    qed
    then show ?thesis by (rule u8_post_trans [where es = "[]"]) simp_all
  qed
qed

definition utf_8_done :: "decode_ctx \<Rightarrow> lxb_char list \<Rightarrow> bool" where
  "utf_8_done ctx data = (\<exists>ctx' rest st. lxb_encoding_decode_utf_8 ctx data = Some (ctx', rest, st) \<and>
    u8_ok ctx' \<and> buffer_length ctx' = buffer_length ctx \<and> replace_to ctx' = replace_to ctx \<and>
    (if st = LXB_STATUS_ERROR then replace_to ctx = None \<and> None \<in> set (pending ctx data)
     else dec_status ctx' = (if st = LXB_STATUS_CONTINUE then LXB_STATUS_CONTINUE else LXB_STATUS_OK) \<and>
       (\<exists>es. buffer_out ctx' = buffer_out ctx @ render (repl ctx) es \<and> (replace_to ctx = None \<longrightarrow> None \<notin> set es) \<and>
         (\<forall>xs. pending ctx (data @ xs) = es @ pending ctx' (rest @ xs))) \<and>
       (if st = LXB_STATUS_SMALL_BUFFER then length (buffer_out ctx') + max 1 (length (repl ctx)) > buffer_length ctx
        else rest = [] \<and> \<not> have_error ctx' \<and> st = (if u8_need ctx' = 0 then LXB_STATUS_OK else LXB_STATUS_CONTINUE))))"

lemma decode_utf_8_done:
  assumes "u8_ok ctx"
  shows "utf_8_done ctx data"
proof (cases "decode_resume_error ctx")
  case (Inl x)
  then obtain st ctx1 where x: "x = (st, ctx1)" by (cases x)
  have "lxb_encoding_decode_utf_8 ctx data = Some (ctx1, data, st)" using Inl x by (simp add: lxb_encoding_decode_utf_8_def)
  moreover have "have_error ctx" "u8_need ctx = 0" "buffer_out ctx1 = buffer_out ctx" "buffer_length ctx1 = buffer_length ctx" "replace_to ctx1 = replace_to ctx"
    "u8_ok ctx1" "u8_abs ctx1 = u8_abs ctx" "dec_status ctx1 = LXB_STATUS_OK" "st = LXB_STATUS_ERROR \<and> replace_to ctx = None \<or> st = LXB_STATUS_SMALL_BUFFER \<and> have_error ctx1 \<and>
      length (buffer_out ctx) + length (repl ctx) > buffer_length ctx"
    using Inl x assms
    by (auto simp: decode_resume_error_def decode_error_def Let_def repl_def u8_ok_def u8_abs_def split: if_splits option.splits sum.splits)
  ultimately show ?thesis unfolding utf_8_done_def by (auto simp: pending_def intro!: exI [of _ "[]"])
next
  case (Inr ctx1)
  define owed where "owed = (if have_error ctx then [None :: nat option] else [])"
  have c: "buffer_out ctx1 = buffer_out ctx @ render (repl ctx) owed" "buffer_length ctx1 = buffer_length ctx" "replace_to ctx1 = replace_to ctx"
    "u8_ok ctx1" "u8_abs ctx1 = u8_abs ctx" "\<not> have_error ctx1" "dec_status ctx1 = LXB_STATUS_OK" "replace_to ctx = None \<Longrightarrow> owed = []"
    using Inr assms
    by (auto simp: decode_resume_error_def decode_error_def Let_def repl_def u8_ok_def u8_abs_def owed_def split: if_splits option.splits sum.splits)
  have "decode_resume_error ctx1 = Inr ctx1" using c by (simp add: decode_resume_error_def Let_def)
  from u8_resume [OF c(4,6,7) this, of data] this Inr
  have "u8_post (u8_abs ctx) ctx1 data (lxb_encoding_decode_utf_8 ctx data)" using c(5) by (simp add: lxb_encoding_decode_utf_8_def)
  then obtain ctx' rest st where r: "lxb_encoding_decode_utf_8 ctx data = Some (ctx', rest, st)" "u8_done (u8_abs ctx) ctx1 data (ctx', rest, st)"
    by (auto simp: u8_post_def wp_iff)
  have p: "pending ctx bs = owed @ u8_out (u8_abs ctx) bs" for bs by (simp add: pending_def owed_def)
  have rp: "repl ctx1 = repl ctx" using c(3) by (simp add: repl_def)
  show ?thesis
  proof (cases "st = LXB_STATUS_ERROR")
    case True
    then show ?thesis using r c(2,3) unfolding utf_8_done_def u8_done_def p by auto
  next
    case False
    then obtain es where "buffer_out ctx' = buffer_out ctx1 @ render (repl ctx) es" "replace_to ctx = None \<longrightarrow> None \<notin> set es"
      "\<forall>xs. u8_out (u8_abs ctx) (data @ xs) = es @ pending ctx' (rest @ xs)"
      using r(2) c(3) rp by (auto simp: u8_done_def)
    then have "\<exists>es. buffer_out ctx' = buffer_out ctx @ render (repl ctx) es \<and> (replace_to ctx = None \<longrightarrow> None \<notin> set es) \<and>
         (\<forall>xs. pending ctx (data @ xs) = es @ pending ctx' (rest @ xs))"
      using c(1,8) p by (intro exI [of _ "owed @ es"]) auto
    then show ?thesis using False r c(2,3) rp unfolding utf_8_done_def u8_done_def by (simp split: if_splits)
  qed
qed

text \<open>C14: One call of the UTF-8 decoder, from any state that a call leaves, with any input and any output
  buffer.  It returns and writes inside the buffer.  It ends with an error only when there
  is no replacement and the text is not UTF-8.  Otherwise what it has written and what the context still
  stands for are together what the reference decoder emits, for every continuation of the input: nothing is lost
  or repeated where the input or the output buffer ends, also within a code point.  It returns early only when the
  next code point or replacement does not fit.\<close>

theorem utf_8_decode_call:
  assumes "u8_ok ctx"
  shows "\<exists>ctx' rest st. lxb_encoding_decode_utf_8 ctx data = Some (ctx', rest, st) \<and>
    u8_ok ctx' \<and> buffer_length ctx' = buffer_length ctx \<and> replace_to ctx' = replace_to ctx \<and>
    (if st = LXB_STATUS_ERROR then replace_to ctx = None \<and> None \<in> set (pending ctx data)
     else dec_status ctx' = (if st = LXB_STATUS_CONTINUE then LXB_STATUS_CONTINUE else LXB_STATUS_OK) \<and>
       (\<exists>es. buffer_out ctx' = buffer_out ctx @ render (repl ctx) es \<and> (replace_to ctx = None \<longrightarrow> None \<notin> set es) \<and>
         (\<forall>xs. pending ctx (data @ xs) = es @ pending ctx' (rest @ xs))) \<and>
       (if st = LXB_STATUS_SMALL_BUFFER then length (buffer_out ctx') + max 1 (length (repl ctx)) > buffer_length ctx
        else rest = [] \<and> \<not> have_error ctx' \<and> st = (if u8_need ctx' = 0 then LXB_STATUS_OK else LXB_STATUS_CONTINUE)))"
  by (rule decode_utf_8_done [OF assms, unfolded utf_8_done_def])

text \<open>No room for the replacement: the byte is left, and the error is owed.\<close>

theorem utf_8_decode_call_witness:
  "\<exists>ctx' rest st. lxb_encoding_decode_utf_8 ((lxb_encoding_decode_init 1)\<lparr> buffer_out := [0x41], replace_to := Some [0xFFFD] \<rparr>) [0xE2, 0x41] = Some (ctx', rest, st) \<and>
     (st \<noteq> LXB_STATUS_SMALL_BUFFER \<longrightarrow> rest = [])"
proof -
  let ?ctx = "(lxb_encoding_decode_init 1)\<lparr> buffer_out := [0x41], replace_to := Some [0xFFFD] \<rparr>"
  have "u8_ok ?ctx" by (simp add: u8_ok_def lxb_encoding_decode_init_def)
  then show ?thesis
    using utf_8_decode_call [of ?ctx "[0xE2, 0x41]"] by (auto simp: lxb_encoding_decode_init_def split: if_splits)
qed

section \<open>Chunks\<close>

text \<open>The chunks of a text, decoded one after the other into the same buffer.\<close>

fun decode_chunks :: "decode_ctx \<Rightarrow> lxb_char list list \<Rightarrow> decode_ctx option" where
  "decode_chunks ctx [] = Some ctx"
| "decode_chunks ctx (c # cs) = do {
     (ctx, rest, st) \<leftarrow> lxb_encoding_decode_utf_8 ctx c;
     if st = LXB_STATUS_OK \<or> st = LXB_STATUS_CONTINUE then decode_chunks ctx cs else None
   }"

text \<open>What the reference emits for a whole text: a code point that is not complete at the end is an error.\<close>

definition u8_text :: "lxb_char list \<Rightarrow> nat option list" where
  "u8_text bs = u8_out Ground bs @ (if u8_after Ground bs = Ground then [] else [None])"

lemma chunk_step:
  assumes "u8_ok ctx" "\<not> have_error ctx" "replace_to ctx = Some r"
    and "length (buffer_out ctx @ render r (u8_out (u8_abs ctx) data)) + max 1 (length r) \<le> buffer_length ctx"
  shows "\<exists>ctx' st. lxb_encoding_decode_utf_8 ctx data = Some (ctx', [], st) \<and> (st = LXB_STATUS_OK \<or> st = LXB_STATUS_CONTINUE) \<and>
    u8_ok ctx' \<and> \<not> have_error ctx' \<and> replace_to ctx' = Some r \<and> buffer_length ctx' = buffer_length ctx \<and>
    dec_status ctx' = (if u8_need ctx' = 0 then LXB_STATUS_OK else LXB_STATUS_CONTINUE) \<and>
    buffer_out ctx' = buffer_out ctx @ render r (u8_out (u8_abs ctx) data) \<and>
    (\<forall>xs. u8_out (u8_abs ctx) (data @ xs) = u8_out (u8_abs ctx) data @ u8_out (u8_abs ctx') xs)"
proof -
  obtain ctx' rest st where d: "lxb_encoding_decode_utf_8 ctx data = Some (ctx', rest, st)" "u8_ok ctx'"
    "buffer_length ctx' = buffer_length ctx" "replace_to ctx' = replace_to ctx" "st \<noteq> LXB_STATUS_ERROR"
    "dec_status ctx' = (if st = LXB_STATUS_CONTINUE then LXB_STATUS_CONTINUE else LXB_STATUS_OK)"
    "st = LXB_STATUS_SMALL_BUFFER \<Longrightarrow> length (buffer_out ctx') + max 1 (length r) > buffer_length ctx"
    "st \<noteq> LXB_STATUS_SMALL_BUFFER \<Longrightarrow> rest = [] \<and> \<not> have_error ctx' \<and> st = (if u8_need ctx' = 0 then LXB_STATUS_OK else LXB_STATUS_CONTINUE)"
    and e: "\<exists>es. buffer_out ctx' = buffer_out ctx @ render r es \<and> (\<forall>xs. pending ctx (data @ xs) = es @ pending ctx' (rest @ xs))"
    using decode_utf_8_done [OF assms(1), of data] assms(3) unfolding utf_8_done_def by (auto simp: repl_def split: if_splits)
  obtain es where es: "buffer_out ctx' = buffer_out ctx @ render r es" "\<And>xs. pending ctx (data @ xs) = es @ pending ctx' (rest @ xs)"
    using e by blast
  have "u8_out (u8_abs ctx) data = es @ pending ctx' rest" using es(2) [of "[]"] assms(2) by (simp add: pending_def)
  then have "length (render r es) \<le> length (render r (u8_out (u8_abs ctx) data))" by simp
  then have "length (buffer_out ctx') + max 1 (length r) \<le> buffer_length ctx" using assms(4) es(1) by simp
  then have ns: "st \<noteq> LXB_STATUS_SMALL_BUFFER" using d(7) by force
  then have f: "rest = []" "\<not> have_error ctx'" "st = (if u8_need ctx' = 0 then LXB_STATUS_OK else LXB_STATUS_CONTINUE)" using d(8) by auto
  then have all: "u8_out (u8_abs ctx) (data @ xs) = es @ u8_out (u8_abs ctx') xs" for xs
    using es(2) [of xs] assms(2) by (simp add: pending_def)
  from all [of "[]"] have "es = u8_out (u8_abs ctx) data" by simp
  with all es(1) d(1-6) f assms(3) show ?thesis by auto
qed

lemma decode_chunks_ok:
  assumes "u8_ok ctx" "\<not> have_error ctx" "replace_to ctx = Some r" "dec_status ctx = (if u8_need ctx = 0 then LXB_STATUS_OK else LXB_STATUS_CONTINUE)"
    and "length (buffer_out ctx @ render r (u8_out (u8_abs ctx) (concat cs))) + max 1 (length r) \<le> buffer_length ctx"
  shows "\<exists>ctx'. decode_chunks ctx cs = Some ctx' \<and> u8_ok ctx' \<and> replace_to ctx' = Some r \<and> buffer_length ctx' = buffer_length ctx \<and>
    dec_status ctx' = (if u8_need ctx' = 0 then LXB_STATUS_OK else LXB_STATUS_CONTINUE) \<and>
    buffer_out ctx' = buffer_out ctx @ render r (u8_out (u8_abs ctx) (concat cs)) \<and>
    (\<forall>xs. u8_out (u8_abs ctx) (concat cs @ xs) = u8_out (u8_abs ctx) (concat cs) @ u8_out (u8_abs ctx') xs)"
  using assms
proof (induction cs arbitrary: ctx)
  case (Cons c cs)
  have split: "u8_out (u8_abs ctx) (c @ xs) = u8_out (u8_abs ctx) c @ u8_out (u8_after (u8_abs ctx) c) xs" for xs
    by (rule u8_out_append)
  obtain ctx1 st where s: "lxb_encoding_decode_utf_8 ctx c = Some (ctx1, [], st)" "st = LXB_STATUS_OK \<or> st = LXB_STATUS_CONTINUE"
    "u8_ok ctx1" "\<not> have_error ctx1" "replace_to ctx1 = Some r" "buffer_length ctx1 = buffer_length ctx"
    "dec_status ctx1 = (if u8_need ctx1 = 0 then LXB_STATUS_OK else LXB_STATUS_CONTINUE)"
    "buffer_out ctx1 = buffer_out ctx @ render r (u8_out (u8_abs ctx) c)"
    "\<forall>xs. u8_out (u8_abs ctx) (c @ xs) = u8_out (u8_abs ctx) c @ u8_out (u8_abs ctx1) xs"
    using chunk_step [OF Cons.prems(1-3), of c] Cons.prems(5) split by auto
  have "\<exists>ctx'. decode_chunks ctx1 cs = Some ctx' \<and> u8_ok ctx' \<and> replace_to ctx' = Some r \<and> buffer_length ctx' = buffer_length ctx1 \<and>
    dec_status ctx' = (if u8_need ctx' = 0 then LXB_STATUS_OK else LXB_STATUS_CONTINUE) \<and>
    buffer_out ctx' = buffer_out ctx1 @ render r (u8_out (u8_abs ctx1) (concat cs)) \<and>
    (\<forall>xs. u8_out (u8_abs ctx1) (concat cs @ xs) = u8_out (u8_abs ctx1) (concat cs) @ u8_out (u8_abs ctx') xs)"
    using s Cons.prems(5) by (intro Cons.IH) auto
  then show ?case using s by auto
qed auto

lemma u8_out_letter:
  "u8_out Ground [0x41] = [Some 0x41]"
  "u8_ok ctx \<Longrightarrow> u8_need ctx \<noteq> 0 \<Longrightarrow> u8_out (u8_abs ctx) [0x41] = [None, Some 0x41]"
  "u8_valid s \<Longrightarrow> s \<noteq> Ground \<Longrightarrow> u8_out s [0x41] = [None, Some 0x41]"
  by (auto simp: u8_lead_def u8_abs_def u8_ok_def word_le_nat_alt, cases s) (auto simp: u8_lead_def)

lemma decode_text_ok:
  assumes "lxb_encoding_decode_replace_set (lxb_encoding_decode_init n) r = (ctx, LXB_STATUS_OK)"
    and "length (render r (u8_text (concat cs))) + max 1 (length r) \<le> n"
  shows "\<exists>ctx' ctx''. decode_chunks ctx cs = Some ctx' \<and> lxb_encoding_decode_finish ctx' = (ctx'', LXB_STATUS_OK) \<and>
    buffer_out ctx'' = render r (u8_text (concat cs))"
proof -
  have c: "ctx = (lxb_encoding_decode_init n)\<lparr> replace_to := Some r \<rparr>"
    using assms(1) by (auto simp: lxb_encoding_decode_replace_set_def split: if_splits)
  then have i: "u8_ok ctx" "\<not> have_error ctx" "replace_to ctx = Some r" "buffer_out ctx = []" "buffer_length ctx = n" "u8_abs ctx = Ground"
    "dec_status ctx = (if u8_need ctx = 0 then LXB_STATUS_OK else LXB_STATUS_CONTINUE)"
    by (auto simp: lxb_encoding_decode_init_def u8_ok_def u8_abs_def)
  have "length (render r (u8_out Ground (concat cs))) \<le> length (render r (u8_text (concat cs)))" by (simp add: u8_text_def)
  then obtain ctx' where d: "decode_chunks ctx cs = Some ctx'" "u8_ok ctx'" "replace_to ctx' = Some r" "buffer_length ctx' = n"
    "dec_status ctx' = (if u8_need ctx' = 0 then LXB_STATUS_OK else LXB_STATUS_CONTINUE)" "buffer_out ctx' = render r (u8_out Ground (concat cs))"
    "\<forall>xs. u8_out Ground (concat cs @ xs) = u8_out Ground (concat cs) @ u8_out (u8_abs ctx') xs"
    using decode_chunks_ok [OF i(1-3,7), of cs] assms(2) i(4-6) by auto
  have same: "u8_out (u8_after Ground (concat cs)) [0x41] = u8_out (u8_abs ctx') [0x41]"
    using d(7) u8_out_append [of Ground "concat cs" "[0x41]"] by simp
  have "u8_after Ground (concat cs) = Ground \<longleftrightarrow> u8_need ctx' = 0"
    using same u8_out_letter(1) u8_out_letter(2) [of ctx'] u8_out_letter(3) [OF u8_after_valid [of Ground "concat cs"]] d(2)
    by (cases "u8_need ctx' = 0") (auto simp: u8_abs_def)
  then show ?thesis
    using d(1,3-6) assms(2) by (auto simp: lxb_encoding_decode_finish_def lxb_encoding_decode_buf_add_to_def u8_text_def split: if_splits)
qed

lemma render_scalar:
  assumes "u8_valid s" "x \<in> set (render r (u8_out s bs))"
  shows "x \<in> set r \<or> scalar (unat x)"
proof -
  from assms(2) obtain e where e: "e \<in> set (u8_out s bs)" "x \<in> set (case e of None \<Rightarrow> r | Some c \<Rightarrow> [of_nat c])"
    by (auto simp: render_def)
  show ?thesis
  proof (cases e)
    case (Some c)
    then have "scalar c" using e(1) u8_out_scalar [OF assms(1)] by simp
    moreover from this have "unat (of_nat c :: lxb_codepoint) = c" by (auto simp: scalar_def unat_of_nat)
    ultimately show ?thesis using e(2) Some by simp
  qed (use e in simp)
qed

text \<open>C15: A text in chunks.  However the bytes are divided, decoding the chunks and finishing yields what the reference
  emits for the whole text, with the replacement for every error, when the buffer is large enough.  Every code
  point of the result is a scalar value or comes from the replacement.\<close>

theorem utf_8_decode_text:
  assumes "lxb_encoding_decode_replace_set (lxb_encoding_decode_init n) r = (ctx, LXB_STATUS_OK)"
    and "length (render r (u8_text (concat cs))) + max 1 (length r) \<le> n"
  shows "\<exists>ctx' ctx''. decode_chunks ctx cs = Some ctx' \<and> lxb_encoding_decode_finish ctx' = (ctx'', LXB_STATUS_OK) \<and>
    buffer_out ctx'' = render r (u8_text (concat cs)) \<and> (\<forall>x \<in> set (buffer_out ctx''). x \<in> set r \<or> scalar (unat x))"
  using decode_text_ok [OF assms] render_scalar [of Ground _ r "concat cs"] by (force simp: u8_text_def)

text \<open>An overlong form, a surrogate and a code point that is cut off, in three chunks.\<close>

theorem utf_8_decode_text_witness:
  "\<exists>ctx' ctx''. decode_chunks ((lxb_encoding_decode_init 16)\<lparr> replace_to := Some [0xFFFD] \<rparr>) [[0xC0, 0xE2], [0x82, 0xAC, 0xED], [0xA0, 0x41, 0xF0]] = Some ctx' \<and>
     lxb_encoding_decode_finish ctx' = (ctx'', LXB_STATUS_OK) \<and> buffer_out ctx'' = [0xFFFD, 0x20AC, 0xFFFD, 0xFFFD, 0x41, 0xFFFD]"
proof -
  have "u8_text [0xC0, 0xE2, 0x82, 0xAC, 0xED, 0xA0, 0x41, 0xF0] = [None, Some 0x20AC, None, None, Some 0x41, None]"
    by (simp add: u8_text_def u8_lead_def)
  then show ?thesis
    using utf_8_decode_text [of 16 "[0xFFFD]" _ "[[0xC0, 0xE2], [0x82, 0xAC, 0xED], [0xA0, 0x41, 0xF0]]"]
    by (simp add: lxb_encoding_decode_replace_set_def lxb_encoding_decode_init_def) blast
qed

section \<open>Encoding\<close>

lemma unat_or_high:
  fixes h x :: lxb_codepoint
  assumes "unat x < 2 ^ k" "unat h * 2 ^ k < 2 ^ 24" "k \<le> 16"
  shows "unat (push_bit k h OR x) = unat h * 2 ^ k + unat x"
proof -
  have x: "x = take_bit k x" using assms(1)
    by (metis take_bit_nat_eq_self_iff unsigned_take_bit_eq word_unat_eq_iff)
  have "push_bit k h AND x = 0" by (subst x, rule bit_eqI) (auto simp: bit_simps)
  then have "push_bit k h OR x = push_bit k h + x" by (rule disjunctive_add_eq_or [symmetric])
  moreover have "unat (push_bit k h) = unat h * 2 ^ k"
    using assms(2) by (simp add: unsigned_push_bit_eq, simp add: push_bit_eq_mult take_bit_nat_eq_self)
  moreover have "(2 :: nat) ^ k \<le> 2 ^ 16" using assms(3) by (intro power_increasing) simp_all
  ultimately show ?thesis using assms(1,2) by (simp add: unat_word_ariths)
qed

lemma unat_to_byte: "unat w < 256 \<Longrightarrow> unat (ucast (w :: lxb_codepoint) :: lxb_char) = unat w"
  by (simp add: unsigned_ucast_eq take_bit_nat_eq_self_iff)

lemma lead_bytes:
  fixes x :: lxb_codepoint
  shows "unat x < 32 \<Longrightarrow> unat (ucast (0xC0 OR x) :: lxb_char) = 0xC0 + unat x"
    and "unat x < 16 \<Longrightarrow> unat (ucast (0xE0 OR x) :: lxb_char) = 0xE0 + unat x"
    and "unat x < 8 \<Longrightarrow> unat (ucast (0xF0 OR x) :: lxb_char) = 0xF0 + unat x"
    and "unat x < 64 \<Longrightarrow> unat (ucast (0x80 OR x) :: lxb_char) = 0x80 + unat x"
  using unat_or_high [of x 6 3] unat_or_high [of x 5 7] unat_or_high [of x 4 15] unat_or_high [of x 7 1]
  by (auto simp: unat_to_byte push_bit_eq_mult)

lemma drop_bits: "unat (drop_bit k (w :: lxb_codepoint)) = unat w div 2 ^ k"
  by (simp add: unat_drop_bit_eq) (simp add: drop_bit_eq_div)

lemma utf_8_bytes_unat:
  assumes "unat c < 0x110000"
  shows "map unat (utf_8_bytes c) =
    (if unat c < 0x80 then [unat c]
     else if unat c < 0x800 then [0xC0 + unat c div 64, 0x80 + unat c mod 64]
     else if unat c < 0x10000 then [0xE0 + unat c div 64 div 64, 0x80 + unat c div 64 mod 64, 0x80 + unat c mod 64]
     else [0xF0 + unat c div 64 div 64 div 64, 0x80 + unat c div 64 div 64 mod 64, 0x80 + unat c div 64 mod 64, 0x80 + unat c mod 64])"
proof -
  have d: "unat c div 64 div 64 = unat c div 4096" "unat c div 64 div 64 div 64 = unat c div 262144" by (simp_all add: div_mult2_eq [symmetric])
  have "unat c < 0x800 \<Longrightarrow> unat c div 64 < 32" "unat c < 0x10000 \<Longrightarrow> unat c div 4096 < 16" "unat c div 262144 < 8"
    using assms by (auto simp: less_mult_imp_div_less)
  moreover have "unat (w AND 0x3F) < 64" for w :: lxb_codepoint by (simp add: and_low)
  ultimately show ?thesis
    unfolding d by (auto simp: utf_8_bytes_def word_less_nat_alt lead_bytes unat_to_byte drop_bits and_low)
qed

text \<open>The reference on natural numbers.\<close>

lemma u8_run_two:
  assumes "map unat bs = [0xC0 + y, 0x80 + z]" "y < 32" "2 \<le> y" "z < 64"
  shows "u8_out Ground (bs @ cs) = Some (y * 64 + z) # u8_out Ground cs \<and> u8_after Ground bs = Ground"
  using assms by (auto simp: map_eq_Cons_conv u8_lead_def)

lemma u8_run_three:
  assumes "map unat bs = [0xE0 + x, 0x80 + y, 0x80 + z]" "x < 16" "y < 64" "z < 64" "x = 0 \<Longrightarrow> 32 \<le> y" "x = 13 \<Longrightarrow> y < 32"
  shows "u8_out Ground (bs @ cs) = Some ((x * 64 + y) * 64 + z) # u8_out Ground cs \<and> u8_after Ground bs = Ground"
  using assms by (auto simp: map_eq_Cons_conv u8_lead_def)

lemma u8_run_four:
  assumes "map unat bs = [0xF0 + w, 0x80 + x, 0x80 + y, 0x80 + z]" "w \<le> 4" "x < 64" "y < 64" "z < 64" "w = 0 \<Longrightarrow> 16 \<le> x" "w = 4 \<Longrightarrow> x < 16"
  shows "u8_out Ground (bs @ cs) = Some (((w * 64 + x) * 64 + y) * 64 + z) # u8_out Ground cs \<and> u8_after Ground bs = Ground"
  using assms by (auto simp: map_eq_Cons_conv u8_lead_def)

text \<open>The bytes of a scalar value take the reference from the beginning to the code point and back.\<close>

lemma utf_8_bytes_out:
  assumes "scalar (unat c)"
  shows "u8_out Ground (utf_8_bytes c @ cs) = Some (unat c) # u8_out Ground cs \<and> u8_after Ground (utf_8_bytes c) = Ground"
proof -
  define n where "n = unat c"
  define w x y z where "w = n div 64 div 64 div 64" and "x = n div 64 div 64 mod 64" and "y = n div 64 mod 64" and "z = n mod 64"
  have b: "x < 64" "y < 64" "z < 64" by (simp_all add: x_def y_def z_def)
  have x2: "n div 64 div 64 = w * 64 + x" and y2: "n div 64 = (w * 64 + x) * 64 + y" and z2: "n = ((w * 64 + x) * 64 + y) * 64 + z"
    by (simp_all add: w_def x_def y_def z_def)
  have s: "n < 0xD800 \<or> 0xE000 \<le> n \<and> n < 0x110000" using assms by (simp add: scalar_def n_def)
  note bytes = utf_8_bytes_unat [of c, folded n_def, folded w_def x_def y_def z_def]
  consider (one) "n < 0x80" | (two) "0x80 \<le> n" "n < 0x800" | (three) "0x800 \<le> n" "n < 0x10000" | (four) "0x10000 \<le> n" by linarith
  then show ?thesis
  proof cases
    case one
    then show ?thesis using bytes s by (auto simp: map_eq_Cons_conv u8_lead_def n_def)
  next
    case two
    then have w0: "w = 0" "x = 0" using z2 by auto
    then show ?thesis using two bytes s z2 y2 b u8_run_two [of "utf_8_bytes c" y z cs] by (auto simp: n_def)
  next
    case three
    then have w0: "w = 0" using z2 by auto
    have "x < 16" "x = 0 \<Longrightarrow> 32 \<le> y" "x = 13 \<Longrightarrow> y < 32" using three s z2 w0 b by auto
    then show ?thesis using three bytes s z2 x2 w0 b u8_run_three [of "utf_8_bytes c" x y z cs] by (auto simp: n_def)
  next
    case four
    have "w \<le> 4" "w = 0 \<Longrightarrow> 16 \<le> x" "w = 4 \<Longrightarrow> x < 16" using four s z2 b by auto
    then show ?thesis using four bytes s z2 b u8_run_four [of "utf_8_bytes c" w x y z cs] by (auto simp: n_def)
  qed
qed

lemma encode_utf_8_ok:
  assumes "\<forall>c \<in> set cps. scalar (unat c)" "length (e_out ctx) + length (concat (map utf_8_bytes cps)) \<le> e_length ctx"
  shows "lxb_encoding_encode_utf_8 ctx cps = (ctx\<lparr> e_out := e_out ctx @ concat (map utf_8_bytes cps) \<rparr>, [], LXB_STATUS_OK)"
  using assms
proof (induction cps arbitrary: ctx)
  case (Cons c cps)
  have "c < 0x110000" using Cons.prems(1) by (auto simp: scalar_def word_less_nat_alt)
  then show ?case using Cons by simp
qed simp

lemma u8_text_encoded:
  assumes "\<forall>c \<in> set cps. scalar (unat c)"
  shows "u8_text (concat (map utf_8_bytes cps)) = map (Some \<circ> unat) cps"
proof -
  have "u8_out Ground (concat (map utf_8_bytes cps)) = map (Some \<circ> unat) cps \<and> u8_after Ground (concat (map utf_8_bytes cps)) = Ground"
    using assms by (induction cps) (auto simp: utf_8_bytes_out)
  then show ?thesis by (simp add: u8_text_def)
qed

lemma utf_8_bytes_length: "length (utf_8_bytes c) \<le> 4"
  by (simp add: utf_8_bytes_def)

text \<open>C16: Round trip.  Scalar values that are encoded into a buffer of four bytes for each are decoded again to the same values,
  however the bytes are divided into chunks.\<close>

theorem utf_8_roundtrip:
  assumes "\<forall>c \<in> set cps. scalar (unat c)" "4 * length cps \<le> m" "length cps + max 1 (length r) \<le> n"
    and "concat cs = e_out (fst (lxb_encoding_encode_utf_8 (lxb_encoding_encode_init m) cps))"
    and "lxb_encoding_decode_replace_set (lxb_encoding_decode_init n) r = (ctx, LXB_STATUS_OK)"
  shows "\<exists>ctx' ctx''. snd (lxb_encoding_encode_utf_8 (lxb_encoding_encode_init m) cps) = ([], LXB_STATUS_OK) \<and>
    decode_chunks ctx cs = Some ctx' \<and> lxb_encoding_decode_finish ctx' = (ctx'', LXB_STATUS_OK) \<and> buffer_out ctx'' = cps"
proof -
  have "length (concat (map utf_8_bytes cps)) \<le> 4 * length cps"
    using utf_8_bytes_length by (induction cps) (auto intro: add_mono)
  then have e: "lxb_encoding_encode_utf_8 (lxb_encoding_encode_init m) cps =
      ((lxb_encoding_encode_init m)\<lparr> e_out := concat (map utf_8_bytes cps) \<rparr>, [], LXB_STATUS_OK)"
    using encode_utf_8_ok [OF assms(1), of "lxb_encoding_encode_init m"] assms(2) by (simp add: lxb_encoding_encode_init_def)
  have "render r (map (Some \<circ> unat) cps) = cps" by (induction cps) simp_all
  then show ?thesis
    using decode_text_ok [OF assms(5), of cs] e assms(3,4) u8_text_encoded [OF assms(1)] by (auto simp: lxb_encoding_encode_init_def)
qed

theorem utf_8_roundtrip_witness:
  "\<exists>ctx' ctx''. decode_chunks ((lxb_encoding_decode_init 8)\<lparr> replace_to := Some [0xFFFD] \<rparr>) [[0x41, 0xC3], [0xA9, 0xF0, 0x9F], [0x98, 0x80]] = Some ctx' \<and>
     lxb_encoding_decode_finish ctx' = (ctx'', LXB_STATUS_OK) \<and> buffer_out ctx'' = [0x41, 0xE9, 0x1F600]"
proof -
  have "concat [[0x41, 0xC3], [0xA9, 0xF0, 0x9F], [0x98, 0x80]] = e_out (fst (lxb_encoding_encode_utf_8 (lxb_encoding_encode_init 12) [0x41, 0xE9, 0x1F600]))"
    by code_simp
  then show ?thesis
    using utf_8_roundtrip [of "[0x41, 0xE9, 0x1F600]" 12 "[0xFFFD]" 8 "[[0x41, 0xC3], [0xA9, 0xF0, 0x9F], [0x98, 0x80]]"]
    by (simp add: scalar_def lxb_encoding_decode_replace_set_def lxb_encoding_decode_init_def)
qed

section \<open>One code point at a time\<close>

definition single_ok :: "decode_ctx \<Rightarrow> bool" where
  "single_ok ctx \<longleftrightarrow> u8_ok ctx \<and> u8_valid (u8_abs ctx) \<and> \<not> have_error ctx"

definition single_done :: "u8 \<Rightarrow> lxb_char list \<Rightarrow> dec_single \<Rightarrow> bool" where
  "single_done s p r = (case r of (ctx', rest, c) \<Rightarrow> single_ok ctx' \<and>
     (if c = LXB_ENCODING_DECODE_CONTINUE then rest = [] \<and> u8_need ctx' \<noteq> 0 \<and> (\<forall>xs. u8_out s (p @ xs) = u8_out (u8_abs ctx') xs)
      else if c = LXB_ENCODING_DECODE_ERROR then \<forall>xs. u8_out s (p @ xs) = None # u8_out (u8_abs ctx') (rest @ xs)
      else scalar (unat c) \<and> (\<forall>xs. u8_out s (p @ xs) = Some (unat c) # u8_out (u8_abs ctx') (rest @ xs))))"

lemma single_take: "single_done s1 p r \<Longrightarrow> u8_step s (unat ch) = (s1, []) \<Longrightarrow> single_done s (ch # p) r"
  by (cases r) (simp add: single_done_def split: if_splits)

text \<open>A context without a pending code point, as the code has it between the labels.\<close>

definition single_mid :: "nat \<Rightarrow> decode_ctx \<Rightarrow> bool" where
  "single_mid n ctx \<longleftrightarrow> length (buffer_out ctx) \<le> buffer_length ctx \<and> u8_need ctx = 0 \<and> \<not> have_error ctx \<and> 1 \<le> n \<and> n \<le> 3 \<and>
     unat (codepoint ctx) < 2 ^ (21 - 6 * n)"

lemma single_failed:
  assumes "single_mid n ctx" "\<not> (lo \<le> unat ch \<and> unat ch \<le> hi)"
  shows "single_done (Tail m lo hi cp) (ch # p) (utf_8_failed ctx (ch # p))"
  using assms
  by (cases "lo \<le> unat ch")
    (auto simp: single_done_def utf_8_failed_def single_ok_def u8_ok_def u8_abs_def single_mid_def case_prod_beta)

lemma single_bits:
  assumes "single_mid n ctx" "0x80 \<le> ch" "ch \<le> 0xBF"
  shows "unat (next_bits (codepoint ctx) ch) = unat (codepoint ctx) * 64 + (unat ch - 0x80)"
    and "unat (next_bits (codepoint ctx) ch) < 2 ^ (21 - 6 * (n - 1))"
  using next_bits_tail [of n "ctx\<lparr> buffer_out := [], buffer_length := 1, dec_status := LXB_STATUS_OK \<rparr>" ch] assms
  by (auto simp: single_mid_def u8_mid_def)

lemma scalar_result: "scalar (unat c) \<Longrightarrow> c \<noteq> LXB_ENCODING_DECODE_CONTINUE \<and> c \<noteq> LXB_ENCODING_DECODE_ERROR"
  by (auto simp: scalar_def)

lemma decode_single_done:
  assumes "single_mid n ctx" "u8_lower ctx = 0" "u8_valid (Tail n 0x80 0xBF (unat (codepoint ctx)))"
  shows "single_done (Tail n 0x80 0xBF (unat (codepoint ctx))) p (utf_8_decode_single n ctx p)"
  using assms
proof (induction n ctx p rule: utf_8_decode_single.induct)
  case (1 n ctx)
  then show ?case by (auto simp: single_done_def single_ok_def u8_ok_def u8_abs_def single_mid_def)
next
  case (2 n ctx ch p)
  let ?ctx = "ctx\<lparr> codepoint := next_bits (codepoint ctx) ch \<rparr>"
  show ?case
  proof (cases "ch < 0x80 \<or> ch > 0xBF")
    case True
    then show ?thesis using single_failed [OF "2.prems"(1), of "0x80" ch "0xBF"] by (auto simp: word_less_nat_alt)
  next
    case False
    then have ch: "0x80 \<le> ch" "ch \<le> 0xBF" by auto
    note nb = single_bits [OF "2.prems"(1) ch]
    have b: "0x80 \<le> unat ch" "unat ch \<le> 0xBF" using ch by (auto simp: word_le_nat_alt)
    have step: "u8_step (Tail n 0x80 0xBF (unat (codepoint ctx))) (unat ch) =
        (if n = 1 then (Ground, [Some (unat (codepoint ?ctx))]) else (Tail (n - 1) 0x80 0xBF (unat (codepoint ?ctx)), []))"
      using b nb(1) by simp
    note valid = u8_step_valid(1) [OF "2.prems"(3), of "unat ch", unfolded step] u8_step_valid(2) [OF "2.prems"(3), of _ "unat ch", unfolded step]
    show ?thesis
    proof (cases "n = 1")
      case True
      have "scalar (unat (codepoint ?ctx))" using valid(2) [of "unat (codepoint ?ctx)"] True by simp
      moreover have "single_ok ?ctx" "u8_abs ?ctx = Ground" using "2.prems" by (auto simp: single_ok_def u8_ok_def u8_abs_def single_mid_def)
      ultimately show ?thesis using False True step scalar_result by (auto simp: single_done_def Let_def)
    next
      case n: False
      have "single_mid (n - 1) ?ctx" using "2.prems"(1) n nb(2) by (auto simp: single_mid_def)
      moreover have "u8_valid (Tail (n - 1) 0x80 0xBF (unat (codepoint ?ctx)))" using valid(1) n by (simp del: u8_valid.simps)
      ultimately have "single_done (Tail (n - 1) 0x80 0xBF (unat (codepoint ?ctx))) p (utf_8_decode_single (n - 1) ?ctx p)"
        using "2.IH" [OF False refl n] "2.prems"(2) by simp
      then have "single_done (Tail n 0x80 0xBF (unat (codepoint ctx))) (ch # p) (utf_8_decode_single (n - 1) ?ctx p)"
        by (rule single_take) (use step n in simp)
      then show ?thesis using False n by (simp add: Let_def)
    qed
  qed
qed

lemma boundary_single_done:
  assumes "single_mid n ctx" "2 \<le> n" "p \<noteq> []" "0x80 \<le> lo" "hi \<le> 0xBF" "\<not> resumed \<longrightarrow> u8_lower ctx = 0"
    and "u8_valid (Tail n (unat lo) (unat hi) (unat (codepoint ctx)))"
  shows "wp (utf_8_boundary_single resumed lo hi n ctx p) (single_done (Tail n (unat lo) (unat hi) (unat (codepoint ctx))) p)"
proof -
  obtain ch q where p: "p = ch # q" using assms(3) by (cases p) auto
  show ?thesis
  proof (cases "ch < lo \<or> ch > hi")
    case True
    then show ?thesis using single_failed [OF assms(1), of "unat lo" ch "unat hi"] p by (auto simp: utf_8_boundary_single_def word_less_nat_alt)
  next
    case False
    then have ch: "0x80 \<le> ch" "ch \<le> 0xBF" using assms(4,5) by auto
    let ?ctx = "if resumed then ctx\<lparr> codepoint := next_bits (codepoint ctx) ch, u8_lower := 0 \<rparr> else ctx\<lparr> codepoint := next_bits (codepoint ctx) ch \<rparr>"
    note nb = single_bits [OF assms(1) ch]
    have step: "u8_step (Tail n (unat lo) (unat hi) (unat (codepoint ctx))) (unat ch) = (Tail (n - 1) 0x80 0xBF (unat (codepoint ?ctx)), [])"
      using False assms(2) nb(1) by (auto simp: word_less_nat_alt)
    have "single_mid (n - 1) ?ctx" "u8_lower ?ctx = 0" using assms(1,2,6) nb(2) by (auto simp: single_mid_def)
    moreover have "u8_valid (Tail (n - 1) 0x80 0xBF (unat (codepoint ?ctx)))"
      using u8_step_valid(1) [OF assms(7), of "unat ch", unfolded step] by (simp del: u8_valid.simps)
    ultimately have "single_done (Tail (n - 1) 0x80 0xBF (unat (codepoint ?ctx))) q (utf_8_decode_single (n - 1) ?ctx q)"
      by (rule decode_single_done)
    then have "single_done (Tail n (unat lo) (unat hi) (unat (codepoint ctx))) (ch # q) (utf_8_decode_single (n - 1) ?ctx q)"
      by (rule single_take [OF _ step])
    then show ?thesis using False p by (cases resumed) (simp_all add: utf_8_boundary_single_def Let_def)
  qed
qed

text \<open>The branches for three and for four bytes.\<close>

lemma lead_single_done:
  fixes ch a b l u :: lxb_char
  assumes "single_ok ctx" "u8_need ctx = 0" "n = 2 \<or> n = 3" "unat cp < 2 ^ (21 - 6 * n)"
    and lead: "u8_lead (unat ch) = (Tail n (if ch = a then unat l else 0x80) (if ch = b then unat u else 0xBF) (unat cp), [])"
    and "a \<noteq> b" "0x80 \<le> l" "u \<le> 0xBF"
  shows "wp (let ctx = ctx\<lparr> codepoint := cp \<rparr> in
      if p = [] then Some ((boundary_set ch a b l u ctx)\<lparr> u8_need := n \<rparr>, [], LXB_ENCODING_DECODE_CONTINUE)
      else if ch = a then utf_8_boundary_single False l 0xBF n ctx p
      else if ch = b then utf_8_boundary_single False 0x80 u n ctx p
      else Some (utf_8_decode_single n ctx p)) (single_done Ground (ch # p))"
proof -
  let ?ctx = "ctx\<lparr> codepoint := cp \<rparr>" and ?s = "fst (u8_lead (unat ch))"
  have m: "single_mid n ?ctx" "u8_lower ?ctx = 0" using assms(1-4) by (auto simp: single_ok_def single_mid_def u8_ok_def)
  have v: "u8_valid ?s" by (rule u8_lead_valid)
  have l0: "l \<noteq> 0" using assms(7) by auto
  consider "p = []" | "p \<noteq> []" "ch = a" "ch \<noteq> b" | "p \<noteq> []" "ch \<noteq> a" "ch = b" | "p \<noteq> []" "ch \<noteq> a" "ch \<noteq> b" using assms(6) by blast
  then have "wp (let ctx = ?ctx in
      if p = [] then Some ((boundary_set ch a b l u ctx)\<lparr> u8_need := n \<rparr>, [], LXB_ENCODING_DECODE_CONTINUE)
      else if ch = a then utf_8_boundary_single False l 0xBF n ctx p
      else if ch = b then utf_8_boundary_single False 0x80 u n ctx p
      else Some (utf_8_decode_single n ctx p)) (single_done ?s p)"
  proof cases
    case 1
    let ?ctx' = "(boundary_set ch a b l u ?ctx)\<lparr> u8_need := n \<rparr>"
    have "u8_abs ?ctx' = ?s" using lead m l0 assms(3,6) by (auto simp: u8_abs_def boundary_set_def)
    moreover have "u8_ok ?ctx'" using m assms(3,4,7,8) by (auto simp: u8_ok_def single_mid_def boundary_set_def)
    ultimately show ?thesis using 1 v m assms(3) by (auto simp: single_done_def single_ok_def single_mid_def)
  next
    case 2
    then show ?thesis using boundary_single_done [OF m(1), of p l "0xBF" False] m v lead assms(3,7) by (auto simp: Let_def)
  next
    case 3
    then show ?thesis using boundary_single_done [OF m(1), of p "0x80" u False] m v lead assms(3,8) by (auto simp: Let_def)
  next
    case 4
    then show ?thesis using decode_single_done [OF m, of p] v lead by (auto simp: Let_def)
  qed
  then show ?thesis using single_take [of ?s p _ Ground ch] lead unfolding wp_iff by auto
qed

lemma single_call_done:
  assumes "single_ok ctx" "data \<noteq> []"
  shows "wp (lxb_encoding_decode_utf_8_single ctx data) (single_done (u8_abs ctx) data)"
proof (cases "u8_need ctx = 0")
  case False
  let ?ctx = "ctx\<lparr> u8_need := 0 \<rparr>"
  have m: "single_mid (u8_need ctx) ?ctx" using assms(1) False by (auto simp: single_ok_def u8_ok_def single_mid_def)
  have v: "u8_valid (u8_abs ctx)" using assms(1) by (simp add: single_ok_def)
  show ?thesis
  proof (cases "u8_lower ctx = 0")
    case True
    then show ?thesis
      using decode_single_done [OF m] v False by (auto simp: lxb_encoding_decode_utf_8_single_def u8_abs_def Let_def)
  next
    case l: False
    then have "2 \<le> u8_need ctx" "0x80 \<le> u8_lower ctx" "u8_upper ctx \<le> 0xBF" using assms(1) by (auto simp: single_ok_def u8_ok_def)
    then show ?thesis
      using boundary_single_done [OF m, of data "u8_lower ctx" "u8_upper ctx" True] v False l assms(2)
      by (auto simp: lxb_encoding_decode_utf_8_single_def u8_abs_def Let_def)
  qed
next
  case True
  obtain ch p where d: "data = ch # p" using assms(2) by (cases data) auto
  have g: "u8_abs ctx = Ground" "u8_lower ctx = 0" using True assms(1) by (auto simp: u8_abs_def single_ok_def u8_ok_def)
  consider (ascii) "ch < 0x80" | (bad) "0x80 \<le> ch \<and> ch < 0xC2" | (two) "\<not> ch < 0xC2" "ch \<le> 0xDF" | (three) "\<not> ch \<le> 0xDF" "ch < 0xF0"
    | (four) "\<not> ch < 0xF0" "ch < 0xF5" | (high) "\<not> ch < 0xF5" by (meson not_less)
  then show ?thesis
  proof cases
    case ascii
    have "scalar (unat (ucast ch :: lxb_codepoint))" using ascii by (simp add: unat_byte scalar_def word_less_nat_alt)
    then have "single_done Ground (ch # p) (ctx, p, ucast ch)"
      using ascii assms(1) g scalar_result [of "ucast ch"] by (simp add: single_done_def u8_lead_def word_less_nat_alt unat_byte)
    then show ?thesis using ascii d True g by (simp add: lxb_encoding_decode_utf_8_single_def)
  next
    case bad
    have c: "\<not> ch < 0x80" "ch \<le> 0xDF" "ch < 0xC2" using bad by (auto simp: word_less_nat_alt word_le_nat_alt)
    have "single_done Ground (ch # p) (ctx, p, LXB_ENCODING_DECODE_ERROR)" using bad assms(1) g by (simp add: single_done_def lead_bad)
    then show ?thesis using c d True g by (simp add: lxb_encoding_decode_utf_8_single_def)
  next
    case two
    let ?ctx = "ctx\<lparr> codepoint := ucast ch AND 0x1F \<rparr>"
    have c: "\<not> ch < 0x80" using two by (auto simp: word_less_nat_alt word_le_nat_alt)
    have "single_mid 1 ?ctx" using assms(1) True lead_two(2) [OF two] by (auto simp: single_ok_def u8_ok_def single_mid_def)
    then have "single_done (Tail 1 0x80 0xBF (unat (codepoint ?ctx))) p (utf_8_decode_single 1 ?ctx p)"
      using decode_single_done [of 1 ?ctx p] g u8_lead_valid(1) [of "unat ch"] lead_two(1) [OF two] by simp
    then have "single_done Ground (ch # p) (utf_8_decode_single 1 ?ctx p)" by (rule single_take) (simp add: lead_two [OF two])
    then show ?thesis using two c d True g by (simp add: lxb_encoding_decode_utf_8_single_def)
  next
    case three
    define cp where "cp = (ucast ch AND 0x0F :: lxb_codepoint)"
    have c: "\<not> ch < 0x80" using three by (auto simp: word_less_nat_alt word_le_nat_alt)
    have eq: "lxb_encoding_decode_utf_8_single ctx data = (let ctx = ctx\<lparr> codepoint := cp \<rparr> in
        if p = [] then Some ((boundary_set ch 0xE0 0xED 0xA0 0x9F ctx)\<lparr> u8_need := 2 \<rparr>, [], LXB_ENCODING_DECODE_CONTINUE)
        else if ch = 0xE0 then utf_8_boundary_single False 0xA0 0xBF 2 ctx p
        else if ch = 0xED then utf_8_boundary_single False 0x80 0x9F 2 ctx p
        else Some (utf_8_decode_single 2 ctx p))"
      using three c d True by (simp add: lxb_encoding_decode_utf_8_single_def cp_def)
    show ?thesis
      unfolding eq unfolding g d using lead_three [OF three, folded cp_def] by (intro lead_single_done [OF assms(1) True]) simp_all
  next
    case four
    define cp where "cp = (ucast ch AND 0x07 :: lxb_codepoint)"
    have c: "\<not> ch < 0x80" "\<not> ch \<le> 0xDF" using four by (auto simp: word_less_nat_alt word_le_nat_alt)
    have eq: "lxb_encoding_decode_utf_8_single ctx data = (let ctx = ctx\<lparr> codepoint := cp \<rparr> in
        if p = [] then Some ((boundary_set ch 0xF0 0xF4 0x90 0x8F ctx)\<lparr> u8_need := 3 \<rparr>, [], LXB_ENCODING_DECODE_CONTINUE)
        else if ch = 0xF0 then utf_8_boundary_single False 0x90 0xBF 3 ctx p
        else if ch = 0xF4 then utf_8_boundary_single False 0x80 0x8F 3 ctx p
        else Some (utf_8_decode_single 3 ctx p))"
      using four c d True by (simp add: lxb_encoding_decode_utf_8_single_def cp_def)
    show ?thesis
      unfolding eq unfolding g d using lead_four [OF four, folded cp_def] by (intro lead_single_done [OF assms(1) True]) simp_all
  next
    case high
    have c: "\<not> ch < 0x80" "\<not> ch \<le> 0xDF" "\<not> ch < 0xF0" using high by (auto simp: word_less_nat_alt word_le_nat_alt)
    have "u8_lead (unat ch) = (Ground, [None])" using high by (intro lead_bad) (simp add: not_less)
    then have "single_done Ground (ch # p) (ctx, p, LXB_ENCODING_DECODE_ERROR)" using assms(1) g by (simp add: single_done_def)
    then show ?thesis using high c d True g by (simp add: lxb_encoding_decode_utf_8_single_def)
  qed
qed

text \<open>No call touches the status that \<open>lxb_encoding_decode_finish_single\<close> asks for.\<close>

lemma decode_single_status: "utf_8_decode_single n ctx p = (ctx', rest, c) \<Longrightarrow> dec_status ctx' = dec_status ctx"
  by (induction n ctx p rule: utf_8_decode_single.induct) (auto simp: utf_8_failed_def Let_def split: if_splits)

lemma single_call_status:
  assumes "lxb_encoding_decode_utf_8_single ctx data = Some (ctx', rest, c)"
  shows "dec_status ctx' = dec_status ctx"
  using assms
  by (auto simp: lxb_encoding_decode_utf_8_single_def utf_8_boundary_single_def utf_8_failed_def boundary_set_def Let_def
      split: if_splits list.splits dest!: decode_single_status)

text \<open>C17: One call of the function for a single code point, on a non-empty input and from any state that a call leaves.  It returns,
  reads no byte behind the end, and its result is the next thing the reference emits: a scalar value, an error, or nothing when the
  input ends within a code point, for every continuation of the input.  The status in the context does not change, so that
  \<open>lxb_encoding_decode_finish_single\<close> does not notice a code point that is cut off.\<close>

theorem utf_8_single_call:
  assumes "single_ok ctx" "data \<noteq> []"
  shows "\<exists>ctx' rest c. lxb_encoding_decode_utf_8_single ctx data = Some (ctx', rest, c) \<and> single_ok ctx' \<and>
    lxb_encoding_decode_finish_single ctx' = lxb_encoding_decode_finish_single ctx \<and>
    (if c = LXB_ENCODING_DECODE_CONTINUE then rest = [] \<and> u8_need ctx' \<noteq> 0 \<and> (\<forall>xs. u8_out (u8_abs ctx) (data @ xs) = u8_out (u8_abs ctx') xs)
     else if c = LXB_ENCODING_DECODE_ERROR then \<forall>xs. u8_out (u8_abs ctx) (data @ xs) = None # u8_out (u8_abs ctx') (rest @ xs)
     else scalar (unat c) \<and> (\<forall>xs. u8_out (u8_abs ctx) (data @ xs) = Some (unat c) # u8_out (u8_abs ctx') (rest @ xs)))"
proof -
  obtain ctx' rest c where r: "lxb_encoding_decode_utf_8_single ctx data = Some (ctx', rest, c)" "single_done (u8_abs ctx) data (ctx', rest, c)"
    using single_call_done [OF assms] by (auto simp: wp_iff)
  moreover have "dec_status ctx' = dec_status ctx" using single_call_status [OF r(1)] .
  ultimately show ?thesis by (auto simp: single_done_def lxb_encoding_decode_finish_single_def)
qed

theorem utf_8_single_call_witness:
  "\<exists>ctx' rest c. lxb_encoding_decode_utf_8_single (lxb_encoding_decode_init 0) [0xE2, 0x82] = Some (ctx', rest, c) \<and>
     lxb_encoding_decode_finish_single ctx' = LXB_STATUS_OK"
proof -
  have "single_ok (lxb_encoding_decode_init 0)" by (simp add: single_ok_def u8_ok_def u8_abs_def lxb_encoding_decode_init_def)
  moreover have "lxb_encoding_decode_finish_single (lxb_encoding_decode_init 0) = LXB_STATUS_OK"
    by (simp add: lxb_encoding_decode_finish_single_def lxb_encoding_decode_init_def)
  ultimately show ?thesis using utf_8_single_call [of "lxb_encoding_decode_init 0" "[0xE2, 0x82]"] by auto
qed

end
