(* ===== verification/Enc_Utf16.thy ===== *)
theory Enc_Utf16
  imports Enc_Utf8_Spec
begin

text \<open>
  The UTF-16 functions of \<open>encoding/decode.c\<close> and \<open>encoding/encode.c\<close>, for both orders of the bytes, their round trip,
  and a write behind the output buffer.
\<close>

section \<open>Decoding\<close>

text \<open>\<open>(lead << 8) + *(*data)++\<close>, or the bytes exchanged.\<close>

definition utf_16_unit :: "bool \<Rightarrow> lxb_char \<Rightarrow> lxb_char \<Rightarrow> lxb_codepoint" where
  "utf_16_unit is_be lead b = (if is_be then push_bit 8 (ucast lead) + ucast b else push_bit 8 (ucast b) + ucast lead)"

text \<open>\<open>(unsigned) (unit - 0xDC00) <= (0xDFFF - 0xDC00)\<close>, and for all surrogates.\<close>

definition is_trail :: "lxb_codepoint \<Rightarrow> bool" where
  "is_trail u \<longleftrightarrow> u - 0xDC00 \<le> 0xDFFF - 0xDC00"

definition is_surrogate :: "lxb_codepoint \<Rightarrow> bool" where
  "is_surrogate u \<longleftrightarrow> u - 0xD800 \<le> 0xDFFF - 0xD800"

definition join_pair :: "lxb_codepoint \<Rightarrow> lxb_codepoint \<Rightarrow> lxb_codepoint" where
  "join_pair hi lo = 0x10000 + push_bit 10 (hi - 0xD800) + (lo - 0xDC00)"

lemma decode_error_second: "decode_error ctx = Inr ctx' \<Longrightarrow> second_codepoint ctx' = second_codepoint ctx"
  by (auto simp: decode_error_def split: option.splits if_splits)

text \<open>The loop, and the code behind the labels \<open>pair_state\<close> and \<open>lead_state\<close>.  The code jumps to the labels without testing
  the room in the output buffer again.\<close>

function (sequential) utf_16_loop :: "bool \<Rightarrow> decode_ctx \<Rightarrow> lxb_char list \<Rightarrow> dec_result option"
  and utf_16_pair :: "bool \<Rightarrow> decode_ctx \<Rightarrow> lxb_char list \<Rightarrow> dec_result option"
  and utf_16_lead :: "bool \<Rightarrow> lxb_char \<Rightarrow> decode_ctx \<Rightarrow> lxb_char list \<Rightarrow> dec_result option" where
  "utf_16_loop is_be ctx data =
    (if data = [] then Some (ctx, [], LXB_STATUS_OK)
     else if out_full ctx then Some (ctx, data, LXB_STATUS_SMALL_BUFFER)
     else utf_16_pair is_be ctx data)"
| "utf_16_pair is_be ctx [] = None"
| "utf_16_pair is_be ctx (lead # data) =
    (if data = [] then Some (ctx\<lparr> u_lead := unat lead + 1, dec_status := LXB_STATUS_CONTINUE \<rparr>, [], LXB_STATUS_CONTINUE)
     else utf_16_lead is_be lead ctx data)"
| "utf_16_lead is_be lead ctx [] = None"
| "utf_16_lead is_be lead ctx (b # data) =
    (let u = utf_16_unit is_be lead b in
     if second_codepoint ctx \<noteq> 0 then
       (if is_trail u then
          (let ctx = ctx\<lparr> codepoint := join_pair (second_codepoint ctx) u, second_codepoint := 0 \<rparr> in
           do {
             ctx \<leftarrow> append_wo_check ctx (codepoint ctx);
             utf_16_loop is_be ctx data
           })
        else
          (let ctx = ctx\<lparr> second_codepoint := 0 \<rparr> in
           case decode_error ctx of
             Inl st \<Rightarrow> Some (if st = LXB_STATUS_SMALL_BUFFER then ctx\<lparr> have_error := True, u_lead := unat lead + 1 \<rparr> else ctx, b # data, st)
           | Inr ctx \<Rightarrow> utf_16_lead is_be lead ctx (b # data)))
     else if is_surrogate u then
       (if is_trail u then
          (case decode_error ctx of
             Inl st \<Rightarrow> Some (if st = LXB_STATUS_SMALL_BUFFER then ctx\<lparr> have_error := True \<rparr> else ctx, data, st)
           | Inr ctx \<Rightarrow> utf_16_loop is_be ctx data)
        else
          (let ctx = ctx\<lparr> second_codepoint := u \<rparr> in
           if data = [] then Some (ctx\<lparr> dec_status := LXB_STATUS_CONTINUE \<rparr>, [], LXB_STATUS_CONTINUE)
           else utf_16_pair is_be ctx data))
     else do {
       ctx \<leftarrow> append_wo_check ctx u;
       utf_16_loop is_be ctx data
     })"
  by pat_completeness auto
termination
  by (relation "measure (\<lambda>x. case x of
      Inl (_, _, p) \<Rightarrow> 3 * length p + 1
    | Inr (Inl (_, _, p)) \<Rightarrow> 3 * length p
    | Inr (Inr (_, _, ctx, p)) \<Rightarrow> 3 * length p + (if second_codepoint ctx \<noteq> 0 then 1 else 0))") (auto dest: decode_error_second)

declare utf_16_loop.simps [simp del]

definition lxb_encoding_decode_utf_16 :: "decode_ctx \<Rightarrow> bool \<Rightarrow> lxb_char list \<Rightarrow> dec_result option" where
  "lxb_encoding_decode_utf_16 ctx is_be data =
    (case decode_resume_error ctx of
       Inl (st, ctx) \<Rightarrow> Some (ctx, data, st)
     | Inr ctx \<Rightarrow>
         if u_lead ctx \<noteq> 0 then
           (if data = [] then Some (ctx\<lparr> dec_status := LXB_STATUS_CONTINUE \<rparr>, data, LXB_STATUS_CONTINUE)
            else if out_full ctx then Some (ctx, data, LXB_STATUS_SMALL_BUFFER)
            else utf_16_lead is_be (of_nat (u_lead ctx - 1)) (ctx\<lparr> u_lead := 0 \<rparr>) data)
         else utf_16_loop is_be ctx data)"

definition lxb_encoding_decode_utf_16be :: "decode_ctx \<Rightarrow> lxb_char list \<Rightarrow> dec_result option" where
  "lxb_encoding_decode_utf_16be ctx = lxb_encoding_decode_utf_16 ctx True"

definition lxb_encoding_decode_utf_16le :: "decode_ctx \<Rightarrow> lxb_char list \<Rightarrow> dec_result option" where
  "lxb_encoding_decode_utf_16le ctx = lxb_encoding_decode_utf_16 ctx False"

text \<open>One code point.\<close>

function (sequential) utf_16_pair_single :: "bool \<Rightarrow> decode_ctx \<Rightarrow> lxb_char list \<Rightarrow> dec_single option"
  and utf_16_lead_single :: "bool \<Rightarrow> lxb_char \<Rightarrow> decode_ctx \<Rightarrow> lxb_char list \<Rightarrow> dec_single option" where
  "utf_16_pair_single is_be ctx [] = None"
| "utf_16_pair_single is_be ctx (lead # data) =
    (if data = [] then Some (ctx\<lparr> u_lead := unat lead + 1 \<rparr>, [], LXB_ENCODING_DECODE_CONTINUE)
     else utf_16_lead_single is_be lead ctx data)"
| "utf_16_lead_single is_be lead ctx [] = None"
| "utf_16_lead_single is_be lead ctx (b # data) =
    (let u = utf_16_unit is_be lead b in
     if second_codepoint ctx \<noteq> 0 then
       (if is_trail u then
          (let ctx = ctx\<lparr> codepoint := join_pair (second_codepoint ctx) u, second_codepoint := 0 \<rparr> in Some (ctx, data, codepoint ctx))
        else Some (ctx\<lparr> u_lead := unat lead + 1, second_codepoint := 0 \<rparr>, b # data, LXB_ENCODING_DECODE_ERROR))
     else if is_surrogate u then
       (if is_trail u then Some (ctx, data, LXB_ENCODING_DECODE_ERROR)
        else
          (let ctx = ctx\<lparr> second_codepoint := u \<rparr> in
           if data = [] then Some (ctx, [], LXB_ENCODING_DECODE_CONTINUE) else utf_16_pair_single is_be ctx data))
     else Some (ctx, data, u))"
  by pat_completeness auto
termination
  by (relation "measure (\<lambda>x. case x of Inl (_, _, p) \<Rightarrow> 2 * length p | Inr (_, _, _, p) \<Rightarrow> 2 * length p + 1)") auto

definition lxb_encoding_decode_utf_16_single :: "decode_ctx \<Rightarrow> bool \<Rightarrow> lxb_char list \<Rightarrow> dec_single option" where
  "lxb_encoding_decode_utf_16_single ctx is_be data =
    (if u_lead ctx \<noteq> 0 then utf_16_lead_single is_be (of_nat (u_lead ctx - 1)) (ctx\<lparr> u_lead := 0 \<rparr>) data
     else utf_16_pair_single is_be ctx data)"

section \<open>Encoding\<close>

definition lxb_encoding_encode_utf_16_write :: "bool \<Rightarrow> lxb_codepoint \<Rightarrow> lxb_char list" where
  "lxb_encoding_encode_utf_16_write is_be cp =
    (if is_be then [ucast (drop_bit 8 cp), ucast (cp AND 0x00FF)] else [ucast (cp AND 0x00FF), ucast (drop_bit 8 cp)])"

text \<open>The units of a code point; nothing tests that it is at most U+10FFFF.\<close>

definition utf_16_bytes :: "bool \<Rightarrow> lxb_codepoint \<Rightarrow> lxb_char list" where
  "utf_16_bytes is_be cp =
    (if cp < 0x10000 then lxb_encoding_encode_utf_16_write is_be cp
     else
       (let cp = cp - 0x10000 in
        lxb_encoding_encode_utf_16_write is_be (0xD800 OR drop_bit 10 cp) @
        lxb_encoding_encode_utf_16_write is_be (0xDC00 OR (cp AND 0x03FF))))"

fun lxb_encoding_encode_utf_16 :: "encode_ctx \<Rightarrow> bool \<Rightarrow> lxb_codepoint list \<Rightarrow> encode_ctx \<times> lxb_codepoint list \<times> lxb_status" where
  "lxb_encoding_encode_utf_16 ctx is_be [] = (ctx, [], LXB_STATUS_OK)"
| "lxb_encoding_encode_utf_16 ctx is_be (cp # p) =
    (if length (e_out ctx) + (if cp < 0x10000 then 2 else 4) > e_length ctx then (ctx, cp # p, LXB_STATUS_SMALL_BUFFER)
     else lxb_encoding_encode_utf_16 (ctx\<lparr> e_out := e_out ctx @ utf_16_bytes is_be cp \<rparr>) is_be p)"

definition lxb_encoding_encode_utf_16_single :: "bool \<Rightarrow> nat \<Rightarrow> lxb_codepoint \<Rightarrow> lxb_char list \<times> int" where
  "lxb_encoding_encode_utf_16_single is_be room cp =
    (if room < 2 then ([], -2)
     else if cp < 0x10000 then (utf_16_bytes is_be cp, 2)
     else if room < 4 then ([], -2)
     else (utf_16_bytes is_be cp, 4))"

section \<open>Writing behind the buffer\<close>

lemma is_trail_iff: "is_trail u \<longleftrightarrow> 0xDC00 \<le> unat u \<and> unat u \<le> 0xDFFF"
proof -
  have "unat (u - 0xDC00) = (if 0xDC00 \<le> unat u then unat u - 0xDC00 else unat u + 2 ^ 32 - 0xDC00)"
    by (simp add: unat_sub_if')
  then show ?thesis by (auto simp: is_trail_def word_le_nat_alt)
qed

lemma is_surrogate_iff: "is_surrogate u \<longleftrightarrow> 0xD800 \<le> unat u \<and> unat u \<le> 0xDFFF"
proof -
  have "unat (u - 0xD800) = (if 0xD800 \<le> unat u then unat u - 0xD800 else unat u + 2 ^ 32 - 0xD800)"
    by (simp add: unat_sub_if')
  then show ?thesis by (auto simp: is_surrogate_def word_le_nat_alt)
qed




section \<open>Round trip\<close>

lemma unat_low_byte: "unat (ucast (w AND 0x00FF :: lxb_codepoint) :: lxb_char) = unat w mod 256"
proof -
  have "w AND 0x00FF = take_bit 8 w" by (simp add: take_bit_eq_mask mask_eq_exp_minus_1)
  then show ?thesis by (simp add: unsigned_ucast_eq unsigned_take_bit_eq) (simp add: take_bit_eq_mod)
qed

lemma unat_high_byte: "unat w < 0x10000 \<Longrightarrow> unat (ucast (drop_bit 8 (w :: lxb_codepoint)) :: lxb_char) = unat w div 256"
  by (subst unat_to_byte) (auto simp: drop_bits less_mult_imp_div_less)

lemma unit_write:
  assumes "unat w < 0x10000"
  shows "\<exists>a b. lxb_encoding_encode_utf_16_write is_be w = [a, b] \<and> utf_16_unit is_be a b = w"
proof -
  have "push_bit 8 (ucast h) + ucast l = w" if "unat h = unat w div 256" "unat l = unat w mod 256" for h l :: lxb_char
  proof -
    have p: "unat (push_bit 8 (ucast h) :: lxb_codepoint) = unat w div 256 * 256"
      using that(1) assms unat_byte [of h] by (simp add: push_bit_eq_mult unat_word_ariths less_mult_imp_div_less)
    have "unat w div 256 * 256 + unat w mod 256 = unat w" by (rule div_mult_mod_eq)
    then have "unat (push_bit 8 (ucast h) + ucast l :: lxb_codepoint) = unat w"
      using p that(2) assms unat_byte [of l] by (simp add: unat_word_ariths)
    then show ?thesis by (simp add: word_unat_eq_iff)
  qed
  then show ?thesis
    using unat_low_byte [of w] unat_high_byte [OF assms] by (auto simp: lxb_encoding_encode_utf_16_write_def utf_16_unit_def)
qed

lemma pair_units:
  assumes "0x10000 \<le> unat c" "unat c < 0x110000"
  defines "hi \<equiv> 0xD800 OR drop_bit 10 (c - 0x10000)" and "lo \<equiv> 0xDC00 OR ((c - 0x10000) AND 0x03FF)"
  shows "unat hi < 0x10000" "unat lo < 0x10000" "is_surrogate hi" "\<not> is_trail hi" "is_trail lo" "join_pair hi lo = c" "hi \<noteq> 0"
proof -
  define n where "n = unat c - 0x10000"
  have n: "unat (c - 0x10000) = n" "n < 0x100000" using assms(1,2) by (simp_all add: n_def unat_sub_if')
  have d: "n div 1024 < 1024" using n(2) by (simp add: less_mult_imp_div_less)
  have low: "unat ((c - 0x10000) AND 0x03FF) = n mod 1024"
  proof -
    have "(c - 0x10000) AND 0x03FF = take_bit 10 (c - 0x10000)" by (simp add: take_bit_eq_mask mask_eq_exp_minus_1)
    then show ?thesis using n(1) by (simp add: unsigned_take_bit_eq) (simp add: take_bit_eq_mod)
  qed
  have hi: "unat hi = 0xD800 + n div 1024"
    using unat_or_high [of "drop_bit 10 (c - 0x10000)" 11 27] n d by (simp add: hi_def drop_bits push_bit_eq_mult)
  have lo: "unat lo = 0xDC00 + n mod 1024"
    using unat_or_high [of "(c - 0x10000) AND 0x03FF" 10 55] low by (simp add: lo_def push_bit_eq_mult)
  have m: "n mod 1024 < 1024" by simp
  show "unat hi < 0x10000" "unat lo < 0x10000" "is_surrogate hi" "\<not> is_trail hi" "is_trail lo"
    unfolding is_surrogate_iff is_trail_iff hi lo using d m by linarith+
  show "hi \<noteq> 0" using hi by auto
  have a: "unat (hi - 0xD800) = n div 1024" "unat (lo - 0xDC00) = n mod 1024" by (simp_all add: unat_sub_if' hi lo)
  have "unat (push_bit 10 w) = unat w * 1024" if "unat w < 1024" for w :: lxb_codepoint using that by (simp add: push_bit_eq_mult unat_word_ariths)
  then have "unat (push_bit 10 (hi - 0xD800)) = n div 1024 * 1024" using a(1) d by simp
  moreover have "n div 1024 * 1024 + n mod 1024 = n" by (rule div_mult_mod_eq)
  moreover have "unat (0x10000 + x + y) = 0x10000 + (unat x + unat y)" if "unat x + unat y < 0x100000" for x y :: lxb_codepoint
    using that by (simp add: unat_word_ariths)
  ultimately have "unat (join_pair hi lo) = 0x10000 + n" using a(2) n(2) by (simp only: join_pair_def)
  then show "join_pair hi lo = c" using assms(1) n_def by (simp add: word_unat_eq_iff)
qed

text \<open>The bytes of a scalar value bring the decoder back to its loop, with the value appended.\<close>

lemma utf_16_bytes_loop:
  assumes "scalar (unat c)" "length (buffer_out ctx) < buffer_length ctx" "second_codepoint ctx = 0"
  shows "\<exists>cp. utf_16_loop is_be ctx (utf_16_bytes is_be c @ bs) = utf_16_loop is_be (ctx\<lparr> buffer_out := buffer_out ctx @ [c], codepoint := cp \<rparr>) bs"
proof (cases "unat c < 0x10000")
  case True
  obtain a b where u: "lxb_encoding_encode_utf_16_write is_be c = [a, b]" "utf_16_unit is_be a b = c" using unit_write [OF True] by blast
  have "c < 0x10000" using True by (simp add: word_less_nat_alt)
  moreover have "\<not> is_surrogate c" using assms(1) True by (auto simp: is_surrogate_iff scalar_def)
  ultimately have "utf_16_loop is_be ctx (utf_16_bytes is_be c @ bs) = utf_16_loop is_be (ctx\<lparr> buffer_out := buffer_out ctx @ [c] \<rparr>) bs"
    using assms(2,3) u by (subst utf_16_loop.simps) (simp add: utf_16_bytes_def out_full_def append_wo_check_def Let_def)
  moreover have "ctx\<lparr> buffer_out := buffer_out ctx @ [c] \<rparr> = ctx\<lparr> buffer_out := buffer_out ctx @ [c], codepoint := codepoint ctx \<rparr>" by simp
  ultimately show ?thesis by metis
next
  case False
  let ?hi = "0xD800 OR drop_bit 10 (c - 0x10000)" and ?lo = "0xDC00 OR ((c - 0x10000) AND 0x03FF)"
  have r: "0x10000 \<le> unat c" "unat c < 0x110000" using False assms(1) by (auto simp: scalar_def)
  note pu = pair_units [OF r]
  obtain a b where u: "lxb_encoding_encode_utf_16_write is_be ?hi = [a, b]" "utf_16_unit is_be a b = ?hi" using unit_write [OF pu(1)] by blast
  obtain a' b' where v: "lxb_encoding_encode_utf_16_write is_be ?lo = [a', b']" "utf_16_unit is_be a' b' = ?lo" using unit_write [OF pu(2)] by blast
  have "\<not> c < 0x10000" using False by (simp add: word_less_nat_alt)
  then have "utf_16_bytes is_be c = [a, b, a', b']" using u(1) v(1) by (simp add: utf_16_bytes_def Let_def)
  then have "utf_16_loop is_be ctx (utf_16_bytes is_be c @ bs) =
      utf_16_loop is_be (ctx\<lparr> codepoint := c, second_codepoint := 0, buffer_out := buffer_out ctx @ [c] \<rparr>) bs"
    using assms(2,3) u(2) v(2) pu(3-7)
    by (subst utf_16_loop.simps) (simp add: out_full_def append_wo_check_def Let_def)
  moreover have "ctx\<lparr> codepoint := c, second_codepoint := 0, buffer_out := buffer_out ctx @ [c] \<rparr> = ctx\<lparr> buffer_out := buffer_out ctx @ [c], codepoint := c \<rparr>"
    using assms(3) by (cases ctx) simp
  ultimately show ?thesis by metis
qed

lemma utf_16_bytes_length: "length (utf_16_bytes is_be c) = (if c < 0x10000 then 2 else 4)"
  by (simp add: utf_16_bytes_def lxb_encoding_encode_utf_16_write_def Let_def)

lemma encode_utf_16_ok:
  assumes "length (e_out ctx) + 4 * length cps \<le> e_length ctx"
  shows "lxb_encoding_encode_utf_16 ctx is_be cps = (ctx\<lparr> e_out := e_out ctx @ concat (map (utf_16_bytes is_be) cps) \<rparr>, [], LXB_STATUS_OK)"
  using assms
proof (induction cps arbitrary: ctx)
  case (Cons c cps)
  then show ?case using Cons.IH [of "ctx\<lparr> e_out := e_out ctx @ utf_16_bytes is_be c \<rparr>"] by (auto simp: utf_16_bytes_length)
qed simp

lemma decode_utf_16_encoded:
  assumes "\<forall>c \<in> set cps. scalar (unat c)" "length (buffer_out ctx) + length cps \<le> buffer_length ctx" "second_codepoint ctx = 0"
  shows "\<exists>cp. utf_16_loop is_be ctx (concat (map (utf_16_bytes is_be) cps)) =
    Some (ctx\<lparr> buffer_out := buffer_out ctx @ cps, codepoint := cp \<rparr>, [], LXB_STATUS_OK)"
  using assms
proof (induction cps arbitrary: ctx)
  case Nil
  show ?case by (rule exI [of _ "codepoint ctx"]) (simp add: utf_16_loop.simps)
next
  case (Cons c cps)
  obtain cp where "utf_16_loop is_be ctx (utf_16_bytes is_be c @ concat (map (utf_16_bytes is_be) cps)) =
      utf_16_loop is_be (ctx\<lparr> buffer_out := buffer_out ctx @ [c], codepoint := cp \<rparr>) (concat (map (utf_16_bytes is_be) cps))"
    using utf_16_bytes_loop [of c ctx is_be] Cons.prems by auto
  moreover have "\<exists>cp'. utf_16_loop is_be (ctx\<lparr> buffer_out := buffer_out ctx @ [c], codepoint := cp \<rparr>) (concat (map (utf_16_bytes is_be) cps)) =
      Some (ctx\<lparr> buffer_out := (buffer_out ctx @ [c]) @ cps, codepoint := cp' \<rparr>, [], LXB_STATUS_OK)"
    using Cons.IH [of "ctx\<lparr> buffer_out := buffer_out ctx @ [c], codepoint := cp \<rparr>"] Cons.prems by simp
  ultimately show ?case by simp
qed

text \<open>C18: Round trip of UTF-16 in both orders of the bytes: scalar values that are encoded into a large enough buffer are decoded
  again to the same values, without a replacement.\<close>

theorem utf_16_roundtrip:
  assumes "\<forall>c \<in> set cps. scalar (unat c)" "4 * length cps \<le> m" "length cps \<le> n"
  shows "\<exists>ectx ctx. lxb_encoding_encode_utf_16 (lxb_encoding_encode_init m) is_be cps = (ectx, [], LXB_STATUS_OK) \<and>
    lxb_encoding_decode_utf_16 (lxb_encoding_decode_init n) is_be (e_out ectx) = Some (ctx, [], LXB_STATUS_OK) \<and> buffer_out ctx = cps"
proof -
  have i: "buffer_out (lxb_encoding_decode_init n) = []" "buffer_length (lxb_encoding_decode_init n) = n" "second_codepoint (lxb_encoding_decode_init n) = 0"
    "u_lead (lxb_encoding_decode_init n) = 0" "decode_resume_error (lxb_encoding_decode_init n) = Inr (lxb_encoding_decode_init n)"
    by (simp_all add: lxb_encoding_decode_init_def decode_resume_error_def)
  obtain cp where "utf_16_loop is_be (lxb_encoding_decode_init n) (concat (map (utf_16_bytes is_be) cps)) =
      Some ((lxb_encoding_decode_init n)\<lparr> buffer_out := cps, codepoint := cp \<rparr>, [], LXB_STATUS_OK)"
    using decode_utf_16_encoded [OF assms(1), of "lxb_encoding_decode_init n" is_be] assms(3) i by auto
  moreover have "lxb_encoding_encode_utf_16 (lxb_encoding_encode_init m) is_be cps =
      ((lxb_encoding_encode_init m)\<lparr> e_out := concat (map (utf_16_bytes is_be) cps) \<rparr>, [], LXB_STATUS_OK)"
    using encode_utf_16_ok [of "lxb_encoding_encode_init m" cps is_be] assms(2) by (simp add: lxb_encoding_encode_init_def)
  ultimately show ?thesis using i(4,5) by (simp add: lxb_encoding_decode_utf_16_def)
qed

theorem utf_16_roundtrip_witness:
  "\<exists>ectx ctx. lxb_encoding_encode_utf_16 (lxb_encoding_encode_init 8) False [0x41, 0x1F600] = (ectx, [], LXB_STATUS_OK) \<and>
     lxb_encoding_decode_utf_16 (lxb_encoding_decode_init 2) False (e_out ectx) = Some (ctx, [], LXB_STATUS_OK) \<and> buffer_out ctx = [0x41, 0x1F600]"
  using utf_16_roundtrip [of "[0x41, 0x1F600]" 8 2 False] by (simp add: scalar_def)

end
