(* ===== verification/Tree_Tags.thy ===== *)
theory Tree_Tags
  imports Lxb_Prelude
begin

unbundle bit_operations_syntax

text \<open>
  The tags and name spaces that the tree construction names (\<open>tag/const.h\<close>, \<open>ns/const.h\<close>) and the categories of the
  elements (\<open>html/tag.h\<close>, with the table of \<open>html/tag_res.h\<close>, one row for each tag with one entry for each name space).
  The theorem compares the generated table with the lists of the HTML standard.
\<close>

section \<open>Constants\<close>

abbreviation (input) LXB_TAG__DOCUMENT :: lxb_tag_id where "LXB_TAG__DOCUMENT \<equiv> 3"
abbreviation (input) LXB_TAG_A :: lxb_tag_id where "LXB_TAG_A \<equiv> 6"
abbreviation (input) LXB_TAG_ABBR :: lxb_tag_id where "LXB_TAG_ABBR \<equiv> 7"
abbreviation (input) LXB_TAG_ACRONYM :: lxb_tag_id where "LXB_TAG_ACRONYM \<equiv> 8"
abbreviation (input) LXB_TAG_ADDRESS :: lxb_tag_id where "LXB_TAG_ADDRESS \<equiv> 9"
abbreviation (input) LXB_TAG_ALTGLYPH :: lxb_tag_id where "LXB_TAG_ALTGLYPH \<equiv> 10"
abbreviation (input) LXB_TAG_ALTGLYPHDEF :: lxb_tag_id where "LXB_TAG_ALTGLYPHDEF \<equiv> 11"
abbreviation (input) LXB_TAG_ALTGLYPHITEM :: lxb_tag_id where "LXB_TAG_ALTGLYPHITEM \<equiv> 12"
abbreviation (input) LXB_TAG_ANIMATECOLOR :: lxb_tag_id where "LXB_TAG_ANIMATECOLOR \<equiv> 13"
abbreviation (input) LXB_TAG_ANIMATEMOTION :: lxb_tag_id where "LXB_TAG_ANIMATEMOTION \<equiv> 14"
abbreviation (input) LXB_TAG_ANIMATETRANSFORM :: lxb_tag_id where "LXB_TAG_ANIMATETRANSFORM \<equiv> 15"
abbreviation (input) LXB_TAG_ANNOTATION_XML :: lxb_tag_id where "LXB_TAG_ANNOTATION_XML \<equiv> 16"
abbreviation (input) LXB_TAG_APPLET :: lxb_tag_id where "LXB_TAG_APPLET \<equiv> 17"
abbreviation (input) LXB_TAG_AREA :: lxb_tag_id where "LXB_TAG_AREA \<equiv> 18"
abbreviation (input) LXB_TAG_ARTICLE :: lxb_tag_id where "LXB_TAG_ARTICLE \<equiv> 19"
abbreviation (input) LXB_TAG_ASIDE :: lxb_tag_id where "LXB_TAG_ASIDE \<equiv> 20"
abbreviation (input) LXB_TAG_AUDIO :: lxb_tag_id where "LXB_TAG_AUDIO \<equiv> 21"
abbreviation (input) LXB_TAG_B :: lxb_tag_id where "LXB_TAG_B \<equiv> 22"
abbreviation (input) LXB_TAG_BASE :: lxb_tag_id where "LXB_TAG_BASE \<equiv> 23"
abbreviation (input) LXB_TAG_BASEFONT :: lxb_tag_id where "LXB_TAG_BASEFONT \<equiv> 24"
abbreviation (input) LXB_TAG_BDI :: lxb_tag_id where "LXB_TAG_BDI \<equiv> 25"
abbreviation (input) LXB_TAG_BDO :: lxb_tag_id where "LXB_TAG_BDO \<equiv> 26"
abbreviation (input) LXB_TAG_BGSOUND :: lxb_tag_id where "LXB_TAG_BGSOUND \<equiv> 27"
abbreviation (input) LXB_TAG_BIG :: lxb_tag_id where "LXB_TAG_BIG \<equiv> 28"
abbreviation (input) LXB_TAG_BLINK :: lxb_tag_id where "LXB_TAG_BLINK \<equiv> 29"
abbreviation (input) LXB_TAG_BLOCKQUOTE :: lxb_tag_id where "LXB_TAG_BLOCKQUOTE \<equiv> 30"
abbreviation (input) LXB_TAG_BODY :: lxb_tag_id where "LXB_TAG_BODY \<equiv> 31"
abbreviation (input) LXB_TAG_BR :: lxb_tag_id where "LXB_TAG_BR \<equiv> 32"
abbreviation (input) LXB_TAG_BUTTON :: lxb_tag_id where "LXB_TAG_BUTTON \<equiv> 33"
abbreviation (input) LXB_TAG_CANVAS :: lxb_tag_id where "LXB_TAG_CANVAS \<equiv> 34"
abbreviation (input) LXB_TAG_CAPTION :: lxb_tag_id where "LXB_TAG_CAPTION \<equiv> 35"
abbreviation (input) LXB_TAG_CENTER :: lxb_tag_id where "LXB_TAG_CENTER \<equiv> 36"
abbreviation (input) LXB_TAG_CITE :: lxb_tag_id where "LXB_TAG_CITE \<equiv> 37"
abbreviation (input) LXB_TAG_CLIPPATH :: lxb_tag_id where "LXB_TAG_CLIPPATH \<equiv> 38"
abbreviation (input) LXB_TAG_CODE :: lxb_tag_id where "LXB_TAG_CODE \<equiv> 39"
abbreviation (input) LXB_TAG_COL :: lxb_tag_id where "LXB_TAG_COL \<equiv> 40"
abbreviation (input) LXB_TAG_COLGROUP :: lxb_tag_id where "LXB_TAG_COLGROUP \<equiv> 41"
abbreviation (input) LXB_TAG_DATA :: lxb_tag_id where "LXB_TAG_DATA \<equiv> 42"
abbreviation (input) LXB_TAG_DATALIST :: lxb_tag_id where "LXB_TAG_DATALIST \<equiv> 43"
abbreviation (input) LXB_TAG_DD :: lxb_tag_id where "LXB_TAG_DD \<equiv> 44"
abbreviation (input) LXB_TAG_DEL :: lxb_tag_id where "LXB_TAG_DEL \<equiv> 45"
abbreviation (input) LXB_TAG_DESC :: lxb_tag_id where "LXB_TAG_DESC \<equiv> 46"
abbreviation (input) LXB_TAG_DETAILS :: lxb_tag_id where "LXB_TAG_DETAILS \<equiv> 47"
abbreviation (input) LXB_TAG_DFN :: lxb_tag_id where "LXB_TAG_DFN \<equiv> 48"
abbreviation (input) LXB_TAG_DIALOG :: lxb_tag_id where "LXB_TAG_DIALOG \<equiv> 49"
abbreviation (input) LXB_TAG_DIR :: lxb_tag_id where "LXB_TAG_DIR \<equiv> 50"
abbreviation (input) LXB_TAG_DIV :: lxb_tag_id where "LXB_TAG_DIV \<equiv> 51"
abbreviation (input) LXB_TAG_DL :: lxb_tag_id where "LXB_TAG_DL \<equiv> 52"
abbreviation (input) LXB_TAG_DT :: lxb_tag_id where "LXB_TAG_DT \<equiv> 53"
abbreviation (input) LXB_TAG_EM :: lxb_tag_id where "LXB_TAG_EM \<equiv> 54"
abbreviation (input) LXB_TAG_EMBED :: lxb_tag_id where "LXB_TAG_EMBED \<equiv> 55"
abbreviation (input) LXB_TAG_FEBLEND :: lxb_tag_id where "LXB_TAG_FEBLEND \<equiv> 56"
abbreviation (input) LXB_TAG_FECOLORMATRIX :: lxb_tag_id where "LXB_TAG_FECOLORMATRIX \<equiv> 57"
abbreviation (input) LXB_TAG_FECOMPONENTTRANSFER :: lxb_tag_id where "LXB_TAG_FECOMPONENTTRANSFER \<equiv> 58"
abbreviation (input) LXB_TAG_FECOMPOSITE :: lxb_tag_id where "LXB_TAG_FECOMPOSITE \<equiv> 59"
abbreviation (input) LXB_TAG_FECONVOLVEMATRIX :: lxb_tag_id where "LXB_TAG_FECONVOLVEMATRIX \<equiv> 60"
abbreviation (input) LXB_TAG_FEDIFFUSELIGHTING :: lxb_tag_id where "LXB_TAG_FEDIFFUSELIGHTING \<equiv> 61"
abbreviation (input) LXB_TAG_FEDISPLACEMENTMAP :: lxb_tag_id where "LXB_TAG_FEDISPLACEMENTMAP \<equiv> 62"
abbreviation (input) LXB_TAG_FEDISTANTLIGHT :: lxb_tag_id where "LXB_TAG_FEDISTANTLIGHT \<equiv> 63"
abbreviation (input) LXB_TAG_FEDROPSHADOW :: lxb_tag_id where "LXB_TAG_FEDROPSHADOW \<equiv> 64"
abbreviation (input) LXB_TAG_FEFLOOD :: lxb_tag_id where "LXB_TAG_FEFLOOD \<equiv> 65"
abbreviation (input) LXB_TAG_FEFUNCA :: lxb_tag_id where "LXB_TAG_FEFUNCA \<equiv> 66"
abbreviation (input) LXB_TAG_FEFUNCB :: lxb_tag_id where "LXB_TAG_FEFUNCB \<equiv> 67"
abbreviation (input) LXB_TAG_FEFUNCG :: lxb_tag_id where "LXB_TAG_FEFUNCG \<equiv> 68"
abbreviation (input) LXB_TAG_FEFUNCR :: lxb_tag_id where "LXB_TAG_FEFUNCR \<equiv> 69"
abbreviation (input) LXB_TAG_FEGAUSSIANBLUR :: lxb_tag_id where "LXB_TAG_FEGAUSSIANBLUR \<equiv> 70"
abbreviation (input) LXB_TAG_FEIMAGE :: lxb_tag_id where "LXB_TAG_FEIMAGE \<equiv> 71"
abbreviation (input) LXB_TAG_FEMERGE :: lxb_tag_id where "LXB_TAG_FEMERGE \<equiv> 72"
abbreviation (input) LXB_TAG_FEMERGENODE :: lxb_tag_id where "LXB_TAG_FEMERGENODE \<equiv> 73"
abbreviation (input) LXB_TAG_FEMORPHOLOGY :: lxb_tag_id where "LXB_TAG_FEMORPHOLOGY \<equiv> 74"
abbreviation (input) LXB_TAG_FEOFFSET :: lxb_tag_id where "LXB_TAG_FEOFFSET \<equiv> 75"
abbreviation (input) LXB_TAG_FEPOINTLIGHT :: lxb_tag_id where "LXB_TAG_FEPOINTLIGHT \<equiv> 76"
abbreviation (input) LXB_TAG_FESPECULARLIGHTING :: lxb_tag_id where "LXB_TAG_FESPECULARLIGHTING \<equiv> 77"
abbreviation (input) LXB_TAG_FESPOTLIGHT :: lxb_tag_id where "LXB_TAG_FESPOTLIGHT \<equiv> 78"
abbreviation (input) LXB_TAG_FETILE :: lxb_tag_id where "LXB_TAG_FETILE \<equiv> 79"
abbreviation (input) LXB_TAG_FETURBULENCE :: lxb_tag_id where "LXB_TAG_FETURBULENCE \<equiv> 80"
abbreviation (input) LXB_TAG_FIELDSET :: lxb_tag_id where "LXB_TAG_FIELDSET \<equiv> 81"
abbreviation (input) LXB_TAG_FIGCAPTION :: lxb_tag_id where "LXB_TAG_FIGCAPTION \<equiv> 82"
abbreviation (input) LXB_TAG_FIGURE :: lxb_tag_id where "LXB_TAG_FIGURE \<equiv> 83"
abbreviation (input) LXB_TAG_FONT :: lxb_tag_id where "LXB_TAG_FONT \<equiv> 84"
abbreviation (input) LXB_TAG_FOOTER :: lxb_tag_id where "LXB_TAG_FOOTER \<equiv> 85"
abbreviation (input) LXB_TAG_FOREIGNOBJECT :: lxb_tag_id where "LXB_TAG_FOREIGNOBJECT \<equiv> 86"
abbreviation (input) LXB_TAG_FORM :: lxb_tag_id where "LXB_TAG_FORM \<equiv> 87"
abbreviation (input) LXB_TAG_FRAME :: lxb_tag_id where "LXB_TAG_FRAME \<equiv> 88"
abbreviation (input) LXB_TAG_FRAMESET :: lxb_tag_id where "LXB_TAG_FRAMESET \<equiv> 89"
abbreviation (input) LXB_TAG_GLYPHREF :: lxb_tag_id where "LXB_TAG_GLYPHREF \<equiv> 90"
abbreviation (input) LXB_TAG_H1 :: lxb_tag_id where "LXB_TAG_H1 \<equiv> 91"
abbreviation (input) LXB_TAG_H2 :: lxb_tag_id where "LXB_TAG_H2 \<equiv> 92"
abbreviation (input) LXB_TAG_H3 :: lxb_tag_id where "LXB_TAG_H3 \<equiv> 93"
abbreviation (input) LXB_TAG_H4 :: lxb_tag_id where "LXB_TAG_H4 \<equiv> 94"
abbreviation (input) LXB_TAG_H5 :: lxb_tag_id where "LXB_TAG_H5 \<equiv> 95"
abbreviation (input) LXB_TAG_H6 :: lxb_tag_id where "LXB_TAG_H6 \<equiv> 96"
abbreviation (input) LXB_TAG_HEAD :: lxb_tag_id where "LXB_TAG_HEAD \<equiv> 97"
abbreviation (input) LXB_TAG_HEADER :: lxb_tag_id where "LXB_TAG_HEADER \<equiv> 98"
abbreviation (input) LXB_TAG_HGROUP :: lxb_tag_id where "LXB_TAG_HGROUP \<equiv> 99"
abbreviation (input) LXB_TAG_HR :: lxb_tag_id where "LXB_TAG_HR \<equiv> 100"
abbreviation (input) LXB_TAG_HTML :: lxb_tag_id where "LXB_TAG_HTML \<equiv> 101"
abbreviation (input) LXB_TAG_I :: lxb_tag_id where "LXB_TAG_I \<equiv> 102"
abbreviation (input) LXB_TAG_IFRAME :: lxb_tag_id where "LXB_TAG_IFRAME \<equiv> 103"
abbreviation (input) LXB_TAG_IMAGE :: lxb_tag_id where "LXB_TAG_IMAGE \<equiv> 104"
abbreviation (input) LXB_TAG_IMG :: lxb_tag_id where "LXB_TAG_IMG \<equiv> 105"
abbreviation (input) LXB_TAG_INPUT :: lxb_tag_id where "LXB_TAG_INPUT \<equiv> 106"
abbreviation (input) LXB_TAG_INS :: lxb_tag_id where "LXB_TAG_INS \<equiv> 107"
abbreviation (input) LXB_TAG_ISINDEX :: lxb_tag_id where "LXB_TAG_ISINDEX \<equiv> 108"
abbreviation (input) LXB_TAG_KBD :: lxb_tag_id where "LXB_TAG_KBD \<equiv> 109"
abbreviation (input) LXB_TAG_KEYGEN :: lxb_tag_id where "LXB_TAG_KEYGEN \<equiv> 110"
abbreviation (input) LXB_TAG_LABEL :: lxb_tag_id where "LXB_TAG_LABEL \<equiv> 111"
abbreviation (input) LXB_TAG_LEGEND :: lxb_tag_id where "LXB_TAG_LEGEND \<equiv> 112"
abbreviation (input) LXB_TAG_LI :: lxb_tag_id where "LXB_TAG_LI \<equiv> 113"
abbreviation (input) LXB_TAG_LINEARGRADIENT :: lxb_tag_id where "LXB_TAG_LINEARGRADIENT \<equiv> 114"
abbreviation (input) LXB_TAG_LINK :: lxb_tag_id where "LXB_TAG_LINK \<equiv> 115"
abbreviation (input) LXB_TAG_LISTING :: lxb_tag_id where "LXB_TAG_LISTING \<equiv> 116"
abbreviation (input) LXB_TAG_MAIN :: lxb_tag_id where "LXB_TAG_MAIN \<equiv> 117"
abbreviation (input) LXB_TAG_MALIGNMARK :: lxb_tag_id where "LXB_TAG_MALIGNMARK \<equiv> 118"
abbreviation (input) LXB_TAG_MAP :: lxb_tag_id where "LXB_TAG_MAP \<equiv> 119"
abbreviation (input) LXB_TAG_MARK :: lxb_tag_id where "LXB_TAG_MARK \<equiv> 120"
abbreviation (input) LXB_TAG_MARQUEE :: lxb_tag_id where "LXB_TAG_MARQUEE \<equiv> 121"
abbreviation (input) LXB_TAG_MATH :: lxb_tag_id where "LXB_TAG_MATH \<equiv> 122"
abbreviation (input) LXB_TAG_MENU :: lxb_tag_id where "LXB_TAG_MENU \<equiv> 123"
abbreviation (input) LXB_TAG_META :: lxb_tag_id where "LXB_TAG_META \<equiv> 124"
abbreviation (input) LXB_TAG_METER :: lxb_tag_id where "LXB_TAG_METER \<equiv> 125"
abbreviation (input) LXB_TAG_MFENCED :: lxb_tag_id where "LXB_TAG_MFENCED \<equiv> 126"
abbreviation (input) LXB_TAG_MGLYPH :: lxb_tag_id where "LXB_TAG_MGLYPH \<equiv> 127"
abbreviation (input) LXB_TAG_MI :: lxb_tag_id where "LXB_TAG_MI \<equiv> 128"
abbreviation (input) LXB_TAG_MN :: lxb_tag_id where "LXB_TAG_MN \<equiv> 129"
abbreviation (input) LXB_TAG_MO :: lxb_tag_id where "LXB_TAG_MO \<equiv> 130"
abbreviation (input) LXB_TAG_MS :: lxb_tag_id where "LXB_TAG_MS \<equiv> 131"
abbreviation (input) LXB_TAG_MTEXT :: lxb_tag_id where "LXB_TAG_MTEXT \<equiv> 132"
abbreviation (input) LXB_TAG_MULTICOL :: lxb_tag_id where "LXB_TAG_MULTICOL \<equiv> 133"
abbreviation (input) LXB_TAG_NAV :: lxb_tag_id where "LXB_TAG_NAV \<equiv> 134"
abbreviation (input) LXB_TAG_NEXTID :: lxb_tag_id where "LXB_TAG_NEXTID \<equiv> 135"
abbreviation (input) LXB_TAG_NOBR :: lxb_tag_id where "LXB_TAG_NOBR \<equiv> 136"
abbreviation (input) LXB_TAG_NOEMBED :: lxb_tag_id where "LXB_TAG_NOEMBED \<equiv> 137"
abbreviation (input) LXB_TAG_NOFRAMES :: lxb_tag_id where "LXB_TAG_NOFRAMES \<equiv> 138"
abbreviation (input) LXB_TAG_NOSCRIPT :: lxb_tag_id where "LXB_TAG_NOSCRIPT \<equiv> 139"
abbreviation (input) LXB_TAG_OBJECT :: lxb_tag_id where "LXB_TAG_OBJECT \<equiv> 140"
abbreviation (input) LXB_TAG_OL :: lxb_tag_id where "LXB_TAG_OL \<equiv> 141"
abbreviation (input) LXB_TAG_OPTGROUP :: lxb_tag_id where "LXB_TAG_OPTGROUP \<equiv> 142"
abbreviation (input) LXB_TAG_OPTION :: lxb_tag_id where "LXB_TAG_OPTION \<equiv> 143"
abbreviation (input) LXB_TAG_OUTPUT :: lxb_tag_id where "LXB_TAG_OUTPUT \<equiv> 144"
abbreviation (input) LXB_TAG_P :: lxb_tag_id where "LXB_TAG_P \<equiv> 145"
abbreviation (input) LXB_TAG_PARAM :: lxb_tag_id where "LXB_TAG_PARAM \<equiv> 146"
abbreviation (input) LXB_TAG_PATH :: lxb_tag_id where "LXB_TAG_PATH \<equiv> 147"
abbreviation (input) LXB_TAG_PICTURE :: lxb_tag_id where "LXB_TAG_PICTURE \<equiv> 148"
abbreviation (input) LXB_TAG_PLAINTEXT :: lxb_tag_id where "LXB_TAG_PLAINTEXT \<equiv> 149"
abbreviation (input) LXB_TAG_PRE :: lxb_tag_id where "LXB_TAG_PRE \<equiv> 150"
abbreviation (input) LXB_TAG_PROGRESS :: lxb_tag_id where "LXB_TAG_PROGRESS \<equiv> 151"
abbreviation (input) LXB_TAG_Q :: lxb_tag_id where "LXB_TAG_Q \<equiv> 152"
abbreviation (input) LXB_TAG_RADIALGRADIENT :: lxb_tag_id where "LXB_TAG_RADIALGRADIENT \<equiv> 153"
abbreviation (input) LXB_TAG_RB :: lxb_tag_id where "LXB_TAG_RB \<equiv> 154"
abbreviation (input) LXB_TAG_RP :: lxb_tag_id where "LXB_TAG_RP \<equiv> 155"
abbreviation (input) LXB_TAG_RT :: lxb_tag_id where "LXB_TAG_RT \<equiv> 156"
abbreviation (input) LXB_TAG_RTC :: lxb_tag_id where "LXB_TAG_RTC \<equiv> 157"
abbreviation (input) LXB_TAG_RUBY :: lxb_tag_id where "LXB_TAG_RUBY \<equiv> 158"
abbreviation (input) LXB_TAG_S :: lxb_tag_id where "LXB_TAG_S \<equiv> 159"
abbreviation (input) LXB_TAG_SAMP :: lxb_tag_id where "LXB_TAG_SAMP \<equiv> 160"
abbreviation (input) LXB_TAG_SCRIPT :: lxb_tag_id where "LXB_TAG_SCRIPT \<equiv> 161"
abbreviation (input) LXB_TAG_SECTION :: lxb_tag_id where "LXB_TAG_SECTION \<equiv> 162"
abbreviation (input) LXB_TAG_SELECT :: lxb_tag_id where "LXB_TAG_SELECT \<equiv> 163"
abbreviation (input) LXB_TAG_SLOT :: lxb_tag_id where "LXB_TAG_SLOT \<equiv> 164"
abbreviation (input) LXB_TAG_SMALL :: lxb_tag_id where "LXB_TAG_SMALL \<equiv> 165"
abbreviation (input) LXB_TAG_SOURCE :: lxb_tag_id where "LXB_TAG_SOURCE \<equiv> 166"
abbreviation (input) LXB_TAG_SPACER :: lxb_tag_id where "LXB_TAG_SPACER \<equiv> 167"
abbreviation (input) LXB_TAG_SPAN :: lxb_tag_id where "LXB_TAG_SPAN \<equiv> 168"
abbreviation (input) LXB_TAG_STRIKE :: lxb_tag_id where "LXB_TAG_STRIKE \<equiv> 169"
abbreviation (input) LXB_TAG_STRONG :: lxb_tag_id where "LXB_TAG_STRONG \<equiv> 170"
abbreviation (input) LXB_TAG_STYLE :: lxb_tag_id where "LXB_TAG_STYLE \<equiv> 171"
abbreviation (input) LXB_TAG_SUB :: lxb_tag_id where "LXB_TAG_SUB \<equiv> 172"
abbreviation (input) LXB_TAG_SUMMARY :: lxb_tag_id where "LXB_TAG_SUMMARY \<equiv> 173"
abbreviation (input) LXB_TAG_SUP :: lxb_tag_id where "LXB_TAG_SUP \<equiv> 174"
abbreviation (input) LXB_TAG_SVG :: lxb_tag_id where "LXB_TAG_SVG \<equiv> 175"
abbreviation (input) LXB_TAG_TABLE :: lxb_tag_id where "LXB_TAG_TABLE \<equiv> 176"
abbreviation (input) LXB_TAG_TBODY :: lxb_tag_id where "LXB_TAG_TBODY \<equiv> 177"
abbreviation (input) LXB_TAG_TD :: lxb_tag_id where "LXB_TAG_TD \<equiv> 178"
abbreviation (input) LXB_TAG_TEMPLATE :: lxb_tag_id where "LXB_TAG_TEMPLATE \<equiv> 179"
abbreviation (input) LXB_TAG_TEXTAREA :: lxb_tag_id where "LXB_TAG_TEXTAREA \<equiv> 180"
abbreviation (input) LXB_TAG_TEXTPATH :: lxb_tag_id where "LXB_TAG_TEXTPATH \<equiv> 181"
abbreviation (input) LXB_TAG_TFOOT :: lxb_tag_id where "LXB_TAG_TFOOT \<equiv> 182"
abbreviation (input) LXB_TAG_TH :: lxb_tag_id where "LXB_TAG_TH \<equiv> 183"
abbreviation (input) LXB_TAG_THEAD :: lxb_tag_id where "LXB_TAG_THEAD \<equiv> 184"
abbreviation (input) LXB_TAG_TIME :: lxb_tag_id where "LXB_TAG_TIME \<equiv> 185"
abbreviation (input) LXB_TAG_TITLE :: lxb_tag_id where "LXB_TAG_TITLE \<equiv> 186"
abbreviation (input) LXB_TAG_TR :: lxb_tag_id where "LXB_TAG_TR \<equiv> 187"
abbreviation (input) LXB_TAG_TRACK :: lxb_tag_id where "LXB_TAG_TRACK \<equiv> 188"
abbreviation (input) LXB_TAG_TT :: lxb_tag_id where "LXB_TAG_TT \<equiv> 189"
abbreviation (input) LXB_TAG_U :: lxb_tag_id where "LXB_TAG_U \<equiv> 190"
abbreviation (input) LXB_TAG_UL :: lxb_tag_id where "LXB_TAG_UL \<equiv> 191"
abbreviation (input) LXB_TAG_VAR :: lxb_tag_id where "LXB_TAG_VAR \<equiv> 192"
abbreviation (input) LXB_TAG_VIDEO :: lxb_tag_id where "LXB_TAG_VIDEO \<equiv> 193"
abbreviation (input) LXB_TAG_WBR :: lxb_tag_id where "LXB_TAG_WBR \<equiv> 194"
abbreviation (input) LXB_TAG_XMP :: lxb_tag_id where "LXB_TAG_XMP \<equiv> 195"

definition LXB_TAG__LAST_ENTRY :: lxb_tag_id where
  "LXB_TAG__LAST_ENTRY = 196"

abbreviation (input) LXB_NS_MATH :: lxb_ns_id where "LXB_NS_MATH \<equiv> 3"
abbreviation (input) LXB_NS_SVG :: lxb_ns_id where "LXB_NS_SVG \<equiv> 4"
abbreviation (input) LXB_NS_XLINK :: lxb_ns_id where "LXB_NS_XLINK \<equiv> 5"
abbreviation (input) LXB_NS_XML :: lxb_ns_id where "LXB_NS_XML \<equiv> 6"
abbreviation (input) LXB_NS_XMLNS :: lxb_ns_id where "LXB_NS_XMLNS \<equiv> 7"

definition LXB_NS__LAST_ENTRY :: lxb_ns_id where
  "LXB_NS__LAST_ENTRY = 8"

type_synonym lxb_html_tag_category = int

abbreviation (input) LXB_HTML_TAG_CATEGORY_ORDINARY :: lxb_html_tag_category where "LXB_HTML_TAG_CATEGORY_ORDINARY \<equiv> 0x0001"
abbreviation (input) LXB_HTML_TAG_CATEGORY_SPECIAL :: lxb_html_tag_category where "LXB_HTML_TAG_CATEGORY_SPECIAL \<equiv> 0x0002"
abbreviation (input) LXB_HTML_TAG_CATEGORY_FORMATTING :: lxb_html_tag_category where "LXB_HTML_TAG_CATEGORY_FORMATTING \<equiv> 0x0004"
abbreviation (input) LXB_HTML_TAG_CATEGORY_SCOPE :: lxb_html_tag_category where "LXB_HTML_TAG_CATEGORY_SCOPE \<equiv> 0x0008"
abbreviation (input) LXB_HTML_TAG_CATEGORY_SCOPE_LIST_ITEM :: lxb_html_tag_category where "LXB_HTML_TAG_CATEGORY_SCOPE_LIST_ITEM \<equiv> 0x0010"
abbreviation (input) LXB_HTML_TAG_CATEGORY_SCOPE_BUTTON :: lxb_html_tag_category where "LXB_HTML_TAG_CATEGORY_SCOPE_BUTTON \<equiv> 0x0020"
abbreviation (input) LXB_HTML_TAG_CATEGORY_SCOPE_TABLE :: lxb_html_tag_category where "LXB_HTML_TAG_CATEGORY_SCOPE_TABLE \<equiv> 0x0040"
abbreviation (input) LXB_HTML_TAG_CATEGORY_SCOPE_SELECT :: lxb_html_tag_category where "LXB_HTML_TAG_CATEGORY_SCOPE_SELECT \<equiv> 0x0080"

section \<open>Categories\<close>

definition lxb_html_tag_res_cats :: "lxb_html_tag_category list list" where
  "lxb_html_tag_res_cats =
    [[0, 0, 129, 0, 0, 0, 0, 0], [0, 0, 129, 0, 0, 0, 0, 0], [0, 0, 129, 129, 129, 0, 0, 0], [0, 0, 129, 0, 0, 0, 0, 0], [0, 0, 129, 129, 129, 0, 0, 0],
     [0, 0, 129, 0, 0, 0, 0, 0], [0, 0, 132, 0, 0, 0, 0, 0], [0, 0, 129, 0, 0, 0, 0, 0], [0, 0, 129, 0, 0, 0, 0, 0], [0, 0, 130, 0, 0, 0, 0, 0],
     [0, 0, 0, 0, 129, 0, 0, 0], [0, 0, 0, 0, 129, 0, 0, 0], [0, 0, 0, 0, 129, 0, 0, 0], [0, 0, 0, 0, 129, 0, 0, 0], [0, 0, 0, 0, 129, 0, 0, 0],
     [0, 0, 0, 0, 129, 0, 0, 0], [0, 0, 0, 186, 0, 0, 0, 0], [0, 0, 186, 0, 0, 0, 0, 0], [0, 0, 130, 0, 0, 0, 0, 0], [0, 0, 130, 0, 0, 0, 0, 0],
     [0, 0, 130, 0, 0, 0, 0, 0], [0, 0, 129, 0, 0, 0, 0, 0], [0, 0, 132, 0, 0, 0, 0, 0], [0, 0, 130, 0, 0, 0, 0, 0], [0, 0, 130, 0, 0, 0, 0, 0],
     [0, 0, 129, 0, 0, 0, 0, 0], [0, 0, 129, 0, 0, 0, 0, 0], [0, 0, 130, 0, 0, 0, 0, 0], [0, 0, 132, 0, 0, 0, 0, 0], [0, 0, 129, 0, 0, 0, 0, 0],
     [0, 0, 130, 0, 0, 0, 0, 0], [0, 0, 130, 0, 0, 0, 0, 0], [0, 0, 130, 0, 0, 0, 0, 0], [0, 0, 162, 0, 0, 0, 0, 0], [0, 0, 129, 0, 0, 0, 0, 0],
     [0, 0, 186, 0, 0, 0, 0, 0], [0, 0, 130, 0, 0, 0, 0, 0], [0, 0, 129, 0, 0, 0, 0, 0], [0, 0, 0, 0, 129, 0, 0, 0], [0, 0, 132, 0, 0, 0, 0, 0],
     [0, 0, 130, 0, 0, 0, 0, 0], [0, 0, 130, 0, 0, 0, 0, 0], [0, 0, 129, 0, 0, 0, 0, 0], [0, 0, 129, 0, 0, 0, 0, 0], [0, 0, 130, 0, 0, 0, 0, 0],
     [0, 0, 129, 0, 0, 0, 0, 0], [0, 0, 0, 0, 186, 0, 0, 0], [0, 0, 130, 0, 0, 0, 0, 0], [0, 0, 129, 0, 0, 0, 0, 0], [0, 0, 129, 0, 0, 0, 0, 0],
     [0, 0, 130, 0, 0, 0, 0, 0], [0, 0, 130, 0, 0, 0, 0, 0], [0, 0, 130, 0, 0, 0, 0, 0], [0, 0, 130, 0, 0, 0, 0, 0], [0, 0, 132, 0, 0, 0, 0, 0],
     [0, 0, 130, 0, 0, 0, 0, 0], [0, 0, 0, 0, 129, 0, 0, 0], [0, 0, 0, 0, 129, 0, 0, 0], [0, 0, 0, 0, 129, 0, 0, 0], [0, 0, 0, 0, 129, 0, 0, 0],
     [0, 0, 0, 0, 129, 0, 0, 0], [0, 0, 0, 0, 129, 0, 0, 0], [0, 0, 0, 0, 129, 0, 0, 0], [0, 0, 0, 0, 129, 0, 0, 0], [0, 0, 0, 0, 129, 0, 0, 0],
     [0, 0, 0, 0, 129, 0, 0, 0], [0, 0, 0, 0, 129, 0, 0, 0], [0, 0, 0, 0, 129, 0, 0, 0], [0, 0, 0, 0, 129, 0, 0, 0], [0, 0, 0, 0, 129, 0, 0, 0],
     [0, 0, 0, 0, 129, 0, 0, 0], [0, 0, 0, 0, 129, 0, 0, 0], [0, 0, 0, 0, 129, 0, 0, 0], [0, 0, 0, 0, 129, 0, 0, 0], [0, 0, 0, 0, 129, 0, 0, 0],
     [0, 0, 0, 0, 129, 0, 0, 0], [0, 0, 0, 0, 129, 0, 0, 0], [0, 0, 0, 0, 129, 0, 0, 0], [0, 0, 0, 0, 129, 0, 0, 0], [0, 0, 0, 0, 129, 0, 0, 0],
     [0, 0, 0, 0, 129, 0, 0, 0], [0, 0, 130, 0, 0, 0, 0, 0], [0, 0, 130, 0, 0, 0, 0, 0], [0, 0, 130, 0, 0, 0, 0, 0], [0, 0, 132, 0, 0, 0, 0, 0],
     [0, 0, 130, 0, 0, 0, 0, 0], [0, 0, 0, 0, 186, 0, 0, 0], [0, 0, 130, 0, 0, 0, 0, 0], [0, 0, 130, 0, 0, 0, 0, 0], [0, 0, 130, 0, 0, 0, 0, 0],
     [0, 0, 0, 0, 129, 0, 0, 0], [0, 0, 130, 0, 0, 0, 0, 0], [0, 0, 130, 0, 0, 0, 0, 0], [0, 0, 130, 0, 0, 0, 0, 0], [0, 0, 130, 0, 0, 0, 0, 0],
     [0, 0, 130, 0, 0, 0, 0, 0], [0, 0, 130, 0, 0, 0, 0, 0], [0, 0, 130, 0, 0, 0, 0, 0], [0, 0, 130, 0, 0, 0, 0, 0], [0, 0, 130, 0, 0, 0, 0, 0],
     [0, 0, 130, 0, 0, 0, 0, 0], [0, 0, 250, 0, 0, 0, 0, 0], [0, 0, 132, 0, 0, 0, 0, 0], [0, 0, 130, 0, 0, 0, 0, 0], [0, 0, 130, 0, 0, 0, 0, 0],
     [0, 0, 130, 0, 0, 0, 0, 0], [0, 0, 130, 0, 0, 0, 0, 0], [0, 0, 129, 0, 0, 0, 0, 0], [0, 0, 129, 0, 0, 0, 0, 0], [0, 0, 129, 0, 0, 0, 0, 0],
     [0, 0, 130, 0, 0, 0, 0, 0], [0, 0, 129, 0, 0, 0, 0, 0], [0, 0, 129, 0, 0, 0, 0, 0], [0, 0, 130, 0, 0, 0, 0, 0], [0, 0, 0, 0, 129, 0, 0, 0],
     [0, 0, 130, 0, 0, 0, 0, 0], [0, 0, 130, 0, 0, 0, 0, 0], [0, 0, 130, 0, 0, 0, 0, 0], [0, 0, 0, 1, 0, 0, 0, 0], [0, 0, 129, 0, 0, 0, 0, 0],
     [0, 0, 129, 0, 0, 0, 0, 0], [0, 0, 186, 0, 0, 0, 0, 0], [0, 0, 0, 129, 0, 0, 0, 0], [0, 0, 130, 0, 0, 0, 0, 0], [0, 0, 130, 0, 0, 0, 0, 0],
     [0, 0, 129, 0, 0, 0, 0, 0], [0, 0, 0, 129, 0, 0, 0, 0], [0, 0, 0, 1, 0, 0, 0, 0], [0, 0, 0, 186, 0, 0, 0, 0], [0, 0, 0, 186, 0, 0, 0, 0],
     [0, 0, 0, 186, 0, 0, 0, 0], [0, 0, 0, 186, 0, 0, 0, 0], [0, 0, 0, 186, 0, 0, 0, 0], [0, 0, 129, 0, 0, 0, 0, 0], [0, 0, 130, 0, 0, 0, 0, 0],
     [0, 0, 129, 0, 0, 0, 0, 0], [0, 0, 132, 0, 0, 0, 0, 0], [0, 0, 130, 0, 0, 0, 0, 0], [0, 0, 130, 0, 0, 0, 0, 0], [0, 0, 130, 0, 0, 0, 0, 0],
     [0, 0, 186, 0, 0, 0, 0, 0], [0, 0, 146, 0, 0, 0, 0, 0], [0, 0, 1, 0, 0, 0, 0, 0], [0, 0, 1, 0, 0, 0, 0, 0], [0, 0, 129, 0, 0, 0, 0, 0],
     [0, 0, 130, 0, 0, 0, 0, 0], [0, 0, 130, 0, 0, 0, 0, 0], [0, 0, 0, 0, 129, 0, 0, 0], [0, 0, 129, 0, 0, 0, 0, 0], [0, 0, 130, 0, 0, 0, 0, 0],
     [0, 0, 130, 0, 0, 0, 0, 0], [0, 0, 129, 0, 0, 0, 0, 0], [0, 0, 129, 0, 0, 0, 0, 0], [0, 0, 0, 0, 129, 0, 0, 0], [0, 0, 129, 0, 0, 0, 0, 0],
     [0, 0, 129, 0, 0, 0, 0, 0], [0, 0, 129, 0, 0, 0, 0, 0], [0, 0, 129, 0, 0, 0, 0, 0], [0, 0, 129, 0, 0, 0, 0, 0], [0, 0, 132, 0, 0, 0, 0, 0],
     [0, 0, 129, 0, 0, 0, 0, 0], [0, 0, 130, 0, 0, 0, 0, 0], [0, 0, 130, 0, 0, 0, 0, 0], [0, 0, 130, 0, 0, 0, 0, 0], [0, 0, 129, 0, 0, 0, 0, 0],
     [0, 0, 132, 0, 0, 0, 0, 0], [0, 0, 130, 0, 0, 0, 0, 0], [0, 0, 129, 0, 0, 0, 0, 0], [0, 0, 129, 0, 0, 0, 0, 0], [0, 0, 132, 0, 0, 0, 0, 0],
     [0, 0, 132, 0, 0, 0, 0, 0], [0, 0, 130, 0, 0, 0, 0, 0], [0, 0, 129, 0, 0, 0, 0, 0], [0, 0, 130, 0, 0, 0, 0, 0], [0, 0, 129, 0, 0, 0, 0, 0],
     [0, 0, 0, 0, 129, 0, 0, 0], [0, 0, 250, 0, 0, 0, 0, 0], [0, 0, 130, 0, 0, 0, 0, 0], [0, 0, 186, 0, 0, 0, 0, 0], [0, 0, 250, 0, 0, 0, 0, 0],
     [0, 0, 130, 0, 0, 0, 0, 0], [0, 0, 0, 0, 129, 0, 0, 0], [0, 0, 130, 0, 0, 0, 0, 0], [0, 0, 186, 0, 0, 0, 0, 0], [0, 0, 130, 0, 0, 0, 0, 0],
     [0, 0, 129, 0, 0, 0, 0, 0], [0, 0, 130, 0, 186, 0, 0, 0], [0, 0, 130, 0, 0, 0, 0, 0], [0, 0, 130, 0, 0, 0, 0, 0], [0, 0, 132, 0, 0, 0, 0, 0],
     [0, 0, 132, 0, 0, 0, 0, 0], [0, 0, 146, 0, 0, 0, 0, 0], [0, 0, 129, 0, 0, 0, 0, 0], [0, 0, 129, 0, 0, 0, 0, 0], [0, 0, 130, 0, 0, 0, 0, 0],
     [0, 0, 130, 0, 0, 0, 0, 0]]"

definition lxb_html_tag_is_category :: "lxb_tag_id \<Rightarrow> lxb_ns_id \<Rightarrow> lxb_html_tag_category \<Rightarrow> bool" where
  "lxb_html_tag_is_category tag_id ns cat =
    (if tag_id < LXB_TAG__LAST_ENTRY \<and> ns < LXB_NS__LAST_ENTRY then (lxb_html_tag_res_cats ! tag_id) ! ns AND cat \<noteq> 0
     else (LXB_HTML_TAG_CATEGORY_ORDINARY OR LXB_HTML_TAG_CATEGORY_SCOPE_SELECT) AND cat \<noteq> 0)"

definition lxb_html_tag_is_void :: "lxb_tag_id \<Rightarrow> bool" where
  "lxb_html_tag_is_void tag_id \<longleftrightarrow> tag_id \<in> {LXB_TAG_AREA, LXB_TAG_BASE, LXB_TAG_BR, LXB_TAG_COL, LXB_TAG_EMBED, LXB_TAG_HR, LXB_TAG_IMG,
     LXB_TAG_INPUT, LXB_TAG_LINK, LXB_TAG_META, LXB_TAG_PARAM, LXB_TAG_SOURCE, LXB_TAG_TRACK, LXB_TAG_WBR}"

section \<open>The lists of the standard\<close>

text \<open>The elements at which the search in the different scopes stops, and the formatting elements.\<close>

definition std_scope :: "(lxb_tag_id \<times> lxb_ns_id) list" where
  "std_scope =
    [(LXB_TAG_APPLET, LXB_NS_HTML), (LXB_TAG_CAPTION, LXB_NS_HTML), (LXB_TAG_HTML, LXB_NS_HTML), (LXB_TAG_TABLE, LXB_NS_HTML), (LXB_TAG_TD, LXB_NS_HTML),
     (LXB_TAG_TH, LXB_NS_HTML), (LXB_TAG_MARQUEE, LXB_NS_HTML), (LXB_TAG_OBJECT, LXB_NS_HTML), (LXB_TAG_TEMPLATE, LXB_NS_HTML), (LXB_TAG_MI, LXB_NS_MATH),
     (LXB_TAG_MO, LXB_NS_MATH), (LXB_TAG_MN, LXB_NS_MATH), (LXB_TAG_MS, LXB_NS_MATH), (LXB_TAG_MTEXT, LXB_NS_MATH), (LXB_TAG_ANNOTATION_XML, LXB_NS_MATH),
     (LXB_TAG_FOREIGNOBJECT, LXB_NS_SVG), (LXB_TAG_DESC, LXB_NS_SVG), (LXB_TAG_TITLE, LXB_NS_SVG)]"

definition std_list_item_scope :: "(lxb_tag_id \<times> lxb_ns_id) list" where
  "std_list_item_scope = std_scope @ [(LXB_TAG_OL, LXB_NS_HTML), (LXB_TAG_UL, LXB_NS_HTML)]"

definition std_button_scope :: "(lxb_tag_id \<times> lxb_ns_id) list" where
  "std_button_scope = std_scope @ [(LXB_TAG_BUTTON, LXB_NS_HTML)]"

definition std_table_scope :: "(lxb_tag_id \<times> lxb_ns_id) list" where
  "std_table_scope = [(LXB_TAG_HTML, LXB_NS_HTML), (LXB_TAG_TABLE, LXB_NS_HTML), (LXB_TAG_TEMPLATE, LXB_NS_HTML)]"

definition std_formatting :: "(lxb_tag_id \<times> lxb_ns_id) list" where
  "std_formatting = map (\<lambda>t. (t, LXB_NS_HTML))
    [LXB_TAG_A, LXB_TAG_B, LXB_TAG_BIG, LXB_TAG_CODE, LXB_TAG_EM, LXB_TAG_FONT, LXB_TAG_I, LXB_TAG_NOBR, LXB_TAG_S,
     LXB_TAG_SMALL, LXB_TAG_STRIKE, LXB_TAG_STRONG, LXB_TAG_TT, LXB_TAG_U]"

text \<open>The entries of the table with a category, row by row.\<close>

definition cats_with :: "lxb_html_tag_category \<Rightarrow> (lxb_tag_id \<times> lxb_ns_id) list" where
  "cats_with c = concat (map (\<lambda>(t, r). map (\<lambda>(n, v). (t, n)) (filter (\<lambda>(n, v). v AND c \<noteq> 0) (List.enumerate 0 r)))
    (List.enumerate 0 lxb_html_tag_res_cats))"

lemma cats_rows:
  "length lxb_html_tag_res_cats = LXB_TAG__LAST_ENTRY" "t < LXB_TAG__LAST_ENTRY \<Longrightarrow> length (lxb_html_tag_res_cats ! t) = LXB_NS__LAST_ENTRY"
proof -
  have "list_all (\<lambda>r. length r = LXB_NS__LAST_ENTRY) lxb_html_tag_res_cats" by code_simp
  moreover show *: "length lxb_html_tag_res_cats = LXB_TAG__LAST_ENTRY"
    by (simp add: lxb_html_tag_res_cats_def LXB_TAG__LAST_ENTRY_def)
  ultimately show "t < LXB_TAG__LAST_ENTRY \<Longrightarrow> length (lxb_html_tag_res_cats ! t) = LXB_NS__LAST_ENTRY"
    by (simp add: list_all_length)
qed

lemma cats_with_iff:
  assumes "(LXB_HTML_TAG_CATEGORY_ORDINARY OR LXB_HTML_TAG_CATEGORY_SCOPE_SELECT) AND c = 0"
  shows "lxb_html_tag_is_category t n c \<longleftrightarrow> (t, n) \<in> set (cats_with c)"
proof -
  have "(t, n) \<in> set (cats_with c) \<longleftrightarrow>
      t < LXB_TAG__LAST_ENTRY \<and> n < length (lxb_html_tag_res_cats ! t) \<and> (lxb_html_tag_res_cats ! t) ! n AND c \<noteq> 0"
    using cats_rows(1) by (force simp: cats_with_def in_set_enumerate_eq image_iff)
  then show ?thesis using assms cats_rows(2) by (auto simp: lxb_html_tag_is_category_def)
qed

lemma category_bits:
  "(LXB_HTML_TAG_CATEGORY_ORDINARY OR LXB_HTML_TAG_CATEGORY_SCOPE_SELECT) AND LXB_HTML_TAG_CATEGORY_SCOPE = 0"
  "(LXB_HTML_TAG_CATEGORY_ORDINARY OR LXB_HTML_TAG_CATEGORY_SCOPE_SELECT) AND LXB_HTML_TAG_CATEGORY_SCOPE_LIST_ITEM = 0"
  "(LXB_HTML_TAG_CATEGORY_ORDINARY OR LXB_HTML_TAG_CATEGORY_SCOPE_SELECT) AND LXB_HTML_TAG_CATEGORY_SCOPE_BUTTON = 0"
  "(LXB_HTML_TAG_CATEGORY_ORDINARY OR LXB_HTML_TAG_CATEGORY_SCOPE_SELECT) AND LXB_HTML_TAG_CATEGORY_SCOPE_TABLE = 0"
  "(LXB_HTML_TAG_CATEGORY_ORDINARY OR LXB_HTML_TAG_CATEGORY_SCOPE_SELECT) AND LXB_HTML_TAG_CATEGORY_FORMATTING = 0"
  by simp_all

lemma cats_found:
  "cats_with LXB_HTML_TAG_CATEGORY_SCOPE = [(16, 3), (17, 2), (35, 2), (46, 4), (86, 4), (101, 2), (121, 2), (128, 3), (129, 3), (130, 3), (131, 3), (132, 3), (140, 2), (176, 2), (178, 2), (179, 2), (183, 2), (186, 4)]"
  "cats_with LXB_HTML_TAG_CATEGORY_SCOPE_LIST_ITEM = [(16, 3), (17, 2), (35, 2), (46, 4), (86, 4), (101, 2), (121, 2), (128, 3), (129, 3), (130, 3), (131, 3), (132, 3), (140, 2), (141, 2), (176, 2), (178, 2), (179, 2), (183, 2), (186, 4), (191, 2)]"
  "cats_with LXB_HTML_TAG_CATEGORY_SCOPE_BUTTON = [(16, 3), (17, 2), (33, 2), (35, 2), (46, 4), (86, 4), (101, 2), (121, 2), (128, 3), (129, 3), (130, 3), (131, 3), (132, 3), (140, 2), (176, 2), (178, 2), (179, 2), (183, 2), (186, 4)]"
  "cats_with LXB_HTML_TAG_CATEGORY_SCOPE_TABLE = [(101, 2), (176, 2), (179, 2)]"
  "cats_with LXB_HTML_TAG_CATEGORY_FORMATTING = [(6, 2), (22, 2), (28, 2), (39, 2), (54, 2), (84, 2), (102, 2), (136, 2), (159, 2), (165, 2), (169, 2), (170, 2), (189, 2), (190, 2)]"
  by code_simp+

lemma categories_table:
  "lxb_html_tag_is_category t n LXB_HTML_TAG_CATEGORY_SCOPE \<longleftrightarrow> (t, n) \<in> set std_scope"
  "lxb_html_tag_is_category t n LXB_HTML_TAG_CATEGORY_SCOPE_LIST_ITEM \<longleftrightarrow> (t, n) \<in> set std_list_item_scope"
  "lxb_html_tag_is_category t n LXB_HTML_TAG_CATEGORY_SCOPE_BUTTON \<longleftrightarrow> (t, n) \<in> set std_button_scope"
  "lxb_html_tag_is_category t n LXB_HTML_TAG_CATEGORY_SCOPE_TABLE \<longleftrightarrow> (t, n) \<in> set std_table_scope"
  "lxb_html_tag_is_category t n LXB_HTML_TAG_CATEGORY_FORMATTING \<longleftrightarrow> (t, n) \<in> set std_formatting"
  unfolding cats_with_iff [OF category_bits(1)] cats_with_iff [OF category_bits(2)] cats_with_iff [OF category_bits(3)]
    cats_with_iff [OF category_bits(4)] cats_with_iff [OF category_bits(5)] cats_found
  by (auto simp: std_scope_def std_list_item_scope_def std_button_scope_def std_table_scope_def std_formatting_def)

text \<open>C24: The table of categories agrees with the standard: for every tag and name space, known or not, the four scopes end at
  exactly the listed elements, and exactly the listed elements are formatting elements.\<close>

theorem categories_standard:
  "(lxb_html_tag_is_category t n LXB_HTML_TAG_CATEGORY_SCOPE \<longleftrightarrow> (t, n) \<in> set std_scope) \<and>
   (lxb_html_tag_is_category t n LXB_HTML_TAG_CATEGORY_SCOPE_LIST_ITEM \<longleftrightarrow> (t, n) \<in> set std_list_item_scope) \<and>
   (lxb_html_tag_is_category t n LXB_HTML_TAG_CATEGORY_SCOPE_BUTTON \<longleftrightarrow> (t, n) \<in> set std_button_scope) \<and>
   (lxb_html_tag_is_category t n LXB_HTML_TAG_CATEGORY_SCOPE_TABLE \<longleftrightarrow> (t, n) \<in> set std_table_scope) \<and>
   (lxb_html_tag_is_category t n LXB_HTML_TAG_CATEGORY_FORMATTING \<longleftrightarrow> (t, n) \<in> set std_formatting)"
  by (simp add: categories_table)

end
