(* ===== verification/Tree_Stack.thy ===== *)
theory Tree_Stack
  imports Tree_Tags Dom_Element
begin

text \<open>
  The two stacks of the tree construction: the open elements (\<open>html/tree/open_elements.c\<close>, \<open>.h\<close>) and the active
  formatting elements (\<open>html/tree/active_formatting.c\<close>, \<open>.h\<close>), growing arrays of pointers to nodes, and the searches
  in them (\<open>html/tree.c\<close>).

  The loops of these functions have three forms, which are \<open>scan_down\<close>, \<open>scan_up\<close> and \<open>pop_until\<close>; a
  loop reads cells of the array and nodes, and reading outside of either is undefined.  The second half gives
  their meaning on the list of the entries.
\<close>

section \<open>The object\<close>

datatype insertion_mode =
    M_initial | M_before_html | M_before_head | M_in_head | M_in_head_noscript | M_after_head | M_in_body | M_text
  | M_in_table | M_in_table_text | M_in_caption | M_in_column_group | M_in_table_body | M_in_row | M_in_cell
  | M_in_select | M_in_select_in_table | M_in_template | M_after_body | M_in_frameset | M_after_frameset
  | M_after_after_body | M_after_after_frameset

datatype append_attr_hook = Adjust_attributes_mathml | Adjust_attributes_svg

text \<open>\<open>contents\<close> gives for a template element the fragment of its contents, \<open>doc_head\<close> is \<open>document->head\<close>.\<close>

record html_tree =
  tree_doc :: lxb_dom_document
  contents :: "addr \<rightharpoonup> addr"
  doc_head :: "addr option"
  doc_complete :: bool
  fragment :: "addr option"
  form :: "addr option"
  open_elements :: lexbor_array
  active_formatting :: lexbor_array
  template_insertion_modes :: "insertion_mode list"
  tree_errors :: "nat list"
  foster_parenting :: bool
  frameset_ok :: bool
  scripting :: bool
  mode :: insertion_mode
  original_mode :: "insertion_mode option"
  before_append_attr :: "append_attr_hook option"
  tree_status :: lxb_status

abbreviation tree_nodes :: "html_tree \<Rightarrow> dom_heap" where
  "tree_nodes t \<equiv> nodes (tree_doc t)"

section \<open>Loops over a stack\<close>

lemma unat_pred: "(w :: size_t) \<noteq> 0 \<Longrightarrow> unat (w - 1) = unat w - 1"
  by (simp add: unat_sub word_le_nat_alt unat_gt_0 Suc_leI)

lemma unat_pred_less [termination_simp]: "(w :: size_t) \<noteq> 0 \<Longrightarrow> unat (w - 1) < unat w"
  by (simp add: unat_pred unat_gt_0)

lemma unat_succ: "i < (n :: size_t) \<Longrightarrow> unat (i + 1) = Suc (unat i)"
  using unsigned_less [of n, where 'a = nat] unat_plus_if_fits [of i 1] by (simp add: word_less_nat_alt)

text \<open>\<open>while (idx != 0) { idx--; node = list[idx]; ... }\<close>: \<open>f\<close> returns, or goes on with \<^const>\<open>None\<close>.\<close>

function scan_down :: "(size_t \<Rightarrow> addr \<Rightarrow> 'r option option) \<Rightarrow> lexbor_array \<Rightarrow> size_t \<Rightarrow> 'r option option" where
  "scan_down f a idx =
    (if idx = 0 then Some None
     else do {
       let idx = idx - 1;
       node \<leftarrow> cell_get a idx;
       r \<leftarrow> f idx node;
       (case r of Some v \<Rightarrow> Some (Some v) | None \<Rightarrow> scan_down f a idx)
     })"
  by pat_completeness auto
termination by (relation "measure (\<lambda>(_, _, idx). unat idx)") (auto simp: unat_pred_less)

text \<open>\<open>for (i = 0; i < length; i++) { node = list[i]; ... }\<close>\<close>

function scan_up :: "(size_t \<Rightarrow> addr \<Rightarrow> 'r option option) \<Rightarrow> lexbor_array \<Rightarrow> size_t \<Rightarrow> 'r option option" where
  "scan_up f a i =
    (if i < ar_length a then do {
       node \<leftarrow> cell_get a i;
       r \<leftarrow> f i node;
       (case r of Some v \<Rightarrow> Some (Some v) | None \<Rightarrow> scan_up f a (i + 1))
     }
     else Some None)"
  by pat_completeness auto
termination
  by (relation "measure (\<lambda>(_, a, i). unat (ar_length a) - unat i)")
    (auto simp: unat_succ word_less_nat_alt)

text \<open>\<open>while (length != 0) { length--; node = list[length]; if (...) { if (exclude == false) { length++; } break; } }\<close>\<close>

function pop_until :: "(addr \<Rightarrow> bool option) \<Rightarrow> bool \<Rightarrow> lexbor_array \<Rightarrow> lexbor_array option" where
  "pop_until P exclude a =
    (if ar_length a = 0 then Some a
     else do {
       let a = a\<lparr> ar_length := ar_length a - 1 \<rparr>;
       node \<leftarrow> cell_get a (ar_length a);
       b \<leftarrow> P node;
       if b then Some (if exclude then a else a\<lparr> ar_length := ar_length a + 1 \<rparr>)
       else pop_until P exclude a
     })"
  by pat_completeness auto
termination by (relation "measure (\<lambda>(_, _, a). unat (ar_length a))") (auto simp: unat_pred_less)

declare scan_down.simps [simp del] scan_up.simps [simp del] pop_until.simps [simp del]


section \<open>Following pointers\<close>

definition tree_deref :: "html_tree \<Rightarrow> addr \<Rightarrow> lxb_dom_node option" where
  "tree_deref t x = (if x = NULL then None else tree_nodes t x)"

text \<open>What a search returns: the pointer, or NULL.\<close>

definition or_null :: "addr option \<Rightarrow> addr" where
  "or_null r = (case r of None \<Rightarrow> NULL | Some x \<Rightarrow> x)"

definition lxb_html_tree_node_is :: "html_tree \<Rightarrow> addr \<Rightarrow> lxb_tag_id \<Rightarrow> bool option" where
  "lxb_html_tree_node_is t node tag_id = do { n \<leftarrow> tree_deref t node; Some (nd_tag_id n = tag_id \<and> nd_ns n = LXB_NS_HTML) }"

text \<open>\<open>node->tag_id == tag_id && node->ns == ns\<close>, and the \<open>switch\<close> over tags in the name space of HTML.\<close>

definition node_has :: "html_tree \<Rightarrow> lxb_tag_id \<Rightarrow> lxb_ns_id \<Rightarrow> addr \<Rightarrow> bool option" where
  "node_has t tag_id ns node = do { n \<leftarrow> tree_deref t node; Some (nd_tag_id n = tag_id \<and> nd_ns n = ns) }"

definition node_among :: "html_tree \<Rightarrow> lxb_tag_id set \<Rightarrow> addr \<Rightarrow> bool option" where
  "node_among t tags node = do { n \<leftarrow> tree_deref t node; Some (nd_tag_id n \<in> tags \<and> nd_ns n = LXB_NS_HTML) }"

abbreviation (input) H123456 :: "lxb_tag_id set" where
  "H123456 \<equiv> {LXB_TAG_H1, LXB_TAG_H2, LXB_TAG_H3, LXB_TAG_H4, LXB_TAG_H5, LXB_TAG_H6}"

section \<open>Operations on a stack\<close>

text \<open>\<open>memmove\<close> is asked for \<open>length - len\<close> cells from the one behind the entry on, one more than there are.\<close>

definition stack_remove_by_node :: "lexbor_array \<Rightarrow> addr \<Rightarrow> lexbor_array option" where
  "stack_remove_by_node a node = do {
     r \<leftarrow> scan_down (\<lambda>len x. Some (if x = node then Some len else None)) a (ar_length a);
     (case r of
        None \<Rightarrow> Some a
      | Some len \<Rightarrow> do {
          a \<leftarrow> cells_move a len (len + 1) (8 * (ar_length a - len));
          Some (a\<lparr> ar_length := ar_length a - 1 \<rparr>)
        })
   }"

text \<open>The result and \<open>*return_pos\<close>.\<close>

definition stack_find_by_node :: "lexbor_array \<Rightarrow> addr \<Rightarrow> (bool \<times> size_t) option" where
  "stack_find_by_node a node = do {
     r \<leftarrow> scan_up (\<lambda>i x. Some (if x = node then Some i else None)) a 0;
     Some (case r of None \<Rightarrow> (False, 0) | Some i \<Rightarrow> (True, i))
   }"

definition stack_find_by_node_reverse :: "lexbor_array \<Rightarrow> addr \<Rightarrow> (bool \<times> size_t) option" where
  "stack_find_by_node_reverse a node = do {
     r \<leftarrow> scan_down (\<lambda>i x. Some (if x = node then Some i else None)) a (ar_length a);
     Some (case r of None \<Rightarrow> (False, 0) | Some i \<Rightarrow> (True, i))
   }"

section \<open>Open elements\<close>

definition lxb_html_tree_open_elements_first :: "html_tree \<Rightarrow> addr option" where
  "lxb_html_tree_open_elements_first t = lexbor_array_get (open_elements t) 0"

definition lxb_html_tree_open_elements_get :: "html_tree \<Rightarrow> size_t \<Rightarrow> addr option" where
  "lxb_html_tree_open_elements_get t idx = lexbor_array_get (open_elements t) idx"

definition lxb_html_tree_open_elements_push :: "(size_t \<Rightarrow> bool) \<Rightarrow> html_tree \<Rightarrow> addr \<Rightarrow> (html_tree \<times> lxb_status) option" where
  "lxb_html_tree_open_elements_push alloc t node = do {
     (a, st) \<leftarrow> lexbor_array_push alloc (open_elements t) node;
     Some (t\<lparr> open_elements := a \<rparr>, st)
   }"

definition lxb_html_tree_open_elements_pop :: "html_tree \<Rightarrow> (html_tree \<times> addr) option" where
  "lxb_html_tree_open_elements_pop t = do {
     (a, x) \<leftarrow> lexbor_array_pop (open_elements t);
     Some (t\<lparr> open_elements := a \<rparr>, x)
   }"

definition lxb_html_tree_open_elements_insert_after :: "(size_t \<Rightarrow> bool) \<Rightarrow> html_tree \<Rightarrow> addr \<Rightarrow> size_t \<Rightarrow> (html_tree \<times> lxb_status) option" where
  "lxb_html_tree_open_elements_insert_after alloc t node idx = do {
     (a, st) \<leftarrow> lexbor_array_insert alloc (open_elements t) (idx + 1) node;
     Some (t\<lparr> open_elements := a \<rparr>, st)
   }"

definition lxb_html_tree_open_elements_remove_by_node :: "html_tree \<Rightarrow> addr \<Rightarrow> html_tree option" where
  "lxb_html_tree_open_elements_remove_by_node t node = do {
     a \<leftarrow> stack_remove_by_node (open_elements t) node;
     Some (t\<lparr> open_elements := a \<rparr>)
   }"

definition lxb_html_tree_open_elements_pop_until_tag_id :: "html_tree \<Rightarrow> lxb_tag_id \<Rightarrow> lxb_ns_id \<Rightarrow> bool \<Rightarrow> html_tree option" where
  "lxb_html_tree_open_elements_pop_until_tag_id t tag_id ns exclude = do {
     a \<leftarrow> pop_until (node_has t tag_id ns) exclude (open_elements t);
     Some (t\<lparr> open_elements := a \<rparr>)
   }"

definition lxb_html_tree_open_elements_pop_until_h123456 :: "html_tree \<Rightarrow> html_tree option" where
  "lxb_html_tree_open_elements_pop_until_h123456 t = do {
     a \<leftarrow> pop_until (node_among t H123456) True (open_elements t);
     Some (t\<lparr> open_elements := a \<rparr>)
   }"

definition lxb_html_tree_open_elements_pop_until_td_th :: "html_tree \<Rightarrow> html_tree option" where
  "lxb_html_tree_open_elements_pop_until_td_th t = do {
     a \<leftarrow> pop_until (node_among t {LXB_TAG_TD, LXB_TAG_TH}) True (open_elements t);
     Some (t\<lparr> open_elements := a \<rparr>)
   }"

definition lxb_html_tree_open_elements_pop_until_node :: "html_tree \<Rightarrow> addr \<Rightarrow> bool \<Rightarrow> html_tree option" where
  "lxb_html_tree_open_elements_pop_until_node t node exclude = do {
     a \<leftarrow> pop_until (\<lambda>x. Some (x = node)) exclude (open_elements t);
     Some (t\<lparr> open_elements := a \<rparr>)
   }"

definition lxb_html_tree_open_elements_pop_until :: "html_tree \<Rightarrow> size_t \<Rightarrow> bool \<Rightarrow> html_tree" where
  "lxb_html_tree_open_elements_pop_until t idx exclude =
    (let a = (open_elements t)\<lparr> ar_length := idx \<rparr> in
     t\<lparr> open_elements := (if exclude then a else a\<lparr> ar_length := ar_length a + 1 \<rparr>) \<rparr>)"

definition lxb_html_tree_open_elements_find_by_node :: "html_tree \<Rightarrow> addr \<Rightarrow> (bool \<times> size_t) option" where
  "lxb_html_tree_open_elements_find_by_node t node = stack_find_by_node (open_elements t) node"

definition lxb_html_tree_open_elements_find_by_node_reverse :: "html_tree \<Rightarrow> addr \<Rightarrow> (bool \<times> size_t) option" where
  "lxb_html_tree_open_elements_find_by_node_reverse t node = stack_find_by_node_reverse (open_elements t) node"

definition lxb_html_tree_open_elements_find :: "html_tree \<Rightarrow> lxb_tag_id \<Rightarrow> lxb_ns_id \<Rightarrow> (addr \<times> size_t) option" where
  "lxb_html_tree_open_elements_find t tag_id ns = do {
     r \<leftarrow> scan_up (\<lambda>i x. do { b \<leftarrow> node_has t tag_id ns x; Some (if b then Some (x, i) else None) }) (open_elements t) 0;
     Some (case r of None \<Rightarrow> (NULL, 0) | Some p \<Rightarrow> p)
   }"

definition lxb_html_tree_open_elements_find_reverse :: "html_tree \<Rightarrow> lxb_tag_id \<Rightarrow> lxb_ns_id \<Rightarrow> (addr \<times> size_t) option" where
  "lxb_html_tree_open_elements_find_reverse t tag_id ns = do {
     r \<leftarrow> scan_down (\<lambda>i x. do { b \<leftarrow> node_has t tag_id ns x; Some (if b then Some (x, i) else None) })
       (open_elements t) (ar_length (open_elements t));
     Some (case r of None \<Rightarrow> (NULL, 0) | Some p \<Rightarrow> p)
   }"

definition lxb_html_tree_current_node :: "html_tree \<Rightarrow> addr option" where
  "lxb_html_tree_current_node t =
    (if ar_length (open_elements t) = 0 then Some NULL else cell_get (open_elements t) (ar_length (open_elements t) - 1))"

definition lxb_html_tree_adjusted_current_node :: "html_tree \<Rightarrow> addr option" where
  "lxb_html_tree_adjusted_current_node t =
    (case fragment t of
       Some f \<Rightarrow> if ar_length (open_elements t) = 1 then Some f else lxb_html_tree_current_node t
     | None \<Rightarrow> lxb_html_tree_current_node t)"

section \<open>Active formatting elements\<close>

text \<open>The address of the static object; no node is there.\<close>

definition lxb_html_tree_active_formatting_marker :: addr where
  "lxb_html_tree_active_formatting_marker = 1"

definition lxb_html_tree_active_formatting_up_to_last_marker :: "html_tree \<Rightarrow> html_tree option" where
  "lxb_html_tree_active_formatting_up_to_last_marker t = do {
     a \<leftarrow> pop_until (\<lambda>x. Some (x = lxb_html_tree_active_formatting_marker)) True (active_formatting t);
     Some (t\<lparr> active_formatting := a \<rparr>)
   }"

definition lxb_html_tree_active_formatting_remove_by_node :: "html_tree \<Rightarrow> addr \<Rightarrow> html_tree option" where
  "lxb_html_tree_active_formatting_remove_by_node t node = do {
     a \<leftarrow> stack_remove_by_node (active_formatting t) node;
     Some (t\<lparr> active_formatting := a \<rparr>)
   }"

definition lxb_html_tree_active_formatting_find_by_node :: "html_tree \<Rightarrow> addr \<Rightarrow> (bool \<times> size_t) option" where
  "lxb_html_tree_active_formatting_find_by_node t node = stack_find_by_node (active_formatting t) node"

definition lxb_html_tree_active_formatting_find_by_node_reverse :: "html_tree \<Rightarrow> addr \<Rightarrow> (bool \<times> size_t) option" where
  "lxb_html_tree_active_formatting_find_by_node_reverse t node = stack_find_by_node_reverse (active_formatting t) node"

definition lxb_html_tree_active_formatting_current_node :: "html_tree \<Rightarrow> addr option" where
  "lxb_html_tree_active_formatting_current_node t =
    (if ar_length (active_formatting t) = 0 then Some NULL else cell_get (active_formatting t) (ar_length (active_formatting t) - 1))"

definition lxb_html_tree_active_formatting_first :: "html_tree \<Rightarrow> addr option" where
  "lxb_html_tree_active_formatting_first t = lexbor_array_get (active_formatting t) 0"

definition lxb_html_tree_active_formatting_get :: "html_tree \<Rightarrow> size_t \<Rightarrow> addr option" where
  "lxb_html_tree_active_formatting_get t idx = lexbor_array_get (active_formatting t) idx"

definition lxb_html_tree_active_formatting_push :: "(size_t \<Rightarrow> bool) \<Rightarrow> html_tree \<Rightarrow> addr \<Rightarrow> (html_tree \<times> lxb_status) option" where
  "lxb_html_tree_active_formatting_push alloc t node = do {
     (a, st) \<leftarrow> lexbor_array_push alloc (active_formatting t) node;
     Some (t\<lparr> active_formatting := a \<rparr>, st)
   }"

definition lxb_html_tree_active_formatting_pop :: "html_tree \<Rightarrow> (html_tree \<times> addr) option" where
  "lxb_html_tree_active_formatting_pop t = do {
     (a, x) \<leftarrow> lexbor_array_pop (active_formatting t);
     Some (t\<lparr> active_formatting := a \<rparr>, x)
   }"

definition lxb_html_tree_active_formatting_push_marker :: "(size_t \<Rightarrow> bool) \<Rightarrow> html_tree \<Rightarrow> (html_tree \<times> lxb_status) option" where
  "lxb_html_tree_active_formatting_push_marker alloc t =
    lxb_html_tree_active_formatting_push alloc t lxb_html_tree_active_formatting_marker"

definition lxb_html_tree_active_formatting_insert :: "(size_t \<Rightarrow> bool) \<Rightarrow> html_tree \<Rightarrow> addr \<Rightarrow> size_t \<Rightarrow> (html_tree \<times> lxb_status) option" where
  "lxb_html_tree_active_formatting_insert alloc t node idx = do {
     (a, st) \<leftarrow> lexbor_array_insert alloc (active_formatting t) idx node;
     Some (t\<lparr> active_formatting := a \<rparr>, st)
   }"

definition lxb_html_tree_active_formatting_remove :: "html_tree \<Rightarrow> size_t \<Rightarrow> html_tree option" where
  "lxb_html_tree_active_formatting_remove t idx = do {
     a \<leftarrow> lexbor_array_delete (active_formatting t) idx 1;
     Some (t\<lparr> active_formatting := a \<rparr>)
   }"

text \<open>The result and \<open>*return_idx\<close>, when it is set.\<close>

definition lxb_html_tree_active_formatting_between_last_marker :: "html_tree \<Rightarrow> lxb_tag_id \<Rightarrow> (addr \<times> size_t option) option" where
  "lxb_html_tree_active_formatting_between_last_marker t tag_idx = do {
     r \<leftarrow> scan_down (\<lambda>idx x.
         if x = lxb_html_tree_active_formatting_marker then Some (Some (NULL, None))
         else do { b \<leftarrow> node_has t tag_idx LXB_NS_HTML x; Some (if b then Some (x, Some idx) else None) })
       (active_formatting t) (ar_length (active_formatting t));
     Some (case r of None \<Rightarrow> (NULL, None) | Some p \<Rightarrow> p)
   }"


section \<open>Meaning on lists\<close>

lemma arr_cell:
  assumes "arr_inv a" "unat i < length (arr_abs a)"
  shows "cell_get a i = Some (arr_abs a ! unat i)"
proof -
  obtain l where l: "ar_list a = Some l" "length (arr_abs a) \<le> length l" "take (length (arr_abs a)) l = map Some (arr_abs a)"
    using assms(1) by (rule arr_invE)
  have "l ! unat i = take (length (arr_abs a)) l ! unat i" using assms(2) by simp
  with l assms(2) show ?thesis by (simp add: cell_get_def)
qed

lemma arr_len: "arr_inv a \<Longrightarrow> unat (ar_length a) = length (arr_abs a)"
  by (rule arr_invE)

lemma arr_bound: "arr_inv a \<Longrightarrow> length (arr_abs a) \<le> unat (ar_size a)" "arr_inv a \<Longrightarrow> unat (ar_size a) \<le> 2 ^ 60"
  by (auto elim!: arr_invE)

lemma arr_shorten:
  assumes "arr_inv a" "unat n \<le> length (arr_abs a)"
  shows "arr_inv (a\<lparr> ar_length := n \<rparr>)" "arr_abs (a\<lparr> ar_length := n \<rparr>) = take (unat n) (arr_abs a)"
proof -
  obtain l where l: "ar_list a = Some l" "length l = unat (ar_size a)" "unat (ar_size a) \<le> 2 ^ 60"
    "take (length (arr_abs a)) l = map Some (arr_abs a)"
    using assms(1) by (rule arr_invE)
  have "take (unat n) l = take (unat n) (take (length (arr_abs a)) l)" using assms(2) by simp
  then have "take (unat n) l = map Some (take (unat n) (arr_abs a))" unfolding l(4) by (simp add: take_map)
  then have "arr_inv (a\<lparr> ar_length := n \<rparr>) \<and> arr_abs (a\<lparr> ar_length := n \<rparr>) = take (unat n) (arr_abs a)"
    using l assms(2) by (intro arr_invI [of _ l]) (simp_all add: min_absorb2)
  then show "arr_inv (a\<lparr> ar_length := n \<rparr>)" "arr_abs (a\<lparr> ar_length := n \<rparr>) = take (unat n) (arr_abs a)" by auto
qed

text \<open>The first answer.\<close>

fun first_some :: "('a \<Rightarrow> 'r option) \<Rightarrow> 'a list \<Rightarrow> 'r option" where
  "first_some g [] = None"
| "first_some g (x # xs) = (case g x of Some r \<Rightarrow> Some r | None \<Rightarrow> first_some g xs)"

lemma first_some_append: "first_some g (xs @ ys) = (case first_some g xs of Some r \<Rightarrow> Some r | None \<Rightarrow> first_some g ys)"
  by (induction xs) (auto split: option.splits)

lemma first_some_None: "first_some g xs = None \<longleftrightarrow> (\<forall>x \<in> set xs. g x = None)"
  by (induction xs) (auto split: option.splits)

lemma first_some_Some: "first_some g xs = Some r \<longleftrightarrow> (\<exists>ys x zs. xs = ys @ x # zs \<and> g x = Some r \<and> (\<forall>y \<in> set ys. g y = None))"
proof (induction xs)
  case (Cons x xs)
  show ?case
  proof
    assume L: "first_some g (x # xs) = Some r"
    show "\<exists>ys y zs. x # xs = ys @ y # zs \<and> g y = Some r \<and> (\<forall>y \<in> set ys. g y = None)"
    proof (cases "g x")
      case None
      then obtain ys y zs where "xs = ys @ y # zs" "g y = Some r" "\<forall>y \<in> set ys. g y = None" using L Cons.IH by auto
      then show ?thesis using None by (intro exI [of _ "x # ys"]) auto
    next
      case (Some v)
      then show ?thesis using L by (intro exI [of _ "[]"] exI [of _ x] exI [of _ xs]) simp
    qed
  next
    assume "\<exists>ys y zs. x # xs = ys @ y # zs \<and> g y = Some r \<and> (\<forall>y \<in> set ys. g y = None)"
    then obtain ys y zs where "x # xs = ys @ y # zs" "g y = Some r" "\<forall>y \<in> set ys. g y = None" by blast
    then show "first_some g (x # xs) = Some r" using Cons.IH by (cases ys) auto
  qed
qed simp

lemma first_some_cong: "(\<And>x. x \<in> set xs \<Longrightarrow> g x = h x) \<Longrightarrow> first_some g xs = first_some h xs"
  by (induction xs) (auto split: option.split)

lemma scan_down_list:
  assumes "arr_inv a" "unat idx \<le> length (arr_abs a)"
    and "\<And>i. i < unat idx \<Longrightarrow> f (of_nat i) (arr_abs a ! i) = Some (g i)"
  shows "scan_down f a idx = Some (first_some g (rev [0..<unat idx]))"
  using assms
proof (induction f a idx rule: scan_down.induct)
  case (1 f a idx)
  show ?case
  proof (cases "idx = 0")
    case True
    then show ?thesis by (simp add: scan_down.simps)
  next
    case False
    then have p: "unat idx = Suc (unat (idx - 1))" using unat_pred [OF False] by (simp add: unat_gt_0)
    then have i: "unat (idx - 1) < length (arr_abs a)" using "1.prems"(2) by simp
    have "f (idx - 1) (arr_abs a ! unat (idx - 1)) = Some (g (unat (idx - 1)))"
      using "1.prems"(3) [of "unat (idx - 1)"] p by simp
    moreover have "scan_down f a (idx - 1) = Some (first_some g (rev [0..<unat (idx - 1)]))" if "g (unat (idx - 1)) = None"
      using "1.IH" [OF False refl arr_cell [OF "1.prems"(1) i]] "1.prems" p calculation that by simp
    ultimately show ?thesis
      using False p arr_cell [OF "1.prems"(1) i] by (subst scan_down.simps) (simp split: option.split)
  qed
qed


lemma scan_up_list:
  assumes "arr_inv a" "unat i \<le> length (arr_abs a)"
    and "\<And>j. unat i \<le> j \<Longrightarrow> j < length (arr_abs a) \<Longrightarrow> f (of_nat j) (arr_abs a ! j) = Some (g j)"
  shows "scan_up f a i = Some (first_some g [unat i..<length (arr_abs a)])"
  using assms
proof (induction f a i rule: scan_up.induct)
  case (1 f a i)
  have len: "unat (ar_length a) = length (arr_abs a)" using "1.prems"(1) by (rule arr_len)
  show ?case
  proof (cases "i < ar_length a")
    case True
    then have i: "unat i < length (arr_abs a)" using len by (simp add: word_less_nat_alt)
    have s: "unat (i + 1) = Suc (unat i)" using True by (rule unat_succ)
    note c = arr_cell [OF "1.prems"(1) i]
    have f: "f i (arr_abs a ! unat i) = Some (g (unat i))" using "1.prems"(3) [of "unat i"] i by simp
    moreover have "scan_up f a (i + 1) = Some (first_some g [unat (i + 1)..<length (arr_abs a)])" if "g (unat i) = None"
      using "1.IH" [OF True c] "1.prems" i s f that by simp
    moreover have "[unat i..<length (arr_abs a)] = unat i # [Suc (unat i)..<length (arr_abs a)]" using i by (rule upt_conv_Cons)
    ultimately show ?thesis using True c s by (subst scan_up.simps) (simp split: option.split)
  next
    case False
    then show ?thesis using len by (subst scan_up.simps) (simp add: word_less_nat_alt)
  qed
qed

lemma first_some_map: "first_some g (map f xs) = first_some (\<lambda>x. g (f x)) xs"
  by (induction xs) (auto split: option.split)

text \<open>When the answers depend on the entries only.\<close>

lemma first_some_entries: "first_some (\<lambda>i. g (xs ! i)) (rev [0..<length xs]) = first_some g (rev xs)"
proof -
  have "rev xs = map ((!) xs) (rev [0..<length xs])" by (simp add: rev_map [symmetric] map_nth)
  then show ?thesis by (metis first_some_map)
qed

lemma scan_down_entries:
  assumes "arr_inv a" "\<And>i x. x \<in> set (arr_abs a) \<Longrightarrow> f i x = Some (g x)"
  shows "scan_down f a (ar_length a) = Some (first_some g (rev (arr_abs a)))"
proof -
  have "scan_down f a (ar_length a) = Some (first_some (\<lambda>i. g (arr_abs a ! i)) (rev [0..<unat (ar_length a)]))"
    using assms arr_len [OF assms(1)] by (intro scan_down_list) auto
  then show ?thesis by (simp add: arr_len [OF assms(1)] first_some_entries)
qed

text \<open>The last entry with a property, and what is below it.\<close>

definition cut_at :: "('a \<Rightarrow> bool) \<Rightarrow> 'a list \<Rightarrow> 'a list" where
  "cut_at p xs = rev (dropWhile (\<lambda>x. \<not> p x) (rev xs))"

lemma cut_at_simps [simp]:
  "cut_at p [] = []" "p x \<Longrightarrow> cut_at p (xs @ [x]) = xs @ [x]" "\<not> p x \<Longrightarrow> cut_at p (xs @ [x]) = cut_at p xs"
  by (simp_all add: cut_at_def)

lemma cut_at_split: "p x \<Longrightarrow> \<forall>z \<in> set zs. \<not> p z \<Longrightarrow> cut_at p (ys @ x # zs) = ys @ [x]"
  by (simp add: cut_at_def, subst dropWhile_append2) auto

lemma cut_at_none: "\<forall>z \<in> set zs. \<not> p z \<Longrightarrow> cut_at p zs = []"
  by (simp add: cut_at_def)

lemma cut_at_append: "p x \<Longrightarrow> cut_at p (ys @ x # zs) = ys @ x # cut_at p zs"
  by (induction zs rule: rev_induct) (simp_all add: cut_at_def)

lemma cut_at_empty: "cut_at p zs = [] \<longleftrightarrow> (\<forall>z \<in> set zs. \<not> p z)"
  by (simp add: cut_at_def)

lemma set_cut_at: "x \<in> set (cut_at p xs) \<Longrightarrow> x \<in> set xs"
  by (auto simp: cut_at_def dest: set_dropWhileD)

lemma pop_until_list:
  assumes "arr_inv a" "\<And>x. x \<in> set (arr_abs a) \<Longrightarrow> P x = Some (p x)"
  shows "wp (pop_until P exclude a) (\<lambda>a'. arr_inv a' \<and> arr_abs a' = (if exclude then butlast (cut_at p (arr_abs a)) else cut_at p (arr_abs a)) \<and>
    ar_size a' = ar_size a)"
  using assms
proof (induction P exclude a rule: pop_until.induct)
  case (1 P exclude a)
  have len: "unat (ar_length a) = length (arr_abs a)" using "1.prems"(1) by (rule arr_len)
  show ?case
  proof (cases "ar_length a = 0")
    case True
    then show ?thesis using len "1.prems"(1) by (subst pop_until.simps) simp
  next
    case False
    let ?n = "ar_length a - 1"
    let ?a = "a\<lparr> ar_length := ?n \<rparr>"
    have n: "unat (ar_length a) = Suc (unat ?n)" using unat_pred [OF False] False by (simp add: unat_gt_0)
    then obtain ys x where xs: "arr_abs a = ys @ [x]" "length ys = unat ?n"
      using len by (cases "arr_abs a" rule: rev_cases) auto
    have sh: "arr_inv ?a" "arr_abs ?a = ys" using arr_shorten [OF "1.prems"(1), of ?n] xs by auto
    have "cell_get a ?n = Some x" using arr_cell [OF "1.prems"(1), of ?n] xs by (simp add: nth_append)
    then have c: "cell_get ?a ?n = Some x" by (simp add: cell_get_def)
    have px: "P x = Some (p x)" using "1.prems"(2) xs(1) by simp
    show ?thesis
    proof (cases "p x")
      case True
      have "?a\<lparr> ar_length := ?n + 1 \<rparr> = a" by simp
      then show ?thesis using True False c px sh xs "1.prems"(1) by (subst pop_until.simps) (auto simp: Let_def)
    next
      case np: False
      have "wp (pop_until P exclude ?a) (\<lambda>a'. arr_inv a' \<and>
          arr_abs a' = (if exclude then butlast (cut_at p (arr_abs ?a)) else cut_at p (arr_abs ?a)) \<and> ar_size a' = ar_size ?a)"
        using c px np sh "1.prems" xs(1) by (intro "1.IH" [OF False refl]) auto
      then show ?thesis using False c px np sh xs by (subst pop_until.simps) (cases exclude; simp add: Let_def)
    qed
  qed
qed


text \<open>The index of the last occurrence.\<close>

lemma last_index:
  "first_some (\<lambda>i. if xs ! i = x then Some (of_nat i :: size_t) else None) (rev [0..<length xs]) =
     (if x \<in> set xs then Some (of_nat (length xs - 1 - length (takeWhile (\<lambda>y. y \<noteq> x) (rev xs)))) else None)"
proof (induction xs rule: rev_induct)
  case (snoc y ys)
  have "first_some (\<lambda>i. if (ys @ [y]) ! i = x then Some (of_nat i :: size_t) else None) (rev [0..<length ys]) =
      first_some (\<lambda>i. if ys ! i = x then Some (of_nat i) else None) (rev [0..<length ys])"
    by (rule first_some_cong) (simp add: nth_append)
  with snoc show ?case by simp
qed simp


lemma last_index_split: "x \<notin> set zs \<Longrightarrow>
  first_some (\<lambda>i. if (ys @ x # zs) ! i = x then Some (of_nat i :: size_t) else None) (rev [0..<length (ys @ x # zs)]) = Some (of_nat (length ys))"
  unfolding last_index by (simp, subst takeWhile_append2) auto

lemma find_last:
  assumes "arr_inv a"
  shows "scan_down (\<lambda>i y. Some (if y = x then Some i else None)) a (ar_length a) =
    Some (first_some (\<lambda>i. if arr_abs a ! i = x then Some (of_nat i) else None) (rev [0..<length (arr_abs a)]))"
  using scan_down_list [OF assms, of "ar_length a" "\<lambda>i y. Some (if y = x then Some i else None)"] arr_len [OF assms] by simp

lemma unat_index: "arr_inv a \<Longrightarrow> i \<le> length (arr_abs a) \<Longrightarrow> unat (of_nat i :: size_t) = i"
proof -
  assume a: "arr_inv a" "i \<le> length (arr_abs a)"
  have "i < 2 ^ 64" using a(2) arr_bound [OF a(1)] by simp
  then show ?thesis by (simp add: unat_of_nat)
qed

lemma remove_absent: "arr_inv a \<Longrightarrow> x \<notin> set (arr_abs a) \<Longrightarrow> stack_remove_by_node a x = Some a"
  by (simp add: stack_remove_by_node_def find_last last_index)

text \<open>The sizes that \<open>memmove\<close> is called with.\<close>

lemma remove_sizes:
  assumes "arr_inv a" "arr_abs a = ys @ x # zs"
  defines "i \<equiv> of_nat (length ys) :: size_t"
  shows "unat i = length ys" "unat (i + 1) = Suc (length ys)" "cells (8 * (ar_length a - i)) = Suc (length zs)"
proof -
  note l = arr_bound [OF assms(1)]
  have len: "unat (ar_length a) = Suc (length ys + length zs)" using arr_len [OF assms(1)] assms(2) by simp
  show i: "unat i = length ys" using unat_index [OF assms(1), of "length ys"] assms(2) i_def by simp
  then have less: "i < ar_length a" using len by (simp add: word_less_nat_alt)
  then show "unat (i + 1) = Suc (length ys)" using unat_succ i by simp
  have "unat (ar_length a - i) = Suc (length zs)" using less i len by (simp add: unat_sub less_imp_le)
  then show "cells (8 * (ar_length a - i)) = Suc (length zs)" using l len assms(2) by (subst cells_fit) auto
qed

lemma remove_full:
  assumes "arr_inv a" "x \<in> set (arr_abs a)" "ar_length a = ar_size a"
  shows "stack_remove_by_node a x = None"
proof -
  obtain ys zs where xs: "arr_abs a = ys @ x # zs" "x \<notin> set zs" using assms(2) by (meson split_list_last)
  obtain l where l: "ar_list a = Some l" "length l = unat (ar_size a)" using assms(1) by (rule arr_invE)
  have "length l = Suc (length ys + length zs)" using l(2) arr_len [OF assms(1)] assms(3) xs(1) by simp
  then show ?thesis
    using remove_sizes [OF assms(1) xs(1)] l(1) last_index_split [OF xs(2), of ys] xs(1)
    by (simp add: stack_remove_by_node_def find_last [OF assms(1)] cells_move_def Let_def del: length_append)
qed

lemma remove_present:
  assumes "arr_inv a" "arr_abs a = ys @ x # zs" "x \<notin> set zs" "length (arr_abs a) < unat (ar_size a)"
  shows "wp (stack_remove_by_node a x) (\<lambda>a'. arr_inv a' \<and> arr_abs a' = ys @ zs \<and> ar_size a' = ar_size a)"
proof -
  obtain l where l: "ar_list a = Some l" "length l = unat (ar_size a)" "unat (ar_size a) \<le> 2 ^ 60"
    "take (length (arr_abs a)) l = map Some (arr_abs a)"
    using assms(1) by (rule arr_invE)
  let ?i = "of_nat (length ys) :: size_t" and ?n = "length ys + length zs"
  let ?l = "take (length ys) l @ take (Suc (length zs)) (drop (Suc (length ys)) l) @ drop (length ys + Suc (length zs)) l"
  note sz = remove_sizes [OF assms(1,2)]
  have len: "unat (ar_length a) = Suc ?n" using arr_len [OF assms(1)] assms(2) by simp
  then have "ar_length a \<noteq> 0" by auto
  then have len1: "unat (ar_length a - 1) = ?n" using unat_pred len by simp
  have "take (length (arr_abs a)) l = map Some ys @ Some x # map Some zs" using l(4) assms(2) by simp
  moreover obtain r where "l = take (length (arr_abs a)) l @ r" by (metis append_take_drop_id)
  ultimately have split: "l = map Some ys @ Some x # map Some zs @ r" by simp
  then have "take ?n ?l = map Some (ys @ zs)" by simp
  then have "arr_inv (a\<lparr> ar_list := Some ?l, ar_length := ar_length a - 1 \<rparr>) \<and>
      arr_abs (a\<lparr> ar_list := Some ?l, ar_length := ar_length a - 1 \<rparr>) = ys @ zs"
    using l(2,3) len1 assms(2,4) by (intro arr_invI_update) (auto simp: min_def)
  moreover have "Suc (Suc ?n) \<le> unat (ar_size a)" using assms(2,4) by simp
  ultimately show ?thesis
    using sz l(1,2) last_index_split [OF assms(3), of ys] assms(2)
    by (simp add: stack_remove_by_node_def find_last [OF assms(1)] cells_move_def Let_def del: length_append)
qed

end
