(* ===== verification/Tree_Scope.thy ===== *)
theory Tree_Scope
  imports Tree_Stack
begin

text \<open>
  The functions of \<open>html/tree.c\<close> that look at the stack of open elements and shorten it: scopes, implied end tags, the choice
  of the insertion mode, closing a paragraph; and the place where a node is inserted.

  The theorems say what they compute on the list of the open elements.
\<close>

section \<open>Scopes\<close>

text \<open>The common loop: an element that \<open>p\<close> accepts is returned, one at which the scope ends yields NULL.\<close>

definition in_scope_by :: "html_tree \<Rightarrow> (addr \<Rightarrow> lxb_dom_node \<Rightarrow> bool) \<Rightarrow> (lxb_dom_node \<Rightarrow> bool) \<Rightarrow> addr option" where
  "in_scope_by t p stop = do {
     r \<leftarrow> scan_down (\<lambda>_ node. do {
         n \<leftarrow> tree_deref t node;
         Some (if p node n then Some node else if stop n then Some NULL else None)
       }) (open_elements t) (ar_length (open_elements t));
     Some (or_null r)
   }"

definition lxb_html_tree_element_in_scope :: "html_tree \<Rightarrow> lxb_tag_id \<Rightarrow> lxb_ns_id \<Rightarrow> lxb_html_tag_category \<Rightarrow> addr option" where
  "lxb_html_tree_element_in_scope t tag_id ns ct =
    in_scope_by t (\<lambda>_ n. nd_tag_id n = tag_id \<and> nd_ns n = ns) (\<lambda>n. lxb_html_tag_is_category (nd_tag_id n) (nd_ns n) ct)"

definition lxb_html_tree_element_in_scope_by_node :: "html_tree \<Rightarrow> addr \<Rightarrow> lxb_html_tag_category \<Rightarrow> addr option" where
  "lxb_html_tree_element_in_scope_by_node t by_node ct =
    in_scope_by t (\<lambda>node _. node = by_node) (\<lambda>n. lxb_html_tag_is_category (nd_tag_id n) (nd_ns n) ct)"

text \<open>The next three pass the name space of HTML to \<open>lxb_html_tag_is_category\<close>, and not that of the element.\<close>

definition lxb_html_tree_element_in_scope_h123456 :: "html_tree \<Rightarrow> addr option" where
  "lxb_html_tree_element_in_scope_h123456 t =
    in_scope_by t (\<lambda>_ n. nd_tag_id n \<in> H123456 \<and> nd_ns n = LXB_NS_HTML)
      (\<lambda>n. lxb_html_tag_is_category (nd_tag_id n) LXB_NS_HTML LXB_HTML_TAG_CATEGORY_SCOPE)"

definition lxb_html_tree_element_in_scope_tbody_thead_tfoot :: "html_tree \<Rightarrow> addr option" where
  "lxb_html_tree_element_in_scope_tbody_thead_tfoot t =
    in_scope_by t (\<lambda>_ n. nd_tag_id n \<in> {LXB_TAG_TBODY, LXB_TAG_THEAD, LXB_TAG_TFOOT} \<and> nd_ns n = LXB_NS_HTML)
      (\<lambda>n. lxb_html_tag_is_category (nd_tag_id n) LXB_NS_HTML LXB_HTML_TAG_CATEGORY_SCOPE_TABLE)"

definition lxb_html_tree_element_in_scope_td_th :: "html_tree \<Rightarrow> addr option" where
  "lxb_html_tree_element_in_scope_td_th t =
    in_scope_by t (\<lambda>_ n. nd_tag_id n \<in> {LXB_TAG_TD, LXB_TAG_TH} \<and> nd_ns n = LXB_NS_HTML)
      (\<lambda>n. lxb_html_tag_is_category (nd_tag_id n) LXB_NS_HTML LXB_HTML_TAG_CATEGORY_SCOPE_TABLE)"

definition lxb_html_tree_check_scope_element :: "html_tree \<Rightarrow> bool option" where
  "lxb_html_tree_check_scope_element t = do {
     r \<leftarrow> scan_up (\<lambda>_ node. do {
         n \<leftarrow> tree_deref t node;
         Some (if nd_tag_id n \<in> {LXB_TAG_DD, LXB_TAG_DT, LXB_TAG_LI, LXB_TAG_OPTGROUP, LXB_TAG_OPTION, LXB_TAG_P, LXB_TAG_RB, LXB_TAG_RP,
             LXB_TAG_RT, LXB_TAG_RTC, LXB_TAG_TBODY, LXB_TAG_TD, LXB_TAG_TFOOT, LXB_TAG_TH, LXB_TAG_THEAD, LXB_TAG_TR, LXB_TAG_BODY,
             LXB_TAG_HTML} then Some True else None)
       }) (open_elements t) 0;
     Some (r = Some True)
   }"

section \<open>Implied end tags\<close>

abbreviation (input) implied_tags :: "lxb_tag_id set" where
  "implied_tags \<equiv> {LXB_TAG_DD, LXB_TAG_DT, LXB_TAG_LI, LXB_TAG_OPTGROUP, LXB_TAG_OPTION, LXB_TAG_P, LXB_TAG_RB, LXB_TAG_RP, LXB_TAG_RT, LXB_TAG_RTC}"

abbreviation (input) implied_tags_thoroughly :: "lxb_tag_id set" where
  "implied_tags_thoroughly \<equiv> {LXB_TAG_CAPTION, LXB_TAG_COLGROUP, LXB_TAG_DD, LXB_TAG_DT, LXB_TAG_LI, LXB_TAG_OPTGROUP, LXB_TAG_OPTION, LXB_TAG_P,
     LXB_TAG_RB, LXB_TAG_RP, LXB_TAG_RT, LXB_TAG_RTC, LXB_TAG_TBODY, LXB_TAG_TD, LXB_TAG_TFOOT, LXB_TAG_TH, LXB_TAG_THEAD, LXB_TAG_TR}"

lemma pop_shorter [termination_simp]: "lexbor_array_pop a = Some (a', x) \<Longrightarrow> ar_length a \<noteq> 0 \<Longrightarrow> unat (ar_length a') < unat (ar_length a)"
  by (cases "cell_get (a\<lparr> ar_length := ar_length a - 1 \<rparr>) (ar_length a - 1)") (auto simp: lexbor_array_pop_def Let_def unat_pred_less)

text \<open>The loop of the two functions, with the tags of its \<open>switch\<close>.\<close>

function implied_loop :: "(addr \<Rightarrow> lxb_dom_node option) \<Rightarrow> lxb_tag_id set \<Rightarrow> lxb_tag_id \<Rightarrow> lxb_ns_id \<Rightarrow> lexbor_array \<Rightarrow> lexbor_array option" where
  "implied_loop deref tags ex_tag ex_ns a =
    (if ar_length a = 0 then Some a
     else do {
       node \<leftarrow> cell_get a (ar_length a - 1);
       n \<leftarrow> deref node;
       if nd_tag_id n \<in> tags then
         if nd_tag_id n = ex_tag \<and> nd_ns n = ex_ns then Some a
         else do {
           (a, _) \<leftarrow> lexbor_array_pop a;
           implied_loop deref tags ex_tag ex_ns a
         }
       else Some a
     })"
  by pat_completeness auto
termination by (relation "measure (\<lambda>(_, _, _, _, a). unat (ar_length a))") (auto simp: pop_shorter)

declare implied_loop.simps [simp del]

definition lxb_html_tree_generate_implied_end_tags :: "html_tree \<Rightarrow> lxb_tag_id \<Rightarrow> lxb_ns_id \<Rightarrow> html_tree option" where
  "lxb_html_tree_generate_implied_end_tags t ex_tag ex_ns = do {
     a \<leftarrow> implied_loop (tree_deref t) implied_tags ex_tag ex_ns (open_elements t);
     Some (t\<lparr> open_elements := a \<rparr>)
   }"

definition lxb_html_tree_generate_all_implied_end_tags_thoroughly :: "html_tree \<Rightarrow> lxb_tag_id \<Rightarrow> lxb_ns_id \<Rightarrow> html_tree option" where
  "lxb_html_tree_generate_all_implied_end_tags_thoroughly t ex_tag ex_ns = do {
     a \<leftarrow> implied_loop (tree_deref t) implied_tags_thoroughly ex_tag ex_ns (open_elements t);
     Some (t\<lparr> open_elements := a \<rparr>)
   }"

section \<open>Errors, closing a paragraph\<close>

abbreviation (input) LXB_HTML_RULES_ERROR_UNELINOPELST :: nat where "LXB_HTML_RULES_ERROR_UNELINOPELST \<equiv> 22"
abbreviation (input) LXB_HTML_RULES_ERROR_MIELINOPELST :: nat where "LXB_HTML_RULES_ERROR_MIELINOPELST \<equiv> 23"
abbreviation (input) LXB_HTML_RULES_ERROR_MIELINSC :: nat where "LXB_HTML_RULES_ERROR_MIELINSC \<equiv> 25"

text \<open>\<open>ok\<close> tells whether the list of errors has room or can grow.\<close>

definition lxb_html_tree_parse_error :: "(html_tree \<Rightarrow> bool) \<Rightarrow> html_tree \<Rightarrow> nat \<Rightarrow> html_tree" where
  "lxb_html_tree_parse_error ok t i = (if ok t then t\<lparr> tree_errors := tree_errors t @ [i] \<rparr> else t)"

definition lxb_html_tree_close_p_element :: "(html_tree \<Rightarrow> bool) \<Rightarrow> html_tree \<Rightarrow> html_tree option" where
  "lxb_html_tree_close_p_element ok t = do {
     t \<leftarrow> lxb_html_tree_generate_implied_end_tags t LXB_TAG_P LXB_NS_HTML;
     node \<leftarrow> lxb_html_tree_current_node t;
     b \<leftarrow> lxb_html_tree_node_is t node LXB_TAG_P;
     let t = (if \<not> b then lxb_html_tree_parse_error ok t LXB_HTML_RULES_ERROR_UNELINOPELST else t);
     lxb_html_tree_open_elements_pop_until_tag_id t LXB_TAG_P LXB_NS_HTML True
   }"

section \<open>The insertion mode\<close>

text \<open>The current template insertion mode; storing the NULL of an empty list in \<open>tree->mode\<close> is undefined here, since the mode is
  called next.\<close>

definition lxb_html_tree_template_insertion_current :: "html_tree \<Rightarrow> insertion_mode option" where
  "lxb_html_tree_template_insertion_current t =
    (if template_insertion_modes t = [] then None else Some (last (template_insertion_modes t)))"

text \<open>The inner loop for a \<open>select\<close> element, from its index on downwards.\<close>

definition select_mode :: "html_tree \<Rightarrow> size_t \<Rightarrow> insertion_mode option" where
  "select_mode t idx = do {
     r \<leftarrow> scan_down (\<lambda>_ ancestor_node. do {
         b \<leftarrow> lxb_html_tree_node_is t ancestor_node LXB_TAG_TEMPLATE;
         if b then Some (Some M_in_select)
         else do {
           b \<leftarrow> lxb_html_tree_node_is t ancestor_node LXB_TAG_TABLE;
           Some (if b then Some M_in_select_in_table else None)
         }
       }) (open_elements t) idx;
     Some (case r of None \<Rightarrow> M_in_select | Some m \<Rightarrow> m)
   }"

text \<open>What one turn of the loop decides: the new mode, or \<^const>\<open>None\<close> to go on.\<close>

definition reset_step :: "html_tree \<Rightarrow> size_t \<Rightarrow> addr \<Rightarrow> insertion_mode option option" where
  "reset_step t idx node =
    (let is_last = (idx = 0);
         node = (case fragment t of Some f \<Rightarrow> if is_last then f else node | None \<Rightarrow> node)
     in do {
       n \<leftarrow> tree_deref t node;
       let tag = nd_tag_id n;
       if nd_ns n \<noteq> LXB_NS_HTML then Some (if is_last then Some M_in_body else None)
       else if tag = LXB_TAG_SELECT then
         (if is_last then Some (Some M_in_select) else do { m \<leftarrow> select_mode t idx; Some (Some m) })
       else if tag \<in> {LXB_TAG_TD, LXB_TAG_TH} \<and> \<not> is_last then Some (Some M_in_cell)
       else if tag = LXB_TAG_TR then Some (Some M_in_row)
       else if tag \<in> {LXB_TAG_TBODY, LXB_TAG_TFOOT, LXB_TAG_THEAD} then Some (Some M_in_table_body)
       else if tag = LXB_TAG_CAPTION then Some (Some M_in_caption)
       else if tag = LXB_TAG_COLGROUP then Some (Some M_in_column_group)
       else if tag = LXB_TAG_TABLE then Some (Some M_in_table)
       else if tag = LXB_TAG_TEMPLATE then do { m \<leftarrow> lxb_html_tree_template_insertion_current t; Some (Some m) }
       else if tag = LXB_TAG_HEAD \<and> \<not> is_last then Some (Some M_in_head)
       else if tag = LXB_TAG_BODY then Some (Some M_in_body)
       else if tag = LXB_TAG_FRAMESET then Some (Some M_in_frameset)
       else if tag = LXB_TAG_HTML then Some (Some (if doc_head t = None then M_before_head else M_after_head))
       else Some (if is_last then Some M_in_body else None)
     })"

definition lxb_html_tree_reset_insertion_mode_appropriately :: "html_tree \<Rightarrow> html_tree option" where
  "lxb_html_tree_reset_insertion_mode_appropriately t = do {
     r \<leftarrow> scan_down (reset_step t) (open_elements t) (ar_length (open_elements t));
     Some (case r of None \<Rightarrow> t | Some m \<Rightarrow> t\<lparr> mode := m \<rparr>)
   }"

section \<open>The place of a new node\<close>

datatype insertion_position = Position_child | Position_before

abbreviation (input) foster_tags :: "lxb_tag_id set" where
  "foster_tags \<equiv> {LXB_TAG_TABLE, LXB_TAG_TBODY, LXB_TAG_TFOOT, LXB_TAG_THEAD, LXB_TAG_TR}"

text \<open>\<open>override_target\<close> is NULL when the current node is meant.  The result is the node and the position.\<close>

definition lxb_html_tree_appropriate_place_inserting_node :: "html_tree \<Rightarrow> addr \<Rightarrow> (addr \<times> insertion_position) option" where
  "lxb_html_tree_appropriate_place_inserting_node t override_target = do {
     target \<leftarrow> (if override_target \<noteq> NULL then Some override_target else lxb_html_tree_current_node t);
     foster \<leftarrow> (if foster_parenting t then do {
         n \<leftarrow> tree_deref t target;
         Some (nd_ns n = LXB_NS_HTML \<and> nd_tag_id n \<in> foster_tags)
       } else Some False);
     (if foster then do {
        (last_temp, last_temp_idx) \<leftarrow> lxb_html_tree_open_elements_find_reverse t LXB_TAG_TEMPLATE LXB_NS_HTML;
        (last_table, last_table_idx) \<leftarrow> lxb_html_tree_open_elements_find_reverse t LXB_TAG_TABLE LXB_NS_HTML;
        if last_temp \<noteq> NULL \<and> (last_table = NULL \<or> last_temp_idx > last_table_idx) then do {
          c \<leftarrow> contents t last_temp;
          Some (Inl (c, Position_child))
        }
        else if last_table = NULL then do {
          x \<leftarrow> lxb_html_tree_open_elements_first t;
          Some (Inr (x, Position_child))
        }
        else do {
          n \<leftarrow> tree_deref t last_table;
          if nd_parent n \<noteq> None then Some (Inr (last_table, Position_before))
          else do {
            x \<leftarrow> lxb_html_tree_open_elements_get t (last_table_idx - 1);
            Some (Inr (x, Position_child))
          }
        }
      } else Some (Inr (target, Position_child))) \<bind> (\<lambda>r.
     (case r of
        Inl p \<Rightarrow> Some p
      | Inr (x, ipos) \<Rightarrow>
          if x = NULL then Some (NULL, ipos)
          else do {
            b \<leftarrow> lxb_html_tree_node_is t x LXB_TAG_TEMPLATE;
            if b then do { c \<leftarrow> contents t x; Some (c, ipos) } else Some (x, ipos)
          }))
   }"

definition lxb_html_tree_insert_node :: "dom_heap \<Rightarrow> addr \<Rightarrow> addr \<Rightarrow> insertion_position \<Rightarrow> dom_heap option" where
  "lxb_html_tree_insert_node h to node ipos =
    (if ipos = Position_before then lxb_dom_node_insert_before h to node else lxb_dom_node_insert_child h to node)"

end
