(* ===== verification/Tree_Scope_Spec.thy ===== *)
theory Tree_Scope_Spec
  imports Tree_Scope
begin

text \<open>
  What the functions of \<open>Tree_Scope\<close> compute on the list of the open elements, compared with the algorithms of the
  HTML standard.
\<close>

section \<open>The open elements\<close>

abbreviation opened :: "html_tree \<Rightarrow> addr list" where
  "opened t \<equiv> arr_abs (open_elements t)"

text \<open>All entries of the stack are nodes.\<close>

definition open_ok :: "html_tree \<Rightarrow> bool" where
  "open_ok t \<longleftrightarrow> arr_inv (open_elements t) \<and> (\<forall>x \<in> set (opened t). x \<noteq> NULL \<and> x \<in> dom (tree_nodes t))"

definition elem_of :: "html_tree \<Rightarrow> addr \<Rightarrow> lxb_tag_id \<times> lxb_ns_id" where
  "elem_of t x = (nd_tag_id (the (tree_nodes t x)), nd_ns (the (tree_nodes t x)))"

lemma open_deref: "open_ok t \<Longrightarrow> x \<in> set (opened t) \<Longrightarrow> tree_deref t x = Some (the (tree_nodes t x))"
  by (auto simp: open_ok_def tree_deref_def)

lemma open_okD: "open_ok t \<Longrightarrow> arr_inv (open_elements t)"
  by (simp add: open_ok_def)

lemma open_ok_sub:
  "open_ok t \<Longrightarrow> arr_inv a \<Longrightarrow> set (arr_abs a) \<subseteq> set (opened t) \<Longrightarrow> open_ok (t\<lparr> open_elements := a \<rparr>)"
  by (auto simp: open_ok_def)

lemma elem_of_open [simp]: "elem_of (t\<lparr> open_elements := a \<rparr>) = elem_of t"
  by (simp add: elem_of_def fun_eq_iff)

lemma current_node_open:
  assumes "open_ok t"
  shows "lxb_html_tree_current_node t = Some (if opened t = [] then NULL else last (opened t))"
proof -
  note len = arr_len [OF open_okD [OF assms]]
  show ?thesis
  proof (cases "opened t = []")
    case True
    then show ?thesis using len by (simp add: lxb_html_tree_current_node_def unat_eq_zero)
  next
    case False
    then have n: "ar_length (open_elements t) \<noteq> 0" using len by auto
    then have "unat (ar_length (open_elements t) - 1) = length (opened t) - 1" using unat_pred len by simp
    then show ?thesis
      using False n arr_cell [OF open_okD [OF assms], of "ar_length (open_elements t) - 1"]
      by (simp add: lxb_html_tree_current_node_def last_conv_nth)
  qed
qed

section \<open>Scopes\<close>

text \<open>The algorithm of the standard, on the elements from the current node on: ``have an element in the specific scope''.\<close>

fun has_in_scope :: "('e \<Rightarrow> bool) \<Rightarrow> 'e set \<Rightarrow> 'e list \<Rightarrow> bool" where
  "has_in_scope target S [] \<longleftrightarrow> False"
| "has_in_scope target S (e # es) \<longleftrightarrow> target e \<or> e \<notin> S \<and> has_in_scope target S es"

lemma in_scope_by_ok:
  assumes "open_ok t"
    and "\<And>x. x \<in> set (opened t) \<Longrightarrow> p x (the (tree_nodes t x)) \<longleftrightarrow> target (elem_of t x)"
    and "\<And>x. x \<in> set (opened t) \<Longrightarrow> stop (the (tree_nodes t x)) \<longleftrightarrow> elem_of t x \<in> S"
  shows "\<exists>r. in_scope_by t p stop = Some r \<and> (r \<noteq> NULL \<longleftrightarrow> has_in_scope target S (map (elem_of t) (rev (opened t)))) \<and>
    (r \<noteq> NULL \<longrightarrow> r \<in> set (opened t) \<and> target (elem_of t r))"
proof -
  let ?g = "\<lambda>x. if p x (the (tree_nodes t x)) then Some x else if stop (the (tree_nodes t x)) then Some NULL else None"
  have "scan_down (\<lambda>_ node. do {
         n \<leftarrow> tree_deref t node;
         Some (if p node n then Some node else if stop n then Some NULL else None)
       }) (open_elements t) (ar_length (open_elements t)) = Some (first_some ?g (rev (opened t)))"
    by (rule scan_down_entries [OF open_okD [OF assms(1)]]) (simp add: open_deref [OF assms(1)])
  moreover have "(or_null (first_some ?g xs) \<noteq> NULL \<longleftrightarrow> has_in_scope target S (map (elem_of t) xs)) \<and>
      (or_null (first_some ?g xs) \<noteq> NULL \<longrightarrow> or_null (first_some ?g xs) \<in> set xs \<and> target (elem_of t (or_null (first_some ?g xs))))"
    if "set xs \<subseteq> set (opened t)" for xs
    using that
  proof (induction xs)
    case (Cons x xs)
    then have "x \<noteq> NULL" using assms(1) by (auto simp: open_ok_def)
    with Cons assms(2,3) [of x] show ?case by (auto simp: or_null_def)
  qed (simp add: or_null_def)
  from this [of "rev (opened t)"] have "(or_null (first_some ?g (rev (opened t))) \<noteq> NULL \<longleftrightarrow> has_in_scope target S (map (elem_of t) (rev (opened t)))) \<and>
      (or_null (first_some ?g (rev (opened t))) \<noteq> NULL \<longrightarrow> or_null (first_some ?g (rev (opened t))) \<in> set (opened t) \<and>
        target (elem_of t (or_null (first_some ?g (rev (opened t))))))" by simp
  ultimately show ?thesis by (simp add: in_scope_by_def)
qed

text \<open>C20: Whether an element is in scope is decided as the standard says, for each of the four scopes, and the pointer returned is that of
  an open element with the tag.\<close>

theorem element_in_scope_standard:
  assumes "open_ok t"
    and "(ct, S) \<in> {(LXB_HTML_TAG_CATEGORY_SCOPE, set std_scope), (LXB_HTML_TAG_CATEGORY_SCOPE_LIST_ITEM, set std_list_item_scope),
       (LXB_HTML_TAG_CATEGORY_SCOPE_BUTTON, set std_button_scope), (LXB_HTML_TAG_CATEGORY_SCOPE_TABLE, set std_table_scope)}"
  shows "\<exists>r. lxb_html_tree_element_in_scope t tag ns ct = Some r \<and>
    (r \<noteq> NULL \<longleftrightarrow> has_in_scope (\<lambda>e. e = (tag, ns)) S (map (elem_of t) (rev (opened t)))) \<and>
    (r \<noteq> NULL \<longrightarrow> r \<in> set (opened t) \<and> elem_of t r = (tag, ns))"
proof -
  have "lxb_html_tag_is_category tg n ct \<longleftrightarrow> (tg, n) \<in> S" for tg n
    using assms(2) categories_table [of tg n] by auto
  then show ?thesis
    unfolding lxb_html_tree_element_in_scope_def by (intro in_scope_by_ok [OF assms(1)]) (auto simp: elem_of_def)
qed


text \<open>A stack of elements without further structure, for examples.\<close>

definition ex_node :: "lxb_tag_id \<Rightarrow> lxb_ns_id \<Rightarrow> lxb_dom_node" where
  "ex_node tag ns = \<lparr> nd_next = None, nd_prev = None, nd_parent = None, nd_first_child = None, nd_last_child = None, nd_ns = ns, nd_tag_id = tag,
     nd_type = LXB_DOM_NODE_TYPE_ELEMENT \<rparr>"

definition ex_stack :: "addr list \<Rightarrow> lexbor_array" where
  "ex_stack xs = \<lparr> ar_list = Some (map Some xs @ [None]), ar_size = of_nat (length xs + 1), ar_length = of_nat (length xs) \<rparr>"

definition ex_open :: "(addr \<times> lxb_tag_id \<times> lxb_ns_id) list \<Rightarrow> html_tree" where
  "ex_open es = \<lparr> tree_doc = \<lparr> nodes = map_of (map (\<lambda>(a, t, n). (a, ex_node t n)) es), elements = Map.empty, attrs = Map.empty, texts = Map.empty,
       html = True, quirks = False \<rparr>,
     contents = Map.empty, doc_head = None, doc_complete = False, fragment = None, form = None, open_elements = ex_stack (map fst es),
     active_formatting = ex_stack [], template_insertion_modes = [], tree_errors = [], foster_parenting = False, frameset_ok = True,
     scripting = False, mode = M_in_body, original_mode = None, before_append_attr = None, tree_status = LXB_STATUS_OK \<rparr>"

lemma ex_stack_ok: "length xs < 100 \<Longrightarrow> arr_inv (ex_stack xs)" "length xs < 100 \<Longrightarrow> arr_abs (ex_stack xs) = xs"
  by (auto simp: arr_inv_def arr_abs_def ex_stack_def unat_of_nat comp_def simp del: of_nat_Suc of_nat_add)

lemma ex_open_ok:
  assumes "length es < 100" "NULL \<notin> fst ` set es"
  shows "open_ok (ex_open es)" "opened (ex_open es) = map fst es"
proof -
  have "map (fst \<circ> (\<lambda>(a, t, n). (a, ex_node t n))) es = map fst es" by auto
  then have "dom (map_of (map (\<lambda>(a, t, n). (a, ex_node t n)) es)) = fst ` set es"
    unfolding dom_map_of_conv_image_fst by (force simp: image_iff)
  then show "open_ok (ex_open es)" "opened (ex_open es) = map fst es"
    using assms ex_stack_ok [of "map fst es"] by (auto simp: open_ok_def ex_open_def)
qed

text \<open>A paragraph in a button: the paragraph is in scope, but not in the scope of buttons.\<close>

theorem element_in_scope_standard_witness:
  "\<exists>r. lxb_html_tree_element_in_scope (ex_open [(5, LXB_TAG_HTML, LXB_NS_HTML), (6, LXB_TAG_P, LXB_NS_HTML), (7, LXB_TAG_BUTTON, LXB_NS_HTML)])
     LXB_TAG_P LXB_NS_HTML LXB_HTML_TAG_CATEGORY_SCOPE_BUTTON = Some r \<and> r = NULL"
proof -
  let ?es = "[(5, LXB_TAG_HTML, LXB_NS_HTML), (6, LXB_TAG_P, LXB_NS_HTML), (7, LXB_TAG_BUTTON, LXB_NS_HTML)] :: (addr \<times> lxb_tag_id \<times> lxb_ns_id) list"
  have o: "open_ok (ex_open ?es)" "opened (ex_open ?es) = [5, 6, 7]" using ex_open_ok [of ?es] by simp_all
  have "elem_of (ex_open ?es) 7 = (LXB_TAG_BUTTON, LXB_NS_HTML)" by (simp add: elem_of_def ex_open_def ex_node_def)
  then have "\<not> has_in_scope (\<lambda>e. e = (LXB_TAG_P, LXB_NS_HTML)) (set std_button_scope) (map (elem_of (ex_open ?es)) (rev (opened (ex_open ?es))))"
    by (simp add: o(2) std_button_scope_def)
  with element_in_scope_standard [OF o(1), of LXB_HTML_TAG_CATEGORY_SCOPE_BUTTON "set std_button_scope" LXB_TAG_P LXB_NS_HTML]
  show ?thesis by auto
qed

text \<open>The search for a heading does not stop at the elements of SVG and MathML that end the scope in the standard: it stops at an
  element exactly when the element of HTML with this tag ends the scope.\<close>

theorem scope_of_headings:
  assumes "open_ok t"
  shows "\<exists>r. lxb_html_tree_element_in_scope_h123456 t = Some r \<and>
    (r \<noteq> NULL \<longleftrightarrow> has_in_scope (\<lambda>e. fst e \<in> H123456 \<and> snd e = LXB_NS_HTML) {e. (fst e, LXB_NS_HTML) \<in> set std_scope}
       (map (elem_of t) (rev (opened t)))) \<and>
    (r \<noteq> NULL \<longrightarrow> r \<in> set (opened t) \<and> fst (elem_of t r) \<in> H123456 \<and> snd (elem_of t r) = LXB_NS_HTML)"
  unfolding lxb_html_tree_element_in_scope_h123456_def
  by (intro in_scope_by_ok [OF assms]) (auto simp: elem_of_def categories_table)

text \<open>A heading with a description in SVG: the standard says that it is not in scope, the code finds it.\<close>

theorem scope_of_headings_witness:
  "\<not> has_in_scope (\<lambda>e. fst e \<in> H123456 \<and> snd e = LXB_NS_HTML) (set std_scope)
      [(LXB_TAG_DESC, LXB_NS_SVG), (LXB_TAG_SVG, LXB_NS_SVG), (LXB_TAG_H1, LXB_NS_HTML), (LXB_TAG_HTML, LXB_NS_HTML)] \<and>
   (\<exists>r. lxb_html_tree_element_in_scope_h123456 (ex_open [(5, LXB_TAG_HTML, LXB_NS_HTML), (6, LXB_TAG_H1, LXB_NS_HTML),
     (7, LXB_TAG_SVG, LXB_NS_SVG), (8, LXB_TAG_DESC, LXB_NS_SVG)]) = Some r \<and> r \<noteq> NULL)"
proof -
  let ?es = "[(5, LXB_TAG_HTML, LXB_NS_HTML), (6, LXB_TAG_H1, LXB_NS_HTML), (7, LXB_TAG_SVG, LXB_NS_SVG), (8, LXB_TAG_DESC, LXB_NS_SVG)]
    :: (addr \<times> lxb_tag_id \<times> lxb_ns_id) list"
  have o: "open_ok (ex_open ?es)" "opened (ex_open ?es) = [5, 6, 7, 8]" using ex_open_ok [of ?es] by simp_all
  have "elem_of (ex_open ?es) 8 = (LXB_TAG_DESC, LXB_NS_SVG)" "elem_of (ex_open ?es) 7 = (LXB_TAG_SVG, LXB_NS_SVG)"
    "elem_of (ex_open ?es) 6 = (LXB_TAG_H1, LXB_NS_HTML)"
    by (simp_all add: elem_of_def ex_open_def ex_node_def)
  then have "has_in_scope (\<lambda>e. fst e \<in> H123456 \<and> snd e = LXB_NS_HTML) {e. (fst e, LXB_NS_HTML) \<in> set std_scope}
      (map (elem_of (ex_open ?es)) (rev (opened (ex_open ?es))))"
    by (simp add: o(2) std_scope_def)
  with scope_of_headings [OF o(1)] show ?thesis by (auto simp: std_scope_def)
qed

section \<open>Shortening the stack\<close>

lemma implied_loop_list:
  assumes "arr_inv a" "\<And>x. x \<in> set (arr_abs a) \<Longrightarrow> deref x = Some (nd x)"
  shows "wp (implied_loop deref tags ex_tag ex_ns a) (\<lambda>a'. arr_inv a' \<and>
    arr_abs a' = cut_at (\<lambda>x. \<not> (nd_tag_id (nd x) \<in> tags \<and> \<not> (nd_tag_id (nd x) = ex_tag \<and> nd_ns (nd x) = ex_ns))) (arr_abs a))"
  using assms
proof (induction deref tags ex_tag ex_ns a rule: implied_loop.induct)
  case (1 deref tags ex_tag ex_ns a)
  have len: "unat (ar_length a) = length (arr_abs a)" using "1.prems"(1) by (rule arr_len)
  show ?case
  proof (cases "arr_abs a" rule: rev_cases)
    case Nil
    then have "ar_length a = 0" using len by (simp add: unat_eq_zero)
    with Nil "1.prems"(1) show ?thesis by (subst implied_loop.simps) simp
  next
    case (snoc ys x)
    then have n: "ar_length a \<noteq> 0" using len by auto
    then have "unat (ar_length a - 1) = length ys" using unat_pred len snoc by simp
    then have c: "cell_get a (ar_length a - 1) = Some x" using arr_cell [OF "1.prems"(1), of "ar_length a - 1"] snoc by simp
    have d: "deref x = Some (nd x)" using "1.prems"(2) snoc by simp
    obtain a' where p: "lexbor_array_pop a = Some (a', x)" "arr_inv a'" "arr_abs a' = ys" using pop_ok [OF "1.prems"(1)] snoc by auto
    show ?thesis
    proof (cases "nd_tag_id (nd x) \<in> tags \<and> \<not> (nd_tag_id (nd x) = ex_tag \<and> nd_ns (nd x) = ex_ns)")
      case True
      have "wp (implied_loop deref tags ex_tag ex_ns a') (\<lambda>a'. arr_inv a' \<and>
          arr_abs a' = cut_at (\<lambda>x. \<not> (nd_tag_id (nd x) \<in> tags \<and> \<not> (nd_tag_id (nd x) = ex_tag \<and> nd_ns (nd x) = ex_ns))) ys)"
        using "1.IH" [OF n c d _ _ p(1)] True p "1.prems"(2) snoc by simp
      with True n c d p(1) snoc show ?thesis by (subst implied_loop.simps) auto
    next
      case False
      with n c d snoc "1.prems"(1) show ?thesis by (subst implied_loop.simps) auto
    qed
  qed
qed

lemma implied_end_tags_ok:
  assumes "open_ok t"
  shows "wp (lxb_html_tree_generate_implied_end_tags t ex_tag ex_ns) (\<lambda>t'. \<exists>a. t' = t\<lparr> open_elements := a \<rparr> \<and> open_ok t' \<and>
    opened t' = cut_at (\<lambda>x. \<not> (fst (elem_of t x) \<in> implied_tags \<and> elem_of t x \<noteq> (ex_tag, ex_ns))) (opened t))"
proof -
  let ?p = "\<lambda>x. \<not> (nd_tag_id (the (tree_nodes t x)) \<in> implied_tags \<and> \<not> (nd_tag_id (the (tree_nodes t x)) = ex_tag \<and> nd_ns (the (tree_nodes t x)) = ex_ns))"
  have "wp (implied_loop (tree_deref t) implied_tags ex_tag ex_ns (open_elements t)) (\<lambda>a. arr_inv a \<and> arr_abs a = cut_at ?p (opened t))"
    by (rule implied_loop_list [OF open_okD [OF assms]]) (rule open_deref [OF assms])
  moreover have "?p = (\<lambda>x. \<not> (fst (elem_of t x) \<in> implied_tags \<and> elem_of t x \<noteq> (ex_tag, ex_ns)))"
    by (auto simp: elem_of_def fun_eq_iff)
  ultimately show ?thesis
    unfolding lxb_html_tree_generate_implied_end_tags_def
    by (auto elim!: wp_mono intro!: open_ok_sub [OF assms] dest!: set_cut_at)
qed


lemma pop_until_tag_ok:
  assumes "open_ok t"
  shows "wp (lxb_html_tree_open_elements_pop_until_tag_id t tag ns exclude) (\<lambda>t'. \<exists>a. t' = t\<lparr> open_elements := a \<rparr> \<and> open_ok t' \<and>
    opened t' = (let c = cut_at (\<lambda>x. elem_of t x = (tag, ns)) (opened t) in if exclude then butlast c else c))"
proof -
  have "wp (pop_until (node_has t tag ns) exclude (open_elements t)) (\<lambda>a. arr_inv a \<and>
      arr_abs a = (if exclude then butlast (cut_at (\<lambda>x. elem_of t x = (tag, ns)) (opened t)) else cut_at (\<lambda>x. elem_of t x = (tag, ns)) (opened t)) \<and>
      ar_size a = ar_size (open_elements t))"
    by (rule pop_until_list [OF open_okD [OF assms]]) (simp add: node_has_def open_deref [OF assms] elem_of_def)
  then show ?thesis
    unfolding lxb_html_tree_open_elements_pop_until_tag_id_def
    by (auto elim!: wp_mono intro!: open_ok_sub [OF assms] dest!: set_cut_at in_set_butlastD simp: Let_def)
qed

text \<open>C22: Closing a paragraph.  When there is an open paragraph, the stack is cut below the last one; an error is recorded exactly when
  an element that has no implied end tag is above it.\<close>

theorem close_p_element_cuts:
  assumes "open_ok t" "opened t = ys @ x # zs" "elem_of t x = (LXB_TAG_P, LXB_NS_HTML)" "\<forall>z \<in> set zs. elem_of t z \<noteq> (LXB_TAG_P, LXB_NS_HTML)"
    and "\<forall>t. ok t"
  shows "\<exists>t'. lxb_html_tree_close_p_element ok t = Some t' \<and> open_ok t' \<and> opened t' = ys \<and> tree_nodes t' = tree_nodes t \<and>
    tree_errors t' = tree_errors t @ (if \<forall>z \<in> set zs. fst (elem_of t z) \<in> implied_tags then [] else [LXB_HTML_RULES_ERROR_UNELINOPELST])"
proof -
  let ?st = "\<lambda>x. \<not> (fst (elem_of t x) \<in> implied_tags \<and> elem_of t x \<noteq> (LXB_TAG_P, LXB_NS_HTML))"
  let ?zs = "cut_at ?st zs"
  have cut: "cut_at ?st (opened t) = ys @ x # ?zs" using assms(2,3) cut_at_append [of ?st x] by simp
  obtain a where a: "lxb_html_tree_generate_implied_end_tags t LXB_TAG_P LXB_NS_HTML = Some (t\<lparr> open_elements := a \<rparr>)"
      "open_ok (t\<lparr> open_elements := a \<rparr>)" "arr_abs a = ys @ x # ?zs"
    using implied_end_tags_ok [OF assms(1), of LXB_TAG_P LXB_NS_HTML] cut by (auto simp: wp_iff)
  let ?t = "t\<lparr> open_elements := a \<rparr>"
  have cur: "lxb_html_tree_current_node ?t = Some (last (x # ?zs))" using current_node_open [OF a(2)] a(3) by simp
  have none: "?zs = [] \<longleftrightarrow> (\<forall>z \<in> set zs. fst (elem_of t z) \<in> implied_tags)"
    using assms(4) by (auto simp: cut_at_empty)
  have top: "elem_of t (last (x # ?zs)) = (LXB_TAG_P, LXB_NS_HTML) \<longleftrightarrow> ?zs = []"
  proof (cases "?zs = []")
    case False
    then have "last ?zs \<in> set zs" by (rule set_cut_at [OF last_in_set])
    then show ?thesis using assms(4) False by simp
  qed (use assms(3) in simp)
  have isp: "lxb_html_tree_node_is ?t (last (x # ?zs)) LXB_TAG_P = Some (?zs = [])"
    using open_deref [OF a(2), of "last (x # ?zs)"] a(3) top by (simp add: lxb_html_tree_node_is_def elem_of_def)
  let ?t' = "if ?zs = [] then ?t else lxb_html_tree_parse_error ok ?t LXB_HTML_RULES_ERROR_UNELINOPELST"
  have t': "open_ok ?t'" "opened ?t' = ys @ x # ?zs" "elem_of ?t' = elem_of t" "tree_nodes ?t' = tree_nodes t"
    "tree_errors ?t' = tree_errors t @ (if ?zs = [] then [] else [LXB_HTML_RULES_ERROR_UNELINOPELST])"
    using a(2,3) assms(5) by (auto simp: lxb_html_tree_parse_error_def open_ok_def elem_of_def fun_eq_iff)
  have "cut_at (\<lambda>y. elem_of t y = (LXB_TAG_P, LXB_NS_HTML)) (ys @ x # ?zs) = ys @ [x]"
    using assms(3,4) by (intro cut_at_split) (auto dest: set_cut_at)
  then obtain b where b: "lxb_html_tree_open_elements_pop_until_tag_id ?t' LXB_TAG_P LXB_NS_HTML True = Some (?t'\<lparr> open_elements := b \<rparr>)"
      "open_ok (?t'\<lparr> open_elements := b \<rparr>)" "arr_abs b = ys"
    using pop_until_tag_ok [OF t'(1), of LXB_TAG_P LXB_NS_HTML True] t'(2,3) by (auto simp: Let_def wp_iff)
  have "lxb_html_tree_close_p_element ok t = lxb_html_tree_open_elements_pop_until_tag_id ?t' LXB_TAG_P LXB_NS_HTML True"
    using a(1) cur isp by (simp add: lxb_html_tree_close_p_element_def)
  then show ?thesis using b t'(4,5) unfolding none [symmetric] by (intro exI [of _ "?t'\<lparr> open_elements := b \<rparr>"]) simp
qed


theorem close_p_element_cuts_witness:
  "\<exists>t'. lxb_html_tree_close_p_element (\<lambda>_. True) (ex_open [(5, LXB_TAG_HTML, LXB_NS_HTML), (6, LXB_TAG_P, LXB_NS_HTML), (7, LXB_TAG_B, LXB_NS_HTML),
     (8, LXB_TAG_LI, LXB_NS_HTML)]) = Some t' \<and> opened t' = [5] \<and> tree_errors t' = [LXB_HTML_RULES_ERROR_UNELINOPELST]"
proof -
  let ?es = "[(5, LXB_TAG_HTML, LXB_NS_HTML), (6, LXB_TAG_P, LXB_NS_HTML), (7, LXB_TAG_B, LXB_NS_HTML), (8, LXB_TAG_LI, LXB_NS_HTML)]
    :: (addr \<times> lxb_tag_id \<times> lxb_ns_id) list"
  have o: "open_ok (ex_open ?es)" "opened (ex_open ?es) = [5] @ 6 # [7, 8]" using ex_open_ok [of ?es] by simp_all
  have e: "elem_of (ex_open ?es) 6 = (LXB_TAG_P, LXB_NS_HTML)" "elem_of (ex_open ?es) 7 = (LXB_TAG_B, LXB_NS_HTML)"
    "elem_of (ex_open ?es) 8 = (LXB_TAG_LI, LXB_NS_HTML)" "tree_errors (ex_open ?es) = []"
    by (simp_all add: elem_of_def ex_open_def ex_node_def)
  show ?thesis using close_p_element_cuts [OF o e(1), of "\<lambda>_. True"] e(2-4) by auto
qed

section \<open>Removing an element\<close>

text \<open>C23: Removing an element from the stack of open elements takes out its last occurrence.  But when the array is full, \<open>memmove\<close>
  is asked for one cell more than there is: the call reads behind the array.\<close>

theorem open_elements_remove:
  assumes "arr_inv (open_elements t)"
  shows "if x \<in> set (opened t) \<and> ar_length (open_elements t) = ar_size (open_elements t)
    then lxb_html_tree_open_elements_remove_by_node t x = None
    else \<exists>a. lxb_html_tree_open_elements_remove_by_node t x = Some (t\<lparr> open_elements := a \<rparr>) \<and> arr_inv a \<and>
      arr_abs a = rev (remove1 x (rev (opened t)))"
proof (cases "x \<in> set (opened t)")
  case False
  then show ?thesis using remove_absent [OF assms] assms
    by (auto simp: lxb_html_tree_open_elements_remove_by_node_def remove1_idem intro!: exI [of _ "open_elements t"])
next
  case True
  show ?thesis
  proof (cases "ar_length (open_elements t) = ar_size (open_elements t)")
    case full: True
    then show ?thesis using remove_full [OF assms True full] True by (simp add: lxb_html_tree_open_elements_remove_by_node_def)
  next
    case False
    obtain ys zs where xs: "opened t = ys @ x # zs" "x \<notin> set zs" using True by (meson split_list_last)
    have "length (opened t) < unat (ar_size (open_elements t))"
      using False arr_bound(1) [OF assms] arr_len [OF assms] by (metis le_neq_implies_less word_unat_eq_iff)
    then have "wp (stack_remove_by_node (open_elements t) x) (\<lambda>a'. arr_inv a' \<and> arr_abs a' = ys @ zs \<and> ar_size a' = ar_size (open_elements t))"
      by (rule remove_present [OF assms xs])
    then show ?thesis
      using False xs by (auto simp: lxb_html_tree_open_elements_remove_by_node_def wp_iff remove1_append)
  qed
qed

theorem open_elements_remove_witness:
  "lxb_html_tree_open_elements_remove_by_node ((ex_open [])\<lparr> open_elements := \<lparr> ar_list = Some [Some 5, Some 6], ar_size = 2, ar_length = 2 \<rparr> \<rparr>) 5 = None"
proof -
  let ?a = "\<lparr> ar_list = Some [Some 5, Some 6], ar_size = 2, ar_length = 2 \<rparr>"
  have "arr_inv ?a" "arr_abs ?a = [5, 6]" by (simp_all add: arr_inv_def arr_abs_def)
  then show ?thesis using open_elements_remove [of "(ex_open [])\<lparr> open_elements := ?a \<rparr>" 5] by simp
qed

section \<open>The insertion mode\<close>

text \<open>The algorithm of the standard on the elements from the current node on.  \<open>ctx\<close> is the context element of a fragment, \<open>no_head\<close> tells that there
  is no head element, and \<open>tm\<close> is the current template insertion mode.\<close>

fun std_select :: "(lxb_tag_id \<times> lxb_ns_id) list \<Rightarrow> insertion_mode" where
  "std_select [] = M_in_select"
| "std_select (e # es) =
    (if e = (LXB_TAG_TEMPLATE, LXB_NS_HTML) then M_in_select
     else if e = (LXB_TAG_TABLE, LXB_NS_HTML) then M_in_select_in_table else std_select es)"

definition std_mode :: "bool \<Rightarrow> insertion_mode \<Rightarrow> bool \<Rightarrow> lxb_tag_id \<times> lxb_ns_id \<Rightarrow> insertion_mode option" where
  "std_mode no_head tm is_last e =
    (let tag = fst e in
     if snd e \<noteq> LXB_NS_HTML then None
     else if tag = LXB_TAG_TD \<or> tag = LXB_TAG_TH then (if is_last then None else Some M_in_cell)
     else if tag = LXB_TAG_TR then Some M_in_row
     else if tag = LXB_TAG_TBODY \<or> tag = LXB_TAG_THEAD \<or> tag = LXB_TAG_TFOOT then Some M_in_table_body
     else if tag = LXB_TAG_CAPTION then Some M_in_caption
     else if tag = LXB_TAG_COLGROUP then Some M_in_column_group
     else if tag = LXB_TAG_TABLE then Some M_in_table
     else if tag = LXB_TAG_TEMPLATE then Some tm
     else if tag = LXB_TAG_HEAD then (if is_last then None else Some M_in_head)
     else if tag = LXB_TAG_BODY then Some M_in_body
     else if tag = LXB_TAG_FRAMESET then Some M_in_frameset
     else if tag = LXB_TAG_HTML then Some (if no_head then M_before_head else M_after_head)
     else None)"

fun std_reset :: "bool \<Rightarrow> insertion_mode \<Rightarrow> (lxb_tag_id \<times> lxb_ns_id) option \<Rightarrow> (lxb_tag_id \<times> lxb_ns_id) list \<Rightarrow> insertion_mode option" where
  "std_reset no_head tm ctx [] = None"
| "std_reset no_head tm ctx (e # es) =
    (let is_last = (es = []); node = (if is_last then (case ctx of Some c \<Rightarrow> c | None \<Rightarrow> e) else e) in
     if node = (LXB_TAG_SELECT, LXB_NS_HTML) then Some (std_select es)
     else (case std_mode no_head tm is_last node of
         Some m \<Rightarrow> Some m
       | None \<Rightarrow> if is_last then Some M_in_body else std_reset no_head tm ctx es))"


lemma select_mode_ok:
  assumes "open_ok t" "unat idx \<le> length (opened t)"
  shows "select_mode t idx = Some (std_select (map (elem_of t) (rev (take (unat idx) (opened t)))))"
proof -
  let ?g = "\<lambda>i. let e = elem_of t (opened t ! i) in
    if e = (LXB_TAG_TEMPLATE, LXB_NS_HTML) then Some M_in_select else if e = (LXB_TAG_TABLE, LXB_NS_HTML) then Some M_in_select_in_table else None"
  have "scan_down (\<lambda>_ ancestor_node. do {
         b \<leftarrow> lxb_html_tree_node_is t ancestor_node LXB_TAG_TEMPLATE;
         if b then Some (Some M_in_select)
         else do {
           b \<leftarrow> lxb_html_tree_node_is t ancestor_node LXB_TAG_TABLE;
           Some (if b then Some M_in_select_in_table else None)
         }
       }) (open_elements t) idx = Some (first_some ?g (rev [0..<unat idx]))"
    using assms(2)
    by (intro scan_down_list [OF open_okD [OF assms(1)]])
      (auto simp: lxb_html_tree_node_is_def open_deref [OF assms(1)] elem_of_def Let_def)
  moreover have "(case first_some ?g (rev [0..<n]) of None \<Rightarrow> M_in_select | Some m \<Rightarrow> m) = std_select (map (elem_of t) (rev (take n (opened t))))"
    if "n \<le> length (opened t)" for n
    using that by (induction n) (simp_all add: take_Suc_conv_app_nth Let_def)
  ultimately show ?thesis using assms(2) by (simp add: select_mode_def)
qed

text \<open>The nodes that the choice of the mode reads are there.\<close>

definition reset_ok :: "html_tree \<Rightarrow> bool" where
  "reset_ok t \<longleftrightarrow> open_ok t \<and> (\<forall>f. fragment t = Some f \<longrightarrow> f \<noteq> NULL \<and> f \<in> dom (tree_nodes t)) \<and>
     (template_insertion_modes t = [] \<longrightarrow>
       (\<forall>x \<in> set (opened t) \<union> set_option (fragment t). elem_of t x \<noteq> (LXB_TAG_TEMPLATE, LXB_NS_HTML)))"

lemma reset_step_ok:
  assumes "reset_ok t" "i < length (opened t)"
  shows "reset_step t (of_nat i) (opened t ! i) =
    Some (let node = (if i = 0 then (case fragment t of Some f \<Rightarrow> elem_of t f | None \<Rightarrow> elem_of t (opened t ! i)) else elem_of t (opened t ! i)) in
      if node = (LXB_TAG_SELECT, LXB_NS_HTML) then Some (std_select (map (elem_of t) (rev (take i (opened t)))))
      else (case std_mode (doc_head t = None) (last (template_insertion_modes t)) (i = 0) node of
          Some m \<Rightarrow> Some m
        | None \<Rightarrow> if i = 0 then Some M_in_body else None))"
proof -
  have o: "open_ok t" using assms(1) by (simp add: reset_ok_def)
  have u: "unat (of_nat i :: size_t) = i" using unat_index [OF open_okD [OF o], of i] assms(2) by simp
  then have z: "(of_nat i = (0 :: size_t)) \<longleftrightarrow> i = 0" using unat_eq_zero [of "of_nat i :: size_t"] by simp
  define x where "x = (case fragment t of Some f \<Rightarrow> if i = 0 then f else opened t ! i | None \<Rightarrow> opened t ! i)"
  have d: "tree_deref t x = Some (the (tree_nodes t x))"
  proof (cases "fragment t \<noteq> None \<and> i = 0")
    case True
    then show ?thesis using assms(1) by (auto simp: x_def reset_ok_def tree_deref_def)
  next
    case False
    then have "x = opened t ! i" by (auto simp: x_def split: option.split)
    then show ?thesis using open_deref [OF o] assms(2) by simp
  qed
  have tm: "elem_of t x = (LXB_TAG_TEMPLATE, LXB_NS_HTML) \<Longrightarrow> template_insertion_modes t \<noteq> []"
    using assms by (auto simp: x_def reset_ok_def split: option.splits if_splits)
  have sel: "select_mode t (of_nat i) = Some (std_select (map (elem_of t) (rev (take i (opened t)))))"
    using select_mode_ok [OF o, of "of_nat i"] u assms(2) by simp
  have x: "(if i = 0 then (case fragment t of Some f \<Rightarrow> elem_of t f | None \<Rightarrow> elem_of t (opened t ! i)) else elem_of t (opened t ! i)) = elem_of t x"
    by (auto simp: x_def split: option.split)
  let ?n = "the (tree_nodes t x)"
  have n: "elem_of t x = (nd_tag_id ?n, nd_ns ?n)" by (simp add: elem_of_def)
  note chain = x reset_step_def z Let_def x_def [symmetric] d n std_mode_def fst_conv snd_conv prod.inject Option.bind.bind_lunit
  show ?thesis
  proof (cases "nd_ns ?n = LXB_NS_HTML")
    case False
    then show ?thesis unfolding chain by simp
  next
    case True
    note html = True
    show ?thesis
    proof (cases "nd_tag_id ?n \<in> {LXB_TAG_SELECT, LXB_TAG_TD, LXB_TAG_TH, LXB_TAG_TR, LXB_TAG_TBODY, LXB_TAG_TFOOT, LXB_TAG_THEAD, LXB_TAG_CAPTION,
        LXB_TAG_COLGROUP, LXB_TAG_TABLE, LXB_TAG_TEMPLATE, LXB_TAG_HEAD, LXB_TAG_BODY, LXB_TAG_FRAMESET, LXB_TAG_HTML}")
      case True
      then show ?thesis
        using tm html unfolding chain by (elim insertE emptyE) (simp_all add: sel lxb_html_tree_template_insertion_current_def)
    next
      case False
      then show ?thesis using html unfolding chain by simp
    qed
  qed
qed

text \<open>C21: The insertion mode is reset as the standard says: for every stack of open elements, with or without a fragment, the new mode is that
  of the algorithm of the standard, and an empty stack leaves it unchanged.\<close>

theorem reset_insertion_mode_standard:
  assumes "reset_ok t"
  shows "lxb_html_tree_reset_insertion_mode_appropriately t =
    Some (case std_reset (doc_head t = None) (last (template_insertion_modes t)) (map_option (elem_of t) (fragment t)) (map (elem_of t) (rev (opened t))) of
       None \<Rightarrow> t | Some m \<Rightarrow> t\<lparr> mode := m \<rparr>)"
proof -
  let ?g = "\<lambda>i. let node = (if i = 0 then (case fragment t of Some f \<Rightarrow> elem_of t f | None \<Rightarrow> elem_of t (opened t ! i)) else elem_of t (opened t ! i)) in
      if node = (LXB_TAG_SELECT, LXB_NS_HTML) then Some (std_select (map (elem_of t) (rev (take i (opened t)))))
      else (case std_mode (doc_head t = None) (last (template_insertion_modes t)) (i = 0) node of
          Some m \<Rightarrow> Some m
        | None \<Rightarrow> if i = 0 then Some M_in_body else None)"
  have o: "arr_inv (open_elements t)" using assms by (simp add: reset_ok_def open_ok_def)
  have "scan_down (reset_step t) (open_elements t) (ar_length (open_elements t)) = Some (first_some ?g (rev [0..<unat (ar_length (open_elements t))]))"
    by (rule scan_down_list [OF o]) (simp_all only: arr_len [OF o] le_refl reset_step_ok [OF assms])
  moreover have "first_some ?g (rev [0..<n]) =
      std_reset (doc_head t = None) (last (template_insertion_modes t)) (map_option (elem_of t) (fragment t)) (map (elem_of t) (rev (take n (opened t))))"
    if "n \<le> length (opened t)" for n
    using that
  proof (induction n)
    case (Suc n)
    then have "rev (take (Suc n) (opened t)) = opened t ! n # rev (take n (opened t))" by (simp add: take_Suc_conv_app_nth)
    moreover have "map (elem_of t) (rev (take n (opened t))) = [] \<longleftrightarrow> n = 0" using Suc.prems by auto
    ultimately show ?case using Suc by (auto simp: Let_def split: option.split)
  qed simp
  ultimately show ?thesis by (simp add: lxb_html_tree_reset_insertion_mode_appropriately_def arr_len [OF o])
qed

text \<open>A \<open>select\<close> element in a table.\<close>

theorem reset_insertion_mode_standard_witness:
  "\<exists>t. lxb_html_tree_reset_insertion_mode_appropriately
      (ex_open [(5, LXB_TAG_HTML, LXB_NS_HTML), (6, LXB_TAG_TABLE, LXB_NS_HTML), (7, LXB_TAG_SELECT, LXB_NS_HTML)]) = Some t \<and>
    mode t = M_in_select_in_table"
proof -
  let ?es = "[(5, LXB_TAG_HTML, LXB_NS_HTML), (6, LXB_TAG_TABLE, LXB_NS_HTML), (7, LXB_TAG_SELECT, LXB_NS_HTML)]"
  have o: "open_ok (ex_open ?es)" "opened (ex_open ?es) = [5, 6, 7]" using ex_open_ok [of ?es] by simp_all
  have e: "elem_of (ex_open ?es) 5 = (LXB_TAG_HTML, LXB_NS_HTML)" "elem_of (ex_open ?es) 6 = (LXB_TAG_TABLE, LXB_NS_HTML)"
    "elem_of (ex_open ?es) 7 = (LXB_TAG_SELECT, LXB_NS_HTML)" "fragment (ex_open ?es) = None"
    by (simp_all add: elem_of_def ex_open_def ex_node_def)
  then have "reset_ok (ex_open ?es)" using o by (simp add: reset_ok_def)
  from reset_insertion_mode_standard [OF this] show ?thesis by (simp add: o(2) e)
qed

end
