(* ===== verification/Mem_Bst.thy ===== *)
theory Mem_Bst
  imports Lxb_Prelude
begin

text \<open>
  The search tree of \<open>core/bst.c\<close>, in which the memory pool keeps the free pieces by size.  Entries of the same size hang in a
  list at the first of them.  Entries live in a heap; \<open>lexbor_dobject_calloc\<close> and \<open>lexbor_dobject_free\<close> are the arrival and
  the departure of an entry in it, the address (or NULL) that the former returns is an argument.  A \<open>lexbor_bst_entry_t **scope\<close> is
  passed as the pointer stored there and returned with its new value.

  \<open>Mem_Bst_Spec\<close> shows what the operations do.
\<close>

section \<open>The objects\<close>

record 'v bst_entry =
  be_value :: "'v option"
  be_right :: "addr option"
  be_left :: "addr option"
  be_next :: "addr option"
  be_parent :: "addr option"
  be_size :: size_t

type_synonym 'v bst_heap = "addr \<rightharpoonup> 'v bst_entry"

record 'v lexbor_bst =
  bst_entries :: "'v bst_heap"
  bst_root :: "addr option"
  bst_tree_length :: size_t

text \<open>An assignment to a field, and \<open>lexbor_dobject_free\<close>.\<close>

definition be_set :: "'v bst_heap \<Rightarrow> addr \<Rightarrow> ('v bst_entry \<Rightarrow> 'v bst_entry) \<Rightarrow> 'v bst_heap option" where
  "be_set h a f = do { e \<leftarrow> h a; Some (h(a \<mapsto> f e)) }"

definition be_free :: "'v bst_heap \<Rightarrow> addr \<Rightarrow> 'v bst_heap option" where
  "be_free h a = do { _ \<leftarrow> h a; Some (h(a := None)) }"

text \<open>A cleared object with its size and value.\<close>

definition be_new :: "size_t \<Rightarrow> 'v option \<Rightarrow> 'v bst_entry" where
  "be_new sz value = \<lparr> be_value = value, be_right = None, be_left = None, be_next = None, be_parent = None, be_size = sz \<rparr>"

definition lexbor_bst_clean :: "'v lexbor_bst \<Rightarrow> 'v lexbor_bst" where
  "lexbor_bst_clean bst = \<lparr> bst_entries = Map.empty, bst_root = None, bst_tree_length = 0 \<rparr>"

section \<open>Insertion\<close>

definition lexbor_bst_entry_make :: "addr option \<Rightarrow> 'v lexbor_bst \<Rightarrow> size_t \<Rightarrow> 'v lexbor_bst \<times> addr option" where
  "lexbor_bst_entry_make new bst sz =
    (case new of
       None \<Rightarrow> (bst, None)
     | Some a \<Rightarrow> (bst\<lparr> bst_entries := (bst_entries bst)(a \<mapsto> be_new sz None), bst_tree_length := bst_tree_length bst + 1 \<rparr>, Some a))"

partial_function (option) bst_insert_loop :: "'v bst_heap \<Rightarrow> addr \<Rightarrow> size_t \<Rightarrow> addr \<Rightarrow> 'v bst_heap option" where
  "bst_insert_loop h new_entry sz entry = do {
     e \<leftarrow> h entry;
     if sz = be_size e then do {
       h \<leftarrow> (if be_next e \<noteq> None then be_set h new_entry (be_next_update (\<lambda>_. be_next e)) else Some h);
       h \<leftarrow> be_set h entry (be_next_update (\<lambda>_. Some new_entry));
       be_set h new_entry (be_parent_update (\<lambda>_. be_parent e))
     }
     else if sz > be_size e then
       (case be_right e of
          None \<Rightarrow> do {
            h \<leftarrow> be_set h entry (be_right_update (\<lambda>_. Some new_entry));
            be_set h new_entry (be_parent_update (\<lambda>_. Some entry))
          }
        | Some entry \<Rightarrow> bst_insert_loop h new_entry sz entry)
     else
       (case be_left e of
          None \<Rightarrow> do {
            h \<leftarrow> be_set h entry (be_left_update (\<lambda>_. Some new_entry));
            be_set h new_entry (be_parent_update (\<lambda>_. Some entry))
          }
        | Some entry \<Rightarrow> bst_insert_loop h new_entry sz entry)
   }"

text \<open>The result: the tree, \<open>*scope\<close> and the new entry.\<close>

definition lexbor_bst_insert ::
  "addr option \<Rightarrow> 'v lexbor_bst \<Rightarrow> addr option \<Rightarrow> size_t \<Rightarrow> 'v option \<Rightarrow> ('v lexbor_bst \<times> addr option \<times> addr option) option" where
  "lexbor_bst_insert new bst scope sz value =
    (case new of
       None \<Rightarrow> Some (bst, scope, None)
     | Some new_entry \<Rightarrow>
         (let bst = bst\<lparr> bst_entries := (bst_entries bst)(new_entry \<mapsto> be_new sz value), bst_tree_length := bst_tree_length bst + 1 \<rparr> in
          (case scope of
             None \<Rightarrow> Some (bst, Some new_entry, Some new_entry)
           | Some entry \<Rightarrow> do {
               h \<leftarrow> bst_insert_loop (bst_entries bst) new_entry sz entry;
               Some (bst\<lparr> bst_entries := h \<rparr>, scope, Some new_entry)
             })))"

text \<open>\<open>entry->right->parent = entry\<close> is undefined when the entry could not be made.\<close>

partial_function (option) bst_insert_not_exists_loop :: "addr option \<Rightarrow> 'v lexbor_bst \<Rightarrow> size_t \<Rightarrow> addr \<Rightarrow> ('v lexbor_bst \<times> addr) option" where
  "bst_insert_not_exists_loop new bst sz entry = do {
     e \<leftarrow> bst_entries bst entry;
     if sz = be_size e then Some (bst, entry)
     else if sz > be_size e then
       (case be_right e of
          None \<Rightarrow> do {
            let (bst, r) = lexbor_bst_entry_make new bst sz;
            h \<leftarrow> be_set (bst_entries bst) entry (be_right_update (\<lambda>_. r));
            a \<leftarrow> r;
            h \<leftarrow> be_set h a (be_parent_update (\<lambda>_. Some entry));
            Some (bst\<lparr> bst_entries := h \<rparr>, a)
          }
        | Some entry \<Rightarrow> bst_insert_not_exists_loop new bst sz entry)
     else
       (case be_left e of
          None \<Rightarrow> do {
            let (bst, r) = lexbor_bst_entry_make new bst sz;
            h \<leftarrow> be_set (bst_entries bst) entry (be_left_update (\<lambda>_. r));
            a \<leftarrow> r;
            h \<leftarrow> be_set h a (be_parent_update (\<lambda>_. Some entry));
            Some (bst\<lparr> bst_entries := h \<rparr>, a)
          }
        | Some entry \<Rightarrow> bst_insert_not_exists_loop new bst sz entry)
   }"

definition lexbor_bst_insert_not_exists ::
  "addr option \<Rightarrow> 'v lexbor_bst \<Rightarrow> addr option \<Rightarrow> size_t \<Rightarrow> ('v lexbor_bst \<times> addr option \<times> addr option) option" where
  "lexbor_bst_insert_not_exists new bst scope sz =
    (case scope of
       None \<Rightarrow> (let (bst, r) = lexbor_bst_entry_make new bst sz in Some (bst, r, r))
     | Some entry \<Rightarrow> do {
         (bst, a) \<leftarrow> bst_insert_not_exists_loop new bst sz entry;
         Some (bst, scope, Some a)
       })"

section \<open>Search\<close>

partial_function (option) bst_search_loop :: "'v bst_heap \<Rightarrow> addr option \<Rightarrow> size_t \<Rightarrow> addr option option" where
  "bst_search_loop h scope sz =
    (case scope of
       None \<Rightarrow> Some None
     | Some a \<Rightarrow> do {
         e \<leftarrow> h a;
         if be_size e = sz then Some (Some a)
         else bst_search_loop h (if sz > be_size e then be_right e else be_left e) sz
       })"

definition lexbor_bst_search :: "'v lexbor_bst \<Rightarrow> addr option \<Rightarrow> size_t \<Rightarrow> addr option option" where
  "lexbor_bst_search bst scope sz = bst_search_loop (bst_entries bst) scope sz"

partial_function (option) bst_close_loop :: "'v bst_heap \<Rightarrow> addr option \<Rightarrow> addr option \<Rightarrow> size_t \<Rightarrow> addr option option" where
  "bst_close_loop h scope mx sz =
    (case scope of
       None \<Rightarrow> Some mx
     | Some a \<Rightarrow> do {
         e \<leftarrow> h a;
         if be_size e = sz then Some (Some a)
         else if sz > be_size e then bst_close_loop h (be_right e) mx sz
         else bst_close_loop h (be_left e) (Some a) sz
       })"

definition lexbor_bst_search_close :: "'v lexbor_bst \<Rightarrow> addr option \<Rightarrow> size_t \<Rightarrow> addr option option" where
  "lexbor_bst_search_close bst scope sz = bst_close_loop (bst_entries bst) scope None sz"

section \<open>Removal\<close>

text \<open>\<open>while (left->left != NULL) { left = left->left; }\<close>\<close>

partial_function (option) bst_leftmost :: "'v bst_heap \<Rightarrow> addr \<Rightarrow> addr option" where
  "bst_leftmost h left = do {
     e \<leftarrow> h left;
     (case be_left e of None \<Rightarrow> Some left | Some left \<Rightarrow> bst_leftmost h left)
   }"

text \<open>\<open>if (x != NULL) { x->parent = a; }\<close>\<close>

definition set_parent :: "'v bst_heap \<Rightarrow> addr option \<Rightarrow> addr option \<Rightarrow> 'v bst_heap option" where
  "set_parent h x a = (case x of None \<Rightarrow> Some h | Some x \<Rightarrow> be_set h x (be_parent_update (\<lambda>_. a)))"

text \<open>An entry without successor list and without children.\<close>

definition remove_leaf :: "'v bst_heap \<Rightarrow> addr \<Rightarrow> 'v bst_entry \<Rightarrow> addr option \<Rightarrow> ('v bst_heap \<times> addr option) option" where
  "remove_leaf h entry e root = do {
     (h, root) \<leftarrow> (case be_parent e of
         Some p \<Rightarrow> do {
           pe \<leftarrow> h p;
           h \<leftarrow> (if be_left pe = Some entry then be_set h p (be_left_update (\<lambda>_. None)) else Some h);
           pe \<leftarrow> h p;
           h \<leftarrow> (if be_right pe = Some entry then be_set h p (be_right_update (\<lambda>_. None)) else Some h);
           Some (h, root)
         }
       | None \<Rightarrow> Some (h, None));
     h \<leftarrow> be_free h entry;
     Some (h, root)
   }"

text \<open>The children of an entry get it as their parent.\<close>

definition adopt_children :: "'v bst_heap \<Rightarrow> addr \<Rightarrow> 'v bst_heap option" where
  "adopt_children h entry = do {
     e \<leftarrow> h entry;
     h \<leftarrow> set_parent h (be_right e) (Some entry);
     e \<leftarrow> h entry;
     set_parent h (be_left e) (Some entry)
   }"

text \<open>An entry with one child: at the root the child takes its place, elsewhere it is copied over the entry and freed.\<close>

definition remove_single :: "'v bst_heap \<Rightarrow> addr \<Rightarrow> 'v bst_entry \<Rightarrow> addr \<Rightarrow> addr option \<Rightarrow> ('v bst_heap \<times> addr option) option" where
  "remove_single h entry e child root = do {
     (h, root, entry) \<leftarrow> (case be_parent e of
         None \<Rightarrow> do {
           h \<leftarrow> be_set h child (be_parent_update (\<lambda>_. None));
           h \<leftarrow> be_free h entry;
           Some (h, Some child, child)
         }
       | Some p \<Rightarrow> do {
           h \<leftarrow> be_set h child (be_parent_update (\<lambda>_. Some p));
           ce \<leftarrow> h child;
           h \<leftarrow> be_set h entry (\<lambda>_. ce);
           h \<leftarrow> be_free h child;
           Some (h, root, entry)
         });
     h \<leftarrow> adopt_children h entry;
     Some (h, root)
   }"

text \<open>An entry with two children takes over the contents of the leftmost entry on its right, which is freed.\<close>

definition remove_double :: "'v bst_heap \<Rightarrow> addr \<Rightarrow> addr \<Rightarrow> 'v bst_heap option" where
  "remove_double h entry right = do {
     left \<leftarrow> bst_leftmost h right;
     le \<leftarrow> h left;
     h \<leftarrow> be_set h entry (\<lambda>e. e\<lparr> be_size := be_size le, be_next := be_next le, be_value := be_value le \<rparr>);
     h \<leftarrow> (if right = left then do {
         h \<leftarrow> be_set h entry (be_right_update (\<lambda>_. be_right le));
         set_parent h (be_right le) (Some entry)
       } else do {
         lp \<leftarrow> be_parent le;
         h \<leftarrow> be_set h lp (be_left_update (\<lambda>_. be_right le));
         set_parent h (be_right le) (Some lp)
       });
     be_free h left
   }"

text \<open>The result: the tree, \<open>*root\<close> and the value.\<close>

definition lexbor_bst_remove_by_pointer ::
  "'v lexbor_bst \<Rightarrow> addr \<Rightarrow> addr option \<Rightarrow> ('v lexbor_bst \<times> addr option \<times> 'v option) option" where
  "lexbor_bst_remove_by_pointer bst entry root = do {
     let bst = bst\<lparr> bst_tree_length := bst_tree_length bst - 1 \<rparr>;
     let h = bst_entries bst;
     e \<leftarrow> h entry;
     (case be_next e of
        Some nx \<Rightarrow> do {
          ne \<leftarrow> h nx;
          h \<leftarrow> be_set h entry (be_next_update (\<lambda>_. be_next ne));
          h \<leftarrow> be_free h nx;
          Some (bst\<lparr> bst_entries := h \<rparr>, root, be_value ne)
        }
      | None \<Rightarrow> do {
          (h, root) \<leftarrow> (case (be_left e, be_right e) of
              (None, None) \<Rightarrow> remove_leaf h entry e root
            | (None, Some right) \<Rightarrow> remove_single h entry e right root
            | (Some left, None) \<Rightarrow> remove_single h entry e left root
            | (Some _, Some right) \<Rightarrow> do { h \<leftarrow> remove_double h entry right; Some (h, root) });
          Some (bst\<lparr> bst_entries := h \<rparr>, root, be_value e)
        })
   }"

definition lexbor_bst_remove :: "'v lexbor_bst \<Rightarrow> addr option \<Rightarrow> size_t \<Rightarrow> ('v lexbor_bst \<times> addr option \<times> 'v option) option" where
  "lexbor_bst_remove bst scope sz = do {
     r \<leftarrow> bst_search_loop (bst_entries bst) scope sz;
     (case r of
        None \<Rightarrow> Some (bst, scope, None)
      | Some entry \<Rightarrow> lexbor_bst_remove_by_pointer bst entry scope)
   }"

text \<open>The last component of the result is \<open>*found_size\<close>.\<close>

definition lexbor_bst_remove_close ::
  "'v lexbor_bst \<Rightarrow> addr option \<Rightarrow> size_t \<Rightarrow> ('v lexbor_bst \<times> addr option \<times> 'v option \<times> size_t) option" where
  "lexbor_bst_remove_close bst scope sz = do {
     r \<leftarrow> bst_close_loop (bst_entries bst) scope None sz;
     (case r of
        None \<Rightarrow> Some (bst, scope, None, 0)
      | Some entry \<Rightarrow> do {
          e \<leftarrow> bst_entries bst entry;
          (bst, scope, value) \<leftarrow> lexbor_bst_remove_by_pointer bst entry scope;
          Some (bst, scope, value, be_size e)
        })
   }"

end
