(* ===== verification/Mem_Pool.thy ===== *)
theory Mem_Pool
  imports Lxb_String Mem_Bst
begin

text \<open>
  The memory pools of \<open>core/mem.c\<close> and \<open>core/mraw.c\<close>.  A pool is a list of chunks, each with a block of memory that is handed out
  from its begin on; \<open>mraw\<close> writes the size of a piece in front of it and keeps freed pieces in a search tree by size.

  A pointer into a block is the block and an offset.  Memory is a map from the pointers at multiples of 8 to the words there, where
  \<^const>\<open>None\<close> is an indeterminate word; an access outside of a live block or at another offset is undefined here, and the code makes
  none of the latter because all sizes are aligned.  The results of \<open>lexbor_calloc\<close> and \<open>lexbor_malloc\<close> for a new chunk and its block
  are an argument of the operations, \<^const>\<open>None\<close> when there is no memory.

  \<open>Mem_Pool_Spec\<close> shows what the operations of \<open>core/mem.c\<close> do.
\<close>

section \<open>Chunks\<close>

type_synonym ptr = "addr \<times> nat"

record mem_chunk =
  ck_data :: "addr option"
  ck_length :: size_t
  ck_size :: size_t
  ck_next :: "addr option"
  ck_prev :: "addr option"

record lexbor_mem =
  mm_chunks :: "addr \<rightharpoonup> mem_chunk"
  mm_blocks :: "addr \<rightharpoonup> size_t"
  mm_words :: "ptr \<Rightarrow> size_t option"
  mm_chunk :: "addr option"
  mm_first :: "addr option"
  mm_min_size :: size_t
  mm_chunk_length :: size_t

text \<open>The chunk and the block that the system returns.\<close>

type_synonym mem_new = "addr option \<times> addr option"

definition lexbor_mem_align_floor :: "size_t \<Rightarrow> size_t" where
  "lexbor_mem_align_floor sz = (if sz mod 8 \<noteq> 0 then sz - sz mod 8 else sz)"

definition ck_set :: "lexbor_mem \<Rightarrow> addr \<Rightarrow> (mem_chunk \<Rightarrow> mem_chunk) \<Rightarrow> lexbor_mem option" where
  "ck_set m a f = do { c \<leftarrow> mm_chunks m a; Some (m\<lparr> mm_chunks := (mm_chunks m)(a \<mapsto> f c) \<rparr>) }"

text \<open>The chunk that is in use.\<close>

definition cur_chunk :: "lexbor_mem \<Rightarrow> (addr \<times> mem_chunk) option" where
  "cur_chunk m = do { a \<leftarrow> mm_chunk m; c \<leftarrow> mm_chunks m a; Some (a, c) }"

text \<open>\<open>lexbor_malloc\<close> and \<open>lexbor_free\<close> of a block; the latter accepts NULL.\<close>

definition block_make :: "addr option \<Rightarrow> lexbor_mem \<Rightarrow> size_t \<Rightarrow> lexbor_mem" where
  "block_make blk m sz = (case blk of None \<Rightarrow> m | Some b \<Rightarrow> m\<lparr> mm_blocks := (mm_blocks m)(b \<mapsto> sz), mm_words := (\<lambda>p. if fst p = b then None else mm_words m p) \<rparr>)"

definition block_free :: "lexbor_mem \<Rightarrow> addr option \<Rightarrow> lexbor_mem option" where
  "block_free m blk = (case blk of None \<Rightarrow> Some m | Some b \<Rightarrow> do { _ \<leftarrow> mm_blocks m b; Some (m\<lparr> mm_blocks := (mm_blocks m)(b := None) \<rparr>) })"

text \<open>The result holds the chunk with its new fields; \<open>chunk->data\<close> is what is returned.\<close>

definition lexbor_mem_chunk_init :: "addr option \<Rightarrow> lexbor_mem \<Rightarrow> mem_chunk \<Rightarrow> size_t \<Rightarrow> lexbor_mem \<times> mem_chunk" where
  "lexbor_mem_chunk_init blk m chunk len =
    (let len = lexbor_mem_align len;
         sz = (if len > mm_min_size m then (if mm_min_size m > SIZE_MAX - len then len else len + mm_min_size m) else mm_min_size m)
     in (block_make blk m sz, chunk\<lparr> ck_size := sz, ck_length := 0, ck_data := blk \<rparr>))"

definition ck_empty :: mem_chunk where
  "ck_empty = \<lparr> ck_data = None, ck_length = 0, ck_size = 0, ck_next = None, ck_prev = None \<rparr>"

definition lexbor_mem_chunk_make :: "mem_new \<Rightarrow> lexbor_mem \<Rightarrow> size_t \<Rightarrow> lexbor_mem \<times> addr option" where
  "lexbor_mem_chunk_make new m len =
    (case fst new of
       None \<Rightarrow> (m, None)
     | Some a \<Rightarrow>
         (let (m', chunk) = lexbor_mem_chunk_init (snd new) m ck_empty len in
          if ck_data chunk = None then (m, None)
          else (m'\<lparr> mm_chunks := (mm_chunks m')(a \<mapsto> chunk) \<rparr>, Some a)))"

definition lexbor_mem_chunk_destroy :: "lexbor_mem \<Rightarrow> addr \<Rightarrow> bool \<Rightarrow> lexbor_mem option" where
  "lexbor_mem_chunk_destroy m a self_destroy = do {
     c \<leftarrow> mm_chunks m a;
     m \<leftarrow> (if ck_data c \<noteq> None then do {
         m \<leftarrow> block_free m (ck_data c);
         ck_set m a (ck_data_update (\<lambda>_. None))
       } else Some m);
     Some (if self_destroy then m\<lparr> mm_chunks := (mm_chunks m)(a := None) \<rparr> else m)
   }"

definition lexbor_mem_init :: "mem_new \<Rightarrow> lexbor_mem \<Rightarrow> size_t \<Rightarrow> lexbor_mem \<times> lxb_status" where
  "lexbor_mem_init new m min_chunk_size =
    (if min_chunk_size = 0 then (m, LXB_STATUS_ERROR_WRONG_ARGS)
     else
       (let m = m\<lparr> mm_min_size := lexbor_mem_align min_chunk_size \<rparr>;
            (m, r) = lexbor_mem_chunk_make new m (mm_min_size m);
            m = m\<lparr> mm_chunk := r \<rparr>
        in (if r = None then (m, LXB_STATUS_ERROR_MEMORY_ALLOCATION)
            else (m\<lparr> mm_chunk_length := 1, mm_first := r \<rparr>, LXB_STATUS_OK))))"

text \<open>\<open>while (chunk->prev) { ... }\<close>\<close>

partial_function (option) mem_clean_loop :: "lexbor_mem \<Rightarrow> addr \<Rightarrow> (lexbor_mem \<times> addr) option" where
  "mem_clean_loop m chunk = do {
     c \<leftarrow> mm_chunks m chunk;
     (case ck_prev c of
        None \<Rightarrow> Some (m, chunk)
      | Some prev \<Rightarrow> do {
          m \<leftarrow> block_free m (ck_data c);
          mem_clean_loop (m\<lparr> mm_chunks := (mm_chunks m)(chunk := None) \<rparr>) prev
        })
   }"

definition lexbor_mem_clean :: "lexbor_mem \<Rightarrow> lexbor_mem option" where
  "lexbor_mem_clean m = do {
     chunk \<leftarrow> mm_chunk m;
     (m, chunk) \<leftarrow> mem_clean_loop m chunk;
     m \<leftarrow> ck_set m chunk (\<lambda>c. c\<lparr> ck_next := None, ck_length := 0 \<rparr>);
     Some (m\<lparr> mm_chunk := mm_first m, mm_chunk_length := 1 \<rparr>)
   }"

partial_function (option) mem_destroy_loop :: "lexbor_mem \<Rightarrow> addr option \<Rightarrow> lexbor_mem option" where
  "mem_destroy_loop m chunk =
    (case chunk of
       None \<Rightarrow> Some m
     | Some chunk \<Rightarrow> do {
         c \<leftarrow> mm_chunks m chunk;
         m \<leftarrow> lexbor_mem_chunk_destroy m chunk True;
         mem_destroy_loop m (ck_prev c)
       })"

definition lexbor_mem_destroy :: "lexbor_mem \<Rightarrow> lexbor_mem option" where
  "lexbor_mem_destroy m = (if mm_chunk m = None then Some m else do {
     m \<leftarrow> mem_destroy_loop m (mm_chunk m);
     Some (m\<lparr> mm_chunk := None \<rparr>)
   })"

text \<open>A new chunk behind the current one.\<close>

definition chunk_add :: "mem_new \<Rightarrow> lexbor_mem \<Rightarrow> size_t \<Rightarrow> (lexbor_mem \<times> bool) option" where
  "chunk_add new m len = do {
     (a, _) \<leftarrow> cur_chunk m;
     let (m, r) = lexbor_mem_chunk_make new m len;
     m \<leftarrow> ck_set m a (ck_next_update (\<lambda>_. r));
     (case r of
        None \<Rightarrow> Some (m, False)
      | Some n \<Rightarrow> do {
          m \<leftarrow> ck_set m n (ck_prev_update (\<lambda>_. Some a));
          Some (m\<lparr> mm_chunk := Some n, mm_chunk_length := mm_chunk_length m + 1 \<rparr>, True)
        })
   }"

text \<open>\<open>data = &chunk->data[chunk->length]; chunk->length += length;\<close> where \<open>data\<close> must not be NULL.\<close>

definition chunk_take :: "lexbor_mem \<Rightarrow> size_t \<Rightarrow> (lexbor_mem \<times> ptr option) option" where
  "chunk_take m len = do {
     (a, c) \<leftarrow> cur_chunk m;
     b \<leftarrow> ck_data c;
     m \<leftarrow> ck_set m a (ck_length_update (\<lambda>l. l + len));
     Some (m, Some (b, unat (ck_length c)))
   }"

definition lexbor_mem_alloc :: "mem_new \<Rightarrow> lexbor_mem \<Rightarrow> size_t \<Rightarrow> (lexbor_mem \<times> ptr option) option" where
  "lexbor_mem_alloc new m len =
    (if len = 0 then Some (m, None)
     else do {
       let len = lexbor_mem_align len;
       (a, c) \<leftarrow> cur_chunk m;
       (if ck_length c + len > ck_size c then
          (if SIZE_MAX - mm_chunk_length m = 0 then Some (m, None)
           else do {
             (m, ok) \<leftarrow> chunk_add new m len;
             if ok then chunk_take m len else Some (m, None)
           })
        else chunk_take m len)
     })"

section \<open>Words\<close>

definition word_at :: "lexbor_mem \<Rightarrow> ptr \<Rightarrow> bool" where
  "word_at m p \<longleftrightarrow> snd p mod 8 = 0 \<and> (case mm_blocks m (fst p) of None \<Rightarrow> False | Some n \<Rightarrow> snd p + 8 \<le> unat n)"

definition lexbor_mraw_meta_set :: "lexbor_mem \<Rightarrow> ptr \<Rightarrow> size_t \<Rightarrow> lexbor_mem option" where
  "lexbor_mraw_meta_set m p sz = (if word_at m p then Some (m\<lparr> mm_words := (mm_words m)(p := Some sz) \<rparr>) else None)"

text \<open>The pointer to the size in front of the data.\<close>

definition meta_ptr :: "ptr \<Rightarrow> ptr option" where
  "meta_ptr p = (if snd p < 8 then None else Some (fst p, snd p - 8))"

definition lexbor_mraw_data_begin :: "ptr \<Rightarrow> ptr" where
  "lexbor_mraw_data_begin p = (fst p, snd p + 8)"

definition lexbor_mraw_data_size :: "lexbor_mem \<Rightarrow> ptr \<Rightarrow> size_t option" where
  "lexbor_mraw_data_size m data = do { p \<leftarrow> meta_ptr data; if word_at m p then mm_words m p else None }"

definition lexbor_mraw_data_size_set :: "lexbor_mem \<Rightarrow> ptr \<Rightarrow> size_t \<Rightarrow> lexbor_mem option" where
  "lexbor_mraw_data_size_set m data sz = do { p \<leftarrow> meta_ptr data; lexbor_mraw_meta_set m p sz }"

text \<open>The \<open>n\<close> bytes from \<open>p\<close> on lie in a live block.\<close>

definition in_block :: "lexbor_mem \<Rightarrow> ptr \<Rightarrow> nat \<Rightarrow> bool" where
  "in_block m p n \<longleftrightarrow> (case mm_blocks m (fst p) of None \<Rightarrow> False | Some sz \<Rightarrow> snd p + n \<le> unat sz)"

text \<open>\<open>memset(p, 0, n)\<close> and \<open>memcpy(dst, src, n)\<close>; a word that is written in part is indeterminate afterwards,
  and \<open>memcpy\<close> is undefined when the two ranges overlap.\<close>

definition words_fill :: "lexbor_mem \<Rightarrow> ptr \<Rightarrow> nat \<Rightarrow> (nat \<Rightarrow> size_t option) \<Rightarrow> lexbor_mem option" where
  "words_fill m p n f =
    (if in_block m p n \<and> snd p mod 8 = 0 then
       Some (m\<lparr> mm_words := (\<lambda>q. if fst q = fst p \<and> snd p \<le> snd q \<and> snd q < snd p + n then
           (if snd q + 8 \<le> snd p + n then f (snd q - snd p) else None) else mm_words m q) \<rparr>)
     else None)"

definition words_zero :: "lexbor_mem \<Rightarrow> ptr \<Rightarrow> nat \<Rightarrow> lexbor_mem option" where
  "words_zero m p n = words_fill m p n (\<lambda>_. Some 0)"

definition words_copy :: "lexbor_mem \<Rightarrow> ptr \<Rightarrow> ptr \<Rightarrow> nat \<Rightarrow> lexbor_mem option" where
  "words_copy m dst src n =
    (if in_block m src n \<and> snd src mod 8 = 0 \<and> (fst src \<noteq> fst dst \<or> snd src + n \<le> snd dst \<or> snd dst + n \<le> snd src) then words_fill m dst n (\<lambda>i. mm_words m (fst src, snd src + i))
     else None)"

definition lexbor_mem_calloc :: "mem_new \<Rightarrow> lexbor_mem \<Rightarrow> size_t \<Rightarrow> (lexbor_mem \<times> ptr option) option" where
  "lexbor_mem_calloc new m len = do {
     (m, data) \<leftarrow> lexbor_mem_alloc new m len;
     (case data of
        None \<Rightarrow> Some (m, None)
      | Some p \<Rightarrow> do { m \<leftarrow> words_zero m p (unat len); Some (m, Some p) })
   }"

end
