(* ===== verification/Mem_Mraw.thy ===== *)
theory Mem_Mraw
  imports Mem_Pool
begin

text \<open>
  The pool \<open>core/mraw.c\<close> for pieces of any size.  The operations carry what the system returns: a chunk and a block, and the entries
  of the search tree for the pieces that go into the cache.
\<close>

section \<open>The object\<close>

record lexbor_mraw =
  mr_mem :: lexbor_mem
  mr_cache :: "ptr lexbor_bst"

record mraw_new =
  new_chunk :: mem_new
  new_tail :: "addr option"
  new_piece :: "addr option"

abbreviation (input) meta_size :: size_t where "meta_size \<equiv> 8"

definition mr_mem_do :: "lexbor_mraw \<Rightarrow> (lexbor_mem \<Rightarrow> lexbor_mem option) \<Rightarrow> lexbor_mraw option" where
  "mr_mem_do mr f = do { m \<leftarrow> f (mr_mem mr); Some (mr\<lparr> mr_mem := m \<rparr>) }"

text \<open>\<open>lexbor_bst_insert(mraw->cache, lexbor_bst_root_ref(mraw->cache), size, data)\<close>; the result is not looked at.\<close>

definition cache_insert :: "addr option \<Rightarrow> lexbor_mraw \<Rightarrow> size_t \<Rightarrow> ptr \<Rightarrow> lexbor_mraw option" where
  "cache_insert ent mr sz data = do {
     (b, x, _) \<leftarrow> lexbor_bst_insert ent (mr_cache mr) (bst_root (mr_cache mr)) sz (Some data);
     Some (mr\<lparr> mr_cache := b\<lparr> bst_root := x \<rparr> \<rparr>)
   }"

text \<open>\<open>mem\<close> tells whether \<open>lexbor_mem_create\<close> had memory, and \<open>st\<close> is the status of the initialisation of the cache.\<close>

definition lexbor_mraw_init :: "bool \<Rightarrow> mem_new \<Rightarrow> lxb_status \<Rightarrow> lexbor_mraw \<Rightarrow> size_t \<Rightarrow> lexbor_mraw \<times> lxb_status" where
  "lexbor_mraw_init mem new st mr chunk_size =
    (if chunk_size = 0 then (mr, LXB_STATUS_ERROR_WRONG_ARGS)
     else if \<not> mem then (mr, LXB_STATUS_ERROR_OBJECT_IS_NULL)
     else
       (let (m, r) = lexbor_mem_init new (mr_mem mr) (chunk_size + meta_size);
            mr = mr\<lparr> mr_mem := m \<rparr>
        in if r \<noteq> LXB_STATUS_OK then (mr, r)
           else if st \<noteq> LXB_STATUS_OK then (mr, st)
           else (mr\<lparr> mr_cache := lexbor_bst_clean (mr_cache mr) \<rparr>, LXB_STATUS_OK)))"

definition lexbor_mraw_clean :: "lexbor_mraw \<Rightarrow> lexbor_mraw option" where
  "lexbor_mraw_clean mr = do {
     m \<leftarrow> lexbor_mem_clean (mr_mem mr);
     Some (mr\<lparr> mr_mem := m, mr_cache := lexbor_bst_clean (mr_cache mr) \<rparr>)
   }"

text \<open>Everything goes back to the system; the entries of the cache go with their pool of objects.\<close>

definition lexbor_mraw_destroy :: "lexbor_mraw \<Rightarrow> lexbor_mraw option" where
  "lexbor_mraw_destroy mr = do {
     m \<leftarrow> lexbor_mem_destroy (mr_mem mr);
     Some (mr\<lparr> mr_mem := m, mr_cache := lexbor_bst_clean (mr_cache mr) \<rparr>)
   }"

section \<open>Allocation\<close>

text \<open>An empty chunk that is too small gets a larger block.\<close>

definition chunk_replace :: "addr option \<Rightarrow> lexbor_mraw \<Rightarrow> addr \<Rightarrow> size_t \<Rightarrow> (lexbor_mraw \<times> ptr option) option" where
  "chunk_replace blk mr a len = do {
     m \<leftarrow> lexbor_mem_chunk_destroy (mr_mem mr) a False;
     c \<leftarrow> mm_chunks m a;
     let (m, c) = lexbor_mem_chunk_init blk m c len;
     m \<leftarrow> ck_set m a (\<lambda>_. c\<lparr> ck_length := len \<rparr>);
     Some (mr\<lparr> mr_mem := m \<rparr>, map_option (\<lambda>b. (b, 0)) blk)
   }"

text \<open>What is left of the current chunk goes into the cache.\<close>

definition save_tail :: "addr option \<Rightarrow> lexbor_mraw \<Rightarrow> addr \<Rightarrow> mem_chunk \<Rightarrow> lexbor_mraw option" where
  "save_tail ent mr a c = do {
     let diff = lexbor_mem_align_floor (ck_size c - ck_length c);
     if diff > meta_size then do {
       let diff = diff - meta_size;
       b \<leftarrow> ck_data c;
       let tail = (b, unat (ck_length c));
       mr \<leftarrow> mr_mem_do mr (\<lambda>m. lexbor_mraw_meta_set m tail diff);
       mr \<leftarrow> cache_insert ent mr diff (lexbor_mraw_data_begin tail);
       mr_mem_do mr (\<lambda>m. ck_set m a (\<lambda>c. c\<lparr> ck_length := ck_size c \<rparr>))
     }
     else Some mr
   }"

definition lexbor_mraw_mem_alloc :: "mraw_new \<Rightarrow> lexbor_mraw \<Rightarrow> size_t \<Rightarrow> (lexbor_mraw \<times> ptr option) option" where
  "lexbor_mraw_mem_alloc new mr len =
    (if len = 0 then Some (mr, None)
     else do {
       (a, c) \<leftarrow> cur_chunk (mr_mem mr);
       (if ck_length c + len > ck_size c then
          (if SIZE_MAX - mm_chunk_length (mr_mem mr) = 0 then Some (mr, None)
           else if ck_length c = 0 then chunk_replace (snd (new_chunk new)) mr a len
           else do {
             mr \<leftarrow> save_tail (new_tail new) mr a c;
             (m, ok) \<leftarrow> chunk_add (new_chunk new) (mr_mem mr) len;
             if ok then do { (m, data) \<leftarrow> chunk_take m len; Some (mr\<lparr> mr_mem := m \<rparr>, data) }
             else Some (mr\<lparr> mr_mem := m \<rparr>, None)
           })
        else do { (m, data) \<leftarrow> chunk_take (mr_mem mr) len; Some (mr\<lparr> mr_mem := m \<rparr>, data) })
     })"

definition lexbor_mraw_alloc :: "mraw_new \<Rightarrow> lexbor_mraw \<Rightarrow> size_t \<Rightarrow> (lexbor_mraw \<times> ptr option) option" where
  "lexbor_mraw_alloc new mr sz = do {
     let sz = lexbor_mem_align sz;
     (mr, data) \<leftarrow> (if bst_tree_length (mr_cache mr) \<noteq> 0 then do {
         (b, x, data, _) \<leftarrow> lexbor_bst_remove_close (mr_cache mr) (bst_root (mr_cache mr)) sz;
         Some (mr\<lparr> mr_cache := b\<lparr> bst_root := x \<rparr> \<rparr>, data)
       } else Some (mr, None));
     (case data of
        Some data \<Rightarrow> Some (mr, Some data)
      | None \<Rightarrow> do {
          (mr, data) \<leftarrow> lexbor_mraw_mem_alloc new mr (sz + meta_size);
          (case data of
             None \<Rightarrow> Some (mr, None)
           | Some p \<Rightarrow> do {
               mr \<leftarrow> mr_mem_do mr (\<lambda>m. lexbor_mraw_meta_set m p sz);
               Some (mr, Some (lexbor_mraw_data_begin p))
             })
        })
   }"

definition lexbor_mraw_calloc :: "mraw_new \<Rightarrow> lexbor_mraw \<Rightarrow> size_t \<Rightarrow> (lexbor_mraw \<times> ptr option) option" where
  "lexbor_mraw_calloc new mr sz = do {
     (mr, data) \<leftarrow> lexbor_mraw_alloc new mr sz;
     (case data of
        None \<Rightarrow> Some (mr, None)
      | Some p \<Rightarrow> do {
          n \<leftarrow> lexbor_mraw_data_size (mr_mem mr) p;
          mr \<leftarrow> mr_mem_do mr (\<lambda>m. words_zero m p (unat n));
          Some (mr, Some p)
        })
   }"

text \<open>\<open>src\<close> holds the words that are copied.\<close>

definition lexbor_mraw_dup :: "mraw_new \<Rightarrow> lexbor_mraw \<Rightarrow> (nat \<Rightarrow> size_t option) \<Rightarrow> size_t \<Rightarrow> (lexbor_mraw \<times> ptr option) option" where
  "lexbor_mraw_dup new mr src sz = do {
     (mr, data) \<leftarrow> lexbor_mraw_alloc new mr sz;
     (case data of
        None \<Rightarrow> Some (mr, None)
      | Some p \<Rightarrow> do {
          mr \<leftarrow> mr_mem_do mr (\<lambda>m. words_fill m p (unat sz) src);
          Some (mr, Some p)
        })
   }"

definition lexbor_mraw_free :: "addr option \<Rightarrow> lexbor_mraw \<Rightarrow> ptr \<Rightarrow> lexbor_mraw option" where
  "lexbor_mraw_free ent mr data = do {
     sz \<leftarrow> lexbor_mraw_data_size (mr_mem mr) data;
     cache_insert ent mr sz data
   }"

section \<open>Changing the size\<close>

text \<open>The result is the pointer and \<open>*is_valid\<close>.\<close>

definition lexbor_mraw_realloc_tail ::
  "mraw_new \<Rightarrow> lexbor_mraw \<Rightarrow> ptr \<Rightarrow> ptr \<Rightarrow> size_t \<Rightarrow> size_t \<Rightarrow> size_t \<Rightarrow> (lexbor_mraw \<times> ptr option \<times> bool) option" where
  "lexbor_mraw_realloc_tail new mr data begin_ptr sz begin_len new_size = do {
     (a, c) \<leftarrow> cur_chunk (mr_mem mr);
     if ck_size c > begin_len + new_size then
       (if new_size = 0 then do {
          mr \<leftarrow> mr_mem_do mr (\<lambda>m. ck_set m a (ck_length_update (\<lambda>_. begin_len - meta_size)));
          Some (mr, None, True)
        }
        else do {
          mr \<leftarrow> mr_mem_do mr (\<lambda>m. ck_set m a (ck_length_update (\<lambda>_. begin_len + new_size)));
          mr \<leftarrow> mr_mem_do mr (\<lambda>m. lexbor_mraw_meta_set m begin_ptr new_size);
          Some (mr, Some data, True)
        })
     else if begin_len = meta_size then
       (let (m, nc) = lexbor_mem_chunk_init (snd (new_chunk new)) (mr_mem mr) ck_empty (new_size + meta_size) in
        (case ck_data nc of
           None \<Rightarrow> Some (mr\<lparr> mr_mem := m \<rparr>, None, True)
         | Some b \<Rightarrow> do {
             m \<leftarrow> lexbor_mraw_meta_set m (b, 0) new_size;
             let new_data = lexbor_mraw_data_begin (b, 0);
             m \<leftarrow> (if sz \<noteq> 0 then words_copy m new_data data (unat sz) else Some m);
             m \<leftarrow> lexbor_mem_chunk_destroy m a False;
             m \<leftarrow> ck_set m a (\<lambda>c. c\<lparr> ck_data := ck_data nc, ck_size := ck_size nc, ck_length := new_size + meta_size \<rparr>);
             Some (mr\<lparr> mr_mem := m \<rparr>, Some new_data, True)
           }))
     else do {
       let sz = lexbor_mem_align_floor (sz + (ck_size c - ck_length c));
       mr \<leftarrow> mr_mem_do mr (\<lambda>m. lexbor_mraw_meta_set m begin_ptr sz);
       mr \<leftarrow> mr_mem_do mr (\<lambda>m. ck_set m a (\<lambda>c. c\<lparr> ck_length := ck_size c \<rparr>));
       Some (mr, None, False)
     }
   }"

text \<open>A smaller size: the rest goes into the cache.  It begins at \<open>data[diff]\<close>.\<close>

definition realloc_shrink :: "addr option \<Rightarrow> lexbor_mraw \<Rightarrow> ptr \<Rightarrow> ptr \<Rightarrow> size_t \<Rightarrow> size_t \<Rightarrow> (lexbor_mraw \<times> ptr option) option" where
  "realloc_shrink ent mr data begin_ptr sz new_size =
    (if new_size = 0 then do {
       mr \<leftarrow> cache_insert ent mr sz data;
       Some (mr, None)
     }
     else do {
       let diff = lexbor_mem_align_floor (sz - new_size);
       mr \<leftarrow> (if diff > meta_size then do {
           mr \<leftarrow> mr_mem_do mr (\<lambda>m. lexbor_mraw_meta_set m begin_ptr new_size);
           let new_size = diff - meta_size;
           let begin_ptr = (fst data, snd data + unat diff);
           mr \<leftarrow> mr_mem_do mr (\<lambda>m. lexbor_mraw_meta_set m begin_ptr new_size);
           cache_insert ent mr new_size (lexbor_mraw_data_begin begin_ptr)
         } else Some mr);
       Some (mr, Some data)
     })"

text \<open>A larger size: a new piece.\<close>

definition realloc_move :: "mraw_new \<Rightarrow> lexbor_mraw \<Rightarrow> ptr \<Rightarrow> size_t \<Rightarrow> size_t \<Rightarrow> (lexbor_mraw \<times> ptr option) option" where
  "realloc_move new mr data sz new_size = do {
     (mr, r) \<leftarrow> lexbor_mraw_alloc new mr new_size;
     (case r of
        None \<Rightarrow> Some (mr, None)
      | Some p \<Rightarrow> do {
          mr \<leftarrow> (if sz \<noteq> 0 then mr_mem_do mr (\<lambda>m. words_copy m p data (unat sz)) else Some mr);
          mr \<leftarrow> lexbor_mraw_free (new_piece new) mr data;
          Some (mr, Some p)
        })
   }"

definition lexbor_mraw_realloc :: "mraw_new \<Rightarrow> lexbor_mraw \<Rightarrow> ptr \<Rightarrow> size_t \<Rightarrow> (lexbor_mraw \<times> ptr option) option" where
  "lexbor_mraw_realloc new mr data new_size = do {
     (_, c) \<leftarrow> cur_chunk (mr_mem mr);
     begin_ptr \<leftarrow> meta_ptr data;
     sz \<leftarrow> lexbor_mraw_data_size (mr_mem mr) data;
     let new_size = lexbor_mem_align new_size;
     (mr, ptr, is_valid) \<leftarrow> (if ck_length c \<ge> sz then do {
         b \<leftarrow> ck_data c;
         let begin_len = ck_length c - sz;
         if (b, unat begin_len) = data then lexbor_mraw_realloc_tail new mr data begin_ptr sz begin_len new_size
         else Some (mr, None, False)
       } else Some (mr, None, False));
     if is_valid then Some (mr, ptr)
     else if new_size < sz then realloc_shrink (new_piece new) mr data begin_ptr sz new_size
     else realloc_move new mr data sz new_size
   }"

end
