(* ===== verification/Mem_Pool_Spec.thy ===== *)
theory Mem_Pool_Spec
  imports Mem_Pool
begin

text \<open>
  The chunks of a pool as a list, and the regions that have been handed out: they lie in the used part of the chunks and do not overlap.
  The lemmas show what the operations of \<open>core/mem.c\<close> do to this.
\<close>

section \<open>Alignment\<close>

lemma align_ok:
  assumes "unat n < 2 ^ 63"
  shows "unat n \<le> unat (lexbor_mem_align n)" "unat (lexbor_mem_align n) < unat n + 8" "8 dvd unat (lexbor_mem_align n)"
proof -
  show "unat n \<le> unat (lexbor_mem_align n)" "unat (lexbor_mem_align n) < unat n + 8" using mem_align_le [OF assms] .
  have r: "unat (n mod 8) = unat n mod 8" by (simp add: unat_mod)
  show "8 dvd unat (lexbor_mem_align n)"
  proof (cases "n mod 8 = 0")
    case True
    then show ?thesis using r by (simp add: lexbor_mem_align_def mod_eq_0_iff_dvd)
  next
    case False
    have d: "unat (8 - n mod 8) = 8 - unat n mod 8" by (simp add: unat_sub_if' r)
    have "unat (n + (8 - n mod 8)) = unat n + (8 - unat n mod 8)"
      using assms d by (subst unat_plus_if_fits) simp_all
    moreover have "(n + (8 - n mod 8)) mod 8 = 0 mod (8 :: nat)" for n :: nat by presburger
    ultimately have "unat (n + (8 - n mod 8)) mod 8 = 0" by simp
    then show ?thesis using False by (simp add: lexbor_mem_align_def mod_eq_0_iff_dvd)
  qed
qed

lemma align_idem: "8 dvd unat n \<Longrightarrow> lexbor_mem_align n = n" "8 dvd unat n \<Longrightarrow> lexbor_mem_align_floor n = n"
proof -
  assume "8 dvd unat n"
  then have "unat (n mod 8) = 0" by (simp add: unat_mod)
  then show "lexbor_mem_align n = n" "lexbor_mem_align_floor n = n" by (simp_all add: lexbor_mem_align_def lexbor_mem_align_floor_def unat_eq_zero)
qed

section \<open>The chunks and the regions\<close>

text \<open>The chunks from the newest to the first.\<close>

fun back_chain :: "(addr \<rightharpoonup> mem_chunk) \<Rightarrow> addr option \<Rightarrow> addr option \<Rightarrow> addr list \<Rightarrow> bool" where
  "back_chain ch nx x [] \<longleftrightarrow> x = None"
| "back_chain ch nx x (a # as) \<longleftrightarrow> x = Some a \<and> (\<exists>c. ch a = Some c \<and> ck_next c = nx \<and> back_chain ch (Some a) (ck_prev c) as)"

definition chunk_ok :: "lexbor_mem \<Rightarrow> mem_chunk \<Rightarrow> bool" where
  "chunk_ok m c \<longleftrightarrow> (\<exists>b. ck_data c = Some b \<and> mm_blocks m b = Some (ck_size c)) \<and> ck_length c \<le> ck_size c \<and>
    8 dvd unat (ck_length c) \<and> 8 dvd unat (ck_size c) \<and> unat (ck_size c) \<le> 2 ^ 62"

text \<open>A region is a block, where it begins and where it ends.\<close>

type_synonym region = "addr \<times> nat \<times> nat"

definition apart :: "region \<Rightarrow> region \<Rightarrow> bool" where
  "apart = (\<lambda>(b, s, e) (b', s', e'). b \<noteq> b' \<or> e \<le> s' \<or> e' \<le> s)"

definition in_chunk :: "lexbor_mem \<Rightarrow> region \<Rightarrow> bool" where
  "in_chunk m = (\<lambda>(b, s, e). s < e \<and> 8 dvd s \<and> 8 dvd e \<and> (\<exists>a c. mm_chunks m a = Some c \<and> ck_data c = Some b \<and> e \<le> unat (ck_length c)))"

definition chunk_list :: "lexbor_mem \<Rightarrow> addr list \<Rightarrow> bool" where
  "chunk_list m as \<longleftrightarrow> back_chain (mm_chunks m) None (mm_chunk m) as \<and> as \<noteq> [] \<and> distinct as \<and> dom (mm_chunks m) = set as \<and> mm_first m = Some (last as)"

definition chunks_ok :: "lexbor_mem \<Rightarrow> bool" where
  "chunks_ok m \<longleftrightarrow> (\<exists>as. chunk_list m as) \<and> (\<forall>a c. mm_chunks m a = Some c \<longrightarrow> chunk_ok m c) \<and>
    (\<forall>a b c d. mm_chunks m a = Some c \<longrightarrow> mm_chunks m b = Some d \<longrightarrow> ck_data c = ck_data d \<longrightarrow> a = b) \<and>
    (\<forall>b. b \<in> dom (mm_blocks m) \<longrightarrow> (\<exists>a c. mm_chunks m a = Some c \<and> ck_data c = Some b)) \<and>
    8 dvd unat (mm_min_size m) \<and> unat (mm_min_size m) \<le> 2 ^ 61"

lemma chunks_okI:
  assumes "chunk_list m as" "\<And>a c. mm_chunks m a = Some c \<Longrightarrow> chunk_ok m c"
    "\<And>a b c d. mm_chunks m a = Some c \<Longrightarrow> mm_chunks m b = Some d \<Longrightarrow> ck_data c = ck_data d \<Longrightarrow> a = b"
    "\<And>b. b \<in> dom (mm_blocks m) \<Longrightarrow> \<exists>a c. mm_chunks m a = Some c \<and> ck_data c = Some b"
    "8 dvd unat (mm_min_size m)" "unat (mm_min_size m) \<le> 2 ^ 61"
  shows "chunks_ok m"
  unfolding chunks_ok_def using assms by blast

lemma chunks_okD:
  assumes "chunks_ok m"
  shows "mm_chunks m a = Some c \<Longrightarrow> chunk_ok m c"
    "mm_chunks m a = Some c \<Longrightarrow> mm_chunks m b = Some d \<Longrightarrow> ck_data c = ck_data d \<Longrightarrow> a = b"
    "b \<in> dom (mm_blocks m) \<Longrightarrow> \<exists>a c. mm_chunks m a = Some c \<and> ck_data c = Some b"
    "8 dvd unat (mm_min_size m)" "unat (mm_min_size m) \<le> 2 ^ 61"
  using assms unfolding chunks_ok_def by blast+

definition mem_inv :: "lexbor_mem \<Rightarrow> region set \<Rightarrow> bool" where
  "mem_inv m R \<longleftrightarrow> chunks_ok m \<and> (\<forall>r \<in> R. in_chunk m r) \<and> (\<forall>r \<in> R. \<forall>r' \<in> R. r \<noteq> r' \<longrightarrow> apart r r')"

lemma back_chain_cong:
  "(\<And>a. a \<in> set as \<Longrightarrow> ch a = ch' a) \<Longrightarrow> back_chain ch nx x as = back_chain ch' nx x as"
  by (induction ch nx x as rule: back_chain.induct) auto

text \<open>Data, length and size of a chunk do not matter for the list.\<close>

lemma back_chain_upd:
  "ch a = Some c \<Longrightarrow> ck_next c' = ck_next c \<Longrightarrow> ck_prev c' = ck_prev c \<Longrightarrow> back_chain (ch(a \<mapsto> c')) nx x as = back_chain ch nx x as"
  by (induction ch nx x as rule: back_chain.induct) auto

lemma chunk_list_words [simp]: "chunk_list (m\<lparr> mm_words := w \<rparr>) as = chunk_list m as"
  by (simp add: chunk_list_def)

lemma mem_inv_words [simp]: "mem_inv (m\<lparr> mm_words := w \<rparr>) R = mem_inv m R"
  by (simp add: mem_inv_def chunks_ok_def chunk_ok_def in_chunk_def)

lemma mem_inv_mono: "mem_inv m R \<Longrightarrow> R' \<subseteq> R \<Longrightarrow> mem_inv m R'"
  unfolding mem_inv_def by blast

lemma apart_sym: "apart r r' = apart r' r"
  by (auto simp: apart_def split: prod.splits)

lemma cur_chunk_ok:
  assumes "chunks_ok m"
  shows "\<exists>a c b. cur_chunk m = Some (a, c) \<and> mm_chunk m = Some a \<and> mm_chunks m a = Some c \<and> chunk_ok m c \<and> ck_data c = Some b \<and>
    mm_blocks m b = Some (ck_size c) \<and> ck_next c = None"
proof -
  obtain as where as: "back_chain (mm_chunks m) None (mm_chunk m) as" "as \<noteq> []" using assms by (auto simp: chunks_ok_def chunk_list_def)
  then obtain a c where ac: "mm_chunk m = Some a" "mm_chunks m a = Some c" "ck_next c = None" by (cases as) auto
  then have "chunk_ok m c" using assms by (auto simp: chunks_ok_def)
  then show ?thesis using ac by (auto simp: cur_chunk_def chunk_ok_def)
qed

lemma mem_inv_add:
  assumes "mem_inv m R" "in_chunk m r" "\<And>r'. r' \<in> R \<Longrightarrow> apart r r'"
  shows "mem_inv m (insert r R)"
  using assms apart_sym unfolding mem_inv_def by blast

text \<open>Replacing a chunk by one with the same pointers to its neighbours.\<close>

lemma chunk_list_upd:
  assumes "chunk_list m as" "mm_chunks m a = Some c" "ck_next c' = ck_next c" "ck_prev c' = ck_prev c"
  shows "chunk_list (m\<lparr> mm_chunks := (mm_chunks m)(a \<mapsto> c') \<rparr>) as"
  using assms back_chain_upd [of "mm_chunks m" a c c'] by (auto simp: chunk_list_def)

text \<open>The length of a chunk changes, but covers all regions.\<close>

lemma set_length:
  assumes inv: "mem_inv m R" and a: "mm_chunks m a = Some c" and l: "l \<le> ck_size c" "8 dvd unat l"
    and R: "\<And>b s e. (b, s, e) \<in> R \<Longrightarrow> ck_data c = Some b \<Longrightarrow> e \<le> unat l"
  shows "mem_inv (m\<lparr> mm_chunks := (mm_chunks m)(a \<mapsto> c\<lparr> ck_length := l \<rparr>) \<rparr>) R"
proof -
  let ?c = "c\<lparr> ck_length := l \<rparr>" let ?m = "m\<lparr> mm_chunks := (mm_chunks m)(a \<mapsto> ?c) \<rparr>"
  have i: "chunks_ok m" "\<forall>r \<in> R. in_chunk m r" "\<forall>r \<in> R. \<forall>r' \<in> R. r \<noteq> r' \<longrightarrow> apart r r'" using inv by (simp_all add: mem_inv_def)
  have same: "\<exists>d0. mm_chunks m x = Some d0 \<and> ck_data d0 = ck_data d" if "mm_chunks ?m x = Some d" for x d
    using that a by (cases "x = a") auto
  have same': "\<exists>d0. mm_chunks ?m x = Some d0 \<and> ck_data d0 = ck_data d" if "mm_chunks m x = Some d" for x d
    using that a by (cases "x = a") auto
  obtain as where as: "chunk_list m as" using i(1) by (auto simp: chunks_ok_def)
  have "chunks_ok ?m"
  proof (rule chunks_okI)
    show "chunk_list ?m as" using chunk_list_upd [OF as a] by simp
    show "chunk_ok ?m d" if d: "mm_chunks ?m x = Some d" for x d
    proof (cases "x = a")
      case True
      then show ?thesis using chunks_okD(1) [OF i(1) a] d l by (auto simp: chunk_ok_def)
    next
      case False
      then show ?thesis using chunks_okD(1) [OF i(1), of x d] d by (simp add: chunk_ok_def)
    qed
    show "x = y" if xy: "mm_chunks ?m x = Some d" "mm_chunks ?m y = Some e" "ck_data d = ck_data e" for x y d e
      using same [OF xy(1)] same [OF xy(2)] chunks_okD(2) [OF i(1)] xy(3) by metis
    show "\<exists>x d. mm_chunks ?m x = Some d \<and> ck_data d = Some b" if b: "b \<in> dom (mm_blocks ?m)" for b
      using chunks_okD(3) [OF i(1), of b] b same' by (metis lexbor_mem.select_convs(2) lexbor_mem.surjective lexbor_mem.update_convs(1))
  qed (use chunks_okD(4,5) [OF i(1)] in simp_all)
  moreover have "in_chunk ?m r" if r: "r \<in> R" for r
  proof -
    obtain b s e where r': "r = (b, s, e)" by (cases r)
    then obtain x d where xd: "mm_chunks m x = Some d" "ck_data d = Some b" "e \<le> unat (ck_length d)" "s < e" "8 dvd s" "8 dvd e"
      using i(2) r by (auto simp: in_chunk_def)
    show ?thesis
    proof (cases "x = a")
      case True
      then show ?thesis using xd a R [of b s e] r r' by (auto simp: in_chunk_def intro: exI [of _ a])
    next
      case False
      then show ?thesis using xd r' by (auto simp: in_chunk_def intro: exI [of _ x])
    qed
  qed
  ultimately show ?thesis using i(3) unfolding mem_inv_def by blast
qed

section \<open>Taking from a chunk\<close>

text \<open>The new region is apart from the others, and only the length of the current chunk changes.\<close>

definition same_blocks :: "lexbor_mem \<Rightarrow> lexbor_mem \<Rightarrow> bool" where
  "same_blocks m m' \<longleftrightarrow> (\<forall>b \<in> dom (mm_blocks m). mm_blocks m' b = mm_blocks m b \<and> (\<forall>i. mm_words m' (b, i) = mm_words m (b, i)))"

lemma same_blocks_refl: "same_blocks m m"
  by (simp add: same_blocks_def)

lemma same_blocks_trans: "same_blocks m m' \<Longrightarrow> same_blocks m' m'' \<Longrightarrow> same_blocks m m''"
  unfolding same_blocks_def by (metis domD domI)

lemma same_blocks_eq: "same_blocks m m1 \<Longrightarrow> mm_blocks m2 = mm_blocks m1 \<Longrightarrow> mm_words m2 = mm_words m1 \<Longrightarrow> same_blocks m m2"
  by (simp add: same_blocks_def)

lemma chunk_take_ok:
  assumes inv: "mem_inv m R" and c: "cur_chunk m = Some (a, c)" and len: "unat (ck_length c) + unat len \<le> unat (ck_size c)" "8 dvd unat len" "len \<noteq> 0"
  shows "wp (chunk_take m len) (\<lambda>(m', r). \<exists>b. r = Some (b, unat (ck_length c)) \<and> ck_data c = Some b \<and>
    mem_inv m' (insert (b, unat (ck_length c), unat (ck_length c) + unat len) R) \<and>
    (\<forall>r \<in> R. apart (b, unat (ck_length c), unat (ck_length c) + unat len) r) \<and>
    mm_blocks m' = mm_blocks m \<and> mm_words m' = mm_words m)"
proof -
  have i: "chunks_ok m" "\<forall>r \<in> R. in_chunk m r" using inv by (simp_all add: mem_inv_def)
  have ca: "mm_chunks m a = Some c" "mm_chunk m = Some a" using c by (auto simp: cur_chunk_def bind_eq_Some_conv)
  have ok: "chunk_ok m c" using chunks_okD(1) [OF i(1) ca(1)] .
  then obtain b where b: "ck_data c = Some b" by (auto simp: chunk_ok_def)
  let ?l = "ck_length c" let ?r = "(b, unat ?l, unat ?l + unat len)"
  have u: "unat (?l + len) = unat ?l + unat len"
    using len(1) unsigned_less [of "ck_size c", where 'a = nat] by (intro unat_plus_if_fits) linarith
  have up: "e \<le> unat ?l" if bse: "(b, s, e) \<in> R" for s e
  proof -
    obtain x d where "mm_chunks m x = Some d" "ck_data d = Some b" "e \<le> unat (ck_length d)" using i(2) bse by (auto simp: in_chunk_def)
    then show ?thesis using chunks_okD(2) [OF i(1) _ ca(1)] b ca(1) by (metis option.inject)
  qed
  let ?m = "m\<lparr> mm_chunks := (mm_chunks m)(a \<mapsto> c\<lparr> ck_length := ?l + len \<rparr>) \<rparr>"
  have "mem_inv ?m R"
  proof (rule set_length [OF inv ca(1)])
    show "?l + len \<le> ck_size c" using len(1) u by (simp add: word_le_nat_alt)
    show "8 dvd unat (?l + len)" using ok len(2) u by (simp add: chunk_ok_def)
    show "e \<le> unat (?l + len)" if "(b', s, e) \<in> R" "ck_data c = Some b'" for b' s e using up [of s e] that b u by simp
  qed
  moreover have "0 < unat len" using len(3) by (simp add: unat_gt_0)
  then have "in_chunk ?m ?r" using ok len(2) u b by (auto simp: in_chunk_def chunk_ok_def)
  moreover have "apart ?r r" if "r \<in> R" for r using up that by (cases r) (auto simp: apart_def)
  ultimately have "mem_inv ?m (insert ?r R)" "\<forall>r \<in> R. apart ?r r" using mem_inv_add by blast+
  moreover have eq: "ck_length_update (\<lambda>l. l + len) c = c\<lparr> ck_length := ?l + len \<rparr>" by (cases c) simp
  ultimately show ?thesis using c b ca by (simp add: chunk_take_def ck_set_def eq)
qed

section \<open>A new chunk\<close>

definition fresh_new :: "mem_new \<Rightarrow> lexbor_mem \<Rightarrow> bool" where
  "fresh_new new m \<longleftrightarrow> (\<forall>a. fst new = Some a \<longrightarrow> a \<notin> dom (mm_chunks m)) \<and> (\<forall>b. snd new = Some b \<longrightarrow> b \<notin> dom (mm_blocks m))"

text \<open>The size of a new block.\<close>

lemma chunk_init_size:
  assumes m: "8 dvd unat (mm_min_size m)" "unat (mm_min_size m) \<le> 2 ^ 61" and len: "unat len \<le> 2 ^ 60 + 16"
  shows "\<exists>sz. lexbor_mem_chunk_init blk m c len = (block_make blk m sz, c\<lparr> ck_size := sz, ck_length := 0, ck_data := blk \<rparr>) \<and>
    unat (lexbor_mem_align len) \<le> unat sz \<and> 8 dvd unat sz \<and> unat sz \<le> 2 ^ 62"
proof -
  let ?l = "lexbor_mem_align len"
  have l: "unat ?l < 2 ^ 60 + 24" "8 dvd unat ?l" using align_ok [of len] len by simp_all
  have u: "unat (?l + mm_min_size m) = unat ?l + unat (mm_min_size m)" using l(1) m(2) by (intro unat_plus_if_fits) simp
  have "\<not> mm_min_size m > SIZE_MAX - ?l"
    using l(1) m(2) by (simp add: word_less_nat_alt unat_sub unsigned_minus_1_eq_mask mask_eq_exp_minus_1)
  then show ?thesis using l m u by (auto simp: lexbor_mem_chunk_init_def Let_def word_less_nat_alt)
qed

lemma chunk_list_add:
  assumes "chunk_list m as" "mm_chunk m = Some a0" "mm_chunks m a0 = Some c0" "a \<notin> dom (mm_chunks m)" "ck_next nc = None" "ck_prev nc = Some a0"
    "ck_next c1 = Some a" "ck_prev c1 = ck_prev c0" "mm_chunks m' = (mm_chunks m)(a0 \<mapsto> c1, a \<mapsto> nc)" "mm_chunk m' = Some a" "mm_first m' = mm_first m"
  shows "chunk_list m' (a # as)"
proof -
  obtain as' where as: "as = a0 # as'" using assms(1,2) by (cases as) (auto simp: chunk_list_def)
  have n: "a \<noteq> a0" "a0 \<notin> set as'" "a \<notin> set as'" using assms(1,3,4) as by (auto simp: chunk_list_def)
  have "back_chain (mm_chunks m) (Some a0) (ck_prev c0) as'" using assms(1,3) as by (auto simp: chunk_list_def)
  moreover have "mm_chunks m y = mm_chunks m' y" if "y \<in> set as'" for y using that n assms(9) by auto
  ultimately have "back_chain (mm_chunks m') (Some a0) (ck_prev c0) as'" using back_chain_cong [of as' "mm_chunks m" "mm_chunks m'"] by simp
  then show ?thesis using assms n as by (auto simp: chunk_list_def)
qed

lemma chunk_add_ok:
  assumes inv: "mem_inv m R" and new: "fresh_new new m" and len: "unat len \<le> 2 ^ 60 + 16"
  shows "wp (chunk_add new m len) (\<lambda>(m', ok). mem_inv m' R \<and> same_blocks m m' \<and>
    (ok \<longrightarrow> (\<exists>a c. cur_chunk m' = Some (a, c) \<and> ck_length c = 0 \<and> unat (lexbor_mem_align len) \<le> unat (ck_size c))))"
proof -
  have i: "chunks_ok m" "\<forall>r \<in> R. in_chunk m r" "\<forall>r \<in> R. \<forall>r' \<in> R. r \<noteq> r' \<longrightarrow> apart r r'" using inv by (simp_all add: mem_inv_def)
  obtain a0 c0 b0 where c0: "cur_chunk m = Some (a0, c0)" "mm_chunk m = Some a0" "mm_chunks m a0 = Some c0" "chunk_ok m c0" "ck_data c0 = Some b0"
    "mm_blocks m b0 = Some (ck_size c0)" "ck_next c0 = None" using cur_chunk_ok [OF i(1)] by blast
  have keep: "ck_next_update (\<lambda>_. None) c0 = c0" using c0(7) by (cases c0) simp
  have same: "m\<lparr> mm_chunks := (mm_chunks m)(a0 \<mapsto> c0) \<rparr> = m" using c0(3) by (simp add: map_upd_triv)
  show ?thesis
  proof (cases "fst new = None \<or> snd new = None")
    case True
    then have "lexbor_mem_chunk_make new m len = (m, None)"
      by (auto simp: lexbor_mem_chunk_make_def lexbor_mem_chunk_init_def Let_def split: option.split)
    then show ?thesis using c0 inv same_blocks_refl by (simp add: chunk_add_def ck_set_def keep same)
  next
    case False
    then obtain a b where ab: "new = (Some a, Some b)" by (cases new) auto
    have fr: "a \<notin> dom (mm_chunks m)" "b \<notin> dom (mm_blocks m)" using new ab by (auto simp: fresh_new_def)
    obtain sz where sz: "lexbor_mem_chunk_init (Some b) m ck_empty len = (block_make (Some b) m sz, ck_empty\<lparr> ck_size := sz, ck_length := 0, ck_data := Some b \<rparr>)"
      "unat (lexbor_mem_align len) \<le> unat sz" "8 dvd unat sz" "unat sz \<le> 2 ^ 62"
      using chunk_init_size [OF chunks_okD(4,5) [OF i(1)] len] by blast
    let ?nc = "\<lparr> ck_data = Some b, ck_length = 0, ck_size = sz, ck_next = None, ck_prev = Some a0 \<rparr>"
    let ?m = "m\<lparr> mm_chunks := (mm_chunks m)(a0 \<mapsto> c0\<lparr> ck_next := Some a \<rparr>, a \<mapsto> ?nc), mm_blocks := (mm_blocks m)(b \<mapsto> sz),
      mm_words := (\<lambda>p. if fst p = b then None else mm_words m p), mm_chunk := Some a, mm_chunk_length := mm_chunk_length m + 1 \<rparr>"
    have ne: "a \<noteq> a0" "b0 \<noteq> b" using fr c0(3,6) by auto
    have run: "chunk_add new m len = Some (?m, True)"
      using ab sz(1) c0 ne by (simp add: chunk_add_def lexbor_mem_chunk_make_def ck_set_def block_make_def ck_empty_def fun_upd_twist)
    obtain as where as: "chunk_list m as" using i(1) by (auto simp: chunks_ok_def)
    have old: "\<exists>d0. mm_chunks m x = Some d0 \<and> ck_data d0 = ck_data d \<and> ck_length d0 = ck_length d \<and> ck_size d0 = ck_size d"
      if "mm_chunks ?m x = Some d" "x \<noteq> a" for x d using that c0(3) by (cases "x = a0") auto
    have old': "\<exists>d0. mm_chunks ?m x = Some d0 \<and> ck_data d0 = ck_data d \<and> ck_length d0 = ck_length d" if "mm_chunks m x = Some d" for x d
      using that c0(3) fr(1) by (cases "x = a0"; cases "x = a") auto
    have nb: "ck_data d \<noteq> Some b" if "mm_chunks m x = Some d" for x d using chunks_okD(1) [OF i(1) that] fr(2) by (auto simp: chunk_ok_def)
    have is_a: "x = a \<longleftrightarrow> ck_data d = Some b" if xd: "mm_chunks ?m x = Some d" for x d
    proof (cases "x = a")
      case False
      then obtain d0 where "mm_chunks m x = Some d0" "ck_data d0 = ck_data d" using old [OF xd] by blast
      then show ?thesis using nb False by metis
    qed (use xd in auto)
    have "chunks_ok ?m"
    proof (rule chunks_okI)
      show "chunk_list ?m (a # as)"
        by (rule chunk_list_add [OF as c0(2,3) fr(1), where nc = ?nc and ?c1.0 = "c0\<lparr> ck_next := Some a \<rparr>"]) simp_all
      show "chunk_ok ?m d" if d: "mm_chunks ?m x = Some d" for x d
      proof (cases "x = a")
        case True
        then show ?thesis using d sz(3,4) by (auto simp: chunk_ok_def)
      next
        case False
        obtain d0 where d0: "mm_chunks m x = Some d0" "ck_data d0 = ck_data d" "ck_length d0 = ck_length d" "ck_size d0 = ck_size d" using old [OF d False] by blast
        then show ?thesis using chunks_okD(1) [OF i(1) d0(1)] nb [OF d0(1)] by (auto simp: chunk_ok_def)
      qed
      show "x = y" if xy: "mm_chunks ?m x = Some d" "mm_chunks ?m y = Some e" "ck_data d = ck_data e" for x y d e
      proof (cases "x = a \<or> y = a")
        case True
        then show ?thesis using is_a [OF xy(1)] is_a [OF xy(2)] xy(3) by simp
      next
        case False
        then show ?thesis using old [OF xy(1)] old [OF xy(2)] chunks_okD(2) [OF i(1)] xy(3) by metis
      qed
      show "\<exists>x d. mm_chunks ?m x = Some d \<and> ck_data d = Some y" if y: "y \<in> dom (mm_blocks ?m)" for y
      proof (cases "y = b")
        case True
        then show ?thesis by (auto intro: exI [of _ a])
      next
        case False
        then obtain x d where xd: "mm_chunks m x = Some d" "ck_data d = Some y" using chunks_okD(3) [OF i(1), of y] y by auto
        from old' [OF xd(1)] show ?thesis unfolding xd(2) by blast
      qed
    qed (use chunks_okD(4,5) [OF i(1)] in simp_all)
    moreover have "in_chunk ?m r" if r: "r \<in> R" for r
    proof -
      obtain u s e where u: "r = (u, s, e)" by (cases r)
      then obtain x d where xd: "mm_chunks m x = Some d" "ck_data d = Some u" "e \<le> unat (ck_length d)" "s < e" "8 dvd s" "8 dvd e"
        using i(2) r by (auto simp: in_chunk_def)
      obtain d0 where "mm_chunks ?m x = Some d0" "ck_data d0 = Some u" "e \<le> unat (ck_length d0)" using old' [OF xd(1)] xd(2,3) by auto
      then show ?thesis unfolding in_chunk_def u using xd(4-6) by blast
    qed
    ultimately have "mem_inv ?m R" using i(3) unfolding mem_inv_def by blast
    moreover have "same_blocks m ?m" using fr(2) by (auto simp: same_blocks_def)
    ultimately show ?thesis using sz(2) unfolding run by (simp add: cur_chunk_def)
  qed
qed

text \<open>A chunk without regions gets another block.\<close>

lemma set_block:
  assumes inv: "mem_inv m R" and a: "mm_chunks m a = Some c" "ck_data c = Some old" and R: "\<And>s e. (old, s, e) \<notin> R"
    and b: "b \<notin> dom (mm_blocks m)" and c': "ck_data c' = Some b" "ck_size c' = sz" "ck_length c' \<le> sz" "8 dvd unat (ck_length c')" "8 dvd unat sz"
      "unat sz \<le> 2 ^ 62" "ck_next c' = ck_next c" "ck_prev c' = ck_prev c"
    and m': "mm_chunks m' = (mm_chunks m)(a \<mapsto> c')" "mm_blocks m' = (mm_blocks m)(old := None, b \<mapsto> sz)" "mm_chunk m' = mm_chunk m"
      "mm_first m' = mm_first m" "mm_min_size m' = mm_min_size m"
  shows "mem_inv m' R"
proof -
  have i: "chunks_ok m" "\<forall>r \<in> R. in_chunk m r" "\<forall>r \<in> R. \<forall>r' \<in> R. r \<noteq> r' \<longrightarrow> apart r r'" using inv by (simp_all add: mem_inv_def)
  obtain as where as: "chunk_list m as" using i(1) by (auto simp: chunks_ok_def)
  have nb: "ck_data d \<noteq> Some b" if "mm_chunks m x = Some d" for x d using chunks_okD(1) [OF i(1) that] b by (auto simp: chunk_ok_def)
  have old: "ck_data d \<noteq> Some old" if "mm_chunks m x = Some d" "x \<noteq> a" for x d
    using chunks_okD(2) [OF i(1) that(1) a(1)] that(2) a(2) by auto
  have "chunks_ok m'"
  proof (rule chunks_okI)
    show "chunk_list m' as"
      using chunk_list_upd [OF as a(1) c'(7,8)] m' by (simp add: chunk_list_def)
    show "chunk_ok m' d" if d: "mm_chunks m' x = Some d" for x d
    proof (cases "x = a")
      case True
      then show ?thesis using d c' m' by (auto simp: chunk_ok_def)
    next
      case False
      then have x: "mm_chunks m x = Some d" using d m' by simp
      then show ?thesis using chunks_okD(1) [OF i(1) x] old [OF x False] nb [OF x] m'(2) by (auto simp: chunk_ok_def)
    qed
    show "x = y" if "mm_chunks m' x = Some d" "mm_chunks m' y = Some e" "ck_data d = ck_data e" for x y d e
      using that m'(1) c'(1) nb [of x d] nb [of y e] chunks_okD(2) [OF i(1), of x d y e] by (cases "x = a"; cases "y = a") auto
    show "\<exists>x d. mm_chunks m' x = Some d \<and> ck_data d = Some y" if y: "y \<in> dom (mm_blocks m')" for y
    proof (cases "y = b")
      case True
      then show ?thesis using m'(1) c'(1) by (auto intro: exI [of _ a])
    next
      case False
      then obtain x d where xd: "mm_chunks m x = Some d" "ck_data d = Some y" "y \<noteq> old" using chunks_okD(3) [OF i(1), of y] y m'(2) by (auto split: if_splits)
      then have "x \<noteq> a" using a by auto
      then show ?thesis using xd m'(1) by auto
    qed
  qed (use chunks_okD(4,5) [OF i(1)] m'(5) in simp_all)
  moreover have "in_chunk m' r" if r: "r \<in> R" for r
  proof -
    obtain u s e where u: "r = (u, s, e)" by (cases r)
    then obtain x d where xd: "mm_chunks m x = Some d" "ck_data d = Some u" "e \<le> unat (ck_length d)" "s < e" "8 dvd s" "8 dvd e"
      using i(2) r by (auto simp: in_chunk_def)
    then have "x \<noteq> a" using R r u a by auto
    then show ?thesis using xd m'(1) u by (auto simp: in_chunk_def)
  qed
  ultimately show ?thesis using i(3) unfolding mem_inv_def by blast
qed

section \<open>Allocation, cleaning, destruction\<close>

lemma mem_alloc_ok:
  assumes inv: "mem_inv m R" and new: "fresh_new new m" and len: "unat len \<le> 2 ^ 60"
  shows "wp (lexbor_mem_alloc new m len) (\<lambda>(m', r). same_blocks m m' \<and>
    (case r of None \<Rightarrow> mem_inv m' R
     | Some (b, i) \<Rightarrow> let r = (b, i, i + unat (lexbor_mem_align len)) in mem_inv m' (insert r R) \<and> (\<forall>r' \<in> R. apart r r')))"
proof (cases "len = 0")
  case True
  then show ?thesis using inv by (simp add: lexbor_mem_alloc_def same_blocks_refl)
next
  case False
  let ?l = "lexbor_mem_align len"
  have l: "8 dvd unat ?l" "unat len \<le> unat ?l" "unat ?l < 2 ^ 60 + 8" using align_ok [of len] len by simp_all
  have l0: "?l \<noteq> 0" using False l(2) by (metis le_zero_eq unat_eq_zero)
  have idem: "lexbor_mem_align ?l = ?l" using align_idem(1) [OF l(1)] .
  have i: "chunks_ok m" using inv by (simp add: mem_inv_def)
  obtain a c b where c: "cur_chunk m = Some (a, c)" "chunk_ok m c" using cur_chunk_ok [OF i] by blast
  have u: "unat (ck_length c + ?l) = unat (ck_length c) + unat ?l"
    using c(2) l(3) by (intro unat_plus_if_fits) (auto simp: chunk_ok_def word_le_nat_alt)
  have take: "wp (chunk_take m' ?l) (\<lambda>(m', r). same_blocks m m' \<and>
    (case r of None \<Rightarrow> mem_inv m' R
     | Some (b, i) \<Rightarrow> let r = (b, i, i + unat ?l) in mem_inv m' (insert r R) \<and> (\<forall>r' \<in> R. apart r r')))"
    if "mem_inv m' R" "cur_chunk m' = Some (a', c')" "unat (ck_length c') + unat ?l \<le> unat (ck_size c')" "same_blocks m m'" for m' a' c'
    using chunk_take_ok [OF that(1-3) l(1) l0] that(4)
    by (auto simp: Let_def elim!: wp_mono intro: same_blocks_eq)
  show ?thesis
  proof (cases "ck_length c + ?l > ck_size c")
    case False
    then have "unat (ck_length c) + unat ?l \<le> unat (ck_size c)" using u by (simp add: word_le_nat_alt not_less)
    from take [OF inv c(1) this same_blocks_refl] show ?thesis using \<open>len \<noteq> 0\<close> c(1) False by (simp add: lexbor_mem_alloc_def)
  next
    case True
    show ?thesis
    proof (cases "SIZE_MAX - mm_chunk_length m = 0")
      case full: True
      then show ?thesis using \<open>len \<noteq> 0\<close> c(1) True inv same_blocks_refl by (simp add: lexbor_mem_alloc_def)
    next
      case False
      have "wp (chunk_add new m ?l) (\<lambda>(m', ok). wp (if ok then chunk_take m' ?l else Some (m', None)) (\<lambda>(m', r). same_blocks m m' \<and>
        (case r of None \<Rightarrow> mem_inv m' R
         | Some (b, i) \<Rightarrow> let r = (b, i, i + unat ?l) in mem_inv m' (insert r R) \<and> (\<forall>r' \<in> R. apart r r'))))"
        by (rule wp_mono [OF chunk_add_ok [OF inv new]]) (use l in \<open>auto simp: idem intro!: take\<close>)
      then show ?thesis using \<open>len \<noteq> 0\<close> c(1) True False by (simp add: lexbor_mem_alloc_def split_def)
    qed
  qed
qed

text \<open>A pool without the chunks of a set and their blocks.\<close>

definition without :: "lexbor_mem \<Rightarrow> addr set \<Rightarrow> lexbor_mem" where
  "without m D = m\<lparr> mm_chunks := (\<lambda>x. if x \<in> D then None else mm_chunks m x),
     mm_blocks := (\<lambda>b. if \<exists>x \<in> D. \<exists>c. mm_chunks m x = Some c \<and> ck_data c = Some b then None else mm_blocks m b) \<rparr>"

text \<open>The chunks of the list and their blocks are there, and no block belongs to two of them.\<close>

definition linked :: "lexbor_mem \<Rightarrow> addr option \<Rightarrow> addr option \<Rightarrow> addr list \<Rightarrow> bool" where
  "linked m nx x as \<longleftrightarrow> back_chain (mm_chunks m) nx x as \<and> distinct as \<and>
    (\<forall>a \<in> set as. \<exists>c b. mm_chunks m a = Some c \<and> ck_data c = Some b \<and> mm_blocks m b \<noteq> None) \<and>
    (\<forall>a \<in> set as. \<forall>a' \<in> set as. \<forall>c c'. mm_chunks m a = Some c \<longrightarrow> mm_chunks m a' = Some c' \<longrightarrow> ck_data c = ck_data c' \<longrightarrow> a = a')"

lemma linked_Cons:
  assumes "linked m nx x (a # as)"
  shows "\<exists>c b. x = Some a \<and> mm_chunks m a = Some c \<and> ck_data c = Some b \<and> mm_blocks m b \<noteq> None \<and>
    linked (without m {a}) (Some a) (ck_prev c) as \<and> without m {a} = m\<lparr> mm_blocks := (mm_blocks m)(b := None), mm_chunks := (mm_chunks m)(a := None) \<rparr>"
proof -
  obtain c b where c: "x = Some a" "mm_chunks m a = Some c" "ck_data c = Some b" "mm_blocks m b \<noteq> None" "back_chain (mm_chunks m) (Some a) (ck_prev c) as"
    "distinct as" "a \<notin> set as"
    using assms by (auto simp: linked_def)
  have w: "without m {a} = m\<lparr> mm_blocks := (mm_blocks m)(b := None), mm_chunks := (mm_chunks m)(a := None) \<rparr>"
    using c(2,3) by (auto simp: without_def fun_eq_iff)
  have ch: "mm_chunks (without m {a}) y = mm_chunks m y" if "y \<in> set as" for y using that c(7) by (auto simp: without_def)
  have "back_chain (mm_chunks (without m {a})) (Some a) (ck_prev c) as" using c(5) back_chain_cong [of as "mm_chunks (without m {a})" "mm_chunks m"] ch by simp
  moreover have "\<exists>d u. mm_chunks (without m {a}) y = Some d \<and> ck_data d = Some u \<and> mm_blocks (without m {a}) u \<noteq> None" if y: "y \<in> set as" for y
  proof -
    obtain d u where d: "mm_chunks m y = Some d" "ck_data d = Some u" "mm_blocks m u \<noteq> None" using assms y by (fastforce simp: linked_def)
    then have "u \<noteq> b" using assms c(2,3,7) y by (force simp: linked_def)
    then show ?thesis using d ch [OF y] w by auto
  qed
  moreover have "y = z" if "y \<in> set as" "z \<in> set as" "mm_chunks (without m {a}) y = Some d" "mm_chunks (without m {a}) z = Some e" "ck_data d = ck_data e" for y z d e
    using assms that ch by (fastforce simp: linked_def)
  ultimately have "linked (without m {a}) (Some a) (ck_prev c) as" using c(6) unfolding linked_def by blast
  then show ?thesis using c w by blast
qed

lemma without_without: "without (without m D) E = without m (D \<union> E)"
  by (cases m) (auto simp: without_def fun_eq_iff)

lemma clean_loop_ok: "linked m nx (Some a) (a # as) \<Longrightarrow> mem_clean_loop m a = Some (without m (set (butlast (a # as))), last (a # as))"
proof (induction as arbitrary: m nx a)
  case Nil
  then obtain c where "mm_chunks m a = Some c" "ck_prev c = None" by (auto simp: linked_def)
  then show ?case by (simp add: mem_clean_loop.simps without_def)
next
  case (Cons a' as)
  obtain c b where c: "mm_chunks m a = Some c" "ck_data c = Some b" "mm_blocks m b \<noteq> None" "linked (without m {a}) (Some a) (ck_prev c) (a' # as)"
    "without m {a} = m\<lparr> mm_blocks := (mm_blocks m)(b := None), mm_chunks := (mm_chunks m)(a := None) \<rparr>"
    using linked_Cons [OF Cons.prems] by blast
  have p: "ck_prev c = Some a'" using c(4) by (auto simp: linked_def)
  have "mem_clean_loop m a = mem_clean_loop (without m {a}) a'"
    unfolding mem_clean_loop.simps [of m a] using c p by (auto simp: block_free_def)
  then show ?case using Cons.IH c(4) p by (simp add: without_without)
qed

lemma destroy_loop_ok: "linked m nx x as \<Longrightarrow> mem_destroy_loop m x = Some (without m (set as))"
proof (induction as arbitrary: m nx x)
  case Nil
  then show ?case by (simp add: mem_destroy_loop.simps linked_def without_def)
next
  case (Cons a as)
  obtain c b where c: "x = Some a" "mm_chunks m a = Some c" "ck_data c = Some b" "mm_blocks m b \<noteq> None" "linked (without m {a}) (Some a) (ck_prev c) as"
    "without m {a} = m\<lparr> mm_blocks := (mm_blocks m)(b := None), mm_chunks := (mm_chunks m)(a := None) \<rparr>"
    using linked_Cons [OF Cons.prems] by blast
  have "lexbor_mem_chunk_destroy m a True = Some (without m {a})"
    using c(2-4,6) by (auto simp: lexbor_mem_chunk_destroy_def block_free_def ck_set_def)
  then have "mem_destroy_loop m x = mem_destroy_loop (without m {a}) (ck_prev c)"
    unfolding mem_destroy_loop.simps [of m x] using c by simp
  then show ?case using Cons.IH [OF c(5)] by (simp add: without_without)
qed

lemma linked_all:
  assumes "chunks_ok m" "chunk_list m as"
  shows "linked m None (mm_chunk m) as"
  unfolding linked_def
proof (intro conjI ballI allI impI)
  show "back_chain (mm_chunks m) None (mm_chunk m) as" "distinct as" using assms(2) by (simp_all add: chunk_list_def)
  show "\<exists>c b. mm_chunks m a = Some c \<and> ck_data c = Some b \<and> mm_blocks m b \<noteq> None" if a: "a \<in> set as" for a
  proof -
    obtain c where c: "mm_chunks m a = Some c" using assms(2) a by (auto simp: chunk_list_def)
    from chunks_okD(1) [OF assms(1) this] show ?thesis using c by (auto simp: chunk_ok_def)
  qed
qed (use chunks_okD(2) [OF assms(1)] in blast)

lemma back_chain_last: "back_chain ch nx x as \<Longrightarrow> as \<noteq> [] \<Longrightarrow> \<exists>c. ch (last as) = Some c \<and> ck_prev c = None"
proof (induction as arbitrary: nx x)
  case (Cons a as)
  then show ?case by (cases as) auto
qed simp

text \<open>Cleaning keeps the first chunk, and all of it is free again; destroying frees every chunk and every block, each once.\<close>

lemma mem_clean_ok:
  assumes "mem_inv m R"
  shows "wp (lexbor_mem_clean m) (\<lambda>m'. mem_inv m' {} \<and> mm_blocks m' \<subseteq>\<^sub>m mm_blocks m)"
proof -
  have i: "chunks_ok m" using assms by (simp add: mem_inv_def)
  obtain as where as: "chunk_list m as" using i by (auto simp: chunks_ok_def)
  note li = linked_all [OF i as]
  obtain a as' where a: "as = a # as'" "mm_chunk m = Some a" using as by (cases as) (auto simp: chunk_list_def)
  let ?l = "last as" let ?m = "without m (set (butlast as))"
  have "as = butlast as @ [?l]" using a(1) by simp
  then have l: "?l \<notin> set (butlast as)" "set as = insert ?l (set (butlast as))" "mm_first m = Some ?l"
    using as unfolding chunk_list_def by (metis distinct_append disjoint_insert(1) list.simps(15), metis Un_insert_right list.simps(15) set_append sup_bot.right_neutral empty_set, blast)
  have run: "mem_clean_loop m a = Some (?m, ?l)" using clean_loop_ok [of m None a as'] li a by simp
  obtain c where c: "mm_chunks m ?l = Some c" "ck_prev c = None" using back_chain_last [of "mm_chunks m" None "mm_chunk m" as] as by (auto simp: chunk_list_def)
  obtain b where b: "ck_data c = Some b" "mm_blocks m b = Some (ck_size c)" "8 dvd unat (ck_size c)" "unat (ck_size c) \<le> 2 ^ 62"
    using chunks_okD(1) [OF i c(1)] by (auto simp: chunk_ok_def)
  let ?c = "c\<lparr> ck_next := None, ck_length := 0 \<rparr>"
  let ?m' = "?m\<lparr> mm_chunks := [?l \<mapsto> ?c], mm_chunk := Some ?l, mm_chunk_length := 1 \<rparr>"
  have only: "mm_chunks ?m = [?l \<mapsto> c]"
  proof
    fix x
    have "mm_chunks m x = None" if "x \<notin> set as" using that as by (auto simp: chunk_list_def)
    then show "mm_chunks ?m x = [?l \<mapsto> c] x" using c(1) l(1,2) by (auto simp: without_def)
  qed
  have "lexbor_mem_clean m = Some ?m'"
    using run a(2) l(3) only by (simp add: lexbor_mem_clean_def ck_set_def) (simp add: without_def)
  moreover have blk: "mm_blocks ?m y = (if y = b then Some (ck_size c) else None)" for y
  proof (cases "\<exists>x \<in> set (butlast as). \<exists>d. mm_chunks m x = Some d \<and> ck_data d = Some y")
    case True
    then have "y \<noteq> b" using chunks_okD(2) [OF i _ c(1)] b(1) l(1) by metis
    then show ?thesis using True by (simp add: without_def)
  next
    case False
    have "mm_blocks m y = None" if "y \<noteq> b"
    proof (rule ccontr)
      assume "mm_blocks m y \<noteq> None"
      then obtain x d where xd: "mm_chunks m x = Some d" "ck_data d = Some y" using chunks_okD(3) [OF i, of y] by auto
      then have "x \<in> set as" using as by (auto simp: chunk_list_def)
      then have "x = ?l" using False xd l(2) by blast
      then show False using xd c(1) b(1) that by simp
    qed
    then show ?thesis using False b(2) by (auto simp: without_def)
  qed
  have "chunks_ok ?m'"
    by (rule chunks_okI [of _ "[?l]"])
      (use c(2) b l(3) blk chunks_okD(4,5) [OF i] in \<open>auto simp: chunk_list_def chunk_ok_def without_def split: if_splits\<close>)
  then have "mem_inv ?m' {}" by (simp add: mem_inv_def)
  moreover have "mm_blocks ?m' \<subseteq>\<^sub>m mm_blocks m" using blk b(2) by (auto simp: map_le_def split: if_splits)
  ultimately show ?thesis by simp
qed

lemma mem_destroy_ok:
  assumes "mem_inv m R"
  shows "wp (lexbor_mem_destroy m) (\<lambda>m'. mm_chunks m' = Map.empty \<and> mm_blocks m' = Map.empty \<and> mm_chunk m' = None)"
proof -
  have i: "chunks_ok m" using assms by (simp add: mem_inv_def)
  obtain as where as: "chunk_list m as" using i by (auto simp: chunks_ok_def)
  have "mem_destroy_loop m (mm_chunk m) = Some (without m (set as))" using destroy_loop_ok [OF linked_all [OF i as]] .
  moreover have "mm_chunk m \<noteq> None" using as by (cases as) (auto simp: chunk_list_def)
  moreover have "mm_chunks (without m (set as)) = Map.empty" using as by (auto simp: without_def chunk_list_def fun_eq_iff)
  moreover have "mm_blocks (without m (set as)) = Map.empty"
  proof
    fix y
    show "mm_blocks (without m (set as)) y = Map.empty y"
    proof (cases "mm_blocks m y")
      case (Some z)
      then obtain x d where xd: "mm_chunks m x = Some d" "ck_data d = Some y" using chunks_okD(3) [OF i, of y] by auto
      then have "x \<in> set as" using as by (auto simp: chunk_list_def)
      then show ?thesis using xd by (auto simp: without_def)
    qed (simp add: without_def)
  qed
  ultimately show ?thesis by (auto simp: lexbor_mem_destroy_def)
qed

text \<open>A new pool has one chunk.\<close>

lemma mem_init_ok:
  assumes "mm_chunks m = Map.empty" "mm_blocks m = Map.empty" "0 < unat n" "unat n \<le> 2 ^ 60"
  shows "case lexbor_mem_init new m n of (m', st) \<Rightarrow> if fst new = None \<or> snd new = None then st = LXB_STATUS_ERROR_MEMORY_ALLOCATION
    else st = LXB_STATUS_OK \<and> mem_inv m' {}"
proof -
  let ?n = "lexbor_mem_align n"
  have l: "8 dvd unat ?n" "unat ?n < 2 ^ 60 + 8" "unat n \<le> unat ?n" using align_ok [of n] assms(4) by simp_all
  have n0: "n \<noteq> 0" using assms(3) by auto
  have idem: "lexbor_mem_align ?n = ?n" using align_idem(1) [OF l(1)] .
  show ?thesis
  proof (cases "fst new = None \<or> snd new = None")
    case True
    then show ?thesis using n0
      by (auto simp: lexbor_mem_init_def lexbor_mem_chunk_make_def lexbor_mem_chunk_init_def Let_def split: option.split)
  next
    case False
    then obtain a b where ab: "new = (Some a, Some b)" by (cases new) auto
    have "mem_inv (fst (lexbor_mem_init new m n)) {}" unfolding mem_inv_def
    proof (intro conjI)
      show "chunks_ok (fst (lexbor_mem_init new m n))"
        by (rule chunks_okI [of _ "[a]"])
          (use ab n0 l assms(1,2) idem in \<open>auto simp: lexbor_mem_init_def lexbor_mem_chunk_make_def lexbor_mem_chunk_init_def Let_def block_make_def
            ck_empty_def chunk_list_def chunk_ok_def split: if_splits\<close>)
    qed simp_all
    then show ?thesis using ab n0
      by (auto simp: lexbor_mem_init_def lexbor_mem_chunk_make_def lexbor_mem_chunk_init_def Let_def)
  qed
qed

end
