(* ===== verification/Mem_Bst_Spec.thy ===== *)
theory Mem_Bst_Spec
  imports Mem_Bst "HOL-Library.Tree" "HOL-Library.Multiset"
begin

text \<open>
  The heap of entries of \<open>Mem_Bst\<close> as a binary tree whose labels carry the address, the size, the value and the list of the further
  entries of this size.  The contents are a stack of values for every size: an insertion pushes, a removal pops.
\<close>

section \<open>The tree in the heap\<close>

datatype 'v bst_label = Lab (la: addr) (lsz: size_t) (lval: "'v option") (lch: "(addr \<times> 'v option) list")

type_synonym 'v bst_tree = "'v bst_label tree"

fun bst_chain :: "'v bst_heap \<Rightarrow> addr option \<Rightarrow> (addr \<times> 'v option) list \<Rightarrow> bool" where
  "bst_chain h x [] \<longleftrightarrow> x = None"
| "bst_chain h x ((a, v) # c) \<longleftrightarrow> x = Some a \<and> (\<exists>e. h a = Some e \<and> be_value e = v \<and> bst_chain h (be_next e) c)"

definition lab_rep :: "'v bst_heap \<Rightarrow> 'v bst_label \<Rightarrow> 'v bst_entry \<Rightarrow> bool" where
  "lab_rep h k e \<longleftrightarrow> h (la k) = Some e \<and> be_size e = lsz k \<and> be_value e = lval k \<and> bst_chain h (be_next e) (lch k)"

fun bst_rep :: "'v bst_heap \<Rightarrow> addr option \<Rightarrow> addr option \<Rightarrow> 'v bst_tree \<Rightarrow> bool" where
  "bst_rep h p x Leaf \<longleftrightarrow> x = None"
| "bst_rep h p x (Node l k r) \<longleftrightarrow> x = Some (la k) \<and>
    (\<exists>e. lab_rep h k e \<and> be_parent e = p \<and> bst_rep h x (be_left e) l \<and> bst_rep h x (be_right e) r)"

definition lab_addrs :: "'v bst_label \<Rightarrow> addr list" where
  "lab_addrs k = la k # map fst (lch k)"

fun addrs :: "'v bst_tree \<Rightarrow> addr list" where
  "addrs Leaf = []"
| "addrs (Node l k r) = lab_addrs k @ addrs l @ addrs r"

text \<open>The rest of a tree around a subtree: on each level up, whether the subtree is the left one, the label, and the other subtree.\<close>

type_synonym 'v bst_ctx = "(bool \<times> 'v bst_label \<times> 'v bst_tree) list"

fun plug :: "'v bst_ctx \<Rightarrow> 'v bst_tree \<Rightarrow> 'v bst_tree" where
  "plug [] t = t"
| "plug ((d, k, s) # c) t = plug c (if d then Node t k s else Node s k t)"

fun ctx_addrs :: "'v bst_ctx \<Rightarrow> addr list" where
  "ctx_addrs [] = []"
| "ctx_addrs ((d, k, s) # c) = lab_addrs k @ addrs s @ ctx_addrs c"

fun ctx_rep :: "'v bst_heap \<Rightarrow> addr option \<Rightarrow> addr option \<Rightarrow> 'v bst_ctx \<Rightarrow> addr option \<Rightarrow> addr option \<Rightarrow> bool" where
  "ctx_rep h p0 x0 [] p x \<longleftrightarrow> p = p0 \<and> x = x0"
| "ctx_rep h p0 x0 ((d, k, s) # c) p x \<longleftrightarrow> p = Some (la k) \<and>
    (\<exists>e. lab_rep h k e \<and> (if d then be_left e = x \<and> bst_rep h p (be_right e) s else be_right e = x \<and> bst_rep h p (be_left e) s) \<and>
      ctx_rep h p0 x0 c (be_parent e) p)"

lemma chain_cong: "(\<And>a. a \<in> fst ` set ch \<Longrightarrow> h a = h' a) \<Longrightarrow> bst_chain h x ch = bst_chain h' x ch"
  by (induction h x ch rule: bst_chain.induct) auto

lemma lab_cong: "(\<And>a. a \<in> set (lab_addrs k) \<Longrightarrow> h a = h' a) \<Longrightarrow> lab_rep h k e = lab_rep h' k e"
  using chain_cong [of "lch k" h h'] by (auto simp: lab_rep_def lab_addrs_def)

lemma rep_cong: "(\<And>a. a \<in> set (addrs t) \<Longrightarrow> h a = h' a) \<Longrightarrow> bst_rep h p x t = bst_rep h' p x t"
proof (induction t arbitrary: p x)
  case (Node l k r)
  have "lab_rep h k e = lab_rep h' k e" for e by (rule lab_cong) (use Node.prems in auto)
  then show ?case using Node.IH Node.prems by simp
qed simp

lemma ctx_cong: "(\<And>a. a \<in> set (ctx_addrs c) \<Longrightarrow> h a = h' a) \<Longrightarrow> ctx_rep h p0 x0 c p x = ctx_rep h' p0 x0 c p x"
proof (induction h p0 x0 c p x rule: ctx_rep.induct)
  case (2 h p0 x0 d k s c p x)
  have "lab_rep h k e = lab_rep h' k e" for e by (rule lab_cong) (use 2 in auto)
  moreover have "bst_rep h q y s = bst_rep h' q y s" for q y by (rule rep_cong) (use 2 in auto)
  ultimately show ?case using 2 by simp
qed simp

lemma rep_upd [simp]:
  "a \<notin> fst ` set ch \<Longrightarrow> bst_chain (h(a := u)) y ch = bst_chain h y ch"
  "a \<notin> set (lab_addrs k) \<Longrightarrow> lab_rep (h(a := u)) k e = lab_rep h k e"
  "a \<notin> set (addrs t) \<Longrightarrow> bst_rep (h(a := u)) p x t = bst_rep h p x t"
  "a \<notin> set (ctx_addrs c) \<Longrightarrow> ctx_rep (h(a := u)) p0 x0 c p x = ctx_rep h p0 x0 c p x"
  by (rule chain_cong lab_cong rep_cong ctx_cong; auto)+

lemma la_in [simp]: "la k \<in> set (lab_addrs k)"
  by (simp add: lab_addrs_def)

lemma plug_addrs: "mset (addrs (plug c t)) = mset (ctx_addrs c) + mset (addrs t)"
  by (induction c t rule: plug.induct) auto

lemma plug_rep: "bst_rep h p0 x0 (plug c t) \<longleftrightarrow> (\<exists>p x. ctx_rep h p0 x0 c p x \<and> bst_rep h p x t)"
proof (induction c t rule: plug.induct)
  case (2 d k s c t)
  then show ?case by (cases d) (simp; blast)+
qed simp

lemma plug_append: "plug (c @ c') t = plug c' (plug c t)"
  by (induction c t rule: plug.induct) auto

text \<open>A label of a tree is the root of a subtree.\<close>

lemma plug_label: "k \<in> set_tree t \<Longrightarrow> \<exists>c l r. t = plug c (Node l k r)"
proof (induction t)
  case (Node l k' r)
  consider "k = k'" | "k \<in> set_tree l" | "k \<in> set_tree r" using Node.prems by auto
  then show ?case
  proof cases
    case 1
    then show ?thesis by (auto intro: exI [of _ "[]"])
  next
    case 2
    then obtain c l1 r1 where "l = plug c (Node l1 k r1)" using Node.IH by blast
    then have "Node l k' r = plug (c @ [(True, k', r)]) (Node l1 k r1)" by (simp add: plug_append)
    then show ?thesis by blast
  next
    case 3
    then obtain c l1 r1 where "r = plug c (Node l1 k r1)" using Node.IH by blast
    then have "Node l k' r = plug (c @ [(False, k', l)]) (Node l1 k r1)" by (simp add: plug_append)
    then show ?thesis by blast
  qed
qed simp

section \<open>The contents\<close>

text \<open>The values of a label in the order in which removals return them.\<close>

definition lab_vals :: "'v bst_label \<Rightarrow> 'v option list" where
  "lab_vals k = map snd (lch k) @ [lval k]"

definition items :: "'v bst_tree \<Rightarrow> (size_t \<times> 'v option list) list" where
  "items t = map (\<lambda>k. (lsz k, lab_vals k)) (inorder t)"

fun ctx_before :: "'v bst_ctx \<Rightarrow> (size_t \<times> 'v option list) list" where
  "ctx_before [] = []"
| "ctx_before ((d, k, s) # c) = ctx_before c @ (if d then [] else items s @ [(lsz k, lab_vals k)])"

fun ctx_after :: "'v bst_ctx \<Rightarrow> (size_t \<times> 'v option list) list" where
  "ctx_after [] = []"
| "ctx_after ((d, k, s) # c) = (if d then (lsz k, lab_vals k) # items s else []) @ ctx_after c"

lemma items_simps [simp]: "items Leaf = []" "items (Node l k r) = items l @ (lsz k, lab_vals k) # items r"
  by (simp_all add: items_def)

lemma items_plug: "items (plug c t) = ctx_before c @ items t @ ctx_after c"
  by (induction c t rule: plug.induct) auto

lemma items_fst: "map fst (items t) = map lsz (inorder t)"
  by (simp add: items_def comp_def)

definition stack_of :: "(size_t \<times> 'v option list) list \<Rightarrow> size_t \<Rightarrow> 'v option list" where
  "stack_of xs sz = (case map_of xs sz of None \<Rightarrow> [] | Some s \<Rightarrow> s)"

lemma stack_of_at:
  assumes "sorted_wrt (<) (map fst (ys @ (sz, s) # zs))"
  shows "stack_of (ys @ (sz, s) # zs) = (stack_of (ys @ zs))(sz := s)" "stack_of (ys @ zs) sz = []"
proof -
  have n: "sz \<notin> fst ` set ys" "sz \<notin> fst ` set zs" using assms by (force simp: sorted_wrt_append)+
  then have m: "map_of ys sz = None" "map_of zs sz = None" by (simp_all add: map_of_eq_None_iff)
  show "stack_of (ys @ (sz, s) # zs) = (stack_of (ys @ zs))(sz := s)"
  proof
    fix z
    show "stack_of (ys @ (sz, s) # zs) z = ((stack_of (ys @ zs))(sz := s)) z"
      using m by (cases "z = sz") (auto simp: stack_of_def map_add_def split: option.split)
  qed
  show "stack_of (ys @ zs) sz = []" using m by (simp add: stack_of_def map_add_def)
qed

fun stacks :: "'v bst_tree \<Rightarrow> size_t \<Rightarrow> 'v option list" where
  "stacks Leaf z = []"
| "stacks (Node l k r) z = (if z = lsz k then lab_vals k else if z > lsz k then stacks r z else stacks l z)"

lemma stack_of_outside: "z \<notin> fst ` set xs \<Longrightarrow> stack_of xs z = []"
  by (simp add: stack_of_def map_of_eq_None_iff [THEN iffD2])

lemma stack_of_append: "stack_of (xs @ ys) z = (if z \<in> fst ` set xs then stack_of xs z else stack_of ys z)"
  using map_of_eq_None_iff [of xs z] by (auto simp: stack_of_def map_add_def split: option.split)

lemma stacks_items: "sorted_wrt (<) (map fst (items t)) \<Longrightarrow> stacks t z = stack_of (items t) z"
proof (induction t)
  case (Node l k r)
  have l: "y < lsz k" if "y \<in> fst ` set (items l)" for y using Node.prems that by (auto simp: sorted_wrt_append)
  have r: "lsz k < y" if "y \<in> fst ` set (items r)" for y using Node.prems that by (auto simp: sorted_wrt_append)
  have IH: "stacks l z = stack_of (items l) z" "stacks r z = stack_of (items r) z" using Node by (simp_all add: sorted_wrt_append)
  have k: "stack_of ((lsz k, lab_vals k) # items r) z = (if z = lsz k then lab_vals k else stack_of (items r) z)" by (simp add: stack_of_def)
  consider "z = lsz k" | "z > lsz k" | "z < lsz k" by fastforce
  then show ?case
  proof cases
    case 1
    then show ?thesis using l [of z] k by (auto simp: stack_of_append)
  next
    case 2
    moreover have "z \<notin> fst ` set (items l)" using 2 l [of z] by fastforce
    ultimately show ?thesis using k IH by (auto simp: stack_of_append)
  next
    case 3
    moreover have "z \<notin> fst ` set (items r)" using 3 r [of z] by fastforce
    ultimately show ?thesis using k IH stack_of_outside [of z "items r"] stack_of_outside [of z "items l"] by (auto simp: stack_of_append)
  qed
qed (simp add: stack_of_def)

text \<open>The invariant: the heap holds exactly the entries of the tree, ordered by size, and \<open>tree_length\<close> counts them.\<close>

definition bst_inv :: "'v lexbor_bst \<Rightarrow> addr option \<Rightarrow> 'v bst_tree \<Rightarrow> bool" where
  "bst_inv b x t \<longleftrightarrow> bst_rep (bst_entries b) None x t \<and> distinct (addrs t) \<and> dom (bst_entries b) = set (addrs t) \<and>
    sorted_wrt (<) (map fst (items t)) \<and> bst_tree_length b = of_nat (length (addrs t))"

lemma bst_invD:
  assumes "bst_inv b x t"
  shows "bst_rep (bst_entries b) None x t" "distinct (addrs t)" "dom (bst_entries b) = set (addrs t)" "sorted_wrt (<) (map fst (items t))"
    "bst_tree_length b = of_nat (length (addrs t))"
  using assms by (simp_all add: bst_inv_def)

section \<open>Insertion\<close>

fun tree_ins :: "addr \<Rightarrow> size_t \<Rightarrow> 'v option \<Rightarrow> 'v bst_tree \<Rightarrow> 'v bst_tree" where
  "tree_ins a sz v Leaf = Node Leaf (Lab a sz v []) Leaf"
| "tree_ins a sz v (Node l k r) =
    (if sz = lsz k then Node l (Lab (la k) (lsz k) (lval k) ((a, v) # lch k)) r
     else if sz > lsz k then Node l k (tree_ins a sz v r) else Node (tree_ins a sz v l) k r)"

lemma tree_ins_addrs: "mset (addrs (tree_ins a sz v t)) = add_mset a (mset (addrs t))"
  by (induction t) (auto simp: lab_addrs_def)

lemma tree_ins_stacks: "stacks (tree_ins a sz v t) = (stacks t)(sz := v # stacks t sz)"
  by (induction t) (auto simp: lab_vals_def)

lemma tree_ins_keys: "fst ` set (items (tree_ins a sz v t)) = insert sz (fst ` set (items t))"
  by (induction t) (auto simp: lab_vals_def)

lemma tree_ins_sorted: "sorted_wrt (<) (map fst (items t)) \<Longrightarrow> sorted_wrt (<) (map fst (items (tree_ins a sz v t)))"
  by (induction t) (auto simp: sorted_wrt_append tree_ins_keys)

lemma insert_loop_rep:
  assumes "bst_rep h p (Some x) t" "distinct (addrs t)" "a \<notin> set (addrs t)" "h a = Some (be_new sz v)"
  shows "wp (bst_insert_loop h a sz x) (\<lambda>h'. bst_rep h' p (Some x) (tree_ins a sz v t) \<and> dom h' = dom h \<and>
    (\<forall>y. y \<notin> insert a (set (addrs t)) \<longrightarrow> h' y = h y))"
  using assms
proof (induction t arbitrary: p x)
  case (Node l k r)
  have x: "x = la k" using Node.prems(1) by simp
  obtain e where e: "lab_rep h k e" "be_parent e = p" "bst_rep h (Some (la k)) (be_left e) l" "bst_rep h (Some (la k)) (be_right e) r"
    using Node.prems(1) by auto
  have sz: "be_size e = lsz k" "h (la k) = Some e" "be_value e = lval k" "bst_chain h (be_next e) (lch k)" using e(1) by (simp_all add: lab_rep_def)
  have n: "a \<noteq> la k" "a \<notin> set (addrs l)" "a \<notin> set (addrs r)" "a \<notin> fst ` set (lch k)" "la k \<notin> set (addrs l)" "la k \<notin> set (addrs r)"
    "la k \<notin> fst ` set (lch k)"
    using Node.prems(2,3) by (auto simp: lab_addrs_def)
  note [simp] = Node.prems(4) n e(2-4) sz(2-4) x
  consider (eq) "sz = lsz k" | (gt) "sz > lsz k" | (lt) "sz < lsz k" by fastforce
  then show ?case
  proof cases
    case eq
    let ?h = "h(la k \<mapsto> e\<lparr> be_next := Some a \<rparr>, a \<mapsto> (be_new sz v)\<lparr> be_next := be_next e, be_parent := p \<rparr>)"
    have "bst_insert_loop h a sz (la k) = Some ?h"
      unfolding bst_insert_loop.simps [of h a sz "la k"] using eq sz(1) n(1) by (auto simp: be_set_def be_new_def fun_upd_twist)
    then show ?thesis using eq sz(1) by (auto simp: lab_rep_def be_new_def)
  next
    case gt
    show ?thesis
    proof (cases "be_right e")
      case None
      let ?h = "h(la k \<mapsto> e\<lparr> be_right := Some a \<rparr>, a \<mapsto> (be_new sz v)\<lparr> be_parent := Some (la k) \<rparr>)"
      have "r = Leaf" using e(4) None by (cases r) auto
      moreover have "bst_insert_loop h a sz (la k) = Some ?h"
        unfolding bst_insert_loop.simps [of h a sz "la k"] using gt sz None by (auto simp: be_set_def)
      ultimately show ?thesis using gt sz by (auto simp: lab_rep_def be_new_def)
    next
      case (Some y)
      have st: "bst_insert_loop h a sz (la k) = bst_insert_loop h a sz y"
        unfolding bst_insert_loop.simps [of h a sz "la k"] using gt sz Some by auto
      have "wp (bst_insert_loop h a sz y) (\<lambda>h'. bst_rep h' (Some (la k)) (Some y) (tree_ins a sz v r) \<and> dom h' = dom h \<and>
          (\<forall>y. y \<notin> insert a (set (addrs r)) \<longrightarrow> h' y = h y))"
        using Node.IH(2) [of "Some (la k)" y] e(4) Some Node.prems(2,3) by auto
      then obtain h' where h': "bst_insert_loop h a sz y = Some h'" "bst_rep h' (Some (la k)) (Some y) (tree_ins a sz v r)" "dom h' = dom h"
        "\<And>y. y \<notin> insert a (set (addrs r)) \<Longrightarrow> h' y = h y" by (auto simp: wp_iff)
      have "h' y = h y" if "y \<in> set (lab_addrs k) \<union> set (addrs l)" for y by (rule h'(4)) (use that Node.prems(2,3) in auto)
      then have "bst_rep h' (Some (la k)) (be_left e) l" "lab_rep h' k e" using e(1,3) rep_cong [of l h' h] lab_cong [of k h' h e] by simp_all
      then show ?thesis using gt Some h' st by auto
    qed
  next
    case lt
    show ?thesis
    proof (cases "be_left e")
      case None
      let ?h = "h(la k \<mapsto> e\<lparr> be_left := Some a \<rparr>, a \<mapsto> (be_new sz v)\<lparr> be_parent := Some (la k) \<rparr>)"
      have "l = Leaf" using e(3) None by (cases l) auto
      moreover have "bst_insert_loop h a sz (la k) = Some ?h"
        unfolding bst_insert_loop.simps [of h a sz "la k"] using lt sz None by (auto simp: be_set_def)
      ultimately show ?thesis using lt sz by (auto simp: lab_rep_def be_new_def)
    next
      case (Some y)
      have st: "bst_insert_loop h a sz (la k) = bst_insert_loop h a sz y"
        unfolding bst_insert_loop.simps [of h a sz "la k"] using lt sz Some by auto
      have "wp (bst_insert_loop h a sz y) (\<lambda>h'. bst_rep h' (Some (la k)) (Some y) (tree_ins a sz v l) \<and> dom h' = dom h \<and>
          (\<forall>y. y \<notin> insert a (set (addrs l)) \<longrightarrow> h' y = h y))"
        using Node.IH(1) [of "Some (la k)" y] e(3) Some Node.prems(2,3) by auto
      then obtain h' where h': "bst_insert_loop h a sz y = Some h'" "bst_rep h' (Some (la k)) (Some y) (tree_ins a sz v l)" "dom h' = dom h"
        "\<And>y. y \<notin> insert a (set (addrs l)) \<Longrightarrow> h' y = h y" by (auto simp: wp_iff)
      have "h' y = h y" if "y \<in> set (lab_addrs k) \<union> set (addrs r)" for y by (rule h'(4)) (use that Node.prems(2,3) in auto)
      then have "bst_rep h' (Some (la k)) (be_right e) r" "lab_rep h' k e" using e(1,4) rep_cong [of r h' h] lab_cong [of k h' h e] by simp_all
      then show ?thesis using lt Some h' st by auto
    qed
  qed
qed simp

text \<open>The tree after the insertion of an entry at \<open>a\<close>.\<close>

lemma bst_insert_inv:
  fixes b :: "'v lexbor_bst"
  assumes inv: "bst_inv b x t" and a: "a \<notin> dom (bst_entries b)"
  shows "wp (lexbor_bst_insert (Some a) b x sz v) (\<lambda>(b', x', r). bst_inv b' x' (tree_ins a sz v t) \<and> r = Some a)"
proof -
  note i = bst_invD [OF inv]
  let ?h = "(bst_entries b)(a \<mapsto> be_new sz v)"
  have n: "a \<notin> set (addrs t)" using a i(3) by blast
  have len: "length (addrs (tree_ins a sz v t)) = Suc (length (addrs t))" using tree_ins_addrs [of a sz v t] by (metis size_add_mset size_mset)
  have fin: "bst_inv b' x' (tree_ins a sz v t)"
    if "bst_rep (bst_entries b') None x' (tree_ins a sz v t)" "dom (bst_entries b') = insert a (dom (bst_entries b))"
      "bst_tree_length b' = bst_tree_length b + 1" for b' :: "'v lexbor_bst" and x'
  proof -
    have "mset (addrs (tree_ins a sz v t)) = mset (a # addrs t)" by (simp add: tree_ins_addrs)
    then have "distinct (addrs (tree_ins a sz v t)) = distinct (a # addrs t)" "set (addrs (tree_ins a sz v t)) = set (a # addrs t)"
      by (metis mset_eq_imp_distinct_iff, metis mset_eq_setD)
    then show ?thesis using that i n len tree_ins_sorted [OF i(4)] by (simp add: bst_inv_def)
  qed
  show ?thesis
  proof (cases x)
    case None
    then have "t = Leaf" using i(1) by (cases t) auto
    then show ?thesis using None fin [of "b\<lparr> bst_entries := ?h, bst_tree_length := bst_tree_length b + 1 \<rparr>" "Some a"]
      by (simp add: lexbor_bst_insert_def lab_rep_def be_new_def)
  next
    case (Some y)
    have "wp (bst_insert_loop ?h a sz y) (\<lambda>h'. bst_rep h' None (Some y) (tree_ins a sz v t) \<and> dom h' = dom ?h \<and>
        (\<forall>z. z \<notin> insert a (set (addrs t)) \<longrightarrow> h' z = ?h z))"
      by (rule insert_loop_rep) (use i n Some in auto)
    then show ?thesis using Some fin by (auto simp: lexbor_bst_insert_def wp_iff)
  qed
qed

section \<open>Search\<close>

fun tree_find :: "size_t \<Rightarrow> 'v bst_tree \<Rightarrow> 'v bst_label option" where
  "tree_find sz Leaf = None"
| "tree_find sz (Node l k r) = (if lsz k = sz then Some k else if sz > lsz k then tree_find sz r else tree_find sz l)"

fun tree_close :: "size_t \<Rightarrow> 'v bst_label option \<Rightarrow> 'v bst_tree \<Rightarrow> 'v bst_label option" where
  "tree_close sz m Leaf = m"
| "tree_close sz m (Node l k r) = (if lsz k = sz then Some k else if sz > lsz k then tree_close sz m r else tree_close sz (Some k) l)"

lemma search_loop_rep: "bst_rep h p x t \<Longrightarrow> bst_search_loop h x sz = Some (map_option la (tree_find sz t))"
proof (induction t arbitrary: p x)
  case (Node l k r)
  then show ?case unfolding bst_search_loop.simps [of h x sz] by (fastforce simp: lab_rep_def)
qed (simp add: bst_search_loop.simps)

lemma close_loop_rep: "bst_rep h p x t \<Longrightarrow> bst_close_loop h x (map_option la m) sz = Some (map_option la (tree_close sz m t))"
proof (induction t arbitrary: p x m)
  case (Node l k r)
  obtain e where e: "h (la k) = Some e" "be_size e = lsz k" "bst_rep h x (be_left e) l" "bst_rep h x (be_right e) r" "x = Some (la k)"
    using Node.prems by (auto simp: lab_rep_def)
  show ?case
    unfolding bst_close_loop.simps [of h x]
    using e Node.IH(2) [OF e(4), of m] Node.IH(1) [OF e(3), of "Some k"] by auto
qed (simp add: bst_close_loop.simps)

lemma set_items: "fst ` set (items t) = lsz ` set_tree t"
  by (auto simp: items_def image_comp)

lemma sorted_node:
  "sorted_wrt (<) (map fst (items (Node l k r))) \<Longrightarrow>
    sorted_wrt (<) (map fst (items l)) \<and> sorted_wrt (<) (map fst (items r)) \<and>
    (\<forall>k' \<in> set_tree l. lsz k' < lsz k) \<and> (\<forall>k' \<in> set_tree r. lsz k < lsz k')"
  using set_items [of l] set_items [of r] by (auto simp: sorted_wrt_append image_iff)

lemma tree_find_Some: "tree_find sz t = Some k \<Longrightarrow> k \<in> set_tree t \<and> lsz k = sz"
  by (induction t) (auto split: if_splits)

lemma tree_find_None: "sorted_wrt (<) (map fst (items t)) \<Longrightarrow> tree_find sz t = None \<Longrightarrow> sz \<notin> lsz ` set_tree t"
proof (induction t)
  case (Node l k r)
  then show ?case using sorted_node [OF Node.prems(1)] by (auto split: if_splits)
qed simp

lemma tree_close_best:
  assumes "sorted_wrt (<) (map fst (items t))" "\<And>mk k. m = Some mk \<Longrightarrow> sz < lsz mk" "\<And>mk k. m = Some mk \<Longrightarrow> k \<in> set_tree t \<Longrightarrow> lsz k < lsz mk"
  shows "case tree_close sz m t of
      None \<Rightarrow> m = None \<and> (\<forall>k \<in> set_tree t. lsz k < sz)
    | Some k \<Rightarrow> sz \<le> lsz k \<and> (k \<in> set_tree t \<or> m = Some k) \<and> (\<forall>k' \<in> set_tree t. sz \<le> lsz k' \<longrightarrow> lsz k \<le> lsz k')"
  using assms
proof (induction t arbitrary: m)
  case (Node l k r)
  note s = sorted_node [OF Node.prems(1)]
  consider (eq) "sz = lsz k" | (gt) "sz > lsz k" | (lt) "sz < lsz k" by fastforce
  then show ?case
  proof cases
    case gt
    then show ?thesis using Node.IH(2) [of m] s Node.prems(2,3) by (fastforce split: option.splits)
  next
    case lt
    then show ?thesis using Node.IH(1) [of "Some k"] s by (fastforce split: option.splits)
  qed (use s in fastforce)
qed (auto split: option.split)

section \<open>Removal\<close>

definition relab :: "addr \<Rightarrow> 'v bst_label \<Rightarrow> 'v bst_label" where
  "relab a k = Lab a (lsz k) (lval k) (lch k)"

lemma relab_simps [simp]: "la (relab a k) = a" "lsz (relab a k) = lsz k" "lval (relab a k) = lval k" "lch (relab a k) = lch k"
    "lab_vals (relab a k) = lab_vals k" "lab_addrs (relab a k) = a # map fst (lch k)"
  by (simp_all add: relab_def lab_vals_def lab_addrs_def)

text \<open>An entry may change in the pointers to its parent and its children.\<close>

lemma lab_rep_set:
  assumes "lab_rep h k e" "distinct (lab_addrs k)" "be_size e' = be_size e" "be_value e' = be_value e" "be_next e' = be_next e"
  shows "lab_rep (h(la k \<mapsto> e')) k e'"
  using assms by (auto simp: lab_rep_def lab_addrs_def)

lemma ctx_hole:
  assumes "ctx_rep h p0 x0 ((d, k, s) # c) p x" "distinct (ctx_addrs ((d, k, s) # c))" "h (la k) = Some e"
  shows "ctx_rep (h(la k \<mapsto> (if d then e\<lparr> be_left := y \<rparr> else e\<lparr> be_right := y \<rparr>))) p0 x0 ((d, k, s) # c) p y"
proof -
  let ?e = "if d then e\<lparr> be_left := y \<rparr> else e\<lparr> be_right := y \<rparr>"
  have l: "lab_rep h k e" using assms(1,3) by (auto simp: lab_rep_def)
  have "lab_rep (h(la k \<mapsto> ?e)) k ?e" by (rule lab_rep_set [OF l]) (use assms(2) in auto)
  moreover have "la k \<notin> set (addrs s)" "la k \<notin> set (ctx_addrs c)" using assms(2) by (auto simp: lab_addrs_def)
  ultimately show ?thesis using assms(1,3) by (auto simp: lab_rep_def)
qed

lemma set_parent_rep:
  assumes "bst_rep h p x t" "distinct (addrs t)"
  shows "\<exists>h'. set_parent h x q = Some h' \<and> bst_rep h' q x t \<and> dom h' = dom h \<and> (\<forall>y. y \<notin> set (addrs t) \<longrightarrow> h' y = h y)"
proof (cases t)
  case Leaf
  then show ?thesis using assms by (simp add: set_parent_def)
next
  case (Node l k r)
  then obtain e where e: "x = Some (la k)" "lab_rep h k e" "bst_rep h x (be_left e) l" "bst_rep h x (be_right e) r" using assms(1) by auto
  let ?e = "e\<lparr> be_parent := q \<rparr>"
  have "lab_rep (h(la k \<mapsto> ?e)) k ?e" by (rule lab_rep_set [OF e(2)]) (use assms(2) Node in auto)
  moreover have "h (la k) = Some e" using e(2) by (simp add: lab_rep_def)
  moreover have "la k \<notin> set (addrs l)" "la k \<notin> set (addrs r)" using assms(2) Node by (auto simp: lab_addrs_def)
  ultimately show ?thesis using e(1,3,4) Node by (auto simp: set_parent_def be_set_def)
qed

lemma leftmost_rep:
  "bst_rep h p (Some y) t \<Longrightarrow> \<exists>c m r. t = plug c (Node Leaf m r) \<and> (\<forall>f \<in> set c. fst f) \<and> bst_leftmost h y = Some (la m)"
proof (induction t arbitrary: p y)
  case (Node l k r)
  then obtain e where e: "y = la k" "h (la k) = Some e" "bst_rep h (Some y) (be_left e) l" by (auto simp: lab_rep_def)
  show ?case
  proof (cases "be_left e")
    case None
    then have "l = Leaf" using e(3) by (cases l) auto
    then have "Node l k r = plug [] (Node Leaf k r)" by simp
    moreover have "bst_leftmost h y = Some (la k)" unfolding bst_leftmost.simps [of h y] using e None by simp
    ultimately show ?thesis by fastforce
  next
    case (Some z)
    then obtain c m r' where "l = plug c (Node Leaf m r')" "\<forall>f \<in> set c. fst f" "bst_leftmost h z = Some (la m)"
      using Node.IH(1) [of "Some y" z] e(3) by auto
    moreover have "bst_leftmost h y = bst_leftmost h z" unfolding bst_leftmost.simps [of h y] using e Some by simp
    ultimately have "Node l k r = plug (c @ [(True, k, r)]) (Node Leaf m r') \<and> (\<forall>f \<in> set (c @ [(True, k, r)]). fst f) \<and> bst_leftmost h y = Some (la m)"
      by (simp add: plug_append)
    then show ?thesis by blast
  qed
qed simp

lemma ctx_before_left: "\<forall>f \<in> set c. fst f \<Longrightarrow> ctx_before c = []"
  by (induction c rule: ctx_before.induct) auto

lemma rep_root: "bst_rep h p (Some x) t \<Longrightarrow> x \<in> set (addrs t)"
  by (cases t) auto

text \<open>An entry in the heap with its place in the tree, and what its removal leaves.\<close>

definition entry_at :: "'v bst_heap \<Rightarrow> addr option \<Rightarrow> 'v bst_ctx \<Rightarrow> 'v bst_label \<Rightarrow> 'v bst_entry \<Rightarrow> 'v bst_tree \<Rightarrow> 'v bst_tree \<Rightarrow> bool" where
  "entry_at h x c k e l r \<longleftrightarrow> ctx_rep h None x c (be_parent e) (Some (la k)) \<and> lab_rep h k e \<and> bst_rep h (Some (la k)) (be_left e) l \<and>
    bst_rep h (Some (la k)) (be_right e) r \<and> distinct (ctx_addrs c @ lab_addrs k @ addrs l @ addrs r)"

definition removed :: "'v bst_heap \<Rightarrow> 'v bst_ctx \<Rightarrow> 'v bst_label \<Rightarrow> 'v bst_tree \<Rightarrow> 'v bst_tree \<Rightarrow> 'v bst_heap \<times> addr option \<Rightarrow> bool" where
  "removed h c k l r = (\<lambda>(h', x'). \<exists>t' f. bst_rep h' None x' t' \<and> mset (addrs (plug c (Node l k r))) = add_mset f (mset (addrs t')) \<and>
    dom h' = dom h - {f} \<and>
    items t' = ctx_before c @ items l @ (if lch k = [] then [] else [(lsz k, tl (lab_vals k))]) @ items r @ ctx_after c)"

lemma entry_at_plug:
  assumes "bst_rep h None x (plug c (Node l k r))" "distinct (addrs (plug c (Node l k r)))"
  shows "\<exists>e. entry_at h x c k e l r"
proof -
  have "mset (addrs (plug c (Node l k r))) = mset (ctx_addrs c @ lab_addrs k @ addrs l @ addrs r)" by (simp add: plug_addrs)
  then have "distinct (ctx_addrs c @ lab_addrs k @ addrs l @ addrs r)" using assms(2) mset_eq_imp_distinct_iff by blast
  then show ?thesis using assms(1) by (auto simp: entry_at_def plug_rep)
qed

lemma removedI:
  assumes "ctx_rep h' None x' c p y" "bst_rep h' p y t" "mset (lab_addrs k @ addrs l @ addrs r) = add_mset f (mset (addrs t))" "dom h' = dom h - {f}"
    "items t = items l @ (if lch k = [] then [] else [(lsz k, tl (lab_vals k))]) @ items r"
  shows "removed h c k l r (h', x')"
proof -
  have "bst_rep h' None x' (plug c t)" using assms(1,2) by (auto simp: plug_rep)
  moreover have "mset (addrs (plug c (Node l k r))) = add_mset f (mset (addrs (plug c t)))" using assms(3) by (simp add: plug_addrs)
  ultimately show ?thesis using assms(4,5) by (auto simp: removed_def items_plug)
qed

lemma remove_leaf_ok:
  assumes "entry_at h x c k e Leaf Leaf" "lch k = []"
  shows "wp (remove_leaf h (la k) e x) (removed h c k Leaf Leaf)"
proof (cases c)
  case Nil
  then have "remove_leaf h (la k) e x = Some (h(la k := None), None)" using assms by (auto simp: remove_leaf_def entry_at_def lab_rep_def be_free_def)
  moreover have "removed h c k Leaf Leaf (h(la k := None), None)"
    by (rule removedI [where p = None and y = None and t = Leaf and f = "la k"]) (use Nil assms(2) in \<open>auto simp: lab_addrs_def\<close>)
  ultimately show ?thesis by simp
next
  case (Cons fr c')
  obtain d k' s where c: "c = (d, k', s) # c'" using Cons by (metis prod_cases3)
  have d: "distinct (ctx_addrs c)" "la k \<notin> set (ctx_addrs c)" using assms(1) by (auto simp: entry_at_def lab_addrs_def)
  have ne: "bst_rep h q z s \<Longrightarrow> z \<noteq> Some (la k)" for q z using rep_root [of h q "la k" s] d(2) c by auto
  obtain e' where e': "h (la k') = Some e'" "be_parent e = Some (la k')" "if d then be_left e' = Some (la k) else be_right e' = Some (la k)"
      "if d then be_right e' \<noteq> Some (la k) else be_left e' \<noteq> Some (la k)" "ctx_rep h None x c (be_parent e) (Some (la k))"
    using assms(1) c ne by (cases d) (fastforce simp: entry_at_def lab_rep_def)+
  have k: "h (la k) = Some e" "la k \<noteq> la k'" using assms(1) d(2) c by (auto simp: entry_at_def lab_rep_def)
  let ?h = "h(la k' \<mapsto> (if d then e'\<lparr> be_left := None \<rparr> else e'\<lparr> be_right := None \<rparr>), la k := None)"
  have "remove_leaf h (la k) e x = Some (?h, x)" using e' k by (auto simp: remove_leaf_def be_set_def be_free_def)
  moreover have "ctx_rep ?h None x c (be_parent e) None"
    unfolding rep_upd(4) [OF d(2)] unfolding c by (rule ctx_hole [OF e'(5) [unfolded c] d(1) [unfolded c] e'(1)])
  then have "removed h c k Leaf Leaf (?h, x)"
    by (rule removedI [where t = Leaf and f = "la k"]) (use assms(2) e'(1) k in \<open>auto simp: lab_addrs_def\<close>)
  ultimately show ?thesis by simp
qed

lemma adopt_children_ok:
  assumes "lab_rep h k e" "bst_rep h q (be_left e) l" "bst_rep h q' (be_right e) r" "distinct (lab_addrs k @ addrs l @ addrs r)"
  shows "\<exists>h'. adopt_children h (la k) = Some h' \<and> bst_rep h' (be_parent e) (Some (la k)) (Node l k r) \<and> dom h' = dom h \<and>
    (\<forall>y. y \<notin> set (addrs l) \<union> set (addrs r) \<longrightarrow> h' y = h y)"
proof -
  have e: "h (la k) = Some e" using assms(1) by (simp add: lab_rep_def)
  have d: "distinct (addrs l)" "distinct (addrs r)" "la k \<notin> set (addrs l)" "la k \<notin> set (addrs r)" "set (addrs l) \<inter> set (addrs r) = {}"
    "set (lab_addrs k) \<inter> (set (addrs l) \<union> set (addrs r)) = {}"
    using assms(4) by (auto simp: lab_addrs_def)
  obtain h1 where h1: "set_parent h (be_right e) (Some (la k)) = Some h1" "bst_rep h1 (Some (la k)) (be_right e) r" "dom h1 = dom h"
    "\<And>y. y \<notin> set (addrs r) \<Longrightarrow> h1 y = h y" using set_parent_rep [OF assms(3) d(2)] by blast
  have l1: "bst_rep h1 q (be_left e) l" using assms(2) rep_cong [of l h1 h] h1(4) d(5) by blast
  obtain h2 where h2: "set_parent h1 (be_left e) (Some (la k)) = Some h2" "bst_rep h2 (Some (la k)) (be_left e) l" "dom h2 = dom h1"
    "\<And>y. y \<notin> set (addrs l) \<Longrightarrow> h2 y = h1 y" using set_parent_rep [OF l1 d(1)] by blast
  have "bst_rep h2 (Some (la k)) (be_right e) r" using h1(2) rep_cong [of r h2 h1] h2(4) d(5) by blast
  moreover have "lab_rep h2 k e" using assms(1) lab_cong [of k h2 h e] h2(4) h1(4) d(6) by (metis Int_iff UnCI empty_iff)
  moreover have "h1 (la k) = Some e" using h1(4) e d(4) by simp
  ultimately show ?thesis using e h1 h2 by (auto simp: adopt_children_def)
qed

lemma remove_single_ok:
  assumes "entry_at h x c k e l r" "lch k = []" "l = Leaf \<and> r = Node cl ck cr \<or> l = Node cl ck cr \<and> r = Leaf"
  shows "wp (remove_single h (la k) e (la ck) x) (removed h c k l r)"
proof -
  have "bst_rep h (Some (la k)) (Some (la ck)) (Node cl ck cr)" using assms(1,3) by (auto simp: entry_at_def) blast+
  then obtain ce where ce: "lab_rep h ck ce" "bst_rep h (Some (la ck)) (be_left ce) cl" "bst_rep h (Some (la ck)) (be_right ce) cr" by auto
  have "distinct (ctx_addrs c @ lab_addrs k @ addrs l @ addrs r)" "lab_addrs k = [la k]" using assms(1,2) by (simp_all add: entry_at_def lab_addrs_def)
  then have d: "distinct (ctx_addrs c @ la k # lab_addrs ck @ addrs cl @ addrs cr)" using assms(3) by (elim disjE) simp_all
  have v: "h (la ck) = Some ce" "h (la k) = Some e" "be_size ce = lsz ck" "be_value ce = lval ck" "bst_chain h (be_next ce) (lch ck)" "la ck \<noteq> la k"
    using assms(1) ce(1) d by (auto simp: lab_rep_def entry_at_def lab_addrs_def)
  have n: "la k \<notin> set (addrs cl)" "la k \<notin> set (addrs cr)" "la k \<notin> fst ` set (lch ck)" "la ck \<notin> set (addrs cl)" "la ck \<notin> set (addrs cr)" "la ck \<notin> fst ` set (lch ck)"
      "la k \<notin> set (ctx_addrs c)" "la ck \<notin> set (ctx_addrs c)"
    using d by (auto simp: lab_addrs_def)
  have ctx: "ctx_rep h None x c (be_parent e) (Some (la k))" using assms(1) by (simp add: entry_at_def)
  have adr: "mset (lab_addrs k @ addrs l @ addrs r) = add_mset (la k) (mset (addrs (Node cl ck cr)))" "items l @ items r = items (Node cl ck cr)"
    using assms(2,3) by (auto simp: lab_addrs_def)
  show ?thesis
  proof (cases "be_parent e")
    case None
    have c: "c = []" using ctx None by (cases c) auto
    let ?h = "h(la ck \<mapsto> ce\<lparr> be_parent := None \<rparr>, la k := None)"
    have "lab_rep ?h ck (ce\<lparr> be_parent := None \<rparr>)" "bst_rep ?h (Some (la ck)) (be_left (ce\<lparr> be_parent := None \<rparr>)) cl"
      "bst_rep ?h (Some (la ck)) (be_right (ce\<lparr> be_parent := None \<rparr>)) cr" "distinct (lab_addrs ck @ addrs cl @ addrs cr)"
      using v n ce d by (simp_all add: lab_rep_def)
    from adopt_children_ok [OF this]
    obtain h' where h': "adopt_children ?h (la ck) = Some h'" "bst_rep h' None (Some (la ck)) (Node cl ck cr)" "dom h' = dom ?h"
      by (auto simp del: bst_rep.simps)
    have "remove_single h (la k) e (la ck) x = Some (h', Some (la ck))" using None v h'(1) by (simp add: remove_single_def be_set_def be_free_def)
    moreover have "removed h c k l r (h', Some (la ck))"
      by (rule removedI [where p = None and y = "Some (la ck)" and t = "Node cl ck cr" and f = "la k"]) (use c h' adr v(1) assms(2) in auto)
    ultimately show ?thesis by simp
  next
    case (Some p)
    let ?e = "ce\<lparr> be_parent := Some p \<rparr>" let ?k = "relab (la k) ck"
    let ?h = "h(la ck := None, la k \<mapsto> ?e)"
    have "lab_rep ?h ?k ?e" "bst_rep ?h (Some (la ck)) (be_left ?e) cl" "bst_rep ?h (Some (la ck)) (be_right ?e) cr"
      "distinct (lab_addrs ?k @ addrs cl @ addrs cr)"
      using v n ce d by (auto simp add: lab_rep_def lab_addrs_def)
    from adopt_children_ok [OF this]
    obtain h' where h': "adopt_children ?h (la k) = Some h'" "bst_rep h' (Some p) (Some (la k)) (Node cl ?k cr)" "dom h' = dom ?h"
        "\<And>y. y \<notin> set (addrs cl) \<union> set (addrs cr) \<Longrightarrow> h' y = ?h y"
      by (auto simp del: bst_rep.simps)
    have "remove_single h (la k) e (la ck) x = Some (h', x)" using Some v h'(1)
      by (simp add: remove_single_def be_set_def be_free_def fun_upd_twist)
    moreover have "h' y = h y" if "y \<in> set (ctx_addrs c)" for y
      using h'(4) [of y] that n(7,8) d by (auto simp: disjoint_iff)
    then have "ctx_rep h' None x c (Some p) (Some (la k))" using ctx Some ctx_cong [of c h' h] by simp
    then have "removed h c k l r (h', x)"
      by (rule removedI [where t = "Node cl ?k cr" and f = "la ck"]) (use h' adr v assms(2) in \<open>auto simp: lab_addrs_def\<close>)
    ultimately show ?thesis by simp
  qed
qed

lemma ctx_root: "ctx_rep h p0 (Some y) c p x \<Longrightarrow> c = [] \<and> x = Some y \<or> y \<in> set (ctx_addrs c)"
proof (induction c arbitrary: p x)
  case (Cons f c)
  obtain d k s where f: "f = (d, k, s)" by (cases f)
  then obtain q where "ctx_rep h p0 (Some y) c q (Some (la k))" using Cons.prems by auto
  from Cons.IH [OF this] show ?case using f by auto
qed simp

text \<open>The leftmost entry \<open>m\<close> is taken out: its contents go to the entry \<open>k\<close>, and its right subtree takes its place.\<close>

lemma double_step:
  assumes "h (la k) = Some e" "be_right e = Some y" "bst_leftmost h y = Some (la m)" "h (la m) = Some me"
    "ctx_rep h (Some (la k)) (Some y) c p (Some (la m))" "be_parent me = p" "\<forall>f \<in> set c. fst f" "distinct (la k # ctx_addrs c @ lab_addrs m)"
  shows "\<exists>h2 e2. remove_double h (la k) y = do { h \<leftarrow> set_parent h2 (be_right me) p; be_free h (la m) } \<and> h2 (la k) = Some e2 \<and>
    be_size e2 = be_size me \<and> be_value e2 = be_value me \<and> be_next e2 = be_next me \<and> be_left e2 = be_left e \<and> be_parent e2 = be_parent e \<and>
    ctx_rep h2 (Some (la k)) (be_right e2) c p (be_right me) \<and> dom h2 = dom h \<and> (\<forall>z. z \<notin> insert (la k) (set (ctx_addrs c)) \<longrightarrow> h2 z = h z)"
proof (cases c)
  case Nil
  let ?e = "e\<lparr> be_size := be_size me, be_next := be_next me, be_value := be_value me, be_right := be_right me \<rparr>"
  have "y = la m" "p = Some (la k)" using assms(5) Nil by simp_all
  then have "remove_double h (la k) y = do { h \<leftarrow> set_parent (h(la k \<mapsto> ?e)) (be_right me) p; be_free h (la m) }"
    using assms by (simp add: remove_double_def be_set_def)
  then show ?thesis using assms(1) Nil \<open>p = Some (la k)\<close>
    by (intro exI [of _ "h(la k \<mapsto> ?e)"] exI [of _ ?e]) auto
next
  case (Cons f c')
  obtain k1 s1 where c: "c = (True, k1, s1) # c'" using Cons assms(7) by (cases f) auto
  obtain e1 where e1: "h (la k1) = Some e1" "p = Some (la k1)" using assms(5) c by (auto simp: lab_rep_def)
  have dj: "la k \<notin> set (ctx_addrs c)" "distinct (ctx_addrs c)" "set (ctx_addrs c) \<inter> set (lab_addrs m) = {}" using assms(8) by auto
  have in1: "la k1 \<in> set (ctx_addrs c)" "c \<noteq> []" using c by simp_all
  then have in2: "y \<in> set (ctx_addrs c)" using ctx_root [OF assms(5)] by blast
  have n: "la k \<noteq> la k1" "la k \<notin> set (ctx_addrs c)" "distinct (ctx_addrs c)" "y \<noteq> la m"
    using in1(1) dj(1) dj(2) in2 dj(3) la_in [of m] by (metis, simp, simp, metis disjoint_iff)
  let ?e = "e\<lparr> be_size := be_size me, be_next := be_next me, be_value := be_value me \<rparr>"
  let ?h = "h(la k \<mapsto> ?e, la k1 \<mapsto> e1\<lparr> be_left := be_right me \<rparr>)"
  have r: "remove_double h (la k) y = do { h \<leftarrow> set_parent ?h (be_right me) p; be_free h (la m) }"
    using assms e1 n by (simp add: remove_double_def be_set_def)
  have "ctx_rep (h(la k \<mapsto> ?e)) (Some (la k)) (Some y) c p (Some (la m))" using assms(5) n(2) by simp
  then have "ctx_rep ?h (Some (la k)) (Some y) c p (be_right me)"
    using ctx_hole [of "h(la k \<mapsto> ?e)" _ _ True k1 s1 c' p _ e1 "be_right me"] e1 n c by (simp del: ctx_rep.simps ctx_addrs.simps)
  then have cx: "ctx_rep ?h (Some (la k)) (be_right ?e) c p (be_right me)" using assms(2) by (simp del: ctx_rep.simps)
  have dm: "dom ?h = dom h" and fr: "\<forall>z. z \<notin> insert (la k) (set (ctx_addrs c)) \<longrightarrow> ?h z = h z" using assms(1) e1(1) c by auto
  have hk: "?h (la k) = Some ?e" using n(1) by simp
  show ?thesis by (intro exI [of _ ?h] exI [of _ ?e] conjI r cx dm fr hk) simp_all
qed

lemma remove_double_ok:
  assumes "entry_at h x c k e l r" "lch k = []" "be_right e = Some y"
  shows "wp (remove_double h (la k) y) (\<lambda>h'. removed h c k l r (h', x))"
proof -
  have rr: "bst_rep h (Some (la k)) (Some y) r" using assms(1,3) by (simp add: entry_at_def)
  obtain c' m s where m: "r = plug c' (Node Leaf m s)" "\<forall>f \<in> set c'. fst f" "bst_leftmost h y = Some (la m)" using leftmost_rep [OF rr] by blast
  obtain me p where me: "ctx_rep h (Some (la k)) (Some y) c' p (Some (la m))" "lab_rep h m me" "be_parent me = p" "be_left me = None"
      "bst_rep h (Some (la m)) (be_right me) s"
    using rr unfolding m(1) by (auto simp: plug_rep)
  have "mset (addrs r) = mset (ctx_addrs c' @ lab_addrs m @ addrs s)" unfolding m(1) by (simp add: plug_addrs)
  moreover have "distinct (ctx_addrs c @ lab_addrs k @ addrs l @ addrs r)" using assms(1) by (simp add: entry_at_def)
  ultimately have d: "distinct (ctx_addrs c @ la k # addrs l @ ctx_addrs c' @ lab_addrs m @ addrs s)"
    using assms(2) mset_eq_imp_distinct_iff [of "ctx_addrs c @ lab_addrs k @ addrs l @ addrs r" "ctx_addrs c @ la k # addrs l @ ctx_addrs c' @ lab_addrs m @ addrs s"]
    by (simp add: lab_addrs_def)
  have k: "h (la k) = Some e" "bst_rep h (Some (la k)) (be_left e) l" "ctx_rep h None x c (be_parent e) (Some (la k))"
    and mm: "h (la m) = Some me" "be_size me = lsz m" "be_value me = lval m" "bst_chain h (be_next me) (lch m)"
    using assms(1) me(2) by (auto simp: entry_at_def lab_rep_def)
  have dist: "distinct (la k # ctx_addrs c' @ lab_addrs m)" using d by auto
  obtain h2 e2 where h2: "remove_double h (la k) y = do { h \<leftarrow> set_parent h2 (be_right me) p; be_free h (la m) }" "h2 (la k) = Some e2"
    "be_size e2 = lsz m" "be_value e2 = lval m" "be_next e2 = be_next me" "be_left e2 = be_left e" "be_parent e2 = be_parent e"
    "ctx_rep h2 (Some (la k)) (be_right e2) c' p (be_right me)" "dom h2 = dom h" "\<And>z. z \<notin> insert (la k) (set (ctx_addrs c')) \<Longrightarrow> h2 z = h z"
    using double_step [OF k(1) assms(3) m(3) mm(1) me(1,3) m(2) dist] unfolding mm(2,3) by blast
  have "h2 z = h z" if "z \<in> set (addrs s)" for z using h2(10) [of z] that d by (auto simp: disjoint_iff)
  then have s2: "bst_rep h2 (Some (la m)) (be_right me) s" using me(5) rep_cong [of s h2 h] by simp
  obtain h3 where h3: "set_parent h2 (be_right me) p = Some h3" "bst_rep h3 p (be_right me) s" "dom h3 = dom h2" "\<And>z. z \<notin> set (addrs s) \<Longrightarrow> h3 z = h2 z"
    using set_parent_rep [OF s2, where q = p] d by auto
  let ?h = "h3(la m := None)" let ?k = "relab (la k) m"
  define lm where "lm = map fst (lch m)"
  have d': "distinct (ctx_addrs c @ la k # addrs l @ ctx_addrs c' @ (la m # lm) @ addrs s)" using d by (simp add: lm_def lab_addrs_def)
  have "?h z = h z" if "z \<in> set (ctx_addrs c) \<union> set (addrs l) \<union> set lm" for z
  proof -
    have "z \<noteq> la m" "z \<notin> set (addrs s)" "z \<notin> insert (la k) (set (ctx_addrs c'))" using that d' by auto
    then show ?thesis using h3(4) h2(10) by simp
  qed
  then have same: "?h z = h z" if "z \<in> set (ctx_addrs c) \<union> set (addrs l) \<union> fst ` set (lch m)" for z using that by (simp add: lm_def)
  have same2: "h3 z = h2 z" if "z \<in> insert (la k) (set (ctx_addrs c'))" for z
    using h3(4) [of z] that d by (auto simp: disjoint_iff)
  have "remove_double h (la k) y = Some ?h" using h2(1) h3(1,3) h2(9) mm(1) by (auto simp: be_free_def split: bind_split)
  moreover have "removed h c k l r (?h, x)"
  proof (rule removedI [where p = "be_parent e" and y = "Some (la k)" and t = "Node l ?k (plug c' s)" and f = "la m"])
    show "ctx_rep ?h None x c (be_parent e) (Some (la k))" using k(3) ctx_cong [of c ?h h] same by simp
    have "lab_rep ?h ?k e2" using same2 [of "la k"] h2(2-5) mm(4) chain_cong [of "lch m" ?h h] same d by (auto simp: lab_rep_def lab_addrs_def)
    moreover have "bst_rep ?h (Some (la k)) (be_left e2) l" using k(2) h2(6) rep_cong [of l ?h h] same by simp
    moreover have "bst_rep ?h (Some (la k)) (be_right e2) (plug c' s)"
    proof -
      have "ctx_rep h3 (Some (la k)) (be_right e2) c' p (be_right me)" using h2(8) ctx_cong [of c' h3 h2] same2 by simp
      moreover have "la m \<notin> set (ctx_addrs c')" "la m \<notin> set (addrs s)" using d' by auto
      ultimately have "ctx_rep ?h (Some (la k)) (be_right e2) c' p (be_right me)" "bst_rep ?h p (be_right me) s" using h3(2) by simp_all
      then show ?thesis by (auto simp: plug_rep)
    qed
    ultimately show "bst_rep ?h (be_parent e) (Some (la k)) (Node l ?k (plug c' s))" using h2(7) by auto
    show "mset (lab_addrs k @ addrs l @ addrs r) = add_mset (la m) (mset (addrs (Node l ?k (plug c' s))))"
      using assms(2) by (simp add: m(1) plug_addrs lab_addrs_def)
    show "dom ?h = dom h - {la m}" using h3(3) h2(9) by auto
    show "items (Node l ?k (plug c' s)) = items l @ (if lch k = [] then [] else [(lsz k, tl (lab_vals k))]) @ items r"
      using assms(2) ctx_before_left [OF m(2)] by (simp add: m(1) items_plug)
  qed
  ultimately show ?thesis by simp
qed

lemma remove_next_ok:
  assumes "entry_at h x c k e l r" "lch k = (a, v) # ch"
  shows "\<exists>ne h'. be_next e = Some a \<and> h a = Some ne \<and> be_value ne = v \<and>
    do { h \<leftarrow> be_set h (la k) (be_next_update (\<lambda>_. be_next ne)); be_free h a } = Some h' \<and> removed h c k l r (h', x)"
proof -
  obtain ne where ne: "be_next e = Some a" "h a = Some ne" "be_value ne = v" "bst_chain h (be_next ne) ch" and e: "h (la k) = Some e" "be_size e = lsz k"
      "be_value e = lval k"
    using assms by (auto simp: entry_at_def lab_rep_def)
  let ?e = "e\<lparr> be_next := be_next ne \<rparr>" let ?k = "Lab (la k) (lsz k) (lval k) ch" let ?h = "h(la k \<mapsto> ?e, a := None)"
  have d: "distinct (ctx_addrs c @ (la k # a # map fst ch) @ addrs l @ addrs r)" using assms by (simp add: entry_at_def lab_addrs_def)
  then have "la k \<notin> fst ` set ch" "a \<notin> fst ` set ch" "la k \<noteq> a" by auto
  then have "lab_rep ?h ?k ?e" using ne e by (simp add: lab_rep_def)
  moreover have n: "la k \<notin> set (addrs l)" "la k \<notin> set (addrs r)" "la k \<notin> set (ctx_addrs c)" "a \<notin> set (addrs l)" "a \<notin> set (addrs r)"
    "a \<notin> set (ctx_addrs c)" using d by auto
  moreover have "bst_rep h (Some (la k)) (be_left e) l" "bst_rep h (Some (la k)) (be_right e) r" using assms(1) by (simp_all add: entry_at_def)
  ultimately have "bst_rep ?h (be_parent e) (Some (la k)) (Node l ?k r)" by auto
  moreover have "ctx_rep ?h None x c (be_parent e) (Some (la k))" using assms(1) n by (simp add: entry_at_def)
  ultimately have "removed h c k l r (?h, x)"
    by (intro removedI [where f = a and t = "Node l ?k r"]) (use assms(2) e \<open>la k \<noteq> a\<close> in \<open>auto simp: lab_addrs_def lab_vals_def\<close>)
  then show ?thesis using ne e \<open>la k \<noteq> a\<close> by (auto simp: be_set_def be_free_def)
qed

text \<open>The removal of an entry pops a value of its size.\<close>

lemma remove_by_pointer_ok:
  fixes b :: "'v lexbor_bst"
  assumes inv: "bst_inv b x t" and k: "k \<in> set_tree t"
  shows "stacks t (lsz k) \<noteq> [] \<and> wp (lexbor_bst_remove_by_pointer b (la k) x) (\<lambda>(b', x', v). v = hd (stacks t (lsz k)) \<and>
    (\<exists>t'. bst_inv b' x' t' \<and> stacks t' = (stacks t)(lsz k := tl (stacks t (lsz k))) \<and> set (addrs t') \<subseteq> set (addrs t)))"
proof -
  note i = bst_invD [OF inv]
  obtain c l r where t: "t = plug c (Node l k r)" using plug_label [OF k] by blast
  let ?h = "bst_entries b"
  obtain e where e: "entry_at ?h x c k e l r" using entry_at_plug i(1,2) t by blast
  have it: "items t = (ctx_before c @ items l) @ (lsz k, lab_vals k) # (items r @ ctx_after c)" by (simp add: t items_plug)
  have st: "stacks t (lsz k) = lab_vals k" "stack_of (items t) = stacks t"
    using stacks_items [OF i(4)] stack_of_at(1) [OF i(4) [unfolded it]] it by (simp_all add: fun_eq_iff)
  have fin: "\<exists>t'. bst_inv b' x' t' \<and> stacks t' = (stacks t)(lsz k := tl (stacks t (lsz k))) \<and> set (addrs t') \<subseteq> set (addrs t)"
    if rm: "removed ?h c k l r (bst_entries b', x')" "bst_tree_length b' = bst_tree_length b - 1" for b' :: "'v lexbor_bst" and x'
  proof -
    obtain t' f where t': "bst_rep (bst_entries b') None x' t'" "mset (addrs t) = add_mset f (mset (addrs t'))" "dom (bst_entries b') = dom ?h - {f}"
      "items t' = ctx_before c @ items l @ (if lch k = [] then [] else [(lsz k, tl (lab_vals k))]) @ items r @ ctx_after c"
      using rm(1) unfolding removed_def t prod.case by blast
    have m: "mset (addrs t) = mset (f # addrs t')" using t'(2) by simp
    then have "distinct (f # addrs t')" "set (addrs t) = set (f # addrs t')" "length (addrs t) = Suc (length (addrs t'))"
      using i(2) by (metis mset_eq_imp_distinct_iff, metis mset_eq_setD, metis length_Cons mset_eq_length)
    moreover have "sorted_wrt (<) (map fst (items t'))" using i(4) unfolding t'(4) it by (auto simp: sorted_wrt_append)
    moreover have "stacks t' = (stacks t)(lsz k := tl (lab_vals k))"
    proof -
      let ?ys = "ctx_before c @ items l" let ?zs = "items r @ ctx_after c"
      have s: "sorted_wrt (<) (map fst (?ys @ (lsz k, vs) # ?zs))" for vs using i(4) it by simp
      have B: "stack_of (?ys @ (lsz k, vs) # ?zs) = (stack_of (?ys @ ?zs))(lsz k := vs)" "stack_of (?ys @ ?zs) (lsz k) = []" for vs
        using stack_of_at [OF s] by blast+
      have A: "(stacks t)(lsz k := vs) = (stack_of (?ys @ ?zs))(lsz k := vs)" for vs using B(1) st(2) it by (metis fun_upd_upd)
      have "stacks t' = stack_of (items t')" using stacks_items [of t'] calculation(4) by blast
      then show ?thesis
      proof (cases "lch k")
        case Nil
        then have "items t' = ?ys @ ?zs" "tl (lab_vals k) = []" using t'(4) by (simp_all add: lab_vals_def)
        then show ?thesis using \<open>stacks t' = stack_of (items t')\<close> A B(2) by (simp add: fun_upd_idem)
      next
        case Cons
        then have "items t' = ?ys @ (lsz k, tl (lab_vals k)) # ?zs" using t'(4) by simp
        then show ?thesis using \<open>stacks t' = stack_of (items t')\<close> A B(1) by metis
      qed
    qed
    ultimately have "bst_inv b' x' t' \<and> stacks t' = (stacks t)(lsz k := tl (stacks t (lsz k))) \<and> set (addrs t') \<subseteq> set (addrs t)"
      using t'(1,3) i(3,5) that(2) st(1) by (auto simp: bst_inv_def)
    then show ?thesis by blast
  qed
  have ev: "?h (la k) = Some e" "be_value e = lval k" "bst_chain ?h (be_next e) (lch k)" using e by (auto simp: entry_at_def lab_rep_def)
  have "wp (lexbor_bst_remove_by_pointer b (la k) x) (\<lambda>(b', x', v). v = hd (stacks t (lsz k)) \<and>
    (\<exists>t'. bst_inv b' x' t' \<and> stacks t' = (stacks t)(lsz k := tl (stacks t (lsz k))) \<and> set (addrs t') \<subseteq> set (addrs t)))"
  proof (cases "lch k")
    case (Cons av ch)
    obtain a v where av: "av = (a, v)" by (cases av)
    then obtain ne h' where "be_next e = Some a" "?h a = Some ne" "be_value ne = v"
      "do { h \<leftarrow> be_set ?h (la k) (be_next_update (\<lambda>_. be_next ne)); be_free h a } = Some h'" "removed ?h c k l r (h', x)"
      using remove_next_ok [OF e] Cons by blast
    then show ?thesis
      using ev Cons av fin [of "b\<lparr> bst_tree_length := bst_tree_length b - 1, bst_entries := h' \<rparr>" x] st(1)
      by (auto simp: lexbor_bst_remove_by_pointer_def wp_iff lab_vals_def bind_eq_Some_conv)
  next
    case Nil
    have step: "wp (do { (h, root) \<leftarrow> m; Some (b\<lparr> bst_tree_length := bst_tree_length b - 1, bst_entries := h \<rparr>, root, be_value e) })
      (\<lambda>(b', x', v). v = hd (stacks t (lsz k)) \<and> (\<exists>t'. bst_inv b' x' t' \<and> stacks t' = (stacks t)(lsz k := tl (stacks t (lsz k))) \<and> set (addrs t') \<subseteq> set (addrs t)))"
      if "wp m (removed ?h c k l r)" for m
      using that fin st(1) Nil ev(2) by (auto simp: lab_vals_def elim!: wp_mono)
    have kids: "bst_rep ?h (Some (la k)) (be_left e) l" "bst_rep ?h (Some (la k)) (be_right e) r" using e by (simp_all add: entry_at_def)
    show ?thesis
    proof (cases "be_left e"; cases "be_right e")
      assume "be_left e = None" "be_right e = None"
      moreover from this have "l = Leaf" "r = Leaf" using kids by (cases l; cases r; auto)+
      ultimately show ?thesis using step [of "remove_leaf ?h (la k) e x"] remove_leaf_ok [of ?h x c k e] e Nil ev by (simp add: lexbor_bst_remove_by_pointer_def)
    next
      fix y
      assume y: "be_left e = None" "be_right e = Some y"
      then obtain cl ck cr where c1: "l = Leaf" "r = Node cl ck cr" "y = la ck" using kids by (cases l; cases r; auto)
      show ?thesis using step [OF remove_single_ok [OF e Nil, of cl ck cr]] c1 y ev Nil by (simp add: lexbor_bst_remove_by_pointer_def)
    next
      fix y
      assume y: "be_left e = Some y" "be_right e = None"
      then obtain cl ck cr where c1: "r = Leaf" "l = Node cl ck cr" "y = la ck" using kids by (cases l; cases r; auto)
      show ?thesis using step [OF remove_single_ok [OF e Nil, of cl ck cr]] c1 y ev Nil by (simp add: lexbor_bst_remove_by_pointer_def)
    next
      fix y z
      assume y: "be_left e = Some y" "be_right e = Some z"
      have "wp (do { h \<leftarrow> remove_double ?h (la k) z; Some (h, x) }) (removed ?h c k l r)" using remove_double_ok [OF e Nil y(2)] by simp
      from step [OF this] show ?thesis using y ev Nil by (simp add: lexbor_bst_remove_by_pointer_def)
    qed
  qed
  then show ?thesis using st(1) by (simp add: lab_vals_def)
qed

end
