(* ===== verification/Mem_Bst_Use.thy ===== *)
theory Mem_Bst_Use
  imports Mem_Bst_Spec
begin

text \<open>
  The search tree of \<open>core/bst.c\<close> as its users see it: sequences of operations on \<open>bst->root\<close>, and the stacks of values by size that
  they work on.
\<close>

section \<open>The operations together\<close>

text \<open>An insertion carries the address that \<open>lexbor_dobject_calloc\<close> returns.\<close>

datatype 'v bst_op =
    Op_insert "addr option" size_t "'v option"
  | Op_insert_not_exists "addr option" size_t
  | Op_remove size_t
  | Op_remove_close size_t

datatype 'v bst_result = Res_entry "addr option" | Res_value "'v option" | Res_close "'v option" size_t

definition bst_step :: "'v bst_op \<Rightarrow> 'v lexbor_bst \<Rightarrow> ('v lexbor_bst \<times> 'v bst_result) option" where
  "bst_step p b = (case p of
      Op_insert new sz v \<Rightarrow> do { (b, x, r) \<leftarrow> lexbor_bst_insert new b (bst_root b) sz v; Some (b\<lparr> bst_root := x \<rparr>, Res_entry r) }
    | Op_insert_not_exists new sz \<Rightarrow>
        do { (b, x, r) \<leftarrow> lexbor_bst_insert_not_exists new b (bst_root b) sz; Some (b\<lparr> bst_root := x \<rparr>, Res_entry r) }
    | Op_remove sz \<Rightarrow> do { (b, x, v) \<leftarrow> lexbor_bst_remove b (bst_root b) sz; Some (b\<lparr> bst_root := x \<rparr>, Res_value v) }
    | Op_remove_close sz \<Rightarrow> do { (b, x, v, z) \<leftarrow> lexbor_bst_remove_close b (bst_root b) sz; Some (b\<lparr> bst_root := x \<rparr>, Res_close v z) })"

text \<open>The same on the stacks.  A removal with \<open>close\<close> takes from the smallest size that is large enough.\<close>

definition best_size :: "(size_t \<Rightarrow> 'a list) \<Rightarrow> size_t \<Rightarrow> size_t \<Rightarrow> bool" where
  "best_size S sz z \<longleftrightarrow> sz \<le> z \<and> S z \<noteq> [] \<and> (\<forall>y. sz \<le> y \<and> S y \<noteq> [] \<longrightarrow> z \<le> y)"

fun bst_spec :: "'v bst_op \<Rightarrow> (size_t \<Rightarrow> 'v option list) \<Rightarrow> 'v bst_result \<Rightarrow> (size_t \<Rightarrow> 'v option list) \<Rightarrow> bool" where
  "bst_spec (Op_insert None sz v) S r S' \<longleftrightarrow> S' = S \<and> r = Res_entry None"
| "bst_spec (Op_insert (Some a) sz v) S r S' \<longleftrightarrow> S' = S(sz := v # S sz) \<and> r = Res_entry (Some a)"
| "bst_spec (Op_insert_not_exists new sz) S r S' \<longleftrightarrow>
    (if S sz = [] \<and> new \<noteq> None then S' = S(sz := [None]) \<and> r = Res_entry new
     else S' = S \<and> (S sz = [] \<longrightarrow> r = Res_entry None) \<and> (S sz \<noteq> [] \<longrightarrow> r \<noteq> Res_entry None))"
| "bst_spec (Op_remove sz) S r S' \<longleftrightarrow>
    (if S sz = [] then S' = S \<and> r = Res_value None else S' = S(sz := tl (S sz)) \<and> r = Res_value (hd (S sz)))"
| "bst_spec (Op_remove_close sz) S r S' \<longleftrightarrow>
    (if \<forall>y \<ge> sz. S y = [] then S' = S \<and> r = Res_close None 0
     else \<exists>z. best_size S sz z \<and> S' = S(z := tl (S z)) \<and> r = Res_close (hd (S z)) z)"

text \<open>The address of a new entry is not in use.\<close>

definition op_fresh :: "'v bst_op \<Rightarrow> 'v lexbor_bst \<Rightarrow> bool" where
  "op_fresh p b \<longleftrightarrow> (case p of
      Op_insert (Some a) _ _ \<Rightarrow> a \<notin> dom (bst_entries b)
    | Op_insert_not_exists (Some a) _ \<Rightarrow> a \<notin> dom (bst_entries b)
    | _ \<Rightarrow> True)"

definition bst_holds :: "'v lexbor_bst \<Rightarrow> (size_t \<Rightarrow> 'v option list) \<Rightarrow> bool" where
  "bst_holds b S \<longleftrightarrow> (\<exists>t. bst_inv b (bst_root b) t \<and> stacks t = S)"

lemma holds_clean: "bst_holds (lexbor_bst_clean b) (\<lambda>_. [])"
  by (auto simp: bst_holds_def bst_inv_def lexbor_bst_clean_def intro!: exI [of _ Leaf])

lemma inv_root: "bst_inv b x t \<Longrightarrow> bst_inv (b\<lparr> bst_root := y \<rparr>) x t"
  by (simp add: bst_inv_def)

lemma insert_holds:
  assumes "bst_holds b S" "a \<notin> dom (bst_entries b)"
  shows "wp (lexbor_bst_insert (Some a) b (bst_root b) sz v) (\<lambda>(b', x, r). bst_holds (b'\<lparr> bst_root := x \<rparr>) (S(sz := v # S sz)) \<and> r = Some a \<and>
    dom (bst_entries b') = insert a (dom (bst_entries b)))"
proof -
  obtain t where t: "bst_inv b (bst_root b) t" "stacks t = S" using assms(1) by (auto simp: bst_holds_def)
  have d: "dom (bst_entries b') = insert a (dom (bst_entries b))" if "bst_inv b' x (tree_ins a sz v t)" for b' x
    using bst_invD(3) [OF that] bst_invD(3) [OF t(1)] mset_eq_setD [of "addrs (tree_ins a sz v t)" "a # addrs t"] tree_ins_addrs [of a sz v t] by simp
  have "bst_holds (b'\<lparr> bst_root := x \<rparr>) (S(sz := v # S sz)) \<and> r = Some a \<and> dom (bst_entries b') = insert a (dom (bst_entries b))"
    if "bst_inv b' x (tree_ins a sz v t) \<and> r = Some a" for b' x r
    using that d [of b' x] t(2) inv_root [of b' x] by (simp add: bst_holds_def) (metis tree_ins_stacks)
  then show ?thesis using bst_insert_inv [OF t(1) assms(2), of sz v] by (force simp: wp_iff)
qed

text \<open>A size has a stack exactly when there is an entry of this size.\<close>

lemma stacks_empty: "sorted_wrt (<) (map fst (items t)) \<Longrightarrow> stacks t z = [] \<longleftrightarrow> z \<notin> lsz ` set_tree t"
proof (induction t)
  case (Node l k r)
  then show ?case using sorted_node [OF Node.prems] by (auto simp: lab_vals_def)
qed simp

lemma remove_holds:
  assumes "bst_inv b x t" "k \<in> set_tree t"
  shows "wp (lexbor_bst_remove_by_pointer b (la k) x) (\<lambda>(b', x', v). v = hd (stacks t (lsz k)) \<and>
    bst_holds (b'\<lparr> bst_root := x' \<rparr>) ((stacks t)(lsz k := tl (stacks t (lsz k)))) \<and> dom (bst_entries b') \<subseteq> dom (bst_entries b))"
proof -
  have "bst_holds (b'\<lparr> bst_root := x' \<rparr>) S' \<and> dom (bst_entries b') \<subseteq> dom (bst_entries b)"
    if "bst_inv b' x' t'" "stacks t' = S'" "set (addrs t') \<subseteq> set (addrs t)" for b' x' t' S'
    using that inv_root [OF that(1)] bst_invD(3) [OF that(1)] bst_invD(3) [OF assms(1)] by (auto simp: bst_holds_def)
  then show ?thesis using remove_by_pointer_ok [OF assms] by (force simp: wp_iff)
qed

lemma label_size: "bst_inv b x t \<Longrightarrow> k \<in> set_tree t \<Longrightarrow> \<exists>e. bst_entries b (la k) = Some e \<and> be_size e = lsz k"
  using plug_label [of k t] entry_at_plug [of "bst_entries b" x] by (auto simp: bst_inv_def entry_at_def lab_rep_def dest!: bst_invD) blast

lemma remove_close_holds:
  assumes "bst_holds b S"
  shows "wp (lexbor_bst_remove_close b (bst_root b) sz) (\<lambda>(b', x, v, z).
    dom (bst_entries b') \<subseteq> dom (bst_entries b) \<and> (if \<forall>y \<ge> sz. S y = [] then b' = b \<and> x = bst_root b \<and> v = None \<and> z = 0
    else best_size S sz z \<and> v = hd (S z) \<and> bst_holds (b'\<lparr> bst_root := x \<rparr>) (S(z := tl (S z)))))"
proof -
  obtain t where t: "bst_inv b (bst_root b) t" "stacks t = S" using assms by (auto simp: bst_holds_def)
  note i = bst_invD [OF t(1)]
  have e: "S z = [] \<longleftrightarrow> z \<notin> lsz ` set_tree t" for z using stacks_empty [OF i(4)] t(2) by simp
  have cl: "bst_close_loop (bst_entries b) (bst_root b) None sz = Some (map_option la (tree_close sz None t))"
    using close_loop_rep [OF i(1), of None] by simp
  note best = tree_close_best [OF i(4), of None sz, simplified]
  show ?thesis
  proof (cases "tree_close sz None t")
    case None
    then have "\<forall>y \<ge> sz. S y = []" using best e by (auto simp: image_iff not_less [symmetric])
    then show ?thesis using None cl by (simp add: lexbor_bst_remove_close_def)
  next
    case (Some k)
    then have k: "sz \<le> lsz k" "k \<in> set_tree t" "\<forall>k' \<in> set_tree t. sz \<le> lsz k' \<longrightarrow> lsz k \<le> lsz k'" using best by auto
    then have b: "best_size S sz (lsz k)" "\<not> (\<forall>y \<ge> sz. S y = [])" by (auto simp: best_size_def e)
    show ?thesis
      using remove_holds [OF t(1) k(2)] label_size [OF t(1) k(2)] b Some cl t(2) by (auto simp: lexbor_bst_remove_close_def elim!: wp_mono)
  qed
qed

lemma remove_size_holds:
  assumes "bst_holds b S"
  shows "wp (lexbor_bst_remove b (bst_root b) sz) (\<lambda>(b', x, v).
    if S sz = [] then b' = b \<and> x = bst_root b \<and> v = None else v = hd (S sz) \<and> bst_holds (b'\<lparr> bst_root := x \<rparr>) (S(sz := tl (S sz))))"
proof -
  obtain t where t: "bst_inv b (bst_root b) t" "stacks t = S" using assms by (auto simp: bst_holds_def)
  note i = bst_invD [OF t(1)]
  have e: "S sz = [] \<longleftrightarrow> sz \<notin> lsz ` set_tree t" using stacks_empty [OF i(4)] t(2) by simp
  note sl = search_loop_rep [OF i(1), of sz]
  show ?thesis
  proof (cases "tree_find sz t")
    case None
    then show ?thesis using tree_find_None [OF i(4) None] e sl by (simp add: lexbor_bst_remove_def)
  next
    case (Some k)
    then have k: "k \<in> set_tree t" "lsz k = sz" using tree_find_Some by blast+
    then have "S sz \<noteq> []" using e by blast
    then show ?thesis using remove_holds [OF t(1) k(1)] k(2) sl Some t(2) by (auto simp: lexbor_bst_remove_def elim!: wp_mono)
  qed
qed

text \<open>Without an entry of the size, the insertion of a new one is the ordinary insertion with the value NULL.\<close>

lemma not_exists_loop:
  assumes "bst_rep (bst_entries b) p (Some x) t" "\<And>a. new = Some a \<Longrightarrow> a \<notin> set (addrs t)"
  shows "bst_insert_not_exists_loop new b sz x = (case tree_find sz t of
      Some k \<Rightarrow> Some (b, la k)
    | None \<Rightarrow> do {
        a \<leftarrow> new;
        h \<leftarrow> bst_insert_loop ((bst_entries b)(a \<mapsto> be_new sz None)) a sz x;
        Some (b\<lparr> bst_tree_length := bst_tree_length b + 1, bst_entries := h \<rparr>, a)
      })"
  using assms
proof (induction t arbitrary: p x)
  case (Node l k r)
  obtain e where e: "x = la k" "bst_entries b (la k) = Some e" "be_size e = lsz k" "bst_rep (bst_entries b) (Some (la k)) (be_left e) l"
      "bst_rep (bst_entries b) (Some (la k)) (be_right e) r"
    using Node.prems(1) by (auto simp: lab_rep_def)
  have n: "a \<noteq> la k" if "new = Some a" for a using Node.prems(2) [OF that] by auto
  have leaf: "l = Leaf" if "be_left e = None" using e(4) that by (cases l) auto
  have leaf2: "r = Leaf" if "be_right e = None" using e(5) that by (cases r) auto
  note st = bst_insert_not_exists_loop.simps [of new b sz "la k"] bst_insert_loop.simps [of _ _ sz "la k"]
  show ?case
  proof (cases new)
    case None
    show ?thesis
      unfolding e(1) st(1) using e leaf leaf2 None Node.IH(1) [of "Some (la k)"] Node.IH(2) [of "Some (la k)"]
      by (auto simp: lexbor_bst_entry_make_def be_set_def split: option.split)
  next
    case (Some a)
    have "a \<noteq> la k" "a \<notin> set (addrs l)" "a \<notin> set (addrs r)" using n [OF Some] Node.prems(2) [OF Some] by auto
    then show ?thesis
      unfolding e(1) st(1) using e leaf leaf2 Some Node.IH(1) [of "Some (la k)"] Node.IH(2) [of "Some (la k)"]
      by (auto simp: st(2) lexbor_bst_entry_make_def be_set_def split: option.split)
  qed
qed simp

lemma not_exists_holds:
  assumes "bst_holds b S" "op_fresh (Op_insert_not_exists new sz) b"
  shows "if S sz = [] \<and> new = None \<and> bst_root b \<noteq> None then lexbor_bst_insert_not_exists new b (bst_root b) sz = None
    else wp (lexbor_bst_insert_not_exists new b (bst_root b) sz) (\<lambda>(b', x, r). \<exists>S'. bst_holds (b'\<lparr> bst_root := x \<rparr>) S' \<and>
      bst_spec (Op_insert_not_exists new sz) S (Res_entry r) S')"
proof -
  obtain t where t: "bst_inv b (bst_root b) t" "stacks t = S" using assms by (auto simp: bst_holds_def)
  note i = bst_invD [OF t(1)]
  have e: "S sz = [] \<longleftrightarrow> sz \<notin> lsz ` set_tree t" using stacks_empty [OF i(4)] t(2) by simp
  have fr: "a \<notin> set (addrs t)" "a \<notin> dom (bst_entries b)" if "new = Some a" for a using assms(2) that i(3) by (auto simp: op_fresh_def)
  have keep: "bst_holds (b\<lparr> bst_root := bst_root b \<rparr>) S" using assms(1) by simp
  show ?thesis
  proof (cases "bst_root b")
    case None
    then have "t = Leaf" using i(1) by (cases t) auto
    then have S: "S = (\<lambda>_. [])" using t(2) by (simp add: fun_eq_iff)
    show ?thesis
    proof (cases new)
      case None
      then show ?thesis using S keep \<open>bst_root b = None\<close> by (simp add: lexbor_bst_insert_not_exists_def lexbor_bst_entry_make_def)
    next
      case (Some a)
      then show ?thesis using S \<open>bst_root b = None\<close> insert_holds [OF assms(1) fr(2) [OF Some], of sz None]
        by (simp add: lexbor_bst_insert_not_exists_def lexbor_bst_entry_make_def lexbor_bst_insert_def Let_def)
    qed
  next
    case (Some y)
    have lp: "bst_insert_not_exists_loop new b sz y = (case tree_find sz t of
      Some k \<Rightarrow> Some (b, la k)
    | None \<Rightarrow> do {
        a \<leftarrow> new;
        h \<leftarrow> bst_insert_loop ((bst_entries b)(a \<mapsto> be_new sz None)) a sz y;
        Some (b\<lparr> bst_tree_length := bst_tree_length b + 1, bst_entries := h \<rparr>, a)
      })"
      by (rule not_exists_loop) (use i(1) Some fr in auto)
    show ?thesis
    proof (cases "tree_find sz t")
      case None
      then have S: "S sz = []" using e tree_find_None [OF i(4)] by simp
      show ?thesis
      proof (cases new)
        case None
        then show ?thesis using S Some lp \<open>tree_find sz t = None\<close> by (simp add: lexbor_bst_insert_not_exists_def)
      next
        case (Some a)
        then show ?thesis using S \<open>bst_root b = Some y\<close> lp \<open>tree_find sz t = None\<close> insert_holds [OF assms(1) fr(2) [OF Some], of sz None]
          by (auto simp: lexbor_bst_insert_not_exists_def lexbor_bst_insert_def Let_def elim!: wp_mono)
      qed
    next
      case (Some k)
      then have "S sz \<noteq> []" using e tree_find_Some by blast
      then show ?thesis using Some lp \<open>bst_root b = Some y\<close> keep by (simp add: lexbor_bst_insert_not_exists_def)
    qed
  qed
qed

section \<open>Trees in use\<close>

text \<open>A tree that was cleaned and then used, with the stacks that it should hold.\<close>

inductive bst_used :: "'v lexbor_bst \<Rightarrow> (size_t \<Rightarrow> 'v option list) \<Rightarrow> bool" where
  used_clean: "bst_used (lexbor_bst_clean b) (\<lambda>_. [])"
| used_step: "bst_used b S \<Longrightarrow> op_fresh p b \<Longrightarrow> bst_step p b = Some (b', r) \<Longrightarrow> bst_spec p S r S' \<Longrightarrow> bst_used b' S'"

lemma spec_holds:
  assumes "bst_holds b S" "op_fresh p b" "bst_root b = None \<or> (\<forall>sz. p \<noteq> Op_insert_not_exists None sz)"
  shows "wp (bst_step p b) (\<lambda>(b', r). \<exists>S'. bst_spec p S r S' \<and> bst_holds b' S')"
proof (cases p)
  case (Op_insert new sz v)
  show ?thesis
  proof (cases new)
    case None
    then show ?thesis using assms(1) Op_insert by (simp add: bst_step_def lexbor_bst_insert_def)
  next
    case (Some a)
    then show ?thesis using insert_holds [OF assms(1), of a sz v] assms(2) Op_insert
      by (auto simp: bst_step_def op_fresh_def elim!: wp_mono)
  qed
next
  case (Op_insert_not_exists new sz)
  then have "\<not> (S sz = [] \<and> new = None \<and> bst_root b \<noteq> None)" using assms(3) by auto
  then show ?thesis using not_exists_holds [OF assms(1), of new sz] assms(2) Op_insert_not_exists
    by (auto simp del: bst_spec.simps simp: bst_step_def elim!: wp_mono; blast)
next
  case (Op_remove sz)
  then show ?thesis using remove_size_holds [OF assms(1), of sz] assms(1) by (cases "S sz = []") (auto simp: bst_step_def elim!: wp_mono)
next
  case (Op_remove_close sz)
  show ?thesis
  proof (cases "\<forall>y \<ge> sz. S y = []")
    case True
    then show ?thesis using remove_close_holds [OF assms(1), of sz] assms(1) Op_remove_close by (auto simp: bst_step_def elim!: wp_mono)
  next
    case False
    then show ?thesis using remove_close_holds [OF assms(1), of sz] Op_remove_close
      by (auto simp del: not_all simp: bst_step_def elim!: wp_mono)
  qed
qed

lemma spec_fun: "bst_spec p S r S1 \<Longrightarrow> bst_spec p S r S2 \<Longrightarrow> S1 = S2"
  by (induction p S r S1 rule: bst_spec.induct) (auto split: if_splits)

text \<open>Every operation follows the stacks, or is the insertion of a new size by \<open>insert_not_exists\<close> without memory.\<close>

lemma step_holds:
  assumes "bst_holds b S" "op_fresh p b"
  shows "case bst_step p b of
      None \<Rightarrow> bst_root b \<noteq> None \<and> (\<exists>sz. p = Op_insert_not_exists None sz \<and> S sz = [])
    | Some (b', r) \<Rightarrow> \<exists>S'. bst_spec p S r S' \<and> bst_holds b' S'"
proof (cases "bst_root b = None \<or> (\<forall>sz. p \<noteq> Op_insert_not_exists None sz)")
  case True
  from spec_holds [OF assms True] show ?thesis by (auto simp: wp_iff)
next
  case False
  then obtain sz where p: "p = Op_insert_not_exists None sz" by blast
  note h = not_exists_holds [OF assms(1), of None sz]
  show ?thesis
  proof (cases "S sz = []")
    case True
    then show ?thesis using h False p by (simp add: bst_step_def op_fresh_def)
  next
    case some: False
    then show ?thesis using h p by (auto simp: bst_step_def op_fresh_def wp_iff)
  qed
qed

lemma used_holds: "bst_used b S \<Longrightarrow> bst_holds b S"
proof (induction rule: bst_used.induct)
  case (used_step b S p b' r S')
  from step_holds [OF used_step.IH used_step.hyps(2)] used_step.hyps(3)
  obtain S1 where "bst_spec p S r S1" "bst_holds b' S1" by auto
  then show ?case using spec_fun used_step.hyps(4) by blast
qed (rule holds_clean)

text \<open>C27: After any sequence of insertions and removals, with or without memory, each operation works as on stacks of values: an insertion
  pushes a value on the stack of its size, a removal pops from the stack of the size, and a \<open>close\<close> removal from the stack of the
  smallest size that is large enough; a failed allocation changes nothing.  Only one operation is undefined: the insertion of a new
  size by \<open>insert_not_exists\<close> into a tree that is not empty, without memory.\<close>

theorem bst_refines_stacks:
  assumes "bst_used b S" "op_fresh p b"
  shows "case bst_step p b of
      None \<Rightarrow> bst_root b \<noteq> None \<and> (\<exists>sz. p = Op_insert_not_exists None sz \<and> S sz = [])
    | Some (b', r) \<Rightarrow> \<exists>S'. bst_spec p S r S' \<and> bst_used b' S'"
proof (cases "bst_step p b")
  case None
  then show ?thesis using step_holds [OF used_holds [OF assms(1)] assms(2)] by simp
next
  case (Some x)
  obtain b' r where x: "x = (b', r)" by (cases x)
  then obtain S' where "bst_spec p S r S'" using step_holds [OF used_holds [OF assms(1)] assms(2)] Some by auto
  then show ?thesis using used_step [OF assms] Some x by auto
qed

lemma ex_used: "bst_used (lexbor_bst_clean undefined) (\<lambda>_. [] :: nat option list)"
  by (rule used_clean)

text \<open>Two values of size 8, one of size 24: the best fit for 16 is the one of size 24.\<close>

theorem bst_refines_stacks_witness:
  "\<exists>b1 r1 S1 b2 r2 S2 b3 r3 S3. bst_step (Op_insert (Some 1) 8 (Some (5 :: nat))) (lexbor_bst_clean undefined) = Some (b1, r1) \<and>
    bst_step (Op_remove_close 16) b1 = Some (b2, r2) \<and> r2 = Res_close None 0 \<and>
    bst_step (Op_remove 8) b2 = Some (b3, r3) \<and> r3 = Res_value (Some 5) \<and> bst_used b3 S3"
proof -
  have f: "op_fresh (Op_insert (Some 1) 8 (Some (5 :: nat))) (lexbor_bst_clean undefined)" by (simp add: op_fresh_def lexbor_bst_clean_def)
  obtain b1 r1 S1 where s1: "bst_step (Op_insert (Some 1) 8 (Some (5 :: nat))) (lexbor_bst_clean undefined) = Some (b1, r1)"
      "bst_used b1 S1" "S1 = (\<lambda>_. [])(8 := [Some 5])"
    using bst_refines_stacks [OF ex_used f] by (auto split: option.splits)
  obtain b2 r2 S2 where s2: "bst_step (Op_remove_close 16) b1 = Some (b2, r2)" "bst_used b2 S2" "bst_spec (Op_remove_close 16) S1 r2 S2"
    using bst_refines_stacks [OF s1(2), of "Op_remove_close 16"] by (auto simp: op_fresh_def simp del: bst_spec.simps split: option.splits)
  have "\<forall>y \<ge> 16. S1 y = []" using s1(3) by auto
  then have r2: "S2 = S1" "r2 = Res_close None 0" using s2(3) by simp_all
  obtain b3 r3 S3 where s3: "bst_step (Op_remove 8) b2 = Some (b3, r3)" "bst_used b3 S3" "bst_spec (Op_remove 8) S2 r3 S3"
    using bst_refines_stacks [OF s2(2), of "Op_remove 8"] by (auto simp: op_fresh_def simp del: bst_spec.simps split: option.splits)
  then have "r3 = Res_value (Some 5)" using r2 s1(3) by simp
  then show ?thesis using s1(1) s2(1) s3(1,2) r2(2) by blast
qed

text \<open>C30: When there is no memory for a new entry, \<open>lexbor_bst_insert_not_exists\<close> on a tree without an entry of the size dereferences NULL.\<close>

theorem insert_not_exists_no_memory:
  assumes "bst_used b S" "bst_root b \<noteq> None" "S sz = []"
  shows "bst_step (Op_insert_not_exists None sz) b = None"
  using not_exists_holds [OF used_holds [OF assms(1)], of None sz] assms(2,3) by (simp add: bst_step_def op_fresh_def)

theorem insert_not_exists_no_memory_witness:
  "\<exists>b. bst_step (Op_insert (Some 1) 8 (Some (5 :: nat))) (lexbor_bst_clean undefined) = Some (b, Res_entry (Some 1)) \<and>
    bst_step (Op_insert_not_exists None 16) b = None"
proof -
  let ?b = "\<lparr> bst_entries = [1 \<mapsto> be_new 8 (Some (5 :: nat))], bst_root = Some 1, bst_tree_length = 1 \<rparr>"
  have st: "bst_step (Op_insert (Some 1) 8 (Some 5)) (lexbor_bst_clean undefined) = Some (?b, Res_entry (Some 1))"
    by (simp add: bst_step_def lexbor_bst_insert_def lexbor_bst_clean_def)
  have "bst_used ?b ((\<lambda>_. [])(8 := [Some 5]))"
    by (rule used_step [OF ex_used _ st]) (simp_all add: op_fresh_def lexbor_bst_clean_def)
  from insert_not_exists_no_memory [OF this, of 16] show ?thesis using st by auto
qed

text \<open>The searches.\<close>

lemma search_holds:
  assumes "bst_used b S"
  shows "\<exists>r. lexbor_bst_search b (bst_root b) sz = Some r \<and>
    (case r of None \<Rightarrow> S sz = [] | Some a \<Rightarrow> S sz \<noteq> [] \<and> (\<exists>e. bst_entries b a = Some e \<and> be_size e = sz))"
    "\<exists>r. lexbor_bst_search_close b (bst_root b) sz = Some r \<and>
    (case r of None \<Rightarrow> \<forall>y \<ge> sz. S y = [] | Some a \<Rightarrow> \<exists>e. bst_entries b a = Some e \<and> best_size S sz (be_size e))"
proof -
  obtain t where t: "bst_inv b (bst_root b) t" "stacks t = S" using used_holds [OF assms] by (auto simp: bst_holds_def)
  note i = bst_invD [OF t(1)]
  have e: "S z = [] \<longleftrightarrow> z \<notin> lsz ` set_tree t" for z using stacks_empty [OF i(4)] t(2) by simp
  have "case map_option la (tree_find sz t) of None \<Rightarrow> S sz = [] | Some a \<Rightarrow> S sz \<noteq> [] \<and> (\<exists>e. bst_entries b a = Some e \<and> be_size e = sz)"
    using tree_find_None [OF i(4), of sz] tree_find_Some [of sz t] label_size [OF t(1)] e by (cases "tree_find sz t") auto
  then show "\<exists>r. lexbor_bst_search b (bst_root b) sz = Some r \<and>
    (case r of None \<Rightarrow> S sz = [] | Some a \<Rightarrow> S sz \<noteq> [] \<and> (\<exists>e. bst_entries b a = Some e \<and> be_size e = sz))"
    using search_loop_rep [OF i(1), of sz] by (simp add: lexbor_bst_search_def)
  have "case map_option la (tree_close sz None t) of None \<Rightarrow> \<forall>y \<ge> sz. S y = []
      | Some a \<Rightarrow> \<exists>e. bst_entries b a = Some e \<and> best_size S sz (be_size e)"
    using tree_close_best [OF i(4), of None sz] label_size [OF t(1)]
    by (cases "tree_close sz None t") (fastforce simp: best_size_def e image_iff not_less [symmetric])+
  then show "\<exists>r. lexbor_bst_search_close b (bst_root b) sz = Some r \<and>
    (case r of None \<Rightarrow> \<forall>y \<ge> sz. S y = [] | Some a \<Rightarrow> \<exists>e. bst_entries b a = Some e \<and> best_size S sz (be_size e))"
    using close_loop_rep [OF i(1), of None sz] by (simp add: lexbor_bst_search_close_def)
qed

end
