(* ===== verification/Mem_Mraw_Spec.thy ===== *)
theory Mem_Mraw_Spec
  imports Mem_Mraw Mem_Pool_Spec Mem_Bst_Use
begin

text \<open>
  The pieces of a pool.  A piece is a pointer to its data and a size; its region begins with the word in front of the data, which holds
  the size.  The pieces that the user has and those in the cache do not overlap, whatever the sequence of allocations and releases is,
  and what the user has stored stays.  Making a piece smaller can break this (see \<open>Mem_Session\<close>), and when the system refuses the block
  of an empty chunk the pool is lost (\<open>gone\<close>): its pieces stay, but it must not be used any more.
\<close>

section \<open>Pieces\<close>

type_synonym piece = "ptr \<times> size_t"

definition region_of :: "piece \<Rightarrow> region" where
  "region_of = (\<lambda>((b, i), sz). (b, i - 8, i + unat sz))"

text \<open>The size is in front of the data.\<close>

definition piece_ok :: "lexbor_mem \<Rightarrow> piece \<Rightarrow> bool" where
  "piece_ok m = (\<lambda>((b, i), sz). 8 \<le> i \<and> mm_words m (b, i - 8) = Some sz)"

definition cached :: "(size_t \<Rightarrow> ptr option list) \<Rightarrow> piece set" where
  "cached S = {(p, sz). Some p \<in> set (S sz)}"

definition cache_ok :: "ptr lexbor_bst \<Rightarrow> (size_t \<Rightarrow> ptr option list) \<Rightarrow> bool" where
  "cache_ok b S \<longleftrightarrow> bst_holds b S \<and> (\<forall>sz. distinct (S sz) \<and> None \<notin> set (S sz))"

definition mraw_inv :: "lexbor_mraw \<Rightarrow> piece set \<Rightarrow> bool" where
  "mraw_inv mr L \<longleftrightarrow> (\<exists>S. cache_ok (mr_cache mr) S \<and> L \<inter> cached S = {} \<and> mem_inv (mr_mem mr) (region_of ` (L \<union> cached S)) \<and>
    (\<forall>p \<in> L \<union> cached S. piece_ok (mr_mem mr) p))"

text \<open>The pieces of a pool are determined by their regions.\<close>

lemma region_inj: "piece_ok m p \<Longrightarrow> piece_ok m q \<Longrightarrow> region_of p = region_of q \<Longrightarrow> p = q"
  by (auto simp: piece_ok_def region_of_def split: prod.splits)

lemma pieces_apart:
  assumes "mem_inv m (region_of ` P)" "\<forall>p \<in> P. piece_ok m p" "p \<in> P" "q \<in> P" "p \<noteq> q"
  shows "apart (region_of p) (region_of q)"
  using assms region_inj [of m p q] unfolding mem_inv_def by blast

lemma region_word:
  assumes "mem_inv m R" "(b, s, e) \<in> R" "s \<le> i" "i + 8 \<le> e" "8 dvd i"
  shows "word_at m (b, i)"
proof -
  obtain a c where ac: "mm_chunks m a = Some c" "ck_data c = Some b" "e \<le> unat (ck_length c)"
    using assms(1,2) by (fastforce simp: mem_inv_def in_chunk_def)
  have "chunk_ok m c" using assms(1) chunks_okD(1) [OF _ ac(1)] by (simp add: mem_inv_def)
  then show ?thesis using ac assms(4,5) by (auto simp: chunk_ok_def word_at_def word_le_nat_alt mod_eq_0_iff_dvd)
qed

text \<open>A region is aligned, and its block is live.\<close>

lemma region_block:
  assumes "mem_inv m R" "(b, s, e) \<in> R"
  shows "\<exists>n. mm_blocks m b = Some n \<and> e \<le> unat n" "s < e" "8 dvd s" "8 dvd e" "e \<le> 2 ^ 62"
proof -
  obtain a c where ac: "mm_chunks m a = Some c" "ck_data c = Some b" "e \<le> unat (ck_length c)" "s < e" "8 dvd s" "8 dvd e"
    using assms by (fastforce simp: mem_inv_def in_chunk_def)
  have "chunk_ok m c" using assms(1) chunks_okD(1) [OF _ ac(1)] by (simp add: mem_inv_def)
  then show "\<exists>n. mm_blocks m b = Some n \<and> e \<le> unat n" "s < e" "8 dvd s" "8 dvd e" "e \<le> 2 ^ 62"
    using ac by (auto simp: chunk_ok_def word_le_nat_alt)
qed

lemma piece_size:
  assumes "mem_inv m (region_of ` P)" "piece_ok m p" "p \<in> P" "p = ((b, i), sz)"
  shows "8 \<le> i" "8 dvd i" "8 dvd unat sz" "lexbor_mraw_data_size m (b, i) = Some sz" "unat sz \<le> 2 ^ 62" "word_at m (b, i - 8)"
    "in_block m (b, i) (unat sz)"
proof -
  have r: "(b, i - 8, i + unat sz) \<in> region_of ` P" using assms(3,4) by (force simp: region_of_def)
  show i: "8 \<le> i" using assms(2,4) by (simp add: piece_ok_def)
  note rb = region_block [OF assms(1) r]
  show d: "8 dvd i" using rb(3) i dvd_diffD [of 8 i 8] by simp
  show "8 dvd unat sz" using rb(4) d dvd_add_right_iff [of 8 i "unat sz"] by simp
  show "unat sz \<le> 2 ^ 62" using rb(5) by simp
  show w: "word_at m (b, i - 8)" by (rule region_word [OF assms(1) r]) (use i rb(3) in auto)
  show "lexbor_mraw_data_size m (b, i) = Some sz" using w assms(2,4) i by (simp add: lexbor_mraw_data_size_def meta_ptr_def piece_ok_def)
  show "in_block m (b, i) (unat sz)" using rb(1) by (auto simp: in_block_def)
qed

section \<open>The cache\<close>

lemma cached_push: "cached (S(sz := Some p # S sz)) = insert (p, sz) (cached S)"
  by (auto simp: cached_def)

lemma cached_pop:
  assumes "S z = Some p # s" "distinct (S z)"
  shows "cached (S(z := s)) = cached S - {(p, z)}" "(p, z) \<in> cached S"
  using assms by (auto simp: cached_def)

text \<open>Inserting into the cache never fails to keep it in order; without memory for the entry the piece is lost.\<close>

lemma cache_insert_ok:
  assumes "cache_ok (mr_cache mr) S" "\<And>a. ent = Some a \<Longrightarrow> a \<notin> dom (bst_entries (mr_cache mr))" "(p, sz) \<notin> cached S"
  shows "wp (cache_insert ent mr sz p) (\<lambda>mr'. mr_mem mr' = mr_mem mr \<and>
    dom (bst_entries (mr_cache mr')) = dom (bst_entries (mr_cache mr)) \<union> set_option ent \<and>
    (\<exists>S'. cache_ok (mr_cache mr') S' \<and> cached S' = (if ent = None then cached S else insert (p, sz) (cached S))))"
proof (cases ent)
  case None
  then show ?thesis using assms(1) by (auto simp: cache_insert_def lexbor_bst_insert_def)
next
  case (Some a)
  have h: "bst_holds (mr_cache mr) S" using assms(1) by (simp add: cache_ok_def)
  have "cache_ok b (S(sz := Some p # S sz))" if "bst_holds b (S(sz := Some p # S sz))" for b
    using that assms(1,3) by (auto simp: cache_ok_def cached_def)
  then show ?thesis
    using insert_holds [OF h assms(2) [OF Some], of sz "Some p"] Some cached_push [of S sz p]
    by (auto simp: cache_insert_def elim!: wp_mono) blast
qed

section \<open>Pieces and regions in hand\<close>

text \<open>The pool with the pieces \<open>L\<close> of the user, the cache \<open>S\<close>, and regions \<open>X\<close> that are taken but not yet pieces.\<close>

definition pool :: "lexbor_mraw \<Rightarrow> piece set \<Rightarrow> (size_t \<Rightarrow> ptr option list) \<Rightarrow> region set \<Rightarrow> bool" where
  "pool mr L S X \<longleftrightarrow> cache_ok (mr_cache mr) S \<and> L \<inter> cached S = {} \<and> mem_inv (mr_mem mr) (X \<union> region_of ` (L \<union> cached S)) \<and>
    (\<forall>p \<in> L \<union> cached S. piece_ok (mr_mem mr) p) \<and> (\<forall>x \<in> X. \<forall>p \<in> L \<union> cached S. apart x (region_of p))"

lemma pool_inv: "mraw_inv mr L \<longleftrightarrow> (\<exists>S. pool mr L S {})"
  by (simp add: mraw_inv_def pool_def)

text \<open>What the user has stored in the pieces is kept.\<close>

definition kept :: "piece set \<Rightarrow> lexbor_mem \<Rightarrow> lexbor_mem \<Rightarrow> bool" where
  "kept L m m' \<longleftrightarrow> (\<forall>p \<in> L. \<forall>b s e j. region_of p = (b, s, e) \<longrightarrow> s \<le> j \<longrightarrow> j < e \<longrightarrow> mm_words m' (b, j) = mm_words m (b, j))"

lemma keeps_refl: "kept L m m"
  by (simp add: kept_def)

lemma keeps_trans: "kept L m m' \<Longrightarrow> kept L m' m'' \<Longrightarrow> kept L m m''"
  by (simp add: kept_def)

lemma keeps_mono: "kept L m m' \<Longrightarrow> L' \<subseteq> L \<Longrightarrow> kept L' m m'"
  by (auto simp: kept_def)

lemma keeps_words: "mm_words m' = mm_words m \<Longrightarrow> kept L m m'"
  by (simp add: kept_def)

lemma keeps_piece: "kept L m m' \<Longrightarrow> p \<in> L \<Longrightarrow> piece_ok m p \<Longrightarrow> piece_ok m' p"
  by (cases p; cases "fst p") (fastforce simp: kept_def piece_ok_def region_of_def)

text \<open>Words that change outside of the regions do not matter.\<close>

lemma keeps_outside:
  assumes "\<And>q. q \<notin> {(b, j) |j. s \<le> j \<and> j < e} \<Longrightarrow> mm_words m' q = mm_words m q" "\<And>p. p \<in> L \<Longrightarrow> apart (b, s, e) (region_of p)"
  shows "kept L m m'"
  unfolding kept_def
proof (intro ballI allI impI)
  fix p b' s' e' j
  assume p: "p \<in> L" "region_of p = (b', s', e')" "s' \<le> j" "j < e'"
  then have "apart (b, s, e) (b', s', e')" using assms(2) by metis
  then have "(b', j) \<notin> {(b, j) |j. s \<le> j \<and> j < e}" using p by (auto simp: apart_def)
  then show "mm_words m' (b', j) = mm_words m (b', j)" using assms(1) by blast
qed

lemma keeps_blocks:
  assumes "same_blocks m m'" "mem_inv m (region_of ` L)"
  shows "kept L m m'"
  unfolding kept_def
proof (intro ballI allI impI)
  fix p b s e j
  assume p: "p \<in> L" "region_of p = (b, s, e)"
  then have "(b, s, e) \<in> region_of ` L" by force
  from region_block(1) [OF assms(2) this] have "b \<in> dom (mm_blocks m)" by auto
  then show "mm_words m' (b, j) = mm_words m (b, j)" using assms(1) by (simp add: same_blocks_def)
qed

lemma region_le:
  assumes "mem_inv m R" "mm_chunks m a = Some c" "ck_data c = Some b" "(b, s, e) \<in> R"
  shows "e \<le> unat (ck_length c)"
proof -
  have i: "chunks_ok m" using assms(1) by (simp add: mem_inv_def)
  obtain x d where xd: "mm_chunks m x = Some d" "ck_data d = Some b" "e \<le> unat (ck_length d)" using assms(1,4) by (fastforce simp: mem_inv_def in_chunk_def)
  have "x = a" using chunks_okD(2) [OF i xd(1) assms(2)] xd(2) assms(3) by simp
  then show ?thesis using xd assms(2) by simp
qed

text \<open>A region in hand becomes a piece of the user when its size is written.\<close>

lemma region_to_piece:
  assumes "pool mr L S {(b, s, e)}" "e = s + 8 + unat sz"
  shows "wp (mr_mem_do mr (\<lambda>m. lexbor_mraw_meta_set m (b, s) sz)) (\<lambda>mr'. pool mr' (insert ((b, s + 8), sz) L) S {} \<and>
    ((b, s + 8), sz) \<notin> L \<and> kept L (mr_mem mr) (mr_mem mr'))"
proof -
  let ?m = "mr_mem mr" let ?p = "((b, s + 8), sz)" let ?m' = "?m\<lparr> mm_words := (mm_words ?m)((b, s) := Some sz) \<rparr>"
  note p = assms(1) [unfolded pool_def]
  have inv: "mem_inv ?m (insert (b, s, e) (region_of ` (L \<union> cached S)))" using p by simp
  have r: "region_of ?p = (b, s, e)" using assms(2) by (simp add: region_of_def)
  have se: "s < e" "8 dvd s" using region_block [OF inv, of b s e] by simp_all
  have w: "word_at ?m (b, s)" by (rule region_word [OF inv, of b s e]) (use assms(2) se in auto)
  have ap: "apart (b, s, e) (region_of q)" if "q \<in> L \<union> cached S" for q using p that by simp
  have n: "?p \<notin> L \<union> cached S" using ap [of ?p] r se(1) by (auto simp: apart_def)
  have k: "kept (L \<union> cached S) ?m ?m'" by (rule keeps_outside [OF _ ap]) (use se in auto)
  have ok: "piece_ok ?m' q" if "q \<in> insert ?p (L \<union> cached S)" for q
    using that keeps_piece [OF k, of q] p by (auto simp: piece_ok_def)
  have "pool (mr\<lparr> mr_mem := ?m' \<rparr>) (insert ?p L) S {}"
    using p n ok inv r by (simp add: pool_def)
  moreover have "kept L ?m ?m'" using k keeps_mono by blast
  ultimately show ?thesis using w n by (simp add: mr_mem_do_def lexbor_mraw_meta_set_def)
qed

section \<open>Allocation\<close>

definition same_places :: "lexbor_mem \<Rightarrow> lexbor_mem \<Rightarrow> bool" where
  "same_places m m' \<longleftrightarrow> dom (mm_chunks m') = dom (mm_chunks m) \<and> mm_blocks m' = mm_blocks m \<and> mm_chunk m' = mm_chunk m"

lemma save_tail_ok:
  assumes p: "pool mr L S {}" and c: "mm_chunk (mr_mem mr) = Some a" "mm_chunks (mr_mem mr) a = Some c"
    and ent: "\<And>x. ent = Some x \<Longrightarrow> x \<notin> dom (bst_entries (mr_cache mr))"
  shows "wp (save_tail ent mr a c) (\<lambda>mr'. (\<exists>S'. pool mr' L S' {}) \<and> kept L (mr_mem mr) (mr_mem mr') \<and>
    same_places (mr_mem mr) (mr_mem mr') \<and> dom (bst_entries (mr_cache mr')) \<subseteq> dom (bst_entries (mr_cache mr)) \<union> set_option ent)"
proof -
  let ?m = "mr_mem mr" let ?P = "L \<union> cached S"
  have p': "cache_ok (mr_cache mr) S" "L \<inter> cached S = {}" "mem_inv ?m (region_of ` ?P)" "\<forall>q \<in> ?P. piece_ok ?m q" using p by (simp_all add: pool_def)
  have i: "chunks_ok ?m" using p'(3) by (simp add: mem_inv_def)
  obtain b where b: "ck_data c = Some b" "mm_blocks ?m b = Some (ck_size c)" "ck_length c \<le> ck_size c" "8 dvd unat (ck_length c)" "8 dvd unat (ck_size c)"
    "unat (ck_size c) \<le> 2 ^ 62"
    using chunks_okD(1) [OF i c(2)] by (auto simp: chunk_ok_def)
  let ?d = "ck_size c - ck_length c"
  have d: "unat ?d = unat (ck_size c) - unat (ck_length c)" using b(3) by (simp add: unat_sub)
  have fl: "lexbor_mem_align_floor ?d = ?d" by (rule align_idem(2)) (use d b(4,5) in auto)
  show ?thesis
  proof (cases "?d > 8")
    case False
    then show ?thesis using p by (auto simp: save_tail_def fl keeps_refl same_places_def)
  next
    case True
    let ?l = "unat (ck_length c)" let ?s = "unat (ck_size c)"
    have d8: "8 < ?s - ?l" "?l < ?s" using True d by (simp_all add: word_less_nat_alt)
    have sz: "unat (?d - 8) = ?s - ?l - 8" using True d by (simp add: unat_sub word_less_nat_alt word_le_nat_alt)
    let ?x = "((b, ?l + 8), ?d - 8)"
    have r: "region_of ?x = (b, ?l, ?s)" using sz d8 by (simp add: region_of_def)
    let ?m1 = "?m\<lparr> mm_words := (mm_words ?m)((b, ?l) := Some (?d - 8)) \<rparr>"
    have w: "word_at ?m (b, ?l)" using b d8 by (auto simp: word_at_def mod_eq_0_iff_dvd)
    have ap: "apart (b, ?l, ?s) (region_of q)" if q: "q \<in> ?P" for q
    proof -
      obtain b' s e where rq: "region_of q = (b', s, e)" by (cases "region_of q")
      then have "(b', s, e) \<in> region_of ` ?P" using q by force
      then show ?thesis using region_le [OF p'(3) c(2), of b' s e] rq b(1) by (auto simp: apart_def)
    qed
    have k: "kept ?P ?m ?m1" by (rule keeps_outside [OF _ ap]) (use d8 in auto)
    have nx: "?x \<notin> ?P" using ap [of ?x] r d8 by (auto simp: apart_def)
    let ?mr1 = "mr\<lparr> mr_mem := ?m1 \<rparr>"
    let ?m2 = "?m1\<lparr> mm_chunks := (mm_chunks ?m)(a \<mapsto> c\<lparr> ck_length := ck_size c \<rparr>) \<rparr>"
    have inv2: "mem_inv ?m2 (insert (b, ?l, ?s) (region_of ` ?P))"
    proof (rule mem_inv_add)
      have "mem_inv (?m1\<lparr> mm_chunks := (mm_chunks ?m1)(a \<mapsto> c\<lparr> ck_length := ck_size c \<rparr>) \<rparr>) (region_of ` ?P)"
      proof (rule set_length)
        show "e \<le> unat (ck_size c)" if "(b', s, e) \<in> region_of ` ?P" "ck_data c = Some b'" for b' s e
          using region_le [OF p'(3) c(2) that(2,1)] b(3) by (simp add: word_le_nat_alt)
      qed (use p'(3) c(2) b in simp_all)
      then show "mem_inv ?m2 (region_of ` ?P)" by simp
      show "in_chunk ?m2 (b, ?l, ?s)" using d8 b by (auto simp: in_chunk_def intro: exI [of _ a])
    qed (use ap in auto)
    have ok2: "piece_ok ?m2 q" if "q \<in> insert ?x ?P" for q
      using that keeps_piece [OF k, of q] p'(4) by (auto simp: piece_ok_def)
    have "wp (cache_insert ent ?mr1 (?d - 8) (b, ?l + 8)) (\<lambda>mr'. mr_mem mr' = ?m1 \<and> dom (bst_entries (mr_cache mr')) = dom (bst_entries (mr_cache mr)) \<union> set_option ent \<and>
        (\<exists>S'. cache_ok (mr_cache mr') S' \<and> cached S' = (if ent = None then cached S else insert ?x (cached S))))"
      using cache_insert_ok [of ?mr1 S ent "(b, ?l + 8)" "?d - 8"] p'(1) ent nx by simp
    moreover have "\<exists>S'. pool (mr'\<lparr> mr_mem := ?m2 \<rparr>) L S' {}"
      if "cache_ok (mr_cache mr') S'" "cached S' = (if ent = None then cached S else insert ?x (cached S))" for mr' S'
    proof -
      have "cached S' \<subseteq> insert ?x (cached S)" "L \<inter> cached S' = {}" using that(2) nx p'(2) by auto
      moreover from this have "mem_inv ?m2 (region_of ` (L \<union> cached S'))" by (intro mem_inv_mono [OF inv2]) (use r in auto)
      ultimately have "pool (mr'\<lparr> mr_mem := ?m2 \<rparr>) L S' {}" using that(1) ok2 by (auto simp: pool_def)
      then show ?thesis by blast
    qed
    moreover have "kept L ?m ?m2" using keeps_trans [OF keeps_mono [OF k] keeps_words, of L ?m2] by simp
    moreover have "save_tail ent mr a c = do { mr \<leftarrow> cache_insert ent ?mr1 (?d - 8) (b, ?l + 8); mr_mem_do mr (\<lambda>m. ck_set m a (\<lambda>c. c\<lparr> ck_length := ck_size c \<rparr>)) }"
      using True b(1) w by (simp add: save_tail_def fl mr_mem_do_def lexbor_mraw_meta_set_def lexbor_mraw_data_begin_def Let_def)
    ultimately show ?thesis using c(2)
      by (auto simp: wp_iff mr_mem_do_def ck_set_def same_places_def)
  qed
qed

lemma pool_regions: "pool mr L S X \<Longrightarrow> mem_inv (mr_mem mr) (region_of ` (L \<union> cached S))"
  unfolding pool_def by (meson mem_inv_mono sup_ge2)

text \<open>The pool with other memory, when all that was stored is kept.\<close>

lemma pool_mem:
  assumes "pool mr L S {}" "mem_inv m' (insert x (region_of ` (L \<union> cached S)))" "\<forall>r \<in> region_of ` (L \<union> cached S). apart x r"
    "kept (L \<union> cached S) (mr_mem mr) m'"
  shows "pool (mr\<lparr> mr_mem := m' \<rparr>) L S {x}"
  using assms keeps_piece [OF assms(4)] by (auto simp: pool_def)

lemma pool_mem0:
  assumes "pool mr L S {}" "mem_inv m' (region_of ` (L \<union> cached S))" "kept (L \<union> cached S) (mr_mem mr) m'"
  shows "pool (mr\<lparr> mr_mem := m' \<rparr>) L S {}"
  using assms keeps_piece [OF assms(3)] by (auto simp: pool_def)

text \<open>When the system refuses the larger block for an empty chunk, the chunk has no block any more.  The pieces are still there.\<close>

definition lost :: "lexbor_mraw \<Rightarrow> bool" where
  "lost mr \<longleftrightarrow> (\<exists>a c. cur_chunk (mr_mem mr) = Some (a, c) \<and> ck_data c = None)"

definition live :: "lexbor_mraw \<Rightarrow> piece set \<Rightarrow> bool" where
  "live mr L \<longleftrightarrow> (\<forall>p \<in> L. in_block (mr_mem mr) (fst p) (unat (snd p)))"

definition gone :: "mraw_new \<Rightarrow> lexbor_mraw \<Rightarrow> piece set \<Rightarrow> bool" where
  "gone new mr L \<longleftrightarrow> snd (new_chunk new) = None \<and> lost mr \<and> live mr L"

lemma gone_mono: "gone new mr L \<Longrightarrow> L' \<subseteq> L \<Longrightarrow> gone new mr L'"
  by (auto simp: gone_def live_def)

lemma pool_not_lost: "pool mr L S X \<Longrightarrow> \<not> lost mr"
  using cur_chunk_ok [of "mr_mem mr"] by (auto simp: pool_def mem_inv_def lost_def)

text \<open>What an allocation of \<open>len\<close> bytes promises.\<close>

definition took :: "mraw_new \<Rightarrow> lexbor_mraw \<Rightarrow> piece set \<Rightarrow> size_t \<Rightarrow> lexbor_mraw \<times> ptr option \<Rightarrow> bool" where
  "took new mr L len = (\<lambda>(mr', r). kept L (mr_mem mr) (mr_mem mr') \<and>
    (case r of None \<Rightarrow> (\<exists>S. pool mr' L S {}) \<or> gone new mr' L | Some (b, i) \<Rightarrow> \<exists>S. pool mr' L S {(b, i, i + unat len)}))"

lemma take_ok:
  assumes p: "pool mr L S {}" and c: "cur_chunk (mr_mem mr) = Some (a, c)" and len: "unat (ck_length c) + unat len \<le> unat (ck_size c)" "8 dvd unat len" "len \<noteq> 0"
  shows "wp (do { (m, data) \<leftarrow> chunk_take (mr_mem mr) len; Some (mr\<lparr> mr_mem := m \<rparr>, data) }) (\<lambda>r. took new mr L len r \<and>
    mr_cache (fst r) = mr_cache mr)"
proof -
  from chunk_take_ok [OF pool_regions [OF p] c len] obtain m' b where t: "chunk_take (mr_mem mr) len = Some (m', Some (b, unat (ck_length c)))"
    "mem_inv m' (insert (b, unat (ck_length c), unat (ck_length c) + unat len) (region_of ` (L \<union> cached S)))"
    "\<forall>r \<in> region_of ` (L \<union> cached S). apart (b, unat (ck_length c), unat (ck_length c) + unat len) r" "mm_words m' = mm_words (mr_mem mr)"
    by (auto simp: wp_iff)
  have "pool (mr\<lparr> mr_mem := m' \<rparr>) L S {(b, unat (ck_length c), unat (ck_length c) + unat len)}"
    by (rule pool_mem [OF p t(2,3) keeps_words [OF t(4)]])
  then show ?thesis using t(1) keeps_words [OF t(4)] by (auto simp: took_def)
qed

lemma chunk_replace_ok:
  assumes p: "pool mr L S {}" and c: "cur_chunk (mr_mem mr) = Some (a, c)" "ck_length c = 0" and b: "b \<notin> dom (mm_blocks (mr_mem mr))"
    and len: "8 dvd unat len" "len \<noteq> 0" "unat len \<le> 2 ^ 60 + 16"
  shows "wp (chunk_replace (Some b) mr a len) (\<lambda>r. took new mr L len r \<and> mr_cache (fst r) = mr_cache mr)"
proof -
  let ?m = "mr_mem mr" let ?R = "region_of ` (L \<union> cached S)"
  note inv = pool_regions [OF p]
  have i: "chunks_ok ?m" using inv by (simp add: mem_inv_def)
  have ca: "mm_chunks ?m a = Some c" using c(1) by (auto simp: cur_chunk_def bind_eq_Some_conv)
  obtain old where old: "ck_data c = Some old" "mm_blocks ?m old = Some (ck_size c)" using chunks_okD(1) [OF i ca] by (auto simp: chunk_ok_def)
  have none: "(old, s, e) \<notin> ?R" for s e
  proof
    assume "(old, s, e) \<in> ?R"
    from region_le [OF inv ca old(1) this] region_block(2) [OF inv this] show False using c(2) by simp
  qed
  let ?m1 = "?m\<lparr> mm_blocks := (mm_blocks ?m)(old := None), mm_chunks := (mm_chunks ?m)(a \<mapsto> c\<lparr> ck_data := None \<rparr>) \<rparr>"
  obtain sz where sz: "lexbor_mem_chunk_init (Some b) ?m1 (c\<lparr> ck_data := None \<rparr>) len =
      (block_make (Some b) ?m1 sz, c\<lparr> ck_data := None \<rparr>\<lparr> ck_size := sz, ck_length := 0, ck_data := Some b \<rparr>)"
      "unat (lexbor_mem_align len) \<le> unat sz" "8 dvd unat sz" "unat sz \<le> 2 ^ 62"
    using chunk_init_size [of ?m1 len "Some b" "c\<lparr> ck_data := None \<rparr>"] chunks_okD(4,5) [OF i] len(3) by auto
  let ?c = "c\<lparr> ck_size := sz, ck_data := Some b, ck_length := len \<rparr>"
  let ?m2 = "?m\<lparr> mm_chunks := (mm_chunks ?m)(a \<mapsto> ?c), mm_blocks := (mm_blocks ?m)(old := None, b \<mapsto> sz),
      mm_words := (\<lambda>p. if fst p = b then None else mm_words ?m p) \<rparr>"
  have run: "chunk_replace (Some b) mr a len = Some (mr\<lparr> mr_mem := ?m2 \<rparr>, Some (b, 0))"
    using ca old sz(1) by (simp add: chunk_replace_def lexbor_mem_chunk_destroy_def block_free_def ck_set_def block_make_def Let_def cong: if_cong)
  have l: "len \<le> sz" using sz(2) align_idem(1) [OF len(1)] by (simp add: word_le_nat_alt)
  have "mem_inv ?m2 ?R"
    by (rule set_block [OF inv ca old(1) none b, of ?c sz]) (use l len(1) sz(3,4) in simp_all)
  moreover have ap: "\<forall>r \<in> ?R. apart (b, 0, 0 + unat len) r"
  proof
    fix r
    assume r: "r \<in> ?R"
    obtain b' s e where r': "r = (b', s, e)" by (cases r)
    then have "b' \<in> dom (mm_blocks ?m)" using region_block(1) [OF inv, of b' s e] r by auto
    then show "apart (b, 0, 0 + unat len) r" using b r' by (auto simp: apart_def)
  qed
  moreover have "in_chunk ?m2 (b, 0, 0 + unat len)" using len(1,2) by (auto simp: in_chunk_def unat_gt_0 intro: exI [of _ a])
  ultimately have inv2: "mem_inv ?m2 (insert (b, 0, 0 + unat len) ?R)" using mem_inv_add [of ?m2 ?R "(b, 0, 0 + unat len)"] by blast
  have "kept (L \<union> cached S) ?m ?m2"
    unfolding kept_def
  proof (intro ballI allI impI)
    fix q b' s e j
    assume "q \<in> L \<union> cached S" "region_of q = (b', s, e)"
    then have "(b', s, e) \<in> ?R" by force
    then have "b' \<in> dom (mm_blocks ?m)" using region_block(1) [OF inv, of b' s e] by auto
    then show "mm_words ?m2 (b', j) = mm_words ?m (b', j)" using b by auto
  qed
  note k = this
  have "pool (mr\<lparr> mr_mem := ?m2 \<rparr>) L S {(b, 0, 0 + unat len)}" by (rule pool_mem [OF p inv2 ap k])
  then show ?thesis using keeps_mono [OF k] unfolding run by (auto simp: took_def)
qed

lemma chunk_replace_lost:
  assumes p: "pool mr L S {}" and c: "cur_chunk (mr_mem mr) = Some (a, c)" "ck_length c = 0" and len: "unat len \<le> 2 ^ 60 + 16" and new: "snd (new_chunk new) = None"
  shows "wp (chunk_replace None mr a len) (\<lambda>r. took new mr L len r \<and> mr_cache (fst r) = mr_cache mr)"
proof -
  let ?m = "mr_mem mr" let ?R = "region_of ` (L \<union> cached S)"
  note inv = pool_regions [OF p]
  have i: "chunks_ok ?m" using inv by (simp add: mem_inv_def)
  have ca: "mm_chunks ?m a = Some c" "mm_chunk ?m = Some a" using c(1) by (auto simp: cur_chunk_def bind_eq_Some_conv)
  obtain old where old: "ck_data c = Some old" "mm_blocks ?m old = Some (ck_size c)" using chunks_okD(1) [OF i ca(1)] by (auto simp: chunk_ok_def)
  have none: "(old, s, e) \<notin> ?R" for s e
  proof
    assume "(old, s, e) \<in> ?R"
    from region_le [OF inv ca(1) old(1) this] region_block(2) [OF inv this] show False using c(2) by simp
  qed
  let ?m1 = "?m\<lparr> mm_blocks := (mm_blocks ?m)(old := None), mm_chunks := (mm_chunks ?m)(a \<mapsto> c\<lparr> ck_data := None \<rparr>) \<rparr>"
  obtain sz where sz: "lexbor_mem_chunk_init None ?m1 (c\<lparr> ck_data := None \<rparr>) len =
      (block_make None ?m1 sz, c\<lparr> ck_data := None \<rparr>\<lparr> ck_size := sz, ck_length := 0, ck_data := None \<rparr>)"
    using chunk_init_size [of ?m1 len None "c\<lparr> ck_data := None \<rparr>"] chunks_okD(4,5) [OF i] len by auto
  let ?c = "c\<lparr> ck_size := sz, ck_data := None, ck_length := len \<rparr>"
  let ?m2 = "?m\<lparr> mm_chunks := (mm_chunks ?m)(a \<mapsto> ?c), mm_blocks := (mm_blocks ?m)(old := None) \<rparr>"
  have run: "chunk_replace None mr a len = Some (mr\<lparr> mr_mem := ?m2 \<rparr>, None)"
    using ca(1) old sz by (simp add: chunk_replace_def lexbor_mem_chunk_destroy_def block_free_def ck_set_def block_make_def Let_def cong: if_cong)
  have "in_block ?m2 (fst q) (unat (snd q))" if "q \<in> L" for q
  proof -
    obtain b i sz where q: "q = ((b, i), sz)" by (metis surj_pair)
    have qu: "q \<in> L \<union> cached S" using that by blast
    have "piece_ok ?m q" using p qu by (simp add: pool_def)
    from piece_size(7) [OF inv this qu q] have "in_block ?m (b, i) (unat sz)" .
    moreover have "b \<noteq> old" using none [of "i - 8" "i + unat sz"] qu q by (force simp: region_of_def)
    ultimately show ?thesis using q by (simp add: in_block_def)
  qed
  then have "live (mr\<lparr> mr_mem := ?m2 \<rparr>) L" by (simp add: live_def)
  moreover have "lost (mr\<lparr> mr_mem := ?m2 \<rparr>)" using ca(2) by (simp add: lost_def cur_chunk_def)
  moreover have "kept L ?m ?m2" by (rule keeps_words) simp
  ultimately show ?thesis using new unfolding run by (simp add: took_def gone_def)
qed

text \<open>What the system returns is not in use.\<close>

definition fresh_mraw :: "mraw_new \<Rightarrow> lexbor_mraw \<Rightarrow> bool" where
  "fresh_mraw new mr \<longleftrightarrow> fresh_new (new_chunk new) (mr_mem mr) \<and>
    (\<forall>a. new_tail new = Some a \<longrightarrow> a \<notin> dom (bst_entries (mr_cache mr)) \<and> new_piece new \<noteq> Some a) \<and>
    (\<forall>a. new_piece new = Some a \<longrightarrow> a \<notin> dom (bst_entries (mr_cache mr)))"

lemma mraw_mem_alloc_ok:
  assumes p: "pool mr L S {}" and new: "fresh_mraw new mr" and len: "8 dvd unat len" "len \<noteq> 0" "unat len \<le> 2 ^ 60 + 16"
  shows "wp (lexbor_mraw_mem_alloc new mr len) (\<lambda>r. took new mr L len r \<and>
    dom (bst_entries (mr_cache (fst r))) \<subseteq> dom (bst_entries (mr_cache mr)) \<union> set_option (new_tail new))"
proof -
  let ?m = "mr_mem mr"
  note inv = pool_regions [OF p]
  have i: "chunks_ok ?m" using inv by (simp add: mem_inv_def)
  obtain a c where c: "cur_chunk ?m = Some (a, c)" "mm_chunk ?m = Some a" "mm_chunks ?m a = Some c" "chunk_ok ?m c" using cur_chunk_ok [OF i] by blast
  have u: "unat (ck_length c + len) = unat (ck_length c) + unat len"
    using c(4) len(3) by (intro unat_plus_if_fits) (auto simp: chunk_ok_def word_le_nat_alt)
  show ?thesis
  proof (cases "ck_length c + len > ck_size c")
    case False
    then have "unat (ck_length c) + unat len \<le> unat (ck_size c)" using u by (simp add: word_le_nat_alt not_less)
    from take_ok [OF p c(1) this len(1,2), of new] show ?thesis
      using c(1) len(2) False by (auto simp: lexbor_mraw_mem_alloc_def wp_iff)
  next
    case True
    note big = this
    show ?thesis
    proof (cases "SIZE_MAX - mm_chunk_length ?m = 0 \<or> ck_length c = 0")
      case True
      show ?thesis
      proof (cases "SIZE_MAX - mm_chunk_length ?m = 0")
        case True
        then show ?thesis using p c(1) len(2) big by (auto simp: lexbor_mraw_mem_alloc_def took_def keeps_refl)
      next
        case False
        then have l0: "ck_length c = 0" using True by blast
        have "wp (chunk_replace (snd (new_chunk new)) mr a len) (\<lambda>r. took new mr L len r \<and> mr_cache (fst r) = mr_cache mr)"
        proof (cases "snd (new_chunk new)")
          case None
          then show ?thesis using chunk_replace_lost [OF p c(1) l0 len(3) None] None by simp
        next
          case (Some b)
          then have "b \<notin> dom (mm_blocks ?m)" using new by (simp add: fresh_mraw_def fresh_new_def)
          then show ?thesis using chunk_replace_ok [OF p c(1) l0 _ len, of b new] Some by simp
        qed
        then show ?thesis using c(1) len(2) big False l0 by (auto simp: lexbor_mraw_mem_alloc_def wp_iff)
      qed
    next
      case False
      have ent: "x \<notin> dom (bst_entries (mr_cache mr))" if "new_tail new = Some x" for x using new that by (auto simp: fresh_mraw_def)
      obtain mr1 S1 where t: "save_tail (new_tail new) mr a c = Some mr1" "pool mr1 L S1 {}" "kept L ?m (mr_mem mr1)" "same_places ?m (mr_mem mr1)"
        "dom (bst_entries (mr_cache mr1)) \<subseteq> dom (bst_entries (mr_cache mr)) \<union> set_option (new_tail new)"
        using save_tail_ok [OF p c(2,3), of "new_tail new"] ent by (auto simp: wp_iff)
      have fr: "fresh_new (new_chunk new) (mr_mem mr1)" using new t(4) by (auto simp: fresh_mraw_def fresh_new_def same_places_def)
      obtain m2 ok where m2: "chunk_add (new_chunk new) (mr_mem mr1) len = Some (m2, ok)" "mem_inv m2 (region_of ` (L \<union> cached S1))" "same_blocks (mr_mem mr1) m2"
        "ok \<longrightarrow> (\<exists>a c. cur_chunk m2 = Some (a, c) \<and> ck_length c = 0 \<and> unat (lexbor_mem_align len) \<le> unat (ck_size c))"
        using chunk_add_ok [OF pool_regions [OF t(2)] fr len(3)] by (auto simp: wp_iff)
      note k = keeps_blocks [OF m2(3) pool_regions [OF t(2)]]
      have p2: "pool (mr1\<lparr> mr_mem := m2 \<rparr>) L S1 {}" by (rule pool_mem0 [OF t(2) m2(2) k])
      have k2: "kept L ?m m2" using keeps_trans [OF t(3)] keeps_mono [OF k] by blast
      show ?thesis
      proof (cases ok)
        case False
        then show ?thesis using t(1,5) m2(1) p2 k2 c(1) len(2) big \<open>\<not> (SIZE_MAX - mm_chunk_length ?m = 0 \<or> ck_length c = 0)\<close>
          by (auto simp: lexbor_mraw_mem_alloc_def took_def)
      next
        case True
        then obtain a2 c2 where c2: "cur_chunk (mr_mem (mr1\<lparr> mr_mem := m2 \<rparr>)) = Some (a2, c2)" "unat (ck_length c2) + unat len \<le> unat (ck_size c2)"
          using m2(4) align_idem(1) [OF len(1)] by auto
        from take_ok [OF p2 c2 len(1,2), of new] obtain m3 r where m3: "chunk_take m2 len = Some (m3, r)" "took new (mr1\<lparr> mr_mem := m2 \<rparr>) L len (mr1\<lparr> mr_mem := m3 \<rparr>, r)"
          by (auto simp: wp_iff bind_eq_Some_conv)
        then have "took new mr L len (mr1\<lparr> mr_mem := m3 \<rparr>, r)" using keeps_trans [OF k2] by (auto simp: took_def)
        then show ?thesis using True t(1,5) m2(1) m3(1) c(1) len(2) big \<open>\<not> (SIZE_MAX - mm_chunk_length ?m = 0 \<or> ck_length c = 0)\<close>
          by (simp add: lexbor_mraw_mem_alloc_def)
      qed
    qed
  qed
qed

text \<open>From the cache comes the best fit, otherwise a new piece.\<close>

definition allocated :: "mraw_new \<Rightarrow> lexbor_mraw \<Rightarrow> piece set \<Rightarrow> size_t \<Rightarrow> lexbor_mraw \<times> ptr option \<Rightarrow> bool" where
  "allocated new mr L n = (\<lambda>(mr', r). kept L (mr_mem mr) (mr_mem mr') \<and>
    (case r of None \<Rightarrow> mraw_inv mr' L \<or> gone new mr' L | Some p \<Rightarrow> \<exists>sz \<ge> n. (p, sz) \<notin> L \<and> mraw_inv mr' (insert (p, sz) L)))"

lemma cache_pop_pool:
  assumes p: "pool mr L S {}" and b: "bst_holds b (S(z := tl (S z)))" "S z \<noteq> []"
  shows "\<exists>q. hd (S z) = Some q \<and> (q, z) \<notin> L \<and> pool (mr\<lparr> mr_cache := b \<rparr>) (insert (q, z) L) (S(z := tl (S z))) {}"
proof -
  have ok: "distinct (S y)" "None \<notin> set (S y)" for y using p by (auto simp: pool_def cache_ok_def)
  obtain v s where v: "S z = v # s" using b(2) by (cases "S z") auto
  then obtain q where q: "v = Some q" using ok(2) [of z] by (cases v) auto
  have vs: "S z = Some q # s" using v q by simp
  note pp = cached_pop [of S z q s, OF vs ok(1)]
  have "cache_ok b (S(z := s))" using b(1) ok vs by (auto simp: cache_ok_def) (metis distinct.simps(2), metis list.set_intros(2))
  moreover have u: "insert (q, z) L \<union> cached (S(z := s)) = L \<union> cached S" "insert (q, z) L \<inter> cached (S(z := s)) = {}" "(q, z) \<notin> L"
    using pp p by (auto simp: pool_def)
  ultimately have "pool (mr\<lparr> mr_cache := b \<rparr>) (insert (q, z) L) (S(z := s)) {}" using p by (simp add: pool_def)
  then show ?thesis using u(3) vs by simp
qed

lemma mraw_alloc_ok:
  assumes inv: "mraw_inv mr L" and new: "fresh_mraw new mr" and n: "unat n \<le> 2 ^ 60"
  shows "wp (lexbor_mraw_alloc new mr n) (\<lambda>r. allocated new mr L (lexbor_mem_align n) r \<and>
    dom (bst_entries (mr_cache (fst r))) \<subseteq> dom (bst_entries (mr_cache mr)) \<union> set_option (new_tail new))"
proof -
  let ?n = "lexbor_mem_align n"
  obtain S where p: "pool mr L S {}" using inv by (auto simp: pool_inv)
  have h: "bst_holds (mr_cache mr) S" using p by (simp add: pool_def cache_ok_def)
  have l: "8 dvd unat ?n" "unat ?n < 2 ^ 60 + 8" using align_ok [of n] n by simp_all
  have u: "unat (?n + 8) = unat ?n + 8" using l(2) by (subst unat_plus_if_fits) simp_all
  have l8: "8 dvd unat (?n + 8)" "?n + 8 \<noteq> 0" "unat (?n + 8) \<le> 2 ^ 60 + 16" using l u by (auto simp: unat_eq_zero [symmetric] simp del: unat_eq_zero)
  have new_piece: "wp (do { (mr, data) \<leftarrow> lexbor_mraw_mem_alloc new mr (?n + 8);
      (case data of None \<Rightarrow> Some (mr, None)
       | Some p \<Rightarrow> do { mr \<leftarrow> mr_mem_do mr (\<lambda>m. lexbor_mraw_meta_set m p ?n); Some (mr, Some (lexbor_mraw_data_begin p)) }) })
      (\<lambda>r. allocated new mr L ?n r \<and> dom (bst_entries (mr_cache (fst r))) \<subseteq> dom (bst_entries (mr_cache mr)) \<union> set_option (new_tail new))"
  proof -
    obtain mr1 r where a: "lexbor_mraw_mem_alloc new mr (?n + 8) = Some (mr1, r)" "took new mr L (?n + 8) (mr1, r)"
      "dom (bst_entries (mr_cache mr1)) \<subseteq> dom (bst_entries (mr_cache mr)) \<union> set_option (new_tail new)"
      using mraw_mem_alloc_ok [OF p new l8] by (auto simp: wp_iff)
    show ?thesis
    proof (cases r)
      case None
      then show ?thesis using a by (auto simp: took_def allocated_def pool_inv)
    next
      case (Some q)
      obtain b i where q: "q = (b, i)" by (cases q)
      then obtain S1 where p1: "pool mr1 L S1 {(b, i, i + unat (?n + 8))}" "kept L (mr_mem mr) (mr_mem mr1)" using a(2) Some by (auto simp: took_def)
      from region_to_piece [OF p1(1), of ?n] u obtain mr2 where m2: "mr_mem_do mr1 (\<lambda>m. lexbor_mraw_meta_set m (b, i) ?n) = Some mr2"
        "pool mr2 (insert ((b, i + 8), ?n) L) S1 {}" "((b, i + 8), ?n) \<notin> L" "kept L (mr_mem mr1) (mr_mem mr2)"
        by (auto simp: wp_iff)
      have "mr_cache mr2 = mr_cache mr1" using m2(1) by (auto simp: mr_mem_do_def bind_eq_Some_conv)
      moreover have "mraw_inv mr2 (insert ((b, i + 8), ?n) L)" using m2(2) by (auto simp: pool_inv)
      ultimately show ?thesis using a(1,3) Some q m2(1,3) keeps_trans [OF p1(2) m2(4)]
        by (auto simp: allocated_def lexbor_mraw_data_begin_def)
    qed
  qed
  show ?thesis
  proof (cases "bst_tree_length (mr_cache mr) = 0")
    case True
    then show ?thesis using new_piece by (simp add: lexbor_mraw_alloc_def Let_def)
  next
    case False
    obtain b x v z where rc: "lexbor_bst_remove_close (mr_cache mr) (bst_root (mr_cache mr)) ?n = Some (b, x, v, z)"
      "dom (bst_entries b) \<subseteq> dom (bst_entries (mr_cache mr))"
      "if \<forall>y \<ge> ?n. S y = [] then b = mr_cache mr \<and> x = bst_root (mr_cache mr) \<and> v = None \<and> z = 0
       else best_size S ?n z \<and> v = hd (S z) \<and> bst_holds (b\<lparr> bst_root := x \<rparr>) (S(z := tl (S z)))"
      using remove_close_holds [OF h, of ?n] by (auto simp: wp_iff)
    show ?thesis
    proof (cases "\<forall>y \<ge> ?n. S y = []")
      case True
      then have "b = mr_cache mr" "x = bst_root (mr_cache mr)" "v = None" using rc(3) by simp_all
      then show ?thesis using new_piece rc(1) False by (simp add: lexbor_mraw_alloc_def Let_def)
    next
      case some: False
      have bs: "best_size S ?n z" "v = hd (S z)" "bst_holds (b\<lparr> bst_root := x \<rparr>) (S(z := tl (S z)))" using rc(3) by (simp_all only: some if_False)
      obtain q where q: "hd (S z) = Some q" "(q, z) \<notin> L" "pool (mr\<lparr> mr_cache := b\<lparr> bst_root := x \<rparr> \<rparr>) (insert (q, z) L) (S(z := tl (S z))) {}"
        using cache_pop_pool [OF p bs(3)] bs(1) by (auto simp: best_size_def)
      have "mraw_inv (mr\<lparr> mr_cache := b\<lparr> bst_root := x \<rparr> \<rparr>) (insert (q, z) L)" using q(3) by (auto simp: pool_inv)
      then show ?thesis using rc(1,2) False bs(1,2) q(1,2)
        by (auto simp: lexbor_mraw_alloc_def Let_def allocated_def best_size_def keeps_refl)
    qed
  qed
qed

section \<open>Release, and writing to a piece\<close>

lemma mraw_free_ok:
  assumes inv: "mraw_inv mr L" and q: "(q, sz) \<in> L" and ent: "\<And>a. ent = Some a \<Longrightarrow> a \<notin> dom (bst_entries (mr_cache mr))"
  shows "wp (lexbor_mraw_free ent mr q) (\<lambda>mr'. mraw_inv mr' (L - {(q, sz)}) \<and> mr_mem mr' = mr_mem mr)"
proof -
  obtain S where p: "pool mr L S {}" using inv by (auto simp: pool_inv)
  have pk: "cache_ok (mr_cache mr) S" "L \<inter> cached S = {}" "mem_inv (mr_mem mr) (region_of ` (L \<union> cached S))" "\<forall>q \<in> L \<union> cached S. piece_ok (mr_mem mr) q"
    using p by (simp_all add: pool_def)
  obtain b i where q': "q = (b, i)" by (cases q)
  have qu: "((b, i), sz) \<in> L \<union> cached S" using q q' by blast
  have "lexbor_mraw_data_size (mr_mem mr) (b, i) = Some sz" by (rule piece_size(4) [OF pk(3) pk(4) [rule_format, OF qu] qu refl])
  then have sz: "lexbor_mraw_data_size (mr_mem mr) q = Some sz" unfolding q' .
  have n: "(q, sz) \<notin> cached S" using pk(2) q by blast
  have "mraw_inv mr' (L - {(q, sz)})" if "mr_mem mr' = mr_mem mr" "cache_ok (mr_cache mr') S'"
      "cached S' = (if ent = None then cached S else insert (q, sz) (cached S))" for mr' S'
  proof -
    have "(L - {(q, sz)}) \<union> cached S' \<subseteq> L \<union> cached S" "(L - {(q, sz)}) \<inter> cached S' = {}" using that(3) q pk(2) by auto
    moreover from this have "mem_inv (mr_mem mr) (region_of ` ((L - {(q, sz)}) \<union> cached S'))" by (intro mem_inv_mono [OF pk(3)]) blast
    ultimately have "pool mr' (L - {(q, sz)}) S' {}" using that(1,2) pk(4) by (auto simp: pool_def)
    then show ?thesis by (auto simp: pool_inv)
  qed
  note fin = this
  have "wp (cache_insert ent mr sz q) (\<lambda>mr'. mraw_inv mr' (L - {(q, sz)}) \<and> mr_mem mr' = mr_mem mr)"
    by (rule wp_mono [OF cache_insert_ok [OF pk(1) _ n]]) (use ent fin in blast)+
  then show ?thesis using sz by (simp add: lexbor_mraw_free_def)
qed

text \<open>The memory changes only inside the data of a piece.\<close>

definition writes :: "piece \<Rightarrow> lexbor_mem \<Rightarrow> lexbor_mem \<Rightarrow> bool" where
  "writes q m m' \<longleftrightarrow> (\<exists>w. m' = m\<lparr> mm_words := w \<rparr> \<and>
    (\<forall>b j. w (b, j) \<noteq> mm_words m (b, j) \<longrightarrow> b = fst (fst q) \<and> snd (fst q) \<le> j \<and> j < snd (fst q) + unat (snd q)))"

lemma writes_ok:
  assumes inv: "mraw_inv mr L" and q: "q \<in> L" and w: "writes q (mr_mem mr) m'"
  shows "mraw_inv (mr\<lparr> mr_mem := m' \<rparr>) L" "kept (L - {q}) (mr_mem mr) m'"
proof -
  obtain S where p: "pool mr L S {}" using inv by (auto simp: pool_inv)
  let ?m = "mr_mem mr" let ?P = "L \<union> cached S"
  have pk: "mem_inv ?m (region_of ` ?P)" "\<forall>q \<in> ?P. piece_ok ?m q" using p by (simp_all add: pool_def)
  obtain b i sz where q': "q = ((b, i), sz)" by (metis surj_pair)
  obtain f where f: "m' = ?m\<lparr> mm_words := f \<rparr>" "\<And>b' j. f (b', j) \<noteq> mm_words ?m (b', j) \<Longrightarrow> b' = b \<and> i \<le> j \<and> j < i + unat sz"
    using w q' by (auto simp: writes_def)
  have ap: "apart (b, i - 8, i + unat sz) (region_of y)" if "y \<in> ?P - {q}" for y
    using pieces_apart [OF pk, of q y] that q q' by (auto simp: region_of_def)
  have k: "kept (?P - {q}) ?m m'"
  proof (rule keeps_outside [OF _ ap])
    fix y
    assume y: "y \<notin> {(b, j) |j. i - 8 \<le> j \<and> j < i + unat sz}"
    obtain b' j where y': "y = (b', j)" by (cases y)
    have "f (b', j) = mm_words ?m (b', j)"
    proof (rule ccontr)
      assume "f (b', j) \<noteq> mm_words ?m (b', j)"
      from f(2) [OF this] have "b' = b" "i - 8 \<le> j" "j < i + unat sz" by auto
      then show False using y y' by simp
    qed
    then show "mm_words m' y = mm_words ?m y" using f(1) y' by simp
  qed
  have "piece_ok m' y" if y: "y \<in> ?P" for y
  proof (cases "y = q")
    case True
    have "piece_ok ?m ((b, i), sz)" using pk(2) q q' by blast
    then have "8 \<le> i" "mm_words ?m (b, i - 8) = Some sz" by (simp_all add: piece_ok_def)
    moreover have "f (b, i - 8) = mm_words ?m (b, i - 8)"
    proof (rule ccontr)
      assume "f (b, i - 8) \<noteq> mm_words ?m (b, i - 8)"
      from f(2) [OF this] show False using \<open>8 \<le> i\<close> by linarith
    qed
    ultimately show ?thesis using True q' f(1) by (simp add: piece_ok_def)
  next
    case False
    then show ?thesis using keeps_piece [OF k, of y] pk(2) y by blast
  qed
  then have "pool (mr\<lparr> mr_mem := m' \<rparr>) L S {}" using p f(1) by (simp add: pool_def)
  then show "mraw_inv (mr\<lparr> mr_mem := m' \<rparr>) L" by (auto simp: pool_inv)
  show "kept (L - {q}) ?m m'" by (rule keeps_mono [OF k]) (rule Diff_mono [OF Un_upper1 subset_refl])
qed

lemma fill_ok:
  assumes inv: "mraw_inv mr L" and q: "((b, i), sz) \<in> L" and n: "n \<le> unat sz"
  shows "\<exists>m'. words_fill (mr_mem mr) (b, i) n f = Some m' \<and> writes ((b, i), sz) (mr_mem mr) m' \<and>
    (\<forall>j. j + 8 \<le> n \<longrightarrow> mm_words m' (b, i + j) = f j)"
proof -
  obtain S where p: "pool mr L S {}" using inv by (auto simp: pool_inv)
  have pk: "mem_inv (mr_mem mr) (region_of ` (L \<union> cached S))" "\<forall>q \<in> L \<union> cached S. piece_ok (mr_mem mr) q" using p by (simp_all add: pool_def)
  note ps = piece_size [OF pk(1), of "((b, i), sz)" b i sz]
  have d: "i mod 8 = 0" "in_block (mr_mem mr) (b, i) (unat sz)" using ps(2,7) pk(2) q by (simp_all add: mod_eq_0_iff_dvd)
  then have i: "in_block (mr_mem mr) (b, i) n" using n by (auto simp: in_block_def split: option.splits)
  let ?w = "\<lambda>q. if fst q = b \<and> i \<le> snd q \<and> snd q < i + n then (if snd q + 8 \<le> snd (b, i) + n then f (snd q - snd (b, i)) else None) else mm_words (mr_mem mr) q"
  let ?m = "mr_mem mr\<lparr> mm_words := ?w \<rparr>"
  have "words_fill (mr_mem mr) (b, i) n f = Some ?m" using i d(1) by (simp add: words_fill_def cong: if_cong)
  moreover have "writes ((b, i), sz) (mr_mem mr) ?m"
    unfolding writes_def
  proof (intro exI [of _ ?w] conjI allI impI refl)
    fix b' j
    assume "?w (b', j) \<noteq> mm_words (mr_mem mr) (b', j)"
    then have "b' = b \<and> i \<le> j \<and> j < i + n" by (metis fst_conv snd_conv)
    then show "b' = fst (fst ((b, i), sz))" "snd (fst ((b, i), sz)) \<le> j" "j < snd (fst ((b, i), sz)) + unat (snd ((b, i), sz))"
      using n by simp_all
  qed
  moreover have "\<forall>j. j + 8 \<le> n \<longrightarrow> mm_words ?m (b, i + j) = f j" by simp
  ultimately show ?thesis by blast
qed

lemma mraw_calloc_ok:
  assumes inv: "mraw_inv mr L" and new: "fresh_mraw new mr" and n: "unat n \<le> 2 ^ 60"
  shows "wp (lexbor_mraw_calloc new mr n) (\<lambda>(mr', r). kept L (mr_mem mr) (mr_mem mr') \<and>
    (case r of None \<Rightarrow> mraw_inv mr' L \<or> gone new mr' L
     | Some (b, i) \<Rightarrow> \<exists>sz \<ge> lexbor_mem_align n. ((b, i), sz) \<notin> L \<and> mraw_inv mr' (insert ((b, i), sz) L) \<and>
         (\<forall>j. j + 8 \<le> unat sz \<longrightarrow> mm_words (mr_mem mr') (b, i + j) = Some 0)))"
proof -
  obtain mr1 r where a: "lexbor_mraw_alloc new mr n = Some (mr1, r)" "allocated new mr L (lexbor_mem_align n) (mr1, r)"
    using mraw_alloc_ok [OF inv new n] by (auto simp: wp_iff)
  show ?thesis
  proof (cases r)
    case None
    then show ?thesis using a by (auto simp: lexbor_mraw_calloc_def allocated_def)
  next
    case (Some q)
    obtain b i where q: "q = (b, i)" by (cases q)
    obtain sz where sz: "sz \<ge> lexbor_mem_align n" "((b, i), sz) \<notin> L" "mraw_inv mr1 (insert ((b, i), sz) L)" "kept L (mr_mem mr) (mr_mem mr1)"
      using a(2) Some q by (auto simp: allocated_def)
    obtain S where p: "pool mr1 (insert ((b, i), sz) L) S {}" using sz(3) by (auto simp: pool_inv)
    have pk: "mem_inv (mr_mem mr1) (region_of ` (insert ((b, i), sz) L \<union> cached S))" "\<forall>q \<in> insert ((b, i), sz) L \<union> cached S. piece_ok (mr_mem mr1) q"
      using p by (simp_all add: pool_def)
    have ds: "lexbor_mraw_data_size (mr_mem mr1) (b, i) = Some sz" using piece_size(4) [OF pk(1), of "((b, i), sz)" b i sz] pk(2) by simp
    obtain m' where m': "words_fill (mr_mem mr1) (b, i) (unat sz) (\<lambda>_. Some 0) = Some m'" "writes ((b, i), sz) (mr_mem mr1) m'"
      "\<forall>j. j + 8 \<le> unat sz \<longrightarrow> mm_words m' (b, i + j) = Some 0"
      using fill_ok [OF sz(3), of b i sz "unat sz" "\<lambda>_. Some 0"] by auto
    note w = writes_ok [OF sz(3) insertI1 m'(2)]
    have "kept L (mr_mem mr) m'" using keeps_trans [OF sz(4)] keeps_mono [OF w(2), of L] sz(2) by blast
    then show ?thesis using a(1) Some q sz(1,2) ds m'(1,3) w(1) by (auto simp: lexbor_mraw_calloc_def words_zero_def mr_mem_do_def)
  qed
qed

end
