(* ===== verification/Mem_Realloc_Spec.thy ===== *)
theory Mem_Realloc_Spec
  imports Mem_Mraw_Spec
begin

text \<open>
  Changing the size of a piece of a pool (\<open>lexbor_mraw_realloc\<close>).  When the piece gets larger, or goes away, or lies at the end of the
  current chunk, or half of it is kept, the other pieces and what was stored in them stay, and the data moves with the piece.
\<close>

section \<open>The last piece of the current chunk\<close>

text \<open>The words of two places agree.\<close>

definition same_words :: "lexbor_mem \<Rightarrow> ptr \<Rightarrow> lexbor_mem \<Rightarrow> ptr \<Rightarrow> nat \<Rightarrow> bool" where
  "same_words m p m' p' n \<longleftrightarrow> (\<forall>j. j + 8 \<le> n \<longrightarrow> mm_words m' (fst p', snd p' + j) = mm_words m (fst p, snd p + j))"

lemma tail_apart:
  assumes p: "pool mr L S {}" and q: "((b, i), sz) \<in> L" and c: "mm_chunks (mr_mem mr) a = Some c" "ck_data c = Some b" "unat (ck_length c) = i + unat sz"
    and y0: "y \<in> (L - {((b, i), sz)}) \<union> cached S" "region_of y = (b, s, e)"
  shows "e \<le> i - 8"
proof -
  have pk: "mem_inv (mr_mem mr) (region_of ` (L \<union> cached S))" "\<forall>q \<in> L \<union> cached S. piece_ok (mr_mem mr) q" "L \<inter> cached S = {}"
    using p by (simp_all add: pool_def)
  have "((b, i), sz) \<notin> cached S" using pk(3) q by (metis disjoint_iff)
  then have y: "y \<in> L \<union> cached S" "y \<noteq> ((b, i), sz)" using y0(1) by (metis Un_iff DiffD1, metis Un_iff DiffD2 singletonI)
  have qu: "((b, i), sz) \<in> L \<union> cached S" using q by blast
  have ap: "apart (b, i - 8, i + unat sz) (b, s, e)"
    using pieces_apart [OF pk(1,2) qu y(1)] y(2) y0(2) by (simp add: region_of_def)
  have ru: "(b, s, e) \<in> region_of ` (L \<union> cached S)" using y(1) y0(2) by (metis imageI)
  have "e \<le> i + unat sz" using region_le [OF pk(1) c(1,2) ru] c(3) by simp
  moreover have "s < e" by (rule region_block(2) [OF pk(1) ru])
  ultimately show ?thesis using ap by (simp add: apart_def)
qed

text \<open>The chunk and the piece at its end get a new length.\<close>

lemma tail_resize:
  assumes inv: "mraw_inv mr L" and q: "((b, i), sz) \<in> L"
    and c: "mm_chunks (mr_mem mr) a = Some c" "ck_data c = Some b" "unat (ck_length c) = i + unat sz"
    and l: "l \<le> ck_size c" "8 dvd unat l" "unat l = i + unat sz'"
    and m': "m' = mr_mem mr\<lparr> mm_chunks := (mm_chunks (mr_mem mr))(a \<mapsto> c\<lparr> ck_length := l \<rparr>) \<rparr>\<lparr>
      mm_words := (mm_words (mr_mem mr))((b, i - 8) := Some sz') \<rparr>"
  shows "mraw_inv (mr\<lparr> mr_mem := m' \<rparr>) (insert ((b, i), sz') (L - {((b, i), sz)}))" "((b, i), sz') \<notin> L - {((b, i), sz)}"
    "kept (L - {((b, i), sz)}) (mr_mem mr) m'" "same_words (mr_mem mr) (b, i) m' (b, i) n"
proof -
  let ?m = "mr_mem mr" let ?q = "((b, i), sz)" let ?q' = "((b, i), sz')"
  obtain S where p: "pool mr L S {}" using inv by (auto simp: pool_inv)
  let ?P = "(L - {?q}) \<union> cached S"
  have pk: "mem_inv ?m (region_of ` (L \<union> cached S))" "\<forall>q \<in> L \<union> cached S. piece_ok ?m q" "L \<inter> cached S = {}" "cache_ok (mr_cache mr) S"
    using p by (simp_all add: pool_def)
  have qu: "?q \<in> L \<union> cached S" using q by blast
  note ps = piece_size [OF pk(1) pk(2) [rule_format, OF qu] qu refl]
  have inv1: "mem_inv ?m (region_of ` ?P)" by (rule mem_inv_mono [OF pk(1)]) blast
  have ap: "apart (b, i - 8, unat l) (region_of y)" if y: "y \<in> ?P" for y
  proof -
    obtain b' s e where r: "region_of y = (b', s, e)" by (cases "region_of y")
    then have "b' = b \<Longrightarrow> e \<le> i - 8" using tail_apart [OF p q c y, of s e] by simp
    then show ?thesis using r by (auto simp: apart_def)
  qed
  have r': "region_of ?q' = (b, i - 8, unat l)" using l(3) by (simp add: region_of_def)
  have lt: "i - 8 < unat l" using ps(1) l(3) by simp
  have nq: "?q' \<notin> ?P"
  proof
    assume "?q' \<in> ?P"
    from ap [OF this] show False using r' lt by (simp add: apart_def)
  qed
  then show "?q' \<notin> L - {?q}" by blast
  have k: "kept ?P ?m m'"
    by (rule keeps_outside [OF _ ap]) (use lt m' in auto)
  show "kept (L - {?q}) ?m m'" by (rule keeps_mono [OF k]) blast
  have "mem_inv (?m\<lparr> mm_chunks := (mm_chunks ?m)(a \<mapsto> c\<lparr> ck_length := l \<rparr>) \<rparr>) (region_of ` ?P)"
  proof (rule set_length [OF inv1 c(1) l(1,2)])
    fix b' s e
    assume r: "(b', s, e) \<in> region_of ` ?P" "ck_data c = Some b'"
    then have b': "b' = b" using c(2) by simp
    from r(1) obtain y where y: "(b', s, e) = region_of y" "y \<in> ?P" by (rule imageE)
    have "region_of y = (b, s, e)" using y(1) b' by simp
    then show "e \<le> unat l" using tail_apart [OF p q c y(2), of s e] lt by simp
  qed
  moreover have "in_chunk (?m\<lparr> mm_chunks := (mm_chunks ?m)(a \<mapsto> c\<lparr> ck_length := l \<rparr>) \<rparr>) (b, i - 8, unat l)"
    using lt l(2) ps(1,2) c(2) by (auto simp: in_chunk_def dvd_diff_nat intro: exI [of _ a])
  ultimately have "mem_inv (?m\<lparr> mm_chunks := (mm_chunks ?m)(a \<mapsto> c\<lparr> ck_length := l \<rparr>) \<rparr>) (insert (b, i - 8, unat l) (region_of ` ?P))"
    by (rule mem_inv_add) (use ap in blast)
  then have inv2: "mem_inv m' (insert (b, i - 8, unat l) (region_of ` ?P))"
    unfolding m' mem_inv_words .
  have ok: "piece_ok m' y" if "y \<in> insert ?q' ?P" for y
  proof (cases "y = ?q'")
    case True
    then show ?thesis using ps(1) m' by (simp add: piece_ok_def)
  next
    case False
    then have "y \<in> ?P" using that by blast
    then show ?thesis using keeps_piece [OF k] pk(2) by blast
  qed
  have "pool (mr\<lparr> mr_mem := m' \<rparr>) (insert ?q' (L - {?q})) S {}"
    using pk(3,4) nq ok inv2 r' unfolding pool_def by auto
  then show "mraw_inv (mr\<lparr> mr_mem := m' \<rparr>) (insert ?q' (L - {?q}))" by (auto simp: pool_inv)
  show "same_words ?m (b, i) m' (b, i) n" using ps(1) m' by (auto simp: same_words_def)
qed

text \<open>The piece at the end of the chunk goes away.\<close>

lemma tail_drop:
  assumes inv: "mraw_inv mr L" and q: "((b, i), sz) \<in> L"
    and c: "mm_chunks (mr_mem mr) a = Some c" "ck_data c = Some b" "unat (ck_length c) = i + unat sz"
    and l: "l \<le> ck_size c" "unat l = i - 8" and m': "m' = mr_mem mr\<lparr> mm_chunks := (mm_chunks (mr_mem mr))(a \<mapsto> c\<lparr> ck_length := l \<rparr>) \<rparr>"
  shows "mraw_inv (mr\<lparr> mr_mem := m' \<rparr>) (L - {((b, i), sz)})" "kept (L - {((b, i), sz)}) (mr_mem mr) m'"
proof -
  let ?m = "mr_mem mr" let ?q = "((b, i), sz)"
  obtain S where p: "pool mr L S {}" using inv by (auto simp: pool_inv)
  let ?P = "(L - {?q}) \<union> cached S"
  have pk: "mem_inv ?m (region_of ` (L \<union> cached S))" "\<forall>q \<in> L \<union> cached S. piece_ok ?m q" "L \<inter> cached S = {}" "cache_ok (mr_cache mr) S"
    using p by (simp_all add: pool_def)
  have qu: "?q \<in> L \<union> cached S" using q by blast
  note ps = piece_size [OF pk(1) pk(2) [rule_format, OF qu] qu refl]
  have inv1: "mem_inv ?m (region_of ` ?P)" by (rule mem_inv_mono [OF pk(1)]) blast
  have "mem_inv m' (region_of ` ?P)"
    unfolding m'
  proof (rule set_length [OF inv1 c(1) l(1)])
    show "8 dvd unat l" using ps(1,2) l(2) by (simp add: dvd_diff_nat)
    fix b' s e
    assume r: "(b', s, e) \<in> region_of ` ?P" "ck_data c = Some b'"
    then have b': "b' = b" using c(2) by simp
    from r(1) obtain y where y: "(b', s, e) = region_of y" "y \<in> ?P" by (rule imageE)
    have "region_of y = (b, s, e)" using y(1) b' by simp
    then show "e \<le> unat l" using tail_apart [OF p q c y(2), of s e] l(2) by simp
  qed
  moreover have k: "kept ?P ?m m'" by (rule keeps_words) (simp add: m')
  moreover have "\<forall>y \<in> ?P. piece_ok m' y" using keeps_piece [OF k] pk(2) by blast
  ultimately have "pool (mr\<lparr> mr_mem := m' \<rparr>) (L - {?q}) S {}" using pk(3,4) unfolding pool_def by auto
  then show "mraw_inv (mr\<lparr> mr_mem := m' \<rparr>) (L - {?q})" by (auto simp: pool_inv)
  show "kept (L - {?q}) ?m m'" by (rule keeps_words) (simp add: m')
qed

lemma words_copy_ok:
  assumes "in_block m (d, k) n" "in_block m (b, i) n" "k mod 8 = 0" "i mod 8 = 0" "b \<noteq> d \<or> i + n \<le> k \<or> k + n \<le> i"
  shows "\<exists>w. words_copy m (d, k) (b, i) n = Some (m\<lparr> mm_words := w \<rparr>) \<and>
    (\<forall>b' j. w (b', j) \<noteq> mm_words m (b', j) \<longrightarrow> b' = d \<and> k \<le> j \<and> j < k + n) \<and> (\<forall>j. j + 8 \<le> n \<longrightarrow> w (d, k + j) = mm_words m (b, i + j))"
proof -
  let ?w = "\<lambda>q. if fst q = d \<and> k \<le> snd q \<and> snd q < k + n then (if snd q + 8 \<le> snd (d, k) + n then mm_words m (b, i + (snd q - snd (d, k))) else None)
    else mm_words m q"
  have "words_copy m (d, k) (b, i) n = Some (m\<lparr> mm_words := ?w \<rparr>)"
    using assms by (simp add: words_copy_def words_fill_def cong: if_cong)
  moreover have "b' = d \<and> k \<le> j \<and> j < k + n" if "?w (b', j) \<noteq> mm_words m (b', j)" for b' j using that by (metis fst_conv snd_conv)
  moreover have "\<forall>j. j + 8 \<le> n \<longrightarrow> ?w (d, k + j) = mm_words m (b, i + j)" by simp
  ultimately show ?thesis by blast
qed

section \<open>A new piece\<close>

text \<open>What a change of the size of \<open>q\<close> promises: the other pieces stay, and \<open>sz\<close> bytes of data are in the new piece.\<close>

definition resized :: "lexbor_mem \<Rightarrow> piece set \<Rightarrow> piece \<Rightarrow> size_t \<Rightarrow> size_t \<Rightarrow> lexbor_mraw \<times> ptr \<Rightarrow> bool" where
  "resized m L q sz n = (\<lambda>(mr', p). kept (L - {q}) m (mr_mem mr') \<and> same_words m (fst q) (mr_mem mr') p (unat sz) \<and>
    (\<exists>sz' \<ge> n. (p, sz') \<notin> L - {q} \<and> mraw_inv mr' (insert (p, sz') (L - {q}))))"

lemma keeps_data: "kept L m m' \<Longrightarrow> ((b, i), sz) \<in> L \<Longrightarrow> n \<le> unat sz \<Longrightarrow> same_words m (b, i) m' (b, i) n"
  unfolding same_words_def kept_def by (fastforce simp: region_of_def)

lemma move_ok:
  assumes inv: "mraw_inv mr L" and new: "fresh_mraw new mr" and q: "((b, i), sq) \<in> L"
    and n: "unat n \<le> 2 ^ 60" "8 dvd unat n" "sz \<le> n" "unat sz \<le> unat sq"
  shows "wp (realloc_move new mr (b, i) sz n) (\<lambda>(mr', r). case r of None \<Rightarrow> (mraw_inv mr' L \<or> gone new mr' L) \<and> kept L (mr_mem mr) (mr_mem mr')
    | Some p \<Rightarrow> resized (mr_mem mr) L ((b, i), sq) sz n (mr', p))"
proof -
  let ?q = "((b, i), sq)"
  obtain mr1 r where a: "lexbor_mraw_alloc new mr n = Some (mr1, r)" "allocated new mr L n (mr1, r)"
    "dom (bst_entries (mr_cache mr1)) \<subseteq> dom (bst_entries (mr_cache mr)) \<union> set_option (new_tail new)"
    using mraw_alloc_ok [OF inv new n(1)] align_idem(1) [OF n(2)] by (auto simp: wp_iff)
  show ?thesis
  proof (cases r)
    case None
    then show ?thesis using a by (simp add: realloc_move_def allocated_def)
  next
    case (Some p)
    obtain d k where p: "p = (d, k)" by (cases p)
    obtain sz1 where s1: "sz1 \<ge> n" "((d, k), sz1) \<notin> L" "mraw_inv mr1 (insert ((d, k), sz1) L)" "kept L (mr_mem mr) (mr_mem mr1)"
      using a(2) Some p by (auto simp: allocated_def)
    let ?p = "((d, k), sz1)" let ?m = "mr_mem mr1"
    have pq: "?p \<noteq> ?q" using s1(2) q by metis
    obtain S where pl: "pool mr1 (insert ?p L) S {}" using s1(3) by (auto simp: pool_inv)
    have pk: "mem_inv ?m (region_of ` (insert ?p L \<union> cached S))" "\<forall>q \<in> insert ?p L \<union> cached S. piece_ok ?m q" using pl by (simp_all add: pool_def)
    have pu: "?p \<in> insert ?p L \<union> cached S" and qu: "?q \<in> insert ?p L \<union> cached S" using q by blast+
    note pp = piece_size [OF pk(1) pk(2) [rule_format, OF pu] pu refl] and qq = piece_size [OF pk(1) pk(2) [rule_format, OF qu] qu refl]
    have le: "unat sz \<le> unat sz1" using n(3) s1(1) by (simp add: word_le_nat_alt)
    have ap: "apart (d, k - 8, k + unat sz1) (b, i - 8, i + unat sq)" using pieces_apart [OF pk pu qu pq] by (simp add: region_of_def)
    have ib: "in_block ?m (d, k) (unat sz)" "in_block ?m (b, i) (unat sz)" using pp(7) qq(7) le n(4) by (auto simp: in_block_def split: option.splits)
    have dj: "b \<noteq> d \<or> i + unat sz \<le> k \<or> k + unat sz \<le> i" using ap le n(4) by (auto simp: apart_def)
    have al: "k mod 8 = 0" "i mod 8 = 0" using pp(2) qq(2) by (simp_all add: mod_eq_0_iff_dvd)
    obtain w where w: "words_copy ?m (d, k) (b, i) (unat sz) = Some (?m\<lparr> mm_words := w \<rparr>)"
      "\<forall>b' j. w (b', j) \<noteq> mm_words ?m (b', j) \<longrightarrow> b' = d \<and> k \<le> j \<and> j < k + unat sz" "\<forall>j. j + 8 \<le> unat sz \<longrightarrow> w (d, k + j) = mm_words ?m (b, i + j)"
      using words_copy_ok [OF ib al dj] by (elim exE conjE)
    let ?m2 = "?m\<lparr> mm_words := w \<rparr>"
    have wr: "writes ?p ?m ?m2"
      unfolding writes_def
    proof (intro exI [of _ w] conjI allI impI refl)
      fix b' j
      assume "w (b', j) \<noteq> mm_words ?m (b', j)"
      from w(2) [rule_format, OF this] show "b' = fst (fst ?p)" "snd (fst ?p) \<le> j" "j < snd (fst ?p) + unat (snd ?p)" using le by simp_all
    qed
    define mr2 where "mr2 = (if sz \<noteq> 0 then mr1\<lparr> mr_mem := ?m2 \<rparr> else mr1)"
    have inv2: "mraw_inv mr2 (insert ?p L)" using writes_ok(1) [OF s1(3) insertI1 wr] s1(3) by (simp add: mr2_def)
    have Ld: "L = insert ?p L - {?p}" using s1(2) by (rule Diff_insert_absorb [symmetric])
    have k2: "kept L ?m (mr_mem mr2)" using writes_ok(2) [OF s1(3) insertI1 wr] Ld keeps_refl by (simp add: mr2_def)
    have k3: "kept L (mr_mem mr) (mr_mem mr2)" by (rule keeps_trans [OF s1(4) k2])
    have sd: "same_words (mr_mem mr) (b, i) (mr_mem mr2) (d, k) (unat sz)"
      using w(3) keeps_data [OF s1(4) q n(4)] by (auto simp: same_words_def mr2_def)
    have ent: "x \<notin> dom (bst_entries (mr_cache mr2))" if "new_piece new = Some x" for x
    proof -
      have "x \<notin> dom (bst_entries (mr_cache mr))" "x \<notin> set_option (new_tail new)" using new that by (auto simp: fresh_mraw_def)
      moreover have "mr_cache mr2 = mr_cache mr1" by (simp add: mr2_def)
      ultimately show ?thesis using a(3) by (metis Un_iff subsetD)
    qed
    obtain mr3 where f: "lexbor_mraw_free (new_piece new) mr2 (b, i) = Some mr3" "mraw_inv mr3 (insert ?p L - {?q})" "mr_mem mr3 = mr_mem mr2"
      using mraw_free_ok [OF inv2 insertI2 [OF q], of "new_piece new"] ent by (auto simp: wp_iff)
    have run: "realloc_move new mr (b, i) sz n = Some (mr3, Some (d, k))"
      using a(1) Some w(1) p f(1) unfolding mr2_def by (cases "sz = 0") (simp_all add: realloc_move_def mr_mem_do_def)
    have "insert ?p L - {?q} = insert ?p (L - {?q})" using pq by (metis insert_Diff_if singletonD)
    then have "resized (mr_mem mr) L ?q sz n (mr3, (d, k))"
      using s1(1,2) f(2,3) k3 sd keeps_mono [OF k3, of "L - {?q}"] by (auto simp: resized_def)
    then show ?thesis unfolding run by simp
  qed
qed

section \<open>The piece at the end of the chunk\<close>

definition realloc_post :: "mraw_new \<Rightarrow> lexbor_mraw \<Rightarrow> piece set \<Rightarrow> piece \<Rightarrow> size_t \<Rightarrow> lexbor_mraw \<times> ptr option \<Rightarrow> bool" where
  "realloc_post new mr L q n = (\<lambda>(mr', r). case r of
     None \<Rightarrow> n = 0 \<and> mraw_inv mr' (L - {q}) \<and> kept (L - {q}) (mr_mem mr) (mr_mem mr') \<or> resized (mr_mem mr) L q (snd q) (snd q) (mr', fst q) \<or>
       gone new mr' (L - {q}) \<and> kept (L - {q}) (mr_mem mr) (mr_mem mr')
   | Some p \<Rightarrow> resized (mr_mem mr) L q (min (snd q) n) n (mr', p))"

lemma resized_refl: "mraw_inv mr L \<Longrightarrow> q \<in> L \<Longrightarrow> resized (mr_mem mr) L q (snd q) (snd q) (mr, fst q)"
  by (auto simp: resized_def keeps_refl same_words_def insert_absorb intro!: exI [of _ "snd q"])

text \<open>A piece that is alone in its block gets a new block.\<close>

lemma tail_block:
  assumes inv: "mraw_inv mr L" and q: "((b, 8), sz) \<in> L" and c: "cur_chunk (mr_mem mr) = Some (a, c)" "ck_data c = Some b" "unat (ck_length c) = 8 + unat sz"
    and d: "d \<notin> dom (mm_blocks (mr_mem mr))" and s: "unat n + 8 \<le> unat bsz" "8 dvd unat n" "8 dvd unat bsz" "unat bsz \<le> 2 ^ 62" "sz \<le> n"
  shows "\<exists>m'. (do { m \<leftarrow> lexbor_mraw_meta_set (block_make (Some d) (mr_mem mr) bsz) (d, 0) n;
       m \<leftarrow> (if sz \<noteq> 0 then words_copy m (d, 8) (b, 8) (unat sz) else Some m);
       m \<leftarrow> lexbor_mem_chunk_destroy m a False;
       ck_set m a (\<lambda>c. c\<lparr> ck_data := Some d, ck_size := bsz, ck_length := n + 8 \<rparr>) }) = Some m' \<and>
     resized (mr_mem mr) L ((b, 8), sz) sz n (mr\<lparr> mr_mem := m' \<rparr>, (d, 8))"
proof -
  let ?m = "mr_mem mr" let ?q = "((b, 8 :: nat), sz)" let ?p = "((d, 8 :: nat), n)"
  obtain S where p: "pool mr L S {}" using inv by (auto simp: pool_inv)
  let ?P = "(L - {?q}) \<union> cached S"
  have pk: "mem_inv ?m (region_of ` (L \<union> cached S))" "\<forall>q \<in> L \<union> cached S. piece_ok ?m q" "L \<inter> cached S = {}" "cache_ok (mr_cache mr) S"
    using p by (simp_all add: pool_def)
  have qu: "?q \<in> L \<union> cached S" using q by blast
  note ps = piece_size [OF pk(1) pk(2) [rule_format, OF qu] qu refl]
  have ca: "mm_chunks ?m a = Some c" using c(1) by (auto simp: cur_chunk_def bind_eq_Some_conv)
  have bd: "b \<noteq> d" "mm_blocks ?m b \<noteq> None" using ps(7) d by (auto simp: in_block_def split: option.splits)
  have inv1: "mem_inv ?m (region_of ` ?P)" by (rule mem_inv_mono [OF pk(1)]) blast
  let ?w0 = "(\<lambda>p. if fst p = d then None else mm_words ?m p)((d, 0) := Some n)"
  let ?m1 = "?m\<lparr> mm_blocks := (mm_blocks ?m)(d \<mapsto> bsz), mm_words := ?w0 \<rparr>"
  have st: "lexbor_mraw_meta_set (block_make (Some d) ?m bsz) (d, 0) n = Some ?m1"
    using s(1) by (simp add: lexbor_mraw_meta_set_def block_make_def word_at_def)
  have ib: "in_block ?m1 (d, 8) (unat sz)" "in_block ?m1 (b, 8) (unat sz)"
    using s(1,5) ps(7) bd by (auto simp: in_block_def word_le_nat_alt split: option.splits)
  have al: "(8 :: nat) mod 8 = 0" and dj: "b \<noteq> d \<or> 8 + unat sz \<le> 8 \<or> 8 + unat sz \<le> 8" using bd(1) by simp_all
  obtain w where w: "words_copy ?m1 (d, 8) (b, 8) (unat sz) = Some (?m1\<lparr> mm_words := w \<rparr>)"
    "\<forall>b' j. w (b', j) \<noteq> mm_words ?m1 (b', j) \<longrightarrow> b' = d \<and> 8 \<le> j \<and> j < 8 + unat sz" "\<forall>j. j + 8 \<le> unat sz \<longrightarrow> w (d, 8 + j) = mm_words ?m1 (b, 8 + j)"
    using words_copy_ok [OF ib al al dj] by (elim exE conjE)
  define w' where "w' = (if sz \<noteq> 0 then w else ?w0)"
  have w': "\<And>b' j. b' \<noteq> d \<Longrightarrow> w' (b', j) = mm_words ?m (b', j)" "w' (d, 0) = Some n" "\<And>j. j + 8 \<le> unat sz \<Longrightarrow> w' (d, 8 + j) = mm_words ?m (b, 8 + j)"
  proof -
    show "w' (b', j) = mm_words ?m (b', j)" if "b' \<noteq> d" for b' j using w(2) [rule_format, of b' j] that by (auto simp: w'_def)
    show "w' (d, 0) = Some n" using w(2) [rule_format, of d 0] by (auto simp: w'_def)
    show "w' (d, 8 + j) = mm_words ?m (b, 8 + j)" if "j + 8 \<le> unat sz" for j using w(3) [rule_format, of j] that bd(1) by (auto simp: w'_def)
  qed
  let ?c = "c\<lparr> ck_data := Some d, ck_size := bsz, ck_length := n + 8 \<rparr>"
  let ?m2 = "?m\<lparr> mm_chunks := (mm_chunks ?m)(a \<mapsto> ?c), mm_blocks := (mm_blocks ?m)(b := None, d \<mapsto> bsz), mm_words := w' \<rparr>"
  have run: "(do { m \<leftarrow> lexbor_mraw_meta_set (block_make (Some d) (mr_mem mr) bsz) (d, 0) n;
       m \<leftarrow> (if sz \<noteq> 0 then words_copy m (d, 8) (b, 8) (unat sz) else Some m);
       m \<leftarrow> lexbor_mem_chunk_destroy m a False;
       ck_set m a (\<lambda>c. c\<lparr> ck_data := Some d, ck_size := bsz, ck_length := n + 8 \<rparr>) }) = Some ?m2"
    unfolding st Option.bind.simps using w(1) ca c(2) bd
    by (cases "sz = 0") (auto simp: w'_def lexbor_mem_chunk_destroy_def block_free_def ck_set_def fun_upd_twist)
  have none: "(b, x, e) \<notin> region_of ` ?P" for x e
  proof
    assume r: "(b, x, e) \<in> region_of ` ?P"
    then obtain y where y: "(b, x, e) = region_of y" "y \<in> ?P" by (rule imageE)
    have "e \<le> 8 - 8" by (rule tail_apart [OF p q ca c(2) _ y(2) y(1) [symmetric]]) (use c(3) in simp)
    then show False using region_block(2) [OF inv1 r] by simp
  qed
  have un: "unat (n + 8) = unat n + 8" using s(1,4) by (subst unat_plus_if_fits) simp_all
  have inv2: "mem_inv ?m2 (region_of ` ?P)"
    by (rule set_block [OF inv1 ca c(2) none d, of ?c bsz]) (use s un in \<open>simp_all add: word_le_nat_alt\<close>)
  have ap: "apart (d, 0, unat n + 8) (region_of y)" if y: "y \<in> ?P" for y
  proof -
    obtain b' x e where r: "region_of y = (b', x, e)" by (cases "region_of y")
    then have "(b', x, e) \<in> region_of ` ?P" using y by (metis imageI)
    then have "b' \<noteq> d" using region_block(1) [OF inv1, of b' x e] d by auto
    then show ?thesis using r by (simp add: apart_def)
  qed
  have "in_chunk ?m2 (d, 0, unat n + 8)" using s(2) un by (auto simp: in_chunk_def intro: exI [of _ a])
  then have inv3: "mem_inv ?m2 (insert (d, 0, unat n + 8) (region_of ` ?P))" by (rule mem_inv_add [OF inv2]) (use ap in blast)
  have rp: "region_of ?p = (d, 0, unat n + 8)" by (simp add: region_of_def)
  have np: "?p \<notin> ?P"
  proof
    assume "?p \<in> ?P"
    from ap [OF this] show False unfolding rp by (simp add: apart_def)
  qed
  have k: "kept ?P ?m ?m2"
    unfolding kept_def
  proof (intro ballI allI impI)
    fix y b' x e j
    assume "y \<in> ?P" "region_of y = (b', x, e)"
    then have "(b', x, e) \<in> region_of ` ?P" by (metis imageI)
    then have "b' \<noteq> d" using region_block(1) [OF inv1, of b' x e] d by auto
    then show "mm_words ?m2 (b', j) = mm_words ?m (b', j)" using w'(1) by simp
  qed
  have ok: "piece_ok ?m2 y" if "y \<in> insert ?p ?P" for y
  proof (cases "y = ?p")
    case True
    then show ?thesis using w'(2) by (simp add: piece_ok_def)
  next
    case False
    then show ?thesis using keeps_piece [OF k, of y] pk(2) that by blast
  qed
  have "pool (mr\<lparr> mr_mem := ?m2 \<rparr>) (insert ?p (L - {?q})) S {}"
    using pk(3,4) np ok inv3 rp unfolding pool_def by auto
  then have "mraw_inv (mr\<lparr> mr_mem := ?m2 \<rparr>) (insert ?p (L - {?q}))" by (auto simp: pool_inv)
  moreover have "kept (L - {?q}) ?m ?m2" by (rule keeps_mono [OF k]) blast
  moreover have "same_words ?m (b, 8) ?m2 (d, 8) (unat sz)" using w'(3) by (simp add: same_words_def)
  ultimately have "resized ?m L ?q sz n (mr\<lparr> mr_mem := ?m2 \<rparr>, (d, 8))" using np by (auto simp: resized_def)
  then show ?thesis using run by blast
qed

text \<open>The three ways of \<open>lexbor_mraw_realloc_tail\<close>: in place, in a new block, and not here.\<close>

lemma realloc_tail_ok:
  assumes inv: "mraw_inv mr L" and q: "((b, i), sz) \<in> L" and new: "fresh_mraw new mr"
    and c: "cur_chunk (mr_mem mr) = Some (a, c)" "ck_data c = Some b" "unat (ck_length c) = i + unat sz"
    and n: "unat n \<le> 2 ^ 60" "8 dvd unat n"
  shows "wp (lexbor_mraw_realloc_tail new mr (b, i) (b, i - 8) sz (ck_length c - sz) n) (\<lambda>(mr', r, valid).
    if valid then realloc_post new mr L ((b, i), sz) n (mr', r)
    else sz \<le> n \<and> resized (mr_mem mr) L ((b, i), sz) sz sz (mr', (b, i)) \<and> fresh_mraw new mr')"
proof -
  let ?m = "mr_mem mr" let ?q = "((b, i), sz)" let ?bl = "ck_length c - sz"
  obtain S where p: "pool mr L S {}" using inv by (auto simp: pool_inv)
  have pk: "mem_inv ?m (region_of ` (L \<union> cached S))" "\<forall>q \<in> L \<union> cached S. piece_ok ?m q" using p by (simp_all add: pool_def)
  have ck: "chunks_ok ?m" using pk(1) by (simp add: mem_inv_def)
  have qu: "?q \<in> L \<union> cached S" using q by blast
  note ps = piece_size [OF pk(1) pk(2) [rule_format, OF qu] qu refl]
  have ca: "mm_chunks ?m a = Some c" "mm_chunk ?m = Some a" using c(1) by (auto simp: cur_chunk_def bind_eq_Some_conv)
  have cs: "ck_length c \<le> ck_size c" "8 dvd unat (ck_size c)" "unat (ck_size c) \<le> 2 ^ 62" using chunks_okD(1) [OF ck ca(1)] by (auto simp: chunk_ok_def)
  have bl: "unat ?bl = i" using c(3) by (simp add: unat_sub word_le_nat_alt)
  have i62: "i \<le> 2 ^ 62" using c(3) cs(1,3) by (simp add: word_le_nat_alt)
  have w: "word_at ?m (b, i - 8)" by (rule ps(6))
  have bn: "unat (?bl + n) = i + unat n" using bl i62 n(1) by (subst unat_plus_if_fits) simp_all
  have dn: "8 dvd i + unat n" using ps(2) n(2) by simp
  show ?thesis
  proof (cases "ck_size c > ?bl + n")
    case True
    then have fit: "?bl + n \<le> ck_size c" by simp
    show ?thesis
    proof (cases "n = 0")
      case n0: True
      have b8: "unat (?bl - 8) = i - 8" using bl ps(1) by (simp add: unat_sub word_le_nat_alt)
      have le: "?bl - 8 \<le> ck_size c" using b8 c(3) cs(1) by (simp add: word_le_nat_alt)
      note td = tail_drop [OF inv q ca(1) c(2,3) le b8 refl]
      show ?thesis using td True n0 c(1) ca(1)
        by (simp add: lexbor_mraw_realloc_tail_def mr_mem_do_def ck_set_def realloc_post_def)
    next
      case n0: False
      let ?m' = "?m\<lparr> mm_chunks := (mm_chunks ?m)(a \<mapsto> c\<lparr> ck_length := ?bl + n \<rparr>) \<rparr>\<lparr> mm_words := (mm_words ?m)((b, i - 8) := Some n) \<rparr>"
      note tr = tail_resize [OF inv q ca(1) c(2,3) fit _ bn refl]
      have "resized ?m L ?q (min sz n) n (mr\<lparr> mr_mem := ?m' \<rparr>, (b, i))"
        using tr dn bn by (auto simp: resized_def)
      moreover have "lexbor_mraw_realloc_tail new mr (b, i) (b, i - 8) sz ?bl n = Some (mr\<lparr> mr_mem := ?m' \<rparr>, Some (b, i), True)"
        using True n0 c(1) ca(1) w by (simp add: lexbor_mraw_realloc_tail_def mr_mem_do_def ck_set_def lexbor_mraw_meta_set_def word_at_def)
      ultimately show ?thesis by (simp add: realloc_post_def)
    qed
  next
    case big: False
    have "unat (ck_size c) \<le> i + unat n" using big bn by (simp add: word_le_nat_alt not_less)
    then have sn: "sz \<le> n" using c(3) cs(1) by (simp add: word_le_nat_alt)
    show ?thesis
    proof (cases "?bl = 8")
      case True
      have n8: "unat (n + 8) = unat n + 8" using n(1) by (subst unat_plus_if_fits) simp_all
      have i8: "i = 8" using bl True by simp
      have d8: "8 dvd unat (n + 8)" "unat (n + 8) \<le> 2 ^ 60 + 16" using n n8 by simp_all
      obtain s where s: "lexbor_mem_chunk_init (snd (new_chunk new)) ?m ck_empty (n + 8) =
          (block_make (snd (new_chunk new)) ?m s, ck_empty\<lparr> ck_size := s, ck_length := 0, ck_data := snd (new_chunk new) \<rparr>)"
        "unat (n + 8) \<le> unat s" "8 dvd unat s" "unat s \<le> 2 ^ 62"
        using chunk_init_size [OF chunks_okD(4,5) [OF ck] d8(2)] align_idem(1) [OF d8(1)] by auto
      show ?thesis
      proof (cases "snd (new_chunk new)")
        case None
        then show ?thesis using c(1) big True s(1) resized_refl [OF inv q]
          by (simp add: lexbor_mraw_realloc_tail_def block_make_def realloc_post_def)
      next
        case (Some d)
        then have d: "d \<notin> dom (mm_blocks ?m)" using new by (simp add: fresh_mraw_def fresh_new_def)
        obtain m' where m': "(do { m \<leftarrow> lexbor_mraw_meta_set (block_make (Some d) ?m s) (d, 0) n;
            m \<leftarrow> (if sz \<noteq> 0 then words_copy m (d, 8) (b, 8) (unat sz) else Some m);
            m \<leftarrow> lexbor_mem_chunk_destroy m a False;
            ck_set m a (\<lambda>c. c\<lparr> ck_data := Some d, ck_size := s, ck_length := n + 8 \<rparr>) }) = Some m'"
          "resized ?m L ((b, 8), sz) sz n (mr\<lparr> mr_mem := m' \<rparr>, (d, 8))"
          using tail_block [OF inv q [unfolded i8] c(1,2) c(3) [unfolded i8] d _ n(2) s(3,4) sn] s(2) n8 by auto
        have "lexbor_mraw_realloc_tail new mr (b, i) (b, i - 8) sz ?bl n = Some (mr\<lparr> mr_mem := m' \<rparr>, Some (d, 8), True)"
          using c(1) big True s(1) Some m'(1) i8
          by (cases "sz = 0") (auto simp: lexbor_mraw_realloc_tail_def lexbor_mraw_data_begin_def Let_def bind_eq_Some_conv)
        then show ?thesis using m'(2) i8 sn by (simp add: realloc_post_def min_def)
      qed
    next
      case False
      let ?d = "ck_size c - ck_length c"
      have ud: "unat ?d = unat (ck_size c) - unat (ck_length c)" using cs(1) by (simp add: unat_sub)
      have us: "unat (sz + ?d) = unat (ck_size c) - i"
        using ud c(3) cs(1,3) by (subst unat_plus_if_fits) (auto simp: word_le_nat_alt)
      have fl: "lexbor_mem_align_floor (sz + ?d) = sz + ?d" by (rule align_idem(2)) (use us cs(2) ps(2) in \<open>simp add: dvd_diff_nat\<close>)
      have iS: "unat (ck_size c) = i + unat (sz + ?d)" using us c(3) cs(1) by (simp add: word_le_nat_alt)
      let ?m' = "?m\<lparr> mm_chunks := (mm_chunks ?m)(a \<mapsto> c\<lparr> ck_length := ck_size c \<rparr>) \<rparr>\<lparr> mm_words := (mm_words ?m)((b, i - 8) := Some (sz + ?d)) \<rparr>"
      note tr = tail_resize [OF inv q ca(1) c(2,3) order_refl cs(2) iS refl]
      have "sz \<le> sz + ?d" using us c(3) cs(1) by (simp add: word_le_nat_alt)
      then have "resized ?m L ?q sz sz (mr\<lparr> mr_mem := ?m' \<rparr>, (b, i))" using tr by (auto simp: resized_def)
      moreover have "fresh_mraw new (mr\<lparr> mr_mem := ?m' \<rparr>)" using new ca(1) by (auto simp: fresh_mraw_def fresh_new_def)
      moreover have "lexbor_mraw_realloc_tail new mr (b, i) (b, i - 8) sz ?bl n = Some (mr\<lparr> mr_mem := ?m' \<rparr>, None, False)"
        using c(1) big False fl ca w
        by (simp add: lexbor_mraw_realloc_tail_def mr_mem_do_def ck_set_def lexbor_mraw_meta_set_def word_at_def Let_def)
      ultimately show ?thesis using sn by simp
    qed
  qed
qed

section \<open>A smaller piece\<close>

text \<open>A size, a multiple of 8, that a piece can be given without harm: a larger one, one so little smaller that nothing happens, exactly
  the half, zero, and any size when the piece is the last of the current chunk.\<close>

definition resizes_well :: "lexbor_mraw \<Rightarrow> piece \<Rightarrow> size_t \<Rightarrow> bool" where
  "resizes_well mr = (\<lambda>((b, i), sz) n. n = 0 \<or> unat sz \<le> unat n + 8 \<or> unat sz = 2 * unat n \<or>
    (\<exists>a c. cur_chunk (mr_mem mr) = Some (a, c) \<and> ck_data c = Some b \<and> unat (ck_length c) = i + unat sz))"

lemma split_region:
  assumes inv: "mem_inv m (insert (b, s, e) R)" and ap: "\<And>r. r \<in> R \<Longrightarrow> apart (b, s, e) r" and k: "s < k" "k < e" "8 dvd k"
  shows "mem_inv m (insert (b, s, k) (insert (b, k, e) R))"
proof -
  have ic: "in_chunk m (b, s, e)" using inv by (simp add: mem_inv_def)
  have ic1: "in_chunk m (b, s, k)" using ic k by (fastforce simp: in_chunk_def)
  have ic2: "in_chunk m (b, k, e)" using ic k by (auto simp: in_chunk_def)
  have ap1: "apart (b, s, k) r" if "r \<in> R" for r using ap [OF that] k by (cases r) (auto simp: apart_def)
  have ap2: "apart (b, k, e) r" if "r \<in> R" for r using ap [OF that] k by (cases r) (auto simp: apart_def)
  have "mem_inv m R" by (rule mem_inv_mono [OF inv subset_insertI])
  then have i2: "mem_inv m (insert (b, k, e) R)" by (rule mem_inv_add [OF _ ic2 ap2])
  show ?thesis
  proof (rule mem_inv_add [OF i2 ic1])
    fix r
    assume "r \<in> insert (b, k, e) R"
    then consider "r = (b, k, e)" | "r \<in> R" by blast
    then show "apart (b, s, k) r"
    proof cases
      case 1
      then show ?thesis by (simp add: apart_def)
    qed (rule ap1)
  qed
qed

lemma swap_piece:
  assumes "L \<inter> C = {}" "x \<notin> (L - {q}) \<union> C" "q' \<notin> (L - {q}) \<union> C" "q' \<noteq> x" "C' \<subseteq> insert x C"
  shows "q' \<notin> L - {q}" "insert q' (L - {q}) \<inter> C' = {}" "insert q' (L - {q}) \<union> C' \<subseteq> insert q' (insert x ((L - {q}) \<union> C))"
  using assms by blast+

lemma shrink_half:
  assumes inv: "mraw_inv mr L" and q: "((b, i), sz) \<in> L" and n: "8 < unat n" "8 dvd unat n" "unat sz = 2 * unat n"
    and ent: "\<And>a. ent = Some a \<Longrightarrow> a \<notin> dom (bst_entries (mr_cache mr))"
  shows "wp (realloc_shrink ent mr (b, i) (b, i - 8) sz n) (\<lambda>(mr', r). r = Some (b, i) \<and> resized (mr_mem mr) L ((b, i), sz) n n (mr', (b, i)))"
proof -
  let ?m = "mr_mem mr" let ?q = "((b, i), sz)" let ?q' = "((b, i), n)" let ?x = "((b, i + unat n + 8), n - 8)"
  obtain S where p: "pool mr L S {}" using inv by (auto simp: pool_inv)
  let ?P = "(L - {?q}) \<union> cached S"
  have pk: "mem_inv ?m (region_of ` (L \<union> cached S))" "\<forall>q \<in> L \<union> cached S. piece_ok ?m q" "L \<inter> cached S = {}" "cache_ok (mr_cache mr) S"
    using p by (simp_all add: pool_def)
  have qu: "?q \<in> L \<union> cached S" using q by blast
  note ps = piece_size [OF pk(1) pk(2) [rule_format, OF qu] qu refl]
  have nq: "?q \<notin> ?P" using pk(3) q by (metis DiffD2 UnE disjoint_iff singletonI)
  have d: "sz - n = n" "n \<noteq> 0" using n by (auto simp: word_unat_eq_iff unat_sub_if')
  have n8: "unat (n - 8) = unat n - 8" "8 < n" using n(1) by (simp_all add: unat_sub word_le_nat_alt word_less_nat_alt)
  have fl: "lexbor_mem_align_floor n = n" by (rule align_idem(2) [OF n(2)])
  have rq: "region_of ?q = (b, i - 8, i + unat sz)" "region_of ?q' = (b, i - 8, i + unat n)" "region_of ?x = (b, i + unat n, i + unat sz)"
    using n n8 by (simp_all add: region_of_def)
  have w1: "word_at ?m (b, i - 8)" by (rule ps(6))
  have w2: "word_at ?m (b, i + unat n)" using ps(2,7) n by (auto simp: word_at_def in_block_def mod_eq_0_iff_dvd split: option.splits)
  let ?m2 = "?m\<lparr> mm_words := (mm_words ?m)((b, i - 8) := Some n, (b, i + unat n) := Some (n - 8)) \<rparr>"
  have ap: "apart (b, i - 8, i + unat sz) (region_of y)" if y: "y \<in> ?P" for y
  proof -
    have "y \<in> L \<union> cached S" "?q \<noteq> y" using y nq by (blast, metis)
    then show ?thesis using pieces_apart [OF pk(1,2) qu] rq(1) by metis
  qed
  have "L \<union> cached S = insert ?q ?P" using q by blast
  then have Pq: "region_of ` (L \<union> cached S) = insert (b, i - 8, i + unat sz) (region_of ` ?P)" using rq(1) by simp
  have inv2: "mem_inv ?m2 (insert (b, i - 8, i + unat n) (insert (b, i + unat n, i + unat sz) (region_of ` ?P)))"
    unfolding mem_inv_words
  proof (rule split_region)
    show "mem_inv ?m (insert (b, i - 8, i + unat sz) (region_of ` ?P))" using pk(1) unfolding Pq .
    show "i - 8 < i + unat n" "i + unat n < i + unat sz" "8 dvd i + unat n" using n ps(2) by simp_all
    fix r
    assume "r \<in> region_of ` ?P"
    then obtain y where y: "r = region_of y" "y \<in> ?P" by (rule imageE)
    show "apart (b, i - 8, i + unat sz) r" unfolding y(1) by (rule ap [OF y(2)])
  qed
  have k: "kept ?P ?m ?m2"
  proof (rule keeps_outside [OF _ ap])
    fix y
    assume y: "y \<notin> {(b, j) |j. i - 8 \<le> j \<and> j < i + unat sz}"
    have "(b, i - 8) \<in> {(b, j) |j. i - 8 \<le> j \<and> j < i + unat sz}" "(b, i + unat n) \<in> {(b, j) |j. i - 8 \<le> j \<and> j < i + unat sz}" using n by simp_all
    then have "y \<noteq> (b, i - 8)" "y \<noteq> (b, i + unat n)" using y by metis+
    then show "mm_words ?m2 y = mm_words ?m y" by simp
  qed
  have nx: "?q' \<notin> ?P" "?x \<notin> ?P" "?x \<noteq> ?q'"
  proof -
    show "?q' \<notin> ?P"
    proof
      assume "?q' \<in> ?P"
      from ap [OF this] show False unfolding rq(2) apart_def using n by simp arith
    qed
    show "?x \<notin> ?P"
    proof
      assume "?x \<in> ?P"
      from ap [OF this] show False unfolding rq(3) apart_def using n by simp
    qed
    show "?x \<noteq> ?q'" by simp
  qed
  have ok: "piece_ok ?m2 y" if "y \<in> insert ?q' (insert ?x ?P)" for y
  proof -
    consider "y = ?q'" | "y = ?x" | "y \<in> ?P" using \<open>y \<in> _\<close> by blast
    then show ?thesis
    proof cases
      case 1
      then show ?thesis using ps(1) n by (simp add: piece_ok_def)
    next
      case 2
      then show ?thesis by (simp add: piece_ok_def)
    next
      case 3
      then show ?thesis using keeps_piece [OF k 3] pk(2) by blast
    qed
  qed
  have xc: "?x \<notin> cached S" using nx(2) by blast
  have ci: "wp (cache_insert ent (mr\<lparr> mr_mem := ?m2 \<rparr>) (n - 8) (b, i + unat n + 8)) (\<lambda>mr'. mr_mem mr' = ?m2 \<and>
      (\<exists>S'. cache_ok (mr_cache mr') S' \<and> cached S' = (if ent = None then cached S else insert ?x (cached S))))"
    by (rule wp_mono [OF cache_insert_ok [of "mr\<lparr> mr_mem := ?m2 \<rparr>" S ent "(b, i + unat n + 8)" "n - 8"]]) (use pk(4) ent xc in auto)
  then obtain mr' S' where c: "cache_insert ent (mr\<lparr> mr_mem := ?m2 \<rparr>) (n - 8) (b, i + unat n + 8) = Some mr'" "mr_mem mr' = ?m2"
    "cache_ok (mr_cache mr') S'" "cached S' = (if ent = None then cached S else insert ?x (cached S))" by (auto simp: wp_iff)
  have S': "cached S' \<subseteq> insert ?x (cached S)" using c(4) by auto
  note sets = swap_piece [OF pk(3) nx(2,1) not_sym [OF nx(3)] S']
  note nq' = sets(1) and dj = sets(2) and sub = sets(3)
  from sub have "region_of ` (insert ?q' (L - {?q}) \<union> cached S') \<subseteq> region_of ` insert ?q' (insert ?x ?P)" by (rule image_mono)
  then have "mem_inv ?m2 (region_of ` (insert ?q' (L - {?q}) \<union> cached S'))" using mem_inv_mono [OF inv2] rq(2,3) by simp
  moreover have "\<forall>y \<in> insert ?q' (L - {?q}) \<union> cached S'. piece_ok ?m2 y" using ok sub by blast
  ultimately have "pool mr' (insert ?q' (L - {?q})) S' {}" using c(2,3) dj by (simp only: pool_def) simp
  then have "mraw_inv mr' (insert ?q' (L - {?q}))" by (auto simp: pool_inv)
  moreover have "kept (L - {?q}) ?m ?m2" by (rule keeps_mono [OF k]) blast
  moreover have "same_words ?m (b, i) ?m2 (b, i) (unat n)" using ps(1) by (auto simp: same_words_def)
  ultimately have "resized ?m L ?q n n (mr', (b, i))" using nq' c(2) by (auto simp: resized_def)
  moreover have "realloc_shrink ent mr (b, i) (b, i - 8) sz n = Some (mr', Some (b, i))"
    using d n8(2) fl w1 w2 c(1) by (auto simp: realloc_shrink_def mr_mem_do_def lexbor_mraw_meta_set_def lexbor_mraw_data_begin_def word_at_def Let_def)
  ultimately show ?thesis by simp
qed

section \<open>All of them\<close>

lemma same_data_trans: "same_words m p m' p' n \<Longrightarrow> same_words m' p' m'' p'' n \<Longrightarrow> same_words m p m'' p'' n"
  by (simp add: same_words_def)

text \<open>The piece moves, or does not, from where it has got longer.\<close>

lemma resized_move:
  assumes r: "resized m L ((b, i), sz) sz sz (mr1, (b, i))" and new: "fresh_mraw new mr1"
    and n: "unat n \<le> 2 ^ 60" "8 dvd unat n" "sz \<le> n"
  shows "wp (realloc_move new mr1 (b, i) sz n) (\<lambda>(mr2, r). case r of
      None \<Rightarrow> resized m L ((b, i), sz) sz sz (mr2, (b, i)) \<or> gone new mr2 (L - {((b, i), sz)}) \<and> kept (L - {((b, i), sz)}) m (mr_mem mr2)
    | Some p \<Rightarrow> resized m L ((b, i), sz) sz n (mr2, p))"
proof -
  let ?q = "((b, i), sz)"
  obtain s1 where s1: "sz \<le> s1" "((b, i), s1) \<notin> L - {?q}" "mraw_inv mr1 (insert ((b, i), s1) (L - {?q}))"
    and k: "kept (L - {?q}) m (mr_mem mr1)" "same_words m (b, i) (mr_mem mr1) (b, i) (unat sz)" using r by (auto simp: resized_def)
  let ?q1 = "((b, i), s1)" let ?L1 = "insert ?q1 (L - {?q})"
  have u: "unat sz \<le> unat s1" using s1(1) by (simp add: word_le_nat_alt)
  have L1: "?L1 - {?q1} = L - {?q}" using s1(2) by (rule Diff_insert_absorb)
  have mv: "wp (realloc_move new mr1 (b, i) sz n) (\<lambda>(mr2, r). case r of None \<Rightarrow> (mraw_inv mr2 ?L1 \<or> gone new mr2 ?L1) \<and> kept ?L1 (mr_mem mr1) (mr_mem mr2)
      | Some p \<Rightarrow> resized (mr_mem mr1) ?L1 ?q1 sz n (mr2, p))"
    by (rule move_ok [OF s1(3) new insertI1 n u])
  have stay: "resized m L ?q sz sz (mr2, (b, i)) \<or> gone new mr2 (L - {?q}) \<and> kept (L - {?q}) m (mr_mem mr2)"
    if v: "mraw_inv mr2 ?L1 \<or> gone new mr2 ?L1" "kept ?L1 (mr_mem mr1) (mr_mem mr2)" for mr2
  proof -
    have kp: "kept (L - {?q}) m (mr_mem mr2)" by (rule keeps_trans [OF k(1) keeps_mono [OF v(2)]]) blast
    have "same_words m (b, i) (mr_mem mr2) (b, i) (unat sz)" by (rule same_data_trans [OF k(2) keeps_data [OF v(2) insertI1 u]])
    then have "mraw_inv mr2 ?L1 \<Longrightarrow> resized m L ?q sz sz (mr2, (b, i))" using s1(1,2) kp by (auto simp: resized_def)
    moreover have "gone new mr2 ?L1 \<Longrightarrow> gone new mr2 (L - {?q})" by (rule gone_mono [OF _ subset_insertI])
    ultimately show ?thesis using v(1) kp by blast
  qed
  have moved: "resized m L ?q sz n (mr2, p)" if v: "resized (mr_mem mr1) ?L1 ?q1 sz n (mr2, p)" for mr2 p
  proof -
    have w: "kept (L - {?q}) (mr_mem mr1) (mr_mem mr2)" "same_words (mr_mem mr1) (b, i) (mr_mem mr2) p (unat sz)"
      "\<exists>s \<ge> n. (p, s) \<notin> L - {?q} \<and> mraw_inv mr2 (insert (p, s) (L - {?q}))"
      using v unfolding resized_def L1 by simp_all
    show ?thesis using keeps_trans [OF k(1) w(1)] same_data_trans [OF k(2) w(2)] w(3) by (simp add: resized_def)
  qed
  show ?thesis by (rule wp_mono [OF mv]) (use stay moved in \<open>auto split: option.splits\<close>)
qed

lemma mraw_realloc_ok:
  assumes inv: "mraw_inv mr L" and q: "((b, i), sz) \<in> L" and new: "fresh_mraw new mr"
    and n: "unat n \<le> 2 ^ 60" "resizes_well mr ((b, i), sz) (lexbor_mem_align n)"
  shows "wp (lexbor_mraw_realloc new mr (b, i) n) (realloc_post new mr L ((b, i), sz) (lexbor_mem_align n))"
proof -
  let ?m = "mr_mem mr" let ?q = "((b, i), sz)" let ?n = "lexbor_mem_align n"
  obtain S where p: "pool mr L S {}" using inv by (auto simp: pool_inv)
  have pk: "mem_inv ?m (region_of ` (L \<union> cached S))" "\<forall>q \<in> L \<union> cached S. piece_ok ?m q" using p by (simp_all add: pool_def)
  have ck: "chunks_ok ?m" using pk(1) by (simp add: mem_inv_def)
  have qu: "?q \<in> L \<union> cached S" using q by blast
  note ps = piece_size [OF pk(1) pk(2) [rule_format, OF qu] qu refl]
  obtain a c bc where c: "cur_chunk ?m = Some (a, c)" "ck_data c = Some bc" using cur_chunk_ok [OF ck] by blast
  have al: "8 dvd unat ?n" "unat ?n < unat n + 8" using align_ok [of n] n(1) by simp_all
  obtain k where "unat ?n = 8 * k" using al(1) by (auto simp: dvd_def)
  then have n60: "unat ?n \<le> 2 ^ 60" using al(2) n(1) by simp
  have mp: "meta_ptr (b, i) = Some (b, i - 8)" using ps(1) by (simp add: meta_ptr_def)
  have ent: "x \<notin> dom (bst_entries (mr_cache mr))" if "new_piece new = Some x" for x using new that by (auto simp: fresh_mraw_def)
  note fr = mraw_free_ok [OF inv q ent, simplified lexbor_mraw_free_def ps(4) Option.bind.simps]
  have other: "wp (if ?n < sz then realloc_shrink (new_piece new) mr (b, i) (b, i - 8) sz ?n else realloc_move new mr (b, i) sz ?n)
      (realloc_post new mr L ?q ?n)" if nt: "\<not> (bc = b \<and> unat (ck_length c) = i + unat sz)"
  proof -
    have mn: "min sz ?n = ?n" if "?n < sz" by (rule min_absorb2 [OF less_imp_le [OF that]])
    consider "?n < sz" "?n = 0" | "?n < sz" "?n \<noteq> 0" "unat sz \<le> unat ?n + 8" | "?n < sz" "unat sz = 2 * unat ?n" "8 < unat ?n" | "\<not> ?n < sz"
      using n(2) nt c by (fastforce simp: resizes_well_def)
    then show ?thesis
    proof cases
      case 1
      have "wp (realloc_shrink (new_piece new) mr (b, i) (b, i - 8) sz ?n) (\<lambda>(mr', r). r = None \<and> mraw_inv mr' (L - {?q}) \<and> mr_mem mr' = ?m)"
        using fr by (simp add: realloc_shrink_def 1(2))
      then show ?thesis using 1 by (auto simp: realloc_post_def keeps_refl elim!: wp_mono)
    next
      case 2
      have "unat (sz - ?n) = unat sz - unat ?n" using 2(1) by (simp add: unat_sub)
      then have "\<not> lexbor_mem_align_floor (sz - ?n) > 8"
        using 2(3) align_idem(2) [of "sz - ?n"] al(1) ps(3) by (simp add: dvd_diff_nat word_less_nat_alt)
      then have "realloc_shrink (new_piece new) mr (b, i) (b, i - 8) sz ?n = Some (mr, Some (b, i))" using 2(2) by (simp add: realloc_shrink_def Let_def)
      moreover have "?n \<le> sz" using 2(1) by simp
      then have "resized ?m L ?q ?n ?n (mr, (b, i))"
        using inv q by (auto simp: resized_def keeps_refl same_words_def insert_absorb intro!: exI [of _ sz])
      ultimately show ?thesis using 2(1) mn by (simp add: realloc_post_def)
    next
      case 3
      have "wp (realloc_shrink (new_piece new) mr (b, i) (b, i - 8) sz ?n) (\<lambda>(mr', r). r = Some (b, i) \<and> resized ?m L ?q ?n ?n (mr', (b, i)))"
        by (rule shrink_half [OF inv q 3(3) al(1) 3(2) ent])
      then show ?thesis using 3(1) mn by (auto simp: realloc_post_def elim!: wp_mono)
    next
      case 4
    then have le: "sz \<le> ?n" by simp
    show ?thesis using resized_move [OF resized_refl [OF inv q, simplified] new n60 al(1) le] le
      by (auto simp: realloc_post_def min_def elim!: wp_mono split: option.splits)
    qed
  qed
  show ?thesis
  proof (cases "sz \<le> ck_length c \<and> (bc, unat (ck_length c - sz)) = (b, i)")
    case False
    then have "\<not> (bc = b \<and> unat (ck_length c) = i + unat sz)" by (auto simp: unat_sub word_le_nat_alt)
    from other [OF this] False show ?thesis using c mp ps(4) by (auto simp: lexbor_mraw_realloc_def)
  next
    case True
    then have l: "unat (ck_length c) = i + unat sz" "bc = b" by (auto simp: unat_sub word_le_nat_alt)
    obtain mr1 r valid where t: "lexbor_mraw_realloc_tail new mr (b, i) (b, i - 8) sz (ck_length c - sz) ?n = Some (mr1, r, valid)"
      "if valid then realloc_post new mr L ?q ?n (mr1, r)
       else sz \<le> ?n \<and> resized ?m L ?q sz sz (mr1, (b, i)) \<and> fresh_mraw new mr1"
      using realloc_tail_ok [OF inv q new c(1) c(2) [unfolded l(2)] l(1) n60 al(1)] by (auto simp: wp_iff)
    show ?thesis
    proof (cases valid)
      case valid: True
      then show ?thesis using t True c mp ps(4) by (simp add: lexbor_mraw_realloc_def)
    next
      case valid: False
      then have w: "sz \<le> ?n" "resized ?m L ?q sz sz (mr1, (b, i))" "fresh_mraw new mr1" using t(2) by simp_all
      have "lexbor_mraw_realloc new mr (b, i) n = realloc_move new mr1 (b, i) sz ?n"
        using t(1) True c mp ps(4) w(1) valid by (simp add: lexbor_mraw_realloc_def Let_def leD)
      then show ?thesis using resized_move [OF w(2,3) n60 al(1) w(1)] w(1)
        by (auto simp: realloc_post_def min_def elim!: wp_mono split: option.splits)
    qed
  qed
qed

end
