(* ===== verification/Mem_Session.thy ===== *)
theory Mem_Session
  imports Mem_Realloc_Spec
begin

text \<open>
  A pool in use: the calls of a user that keeps the rules, and what the pool promises to him over any sequence of calls, with or without
  memory, until the block of an empty chunk is refused, which loses the pool.  And a change of size that breaks the promise.
\<close>

section \<open>Calls\<close>

datatype mraw_call = Mr_alloc size_t | Mr_calloc size_t | Mr_free ptr | Mr_realloc ptr size_t | Mr_clean

definition mraw_do :: "mraw_new \<Rightarrow> mraw_call \<Rightarrow> lexbor_mraw \<Rightarrow> (lexbor_mraw \<times> ptr option) option" where
  "mraw_do new call mr = (case call of
     Mr_alloc n \<Rightarrow> lexbor_mraw_alloc new mr n
   | Mr_calloc n \<Rightarrow> lexbor_mraw_calloc new mr n
   | Mr_free p \<Rightarrow> map_option (\<lambda>mr. (mr, None)) (lexbor_mraw_free (new_piece new) mr p)
   | Mr_realloc p n \<Rightarrow> lexbor_mraw_realloc new mr p n
   | Mr_clean \<Rightarrow> map_option (\<lambda>mr. (mr, None)) (lexbor_mraw_clean mr))"

text \<open>The rules: the user names his own pieces, gives a piece only a size that does no harm (\<^const>\<open>resizes_well\<close>), and no size is beyond
  \<open>2 ^ 60\<close>; what the system returns, when it returns something, is not in use.\<close>

definition mraw_may :: "mraw_new \<Rightarrow> mraw_call \<Rightarrow> lexbor_mraw \<Rightarrow> piece set \<Rightarrow> bool" where
  "mraw_may new call mr L \<longleftrightarrow> fresh_mraw new mr \<and> (case call of
     Mr_alloc n \<Rightarrow> unat n \<le> 2 ^ 60
   | Mr_calloc n \<Rightarrow> unat n \<le> 2 ^ 60
   | Mr_free p \<Rightarrow> p \<in> fst ` L
   | Mr_realloc p n \<Rightarrow> unat n \<le> 2 ^ 60 \<and> (\<exists>sz. (p, sz) \<in> L \<and> resizes_well mr (p, sz) (lexbor_mem_align n))
   | Mr_clean \<Rightarrow> True)"

text \<open>The pieces that a call does not concern, and the pieces of the user after it, with the sizes that are in front of them.\<close>

definition others :: "mraw_call \<Rightarrow> piece set \<Rightarrow> piece set" where
  "others call L = (case call of Mr_free p \<Rightarrow> L - {p} \<times> UNIV | Mr_realloc p n \<Rightarrow> L - {p} \<times> UNIV | Mr_clean \<Rightarrow> {} | _ \<Rightarrow> L)"

definition with_size :: "lexbor_mraw \<Rightarrow> ptr \<Rightarrow> piece" where
  "with_size mr p = (p, the (lexbor_mraw_data_size (mr_mem mr) p))"

definition pieces_after :: "mraw_call \<Rightarrow> piece set \<Rightarrow> lexbor_mraw \<times> ptr option \<Rightarrow> piece set" where
  "pieces_after call L = (\<lambda>(mr', r). others call L \<union>
    (case r of
       Some p \<Rightarrow> {with_size mr' p}
     | None \<Rightarrow> (case call of Mr_realloc p n \<Rightarrow> if n = 0 then {} else {with_size mr' p} | _ \<Rightarrow> {})))"

text \<open>The pools that a user reaches, with his pieces, as long as the system has not refused the block of an empty chunk.\<close>

inductive mraw_session :: "lexbor_mraw \<Rightarrow> piece set \<Rightarrow> bool" where
  ms_init: "mm_chunks (mr_mem mr0) = Map.empty \<Longrightarrow> mm_blocks (mr_mem mr0) = Map.empty \<Longrightarrow> unat cs < 2 ^ 60 - 8 \<Longrightarrow>
    lexbor_mraw_init True (Some a, Some b) LXB_STATUS_OK mr0 cs = (mr, LXB_STATUS_OK) \<Longrightarrow> mraw_session mr {}"
| ms_call: "mraw_session mr L \<Longrightarrow> mraw_may new call mr L \<Longrightarrow> mraw_do new call mr = Some (mr', r) \<Longrightarrow> \<not> lost mr' \<Longrightarrow>
    mraw_session mr' (pieces_after call L (mr', r))"
| ms_write: "mraw_session mr L \<Longrightarrow> q \<in> L \<Longrightarrow> writes q (mr_mem mr) m' \<Longrightarrow> mraw_session (mr\<lparr> mr_mem := m' \<rparr>) L"

section \<open>The invariant\<close>

lemma mraw_inv_mono: "mraw_inv mr L \<Longrightarrow> L' \<subseteq> L \<Longrightarrow> mraw_inv mr L'"
  unfolding mraw_inv_def by (elim exE conjE, rename_tac S, rule_tac x = S in exI) (auto intro: mem_inv_mono)

lemma inv_piece_size: "mraw_inv mr L \<Longrightarrow> (p, sz) \<in> L \<Longrightarrow> with_size mr p = (p, sz)"
  by (cases p) (auto simp: mraw_inv_def with_size_def piece_size(4) [of _ _ "(p, sz)"])

lemma inv_one_size:
  assumes "mraw_inv mr L" "(p, sz) \<in> L"
  shows "L - {p} \<times> UNIV = L - {(p, sz)}"
proof -
  have "sz' = sz" if "(p, sz') \<in> L" for sz' using inv_piece_size [OF assms] inv_piece_size [OF assms(1) that] by simp
  then show ?thesis by auto
qed

lemma mraw_init_inv:
  assumes "mm_chunks (mr_mem mr0) = Map.empty" "mm_blocks (mr_mem mr0) = Map.empty" "unat cs < 2 ^ 60 - 8"
    "lexbor_mraw_init True (Some a, Some b) LXB_STATUS_OK mr0 cs = (mr, LXB_STATUS_OK)"
  shows "mraw_inv mr {}"
proof -
  have c0: "cs \<noteq> 0" using assms(4) by (auto simp: lexbor_mraw_init_def)
  have u: "unat (cs + 8) = unat cs + 8" using assms(3) by (subst unat_plus_if_fits) simp_all
  obtain m' st where m: "lexbor_mem_init (Some a, Some b) (mr_mem mr0) (cs + 8) = (m', st)" by fastforce
  then have "mem_inv m' {}" using mem_init_ok [OF assms(1,2), of "cs + 8" "(Some a, Some b)"] u assms(3) by simp
  moreover have "mr_mem mr = m'" "mr_cache mr = lexbor_bst_clean (mr_cache mr0)"
    using assms(4) c0 m by (auto simp: lexbor_mraw_init_def Let_def split: if_splits)
  ultimately show ?thesis using holds_clean by (auto simp: mraw_inv_def cache_ok_def cached_def intro!: exI [of _ "\<lambda>_. []"])
qed

lemma mraw_clean_inv:
  assumes "mraw_inv mr L"
  shows "wp (lexbor_mraw_clean mr) (\<lambda>mr'. mraw_inv mr' {})"
proof -
  obtain R where "mem_inv (mr_mem mr) R" using assms by (auto simp: mraw_inv_def)
  from mem_clean_ok [OF this] show ?thesis using holds_clean
    by (auto simp: lexbor_mraw_clean_def mraw_inv_def cache_ok_def cached_def intro!: exI [of _ "\<lambda>_. []"] elim!: wp_mono)
qed

text \<open>What a call gives.\<close>

definition call_result :: "mraw_call \<Rightarrow> piece set \<Rightarrow> lexbor_mem \<Rightarrow> lexbor_mraw \<Rightarrow> ptr \<Rightarrow> bool" where
  "call_result call L m mr' p = (case call of
     Mr_alloc n \<Rightarrow> n \<le> snd (with_size mr' p)
   | Mr_calloc n \<Rightarrow> n \<le> snd (with_size mr' p) \<and> (\<forall>j. j + 8 \<le> unat (snd (with_size mr' p)) \<longrightarrow> mm_words (mr_mem mr') (fst p, snd p + j) = Some 0)
   | Mr_realloc q n \<Rightarrow> n \<le> snd (with_size mr' p) \<and> (\<forall>sz. (q, sz) \<in> L \<longrightarrow> same_words m q (mr_mem mr') p (unat (min sz (lexbor_mem_align n))))
   | _ \<Rightarrow> True)"

definition call_ok :: "mraw_new \<Rightarrow> mraw_call \<Rightarrow> lexbor_mraw \<Rightarrow> piece set \<Rightarrow> lexbor_mraw \<times> ptr option \<Rightarrow> bool" where
  "call_ok new call mr L = (\<lambda>(mr', r). (mraw_inv mr' (pieces_after call L (mr', r)) \<or> r = None \<and> gone new mr' (others call L)) \<and> kept (others call L) (mr_mem mr) (mr_mem mr') \<and>
    (case r of None \<Rightarrow> True | Some p \<Rightarrow> call_result call L (mr_mem mr) mr' p \<and> with_size mr' p \<notin> others call L))"

lemma align_le: "unat n \<le> 2 ^ 60 \<Longrightarrow> n \<le> lexbor_mem_align n"
  using align_ok(1) [of n] by (simp add: word_le_nat_alt)

lemma alloc_call:
  assumes "mraw_inv mr L" "fresh_mraw new mr" "unat n \<le> 2 ^ 60"
  shows "wp (lexbor_mraw_alloc new mr n) (call_ok new (Mr_alloc n) mr L)"
proof (rule wp_mono [OF mraw_alloc_ok [OF assms]])
  fix x
  assume x: "allocated new mr L (lexbor_mem_align n) x \<and> dom (bst_entries (mr_cache (fst x))) \<subseteq> dom (bst_entries (mr_cache mr)) \<union> set_option (new_tail new)"
  obtain mr' r where xr: "x = (mr', r)" by (cases x)
  show "call_ok new (Mr_alloc n) mr L x"
  proof (cases r)
    case None
    then show ?thesis using x xr by (simp add: allocated_def call_ok_def pieces_after_def others_def)
  next
    case (Some p)
    then obtain sz where sz: "sz \<ge> lexbor_mem_align n" "(p, sz) \<notin> L" "mraw_inv mr' (insert (p, sz) L)" "kept L (mr_mem mr) (mr_mem mr')"
      using x xr by (auto simp: allocated_def)
    have "n \<le> sz" using align_le [OF assms(3)] sz(1) by simp
    then show ?thesis using Some xr sz(2-4) inv_piece_size [OF sz(3), of p sz]
      by (simp add: call_ok_def pieces_after_def others_def call_result_def)
  qed
qed

lemma calloc_call:
  assumes "mraw_inv mr L" "fresh_mraw new mr" "unat n \<le> 2 ^ 60"
  shows "wp (lexbor_mraw_calloc new mr n) (call_ok new (Mr_calloc n) mr L)"
proof -
  obtain mr' r where c: "lexbor_mraw_calloc new mr n = Some (mr', r)" "kept L (mr_mem mr) (mr_mem mr')"
    "case r of None \<Rightarrow> mraw_inv mr' L \<or> gone new mr' L
     | Some (b, i) \<Rightarrow> \<exists>sz \<ge> lexbor_mem_align n. ((b, i), sz) \<notin> L \<and> mraw_inv mr' (insert ((b, i), sz) L) \<and>
         (\<forall>j. j + 8 \<le> unat sz \<longrightarrow> mm_words (mr_mem mr') (b, i + j) = Some 0)"
    using mraw_calloc_ok [OF assms] by (auto simp: wp_iff)
  show ?thesis
  proof (cases r)
    case None
    then show ?thesis using c by (simp add: call_ok_def pieces_after_def others_def)
  next
    case (Some p)
    obtain b i where p: "p = (b, i)" by (cases p)
    obtain sz where sz: "sz \<ge> lexbor_mem_align n" "(p, sz) \<notin> L" "mraw_inv mr' (insert (p, sz) L)"
      "\<forall>j. j + 8 \<le> unat sz \<longrightarrow> mm_words (mr_mem mr') (b, i + j) = Some 0"
      using c(3) Some p by auto
    have "n \<le> sz" using align_le [OF assms(3)] sz(1) by simp
    then show ?thesis using Some p sz(2-4) c(1,2) inv_piece_size [OF sz(3), of p sz]
      by (simp add: call_ok_def pieces_after_def others_def call_result_def)
  qed
qed

lemma free_call:
  assumes "mraw_inv mr L" "fresh_mraw new mr" "(p, sz) \<in> L"
  shows "wp (lexbor_mraw_free (new_piece new) mr p) (\<lambda>mr'. call_ok new (Mr_free p) mr L (mr', None))"
proof -
  have "x \<notin> dom (bst_entries (mr_cache mr))" if "new_piece new = Some x" for x using assms(2) that by (auto simp: fresh_mraw_def)
  then have "wp (lexbor_mraw_free (new_piece new) mr p) (\<lambda>mr'. mraw_inv mr' (L - {(p, sz)}) \<and> mr_mem mr' = mr_mem mr)"
    by (rule mraw_free_ok [OF assms(1,3)])
  then show ?thesis by (rule wp_mono) (simp add: call_ok_def pieces_after_def others_def keeps_refl inv_one_size [OF assms(1,3)])
qed

lemma realloc_call:
  assumes "mraw_inv mr L" "fresh_mraw new mr" "unat n \<le> 2 ^ 60" "(p, sz) \<in> L" "resizes_well mr (p, sz) (lexbor_mem_align n)"
  shows "wp (lexbor_mraw_realloc new mr p n) (call_ok new (Mr_realloc p n) mr L)"
proof -
  obtain b i where p: "p = (b, i)" by (cases p)
  let ?n = "lexbor_mem_align n"
  obtain mr' r where c: "lexbor_mraw_realloc new mr p n = Some (mr', r)" "realloc_post new mr L (p, sz) ?n (mr', r)"
    using mraw_realloc_ok [OF assms(1) assms(4) [unfolded p] assms(2,3) assms(5) [unfolded p]] p by (auto simp: wp_iff)
  have o: "others (Mr_realloc p n) L = L - {(p, sz)}" using inv_one_size [OF assms(1,4)] by (simp add: others_def)
  have n0: "?n = 0 \<Longrightarrow> n = 0" using align_le [OF assms(3)] by simp
  have one: "sz' = sz" if "(p, sz') \<in> L" for sz' using inv_piece_size [OF assms(1) that] inv_piece_size [OF assms(1,4)] by simp
  show ?thesis
  proof (cases r)
    case None
    have "(mraw_inv mr' (pieces_after (Mr_realloc p n) L (mr', None)) \<or> gone new mr' (L - {(p, sz)})) \<and> kept (L - {(p, sz)}) (mr_mem mr) (mr_mem mr')"
    proof (cases "resized (mr_mem mr) L (p, sz) sz sz (mr', p)")
      case True
      then obtain s where s: "mraw_inv mr' (insert (p, s) (L - {(p, sz)}))" "kept (L - {(p, sz)}) (mr_mem mr) (mr_mem mr')" by (auto simp: resized_def)
      have "mraw_inv mr' (L - {(p, sz)})" by (rule mraw_inv_mono [OF s(1)]) (rule subset_insertI)
      then show ?thesis using s inv_piece_size [OF s(1), of p s] o by (simp add: pieces_after_def)
    next
      case False
      then have "?n = 0 \<and> mraw_inv mr' (L - {(p, sz)}) \<or> gone new mr' (L - {(p, sz)})" "kept (L - {(p, sz)}) (mr_mem mr) (mr_mem mr')"
        using c(2) None by (auto simp: realloc_post_def)
      then show ?thesis using n0 o by (auto simp: pieces_after_def)
    qed
    then show ?thesis using c(1) None o by (simp add: call_ok_def)
  next
    case (Some p')
    then obtain s where s: "s \<ge> ?n" "(p', s) \<notin> L - {(p, sz)}" "mraw_inv mr' (insert (p', s) (L - {(p, sz)}))"
      and k: "kept (L - {(p, sz)}) (mr_mem mr) (mr_mem mr')" "same_words (mr_mem mr) p (mr_mem mr') p' (unat (min sz ?n))"
      using c(2) by (auto simp: realloc_post_def resized_def)
    have "n \<le> s" using align_le [OF assms(3)] s(1) by simp
    moreover have "same_words (mr_mem mr) p (mr_mem mr') p' (unat (min sz' ?n))" if "(p, sz') \<in> L" for sz' using k(2) one [OF that] by simp
    ultimately show ?thesis using Some c(1) s(2,3) k(1) o inv_piece_size [OF s(3), of p' s]
      by (simp add: call_ok_def pieces_after_def call_result_def)
  qed
qed

lemma mraw_do_ok:
  assumes "mraw_inv mr L" "mraw_may new call mr L"
  shows "wp (mraw_do new call mr) (call_ok new call mr L)"
proof -
  have f: "fresh_mraw new mr" using assms(2) by (simp_all add: mraw_may_def)
  have wp_map: "wp (map_option g x) P \<longleftrightarrow> wp x (\<lambda>y. P (g y))" for g :: "lexbor_mraw \<Rightarrow> lexbor_mraw \<times> ptr option" and x P by (cases x) simp_all
  show ?thesis
  proof (cases call)
    case (Mr_alloc n)
    then show ?thesis using alloc_call [OF assms(1) f] assms(2) by (simp add: mraw_do_def mraw_may_def)
  next
    case (Mr_calloc n)
    then show ?thesis using calloc_call [OF assms(1) f] assms(2) by (simp add: mraw_do_def mraw_may_def)
  next
    case (Mr_free p)
    then obtain sz where "(p, sz) \<in> L" using assms(2) by (auto simp: mraw_may_def)
    then show ?thesis using free_call [OF assms(1) f(1)] Mr_free by (simp add: mraw_do_def wp_map)
  next
    case (Mr_realloc p n)
    then obtain sz where "unat n \<le> 2 ^ 60" "(p, sz) \<in> L" "resizes_well mr (p, sz) (lexbor_mem_align n)" using assms(2) by (auto simp: mraw_may_def)
    then show ?thesis using realloc_call [OF assms(1) f] Mr_realloc by (simp add: mraw_do_def)
  next
    case Mr_clean
    then show ?thesis using mraw_clean_inv [OF assms(1)]
      by (auto simp: mraw_do_def wp_map call_ok_def pieces_after_def others_def kept_def elim!: wp_mono)
  qed
qed

lemma session_inv: "mraw_session mr L \<Longrightarrow> mraw_inv mr L"
proof (induction rule: mraw_session.induct)
  case (ms_init mr0 cs a b mr)
  then show ?case by (rule mraw_init_inv)
next
  case (ms_call mr L new call mr' r)
  then show ?case using mraw_do_ok [OF ms_call.IH ms_call.hyps(2)] ms_call.hyps(3,4) by (auto simp: call_ok_def gone_def)
next
  case (ms_write mr L q m')
  then show ?case using writes_ok(1) by blast
qed

text \<open>Destroying the pool frees every block and every chunk, each once.\<close>

lemma mraw_destroy_frees:
  assumes "mraw_session mr L"
  shows "wp (lexbor_mraw_destroy mr) (\<lambda>mr'. mm_chunks (mr_mem mr') = Map.empty \<and> mm_blocks (mr_mem mr') = Map.empty \<and>
    bst_entries (mr_cache mr') = Map.empty)"
proof -
  obtain R where "mem_inv (mr_mem mr) R" using session_inv [OF assms] by (auto simp: mraw_inv_def)
  from mem_destroy_ok [OF this] show ?thesis by (auto simp: lexbor_mraw_destroy_def lexbor_bst_clean_def elim!: wp_mono)
qed

text \<open>A copy is the same as the source, in full words.\<close>

lemma mraw_dup_copies:
  assumes "mraw_session mr L" "mraw_may new (Mr_alloc n) mr L"
  shows "wp (lexbor_mraw_dup new mr src n) (\<lambda>(mr', r). kept L (mr_mem mr) (mr_mem mr') \<and>
    (case r of None \<Rightarrow> True | Some (b, i) \<Rightarrow> \<forall>j. j + 8 \<le> unat n \<longrightarrow> mm_words (mr_mem mr') (b, i + j) = src j))"
proof -
  obtain mr1 r where a: "lexbor_mraw_alloc new mr n = Some (mr1, r)" "call_ok new (Mr_alloc n) mr L (mr1, r)"
    using mraw_do_ok [OF session_inv [OF assms(1)] assms(2)] by (auto simp: wp_iff mraw_do_def)
  have k: "kept L (mr_mem mr) (mr_mem mr1)" using a(2) by (simp add: call_ok_def others_def)
  show ?thesis
  proof (cases r)
    case None
    then show ?thesis using a(1) k by (simp add: lexbor_mraw_dup_def)
  next
    case (Some p)
    obtain b i where p: "p = (b, i)" by (cases p)
    obtain sz where sz: "with_size mr1 p = ((b, i), sz)" using p by (simp add: with_size_def)
    have i: "mraw_inv mr1 (insert ((b, i), sz) L)" "n \<le> sz" "((b, i), sz) \<notin> L"
      using a(2) Some sz by (simp_all add: call_ok_def pieces_after_def others_def call_result_def)
    obtain m' where m': "words_fill (mr_mem mr1) (b, i) (unat n) src = Some m'" "writes ((b, i), sz) (mr_mem mr1) m'"
      "\<forall>j. j + 8 \<le> unat n \<longrightarrow> mm_words m' (b, i + j) = src j"
      using fill_ok [OF i(1) insertI1, of "unat n" src] i(2) by (auto simp: word_le_nat_alt)
    have "insert ((b, i), sz) L - {((b, i), sz)} = L" using i(3) by (rule Diff_insert_absorb)
    then have "kept L (mr_mem mr) m'" using keeps_trans [OF k] writes_ok(2) [OF i(1) insertI1 m'(2)] by simp
    then show ?thesis using a(1) Some p m'(1,3) by (simp add: lexbor_mraw_dup_def mr_mem_do_def)
  qed
qed

text \<open>A chunk without a block: as long as a piece fits into it and none comes from the cache, \<open>lexbor_mraw_mem_alloc\<close> computes an address
  from NULL.\<close>

lemma lost_undefined:
  assumes "lost mr" "bst_tree_length (mr_cache mr) = 0" "unat k \<le> 2 ^ 60" "cur_chunk (mr_mem mr) = Some (a, c)"
    "ck_length c + (lexbor_mem_align k + 8) \<le> ck_size c"
  shows "mraw_do new (Mr_alloc k) mr = None"
proof -
  have "unat (lexbor_mem_align k) < 2 ^ 60 + 8" using align_ok [of k] assms(3) by simp
  then have "unat (lexbor_mem_align k + 8) = unat (lexbor_mem_align k) + 8" by (subst unat_plus_if_fits) simp_all
  then have "lexbor_mem_align k + 8 \<noteq> 0" by (auto simp: unat_eq_zero [symmetric] simp del: unat_eq_zero)
  moreover have "ck_data c = None" using assms(1,4) by (auto simp: lost_def)
  moreover note leD [OF assms(5)]
  ultimately show ?thesis using assms(2,4) by (simp add: mraw_do_def lexbor_mraw_alloc_def lexbor_mraw_mem_alloc_def chunk_take_def Let_def)
qed

section \<open>Examples\<close>

text \<open>A pool with one chunk of 128 bytes, its words, and how much of it is in use.\<close>

definition ex_pool :: "ptr lexbor_bst \<Rightarrow> (ptr \<Rightarrow> size_t option) \<Rightarrow> size_t \<Rightarrow> lexbor_mraw" where
  "ex_pool cache w len = \<lparr>
     mr_mem = \<lparr> mm_chunks = [1 \<mapsto> \<lparr> ck_data = Some 2, ck_length = len, ck_size = 128, ck_next = None, ck_prev = None \<rparr>], mm_blocks = [2 \<mapsto> 128],
       mm_words = w, mm_chunk = Some 1, mm_first = Some 1, mm_min_size = 128, mm_chunk_length = 1 \<rparr>,
     mr_cache = cache \<rparr>"

definition ex_cache :: "ptr lexbor_bst" where
  "ex_cache = \<lparr> bst_entries = Map.empty, bst_root = None, bst_tree_length = 0 \<rparr>"

definition ex_new :: mraw_new where
  "ex_new = \<lparr> new_chunk = (Some 3, Some 4), new_tail = Some 5, new_piece = Some 6 \<rparr>"

lemma ex_init: "mraw_session (ex_pool ex_cache (\<lambda>_. None) 0) {}"
proof (rule ms_init)
  let ?mr0 = "\<lparr> mr_mem = \<lparr> mm_chunks = Map.empty, mm_blocks = Map.empty, mm_words = (\<lambda>_. None), mm_chunk = None, mm_first = None,
      mm_min_size = 0, mm_chunk_length = 0 \<rparr>, mr_cache = ex_cache \<rparr>"
  show "mm_chunks (mr_mem ?mr0) = Map.empty" "mm_blocks (mr_mem ?mr0) = Map.empty" "unat (120 :: size_t) < 2 ^ 60 - 8" by simp_all
  show "lexbor_mraw_init True (Some 1, Some 2) LXB_STATUS_OK ?mr0 120 = (ex_pool ex_cache (\<lambda>_. None) 0, LXB_STATUS_OK)"
    by (simp add: lexbor_mraw_init_def lexbor_mem_init_def lexbor_mem_align_def lexbor_mem_chunk_make_def lexbor_mem_chunk_init_def
        block_make_def ck_empty_def ex_pool_def lexbor_bst_clean_def ex_cache_def cong: if_cong)
qed

lemma ex_may: "mraw_may ex_new (Mr_alloc 48) (ex_pool ex_cache w len) L" "mraw_may ex_new (Mr_alloc 24) (ex_pool ex_cache w len) L"
  by (auto simp: mraw_may_def fresh_mraw_def fresh_new_def ex_new_def ex_pool_def ex_cache_def)

lemmas ex_eval = mraw_do_def lexbor_mraw_alloc_def lexbor_mem_align_def lexbor_mraw_mem_alloc_def cur_chunk_def chunk_take_def
  mr_mem_do_def ck_set_def lexbor_mraw_meta_set_def word_at_def lexbor_mraw_data_begin_def ex_pool_def ex_cache_def Let_def

definition ex_words :: "ptr \<Rightarrow> size_t option" where
  "ex_words = (\<lambda>_. None)((2, 0) := Some 48, (2, 56) := Some 24)"

lemma ex_not_lost: "\<not> lost (ex_pool cache w len)"
  by (simp add: lost_def cur_chunk_def ex_pool_def)

lemma ex_alloc:
  "mraw_do ex_new (Mr_alloc 48) (ex_pool ex_cache (\<lambda>_. None) 0) = Some (ex_pool ex_cache ((\<lambda>_. None)((2, 0) := Some 48)) 56, Some (2, 8))"
  "mraw_do ex_new (Mr_alloc 24) (ex_pool ex_cache ((\<lambda>_. None)((2, 0) := Some 48)) 56) = Some (ex_pool ex_cache ex_words 88, Some (2, 64))"
  by (simp_all add: ex_eval ex_words_def)

lemma ex_pool_session: "mraw_session (ex_pool ex_cache ex_words 88) {((2, 8), 48), ((2, 64), 24)}"
proof -
  have "mraw_session (ex_pool ex_cache ((\<lambda>_. None)((2, 0) := Some 48)) 56) {((2, 8), 48)}"
    using ms_call [OF ex_init ex_may(1) ex_alloc(1) ex_not_lost]
    by (simp add: pieces_after_def others_def with_size_def lexbor_mraw_data_size_def meta_ptr_def word_at_def ex_pool_def)
  from ms_call [OF this ex_may(2) ex_alloc(2) ex_not_lost] show ?thesis
    by (simp add: pieces_after_def others_def with_size_def lexbor_mraw_data_size_def meta_ptr_def word_at_def ex_pool_def ex_words_def insert_commute)
qed

text \<open>The pool is lost: it has nothing but an empty chunk, 200 bytes are asked for, and the system has no block.\<close>

definition ex_refused :: mraw_new where
  "ex_refused = \<lparr> new_chunk = (Some 3, None), new_tail = None, new_piece = None \<rparr>"

lemma ex_lost:
  "\<exists>mr'. mraw_do ex_refused (Mr_alloc 200) (ex_pool ex_cache (\<lambda>_. None) 0) = Some (mr', None) \<and> lost mr' \<and> bst_tree_length (mr_cache mr') = 0 \<and>
    (\<exists>a c. cur_chunk (mr_mem mr') = Some (a, c) \<and> ck_length c + (lexbor_mem_align 8 + 8) \<le> ck_size c)"
  by (simp add: mraw_do_def lexbor_mraw_alloc_def lexbor_mem_align_def lexbor_mraw_mem_alloc_def cur_chunk_def ck_set_def ex_pool_def ex_cache_def
      Let_def chunk_replace_def lexbor_mem_chunk_destroy_def lexbor_mem_chunk_init_def block_free_def block_make_def ex_refused_def lost_def)

section \<open>Properties\<close>



text \<open>C25: A call of a user that keeps the rules is never undefined, whether the system returns memory or not; the pieces that the call does
  not concern keep every word, and a piece that it returns is large enough, is not among them, is cleared by \<open>lexbor_mraw_calloc\<close>, and has
  the data of the old one after \<open>lexbor_mraw_realloc\<close>.  The pool can be used as before in all cases but one: when the system refuses the
  larger block for an empty chunk, the call returns nothing and the pieces that it does not concern stay, but the chunk, which
  \<open>lexbor_mraw_mem_alloc\<close> does not test, is left without a block, and the next call that allocates a piece from it is undefined.\<close>

theorem mraw_calls_return:
  assumes "mraw_session mr L" "mraw_may new call mr L"
  shows "\<exists>mr' r. mraw_do new call mr = Some (mr', r) \<and> kept (others call L) (mr_mem mr) (mr_mem mr') \<and>
    (case r of None \<Rightarrow> True | Some p \<Rightarrow> call_result call L (mr_mem mr) mr' p \<and> with_size mr' p \<notin> others call L) \<and>
    (if lost mr'
     then r = None \<and> snd (new_chunk new) = None \<and> live mr' (others call L) \<and>
       (\<forall>new' k a c. bst_tree_length (mr_cache mr') = 0 \<longrightarrow> unat k \<le> 2 ^ 60 \<longrightarrow> cur_chunk (mr_mem mr') = Some (a, c) \<longrightarrow>
         ck_length c + (lexbor_mem_align k + 8) \<le> ck_size c \<longrightarrow> mraw_do new' (Mr_alloc k) mr' = None)
     else mraw_session mr' (pieces_after call L (mr', r)))"
proof -
  obtain mr' r where d: "mraw_do new call mr = Some (mr', r)" "call_ok new call mr L (mr', r)"
    using mraw_do_ok [OF session_inv [OF assms(1)] assms(2)] by (auto simp: wp_iff)
  show ?thesis
  proof (cases "lost mr'")
    case True
    then have "\<not> mraw_inv mr' P" for P using pool_not_lost by (auto simp: pool_inv)
    then show ?thesis using d True lost_undefined [OF True] by (simp add: call_ok_def gone_def)
  next
    case False
    then show ?thesis using d ms_call [OF assms d(1)] by (simp add: call_ok_def)
  qed
qed

text \<open>A piece grows; and a pool is lost.\<close>

theorem mraw_calls_return_witness:
  "(\<exists>mr' r. mraw_do ex_new (Mr_realloc (2, 8) 96) (ex_pool ex_cache ex_words 88) = Some (mr', r) \<and>
      kept {((2, 64), 24)} (mr_mem (ex_pool ex_cache ex_words 88)) (mr_mem mr') \<and> \<not> lost mr') \<and>
    (\<exists>mr'. mraw_do ex_refused (Mr_alloc 200) (ex_pool ex_cache (\<lambda>_. None) 0) = Some (mr', None) \<and> lost mr' \<and> mraw_do ex_new (Mr_alloc 8) mr' = None)"
proof
  have "mraw_may ex_new (Mr_realloc (2, 8) 96) (ex_pool ex_cache ex_words 88) {((2, 8), 48), ((2, 64), 24)}"
    by (auto simp: mraw_may_def fresh_mraw_def fresh_new_def ex_new_def ex_pool_def ex_cache_def lexbor_mem_align_def resizes_well_def)
  moreover have "others (Mr_realloc (2, 8) 96) {((2, 8), 48), ((2, 64), 24)} = {((2, 64), 24)}" by (auto simp: others_def)
  moreover have "snd (new_chunk ex_new) \<noteq> None" by (simp add: ex_new_def)
  ultimately show "\<exists>mr' r. mraw_do ex_new (Mr_realloc (2, 8) 96) (ex_pool ex_cache ex_words 88) = Some (mr', r) \<and>
      kept {((2, 64), 24)} (mr_mem (ex_pool ex_cache ex_words 88)) (mr_mem mr') \<and> \<not> lost mr'"
    using mraw_calls_return [OF ex_pool_session, of ex_new "Mr_realloc (2, 8) 96"] by metis
next
  let ?mr = "ex_pool ex_cache (\<lambda>_. None) 0"
  obtain mr' a c where l: "mraw_do ex_refused (Mr_alloc 200) ?mr = Some (mr', None)" "lost mr'" "bst_tree_length (mr_cache mr') = 0"
    "cur_chunk (mr_mem mr') = Some (a, c)" "ck_length c + (lexbor_mem_align 8 + 8) \<le> ck_size c" using ex_lost by blast
  have "mraw_may ex_refused (Mr_alloc 200) ?mr {}"
    by (simp add: mraw_may_def fresh_mraw_def fresh_new_def ex_refused_def ex_pool_def)
  from mraw_calls_return [OF ex_init this] l(1,2) have "\<forall>new' k a c. bst_tree_length (mr_cache mr') = 0 \<longrightarrow> unat k \<le> 2 ^ 60 \<longrightarrow>
      cur_chunk (mr_mem mr') = Some (a, c) \<longrightarrow> ck_length c + (lexbor_mem_align k + 8) \<le> ck_size c \<longrightarrow> mraw_do new' (Mr_alloc k) mr' = None" by simp
  then have "mraw_do ex_new (Mr_alloc 8) mr' = None" using l(3-5) by simp
  then show "\<exists>mr'. mraw_do ex_refused (Mr_alloc 200) ?mr = Some (mr', None) \<and> lost mr' \<and> mraw_do ex_new (Mr_alloc 8) mr' = None" using l(1,2) by blast
qed

text \<open>C29: Making a piece smaller, when it is not the last of the chunk, puts into the cache a piece that begins the number of freed bytes
  behind the data instead of the number of kept bytes: it lies within what was freed only when exactly half is kept.  Otherwise it
  overlaps the data that is kept, or what follows.\<close>

theorem mraw_shrink_misplaced:
  assumes "mraw_session mr L" "((b, i), sz) \<in> L" "\<And>a c. cur_chunk (mr_mem mr) = Some (a, c) \<Longrightarrow> ck_data c = Some b \<Longrightarrow> unat (ck_length c) \<noteq> i + unat sz"
    and n: "0 < n" "8 dvd unat n" "unat n + 8 < unat sz" and e: "new_piece new = Some e" "e \<notin> dom (bst_entries (mr_cache mr))"
  shows "\<exists>mr' S x. lexbor_mraw_realloc new mr (b, i) n = Some (mr', Some (b, i)) \<and> bst_holds (mr_cache mr') S \<and>
    x = ((b, i + unat (sz - n) + 8), sz - n - 8) \<and> x \<in> cached S \<and>
    (fst (snd (region_of x)) \<ge> i + unat n \<and> snd (snd (region_of x)) \<le> i + unat sz \<longleftrightarrow> unat sz = 2 * unat n)"
proof -
  let ?m = "mr_mem mr" let ?q = "((b, i), sz)" let ?d = "sz - n" let ?x = "((b, i + unat ?d + 8), ?d - 8)"
  obtain S where pl: "pool mr L S {}" using session_inv [OF assms(1)] by (auto simp: pool_inv)
  have pk: "mem_inv ?m (region_of ` (L \<union> cached S))" "\<forall>q \<in> L \<union> cached S. piece_ok ?m q" "cache_ok (mr_cache mr) S" using pl by (simp_all add: pool_def)
  have ck: "chunks_ok ?m" using pk(1) by (simp add: mem_inv_def)
  have qu: "?q \<in> L \<union> cached S" using assms(2) by blast
  note ps = piece_size [OF pk(1) pk(2) [rule_format, OF qu] qu refl]
  obtain a c bc where c: "cur_chunk ?m = Some (a, c)" "ck_data c = Some bc" using cur_chunk_ok [OF ck] by blast
  have lt: "n < sz" using n(3) by (simp add: word_less_nat_alt)
  have d: "unat ?d = unat sz - unat n" using lt by (simp add: unat_sub)
  have d8: "unat (?d - 8) = unat ?d - 8" "8 < ?d" using d n(3) by (simp_all add: unat_sub word_le_nat_alt word_less_nat_alt)
  have fl: "lexbor_mem_align_floor ?d = ?d" by (rule align_idem(2)) (use d n(2) ps(3) in \<open>simp add: dvd_diff_nat\<close>)
  have al: "lexbor_mem_align n = n" by (rule align_idem(1) [OF n(2)])
  have nt: "\<not> (sz \<le> ck_length c \<and> (bc, unat (ck_length c - sz)) = (b, i))"
    using assms(3) [OF c(1)] c(2) by (auto simp: unat_sub word_le_nat_alt)
  have w: "word_at ?m (b, i - 8)" by (rule ps(6))
  have n8: "8 \<le> unat n" using n(1,2) by (simp add: dvd_imp_le unat_gt_0 word_neq_0_conv)
  have w2: "word_at ?m (b, i + unat ?d)"
    using ps(2,3,7) n(2,3) n8 d by (auto simp: word_at_def in_block_def mod_eq_0_iff_dvd dvd_diff_nat split: option.splits)
  let ?m2 = "?m\<lparr> mm_words := (mm_words ?m)((b, i - 8) := Some n, (b, i + unat ?d) := Some (?d - 8)) \<rparr>"
  have rx: "region_of ?x = (b, i + unat ?d, i + unat ?d + unat ?d)" using d8(1) d n(3) by (simp add: region_of_def)
  have "?x \<notin> cached S"
  proof
    assume x: "?x \<in> cached S"
    have "?x \<noteq> ?q" by simp
    then have "apart (region_of ?q) (region_of ?x)" by (rule pieces_apart [OF pk(1,2) qu UnI2 [OF x] not_sym])
    then have "i + unat sz \<le> i + unat ?d \<or> i + unat ?d + unat ?d \<le> i - 8" unfolding rx by (simp add: region_of_def apart_def)
    then show False using d n8 n(3) by linarith
  qed
  then have "wp (cache_insert (Some e) (mr\<lparr> mr_mem := ?m2 \<rparr>) (?d - 8) (b, i + unat ?d + 8)) (\<lambda>mr'.
      \<exists>S'. cache_ok (mr_cache mr') S' \<and> cached S' = insert ?x (cached S))"
    using cache_insert_ok [of "mr\<lparr> mr_mem := ?m2 \<rparr>" S "Some e" "(b, i + unat ?d + 8)" "?d - 8"] pk(3) e(2) by (auto elim!: wp_mono)
  then obtain mr' S' where r: "cache_insert (Some e) (mr\<lparr> mr_mem := ?m2 \<rparr>) (?d - 8) (b, i + unat ?d + 8) = Some mr'"
    "cache_ok (mr_cache mr') S'" "cached S' = insert ?x (cached S)" by (auto simp: wp_iff)
  have "realloc_shrink (new_piece new) mr (b, i) (b, i - 8) sz n = Some (mr', Some (b, i))"
    using n(1) d8(2) fl w w2 r(1) e(1) by (auto simp: realloc_shrink_def mr_mem_do_def lexbor_mraw_meta_set_def lexbor_mraw_data_begin_def word_at_def Let_def)
  then have "lexbor_mraw_realloc new mr (b, i) n = Some (mr', Some (b, i))"
    using nt c lt al ps(1,4) by (auto simp: lexbor_mraw_realloc_def meta_ptr_def Let_def)
  moreover have "(fst (snd (region_of ?x)) \<ge> i + unat n \<and> snd (snd (region_of ?x)) \<le> i + unat sz) = (unat sz = 2 * unat n)"
    unfolding rx using d n(3) by auto
  ultimately show ?thesis using r(2,3) by (auto simp: cache_ok_def)
qed

text \<open>The pool of the example: of 48 bytes 16 are kept, and the piece in the cache overlaps the other one.\<close>

theorem mraw_shrink_misplaced_witness:
  "\<exists>mr' S. lexbor_mraw_realloc ex_new (ex_pool ex_cache ex_words 88) (2, 8) 16 = Some (mr', Some (2, 8)) \<and> bst_holds (mr_cache mr') S \<and>
    ((2, 48), 24) \<in> cached S \<and> \<not> apart (region_of ((2, 48), 24)) (region_of ((2, 64), 24))"
proof -
  have c: "cur_chunk (mr_mem (ex_pool ex_cache ex_words 88)) = Some (1, \<lparr> ck_data = Some 2, ck_length = 88, ck_size = 128, ck_next = None, ck_prev = None \<rparr>)"
    by (simp add: cur_chunk_def ex_pool_def)
  have "6 \<notin> dom (bst_entries (mr_cache (ex_pool ex_cache ex_words 88)))" by (simp add: ex_pool_def ex_cache_def)
  from mraw_shrink_misplaced [OF ex_pool_session, of 2 8 48 16 ex_new 6] this c show ?thesis
    by (auto simp: ex_new_def region_of_def apart_def)
qed

end
