(* ===== verification/Mem_Object.thy ===== *)
theory Mem_Object
  imports Mem_Pool Lxb_Array
begin

text \<open>
  The pool of objects of one size (\<open>core/dobject.c\<close>): a memory pool of \<open>core/mem.c\<close> and an array of \<open>core/array.c\<close> with the
  objects that were released.  The cells of the array hold machine addresses; block \<open>b\<close> is taken to begin at \<open>b * 2 ^ 62\<close>, no block
  is as large as that.

  \<open>Mem_Object_Spec\<close> shows what the operations do.
\<close>

section \<open>The object\<close>

record lexbor_dobject =
  do_mem :: lexbor_mem
  do_cache :: lexbor_array
  do_allocated :: size_t
  do_struct_size :: size_t

definition cell_of :: "ptr \<Rightarrow> addr" where
  "cell_of p = fst p * 2 ^ 62 + snd p"

definition ptr_of :: "addr \<Rightarrow> ptr" where
  "ptr_of v = (v div 2 ^ 62, v mod 2 ^ 62)"

text \<open>\<open>mem\<close> and \<open>ar\<close> tell whether \<open>lexbor_mem_create\<close> and \<open>lexbor_array_create\<close> had memory.\<close>

definition lexbor_dobject_init ::
  "bool \<Rightarrow> mem_new \<Rightarrow> bool \<Rightarrow> (size_t \<Rightarrow> bool) \<Rightarrow> lexbor_dobject \<Rightarrow> size_t \<Rightarrow> size_t \<Rightarrow> lexbor_dobject \<times> lxb_status" where
  "lexbor_dobject_init mem new ar alloc d chunk_size struct_size =
    (if chunk_size = 0 \<or> struct_size = 0 then (d, LXB_STATUS_ERROR_WRONG_ARGS)
     else
       (let d = d\<lparr> do_allocated := 0, do_struct_size := struct_size \<rparr> in
        if \<not> mem then (d, LXB_STATUS_ERROR_OBJECT_IS_NULL)
        else
          (let (m, st) = lexbor_mem_init new (do_mem d) (lexbor_mem_align (chunk_size * do_struct_size d));
               d = d\<lparr> do_mem := m \<rparr>
           in if st \<noteq> LXB_STATUS_OK then (d, st)
              else
                (let (c, st) = lexbor_array_init alloc (if ar then Some (do_cache d) else None) chunk_size in
                 (case c of None \<Rightarrow> d | Some c \<Rightarrow> d\<lparr> do_cache := c \<rparr>, st)))))"

definition lexbor_dobject_clean :: "lexbor_dobject \<Rightarrow> lexbor_dobject option" where
  "lexbor_dobject_clean d = do {
     m \<leftarrow> lexbor_mem_clean (do_mem d);
     Some (d\<lparr> do_mem := m, do_cache := lexbor_array_clean (do_cache d), do_allocated := 0 \<rparr>)
   }"

text \<open>Both parts are freed with the pool.\<close>

definition lexbor_dobject_destroy :: "lexbor_dobject \<Rightarrow> (lexbor_mem \<times> lexbor_array option) option" where
  "lexbor_dobject_destroy d = do {
     m \<leftarrow> lexbor_mem_destroy (do_mem d);
     Some (m, lexbor_array_destroy (Some (do_cache d)) True)
   }"

section \<open>Objects\<close>

definition lexbor_dobject_alloc :: "mem_new \<Rightarrow> lexbor_dobject \<Rightarrow> (lexbor_dobject \<times> ptr option) option" where
  "lexbor_dobject_alloc new d =
    (if ar_length (do_cache d) \<noteq> 0 then do {
       (c, v) \<leftarrow> lexbor_array_pop (do_cache d);
       Some (d\<lparr> do_cache := c, do_allocated := do_allocated d + 1 \<rparr>, Some (ptr_of v))
     }
     else do {
       (m, r) \<leftarrow> lexbor_mem_alloc new (do_mem d) (do_struct_size d);
       (case r of
          None \<Rightarrow> Some (d\<lparr> do_mem := m \<rparr>, None)
        | Some p \<Rightarrow> Some (d\<lparr> do_mem := m, do_allocated := do_allocated d + 1 \<rparr>, Some p))
     })"

definition lexbor_dobject_calloc :: "mem_new \<Rightarrow> lexbor_dobject \<Rightarrow> (lexbor_dobject \<times> ptr option) option" where
  "lexbor_dobject_calloc new d = do {
     (d, r) \<leftarrow> lexbor_dobject_alloc new d;
     (case r of
        None \<Rightarrow> Some (d, None)
      | Some p \<Rightarrow> do {
          m \<leftarrow> words_zero (do_mem d) p (unat (do_struct_size d));
          Some (d\<lparr> do_mem := m \<rparr>, Some p)
        })
   }"

text \<open>The pointer is returned when there is no room for it.\<close>

definition lexbor_dobject_free :: "(size_t \<Rightarrow> bool) \<Rightarrow> lexbor_dobject \<Rightarrow> ptr option \<Rightarrow> (lexbor_dobject \<times> ptr option) option" where
  "lexbor_dobject_free alloc d data =
    (case data of
       None \<Rightarrow> Some (d, None)
     | Some p \<Rightarrow> do {
         (c, st) \<leftarrow> lexbor_array_push alloc (do_cache d) (cell_of p);
         let d = d\<lparr> do_cache := c \<rparr>;
         (if st = LXB_STATUS_OK then Some (d\<lparr> do_allocated := do_allocated d - 1 \<rparr>, None) else Some (d, Some p))
       })"

text \<open>\<open>for (i = 0; i < chunk_idx; i++) { chunk = chunk->next; }\<close>\<close>

primrec chunk_skip :: "lexbor_mem \<Rightarrow> nat \<Rightarrow> addr option \<Rightarrow> addr option option" where
  "chunk_skip m 0 a = Some a"
| "chunk_skip m (Suc n) a = do { x \<leftarrow> a; c \<leftarrow> mm_chunks m x; chunk_skip m n (ck_next c) }"

definition lexbor_dobject_by_absolute_position :: "lexbor_dobject \<Rightarrow> size_t \<Rightarrow> ptr option option" where
  "lexbor_dobject_by_absolute_position d pos =
    (if pos \<ge> do_allocated d then Some None
     else do {
       let chunk_pos = pos * do_struct_size d;
       chunk \<leftarrow> chunk_skip (do_mem d) (unat (chunk_pos div mm_min_size (do_mem d))) (mm_first (do_mem d));
       a \<leftarrow> chunk;
       c \<leftarrow> mm_chunks (do_mem d) a;
       b \<leftarrow> ck_data c;
       Some (Some (b, unat (chunk_pos mod ck_size c)))
     })"

definition lexbor_dobject_allocated :: "lexbor_dobject \<Rightarrow> size_t" where
  "lexbor_dobject_allocated d = do_allocated d"

definition lexbor_dobject_cache_length :: "lexbor_dobject \<Rightarrow> size_t" where
  "lexbor_dobject_cache_length d = ar_length (do_cache d)"

end
