(* ===== verification/Mem_Object_Spec.thy ===== *)
theory Mem_Object_Spec
  imports Mem_Object Mem_Pool_Spec
begin

text \<open>
  The objects of a pool do not overlap, whatever the user writes, and the pool counts them, over any sequence of operations.  Finding an object by its position
  goes wrong when the size of the objects is not a multiple of 8.
\<close>

section \<open>The objects and the cache\<close>

definition obj_region :: "lexbor_dobject \<Rightarrow> ptr \<Rightarrow> region" where
  "obj_region d p = (fst p, snd p, snd p + unat (lexbor_mem_align (do_struct_size d)))"

definition dobject_inv :: "lexbor_dobject \<Rightarrow> ptr set \<Rightarrow> bool" where
  "dobject_inv d L \<longleftrightarrow> (\<exists>C. arr_inv (do_cache d) \<and> arr_abs (do_cache d) = map cell_of C \<and> distinct C \<and> L \<inter> set C = {} \<and>
    mem_inv (do_mem d) (obj_region d ` (L \<union> set C)) \<and> (\<forall>p \<in> L \<union> set C. snd p < 2 ^ 62) \<and> finite L \<and>
    do_allocated d = of_nat (card L) \<and> 0 < unat (do_struct_size d) \<and> unat (do_struct_size d) \<le> 2 ^ 60)"

lemma ptr_cell: "snd p < 2 ^ 62 \<Longrightarrow> ptr_of (cell_of p) = p"
  by (cases p) (simp add: ptr_of_def cell_of_def)

lemma obj_region_inj: "obj_region d p = obj_region d q \<Longrightarrow> p = q"
  by (cases p; cases q) (simp add: obj_region_def)

lemma obj_apart: "mem_inv m (obj_region d ` P) \<Longrightarrow> p \<in> P \<Longrightarrow> q \<in> P \<Longrightarrow> p \<noteq> q \<Longrightarrow> apart (obj_region d p) (obj_region d q)"
  using obj_region_inj unfolding mem_inv_def by blast

text \<open>What the objects hold is kept.\<close>

definition obj_keeps :: "lexbor_dobject \<Rightarrow> ptr set \<Rightarrow> lexbor_mem \<Rightarrow> bool" where
  "obj_keeps d L m' \<longleftrightarrow> (\<forall>p \<in> L. \<forall>j < unat (do_struct_size d). mm_words m' (fst p, snd p + j) = mm_words (do_mem d) (fst p, snd p + j))"

lemma obj_alloc_ok:
  assumes inv: "dobject_inv d L" and new: "fresh_new new (do_mem d)"
  shows "wp (lexbor_dobject_alloc new d) (\<lambda>(d', r). obj_keeps d L (do_mem d') \<and> do_struct_size d' = do_struct_size d \<and>
    (case r of None \<Rightarrow> dobject_inv d' L | Some p \<Rightarrow> p \<notin> L \<and> dobject_inv d' (insert p L)))"
proof -
  obtain C where C: "arr_inv (do_cache d)" "arr_abs (do_cache d) = map cell_of C" "distinct C" "L \<inter> set C = {}"
    "mem_inv (do_mem d) (obj_region d ` (L \<union> set C))" "\<forall>p \<in> L \<union> set C. snd p < 2 ^ 62" "finite L" "do_allocated d = of_nat (card L)"
    "0 < unat (do_struct_size d)" "unat (do_struct_size d) \<le> 2 ^ 60"
    using inv by (auto simp: dobject_inv_def)
  have len: "ar_length (do_cache d) = 0 \<longleftrightarrow> C = []" using arr_invE [OF C(1)] C(2) by (metis length_0_conv length_map unat_eq_zero)
  show ?thesis
  proof (cases "C = []")
    case False
    have l: "last C \<in> set C" and C': "C = butlast C @ [last C]" using False by simp_all
    let ?p = "last C"
    obtain c where c: "lexbor_array_pop (do_cache d) = Some (c, cell_of ?p)" "arr_inv c" "arr_abs c = map cell_of (butlast C)"
      using pop_ok [OF C(1)] C(2) False by (auto simp: last_map map_butlast)
    let ?d = "d\<lparr> do_cache := c, do_allocated := do_allocated d + 1 \<rparr>"
    have n: "?p \<notin> L" using C(4) l by (metis disjoint_iff)
    have dc: "distinct (butlast C)" "?p \<notin> set (butlast C)" using C(3) C' by (metis distinct_butlast, metis distinct.simps(2) distinct1_rotate rotate1.simps(2) not_distinct_conv_prefix)
    have u: "insert ?p L \<union> set (butlast C) = L \<union> set C" using C' by (metis Un_insert_left Un_insert_right list.simps(15) rotate1.simps(2) set_rotate1)
    have "set (butlast C) \<subseteq> set C" by (auto dest: in_set_butlastD)
    then have i: "insert ?p L \<inter> set (butlast C) = {}" using C(4) dc(2) by blast
    have "obj_region ?d = obj_region d" by (simp add: obj_region_def fun_eq_iff)
    then have "dobject_inv ?d (insert ?p L)"
      unfolding dobject_inv_def
      by (intro exI [of _ "butlast C"]) (use c(2,3) dc(1) u i C(5-10) n in simp)
    moreover have "ptr_of (cell_of ?p) = ?p" using C(6) l by (simp add: ptr_cell)
    ultimately show ?thesis using False len c(1) n by (simp add: lexbor_dobject_alloc_def obj_keeps_def)
  next
    case True
    obtain m' r where m': "lexbor_mem_alloc new (do_mem d) (do_struct_size d) = Some (m', r)" "same_blocks (do_mem d) m'"
      "case r of None \<Rightarrow> mem_inv m' (obj_region d ` L)
       | Some (b, i) \<Rightarrow> let r = (b, i, i + unat (lexbor_mem_align (do_struct_size d))) in mem_inv m' (insert r (obj_region d ` L)) \<and>
           (\<forall>r' \<in> obj_region d ` L. apart r r')"
      using mem_alloc_ok [OF C(5) new C(10)] unfolding True list.set Un_empty_right by (auto simp: wp_iff)
    have k: "obj_keeps d L m'"
      unfolding obj_keeps_def
    proof (intro ballI allI impI)
      fix p j
      assume "p \<in> L" "j < unat (do_struct_size d)"
      then have "p \<in> L \<union> set C" by blast
      then have "in_chunk (do_mem d) (obj_region d p)" using C(5) unfolding mem_inv_def by blast
      then obtain a c where "mm_chunks (do_mem d) a = Some c" "ck_data c = Some (fst p)" by (auto simp: in_chunk_def obj_region_def)
      then have "fst p \<in> dom (mm_blocks (do_mem d))" using C(5) chunks_okD(1) [of "do_mem d" a c] by (auto simp: mem_inv_def chunk_ok_def)
      then show "mm_words m' (fst p, snd p + j) = mm_words (do_mem d) (fst p, snd p + j)" using m'(2) by (simp add: same_blocks_def)
    qed
    show ?thesis
    proof (cases r)
      case None
      let ?d = "d\<lparr> do_mem := m' \<rparr>"
      have "obj_region ?d = obj_region d" by (simp add: obj_region_def fun_eq_iff)
      then have "dobject_inv ?d L"
        unfolding dobject_inv_def by (intro exI [of _ "[]"]) (use C True m'(3) None in simp)
      then show ?thesis using m'(1) None True len k by (simp add: lexbor_dobject_alloc_def)
    next
      case (Some p)
      let ?d = "d\<lparr> do_mem := m', do_allocated := do_allocated d + 1 \<rparr>"
      have inv2: "mem_inv m' (insert (obj_region d p) (obj_region d ` L))" "\<forall>r' \<in> obj_region d ` L. apart (obj_region d p) r'"
        using m'(3) Some by (auto simp: obj_region_def Let_def split: prod.splits)
      have s: "snd p < snd p + unat (lexbor_mem_align (do_struct_size d))" "snd p < 2 ^ 62"
      proof -
        have "in_chunk m' (obj_region d p)" "chunks_ok m'" using inv2(1) by (simp_all add: mem_inv_def)
        then obtain a c where ac: "mm_chunks m' a = Some c" "snd p + unat (lexbor_mem_align (do_struct_size d)) \<le> unat (ck_length c)"
          "snd p < snd p + unat (lexbor_mem_align (do_struct_size d))" "chunk_ok m' c"
          using chunks_okD(1) by (auto simp: in_chunk_def obj_region_def)
        then show "snd p < snd p + unat (lexbor_mem_align (do_struct_size d))" "snd p < 2 ^ 62" by (auto simp: chunk_ok_def word_le_nat_alt)
      qed
      have n: "p \<notin> L"
      proof
        assume "p \<in> L"
        then have "apart (obj_region d p) (obj_region d p)" using inv2(2) by blast
        then show False using s(1) by (simp add: apart_def obj_region_def)
      qed
      have "obj_region ?d = obj_region d" by (simp add: obj_region_def fun_eq_iff)
      then have "dobject_inv ?d (insert p L)"
        unfolding dobject_inv_def by (intro exI [of _ "[]"]) (use C True inv2(1) s(2) n in simp)
      then show ?thesis using m'(1) Some True len k n by (simp add: lexbor_dobject_alloc_def)
    qed
  qed
qed

lemma obj_block:
  assumes "dobject_inv d L" "p \<in> L"
  shows "in_block (do_mem d) p (unat (do_struct_size d))" "snd p mod 8 = 0"
proof -
  have "in_chunk (do_mem d) (obj_region d p)" "chunks_ok (do_mem d)" "unat (do_struct_size d) \<le> 2 ^ 60"
    using assms unfolding dobject_inv_def mem_inv_def by blast+
  then obtain a c where ac: "mm_chunks (do_mem d) a = Some c" "ck_data c = Some (fst p)" "8 dvd snd p"
      "snd p + unat (lexbor_mem_align (do_struct_size d)) \<le> unat (ck_length c)" "chunk_ok (do_mem d) c" "unat (do_struct_size d) \<le> 2 ^ 60"
    using chunks_okD(1) by (auto simp: in_chunk_def obj_region_def)
  have "unat (do_struct_size d) \<le> unat (lexbor_mem_align (do_struct_size d))" using align_ok(1) [of "do_struct_size d"] ac(6) by simp
  then show "in_block (do_mem d) p (unat (do_struct_size d))" using ac(2,4,5) by (auto simp: in_block_def chunk_ok_def word_le_nat_alt)
  show "snd p mod 8 = 0" using ac(3) by (simp add: mod_eq_0_iff_dvd)
qed

lemma inv_words: "dobject_inv (d\<lparr> do_mem := do_mem d\<lparr> mm_words := w \<rparr> \<rparr>) L = dobject_inv d L"
proof -
  have "obj_region (d\<lparr> do_mem := do_mem d\<lparr> mm_words := w \<rparr> \<rparr>) = obj_region d" by (simp add: obj_region_def fun_eq_iff)
  then show ?thesis by (simp add: dobject_inv_def)
qed

lemma inv_apart: "dobject_inv d L \<Longrightarrow> p \<in> L \<Longrightarrow> q \<in> L \<Longrightarrow> p \<noteq> q \<Longrightarrow> apart (obj_region d p) (obj_region d q)"
  unfolding dobject_inv_def using obj_apart by blast

lemma obj_size: "dobject_inv d L \<Longrightarrow> unat (do_struct_size d) \<le> unat (lexbor_mem_align (do_struct_size d))"
  using align_ok(1) [of "do_struct_size d"] by (auto simp: dobject_inv_def)

text \<open>Words that change within one object do not matter for the others.\<close>

lemma keeps_but_one:
  assumes inv: "dobject_inv d (insert p L)" and p: "p \<notin> L" and w: "m' = do_mem d\<lparr> mm_words := w \<rparr>"
    "\<And>b j. w (b, j) \<noteq> mm_words (do_mem d) (b, j) \<Longrightarrow> b = fst p \<and> snd p \<le> j \<and> j < snd p + unat (do_struct_size d)"
  shows "obj_keeps d L m'"
  unfolding obj_keeps_def
proof (intro ballI allI impI)
  fix q j
  assume q: "q \<in> L" "j < unat (do_struct_size d)"
  have "p \<noteq> q" using q(1) p by metis
  then have "apart (obj_region d p) (obj_region d q)" using inv_apart [OF inv insertI1 insertI2 [OF q(1)]] by simp
  then have "\<not> (fst q = fst p \<and> snd p \<le> snd q + j \<and> snd q + j < snd p + unat (do_struct_size d))"
    using obj_size [OF inv] q(2) by (auto simp: obj_region_def apart_def)
  then have "w (fst q, snd q + j) = mm_words (do_mem d) (fst q, snd q + j)" using w(2) by blast
  then show "mm_words m' (fst q, snd q + j) = mm_words (do_mem d) (fst q, snd q + j)" using w(1) by simp
qed

lemma obj_keeps_trans: "obj_keeps d L (do_mem d') \<Longrightarrow> obj_keeps d' L m \<Longrightarrow> do_struct_size d' = do_struct_size d \<Longrightarrow> obj_keeps d L m"
  by (simp add: obj_keeps_def)

lemma obj_calloc_ok:
  assumes inv: "dobject_inv d L" and new: "fresh_new new (do_mem d)"
  shows "wp (lexbor_dobject_calloc new d) (\<lambda>(d', r). obj_keeps d L (do_mem d') \<and> do_struct_size d' = do_struct_size d \<and>
    (case r of None \<Rightarrow> dobject_inv d' L
     | Some p \<Rightarrow> p \<notin> L \<and> dobject_inv d' (insert p L) \<and>
         (\<forall>j. j + 8 \<le> unat (do_struct_size d) \<longrightarrow> mm_words (do_mem d') (fst p, snd p + j) = Some 0)))"
proof -
  obtain d1 r where a: "lexbor_dobject_alloc new d = Some (d1, r)" "obj_keeps d L (do_mem d1)" "do_struct_size d1 = do_struct_size d"
    "case r of None \<Rightarrow> dobject_inv d1 L | Some p \<Rightarrow> p \<notin> L \<and> dobject_inv d1 (insert p L)"
    using obj_alloc_ok [OF inv new] by (auto simp: wp_iff)
  show ?thesis
  proof (cases r)
    case None
    then show ?thesis using a by (simp add: lexbor_dobject_calloc_def)
  next
    case (Some p)
    let ?n = "unat (do_struct_size d)" let ?m = "do_mem d1"
    have i: "p \<notin> L" "dobject_inv d1 (insert p L)" using a(4) Some by simp_all
    let ?w = "\<lambda>q. if fst q = fst p \<and> snd p \<le> snd q \<and> snd q < snd p + ?n then (if snd q + 8 \<le> snd p + ?n then Some 0 else None) else mm_words ?m q"
    have z: "words_zero ?m p ?n = Some (?m\<lparr> mm_words := ?w \<rparr>)"
      using obj_block [OF i(2) insertI1] a(3) by (simp add: words_zero_def words_fill_def)
    have "b = fst p \<and> snd p \<le> j \<and> j < snd p + unat (do_struct_size d1)" if "?w (b, j) \<noteq> mm_words ?m (b, j)" for b j
      using that a(3) by (metis fst_conv snd_conv)
    then have k: "obj_keeps d1 L (?m\<lparr> mm_words := ?w \<rparr>)" by (rule keeps_but_one [OF i(2,1) refl])
    have "\<forall>j. j + 8 \<le> ?n \<longrightarrow> ?w (fst p, snd p + j) = Some 0" by simp
    then show ?thesis using a(1,3) Some z i obj_keeps_trans [OF a(2) k a(3)] inv_words [where d = d1 and w = ?w and L = "insert p L"]
      by (simp add: lexbor_dobject_calloc_def)
  qed
qed

lemma obj_free_ok:
  assumes inv: "dobject_inv d L" and p: "p \<in> L" and len: "unat (ar_length (do_cache d)) + 128 \<le> 2 ^ 60"
  shows "wp (lexbor_dobject_free alloc d (Some p)) (\<lambda>(d', r). do_mem d' = do_mem d \<and> do_struct_size d' = do_struct_size d \<and>
    (case r of None \<Rightarrow> dobject_inv d' (L - {p}) | Some q \<Rightarrow> q = p \<and> dobject_inv d' L))"
proof -
  obtain C where C: "arr_inv (do_cache d)" "arr_abs (do_cache d) = map cell_of C" "distinct C" "L \<inter> set C = {}"
    "mem_inv (do_mem d) (obj_region d ` (L \<union> set C))" "\<forall>p \<in> L \<union> set C. snd p < 2 ^ 62" "finite L" "do_allocated d = of_nat (card L)"
    "0 < unat (do_struct_size d)" "unat (do_struct_size d) \<le> 2 ^ 60"
    using inv by (auto simp: dobject_inv_def)
  have "length (arr_abs (do_cache d)) + 128 \<le> 2 ^ 60" using arr_invE [OF C(1)] len by metis
  then obtain c st where c: "lexbor_array_push alloc (do_cache d) (cell_of p) = Some (c, st)" "arr_inv c"
    "st = LXB_STATUS_OK \<and> arr_abs c = map cell_of C @ [cell_of p] \<or> st = LXB_STATUS_ERROR_MEMORY_ALLOCATION \<and> arr_abs c = map cell_of C"
    using push_ok [OF C(1), of alloc "cell_of p"] C(2) by (auto simp: wp_iff arr_result_def)
  show ?thesis
  proof (cases "st = LXB_STATUS_OK")
    case True
    let ?d = "d\<lparr> do_cache := c, do_allocated := do_allocated d - 1 \<rparr>"
    have n: "p \<notin> set C" using C(4) p by (metis disjoint_iff)
    have ab: "arr_abs c = map cell_of (C @ [p])" using c(3) True by simp
    have u: "(L - {p}) \<union> set (C @ [p]) = L \<union> set C" using p by auto
    have i: "(L - {p}) \<inter> set (C @ [p]) = {}" using C(4) by auto
    have "card L = Suc (card (L - {p}))" by (rule card.remove [OF C(7) p])
    then have al: "do_allocated d - 1 = of_nat (card (L - {p}))" using C(8) by simp
    have di: "distinct (C @ [p])" using C(3) n by simp
    have fi: "finite (L - {p})" using C(7) by simp
    have "obj_region ?d = obj_region d" by (simp add: obj_region_def fun_eq_iff)
    then have "dobject_inv ?d (L - {p})"
      unfolding dobject_inv_def
      by (intro exI [of _ "C @ [p]"], simp only: u i al) (use c(2) ab C(5,6,9,10) di fi in simp)
    then show ?thesis using c(1) True by (simp add: lexbor_dobject_free_def Let_def)
  next
    case False
    let ?d = "d\<lparr> do_cache := c \<rparr>"
    have "obj_region ?d = obj_region d" by (simp add: obj_region_def fun_eq_iff)
    then have "dobject_inv ?d L"
      unfolding dobject_inv_def by (intro exI [of _ C]) (use c(2,3) False C(3-10) in simp)
    then show ?thesis using c(1) False by (simp add: lexbor_dobject_free_def Let_def)
  qed
qed

lemma obj_init_ok:
  assumes "mm_chunks (do_mem d0) = Map.empty" "mm_blocks (do_mem d0) = Map.empty" "unat cs * unat ss \<le> 2 ^ 59"
    "lexbor_dobject_init True (Some a, Some b) True alloc d0 cs ss = (d, LXB_STATUS_OK)"
  shows "dobject_inv d {}"
proof -
  have n: "cs \<noteq> 0" "ss \<noteq> 0" using assms(4) by (auto simp: lexbor_dobject_init_def split: if_splits)
  then have pos: "0 < unat cs" "0 < unat ss" by (simp_all add: unat_gt_0)
  then have le: "unat cs \<le> unat cs * unat ss" "unat ss \<le> unat cs * unat ss" by simp_all
  have le1: "unat cs \<le> 2 ^ 59" using le(1) assms(3) by (rule order_trans)
  have le2: "unat ss \<le> 2 ^ 59" using le(2) assms(3) by (rule order_trans)
  have u: "unat (cs * ss) = unat cs * unat ss" by (rule unat_times_if_fits) (use assms(3) in simp)
  let ?n = "lexbor_mem_align (cs * ss)"
  have al: "unat (cs * ss) \<le> unat ?n" "unat ?n < unat (cs * ss) + 8" using align_ok(1,2) [of "cs * ss"] u assms(3) by simp_all
  have p0: "0 < unat (cs * ss)" unfolding u using pos by simp
  have np: "0 < unat ?n" using less_le_trans [OF p0 al(1)] .
  have n60: "unat ?n \<le> 2 ^ 60" using al(2) u assms(3) by simp
  obtain m st where m: "lexbor_mem_init (Some a, Some b) (do_mem d0) ?n = (m, st)" by fastforce
  then have mi: "mem_inv m {}" using mem_init_ok [OF assms(1,2) np n60, of "(Some a, Some b)"] by simp
  let ?c = "do_cache d0\<lparr> ar_length := 0, ar_size := cs, ar_list := Some (replicate (cells (8 * cs)) None) \<rparr>"
  have d: "d = d0\<lparr> do_allocated := 0, do_struct_size := ss, do_mem := m, do_cache := ?c \<rparr>"
    using assms(4) n m by (auto simp: lexbor_dobject_init_def lexbor_array_init_def Let_def split: if_splits)
  have "arr_inv ?c \<and> arr_abs ?c = []"
    by (rule arr_invI [of _ "replicate (unat cs) None"]) (use le1 cells_fit [of cs] in simp_all)
  then show ?thesis unfolding dobject_inv_def d
    by (intro exI [of _ "[]"]) (use mi pos(2) le2 in simp)
qed

lemma obj_clean_ok:
  assumes "dobject_inv d L"
  shows "wp (lexbor_dobject_clean d) (\<lambda>d'. dobject_inv d' {})"
proof -
  obtain C where C: "arr_inv (do_cache d)" "mem_inv (do_mem d) (obj_region d ` (L \<union> set C))"
    "0 < unat (do_struct_size d)" "unat (do_struct_size d) \<le> 2 ^ 60"
    using assms by (auto simp: dobject_inv_def)
  have "arr_inv (lexbor_array_clean (do_cache d)) \<and> arr_abs (lexbor_array_clean (do_cache d)) = []"
    using C(1) by (auto simp: lexbor_array_clean_def arr_inv_def arr_abs_def)
  then have "dobject_inv (d\<lparr> do_mem := m, do_cache := lexbor_array_clean (do_cache d), do_allocated := 0 \<rparr>) {}" if "mem_inv m {}" for m
    unfolding dobject_inv_def by (intro exI [of _ "[]"]) (use that C(3,4) in simp)
  then show ?thesis using mem_clean_ok [OF C(2)] by (auto simp: lexbor_dobject_clean_def elim!: wp_mono)
qed

section \<open>A pool in use\<close>

datatype obj_call = Ob_alloc | Ob_calloc | Ob_free ptr | Ob_clean

definition obj_do :: "mem_new \<Rightarrow> (size_t \<Rightarrow> bool) \<Rightarrow> obj_call \<Rightarrow> lexbor_dobject \<Rightarrow> (lexbor_dobject \<times> ptr option) option" where
  "obj_do new alloc call d = (case call of
     Ob_alloc \<Rightarrow> lexbor_dobject_alloc new d
   | Ob_calloc \<Rightarrow> lexbor_dobject_calloc new d
   | Ob_free p \<Rightarrow> lexbor_dobject_free alloc d (Some p)
   | Ob_clean \<Rightarrow> map_option (\<lambda>d. (d, None)) (lexbor_dobject_clean d))"

definition obj_may :: "mem_new \<Rightarrow> obj_call \<Rightarrow> lexbor_dobject \<Rightarrow> ptr set \<Rightarrow> bool" where
  "obj_may new call d L \<longleftrightarrow> fresh_new new (do_mem d) \<and> (case call of Ob_free p \<Rightarrow> p \<in> L \<and> unat (ar_length (do_cache d)) \<le> 2 ^ 59 | _ \<Rightarrow> True)"

definition objects_after :: "obj_call \<Rightarrow> ptr set \<Rightarrow> ptr option \<Rightarrow> ptr set" where
  "objects_after call L r = (case call of
     Ob_free p \<Rightarrow> if r = None then L - {p} else L
   | Ob_clean \<Rightarrow> {}
   | _ \<Rightarrow> (case r of None \<Rightarrow> L | Some p \<Rightarrow> insert p L))"

definition obj_others :: "obj_call \<Rightarrow> ptr set \<Rightarrow> ptr set" where
  "obj_others call L = (case call of Ob_clean \<Rightarrow> {} | _ \<Rightarrow> L)"

inductive dobject_session :: "lexbor_dobject \<Rightarrow> ptr set \<Rightarrow> bool" where
  os_init: "mm_chunks (do_mem d0) = Map.empty \<Longrightarrow> mm_blocks (do_mem d0) = Map.empty \<Longrightarrow> unat cs * unat ss \<le> 2 ^ 59 \<Longrightarrow>
    lexbor_dobject_init True (Some a, Some b) True alloc d0 cs ss = (d, LXB_STATUS_OK) \<Longrightarrow> dobject_session d {}"
| os_call: "dobject_session d L \<Longrightarrow> obj_may new call d L \<Longrightarrow> obj_do new alloc call d = Some (d', r) \<Longrightarrow>
    dobject_session d' (objects_after call L r)"
| os_write: "dobject_session d L \<Longrightarrow> dobject_session (d\<lparr> do_mem := do_mem d\<lparr> mm_words := w \<rparr> \<rparr>) L"

definition obj_call_ok :: "obj_call \<Rightarrow> lexbor_dobject \<Rightarrow> ptr set \<Rightarrow> lexbor_dobject \<times> ptr option \<Rightarrow> bool" where
  "obj_call_ok call d L = (\<lambda>(d', r). dobject_inv d' (objects_after call L r) \<and> obj_keeps d (obj_others call L) (do_mem d') \<and>
    (case r of None \<Rightarrow> True | Some p \<Rightarrow> p \<in> L \<longleftrightarrow> call = Ob_free p))"

lemma obj_do_ok:
  assumes inv: "dobject_inv d L" and may: "obj_may new call d L"
  shows "wp (obj_do new alloc call d) (obj_call_ok call d L)"
proof -
  have f: "fresh_new new (do_mem d)" using may by (simp add: obj_may_def)
  show ?thesis
  proof (cases call)
    case Ob_alloc
    then show ?thesis using obj_alloc_ok [OF inv f]
      by (auto simp: obj_do_def obj_call_ok_def objects_after_def obj_others_def elim!: wp_mono split: option.splits)
  next
    case Ob_calloc
    then show ?thesis using obj_calloc_ok [OF inv f]
      by (auto simp: obj_do_def obj_call_ok_def objects_after_def obj_others_def elim!: wp_mono split: option.splits)
  next
    case (Ob_free p)
    have p: "p \<in> L" "unat (ar_length (do_cache d)) + 128 \<le> 2 ^ 60" using may Ob_free by (simp_all add: obj_may_def)
    show ?thesis using obj_free_ok [OF inv p, of alloc] Ob_free p(1)
      by (auto simp: obj_do_def obj_call_ok_def objects_after_def obj_others_def obj_keeps_def elim!: wp_mono split: option.splits)
  next
    case Ob_clean
    have "wp (map_option g x) P \<longleftrightarrow> wp x (\<lambda>y. P (g y))" for g :: "lexbor_dobject \<Rightarrow> lexbor_dobject \<times> ptr option" and x P by (cases x) simp_all
    then show ?thesis using obj_clean_ok [OF inv] Ob_clean
      by (auto simp: obj_do_def obj_call_ok_def objects_after_def obj_others_def obj_keeps_def elim!: wp_mono)
  qed
qed

lemma obj_session_inv: "dobject_session d L \<Longrightarrow> dobject_inv d L"
proof (induction rule: dobject_session.induct)
  case (os_init d0 cs ss a b alloc d)
  then show ?case by (rule obj_init_ok)
next
  case (os_call d L new call alloc d' r)
  then show ?case using obj_do_ok [OF os_call.IH os_call.hyps(2), of alloc] by (simp add: obj_call_ok_def)
next
  case (os_write d L w)
  then show ?case using inv_words by blast
qed

section \<open>Properties\<close>

text \<open>C28: A call on a pool of objects in use is never undefined, whether there is memory or not; afterwards the objects that are in use
  are again in different places, aligned and in live blocks, their number is \<open>allocated\<close>, and those that were in use before keep what
  they hold.\<close>

theorem dobject_calls:
  assumes "dobject_session d L" "obj_may new call d L"
  shows "\<exists>d' r. obj_do new alloc call d = Some (d', r) \<and> dobject_session d' (objects_after call L r) \<and>
    obj_keeps d (obj_others call L) (do_mem d') \<and> lexbor_dobject_allocated d' = of_nat (card (objects_after call L r)) \<and>
    (\<forall>p \<in> objects_after call L r. in_block (do_mem d') p (unat (do_struct_size d')) \<and> snd p mod 8 = 0 \<and>
      (\<forall>q \<in> objects_after call L r. p \<noteq> q \<longrightarrow> apart (obj_region d' p) (obj_region d' q))) \<and>
    (case r of None \<Rightarrow> True | Some p \<Rightarrow> p \<in> L \<longleftrightarrow> call = Ob_free p)"
proof -
  obtain d' r where d': "obj_do new alloc call d = Some (d', r)" "obj_call_ok call d L (d', r)"
    using obj_do_ok [OF obj_session_inv [OF assms(1)] assms(2), of alloc] by (auto simp: wp_iff)
  note s = os_call [OF assms d'(1)]
  note i = obj_session_inv [OF s]
  have "lexbor_dobject_allocated d' = of_nat (card (objects_after call L r))" using i by (auto simp: dobject_inv_def lexbor_dobject_allocated_def)
  then show ?thesis using d' s obj_block [OF i] inv_apart [OF i] by (auto simp: obj_call_ok_def)
qed

text \<open>Objects of 12 bytes, eight to a chunk.\<close>

definition ex_objects :: "size_t \<Rightarrow> size_t \<Rightarrow> lexbor_dobject" where
  "ex_objects n len = \<lparr>
     do_mem = \<lparr> mm_chunks = [1 \<mapsto> \<lparr> ck_data = Some 2, ck_length = len, ck_size = 96, ck_next = None, ck_prev = None \<rparr>], mm_blocks = [2 \<mapsto> 96],
       mm_words = (\<lambda>_. None), mm_chunk = Some 1, mm_first = Some 1, mm_min_size = 96, mm_chunk_length = 1 \<rparr>,
     do_cache = \<lparr> ar_list = Some (replicate 8 None), ar_size = 8, ar_length = 0 \<rparr>, do_allocated = n, do_struct_size = 12 \<rparr>"

lemma ex_objects_init: "dobject_session (ex_objects 0 0) {}"
proof (rule os_init)
  let ?d0 = "\<lparr> do_mem = \<lparr> mm_chunks = Map.empty, mm_blocks = Map.empty, mm_words = (\<lambda>_. None), mm_chunk = None, mm_first = None,
      mm_min_size = 0, mm_chunk_length = 0 \<rparr>, do_cache = \<lparr> ar_list = None, ar_size = 0, ar_length = 0 \<rparr>, do_allocated = 0, do_struct_size = 0 \<rparr>"
  show "mm_chunks (do_mem ?d0) = Map.empty" "mm_blocks (do_mem ?d0) = Map.empty" "unat (8 :: size_t) * unat (12 :: size_t) \<le> 2 ^ 59" by simp_all
  show "lexbor_dobject_init True (Some 1, Some 2) True (\<lambda>_. True) ?d0 8 12 = (ex_objects 0 0, LXB_STATUS_OK)"
    by (simp add: lexbor_dobject_init_def lexbor_mem_init_def lexbor_mem_align_def lexbor_mem_chunk_make_def lexbor_mem_chunk_init_def
        lexbor_array_init_def cells_def block_make_def ck_empty_def ex_objects_def Let_def cong: if_cong)
qed

theorem dobject_calls_witness:
  "\<exists>d' r. obj_do (None, None) (\<lambda>_. True) Ob_calloc (ex_objects 0 0) = Some (d', r) \<and>
    lexbor_dobject_allocated d' = of_nat (card (objects_after Ob_calloc {} r))"
proof -
  have "obj_may (None, None) Ob_calloc (ex_objects 0 0) {}" by (simp add: obj_may_def fresh_new_def)
  from dobject_calls [OF ex_objects_init this, of "\<lambda>_. True"] show ?thesis by blast
qed

text \<open>The second object is at 16, because \<open>lexbor_mem_alloc\<close> hands out multiples of 8, but is looked for at 12.\<close>

lemma position_misses:
  "obj_do (None, None) (\<lambda>_. True) Ob_alloc (ex_objects 0 0) = Some (ex_objects 1 16, Some (2, 0))"
  "obj_do (None, None) (\<lambda>_. True) Ob_alloc (ex_objects 1 16) = Some (ex_objects 2 32, Some (2, 16))"
  "lexbor_dobject_by_absolute_position (ex_objects 2 32) 1 = Some (Some (2, 12))"
  by (simp_all add: obj_do_def lexbor_dobject_alloc_def lexbor_mem_alloc_def lexbor_mem_align_def cur_chunk_def chunk_take_def ck_set_def
      ex_objects_def Let_def lexbor_dobject_by_absolute_position_def word_le_nat_alt)

end
