(* ===== verification/Spec2Isabelle.thy ===== *)
theory Spec2Isabelle
  imports Tkz_Examples Lxb_Str_Spec Lxb_Html_In_Spec Chr_Spec Tgn_Spec Enc_Utf16 Tree_Scope_Spec Mem_Session Mem_Object_Spec
begin

text \<open>
  The program tgnews reads HTML pages of news, extracts their meta data, text and links, and
  sorts, groups and ranks them.  Its C code is the HTML parser lexbor
  (\<open>src/src/lexbor/source/lexbor\<close>, below \<open>lexbor\<close>): bytes arrive in chunks, the tokenizer
  cuts them into tokens, the tree construction builds a document of nodes, and the
  extraction (\<open>src/src/html_parse.hpp\<close>) searches the document for elements and reads their
  attributes and text.  This library models that path, and proves it correct part by part.

  \<^bold>\<open>Conventions.\<close>  A pointer is an address (\<open>addr\<close>, a natural number; NULL is 0, or
  \<^const>\<open>None\<close> where the code stores pointers to objects of one kind).  Objects of a kind
  live in a heap, a partial map from addresses to records with the fields of the C
  structure; a \<open>size_t\<close> is a 64 bit word and a byte an 8 bit word.  A C function becomes a
  definition in the option monad: \<^const>\<open>None\<close> stands for undefined behaviour (a read or
  write outside of live memory, a NULL dereference, a second free) and for a loop that does
  not end.  So ``the result is \<open>Some\<close>'' always says that the call returns and is
  memory safe.  Results that the code reports (\<open>lxb_status_t\<close>, NULL) are values.
  Allocations succeed or fail as an argument of the operation says.  Loops are
  \<open>partial_function (option)\<close> without fuel, or recursion on the length that is left.

  \<^bold>\<open>Prelude.\<close>  \<open>Lxb_Prelude\<close>: types, the collections of simplification and introduction
  rules, the weakest precondition \<open>wp\<close> of a computation in the option monad and its rules,
  the status codes and the constants of tags and name spaces.

  \<^bold>\<open>Incoming buffers\<close> (\<open>core/in.c\<close>, \<open>html/in.c\<close>).  \<open>Lxb_In\<close> has the doubly linked nodes, one
  per chunk; \<open>Lxb_Html_In\<close> the functions that read text over several of them.
  \<open>Lxb_In_Spec\<close> and \<open>Lxb_Html_In_Spec\<close> relate both to one flat text: positions move by
  exactly the offset asked for, a position is found in the newest buffer that has it,
  collected text is the text between two positions.

  \<^bold>\<open>Byte strings\<close> (\<open>core/str.c\<close>, \<open>core/str_res.h\<close>).  \<open>Lxb_Str\<close> has the functions on raw data
  and the tables, copied entry by entry; \<open>Lxb_Str_Spec\<close> shows that they are equality,
  prefix, substring and ASCII case mapping.

  \<^bold>\<open>Growing arrays\<close> (\<open>core/array.c\<close>).  \<open>Lxb_Array\<close> and \<open>Lxb_Array_Spec\<close>: every sequence of
  operations whose indices and ranges do not wrap around behaves as on a list, and what happens at the two
  places where sizes do wrap around.

  \<^bold>\<open>Tokenizer\<close> (\<open>html/tokenizer.c\<close>, \<open>html/tokenizer/*.c\<close>, \<open>html/token*.c\<close>).  \<open>Tkz_Base\<close>: the
  tokenizer object, tokens, attributes, errors and the macros of \<open>state.h\<close>.  \<open>Tkz_State\<close>,
  \<open>Tkz_Comment\<close>, \<open>Tkz_Doctype\<close>, \<open>Tkz_Rawtext\<close> and \<open>Tkz_Script\<close>: one definition for each of the
  84 state functions, which return the new tokenizer and the position.  \<open>Tkz_Run\<close>: the
  loops that call them.  \<open>Tkz_Chunk\<close>: taking in a chunk, with or without a copy, and
  releasing the buffers that are no longer needed; initialisation, begin, clean.
  The consumer of the tokens (in lexbor the tree construction) is the field
  \<open>callback_token_done\<close> of the environment, and the locale \<open>token_callback\<close> states what it
  may do: replace the token and choose the status and the next state.  \<open>Tkz_Inv\<close> holds the
  invariant \<open>tkz_wf\<close> and the rules for the macros, \<open>Tkz_Life\<close> the invariant between chunks
  (\<open>tkz_idle\<close>) and its proofs, \<open>Tkz_Session\<close> the inductive predicate of reachable states
  and \<open>Tkz_Examples\<close> a concrete consumer.  The theorems of the present theory say that in
  every reachable state each call of a state function, each chunk, and the end of the document
  return without touching memory outside the buffers.  Termination rests on a rank of
  the states: a call that consumes nothing lowers the rank.

  \<^bold>\<open>Document\<close> (\<open>dom/interfaces/node.c\<close>, \<open>element.c\<close>, \<open>attr.c\<close>, \<open>dom/collection.h\<close>).
  \<open>Dom_Node\<close>: nodes with five links, insertion, removal; the relation \<open>dom_rep\<close> between a
  heap and the function from nodes to lists of children.  \<open>Dom_Walk\<close>: the walk in document
  order and the deep destruction, which are loops over links.  \<open>Dom_Spec\<close>: every
  sequence of edits refines edits of lists of children, and what walking and replacing
  do.  \<open>Dom_Element\<close>: elements, attributes, the searches and the text content; \<open>Dom_Attr\<close>:
  the attribute lists; \<open>Dom_Search\<close>: the searches return exactly the matching elements
  in document order (a locale \<open>collector\<close> carries the argument, interpreted for each
  search), and what the tests of classes and attribute values decide.  The theorems about
  searches, and those about extraction and the tasks that rest on them, are for documents
  with all elements in the HTML name space (\<open>html_doc\<close>): the parser puts SVG and MathML elements into
  others, and a document with such elements is not covered.

  \<^bold>\<open>Growing strings and the text of tokens\<close> (\<open>core/str.c\<close>, \<open>html/parser_char.c\<close>, \<open>html/parser_char_ref.c\<close>).
  \<open>Lxb_String\<close>: the object \<open>lexbor_str_t\<close> over a block that may hold bytes not yet written, with the
  memory pool as a function from sizes to the sizes it hands out.  \<open>Chr_Base\<close>: the 14 state functions
  that turn the bytes of a token into its text, with character references, and the loops over
  the buffers.  \<open>Chr_Data\<close> and \<open>Chr_Spec\<close>: for text without references the result is the
  normalised text however it was cut (the locale \<open>data_states\<close> is interpreted for both variants).

  \<^bold>\<open>Encodings\<close> (\<open>encoding/decode.c\<close>, \<open>encode.c\<close>, \<open>encoding.h\<close>).  \<open>Enc_Base\<close>: the contexts and the UTF-8 functions, those that
  fill a buffer and those for one code point.  \<open>Enc_Utf8\<close>: a reference automaton that reads one byte at a time, and the
  simulation of the loops by it.  \<open>Enc_Utf8_Spec\<close>: calls, texts in chunks, the round trip, and single code points.
  \<open>Enc_Utf16\<close>: the UTF-16 functions, their round trip, and exactly when a lone surrogate makes them write behind the buffer.

  \<^bold>\<open>Extraction\<close> (\<open>src/src/html_parse.hpp\<close>).  \<open>Doc_Extract\<close>: \<open>ParseMeta\<close>, \<open>ParseText\<close>, \<open>ParseLinks\<close>
  over the document, with theorems that say what they return for a readable document (HTML elements only, and
  memory suffices).

  \<^bold>\<open>Application\<close> (\<open>src/src/*.hpp\<close>, \<open>common.h\<close>, \<open>tgnews.cpp\<close>).  \<open>Tgn_Pool\<close>: the worker threads over a
  vector, as interleaved steps; the locale \<open>worker_pool\<close> states what one turn of a loop does, and
  every schedule then computes the same vector.  \<open>Tgn_Docs\<close>: listing and loading files and
  recognising languages.  \<open>Tgn_Features\<close>: bags of words and lemma counts.  \<open>Tgn_News\<close>: detection of
  news, categories, threads, the output and the tasks of \<open>main\<close>.  \<open>Tgn_Spec\<close>: what the tasks
  print, and where they end with an exception.  Floating point arithmetic is a record of
  operations, so that nothing depends on laws that it does not have.

  \<^bold>\<open>Tree construction: stacks and scopes\<close> (\<open>html/tree.c\<close>, \<open>tree.h\<close>, \<open>tree/open_elements\<close>,
  \<open>tree/active_formatting\<close>, \<open>tag_res.h\<close>).  \<open>Tree_Tags\<close>: the table of the categories of tags, equal to the
  lists of the standard.  \<open>Tree_Stack\<close>: the object of the tree construction and the operations of its two
  stacks, which are growing arrays; what their loops compute on the list of the entries.  \<open>Tree_Scope\<close>: the
  scope searches, implied end tags, closing a paragraph, the choice of the insertion mode and of the place of
  a new node.  \<open>Tree_Scope_Spec\<close>: they compute what the standard defines on the list of open elements, and
  where they do not.

  \<^bold>\<open>Memory\<close> (\<open>core/bst.c\<close>, \<open>mem.c\<close>, \<open>mraw.c\<close>, \<open>dobject.c\<close>).  \<open>Mem_Bst\<close>: the search tree by size; \<open>Mem_Bst_Spec\<close> relates the
  entries to a tree with the context of an entry, and \<open>Mem_Bst_Use\<close> shows that sequences of operations work on stacks
  of values by size, and which operation is undefined without memory.  \<open>Mem_Pool\<close>: chunks, their blocks and the words in them; \<open>Mem_Pool_Spec\<close>: the regions handed out
  lie in live blocks and do not overlap (\<open>mem_inv\<close>).  \<open>Mem_Mraw\<close>: the pool for pieces of any size with its cache of free
  pieces; \<open>Mem_Mraw_Spec\<close> and \<open>Mem_Realloc_Spec\<close> show for each operation that the pieces of the user and of the cache stay
  apart (\<open>mraw_inv\<close>) and what is kept; \<open>Mem_Session\<close> has the pools that a user can reach, by calls that keep its rules
  (\<open>mraw_may\<close>), and the properties.  Two defects bound them: a piece that is made smaller in the middle of a chunk, other than to
  half, is not a use that keeps the rules, and \<open>Mem_Session\<close> shows what it destroys; and when the system refuses the block of an
  empty chunk the pool is lost, which the theorem about the calls states as one of their outcomes.  \<open>Mem_Object\<close> and \<open>Mem_Object_Spec\<close>: the same for the pool of objects of one size.  The other parts
  of this library do not allocate from these pools; they take the outcome of an allocation as a parameter.

  \<^bold>\<open>Parameters.\<close>  The lookup of tags by name (a hash table filled from generated data), the
  table of named references, the consumer of the tokens, the adjusted current node, the outcome
  of allocations; for the application the contents of files, the document tree of a file, the
  language identifier, the morphological analysis, the topic model and the arithmetic.

  \<^bold>\<open>Not modelled.\<close>  The insertion modes of the tree construction, the creation of elements and the
  adoption agency algorithm (\<open>html/tree\<close>); the other containers of
  \<open>core\<close> (\<open>avl.c\<close>, \<open>bst_map.c\<close>, \<open>array_obj.c\<close>, \<open>shs.c\<close>, \<open>shbst.c\<close>); CSS, serialisation and the legacy
  encodings over generated tables, which the program does not call; interface classes that only allocate an object; vendored libraries (cld3, UDPipe, BigARTM, JSON).
\<close>

section \<open>The tokenizer in use\<close>

text \<open>C1: In every state that a tokenizer reaches by being initialised and fed chunks, with
  any consumer that keeps the contract of the callback, the next chunk is processed
  completely: the call returns, reads no byte outside live buffers, frees no block
  twice, and leaves the tokenizer in a state of the same kind; when it reports an error,
  all blocks are freed (unless the option forbids it).\<close>

theorem session_chunk_safe:
  assumes "session E t" "chunk_pre blk nd E t data sz"
  shows "\<exists>E' t' st. lxb_html_tokenizer_chunk blk nd E t data sz = Some (E', t', st) \<and>
    (if st = LXB_STATUS_OK then session E' t'
     else opt t AND LXB_HTML_TOKENIZER_OPT_WO_IN_DESTROY = 0 \<longrightarrow> blocks E' = Map.empty)"
proof -
  obtain as where "token_callback E" "tkz_idle E as t"
    using session_idle [OF assms(1)] by blast
  then obtain E' t' st where "lxb_html_tokenizer_chunk blk nd E t data sz = Some (E', t', st)"
    "chunk_post E t (E', t', st)"
    using chunk_ok [of E as t blk nd data sz] assms(2) unfolding wp_iff by fastforce
  then show ?thesis
    using session_chunk [OF assms] by (auto simp: chunk_post_def)
qed

theorem session_chunk_safe_witness:
  "\<exists>E' t' st. lxb_html_tokenizer_chunk (Some 100) (Some 1) (ex_env [0x3C, 0x61, 0x3E]) (ex_tkz 0) 16 3 = Some (E', t', st)"
  using session_chunk_safe [OF ex_session ex_pre [of "[0x3C, 0x61, 0x3E]" 3]] by auto

text \<open>C3: In every such state in which there is text, the end of the document can be signalled:
  the call returns, and unless it reports an error there is a token for the next use.\<close>

theorem session_end_returns:
  assumes "session E t" "incoming_node t \<noteq> None"
  shows "\<exists>t' st. lxb_html_tokenizer_end E t = Some (t', st) \<and> st = status t' \<and>
    (st = LXB_STATUS_OK \<longrightarrow> token t' \<noteq> None)"
proof -
  obtain as where as: "token_callback E" "tkz_idle E as t"
    using session_idle [OF assms(1)] by blast
  moreover have "as \<noteq> []" using as(2) assms(2) by (auto simp: tkz_idle_def)
  ultimately show ?thesis by (rule end_ok)
qed

theorem session_end_returns_witness:
  "\<exists>(E :: html_token list env) t. session E t \<and> (\<exists>t' st. lxb_html_tokenizer_end E t = Some (t', st))"
proof -
  obtain E :: "html_token list env" and t where "session E t" "incoming_node t = Some 1"
    using ex_fed by blast
  moreover from this have "\<exists>t' st. lxb_html_tokenizer_end E t = Some (t', st)"
    using session_end_returns [of E t] by blast
  ultimately show ?thesis by blast
qed

text \<open>In every such state the invariant holds: the buffers form a doubly linked chain over
  readable and pairwise disjoint memory, the blocks that are allocated are exactly those
  of the buffers, and what the current state function will dereference is there.\<close>

theorem session_invariant:
  assumes "session E t"
  shows "\<exists>as. tkz_idle E as t"
  using session_idle [OF assms] by blast

theorem session_invariant_witness: "\<exists>as. tkz_idle (ex_env [0x3C]) as (ex_tkz 0)"
  by (rule session_invariant [OF ex_session])

section \<open>One call of a state function\<close>

text \<open>C2: Each of the 84 state functions, called on a well-formed tokenizer inside a buffer,
  returns, does not move backwards, moves at most to the end of the buffer (one byte
  further for the two functions that resume a split doctype keyword), leaves the buffers
  alone, and either fails with an error at the end of the buffer or leaves the tokenizer
  well formed, having consumed a byte or lowered the rank of the state.\<close>

theorem state_call_contract:
  assumes "token_callback E" "tkz_wf E as fin t d" "d < fin"
  shows "\<exists>t' d'. state_call (state t) E t d fin = Some (t', d') \<and>
    d \<le> d' \<and> d' \<le> step_bound (state t) fin \<and> keeps t t' \<and>
    (if status t' = LXB_STATUS_OK
     then tkz_wf E as fin t' d' \<and>
       (d' = d \<longrightarrow> srank (name_ends (mem E d) (is_eof t)) (state t') < srank (name_ends (mem E d) (is_eof t)) (state t))
     else d' = fin)"
  using token_callback.state_call_ok [OF assms] by (fastforce simp: wp_iff step_post_def)

theorem state_call_contract_witness:
  "\<exists>t' d'. state_call S_data_before (ex_env [0x78]) (ex_fed_tkz [0x78]) 16 17 = Some (t', d') \<and> 16 \<le> d' \<and> d' \<le> 17"
  using state_call_contract [OF ex_callback ex_fed_wf [of "[0x78]"]]
  by (auto simp: ex_fed_tkz_def ex_tkz_def step_bound_def)

text \<open>C4: The loop that calls the state functions until the buffer is consumed ends, on every
  buffer and from every well-formed tokenizer.\<close>

theorem run_loop_terminates:
  assumes "token_callback E" "tkz_wf E as fin t d"
  shows "\<exists>t'. run_loop E t d fin = Some t' \<and> keeps t t'"
  using token_callback.run_loop_ok [OF assms] by blast

theorem run_loop_terminates_witness:
  "\<exists>t'. run_loop (ex_env [0x3C, 0x21, 0x5B]) (ex_fed_tkz [0x3C, 0x21, 0x5B]) 16 19 = Some t'"
  using run_loop_terminates [OF ex_callback ex_fed_wf [of "[0x3C, 0x21, 0x5B]"]] by auto

section \<open>Memory of the chunks\<close>

text \<open>C5: Erasing the buffers of an idle tokenizer returns, frees every block exactly once (a
  second free of a block is undefined in the model) and leaves neither a block nor a
  buffer.\<close>

theorem erase_incoming_frees_all:
  assumes "tkz_idle E as t"
  shows "\<exists>E' t'. lxb_html_tokenizer_erase_incoming E t = Some (E', t') \<and> blocks E' = Map.empty \<and>
    incoming_first t' = None \<and> (\<forall>a \<in> set as. in_nodes t' a = None)"
proof -
  obtain E' t' where "lxb_html_tokenizer_erase_incoming E t = Some (E', t')" "blocks E' = Map.empty"
    "t' = t\<lparr> in_nodes := in_nodes t |` (- set as), incoming_first := None \<rparr>"
    by (rule erase_ok [of t "incoming_node t" as E]) (use assms in \<open>auto simp: tkz_idle_def\<close>)
  then show ?thesis by (simp add: restrict_map_def)
qed

theorem erase_incoming_frees_all_witness:
  "\<exists>(E :: html_token list env) t as. tkz_idle E as t \<and> (\<exists>E' t'. lxb_html_tokenizer_erase_incoming E t = Some (E', t') \<and> blocks E' = Map.empty)"
proof -
  obtain E :: "html_token list env" and t where "session E t" using ex_fed by blast
  then obtain as where "tkz_idle E as t" using session_idle by blast
  with erase_incoming_frees_all [OF this] show ?thesis by blast
qed

end
